(* ===== verification/Mrn_Prelude.thy ===== *)
theory Mrn_Prelude
  imports Main "HOL-Library.Word" "HOL-Library.Sublist"
begin

text \<open>
  What the components of the development share: the C string functions the sources call
  (\<^verbatim>\<open>strchr\<close>, \<^verbatim>\<open>strrchr\<close>, \<^verbatim>\<open>strstr\<close>, \<^verbatim>\<open>strcasecmp\<close>) on strings without their terminating
  NUL, byte buffers with bounded reads and writes (an access outside the buffer is \<^const>\<open>None\<close>),
  the \<^verbatim>\<open>memcmp\<close> order of keys and its arithmetic reading, and a store of results that the
  sources compute once and keep.
\<close>

named_theorems cstr_simps \<open>evaluation of C string functions\<close>
named_theorems buf_simps \<open>reads and writes of byte buffers\<close>

type_synonym byte = "8 word"

section \<open>C strings\<close>

text \<open>A C string is modelled by its characters without the terminating NUL; reading at the
  length reads that NUL.\<close>

abbreviation NUL :: char where "NUL \<equiv> CHR 0x00"

definition c_at :: "string \<Rightarrow> nat \<Rightarrow> char" where
  "c_at s i = (if i < length s then s ! i else NUL)"

definition c_str :: "string \<Rightarrow> string" where
  "c_str s = takeWhile (\<lambda>c. c \<noteq> NUL) s"

primrec strchr :: "string \<Rightarrow> char \<Rightarrow> nat option" where
  "strchr [] c = None"
| "strchr (x # xs) c = (if x = c then Some 0 else map_option Suc (strchr xs c))"

definition strrchr :: "string \<Rightarrow> char \<Rightarrow> nat option" where
  "strrchr s c = map_option (\<lambda>i. length s - 1 - i) (strchr (rev s) c)"

primrec strstr :: "string \<Rightarrow> string \<Rightarrow> nat option" where
  "strstr [] p = (if p = [] then Some 0 else None)"
| "strstr (x # xs) p = (if prefix p (x # xs) then Some 0 else map_option Suc (strstr xs p))"

definition tolower :: "char \<Rightarrow> char" where
  "tolower c = (let n = of_char c :: nat in if 65 \<le> n \<and> n \<le> 90 then char_of (n + 32) else c)"

definition strcaseeq :: "string \<Rightarrow> string \<Rightarrow> bool" where
  "strcaseeq s t \<longleftrightarrow> map tolower s = map tolower t"

lemma c_at_Cons_0 [simp, cstr_simps]: "c_at (x # xs) 0 = x"
  by (simp add: c_at_def)

lemma c_at_Nil [simp, cstr_simps]: "c_at [] i = NUL"
  by (simp add: c_at_def)

lemma c_at_Cons_Suc [simp, cstr_simps]: "c_at (x # xs) (Suc i) = c_at xs i"
  by (simp add: c_at_def)

lemma c_at_append_same [simp]: "c_at (xs @ y # ys) (length xs) = y"
  by (simp add: c_at_def)

lemma c_str_id: "NUL \<notin> set s \<Longrightarrow> c_str s = s"
  by (auto simp: c_str_def takeWhile_eq_all_conv)

lemma strchr_None_iff: "strchr s c = None \<longleftrightarrow> c \<notin> set s"
  by (induction s) auto

lemma strchr_append [simp]: "c \<notin> set xs \<Longrightarrow> strchr (xs @ c # ys) c = Some (length xs)"
  by (induction xs) auto

lemma strchr_Some_iff:
  "strchr s c = Some i \<longleftrightarrow> i < length s \<and> s ! i = c \<and> c \<notin> set (take i s)"
proof (induction s arbitrary: i)
  case Nil
  then show ?case by simp
next
  case (Cons x xs)
  then show ?case by (cases i) auto
qed

lemma strchr_SomeD:
  assumes "strchr s c = Some i"
  shows "s = take i s @ c # drop (Suc i) s" "c \<notin> set (take i s)" "i < length s"
proof -
  from assms have i: "i < length s" and c: "s ! i = c" and n: "c \<notin> set (take i s)"
    by (auto simp: strchr_Some_iff)
  from id_take_nth_drop [OF i] c show "s = take i s @ c # drop (Suc i) s" by simp
  from n i show "c \<notin> set (take i s)" "i < length s" by simp_all
qed

lemma strrchr_append [simp]: "c \<notin> set ys \<Longrightarrow> strrchr (xs @ c # ys) c = Some (length xs)"
  by (simp add: strrchr_def)

lemma strrchr_None [simp]: "c \<notin> set s \<Longrightarrow> strrchr s c = None"
  using strchr_None_iff [of "rev s" c] by (simp add: strrchr_def)

lemma strstr_None_iff: "strstr s p = None \<longleftrightarrow> \<not> sublist p s"
  by (induction s) (auto simp: sublist_Cons_right)

lemma strstr_prefix_drop: "strstr s p = Some i \<Longrightarrow> i \<le> length s \<and> prefix p (drop i s)"
  by (induction s arbitrary: i) (auto split: if_splits)

lemma strstr_append:
  assumes "c \<notin> set xs"
  shows "strstr (xs @ (c # p) @ ys) (c # p) = Some (length xs)"
  using assms
proof (induction xs)
  case Nil
  then show ?case by simp
next
  case (Cons x xs)
  then have "x \<noteq> c" by auto
  with Cons show ?case by simp
qed

lemma strcaseeq_refl [simp]: "strcaseeq s s"
  by (simp add: strcaseeq_def)

section \<open>Byte buffers\<close>

text \<open>
  A buffer is the list of the bytes of an allocated array. Reading or writing outside it is
  undefined behaviour in C and \<^const>\<open>None\<close> here.
\<close>

definition read_at :: "'a list \<Rightarrow> nat \<Rightarrow> nat \<Rightarrow> 'a list option" where
  "read_at buf off n = (if off + n \<le> length buf then Some (take n (drop off buf)) else None)"

definition write_at :: "'a list \<Rightarrow> nat \<Rightarrow> 'a list \<Rightarrow> 'a list option" where
  "write_at buf off bs =
     (if off + length bs \<le> length buf
      then Some (take off buf @ bs @ drop (off + length bs) buf) else None)"

lemma write_at_length [buf_simps]: "write_at buf off bs = Some buf' \<Longrightarrow> length buf' = length buf"
  by (auto simp: write_at_def split: if_splits)

lemma write_at_take [buf_simps]: "write_at buf off bs = Some buf' \<Longrightarrow> take off buf' = take off buf"
  by (auto simp: write_at_def split: if_splits)

lemma write_at_split:
  assumes "off + length bs \<le> length buf"
  obtains buf' where "write_at buf off bs = Some buf'" "length buf' = length buf"
    "take off buf' = take off buf" "take (length bs) (drop off buf') = bs"
    "drop (off + length bs) buf' = drop (off + length bs) buf"
  using assms by (auto simp: write_at_def)

lemma write_at_write_at:
  assumes "write_at buf off xs = Some buf1"
  shows "write_at buf1 (off + length xs) ys = write_at buf off (xs @ ys)"
proof -
  from assms have le: "off + length xs \<le> length buf"
    and b1: "buf1 = take off buf @ xs @ drop (off + length xs) buf"
    by (auto simp: write_at_def split: if_splits)
  from le have len: "length buf1 = length buf" by (simp add: b1)
  from le have "take (off + length xs) buf1 = take off buf @ xs" by (simp add: b1)
  moreover from le have "drop (off + length xs + length ys) buf1 = drop (off + length xs + length ys) buf"
    by (simp add: b1 add.commute add.left_commute)
  ultimately show ?thesis by (simp add: write_at_def len add.assoc)
qed

lemma take_write_at:
  assumes "write_at buf off bs = Some buf'"
  shows "take (off + length bs) buf' = take off buf @ bs"
  using assms by (auto simp: write_at_def split: if_splits)

section \<open>The order of keys\<close>

text \<open>Groonga compares the keys of a patricia trie byte by byte, as \<^verbatim>\<open>memcmp\<close> does.\<close>

fun memcmp_less :: "byte list \<Rightarrow> byte list \<Rightarrow> bool" where
  "memcmp_less (x # xs) (y # ys) = (x < y \<or> x = y \<and> memcmp_less xs ys)"
| "memcmp_less _ _ = False"

primrec le_val :: "byte list \<Rightarrow> nat" where
  "le_val [] = 0"
| "le_val (b # bs) = unat b + 256 * le_val bs"

definition be_val :: "byte list \<Rightarrow> nat" where
  "be_val bs = le_val (rev bs)"

lemma unat_byte_less: "unat (b :: byte) < 256"
  using unsigned_less [of b] by simp

lemma le_val_append: "le_val (xs @ ys) = le_val xs + 256 ^ length xs * le_val ys"
  by (induction xs) (auto simp: algebra_simps)

lemma be_val_Nil [simp]: "be_val [] = 0"
  by (simp add: be_val_def)

lemma be_val_Cons: "be_val (b # bs) = unat b * 256 ^ length bs + be_val bs"
  by (simp add: be_val_def le_val_append)

lemma le_val_less: "le_val bs < 256 ^ length bs"
proof (induction bs)
  case (Cons b bs)
  have "unat b + 256 * v < 256 * p" if "v < p" for v p :: nat
    using unat_byte_less [of b] that by linarith
  from this [OF Cons.IH] show ?case by simp
qed simp

lemma be_val_less: "be_val bs < 256 ^ length bs"
  using le_val_less [of "rev bs"] by (simp add: be_val_def)

text \<open>For keys of one length, byte order is the order of the big-endian numbers.\<close>

lemma memcmp_less_be_val:
  "length xs = length ys \<Longrightarrow> memcmp_less xs ys \<longleftrightarrow> be_val xs < be_val ys"
proof (induction xs ys rule: list_induct2)
  case (Cons x xs y ys)
  let ?B = "256 ^ length ys :: nat"
  have bx: "be_val xs < ?B" and by': "be_val ys < ?B"
    using be_val_less [of xs] be_val_less [of ys] Cons.hyps by simp_all
  consider "x < y" | "x = y" | "y < x" by (rule linorder_cases)
  then show ?case
  proof cases
    case 1
    then have "unat x + 1 \<le> unat y" by (simp add: word_less_nat_alt)
    then have "(unat x + 1) * ?B \<le> unat y * ?B" by (rule mult_le_mono1)
    with bx 1 Cons.hyps show ?thesis by (simp add: be_val_Cons)
  next
    case 2
    with Cons show ?thesis by (simp add: be_val_Cons)
  next
    case 3
    then have "unat y + 1 \<le> unat x" by (simp add: word_less_nat_alt)
    then have "(unat y + 1) * ?B \<le> unat x * ?B" by (rule mult_le_mono1)
    with by' 3 Cons.hyps show ?thesis by (auto simp: be_val_Cons)
  qed
qed simp

lemma memcmp_less_append:
  "length xs = length ys \<Longrightarrow>
     memcmp_less (xs @ us) (ys @ vs) \<longleftrightarrow> memcmp_less xs ys \<or> xs = ys \<and> memcmp_less us vs"
  by (induction xs ys rule: list_induct2) auto

lemma le_val_inject:
  "length xs = length ys \<Longrightarrow> le_val xs = le_val ys \<longleftrightarrow> xs = ys"
proof (induction xs ys rule: list_induct2)
  case (Cons x xs y ys)
  have "unat x + 256 * a = unat y + 256 * b \<longleftrightarrow> unat x = unat y \<and> a = b" for a b :: nat
  proof
    assume eq: "unat x + 256 * a = unat y + 256 * b"
    have "(unat x + 256 * a) mod 256 = unat x" "(unat y + 256 * b) mod 256 = unat y"
      using unat_byte_less [of x] unat_byte_less [of y] by simp_all
    with eq have "unat x = unat y" by simp
    with eq show "unat x = unat y \<and> a = b" by simp
  qed simp
  with Cons.IH show ?case by (simp add: word_unat_eq_iff)
qed simp

section \<open>Results computed once\<close>

text \<open>
  An accessor that returns a stored result when there is one and otherwise computes and stores
  it. The client of such an accessor sees one fixed value, however often and in whatever order
  it and other accessors are called.
\<close>

locale memoised_accessor =
  fixes get :: "'s \<Rightarrow> 'r \<times> 's"
    and result :: "'s \<Rightarrow> 'r"
    and coherent :: "'s \<Rightarrow> bool"
  assumes get_result: "coherent s \<Longrightarrow> fst (get s) = result s"
    and get_coherent: "coherent s \<Longrightarrow> coherent (snd (get s))"
    and get_stable: "coherent s \<Longrightarrow> result (snd (get s)) = result s"
begin

primrec get_many :: "nat \<Rightarrow> 's \<Rightarrow> 'r list \<times> 's" where
  "get_many 0 s = ([], s)"
| "get_many (Suc n) s = (let (r, s1) = get s; (rs, s2) = get_many n s1 in (r # rs, s2))"

lemma get_many_constant:
  "coherent s \<Longrightarrow> fst (get_many n s) = replicate n (result s)"
proof (induction n arbitrary: s)
  case (Suc n)
  obtain r s1 where g: "get s = (r, s1)" by force
  with Suc.prems have "r = result s" "coherent s1" "result s1 = result s"
    using get_result [of s] get_coherent [of s] get_stable [of s] by simp_all
  moreover from Suc.IH [of s1] calculation have "fst (get_many n s1) = replicate n (result s)"
    by simp
  ultimately show ?case by (cases "get_many n s1") (simp add: g)
qed simp

lemma get_twice: "coherent s \<Longrightarrow> fst (get (snd (get s))) = fst (get s)"
  by (simp add: get_result get_coherent get_stable)

end


section \<open>Sequences of calls\<close>

text \<open>
  Running a sequence of calls on a state: a call that is not allowed ends the run, and so does a call that faults.
\<close>

primrec run_calls :: "('op \<Rightarrow> 's \<Rightarrow> 's option) \<Rightarrow> ('op \<Rightarrow> 's \<Rightarrow> bool) \<Rightarrow> 'op list \<Rightarrow> 's \<Rightarrow> 's option" where
  "run_calls step allowed [] s = Some s"
| "run_calls step allowed (c # cs) s = (if allowed c s then Option.bind (step c s) (run_calls step allowed cs) else None)"

text \<open>Which calls of a sequence are allowed, as far as it runs.\<close>

primrec allowed_calls :: "('op \<Rightarrow> 's \<Rightarrow> 's option) \<Rightarrow> ('op \<Rightarrow> 's \<Rightarrow> bool) \<Rightarrow> 'op list \<Rightarrow> 's \<Rightarrow> bool" where
  "allowed_calls step allowed [] s \<longleftrightarrow> True"
| "allowed_calls step allowed (c # cs) s \<longleftrightarrow> allowed c s \<and> (case step c s of None \<Rightarrow> True | Some t \<Rightarrow> allowed_calls step allowed cs t)"

text \<open>A component whose calls keep an invariant of its state.\<close>

locale guarded_system =
  fixes step :: "'op \<Rightarrow> 's \<Rightarrow> 's option"
    and allowed :: "'op \<Rightarrow> 's \<Rightarrow> bool"
    and inv :: "'s \<Rightarrow> bool"
  assumes step_inv: "inv s \<Longrightarrow> allowed c s \<Longrightarrow> step c s = Some t \<Longrightarrow> inv t"
begin

lemma run_inv: "run_calls step allowed cs s = Some t \<Longrightarrow> inv s \<Longrightarrow> inv t"
  by (induction cs arbitrary: s) (auto split: if_splits bind_splits intro: step_inv)

lemma run_append: "run_calls step allowed (cs @ ds) s = Option.bind (run_calls step allowed cs s) (run_calls step allowed ds)"
  by (induction cs arbitrary: s) (auto split: bind_splits)

end

text \<open>A component whose allowed calls, besides, never fault.\<close>

locale safe_system = guarded_system +
  assumes step_safe: "inv s \<Longrightarrow> allowed c s \<Longrightarrow> step c s \<noteq> None"
begin

lemma run_safe:
  assumes "inv s" "allowed_calls step allowed cs s"
  shows "\<exists>t. run_calls step allowed cs s = Some t \<and> inv t"
  using assms
proof (induction cs arbitrary: s)
  case (Cons c cs)
  obtain u where u: "step c s = Some u" using step_safe [of s c] Cons.prems by auto
  then have "inv u" using step_inv [of s c u] Cons.prems by simp
  then show ?case using Cons.IH [of u] Cons.prems u by simp
qed simp

end

end
