(* ===== verification/Path_Mapper.thy ===== *)
theory Path_Mapper
  imports Mrn_Prelude
begin

text \<open>
  \<^verbatim>\<open>mrn::PathMapper\<close> (lib/mrn_path_mapper.cpp): from the path MySQL hands to the handler
  (\<^verbatim>\<open>./db/table\<close>, or an absolute path) to the path of the Groonga database file, the
  database name, the Groonga table name and the MySQL table name. Every accessor keeps its
  result in the object and returns the kept string when it is not empty; the object is the
  record \<open>path_mapper\<close>, the kept strings are its \<open>kept_\<close> fields.
\<close>

section \<open>State\<close>

abbreviation FN_LIBCHAR :: char where "FN_LIBCHAR \<equiv> CHR ''/''"
abbreviation FN_CURLIB :: char where "FN_CURLIB \<equiv> CHR ''.''"

definition MRN_DB_FILE_SUFFIX :: string where
  "MRN_DB_FILE_SUFFIX = ''.mrn''"

record path_mapper =
  original_mysql_path :: string
  path_prefix :: "string option"
  mysql_data_home_path :: "string option"
  kept_db_path :: string
  kept_db_name :: string
  kept_table_name :: string
  kept_mysql_table_name :: string
  kept_mysql_path :: string

definition PathMapper :: "string \<Rightarrow> string option \<Rightarrow> string option \<Rightarrow> path_mapper" where
  "PathMapper path pre home =
     \<lparr>original_mysql_path = path, path_prefix = pre, mysql_data_home_path = home,
      kept_db_path = [], kept_db_name = [], kept_table_name = [], kept_mysql_table_name = [],
      kept_mysql_path = []\<rparr>"

section \<open>Operations\<close>

text \<open>The database part of a path: what lies before the next separator.\<close>

definition is_relative_path :: "string \<Rightarrow> bool" where
  "is_relative_path p \<longleftrightarrow> c_at p 0 = FN_CURLIB \<and> c_at p 1 = FN_LIBCHAR"

definition db_name_under_home :: "string \<Rightarrow> string \<Rightarrow> string option" where
  "db_name_under_home path home =
     (if length path > length home \<and> take (length home) path = home
      then map_option (\<lambda>e. take e (drop (length home) path)) (strchr (drop (length home) path) FN_LIBCHAR)
      else None)"

definition relative_db_name :: "string \<Rightarrow> string" where
  "relative_db_name path =
     (let db_name = drop 2 path in
      case strchr db_name FN_LIBCHAR of Some e \<Rightarrow> take e db_name | None \<Rightarrow> db_name)"

definition compute_db_path :: "path_mapper \<Rightarrow> string" where
  "compute_db_path pm =
     (let path = original_mysql_path pm in
      (if is_relative_path path then
         (case path_prefix pm of Some pre \<Rightarrow> pre | None \<Rightarrow> []) @ relative_db_name path
       else case mysql_data_home_path pm of
         Some home \<Rightarrow>
           (case db_name_under_home path home of
              Some db_name \<Rightarrow>
                (case path_prefix pm of
                   Some pre \<Rightarrow>
                     if c_at pre 0 = FN_LIBCHAR then pre
                     else if c_at pre 0 = FN_CURLIB \<and> c_at pre 1 = FN_LIBCHAR
                     then home @ drop 2 pre
                     else home @ pre
                 | None \<Rightarrow> home) @ db_name
            | None \<Rightarrow> path)
       | None \<Rightarrow> path)
      @ MRN_DB_FILE_SUFFIX)"

definition db_path :: "path_mapper \<Rightarrow> string \<times> path_mapper" where
  "db_path pm =
     (if kept_db_path pm \<noteq> [] then (kept_db_path pm, pm)
      else let r = compute_db_path pm in (r, pm\<lparr>kept_db_path := r\<rparr>))"

definition compute_db_name :: "path_mapper \<Rightarrow> string" where
  "compute_db_name pm =
     (let path = original_mysql_path pm in
      if is_relative_path path then relative_db_name path
      else case mysql_data_home_path pm of
        Some home \<Rightarrow> (case db_name_under_home path home of Some db_name \<Rightarrow> db_name | None \<Rightarrow> path)
      | None \<Rightarrow> path)"

definition db_name :: "path_mapper \<Rightarrow> string \<times> path_mapper" where
  "db_name pm =
     (if kept_db_name pm \<noteq> [] then (kept_db_name pm, pm)
      else let r = compute_db_name pm in (r, pm\<lparr>kept_db_name := r\<rparr>))"

text \<open>What follows the last separator.\<close>

definition base_name :: "string \<Rightarrow> string" where
  "base_name path = (case strrchr path FN_LIBCHAR of Some i \<Rightarrow> drop (Suc i) path | None \<Rightarrow> path)"

definition encode_first_underscore :: "string \<Rightarrow> string" where
  "encode_first_underscore name =
     (if c_at name 0 = CHR ''_'' then ''@005f'' @ tl name else name)"

definition compute_table_name :: "path_mapper \<Rightarrow> string" where
  "compute_table_name pm = encode_first_underscore (base_name (original_mysql_path pm))"

definition table_name :: "path_mapper \<Rightarrow> string \<times> path_mapper" where
  "table_name pm =
     (if kept_table_name pm \<noteq> [] then (kept_table_name pm, pm)
      else let r = compute_table_name pm in (r, pm\<lparr>kept_table_name := r\<rparr>))"

definition without_partition :: "string \<Rightarrow> string" where
  "without_partition s = (case strstr s ''#P#'' of Some i \<Rightarrow> take i s | None \<Rightarrow> s)"

definition compute_mysql_table_name :: "path_mapper \<Rightarrow> string" where
  "compute_mysql_table_name pm = without_partition (base_name (original_mysql_path pm))"

definition mysql_table_name :: "path_mapper \<Rightarrow> string \<times> path_mapper" where
  "mysql_table_name pm =
     (if kept_mysql_table_name pm \<noteq> [] then (kept_mysql_table_name pm, pm)
      else let r = compute_mysql_table_name pm in (r, pm\<lparr>kept_mysql_table_name := r\<rparr>))"

definition compute_mysql_path :: "path_mapper \<Rightarrow> string" where
  "compute_mysql_path pm = without_partition (original_mysql_path pm)"

definition mysql_path :: "path_mapper \<Rightarrow> string \<times> path_mapper" where
  "mysql_path pm =
     (if kept_mysql_path pm \<noteq> [] then (kept_mysql_path pm, pm)
      else let r = compute_mysql_path pm in (r, pm\<lparr>kept_mysql_path := r\<rparr>))"

definition is_internal_table_name :: "path_mapper \<Rightarrow> bool \<times> path_mapper" where
  "is_internal_table_name pm = (let (n, pm') = mysql_table_name pm in (c_at n 0 = CHR ''#'', pm'))"

section \<open>The kept results\<close>

text \<open>A mapper is coherent when every kept string is empty or the one its accessor computes.\<close>

definition coherent :: "path_mapper \<Rightarrow> bool" where
  "coherent pm \<longleftrightarrow>
     (kept_db_path pm = [] \<or> kept_db_path pm = compute_db_path pm) \<and>
     (kept_db_name pm = [] \<or> kept_db_name pm = compute_db_name pm) \<and>
     (kept_table_name pm = [] \<or> kept_table_name pm = compute_table_name pm) \<and>
     (kept_mysql_table_name pm = [] \<or> kept_mysql_table_name pm = compute_mysql_table_name pm) \<and>
     (kept_mysql_path pm = [] \<or> kept_mysql_path pm = compute_mysql_path pm)"

lemmas accessor_defs = db_path_def db_name_def table_name_def mysql_table_name_def mysql_path_def
lemmas compute_defs = compute_db_path_def compute_db_name_def compute_table_name_def
  compute_mysql_table_name_def compute_mysql_path_def

lemma compute_frame [simp]:
  "compute_db_path (pm\<lparr>kept_db_path := r\<rparr>) = compute_db_path pm"
  "compute_db_path (pm\<lparr>kept_db_name := r\<rparr>) = compute_db_path pm"
  "compute_db_path (pm\<lparr>kept_table_name := r\<rparr>) = compute_db_path pm"
  "compute_db_path (pm\<lparr>kept_mysql_table_name := r\<rparr>) = compute_db_path pm"
  "compute_db_path (pm\<lparr>kept_mysql_path := r\<rparr>) = compute_db_path pm"
  "compute_db_name (pm\<lparr>kept_db_path := r\<rparr>) = compute_db_name pm"
  "compute_db_name (pm\<lparr>kept_db_name := r\<rparr>) = compute_db_name pm"
  "compute_db_name (pm\<lparr>kept_table_name := r\<rparr>) = compute_db_name pm"
  "compute_db_name (pm\<lparr>kept_mysql_table_name := r\<rparr>) = compute_db_name pm"
  "compute_db_name (pm\<lparr>kept_mysql_path := r\<rparr>) = compute_db_name pm"
  "compute_table_name (pm\<lparr>kept_db_path := r\<rparr>) = compute_table_name pm"
  "compute_table_name (pm\<lparr>kept_db_name := r\<rparr>) = compute_table_name pm"
  "compute_table_name (pm\<lparr>kept_table_name := r\<rparr>) = compute_table_name pm"
  "compute_table_name (pm\<lparr>kept_mysql_table_name := r\<rparr>) = compute_table_name pm"
  "compute_table_name (pm\<lparr>kept_mysql_path := r\<rparr>) = compute_table_name pm"
  "compute_mysql_table_name (pm\<lparr>kept_db_path := r\<rparr>) = compute_mysql_table_name pm"
  "compute_mysql_table_name (pm\<lparr>kept_db_name := r\<rparr>) = compute_mysql_table_name pm"
  "compute_mysql_table_name (pm\<lparr>kept_table_name := r\<rparr>) = compute_mysql_table_name pm"
  "compute_mysql_table_name (pm\<lparr>kept_mysql_table_name := r\<rparr>) = compute_mysql_table_name pm"
  "compute_mysql_table_name (pm\<lparr>kept_mysql_path := r\<rparr>) = compute_mysql_table_name pm"
  "compute_mysql_path (pm\<lparr>kept_db_path := r\<rparr>) = compute_mysql_path pm"
  "compute_mysql_path (pm\<lparr>kept_db_name := r\<rparr>) = compute_mysql_path pm"
  "compute_mysql_path (pm\<lparr>kept_table_name := r\<rparr>) = compute_mysql_path pm"
  "compute_mysql_path (pm\<lparr>kept_mysql_table_name := r\<rparr>) = compute_mysql_path pm"
  "compute_mysql_path (pm\<lparr>kept_mysql_path := r\<rparr>) = compute_mysql_path pm"
  by (simp_all add: compute_defs Let_def cong: option.case_cong if_cong)

lemma coherent_PathMapper: "coherent (PathMapper p x h)"
  by (simp add: coherent_def PathMapper_def)

interpretation db_path: memoised_accessor db_path compute_db_path coherent
  by unfold_locales (auto simp: accessor_defs coherent_def Let_def)

interpretation db_name: memoised_accessor db_name compute_db_name coherent
  by unfold_locales (auto simp: accessor_defs coherent_def Let_def)

interpretation table_name: memoised_accessor table_name compute_table_name coherent
  by unfold_locales (auto simp: accessor_defs coherent_def Let_def)

interpretation mysql_table_name: memoised_accessor mysql_table_name compute_mysql_table_name coherent
  by unfold_locales (auto simp: accessor_defs coherent_def Let_def)

interpretation mysql_path: memoised_accessor mysql_path compute_mysql_path coherent
  by unfold_locales (auto simp: accessor_defs coherent_def Let_def)

section \<open>Properties\<close>

lemma base_name_append [simp]:
  "FN_LIBCHAR \<notin> set t \<Longrightarrow> base_name (p @ FN_LIBCHAR # t) = t"
  by (simp add: base_name_def)

lemma is_relative_path_dot [simp]: "is_relative_path (CHR ''.'' # CHR ''/'' # p)"
  by (simp add: is_relative_path_def c_at_def)

lemma relative_db_name_append [simp]:
  "FN_LIBCHAR \<notin> set db \<Longrightarrow> relative_db_name (x # y # db @ FN_LIBCHAR # t) = db"
  by (simp add: relative_db_name_def)

lemma relative_db_name_no_table:
  "FN_LIBCHAR \<notin> set db \<Longrightarrow> relative_db_name (x # y # db) = db"
  using strchr_None_iff [of db FN_LIBCHAR] by (simp add: relative_db_name_def)

lemma encode_first_underscore_hd: "c_at (encode_first_underscore n) 0 \<noteq> CHR ''_''"
  by (simp add: encode_first_underscore_def c_at_def)

lemma encode_first_underscore_inj:
  assumes "encode_first_underscore n = encode_first_underscore m"
    and "\<not> prefix ''@005f'' n" and "\<not> prefix ''@005f'' m"
  shows "n = m"
proof -
  have "k = CHR ''_'' # tl k" if "c_at k 0 = CHR ''_''" for k
    using that by (cases k) simp_all
  with assms show ?thesis
    by (metis append_Nil2 encode_first_underscore_def prefixI same_append_eq)
qed

lemma base_name_relative:
  assumes "FN_LIBCHAR \<notin> set t"
  shows "base_name (''./'' @ db @ ''/'' @ t) = t"
  using base_name_append [OF assms, of "''./'' @ db"] by simp

lemma without_partition_append:
  assumes "CHR ''#'' \<notin> set s"
  shows "without_partition (s @ ''#P#'' @ p) = s"
  using strstr_append [OF assms, of "''P#''" p] by (simp add: without_partition_def)

lemma db_name_under_home_append:
  "FN_LIBCHAR \<notin> set db \<Longrightarrow> db_name_under_home (home @ db @ FN_LIBCHAR # t) home = Some db"
  by (simp add: db_name_under_home_def)

text \<open>For the relative path \<^verbatim>\<open>./db/table\<close> MySQL opens a table with, the mapper gives
  \<^verbatim>\<open><prefix>db.mrn\<close> as the database file and \<^verbatim>\<open>db\<close> as the database name, as the comments of
  \<^verbatim>\<open>db_path\<close> and \<^verbatim>\<open>db_name\<close> say, whatever accessor calls came before.
\<close>
lemma relative_path_mapped:
  assumes "coherent pm" and "original_mysql_path pm = ''./'' @ db @ ''/'' @ t"
    and "FN_LIBCHAR \<notin> set db" and "FN_LIBCHAR \<notin> set t"
  shows "fst (db_path pm) = (case path_prefix pm of Some pre \<Rightarrow> pre | None \<Rightarrow> []) @ db @ ''.mrn''
       \<and> fst (db_name pm) = db
       \<and> fst (table_name pm) = (if c_at t 0 = CHR ''_'' then ''@005f'' @ tl t else t)"
proof (intro conjI)
  show "fst (db_path pm) = (case path_prefix pm of Some pre \<Rightarrow> pre | None \<Rightarrow> []) @ db @ ''.mrn''"
    using assms by (simp add: db_path.get_result compute_db_path_def MRN_DB_FILE_SUFFIX_def)
  show "fst (db_name pm) = db"
    using assms by (simp add: db_name.get_result compute_db_name_def)
  show "fst (table_name pm) = (if c_at t 0 = CHR ''_'' then ''@005f'' @ tl t else t)"
    using assms base_name_relative [of t db]
    by (simp add: table_name.get_result compute_table_name_def encode_first_underscore_def)
qed

lemma relative_path_mapped_witness:
  "fst (db_path (PathMapper ''./shop/_items'' (Some ''mrn/'') None)) = ''mrn/shop.mrn''
   \<and> fst (db_name (PathMapper ''./shop/_items'' (Some ''mrn/'') None)) = ''shop''
   \<and> fst (table_name (PathMapper ''./shop/_items'' (Some ''mrn/'') None)) = ''@005fitems''"
  using relative_path_mapped [of "PathMapper ''./shop/_items'' (Some ''mrn/'') None" "''shop''" "''_items''"]
    coherent_PathMapper [of "''./shop/_items''" "Some ''mrn/''" None]
  by (simp add: PathMapper_def)

text \<open>
  The Groonga table name never starts with an underscore (Groonga keeps such names for
  pseudo columns and rejects them), and two tables whose file names differ and do not start with
  the escape \<^verbatim>\<open>@005f\<close> get different Groonga table names.
\<close>
lemma table_name_encoding:
  assumes "coherent pm" and "coherent pm'"
  shows "c_at (fst (table_name pm)) 0 \<noteq> CHR ''_''
     \<and> (fst (table_name pm) = fst (table_name pm')
        \<longrightarrow> \<not> prefix ''@005f'' (base_name (original_mysql_path pm))
        \<longrightarrow> \<not> prefix ''@005f'' (base_name (original_mysql_path pm'))
        \<longrightarrow> base_name (original_mysql_path pm) = base_name (original_mysql_path pm'))"
  using assms encode_first_underscore_inj
  by (auto simp: table_name.get_result compute_table_name_def encode_first_underscore_hd)

lemma table_name_encoding_witness:
  "c_at (fst (table_name (PathMapper ''./d/_a'' None None))) 0 \<noteq> CHR ''_''
   \<and> fst (table_name (PathMapper ''./d/_a'' None None))
      \<noteq> fst (table_name (PathMapper ''./d/a'' None None))"
proof -
  have b: "base_name ''./d/_a'' = ''_a''" "base_name ''./d/a'' = ''a''"
    using base_name_relative [of "''_a''" "''d''"] base_name_relative [of "''a''" "''d''"] by simp_all
  show ?thesis
    using table_name_encoding [OF coherent_PathMapper [of "''./d/_a''" None None]
        coherent_PathMapper [of "''./d/a''" None None]] b
    by (auto simp: PathMapper_def prefix_def)
qed

text \<open>
  Every partition of a table maps to the path and the name of the table itself: what
  follows \<^verbatim>\<open>#P#\<close> is cut off, so the partitions of one table share one MySQL path.
\<close>
theorem partition_path_shared:
  assumes "coherent pm" and "original_mysql_path pm = ''./'' @ db @ ''/'' @ t @ ''#P#'' @ p"
    and "CHR ''#'' \<notin> set (db @ t)" and "FN_LIBCHAR \<notin> set (t @ p)"
  shows "fst (mysql_path pm) = ''./'' @ db @ ''/'' @ t \<and> fst (mysql_table_name pm) = t"
proof
  have "without_partition ((''./'' @ db @ ''/'' @ t) @ ''#P#'' @ p) = ''./'' @ db @ ''/'' @ t"
    by (rule without_partition_append) (use assms in auto)
  then show "fst (mysql_path pm) = ''./'' @ db @ ''/'' @ t"
    using assms by (simp add: mysql_path.get_result compute_mysql_path_def)
  have "base_name (''./'' @ db @ ''/'' @ (t @ ''#P#'' @ p)) = t @ ''#P#'' @ p"
    by (rule base_name_relative) (use assms in auto)
  moreover have "without_partition (t @ ''#P#'' @ p) = t"
    by (rule without_partition_append) (use assms in auto)
  ultimately show "fst (mysql_table_name pm) = t"
    using assms by (simp add: mysql_table_name.get_result compute_mysql_table_name_def)
qed

theorem partition_path_shared_witness:
  "fst (mysql_path (PathMapper ''./d/t#P#p1'' None None)) = ''./d/t''
   \<and> fst (mysql_table_name (PathMapper ''./d/t#P#p1'' None None)) = ''t''"
  using partition_path_shared [of "PathMapper ''./d/t#P#p1'' None None" "''d''" "''t''" "''p1''"]
    coherent_PathMapper [of "''./d/t#P#p1''" None None]
  by (simp add: PathMapper_def)

end
