(* ===== verification/Calendar.thy ===== *)
theory Calendar
  imports Mrn_Prelude
begin

text \<open>
  The part of the C library that the time conversion rests on: broken-down times
  (\<^verbatim>\<open>struct tm\<close>), the proleptic Gregorian calendar in UTC (\<^verbatim>\<open>gmtime_r\<close> and its inverse
  \<open>timegm\<close>, the POSIX formula of the seconds since the epoch) and local time as an offset
  from UTC that may change over time.
\<close>

section \<open>Broken-down times\<close>

record tm =
  tm_sec :: int
  tm_min :: int
  tm_hour :: int
  tm_mday :: int
  tm_mon :: int
  tm_year :: int
  tm_yday :: int
  tm_isdst :: int

definition TM_YEAR_BASE :: int where "TM_YEAR_BASE = 1900"

text \<open>The fields that name a point of the calendar; \<open>tm_yday\<close> and \<open>tm_isdst\<close> are derived.\<close>

definition same_civil :: "tm \<Rightarrow> tm \<Rightarrow> bool" where
  "same_civil a b \<longleftrightarrow> tm_sec a = tm_sec b \<and> tm_min a = tm_min b \<and> tm_hour a = tm_hour b
     \<and> tm_mday a = tm_mday b \<and> tm_mon a = tm_mon b \<and> tm_year a = tm_year b"

section \<open>Years and months\<close>

definition is_leap :: "int \<Rightarrow> bool" where
  "is_leap y \<longleftrightarrow> y mod 4 = 0 \<and> (y mod 100 \<noteq> 0 \<or> y mod 400 = 0)"

definition days_in_year :: "int \<Rightarrow> int" where
  "days_in_year y = (if is_leap y then 366 else 365)"

definition days_in_month :: "int \<Rightarrow> int \<Rightarrow> int" where
  "days_in_month y m =
     (if m = 1 then if is_leap y then 29 else 28
      else if m = 3 \<or> m = 5 \<or> m = 8 \<or> m = 10 then 30 else 31)"

definition days_before_year :: "int \<Rightarrow> int" where
  "days_before_year y =
     365 * (y - 1970) + ((y - 1) div 4 - (y - 1) div 100 + (y - 1) div 400) - 477"

definition days_before_month :: "int \<Rightarrow> int \<Rightarrow> int" where
  "days_before_month y m =
     (if m \<le> 0 then 0 else if m = 1 then 31
      else (if m = 2 then 59 else if m = 3 then 90 else if m = 4 then 120 else if m = 5 then 151
        else if m = 6 then 181 else if m = 7 then 212 else if m = 8 then 243
        else if m = 9 then 273 else if m = 10 then 304 else 334)
        + (if is_leap y then 1 else 0))"

definition days_from_civil :: "int \<Rightarrow> int \<Rightarrow> int \<Rightarrow> int" where
  "days_from_civil y m d = days_before_year y + days_before_month y m + (d - 1)"

definition valid_date :: "int \<Rightarrow> int \<Rightarrow> int \<Rightarrow> bool" where
  "valid_date y m d \<longleftrightarrow> 0 \<le> m \<and> m \<le> 11 \<and> 1 \<le> d \<and> d \<le> days_in_month y m"

function find_year :: "int \<Rightarrow> int \<Rightarrow> int \<times> int" where
  "find_year y d = (if d < days_in_year y then (y, d) else find_year (y + 1) (d - days_in_year y))"
  by pat_completeness auto
termination
  by (relation "measure (\<lambda>(y, d). nat (d + 1))") (auto simp: days_in_year_def split: if_splits)

declare find_year.simps [simp del]

function find_month :: "int \<Rightarrow> int \<Rightarrow> int \<Rightarrow> int \<times> int" where
  "find_month y m d =
     (if 11 \<le> m \<or> d < days_in_month y m then (m, d) else find_month y (m + 1) (d - days_in_month y m))"
  by pat_completeness auto
termination
  by (relation "measure (\<lambda>(y, m, d). nat (12 - m))") auto

declare find_month.simps [simp del]

text \<open>The date of a day number: the 400-year cycle, then year by year, then month by month.\<close>

definition civil_from_days :: "int \<Rightarrow> int \<times> int \<times> int" where
  "civil_from_days n =
     (let (y, yd) = find_year (1970 + 400 * (n div 146097)) (n mod 146097);
          (m, d) = find_month y 0 yd
      in (y, m, d + 1))"

definition seconds_of_day :: "int \<Rightarrow> int \<Rightarrow> int \<Rightarrow> int" where
  "seconds_of_day h m s = h * 3600 + m * 60 + s"

definition gmtime :: "int \<Rightarrow> tm" where
  "gmtime t =
     (let n = t div 86400; s = t mod 86400; (y, m, d) = civil_from_days n
      in \<lparr>tm_sec = s mod 60, tm_min = s div 60 mod 60, tm_hour = s div 3600, tm_mday = d,
          tm_mon = m, tm_year = y - TM_YEAR_BASE, tm_yday = n - days_before_year y, tm_isdst = 0\<rparr>)"

text \<open>\<^verbatim>\<open>gmtime_r\<close> fails when the year does not fit \<open>tm_year\<close>, a 32-bit \<^verbatim>\<open>int\<close>.\<close>

definition gmtime_r :: "int \<Rightarrow> tm option" where
  "gmtime_r t =
     (let g = gmtime t in if - (2 ^ 31) \<le> tm_year g \<and> tm_year g < 2 ^ 31 then Some g else None)"

definition timegm :: "tm \<Rightarrow> int" where
  "timegm g = 86400 * days_from_civil (tm_year g + TM_YEAR_BASE) (tm_mon g) (tm_mday g)
     + seconds_of_day (tm_hour g) (tm_min g) (tm_sec g)"

definition localtime :: "(int \<Rightarrow> int) \<Rightarrow> int \<Rightarrow> tm" where
  "localtime off t = gmtime (t + off t)"

definition valid_tm :: "tm \<Rightarrow> bool" where
  "valid_tm g \<longleftrightarrow> valid_date (tm_year g + TM_YEAR_BASE) (tm_mon g) (tm_mday g)
     \<and> 0 \<le> tm_hour g \<and> tm_hour g < 24 \<and> 0 \<le> tm_min g \<and> tm_min g < 60
     \<and> 0 \<le> tm_sec g \<and> tm_sec g < 60"

section \<open>The calendar is a bijection\<close>

lemma days_in_year_pos: "0 < days_in_year y"
  by (simp add: days_in_year_def)

lemma div_step:
  fixes y k :: int
  assumes "0 < k"
  shows "y div k = (y - 1) div k + (if y mod k = 0 then 1 else 0)"
proof -
  have y: "y = k * (y div k) + y mod k" by simp
  have r: "0 \<le> y mod k" "y mod k < k" using assms by simp_all
  have "(y - 1) div k = y div k - 1" if "y mod k = 0"
    by (rule int_div_pos_eq [where r = "k - 1"]) (use y r that assms in \<open>auto simp: algebra_simps\<close>)
  moreover have "(y - 1) div k = y div k" if "y mod k \<noteq> 0"
    by (rule int_div_pos_eq [where r = "y mod k - 1"]) (use y r that in linarith)+
  ultimately show ?thesis by simp
qed

lemma days_before_year_Suc: "days_before_year (y + 1) = days_before_year y + days_in_year y"
proof -
  have "y mod 400 mod 100 = y mod 100" "y mod 100 mod 4 = y mod 4"
    by (rule mod_mod_cancel, simp)+
  then have i: "y mod 400 = 0 \<Longrightarrow> y mod 100 = 0" and j: "y mod 100 = 0 \<Longrightarrow> y mod 4 = 0"
    by simp_all
  define q4 q100 q400 where q: "q4 = (y - 1) div 4" "q100 = (y - 1) div 100" "q400 = (y - 1) div 400"
  have "days_before_year (y + 1) = 365 * (y + 1 - 1970)
      + ((q4 + (if y mod 4 = 0 then 1 else 0)) - (q100 + (if y mod 100 = 0 then 1 else 0))
         + (q400 + (if y mod 400 = 0 then 1 else 0))) - 477"
    unfolding q div_step [of 4 y, simplified, symmetric] div_step [of 100 y, simplified, symmetric]
      div_step [of 400 y, simplified, symmetric] by (simp add: days_before_year_def)
  also have "\<dots> = (365 * (y - 1970) + (q4 - q100 + q400) - 477) + days_in_year y"
    by (cases "y mod 4 = 0"; cases "y mod 100 = 0"; cases "y mod 400 = 0")
      (use i j in \<open>simp_all add: days_in_year_def is_leap_def del: mod_eq_0_iff_dvd\<close>)
  finally show ?thesis by (simp add: days_before_year_def q)
qed

lemma days_before_year_cycle: "days_before_year (y + 400 * k) = days_before_year y + 146097 * k"
proof -
  have "(y - 1 + 4 * (100 * k)) div 4 = 100 * k + (y - 1) div 4"
    "(y - 1 + 100 * (4 * k)) div 100 = 4 * k + (y - 1) div 100"
    "(y - 1 + 400 * k) div 400 = k + (y - 1) div 400"
    by (rule div_mult_self2, simp)+
  then have "(y + 400 * k - 1) div 4 = (y - 1) div 4 + 100 * k"
    "(y + 400 * k - 1) div 100 = (y - 1) div 100 + 4 * k"
    "(y + 400 * k - 1) div 400 = (y - 1) div 400 + k"
    by (simp_all add: algebra_simps)
  then show ?thesis by (simp add: days_before_year_def)
qed

lemma days_before_year_mono:
  assumes "y < y'"
  shows "days_before_year y + days_in_year y \<le> days_before_year y'"
proof -
  from assms have "y + 1 \<le> y'" by simp
  then have "days_before_year (y + 1) \<le> days_before_year y'"
  proof (induction y' rule: int_ge_induct)
    case (step i)
    then show ?case using days_in_year_pos [of i] by (simp add: days_before_year_Suc)
  qed simp
  then show ?thesis by (simp add: days_before_year_Suc)
qed

lemma find_year_correct:
  assumes "find_year y d = (y', d')" and "0 \<le> d"
  shows "days_before_year y' + d' = days_before_year y + d \<and> 0 \<le> d' \<and> d' < days_in_year y'"
  using assms
proof (induction y d rule: find_year.induct)
  case (1 y d)
  show ?case
  proof (cases "d < days_in_year y")
    case True
    with "1.prems" show ?thesis by (auto simp: find_year.simps [of y d])
  next
    case False
    with "1.prems" have "find_year (y + 1) (d - days_in_year y) = (y', d')"
      by (simp add: find_year.simps [of y d])
    with "1.IH" False show ?thesis by (auto simp: days_before_year_Suc)
  qed
qed

lemma days_before_month_Suc:
  "0 \<le> m \<Longrightarrow> m < 11 \<Longrightarrow> days_before_month y (m + 1) = days_before_month y m + days_in_month y m"
proof -
  assume "0 \<le> m" "m < 11"
  then have "m = 0 \<or> m = 1 \<or> m = 2 \<or> m = 3 \<or> m = 4 \<or> m = 5 \<or> m = 6 \<or> m = 7 \<or> m = 8 \<or> m = 9 \<or> m = 10"
    by presburger
  then show ?thesis
    by (elim disjE) (simp_all add: days_before_month_def days_in_month_def)
qed

lemma days_before_month_last: "days_before_month y 11 + days_in_month y 11 = days_in_year y"
  by (simp add: days_before_month_def days_in_month_def days_in_year_def)

lemma find_month_correct:
  assumes "find_month y m d = (m', d')" and "0 \<le> d" "0 \<le> m" "m \<le> 11"
    and "days_before_month y m + d < days_in_year y"
  shows "days_before_month y m' + d' = days_before_month y m + d
     \<and> 0 \<le> d' \<and> d' < days_in_month y m' \<and> 0 \<le> m' \<and> m' \<le> 11"
  using assms
proof (induction y m d rule: find_month.induct)
  case (1 y m d)
  show ?case
  proof (cases "11 \<le> m \<or> d < days_in_month y m")
    case True
    with "1.prems" show ?thesis
      using days_before_month_last [of y] by (auto simp: find_month.simps [of y m d])
  next
    case False
    with "1.prems" have "find_month y (m + 1) (d - days_in_month y m) = (m', d')"
      by (simp add: find_month.simps [of y m d])
    with "1.IH" "1.prems" False show ?thesis by (auto simp: days_before_month_Suc)
  qed
qed

lemma civil_from_days_correct:
  assumes "civil_from_days n = (y, m, d)"
  shows "valid_date y m d \<and> days_from_civil y m d = n"
proof -
  obtain y' yd where fy: "find_year (1970 + 400 * (n div 146097)) (n mod 146097) = (y', yd)" by force
  obtain m' d' where fm: "find_month y' 0 yd = (m', d')" by force
  from assms fy fm have eq: "y = y'" "m = m'" "d = d' + 1" by (simp_all add: civil_from_days_def)
  have "days_before_year (1970 + 400 * (n div 146097)) = 146097 * (n div 146097)"
    using days_before_year_cycle [of 1970] by (simp add: days_before_year_def)
  with find_year_correct [OF fy] have 1: "days_before_year y' + yd = n" "0 \<le> yd" "yd < days_in_year y'"
    by simp_all
  have "days_before_month y' 0 = 0" by (simp add: days_before_month_def)
  with find_month_correct [OF fm] 1 show ?thesis
    by (auto simp: eq valid_date_def days_from_civil_def)
qed

lemma days_before_month_mono:
  assumes "0 \<le> m" "m < m'" "m' \<le> 11"
  shows "days_before_month y m + days_in_month y m \<le> days_before_month y m'"
proof -
  from assms(2) have "m + 1 \<le> m'" by simp
  then have "m' \<le> 11 \<longrightarrow> days_before_month y (m + 1) \<le> days_before_month y m'"
  proof (induction m' rule: int_ge_induct)
    case (step i)
    have "0 < days_in_month y i" by (simp add: days_in_month_def)
    with step assms(1) show ?case by (auto simp: days_before_month_Suc)
  qed simp
  with assms show ?thesis by (simp add: days_before_month_Suc)
qed

lemma day_of_year_bound:
  assumes "valid_date y m d"
  shows "0 \<le> days_before_month y m + (d - 1)" "days_before_month y m + (d - 1) < days_in_year y"
proof -
  have "0 \<le> days_before_month y m" by (simp add: days_before_month_def)
  with assms show "0 \<le> days_before_month y m + (d - 1)" by (simp add: valid_date_def)
  have "days_before_month y m + days_in_month y m \<le> days_in_year y"
    using days_before_month_mono [of m 11 y] days_before_month_last [of y] assms
    by (cases "m = 11") (auto simp: valid_date_def days_in_month_def)
  with assms show "days_before_month y m + (d - 1) < days_in_year y" by (simp add: valid_date_def)
qed

lemma days_from_civil_inject:
  assumes "valid_date y m d" "valid_date y' m' d'"
    and eq: "days_from_civil y m d = days_from_civil y' m' d'"
  shows "(y, m, d) = (y', m', d')"
proof -
  have y: "y = y'"
    using days_before_year_mono [of y y'] days_before_year_mono [of y' y]
      day_of_year_bound [OF assms(1)] day_of_year_bound [OF assms(2)] eq
    unfolding days_from_civil_def by linarith
  have m: "m = m'"
    using days_before_month_mono [of m m' y] days_before_month_mono [of m' m y] eq assms(1,2)
    unfolding days_from_civil_def y valid_date_def by linarith
  from eq y m show ?thesis by (simp add: days_from_civil_def)
qed

lemma civil_from_days_inverse:
  "valid_date y m d \<Longrightarrow> civil_from_days (days_from_civil y m d) = (y, m, d)"
  using civil_from_days_correct days_from_civil_inject by (metis prod_cases3)

section \<open>Seconds\<close>

lemma day_seconds_split:
  fixes h m s :: int
  assumes "0 \<le> h" "h < 24" "0 \<le> m" "m < 60" "0 \<le> s" "s < 60"
  shows "seconds_of_day h m s div 3600 = h" "seconds_of_day h m s div 60 mod 60 = m"
    "seconds_of_day h m s mod 60 = s" "0 \<le> seconds_of_day h m s" "seconds_of_day h m s < 86400"
proof -
  have e: "seconds_of_day h m s = 60 * (60 * h + m) + s" by (simp add: seconds_of_day_def)
  have d60: "seconds_of_day h m s div 60 = 60 * h + m"
    unfolding e by (rule int_div_pos_eq [where r = s]) (use assms in auto)
  show "seconds_of_day h m s mod 60 = s" unfolding e
    by (rule int_mod_pos_eq [where q = "60 * h + m"]) (use assms in auto)
  show "seconds_of_day h m s div 60 mod 60 = m" unfolding d60
    by (rule int_mod_pos_eq [where q = h]) (use assms in auto)
  show "seconds_of_day h m s div 3600 = h"
    by (rule int_div_pos_eq [where r = "60 * m + s"]) (use assms in \<open>auto simp: seconds_of_day_def\<close>)
  show "0 \<le> seconds_of_day h m s" "seconds_of_day h m s < 86400"
    using assms by (auto simp: seconds_of_day_def)
qed

lemma seconds_of_day_gmtime:
  "seconds_of_day (tm_hour (gmtime t)) (tm_min (gmtime t)) (tm_sec (gmtime t)) = t mod 86400"
proof -
  have "s div 3600 * 3600 + s div 60 mod 60 * 60 + s mod 60 = s" for s :: int
  proof -
    have "s div 3600 = s div 60 div 60" by (simp add: zdiv_zmult2_eq [symmetric])
    moreover have "s div 60 = s div 60 div 60 * 60 + s div 60 mod 60" "s = s div 60 * 60 + s mod 60"
      by simp_all
    ultimately show ?thesis by linarith
  qed
  then show ?thesis
    by (simp add: gmtime_def seconds_of_day_def Let_def split: prod.split)
qed

lemma timegm_gmtime: "timegm (gmtime t) = t"
proof -
  obtain y m d where c: "civil_from_days (t div 86400) = (y, m, d)" by (metis prod_cases3)
  with civil_from_days_correct have "days_from_civil y m d = t div 86400" by simp
  moreover have "tm_year (gmtime t) + TM_YEAR_BASE = y" "tm_mon (gmtime t) = m" "tm_mday (gmtime t) = d"
    by (simp_all add: gmtime_def Let_def c)
  ultimately show ?thesis
    using seconds_of_day_gmtime [of t] by (simp add: timegm_def)
qed

lemma valid_tm_gmtime: "valid_tm (gmtime t)"
proof -
  obtain y m d where c: "civil_from_days (t div 86400) = (y, m, d)" by (metis prod_cases3)
  have "0 \<le> t mod 86400" "t mod 86400 < 86400" by simp_all
  then have "t mod 86400 div 3600 < 24" "0 \<le> t mod 86400 div 3600" by auto
  with civil_from_days_correct [OF c] show ?thesis
    by (simp add: valid_tm_def gmtime_def Let_def c)
qed

lemma gmtime_timegm:
  assumes "valid_tm g"
  shows "same_civil (gmtime (timegm g)) g"
proof -
  let ?s = "seconds_of_day (tm_hour g) (tm_min g) (tm_sec g)"
  let ?n = "days_from_civil (tm_year g + TM_YEAR_BASE) (tm_mon g) (tm_mday g)"
  note sp = day_seconds_split [of "tm_hour g" "tm_min g" "tm_sec g"]
  from assms have v: "valid_date (tm_year g + TM_YEAR_BASE) (tm_mon g) (tm_mday g)"
    and s: "0 \<le> ?s" "?s < 86400" using sp by (auto simp: valid_tm_def)
  have n: "timegm g div 86400 = ?n"
    unfolding timegm_def by (rule int_div_pos_eq [where r = ?s]) (use s in auto)
  have m: "timegm g mod 86400 = ?s" using s by (simp add: timegm_def)
  show ?thesis
    using sp assms civil_from_days_inverse [OF v]
    by (simp add: same_civil_def gmtime_def n m valid_tm_def Let_def)
qed

lemma same_civil_timegm: "same_civil a b \<Longrightarrow> timegm a = timegm b"
  by (simp add: same_civil_def timegm_def)

text \<open>From one day to the next the day of the month grows by one or starts again at 1 after 28
  days at least.\<close>

lemma mday_next_day:
  assumes "civil_from_days n = (y, m, d)" and "civil_from_days (n + 1) = (y', m', d')"
  shows "d' = d + 1 \<or> d' = 1 \<and> 28 \<le> d"
proof -
  from civil_from_days_correct [OF assms(1)] have v: "valid_date y m d" and n: "days_from_civil y m d = n"
    by simp_all
  have step: "d' = e" if "valid_date y2 m2 e" "days_from_civil y2 m2 e = n + 1" for y2 m2 e
    using civil_from_days_inverse [OF that(1)] that(2) assms(2) by simp
  have long: "28 \<le> days_in_month y m" by (simp add: days_in_month_def)
  consider "d < days_in_month y m" | "d = days_in_month y m" "m < 11" | "d = days_in_month y m" "m = 11"
    using v by (fastforce simp: valid_date_def)
  then show ?thesis
  proof cases
    case 1
    then have "d' = d + 1" by (intro step) (use v n in \<open>auto simp: valid_date_def days_from_civil_def\<close>)
    then show ?thesis by simp
  next
    case 2
    have "valid_date y (m + 1) 1" using v 2 by (simp add: valid_date_def days_in_month_def)
    then have "d' = 1"
      by (rule step) (use v n 2 in \<open>auto simp: valid_date_def days_from_civil_def days_before_month_Suc\<close>)
    with 2 long show ?thesis by simp
  next
    case 3
    have "valid_date (y + 1) 0 1" by (simp add: valid_date_def days_in_month_def)
    then have "d' = 1"
      by (rule step) (use n 3 days_before_month_last [of y] in
          \<open>auto simp: days_from_civil_def days_before_year_Suc days_before_month_def\<close>)
    with 3 long show ?thesis by simp
  qed
qed

end
