(* ===== verification/Time_Converter.thy ===== *)
theory Time_Converter
  imports Calendar "HOL-Library.Signed_Division"
begin

text \<open>
  \<^verbatim>\<open>mrn::TimeConverter\<close> (lib/mrn_time_converter.cpp): between the broken-down times of MySQL
  (\<^verbatim>\<open>MYSQL_TIME\<close>), the packed \<^verbatim>\<open>YYYYMMDDhhmmss\<close> integers and Groonga's time, one 64-bit
  integer. The code reads MySQL's date fields as UTC by asking \<^verbatim>\<open>mktime\<close> for a local time and
  correcting it by the difference of the local and the UTC broken-down time.

  \<^verbatim>\<open>mktime\<close> depends on the time zone of the process and \<^verbatim>\<open>GRN_TIME_PACK\<close> and
  \<^verbatim>\<open>GRN_TIME_UNPACK\<close> are macros of Groonga's header: they are the fields of the parameter
  \<open>time_env\<close>. A failing \<^verbatim>\<open>gmtime_r\<close> leaves the broken-down time unset, which the code reads
  without a check: the model answers \<^const>\<open>None\<close> there.
\<close>

section \<open>State and parameters\<close>

datatype timestamp_type =
    MYSQL_TIMESTAMP_NONE | MYSQL_TIMESTAMP_ERROR | MYSQL_TIMESTAMP_DATE
  | MYSQL_TIMESTAMP_DATETIME | MYSQL_TIMESTAMP_TIME

record mysql_time =
  year :: int
  month :: int
  day :: int
  hour :: int
  minute :: int
  second :: int
  second_part :: int
  neg :: bool
  time_type :: timestamp_type

record time_env =
  mktime :: "tm \<Rightarrow> int \<times> tm"
  GRN_TIME_PACK :: "int \<Rightarrow> int \<Rightarrow> int"
  GRN_TIME_UNPACK :: "int \<Rightarrow> int \<times> int"

definition TIME_T_MAX :: int where "TIME_T_MAX = 2 ^ 63 - 1"
definition TIME_T_MIN :: int where "TIME_T_MIN = - (2 ^ 63)"

definition to_uint :: "int \<Rightarrow> int" where "to_uint x = x mod 2 ^ 32"
definition to_ulong :: "int \<Rightarrow> int" where "to_ulong x = x mod 2 ^ 64"
definition to_int :: "int \<Rightarrow> int" where "to_int x = (x + 2 ^ 31) mod 2 ^ 32 - 2 ^ 31"

lemma to_uint_id: "0 \<le> x \<Longrightarrow> x < 2 ^ 32 \<Longrightarrow> to_uint x = x"
  by (simp add: to_uint_def)

lemma to_ulong_id: "0 \<le> x \<Longrightarrow> x < 2 ^ 64 \<Longrightarrow> to_ulong x = x"
  by (simp add: to_ulong_def)

lemma to_int_id: "- (2 ^ 31) \<le> x \<Longrightarrow> x < 2 ^ 31 \<Longrightarrow> to_int x = x"
  by (simp add: to_int_def)

text \<open>C's division and remainder on non-negative numbers, and splitting off a digit.\<close>

lemma sdiv_smod_nonneg:
  fixes a b :: int
  assumes "0 \<le> a" "0 < b"
  shows "a sdiv b = a div b" "a smod b = a mod b"
  using assms by (auto simp: signed_divide_int_def signed_modulo_int_def sgn_if)

lemma digit_split:
  fixes a b k :: int
  assumes "0 \<le> a" "a < k"
  shows "(a + k * b) div k = b" "(a + k * b) mod k = a"
  using assms by (auto intro!: int_div_pos_eq [where r = a] int_mod_pos_eq [where q = b])

section \<open>Operations\<close>

text \<open>The correction in seconds: the local broken-down time minus the UTC one, a change of month
  counting as one day.\<close>

definition utc_diff_in_seconds :: "tm \<Rightarrow> tm \<Rightarrow> int" where
  "utc_diff_in_seconds time gmdate =
     (if tm_mday time > 25 \<and> tm_mday gmdate = 1 then -1
      else if tm_mday time = 1 \<and> tm_mday gmdate > 25 then 1
      else tm_mday time - tm_mday gmdate) * 24 * 60 * 60
     + (tm_hour time - tm_hour gmdate) * 60 * 60
     + (tm_min time - tm_min gmdate) * 60
     + (tm_sec time - tm_sec gmdate)"

text \<open>The result is the seconds since the epoch and the \<^verbatim>\<open>truncated\<close> flag.\<close>

definition tm_to_time_gm :: "time_env \<Rightarrow> tm \<Rightarrow> int \<times> bool" where
  "tm_to_time_gm env time0 =
     (let (sec_t, time) = mktime env (time0\<lparr>tm_yday := -1, tm_isdst := -1\<rparr>) in
      if tm_yday time = -1 then (-1, True)
      else case gmtime_r sec_t of
        None \<Rightarrow> (-1, True)
      | Some gmdate \<Rightarrow>
          (let diff = utc_diff_in_seconds time gmdate in
           if diff > 0 then
             (if sec_t > TIME_T_MAX - diff then (-1, True) else (sec_t + diff, False))
           else
             (if sec_t < TIME_T_MIN - diff then (-1, True) else (sec_t + diff, False))))"

definition tm_to_grn_time :: "time_env \<Rightarrow> tm \<Rightarrow> int \<Rightarrow> int \<times> bool" where
  "tm_to_grn_time env time usec =
     (let (sec, truncated) = tm_to_time_gm env time in
      (if truncated then 0 else GRN_TIME_PACK env sec usec, truncated))"

text \<open>\<^verbatim>\<open>memset(&date, 0, sizeof(struct tm))\<close>\<close>

definition zero_tm :: tm where
  "zero_tm = \<lparr>tm_sec = 0, tm_min = 0, tm_hour = 0, tm_mday = 0, tm_mon = 0, tm_year = 0,
              tm_yday = 0, tm_isdst = 0\<rparr>"

text \<open>The date fields of a \<^verbatim>\<open>MYSQL_TIME\<close>: a zero month or day is replaced by the first one and
  marks the value as truncated.\<close>

definition date_fields :: "mysql_time \<Rightarrow> tm \<times> bool" where
  "date_fields mt =
     (zero_tm\<lparr>tm_year := to_int (year mt - TM_YEAR_BASE),
        tm_mon := (if month mt > 0 then month mt - 1 else 0),
        tm_mday := (if day mt > 0 then day mt else 1)\<rparr>,
      \<not> month mt > 0 \<or> \<not> day mt > 0)"

definition seconds_of_time :: "mysql_time \<Rightarrow> int" where
  "seconds_of_time mt = hour mt * 60 * 60 + minute mt * 60 + second mt"

definition mysql_time_to_grn_time :: "time_env \<Rightarrow> mysql_time \<Rightarrow> int \<times> bool" where
  "mysql_time_to_grn_time env mt =
     (let usec = to_int (second_part mt) in
      case time_type mt of
        MYSQL_TIMESTAMP_DATE \<Rightarrow>
          (let (date, truncated) = date_fields mt;
               (grn_time, tm_truncated) = tm_to_grn_time env date usec
           in (grn_time, truncated \<or> tm_truncated))
      | MYSQL_TIMESTAMP_DATETIME \<Rightarrow>
          (let (date, truncated) = date_fields mt;
               datetime = date\<lparr>tm_hour := hour mt, tm_min := minute mt, tm_sec := second mt\<rparr>;
               (grn_time, tm_truncated) = tm_to_grn_time env datetime usec
           in (grn_time, truncated \<or> tm_truncated))
      | MYSQL_TIMESTAMP_TIME \<Rightarrow>
          (let sec = to_int (seconds_of_time mt);
               grn_time = GRN_TIME_PACK env sec usec
           in (if neg mt then - grn_time else grn_time, False))
      | _ \<Rightarrow> (0, False))"

definition grn_time_to_mysql_time :: "time_env \<Rightarrow> int \<Rightarrow> mysql_time \<Rightarrow> mysql_time option" where
  "grn_time_to_mysql_time env grn_time mt =
     (let (sec, usec) = GRN_TIME_UNPACK env grn_time in
      case time_type mt of
        MYSQL_TIMESTAMP_DATE \<Rightarrow>
          map_option (\<lambda>date. mt\<lparr>year := to_uint (tm_year date + TM_YEAR_BASE),
              month := tm_mon date + 1, day := tm_mday date\<rparr>) (gmtime_r sec)
      | MYSQL_TIMESTAMP_DATETIME \<Rightarrow>
          map_option (\<lambda>date. mt\<lparr>year := to_uint (tm_year date + TM_YEAR_BASE),
              month := tm_mon date + 1, day := tm_mday date, hour := tm_hour date,
              minute := tm_min date, second := tm_sec date, second_part := to_ulong usec\<rparr>)
            (gmtime_r sec)
      | MYSQL_TIMESTAMP_TIME \<Rightarrow>
          (let mt1 = (if sec < 0 then mt\<lparr>neg := True\<rparr> else mt);
               s = (if sec < 0 then - sec else sec)
           in Some (mt1\<lparr>hour := to_uint (s sdiv 60 sdiv 60), minute := s sdiv 60 smod 60,
                        second := s smod 60, second_part := to_ulong usec\<rparr>))
      | _ \<Rightarrow> Some mt)"

definition mysql_datetime_to_grn_time :: "time_env \<Rightarrow> int \<Rightarrow> int \<times> bool" where
  "mysql_datetime_to_grn_time env dt =
     mysql_time_to_grn_time env
       \<lparr>year = to_uint (dt sdiv 10000000000 smod 10000), month = to_uint (dt sdiv 100000000 smod 100),
        day = to_uint (dt sdiv 1000000 smod 100), hour = to_uint (dt sdiv 10000 smod 100),
        minute = to_uint (dt sdiv 100 smod 100), second = to_uint (dt smod 100), second_part = 0,
        neg = False, time_type = MYSQL_TIMESTAMP_DATETIME\<rparr>"

text \<open>The \<^verbatim>\<open>MYSQL_TIME\<close> of the conversion back is a local variable of which only the type is
  set before the call; the call sets every field that is read.\<close>

definition grn_time_to_mysql_datetime :: "time_env \<Rightarrow> int \<Rightarrow> mysql_time \<Rightarrow> int option" where
  "grn_time_to_mysql_datetime env grn_time uninit =
     map_option (\<lambda>mt. second mt * 1 + minute mt * 100 + hour mt * 10000 + day mt * 1000000
          + month mt * 100000000 + year mt * 10000000000)
       (grn_time_to_mysql_time env grn_time (uninit\<lparr>time_type := MYSQL_TIMESTAMP_DATETIME\<rparr>))"

section \<open>What the C library and Groonga promise\<close>

text \<open>
  The documented behaviour of \<^verbatim>\<open>mktime\<close> in a time zone with offset \<open>off\<close>: on success it
  returns a time and sets the fields to the local broken-down time of it, and it finds such a time
  with the given fields whenever there is one.
\<close>

definition mktime_in_zone :: "(int \<Rightarrow> int) \<Rightarrow> (tm \<Rightarrow> int \<times> tm) \<Rightarrow> bool" where
  "mktime_in_zone off mk \<longleftrightarrow>
     (\<forall>time t time'. mk time = (t, time') \<longrightarrow> tm_yday time' \<noteq> -1 \<longrightarrow> same_civil time' (localtime off t))
   \<and> (\<forall>time t. same_civil time (localtime off t) \<longrightarrow>
        same_civil (snd (mk time)) time \<and> tm_yday (snd (mk time)) \<noteq> -1)"

text \<open>Packed microseconds: unpacking what was packed gives seconds and microseconds back, for
  times since the epoch and for whole seconds.\<close>

definition grn_time_packing :: "time_env \<Rightarrow> bool" where
  "grn_time_packing env \<longleftrightarrow>
     (\<forall>sec usec. 0 \<le> usec \<longrightarrow> usec < 1000000 \<longrightarrow> 0 \<le> sec \<or> usec = 0 \<longrightarrow>
        GRN_TIME_UNPACK env (GRN_TIME_PACK env sec usec) = (sec, usec))"

text \<open>The offset of every zone is less than a day.\<close>

definition zone_offset :: "(int \<Rightarrow> int) \<Rightarrow> bool" where
  "zone_offset off \<longleftrightarrow> (\<forall>t. \<bar>off t\<bar> < 86400)"

section \<open>Reading local fields as UTC\<close>

lemma utc_diff_localtime:
  assumes "\<bar>o'\<bar> < 86400" and "same_civil time (gmtime (t + o'))"
  shows "utc_diff_in_seconds time (gmtime t) = o'"
proof -
  let ?n = "(t + o') div 86400" and ?k = "t div 86400"
  obtain y m d where c: "civil_from_days ?n = (y, m, d)" by (metis prod_cases3)
  obtain y0 m0 d0 where c0: "civil_from_days ?k = (y0, m0, d0)" by (metis prod_cases3)
  have md: "tm_mday time = d" "tm_mday (gmtime t) = d0"
    using assms(2) by (simp_all add: same_civil_def gmtime_def Let_def c c0)
  have pos: "1 \<le> d" "1 \<le> d0"
    using civil_from_days_correct [OF c] civil_from_days_correct [OF c0] by (simp_all add: valid_date_def)
  have eqs: "t + o' = 86400 * ?n + (t + o') mod 86400" "t = 86400 * ?k + t mod 86400" by simp_all
  have bnds: "0 \<le> (t + o') mod 86400" "(t + o') mod 86400 < 86400" "0 \<le> t mod 86400" "t mod 86400 < 86400"
    by simp_all
  from eqs bnds assms(1) have "?n = ?k \<or> ?n = ?k + 1 \<or> ?k = ?n + 1" by linarith
  then have D: "(if d > 25 \<and> d0 = 1 then -1 else if d = 1 \<and> d0 > 25 then 1 else d - d0) = ?n - ?k"
  proof (elim disjE)
    assume "?n = ?k"
    with c c0 show ?thesis by auto
  next
    assume s: "?n = ?k + 1"
    with c have "civil_from_days (?k + 1) = (y, m, d)" by simp
    from mday_next_day [OF c0 this] s pos show ?thesis by auto
  next
    assume s: "?k = ?n + 1"
    with c0 have "civil_from_days (?n + 1) = (y0, m0, d0)" by simp
    from mday_next_day [OF c this] s pos show ?thesis by auto
  qed
  have "seconds_of_day (tm_hour time) (tm_min time) (tm_sec time) = (t + o') mod 86400"
    using seconds_of_day_gmtime [of "t + o'"] assms(2) by (simp add: same_civil_def)
  then have s1: "tm_hour time * 3600 + tm_min time * 60 + tm_sec time = (t + o') mod 86400"
    by (simp add: seconds_of_day_def)
  have s0: "tm_hour (gmtime t) * 3600 + tm_min (gmtime t) * 60 + tm_sec (gmtime t) = t mod 86400"
    using seconds_of_day_gmtime [of t] by (simp add: seconds_of_day_def)
  have "utc_diff_in_seconds time (gmtime t) = (?n - ?k) * 24 * 60 * 60
      + (tm_hour time - tm_hour (gmtime t)) * 60 * 60 + (tm_min time - tm_min (gmtime t)) * 60
      + (tm_sec time - tm_sec (gmtime t))"
    unfolding utc_diff_in_seconds_def md D ..
  also have "\<dots> = o'" using s0 s1 eqs by (simp only: algebra_simps)
  finally show ?thesis .
qed

lemma tm_to_time_gm_success:
  assumes "mktime_in_zone off (mktime env)" and "zone_offset off"
    and "mktime env (time0\<lparr>tm_yday := -1, tm_isdst := -1\<rparr>) = (t, time)" "tm_yday time \<noteq> -1"
    and "gmtime_r t = Some gmdate"
    and "TIME_T_MIN \<le> t + off t" "t + off t \<le> TIME_T_MAX"
  shows "tm_to_time_gm env time0 = (timegm time, False)"
proof -
  have g: "gmdate = gmtime t" using assms(5) by (simp add: gmtime_r_def Let_def split: if_splits)
  from assms(1,3,4) have l: "same_civil time (gmtime (t + off t))"
    unfolding mktime_in_zone_def localtime_def by blast
  then have tg: "timegm time = t + off t" using same_civil_timegm timegm_gmtime by simp
  have "utc_diff_in_seconds time gmdate = off t"
    unfolding g by (rule utc_diff_localtime [OF _ l]) (use assms(2) in \<open>simp add: zone_offset_def\<close>)
  with assms(3-7) tg show ?thesis by (simp add: tm_to_time_gm_def Let_def)
qed


lemma gmtime_year_near:
  assumes "valid_tm g" and "\<bar>t - timegm g\<bar> < 86400"
  shows "\<bar>tm_year (gmtime t) - tm_year g\<bar> \<le> 1"
proof -
  let ?y = "tm_year g + TM_YEAR_BASE" and ?y' = "tm_year (gmtime t) + TM_YEAR_BASE"
  have v: "valid_date ?y (tm_mon g) (tm_mday g)" "valid_date ?y' (tm_mon (gmtime t)) (tm_mday (gmtime t))"
    using assms(1) valid_tm_gmtime [of t] by (auto simp: valid_tm_def)
  have s: "0 \<le> seconds_of_day (tm_hour g) (tm_min g) (tm_sec g)"
      "seconds_of_day (tm_hour g) (tm_min g) (tm_sec g) < 86400"
    using day_seconds_split [of "tm_hour g" "tm_min g" "tm_sec g"] assms(1) by (auto simp: valid_tm_def)
  have "timegm g div 86400 = days_from_civil ?y (tm_mon g) (tm_mday g)"
    unfolding timegm_def by (rule int_div_pos_eq [where r = "seconds_of_day (tm_hour g) (tm_min g) (tm_sec g)"])
      (use s in auto)
  moreover have "t div 86400 = days_from_civil ?y' (tm_mon (gmtime t)) (tm_mday (gmtime t))"
  proof -
    obtain y m d where c: "civil_from_days (t div 86400) = (y, m, d)" by (metis prod_cases3)
    with civil_from_days_correct [OF c] show ?thesis by (simp add: gmtime_def Let_def)
  qed
  moreover have "\<bar>t div 86400 - timegm g div 86400\<bar> \<le> 1" using assms(2) by linarith
  ultimately have d: "\<bar>days_from_civil ?y' (tm_mon (gmtime t)) (tm_mday (gmtime t))
      - days_from_civil ?y (tm_mon g) (tm_mday g)\<bar> \<le> 1" by simp
  have long: "365 \<le> days_in_year y" for y by (simp add: days_in_year_def)
  have far: "\<bar>n - n'\<bar> > 1" if "y + 1 < y'" "days_before_year y \<le> n" "n < days_before_year y + days_in_year y"
      "days_before_year y' \<le> n'" for y y' n n'
    using days_before_year_mono [of "y + 1" y'] long [of "y + 1"] days_before_year_Suc [of y] that by linarith
  note b = day_of_year_bound [OF v(1)] day_of_year_bound [OF v(2)]
  show ?thesis
    using far [of ?y ?y' "days_from_civil ?y (tm_mon g) (tm_mday g)"
        "days_from_civil ?y' (tm_mon (gmtime t)) (tm_mday (gmtime t))"]
      far [of ?y' ?y "days_from_civil ?y' (tm_mon (gmtime t)) (tm_mday (gmtime t))"
        "days_from_civil ?y (tm_mon g) (tm_mday g)"] b d
    unfolding days_from_civil_def by linarith
qed

text \<open>The years MySQL stores.\<close>

definition mysql_year :: "int \<Rightarrow> bool" where
  "mysql_year y \<longleftrightarrow> 0 \<le> y \<and> y \<le> 9999"

lemma timegm_mysql_bounds:
  assumes "valid_tm g" and "mysql_year (tm_year g + TM_YEAR_BASE)"
  shows "- 62167219200 \<le> timegm g" "timegm g < 253402300800"
    "tm_year g \<ge> 70 \<Longrightarrow> 0 \<le> timegm g"
proof -
  let ?y = "tm_year g + TM_YEAR_BASE"
  have v: "valid_date ?y (tm_mon g) (tm_mday g)" using assms by (simp add: valid_tm_def)
  have s: "0 \<le> seconds_of_day (tm_hour g) (tm_min g) (tm_sec g)"
      "seconds_of_day (tm_hour g) (tm_min g) (tm_sec g) < 86400"
    using day_seconds_split [of "tm_hour g" "tm_min g" "tm_sec g"] assms(1) by (auto simp: valid_tm_def)
  have mono: "days_before_year a \<le> days_before_year b" if "a \<le> b" for a b
    using days_before_year_mono [of a b] days_in_year_pos [of a] that by (cases "a = b") auto
  have e: "days_before_year 0 = -719528" "days_before_year 10000 = 2932897" "days_before_year 1970 = 0"
    by (simp_all add: days_before_year_def)
  have y: "days_before_year 0 \<le> days_before_year ?y" "days_before_year (?y + 1) \<le> days_before_year 10000"
    using assms(2) by (auto simp: mysql_year_def intro!: mono)
  then have d: "-719528 \<le> days_from_civil ?y (tm_mon g) (tm_mday g)"
      "days_from_civil ?y (tm_mon g) (tm_mday g) < 2932897"
    using day_of_year_bound [OF v] e days_before_year_Suc [of ?y] unfolding days_from_civil_def by linarith+
  then show "- 62167219200 \<le> timegm g" "timegm g < 253402300800"
    using s unfolding timegm_def by linarith+
  assume "tm_year g \<ge> 70"
  then have "days_before_year 1970 \<le> days_before_year ?y" by (intro mono) (simp add: TM_YEAR_BASE_def)
  then have "0 \<le> days_from_civil ?y (tm_mon g) (tm_mday g)"
    using day_of_year_bound [OF v] e unfolding days_from_civil_def by linarith
  then show "0 \<le> timegm g" using s unfolding timegm_def by linarith
qed

lemma gmtime_r_mysql_year:
  assumes "valid_tm g" and "mysql_year (tm_year g + TM_YEAR_BASE)" and "\<bar>t - timegm g\<bar> < 86400"
  shows "gmtime_r t = Some (gmtime t)"
  using gmtime_year_near [OF assms(1,3)] assms(2)
  by (auto simp: gmtime_r_def Let_def mysql_year_def TM_YEAR_BASE_def)

lemma valid_tm_same_civil: "same_civil a b \<Longrightarrow> valid_tm a = valid_tm b"
  by (simp add: same_civil_def valid_tm_def)

lemma tm_to_time_gm_mysql:
  assumes "mktime_in_zone off (mktime env)" and "zone_offset off"
    and "same_civil time0 (localtime off t0)" and "mysql_year (tm_year time0 + TM_YEAR_BASE)"
  shows "tm_to_time_gm env time0 = (timegm time0, False)"
proof -
  let ?time0 = "time0\<lparr>tm_yday := -1, tm_isdst := -1\<rparr>"
  obtain t time where mk: "mktime env ?time0 = (t, time)" by force
  from assms(3) have "same_civil ?time0 (localtime off t0)" by (simp add: same_civil_def)
  with assms(1) mk have s: "same_civil time ?time0" and y: "tm_yday time \<noteq> -1"
    unfolding mktime_in_zone_def by force+
  then have tg: "timegm time = timegm time0" by (auto simp: same_civil_def timegm_def)
  from assms(1) mk y have "same_civil time (gmtime (t + off t))"
    unfolding mktime_in_zone_def localtime_def by blast
  then have t: "t + off t = timegm time0"
    using same_civil_timegm timegm_gmtime tg by metis
  then have near: "\<bar>t - timegm time0\<bar> < 86400"
    using assms(2) unfolding zone_offset_def by (metis abs_minus_commute add_diff_cancel_left')
  have v: "valid_tm time0"
    using assms(3) valid_tm_gmtime valid_tm_same_civil unfolding localtime_def by blast
  note g = gmtime_r_mysql_year [OF v assms(4) near]
  show ?thesis
    using tm_to_time_gm_success [OF assms(1,2) mk y g] t tg timegm_mysql_bounds [OF v assms(4)]
    by (simp add: TIME_T_MIN_def TIME_T_MAX_def)
qed

section \<open>A server in a zone with a fixed offset\<close>

text \<open>A concrete time zone, and Groonga's packing of microseconds, to evaluate the conversions
  with.\<close>

definition fixed_zone_mktime :: "int \<Rightarrow> tm \<Rightarrow> int \<times> tm" where
  "fixed_zone_mktime z time = (let t = timegm time - z in (t, localtime (\<lambda>_. z) t))"

definition fixed_zone_env :: "int \<Rightarrow> time_env" where
  "fixed_zone_env z = \<lparr>mktime = fixed_zone_mktime z,
     GRN_TIME_PACK = (\<lambda>sec usec. sec * 1000000 + usec),
     GRN_TIME_UNPACK = (\<lambda>t. (t sdiv 1000000, t smod 1000000))\<rparr>"

lemma tm_yday_gmtime: "0 \<le> tm_yday (gmtime t)"
proof -
  obtain y m d where c: "civil_from_days (t div 86400) = (y, m, d)" by (metis prod_cases3)
  from civil_from_days_correct [OF c] day_of_year_bound(1) [of y m d]
  have "0 \<le> t div 86400 - days_before_year y" by (auto simp: days_from_civil_def)
  with c show ?thesis by (simp add: gmtime_def Let_def)
qed

lemma fixed_zone_mktime_in_zone: "mktime_in_zone (\<lambda>_. z) (fixed_zone_mktime z)"
proof -
  have "same_civil (snd (fixed_zone_mktime z time)) time \<and> tm_yday (snd (fixed_zone_mktime z time)) \<noteq> -1"
    if "same_civil time (localtime (\<lambda>_. z) t)" for time t
  proof -
    have "timegm time = t + z"
      using same_civil_timegm [OF that] by (simp add: localtime_def timegm_gmtime)
    then show ?thesis
      using that tm_yday_gmtime [of "t + z"]
      by (auto simp: fixed_zone_mktime_def Let_def same_civil_def localtime_def)
  qed
  then show ?thesis
    unfolding mktime_in_zone_def by (auto simp: fixed_zone_mktime_def Let_def same_civil_def)
qed

lemma fixed_zone_env_packing: "grn_time_packing (fixed_zone_env z)"
proof -
  have "(sec * 1000000 + usec) sdiv 1000000 = sec \<and> (sec * 1000000 + usec) smod 1000000 = usec"
    if "0 \<le> usec" "usec < 1000000" "0 \<le> sec \<or> usec = 0" for sec usec :: int
  proof (cases "0 \<le> sec")
    case True
    have "(sec * 1000000 + usec) div 1000000 = sec"
      by (rule int_div_pos_eq [where r = usec]) (use that in auto)
    moreover have "(sec * 1000000 + usec) mod 1000000 = usec"
      by (rule int_mod_pos_eq [where q = sec]) (use that in auto)
    ultimately show ?thesis
      using True that by (auto simp: signed_divide_int_def signed_modulo_int_def sgn_if)
  next
    case False
    with that have "usec = 0" by simp
    with False show ?thesis by (auto simp: signed_divide_int_def signed_modulo_int_def sgn_if abs_mult)
  qed
  then show ?thesis by (simp add: grn_time_packing_def fixed_zone_env_def)
qed

lemma fixed_zone_local_exists: "valid_tm g \<Longrightarrow> same_civil g (localtime (\<lambda>_. z) (timegm g - z))"
  using gmtime_timegm [of g] by (auto simp: localtime_def same_civil_def)

section \<open>Properties\<close>

text \<open>\<^verbatim>\<open>tm_to_time_gm\<close> reads the fields of a broken-down time as UTC, whatever the time zone
  of the server: for every zone whose offset is below a day (and may change over time), every
  \<^verbatim>\<open>mktime\<close> that behaves as documented in it and every broken-down time of the years 0 to 9999
  that exists as a local time, the result is the UTC time of these fields and is not marked as
  truncated. The day difference the code computes from the days of the month is right also across
  the ends of months and years.
\<close>
lemma tm_to_time_gm_utc:
  assumes "mktime_in_zone off (mktime env)" and "zone_offset off"
    and "same_civil time (localtime off t)" and "mysql_year (tm_year time + TM_YEAR_BASE)"
  shows "tm_to_time_gm env time = (timegm time, False)
       \<and> same_civil (gmtime (fst (tm_to_time_gm env time))) time"
  using tm_to_time_gm_mysql [OF assms] gmtime_timegm valid_tm_gmtime valid_tm_same_civil assms(3)
  unfolding localtime_def by (metis fst_conv)

lemma tm_to_time_gm_utc_witness:
  "tm_to_time_gm (fixed_zone_env 32400) (zero_tm\<lparr>tm_year := 126, tm_mon := 2, tm_mday := 1, tm_hour := 3\<rparr>)
     = (1772334000, False)"
proof -
  let ?g = "zero_tm\<lparr>tm_year := 126, tm_mon := 2, tm_mday := 1, tm_hour := 3\<rparr>"
  have v: "valid_tm ?g" by (simp add: valid_tm_def zero_tm_def valid_date_def days_in_month_def TM_YEAR_BASE_def)
  have m: "mktime_in_zone (\<lambda>_. 32400) (mktime (fixed_zone_env 32400))"
    by (simp add: fixed_zone_env_def fixed_zone_mktime_in_zone)
  have t: "timegm ?g = 1772334000"
    by (simp add: timegm_def zero_tm_def TM_YEAR_BASE_def days_from_civil_def days_before_year_def
        days_before_month_def seconds_of_day_def is_leap_def)
  have z: "zone_offset (\<lambda>_. 32400)" by (simp add: zone_offset_def)
  have y: "mysql_year (tm_year ?g + TM_YEAR_BASE)" by (simp add: mysql_year_def TM_YEAR_BASE_def)
  from tm_to_time_gm_utc [OF m z fixed_zone_local_exists [OF v] y] show ?thesis unfolding t by blast
qed

text \<open>The broken-down time a MySQL date and time stands for, and what MySQL stores.\<close>

definition tm_of_mysql_time :: "mysql_time \<Rightarrow> tm" where
  "tm_of_mysql_time mt =
     zero_tm\<lparr>tm_year := year mt - TM_YEAR_BASE, tm_mon := month mt - 1, tm_mday := day mt,
             tm_hour := hour mt, tm_min := minute mt, tm_sec := second mt\<rparr>"

definition valid_datetime :: "mysql_time \<Rightarrow> bool" where
  "valid_datetime mt \<longleftrightarrow> time_type mt = MYSQL_TIMESTAMP_DATETIME \<and> \<not> neg mt \<and> mysql_year (year mt)
     \<and> valid_tm (tm_of_mysql_time mt) \<and> 0 \<le> second_part mt \<and> second_part mt < 1000000
     \<and> (1970 \<le> year mt \<or> second_part mt = 0)"

text \<open>Every date and time of MySQL, with any microseconds.\<close>

definition mysql_datetime :: "mysql_time \<Rightarrow> bool" where
  "mysql_datetime mt \<longleftrightarrow> time_type mt = MYSQL_TIMESTAMP_DATETIME \<and> \<not> neg mt \<and> mysql_year (year mt)
     \<and> valid_tm (tm_of_mysql_time mt) \<and> 0 \<le> second_part mt \<and> second_part mt < 1000000"

lemma valid_datetime_iff: "valid_datetime mt \<longleftrightarrow> mysql_datetime mt \<and> (1970 \<le> year mt \<or> second_part mt = 0)"
  by (auto simp: valid_datetime_def mysql_datetime_def)

lemma tm_of_mysql_time_sel [simp]:
  "tm_year (tm_of_mysql_time mt) = year mt - TM_YEAR_BASE" "tm_mon (tm_of_mysql_time mt) = month mt - 1"
  "tm_mday (tm_of_mysql_time mt) = day mt" "tm_hour (tm_of_mysql_time mt) = hour mt"
  "tm_min (tm_of_mysql_time mt) = minute mt" "tm_sec (tm_of_mysql_time mt) = second mt"
  by (simp_all add: tm_of_mysql_time_def)

lemma mysql_datetime_to_grn:
  assumes "mysql_datetime mt" and "mktime_in_zone off (mktime env)" and "zone_offset off"
    and "same_civil (tm_of_mysql_time mt) (localtime off t)"
  shows "mysql_time_to_grn_time env mt
       = (GRN_TIME_PACK env (timegm (tm_of_mysql_time mt)) (second_part mt), False)"
proof -
  let ?g = "tm_of_mysql_time mt"
  have md: "month mt > 0" "day mt > 0"
    using assms(1) by (auto simp: mysql_datetime_def valid_tm_def valid_date_def)
  have "to_int (year mt - TM_YEAR_BASE) = year mt - TM_YEAR_BASE"
    by (rule to_int_id) (use assms(1) in \<open>auto simp: mysql_datetime_def mysql_year_def TM_YEAR_BASE_def\<close>)
  with md have df: "(fst (date_fields mt))\<lparr>tm_hour := hour mt, tm_min := minute mt, tm_sec := second mt\<rparr> = ?g"
    "snd (date_fields mt) = False"
    by (simp_all add: date_fields_def tm_of_mysql_time_def zero_tm_def)
  have us: "to_int (second_part mt) = second_part mt"
    by (rule to_int_id) (use assms(1) in \<open>auto simp: mysql_datetime_def\<close>)
  have "tm_to_time_gm env ?g = (timegm ?g, False)"
    by (rule tm_to_time_gm_mysql [OF assms(2,3,4)]) (use assms(1) in \<open>simp add: mysql_datetime_def\<close>)
  moreover obtain date tr where "date_fields mt = (date, tr)" by force
  ultimately show ?thesis
    using df us assms(1) by (simp add: mysql_time_to_grn_time_def mysql_datetime_def tm_to_grn_time_def)
qed

lemma datetime_to_grn_time:
  assumes "valid_datetime mt" and "mktime_in_zone off (mktime env)" and "zone_offset off"
    and "same_civil (tm_of_mysql_time mt) (localtime off t)"
  shows "mysql_time_to_grn_time env mt
       = (GRN_TIME_PACK env (timegm (tm_of_mysql_time mt)) (second_part mt), False)"
  using mysql_datetime_to_grn [OF _ assms(2-4)] assms(1) by (simp add: valid_datetime_iff)

lemma grn_time_to_datetime:
  assumes "valid_datetime mt" and "grn_time_packing env"
  shows "grn_time_to_mysql_time env (GRN_TIME_PACK env (timegm (tm_of_mysql_time mt)) (second_part mt))
           (u\<lparr>time_type := MYSQL_TIMESTAMP_DATETIME\<rparr>) = Some (mt\<lparr>neg := neg u\<rparr>)"
proof -
  let ?g = "tm_of_mysql_time mt"
  from assms(1) have v: "valid_tm ?g" and y: "mysql_year (tm_year ?g + TM_YEAR_BASE)"
    by (auto simp: valid_datetime_def)
  have "0 \<le> timegm ?g \<or> second_part mt = 0"
    using timegm_mysql_bounds(3) [OF v y] assms(1) by (auto simp: valid_datetime_def TM_YEAR_BASE_def)
  with assms have un: "GRN_TIME_UNPACK env (GRN_TIME_PACK env (timegm ?g) (second_part mt))
      = (timegm ?g, second_part mt)"
    unfolding grn_time_packing_def valid_datetime_def by blast
  have gr: "gmtime_r (timegm ?g) = Some (gmtime (timegm ?g))"
    by (rule gmtime_r_mysql_year [OF v y]) simp
  have sc: "same_civil (gmtime (timegm ?g)) ?g" by (rule gmtime_timegm [OF v])
  have "to_uint (year mt) = year mt"
    by (rule to_uint_id) (use assms(1) in \<open>auto simp: valid_datetime_def mysql_year_def\<close>)
  moreover have "to_ulong (second_part mt) = second_part mt"
    by (rule to_ulong_id) (use assms(1) in \<open>auto simp: valid_datetime_def\<close>)
  ultimately show ?thesis
    using sc assms(1)
    by (auto simp: grn_time_to_mysql_time_def un gr same_civil_def valid_datetime_def
        intro!: mysql_time.equality)
qed

text \<open>Groonga's macros (\<^verbatim>\<open>groonga.h\<close>): a time is its microseconds, taken apart with C's division and remainder, which round towards 0.\<close>

definition groonga_macros :: "time_env \<Rightarrow> bool" where
  "groonga_macros env \<longleftrightarrow> (\<forall>sec usec. GRN_TIME_PACK env sec usec = sec * 1000000 + usec)
     \<and> (\<forall>t. GRN_TIME_UNPACK env t = (t sdiv 1000000, t smod 1000000))"

lemma macros_packing: "groonga_macros env \<Longrightarrow> grn_time_packing env"
  using fixed_zone_env_packing [of 0] by (simp add: groonga_macros_def grn_time_packing_def fixed_zone_env_def)

lemma unpack_before_epoch:
  fixes sec usec :: int
  assumes "sec < 0" "0 < usec" "usec < 1000000"
  shows "(sec * 1000000 + usec) sdiv 1000000 = sec + 1" "(sec * 1000000 + usec) smod 1000000 = usec - 1000000"
proof -
  let ?t = "sec * 1000000 + usec"
  have t: "- ?t = (1000000 - usec) + 1000000 * (- sec - 1)" by simp
  have neg: "?t < 0" using assms by linarith
  have "- ?t div 1000000 = - sec - 1" "- ?t mod 1000000 = 1000000 - usec"
    using digit_split [of "1000000 - usec" 1000000 "- sec - 1"] assms unfolding t by simp_all
  moreover have "sgn ?t = - 1" "\<bar>?t\<bar> = - ?t" using neg by simp_all
  ultimately show "?t sdiv 1000000 = sec + 1" "?t smod 1000000 = usec - 1000000"
    unfolding signed_divide_int_def signed_modulo_int_def by simp_all
qed

lemma timegm_before_epoch:
  assumes "valid_tm g" "tm_year g < 70"
  shows "timegm g < 0"
proof -
  let ?y = "tm_year g + TM_YEAR_BASE"
  have v: "valid_date ?y (tm_mon g) (tm_mday g)" using assms by (simp add: valid_tm_def)
  have s: "seconds_of_day (tm_hour g) (tm_min g) (tm_sec g) < 86400"
    using day_seconds_split [of "tm_hour g" "tm_min g" "tm_sec g"] assms(1) by (auto simp: valid_tm_def)
  have "days_before_year (?y + 1) \<le> days_before_year 1970"
    using days_before_year_mono [of "?y + 1" 1970] days_in_year_pos [of "?y + 1"] assms(2)
    by (cases "?y + 1 = 1970") (auto simp: TM_YEAR_BASE_def)
  moreover have "days_before_year 1970 = 0" by (simp add: days_before_year_def)
  ultimately have "days_from_civil ?y (tm_mon g) (tm_mday g) < 0"
    using day_of_year_bound [OF v] days_before_year_Suc [of ?y] unfolding days_from_civil_def by linarith
  then show ?thesis using s unfolding timegm_def by linarith
qed

lemma timegm_year_nonneg:
  assumes "valid_tm g" "- 62167219200 \<le> timegm g"
  shows "0 \<le> tm_year g + TM_YEAR_BASE"
proof (rule ccontr)
  let ?y = "tm_year g + TM_YEAR_BASE"
  assume "\<not> 0 \<le> ?y"
  then have "days_before_year (?y + 1) \<le> days_before_year 0"
    using days_before_year_mono [of "?y + 1" 0] days_in_year_pos [of "?y + 1"] by (cases "?y + 1 = 0") auto
  moreover have "days_before_year 0 = - 719528" by (simp add: days_before_year_def)
  moreover have v: "valid_date ?y (tm_mon g) (tm_mday g)" using assms by (simp add: valid_tm_def)
  ultimately have "days_from_civil ?y (tm_mon g) (tm_mday g) < - 719528"
    using day_of_year_bound [OF v] days_before_year_Suc [of ?y] unfolding days_from_civil_def by linarith
  moreover have "seconds_of_day (tm_hour g) (tm_min g) (tm_sec g) < 86400"
    using day_seconds_split [of "tm_hour g" "tm_min g" "tm_sec g"] assms(1) by (auto simp: valid_tm_def)
  ultimately show False using assms(2) unfolding timegm_def by linarith
qed

lemma timegm_late:
  assumes "valid_tm g" "9999 < tm_year g + TM_YEAR_BASE"
  shows "253402300800 \<le> timegm g"
proof -
  let ?y = "tm_year g + TM_YEAR_BASE"
  have v: "valid_date ?y (tm_mon g) (tm_mday g)" using assms by (simp add: valid_tm_def)
  have "days_before_year 10000 \<le> days_before_year ?y"
    using days_before_year_mono [of 10000 ?y] days_in_year_pos [of 10000] assms(2) by (cases "?y = 10000") auto
  moreover have "days_before_year 10000 = 2932897" by (simp add: days_before_year_def)
  ultimately have "2932897 \<le> days_from_civil ?y (tm_mon g) (tm_mday g)"
    using day_of_year_bound [OF v] unfolding days_from_civil_def by linarith
  moreover have "0 \<le> seconds_of_day (tm_hour g) (tm_min g) (tm_sec g)"
    using day_seconds_split [of "tm_hour g" "tm_min g" "tm_sec g"] assms(1) by (auto simp: valid_tm_def)
  ultimately show ?thesis unfolding timegm_def by linarith
qed

lemma grn_time_before_epoch:
  assumes "mysql_datetime mt" "year mt < 1970" "second_part mt \<noteq> 0" "groonga_macros env"
  obtains r where "grn_time_to_mysql_time env (GRN_TIME_PACK env (timegm (tm_of_mysql_time mt)) (second_part mt))
           (u\<lparr>time_type := MYSQL_TIMESTAMP_DATETIME\<rparr>) = Some r"
    "same_civil (tm_of_mysql_time r) (gmtime (timegm (tm_of_mysql_time mt) + 1))" "second_part r = 2 ^ 64 - 1000000 + second_part mt"
    "neg r = neg u" "time_type r = MYSQL_TIMESTAMP_DATETIME"
proof -
  let ?g = "tm_of_mysql_time mt" and ?us = "second_part mt"
  let ?d = "gmtime (timegm ?g + 1)"
  have v: "valid_tm ?g" "mysql_year (tm_year ?g + TM_YEAR_BASE)" "0 < ?us" "?us < 1000000"
    using assms(1,3) by (auto simp: mysql_datetime_def)
  have neg: "timegm ?g < 0" using timegm_before_epoch [OF v(1)] assms(2) by (simp add: TM_YEAR_BASE_def)
  have un: "GRN_TIME_UNPACK env (GRN_TIME_PACK env (timegm ?g) ?us) = (timegm ?g + 1, ?us - 1000000)"
    using unpack_before_epoch [OF neg v(3,4)] assms(4) by (simp add: groonga_macros_def)
  have near: "\<bar>timegm ?g + 1 - timegm ?g\<bar> < 86400" by simp
  have gr: "gmtime_r (timegm ?g + 1) = Some ?d" by (rule gmtime_r_mysql_year [OF v(1,2) near])
  have y: "0 \<le> tm_year ?d + TM_YEAR_BASE" "tm_year ?d + TM_YEAR_BASE < 2 ^ 32"
  proof -
    have "tm_year ?d \<le> tm_year ?g + 1" "tm_year ?g - 1 \<le> tm_year ?d" using gmtime_year_near [OF v(1) near] by linarith+
    moreover have "0 \<le> timegm ?g + 1 \<or> timegm ?g + 1 < 0" by linarith
    ultimately show "tm_year ?d + TM_YEAR_BASE < 2 ^ 32" using assms(2) by (simp add: TM_YEAR_BASE_def)
    have "timegm ?g + 1 = timegm ?d" by (simp add: timegm_gmtime)
    moreover have "valid_tm ?d" by (rule valid_tm_gmtime)
    ultimately show "0 \<le> tm_year ?d + TM_YEAR_BASE"
      using timegm_mysql_bounds(1) [OF v(1,2)] timegm_year_nonneg [of ?d] by simp
  qed
  have us: "to_ulong (?us - 1000000) = 2 ^ 64 - 1000000 + ?us"
    unfolding to_ulong_def by (rule int_mod_pos_eq [where q = "-1"]) (use v in auto)
  define res where "res = u\<lparr>time_type := MYSQL_TIMESTAMP_DATETIME, year := tm_year ?d + TM_YEAR_BASE, month := tm_mon ?d + 1, day := tm_mday ?d,
      hour := tm_hour ?d, minute := tm_min ?d, second := tm_sec ?d, second_part := 2 ^ 64 - 1000000 + ?us\<rparr>"
  have "grn_time_to_mysql_time env (GRN_TIME_PACK env (timegm ?g) ?us) (u\<lparr>time_type := MYSQL_TIMESTAMP_DATETIME\<rparr>) = Some res"
    by (simp add: grn_time_to_mysql_time_def un gr to_uint_id [OF y] us res_def)
  then show thesis using that [of res] by (simp add: res_def same_civil_def)
qed


definition example_datetime :: mysql_time where
  "example_datetime = \<lparr>year = 2024, month = 2, day = 29, hour = 23, minute = 59, second = 58,
     second_part = 250000, neg = False, time_type = MYSQL_TIMESTAMP_DATETIME\<rparr>"

lemma valid_example_datetime: "valid_datetime example_datetime"
  by (simp add: valid_datetime_def example_datetime_def mysql_year_def valid_tm_def
      valid_date_def days_in_month_def is_leap_def TM_YEAR_BASE_def)


section \<open>Packed dates\<close>

definition pack_datetime :: "mysql_time \<Rightarrow> int" where
  "pack_datetime mt = second mt * 1 + minute mt * 100 + hour mt * 10000 + day mt * 1000000
          + month mt * 100000000 + year mt * 10000000000"

lemma pack_datetime_digits:
  assumes "0 \<le> year mt" "year mt < 10000" "0 \<le> month mt" "month mt < 100" "0 \<le> day mt" "day mt < 100"
    "0 \<le> hour mt" "hour mt < 100" "0 \<le> minute mt" "minute mt < 100" "0 \<le> second mt" "second mt < 100"
  shows "pack_datetime mt smod 100 = second mt" "pack_datetime mt sdiv 100 smod 100 = minute mt"
    "pack_datetime mt sdiv 10000 smod 100 = hour mt" "pack_datetime mt sdiv 1000000 smod 100 = day mt"
    "pack_datetime mt sdiv 100000000 smod 100 = month mt"
    "pack_datetime mt sdiv 10000000000 smod 10000 = year mt"
proof -
  have nn: "0 \<le> pack_datetime mt" using assms by (simp add: pack_datetime_def)
  have q: "pack_datetime mt div 100 = minute mt + 100 * (hour mt + 100 * (day mt + 100 * (month mt + 100 * year mt)))"
    by (rule int_div_pos_eq [where r = "second mt"]) (use assms in \<open>auto simp: pack_datetime_def\<close>)
  have d1: "pack_datetime mt div 10000 = hour mt + 100 * (day mt + 100 * (month mt + 100 * year mt))"
    by (rule int_div_pos_eq [where r = "second mt + 100 * minute mt"]) (use assms in \<open>auto simp: pack_datetime_def\<close>)
  have d2: "pack_datetime mt div 1000000 = day mt + 100 * (month mt + 100 * year mt)"
    by (rule int_div_pos_eq [where r = "second mt + 100 * minute mt + 10000 * hour mt"])
      (use assms in \<open>auto simp: pack_datetime_def\<close>)
  have d3: "pack_datetime mt div 100000000 = month mt + 100 * year mt"
    by (rule int_div_pos_eq [where r = "second mt + 100 * minute mt + 10000 * hour mt + 1000000 * day mt"])
      (use assms in \<open>auto simp: pack_datetime_def\<close>)
  have d4: "pack_datetime mt div 10000000000 = year mt"
    by (rule int_div_pos_eq [where r = "second mt + 100 * minute mt + 10000 * hour mt + 1000000 * day mt
        + 100000000 * month mt"]) (use assms in \<open>auto simp: pack_datetime_def\<close>)
  have "pack_datetime mt = second mt + 100 * (pack_datetime mt div 100)"
    unfolding q by (simp add: pack_datetime_def)
  then have "pack_datetime mt mod 100 = second mt"
    using digit_split(2) [of "second mt" 100] assms by metis
  with nn show "pack_datetime mt smod 100 = second mt" by (simp add: sdiv_smod_nonneg)
  show "pack_datetime mt sdiv 100 smod 100 = minute mt" "pack_datetime mt sdiv 10000 smod 100 = hour mt"
    "pack_datetime mt sdiv 1000000 smod 100 = day mt" "pack_datetime mt sdiv 100000000 smod 100 = month mt"
    "pack_datetime mt sdiv 10000000000 smod 10000 = year mt"
    using assms nn by (simp_all only: sdiv_smod_nonneg q d1 d2 d3 d4)
      (simp_all add: sdiv_smod_nonneg digit_split del: distrib_left_numeral)
qed

lemma valid_datetime_ranges:
  assumes "valid_datetime mt"
  shows "0 \<le> year mt" "year mt < 10000" "0 \<le> month mt" "month mt < 100" "0 \<le> day mt" "day mt < 100"
    "0 \<le> hour mt" "hour mt < 100" "0 \<le> minute mt" "minute mt < 100" "0 \<le> second mt" "second mt < 100"
proof -
  have "days_in_month y m \<le> 31" for y m by (simp add: days_in_month_def)
  with assms show "day mt < 100"
    by (fastforce simp: valid_datetime_def valid_tm_def valid_date_def dest: order_trans)
qed (use assms in \<open>auto simp: valid_datetime_def valid_tm_def valid_date_def mysql_year_def\<close>)

lemma mysql_datetime_of_pack:
  assumes "valid_datetime mt" and "second_part mt = 0"
  shows "mysql_datetime_to_grn_time env (pack_datetime mt) = mysql_time_to_grn_time env mt"
proof -
  note r = valid_datetime_ranges [OF assms(1)]
  have u: "to_uint x = x" if "0 \<le> x" "x < 10000" for x by (rule to_uint_id) (use that in auto)
  show ?thesis
    unfolding mysql_datetime_to_grn_time_def pack_datetime_digits [OF r]
    using assms r by (cases mt) (simp add: u valid_datetime_def)
qed

text \<open>The packed form \<^verbatim>\<open>YYYYMMDDhhmmss\<close> of a DATETIME column without fraction, as it stands in
  old-format records and multiple-column keys, is the same again after the way through Groonga's
  time.
\<close>
lemma packed_datetime_roundtrip:
  assumes "valid_datetime mt" and "second_part mt = 0"
    and "mktime_in_zone off (mktime env)" and "zone_offset off" and "grn_time_packing env"
    and "same_civil (tm_of_mysql_time mt) (localtime off t)"
  shows "\<not> snd (mysql_datetime_to_grn_time env (pack_datetime mt))
     \<and> grn_time_to_mysql_datetime env (fst (mysql_datetime_to_grn_time env (pack_datetime mt))) u
         = Some (pack_datetime mt)"
  using mysql_datetime_of_pack [OF assms(1,2)] datetime_to_grn_time [OF assms(1,3,4,6)]
    grn_time_to_datetime [OF assms(1,5), of u]
  unfolding grn_time_to_mysql_datetime_def by (simp add: pack_datetime_def)

lemma packed_datetime_roundtrip_witness:
  "pack_datetime (example_datetime\<lparr>second_part := 0\<rparr>) = 20240229235958
   \<and> grn_time_to_mysql_datetime (fixed_zone_env 0)
       (fst (mysql_datetime_to_grn_time (fixed_zone_env 0) 20240229235958)) example_datetime
     = Some 20240229235958"
proof -
  let ?e = "example_datetime\<lparr>second_part := 0\<rparr>"
  have v: "valid_datetime ?e"
    using valid_example_datetime by (simp add: valid_datetime_def tm_of_mysql_time_def)
  then have vt: "valid_tm (tm_of_mysql_time ?e)" by (simp add: valid_datetime_def)
  have m: "mktime_in_zone (\<lambda>_. 0) (mktime (fixed_zone_env 0))"
    using fixed_zone_mktime_in_zone [of 0] by (simp add: fixed_zone_env_def)
  have z: "zone_offset (\<lambda>_. 0)" by (simp add: zone_offset_def)
  have p: "pack_datetime ?e = 20240229235958" by (simp add: pack_datetime_def example_datetime_def)
  from packed_datetime_roundtrip [OF v _ m z fixed_zone_env_packing fixed_zone_local_exists [OF vt],
      of example_datetime]
  show ?thesis by (simp add: p)
qed

section \<open>TIME values\<close>

definition valid_time :: "mysql_time \<Rightarrow> bool" where
  "valid_time mt \<longleftrightarrow> time_type mt = MYSQL_TIMESTAMP_TIME \<and> 0 \<le> hour mt \<and> hour mt \<le> 838
     \<and> 0 \<le> minute mt \<and> minute mt < 60 \<and> 0 \<le> second mt \<and> second mt < 60
     \<and> 0 \<le> second_part mt \<and> second_part mt < 1000000"

text \<open>
  A TIME value that is not negative (up to MySQL's 838:59:59, with microseconds) survives the
  way to Groonga's time and back.
\<close>
theorem time_roundtrip:
  assumes "valid_time mt" and "\<not> neg mt" and "grn_time_packing env"
    and "time_type u = MYSQL_TIMESTAMP_TIME" and "\<not> neg u"
    and "year u = year mt" "month u = month mt" "day u = day mt"
  shows "grn_time_to_mysql_time env (fst (mysql_time_to_grn_time env mt)) u = Some mt"
proof -
  let ?s = "seconds_of_time mt"
  have s: "0 \<le> ?s" "?s < 2 ^ 31" using assms(1) by (auto simp: valid_time_def seconds_of_time_def)
  have i: "to_int ?s = ?s" "to_int (second_part mt) = second_part mt"
    by (rule to_int_id; use s assms(1) in \<open>auto simp: valid_time_def\<close>)+
  have un: "GRN_TIME_UNPACK env (GRN_TIME_PACK env ?s (second_part mt)) = (?s, second_part mt)"
    using assms(1,3) s unfolding grn_time_packing_def valid_time_def by blast
  have sm: "?s sdiv 60 = hour mt * 60 + minute mt" "?s smod 60 = second mt"
    "(hour mt * 60 + minute mt) sdiv 60 = hour mt" "(hour mt * 60 + minute mt) smod 60 = minute mt"
  proof -
    have e: "?s = second mt + 60 * (hour mt * 60 + minute mt)"
        "hour mt * 60 + minute mt = minute mt + 60 * hour mt" by (simp_all add: seconds_of_time_def)
    have nn: "0 \<le> hour mt * 60 + minute mt" using assms(1) by (simp add: valid_time_def)
    have "0 \<le> second mt" "second mt < 60" "0 \<le> minute mt" "minute mt < 60"
      using assms(1) by (simp_all add: valid_time_def)
    note ds = digit_split [OF this(1,2), of "hour mt * 60 + minute mt"] digit_split [OF this(3,4), of "hour mt"]
    show "?s sdiv 60 = hour mt * 60 + minute mt" "?s smod 60 = second mt"
      "(hour mt * 60 + minute mt) sdiv 60 = hour mt" "(hour mt * 60 + minute mt) smod 60 = minute mt"
      using s(1) nn ds by (simp_all only: sdiv_smod_nonneg e zero_less_numeral)
  qed
  have u: "to_uint (hour mt) = hour mt" "to_ulong (second_part mt) = second_part mt"
    using assms(1) by (auto simp: valid_time_def intro!: to_uint_id to_ulong_id)
  show ?thesis
    using assms s
    by (auto simp: mysql_time_to_grn_time_def grn_time_to_mysql_time_def valid_time_def i un sm u Let_def
        intro!: mysql_time.equality)
qed

definition example_time :: mysql_time where
  "example_time = \<lparr>year = 0, month = 0, day = 0, hour = 838, minute = 59, second = 58,
     second_part = 999999, neg = False, time_type = MYSQL_TIMESTAMP_TIME\<rparr>"

theorem time_roundtrip_witness:
  "grn_time_to_mysql_time (fixed_zone_env 0)
     (fst (mysql_time_to_grn_time (fixed_zone_env 0) example_time)) example_time = Some example_time"
  by (rule time_roundtrip) (simp_all add: valid_time_def example_time_def fixed_zone_env_packing)

text \<open>
  A negative TIME above minus one second is not given back. With Groonga's time counted in
  microseconds and unpacked by C's division, the seconds of the unpacked value are 0, so the sign is
  never set, and the negative microseconds are stored in the unsigned \<^verbatim>\<open>second_part\<close>, where they
  wrap around.
\<close>
theorem negative_fraction_lost:
  assumes "\<And>s us. GRN_TIME_PACK env s us = s * 1000000 + us"
    and "\<And>t. GRN_TIME_UNPACK env t = (t sdiv 1000000, t smod 1000000)"
    and "valid_time mt" and "neg mt" and "hour mt = 0" "minute mt = 0" "second mt = 0"
    and "0 < second_part mt" and "time_type u = MYSQL_TIMESTAMP_TIME" and "\<not> neg u"
  shows "\<exists>r. grn_time_to_mysql_time env (fst (mysql_time_to_grn_time env mt)) u = Some r
     \<and> \<not> neg r \<and> second_part r = 2 ^ 64 - second_part mt"
proof -
  let ?p = "second_part mt"
  have p: "0 < ?p" "?p < 1000000" using assms(3,8) by (simp_all add: valid_time_def)
  have us: "to_int ?p = ?p" by (rule to_int_id) (use p in auto)
  have "?p sdiv 1000000 = 0" "?p smod 1000000 = ?p"
    using p by (simp_all add: sdiv_smod_nonneg div_pos_pos_trivial)
  then have c: "(- ?p) sdiv 1000000 = 0" "(- ?p) smod 1000000 = - ?p"
    by simp_all
  note c' = c [simplified]
  have w: "to_ulong (- ?p) = 2 ^ 64 - ?p"
    unfolding to_ulong_def by (rule int_mod_pos_eq [where q = "-1"]) (use p in auto)
  show ?thesis
    using assms(3-10)
    by (simp add: mysql_time_to_grn_time_def grn_time_to_mysql_time_def valid_time_def
        seconds_of_time_def to_int_def [of 0] us assms(1,2) c' w)
qed

theorem negative_fraction_lost_witness:
  "\<exists>r. grn_time_to_mysql_time (fixed_zone_env 0) (fst (mysql_time_to_grn_time (fixed_zone_env 0)
        (example_time\<lparr>hour := 0, minute := 0, second := 0, second_part := 500000, neg := True\<rparr>)))
        example_time = Some r \<and> \<not> neg r \<and> second_part r = 2 ^ 64 - 500000"
  using negative_fraction_lost [of "fixed_zone_env 0"
      "example_time\<lparr>hour := 0, minute := 0, second := 0, second_part := 500000, neg := True\<rparr>" example_time]
  by (simp add: valid_time_def example_time_def fixed_zone_env_def)

end
