(* ===== verification/Index_Names.thy ===== *)
theory Index_Names
  imports Mrn_Prelude
begin

text \<open>
  The Groonga names of index tables, index columns and columns
  (\<^verbatim>\<open>lib/mrn_index_table_name.cpp\<close>, \<^verbatim>\<open>lib/mrn_index_column_name.cpp\<close>,
  \<^verbatim>\<open>lib/mrn_column_name.cpp\<close>). MySQL's charset functions are the parameters \<open>mb_wc\<close> (the system
  charset) and \<open>wc_mb\<close> (the file name charset) with MySQL's return codes; the size of the name
  buffers, Groonga's maximum key size, is the parameter \<open>K\<close>. The lemmas show that the conversion
  loop ends inside its buffer, which names count as custom, and that different indexes and columns
  get different names.
\<close>

text \<open>\<open>mb_wc input\<close> is the returned length and the code point read from the front of the input;
  \<open>wc_mb wc room\<close> is the returned length and the bytes written for a code point when \<open>room\<close> bytes
  are left.\<close>

type_synonym mb_wc = "string \<Rightarrow> int \<times> nat"
type_synonym wc_mb = "nat \<Rightarrow> nat \<Rightarrow> int \<times> string"

definition MY_CS_ILSEQ :: int where "MY_CS_ILSEQ = 0"

text \<open>The loop of \<^verbatim>\<open>encode\<close>: \<open>cap\<close> is the number of bytes before the decremented
  \<^verbatim>\<open>encoded_end\<close>, \<open>encoded\<close> what has been written so far.\<close>

function encode_loop :: "mb_wc \<Rightarrow> wc_mb \<Rightarrow> nat \<Rightarrow> string \<Rightarrow> string \<Rightarrow> string" where
  "encode_loop mb_wc wc_mb cap mysql_string encoded =
     (if mysql_string \<noteq> [] \<and> length encoded < cap then
        (let (n, wc) = mb_wc mysql_string in
         if 0 < n then
           (let (m, bytes) = wc_mb wc (cap - length encoded) in
            if m \<le> 0 then encoded
            else encode_loop mb_wc wc_mb cap (drop (nat n) mysql_string) (encoded @ take (nat m) bytes))
         else if n = MY_CS_ILSEQ then
           encode_loop mb_wc wc_mb cap (tl mysql_string) (encoded @ [hd mysql_string])
         else encoded)
      else encoded)"
  by pat_completeness auto
termination
  by (relation "measure (\<lambda>(_, _, _, s, _). length s)") auto

declare encode_loop.simps [simp del]

definition encode_name :: "mb_wc \<Rightarrow> wc_mb \<Rightarrow> nat \<Rightarrow> string \<Rightarrow> string" where
  "encode_name mb_wc wc_mb buffer_size mysql_string =
     encode_loop mb_wc wc_mb (buffer_size - 1) mysql_string []"

text \<open>\<^verbatim>\<open>snprintf(buffer, size, ...)\<close> keeps the first \<open>sz - 1\<close> characters.\<close>

definition snprintf_result :: "nat \<Rightarrow> string \<Rightarrow> string" where
  "snprintf_result sz s = take (sz - 1) s"

section \<open>Index tables\<close>

definition SEPARATOR :: string where "SEPARATOR = ''#''"
definition OLD_SEPARATOR :: string where "OLD_SEPARATOR = ''-''"

text \<open>\<^verbatim>\<open>strncmp(s, t, n) == 0\<close>.\<close>

definition strncmp_eq :: "string \<Rightarrow> string \<Rightarrow> nat \<Rightarrow> bool" where
  "strncmp_eq s t n \<longleftrightarrow> take n (c_str s) = take n (c_str t)"

definition is_custom_name :: "string \<Rightarrow> string \<Rightarrow> bool" where
  "is_custom_name table index_table =
     (if length index_table \<le> length table + length SEPARATOR then True
      else if \<not> strncmp_eq table index_table (length table) then True
      else if \<not> strncmp_eq OLD_SEPARATOR (drop (length table) index_table) (length OLD_SEPARATOR)
         \<and> \<not> strncmp_eq SEPARATOR (drop (length table) index_table) (length SEPARATOR) then True
      else False)"

record index_table_name =
  old_name :: string
  name :: string

definition IndexTableName :: "mb_wc \<Rightarrow> wc_mb \<Rightarrow> nat \<Rightarrow> string \<Rightarrow> string \<Rightarrow> index_table_name" where
  "IndexTableName mb_wc wc_mb K table mysql_index_name =
     (let encoded = c_str (encode_name mb_wc wc_mb (K - 1) mysql_index_name)
      in \<lparr>old_name = snprintf_result K (c_str table @ OLD_SEPARATOR @ encoded),
          name = snprintf_result K (c_str table @ SEPARATOR @ encoded)\<rparr>)"

section \<open>Index columns\<close>

definition MRN_MIN_INDEX_COLUMN_NAME_LENGTH :: nat where
  "MRN_MIN_INDEX_COLUMN_NAME_LENGTH = 65"

definition IndexColumnName :: "mb_wc \<Rightarrow> wc_mb \<Rightarrow> nat \<Rightarrow> string \<Rightarrow> string \<Rightarrow> string" where
  "IndexColumnName mb_wc wc_mb K table mysql_column_name =
     (let encoded = c_str (encode_name mb_wc wc_mb (K - 2) mysql_column_name);
          name = snprintf_result K (c_str table @ ''-'' @ encoded)
      in if length name < MRN_MIN_INDEX_COLUMN_NAME_LENGTH
         then name @ replicate (MRN_MIN_INDEX_COLUMN_NAME_LENGTH - length name) (CHR ''-'')
         else name)"

section \<open>Columns\<close>

text \<open>\<^verbatim>\<open>mrn_strconvert\<close> is MySQL's \<^verbatim>\<open>strconvert\<close>: the parameter gets the name and the size of the
  buffer and returns what was written; the result is cut at the NUL stored behind it.\<close>

definition ColumnName :: "(string \<Rightarrow> nat \<Rightarrow> string) \<Rightarrow> nat \<Rightarrow> string \<Rightarrow> string" where
  "ColumnName strconvert max_path_size mysql_name = strconvert mysql_name max_path_size"

section \<open>The conversion loop\<close>

text \<open>What MySQL documents of a charset's \<^verbatim>\<open>wc_mb\<close>: it writes the bytes it reports, inside the
  room it was given.\<close>

definition wc_mb_fits :: "wc_mb \<Rightarrow> bool" where
  "wc_mb_fits wc_mb \<longleftrightarrow> (\<forall>wc room. 0 < fst (wc_mb wc room) \<longrightarrow>
     nat (fst (wc_mb wc room)) \<le> room \<and> length (snd (wc_mb wc room)) = nat (fst (wc_mb wc room)))"

text \<open>An encoding never writes a character of the set \<open>S\<close>, neither through \<^verbatim>\<open>wc_mb\<close> nor as a byte
  of an illegal sequence that is copied.\<close>

definition never_writes :: "mb_wc \<Rightarrow> wc_mb \<Rightarrow> char set \<Rightarrow> bool" where
  "never_writes mb_wc wc_mb S \<longleftrightarrow>
     (\<forall>wc room. set (snd (wc_mb wc room)) \<inter> S = {}) \<and>
     (\<forall>c s. c \<in> S \<longrightarrow> fst (mb_wc (c # s)) \<noteq> MY_CS_ILSEQ)"

text \<open>Every property of the written bytes that both ways of writing keep holds of the result.\<close>

lemma encode_loop_invariant:
  assumes "P encoded"
    and "\<And>e wc n bytes. P e \<Longrightarrow> length e < cap \<Longrightarrow> wc_mb wc (cap - length e) = (n, bytes) \<Longrightarrow> 0 < n
      \<Longrightarrow> P (e @ take (nat n) bytes)"
    and "\<And>e c rest. P e \<Longrightarrow> length e < cap \<Longrightarrow> fst (mb_wc (c # rest)) = MY_CS_ILSEQ \<Longrightarrow> P (e @ [c])"
  shows "P (encode_loop mb_wc wc_mb cap s encoded)"
  using assms
proof (induction mb_wc wc_mb cap s encoded rule: encode_loop.induct [case_names step])
  case (step mb_wc wc_mb cap s encoded)
  show ?case
  proof (cases "s \<noteq> [] \<and> length encoded < cap")
    case True
    obtain n wc where nw: "mb_wc s = (n, wc)" by force
    obtain m bytes where mb: "wc_mb wc (cap - length encoded) = (m, bytes)" by force
    consider "0 < n" "m \<le> 0" | "0 < n" "0 < m" | "n = MY_CS_ILSEQ" | "n < 0"
      by (auto simp: MY_CS_ILSEQ_def) linarith
    then show ?thesis
    proof cases
      case 2
      have "P (encode_loop mb_wc wc_mb cap (drop (nat n) s) (encoded @ take (nat m) bytes))"
      proof (rule step.IH(1) [OF True nw [symmetric] refl 2(1) mb [symmetric] refl])
        show "P (encoded @ take (nat m) bytes)" using step.prems(1,2) True mb 2(2) by blast
      qed (use 2(2) step.prems(2,3) in \<open>simp, blast, blast\<close>)
      with 2 True nw mb show ?thesis by (simp add: encode_loop.simps [of _ _ _ s])
    next
      case 3
      then have n0: "\<not> 0 < n" by (simp add: MY_CS_ILSEQ_def)
      obtain c rest where s: "s = c # rest" using True by (cases s) auto
      have "P (encode_loop mb_wc wc_mb cap (tl s) (encoded @ [hd s]))"
      proof (rule step.IH(2) [OF True nw [symmetric] refl n0 3])
        show "P (encoded @ [hd s])" using step.prems(3) [of encoded c rest] step.prems(1) True nw 3 s by simp
      qed (use step.prems(2,3) in \<open>blast, blast\<close>)
      with 3 n0 True nw show ?thesis by (simp add: encode_loop.simps [of _ _ _ s])
    qed (use step.prems(1) True nw mb in \<open>simp_all add: encode_loop.simps [of _ _ _ s] MY_CS_ILSEQ_def\<close>)
  qed (use step.prems(1) in \<open>subst encode_loop.simps, auto\<close>)
qed

lemma encode_name_length:
  assumes "wc_mb_fits wc_mb" and "0 < buffer_size"
  shows "length (encode_name mb_wc wc_mb buffer_size s) < buffer_size"
proof -
  have "length (encode_loop mb_wc wc_mb (buffer_size - 1) s []) \<le> buffer_size - 1"
  proof (rule encode_loop_invariant [where P = "\<lambda>e. length e \<le> buffer_size - 1"])
    fix e :: string and wc n bytes
    assume "length e < buffer_size - 1" "wc_mb wc (buffer_size - 1 - length e) = (n, bytes)" "0 < n"
    moreover from this assms(1) have "nat n \<le> buffer_size - 1 - length e"
      using assms(1) [unfolded wc_mb_fits_def, rule_format, of wc "buffer_size - 1 - length e"] by simp
    ultimately show "length (e @ take (nat n) bytes) \<le> buffer_size - 1" by simp
  qed auto
  with assms(2) show ?thesis by (simp add: encode_name_def)
qed

lemma encode_name_avoids:
  assumes "never_writes mb_wc wc_mb S"
  shows "set (encode_name mb_wc wc_mb buffer_size s) \<inter> S = {}"
  unfolding encode_name_def
proof (rule encode_loop_invariant [where P = "\<lambda>e. set e \<inter> S = {}"])
  fix e :: string and wc n bytes
  assume "set e \<inter> S = {}" "wc_mb wc (buffer_size - 1 - length e) = (n, bytes)"
  moreover from this assms have "set bytes \<inter> S = {}"
    by (metis never_writes_def snd_conv)
  ultimately show "set (e @ take (nat n) bytes) \<inter> S = {}"
    using set_take_subset [of "nat n" bytes] by auto
next
  fix e c rest
  assume "set e \<inter> S = {}" "fst (mb_wc (c # rest)) = MY_CS_ILSEQ"
  with assms show "set (e @ [c]) \<inter> S = {}" by (auto simp: never_writes_def)
qed simp

lemma set_c_str: "set (c_str s) \<subseteq> set s"
  by (auto simp: c_str_def dest: set_takeWhileD)

lemma length_c_str: "length (c_str s) \<le> length s"
  by (simp add: c_str_def length_takeWhile_le)

lemma NUL_c_str [simp]: "NUL \<notin> set (c_str s)"
  by (auto simp: c_str_def dest: set_takeWhileD)

lemma c_str_c_str [simp]: "c_str (c_str s) = c_str s"
  by (simp add: c_str_id)

section \<open>Which names are custom\<close>

lemma take_one_eq: "take (Suc 0) xs = [c] \<longleftrightarrow> (\<exists>ys. xs = c # ys)"
  by (cases xs) auto

lemma strncmp_eq_single:
  "c \<noteq> NUL \<Longrightarrow> strncmp_eq [c] s (Suc 0) \<longleftrightarrow> (\<exists>rest. s = c # rest)"
  by (cases s) (auto simp: strncmp_eq_def c_str_def)

lemma strncmp_eq_prefix:
  assumes "NUL \<notin> set t" and "NUL \<notin> set s" and "length t \<le> length s"
  shows "strncmp_eq t s (length t) \<longleftrightarrow> (\<exists>rest. s = t @ rest)"
  using assms by (auto simp: strncmp_eq_def c_str_id intro: exI [of _ "drop (length t) s"])
     (metis append_take_drop_id)

lemma snprintf_result_fits: "length s < sz \<Longrightarrow> snprintf_result sz s = s"
  by (simp add: snprintf_result_def)

lemma snprintf_result_length: "0 < sz \<Longrightarrow> length (snprintf_result sz s) < sz"
  by (auto simp: snprintf_result_def)

lemma snprintf_result_append:
  assumes "length xs + 1 < sz" and "ys \<noteq> []"
  shows "\<exists>zs. zs \<noteq> [] \<and> snprintf_result sz (xs @ ys) = xs @ zs \<and> set zs \<subseteq> set ys"
  using assms set_take_subset [of "sz - Suc (length xs)" ys]
  by (intro exI [of _ "take (sz - 1 - length xs) ys"]) (auto simp: snprintf_result_def)

lemma is_custom_name_shape:
  assumes "NUL \<notin> set table" and "NUL \<notin> set index_table"
  shows "is_custom_name table index_table \<longleftrightarrow>
    \<not> (\<exists>sep rest. sep \<in> {SEPARATOR, OLD_SEPARATOR} \<and> rest \<noteq> [] \<and> index_table = table @ sep @ rest)"
proof (cases "length index_table \<le> length table + 1")
  case True
  then show ?thesis by (auto simp: is_custom_name_def SEPARATOR_def OLD_SEPARATOR_def)
next
  case False
  then have le: "length table \<le> length index_table" by simp
  have "(\<exists>sep rest. sep \<in> {SEPARATOR, OLD_SEPARATOR} \<and> rest \<noteq> [] \<and> index_table = table @ sep @ rest)
    \<longleftrightarrow> (\<exists>tail. index_table = table @ tail) \<and>
        ((\<exists>rest. drop (length table) index_table = ''-'' @ rest) \<or>
         (\<exists>rest. drop (length table) index_table = ''#'' @ rest))"
    using False by (auto simp: SEPARATOR_def OLD_SEPARATOR_def)
  with False show ?thesis
    by (simp add: is_custom_name_def SEPARATOR_def OLD_SEPARATOR_def strncmp_eq_single
        strncmp_eq_prefix [OF assms le])
qed

text \<open>
  A name counts as a custom index table name exactly when it is not the table's name followed
  by one of the two separators and at least one more character.
\<close>
theorem is_custom_name_iff:
  assumes "NUL \<notin> set table" and "NUL \<notin> set index_table"
  shows "is_custom_name table index_table \<longleftrightarrow>
    \<not> (\<exists>sep rest. sep \<in> {SEPARATOR, OLD_SEPARATOR} \<and> rest \<noteq> [] \<and> index_table = table @ sep @ rest)"
  by (rule is_custom_name_shape [OF assms])

theorem is_custom_name_iff_witness:
  "is_custom_name ''diaries'' ''entries#terms'' \<and> \<not> is_custom_name ''diaries'' ''diaries#terms''"
proof -
  have "is_custom_name ''diaries'' ''entries#terms''"
    by (subst is_custom_name_iff) (auto simp: SEPARATOR_def OLD_SEPARATOR_def)
  moreover have "\<not> is_custom_name ''diaries'' ''diaries#terms''"
    by (subst is_custom_name_iff) (auto simp: SEPARATOR_def OLD_SEPARATOR_def)
  ultimately show ?thesis by blast
qed

lemma own_name_shape:
  assumes "NUL \<notin> set table" and "c_str encoded \<noteq> []" and "length table + 2 < K" and "length sep = 1"
  shows "\<exists>rest. rest \<noteq> [] \<and> NUL \<notin> set rest
    \<and> snprintf_result K (c_str table @ sep @ c_str encoded) = table @ sep @ rest"
proof -
  obtain zs where "zs \<noteq> []" "set zs \<subseteq> set (c_str encoded)"
    "snprintf_result K ((table @ sep) @ c_str encoded) = (table @ sep) @ zs"
    using snprintf_result_append [of "table @ sep" K "c_str encoded"] assms by auto
  with assms(1) NUL_c_str [of encoded] show ?thesis
    by (auto simp: c_str_id subset_iff)
qed

text \<open>The names Mroonga itself gives to an index table, the current one and the old one, are never
  taken for a custom name: this holds for every charset, and also when the name had to be cut to
  the size of its buffer, provided the table name leaves room for one character and the encoded
  index name is not empty.
\<close>
lemma own_index_names_not_custom:
  assumes "NUL \<notin> set table" and "length table + 2 < K"
    and "c_str (encode_name mb_wc wc_mb (K - 1) mysql_index_name) \<noteq> []"
  shows "\<not> is_custom_name table (name (IndexTableName mb_wc wc_mb K table mysql_index_name))
    \<and> \<not> is_custom_name table (old_name (IndexTableName mb_wc wc_mb K table mysql_index_name))"
proof -
  let ?e = "encode_name mb_wc wc_mb (K - 1) mysql_index_name"
  have "\<not> is_custom_name table (snprintf_result K (c_str table @ sep @ c_str ?e))"
    if sep: "sep \<in> {SEPARATOR, OLD_SEPARATOR}" for sep
  proof -
    from sep have l: "length sep = 1" and n: "NUL \<notin> set sep"
      by (auto simp: SEPARATOR_def OLD_SEPARATOR_def)
    obtain rest where r: "rest \<noteq> []" "NUL \<notin> set rest"
      "snprintf_result K (c_str table @ sep @ c_str ?e) = table @ sep @ rest"
      using own_name_shape [OF assms(1,3,2) l] by blast
    have "(\<not> is_custom_name table (table @ sep @ rest)) = True"
      by (subst is_custom_name_shape) (use assms(1) r n sep in auto)
    with r show ?thesis by simp
  qed
  then show ?thesis by (simp add: IndexTableName_def Let_def)
qed

text \<open>A concrete pair of charset functions: ASCII letters and digits are kept, every other code
  point below 256 becomes an at sign and four hexadecimal digits, as in MySQL's file name charset.\<close>

definition hex_digit :: "nat \<Rightarrow> char" where
  "hex_digit n = ''0123456789abcdef'' ! (n mod 16)"

definition latin_mb_wc :: mb_wc where
  "latin_mb_wc s = (if s = [] then (-101, 0) else (1, of_char (hd s)))"

definition filename_bytes :: "nat \<Rightarrow> string" where
  "filename_bytes wc = (if 48 \<le> wc \<and> wc \<le> 57 \<or> 65 \<le> wc \<and> wc \<le> 90 \<or> 97 \<le> wc \<and> wc \<le> 122 \<or> wc = 95
     then [char_of wc]
     else CHR ''@'' # map (\<lambda>i. hex_digit (wc div 16 ^ i)) [3, 2, 1, 0])"

definition filename_wc_mb :: wc_mb where
  "filename_wc_mb wc room = (let bytes = filename_bytes wc in
     if length bytes \<le> room then (int (length bytes), bytes) else (-101, []))"

lemma filename_wc_mb_fits: "wc_mb_fits filename_wc_mb"
  by (simp add: wc_mb_fits_def filename_wc_mb_def Let_def)

lemma hex_digit_cases: "hex_digit n \<in> set ''0123456789abcdef''"
  unfolding hex_digit_def by (rule nth_mem) simp

lemma filename_bytes_set: "set (filename_bytes wc) \<inter> {CHR ''#'', CHR ''-''} = {}"
proof -
  have "char_of wc \<noteq> CHR ''#''" "char_of wc \<noteq> CHR ''-''" if "48 \<le> wc" "wc < 256"
    using that by (simp_all add: char_of_eq_iff take_bit_nat_eq_self)
  moreover have "hex_digit n \<noteq> CHR ''#''" "hex_digit n \<noteq> CHR ''-''"
    "CHR ''#'' \<noteq> hex_digit n" "CHR ''-'' \<noteq> hex_digit n" for n
    using hex_digit_cases [of n] by auto
  moreover have "char_of (95 :: nat) \<noteq> CHR ''#''" "char_of (95 :: nat) \<noteq> CHR ''-''" by code_simp+
  ultimately show ?thesis by (simp add: filename_bytes_def eq_commute [of _ "char_of _"])
qed

lemma latin_filename_never_writes:
  "S \<subseteq> {CHR ''#'', CHR ''-''} \<Longrightarrow> never_writes latin_mb_wc filename_wc_mb S"
  using filename_bytes_set
  by (auto simp: never_writes_def latin_mb_wc_def filename_wc_mb_def Let_def MY_CS_ILSEQ_def)

lemma latin_encode_examples [cstr_simps]:
  "encode_name latin_mb_wc filename_wc_mb 98 ''title'' = ''title''"
  "encode_name latin_mb_wc filename_wc_mb 99 ''title'' = ''title''"
  "encode_name latin_mb_wc filename_wc_mb 98 ''a-b'' = ''a@002db''"
  "encode_name latin_mb_wc filename_wc_mb 99 ''a-b'' = ''a@002db''"
  by code_simp+

lemma own_index_names_not_custom_witness:
  "\<not> is_custom_name ''diaries'' (name (IndexTableName latin_mb_wc filename_wc_mb 100 ''diaries'' ''a-b''))
    \<and> \<not> is_custom_name ''diaries'' (old_name (IndexTableName latin_mb_wc filename_wc_mb 100 ''diaries'' ''a-b''))"
  by (rule own_index_names_not_custom) (simp_all add: cstr_simps c_str_def)

section \<open>Different indexes and columns get different names\<close>

lemma append_sep_inject:
  fixes c :: char
  assumes "c \<notin> set ys" and "c \<notin> set ys'" and "xs @ c # ys = xs' @ c # ys'"
  shows "xs = xs' \<and> ys = ys'"
proof -
  from assms have "length xs = length xs'"
    using strrchr_append [OF assms(1), of xs] strrchr_append [OF assms(2), of xs'] by simp
  with assms(3) show ?thesis by simp
qed

text \<open>What MySQL documents of its charsets: reading a name of the system charset gives code points that determine the bytes they were
  read from, the bytes of an identifier stand for code points that \<open>ok\<close> allows, and the file name charset writes for each of them at most
  \<open>M\<close> bytes that can be read back (no code is the beginning of another) and are neither a separator nor NUL.\<close>

definition reads_back :: "mb_wc \<Rightarrow> (nat \<Rightarrow> string) \<Rightarrow> bool" where
  "reads_back mb_wc enc \<longleftrightarrow> (\<forall>s n wc. mb_wc s = (n, wc) \<longrightarrow> 0 < n \<longrightarrow> nat n \<le> length s \<and> take (nat n) s = enc wc)"

definition file_name_charset :: "wc_mb \<Rightarrow> (nat \<Rightarrow> bool) \<Rightarrow> (nat \<Rightarrow> string) \<Rightarrow> nat \<Rightarrow> bool" where
  "file_name_charset wc_mb ok code M \<longleftrightarrow>
     (\<forall>wc room. ok wc \<longrightarrow> M \<le> room \<longrightarrow> wc_mb wc room = (int (length (code wc)), code wc))
     \<and> (\<forall>wc. ok wc \<longrightarrow> 0 < length (code wc) \<and> length (code wc) \<le> M \<and> set (code wc) \<inter> {CHR ''#'', CHR ''-'', NUL} = {})
     \<and> (\<forall>wc wc' r r'. ok wc \<longrightarrow> ok wc' \<longrightarrow> code wc @ r = code wc' @ r' \<longrightarrow> wc = wc')"

function mysql_identifier :: "mb_wc \<Rightarrow> (nat \<Rightarrow> bool) \<Rightarrow> string \<Rightarrow> bool" where
  "mysql_identifier mb_wc ok s = (if s = [] then True
     else (case mb_wc s of (n, wc) \<Rightarrow> if 0 < n then ok wc \<and> mysql_identifier mb_wc ok (drop (nat n) s) else False))"
  by pat_completeness auto
termination
  by (relation "measure (\<lambda>(_, _, s). length s)") auto

declare mysql_identifier.simps [simp del]

lemma identifier_step:
  assumes "mysql_identifier mb_wc ok s" "s \<noteq> []" "reads_back mb_wc enc"
  obtains n wc where "mb_wc s = (n, wc)" "0 < n" "ok wc" "mysql_identifier mb_wc ok (drop (nat n) s)" "s = enc wc @ drop (nat n) s" "nat n \<le> length s"
proof -
  obtain n wc where m: "mb_wc s = (n, wc)" by force
  then have "0 < n" "ok wc" "mysql_identifier mb_wc ok (drop (nat n) s)"
    using assms(1,2) by (simp_all add: mysql_identifier.simps [of _ _ s] split: if_splits)
  moreover from this have "nat n \<le> length s" "take (nat n) s = enc wc" using assms(3) m unfolding reads_back_def by blast+
  ultimately show thesis using that m by (metis append_take_drop_id)
qed

text \<open>The conversion of an identifier writes the code of each of its code points.\<close>

lemma encode_loop_step:
  assumes "mb_wc s = (n, wc)" "0 < n" "s \<noteq> []" "length e + M < cap" "file_name_charset wc_mb ok code M" "ok wc"
  shows "encode_loop mb_wc wc_mb cap s e = encode_loop mb_wc wc_mb cap (drop (nat n) s) (e @ code wc)"
proof -
  have "wc_mb wc (cap - length e) = (int (length (code wc)), code wc)" "0 < length (code wc)"
    using assms(4-6) by (simp_all add: file_name_charset_def)
  then show ?thesis using assms(1-4) by (simp add: encode_loop.simps [of _ _ _ s])
qed

lemma encode_loop_inject:
  assumes rd: "reads_back mb_wc enc" and fc: "file_name_charset wc_mb ok code M"
  shows "mysql_identifier mb_wc ok s \<Longrightarrow> mysql_identifier mb_wc ok s' \<Longrightarrow> length e + M * length s + M < cap \<Longrightarrow> length e + M * length s' + M < cap
    \<Longrightarrow> encode_loop mb_wc wc_mb cap s e = encode_loop mb_wc wc_mb cap s' e \<Longrightarrow> s = s'"
proof (induction "length s" arbitrary: s s' e rule: less_induct)
  case less
  have prefix_code: "ok wc \<Longrightarrow> ok wc' \<Longrightarrow> code wc @ r = code wc' @ r' \<Longrightarrow> wc = wc'" for wc wc' r r'
    by (rule conjunct2 [OF conjunct2 [OF fc [unfolded file_name_charset_def]], rule_format])
  have longer: "\<exists>r. encode_loop mb_wc wc_mb cap t f = f @ r" for t f
    by (rule encode_loop_invariant [where P = "\<lambda>x. \<exists>r. x = f @ r"]) auto
  have step: thesis if st: "mysql_identifier mb_wc ok t" "t \<noteq> []" "length e + M * length t + M < cap"
    and k: "\<And>n wc. mb_wc t = (n, wc) \<Longrightarrow> ok wc \<Longrightarrow> mysql_identifier mb_wc ok (drop (nat n) t) \<Longrightarrow> t = enc wc @ drop (nat n) t
      \<Longrightarrow> length (drop (nat n) t) < length t \<Longrightarrow> length (e @ code wc) + M * length (drop (nat n) t) + M < cap
      \<Longrightarrow> encode_loop mb_wc wc_mb cap t e = encode_loop mb_wc wc_mb cap (drop (nat n) t) (e @ code wc) \<Longrightarrow> thesis" for t thesis
  proof -
    obtain n wc where t: "mb_wc t = (n, wc)" "0 < n" "ok wc" "mysql_identifier mb_wc ok (drop (nat n) t)" "t = enc wc @ drop (nat n) t" "nat n \<le> length t"
      using identifier_step [OF st(1,2) rd] by metis
    have c: "length (code wc) \<le> M" using fc t(3) by (simp add: file_name_charset_def)
    have shorter: "Suc (length (drop (nat n) t)) \<le> length t" using t(2) st(2) by (cases t) auto
    then have "M * Suc (length (drop (nat n) t)) \<le> M * length t" by (rule mult_le_mono2)
    then have room: "length (e @ code wc) + M * length (drop (nat n) t) + M < cap" using st(3) c by simp
    have "length e + M < cap" using st(3) by simp
    from encode_loop_step [of mb_wc t n wc e M cap, OF t(1,2) st(2) this fc t(3)] show thesis using k [OF t(1,3-5) _ room] shorter by simp
  qed
  have empty: "encode_loop mb_wc wc_mb cap [] f = f" for f by (simp add: encode_loop.simps)
  have grows: "encode_loop mb_wc wc_mb cap t e \<noteq> e" if "mysql_identifier mb_wc ok t" "t \<noteq> []" "length e + M * length t + M < cap" for t
  proof (rule step [OF that])
    fix n wc assume "ok wc" "encode_loop mb_wc wc_mb cap t e = encode_loop mb_wc wc_mb cap (drop (nat n) t) (e @ code wc)"
    moreover have "0 < length (code wc)" using fc \<open>ok wc\<close> by (simp add: file_name_charset_def)
    ultimately show ?thesis using longer [of "drop (nat n) t" "e @ code wc"] by auto
  qed
  show ?case
  proof (cases "s = [] \<or> s' = []")
    case True
    then show ?thesis using grows [of s] grows [of s'] less.prems empty by (cases "s = []"; cases "s' = []") simp_all
  next
    case False
    show ?thesis
    proof (rule step [OF less.prems(1) _ less.prems(3)])
      fix n wc
      assume s: "ok wc" "mysql_identifier mb_wc ok (drop (nat n) s)" "s = enc wc @ drop (nat n) s" "length (drop (nat n) s) < length s"
        "length (e @ code wc) + M * length (drop (nat n) s) + M < cap"
        "encode_loop mb_wc wc_mb cap s e = encode_loop mb_wc wc_mb cap (drop (nat n) s) (e @ code wc)"
      show ?thesis
      proof (rule step [OF less.prems(2) _ less.prems(4)])
        fix n' wc'
        assume s': "ok wc'" "mysql_identifier mb_wc ok (drop (nat n') s')" "s' = enc wc' @ drop (nat n') s'"
          "length (e @ code wc') + M * length (drop (nat n') s') + M < cap"
          "encode_loop mb_wc wc_mb cap s' e = encode_loop mb_wc wc_mb cap (drop (nat n') s') (e @ code wc')"
        obtain r r' where l: "encode_loop mb_wc wc_mb cap (drop (nat n) s) (e @ code wc) = (e @ code wc) @ r"
            "encode_loop mb_wc wc_mb cap (drop (nat n') s') (e @ code wc') = (e @ code wc') @ r'"
          using longer by meson
        have "(e @ code wc) @ r = (e @ code wc') @ r'" using less.prems(5) unfolding s(6) s'(5) l .
        then have "code wc @ r = code wc' @ r'" by simp
        then have wc: "wc = wc'" by (rule prefix_code [OF s(1) s'(1)])
        have "encode_loop mb_wc wc_mb cap (drop (nat n) s) (e @ code wc) = encode_loop mb_wc wc_mb cap (drop (nat n') s') (e @ code wc)"
          using less.prems(5) unfolding s(6) s'(5) wc .
        moreover have room: "length (e @ code wc) + M * length (drop (nat n') s') + M < cap" using s'(4) wc by (simp only:)
        ultimately have d: "drop (nat n) s = drop (nat n') s'" by (intro less.hyps [OF s(4,2) s'(2) s(5)])
        have "s = enc wc @ drop (nat n') s'" using s(3) unfolding d .
        also have "\<dots> = s'" using s'(3) unfolding wc by (rule sym)
        finally show ?thesis .
      qed (use False in simp)
    qed (use False in simp)
  qed
qed

text \<open>The bytes that are written for an identifier: neither a separator nor NUL, and not too many.\<close>

lemma encode_loop_codes:
  assumes rd: "reads_back mb_wc enc" and fc: "file_name_charset wc_mb ok code M"
  shows "mysql_identifier mb_wc ok s \<Longrightarrow> length e + M * length s + M < cap \<Longrightarrow> \<exists>r. encode_loop mb_wc wc_mb cap s e = e @ r
    \<and> set r \<inter> {CHR ''#'', CHR ''-'', NUL} = {} \<and> length r \<le> M * length s"
proof (induction "length s" arbitrary: s e rule: less_induct)
  case less
  show ?case
  proof (cases "s = []")
    case True
    then show ?thesis by (simp add: encode_loop.simps)
  next
    case False
    obtain n wc where t: "mb_wc s = (n, wc)" "0 < n" "ok wc" "mysql_identifier mb_wc ok (drop (nat n) s)" "nat n \<le> length s"
      using identifier_step [OF less.prems(1) False rd] by metis
    have c: "length (code wc) \<le> M" "set (code wc) \<inter> {CHR ''#'', CHR ''-'', NUL} = {}" using fc t(3) by (simp_all add: file_name_charset_def)
    have shorter: "Suc (length (drop (nat n) s)) \<le> length s" using t(2) False by (cases s) auto
    then have m: "M * length (drop (nat n) s) + M \<le> M * length s" using mult_le_mono2 [OF shorter, of M] by simp
    have room: "length (e @ code wc) + M * length (drop (nat n) s) + M < cap" using less.prems(2) c(1) m by simp
    obtain r where r: "encode_loop mb_wc wc_mb cap (drop (nat n) s) (e @ code wc) = (e @ code wc) @ r"
        "set r \<inter> {CHR ''#'', CHR ''-'', NUL} = {}" "length r \<le> M * length (drop (nat n) s)"
      using less.hyps [OF _ t(4) room] shorter by auto
    have "encode_loop mb_wc wc_mb cap s e = e @ (code wc @ r)"
      using encode_loop_step [of mb_wc s n wc e M cap, OF t(1,2) False _ fc t(3)] less.prems(2) r(1) by simp
    moreover have "set (code wc @ r) \<inter> {CHR ''#'', CHR ''-'', NUL} = {}" using c(2) r(2) by auto
    moreover have "length (code wc @ r) \<le> M * length s" using c(1) r(3) m by simp
    ultimately show ?thesis by blast
  qed
qed

lemma encoded_identifier:
  assumes "reads_back mb_wc enc" "file_name_charset wc_mb ok code M" "mysql_identifier mb_wc ok s" "M * length s + M + 1 < sz"
  defines "r \<equiv> encode_name mb_wc wc_mb sz s"
  shows "c_str r = r" "CHR ''#'' \<notin> set r" "CHR ''-'' \<notin> set r" "length r \<le> M * length s"
proof -
  obtain r' where "encode_loop mb_wc wc_mb (sz - 1) s [] = [] @ r'" "set r' \<inter> {CHR ''#'', CHR ''-'', NUL} = {}" "length r' \<le> M * length s"
    using encode_loop_codes [OF assms(1-3), of "[]" "sz - 1"] assms(4) by auto
  then show "c_str r = r" "CHR ''#'' \<notin> set r" "CHR ''-'' \<notin> set r" "length r \<le> M * length s"
    by (auto simp: r_def encode_name_def c_str_id)
qed

lemma encode_name_inject:
  assumes "reads_back mb_wc enc" "file_name_charset wc_mb ok code M" "mysql_identifier mb_wc ok s" "mysql_identifier mb_wc ok s'"
    and "M * length s + M + 1 < sz" "M * length s' + M + 1 < sz" "encode_name mb_wc wc_mb sz s = encode_name mb_wc wc_mb sz s'"
  shows "s = s'"
  using encode_loop_inject [OF assms(1,2,3,4), of "[]" "sz - 1"] assms(5-7) by (simp add: encode_name_def)

text \<open>
  C31: two indexes have the same index table name, or the same old one, only if they are the same index of the same table: for names that
  are identifiers of MySQL in a charset and a file name charset that can be read back, and that leave room in the buffers (64 characters
  of at most \<open>M = 5\<close> bytes and a table name always do). The table names may contain every character but NUL.
\<close>
theorem index_table_names_unambiguous:
  assumes "reads_back mb_wc enc" "file_name_charset wc_mb ok code M"
    and "mysql_identifier mb_wc ok i1" "mysql_identifier mb_wc ok i2" "NUL \<notin> set t1" "NUL \<notin> set t2"
    and "length t1 + M * length i1 + M + 3 < K" "length t2 + M * length i2 + M + 3 < K"
  shows "(name (IndexTableName mb_wc wc_mb K t1 i1) = name (IndexTableName mb_wc wc_mb K t2 i2) \<longleftrightarrow> t1 = t2 \<and> i1 = i2)
    \<and> (old_name (IndexTableName mb_wc wc_mb K t1 i1) = old_name (IndexTableName mb_wc wc_mb K t2 i2) \<longleftrightarrow> t1 = t2 \<and> i1 = i2)
    \<and> name (IndexTableName mb_wc wc_mb K t1 i1) \<noteq> old_name (IndexTableName mb_wc wc_mb K t1 i1)"
proof -
  let ?e = "encode_name mb_wc wc_mb (K - 1)"
  have size: "M * length i1 + M + 1 < K - 1" "M * length i2 + M + 1 < K - 1" using assms(7,8) by simp_all
  note e1 = encoded_identifier [OF assms(1-3) size(1)] and e2 = encoded_identifier [OF assms(1,2,4) size(2)]
  have same: "t1 @ c # ?e i1 = t2 @ c # ?e i2 \<longleftrightarrow> t1 = t2 \<and> i1 = i2" if "c \<in> {CHR ''#'', CHR ''-''}" for c
    using append_sep_inject [of c "?e i1" "?e i2" t1 t2] that e1(2,3) e2(2,3) encode_name_inject [OF assms(1-4) size] by blast
  have n: "c_str t1 = t1" "c_str t2 = t2" using assms(5,6) by (simp_all add: c_str_id)
  have "length (?e i1) \<le> M * length i1" "length (?e i2) \<le> M * length i2" by (rule e1(4), rule e2(4))
  then have fits: "length (t1 @ c # ?e i1) < K" "length (t2 @ c # ?e i2) < K" for c using assms(7,8) by simp_all
  have names: "name (IndexTableName mb_wc wc_mb K t1 i1) = t1 @ CHR ''#'' # ?e i1" "name (IndexTableName mb_wc wc_mb K t2 i2) = t2 @ CHR ''#'' # ?e i2"
    "old_name (IndexTableName mb_wc wc_mb K t1 i1) = t1 @ CHR ''-'' # ?e i1" "old_name (IndexTableName mb_wc wc_mb K t2 i2) = t2 @ CHR ''-'' # ?e i2"
    using fits by (simp_all add: IndexTableName_def Let_def n e1(1) [unfolded One_nat_def] e2(1) [unfolded One_nat_def] SEPARATOR_def OLD_SEPARATOR_def snprintf_result_fits)
  show ?thesis unfolding names using same by auto
qed

lemma latin_reads_back: "reads_back latin_mb_wc (\<lambda>wc. [char_of wc])"
proof -
  have "nat n \<le> length s \<and> take (nat n) s = [char_of wc]" if "latin_mb_wc s = (n, wc)" "0 < n" for s n and wc :: nat
    using that by (cases s) (auto simp: latin_mb_wc_def)
  then show ?thesis by (simp add: reads_back_def)
qed

lemma hex_digit_inject: "hex_digit m = hex_digit n \<Longrightarrow> m mod 16 = n mod 16"
proof -
  assume "hex_digit m = hex_digit n"
  moreover have "distinct ''0123456789abcdef''" "length ''0123456789abcdef'' = 16" by simp_all
  ultimately show ?thesis
    unfolding hex_digit_def using nth_eq_iff_index_eq [of "''0123456789abcdef''" "m mod 16" "n mod 16"] by simp
qed

lemma hex_digits_inject:
  assumes "map (\<lambda>i. hex_digit (m div 16 ^ i)) [3, 2, 1, 0 :: nat] = map (\<lambda>i. hex_digit (n div 16 ^ i)) [3, 2, 1, 0]" "m < 65536" "n < 65536"
  shows "m = n"
proof -
  have d: "m div 4096 mod 16 = n div 4096 mod 16" "m div 256 mod 16 = n div 256 mod 16" "m div 16 mod 16 = n div 16 mod 16" "m mod 16 = n mod 16"
  proof -
    have "hex_digit (m div 4096) = hex_digit (n div 4096)" "hex_digit (m div 256) = hex_digit (n div 256)"
      "hex_digit (m div 16) = hex_digit (n div 16)" "hex_digit m = hex_digit n" using assms(1) by simp_all
    then show "m div 4096 mod 16 = n div 4096 mod 16" "m div 256 mod 16 = n div 256 mod 16" "m div 16 mod 16 = n div 16 mod 16" "m mod 16 = n mod 16"
      by (iprover intro: hex_digit_inject)+
  qed
  have "x = 4096 * (x div 4096 mod 16) + 256 * (x div 256 mod 16) + 16 * (x div 16 mod 16) + x mod 16" if "x < 65536" for x :: nat
  proof -
    have "x div 16 div 16 = x div 256" "x div 256 div 16 = x div 4096"
      using div_mult2_eq [of x 16 16] div_mult2_eq [of x 256 16] by simp_all
    moreover have "x div 4096 mod 16 = x div 4096" using that by (intro mod_less) simp
    ultimately show ?thesis
      using mult_div_mod_eq [of 16 x] mult_div_mod_eq [of 16 "x div 16"] mult_div_mod_eq [of 16 "x div 256"] by linarith
  qed
  from this [OF assms(2)] this [OF assms(3)] show ?thesis using d by simp
qed

lemma latin_file_name_charset: "file_name_charset filename_wc_mb (\<lambda>wc. 0 < wc \<and> wc < 256) filename_bytes 5"
proof -
  have nul: "NUL \<notin> set (filename_bytes wc)" if "0 < wc" "wc < 256" for wc
  proof -
    have "char_of wc \<noteq> NUL" using that by (simp add: char_of_eq_iff take_bit_nat_eq_self)
    moreover have "hex_digit k \<noteq> NUL" "NUL \<noteq> hex_digit k" for k using hex_digit_cases [of k] by auto
    ultimately show ?thesis by (auto simp: filename_bytes_def)
  qed
  have "wc = wc'" if c: "0 < wc" "wc < 256" "0 < wc'" "wc' < 256" and e: "filename_bytes wc @ r = filename_bytes wc' @ r'" for wc wc' r r'
  proof -
    define plain where "plain x \<longleftrightarrow> 48 \<le> x \<and> x \<le> 57 \<or> 65 \<le> x \<and> x \<le> 90 \<or> 97 \<le> x \<and> x \<le> 122 \<or> x = (95 :: nat)" for x
    have at: "char_of x \<noteq> CHR ''@''" "CHR ''@'' \<noteq> char_of x" if "plain x" for x :: nat
    proof -
      have "x < 256" "x \<noteq> 64" using that by (auto simp: plain_def)
      then show "char_of x \<noteq> CHR ''@''" by (simp add: char_of_eq_iff take_bit_nat_eq_self)
      then show "CHR ''@'' \<noteq> char_of x" by metis
    qed
    have b: "filename_bytes x = (if plain x then [char_of x] else CHR ''@'' # map (\<lambda>i. hex_digit (x div 16 ^ i)) [3, 2, 1, 0])" for x
      by (simp add: filename_bytes_def plain_def)
    have "plain wc = plain wc'" using e at [of wc] at [of wc'] by (auto simp: b split: if_splits)
    moreover have "wc = wc'" if "plain wc" "plain wc'"
    proof -
      have "char_of wc = char_of wc'" using e that by (simp add: b)
      then have "of_char (char_of wc) = (of_char (char_of wc') :: nat)" by simp
      then show ?thesis using c by (simp add: take_bit_nat_eq_self)
    qed
    moreover have "wc = wc'" if "\<not> plain wc" "\<not> plain wc'"
    proof (rule hex_digits_inject)
      show "map (\<lambda>i. hex_digit (wc div 16 ^ i)) [3, 2, 1, 0 :: nat] = map (\<lambda>i. hex_digit (wc' div 16 ^ i)) [3, 2, 1, 0]"
        using e that by (simp add: b)
    qed (use c in simp_all)
    ultimately show ?thesis by blast
  qed
  moreover have l: "0 < length (filename_bytes wc)" "length (filename_bytes wc) \<le> 5" for wc by (simp_all add: filename_bytes_def)
  moreover have "filename_wc_mb wc room = (int (length (filename_bytes wc)), filename_bytes wc)" if "5 \<le> room" for wc room
    using order_trans [OF l(2) that] by (simp add: filename_wc_mb_def Let_def)
  moreover have "set (filename_bytes wc) \<inter> {CHR ''#'', CHR ''-'', NUL} = {}" if "0 < wc" "wc < 256" for wc
    using filename_bytes_set [of wc] nul [OF that] by auto
  ultimately show ?thesis unfolding file_name_charset_def by (intro conjI allI impI) (assumption | metis)+
qed

theorem index_table_names_unambiguous_witness:
  "name (IndexTableName latin_mb_wc filename_wc_mb 100 ''diaries'' ''title'')
     \<noteq> name (IndexTableName latin_mb_wc filename_wc_mb 100 ''diaries'' ''a-b'')"
proof -
  have "mysql_identifier latin_mb_wc (\<lambda>wc. 0 < wc \<and> wc < 256) ''title''" "mysql_identifier latin_mb_wc (\<lambda>wc. 0 < wc \<and> wc < 256) ''a-b''"
    by (simp_all add: mysql_identifier.simps latin_mb_wc_def)
  then show ?thesis
    using index_table_names_unambiguous [OF latin_reads_back latin_file_name_charset, of "''title''" "''a-b''" "''diaries''" "''diaries''" 100]
    by simp
qed

lemma IndexColumnName_shape:
  assumes "length (c_str table) + length (encode_name mb_wc wc_mb (K - 2) column) + 1 < K"
  obtains k where "IndexColumnName mb_wc wc_mb K table column =
     c_str table @ CHR ''-'' # c_str (encode_name mb_wc wc_mb (K - 2) column) @ replicate k (CHR ''-'')"
  using assms length_c_str [of "encode_name mb_wc wc_mb (K - 2) column"]
  by (fastforce simp: IndexColumnName_def Let_def snprintf_result_fits
      intro: that [of 0] that)

lemma takeWhile_pad: "c \<notin> set xs \<Longrightarrow> takeWhile (\<lambda>x. x \<noteq> c) (xs @ replicate k c) = xs"
  by (subst takeWhile_append2) (auto simp: takeWhile_replicate)

text \<open>Every index column name has at least 65 and fewer than \<open>K\<close> characters, and the padding with
  hyphens never makes the names of two columns of a table equal, because the file name charset never
  writes a hyphen.
\<close>
lemma index_column_names_distinct:
  assumes "never_writes mb_wc wc_mb {CHR ''-''}" and "66 \<le> K"
    and "length (c_str table) + length (encode_name mb_wc wc_mb (K - 2) c1) + 1 < K"
    and "length (c_str table) + length (encode_name mb_wc wc_mb (K - 2) c2) + 1 < K"
    and "c_str (encode_name mb_wc wc_mb (K - 2) c1) \<noteq> c_str (encode_name mb_wc wc_mb (K - 2) c2)"
  shows "IndexColumnName mb_wc wc_mb K table c1 \<noteq> IndexColumnName mb_wc wc_mb K table c2
    \<and> 65 \<le> length (IndexColumnName mb_wc wc_mb K table c1)
    \<and> length (IndexColumnName mb_wc wc_mb K table c1) < K"
proof -
  let ?e = "\<lambda>i. c_str (encode_name mb_wc wc_mb (K - 2) i)"
  have n: "CHR ''-'' \<notin> set (?e i)" for i
    using encode_name_avoids [OF assms(1), of "K - 2" i] set_c_str by fastforce
  obtain k1 k2 where
    "IndexColumnName mb_wc wc_mb K table c1 = c_str table @ CHR ''-'' # ?e c1 @ replicate k1 (CHR ''-'')"
    "IndexColumnName mb_wc wc_mb K table c2 = c_str table @ CHR ''-'' # ?e c2 @ replicate k2 (CHR ''-'')"
    using IndexColumnName_shape [OF assms(3)] IndexColumnName_shape [OF assms(4)] by metis
  then have "IndexColumnName mb_wc wc_mb K table c1 \<noteq> IndexColumnName mb_wc wc_mb K table c2"
    using assms(5) takeWhile_pad [OF n [of c1], of k1] takeWhile_pad [OF n [of c2], of k2] by auto
  moreover have "65 \<le> length (IndexColumnName mb_wc wc_mb K table c1)"
    "length (IndexColumnName mb_wc wc_mb K table c1) < K"
    using assms(2) snprintf_result_length [of K] unfolding IndexColumnName_def Let_def
    by (auto simp: MRN_MIN_INDEX_COLUMN_NAME_LENGTH_def)
  ultimately show ?thesis by blast
qed

lemma index_column_names_distinct_witness:
  "IndexColumnName latin_mb_wc filename_wc_mb 100 ''diaries'' ''title''
     \<noteq> IndexColumnName latin_mb_wc filename_wc_mb 100 ''diaries'' ''a-b''"
  using index_column_names_distinct [of latin_mb_wc filename_wc_mb 100 "''diaries''" "''title''" "''a-b''"]
  by (simp add: cstr_simps c_str_def latin_filename_never_writes)

end
