(* ===== verification/Parameters_Parser.thy ===== *)
theory Parameters_Parser
  imports Mrn_Prelude
begin

text \<open>
  The parser of the parameters in table, column and index comments
  (\<^verbatim>\<open>lib/mrn_parameters_parser.cpp\<close>). A pointer into the input is modelled by the rest of the
  input behind it, the pointer \<^verbatim>\<open>end\<close> by the empty list. The lemmas show the printed form of a
  parameter list being read back, the limit on the length of values, which of two parameters of one
  name wins, and the fall-backs of \<^verbatim>\<open>tokenizer\<close> and \<^verbatim>\<open>lexicon\<close>.
\<close>

section \<open>Model\<close>

definition is_white_space :: "char \<Rightarrow> bool" where
  "is_white_space c \<longleftrightarrow> c \<in> set [CHR '' '', CHR 0x0D, CHR 0x0A, CHR 0x09]"

record parameter =
  par_key :: string
  par_value :: string

record parameters_parser =
  input :: string
  parsed :: bool
  parameters :: "parameter list"

definition ParametersParser :: "string \<Rightarrow> parameters_parser" where
  "ParametersParser s = \<lparr>input = s, parsed = False, parameters = []\<rparr>"

definition max_value_length :: nat where
  "max_value_length = 4096"

definition unescape :: "char \<Rightarrow> char" where
  "unescape c = (if c = CHR ''b'' then CHR 0x08 else if c = CHR ''n'' then CHR 0x0A
     else if c = CHR ''r'' then CHR 0x0D else if c = CHR ''t'' then CHR 0x09 else c)"

text \<open>
  The loop of \<^verbatim>\<open>parse_value\<close>: the pointer behind the value and the value, or \<^const>\<open>None\<close> for a value
  whose closing quote was not found. A backslash at the end of the input leaves one byte of the value
  buffer unset; the value is then not stored.
\<close>

fun value_loop :: "char \<Rightarrow> string \<Rightarrow> string \<Rightarrow> string option \<times> string" where
  "value_loop quote value [] = (None, [])"
| "value_loop quote value (c # cs) =
     (if \<not> length value < max_value_length then (None, c # cs)
      else if c = quote then (Some value, cs)
      else if c = CHR 0x5C then
        (case cs of [] \<Rightarrow> (None, []) | d # ds \<Rightarrow> value_loop quote (value @ [unescape d]) ds)
      else value_loop quote (value @ [c]) cs)"

text \<open>\<^verbatim>\<open>parse_value\<close>: \<^const>\<open>None\<close> is the null pointer.\<close>

definition parse_value ::
    "string \<Rightarrow> string \<Rightarrow> parameter list \<Rightarrow> string option \<times> parameter list" where
  "parse_value current k ps =
     (let quote = hd current in
      if quote \<noteq> CHR 0x27 \<and> quote \<noteq> CHR 0x22 then (None, ps)
      else case value_loop quote [] (tl current) of
        (Some v, rest) \<Rightarrow> (Some rest, \<lparr>par_key = k, par_value = v\<rparr> # ps)
      | (None, rest) \<Rightarrow> (Some rest, ps))"

definition ends_key :: "char \<Rightarrow> bool" where
  "ends_key c \<longleftrightarrow> is_white_space c \<or> c = CHR 0x27 \<or> c = CHR 0x22 \<or> c = CHR '',''"

declare value_loop.simps(2) [simp del]

lemma value_loop_step:
  "\<not> length v < max_value_length \<Longrightarrow> value_loop q v (c # cs) = (None, c # cs)"
  "length v < max_value_length \<Longrightarrow> value_loop q v (q # cs) = (Some v, cs)"
  "length v < max_value_length \<Longrightarrow> CHR 0x5C \<noteq> q \<Longrightarrow>
     value_loop q v (CHR 0x5C # d # ds) = value_loop q (v @ [unescape d]) ds"
  "length v < max_value_length \<Longrightarrow> CHR 0x5C \<noteq> q \<Longrightarrow> value_loop q v [CHR 0x5C] = (None, [])"
  "length v < max_value_length \<Longrightarrow> c \<noteq> q \<Longrightarrow> c \<noteq> CHR 0x5C \<Longrightarrow>
     value_loop q v (c # cs) = value_loop q (v @ [c]) cs"
  by (simp_all add: value_loop.simps(2))

lemma value_loop_length: "length (snd (value_loop q v s)) \<le> length s"
proof (induction q v s rule: value_loop.induct)
  case (2 q v c cs)
  show ?case
  proof (cases "length v < max_value_length")
    case True
    consider "c = q" | "c \<noteq> q" "c \<noteq> CHR 0x5C" | "CHR 0x5C \<noteq> q" "c = CHR 0x5C" "cs = []"
      | d ds where "CHR 0x5C \<noteq> q" "c = CHR 0x5C" "cs = d # ds"
      by (cases cs) auto
    then show ?thesis
    proof cases
      case 2
      with True "2.IH"(2) show ?thesis by (simp add: value_loop_step)
    next
      case 4
      with True "2.IH"(1) show ?thesis by (fastforce simp: value_loop_step)
    qed (use True in \<open>simp_all add: value_loop_step\<close>)
  qed (simp add: value_loop_step)
qed simp

lemma parse_value_length:
  assumes "fst (parse_value s k ps) = Some rest" and "s \<noteq> []"
  shows "length rest < length s"
proof -
  obtain v r where v: "value_loop (hd s) [] (tl s) = (v, r)" by force
  with assms(1) have "r = rest"
    by (auto simp: parse_value_def Let_def split: if_splits option.splits)
  with v value_loop_length [of "hd s" "[]" "tl s"] assms(2) show ?thesis by (cases s) auto
qed

lemma dropWhile_length: "length (dropWhile P s) \<le> length s"
  by (induction s) auto

function parse_loop :: "string \<Rightarrow> parameter list \<Rightarrow> parameter list" where
  "parse_loop [] ps = ps"
| "parse_loop (c # cs) ps =
     (if is_white_space c then parse_loop cs ps
      else
        (let k = takeWhile (\<lambda>x. \<not> ends_key x) (c # cs);
             after_key = dropWhile (\<lambda>x. \<not> ends_key x) (c # cs) in
         if after_key = [] then ps
         else
           (let current = dropWhile is_white_space after_key in
            if current = [] then ps
            else
              (case parse_value current k ps of
                 (None, ps') \<Rightarrow> ps'
               | (Some rest, ps') \<Rightarrow>
                   (case dropWhile is_white_space rest of
                      [] \<Rightarrow> ps'
                    | x # xs \<Rightarrow> if x \<noteq> CHR '','' then ps' else parse_loop xs ps')))))"
  by pat_completeness auto
termination
proof (relation "measure (\<lambda>(s, _). length s)", goal_cases)
  case (3 c cs ps k after_key current r ps' rest x xs)
  have "length rest < length current"
    using 3(6-8) by (intro parse_value_length [of current k ps]) (simp_all flip: 3(7))
  moreover have "length current \<le> length (c # cs)"
    using dropWhile_length [of is_white_space after_key] dropWhile_length [of "\<lambda>x. \<not> ends_key x" "c # cs"]
    unfolding 3(5) 3(3) by (rule order_trans)
  moreover have "length (x # xs) \<le> length rest"
    using dropWhile_length [of is_white_space rest] unfolding 3(9) .
  ultimately show ?case by simp
qed auto

declare parse_loop.simps(2) [simp del]

text \<open>\<^verbatim>\<open>ensure_parsed\<close> and the accessors; \<open>strcaseeq\<close> compares the C strings.\<close>

definition ensure_parsed :: "parameters_parser \<Rightarrow> parameters_parser" where
  "ensure_parsed p =
     (if parsed p then p else p\<lparr>parsed := True, parameters := parse_loop (input p) (parameters p)\<rparr>)"

primrec find_parameter :: "string \<Rightarrow> parameter list \<Rightarrow> string option" where
  "find_parameter k [] = None"
| "find_parameter k (x # xs) =
     (if strcaseeq (c_str (par_key x)) k then Some (c_str (par_value x)) else find_parameter k xs)"

definition lookup :: "string \<Rightarrow> parameters_parser \<Rightarrow> string option \<times> parameters_parser" where
  "lookup k p = (let p' = ensure_parsed p in (find_parameter k (parameters p'), p'))"

text \<open>\<^verbatim>\<open>tokenizer\<close> also says whether the warning about the deprecated name was pushed.\<close>

definition tokenizer :: "parameters_parser \<Rightarrow> (string option \<times> bool) \<times> parameters_parser" where
  "tokenizer p =
     (let (par, p1) = lookup ''parser'' p;
          (tok, p2) = lookup ''tokenizer'' p1
      in ((case tok of None \<Rightarrow> par | Some t \<Rightarrow> Some t, par \<noteq> None), p2))"

definition lexicon :: "parameters_parser \<Rightarrow> string option \<times> parameters_parser" where
  "lexicon p =
     (let (lex, p1) = lookup ''lexicon'' p in
      case lex of None \<Rightarrow> lookup ''table'' p1 | Some l \<Rightarrow> (Some l, p1))"

section \<open>Every accessor sees one parsed list\<close>

definition parser_coherent :: "parameters_parser \<Rightarrow> bool" where
  "parser_coherent p \<longleftrightarrow> parameters p = (if parsed p then parse_loop (input p) [] else [])"

definition parsed_list :: "parameters_parser \<Rightarrow> parameter list" where
  "parsed_list p = parse_loop (input p) []"

lemma ParametersParser_coherent [simp]: "parser_coherent (ParametersParser s)"
  by (simp add: parser_coherent_def ParametersParser_def)

lemma parsed_list_ParametersParser [simp]: "parsed_list (ParametersParser s) = parse_loop s []"
  by (simp add: parsed_list_def ParametersParser_def)

lemma ensure_parsed_coherent:
  assumes "parser_coherent p"
  shows "parser_coherent (ensure_parsed p)" "parameters (ensure_parsed p) = parsed_list p"
    "parsed_list (ensure_parsed p) = parsed_list p"
  using assms by (auto simp: parser_coherent_def ensure_parsed_def parsed_list_def)

lemma lookup_coherent:
  assumes "parser_coherent p"
  shows "fst (lookup k p) = find_parameter k (parsed_list p)"
    "parser_coherent (snd (lookup k p))" "parsed_list (snd (lookup k p)) = parsed_list p"
  using ensure_parsed_coherent [OF assms] by (simp_all add: lookup_def Let_def)

interpretation lookup: memoised_accessor "lookup k" "\<lambda>p. find_parameter k (parsed_list p)"
  parser_coherent for k
  by unfold_locales (simp_all add: lookup_coherent)

definition tokenizer_result :: "parameter list \<Rightarrow> string option \<times> bool" where
  "tokenizer_result ps = (case find_parameter ''tokenizer'' ps of
      Some t \<Rightarrow> Some t | None \<Rightarrow> find_parameter ''parser'' ps, find_parameter ''parser'' ps \<noteq> None)"

definition lexicon_result :: "parameter list \<Rightarrow> string option" where
  "lexicon_result ps = (case find_parameter ''lexicon'' ps of
      Some t \<Rightarrow> Some t | None \<Rightarrow> find_parameter ''table'' ps)"

lemma tokenizer_coherent:
  assumes "parser_coherent p"
  shows "fst (tokenizer p) = tokenizer_result (parsed_list p) \<and> parser_coherent (snd (tokenizer p))
    \<and> parsed_list (snd (tokenizer p)) = parsed_list p"
proof -
  obtain par p1 where 1: "lookup ''parser'' p = (par, p1)" by force
  obtain tok p2 where 2: "lookup ''tokenizer'' p1 = (tok, p2)" by force
  from lookup_coherent [OF assms, of "''parser''"] 1 have "parser_coherent p1"
    "parsed_list p1 = parsed_list p" "par = find_parameter ''parser'' (parsed_list p)" by simp_all
  with lookup_coherent [of p1 "''tokenizer''"] 1 2 show ?thesis
    by (simp add: tokenizer_def tokenizer_result_def split: option.split)
qed

lemma lexicon_coherent:
  assumes "parser_coherent p"
  shows "fst (lexicon p) = lexicon_result (parsed_list p) \<and> parser_coherent (snd (lexicon p))
    \<and> parsed_list (snd (lexicon p)) = parsed_list p"
proof -
  obtain lex p1 where 1: "lookup ''lexicon'' p = (lex, p1)" by force
  from lookup_coherent [OF assms, of "''lexicon''"] 1 have "parser_coherent p1"
    "parsed_list p1 = parsed_list p" "lex = find_parameter ''lexicon'' (parsed_list p)" by simp_all
  with lookup_coherent [of p1 "''table''"] 1 show ?thesis
    by (simp add: lexicon_def lexicon_result_def split: option.split)
qed

interpretation tokenizer: memoised_accessor tokenizer "\<lambda>p. tokenizer_result (parsed_list p)" parser_coherent
  by unfold_locales (simp_all add: tokenizer_coherent)

interpretation lexicon: memoised_accessor lexicon "\<lambda>p. lexicon_result (parsed_list p)" parser_coherent
  by unfold_locales (simp_all add: lexicon_coherent)

section \<open>Printed parameters are read back\<close>

definition escape_char :: "char \<Rightarrow> char \<Rightarrow> string" where
  "escape_char q c = (if c = q \<or> c = CHR 0x5C then [CHR 0x5C, c] else [c])"

definition print_value :: "char \<Rightarrow> string \<Rightarrow> string" where
  "print_value q v = q # concat (map (escape_char q) v) @ [q]"

fun print_parameters :: "char \<Rightarrow> parameter list \<Rightarrow> string" where
  "print_parameters q [] = []"
| "print_parameters q [p] = par_key p @ CHR '' '' # print_value q (par_value p)"
| "print_parameters q (p # ps) =
     par_key p @ CHR '' '' # print_value q (par_value p) @ '', '' @ print_parameters q ps"

definition printable_parameter :: "parameter \<Rightarrow> bool" where
  "printable_parameter p \<longleftrightarrow> par_key p \<noteq> [] \<and> list_all (\<lambda>c. \<not> ends_key c) (par_key p)
     \<and> length (par_value p) < max_value_length"

lemma ends_key_space [simp]: "ends_key (CHR '' '')" "is_white_space (CHR '' '')"
  by (simp_all add: ends_key_def is_white_space_def)

lemma not_ends_key_not_space: "\<not> ends_key c \<Longrightarrow> \<not> is_white_space c"
  by (simp add: ends_key_def)

lemma value_loop_print:
  assumes "q = CHR 0x27 \<or> q = CHR 0x22" and "length v + length w < max_value_length"
  shows "value_loop q v (concat (map (escape_char q) w) @ q # rest) = (Some (v @ w), rest)"
  using assms(2)
proof (induction w arbitrary: v)
  case Nil
  then show ?case by (simp add: value_loop_step)
next
  case (Cons c w)
  have l: "length v < max_value_length" and q: "CHR 0x5C \<noteq> q" using Cons.prems assms(1) by auto
  have IH: "value_loop q (v @ [c]) (concat (map (escape_char q) w) @ q # rest) = (Some ((v @ [c]) @ w), rest)"
    by (rule Cons.IH) (use Cons.prems in simp)
  have u: "unescape c = c" if "c = q \<or> c = CHR 0x5C"
    using that assms(1) by (auto simp: unescape_def)
  show ?case
  proof (cases "c = q \<or> c = CHR 0x5C")
    case True
    then show ?thesis using l q IH u by (auto simp: escape_char_def [of q c] value_loop_step)
  next
    case False
    then show ?thesis using l IH by (simp add: escape_char_def [of q c] value_loop_step)
  qed
qed

lemma parse_loop_key:
  assumes "k \<noteq> []" and "list_all (\<lambda>c. \<not> ends_key c) k" and "\<not> is_white_space q"
  shows "parse_loop (k @ CHR '' '' # q # body) ps =
    (case parse_value (q # body) k ps of
       (None, ps') \<Rightarrow> ps'
     | (Some rest, ps') \<Rightarrow>
         (case dropWhile is_white_space rest of
            [] \<Rightarrow> ps'
          | x # xs \<Rightarrow> if x \<noteq> CHR '','' then ps' else parse_loop xs ps'))"
proof -
  let ?s = "k @ CHR '' '' # q # body"
  obtain c cs where k: "k = c # cs" using assms(1) by (cases k) auto
  have nk: "\<forall>x \<in> set k. \<not> ends_key x" using assms(2) by (auto simp: list_all_iff)
  have "takeWhile (\<lambda>x. \<not> ends_key x) ?s = k"
    and "dropWhile (\<lambda>x. \<not> ends_key x) ?s = CHR '' '' # q # body"
    using nk by (simp_all add: takeWhile_append2 dropWhile_append2)
  moreover have "\<not> is_white_space c" using nk k not_ends_key_not_space by simp
  moreover have s: "?s = c # (cs @ CHR '' '' # q # body)" by (simp add: k)
  ultimately show ?thesis
    unfolding s using assms(3) by (subst parse_loop.simps(2)) (simp add: s Let_def)
qed

lemma quote_not_space: "q = CHR 0x27 \<or> q = CHR 0x22 \<Longrightarrow> \<not> is_white_space q"
  by (auto simp: is_white_space_def)

lemma parse_loop_parameter:
  assumes "printable_parameter p" and "q = CHR 0x27 \<or> q = CHR 0x22"
  shows "parse_loop (par_key p @ CHR '' '' # print_value q (par_value p) @ rest) ps =
    (case dropWhile is_white_space rest of
       [] \<Rightarrow> p # ps
     | x # xs \<Rightarrow> if x \<noteq> CHR '','' then p # ps else parse_loop xs (p # ps))"
proof -
  have "parse_value (print_value q (par_value p) @ rest) (par_key p) ps = (Some rest, p # ps)"
    using assms value_loop_print [OF assms(2), of "[]" "par_value p" rest]
    by (auto simp: parse_value_def print_value_def printable_parameter_def)
  then show ?thesis
    using assms parse_loop_key [of "par_key p" q] quote_not_space [OF assms(2)]
    by (simp add: print_value_def printable_parameter_def)
qed

lemma parse_loop_print:
  assumes "list_all printable_parameter ps" and "q = CHR 0x27 \<or> q = CHR 0x22"
    and "ps = [] \<Longrightarrow> rest = []"
    and "rest = [] \<or> \<not> is_white_space (hd rest) \<and> hd rest \<noteq> CHR '',''"
  shows "parse_loop (print_parameters q ps @ rest) acc = rev ps @ acc"
  using assms(1-3)
proof (induction q ps arbitrary: acc rule: print_parameters.induct)
  case (2 q p)
  with parse_loop_parameter [of p q rest acc] assms(4) show ?case
    by (cases rest) auto
next
  case (3 q p p' ps)
  have "parse_loop (CHR '' '' # print_parameters q (p' # ps) @ rest) (p # acc) = rev (p' # ps) @ p # acc"
    using 3 by (simp add: parse_loop.simps(2))
  with 3 parse_loop_parameter [of p q "'', '' @ print_parameters q (p' # ps) @ rest" acc] show ?case
    by (simp add: is_white_space_def)
qed simp

text \<open>
  C30: the parameters of a comment are exactly those that were written into it: a list of parameters,
  printed with either quote, the quote and the backslash escaped, is read back completely, as long
  as every value is shorter than 4096 characters.
\<close>
theorem parameters_roundtrip:
  assumes "list_all printable_parameter ps" and "q = CHR 0x27 \<or> q = CHR 0x22"
  shows "parameters (ensure_parsed (ParametersParser (print_parameters q ps))) = rev ps"
  using parse_loop_print [OF assms, of "[]" "[]"] by (simp add: ensure_parsed_coherent)

definition example_parameters :: "parameter list" where
  "example_parameters =
     [\<lparr>par_key = ''tokenizer'', par_value = ''TokenNgram('' @ [CHR 0x22, CHR 0x5C] @ '')''\<rparr>,
      \<lparr>par_key = ''normalizer'', par_value = ''NormalizerAuto''\<rparr>]"

theorem parameters_roundtrip_witness:
  "parameters (ensure_parsed (ParametersParser (print_parameters (CHR 0x22) example_parameters)))
     = rev example_parameters"
  by (rule parameters_roundtrip)
    (simp_all add: example_parameters_def printable_parameter_def ends_key_def is_white_space_def max_value_length_def)

section \<open>The limit on the length of a value\<close>

lemma value_loop_plain:
  assumes "list_all (\<lambda>c. c \<noteq> q \<and> c \<noteq> CHR 0x5C) w" and "length v + length w \<le> max_value_length"
  shows "value_loop q v (w @ rest) = value_loop q (v @ w) rest"
  using assms
proof (induction w arbitrary: v)
  case (Cons c w)
  then show ?case using Cons.IH [of "v @ [c]"] by (simp add: value_loop_step)
qed simp

text \<open>
  A value of 4096 plain characters or more is not stored, and the parser goes on inside it: the
  text behind its 4096th character is read as further parameters when it starts with a comma.
\<close>
theorem overlong_value_tail_parsed:
  assumes "k \<noteq> []" and "list_all (\<lambda>c. \<not> ends_key c) k" and "q = CHR 0x27 \<or> q = CHR 0x22"
    and "list_all (\<lambda>c. c \<noteq> q \<and> c \<noteq> CHR 0x5C) v" and "length v = max_value_length"
    and "list_all printable_parameter ps" and "ps \<noteq> []" and "q' = CHR 0x27 \<or> q' = CHR 0x22"
  shows "parameters (ensure_parsed (ParametersParser
     (k @ CHR '' '' # q # v @ CHR '','' # print_parameters q' ps @ [q]))) = rev ps"
proof -
  let ?tail = "CHR '','' # print_parameters q' ps @ [q]"
  have "value_loop q [] (v @ ?tail) = (None, ?tail)"
    using assms(4,5) value_loop_plain [of q v "[]" ?tail] by (simp add: value_loop_step)
  then have pv: "parse_value (q # v @ ?tail) k [] = (Some ?tail, [])"
    using assms(3) by (auto simp: parse_value_def)
  have "parse_loop (print_parameters q' ps @ [q]) [] = rev ps"
    using parse_loop_print [OF assms(6,8), of "[q]" "[]"] assms(3,7) quote_not_space [OF assms(3)] by auto
  then show ?thesis
    using parse_loop_key [OF assms(1,2) quote_not_space [OF assms(3)], of "v @ ?tail" "[]"] pv
    by (simp add: ensure_parsed_coherent is_white_space_def)
qed

theorem overlong_value_tail_parsed_witness:
  "parameters (ensure_parsed (ParametersParser (''comment'' @ CHR '' '' # CHR 0x22 #
      replicate 4096 (CHR ''a'') @ CHR '','' # print_parameters (CHR 0x27) example_parameters @ [CHR 0x22])))
    = rev example_parameters"
  by (rule overlong_value_tail_parsed)
    (simp_all add: example_parameters_def printable_parameter_def ends_key_def is_white_space_def
      max_value_length_def list_all_iff)

section \<open>Names and fall-backs\<close>

text \<open>
  For the printed parameters, the accessors return the last parameter of a name, compared without
  regard to case; \<^verbatim>\<open>tokenizer\<close> falls back to the deprecated name \<^verbatim>\<open>parser\<close> and \<^verbatim>\<open>lexicon\<close> to \<^verbatim>\<open>table\<close>,
  and every repetition of a call gives the same answer.
\<close>
lemma parameter_accessors:
  assumes "list_all printable_parameter ps" and "q = CHR 0x27 \<or> q = CHR 0x22"
  defines "p \<equiv> ParametersParser (print_parameters q ps)"
  shows "fst (lookup k p) = find_parameter k (rev ps)
    \<and> fst (tokenizer p) = tokenizer_result (rev ps) \<and> fst (lexicon p) = lexicon_result (rev ps)
    \<and> fst (tokenizer (snd (lookup k p))) = fst (tokenizer p)
    \<and> fst (lexicon (snd (tokenizer p))) = fst (lexicon p)
    \<and> fst (lookup k (snd (lexicon p))) = fst (lookup k p)"
proof -
  have c: "parser_coherent p" "parsed_list p = rev ps"
    using parse_loop_print [OF assms(1,2), of "[]" "[]"] by (simp_all add: p_def)
  then show ?thesis
    using tokenizer_coherent [OF c(1)] lexicon_coherent [OF c(1)] lookup_coherent [OF c(1), of k]
    by (simp add: lookup.get_result tokenizer.get_result lexicon.get_result)
qed

lemma parameter_accessors_witness:
  "fst (tokenizer (ParametersParser (print_parameters (CHR 0x22) [\<lparr>par_key = ''Parser'', par_value = ''TokenMecab''\<rparr>])))
     = (Some ''TokenMecab'', True)"
proof -
  let ?ps = "[\<lparr>par_key = ''Parser'', par_value = ''TokenMecab''\<rparr>]"
  have "tokenizer_result (rev ?ps) = (Some ''TokenMecab'', True)" by code_simp
  moreover have "list_all printable_parameter ?ps" by code_simp
  ultimately show ?thesis using parameter_accessors [of ?ps "CHR 0x22"] by simp
qed

end
