(* ===== verification/Field_Types.thy ===== *)
theory Field_Types
  imports Mrn_Prelude
begin

text \<open>
  MySQL's data as the components see it: the field types of \<^verbatim>\<open>enum_field_types\<close> that the sources
  name, a charset with the attributes they read, and a field of a table.
\<close>

datatype mysql_type =
    MYSQL_TYPE_DECIMAL | MYSQL_TYPE_TINY | MYSQL_TYPE_SHORT | MYSQL_TYPE_LONG | MYSQL_TYPE_FLOAT
  | MYSQL_TYPE_DOUBLE | MYSQL_TYPE_NULL | MYSQL_TYPE_TIMESTAMP | MYSQL_TYPE_LONGLONG | MYSQL_TYPE_INT24
  | MYSQL_TYPE_DATE | MYSQL_TYPE_TIME | MYSQL_TYPE_DATETIME | MYSQL_TYPE_YEAR | MYSQL_TYPE_NEWDATE
  | MYSQL_TYPE_VARCHAR | MYSQL_TYPE_VARCHAR_COMPRESSED | MYSQL_TYPE_BIT | MYSQL_TYPE_TIMESTAMP2
  | MYSQL_TYPE_DATETIME2 | MYSQL_TYPE_TIME2 | MYSQL_TYPE_NEWDECIMAL | MYSQL_TYPE_ENUM | MYSQL_TYPE_SET
  | MYSQL_TYPE_TINY_BLOB | MYSQL_TYPE_MEDIUM_BLOB | MYSQL_TYPE_LONG_BLOB | MYSQL_TYPE_BLOB
  | MYSQL_TYPE_BLOB_COMPRESSED | MYSQL_TYPE_VAR_STRING | MYSQL_TYPE_STRING | MYSQL_TYPE_GEOMETRY
  | MYSQL_TYPE_JSON

text \<open>A charset: its collation name, its charset name, the identity of its handler
  (\<^verbatim>\<open>cset\<close>, compared as a pointer) and the two sort flags of \<^verbatim>\<open>state\<close>.\<close>

record charset =
  cs_name :: string
  cs_csname :: string
  cset :: nat
  MY_CS_BINSORT :: bool
  MY_CS_CSSORT :: bool

text \<open>A field: the index in its table, the two types MySQL reports, whether it has a null bit, is
  unsigned, the number of decimals of a temporal field and its charset.\<close>

record mysql_field =
  field_index :: nat
  field_name :: string
  field_type :: mysql_type
  real_type :: mysql_type
  null_bit :: bool
  unsigned_flag :: bool
  field_decimals :: nat
  field_charset :: charset

end
