(* ===== verification/Encoding.thy ===== *)
theory Encoding
  imports Field_Types
begin

text \<open>
  The Groonga encoding of a MySQL charset (\<^verbatim>\<open>lib/mrn_encoding.cpp\<close>). The global variables are a
  store indexed by their names; dereferencing a null pointer and a failed \<^verbatim>\<open>assert\<close> are \<^const>\<open>None\<close>.
  The lemmas relate what \<^verbatim>\<open>init\<close> collects from MySQL's charset list to what \<^verbatim>\<open>convert\<close> answers.
\<close>

datatype grn_encoding =
  GRN_ENC_NONE | GRN_ENC_EUC_JP | GRN_ENC_UTF8 | GRN_ENC_SJIS | GRN_ENC_LATIN1 | GRN_ENC_KOI8R

datatype charset_variable =
    mrn_charset_utf8 | mrn_charset_utf8mb4 | mrn_charset_binary | mrn_charset_ascii
  | mrn_charset_latin1_1 | mrn_charset_latin1_2 | mrn_charset_cp932 | mrn_charset_sjis
  | mrn_charset_eucjpms | mrn_charset_ujis | mrn_charset_koi8r

type_synonym encoding_globals = "charset_variable \<Rightarrow> charset option"

text \<open>The variable that is responsible for a charset name.\<close>

definition variable_of :: "string \<Rightarrow> charset_variable option" where
  "variable_of n =
     (if n = ''utf8'' \<or> n = ''utf8mb3'' then Some mrn_charset_utf8
      else if n = ''utf8mb4'' then Some mrn_charset_utf8mb4
      else if n = ''binary'' then Some mrn_charset_binary
      else if n = ''ascii'' then Some mrn_charset_ascii
      else if n = ''latin1'' then Some mrn_charset_latin1_1
      else if n = ''cp932'' then Some mrn_charset_cp932
      else if n = ''sjis'' then Some mrn_charset_sjis
      else if n = ''eucjpms'' then Some mrn_charset_eucjpms
      else if n = ''ujis'' then Some mrn_charset_ujis
      else if n = ''koi8r'' then Some mrn_charset_koi8r
      else None)"

definition remember :: "charset_variable \<Rightarrow> charset \<Rightarrow> encoding_globals \<Rightarrow> encoding_globals option" where
  "remember v cs g = (case g v of
      None \<Rightarrow> Some (g(v := Some cs))
    | Some c \<Rightarrow> if cset c \<noteq> cset cs then None else Some g)"

text \<open>One turn of the loop of \<^verbatim>\<open>init\<close>: only latin1 may have two handlers.\<close>

definition init_charset :: "charset option \<Rightarrow> encoding_globals \<Rightarrow> encoding_globals option" where
  "init_charset entry g = (case entry of
      None \<Rightarrow> Some g
    | Some cs \<Rightarrow> (case variable_of (cs_csname cs) of
          None \<Rightarrow> Some g
        | Some v \<Rightarrow>
            if v = mrn_charset_latin1_1 then
              (case g mrn_charset_latin1_1 of
                 None \<Rightarrow> Some (g(mrn_charset_latin1_1 := Some cs))
               | Some c \<Rightarrow> if cset c \<noteq> cset cs then remember mrn_charset_latin1_2 cs g else Some g)
            else remember v cs g))"

primrec encoding_init :: "charset option list \<Rightarrow> encoding_globals \<Rightarrow> encoding_globals option" where
  "encoding_init [] g = Some g"
| "encoding_init (c # cs) g = (case init_charset c g of None \<Rightarrow> None | Some g' \<Rightarrow> encoding_init cs g')"

definition init_globals :: encoding_globals where
  "init_globals = (\<lambda>_. None)"

text \<open>One test of \<^verbatim>\<open>convert\<close>, which dereferences the variable.\<close>

definition check_cset ::
    "encoding_globals \<Rightarrow> charset_variable \<Rightarrow> charset \<Rightarrow> grn_encoding \<Rightarrow> grn_encoding option
     \<Rightarrow> grn_encoding option" where
  "check_cset g v cs enc otherwise = (case g v of
      None \<Rightarrow> None
    | Some c \<Rightarrow> if cset cs = cset c then Some enc else otherwise)"

definition convert :: "encoding_globals \<Rightarrow> charset option \<Rightarrow> grn_encoding option" where
  "convert g charset_info = (case charset_info of
      None \<Rightarrow> Some GRN_ENC_NONE
    | Some cs \<Rightarrow>
        check_cset g mrn_charset_utf8 cs GRN_ENC_UTF8
        (if g mrn_charset_utf8mb4 \<noteq> None \<and> cset cs = cset (the (g mrn_charset_utf8mb4))
         then Some GRN_ENC_UTF8 else
         check_cset g mrn_charset_cp932 cs GRN_ENC_SJIS
        (check_cset g mrn_charset_eucjpms cs GRN_ENC_EUC_JP
        (check_cset g mrn_charset_latin1_1 cs GRN_ENC_LATIN1
        (check_cset g mrn_charset_latin1_2 cs GRN_ENC_LATIN1
        (check_cset g mrn_charset_koi8r cs GRN_ENC_KOI8R
        (check_cset g mrn_charset_binary cs GRN_ENC_NONE
        (check_cset g mrn_charset_ascii cs GRN_ENC_UTF8
        (check_cset g mrn_charset_sjis cs GRN_ENC_SJIS
        (check_cset g mrn_charset_ujis cs GRN_ENC_EUC_JP
        (Some GRN_ENC_NONE)))))))))))"

text \<open>The encoding of a Groonga context is the state that \<^verbatim>\<open>set_raw\<close> and \<^verbatim>\<open>set\<close> change; \<^verbatim>\<open>set\<close>
  returns the error code 0 or \<open>ER_MRN_CHARSET_NOT_SUPPORT\<close>.\<close>

definition set_raw :: "encoding_globals \<Rightarrow> charset option \<Rightarrow> (bool \<times> grn_encoding) option" where
  "set_raw g charset_info = (case charset_info of
      None \<Rightarrow> Some (True, GRN_ENC_NONE)
    | Some cs \<Rightarrow>
        (case convert g charset_info of
           None \<Rightarrow> None
         | Some enc \<Rightarrow>
             if enc \<noteq> GRN_ENC_NONE then Some (True, enc)
             else (case g mrn_charset_binary of
                 None \<Rightarrow> None
               | Some b \<Rightarrow> Some (cset cs = cset b, enc))))"

datatype encoding_error = ER_MRN_CHARSET_NOT_SUPPORT string string

definition encoding_set ::
    "encoding_globals \<Rightarrow> charset option \<Rightarrow> (encoding_error option \<times> grn_encoding) option" where
  "encoding_set g charset_info = (case set_raw g charset_info of
      None \<Rightarrow> None
    | Some (ok, enc) \<Rightarrow>
        Some (if ok then None
              else (case charset_info of
                 None \<Rightarrow> Some (ER_MRN_CHARSET_NOT_SUPPORT ''<null>'' ''<null>'')
               | Some cs \<Rightarrow> Some (ER_MRN_CHARSET_NOT_SUPPORT (cs_name cs) (cs_csname cs))), enc))"

section \<open>What the list of charsets leaves in the variables\<close>

definition collected :: "charset set \<Rightarrow> encoding_globals \<Rightarrow> bool" where
  "collected seen g \<longleftrightarrow>
     (\<forall>v c. g v = Some c \<longrightarrow> c \<in> seen \<and>
        variable_of (cs_csname c) = Some (if v = mrn_charset_latin1_2 then mrn_charset_latin1_1 else v)) \<and>
     (\<forall>c \<in> seen. \<forall>v. variable_of (cs_csname c) = Some v \<longrightarrow>
        (\<exists>w d. g w = Some d \<and> cset d = cset c \<and> (w = v \<or> v = mrn_charset_latin1_1 \<and> w = mrn_charset_latin1_2)))"

lemma variable_of_not_second: "variable_of n \<noteq> Some mrn_charset_latin1_2"
  by (simp add: variable_of_def)

lemma collected_insert:
  assumes "collected seen g" and "g w = None" and "variable_of (cs_csname cs) = Some v"
    and w: "w = v \<and> v \<noteq> mrn_charset_latin1_2 \<or> v = mrn_charset_latin1_1 \<and> w = mrn_charset_latin1_2"
  shows "collected (insert cs seen) (g(w := Some cs))"
  unfolding collected_def
proof (intro conjI allI impI ballI)
  fix u c
  assume "(g(w := Some cs)) u = Some c"
  then show "c \<in> insert cs seen"
    and "variable_of (cs_csname c) = Some (if u = mrn_charset_latin1_2 then mrn_charset_latin1_1 else u)"
    using assms by (auto simp: collected_def split: if_splits)
next
  fix c u
  assume c: "c \<in> insert cs seen" and u: "variable_of (cs_csname c) = Some u"
  show "\<exists>w' d. (g(w := Some cs)) w' = Some d \<and> cset d = cset c
    \<and> (w' = u \<or> u = mrn_charset_latin1_1 \<and> w' = mrn_charset_latin1_2)"
  proof (cases "c = cs")
    case True
    with u assms(3) w show ?thesis by (intro exI [of _ w] exI [of _ cs]) auto
  next
    case False
    with c u assms(1) obtain w' d where "g w' = Some d" "cset d = cset c"
      "w' = u \<or> u = mrn_charset_latin1_1 \<and> w' = mrn_charset_latin1_2"
      unfolding collected_def by blast
    with assms(2) show ?thesis by (intro exI [of _ w'] exI [of _ d]) auto
  qed
qed

lemma init_charset_collected:
  assumes "collected seen g" and "init_charset entry g = Some g'"
  shows "collected (seen \<union> set_option entry) g'"
proof (cases "\<exists>cs v. entry = Some cs \<and> variable_of (cs_csname cs) = Some v")
  case False
  with assms show ?thesis
    by (auto simp: init_charset_def collected_def split: option.splits)
next
  case True
  then obtain cs v where e: "entry = Some cs" "variable_of (cs_csname cs) = Some v" by blast
  then have v2: "v \<noteq> mrn_charset_latin1_2" using variable_of_not_second by metis
  consider w where "g' = g(w := Some cs)" "g w = None" "w = v \<or> v = mrn_charset_latin1_1 \<and> w = mrn_charset_latin1_2"
    | w d where "g' = g" "g w = Some d" "cset d = cset cs" "w = v \<or> v = mrn_charset_latin1_1 \<and> w = mrn_charset_latin1_2"
    using assms(2) e v2
    by (auto simp: init_charset_def remember_def split: if_splits option.splits)
  then show ?thesis
  proof cases
    case 1
    with collected_insert [OF assms(1) 1(2) e(2)] e v2 show ?thesis by auto
  next
    case 2
    then show ?thesis using assms(1) e unfolding collected_def by auto
  qed
qed

lemma encoding_init_collected:
  assumes "collected seen g" and "encoding_init cs g = Some g'"
  shows "collected (seen \<union> {c. Some c \<in> set cs}) g'"
  using assms
proof (induction cs arbitrary: seen g)
  case (Cons e es)
  from Cons.prems obtain g1 where 1: "init_charset e g = Some g1" "encoding_init es g1 = Some g'"
    by (auto split: option.splits)
  have "seen \<union> set_option e \<union> {c. Some c \<in> set es} = seen \<union> {c. Some c \<in> set (e # es)}"
    by (cases e) auto
  with Cons.IH [OF init_charset_collected [OF Cons.prems(1) 1(1)] 1(2)] show ?case by simp
qed simp

lemma encoding_init_complete:
  assumes "encoding_init all_charsets init_globals = Some g"
  shows "collected {c. Some c \<in> set all_charsets} g"
  using encoding_init_collected [of "{}" init_globals all_charsets g] assms
  by (simp add: collected_def init_globals_def)

lemma collected_variable:
  assumes "collected seen g" and "c \<in> seen" and "variable_of (cs_csname c) = Some v"
    and "v \<noteq> mrn_charset_latin1_1"
  shows "\<exists>d. g v = Some d \<and> cset d = cset c"
  using assms unfolding collected_def by blast

section \<open>The encoding of a charset\<close>

text \<open>The encoding meant for each charset name.\<close>

definition intended_encoding :: "string \<Rightarrow> grn_encoding" where
  "intended_encoding n = (case variable_of n of
      Some mrn_charset_utf8 \<Rightarrow> GRN_ENC_UTF8 | Some mrn_charset_utf8mb4 \<Rightarrow> GRN_ENC_UTF8
    | Some mrn_charset_ascii \<Rightarrow> GRN_ENC_UTF8
    | Some mrn_charset_latin1_1 \<Rightarrow> GRN_ENC_LATIN1 | Some mrn_charset_latin1_2 \<Rightarrow> GRN_ENC_LATIN1
    | Some mrn_charset_cp932 \<Rightarrow> GRN_ENC_SJIS | Some mrn_charset_sjis \<Rightarrow> GRN_ENC_SJIS
    | Some mrn_charset_eucjpms \<Rightarrow> GRN_ENC_EUC_JP | Some mrn_charset_ujis \<Rightarrow> GRN_ENC_EUC_JP
    | Some mrn_charset_koi8r \<Rightarrow> GRN_ENC_KOI8R
    | Some mrn_charset_binary \<Rightarrow> GRN_ENC_NONE | None \<Rightarrow> GRN_ENC_NONE)"

text \<open>Every variable is set: the server has all charsets, and two latin1 handlers.\<close>

definition all_variables_set :: "encoding_globals \<Rightarrow> bool" where
  "all_variables_set g \<longleftrightarrow> (\<forall>v. g v \<noteq> None)"

text \<open>The handler of \<open>cs\<close> is used only by charsets with the same intended encoding.\<close>

definition handler_not_shared :: "charset set \<Rightarrow> charset \<Rightarrow> bool" where
  "handler_not_shared seen cs \<longleftrightarrow> (\<forall>c \<in> seen. variable_of (cs_csname c) \<noteq> None \<longrightarrow> cset c = cset cs
     \<longrightarrow> intended_encoding (cs_csname c) = intended_encoding (cs_csname cs))"

lemma check_cset_intended:
  assumes "collected seen g" and "all_variables_set g" and "handler_not_shared seen cs"
    and "enc = (case v of mrn_charset_utf8 \<Rightarrow> GRN_ENC_UTF8 | mrn_charset_utf8mb4 \<Rightarrow> GRN_ENC_UTF8
       | mrn_charset_ascii \<Rightarrow> GRN_ENC_UTF8 | mrn_charset_latin1_1 \<Rightarrow> GRN_ENC_LATIN1
       | mrn_charset_latin1_2 \<Rightarrow> GRN_ENC_LATIN1 | mrn_charset_cp932 \<Rightarrow> GRN_ENC_SJIS
       | mrn_charset_sjis \<Rightarrow> GRN_ENC_SJIS | mrn_charset_eucjpms \<Rightarrow> GRN_ENC_EUC_JP
       | mrn_charset_ujis \<Rightarrow> GRN_ENC_EUC_JP | mrn_charset_koi8r \<Rightarrow> GRN_ENC_KOI8R
       | mrn_charset_binary \<Rightarrow> GRN_ENC_NONE)"
    and "cset cs \<noteq> cset (the (g v)) \<Longrightarrow> otherwise = Some (intended_encoding (cs_csname cs))"
  shows "check_cset g v cs enc otherwise = Some (intended_encoding (cs_csname cs))"
proof -
  obtain c where c: "g v = Some c" using assms(2) by (auto simp: all_variables_set_def)
  have "enc = intended_encoding (cs_csname cs)" if "cset cs = cset c"
  proof -
    from c assms(1) have "c \<in> seen"
      "variable_of (cs_csname c) = Some (if v = mrn_charset_latin1_2 then mrn_charset_latin1_1 else v)"
      by (auto simp: collected_def)
    then have "intended_encoding (cs_csname c) = enc"
      using assms(4) by (cases v) (simp_all add: intended_encoding_def)
    with assms(3) that \<open>c \<in> seen\<close> \<open>variable_of (cs_csname c) = _\<close> show ?thesis
      by (simp add: handler_not_shared_def)
  qed
  with c assms(5) show ?thesis by (simp add: check_cset_def)
qed

lemma convert_intended:
  assumes "collected seen g" and "all_variables_set g" and "handler_not_shared seen cs"
    and "variable_of (cs_csname cs) \<noteq> None" and "cs \<in> seen"
  shows "convert g (Some cs) = Some (intended_encoding (cs_csname cs))"
proof -
  note check = check_cset_intended [OF assms(1-3)]
  have mb4: "(if g mrn_charset_utf8mb4 \<noteq> None \<and> cset cs = cset (the (g mrn_charset_utf8mb4))
      then Some GRN_ENC_UTF8 else r) = check_cset g mrn_charset_utf8mb4 cs GRN_ENC_UTF8 r" for r
  proof -
    obtain d where "g mrn_charset_utf8mb4 = Some d" using assms(2) by (auto simp: all_variables_set_def)
    then show ?thesis by (simp add: check_cset_def)
  qed
  have final: "Some GRN_ENC_NONE = Some (intended_encoding (cs_csname cs))"
    if "\<forall>v. cset cs \<noteq> cset (the (g v))"
  proof -
    obtain v where "variable_of (cs_csname cs) = Some v" using assms(4) by blast
    with assms(1,5) obtain w d where "g w = Some d" "cset d = cset cs"
      unfolding collected_def by blast
    with that show ?thesis by (metis option.sel)
  qed
  have cases: "\<forall>v. P v" if "P mrn_charset_utf8" "P mrn_charset_utf8mb4" "P mrn_charset_binary"
    "P mrn_charset_ascii" "P mrn_charset_latin1_1" "P mrn_charset_latin1_2" "P mrn_charset_cp932"
    "P mrn_charset_sjis" "P mrn_charset_eucjpms" "P mrn_charset_ujis" "P mrn_charset_koi8r" for P
    using that charset_variable.induct by blast
  show ?thesis
    unfolding convert_def option.case(2) mb4
    by (rule check, simp)+ (rule final, rule cases)
qed

text \<open>
  After \<^verbatim>\<open>init\<close> over the server's list of charsets, each charset with a supported name gets
  the Groonga encoding meant for its name, and \<^verbatim>\<open>set\<close> accepts it, provided the handler of the
  charset is not also used by a charset with another encoding.
\<close>
theorem supported_charset_encoding:
  assumes "encoding_init all_charsets init_globals = Some g" and "all_variables_set g"
    and "Some cs \<in> set all_charsets" and "variable_of (cs_csname cs) \<noteq> None"
    and "handler_not_shared {c. Some c \<in> set all_charsets} cs"
  shows "encoding_set g (Some cs) = Some (None, intended_encoding (cs_csname cs))"
proof -
  let ?seen = "{c. Some c \<in> set all_charsets}"
  have coll: "collected ?seen g" by (rule encoding_init_complete [OF assms(1)])
  have conv: "convert g (Some cs) = Some (intended_encoding (cs_csname cs))"
    by (rule convert_intended [OF coll assms(2,5,4)]) (use assms(3) in simp)
  obtain v where v: "variable_of (cs_csname cs) = Some v" using assms(4) by blast
  obtain b where b: "g mrn_charset_binary = Some b" using assms(2) by (auto simp: all_variables_set_def)
  have "cset cs = cset b" if "intended_encoding (cs_csname cs) = GRN_ENC_NONE"
  proof -
    from that v have "v = mrn_charset_binary"
      by (cases v) (simp_all add: intended_encoding_def)
    with collected_variable [OF coll _ v] assms(3) b show ?thesis by auto
  qed
  with conv b show ?thesis by (simp add: encoding_set_def set_raw_def)
qed

text \<open>A charset list with one charset per supported name, and two latin1 handlers.\<close>

definition sample_charset :: "string \<Rightarrow> nat \<Rightarrow> charset" where
  "sample_charset n h = \<lparr>cs_name = n, cs_csname = n, cset = h, MY_CS_BINSORT = False, MY_CS_CSSORT = False\<rparr>"

definition sample_charsets :: "charset option list" where
  "sample_charsets = map Some (map2 sample_charset
     [''utf8'', ''utf8mb4'', ''binary'', ''ascii'', ''latin1'', ''latin1'', ''cp932'', ''sjis'', ''eucjpms'',
      ''ujis'', ''koi8r'', ''cp1251''] [1, 2, 3, 4, 5, 6, 7, 8, 9, 10, 11, 12])"

definition sample_globals :: encoding_globals where
  "sample_globals v = Some (case v of
      mrn_charset_utf8 \<Rightarrow> sample_charset ''utf8'' 1 | mrn_charset_utf8mb4 \<Rightarrow> sample_charset ''utf8mb4'' 2
    | mrn_charset_binary \<Rightarrow> sample_charset ''binary'' 3 | mrn_charset_ascii \<Rightarrow> sample_charset ''ascii'' 4
    | mrn_charset_latin1_1 \<Rightarrow> sample_charset ''latin1'' 5 | mrn_charset_latin1_2 \<Rightarrow> sample_charset ''latin1'' 6
    | mrn_charset_cp932 \<Rightarrow> sample_charset ''cp932'' 7 | mrn_charset_sjis \<Rightarrow> sample_charset ''sjis'' 8
    | mrn_charset_eucjpms \<Rightarrow> sample_charset ''eucjpms'' 9 | mrn_charset_ujis \<Rightarrow> sample_charset ''ujis'' 10
    | mrn_charset_koi8r \<Rightarrow> sample_charset ''koi8r'' 11)"

lemma variable_of_names:
  "variable_of ''utf8'' = Some mrn_charset_utf8" "variable_of ''utf8mb4'' = Some mrn_charset_utf8mb4"
  "variable_of ''binary'' = Some mrn_charset_binary" "variable_of ''ascii'' = Some mrn_charset_ascii"
  "variable_of ''latin1'' = Some mrn_charset_latin1_1" "variable_of ''cp932'' = Some mrn_charset_cp932"
  "variable_of ''sjis'' = Some mrn_charset_sjis" "variable_of ''eucjpms'' = Some mrn_charset_eucjpms"
  "variable_of ''ujis'' = Some mrn_charset_ujis" "variable_of ''koi8r'' = Some mrn_charset_koi8r"
  "variable_of ''cp1251'' = None"
  by (simp_all add: variable_of_def)

lemma sample_charsets_init: "encoding_init sample_charsets init_globals = Some sample_globals"
proof -
  have s: "cset (sample_charset n h) = h" "cs_csname (sample_charset n h) = n" for n h
    by (simp_all add: sample_charset_def)
  have "\<exists>g. encoding_init sample_charsets init_globals = Some g \<and> (\<forall>v. g v = sample_globals v)"
    unfolding sample_charsets_def
    by (simp add: init_charset_def remember_def init_globals_def s variable_of_names sample_globals_def
        split: charset_variable.split) (metis charset_variable.exhaust)
  then show ?thesis by (auto simp: fun_eq_iff)
qed

theorem supported_charset_encoding_witness:
  "encoding_set sample_globals (Some (sample_charset ''koi8r'' 11)) = Some (None, GRN_ENC_KOI8R)"
proof -
  have "encoding_set sample_globals (Some (sample_charset ''koi8r'' 11))
      = Some (None, intended_encoding (cs_csname (sample_charset ''koi8r'' 11)))"
    by (rule supported_charset_encoding [OF sample_charsets_init])
      (auto simp: all_variables_set_def sample_globals_def sample_charsets_def sample_charset_def
        handler_not_shared_def variable_of_names)
  also have "intended_encoding (cs_csname (sample_charset ''koi8r'' 11)) = GRN_ENC_KOI8R" by code_simp
  finally show ?thesis .
qed

text \<open>
  When charsets share a handler, as MySQL's single-byte charsets do, only the handler decides:
  each charset that uses one of the two latin1 handlers is converted to latin1, whatever its name,
  and accepted by \<^verbatim>\<open>set\<close>, supported or not.
\<close>
theorem shared_latin1_handler:
  assumes "all_variables_set g" and "g mrn_charset_latin1_2 = Some l" and "cset cs = cset l"
    and "cset (the (g mrn_charset_utf8)) \<noteq> cset l" "cset (the (g mrn_charset_utf8mb4)) \<noteq> cset l"
    "cset (the (g mrn_charset_cp932)) \<noteq> cset l" "cset (the (g mrn_charset_eucjpms)) \<noteq> cset l"
  shows "encoding_set g (Some cs) = Some (None, GRN_ENC_LATIN1)"
proof -
  have "\<exists>c. g v = Some c" for v using assms(1) by (auto simp: all_variables_set_def)
  then obtain a b c d e where "g mrn_charset_utf8 = Some a" "g mrn_charset_utf8mb4 = Some b"
    "g mrn_charset_cp932 = Some c" "g mrn_charset_eucjpms = Some d" "g mrn_charset_latin1_1 = Some e"
    by metis
  with assms(2-7) show ?thesis
    by (auto simp: encoding_set_def set_raw_def convert_def check_cset_def)
qed

theorem shared_latin1_handler_witness:
  "encoding_set sample_globals (Some (sample_charset ''koi8r'' 6)) = Some (None, GRN_ENC_LATIN1)"
  by (rule shared_latin1_handler [where l = "sample_charset ''latin1'' 6"])
    (simp_all add: all_variables_set_def sample_globals_def sample_charset_def)

end
