(* ===== verification/Field_Normalizer.thy ===== *)
theory Field_Normalizer
  imports Encoding
begin

text \<open>
  Which fields are normalized and by which Groonga normalizer (\<^verbatim>\<open>lib/mrn_field_normalizer.cpp\<close>).
  Groonga's \<^verbatim>\<open>grn_ctx_get\<close> (is a normalizer installed) and \<^verbatim>\<open>grn_string_open\<close> (the normalization,
  with the encoding the context has at the call) are parameters.
\<close>

section \<open>Model\<close>

definition is_text_type :: "mysql_field \<Rightarrow> bool" where
  "is_text_type f = (case field_type f of
      MYSQL_TYPE_VARCHAR \<Rightarrow> True
    | MYSQL_TYPE_BLOB \<Rightarrow> True
    | MYSQL_TYPE_VAR_STRING \<Rightarrow> True
    | MYSQL_TYPE_STRING \<Rightarrow> (case real_type f of
          MYSQL_TYPE_ENUM \<Rightarrow> False | MYSQL_TYPE_SET \<Rightarrow> False | _ \<Rightarrow> True)
    | _ \<Rightarrow> False)"

definition should_normalize :: "mysql_field \<Rightarrow> bool" where
  "should_normalize f =
     (if MY_CS_BINSORT (field_charset f) \<or> MY_CS_CSSORT (field_charset f) then False
      else is_text_type f)"

text \<open>The chain of comparisons with the collation's name: the name under which a normalizer is
  registered and its specification.\<close>

definition quoted :: "string \<Rightarrow> string" where
  "quoted s = CHR 0x27 # s @ [CHR 0x27]"

definition collation_normalizers :: "(string \<times> string \<times> string) list" where
  "collation_normalizers =
    [(''utf8_general_ci'', ''NormalizerMySQLGeneralCI'', ''NormalizerMySQLGeneralCI''),
     (''utf8mb3_general_ci'', ''NormalizerMySQLGeneralCI'', ''NormalizerMySQLGeneralCI''),
     (''utf8mb4_general_ci'', ''NormalizerMySQLGeneralCI'', ''NormalizerMySQLGeneralCI''),
     (''utf8_unicode_ci'', ''NormalizerMySQLUnicodeCI'', ''NormalizerMySQLUnicodeCI''),
     (''utf8mb3_unicode_ci'', ''NormalizerMySQLUnicodeCI'', ''NormalizerMySQLUnicodeCI''),
     (''utf8mb4_unicode_ci'', ''NormalizerMySQLUnicodeCI'', ''NormalizerMySQLUnicodeCI''),
     (''utf8_unicode_520_ci'', ''NormalizerMySQLUnicode520CI'', ''NormalizerMySQLUnicode520CI''),
     (''utf8mb3_unicode_520_ci'', ''NormalizerMySQLUnicode520CI'', ''NormalizerMySQLUnicode520CI''),
     (''utf8mb4_unicode_520_ci'', ''NormalizerMySQLUnicode520CI'', ''NormalizerMySQLUnicode520CI''),
     (''utf8mb4_0900_ai_ci'', ''NormalizerMySQLUnicode900'', ''NormalizerMySQLUnicode900('' @ quoted ''weight_level'' @ '', '' @ ''1'' @ '')''),
     (''utf8mb4_0900_as_ci'', ''NormalizerMySQLUnicode900'', ''NormalizerMySQLUnicode900('' @ quoted ''weight_level'' @ '', '' @ ''2'' @ '')''),
     (''utf8mb4_0900_as_cs'', ''NormalizerMySQLUnicode900'', ''NormalizerMySQLUnicode900('' @ quoted ''weight_level'' @ '', '' @ ''3'' @ '')''),
     (''utf8mb4_ja_0900_as_cs'', ''NormalizerMySQLUnicode900'', ''NormalizerMySQLUnicode900('' @ quoted ''locale'' @ '', '' @ quoted ''ja'' @ '', '' @ quoted ''weight_level'' @ '', '' @ ''3'' @ '')''),
     (''utf8mb4_ja_0900_as_cs_ks'', ''NormalizerMySQLUnicode900'', ''NormalizerMySQLUnicode900('' @ quoted ''locale'' @ '', '' @ quoted ''ja'' @ '', '' @ quoted ''weight_level'' @ '', '' @ ''4'' @ '')''),
     (''utf8mb4_uca1400_ai_ci'', ''NormalizerMySQLUnicode'', ''NormalizerMySQLUnicode('' @ quoted ''version'' @ '', '' @ quoted ''14.0.0'' @ '')''),
     (''utf8mb4_uca1400_ai_cs'', ''NormalizerMySQLUnicode'', ''NormalizerMySQLUnicode('' @ quoted ''version'' @ '', '' @ quoted ''14.0.0'' @ '', '' @ quoted ''case_sensitive'' @ '', '' @ ''true'' @ '')''),
     (''utf8mb4_uca1400_as_ci'', ''NormalizerMySQLUnicode'', ''NormalizerMySQLUnicode('' @ quoted ''version'' @ '', '' @ quoted ''14.0.0'' @ '', '' @ quoted ''accent_sensitive'' @ '', '' @ ''true'' @ '')''),
     (''utf8mb4_uca1400_as_cs'', ''NormalizerMySQLUnicode'', ''NormalizerMySQLUnicode('' @ quoted ''version'' @ '', '' @ quoted ''14.0.0'' @ '', '' @ quoted ''accent_sensitive'' @ '', '' @ ''true'' @ '', '' @ quoted ''case_sensitive'' @ '', '' @ ''true'' @ '')'')]"

definition normalizer_of_collation :: "string \<Rightarrow> (string \<times> string) option" where
  "normalizer_of_collation n = map_of collation_normalizers n"

definition default_normalizer_name :: string where
  "default_normalizer_name = ''NormalizerAuto''"

text \<open>\<^verbatim>\<open>find_grn_normalizer\<close>: the specification and, when the normalizer of the collation is not
  installed, the names in the warning.\<close>

definition find_grn_normalizer ::
    "(string \<Rightarrow> bool) \<Rightarrow> mysql_field \<Rightarrow> string \<times> (string \<times> string) option" where
  "find_grn_normalizer installed f =
     (case normalizer_of_collation (cs_name (field_charset f)) of
        None \<Rightarrow> (default_normalizer_name, None)
      | Some (n, spec) \<Rightarrow>
          if \<not> installed n then (default_normalizer_name, Some (n, cs_name (field_charset f)))
          else (spec, None))"

text \<open>How \<^verbatim>\<open>grn_string_open\<close> gets the normalizer: through a lexicon that has a specification with
  arguments, or as the object with a name.\<close>

datatype normalizer_use = ThroughLexicon string | ByName string

text \<open>\<^verbatim>\<open>normalize\<close> on a context with an encoding: the opened string, the encoding of the context
  afterwards, and whether the field's normalizer has a lexicon afterwards.\<close>

definition normalize ::
    "encoding_globals \<Rightarrow> (string \<Rightarrow> bool) \<Rightarrow> (grn_encoding \<Rightarrow> normalizer_use \<Rightarrow> string \<Rightarrow> 's)
     \<Rightarrow> mysql_field \<Rightarrow> string \<Rightarrow> grn_encoding \<Rightarrow> bool \<Rightarrow> ('s \<times> grn_encoding \<times> bool) option" where
  "normalize g installed grn_string_open f str ctx_encoding has_lexicon =
     (let spec = fst (find_grn_normalizer installed f);
          original_encoding = ctx_encoding
      in case set_raw g (Some (field_charset f)) of
           None \<Rightarrow> None
         | Some (_, enc) \<Rightarrow>
             if spec = [] then None
             else if last spec = CHR '')''
             then Some (grn_string_open enc (ThroughLexicon spec) str, original_encoding, True)
             else Some (grn_string_open enc (ByName spec) str, original_encoding, has_lexicon))"

section \<open>Properties\<close>

lemma collation_normalizer_shape:
  assumes "normalizer_of_collation n = Some (name, spec)"
  shows "spec \<noteq> [] \<and> (last spec = CHR '')'' \<longleftrightarrow> spec \<noteq> name) \<and> prefix name spec \<and> name \<noteq> default_normalizer_name"
proof -
  have "list_all (\<lambda>(n, name, spec). spec \<noteq> [] \<and> (last spec = CHR '')'' \<longleftrightarrow> spec \<noteq> name) \<and> prefix name spec
      \<and> name \<noteq> default_normalizer_name) collation_normalizers"
    by code_simp
  then show ?thesis
    using assms unfolding normalizer_of_collation_def list_all_iff by (fast dest: map_of_SomeD)
qed

text \<open>Normalizing a field's text leaves the encoding of the Groonga context as it was, and the text
  is opened in the field's own encoding. A normalizer with arguments is used through a lexicon, one
  without arguments by its name, and exactly the names that are installed are used: otherwise the
  fall-back is \<^verbatim>\<open>NormalizerAuto\<close>.
\<close>
lemma normalize_restores_encoding:
  assumes "convert g (Some (field_charset f)) = Some enc" and "g mrn_charset_binary \<noteq> None"
  shows "\<exists>use lex. normalize g installed grn_string_open f str ctx_encoding has_lexicon
      = Some (grn_string_open enc use str, ctx_encoding, lex)
    \<and> (case use of
         ByName n \<Rightarrow> lex = has_lexicon \<and>
           (n = default_normalizer_name \<or>
            normalizer_of_collation (cs_name (field_charset f)) = Some (n, n) \<and> installed n)
       | ThroughLexicon spec \<Rightarrow> lex \<and>
           (\<exists>n. normalizer_of_collation (cs_name (field_charset f)) = Some (n, spec) \<and> installed n \<and> spec \<noteq> n))"
proof -
  have raw: "\<exists>ok. set_raw g (Some (field_charset f)) = Some (ok, enc)"
    using assms by (auto simp: set_raw_def)
  have d: "default_normalizer_name \<noteq> []" "last default_normalizer_name \<noteq> CHR '')''"
    by (simp_all add: default_normalizer_name_def)
  let ?spec = "fst (find_grn_normalizer installed f)"
  let ?lex = "last ?spec = CHR '')''"
  let ?use = "if ?lex then ThroughLexicon ?spec else ByName ?spec"
  have n: "normalize g installed grn_string_open f str ctx_encoding has_lexicon
      = Some (grn_string_open enc ?use str, ctx_encoding, ?lex \<or> has_lexicon)" if "?spec \<noteq> []"
    using raw that by (auto simp: normalize_def Let_def)
  show ?thesis
  proof (cases "normalizer_of_collation (cs_name (field_charset f))")
    case None
    with n d show ?thesis
      by (intro exI [of _ ?use] exI [of _ "?lex \<or> has_lexicon"]) (simp add: find_grn_normalizer_def)
  next
    case (Some p)
    obtain m spec where p: "p = (m, spec)" by force
    note shape = collation_normalizer_shape [OF Some [unfolded p]]
    show ?thesis
      using n d Some p shape
      by (intro exI [of _ ?use] exI [of _ "?lex \<or> has_lexicon"], cases "installed m")
        (auto simp: find_grn_normalizer_def)
  qed
qed

definition sample_field :: mysql_field where
  "sample_field = \<lparr>field_index = 0, field_name = ''title'', field_type = MYSQL_TYPE_VARCHAR,
     real_type = MYSQL_TYPE_VARCHAR, null_bit = False, unsigned_flag = False, field_decimals = 0,
     field_charset = (sample_charset ''utf8mb4'' 2)\<lparr>cs_name := ''utf8mb4_0900_ai_ci''\<rparr>\<rparr>"

lemma normalize_restores_encoding_witness:
  "\<exists>use lex. normalize sample_globals (\<lambda>n. n = ''NormalizerMySQLUnicode900'') (\<lambda>e u s. (e, u, s)) sample_field
     ''text'' GRN_ENC_SJIS False = Some ((GRN_ENC_UTF8, use, ''text''), GRN_ENC_SJIS, lex)"
proof -
  have "convert sample_globals (Some (field_charset sample_field)) = Some GRN_ENC_UTF8" by code_simp
  moreover have "sample_globals mrn_charset_binary \<noteq> None" by (simp add: sample_globals_def)
  ultimately show ?thesis using normalize_restores_encoding
      [of sample_globals sample_field GRN_ENC_UTF8 "\<lambda>n. n = ''NormalizerMySQLUnicode900''" "\<lambda>e u s. (e, u, s)"
        "''text''" GRN_ENC_SJIS False] by blast
qed

end
