(* ===== verification/Key_Parts.thy ===== *)
theory Key_Parts
  imports Field_Types
begin

text \<open>
  The encoding of one column of a multiple column key
  (\<^verbatim>\<open>lib/mrn_multiple_column_key_codec.cpp\<close>, \<^verbatim>\<open>lib/mrn_value_decoder.cpp\<close>), on a little-endian host:
  MySQL's bytes of the column are turned into bytes that Groonga can compare with \<^verbatim>\<open>memcmp\<close>. The
  locale \<open>key_part_codec\<close> states what such an encoding promises; each encoding of the sources is an
  interpretation of it.
\<close>

unbundle bit_operations_syntax

section \<open>Model\<close>

primrec le_bytes :: "nat \<Rightarrow> nat \<Rightarrow> byte list" where
  "le_bytes 0 v = []"
| "le_bytes (Suc n) v = of_nat v # le_bytes n (v div 256)"

definition reverse_bits :: "byte list \<Rightarrow> byte list" where
  "reverse_bits data = map (\<lambda>b. NOT b) data"

definition mrn_byte_order_host_to_network :: "byte list \<Rightarrow> byte list" where
  "mrn_byte_order_host_to_network bs = rev bs"

definition mrn_byte_order_network_to_host :: "byte list \<Rightarrow> byte list" where
  "mrn_byte_order_network_to_host bs = rev bs"

definition flip_sign :: "byte list \<Rightarrow> byte list" where
  "flip_sign bs = (case bs of [] \<Rightarrow> [] | b # r \<Rightarrow> (b XOR 0x80) # r)"

definition encode_number :: "bool \<Rightarrow> bool \<Rightarrow> byte list \<Rightarrow> byte list" where
  "encode_number is_reverse_sort is_signed mysql_key =
     (let grn_key = mrn_byte_order_host_to_network mysql_key;
          grn_key = (if is_signed then flip_sign grn_key else grn_key)
      in if is_reverse_sort then reverse_bits grn_key else grn_key)"

definition decode_number :: "bool \<Rightarrow> bool \<Rightarrow> byte list \<Rightarrow> byte list" where
  "decode_number is_reverse_sort is_signed grn_key =
     (let buffer = (if is_reverse_sort then reverse_bits grn_key else grn_key);
          buffer = (if is_signed then flip_sign buffer else buffer)
      in mrn_byte_order_network_to_host buffer)"

definition encode_long_long_int :: "bool \<Rightarrow> 64 word \<Rightarrow> byte list" where
  "encode_long_long_int is_reverse_sort value =
     (let grn_key = flip_sign (mrn_byte_order_host_to_network (le_bytes 8 (unat value)))
      in if is_reverse_sort then reverse_bits grn_key else grn_key)"

definition decode_long_long_int :: "bool \<Rightarrow> byte list \<Rightarrow> 64 word" where
  "decode_long_long_int is_reverse_sort grn_key =
     (let buffer = (if is_reverse_sort then reverse_bits grn_key else grn_key)
      in of_nat (le_val (mrn_byte_order_network_to_host (flip_sign buffer))))"

text \<open>The value of a \<^verbatim>\<open>float\<close> or \<^verbatim>\<open>double\<close> is its bit pattern; \<^verbatim>\<open>>>\<close> on the signed integer is the
  arithmetic shift.\<close>

definition float_to_key :: "'a::len word \<Rightarrow> 'a word" where
  "float_to_key v =
     (let n_bits = LENGTH('a) - 1 in v XOR (signed_drop_bit n_bits v OR push_bit n_bits 1))"

definition key_to_float :: "'a::len word \<Rightarrow> 'a word" where
  "key_to_float v =
     (let max_bit = LENGTH('a) - 1 in
      v XOR (signed_drop_bit max_bit (v XOR push_bit max_bit 1) OR push_bit max_bit 1))"

definition encode_float :: "bool \<Rightarrow> 32 word \<Rightarrow> byte list" where
  "encode_float is_reverse_sort value =
     (let grn_key = mrn_byte_order_host_to_network (le_bytes 4 (unat (float_to_key value)))
      in if is_reverse_sort then reverse_bits grn_key else grn_key)"

definition decode_float :: "bool \<Rightarrow> byte list \<Rightarrow> byte list" where
  "decode_float is_reverse_sort grn_key =
     (let grn_key = (if is_reverse_sort then reverse_bits grn_key else grn_key);
          int_value = of_nat (le_val (mrn_byte_order_network_to_host grn_key)) :: 32 word
      in le_bytes 4 (unat (key_to_float int_value)))"

definition encode_double :: "bool \<Rightarrow> 64 word \<Rightarrow> byte list" where
  "encode_double is_reverse_sort value =
     (let grn_key = mrn_byte_order_host_to_network (le_bytes 8 (unat (float_to_key value)))
      in if is_reverse_sort then reverse_bits grn_key else grn_key)"

definition decode_double :: "bool \<Rightarrow> byte list \<Rightarrow> byte list" where
  "decode_double is_reverse_sort grn_key =
     (let grn_key = (if is_reverse_sort then reverse_bits grn_key else grn_key);
          long_long_value = of_nat (le_val (mrn_byte_order_network_to_host grn_key)) :: 64 word
      in le_bytes 8 (unat (key_to_float long_long_value)))"

definition encode_sequence :: "byte list \<Rightarrow> byte list" where
  "encode_sequence mysql_key = mysql_key"

definition decode_sequence :: "byte list \<Rightarrow> byte list" where
  "decode_sequence grn_key = grn_key"

definition encode_reverse :: "byte list \<Rightarrow> byte list" where
  "encode_reverse mysql_key = map (\<lambda>i. mysql_key ! (length mysql_key - i - 1)) [0 ..< length mysql_key]"

definition decode_reverse :: "byte list \<Rightarrow> byte list" where
  "decode_reverse grn_key = map (\<lambda>i. grn_key ! (length grn_key - i - 1)) [0 ..< length grn_key]"

text \<open>\<^verbatim>\<open>value_decoder::decode\<close> for the four types it knows: a little-endian read.\<close>

definition value_decode_ushort :: "byte list \<Rightarrow> 16 word" where
  "value_decode_ushort source = of_nat (le_val (take 2 source))"

definition value_decode_float :: "byte list \<Rightarrow> 32 word" where
  "value_decode_float source = of_nat (le_val (take 4 source))"

definition value_decode_double :: "byte list \<Rightarrow> 64 word" where
  "value_decode_double source = of_nat (le_val (take 8 source))"

definition value_decode_longlong :: "byte list \<Rightarrow> 64 word" where
  "value_decode_longlong source = of_nat (le_val (take 8 source))"

section \<open>Bytes and numbers\<close>

lemma length_le_bytes [simp, buf_simps]: "length (le_bytes n v) = n"
  by (induction n arbitrary: v) simp_all

lemma unat_bound: "unat (v :: 'a::len word) < 2 ^ LENGTH('a)"
  by (rule unsigned_less)

lemma unat_of_nat_byte: "unat (of_nat v :: byte) = v mod 256"
  by (simp add: unat_of_nat)

lemma le_val_le_bytes: "le_val (le_bytes n v) = v mod 256 ^ n"
proof (induction n arbitrary: v)
  case (Suc n)
  have "v mod 256 ^ Suc n = v mod 256 + 256 * (v div 256 mod 256 ^ n)"
    using mod_mult2_eq [of v 256 "256 ^ n"] by simp
  with Suc show ?case by (simp add: unat_of_nat_byte)
qed simp

lemma le_bytes_le_val: "length bs = n \<Longrightarrow> le_bytes n (le_val bs) = bs"
  using le_val_inject [of "le_bytes n (le_val bs)" bs] le_val_less [of bs]
  by (simp add: le_val_le_bytes)

lemma unat_of_le_val:
  assumes "length bs = n" and "LENGTH('a::len) = 8 * n"
  shows "unat (of_nat (le_val bs) :: 'a word) = le_val bs"
proof -
  have "(2 :: nat) ^ LENGTH('a) = 256 ^ n" by (simp add: assms(2) power_mult)
  with le_val_less [of bs] assms(1) show ?thesis by (simp add: unat_of_nat)
qed

lemma word_of_le_bytes:
  assumes "LENGTH('a::len) = 8 * n"
  shows "of_nat (le_val (le_bytes n (unat (w :: 'a word)))) = w"
proof -
  have "(2 :: nat) ^ LENGTH('a) = 256 ^ n" by (simp add: assms power_mult)
  with unat_bound [of w] have "unat w mod 256 ^ n = unat w" by simp
  then show ?thesis by (simp add: le_val_le_bytes)
qed

section \<open>The top bit\<close>

lemma two_power_top: "(2 :: nat) ^ LENGTH('a::len) = 2 * 2 ^ (LENGTH('a) - 1)"
  by (metis len_gt_0 power_eq_if less_not_refl)

lemma bit_top_iff: "bit (v :: 'a::len word) (LENGTH('a) - 1) \<longleftrightarrow> 2 ^ (LENGTH('a) - 1) \<le> unat v"
proof -
  let ?t = "2 ^ (LENGTH('a) - 1) :: nat"
  have lt: "unat v < 2 * ?t" using unat_bound [of v] two_power_top [where 'a = 'a] by linarith
  have "odd (unat v div ?t) \<longleftrightarrow> ?t \<le> unat v"
  proof (cases "?t \<le> unat v")
    case True
    with lt have "unat v div ?t = 1" by (intro div_nat_eqI) simp_all
    with True show ?thesis by simp
  qed simp
  moreover have "bit v (LENGTH('a) - 1) \<longleftrightarrow> bit (unat v) (LENGTH('a) - 1)"
    by (simp add: bit_unsigned_iff)
  ultimately show ?thesis by (simp add: bit_iff_odd)
qed

lemma unat_NOT: "unat (NOT (v :: 'a::len word)) = 2 ^ LENGTH('a) - 1 - unat v"
proof -
  have "NOT v = - 1 - v" by (simp add: not_eq_complement)
  moreover have "unat (- 1 - v) = unat (- 1 :: 'a word) - unat v"
    by (rule unat_sub) simp
  ultimately show ?thesis by (simp add: unsigned_minus_1_eq_mask mask_eq_exp_minus_1)
qed

lemma xor_top:
  "(v :: 'a::len word) XOR push_bit (LENGTH('a) - 1) 1 = v + 2 ^ (LENGTH('a) - 1)"
proof (cases "bit v (LENGTH('a) - 1)")
  case False
  have "v + push_bit (LENGTH('a) - 1) 1 = v OR push_bit (LENGTH('a) - 1) 1"
    by (rule disjunctive_add) (use False in \<open>auto simp: bit_simps\<close>)
  moreover have "v XOR push_bit (LENGTH('a) - 1) 1 = v OR push_bit (LENGTH('a) - 1) 1"
    by (rule bit_word_eqI) (use False in \<open>auto simp: bit_simps\<close>)
  ultimately show ?thesis by (simp add: push_bit_eq_mult)
next
  case True
  let ?w = "v XOR push_bit (LENGTH('a) - 1) 1"
  have "?w + push_bit (LENGTH('a) - 1) 1 = ?w OR push_bit (LENGTH('a) - 1) 1"
    by (rule disjunctive_add) (use True in \<open>auto simp: bit_simps\<close>)
  also have "\<dots> = v" by (rule bit_word_eqI) (use True in \<open>auto simp: bit_simps\<close>)
  finally have "?w = v - 2 ^ (LENGTH('a) - 1)" by (simp add: push_bit_eq_mult algebra_simps)
  moreover have "(2 :: 'a word) ^ (LENGTH('a) - 1) + 2 ^ (LENGTH('a) - 1) = 0"
    by (metis mult_2 power_eq_if len_gt_0 less_not_refl word_exp_length_eq_0)
  ultimately show ?thesis by (metis add_diff_cancel_left' diff_0 diff_minus_eq_add)
qed

lemma unat_add_top:
  "unat ((v :: 'a::len word) + 2 ^ (LENGTH('a) - 1)) =
     (if unat v < 2 ^ (LENGTH('a) - 1) then unat v + 2 ^ (LENGTH('a) - 1) else unat v - 2 ^ (LENGTH('a) - 1))"
proof -
  let ?t = "2 ^ (LENGTH('a) - 1) :: nat"
  have lt: "unat v < 2 * ?t" and two: "2 ^ LENGTH('a) = 2 * ?t"
    using unat_bound [of v] two_power_top [where 'a = 'a] by linarith+
  have "unat (2 ^ (LENGTH('a) - 1) :: 'a word) = ?t" 
    using unat_of_nat [of ?t, where 'a = 'a] by (simp add: two)
  then have "unat (v + 2 ^ (LENGTH('a) - 1)) = (unat v + ?t) mod (2 * ?t)"
    by (simp add: unat_word_ariths two)
  also have "\<dots> = (if unat v < ?t then unat v + ?t else unat v - ?t)"
  proof (cases "unat v < ?t")
    case False
    then have "unat v + ?t = (unat v - ?t) + 2 * ?t" by simp
    with False lt show ?thesis by (metis mod_add_self2 mod_less less_imp_diff_less)
  qed simp
  finally show ?thesis .
qed

lemma signed_drop_bit_top:
  "signed_drop_bit (LENGTH('a) - 1) (v :: 'a::len word) = (if bit v (LENGTH('a) - 1) then - 1 else 0)"
  by (rule bit_word_eqI) (auto simp: bit_signed_drop_bit_iff bit_simps Suc_le_eq)

lemma unat_xor_top:
  "unat ((v :: 'a::len word) XOR push_bit (LENGTH('a) - 1) 1) =
     (if unat v < 2 ^ (LENGTH('a) - 1) then unat v + 2 ^ (LENGTH('a) - 1) else unat v - 2 ^ (LENGTH('a) - 1))"
  by (simp only: xor_top unat_add_top)

lemma unat_flip_byte: "unat ((b :: byte) XOR 0x80) = (if unat b < 128 then unat b + 128 else unat b - 128)"
  using unat_xor_top [of b] by simp

lemma flip_byte_twice [simp]: "((b :: byte) XOR 0x80) XOR 0x80 = b"
  by (simp add: xor.assoc)

lemma NOT_byte_less: "NOT (x :: byte) < NOT y \<longleftrightarrow> y < x"
  using unat_bound [of x] unat_bound [of y] by (auto simp: word_less_nat_alt unat_NOT)

section \<open>What an encoding of a key part promises\<close>

text \<open>
  The encoded bytes of all values have one length, the value can be read back, and \<^verbatim>\<open>memcmp\<close> on
  the encoded bytes is the order \<open>lt\<close> of the values. The client, a key of several columns, relies
  on nothing else.
\<close>

locale key_part_codec =
  fixes n m :: nat
    and enc dec :: "byte list \<Rightarrow> byte list"
    and lt :: "byte list \<Rightarrow> byte list \<Rightarrow> bool"
  assumes enc_length: "length x = n \<Longrightarrow> length (enc x) = m"
    and dec_enc: "length x = n \<Longrightarrow> dec (enc x) = x"
    and enc_order: "length x = n \<Longrightarrow> length y = n \<Longrightarrow> memcmp_less (enc x) (enc y) \<longleftrightarrow> lt x y"
begin

lemma enc_inject: "length x = n \<Longrightarrow> length y = n \<Longrightarrow> enc x = enc y \<longleftrightarrow> x = y"
  by (metis dec_enc)

lemma enc_append_order:
  "length x = n \<Longrightarrow> length y = n \<Longrightarrow>
     memcmp_less (enc x @ u) (enc y @ v) \<longleftrightarrow> lt x y \<or> x = y \<and> memcmp_less u v"
  by (simp add: memcmp_less_append enc_length enc_order enc_inject)

lemma less_irrefl: "length x = n \<Longrightarrow> \<not> lt x x"
  using memcmp_less_be_val [of "enc x" "enc x"] enc_order [of x x] by simp

lemma less_trans:
  "length x = n \<Longrightarrow> length y = n \<Longrightarrow> length z = n \<Longrightarrow> lt x y \<Longrightarrow> lt y z \<Longrightarrow> lt x z"
  using enc_order [of x y] enc_order [of y z] enc_order [of x z]
  by (simp add: memcmp_less_be_val enc_length)

lemma less_total: "length x = n \<Longrightarrow> length y = n \<Longrightarrow> x \<noteq> y \<Longrightarrow> lt x y \<or> lt y x"
  using enc_order [of x y] enc_order [of y x] enc_inject [of x y]
    le_val_inject [of "rev (enc x)" "rev (enc y)"]
  by (auto simp: memcmp_less_be_val enc_length be_val_def)

end

text \<open>Complementing every byte turns the order around, which is how a descending column is encoded.\<close>

lemma memcmp_less_reverse_bits:
  "length xs = length ys \<Longrightarrow> memcmp_less (reverse_bits xs) (reverse_bits ys) \<longleftrightarrow> memcmp_less ys xs"
  by (induction xs ys rule: list_induct2) (auto simp: reverse_bits_def NOT_byte_less)

lemma length_reverse_bits [simp, buf_simps]: "length (reverse_bits bs) = length bs"
  by (simp add: reverse_bits_def)

lemma reverse_bits_twice [simp]: "reverse_bits (reverse_bits bs) = bs"
  by (simp add: reverse_bits_def map_idI)

lemma descending_codec:
  assumes "key_part_codec n m enc dec lt"
  shows "key_part_codec n m (\<lambda>x. if desc then reverse_bits (enc x) else enc x)
     (\<lambda>k. dec (if desc then reverse_bits k else k)) (\<lambda>x y. if desc then lt y x else lt x y)"
proof -
  from assms have a: "length x = n \<Longrightarrow> length (enc x) = m" "length x = n \<Longrightarrow> dec (enc x) = x"
    "length x = n \<Longrightarrow> length y = n \<Longrightarrow> memcmp_less (enc x) (enc y) \<longleftrightarrow> lt x y" for x y
    by (simp_all add: key_part_codec_def)
  show ?thesis by unfold_locales (simp_all add: a memcmp_less_reverse_bits)
qed

section \<open>Integers\<close>

text \<open>The value of MySQL's little-endian integer.\<close>

definition mysql_int :: "bool \<Rightarrow> byte list \<Rightarrow> int" where
  "mysql_int is_signed bs =
     (if is_signed \<and> 128 * 256 ^ (length bs - 1) \<le> le_val bs
      then int (le_val bs) - 256 ^ length bs else int (le_val bs))"

lemma flip_sign_twice [simp]: "flip_sign (flip_sign bs) = bs"
  by (cases bs) (simp_all add: flip_sign_def)

lemma length_flip_sign [simp]: "length (flip_sign bs) = length bs"
  by (cases bs) (simp_all add: flip_sign_def)

lemma be_val_flip_sign:
  assumes "bs \<noteq> []"
  shows "int (be_val (flip_sign (rev bs))) = mysql_int True bs + 128 * 256 ^ (length bs - 1)"
proof -
  obtain b r where br: "rev bs = b # r" using assms by (cases "rev bs") auto
  have len: "length bs = Suc (length r)" by (metis br length_Cons length_rev)
  let ?B = "256 ^ length r :: nat"
  have le: "le_val bs = unat b * ?B + be_val r"
    by (metis be_val_Cons be_val_def br rev_rev_ident)
  have lt: "be_val r < ?B" by (rule be_val_less)
  have sign: "128 * ?B \<le> le_val bs \<longleftrightarrow> 128 \<le> unat b"
  proof (cases "128 \<le> unat b")
    case True
    then have "128 * ?B \<le> unat b * ?B + be_val r" by (intro trans_le_add1 mult_le_mono1)
    with True show ?thesis by (simp only: le)
  next
    case False
    then have "(unat b + 1) * ?B \<le> 128 * ?B" by (intro mult_le_mono1) simp
    then have "unat b * ?B + be_val r < 128 * ?B" using lt unfolding add_mult_distrib by linarith
    with False show ?thesis unfolding le by linarith
  qed
  have fl: "be_val (flip_sign (rev bs)) =
      (if unat b < 128 then unat b + 128 else unat b - 128) * ?B + be_val r"
    by (simp add: br flip_sign_def be_val_Cons unat_flip_byte)
  show ?thesis
  proof (cases "128 \<le> unat b")
    case True
    then obtain c where c: "unat b = 128 + c" by (metis le_iff_add)
    have "mysql_int True bs = int (le_val bs) - 256 * int ?B"
      using True sign by (simp add: mysql_int_def len)
    moreover have "be_val (flip_sign (rev bs)) = c * ?B + be_val r" by (simp add: fl c)
    ultimately show ?thesis by (simp add: len le c algebra_simps)
  next
    case False
    with sign show ?thesis by (simp add: fl mysql_int_def len le algebra_simps)
  qed
qed

lemma number_codec:
  "key_part_codec (Suc k) (Suc k) (\<lambda>x. if sg then flip_sign (rev x) else rev x)
     (\<lambda>x. rev (if sg then flip_sign x else x)) (\<lambda>x y. mysql_int sg x < mysql_int sg y)"
proof unfold_locales
  fix x y :: "byte list"
  assume l: "length x = Suc k" "length y = Suc k"
  then have "x \<noteq> []" "y \<noteq> []" by auto
  with l have "memcmp_less (flip_sign (rev x)) (flip_sign (rev y)) \<longleftrightarrow> mysql_int True x < mysql_int True y"
    using be_val_flip_sign [of x] be_val_flip_sign [of y]
      of_nat_less_iff [of "be_val (flip_sign (rev x))" "be_val (flip_sign (rev y))", where 'a = int]
    by (simp add: memcmp_less_be_val)
  moreover have "memcmp_less (rev x) (rev y) \<longleftrightarrow> mysql_int False x < mysql_int False y"
    using l by (simp add: memcmp_less_be_val be_val_def mysql_int_def)
  ultimately show "memcmp_less (if sg then flip_sign (rev x) else rev x) (if sg then flip_sign (rev y) else rev y)
      \<longleftrightarrow> mysql_int sg x < mysql_int sg y" by simp
qed auto

definition number_less :: "bool \<Rightarrow> bool \<Rightarrow> byte list \<Rightarrow> byte list \<Rightarrow> bool" where
  "number_less is_reverse_sort is_signed x y \<longleftrightarrow>
     (if is_reverse_sort then mysql_int is_signed y < mysql_int is_signed x
      else mysql_int is_signed x < mysql_int is_signed y)"

lemma encode_number_eq:
  "encode_number desc sg = (\<lambda>x. if desc then reverse_bits (if sg then flip_sign (rev x) else rev x)
     else (if sg then flip_sign (rev x) else rev x))"
  "decode_number desc sg = (\<lambda>k. rev (if sg then flip_sign (if desc then reverse_bits k else k)
     else (if desc then reverse_bits k else k)))"
  "number_less desc sg = (\<lambda>x y. if desc then mysql_int sg y < mysql_int sg x else mysql_int sg x < mysql_int sg y)"
  by (simp_all add: fun_eq_iff encode_number_def decode_number_def number_less_def Let_def
      mrn_byte_order_host_to_network_def mrn_byte_order_network_to_host_def)

interpretation number: key_part_codec "Suc k" "Suc k" "encode_number desc sg" "decode_number desc sg"
  "number_less desc sg" for k desc sg
  unfolding encode_number_eq by (rule descending_codec [OF number_codec])

section \<open>Long integers\<close>

text \<open>The codec of a 64-bit integer works on its little-endian bytes, as \<^verbatim>\<open>sint8korr\<close> reads and
  \<^verbatim>\<open>int8store\<close> writes them.\<close>

definition encode_long_long_bytes :: "bool \<Rightarrow> byte list \<Rightarrow> byte list" where
  "encode_long_long_bytes is_reverse_sort x = encode_long_long_int is_reverse_sort (value_decode_longlong x)"

definition decode_long_long_bytes :: "bool \<Rightarrow> byte list \<Rightarrow> byte list" where
  "decode_long_long_bytes is_reverse_sort k = le_bytes 8 (unat (decode_long_long_int is_reverse_sort k))"

lemma encode_long_long_bytes_number:
  "length x = 8 \<Longrightarrow> encode_long_long_bytes desc x = encode_number desc True x"
  by (simp add: encode_long_long_bytes_def encode_long_long_int_def encode_number_def value_decode_longlong_def
      unat_of_le_val [of _ 8] le_bytes_le_val Let_def)

lemma decode_long_long_bytes_number:
  "length k = 8 \<Longrightarrow> decode_long_long_bytes desc k = decode_number desc True k"
  by (simp add: decode_long_long_bytes_def decode_long_long_int_def decode_number_def
      mrn_byte_order_network_to_host_def unat_of_le_val [of _ 8] le_bytes_le_val Let_def)

interpretation long_long: key_part_codec 8 8 "encode_long_long_bytes desc" "decode_long_long_bytes desc"
  "number_less desc True" for desc
  using number.enc_length [of _ 7 desc True] number.dec_enc [of _ 7 desc True] number.enc_order [of _ 7 _ desc True]
  by unfold_locales (simp_all add: encode_long_long_bytes_number decode_long_long_bytes_number)

lemma decode_encode_long_long [simp]:
  "decode_long_long_int desc (encode_long_long_int desc v) = v"
  by (simp add: decode_long_long_int_def encode_long_long_int_def Let_def mrn_byte_order_network_to_host_def
      mrn_byte_order_host_to_network_def word_of_le_bytes)

lemma length_encode_long_long [simp]: "length (encode_long_long_int desc v) = 8"
  by (simp add: encode_long_long_int_def Let_def mrn_byte_order_host_to_network_def)

section \<open>Floating point numbers\<close>

lemma float_to_key_cases:
  "float_to_key (v :: 'a::len word) =
     (if bit v (LENGTH('a) - 1) then NOT v else v XOR push_bit (LENGTH('a) - 1) 1)"
  by (simp add: float_to_key_def signed_drop_bit_top Let_def del: One_nat_def)

lemma unat_float_to_key:
  "unat (float_to_key (v :: 'a::len word)) =
     (if 2 ^ (LENGTH('a) - 1) \<le> unat v then 2 ^ LENGTH('a) - 1 - unat v else unat v + 2 ^ (LENGTH('a) - 1))"
  using bit_top_iff [of v] unat_xor_top [of v] by (simp add: float_to_key_cases unat_NOT del: One_nat_def)

lemma key_to_float_to_key [simp]: "key_to_float (float_to_key (v :: 'a::len word)) = v"
proof -
  have kf: "key_to_float w = (if bit w (LENGTH('a) - 1) then w XOR push_bit (LENGTH('a) - 1) 1 else NOT w)"
    for w :: "'a word"
    by (simp add: key_to_float_def signed_drop_bit_top Let_def bit_simps del: One_nat_def)
  show ?thesis
    by (cases "bit v (LENGTH('a) - 1)") (simp_all add: kf float_to_key_cases bit_simps xor.assoc del: One_nat_def)
qed

text \<open>
  The value of a bit pattern with \<open>p\<close> fraction bits, in units of the smallest positive number:
  subnormal numbers have exponent 0. An infinity is larger than every number.
\<close>

definition ieee_magnitude :: "nat \<Rightarrow> nat \<Rightarrow> nat" where
  "ieee_magnitude p k = (let e = k div 2 ^ p; f = k mod 2 ^ p in if e = 0 then f else (2 ^ p + f) * 2 ^ (e - 1))"

definition ieee_value :: "nat \<Rightarrow> 'a::len word \<Rightarrow> int" where
  "ieee_value p v = (let t = 2 ^ (LENGTH('a) - 1); u = unat v in
     if t \<le> u then - int (ieee_magnitude p (u - t)) else int (ieee_magnitude p u))"

text \<open>Numeric order, with negative zero below positive zero.\<close>

definition ieee_less :: "nat \<Rightarrow> 'a::len word \<Rightarrow> 'a word \<Rightarrow> bool" where
  "ieee_less p x y \<longleftrightarrow> ieee_value p x < ieee_value p y \<or>
     ieee_value p x = ieee_value p y \<and> 2 ^ (LENGTH('a) - 1) \<le> unat x \<and> unat y < 2 ^ (LENGTH('a) - 1)"

lemma ieee_magnitude_less:
  assumes "j < k"
  shows "ieee_magnitude p j < ieee_magnitude p k"
proof -
  let ?P = "2 ^ p :: nat"
  have fj: "j mod ?P < ?P" by simp
  have jk: "j = j div ?P * ?P + j mod ?P" "k = k div ?P * ?P + k mod ?P"
    by (simp_all only: div_mult_mod_eq)
  have le: "j div ?P \<le> k div ?P" using assms by (simp add: div_le_mono)
  show ?thesis
  proof (cases "j div ?P = k div ?P")
    case True
    with assms jk have "j mod ?P < k mod ?P" by (metis nat_add_left_cancel_less)
    with True show ?thesis by (simp add: ieee_magnitude_def Let_def)
  next
    case False
    with le obtain d where d: "k div ?P = j div ?P + Suc d" by (metis less_imp_Suc_add nat_less_le add_Suc_right)
    have "ieee_magnitude p j < ?P * 2 ^ (j div ?P)"
    proof (cases "j div ?P")
      case (Suc e)
      with fj have "(?P + j mod ?P) * 2 ^ e < (2 * ?P) * 2 ^ e" by simp
      with Suc show ?thesis by (simp add: ieee_magnitude_def Let_def)
    qed (use fj in \<open>simp add: ieee_magnitude_def Let_def\<close>)
    also have "\<dots> \<le> ?P * 2 ^ (j div ?P + d)" by simp
    also have "\<dots> \<le> ieee_magnitude p k" by (simp add: ieee_magnitude_def Let_def d)
    finally show ?thesis .
  qed
qed

lemma ieee_magnitude_less_iff: "ieee_magnitude p j < ieee_magnitude p k \<longleftrightarrow> j < k"
  by (metis ieee_magnitude_less linorder_neqE_nat not_less_iff_gr_or_eq)

lemma ieee_magnitude_eq_iff: "ieee_magnitude p j = ieee_magnitude p k \<longleftrightarrow> j = k"
  by (metis ieee_magnitude_less linorder_neqE_nat less_irrefl)

lemma ieee_magnitude_0 [simp]: "ieee_magnitude p 0 = 0"
  by (simp add: ieee_magnitude_def)

lemma float_to_key_order:
  "unat (float_to_key (x :: 'a::len word)) < unat (float_to_key y) \<longleftrightarrow> ieee_less p x y"
proof -
  let ?t = "2 ^ (LENGTH('a) - 1) :: nat"
  have b: "unat x < 2 * ?t" "unat y < 2 * ?t" and two: "2 ^ LENGTH('a) = 2 * ?t"
    using unat_bound [of x] unat_bound [of y] two_power_top [where 'a = 'a] by linarith+
  have mirror: "2 * t - 1 - (t + i) < 2 * t - 1 - (t + j) \<longleftrightarrow> j < i" if "i < t" "j < t" for i j t :: nat
    using that by linarith
  have z: "ieee_magnitude p k = 0 \<longleftrightarrow> k = 0" for k
    using ieee_magnitude_eq_iff [of p k 0] by simp
  consider "?t \<le> unat x" "?t \<le> unat y" | "?t \<le> unat x" "unat y < ?t" | "unat x < ?t" "?t \<le> unat y"
    | "unat x < ?t" "unat y < ?t" by linarith
  then show ?thesis
  proof cases
    case 1
    then obtain i j where ij: "unat x = ?t + i" "unat y = ?t + j" by (metis le_iff_add)
    with b have "i < ?t" "j < ?t" by simp_all
    then have "2 * ?t - 1 - unat x < 2 * ?t - 1 - unat y \<longleftrightarrow> j < i" unfolding ij by (rule mirror)
    moreover have "ieee_less p x y \<longleftrightarrow> j < i"
      using ij by (simp add: ieee_less_def ieee_value_def Let_def ieee_magnitude_less_iff)
    ultimately show ?thesis using 1 by (simp add: unat_float_to_key two)
  next
    case 2
    then have "unat (float_to_key x) < unat (float_to_key y)"
      by (simp add: unat_float_to_key two)
    moreover have "ieee_less p x y" using 2 unfolding ieee_less_def ieee_value_def Let_def by simp linarith
    ultimately show ?thesis by simp
  next
    case 3
    then have "\<not> unat (float_to_key x) < unat (float_to_key y)"
      by (simp add: unat_float_to_key two)
    moreover have "\<not> ieee_less p x y" using 3 unfolding ieee_less_def ieee_value_def Let_def by simp
    ultimately show ?thesis by simp
  next
    case 4
    then show ?thesis
      by (auto simp: unat_float_to_key ieee_less_def ieee_value_def Let_def ieee_magnitude_less_iff)
  qed
qed

text \<open>The two floating point codecs are one construction at two widths.\<close>

lemma float_codec:
  assumes "LENGTH('a::len) = 8 * n"
  shows "key_part_codec n n
    (\<lambda>x. rev (le_bytes n (unat (float_to_key (of_nat (le_val x) :: 'a word)))))
    (\<lambda>k. le_bytes n (unat (key_to_float (of_nat (le_val (rev k)) :: 'a word))))
    (\<lambda>x y. ieee_less p (of_nat (le_val x) :: 'a word) (of_nat (le_val y)))"
proof unfold_locales
  fix x :: "byte list"
  assume "length x = n"
  then show "le_bytes n (unat (key_to_float
      (of_nat (le_val (rev (rev (le_bytes n (unat (float_to_key (of_nat (le_val x) :: 'a word))))))) :: 'a word))) = x"
    by (simp add: word_of_le_bytes [OF assms] unat_of_le_val [OF _ assms] le_bytes_le_val)
next
  fix x y :: "byte list"
  have p: "(2 :: nat) ^ LENGTH('a) = 256 ^ n" by (simp add: assms power_mult)
  have "be_val (rev (le_bytes n (unat w))) = unat w" for w :: "'a word"
    using unat_bound [of w] p by (simp add: be_val_def le_val_le_bytes)
  then show "memcmp_less (rev (le_bytes n (unat (float_to_key (of_nat (le_val x) :: 'a word)))))
      (rev (le_bytes n (unat (float_to_key (of_nat (le_val y) :: 'a word)))))
    \<longleftrightarrow> ieee_less p (of_nat (le_val x) :: 'a word) (of_nat (le_val y))"
    by (simp add: memcmp_less_be_val float_to_key_order [of _ _ p])
qed simp

definition encode_float_bytes :: "bool \<Rightarrow> byte list \<Rightarrow> byte list" where
  "encode_float_bytes is_reverse_sort x = encode_float is_reverse_sort (value_decode_float x)"

definition encode_double_bytes :: "bool \<Rightarrow> byte list \<Rightarrow> byte list" where
  "encode_double_bytes is_reverse_sort x = encode_double is_reverse_sort (value_decode_double x)"

definition float_less :: "bool \<Rightarrow> byte list \<Rightarrow> byte list \<Rightarrow> bool" where
  "float_less is_reverse_sort x y \<longleftrightarrow> (if is_reverse_sort then ieee_less 23 (value_decode_float y) (value_decode_float x)
     else ieee_less 23 (value_decode_float x) (value_decode_float y))"

definition double_less :: "bool \<Rightarrow> byte list \<Rightarrow> byte list \<Rightarrow> bool" where
  "double_less is_reverse_sort x y \<longleftrightarrow> (if is_reverse_sort then ieee_less 52 (value_decode_double y) (value_decode_double x)
     else ieee_less 52 (value_decode_double x) (value_decode_double y))"

lemma codec_cong:
  assumes "key_part_codec n m enc dec lt"
    and "\<And>x. length x = n \<Longrightarrow> enc' x = enc x" and "\<And>k. length k = m \<Longrightarrow> dec' k = dec k"
    and "\<And>x y. length x = n \<Longrightarrow> length y = n \<Longrightarrow> lt' x y = lt x y"
  shows "key_part_codec n m enc' dec' lt'"
  using assms by (simp add: key_part_codec_def)

interpretation float: key_part_codec 4 4 "encode_float_bytes desc" "decode_float desc" "float_less desc" for desc
  by (rule codec_cong [OF descending_codec [OF float_codec [where 'a = 32 and p = 23], of 4 desc]])
    (simp_all add: encode_float_bytes_def encode_float_def decode_float_def float_less_def value_decode_float_def
      mrn_byte_order_host_to_network_def mrn_byte_order_network_to_host_def Let_def)

interpretation double: key_part_codec 8 8 "encode_double_bytes desc" "decode_double desc" "double_less desc" for desc
  by (rule codec_cong [OF descending_codec [OF float_codec [where 'a = 64 and p = 52], of 8 desc]])
    (simp_all add: encode_double_bytes_def encode_double_def decode_double_def double_less_def value_decode_double_def
      mrn_byte_order_host_to_network_def mrn_byte_order_network_to_host_def Let_def)

section \<open>Byte sequences and texts\<close>

interpretation seq: key_part_codec n n encode_sequence decode_sequence memcmp_less for n
  by unfold_locales (simp_all add: encode_sequence_def decode_sequence_def)

lemma encode_reverse_rev: "encode_reverse = rev" "decode_reverse = rev"
  by (auto simp: fun_eq_iff encode_reverse_def decode_reverse_def rev_nth intro!: nth_equalityI)

interpretation rev_bytes: key_part_codec n n encode_reverse decode_reverse "\<lambda>x y. le_val x < le_val y" for n
  by unfold_locales (simp_all add: encode_reverse_rev memcmp_less_be_val be_val_def)

text \<open>A text that is not normalized: the padded data first, its two length bytes last.\<close>

definition HA_KEY_BLOB_LENGTH :: nat where
  "HA_KEY_BLOB_LENGTH = 2"

definition encode_plain_blob :: "byte list \<Rightarrow> byte list" where
  "encode_plain_blob x = drop HA_KEY_BLOB_LENGTH x @ take HA_KEY_BLOB_LENGTH x"

definition decode_blob :: "nat \<Rightarrow> byte list \<Rightarrow> byte list" where
  "decode_blob data_size k = take HA_KEY_BLOB_LENGTH (drop data_size k) @ take data_size k"

definition blob_less :: "byte list \<Rightarrow> byte list \<Rightarrow> bool" where
  "blob_less x y \<longleftrightarrow> memcmp_less (drop HA_KEY_BLOB_LENGTH x) (drop HA_KEY_BLOB_LENGTH y)
     \<or> drop HA_KEY_BLOB_LENGTH x = drop HA_KEY_BLOB_LENGTH y
       \<and> memcmp_less (take HA_KEY_BLOB_LENGTH x) (take HA_KEY_BLOB_LENGTH y)"

interpretation blob: key_part_codec "n + 2" "n + 2" encode_plain_blob "decode_blob n" blob_less for n
  by unfold_locales (auto simp: encode_plain_blob_def decode_blob_def blob_less_def HA_KEY_BLOB_LENGTH_def
      memcmp_less_append)

end
