(* ===== verification/Key_Codec.thy ===== *)
theory Key_Codec
  imports Key_Parts Time_Converter Field_Normalizer
begin

text \<open>
  The codec of multiple column keys (\<^verbatim>\<open>mrn::MultipleColumnKeyCodec\<close>,
  \<^verbatim>\<open>lib/mrn_multiple_column_key_codec.cpp\<close>) and the encoding of key ranges in the storage mode
  (\<^verbatim>\<open>ha_mroonga.cpp\<close>). The caller's buffers are lists of bytes; a read or write outside of them is
  \<^const>\<open>None\<close>. MySQL's conversion of a binary \<^verbatim>\<open>DATETIME\<close> and the text a Groonga normalizer gives
  back are parameters.
\<close>

section \<open>Model\<close>

datatype data_type =
    TYPE_UNKNOWN | TYPE_LONG_LONG_NUMBER | TYPE_NUMBER | TYPE_FLOAT | TYPE_DOUBLE | TYPE_DATETIME
  | TYPE_DATETIME2 | TYPE_BYTE_SEQUENCE | TYPE_BYTE_REVERSE | TYPE_BYTE_BLOB

record key_part =
  kp_field :: mysql_field
  kp_length :: nat
  kp_reverse_sort :: bool

record codec_env =
  ce_time :: time_env
  datetime2_from_binary :: "byte list \<Rightarrow> nat \<Rightarrow> mysql_time"
  datetime2_to_binary :: "mysql_time \<Rightarrow> nat \<Rightarrow> byte list"
  uninitialized_time :: mysql_time
  ce_normalized :: "mysql_field \<Rightarrow> byte list \<Rightarrow> byte list"

datatype codec_error = HA_ERR_UNSUPPORTED

definition get_key_info :: "key_part \<Rightarrow> data_type \<times> nat" where
  "get_key_info kp = (case real_type (kp_field kp) of
      MYSQL_TYPE_DECIMAL \<Rightarrow> (TYPE_BYTE_SEQUENCE, kp_length kp)
    | MYSQL_TYPE_TINY \<Rightarrow> (TYPE_NUMBER, 1)
    | MYSQL_TYPE_YEAR \<Rightarrow> (TYPE_NUMBER, 1)
    | MYSQL_TYPE_SHORT \<Rightarrow> (TYPE_NUMBER, 2)
    | MYSQL_TYPE_LONG \<Rightarrow> (TYPE_NUMBER, 4)
    | MYSQL_TYPE_FLOAT \<Rightarrow> (TYPE_FLOAT, 4)
    | MYSQL_TYPE_DOUBLE \<Rightarrow> (TYPE_DOUBLE, 8)
    | MYSQL_TYPE_NULL \<Rightarrow> (TYPE_NUMBER, 1)
    | MYSQL_TYPE_TIMESTAMP \<Rightarrow> (TYPE_BYTE_REVERSE, kp_length kp)
    | MYSQL_TYPE_DATE \<Rightarrow> (TYPE_BYTE_REVERSE, kp_length kp)
    | MYSQL_TYPE_DATETIME \<Rightarrow> (TYPE_DATETIME, kp_length kp)
    | MYSQL_TYPE_NEWDATE \<Rightarrow> (TYPE_BYTE_REVERSE, kp_length kp)
    | MYSQL_TYPE_LONGLONG \<Rightarrow> (TYPE_NUMBER, 8)
    | MYSQL_TYPE_INT24 \<Rightarrow> (TYPE_NUMBER, 3)
    | MYSQL_TYPE_TIME \<Rightarrow> (TYPE_NUMBER, 3)
    | MYSQL_TYPE_VARCHAR \<Rightarrow> (TYPE_BYTE_BLOB, kp_length kp)
    | MYSQL_TYPE_VARCHAR_COMPRESSED \<Rightarrow> (TYPE_BYTE_BLOB, kp_length kp)
    | MYSQL_TYPE_BIT \<Rightarrow> (TYPE_NUMBER, 1)
    | MYSQL_TYPE_TIMESTAMP2 \<Rightarrow> (TYPE_BYTE_SEQUENCE, kp_length kp)
    | MYSQL_TYPE_DATETIME2 \<Rightarrow> (TYPE_DATETIME2, kp_length kp)
    | MYSQL_TYPE_TIME2 \<Rightarrow> (TYPE_BYTE_SEQUENCE, kp_length kp)
    | MYSQL_TYPE_NEWDECIMAL \<Rightarrow> (TYPE_BYTE_SEQUENCE, kp_length kp)
    | MYSQL_TYPE_ENUM \<Rightarrow> (TYPE_NUMBER, 1)
    | MYSQL_TYPE_SET \<Rightarrow> (TYPE_NUMBER, 1)
    | MYSQL_TYPE_TINY_BLOB \<Rightarrow> (TYPE_BYTE_BLOB, kp_length kp)
    | MYSQL_TYPE_MEDIUM_BLOB \<Rightarrow> (TYPE_BYTE_BLOB, kp_length kp)
    | MYSQL_TYPE_LONG_BLOB \<Rightarrow> (TYPE_BYTE_BLOB, kp_length kp)
    | MYSQL_TYPE_BLOB \<Rightarrow> (TYPE_BYTE_BLOB, kp_length kp)
    | MYSQL_TYPE_BLOB_COMPRESSED \<Rightarrow> (TYPE_BYTE_BLOB, kp_length kp)
    | MYSQL_TYPE_VAR_STRING \<Rightarrow> (TYPE_BYTE_SEQUENCE, kp_length kp)
    | MYSQL_TYPE_STRING \<Rightarrow> (TYPE_BYTE_SEQUENCE, kp_length kp)
    | MYSQL_TYPE_GEOMETRY \<Rightarrow> (TYPE_BYTE_SEQUENCE, kp_length kp)
    | MYSQL_TYPE_JSON \<Rightarrow> (TYPE_BYTE_SEQUENCE, kp_length kp))"

text \<open>\<^verbatim>\<open>size\<close>: the number of bytes of an encoded key.\<close>

definition part_grn_size :: "key_part \<Rightarrow> nat" where
  "part_grn_size kp =
     (let (data_type, data_size) = get_key_info kp in
      (if null_bit (kp_field kp) then 1 else 0) +
      (case data_type of TYPE_DATETIME2 \<Rightarrow> 8 | TYPE_BYTE_BLOB \<Rightarrow> data_size + HA_KEY_BLOB_LENGTH
       | _ \<Rightarrow> data_size))"

definition codec_size :: "key_part list \<Rightarrow> nat" where
  "codec_size key_parts = sum_list (map part_grn_size key_parts)"

text \<open>The writes of one part, as offsets from \<^verbatim>\<open>current_grn_key\<close> and bytes, in the order of the
  code.\<close>

type_synonym writes = "(nat \<times> byte list) list"

primrec write_all :: "byte list \<Rightarrow> nat \<Rightarrow> writes \<Rightarrow> byte list option" where
  "write_all buf base [] = Some buf"
| "write_all buf base (w # ws) =
     (case write_at buf (base + fst w) (snd w) of None \<Rightarrow> None | Some buf' \<Rightarrow> write_all buf' base ws)"

text \<open>\<^verbatim>\<open>encode_blob\<close> at the position \<open>pos\<close> of the MySQL key.\<close>

definition encode_blob ::
    "codec_env \<Rightarrow> mysql_field \<Rightarrow> nat \<Rightarrow> byte list \<Rightarrow> nat \<Rightarrow> writes option" where
  "encode_blob env f data_size mysql_key pos =
     (if should_normalize f then
        (case read_at mysql_key pos HA_KEY_BLOB_LENGTH of
           None \<Rightarrow> None
         | Some len_bytes \<Rightarrow>
             (let blob_data_length = unat (value_decode_ushort len_bytes) in
              case read_at mysql_key (pos + HA_KEY_BLOB_LENGTH) blob_data_length of
                None \<Rightarrow> None
              | Some blob_data \<Rightarrow>
                  (let normalized = ce_normalized env f blob_data;
                       normalized_length = length normalized in
                   if normalized_length \<le> 65535 then
                     Some ((if 0 < normalized_length then [(0, normalized)] else [])
                       @ (if normalized_length < data_size
                          then [(normalized_length, replicate (data_size - normalized_length) 0)] else [])
                       @ [(data_size, le_bytes 2 normalized_length)])
                   else
                     Some [(0, take blob_data_length normalized), (data_size, le_bytes 2 blob_data_length)])))
      else
        (case (read_at mysql_key pos HA_KEY_BLOB_LENGTH, read_at mysql_key (pos + HA_KEY_BLOB_LENGTH) data_size) of
           (Some len_bytes, Some data) \<Rightarrow> Some [(data_size, len_bytes), (0, data)]
         | _ \<Rightarrow> None))"

definition long_long_of_int :: "int \<Rightarrow> 64 word" where
  "long_long_of_int i = word_of_int i"

text \<open>One turn of the loop of \<^verbatim>\<open>encode\<close> after the null byte: \<open>Inl\<close> is the error that ends the loop,
  \<open>Inr\<close> the advance in the MySQL key, the advance in the Groonga key and the writes.\<close>

definition encode_part ::
    "codec_env \<Rightarrow> key_part \<Rightarrow> bool \<Rightarrow> byte list \<Rightarrow> nat \<Rightarrow> (codec_error + nat \<times> nat \<times> writes) option" where
  "encode_part env kp is_null mysql_key pos =
     (let (data_type, data_size) = get_key_info kp;
          f = kp_field kp;
          desc = kp_reverse_sort kp;
          bytes = (\<lambda>n k. case read_at mysql_key pos n of
             None \<Rightarrow> None | Some x \<Rightarrow> Some (Inr (data_size, data_size, [(0, k x)])))
      in case data_type of
        TYPE_UNKNOWN \<Rightarrow> Some (Inl HA_ERR_UNSUPPORTED)
      | TYPE_LONG_LONG_NUMBER \<Rightarrow> bytes 8 (encode_long_long_bytes desc)
      | TYPE_NUMBER \<Rightarrow> bytes data_size (encode_number desc (\<not> unsigned_flag f))
      | TYPE_FLOAT \<Rightarrow> bytes 4 (encode_float_bytes desc)
      | TYPE_DOUBLE \<Rightarrow> bytes 8 (encode_double_bytes desc)
      | TYPE_DATETIME \<Rightarrow>
          if is_null then Some (Inr (data_size, data_size, [(0, encode_long_long_int desc 0)]))
          else bytes 8 (\<lambda>x. encode_long_long_int desc (long_long_of_int
                 (fst (mysql_datetime_to_grn_time (ce_time env) (sint (value_decode_longlong x))))))
      | TYPE_DATETIME2 \<Rightarrow>
          if is_null then Some (Inr (data_size, 8, [(0, encode_long_long_int desc 0)]))
          else (case read_at mysql_key pos data_size of
             None \<Rightarrow> None
           | Some x \<Rightarrow> Some (Inr (data_size, 8, [(0, encode_long_long_int desc (long_long_of_int
               (fst (mysql_time_to_grn_time (ce_time env) (datetime2_from_binary env x (field_decimals f))))))])))
      | TYPE_BYTE_SEQUENCE \<Rightarrow> bytes data_size encode_sequence
      | TYPE_BYTE_REVERSE \<Rightarrow> bytes data_size encode_reverse
      | TYPE_BYTE_BLOB \<Rightarrow>
          (case encode_blob env f data_size mysql_key pos of
             None \<Rightarrow> None
           | Some ws \<Rightarrow> Some (Inr (data_size + HA_KEY_BLOB_LENGTH, data_size + HA_KEY_BLOB_LENGTH, ws))))"

text \<open>The loop of \<^verbatim>\<open>encode\<close>: the error, the written buffer and \<^verbatim>\<open>*grn_key_length\<close>.\<close>

fun encode_parts ::
    "codec_env \<Rightarrow> key_part list \<Rightarrow> byte list \<Rightarrow> nat \<Rightarrow> nat \<Rightarrow> byte list \<Rightarrow> nat
     \<Rightarrow> (codec_error option \<times> byte list \<times> nat) option" where
  "encode_parts env [] mysql_key end pos buf gpos = Some (None, buf, gpos)"
| "encode_parts env (kp # kps) mysql_key end pos buf gpos =
     (if \<not> pos < end then Some (None, buf, gpos)
      else
        (let null = null_bit (kp_field kp) in
         case (if null then write_at buf gpos [0] else Some buf,
               if null then read_at mysql_key pos 1 else Some [0]) of
           (Some buf0, Some null_byte) \<Rightarrow>
             (let pos = (if null then pos + 1 else pos);
                  gpos = (if null then gpos + 1 else gpos) in
              case encode_part env kp (null \<and> null_byte \<noteq> [0]) mysql_key pos of
                None \<Rightarrow> None
              | Some (Inl error) \<Rightarrow> Some (Some error, buf0, gpos)
              | Some (Inr (n, m, ws)) \<Rightarrow>
                  (case write_all buf0 gpos ws of
                     None \<Rightarrow> None
                   | Some buf1 \<Rightarrow> encode_parts env kps mysql_key end (pos + n) buf1 (gpos + m)))
         | _ \<Rightarrow> None))"

definition codec_encode ::
    "codec_env \<Rightarrow> key_part list \<Rightarrow> byte list \<Rightarrow> nat \<Rightarrow> byte list \<Rightarrow> (codec_error option \<times> byte list \<times> nat) option" where
  "codec_encode env key_parts mysql_key mysql_key_length grn_key =
     encode_parts env key_parts mysql_key mysql_key_length 0 grn_key 0"

text \<open>One turn of the loop of \<^verbatim>\<open>decode\<close> after the null byte: the advances and the bytes that are
  written to the MySQL key.\<close>

definition decode_part ::
    "codec_env \<Rightarrow> key_part \<Rightarrow> byte list \<Rightarrow> nat \<Rightarrow> (codec_error + nat \<times> nat \<times> byte list) option" where
  "decode_part env kp grn_key gpos =
     (let (data_type, data_size) = get_key_info kp;
          f = kp_field kp;
          desc = kp_reverse_sort kp;
          bytes = (\<lambda>n k. case read_at grn_key gpos n of
             None \<Rightarrow> None | Some x \<Rightarrow> Some (Inr (data_size, data_size, k x)))
      in case data_type of
        TYPE_UNKNOWN \<Rightarrow> Some (Inl HA_ERR_UNSUPPORTED)
      | TYPE_LONG_LONG_NUMBER \<Rightarrow> bytes 8 (decode_long_long_bytes desc)
      | TYPE_NUMBER \<Rightarrow> bytes data_size (decode_number desc (\<not> unsigned_flag f))
      | TYPE_FLOAT \<Rightarrow> bytes 4 (decode_float desc)
      | TYPE_DOUBLE \<Rightarrow> bytes 8 (decode_double desc)
      | TYPE_DATETIME \<Rightarrow>
          (case read_at grn_key gpos 8 of
             None \<Rightarrow> None
           | Some x \<Rightarrow>
               (case grn_time_to_mysql_datetime (ce_time env) (sint (decode_long_long_int desc x))
                       (uninitialized_time env) of
                  None \<Rightarrow> None
                | Some dt \<Rightarrow> Some (Inr (data_size, data_size, le_bytes 8 (unat (long_long_of_int dt))))))
      | TYPE_DATETIME2 \<Rightarrow>
          (case read_at grn_key gpos 8 of
             None \<Rightarrow> None
           | Some x \<Rightarrow>
               (case grn_time_to_mysql_time (ce_time env) (sint (decode_long_long_int desc x))
                       ((uninitialized_time env)\<lparr>neg := False, time_type := MYSQL_TIMESTAMP_DATETIME\<rparr>) of
                  None \<Rightarrow> None
                | Some mt \<Rightarrow> Some (Inr (data_size, 8, datetime2_to_binary env mt (field_decimals f)))))
      | TYPE_BYTE_SEQUENCE \<Rightarrow> bytes data_size decode_sequence
      | TYPE_BYTE_REVERSE \<Rightarrow> bytes data_size decode_reverse
      | TYPE_BYTE_BLOB \<Rightarrow>
          (case read_at grn_key gpos (data_size + HA_KEY_BLOB_LENGTH) of
             None \<Rightarrow> None
           | Some x \<Rightarrow> Some (Inr (data_size + HA_KEY_BLOB_LENGTH, data_size + HA_KEY_BLOB_LENGTH,
               decode_blob data_size x))))"

fun decode_parts ::
    "codec_env \<Rightarrow> key_part list \<Rightarrow> byte list \<Rightarrow> nat \<Rightarrow> nat \<Rightarrow> byte list \<Rightarrow> nat
     \<Rightarrow> (codec_error option \<times> byte list \<times> nat) option" where
  "decode_parts env [] grn_key end gpos buf pos = Some (None, buf, pos)"
| "decode_parts env (kp # kps) grn_key end gpos buf pos =
     (if \<not> gpos < end then Some (None, buf, pos)
      else
        (let null = null_bit (kp_field kp) in
         case (if null then write_at buf pos [0] else Some buf) of
           None \<Rightarrow> None
         | Some buf0 \<Rightarrow>
             (let pos = (if null then pos + 1 else pos);
                  gpos = (if null then gpos + 1 else gpos) in
              case decode_part env kp grn_key gpos of
                None \<Rightarrow> None
              | Some (Inl error) \<Rightarrow> Some (Some error, buf0, pos)
              | Some (Inr (n, m, bs)) \<Rightarrow>
                  (case write_at buf0 pos bs of
                     None \<Rightarrow> None
                   | Some buf1 \<Rightarrow> decode_parts env kps grn_key end (gpos + m) buf1 (pos + n)))))"

definition codec_decode ::
    "codec_env \<Rightarrow> key_part list \<Rightarrow> byte list \<Rightarrow> nat \<Rightarrow> byte list \<Rightarrow> (codec_error option \<times> byte list \<times> nat) option" where
  "codec_decode env key_parts grn_key grn_key_length mysql_key =
     decode_parts env key_parts grn_key grn_key_length 0 mysql_key 0"

text \<open>
  The key range of a scan: the encoded start of the range is padded with zero bytes and the encoded
  end with \<open>0xff\<close> up to the full size of a key. A bound is the MySQL key of the first columns and
  its length; without a bound its buffer is left alone.
\<close>

definition encode_range_bound ::
    "codec_env \<Rightarrow> key_part list \<Rightarrow> byte \<Rightarrow> (byte list \<times> nat) option \<Rightarrow> byte list
     \<Rightarrow> (codec_error option \<times> byte list \<times> nat option) option" where
  "encode_range_bound env key_parts pad bound buffer =
     (case bound of
        None \<Rightarrow> Some (None, buffer, None)
      | Some (key, key_size) \<Rightarrow>
          (case write_at buffer 0 (replicate (codec_size key_parts) pad) of
             None \<Rightarrow> None
           | Some padded \<Rightarrow>
               (case codec_encode env key_parts key key_size padded of
                  None \<Rightarrow> None
                | Some (err, encoded, _) \<Rightarrow> Some (err, encoded, Some (codec_size key_parts)))))"

definition storage_encode_multiple_column_key_range ::
    "codec_env \<Rightarrow> key_part list \<Rightarrow> (byte list \<times> nat) option \<Rightarrow> (byte list \<times> nat) option \<Rightarrow> byte list \<Rightarrow> byte list
     \<Rightarrow> (codec_error option \<times> (byte list \<times> nat option) \<times> (byte list \<times> nat option)) option" where
  "storage_encode_multiple_column_key_range env key_parts start end min_buffer max_buffer =
     (case encode_range_bound env key_parts 0 start min_buffer of
        None \<Rightarrow> None
      | Some (err1, min_buffer', min_size) \<Rightarrow>
          (case encode_range_bound env key_parts 0xff end max_buffer of
             None \<Rightarrow> None
           | Some (err2, max_buffer', max_size) \<Rightarrow>
               Some (if end = None then err1 else err2, (min_buffer', min_size), (max_buffer', max_size))))"

section \<open>Columns with a codec\<close>

text \<open>The columns whose bytes are encoded without looking at their meaning as a date and without
  normalization, and the three functions their codec consists of.\<close>

definition plain_part :: "key_part \<Rightarrow> bool" where
  "plain_part kp \<longleftrightarrow> (let (data_type, data_size) = get_key_info kp in
     0 < data_size \<and>
     (data_type \<in> set [TYPE_LONG_LONG_NUMBER, TYPE_NUMBER, TYPE_FLOAT, TYPE_DOUBLE, TYPE_BYTE_SEQUENCE, TYPE_BYTE_REVERSE]
      \<or> data_type = TYPE_BYTE_BLOB \<and> \<not> should_normalize (kp_field kp)))"

definition part_size :: "key_part \<Rightarrow> nat" where
  "part_size kp = (case get_key_info kp of (t, n) \<Rightarrow> if t = TYPE_BYTE_BLOB then n + 2 else n)"

definition part_enc :: "key_part \<Rightarrow> byte list \<Rightarrow> byte list" where
  "part_enc kp = (case fst (get_key_info kp) of
      TYPE_NUMBER \<Rightarrow> encode_number (kp_reverse_sort kp) (\<not> unsigned_flag (kp_field kp))
    | TYPE_LONG_LONG_NUMBER \<Rightarrow> encode_long_long_bytes (kp_reverse_sort kp)
    | TYPE_FLOAT \<Rightarrow> encode_float_bytes (kp_reverse_sort kp)
    | TYPE_DOUBLE \<Rightarrow> encode_double_bytes (kp_reverse_sort kp)
    | TYPE_BYTE_REVERSE \<Rightarrow> encode_reverse
    | TYPE_BYTE_BLOB \<Rightarrow> encode_plain_blob
    | _ \<Rightarrow> encode_sequence)"

definition part_dec :: "key_part \<Rightarrow> byte list \<Rightarrow> byte list" where
  "part_dec kp = (case fst (get_key_info kp) of
      TYPE_NUMBER \<Rightarrow> decode_number (kp_reverse_sort kp) (\<not> unsigned_flag (kp_field kp))
    | TYPE_LONG_LONG_NUMBER \<Rightarrow> decode_long_long_bytes (kp_reverse_sort kp)
    | TYPE_FLOAT \<Rightarrow> decode_float (kp_reverse_sort kp)
    | TYPE_DOUBLE \<Rightarrow> decode_double (kp_reverse_sort kp)
    | TYPE_BYTE_REVERSE \<Rightarrow> decode_reverse
    | TYPE_BYTE_BLOB \<Rightarrow> decode_blob (snd (get_key_info kp))
    | _ \<Rightarrow> decode_sequence)"

text \<open>The order of a column's values, on their MySQL bytes.\<close>

definition part_less :: "key_part \<Rightarrow> byte list \<Rightarrow> byte list \<Rightarrow> bool" where
  "part_less kp = (case fst (get_key_info kp) of
      TYPE_NUMBER \<Rightarrow> number_less (kp_reverse_sort kp) (\<not> unsigned_flag (kp_field kp))
    | TYPE_LONG_LONG_NUMBER \<Rightarrow> number_less (kp_reverse_sort kp) True
    | TYPE_FLOAT \<Rightarrow> float_less (kp_reverse_sort kp)
    | TYPE_DOUBLE \<Rightarrow> double_less (kp_reverse_sort kp)
    | TYPE_BYTE_REVERSE \<Rightarrow> (\<lambda>x y. le_val x < le_val y)
    | TYPE_BYTE_BLOB \<Rightarrow> blob_less
    | _ \<Rightarrow> memcmp_less)"

lemma get_key_info_sizes:
  "fst (get_key_info kp) \<noteq> TYPE_UNKNOWN \<and> fst (get_key_info kp) \<noteq> TYPE_LONG_LONG_NUMBER"
  "fst (get_key_info kp) = TYPE_FLOAT \<Longrightarrow> snd (get_key_info kp) = 4"
  "fst (get_key_info kp) = TYPE_DOUBLE \<Longrightarrow> snd (get_key_info kp) = 8"
  by (auto simp: get_key_info_def split: mysql_type.splits)

lemma plain_part_codec:
  assumes "plain_part kp"
  shows "key_part_codec (part_size kp) (part_size kp) (part_enc kp) (part_dec kp) (part_less kp)"
proof -
  obtain t n where tn: "get_key_info kp = (t, n)" by force
  with assms obtain k where n: "n = Suc k" by (cases n) (auto simp: plain_part_def)
  note sizes = get_key_info_sizes [of kp, unfolded tn, simplified]
  consider "t = TYPE_NUMBER" | "t = TYPE_FLOAT" | "t = TYPE_DOUBLE" | "t = TYPE_BYTE_SEQUENCE"
    | "t = TYPE_BYTE_REVERSE" | "t = TYPE_BYTE_BLOB"
    using assms tn sizes by (auto simp: plain_part_def)
  then show ?thesis
  proof cases
    case 1 with tn n show ?thesis
      by (simp add: part_size_def part_enc_def part_dec_def part_less_def number.key_part_codec_axioms)
  next
    case 2 with tn sizes show ?thesis
      by (simp add: part_size_def part_enc_def part_dec_def part_less_def float.key_part_codec_axioms)
  next
    case 3 with tn sizes show ?thesis
      by (simp add: part_size_def part_enc_def part_dec_def part_less_def double.key_part_codec_axioms)
  next
    case 4 with tn show ?thesis
      by (simp add: part_size_def part_enc_def part_dec_def part_less_def seq.key_part_codec_axioms)
  next
    case 5 with tn show ?thesis
      by (simp add: part_size_def part_enc_def part_dec_def part_less_def rev_bytes.key_part_codec_axioms)
  next
    case 6 with tn blob.key_part_codec_axioms [of n] show ?thesis
      by (simp add: part_size_def part_enc_def part_dec_def part_less_def)
  qed
qed

lemma plain_part_size: "plain_part kp \<Longrightarrow> 0 < part_size kp"
  by (auto simp: plain_part_def part_size_def split: prod.splits)

lemma plain_part_grn_size:
  "plain_part kp \<Longrightarrow> part_grn_size kp = (if null_bit (kp_field kp) then 1 else 0) + part_size kp"
  by (auto simp: plain_part_def part_grn_size_def part_size_def HA_KEY_BLOB_LENGTH_def split: prod.splits)

section \<open>Whole keys\<close>

text \<open>The values of the first columns of a key: for each the null byte MySQL puts before a column
  that may be null, and the bytes of the value.\<close>

type_synonym key_value = "byte \<times> byte list"

fun key_values :: "key_part list \<Rightarrow> key_value list \<Rightarrow> bool" where
  "key_values kps [] = True"
| "key_values [] (v # vs) = False"
| "key_values (kp # kps) (v # vs) = (plain_part kp \<and> length (snd v) = part_size kp \<and> key_values kps vs)"

definition mysql_image :: "key_part \<Rightarrow> key_value \<Rightarrow> byte list" where
  "mysql_image kp v = (if null_bit (kp_field kp) then [fst v] else []) @ snd v"

definition grn_image :: "key_part \<Rightarrow> key_value \<Rightarrow> byte list" where
  "grn_image kp v = (if null_bit (kp_field kp) then [0] else []) @ part_enc kp (snd v)"

definition mysql_key_of :: "key_part list \<Rightarrow> key_value list \<Rightarrow> byte list" where
  "mysql_key_of kps vs = concat (map2 mysql_image kps vs)"

definition grn_key_of :: "key_part list \<Rightarrow> key_value list \<Rightarrow> byte list" where
  "grn_key_of kps vs = concat (map2 grn_image kps vs)"

lemma key_of_simps [simp]:
  "mysql_key_of kps [] = []" "mysql_key_of [] vs = []"
  "mysql_key_of (kp # kps) (v # vs) = mysql_image kp v @ mysql_key_of kps vs"
  "grn_key_of kps [] = []" "grn_key_of [] vs = []"
  "grn_key_of (kp # kps) (v # vs) = grn_image kp v @ grn_key_of kps vs"
  by (simp_all add: mysql_key_of_def grn_key_of_def)

lemma length_part_enc: "plain_part kp \<Longrightarrow> length x = part_size kp \<Longrightarrow> length (part_enc kp x) = part_size kp"
  using key_part_codec.enc_length [OF plain_part_codec] by blast

lemma read_at_append: "length x = n \<Longrightarrow> read_at (pre @ x @ post) (length pre) n = Some x"
  by (simp add: read_at_def)

lemma read_at_parts:
  assumes "read_at k pos (n + 2) = Some x"
  shows "read_at k pos 2 = Some (take 2 x)" "read_at k (pos + 2) n = Some (drop 2 x)"
  using assms by (auto simp: read_at_def drop_take numeral_2_eq_2 split: if_splits)

lemma write_back_to_front:
  assumes "length data = n"
  shows "write_all buf g [(n, tail), (0, data)] = write_at buf g (data @ tail)"
  using assms by (auto simp: write_at_def add.assoc split: option.split)

lemma write_all_single [simp]: "write_all buf g [(0, bs)] = write_at buf g bs"
  by (simp split: option.split)

lemma encode_part_plain:
  assumes "plain_part kp" and "read_at mysql_key pos (part_size kp) = Some x"
  shows "\<exists>ws. encode_part env kp is_null mysql_key pos = Some (Inr (part_size kp, part_size kp, ws))
     \<and> (\<forall>buf g. write_all buf g ws = write_at buf g (part_enc kp x))"
proof -
  obtain t n where tn: "get_key_info kp = (t, n)" by force
  note sizes = get_key_info_sizes [of kp, unfolded tn, simplified]
  show ?thesis
  proof (cases "t = TYPE_BYTE_BLOB")
    case True
    with assms tn have x: "read_at mysql_key pos (n + 2) = Some x" by (simp add: part_size_def)
    then have "length x = n + 2" by (auto simp: read_at_def split: if_splits)
    then have "write_all buf g [(n, take 2 x), (0, drop 2 x)] = write_at buf g (drop 2 x @ take 2 x)" for buf g
      by (intro write_back_to_front) simp
    with True tn assms read_at_parts [OF x] show ?thesis
      by (simp add: encode_part_def encode_blob_def plain_part_def part_enc_def encode_plain_blob_def
          part_size_def HA_KEY_BLOB_LENGTH_def)
  next
    case False
    with assms tn sizes show ?thesis
      by (auto simp: plain_part_def encode_part_def part_enc_def part_size_def simp del: write_all.simps)
  qed
qed

lemma write_at_0 [simp]: "write_at buf off [] = (if off \<le> length buf then Some buf else None)"
  by (simp add: write_at_def)

lemma encode_parts_image:
  assumes "key_values kps vs" and "gpos + length (grn_key_of kps vs) \<le> length buf"
  shows "encode_parts env kps (pre @ mysql_key_of kps vs @ post) (length pre + length (mysql_key_of kps vs))
      (length pre) buf gpos
    = map_option (\<lambda>b. (None, b, gpos + length (grn_key_of kps vs))) (write_at buf gpos (grn_key_of kps vs))"
  using assms
proof (induction kps vs arbitrary: pre buf gpos rule: key_values.induct)
  case (1 kps)
  then show ?case by (cases kps) simp_all
next
  case (3 kp kps v vs)
  let ?null = "null_bit (kp_field kp)"
  let ?x = "snd v"
  let ?key = "pre @ mysql_image kp v @ mysql_key_of kps vs @ post"
  let ?g = "gpos + (if ?null then 1 else 0)"
  let ?p = "pre @ (if ?null then [fst v] else [])"
  from 3 have pl: "plain_part kp" and len: "length ?x = part_size kp" and kv: "key_values kps vs" by simp_all
  have enc: "length (part_enc kp ?x) = part_size kp" by (rule length_part_enc [OF pl len])
  have le: "?g + part_size kp + length (grn_key_of kps vs) \<le> length buf"
    using 3 enc by (simp add: grn_image_def split: if_splits)
  let ?z = "if ?null then [0] else [] :: byte list"
  have "gpos + length ?z \<le> length buf" using le by (cases ?null) auto
  then obtain buf0 where b0: "write_at buf gpos ?z = Some buf0" "length buf0 = length buf"
    by (rule write_at_split) blast
  have key: "?key = ?p @ ?x @ mysql_key_of kps vs @ post" by (simp add: mysql_image_def)
  have rd: "read_at ?key (length ?p) (part_size kp) = Some ?x"
    unfolding key by (rule read_at_append [OF len])
  obtain ws where
    ws: "encode_part env kp (?null \<and> fst v \<noteq> 0) ?key (length ?p) = Some (Inr (part_size kp, part_size kp, ws))"
      "\<And>b g. write_all b g ws = write_at b g (part_enc kp ?x)"
    using encode_part_plain [OF pl rd] by meson
  have "?g + length (part_enc kp ?x) \<le> length buf0" unfolding enc b0(2) using le by (rule add_leD1)
  then obtain buf1 where b1: "write_at buf0 ?g (part_enc kp ?x) = Some buf1" "length buf1 = length buf"
    unfolding b0(2) [symmetric] by (rule write_at_split) blast
  have img: "write_at buf gpos (grn_image kp v) = Some buf1"
    using write_at_write_at [OF b0(1), of "part_enc kp ?x"] b1 by (simp add: grn_image_def split: if_splits)
  have glen: "length (grn_image kp v) = (if ?null then 1 else 0) + part_size kp"
    by (simp add: grn_image_def enc)
  have mlen: "length (mysql_image kp v) = (if ?null then 1 else 0) + part_size kp"
    by (simp add: mysql_image_def len)
  have IH: "encode_parts env kps ((pre @ mysql_image kp v) @ mysql_key_of kps vs @ post)
      (length (pre @ mysql_image kp v) + length (mysql_key_of kps vs)) (length (pre @ mysql_image kp v)) buf1
      (?g + part_size kp)
    = map_option (\<lambda>b. (None, b, ?g + part_size kp + length (grn_key_of kps vs)))
        (write_at buf1 (?g + part_size kp) (grn_key_of kps vs))"
    by (rule "3.IH" [OF kv]) (use le b1 in simp)
  have wr: "write_at buf1 (?g + part_size kp) (grn_key_of kps vs)
      = write_at buf gpos (grn_image kp v @ grn_key_of kps vs)"
    using write_at_write_at [OF img, of "grn_key_of kps vs"] glen by (simp add: add.assoc)
  have r1: "?null \<Longrightarrow> read_at ?key (length pre) 1 = Some [fst v]"
    using read_at_append [of "[fst v]" 1 pre "?x @ mysql_key_of kps vs @ post"] by (simp add: mysql_image_def)
  have ne: "length pre < length pre + length (mysql_image kp v @ mysql_key_of kps vs)"
    using mlen plain_part_size [OF pl] by simp
  show ?case
  proof (cases ?null)
    case True
    with b0 b1 ws r1 ne IH wr mlen glen show ?thesis by (simp add: Let_def add.assoc)
  next
    case False
    with b0 have "buf0 = buf" by (simp split: if_splits)
    with False b1 ws ne IH wr mlen glen show ?thesis by (simp add: Let_def add.assoc)
  qed
qed simp

lemma decode_part_plain:
  assumes "plain_part kp" and "length x = part_size kp"
    and "read_at grn_key gpos (part_size kp) = Some (part_enc kp x)"
  shows "decode_part env kp grn_key gpos = Some (Inr (part_size kp, part_size kp, x))"
proof -
  obtain t n where tn: "get_key_info kp = (t, n)" by force
  note sizes = get_key_info_sizes [of kp, unfolded tn, simplified]
  have "part_dec kp (part_enc kp x) = x"
    by (rule key_part_codec.dec_enc [OF plain_part_codec [OF assms(1)] assms(2)])
  with assms tn sizes show ?thesis
    by (cases t) (simp_all add: plain_part_def decode_part_def part_dec_def part_size_def HA_KEY_BLOB_LENGTH_def)
qed

text \<open>What is decoded has the null bytes cleared.\<close>

definition clear_null :: "key_value \<Rightarrow> key_value" where
  "clear_null v = (0, snd v)"

lemma decode_parts_image:
  assumes "key_values kps vs" and "pos + length (mysql_key_of kps vs) \<le> length buf"
  shows "decode_parts env kps (pre @ grn_key_of kps vs @ post) (length pre + length (grn_key_of kps vs))
      (length pre) buf pos
    = map_option (\<lambda>b. (None, b, pos + length (mysql_key_of kps vs)))
        (write_at buf pos (mysql_key_of kps (map clear_null vs)))"
  using assms
proof (induction kps vs arbitrary: pre buf pos rule: key_values.induct)
  case (1 kps)
  then show ?case by (cases kps) simp_all
next
  case (3 kp kps v vs)
  let ?null = "null_bit (kp_field kp)"
  let ?x = "snd v"
  let ?key = "pre @ grn_image kp v @ grn_key_of kps vs @ post"
  let ?m = "pos + (if ?null then 1 else 0)"
  let ?p = "pre @ (if ?null then [0] else [])"
  from 3 have pl: "plain_part kp" and len: "length ?x = part_size kp" and kv: "key_values kps vs" by simp_all
  have enc: "length (part_enc kp ?x) = part_size kp" by (rule length_part_enc [OF pl len])
  have le: "?m + part_size kp + length (mysql_key_of kps vs) \<le> length buf"
    using 3 len by (simp add: mysql_image_def split: if_splits)
  let ?z = "if ?null then [0] else [] :: byte list"
  have "pos + length ?z \<le> length buf" using le by (cases ?null) auto
  then obtain buf0 where b0: "write_at buf pos ?z = Some buf0" "length buf0 = length buf"
    by (rule write_at_split) blast
  have key: "?key = ?p @ part_enc kp ?x @ grn_key_of kps vs @ post" by (simp add: grn_image_def)
  have rd: "read_at ?key (length ?p) (part_size kp) = Some (part_enc kp ?x)"
    unfolding key by (rule read_at_append [OF enc])
  note dp = decode_part_plain [OF pl len rd, of env]
  have "?m + length ?x \<le> length buf0" unfolding len b0(2) using le by (rule add_leD1)
  then obtain buf1 where b1: "write_at buf0 ?m ?x = Some buf1" "length buf1 = length buf"
    unfolding b0(2) [symmetric] by (rule write_at_split) blast
  have img: "write_at buf pos (mysql_image kp (clear_null v)) = Some buf1"
    using write_at_write_at [OF b0(1), of ?x] b1 by (simp add: mysql_image_def clear_null_def split: if_splits)
  have glen: "length (grn_image kp v) = (if ?null then 1 else 0) + part_size kp"
    by (simp add: grn_image_def enc)
  have mlen: "length (mysql_image kp v) = (if ?null then 1 else 0) + part_size kp"
    "length (mysql_image kp (clear_null v)) = (if ?null then 1 else 0) + part_size kp"
    by (simp_all add: mysql_image_def clear_null_def len)
  have IH: "decode_parts env kps ((pre @ grn_image kp v) @ grn_key_of kps vs @ post)
      (length (pre @ grn_image kp v) + length (grn_key_of kps vs)) (length (pre @ grn_image kp v)) buf1
      (?m + part_size kp)
    = map_option (\<lambda>b. (None, b, ?m + part_size kp + length (mysql_key_of kps vs)))
        (write_at buf1 (?m + part_size kp) (mysql_key_of kps (map clear_null vs)))"
    by (rule "3.IH" [OF kv]) (use le b1 in simp)
  have wr: "write_at buf1 (?m + part_size kp) (mysql_key_of kps (map clear_null vs))
      = write_at buf pos (mysql_image kp (clear_null v) @ mysql_key_of kps (map clear_null vs))"
    using write_at_write_at [OF img, of "mysql_key_of kps (map clear_null vs)"] mlen by (simp add: add.assoc)
  have ne: "length pre < length pre + length (grn_image kp v @ grn_key_of kps vs)"
    using glen plain_part_size [OF pl] by simp
  show ?case
  proof (cases ?null)
    case True
    with b0 b1 dp ne IH wr mlen glen show ?thesis by (simp add: Let_def add.assoc)
  next
    case False
    with b0 have "buf0 = buf" by (simp split: if_splits)
    with False b1 dp ne IH wr mlen glen show ?thesis by (simp add: Let_def add.assoc)
  qed
qed simp

lemma key_values_length:
  "key_values kps vs \<Longrightarrow> length (grn_key_of kps vs) = length (mysql_key_of kps vs)"
  by (induction kps vs rule: key_values.induct) (simp_all add: mysql_image_def grn_image_def length_part_enc)

lemma length_clear_null:
  "key_values kps vs \<Longrightarrow> length (mysql_key_of kps (map clear_null vs)) = length (mysql_key_of kps vs)"
  by (induction kps vs rule: key_values.induct) (simp_all add: mysql_image_def clear_null_def)

lemma grn_key_length:
  assumes "key_values kps vs"
  shows "length (grn_key_of kps vs) = codec_size (take (length vs) kps)" "length vs \<le> length kps"
  using assms
  by (induction kps vs rule: key_values.induct)
    (auto simp: codec_size_def plain_part_grn_size grn_image_def length_part_enc)

lemma codec_size_take: "codec_size (take n kps) \<le> codec_size kps"
  by (metis append_take_drop_id codec_size_def le_add1 map_append sum_list_append)

lemma codec_encode_prefix:
  assumes "key_values kps vs" and "codec_size kps \<le> length buf"
  shows "codec_encode env kps (mysql_key_of kps vs @ post) (length (mysql_key_of kps vs)) buf
    = Some (None, grn_key_of kps vs @ drop (length (grn_key_of kps vs)) buf, length (grn_key_of kps vs))"
proof -
  have "length (grn_key_of kps vs) \<le> length buf"
    using grn_key_length(1) [OF assms(1)] codec_size_take [of "length vs" kps] assms(2) by simp
  then show ?thesis
    using encode_parts_image [OF assms(1), of 0 buf env "[]" post]
    by (simp add: codec_encode_def write_at_def)
qed

text \<open>
  C3: for a key whose columns are numbers, floating point numbers, byte sequences, timestamps or
  texts that are not normalized, \<^verbatim>\<open>encode\<close> writes exactly \<^verbatim>\<open>size()\<close> bytes at the start of the buffer
  and touches nothing behind them, and \<^verbatim>\<open>decode\<close> gives back the MySQL key with the null bytes
  cleared, without reading or writing outside of the buffers.
\<close>
theorem key_roundtrip:
  assumes "key_values kps vs" and "length vs = length kps" and "length buf = codec_size kps"
    and "length mysql_buf = length (mysql_key_of kps vs)"
  shows "codec_encode env kps (mysql_key_of kps vs) (length (mysql_key_of kps vs)) (buf @ behind)
      = Some (None, grn_key_of kps vs @ behind, codec_size kps)
    \<and> codec_decode env kps (grn_key_of kps vs @ behind) (codec_size kps) mysql_buf
      = Some (None, mysql_key_of kps (map clear_null vs), length (mysql_key_of kps vs))"
proof -
  have len: "length (grn_key_of kps vs) = codec_size kps" using grn_key_length(1) [OF assms(1)] assms(2) by simp
  have cl: "length (mysql_key_of kps (map clear_null vs)) = length (mysql_key_of kps vs)"
    using assms(1) by (rule length_clear_null)
  show ?thesis
    using codec_encode_prefix [OF assms(1), of "buf @ behind" env "[]"] assms(3,4) len cl
      decode_parts_image [OF assms(1), of 0 mysql_buf env "[]" behind]
    by (simp add: codec_decode_def write_at_def)
qed

text \<open>A key of a signed 2-byte and a nullable double column, and a 3-byte text that is compared byte
  by byte.\<close>

definition example_part :: "mysql_type \<Rightarrow> bool \<Rightarrow> nat \<Rightarrow> key_part" where
  "example_part t nullable n = \<lparr>kp_field = sample_field\<lparr>field_type := t, real_type := t, null_bit := nullable,
     field_charset := (sample_charset ''binary'' 3)\<lparr>MY_CS_BINSORT := True\<rparr>\<rparr>, kp_length = n, kp_reverse_sort = False\<rparr>"

definition example_parts :: "key_part list" where
  "example_parts = [example_part MYSQL_TYPE_SHORT False 2, example_part MYSQL_TYPE_DOUBLE True 8,
     example_part MYSQL_TYPE_VARCHAR False 3]"

definition example_values :: "key_value list" where
  "example_values = [(0, [0xfe, 0xff]), (0, [0, 0, 0, 0, 0, 0, 0xf0, 0xbf]), (0, [2, 0, 0x61, 0x62, 0])]"

definition example_env :: codec_env where
  "example_env = \<lparr>ce_time = fixed_zone_env 0, datetime2_from_binary = (\<lambda>_ _. example_datetime),
     datetime2_to_binary = (\<lambda>_ _. []), uninitialized_time = example_datetime, ce_normalized = (\<lambda>_ x. x)\<rparr>"

lemma example_key_values: "key_values example_parts example_values"
  by code_simp

theorem key_roundtrip_witness:
  "codec_decode example_env example_parts (grn_key_of example_parts example_values @ [])
     (codec_size example_parts) (replicate 16 7)
   = Some (None, mysql_key_of example_parts (map clear_null example_values), 16)"
proof -
  have "length (mysql_key_of example_parts example_values) = 16" by code_simp
  with key_roundtrip [of example_parts example_values "replicate (codec_size example_parts) 0"
      "replicate 16 7" example_env "[]"] example_key_values
  show ?thesis by (simp add: example_parts_def example_values_def)
qed

section \<open>The order of keys\<close>

text \<open>The lexicographic order of keys, each column in its own order; the null byte does not count.\<close>

fun key_less :: "key_part list \<Rightarrow> key_value list \<Rightarrow> key_value list \<Rightarrow> bool" where
  "key_less (kp # kps) (u # us) (v # vs) =
     (part_less kp (snd u) (snd v) \<or> snd u = snd v \<and> key_less kps us vs)"
| "key_less _ _ _ = False"

lemma grn_image_order:
  assumes "plain_part kp" and "length (snd u) = part_size kp" and "length (snd v) = part_size kp"
  shows "memcmp_less (grn_image kp u @ r) (grn_image kp v @ s) \<longleftrightarrow>
    part_less kp (snd u) (snd v) \<or> snd u = snd v \<and> memcmp_less r s"
  using key_part_codec.enc_append_order [OF plain_part_codec [OF assms(1)] assms(2,3)]
  by (simp add: grn_image_def)

lemma grn_key_order:
  assumes "key_values kps us" and "key_values kps vs" and "length us = length vs"
  shows "memcmp_less (grn_key_of kps us) (grn_key_of kps vs) \<longleftrightarrow> key_less kps us vs"
  using assms(3,1,2)
proof (induction us vs arbitrary: kps rule: list_induct2)
  case (Cons u us v vs)
  then obtain kp kps' where "kps = kp # kps'" by (cases kps) auto
  with Cons show ?case by (simp add: grn_image_order)
qed simp

text \<open>
  C1: the keys that \<^verbatim>\<open>encode\<close> writes for two MySQL keys compare as byte strings exactly as the
  columns compare one after the other: signed and unsigned integers and floating point numbers by
  value, timestamps as numbers, other columns byte by byte, a descending column the other way round.
\<close>
theorem encoded_key_order:
  assumes "key_values kps us" and "key_values kps vs" and "length us = length kps" and "length vs = length kps"
    and "length buf = codec_size kps"
    and "codec_encode env kps (mysql_key_of kps us) (length (mysql_key_of kps us)) buf = Some (e1, k1, n1)"
    and "codec_encode env kps (mysql_key_of kps vs) (length (mysql_key_of kps vs)) buf = Some (e2, k2, n2)"
  shows "e1 = None \<and> e2 = None \<and> n1 = codec_size kps \<and> n2 = codec_size kps
    \<and> (memcmp_less k1 k2 \<longleftrightarrow> key_less kps us vs)"
proof -
  have l: "length (grn_key_of kps us) = codec_size kps" "length (grn_key_of kps vs) = codec_size kps"
    using grn_key_length(1) [OF assms(1)] grn_key_length(1) [OF assms(2)] assms(3,4) by simp_all
  have "codec_encode env kps (mysql_key_of kps us) (length (mysql_key_of kps us)) buf = Some (None, grn_key_of kps us, codec_size kps)"
    "codec_encode env kps (mysql_key_of kps vs) (length (mysql_key_of kps vs)) buf = Some (None, grn_key_of kps vs, codec_size kps)"
    using codec_encode_prefix [OF assms(1), of buf env "[]"] codec_encode_prefix [OF assms(2), of buf env "[]"] l assms(5)
    by simp_all
  with assms(6,7) grn_key_order [OF assms(1,2)] assms(3,4) show ?thesis by simp
qed

definition example_values2 :: "key_value list" where
  "example_values2 = [(0, [1, 0]), (0, [0, 0, 0, 0, 0, 0, 0, 0x40]), (0, [2, 0, 0x61, 0x62, 0])]"

theorem encoded_key_order_witness:
  "\<exists>k1 k2. codec_encode example_env example_parts (mysql_key_of example_parts example_values) 16 (replicate 16 0)
      = Some (None, k1, 16)
    \<and> codec_encode example_env example_parts (mysql_key_of example_parts example_values2) 16 (replicate 16 0)
      = Some (None, k2, 16) \<and> memcmp_less k1 k2"
proof -
  have kv: "key_values example_parts example_values2" by code_simp
  have len: "length (mysql_key_of example_parts example_values) = 16"
    "length (mysql_key_of example_parts example_values2) = 16" "codec_size example_parts = 16" by code_simp+
  note e1 = codec_encode_prefix [OF example_key_values, of "replicate 16 0" example_env "[]"]
    and e2 = codec_encode_prefix [OF kv, of "replicate 16 0" example_env "[]"]
  have "part_less (example_part MYSQL_TYPE_SHORT False 2) [0xfe, 0xff] [1, 0]"
    by (simp add: part_less_def get_key_info_def example_part_def sample_field_def number_less_def mysql_int_def)
  then have less: "key_less example_parts example_values example_values2"
    by (simp add: example_parts_def example_values_def example_values2_def)
  obtain k1 k2 where k: "codec_encode example_env example_parts (mysql_key_of example_parts example_values) 16 (replicate 16 0)
      = Some (None, k1, 16)"
    "codec_encode example_env example_parts (mysql_key_of example_parts example_values2) 16 (replicate 16 0)
      = Some (None, k2, 16)"
    using e1 e2 len key_values_length [OF example_key_values] key_values_length [OF kv] by simp
  have "memcmp_less k1 k2"
    using encoded_key_order [OF example_key_values kv, of "replicate 16 0" example_env None k1 16 None k2 16] k len less
    by (simp add: example_parts_def example_values_def example_values2_def)
  with k show ?thesis by blast
qed

section \<open>Ranges of keys\<close>

lemma not_less_zeros: "\<not> memcmp_less xs (replicate n 0)"
proof (induction n arbitrary: xs)
  case (Suc n)
  then show ?case by (cases xs) (auto simp: word_not_simps)
qed (cases xs; simp)

lemma not_ones_less: "\<not> memcmp_less (replicate n 0xff) xs"
proof (induction n arbitrary: xs)
  case (Suc n)
  have "\<not> (0xff :: byte) < x" for x
    using unat_byte_less [of x] by (simp add: word_less_nat_alt)
  with Suc show ?case by (cases xs) auto
qed simp

lemma grn_key_split:
  "key_values kps ws \<Longrightarrow> grn_key_of kps ws = grn_key_of kps (take n ws) @ grn_key_of (drop n kps) (drop n ws)"
proof (induction kps ws arbitrary: n rule: key_values.induct)
  case (3 kp kps v vs)
  then show ?case by (cases n) simp_all
qed simp_all

lemma key_values_take: "key_values kps ws \<Longrightarrow> key_values kps (take n ws)"
proof (induction kps ws arbitrary: n rule: key_values.induct)
  case (3 kp kps v vs)
  then show ?case by (cases n) simp_all
qed simp_all

lemma encode_range_bound_post:
  assumes "key_values kps us" and "codec_size kps \<le> length buf"
  shows "\<exists>b. encode_range_bound env kps pad (Some (mysql_key_of kps us @ post, length (mysql_key_of kps us))) buf
      = Some (None, b, Some (codec_size kps))
    \<and> take (codec_size kps) b = grn_key_of kps us @ replicate (codec_size kps - length (grn_key_of kps us)) pad"
proof -
  let ?p = "replicate (codec_size kps) pad @ drop (codec_size kps) buf"
  have w: "write_at buf 0 (replicate (codec_size kps) pad) = Some ?p"
    using assms(2) by (simp add: write_at_def)
  have l: "length (grn_key_of kps us) \<le> codec_size kps"
    using grn_key_length(1) [OF assms(1)] codec_size_take [of "length us" kps] by simp
  have "codec_encode env kps (mysql_key_of kps us @ post) (length (mysql_key_of kps us)) ?p
      = Some (None, grn_key_of kps us @ drop (length (grn_key_of kps us)) ?p, length (grn_key_of kps us))"
    using codec_encode_prefix [OF assms(1), of ?p env post] assms(2) by simp
  with w l assms(2) show ?thesis
    by (simp add: encode_range_bound_def)
qed

lemmas encode_range_bound_prefix = encode_range_bound_post [where post = "[]", simplified]

text \<open>Comparing a full key with a bound that is padded is comparing its first columns with the bound.\<close>

lemma padded_order:
  assumes "key_values kps us" and "key_values kps ws" and "length ws = length kps"
    and "length bound = codec_size kps" and "bound = grn_key_of kps us @ replicate n pad"
  shows "pad = 0 \<Longrightarrow> memcmp_less (grn_key_of kps ws) bound \<longleftrightarrow> key_less kps (take (length us) ws) us"
    and "pad = 0xff \<Longrightarrow> memcmp_less bound (grn_key_of kps ws) \<longleftrightarrow> key_less kps us (take (length us) ws)"
proof -
  let ?w = "take (length us) ws"
  have kv: "key_values kps ?w" by (rule key_values_take [OF assms(2)])
  have len: "length ?w = length us" using grn_key_length(2) [OF assms(1)] assms(3) by simp
  have l: "length (grn_key_of kps ?w) = length (grn_key_of kps us)"
    using grn_key_length(1) [OF kv] grn_key_length(1) [OF assms(1)] len by simp
  note split = grn_key_split [OF assms(2), of "length us"]
  show "pad = 0 \<Longrightarrow> memcmp_less (grn_key_of kps ws) bound \<longleftrightarrow> key_less kps ?w us"
    using grn_key_order [OF kv assms(1) len]
    by (subst split) (simp add: assms(5) memcmp_less_append [OF l] not_less_zeros)
  show "pad = 0xff \<Longrightarrow> memcmp_less bound (grn_key_of kps ws) \<longleftrightarrow> key_less kps us ?w"
    using grn_key_order [OF assms(1) kv len [symmetric]]
    by (subst split) (simp add: assms(5) memcmp_less_append [OF l [symmetric]] not_ones_less)
qed

text \<open>
  C2: the encoded range of a scan contains exactly the keys it should: the bounds give the first
  columns only, and the encoded key of a row lies below the lower bound iff its first columns are less
  than the start of the range, and above the upper bound iff they are greater than the end.
\<close>
theorem key_range_exact:
  assumes "key_values kps us" and "key_values kps vs" and "key_values kps ws" and "length ws = length kps"
    and "codec_size kps \<le> length min_buffer" and "codec_size kps \<le> length max_buffer"
  shows "\<exists>min_buffer' max_buffer'. storage_encode_multiple_column_key_range env kps
      (Some (mysql_key_of kps us, length (mysql_key_of kps us)))
      (Some (mysql_key_of kps vs, length (mysql_key_of kps vs))) min_buffer max_buffer
      = Some (None, (min_buffer', Some (codec_size kps)), (max_buffer', Some (codec_size kps)))
    \<and> (memcmp_less (grn_key_of kps ws) (take (codec_size kps) min_buffer') \<longleftrightarrow> key_less kps (take (length us) ws) us)
    \<and> (memcmp_less (take (codec_size kps) max_buffer') (grn_key_of kps ws) \<longleftrightarrow> key_less kps vs (take (length vs) ws))"
proof -
  have l: "length (grn_key_of kps xs) \<le> codec_size kps" if "key_values kps xs" for xs
    using grn_key_length(1) [OF that] codec_size_take [of "length xs" kps] by simp
  obtain a where a: "encode_range_bound env kps 0 (Some (mysql_key_of kps us, length (mysql_key_of kps us))) min_buffer
      = Some (None, a, Some (codec_size kps))"
    "take (codec_size kps) a = grn_key_of kps us @ replicate (codec_size kps - length (grn_key_of kps us)) 0"
    using encode_range_bound_prefix [OF assms(1,5)] by blast
  obtain b where b: "encode_range_bound env kps 0xff (Some (mysql_key_of kps vs, length (mysql_key_of kps vs))) max_buffer
      = Some (None, b, Some (codec_size kps))"
    "take (codec_size kps) b = grn_key_of kps vs @ replicate (codec_size kps - length (grn_key_of kps vs)) 0xff"
    using encode_range_bound_prefix [OF assms(2,6)] by blast
  have "memcmp_less (grn_key_of kps ws) (take (codec_size kps) a) \<longleftrightarrow> key_less kps (take (length us) ws) us"
    by (rule padded_order(1) [OF assms(1,3,4) _ a(2) refl]) (use a(2) l [OF assms(1)] in simp)
  moreover have "memcmp_less (take (codec_size kps) b) (grn_key_of kps ws) \<longleftrightarrow> key_less kps vs (take (length vs) ws)"
    by (rule padded_order(2) [OF assms(2,3,4) _ b(2) refl]) (use b(2) l [OF assms(2)] in simp)
  ultimately show ?thesis
    using a(1) b(1) by (simp add: storage_encode_multiple_column_key_range_def)
qed

theorem key_range_exact_witness:
  "\<exists>min_buffer' max_buffer'. storage_encode_multiple_column_key_range example_env example_parts
      (Some (mysql_key_of example_parts (take 1 example_values2), length (mysql_key_of example_parts (take 1 example_values2))))
      (Some (mysql_key_of example_parts (take 2 example_values2), length (mysql_key_of example_parts (take 2 example_values2))))
      (replicate 16 9) (replicate 20 9)
      = Some (None, (min_buffer', Some 16), (max_buffer', Some 16))
    \<and> memcmp_less (grn_key_of example_parts example_values) (take 16 min_buffer')"
proof -
  have kv: "key_values example_parts example_values2" by code_simp
  have cs: "codec_size example_parts = 16" by code_simp
  have "part_less (example_part MYSQL_TYPE_SHORT False 2) [0xfe, 0xff] [1, 0]"
    by (simp add: part_less_def get_key_info_def example_part_def sample_field_def number_less_def mysql_int_def)
  then have "key_less example_parts (take 1 example_values) (take 1 example_values2)"
    by (simp add: example_parts_def example_values_def example_values2_def)
  moreover have "length (take 1 example_values2) = 1" "length example_values = length example_parts"
    by (simp_all add: example_values2_def example_values_def example_parts_def)
  ultimately show ?thesis
    using key_range_exact [OF key_values_take [OF kv, of 1] key_values_take [OF kv, of 2] example_key_values,
        of "replicate 16 9" "replicate 20 9" example_env]
    by (simp add: cs) blast
qed

section \<open>Columns whose encoding loses information\<close>

text \<open>
  an \<^verbatim>\<open>ENUM\<close> with more than 255 members has two key bytes and a \<^verbatim>\<open>SET\<close> up to eight, but the
  codec takes the first byte only: the encoding of a one-column key does not depend on the other
  bytes, so different values get one key.
\<close>
theorem enum_key_one_byte:
  assumes "real_type (kp_field kp) \<in> {MYSQL_TYPE_ENUM, MYSQL_TYPE_SET}" and "\<not> null_bit (kp_field kp)"
  shows "codec_encode env [kp] (b # xs) (Suc (length xs)) buf = codec_encode env [kp] (b # ys) (Suc (length ys)) buf
    \<and> codec_size [kp] = 1"
proof -
  have info: "get_key_info kp = (TYPE_NUMBER, 1)" using assms(1) by (auto simp: get_key_info_def)
  have "encode_part env kp False (b # zs) 0 = Some (Inr (1, 1,
      [(0, encode_number (kp_reverse_sort kp) (\<not> unsigned_flag (kp_field kp)) [b])]))" for zs
    by (simp add: encode_part_def info read_at_def)
  with assms(2) show ?thesis
    by (simp add: codec_encode_def codec_size_def part_grn_size_def info split: option.split)
qed

theorem enum_key_one_byte_witness:
  "codec_encode example_env [example_part MYSQL_TYPE_ENUM False 2] [1, 0] 2 [0, 0]
     = codec_encode example_env [example_part MYSQL_TYPE_ENUM False 2] [1, 1] 2 [0, 0]"
proof -
  have "real_type (kp_field (example_part MYSQL_TYPE_ENUM False 2)) = MYSQL_TYPE_ENUM"
    "\<not> null_bit (kp_field (example_part MYSQL_TYPE_ENUM False 2))" by (simp_all add: example_part_def)
  then show ?thesis
    using enum_key_one_byte [of "example_part MYSQL_TYPE_ENUM False 2" example_env 1 "[0]" "[0, 0]" "[1]"]
    by (simp add: numeral_2_eq_2)
qed

text \<open>
  A text whose normalized form is longer than the key part is copied without a limit: when the
  key part is the last one and the normalized form is longer than the part and its length bytes, the
  copy runs past the end of a buffer of \<^verbatim>\<open>size()\<close> bytes.
\<close>
theorem normalized_text_overflow:
  assumes "fst (get_key_info kp) = TYPE_BYTE_BLOB" and "should_normalize (kp_field kp)" and "\<not> null_bit (kp_field kp)"
    and "unat (value_decode_ushort len_bytes) = length data" and "length len_bytes = 2"
    and "length buf = codec_size [kp]"
    and "codec_size [kp] < length (ce_normalized env (kp_field kp) data)"
    and "length (ce_normalized env (kp_field kp) data) \<le> 65535"
  shows "codec_encode env [kp] (len_bytes @ data @ padding) (length (len_bytes @ data @ padding)) buf = None"
proof -
  obtain n where n: "get_key_info kp = (TYPE_BYTE_BLOB, n)" using assms(1) by (cases "get_key_info kp") auto
  have r: "read_at (len_bytes @ data @ padding) 0 2 = Some len_bytes"
    "read_at (len_bytes @ data @ padding) 2 (length data) = Some data"
    using read_at_append [of len_bytes 2 "[]"] read_at_append [of data _ len_bytes padding] assms(5) by simp_all
  have w: "write_at buf 0 (ce_normalized env (kp_field kp) data) = None"
    using assms(6,7) by (simp add: write_at_def)
  have "0 < length (ce_normalized env (kp_field kp) data)" using assms(7) by linarith
  then obtain ws where "encode_part env kp False (len_bytes @ data @ padding) 0
      = Some (Inr (n + 2, n + 2, (0, ce_normalized env (kp_field kp) data) # ws))"
    using n r assms(2,4,8) by (simp add: encode_part_def encode_blob_def HA_KEY_BLOB_LENGTH_def Let_def numeral_2_eq_2)
  with w assms(3,5) show ?thesis by (simp add: codec_encode_def)
qed

definition overflow_part :: key_part where
  "overflow_part = \<lparr>kp_field = sample_field, kp_length = 3, kp_reverse_sort = False\<rparr>"

definition overflow_env :: codec_env where
  "overflow_env = example_env\<lparr>ce_normalized := (\<lambda>_ x. concat (map (\<lambda>b. [b, b, b]) x))\<rparr>"

theorem normalized_text_overflow_witness:
  "codec_encode overflow_env [overflow_part] [3, 0, 1, 2, 3] 5 [0, 0, 0, 0, 0] = None"
proof -
  have "fst (get_key_info overflow_part) = TYPE_BYTE_BLOB" "codec_size [overflow_part] = 5"
    "should_normalize (kp_field overflow_part)" "\<not> null_bit (kp_field overflow_part)"
    by (simp_all add: overflow_part_def get_key_info_def sample_field_def should_normalize_def is_text_type_def
        sample_charset_def codec_size_def part_grn_size_def HA_KEY_BLOB_LENGTH_def)
  then have "codec_encode overflow_env [overflow_part] ([3, 0] @ [1, 2, 3] @ [])
      (length ([3, 0] @ [1, 2, 3] @ [] :: byte list)) [0, 0, 0, 0, 0] = None"
    by (intro normalized_text_overflow) (simp_all add: overflow_env_def value_decode_ushort_def)
  moreover have "length ([3, 0] @ [1, 2, 3] @ [] :: byte list) = 5" by simp
  ultimately show ?thesis by (simp only: append.simps)
qed

end
