(* ===== verification/Field_Values.thy ===== *)
theory Field_Values
  imports Key_Parts Time_Converter
begin

text \<open>
  The values of fields in storage mode (\<^verbatim>\<open>ha_mroonga.cpp\<close>): the Groonga type of a column
  (\<^verbatim>\<open>mrn_grn_type_from_field\<close>), the value that is written for a field (\<^verbatim>\<open>generic_store_bulk\<close>) and the
  value that is read back (\<^verbatim>\<open>storage_store_field\<close>). A field of MySQL is the record of what its accessors
  return, and storing into a field is the call that is made. Geometries, whose conversion computes with
  floating point numbers, and changing the encoding are parameters.
\<close>

section \<open>Types\<close>

datatype grn_type =
    GRN_DB_VOID | GRN_DB_INT8 | GRN_DB_UINT8 | GRN_DB_INT16 | GRN_DB_UINT16 | GRN_DB_INT32 | GRN_DB_UINT32
  | GRN_DB_INT64 | GRN_DB_UINT64 | GRN_DB_FLOAT | GRN_DB_TIME | GRN_DB_SHORT_TEXT | GRN_DB_TEXT | GRN_DB_LONG_TEXT
  | GRN_DB_WGS84_GEO_POINT

text \<open>\<open>v_int\<close> is \<^verbatim>\<open>val_int\<close>, \<open>v_real\<close> the bits of \<^verbatim>\<open>val_real\<close>, \<open>v_str\<close> the bytes of \<^verbatim>\<open>val_str\<close>, \<open>v_raw\<close> the
  bytes at the pointer of the field, \<open>v_time\<close> the result of \<^verbatim>\<open>get_date\<close> or \<^verbatim>\<open>get_time\<close> and \<open>v_stamp\<close> seconds and
  microseconds from \<^verbatim>\<open>get_timestamp\<close>, \<^const>\<open>None\<close> when it fails.\<close>

record value_field =
  v_type :: mysql_type
  v_unsigned :: bool
  field_length :: nat
  pack_length :: nat
  key_length :: nat
  v_null :: bool
  v_int :: int
  v_real :: "64 word"
  v_str :: "byte list"
  v_raw :: "byte list"
  v_time :: mysql_time
  v_stamp :: "(int \<times> int) option"
  v_compressed :: bool

definition MRN_SHORT_TEXT_SIZE :: nat where "MRN_SHORT_TEXT_SIZE = 2 ^ 12"
definition MRN_TEXT_SIZE :: nat where "MRN_TEXT_SIZE = 2 ^ 16"

definition text_type :: "value_field \<Rightarrow> grn_type" where
  "text_type f = (if field_length f \<le> MRN_SHORT_TEXT_SIZE then GRN_DB_SHORT_TEXT
     else if field_length f \<le> MRN_TEXT_SIZE then GRN_DB_TEXT else GRN_DB_LONG_TEXT)"

definition mrn_grn_type_from_field :: "value_field \<Rightarrow> bool \<Rightarrow> grn_type" where
  "mrn_grn_type_from_field f for_index_key = (case v_type f of
      MYSQL_TYPE_DECIMAL \<Rightarrow> GRN_DB_SHORT_TEXT
    | MYSQL_TYPE_TINY \<Rightarrow> if v_unsigned f then GRN_DB_UINT8 else GRN_DB_INT8
    | MYSQL_TYPE_SHORT \<Rightarrow> if v_unsigned f then GRN_DB_UINT16 else GRN_DB_INT16
    | MYSQL_TYPE_LONG \<Rightarrow> if v_unsigned f then GRN_DB_UINT32 else GRN_DB_INT32
    | MYSQL_TYPE_FLOAT \<Rightarrow> GRN_DB_FLOAT
    | MYSQL_TYPE_DOUBLE \<Rightarrow> GRN_DB_FLOAT
    | MYSQL_TYPE_NULL \<Rightarrow> GRN_DB_INT8
    | MYSQL_TYPE_TIMESTAMP \<Rightarrow> GRN_DB_TIME
    | MYSQL_TYPE_LONGLONG \<Rightarrow> if v_unsigned f then GRN_DB_UINT64 else GRN_DB_INT64
    | MYSQL_TYPE_INT24 \<Rightarrow> if v_unsigned f then GRN_DB_UINT32 else GRN_DB_INT32
    | MYSQL_TYPE_DATE \<Rightarrow> GRN_DB_TIME
    | MYSQL_TYPE_TIME \<Rightarrow> GRN_DB_TIME
    | MYSQL_TYPE_DATETIME \<Rightarrow> GRN_DB_TIME
    | MYSQL_TYPE_YEAR \<Rightarrow> GRN_DB_TIME
    | MYSQL_TYPE_NEWDATE \<Rightarrow> GRN_DB_TIME
    | MYSQL_TYPE_VARCHAR \<Rightarrow> if for_index_key then GRN_DB_SHORT_TEXT else text_type f
    | MYSQL_TYPE_VARCHAR_COMPRESSED \<Rightarrow> if for_index_key then GRN_DB_SHORT_TEXT else text_type f
    | MYSQL_TYPE_BIT \<Rightarrow>
        if key_length f \<le> 1 then GRN_DB_UINT8
        else if key_length f \<le> 2 then GRN_DB_UINT16
        else if key_length f \<le> 4 then GRN_DB_UINT32
        else if key_length f \<le> 8 then GRN_DB_UINT64
        else GRN_DB_VOID
    | MYSQL_TYPE_TIMESTAMP2 \<Rightarrow> GRN_DB_TIME
    | MYSQL_TYPE_DATETIME2 \<Rightarrow> GRN_DB_TIME
    | MYSQL_TYPE_TIME2 \<Rightarrow> GRN_DB_TIME
    | MYSQL_TYPE_NEWDECIMAL \<Rightarrow> GRN_DB_SHORT_TEXT
    | MYSQL_TYPE_ENUM \<Rightarrow> if pack_length f = 1 then GRN_DB_UINT8 else GRN_DB_UINT16
    | MYSQL_TYPE_SET \<Rightarrow>
        if pack_length f = 1 then GRN_DB_UINT8
        else if pack_length f = 2 then GRN_DB_UINT16
        else if pack_length f = 3 \<or> pack_length f = 4 then GRN_DB_UINT32
        else GRN_DB_UINT64
    | MYSQL_TYPE_TINY_BLOB \<Rightarrow> GRN_DB_SHORT_TEXT
    | MYSQL_TYPE_MEDIUM_BLOB \<Rightarrow> if for_index_key then GRN_DB_SHORT_TEXT else GRN_DB_LONG_TEXT
    | MYSQL_TYPE_LONG_BLOB \<Rightarrow> if for_index_key then GRN_DB_SHORT_TEXT else GRN_DB_LONG_TEXT
    | MYSQL_TYPE_BLOB \<Rightarrow> if for_index_key then GRN_DB_SHORT_TEXT else GRN_DB_LONG_TEXT
    | MYSQL_TYPE_BLOB_COMPRESSED \<Rightarrow> if for_index_key then GRN_DB_SHORT_TEXT else GRN_DB_LONG_TEXT
    | MYSQL_TYPE_VAR_STRING \<Rightarrow> if for_index_key then GRN_DB_SHORT_TEXT else text_type f
    | MYSQL_TYPE_STRING \<Rightarrow> GRN_DB_SHORT_TEXT
    | MYSQL_TYPE_GEOMETRY \<Rightarrow> GRN_DB_WGS84_GEO_POINT
    | MYSQL_TYPE_JSON \<Rightarrow> GRN_DB_TEXT)"

section \<open>Writing\<close>

record bulk =
  bulk_domain :: grn_type
  bulk_content :: "byte list"

datatype bulk_error = HA_ERR_UNSUPPORTED | DATA_TRUNCATED | Encoding_error int | Geometry_error int

text \<open>The error, the bulk if it was set, and whether a warning was raised.\<close>

type_synonym bulk_result = "bulk_error option \<times> bulk option \<times> bool"

text \<open>\<open>my_time_t\<close> is \<^verbatim>\<open>MRN_TIMESTAMP_USE_MY_TIME_T\<close>, set for MariaDB.\<close>

record value_env = time_env +
  strict_mode :: bool
  change_encoding :: int
  geometry_bulk :: "byte list \<Rightarrow> bulk_result"
  my_time_t :: bool

text \<open>A C integer of \<open>n\<close> bytes, little endian.\<close>

definition int_content :: "nat \<Rightarrow> int \<Rightarrow> byte list" where
  "int_content n v = le_bytes n (nat (v mod 2 ^ (8 * n)))"

definition int_bulk :: "grn_type \<Rightarrow> nat \<Rightarrow> int \<Rightarrow> bulk_result" where
  "int_bulk ty n v = (None, Some \<lparr>bulk_domain = ty, bulk_content = int_content n v\<rparr>, False)"

definition time_bulk :: "int \<Rightarrow> bulk" where
  "time_bulk t = \<lparr>bulk_domain = GRN_DB_TIME, bulk_content = int_content 8 t\<rparr>"

definition generic_store_bulk_fixed_size_string :: "value_field \<Rightarrow> bulk_result" where
  "generic_store_bulk_fixed_size_string f =
     (None, Some \<lparr>bulk_domain = GRN_DB_SHORT_TEXT,
        bulk_content = (if v_null f then replicate (field_length f) 32 else take (field_length f) (v_raw f))\<rparr>, False)"

definition generic_store_bulk_variable_size_string :: "value_field \<Rightarrow> bulk_result" where
  "generic_store_bulk_variable_size_string f =
     (None, Some \<lparr>bulk_domain = GRN_DB_SHORT_TEXT, bulk_content = (if v_null f then [] else v_str f)\<rparr>, False)"

definition generic_store_bulk_integer :: "value_field \<Rightarrow> bulk_result" where
  "generic_store_bulk_integer f =
     (let v = (if v_null f then 0 else v_int f) in
      if pack_length f = 1 then int_bulk (if v_unsigned f then GRN_DB_UINT8 else GRN_DB_INT8) 1 v
      else if pack_length f = 2 then int_bulk (if v_unsigned f then GRN_DB_UINT16 else GRN_DB_INT16) 2 v
      else if pack_length f = 3 \<or> pack_length f = 4 then int_bulk (if v_unsigned f then GRN_DB_UINT32 else GRN_DB_INT32) 4 v
      else if pack_length f = 8 then int_bulk (if v_unsigned f then GRN_DB_UINT64 else GRN_DB_INT64) 8 v
      else (Some HA_ERR_UNSUPPORTED, None, True))"

definition generic_store_bulk_unsigned_integer :: "value_field \<Rightarrow> bulk_result" where
  "generic_store_bulk_unsigned_integer f =
     (let v = (if v_null f then 0 else v_int f) in
      if pack_length f = 1 then int_bulk GRN_DB_UINT8 1 v
      else if pack_length f = 2 then int_bulk GRN_DB_UINT16 2 v
      else if pack_length f = 3 \<or> pack_length f = 4 then int_bulk GRN_DB_UINT32 4 v
      else if pack_length f = 5 \<or> pack_length f = 6 \<or> pack_length f = 7 \<or> pack_length f = 8 then int_bulk GRN_DB_UINT64 8 v
      else (Some HA_ERR_UNSUPPORTED, None, True))"

definition generic_store_bulk_float :: "value_field \<Rightarrow> bulk_result" where
  "generic_store_bulk_float f =
     (if pack_length f = 4 \<or> pack_length f = 8
      then (None, Some \<lparr>bulk_domain = GRN_DB_FLOAT, bulk_content = le_bytes 8 (unat (if v_null f then 0 else v_real f))\<rparr>, False)
      else (Some HA_ERR_UNSUPPORTED, None, True))"

text \<open>\<^verbatim>\<open>TimestampFieldValueConverter::convert\<close>\<close>

definition timestamp_convert :: "'a time_env_scheme \<Rightarrow> value_field \<Rightarrow> int" where
  "timestamp_convert env f = (case v_stamp f of None \<Rightarrow> 0 | Some (sec, usec) \<Rightarrow> GRN_TIME_PACK env sec usec)"

definition generic_store_bulk_timestamp :: "value_env \<Rightarrow> value_field \<Rightarrow> bulk_result" where
  "generic_store_bulk_timestamp env f = (None, Some (time_bulk (if v_null f then 0 else timestamp_convert env f)), False)"

text \<open>A date of the old type is read from the number \<^verbatim>\<open>YYYYMMDD\<close>, also when the field is NULL.\<close>

definition generic_store_bulk_date :: "value_env \<Rightarrow> value_field \<Rightarrow> bulk_result" where
  "generic_store_bulk_date env f =
     (let date = zero_tm\<lparr>tm_year := v_int f sdiv 10000 smod 10000 - TM_YEAR_BASE,
            tm_mon := v_int f sdiv 100 smod 100 - 1, tm_mday := v_int f smod 100\<rparr>;
          (time, truncated) = tm_to_grn_time (time_env.truncate env) date 0
      in (None, Some (time_bulk time), truncated))"

definition generic_store_bulk_time :: "value_env \<Rightarrow> value_field \<Rightarrow> bulk_result" where
  "generic_store_bulk_time env f =
     (let (time, truncated) = mysql_time_to_grn_time (time_env.truncate env) (v_time f)
      in (None, Some (time_bulk time), truncated))"

text \<open>The other temporal types: a truncated value is an error in strict mode.\<close>

definition temporal_bulk :: "value_env \<Rightarrow> int \<times> bool \<Rightarrow> bulk_result" where
  "temporal_bulk env r =
     (if snd r \<and> strict_mode env then Some DATA_TRUNCATED else None, Some (time_bulk (fst r)), snd r)"

definition generic_store_bulk_datetime :: "value_env \<Rightarrow> value_field \<Rightarrow> bulk_result" where
  "generic_store_bulk_datetime env f =
     temporal_bulk env (if v_null f then (0, False) else mysql_time_to_grn_time (time_env.truncate env) (v_time f))"

definition generic_store_bulk_year :: "value_env \<Rightarrow> value_field \<Rightarrow> bulk_result" where
  "generic_store_bulk_year env f =
     (let y = (if v_null f then 1970
               else if field_length f = 2 then (if v_int f < 70 then 2000 + v_int f else 1900 + v_int f)
               else v_int f);
          date = zero_tm\<lparr>tm_year := y - TM_YEAR_BASE, tm_mon := 0, tm_mday := 1\<rparr>
      in temporal_bulk env (tm_to_grn_time (time_env.truncate env) date 0))"

definition generic_store_bulk_timestamp2 :: "value_env \<Rightarrow> value_field \<Rightarrow> bulk_result" where
  "generic_store_bulk_timestamp2 env f = (None, Some (time_bulk (if v_null f then 0 else timestamp_convert env f)), False)"

definition generic_store_bulk_datetime2 :: "value_env \<Rightarrow> value_field \<Rightarrow> bulk_result" where
  "generic_store_bulk_datetime2 env f =
     temporal_bulk env (if v_null f then (0, False) else mysql_time_to_grn_time (time_env.truncate env) (v_time f))"

definition generic_store_bulk_time2 :: "value_env \<Rightarrow> value_field \<Rightarrow> bulk_result" where
  "generic_store_bulk_time2 env f =
     temporal_bulk env (if v_null f then (0, False) else mysql_time_to_grn_time (time_env.truncate env) (v_time f))"

definition generic_store_bulk_new_date :: "value_env \<Rightarrow> value_field \<Rightarrow> bulk_result" where
  "generic_store_bulk_new_date env f =
     temporal_bulk env (if v_null f then (0, False) else mysql_time_to_grn_time (time_env.truncate env) (v_time f))"

definition generic_store_bulk_new_decimal :: "value_field \<Rightarrow> bulk_result" where
  "generic_store_bulk_new_decimal f = (None, Some \<lparr>bulk_domain = GRN_DB_SHORT_TEXT, bulk_content = v_str f\<rparr>, False)"

definition generic_store_bulk_blob :: "value_field \<Rightarrow> bulk_result" where
  "generic_store_bulk_blob f =
     (None, Some \<lparr>bulk_domain = GRN_DB_TEXT, bulk_content = (if v_null f then [] else v_str f)\<rparr>, False)"

definition generic_store_bulk_json :: "value_field \<Rightarrow> bulk_result" where
  "generic_store_bulk_json f = (None, Some \<lparr>bulk_domain = GRN_DB_TEXT, bulk_content = v_str f\<rparr>, False)"

definition generic_store_bulk :: "value_env \<Rightarrow> value_field \<Rightarrow> bulk_result" where
  "generic_store_bulk env f =
     (if change_encoding env \<noteq> 0 then (Some (Encoding_error (change_encoding env)), None, False)
      else case v_type f of
        MYSQL_TYPE_DECIMAL \<Rightarrow> generic_store_bulk_variable_size_string f
      | MYSQL_TYPE_TINY \<Rightarrow> generic_store_bulk_integer f
      | MYSQL_TYPE_SHORT \<Rightarrow> generic_store_bulk_integer f
      | MYSQL_TYPE_LONG \<Rightarrow> generic_store_bulk_integer f
      | MYSQL_TYPE_FLOAT \<Rightarrow> generic_store_bulk_float f
      | MYSQL_TYPE_DOUBLE \<Rightarrow> generic_store_bulk_float f
      | MYSQL_TYPE_NULL \<Rightarrow> generic_store_bulk_unsigned_integer f
      | MYSQL_TYPE_TIMESTAMP \<Rightarrow> generic_store_bulk_timestamp env f
      | MYSQL_TYPE_LONGLONG \<Rightarrow> generic_store_bulk_integer f
      | MYSQL_TYPE_INT24 \<Rightarrow> generic_store_bulk_integer f
      | MYSQL_TYPE_DATE \<Rightarrow> generic_store_bulk_date env f
      | MYSQL_TYPE_TIME \<Rightarrow> generic_store_bulk_time env f
      | MYSQL_TYPE_DATETIME \<Rightarrow> generic_store_bulk_datetime env f
      | MYSQL_TYPE_YEAR \<Rightarrow> generic_store_bulk_year env f
      | MYSQL_TYPE_NEWDATE \<Rightarrow> generic_store_bulk_new_date env f
      | MYSQL_TYPE_VARCHAR \<Rightarrow> generic_store_bulk_variable_size_string f
      | MYSQL_TYPE_BIT \<Rightarrow> generic_store_bulk_unsigned_integer f
      | MYSQL_TYPE_TIMESTAMP2 \<Rightarrow> generic_store_bulk_timestamp2 env f
      | MYSQL_TYPE_DATETIME2 \<Rightarrow> generic_store_bulk_datetime2 env f
      | MYSQL_TYPE_TIME2 \<Rightarrow> generic_store_bulk_time2 env f
      | MYSQL_TYPE_NEWDECIMAL \<Rightarrow> generic_store_bulk_new_decimal f
      | MYSQL_TYPE_ENUM \<Rightarrow> generic_store_bulk_unsigned_integer f
      | MYSQL_TYPE_SET \<Rightarrow> generic_store_bulk_unsigned_integer f
      | MYSQL_TYPE_TINY_BLOB \<Rightarrow> generic_store_bulk_blob f
      | MYSQL_TYPE_MEDIUM_BLOB \<Rightarrow> generic_store_bulk_blob f
      | MYSQL_TYPE_LONG_BLOB \<Rightarrow> generic_store_bulk_blob f
      | MYSQL_TYPE_BLOB \<Rightarrow> generic_store_bulk_blob f
      | MYSQL_TYPE_VAR_STRING \<Rightarrow> generic_store_bulk_variable_size_string f
      | MYSQL_TYPE_STRING \<Rightarrow> generic_store_bulk_fixed_size_string f
      | MYSQL_TYPE_GEOMETRY \<Rightarrow> geometry_bulk env (v_str f)
      | MYSQL_TYPE_JSON \<Rightarrow> generic_store_bulk_json f
      | _ \<Rightarrow> (Some HA_ERR_UNSUPPORTED, None, False))"

section \<open>Reading\<close>

text \<open>The calls that store into a field: a number with its sign flag, the bits of a double, a text, a timestamp, a
  time or date, and the bytes a blob or a geometry points to. \<^const>\<open>None\<close> is a date that \<^verbatim>\<open>gmtime_r\<close> cannot give.\<close>

datatype store_call =
    Store_int int bool | Store_real "64 word" | Store_text "byte list" | Store_stamp int int
  | Store_time mysql_time | Store_date mysql_time | Store_datetime mysql_time | Set_blob "byte list" | Store_json "byte list"
  | Store_geometry "byte list"

definition unsigned_value :: "byte list \<Rightarrow> int" where
  "unsigned_value bs = int (le_val bs)"

definition signed_value :: "byte list \<Rightarrow> int" where
  "signed_value bs = (let u = int (le_val bs) in if 2 * u < 2 ^ (8 * length bs) then u else u - 2 ^ (8 * length bs))"

definition storage_store_field_string :: "byte list \<Rightarrow> store_call option" where
  "storage_store_field_string bs = Some (Store_text bs)"

definition storage_store_field_integer :: "value_field \<Rightarrow> byte list \<Rightarrow> store_call option" where
  "storage_store_field_integer f bs =
     (if length bs \<in> {1, 2, 4, 8}
      then Some (Store_int (if v_unsigned f then unsigned_value bs else signed_value bs) (v_unsigned f))
      else storage_store_field_string bs)"

definition storage_store_field_unsigned_integer :: "byte list \<Rightarrow> store_call option" where
  "storage_store_field_unsigned_integer bs =
     (if length bs \<in> {1, 2, 4, 8} then Some (Store_int (unsigned_value bs) True) else storage_store_field_string bs)"

definition storage_store_field_float :: "byte list \<Rightarrow> store_call option" where
  "storage_store_field_float bs = Some (Store_real (of_nat (le_val (take 8 bs))))"

definition storage_store_field_timestamp :: "value_env \<Rightarrow> byte list \<Rightarrow> store_call option" where
  "storage_store_field_timestamp env bs =
     (case GRN_TIME_UNPACK env (signed_value (take 8 bs)) of (sec, usec) \<Rightarrow>
        Some (if my_time_t env then Store_stamp (to_int sec) (to_int usec) else Store_stamp sec usec))"

text \<open>The seconds of a date of the old type are cut to 32 bits.\<close>

definition storage_store_field_date :: "value_env \<Rightarrow> byte list \<Rightarrow> store_call option" where
  "storage_store_field_date env bs =
     (case GRN_TIME_UNPACK env (signed_value (take 8 bs)) of (sec, usec) \<Rightarrow>
        map_option (\<lambda>date. Store_int ((tm_year date + TM_YEAR_BASE) * 10000 + (tm_mon date + 1) * 100 + tm_mday date) False)
          (gmtime_r (to_int sec)))"

definition zero_time :: "timestamp_type \<Rightarrow> mysql_time" where
  "zero_time ty = \<lparr>year = 0, month = 0, day = 0, hour = 0, minute = 0, second = 0, second_part = 0, neg = False, time_type = ty\<rparr>"

definition read_time :: "value_env \<Rightarrow> byte list \<Rightarrow> timestamp_type \<Rightarrow> mysql_time option" where
  "read_time env bs ty = grn_time_to_mysql_time (time_env.truncate env) (signed_value (take 8 bs)) (zero_time ty)"

definition storage_store_field_time :: "value_env \<Rightarrow> byte list \<Rightarrow> store_call option" where
  "storage_store_field_time env bs = map_option Store_time (read_time env bs MYSQL_TIMESTAMP_TIME)"

definition storage_store_field_datetime :: "value_env \<Rightarrow> byte list \<Rightarrow> store_call option" where
  "storage_store_field_datetime env bs = map_option Store_datetime (read_time env bs MYSQL_TIMESTAMP_DATETIME)"

definition storage_store_field_year :: "value_env \<Rightarrow> byte list \<Rightarrow> store_call option" where
  "storage_store_field_year env bs = map_option (\<lambda>t. Store_int (year t) False) (read_time env bs MYSQL_TIMESTAMP_DATE)"

definition storage_store_field_new_date :: "value_env \<Rightarrow> byte list \<Rightarrow> store_call option" where
  "storage_store_field_new_date env bs = map_option Store_date (read_time env bs MYSQL_TIMESTAMP_DATE)"

definition storage_store_field_datetime2 :: "value_env \<Rightarrow> byte list \<Rightarrow> store_call option" where
  "storage_store_field_datetime2 env bs = map_option Store_datetime (read_time env bs MYSQL_TIMESTAMP_DATETIME)"

definition storage_store_field_time2 :: "value_env \<Rightarrow> byte list \<Rightarrow> store_call option" where
  "storage_store_field_time2 env bs = map_option Store_time (read_time env bs MYSQL_TIMESTAMP_TIME)"

definition storage_store_field_blob :: "byte list \<Rightarrow> store_call option" where
  "storage_store_field_blob bs = Some (Set_blob bs)"

definition storage_store_field_blob_compressed :: "byte list \<Rightarrow> store_call option" where
  "storage_store_field_blob_compressed bs = Some (Store_text bs)"

definition storage_store_field_json :: "byte list \<Rightarrow> store_call option" where
  "storage_store_field_json bs = Some (Store_json bs)"

definition any_blob :: "value_field \<Rightarrow> byte list \<Rightarrow> store_call option" where
  "any_blob f bs = (if v_compressed f then storage_store_field_blob_compressed bs else storage_store_field_blob bs)"

text \<open>\<open>geometry\<close> is \<^verbatim>\<open>storage_store_field_geometry\<close>.\<close>

definition storage_store_field :: "value_env \<Rightarrow> (byte list \<Rightarrow> byte list) \<Rightarrow> value_field \<Rightarrow> byte list \<Rightarrow> store_call option" where
  "storage_store_field env geometry f bs = (case v_type f of
      MYSQL_TYPE_DECIMAL \<Rightarrow> storage_store_field_string bs
    | MYSQL_TYPE_TINY \<Rightarrow> storage_store_field_integer f bs
    | MYSQL_TYPE_SHORT \<Rightarrow> storage_store_field_integer f bs
    | MYSQL_TYPE_LONG \<Rightarrow> storage_store_field_integer f bs
    | MYSQL_TYPE_FLOAT \<Rightarrow> storage_store_field_float bs
    | MYSQL_TYPE_DOUBLE \<Rightarrow> storage_store_field_float bs
    | MYSQL_TYPE_NULL \<Rightarrow> storage_store_field_unsigned_integer bs
    | MYSQL_TYPE_TIMESTAMP \<Rightarrow> storage_store_field_timestamp env bs
    | MYSQL_TYPE_LONGLONG \<Rightarrow> storage_store_field_integer f bs
    | MYSQL_TYPE_INT24 \<Rightarrow> storage_store_field_integer f bs
    | MYSQL_TYPE_DATE \<Rightarrow> storage_store_field_date env bs
    | MYSQL_TYPE_TIME \<Rightarrow> storage_store_field_time env bs
    | MYSQL_TYPE_DATETIME \<Rightarrow> storage_store_field_datetime env bs
    | MYSQL_TYPE_YEAR \<Rightarrow> storage_store_field_year env bs
    | MYSQL_TYPE_NEWDATE \<Rightarrow> storage_store_field_new_date env bs
    | MYSQL_TYPE_VARCHAR \<Rightarrow> storage_store_field_string bs
    | MYSQL_TYPE_VARCHAR_COMPRESSED \<Rightarrow> storage_store_field_string bs
    | MYSQL_TYPE_BIT \<Rightarrow> storage_store_field_unsigned_integer bs
    | MYSQL_TYPE_TIMESTAMP2 \<Rightarrow> storage_store_field_timestamp env bs
    | MYSQL_TYPE_DATETIME2 \<Rightarrow> storage_store_field_datetime2 env bs
    | MYSQL_TYPE_TIME2 \<Rightarrow> storage_store_field_time2 env bs
    | MYSQL_TYPE_NEWDECIMAL \<Rightarrow> storage_store_field_string bs
    | MYSQL_TYPE_ENUM \<Rightarrow> storage_store_field_unsigned_integer bs
    | MYSQL_TYPE_SET \<Rightarrow> storage_store_field_unsigned_integer bs
    | MYSQL_TYPE_TINY_BLOB \<Rightarrow> any_blob f bs
    | MYSQL_TYPE_MEDIUM_BLOB \<Rightarrow> any_blob f bs
    | MYSQL_TYPE_LONG_BLOB \<Rightarrow> any_blob f bs
    | MYSQL_TYPE_BLOB \<Rightarrow> any_blob f bs
    | MYSQL_TYPE_BLOB_COMPRESSED \<Rightarrow> any_blob f bs
    | MYSQL_TYPE_VAR_STRING \<Rightarrow> storage_store_field_string bs
    | MYSQL_TYPE_STRING \<Rightarrow> storage_store_field_string bs
    | MYSQL_TYPE_GEOMETRY \<Rightarrow> Some (Store_geometry (geometry bs))
    | MYSQL_TYPE_JSON \<Rightarrow> storage_store_field_json bs)"

section \<open>Integers\<close>

lemma length_int_content [simp]: "length (int_content n v) = n"
  by (simp add: int_content_def)

lemma le_val_int_content: "int (le_val (int_content n v)) = v mod 2 ^ (8 * n)"
proof -
  have "(256 :: nat) ^ n = 2 ^ (8 * n)" by (simp add: power_mult)
  moreover have "v mod 2 ^ (8 * n) \<ge> 0" "v mod 2 ^ (8 * n) < 2 ^ (8 * n)" by simp_all
  ultimately have "le_val (int_content n v) = nat (v mod 2 ^ (8 * n))"
    by (simp add: int_content_def le_val_le_bytes nat_less_iff)
  then show ?thesis by simp
qed

lemma unsigned_content: "unsigned_value (int_content n v) = v mod 2 ^ (8 * n)"
  by (simp add: unsigned_value_def le_val_int_content)

lemma signed_content:
  assumes "- (2 ^ (8 * n)) \<le> 2 * v" "2 * v < 2 ^ (8 * n)"
  shows "signed_value (int_content n v) = v"
proof (cases "0 \<le> v")
  case True
  then have "v mod 2 ^ (8 * n) = v" using assms(2) by simp
  then show ?thesis using assms(2) True by (simp add: signed_value_def le_val_int_content)
next
  case False
  have "v mod 2 ^ (8 * n) = (v + 2 ^ (8 * n)) mod 2 ^ (8 * n)" by simp
  also have "\<dots> = v + 2 ^ (8 * n)" using False assms(1) by (intro mod_pos_pos_trivial) auto
  finally show ?thesis using assms(1) False by (simp add: signed_value_def le_val_int_content Let_def)
qed

definition fits_time :: "int \<Rightarrow> bool" where
  "fits_time t \<longleftrightarrow> - (2 ^ 63) \<le> t \<and> t < 2 ^ 63"

lemma time_content: "fits_time t \<Longrightarrow> signed_value (take 8 (bulk_content (time_bulk t))) = t"
  using signed_content [of 8 t] by (simp add: time_bulk_def fits_time_def)

text \<open>The range of an integer field, as \<^verbatim>\<open>val_int\<close> gives it: a large unsigned number of 64 bits comes as a negative
  one.\<close>

definition int_in_range :: "value_field \<Rightarrow> bool" where
  "int_in_range f \<longleftrightarrow>
     (if pack_length f = 8 then - (2 ^ 63) \<le> v_int f \<and> v_int f < 2 ^ 63
      else if v_unsigned f then 0 \<le> v_int f \<and> v_int f < 2 ^ (8 * pack_length f)
      else - (2 ^ (8 * pack_length f)) \<le> 2 * v_int f \<and> 2 * v_int f < 2 ^ (8 * pack_length f))"

lemma integer_field_roundtrip:
  assumes "pack_length f \<in> {1, 2, 3, 4, 8}" "int_in_range f" "\<not> v_null f"
  shows "\<exists>b. generic_store_bulk_integer f = (None, Some b, False)
    \<and> storage_store_field_integer f (bulk_content b) = Some (Store_int (if v_unsigned f then v_int f mod 2 ^ 64 else v_int f) (v_unsigned f))"
proof -
  have big: "v_int f mod 18446744073709551616 = v_int f" if "0 \<le> v_int f" "v_int f < 2 ^ 32" using that by simp
  consider "pack_length f = 1" | "pack_length f = 2" | "pack_length f = 3" | "pack_length f = 4" | "pack_length f = 8"
    using assms(1) by auto
  then show ?thesis
  proof cases
    case 3
    then show ?thesis using assms(2,3) signed_content [of 4 "v_int f"] big
      by (auto simp: generic_store_bulk_integer_def int_bulk_def storage_store_field_integer_def int_in_range_def unsigned_content Let_def)
  qed (use assms(2,3) signed_content [of "pack_length f" "v_int f"] big in
      \<open>auto simp: generic_store_bulk_integer_def int_bulk_def storage_store_field_integer_def int_in_range_def unsigned_content Let_def\<close>)
qed

lemma unsigned_field_roundtrip:
  assumes "pack_length f \<in> {1..8}" "if pack_length f = 8 then - (2 ^ 63) \<le> v_int f \<and> v_int f < 2 ^ 63 else 0 \<le> v_int f \<and> v_int f < 2 ^ (8 * pack_length f)"
    and "\<not> v_null f"
  shows "\<exists>b. generic_store_bulk_unsigned_integer f = (None, Some b, False)
    \<and> storage_store_field_unsigned_integer (bulk_content b) = Some (Store_int (v_int f mod 2 ^ 64) True)"
proof -
  have up: "v_int f mod 2 ^ (8 * m) = v_int f mod 2 ^ 64" if "pack_length f \<le> m" "m \<le> 8" "pack_length f < 8" for m
  proof -
    have r: "0 \<le> v_int f" "v_int f < 2 ^ (8 * pack_length f)" using assms(2) that(3) by simp_all
    have "(2 :: int) ^ (8 * pack_length f) \<le> 2 ^ (8 * m)" using that by simp
    moreover have "(2 :: int) ^ (8 * m) \<le> 2 ^ 64" using that power_increasing [of "8 * m" 64 "2 :: int"] by simp
    ultimately have "v_int f < 2 ^ (8 * m)" "v_int f < 2 ^ 64" using r(2) by linarith+
    then show ?thesis using r(1) by simp
  qed
  have "pack_length f = 1 \<or> pack_length f = 2 \<or> pack_length f = 3 \<or> pack_length f = 4 \<or> pack_length f = 5 \<or> pack_length f = 6
      \<or> pack_length f = 7 \<or> pack_length f = 8"
    using assms(1) by auto
  then show ?thesis
    using up [of 1] up [of 2] up [of 4] assms(3)
    by (elim disjE) (simp_all add: generic_store_bulk_unsigned_integer_def int_bulk_def storage_store_field_unsigned_integer_def unsigned_content)
qed

section \<open>Dates and times\<close>

text \<open>What a temporal field relies on: the server's clock and Groonga's macros.\<close>

definition clock_ok :: "(int \<Rightarrow> int) \<Rightarrow> value_env \<Rightarrow> bool" where
  "clock_ok off env \<longleftrightarrow> mktime_in_zone off (mktime env) \<and> zone_offset off \<and> groonga_macros (time_env.truncate env)"

lemma truncate_env [simp]:
  "mktime (time_env.truncate env) = mktime env" "GRN_TIME_PACK (time_env.truncate env) = GRN_TIME_PACK env"
  "GRN_TIME_UNPACK (time_env.truncate env) = GRN_TIME_UNPACK env"
  by (simp_all add: time_env.truncate_def)

definition exists_locally :: "(int \<Rightarrow> int) \<Rightarrow> mysql_time \<Rightarrow> bool" where
  "exists_locally off mt \<longleftrightarrow> (\<exists>t. same_civil (tm_of_mysql_time mt) (localtime off t))"

lemma clock_packing: "clock_ok off env \<Longrightarrow> grn_time_packing (time_env.truncate env)"
  by (simp add: clock_ok_def macros_packing)

lemma clock_pack: "clock_ok off env \<Longrightarrow> GRN_TIME_PACK env sec usec = sec * 1000000 + usec"
  by (simp add: clock_ok_def groonga_macros_def)

lemma clock_unpack: "clock_ok off env \<Longrightarrow> GRN_TIME_UNPACK env t = (t sdiv 1000000, t smod 1000000)"
  by (simp add: clock_ok_def groonga_macros_def)

lemma clock_fits: "clock_ok off env \<Longrightarrow> \<bar>sec\<bar> < 2 ^ 40 \<Longrightarrow> 0 \<le> usec \<Longrightarrow> usec < 1000000 \<Longrightarrow> fits_time (GRN_TIME_PACK env sec usec)"
  by (simp add: clock_pack fits_time_def abs_less_iff)

text \<open>A date and time is written as the time of its fields in UTC.\<close>

lemma datetime_write:
  assumes "clock_ok off env" "mysql_datetime mt" "exists_locally off mt"
  shows "mysql_time_to_grn_time (time_env.truncate env) mt = (GRN_TIME_PACK env (timegm (tm_of_mysql_time mt)) (second_part mt), False)"
    "fits_time (GRN_TIME_PACK env (timegm (tm_of_mysql_time mt)) (second_part mt))"
proof -
  let ?g = "tm_of_mysql_time mt"
  obtain t where t: "same_civil ?g (localtime off t)" using assms(3) by (auto simp: exists_locally_def)
  have c: "mktime_in_zone off (mktime (time_env.truncate env))" "zone_offset off" using assms(1) by (simp_all add: clock_ok_def)
  have v: "valid_tm ?g" "mysql_year (tm_year ?g + TM_YEAR_BASE)" "0 \<le> second_part mt" "second_part mt < 1000000"
    using assms(2) by (auto simp: mysql_datetime_def)
  have "\<bar>timegm ?g\<bar> < 2 ^ 40" using timegm_mysql_bounds(1,2) [OF v(1,2)] by simp
  then show "fits_time (GRN_TIME_PACK env (timegm ?g) (second_part mt))" using clock_fits [OF assms(1)] v by simp
  show "mysql_time_to_grn_time (time_env.truncate env) mt = (GRN_TIME_PACK env (timegm ?g) (second_part mt), False)"
    using mysql_datetime_to_grn [OF assms(2) c t] by simp
qed

text \<open>What a date and time is read as: itself, but before 1970 with microseconds one second later with negative microseconds that wrap around.\<close>

definition read_datetime :: "mysql_time \<Rightarrow> mysql_time" where
  "read_datetime mt = (if 1970 \<le> year mt \<or> second_part mt = 0 then mt
     else let d = gmtime (timegm (tm_of_mysql_time mt) + 1) in
       mt\<lparr>year := tm_year d + TM_YEAR_BASE, month := tm_mon d + 1, day := tm_mday d, hour := tm_hour d, minute := tm_min d, second := tm_sec d,
         second_part := 2 ^ 64 - 1000000 + second_part mt\<rparr>)"

lemma datetime_value:
  assumes "clock_ok off env" "mysql_datetime mt" "exists_locally off mt"
  shows "grn_time_to_mysql_time (time_env.truncate env) (GRN_TIME_PACK env (timegm (tm_of_mysql_time mt)) (second_part mt)) (zero_time MYSQL_TIMESTAMP_DATETIME)
    = Some (read_datetime mt)"
proof -
  have z: "(zero_time MYSQL_TIMESTAMP_DATETIME)\<lparr>time_type := MYSQL_TIMESTAMP_DATETIME\<rparr> = zero_time MYSQL_TIMESTAMP_DATETIME"
    "neg (zero_time MYSQL_TIMESTAMP_DATETIME) = False" by (simp_all add: zero_time_def)
  have v: "\<not> neg mt" "time_type mt = MYSQL_TIMESTAMP_DATETIME" using assms(2) by (simp_all add: mysql_datetime_def)
  show ?thesis
  proof (cases "1970 \<le> year mt \<or> second_part mt = 0")
    case True
    then have "valid_datetime mt" using assms(2) by (simp add: valid_datetime_iff)
    moreover have "mt\<lparr>neg := False\<rparr> = mt" using v(1) by (cases mt) simp
    ultimately show ?thesis
      using grn_time_to_datetime [of mt "time_env.truncate env" "zero_time MYSQL_TIMESTAMP_DATETIME"] clock_packing [OF assms(1)] z True
      by (simp add: read_datetime_def)
  next
    case False
    have m: "groonga_macros (time_env.truncate env)" using assms(1) by (simp add: clock_ok_def)
    obtain x where x: "grn_time_to_mysql_time (time_env.truncate env) (GRN_TIME_PACK env (timegm (tm_of_mysql_time mt)) (second_part mt))
          (zero_time MYSQL_TIMESTAMP_DATETIME) = Some x"
      "same_civil (tm_of_mysql_time x) (gmtime (timegm (tm_of_mysql_time mt) + 1))" "second_part x = 2 ^ 64 - 1000000 + second_part mt"
      "\<not> neg x" "time_type x = MYSQL_TIMESTAMP_DATETIME"
      using grn_time_before_epoch [OF assms(2) _ _ m, of "zero_time MYSQL_TIMESTAMP_DATETIME"] False z by auto
    have "x = read_datetime mt"
      using x(2-5) False v by (intro mysql_time.equality) (auto simp: read_datetime_def same_civil_def Let_def)
    then show ?thesis using x(1) by simp
  qed
qed

text \<open>A date is the midnight of its day.\<close>

definition midnight :: "int \<Rightarrow> int \<Rightarrow> int \<Rightarrow> mysql_time" where
  "midnight y m d = \<lparr>year = y, month = m, day = d, hour = 0, minute = 0, second = 0, second_part = 0, neg = False,
     time_type = MYSQL_TIMESTAMP_DATETIME\<rparr>"

definition date_value :: "int \<Rightarrow> int \<Rightarrow> int \<Rightarrow> mysql_time" where
  "date_value y m d = (midnight y m d)\<lparr>time_type := MYSQL_TIMESTAMP_DATE\<rparr>"

lemma date_to_grn_time: "mysql_time_to_grn_time env (date_value y m d) = mysql_time_to_grn_time env (midnight y m d)"
  by (simp add: mysql_time_to_grn_time_def date_value_def midnight_def date_fields_def zero_tm_def case_prod_unfold Let_def)

lemma grn_time_to_date:
  assumes "grn_time_to_mysql_time env g (zero_time MYSQL_TIMESTAMP_DATETIME) = Some (midnight y m d)"
  shows "grn_time_to_mysql_time env g (zero_time MYSQL_TIMESTAMP_DATE) = Some (date_value y m d)"
  using assms by (auto simp: grn_time_to_mysql_time_def zero_time_def date_value_def midnight_def split: prod.splits)

text \<open>A stored date gives the date back.\<close>

lemma date_value_back:
  assumes "clock_ok off env" "valid_datetime (midnight y m d)" "exists_locally off (midnight y m d)"
  obtains t where "mysql_time_to_grn_time (time_env.truncate env) (date_value y m d) = (t, False)"
    "mysql_time_to_grn_time (time_env.truncate env) (midnight y m d) = (t, False)"
    "fits_time t" "grn_time_to_mysql_time (time_env.truncate env) t (zero_time MYSQL_TIMESTAMP_DATE) = Some (date_value y m d)"
proof -
  have v: "mysql_datetime (midnight y m d)" using assms(2) by (simp add: valid_datetime_iff)
  have "read_datetime (midnight y m d) = midnight y m d" by (simp add: read_datetime_def midnight_def)
  then show thesis
    using datetime_write [OF assms(1) v assms(3)] grn_time_to_date datetime_value [OF assms(1) v assms(3)] that by (metis date_to_grn_time)
qed

text \<open>The first day of a year, as the handler builds it.\<close>

lemma year_time:
  assumes "0 \<le> y" "y \<le> 9999"
  shows "tm_to_grn_time env (zero_tm\<lparr>tm_year := y - TM_YEAR_BASE, tm_mon := 0, tm_mday := 1\<rparr>) 0 = mysql_time_to_grn_time env (midnight y 1 1)"
proof -
  have "to_int (y - TM_YEAR_BASE) = y - TM_YEAR_BASE" using assms by (intro to_int_id) (auto simp: TM_YEAR_BASE_def)
  moreover have "to_int 0 = 0" by (intro to_int_id) auto
  ultimately show ?thesis
    by (simp add: mysql_time_to_grn_time_def midnight_def date_fields_def zero_tm_def case_prod_unfold Let_def)
qed

section \<open>Properties\<close>

definition field_year :: "value_field \<Rightarrow> int" where
  "field_year f = (if field_length f = 2 then (if v_int f < 70 then 2000 + v_int f else 1900 + v_int f) else v_int f)"

text \<open>The lengths MySQL gives to fields of each type.\<close>

definition field_shape :: "value_field \<Rightarrow> bool" where
  "field_shape f \<longleftrightarrow> (case v_type f of
      MYSQL_TYPE_TINY \<Rightarrow> pack_length f = 1
    | MYSQL_TYPE_SHORT \<Rightarrow> pack_length f = 2
    | MYSQL_TYPE_INT24 \<Rightarrow> pack_length f = 3
    | MYSQL_TYPE_LONG \<Rightarrow> pack_length f = 4
    | MYSQL_TYPE_LONGLONG \<Rightarrow> pack_length f = 8
    | MYSQL_TYPE_FLOAT \<Rightarrow> pack_length f = 4
    | MYSQL_TYPE_DOUBLE \<Rightarrow> pack_length f = 8
    | MYSQL_TYPE_BIT \<Rightarrow> pack_length f \<in> {1..8} \<and> key_length f = pack_length f
    | MYSQL_TYPE_ENUM \<Rightarrow> pack_length f \<in> {1, 2}
    | MYSQL_TYPE_SET \<Rightarrow> pack_length f \<in> {1, 2, 3, 4, 8}
    | MYSQL_TYPE_STRING \<Rightarrow> length (v_raw f) = field_length f
    | _ \<Rightarrow> True)"

definition bits_in_range :: "value_field \<Rightarrow> bool" where
  "bits_in_range f \<longleftrightarrow>
     (if pack_length f = 8 then - (2 ^ 63) \<le> v_int f \<and> v_int f < 2 ^ 63 else 0 \<le> v_int f \<and> v_int f < 2 ^ (8 * pack_length f))"

definition plain_time :: "mysql_time \<Rightarrow> bool" where
  "plain_time mt \<longleftrightarrow> valid_time mt \<and> year mt = 0 \<and> month mt = 0 \<and> day mt = 0"

text \<open>The values MySQL keeps in fields of each type, in the local time zone \<open>off\<close> of the server: dates are complete and exist in it. Geometries are
  a parameter, and there are no columns of the type of NULL. A field that is NULL has no value, but \<^verbatim>\<open>get_time\<close> gives a time also then.\<close>

definition value_ok :: "(int \<Rightarrow> int) \<Rightarrow> value_field \<Rightarrow> bool" where
  "value_ok off f \<longleftrightarrow> (case v_type f of
      MYSQL_TYPE_TINY \<Rightarrow> v_null f \<or> int_in_range f
    | MYSQL_TYPE_SHORT \<Rightarrow> v_null f \<or> int_in_range f
    | MYSQL_TYPE_INT24 \<Rightarrow> v_null f \<or> int_in_range f
    | MYSQL_TYPE_LONG \<Rightarrow> v_null f \<or> int_in_range f
    | MYSQL_TYPE_LONGLONG \<Rightarrow> v_null f \<or> int_in_range f
    | MYSQL_TYPE_BIT \<Rightarrow> v_null f \<or> bits_in_range f
    | MYSQL_TYPE_ENUM \<Rightarrow> v_null f \<or> bits_in_range f
    | MYSQL_TYPE_SET \<Rightarrow> v_null f \<or> bits_in_range f
    | MYSQL_TYPE_TIMESTAMP \<Rightarrow> v_null f \<or> (\<exists>sec usec. v_stamp f = Some (sec, usec) \<and> 0 \<le> sec \<and> sec < 2 ^ 40 \<and> 0 \<le> usec \<and> usec < 1000000)
    | MYSQL_TYPE_TIMESTAMP2 \<Rightarrow> v_null f \<or> (\<exists>sec usec. v_stamp f = Some (sec, usec) \<and> 0 \<le> sec \<and> sec < 2 ^ 40 \<and> 0 \<le> usec \<and> usec < 1000000)
    | MYSQL_TYPE_DATETIME \<Rightarrow> v_null f \<or> mysql_datetime (v_time f) \<and> exists_locally off (v_time f)
    | MYSQL_TYPE_DATETIME2 \<Rightarrow> v_null f \<or> mysql_datetime (v_time f) \<and> exists_locally off (v_time f)
    | MYSQL_TYPE_TIME \<Rightarrow> plain_time (v_time f)
    | MYSQL_TYPE_TIME2 \<Rightarrow> v_null f \<or> plain_time (v_time f)
    | MYSQL_TYPE_DATE \<Rightarrow> (\<exists>y m d. v_int f = y * 10000 + m * 100 + d \<and> valid_datetime (midnight y m d) \<and> exists_locally off (midnight y m d))
    | MYSQL_TYPE_NEWDATE \<Rightarrow> v_null f \<or> (\<exists>y m d. v_time f = date_value y m d \<and> valid_datetime (midnight y m d) \<and> exists_locally off (midnight y m d))
    | MYSQL_TYPE_YEAR \<Rightarrow> (let y = (if v_null f then 1970 else field_year f) in valid_datetime (midnight y 1 1) \<and> exists_locally off (midnight y 1 1))
    | MYSQL_TYPE_NULL \<Rightarrow> False
    | MYSQL_TYPE_GEOMETRY \<Rightarrow> False
    | MYSQL_TYPE_VARCHAR_COMPRESSED \<Rightarrow> False
    | MYSQL_TYPE_BLOB_COMPRESSED \<Rightarrow> False
    | _ \<Rightarrow> True)"

text \<open>What is kept of a field. NULL is kept as the default value of its type.\<close>

definition default_value :: "value_field \<Rightarrow> value_field" where
  "default_value f = f\<lparr>v_int := (if v_type f = MYSQL_TYPE_YEAR then 1970 else if v_type f = MYSQL_TYPE_DATE then v_int f else 0),
     field_length := (if v_type f = MYSQL_TYPE_YEAR then 4 else field_length f), v_real := 0,
     v_str := (if v_type f \<in> {MYSQL_TYPE_NEWDECIMAL, MYSQL_TYPE_JSON} then v_str f else []), v_raw := replicate (field_length f) 32,
     v_stamp := Some (0, 0),
     v_time := (if v_type f = MYSQL_TYPE_TIME then v_time f
       else if v_type f = MYSQL_TYPE_TIME2 then zero_time MYSQL_TIMESTAMP_TIME
       else if v_type f = MYSQL_TYPE_NEWDATE then date_value 1970 1 1 else midnight 1970 1 1)\<rparr>"

text \<open>A negative TIME keeps its sign only from a second on, and its microseconds are negative and wrap around.\<close>

definition read_plain_time :: "mysql_time \<Rightarrow> mysql_time" where
  "read_plain_time mt = (if neg mt
     then mt\<lparr>neg := 0 < seconds_of_time mt, second_part := (if second_part mt = 0 then 0 else 2 ^ 64 - second_part mt)\<rparr> else mt)"

text \<open>The number \<^verbatim>\<open>YYYYMMDD\<close> of a date of the old type, whose seconds are cut to 32 bits.\<close>

definition date_seconds :: "int \<Rightarrow> int" where
  "date_seconds n = timegm (zero_tm\<lparr>tm_year := n div 10000 - TM_YEAR_BASE, tm_mon := n div 100 mod 100 - 1, tm_mday := n mod 100\<rparr>)"

definition read_old_date :: "int \<Rightarrow> int" where
  "read_old_date n = (if to_int (date_seconds n) = date_seconds n then n
     else let d = gmtime (to_int (date_seconds n)) in (tm_year d + TM_YEAR_BASE) * 10000 + (tm_mon d + 1) * 100 + tm_mday d)"

definition kept_value :: "value_env \<Rightarrow> value_field \<Rightarrow> value_field" where
  "kept_value env f0 = (let f = (if v_null f0 then default_value f0 else f0) in case v_type f of
      MYSQL_TYPE_DATETIME \<Rightarrow> f\<lparr>v_time := read_datetime (v_time f)\<rparr>
    | MYSQL_TYPE_DATETIME2 \<Rightarrow> f\<lparr>v_time := read_datetime (v_time f)\<rparr>
    | MYSQL_TYPE_TIME \<Rightarrow> f\<lparr>v_time := read_plain_time (v_time f)\<rparr>
    | MYSQL_TYPE_TIME2 \<Rightarrow> f\<lparr>v_time := read_plain_time (v_time f)\<rparr>
    | MYSQL_TYPE_DATE \<Rightarrow> f\<lparr>v_int := read_old_date (v_int f)\<rparr>
    | MYSQL_TYPE_TIMESTAMP \<Rightarrow> if my_time_t env then f\<lparr>v_stamp := map_option (map_prod to_int to_int) (v_stamp f)\<rparr> else f
    | MYSQL_TYPE_TIMESTAMP2 \<Rightarrow> if my_time_t env then f\<lparr>v_stamp := map_option (map_prod to_int to_int) (v_stamp f)\<rparr> else f
    | _ \<Rightarrow> f)"

text \<open>The call that stores the value of a field again.\<close>

definition blob_call :: "value_field \<Rightarrow> store_call" where
  "blob_call f = (if v_compressed f then Store_text (v_str f) else Set_blob (v_str f))"

definition int_call :: "value_field \<Rightarrow> store_call" where
  "int_call f = Store_int (if v_unsigned f then v_int f mod 2 ^ 64 else v_int f) (v_unsigned f)"

definition value_call :: "value_field \<Rightarrow> store_call" where
  "value_call f = (case v_type f of
      MYSQL_TYPE_TINY \<Rightarrow> int_call f
    | MYSQL_TYPE_SHORT \<Rightarrow> int_call f
    | MYSQL_TYPE_INT24 \<Rightarrow> int_call f
    | MYSQL_TYPE_LONG \<Rightarrow> int_call f
    | MYSQL_TYPE_LONGLONG \<Rightarrow> int_call f
    | MYSQL_TYPE_BIT \<Rightarrow> Store_int (v_int f mod 2 ^ 64) True
    | MYSQL_TYPE_ENUM \<Rightarrow> Store_int (v_int f mod 2 ^ 64) True
    | MYSQL_TYPE_SET \<Rightarrow> Store_int (v_int f mod 2 ^ 64) True
    | MYSQL_TYPE_FLOAT \<Rightarrow> Store_real (v_real f)
    | MYSQL_TYPE_DOUBLE \<Rightarrow> Store_real (v_real f)
    | MYSQL_TYPE_TIMESTAMP \<Rightarrow> Store_stamp (fst (the (v_stamp f))) (snd (the (v_stamp f)))
    | MYSQL_TYPE_TIMESTAMP2 \<Rightarrow> Store_stamp (fst (the (v_stamp f))) (snd (the (v_stamp f)))
    | MYSQL_TYPE_DATETIME \<Rightarrow> Store_datetime (v_time f)
    | MYSQL_TYPE_DATETIME2 \<Rightarrow> Store_datetime (v_time f)
    | MYSQL_TYPE_TIME \<Rightarrow> Store_time (v_time f)
    | MYSQL_TYPE_TIME2 \<Rightarrow> Store_time (v_time f)
    | MYSQL_TYPE_NEWDATE \<Rightarrow> Store_date (v_time f)
    | MYSQL_TYPE_DATE \<Rightarrow> Store_int (v_int f) False
    | MYSQL_TYPE_YEAR \<Rightarrow> Store_int (field_year f) False
    | MYSQL_TYPE_STRING \<Rightarrow> Store_text (v_raw f)
    | MYSQL_TYPE_TINY_BLOB \<Rightarrow> blob_call f
    | MYSQL_TYPE_MEDIUM_BLOB \<Rightarrow> blob_call f
    | MYSQL_TYPE_LONG_BLOB \<Rightarrow> blob_call f
    | MYSQL_TYPE_BLOB \<Rightarrow> blob_call f
    | MYSQL_TYPE_JSON \<Rightarrow> Store_json (v_str f)
    | _ \<Rightarrow> Store_text (v_str f))"

text \<open>The families of types.\<close>

lemma float_roundtrip:
  "pack_length f \<in> {4, 8} \<Longrightarrow>
     \<exists>b. generic_store_bulk_float f = (None, Some b, False) \<and> storage_store_field_float (bulk_content b) = Some (Store_real (if v_null f then 0 else v_real f))"
  using unsigned_less [of "v_real f", where 'a = nat]
  by (auto simp: generic_store_bulk_float_def storage_store_field_float_def le_val_le_bytes)

definition stamp_call :: "value_env \<Rightarrow> int \<Rightarrow> int \<Rightarrow> store_call" where
  "stamp_call env sec usec = (if my_time_t env then Store_stamp (to_int sec) (to_int usec) else Store_stamp sec usec)"

lemma stamp_roundtrip:
  assumes "clock_ok off env" "v_stamp f = Some (sec, usec)" "0 \<le> sec" "sec < 2 ^ 40" "0 \<le> usec" "usec < 1000000"
  shows "storage_store_field_timestamp env (bulk_content (time_bulk (timestamp_convert env f))) = Some (stamp_call env sec usec)"
proof -
  have "fits_time (GRN_TIME_PACK env sec usec)" using assms by (intro clock_fits) simp_all
  moreover have "GRN_TIME_UNPACK env (GRN_TIME_PACK env sec usec) = (sec, usec)"
    using assms clock_packing [OF assms(1)] unfolding grn_time_packing_def by (metis truncate_env(2,3))
  ultimately show ?thesis using assms(2) by (simp add: storage_store_field_timestamp_def timestamp_convert_def time_content stamp_call_def)
qed

lemma datetime_read:
  assumes "clock_ok off env" "mysql_datetime mt" "exists_locally off mt"
  obtains t where "mysql_time_to_grn_time (time_env.truncate env) mt = (t, False)"
    "read_time env (bulk_content (time_bulk t)) MYSQL_TIMESTAMP_DATETIME = Some (read_datetime mt)"
  using datetime_write [OF assms] datetime_value [OF assms] that by (auto simp: read_time_def time_content)

lemma date_read:
  assumes "clock_ok off env" "valid_datetime (midnight y m d)" "exists_locally off (midnight y m d)"
  obtains t where "mysql_time_to_grn_time (time_env.truncate env) (date_value y m d) = (t, False)"
    "mysql_time_to_grn_time (time_env.truncate env) (midnight y m d) = (t, False)"
    "read_time env (bulk_content (time_bulk t)) MYSQL_TIMESTAMP_DATE = Some (date_value y m d)"
  using date_value_back [OF assms] that by (metis read_time_def time_content)

lemma time_write:
  assumes "valid_time mt"
  shows "mysql_time_to_grn_time env mt
    = (if neg mt then - GRN_TIME_PACK env (seconds_of_time mt) (second_part mt) else GRN_TIME_PACK env (seconds_of_time mt) (second_part mt), False)"
proof -
  have s: "0 \<le> seconds_of_time mt" "seconds_of_time mt < 2 ^ 31" using assms by (auto simp: valid_time_def seconds_of_time_def)
  have "to_int (seconds_of_time mt) = seconds_of_time mt" "to_int (second_part mt) = second_part mt"
    by (rule to_int_id; use s assms in \<open>auto simp: valid_time_def\<close>)+
  then show ?thesis using assms by (simp add: mysql_time_to_grn_time_def valid_time_def Let_def)
qed

lemma time_read:
  assumes "clock_ok off env" "plain_time mt"
  obtains t where "mysql_time_to_grn_time (time_env.truncate env) mt = (t, False)"
    "read_time env (bulk_content (time_bulk t)) MYSQL_TIMESTAMP_TIME = Some (read_plain_time mt)"
proof -
  let ?s = "seconds_of_time mt" and ?us = "second_part mt" and ?z = "zero_time MYSQL_TIMESTAMP_TIME"
  let ?p = "GRN_TIME_PACK env ?s ?us"
  have v: "valid_time mt" "0 \<le> ?us" "?us < 1000000" using assms(2) by (simp_all add: plain_time_def valid_time_def)
  have s: "0 \<le> ?s" "?s < 2 ^ 31" using v(1) by (auto simp: valid_time_def seconds_of_time_def)
  have fits: "fits_time ?p" "fits_time (- ?p)" using s v(2,3) by (simp_all add: fits_time_def clock_pack [OF assms(1)])
  have t: "mysql_time_to_grn_time (time_env.truncate env) mt = (if neg mt then - ?p else ?p, False)" using time_write [OF v(1)] by simp
  have p: "valid_time (mt\<lparr>neg := False\<rparr>)" "\<not> neg (mt\<lparr>neg := False\<rparr>)" "year mt = 0" "month mt = 0" "day mt = 0" "time_type mt = MYSQL_TIMESTAMP_TIME"
    using assms(2) by (simp_all add: plain_time_def valid_time_def)
  have "grn_time_to_mysql_time (time_env.truncate env) (fst (mysql_time_to_grn_time (time_env.truncate env) (mt\<lparr>neg := False\<rparr>))) ?z = Some (mt\<lparr>neg := False\<rparr>)"
    using time_roundtrip [OF p(1,2) clock_packing [OF assms(1)], of ?z] p(3-6) by (simp add: zero_time_def)
  then have plus: "grn_time_to_mysql_time (time_env.truncate env) ?p ?z = Some (mt\<lparr>neg := False\<rparr>)"
    using time_write [OF p(1), of "time_env.truncate env"] by (simp add: seconds_of_time_def)
  have "GRN_TIME_UNPACK env ?p = (?s, ?us)"
    using clock_packing [OF assms(1)] s v(2,3) unfolding grn_time_packing_def by (metis truncate_env(2,3))
  then have u: "?p sdiv 1000000 = ?s" "?p smod 1000000 = ?us" by (simp_all add: clock_unpack [OF assms(1)])
  have h: "to_uint (?s sdiv 60 sdiv 60) = hour mt" "?s sdiv 60 smod 60 = minute mt" "?s smod 60 = second mt"
    using plus s u by (auto simp: grn_time_to_mysql_time_def clock_unpack [OF assms(1)] Let_def zero_time_def
        dest: arg_cong [of _ _ hour] arg_cong [of _ _ minute] arg_cong [of _ _ second])
  have w: "to_ulong (- ?us) = (if ?us = 0 then 0 else 2 ^ 64 - ?us)"
  proof (cases "?us = 0")
    case False
    then have "(- ?us) mod 2 ^ 64 = 2 ^ 64 - ?us" using v(2,3) by (intro int_mod_pos_eq [where q = "- 1"]) auto
    then show ?thesis using False by (simp add: to_ulong_def)
  qed (simp add: to_ulong_def)
  have "grn_time_to_mysql_time (time_env.truncate env) (- ?p) ?z = Some (read_plain_time mt)" if "neg mt"
  proof -
    define sec where "sec = ?s"
    define usec where "usec = ?us"
    have un: "GRN_TIME_UNPACK (time_env.truncate env) (- ?p) = (- sec, - usec)"
      using u by (simp add: clock_unpack [OF assms(1)] sec_def usec_def)
    have h0: "0 = hour mt" "0 = minute mt" "0 = second mt" if "\<not> 0 < sec"
      using that h s(1) by (simp_all add: sec_def to_uint_def)
    show ?thesis
    proof (cases "0 < sec")
      case True
      then show ?thesis
        using that h [folded sec_def] w [folded usec_def] p(3-6) unfolding grn_time_to_mysql_time_def un
        by (auto simp: zero_time_def read_plain_time_def sec_def [symmetric] usec_def [symmetric] intro!: mysql_time.equality)
    next
      case False
      then have "sec = 0" using s(1) by (simp add: sec_def)
      then show ?thesis
        using that h0 [OF False] w [folded usec_def] p(3-6) unfolding grn_time_to_mysql_time_def un
        by (auto simp: zero_time_def read_plain_time_def sec_def [symmetric] usec_def [symmetric] to_uint_def intro!: mysql_time.equality)
    qed
  qed
  moreover have "read_plain_time mt = mt\<lparr>neg := False\<rparr>" if "\<not> neg mt" using that by (cases mt) (simp add: read_plain_time_def)
  ultimately show thesis using that [of "if neg mt then - ?p else ?p"] t fits plus by (auto simp: read_time_def time_content)
qed

lemma temporal_bulk_exact: "temporal_bulk env (t, False) = (None, Some (time_bulk t), False)"
  by (simp add: temporal_bulk_def)

lemma year_read:
  assumes "clock_ok off env" "y = (if v_null f then 1970 else field_year f)" "valid_datetime (midnight y 1 1)" "exists_locally off (midnight y 1 1)"
  shows "\<exists>b. generic_store_bulk_year env f = (None, Some b, False) \<and> storage_store_field_year env (bulk_content b) = Some (Store_int y False)"
proof -
  obtain t where t: "mysql_time_to_grn_time (time_env.truncate env) (midnight y 1 1) = (t, False)"
    "read_time env (bulk_content (time_bulk t)) MYSQL_TIMESTAMP_DATE = Some (date_value y 1 1)"
    using date_read [OF assms(1,3,4)] by metis
  have "0 \<le> y" "y \<le> 9999" using assms(3) by (simp_all add: valid_datetime_def midnight_def mysql_year_def)
  then have z: "tm_to_grn_time (time_env.truncate env) (zero_tm\<lparr>tm_year := y - TM_YEAR_BASE, tm_mon := 0, tm_mday := 1\<rparr>) 0 = (t, False)"
    using year_time t(1) by simp
  have "generic_store_bulk_year env f = temporal_bulk env (t, False)"
    using z unfolding generic_store_bulk_year_def assms(2) field_year_def by (simp add: Let_def)
  then show ?thesis using t(2) by (simp add: temporal_bulk_exact storage_store_field_year_def date_value_def midnight_def)
qed

text \<open>Dates of the old type.\<close>

lemma three_digits:
  fixes a b c :: int
  assumes "0 \<le> b" "b < 100" "0 \<le> c" "c < 100"
  shows "((a * 100 + b) * 100 + c) div 10000 = a" "((a * 100 + b) * 100 + c) div 100 mod 100 = b" "((a * 100 + b) * 100 + c) mod 100 = c"
proof -
  have d: "((a * 100 + b) * 100 + c) div 100 = b + 100 * a"
    using digit_split(1) [OF assms(3,4), of "b + 100 * a"] by (simp add: algebra_simps)
  show "((a * 100 + b) * 100 + c) div 100 mod 100 = b" unfolding d by (rule digit_split(2) [OF assms(1,2)])
  show "((a * 100 + b) * 100 + c) mod 100 = c"
    using digit_split(2) [OF assms(3,4), of "a * 100 + b"] by (simp add: algebra_simps)
  show "((a * 100 + b) * 100 + c) div 10000 = a"
    using digit_split(1) [of "b * 100 + c" 10000 a] assms by (simp add: algebra_simps)
qed

lemma clock_tm:
  assumes "clock_ok off venv" "mysql_datetime mt" "exists_locally off mt"
  shows "tm_to_grn_time (time_env.truncate venv) (tm_of_mysql_time mt) usec = (GRN_TIME_PACK venv (timegm (tm_of_mysql_time mt)) usec, False)"
proof -
  obtain t where "same_civil (tm_of_mysql_time mt) (localtime off t)" using assms(3) by (auto simp: exists_locally_def)
  then have "tm_to_time_gm (time_env.truncate venv) (tm_of_mysql_time mt) = (timegm (tm_of_mysql_time mt), False)"
    using tm_to_time_gm_mysql [of off "time_env.truncate venv"] assms(1,2) by (simp add: clock_ok_def mysql_datetime_def)
  then show ?thesis by (simp add: tm_to_grn_time_def)
qed

lemma gmtime_r_32_bits: "- (2 ^ 31) \<le> t \<Longrightarrow> t < 2 ^ 31 \<Longrightarrow> gmtime_r t = Some (gmtime t)"
proof -
  assume t: "- (2 ^ 31) \<le> t" "t < 2 ^ 31"
  let ?g = "gmtime t"
  have v: "valid_tm ?g" "timegm ?g = t" by (simp_all add: valid_tm_gmtime timegm_gmtime)
  have y: "0 \<le> tm_year ?g + TM_YEAR_BASE" using timegm_year_nonneg [OF v(1)] v(2) t by simp
  show "gmtime_r t = Some ?g"
  proof (cases "tm_year ?g + TM_YEAR_BASE \<le> 9999")
    case True
    then show ?thesis using gmtime_r_mysql_year [OF v(1), of t] y v(2) by (simp add: mysql_year_def)
  next
    case False
    then show ?thesis using timegm_late [OF v(1)] v(2) t by simp
  qed
qed

lemma old_date_read:
  assumes "clock_ok off env" "v_int f = y * 10000 + m * 100 + d" "valid_datetime (midnight y m d)" "exists_locally off (midnight y m d)"
  shows "\<exists>b. generic_store_bulk_date env f = (None, Some b, False) \<and> storage_store_field_date env (bulk_content b) = Some (Store_int (read_old_date (v_int f)) False)"
proof -
  let ?n = "v_int f" and ?g = "tm_of_mysql_time (midnight y m d)"
  have v: "0 \<le> y" "y \<le> 9999" "1 \<le> m" "m \<le> 12" "1 \<le> d" "d \<le> 31"
    using assms(3) by (auto simp: midnight_def valid_datetime_def mysql_year_def valid_tm_def valid_date_def days_in_month_def split: if_splits)
  have n: "?n = (y * 100 + m) * 100 + d" using assms(2) by simp
  have small: "0 \<le> m" "m < 100" "0 \<le> d" "d < 100" using v by linarith+
  have digits: "?n div 10000 = y" "?n div 100 mod 100 = m" "?n mod 100 = d" unfolding n by (rule three_digits [OF small])+
  have nn: "0 \<le> ?n" using v assms(2) by linarith
  have nn': "0 \<le> ?n div 100" using nn by simp
  have sd: "?n sdiv 10000 smod 10000 = y" "?n sdiv 100 smod 100 = m" "?n smod 100 = d"
    using digits v nn nn' by (simp_all add: sdiv_smod_nonneg)
  have g: "zero_tm\<lparr>tm_year := y - TM_YEAR_BASE, tm_mon := m - 1, tm_mday := d\<rparr> = ?g" by (simp add: tm_of_mysql_time_def midnight_def zero_tm_def)
  have my: "mysql_datetime (midnight y m d)" using assms(3) by (simp add: valid_datetime_iff)
  have ds: "date_seconds ?n = timegm ?g" by (simp add: date_seconds_def digits g)
  let ?t = "GRN_TIME_PACK env (timegm ?g) 0"
  have fits: "fits_time ?t" using datetime_write(2) [OF assms(1) my assms(4)] by (simp add: midnight_def)
  have "generic_store_bulk_date env f = (None, Some (time_bulk ?t), False)"
    using clock_tm [OF assms(1) my assms(4), of 0] by (simp add: generic_store_bulk_date_def sd g)
  moreover have un: "GRN_TIME_UNPACK env ?t = (timegm ?g, 0)"
    using clock_packing [OF assms(1)] unfolding grn_time_packing_def by (metis truncate_env(2,3) order_refl zero_less_numeral)
  have "gmtime_r (to_int (timegm ?g)) = Some (gmtime (to_int (timegm ?g)))"
    by (rule gmtime_r_32_bits) (simp_all add: to_int_def)
  then have "storage_store_field_date env (bulk_content (time_bulk ?t))
      = Some (Store_int ((tm_year (gmtime (to_int (timegm ?g))) + TM_YEAR_BASE) * 10000 + (tm_mon (gmtime (to_int (timegm ?g))) + 1) * 100
          + tm_mday (gmtime (to_int (timegm ?g)))) False)"
    using fits un by (simp add: storage_store_field_date_def time_content)
  moreover have "(tm_year (gmtime (timegm ?g)) + TM_YEAR_BASE) * 10000 + (tm_mon (gmtime (timegm ?g)) + 1) * 100 + tm_mday (gmtime (timegm ?g)) = ?n"
  proof -
    have "valid_tm ?g" using my by (simp add: mysql_datetime_def)
    then have "same_civil (gmtime (timegm ?g)) ?g" by (rule gmtime_timegm)
    then show ?thesis using assms(2) by (simp add: same_civil_def midnight_def)
  qed
  ultimately show ?thesis by (auto simp: read_old_date_def ds Let_def)
qed

text \<open>Every value, one type at a time.\<close>

lemma int_field_read:
  assumes "pack_length f \<in> {1, 2, 3, 4, 8}" "v_null f \<or> int_in_range f"
  defines "v \<equiv> if v_null f then 0 else v_int f"
  shows "\<exists>b. generic_store_bulk_integer f = (None, Some b, False)
    \<and> storage_store_field_integer f (bulk_content b) = Some (Store_int (if v_unsigned f then v mod 2 ^ 64 else v) (v_unsigned f))"
proof -
  have "int_in_range (f\<lparr>v_int := v, v_null := False\<rparr>)" using assms(2) by (auto simp: int_in_range_def v_def)
  moreover have "generic_store_bulk_integer (f\<lparr>v_int := v, v_null := False\<rparr>) = generic_store_bulk_integer f"
    by (simp add: generic_store_bulk_integer_def v_def)
  moreover have "storage_store_field_integer (f\<lparr>v_int := v, v_null := False\<rparr>) bs = storage_store_field_integer f bs" for bs
    by (simp add: storage_store_field_integer_def)
  ultimately show ?thesis using integer_field_roundtrip [of "f\<lparr>v_int := v, v_null := False\<rparr>"] assms(1) by (simp cong: if_cong)
qed

lemma bits_field_read:
  assumes "pack_length f \<in> {1..8}" "v_null f \<or> bits_in_range f"
  defines "v \<equiv> if v_null f then 0 else v_int f"
  shows "\<exists>b. generic_store_bulk_unsigned_integer f = (None, Some b, False)
    \<and> storage_store_field_unsigned_integer (bulk_content b) = Some (Store_int (v mod 2 ^ 64) True)"
proof -
  have "bits_in_range (f\<lparr>v_int := v, v_null := False\<rparr>)" using assms(2) by (auto simp: bits_in_range_def v_def)
  moreover have "generic_store_bulk_unsigned_integer (f\<lparr>v_int := v, v_null := False\<rparr>) = generic_store_bulk_unsigned_integer f"
    by (simp add: generic_store_bulk_unsigned_integer_def v_def)
  ultimately show ?thesis
    using unsigned_field_roundtrip [of "f\<lparr>v_int := v, v_null := False\<rparr>", folded bits_in_range_def] assms(1) by (simp add: bits_in_range_def)
qed

lemma epoch_read:
  assumes "clock_ok off env"
  shows "read_time env (bulk_content (time_bulk 0)) MYSQL_TIMESTAMP_DATETIME = Some (midnight 1970 1 1)"
    "read_time env (bulk_content (time_bulk 0)) MYSQL_TIMESTAMP_DATE = Some (date_value 1970 1 1)"
    "read_time env (bulk_content (time_bulk 0)) MYSQL_TIMESTAMP_TIME = Some (zero_time MYSQL_TIMESTAMP_TIME)"
    "storage_store_field_timestamp env (bulk_content (time_bulk 0)) = Some (stamp_call env 0 0)"
proof -
  have t: "signed_value (take 8 (bulk_content (time_bulk 0))) = 0" by (rule time_content) (simp add: fits_time_def)
  have u: "GRN_TIME_UNPACK env 0 = (0, 0)" using clock_unpack [OF assms] by simp
  have g: "gmtime_r 0 = Some (gmtime 0)" by (rule gmtime_r_32_bits) simp_all
  have e: "tm_year (gmtime 0) = 70" "tm_mon (gmtime 0) = 0" "tm_mday (gmtime 0) = 1" "tm_hour (gmtime 0) = 0" "tm_min (gmtime 0) = 0" "tm_sec (gmtime 0) = 0"
    by code_simp+
  have z: "to_ulong 0 = 0" "to_uint 0 = 0" by (simp_all add: to_ulong_def to_uint_def)
  show "read_time env (bulk_content (time_bulk 0)) MYSQL_TIMESTAMP_DATETIME = Some (midnight 1970 1 1)"
    "read_time env (bulk_content (time_bulk 0)) MYSQL_TIMESTAMP_DATE = Some (date_value 1970 1 1)"
    "read_time env (bulk_content (time_bulk 0)) MYSQL_TIMESTAMP_TIME = Some (zero_time MYSQL_TIMESTAMP_TIME)"
    by (simp_all add: read_time_def t grn_time_to_mysql_time_def u g zero_time_def midnight_def date_value_def e z TM_YEAR_BASE_def to_uint_def)
  show "storage_store_field_timestamp env (bulk_content (time_bulk 0)) = Some (stamp_call env 0 0)"
    by (simp add: storage_store_field_timestamp_def t u stamp_call_def)
qed

lemmas text_bulk_defs = generic_store_bulk_variable_size_string_def generic_store_bulk_fixed_size_string_def generic_store_bulk_blob_def
  generic_store_bulk_json_def generic_store_bulk_new_decimal_def storage_store_field_string_def storage_store_field_json_def
  any_blob_def storage_store_field_blob_def storage_store_field_blob_compressed_def blob_call_def

lemmas time_bulk_defs = generic_store_bulk_timestamp_def generic_store_bulk_timestamp2_def generic_store_bulk_datetime_def generic_store_bulk_datetime2_def
  generic_store_bulk_time_def generic_store_bulk_time2_def generic_store_bulk_new_date_def temporal_bulk_exact
  storage_store_field_datetime_def storage_store_field_datetime2_def storage_store_field_time_def storage_store_field_time2_def
  storage_store_field_new_date_def

lemma null_value_read:
  assumes "field_shape f" "value_ok off f" "clock_ok off env" "change_encoding env = 0" "v_null f"
    and "v_type f \<notin> {MYSQL_TYPE_TIME, MYSQL_TYPE_DATE, MYSQL_TYPE_YEAR}"
  shows "\<exists>b. generic_store_bulk env f = (None, Some b, False)
    \<and> storage_store_field env geometry f (bulk_content b) = Some (value_call (kept_value env f))"
proof -
  have z: "to_int 0 = 0" by (simp add: to_int_def)
  have d: "read_datetime (midnight 1970 1 1) = midnight 1970 1 1" "read_plain_time (zero_time MYSQL_TIMESTAMP_TIME) = zero_time MYSQL_TIMESTAMP_TIME"
    by (simp_all add: read_datetime_def midnight_def read_plain_time_def zero_time_def)
  note defs = generic_store_bulk_def storage_store_field_def value_call_def kept_value_def default_value_def field_shape_def value_ok_def
  note int = int_field_read [of f] and bits = bits_field_read [of f] and real = float_roundtrip [of f]
  consider "v_type f \<in> {MYSQL_TYPE_TINY, MYSQL_TYPE_SHORT, MYSQL_TYPE_LONG, MYSQL_TYPE_LONGLONG, MYSQL_TYPE_INT24}"
    | "v_type f \<in> {MYSQL_TYPE_BIT, MYSQL_TYPE_ENUM, MYSQL_TYPE_SET}" | "v_type f \<in> {MYSQL_TYPE_FLOAT, MYSQL_TYPE_DOUBLE}"
    | "v_type f \<notin> {MYSQL_TYPE_TINY, MYSQL_TYPE_SHORT, MYSQL_TYPE_LONG, MYSQL_TYPE_LONGLONG, MYSQL_TYPE_INT24, MYSQL_TYPE_BIT, MYSQL_TYPE_ENUM,
        MYSQL_TYPE_SET, MYSQL_TYPE_FLOAT, MYSQL_TYPE_DOUBLE}" by blast
  then show ?thesis
  proof cases
    case 1
    then show ?thesis using int assms(1,4,5) by (elim insertE emptyE) (auto simp: defs int_call_def)
  next
    case 2
    then show ?thesis using bits assms(1,4,5) by (elim insertE emptyE) (auto simp: defs)
  next
    case 3
    then show ?thesis using real assms(1,4,5) by (elim insertE emptyE) (auto simp: defs)
  next
    case 4
    then show ?thesis
      using assms by (cases "v_type f") (auto simp: defs text_bulk_defs time_bulk_defs epoch_read [OF assms(3)] stamp_call_def z d)
  qed
qed

lemma set_value_read:
  assumes "field_shape f" "value_ok off f" "clock_ok off env" "change_encoding env = 0" "\<not> v_null f \<or> v_type f \<in> {MYSQL_TYPE_TIME, MYSQL_TYPE_DATE, MYSQL_TYPE_YEAR}"
  shows "\<exists>b. generic_store_bulk env f = (None, Some b, False)
    \<and> storage_store_field env geometry f (bulk_content b) = Some (value_call (kept_value env f))"
proof -
  note defs = generic_store_bulk_def storage_store_field_def value_call_def kept_value_def default_value_def field_shape_def value_ok_def
  note stamp = stamp_roundtrip [OF assms(3), of f]
  have dt: "\<exists>t. mysql_time_to_grn_time (time_env.truncate env) (v_time f) = (t, False)
      \<and> read_time env (bulk_content (time_bulk t)) MYSQL_TIMESTAMP_DATETIME = Some (read_datetime (v_time f))"
    if "mysql_datetime (v_time f)" "exists_locally off (v_time f)"
    using datetime_read [OF assms(3) that] by metis
  have tm: "\<exists>t. mysql_time_to_grn_time (time_env.truncate env) (v_time f) = (t, False)
      \<and> read_time env (bulk_content (time_bulk t)) MYSQL_TIMESTAMP_TIME = Some (read_plain_time (v_time f))"
    if "plain_time (v_time f)"
    using time_read [OF assms(3) that] by metis
  have d: "\<exists>t. mysql_time_to_grn_time (time_env.truncate env) (v_time f) = (t, False)
      \<and> read_time env (bulk_content (time_bulk t)) MYSQL_TIMESTAMP_DATE = Some (v_time f)"
    if "v_time f = date_value y m d" "valid_datetime (midnight y m d)" "exists_locally off (midnight y m d)" for y m d
    using date_read [OF assms(3) that(2,3)] that(1) by metis
  have year: "\<exists>b. generic_store_bulk_year env f = (None, Some b, False) \<and> storage_store_field_year env (bulk_content b) = Some (Store_int (if v_null f then 1970 else field_year f) False)"
    if "let y = (if v_null f then 1970 else field_year f) in valid_datetime (midnight y 1 1) \<and> exists_locally off (midnight y 1 1)"
    using year_read [OF assms(3) refl, of f] that by (simp add: Let_def)
  have fy: "field_year (f\<lparr>v_int := 1970, field_length := 4, v_real := r, v_str := b, v_raw := c, v_stamp := st, v_time := t\<rparr>) = 1970" for r b c st t
    by (simp add: field_year_def)
  note int = int_field_read [of f] and bits = bits_field_read [of f] and real = float_roundtrip [of f]
  consider "v_type f = MYSQL_TYPE_TIME" | "v_type f = MYSQL_TYPE_DATE" | "v_type f = MYSQL_TYPE_YEAR"
    | "v_type f \<in> {MYSQL_TYPE_TINY, MYSQL_TYPE_SHORT, MYSQL_TYPE_LONG, MYSQL_TYPE_LONGLONG, MYSQL_TYPE_INT24}" "\<not> v_null f"
    | "v_type f \<in> {MYSQL_TYPE_BIT, MYSQL_TYPE_ENUM, MYSQL_TYPE_SET}" "\<not> v_null f" | "v_type f \<in> {MYSQL_TYPE_FLOAT, MYSQL_TYPE_DOUBLE}" "\<not> v_null f"
    | "v_type f \<in> {MYSQL_TYPE_TIMESTAMP, MYSQL_TYPE_TIMESTAMP2}" "\<not> v_null f" | "v_type f \<in> {MYSQL_TYPE_DATETIME, MYSQL_TYPE_DATETIME2}" "\<not> v_null f"
    | "v_type f = MYSQL_TYPE_TIME2" "\<not> v_null f" | "v_type f = MYSQL_TYPE_NEWDATE" "\<not> v_null f"
    | "v_type f \<notin> {MYSQL_TYPE_TINY, MYSQL_TYPE_SHORT, MYSQL_TYPE_LONG, MYSQL_TYPE_LONGLONG, MYSQL_TYPE_INT24, MYSQL_TYPE_BIT, MYSQL_TYPE_ENUM,
        MYSQL_TYPE_SET, MYSQL_TYPE_FLOAT, MYSQL_TYPE_DOUBLE, MYSQL_TYPE_TIMESTAMP, MYSQL_TYPE_TIMESTAMP2, MYSQL_TYPE_DATETIME, MYSQL_TYPE_DATETIME2,
        MYSQL_TYPE_TIME, MYSQL_TYPE_TIME2, MYSQL_TYPE_DATE, MYSQL_TYPE_NEWDATE, MYSQL_TYPE_YEAR}" "\<not> v_null f"
    using assms(5) by blast
  then show ?thesis
  proof cases
    case 1
    then obtain t where "mysql_time_to_grn_time (time_env.truncate env) (v_time f) = (t, False)"
        "read_time env (bulk_content (time_bulk t)) MYSQL_TIMESTAMP_TIME = Some (read_plain_time (v_time f))"
      using tm assms(2) by (auto simp: value_ok_def)
    then show ?thesis using 1 assms(4) by (simp add: defs time_bulk_defs)
  next
    case 2
    then show ?thesis using assms(2,4) old_date_read [OF assms(3), of f] by (auto simp: defs)
  next
    case 3
    then show ?thesis using assms(2,4) year by (auto simp: defs fy)
  next
    case 4
    then show ?thesis using int assms(1,2,4) by (elim insertE emptyE) (auto simp: defs int_call_def)
  next
    case 5
    then show ?thesis using bits assms(1,2,4) by (elim insertE emptyE) (auto simp: defs)
  next
    case 6
    then show ?thesis using real assms(1,4) by (elim insertE emptyE) (auto simp: defs)
  next
    case 7
    then obtain sec usec where st: "v_stamp f = Some (sec, usec)" "0 \<le> sec" "sec < 2 ^ 40" "0 \<le> usec" "usec < 1000000"
      using assms(2) by (auto simp: value_ok_def)
    show ?thesis using 7 assms(4) st(1) stamp [OF st] by (elim insertE emptyE) (auto simp: defs time_bulk_defs stamp_call_def)
  next
    case 8
    then obtain t where "mysql_time_to_grn_time (time_env.truncate env) (v_time f) = (t, False)"
        "read_time env (bulk_content (time_bulk t)) MYSQL_TIMESTAMP_DATETIME = Some (read_datetime (v_time f))"
      using dt assms(2) by (auto simp: value_ok_def)
    then show ?thesis using 8 assms(4) by (elim insertE emptyE) (simp_all add: defs time_bulk_defs)
  next
    case 9
    then obtain t where "mysql_time_to_grn_time (time_env.truncate env) (v_time f) = (t, False)"
        "read_time env (bulk_content (time_bulk t)) MYSQL_TIMESTAMP_TIME = Some (read_plain_time (v_time f))"
      using tm assms(2) by (auto simp: value_ok_def)
    then show ?thesis using 9 assms(4) by (simp add: defs time_bulk_defs)
  next
    case 10
    then obtain y m day where "v_time f = date_value y m day" "valid_datetime (midnight y m day)" "exists_locally off (midnight y m day)"
      using assms(2) by (auto simp: value_ok_def)
    then obtain t where "mysql_time_to_grn_time (time_env.truncate env) (v_time f) = (t, False)"
        "read_time env (bulk_content (time_bulk t)) MYSQL_TIMESTAMP_DATE = Some (v_time f)"
      using d by blast
    then show ?thesis using 10 assms(4) by (simp add: defs time_bulk_defs)
  next
    case 11
    then show ?thesis using assms(1,2,4) by (cases "v_type f") (auto simp: defs text_bulk_defs)
  qed
qed

text \<open>What is read of what is written for a field. For every type of column that new tables have, and every value that MySQL keeps in it,
  NULL or not, writing succeeds without a warning, and reading the written bytes makes exactly the call that stores what is kept of the value.\<close>

lemma field_value_read:
  assumes "field_shape f" "value_ok off f" "clock_ok off env" "change_encoding env = 0"
  shows "\<exists>b. generic_store_bulk env f = (None, Some b, False)
    \<and> storage_store_field env geometry f (bulk_content b) = Some (value_call (kept_value env f))"
  using null_value_read [OF assms] set_value_read [OF assms] by blast

text \<open>Which values are kept as they are.\<close>

definition kept_exactly :: "value_env \<Rightarrow> value_field \<Rightarrow> bool" where
  "kept_exactly env f \<longleftrightarrow> \<not> v_null f \<and> (case v_type f of
      MYSQL_TYPE_DATETIME \<Rightarrow> 1970 \<le> year (v_time f) \<or> second_part (v_time f) = 0
    | MYSQL_TYPE_DATETIME2 \<Rightarrow> 1970 \<le> year (v_time f) \<or> second_part (v_time f) = 0
    | MYSQL_TYPE_TIME \<Rightarrow> \<not> neg (v_time f) \<or> second_part (v_time f) = 0 \<and> 0 < seconds_of_time (v_time f)
    | MYSQL_TYPE_TIME2 \<Rightarrow> \<not> neg (v_time f) \<or> second_part (v_time f) = 0 \<and> 0 < seconds_of_time (v_time f)
    | MYSQL_TYPE_DATE \<Rightarrow> - (2 ^ 31) \<le> date_seconds (v_int f) \<and> date_seconds (v_int f) < 2 ^ 31
    | MYSQL_TYPE_TIMESTAMP \<Rightarrow> my_time_t env \<longrightarrow> (\<exists>sec usec. v_stamp f = Some (sec, usec) \<and> 0 \<le> sec \<and> sec < 2 ^ 31 \<and> 0 \<le> usec \<and> usec < 1000000)
    | MYSQL_TYPE_TIMESTAMP2 \<Rightarrow> my_time_t env \<longrightarrow> (\<exists>sec usec. v_stamp f = Some (sec, usec) \<and> 0 \<le> sec \<and> sec < 2 ^ 31 \<and> 0 \<le> usec \<and> usec < 1000000)
    | _ \<Rightarrow> True)"

lemma kept_value_exact:
  assumes "kept_exactly env f"
  shows "kept_value env f = f"
proof -
  have n: "\<not> v_null f" using assms by (simp add: kept_exactly_def)
  have same [simp]: "f\<lparr>v_time := v_time f\<rparr> = f" "f\<lparr>v_int := v_int f\<rparr> = f" "f\<lparr>v_stamp := v_stamp f\<rparr> = f" by simp_all
  have time: "read_plain_time mt = mt" if "\<not> neg mt \<or> second_part mt = 0 \<and> 0 < seconds_of_time mt" for mt
    using that by (auto simp: read_plain_time_def intro!: mysql_time.equality)
  have date: "read_old_date k = k" if "- (2 ^ 31) \<le> date_seconds k" "date_seconds k < 2 ^ 31" for k
    using to_int_id [OF that] by (simp add: read_old_date_def)
  have stamp: "map_option (map_prod to_int to_int) x = x"
    if "\<exists>sec usec. x = Some (sec, usec) \<and> 0 \<le> sec \<and> sec < 2 ^ 31 \<and> 0 \<le> usec \<and> usec < 1000000" for x
    using that by (auto intro!: to_int_id)
  note defs = kept_exactly_def kept_value_def Let_def
  consider "v_type f \<in> {MYSQL_TYPE_DATETIME, MYSQL_TYPE_DATETIME2}" | "v_type f \<in> {MYSQL_TYPE_TIME, MYSQL_TYPE_TIME2}" | "v_type f = MYSQL_TYPE_DATE"
    | "v_type f \<in> {MYSQL_TYPE_TIMESTAMP, MYSQL_TYPE_TIMESTAMP2}"
    | "v_type f \<notin> {MYSQL_TYPE_DATETIME, MYSQL_TYPE_DATETIME2, MYSQL_TYPE_TIME, MYSQL_TYPE_TIME2, MYSQL_TYPE_DATE, MYSQL_TYPE_TIMESTAMP, MYSQL_TYPE_TIMESTAMP2}"
    by blast
  then show ?thesis
  proof cases
    case 1
    then have "read_datetime (v_time f) = v_time f" using assms by (auto simp: defs read_datetime_def)
    then show ?thesis using 1 n by (auto simp: defs)
  next
    case 2
    then have "read_plain_time (v_time f) = v_time f" using assms by (intro time) (auto simp: defs)
    then show ?thesis using 2 n by (auto simp: defs)
  next
    case 3
    then have "read_old_date (v_int f) = v_int f" using assms by (intro date) (simp_all add: defs)
    then show ?thesis using 3 n by (simp add: defs)
  next
    case 4
    then have "my_time_t env \<Longrightarrow> map_option (map_prod to_int to_int) (v_stamp f) = v_stamp f" using assms by (intro stamp) (auto simp: defs)
    then show ?thesis using 4 n by (auto simp: defs)
  next
    case 5
    then show ?thesis using n by (cases "v_type f") (simp_all add: defs)
  qed
qed

definition fixed_zone_value_env :: "int \<Rightarrow> value_env" where
  "fixed_zone_value_env z = \<lparr>mktime = fixed_zone_mktime z, GRN_TIME_PACK = (\<lambda>sec usec. sec * 1000000 + usec),
     GRN_TIME_UNPACK = (\<lambda>t. (t sdiv 1000000, t smod 1000000)), strict_mode = True, change_encoding = 0,
     geometry_bulk = (\<lambda>_. (None, None, False)), my_time_t = False\<rparr>"

lemma fixed_zone_clock_ok: "\<bar>z\<bar> < 86400 \<Longrightarrow> clock_ok (\<lambda>_. z) (fixed_zone_value_env z)"
  using fixed_zone_mktime_in_zone [of z] fixed_zone_env_packing [of z]
  by (auto simp: clock_ok_def fixed_zone_value_env_def zone_offset_def groonga_macros_def time_env.truncate_def fixed_zone_env_def abs_less_iff)

definition example_field :: value_field where
  "example_field = \<lparr>v_type = MYSQL_TYPE_DATETIME2, v_unsigned = False, field_length = 26, pack_length = 8, key_length = 8,
     v_null = False, v_int = 0, v_real = 0, v_str = [], v_raw = [], v_time = example_datetime, v_stamp = None, v_compressed = False\<rparr>"

lemma field_value_read_witness:
  "(\<exists>b. generic_store_bulk (fixed_zone_value_env 32400) example_field = (None, Some b, False)
     \<and> storage_store_field (fixed_zone_value_env 32400) id example_field (bulk_content b) = Some (Store_datetime example_datetime))
   \<and> (\<exists>b. generic_store_bulk (fixed_zone_value_env 32400) (example_field\<lparr>v_type := MYSQL_TYPE_INT24, pack_length := 3, v_int := - 8388608\<rparr>) = (None, Some b, False)
     \<and> storage_store_field (fixed_zone_value_env 32400) id (example_field\<lparr>v_type := MYSQL_TYPE_INT24, pack_length := 3, v_int := - 8388608\<rparr>) (bulk_content b)
        = Some (Store_int (- 8388608) False))"
proof -
  have c: "clock_ok (\<lambda>_. 32400) (fixed_zone_value_env 32400)" by (rule fixed_zone_clock_ok) simp
  have e: "change_encoding (fixed_zone_value_env 32400) = 0" by (simp add: fixed_zone_value_env_def)
  have "valid_tm (tm_of_mysql_time example_datetime)" using valid_example_datetime by (simp add: valid_datetime_def)
  then have "exists_locally (\<lambda>_. 32400) example_datetime"
    using fixed_zone_local_exists by (auto simp: exists_locally_def)
  then have "value_ok (\<lambda>_. 32400) example_field" using valid_example_datetime by (simp add: value_ok_def example_field_def valid_datetime_iff)
  moreover have "field_shape example_field" "\<not> v_null example_field" by (simp_all add: field_shape_def example_field_def)
  moreover have "value_call (kept_value (fixed_zone_value_env 32400) example_field) = Store_datetime example_datetime"
    by (simp add: value_call_def kept_value_def example_field_def read_datetime_def example_datetime_def)
  moreover define g where "g = example_field\<lparr>v_type := MYSQL_TYPE_INT24, pack_length := 3, v_int := - 8388608\<rparr>"
  have "field_shape g" "value_ok (\<lambda>_. 32400) g" "\<not> v_null g" "value_call (kept_value (fixed_zone_value_env 32400) g) = Store_int (- 8388608) False"
    by (simp_all add: g_def field_shape_def value_ok_def value_call_def int_call_def int_in_range_def example_field_def kept_value_def)
  ultimately show ?thesis
    using field_value_read [OF _ _ c e, of example_field id] field_value_read [OF _ _ c e, of g id] unfolding g_def by metis
qed

definition text_family :: "grn_type set" where
  "text_family = {GRN_DB_SHORT_TEXT, GRN_DB_TEXT, GRN_DB_LONG_TEXT}"

text \<open>C25: the Groonga type of a value that is written for a field, NULL or not, is the type of its column, up to the
  sizes of texts: a number is never written into a column of another width or sign, and a time always into a
  column of times. All types but geometries and the type of NULL are covered, with the lengths MySQL gives to them.\<close>

theorem written_type_is_column_type:
  assumes "field_shape f" "v_type f \<noteq> MYSQL_TYPE_GEOMETRY" "v_type f \<noteq> MYSQL_TYPE_NULL"
    and "generic_store_bulk env f = (err, Some b, warned)"
  shows "bulk_domain b = mrn_grn_type_from_field f False
    \<or> bulk_domain b \<in> text_family \<and> mrn_grn_type_from_field f False \<in> text_family"
proof -
  note defs = generic_store_bulk_def mrn_grn_type_from_field_def field_shape_def text_family_def text_type_def
  note bulks = generic_store_bulk_variable_size_string_def generic_store_bulk_fixed_size_string_def generic_store_bulk_blob_def
    generic_store_bulk_json_def generic_store_bulk_new_decimal_def generic_store_bulk_integer_def generic_store_bulk_unsigned_integer_def
    generic_store_bulk_float_def generic_store_bulk_timestamp_def generic_store_bulk_timestamp2_def generic_store_bulk_datetime_def
    generic_store_bulk_datetime2_def generic_store_bulk_time_def generic_store_bulk_time2_def generic_store_bulk_new_date_def
    generic_store_bulk_year_def generic_store_bulk_date_def temporal_bulk_def int_bulk_def time_bulk_def
  show ?thesis
    using assms by (cases "v_type f") (auto simp: defs bulks Let_def split: if_splits prod.splits)
qed

theorem written_type_is_column_type_witness:
  "\<exists>b. generic_store_bulk (fixed_zone_value_env 0) (example_field\<lparr>v_type := MYSQL_TYPE_BIT, pack_length := 3, key_length := 3\<rparr>) = (None, Some b, False)
     \<and> (bulk_domain b = GRN_DB_UINT32 \<or> bulk_domain b \<in> text_family \<and> GRN_DB_UINT32 \<in> text_family)"
proof -
  define g where "g = example_field\<lparr>v_type := MYSQL_TYPE_BIT, pack_length := 3, key_length := 3\<rparr>"
  have b: "generic_store_bulk (fixed_zone_value_env 0) g = (None, Some \<lparr>bulk_domain = GRN_DB_UINT32, bulk_content = int_content 4 0\<rparr>, False)"
    by (simp add: g_def example_field_def generic_store_bulk_def fixed_zone_value_env_def generic_store_bulk_unsigned_integer_def int_bulk_def)
  have "field_shape g" "mrn_grn_type_from_field g False = GRN_DB_UINT32" "v_type g \<noteq> MYSQL_TYPE_GEOMETRY" "v_type g \<noteq> MYSQL_TYPE_NULL"
    by (simp_all add: g_def example_field_def field_shape_def mrn_grn_type_from_field_def)
  then show ?thesis using written_type_is_column_type [OF _ _ _ b] b unfolding g_def by metis
qed

text \<open>Dates of the old type that are \<open>2\<^sup>3\<^sup>2\<close> seconds apart are read as the same date.\<close>

lemma old_date_wraps:
  assumes "fits_time t" "fits_time t'" "GRN_TIME_UNPACK env t = (sec, usec)" "GRN_TIME_UNPACK env t' = (sec + 2 ^ 32, usec')"
  shows "storage_store_field_date env (bulk_content (time_bulk t)) = storage_store_field_date env (bulk_content (time_bulk t'))"
proof -
  have "(sec + 2 ^ 32 + 2 ^ 31) mod 2 ^ 32 = (sec + 2 ^ 31) mod 2 ^ 32"
    using mod_add_self1 [of "2 ^ 32" "sec + 2 ^ 31"] by (simp only: add.commute add.left_commute add.assoc)
  then have "to_int (sec + 2 ^ 32) = to_int sec" unfolding to_int_def by (simp only:)
  then show ?thesis using assms by (simp add: storage_store_field_date_def time_content)
qed

end
