(* ===== verification/Search_Keys.thy ===== *)
theory Search_Keys
  imports Field_Values
begin

text \<open>
  The keys of searches through indexes of one column (\<^verbatim>\<open>storage_encode_key\<close> and its helpers in
  \<^verbatim>\<open>ha_mroonga.cpp\<close>, built for MySQL): a key in MySQL's format becomes a key in the format of the Groonga
  column. MySQL's readers of binary times, \<^verbatim>\<open>gmt_sec_to_TIME\<close>, \<^verbatim>\<open>Field_set::val_int\<close> and the processor's
  conversion of floating point numbers are parameters. Reading behind the key is \<^const>\<open>None\<close>.
\<close>

section \<open>Model\<close>

record search_env =
  s_values :: value_env
  gmt_sec_to_TIME :: "int \<Rightarrow> mysql_time"
  timestamp_from_binary :: "byte list \<Rightarrow> nat \<Rightarrow> int \<times> int"
  datetime_from_binary :: "byte list \<Rightarrow> nat \<Rightarrow> mysql_time"
  time_from_binary :: "byte list \<Rightarrow> nat \<Rightarrow> mysql_time"
  double_of_float :: "32 word \<Rightarrow> 64 word"
  set_val_int :: "byte list \<Rightarrow> nat \<Rightarrow> int"

record search_field =
  s_field :: value_field
  s_null_bit :: bool
  s_decimals :: nat
  s_has_charset :: bool
  min_sort_char :: nat

text \<open>The error and the first \<^verbatim>\<open>*size\<close> bytes of the buffer.\<close>

type_synonym encoded = "(bulk_error option \<times> byte list) option"

definition with_bytes :: "byte list \<Rightarrow> nat \<Rightarrow> (byte list \<Rightarrow> byte list) \<Rightarrow> encoded" where
  "with_bytes ptr n k = map_option (\<lambda>bs. (None, k bs)) (read_at ptr 0 n)"

text \<open>A time, with the error of a truncated one in strict mode.\<close>

definition encoded_time :: "search_env \<Rightarrow> int \<times> bool \<Rightarrow> bulk_error option \<times> byte list" where
  "encoded_time env r = (if snd r \<and> strict_mode (s_values env) then Some DATA_TRUNCATED else None, int_content 8 (fst r))"

abbreviation s_clock :: "search_env \<Rightarrow> time_env" where
  "s_clock env \<equiv> time_env.truncate (s_values env)"

text \<open>\<^verbatim>\<open>for (uint i = size - 1; i > 0; --i)\<close> from the end of the text: the first byte is never changed.\<close>

fun clear_min_sort :: "byte \<Rightarrow> nat \<Rightarrow> byte list \<Rightarrow> byte list" where
  "clear_min_sort c 0 buf = buf"
| "clear_min_sort c (Suc i) buf = (if buf ! Suc i \<noteq> c then buf else clear_min_sort c i (buf[Suc i := 0]))"

definition storage_encode_key_normalize_min_sort_chars :: "search_field \<Rightarrow> byte list \<Rightarrow> byte list" where
  "storage_encode_key_normalize_min_sort_chars f buf =
     (if buf = [] \<or> \<not> s_has_charset f then buf
      else (let raw = min_sort_char f mod 2 ^ 16 in
            if raw \<le> 255 then clear_min_sort (of_nat raw) (length buf - 1) buf else buf))"

definition storage_encode_key_fixed_size_string :: "search_field \<Rightarrow> byte list \<Rightarrow> encoded" where
  "storage_encode_key_fixed_size_string f key = with_bytes key (field_length (s_field f)) (\<lambda>bs. bs)"

definition storage_encode_key_variable_size_string :: "search_field \<Rightarrow> byte list \<Rightarrow> encoded" where
  "storage_encode_key_variable_size_string f key =
     (case read_at key 0 2 of None \<Rightarrow> None
      | Some len \<Rightarrow> with_bytes (drop HA_KEY_BLOB_LENGTH key) (le_val len) (storage_encode_key_normalize_min_sort_chars f))"

definition storage_encode_key_timestamp :: "search_env \<Rightarrow> byte list \<Rightarrow> encoded" where
  "storage_encode_key_timestamp env key =
     map_option (\<lambda>bs. encoded_time env (mysql_time_to_grn_time (s_clock env) (gmt_sec_to_TIME env (unsigned_value bs)))) (read_at key 0 4)"

definition storage_encode_key_time :: "search_env \<Rightarrow> byte list \<Rightarrow> encoded" where
  "storage_encode_key_time env key =
     map_option (\<lambda>bs.
       let t = signed_value bs;
           sec = t sdiv 10000 * 60 * 60 + t sdiv 100 smod 100 * 60 + t smod 60
       in (None, int_content 8 (GRN_TIME_PACK (s_values env) sec 0))) (read_at key 0 3)"

definition storage_encode_key_year :: "search_env \<Rightarrow> byte list \<Rightarrow> encoded" where
  "storage_encode_key_year env key =
     map_option (\<lambda>bs. encoded_time env (tm_to_grn_time (s_clock env) (zero_tm\<lparr>tm_year := unsigned_value bs, tm_mon := 0, tm_mday := 1\<rparr>) 0))
       (read_at key 0 1)"

definition storage_encode_key_datetime :: "search_env \<Rightarrow> byte list \<Rightarrow> encoded" where
  "storage_encode_key_datetime env key =
     map_option (\<lambda>bs.
       let encoded_datetime = signed_value bs;
           part1 = to_uint (encoded_datetime sdiv 1000000);
           part2 = to_uint (encoded_datetime - part1 * 1000000);
           date = zero_tm\<lparr>tm_year := part1 div 10000 - TM_YEAR_BASE, tm_mon := part1 div 100 mod 100 - 1,
             tm_mday := part1 mod 100, tm_hour := part2 div 10000, tm_min := part2 div 100 mod 100, tm_sec := part2 mod 100\<rparr>
       in encoded_time env (tm_to_grn_time (s_clock env) date 0)) (read_at key 0 8)"

definition storage_encode_key_new_date :: "search_env \<Rightarrow> byte list \<Rightarrow> encoded" where
  "storage_encode_key_new_date env key =
     map_option (\<lambda>bs.
       let encoded_date = unsigned_value bs;
           date = zero_tm\<lparr>tm_year := encoded_date div (16 * 32) - TM_YEAR_BASE, tm_mon := encoded_date div 32 mod 16 - 1,
             tm_mday := encoded_date mod 32\<rparr>
       in encoded_time env (tm_to_grn_time (s_clock env) date 0)) (read_at key 0 3)"

definition storage_encode_key_timestamp2 :: "search_env \<Rightarrow> search_field \<Rightarrow> byte list \<Rightarrow> encoded" where
  "storage_encode_key_timestamp2 env f key =
     (let (sec, usec) = timestamp_from_binary env key (s_decimals f);
          mt = (gmt_sec_to_TIME env sec)\<lparr>second_part := usec\<rparr>
      in Some (encoded_time env (mysql_time_to_grn_time (s_clock env) mt)))"

definition storage_encode_key_datetime2 :: "search_env \<Rightarrow> search_field \<Rightarrow> byte list \<Rightarrow> encoded" where
  "storage_encode_key_datetime2 env f key =
     Some (encoded_time env (mysql_time_to_grn_time (s_clock env) (datetime_from_binary env key (s_decimals f))))"

definition storage_encode_key_time2 :: "search_env \<Rightarrow> search_field \<Rightarrow> byte list \<Rightarrow> encoded" where
  "storage_encode_key_time2 env f key =
     Some (encoded_time env (mysql_time_to_grn_time (s_clock env) (time_from_binary env key (s_decimals f))))"

definition storage_encode_key_enum :: "search_field \<Rightarrow> byte list \<Rightarrow> encoded" where
  "storage_encode_key_enum f key =
     (if pack_length (s_field f) = 1 then with_bytes key 1 (\<lambda>bs. bs) else with_bytes key 2 (\<lambda>bs. bs))"

definition storage_encode_key_set :: "search_env \<Rightarrow> search_field \<Rightarrow> byte list \<Rightarrow> encoded" where
  "storage_encode_key_set env f key =
     (let n = pack_length (s_field f); v = set_val_int env key n in
      Some (None, int_content (if n = 1 then 1 else if n = 2 then 2 else if n = 3 \<or> n = 4 then 4 else 8) v))"

text \<open>A number of \<open>n\<close> bytes in big endian, as a little endian one of \<open>w\<close> bytes.\<close>

definition bit_bytes :: "nat \<Rightarrow> byte list \<Rightarrow> byte list" where
  "bit_bytes w bs = rev bs @ replicate (w - length bs) 0"

definition storage_encode_key_bit :: "search_field \<Rightarrow> byte list \<Rightarrow> encoded" where
  "storage_encode_key_bit f ptr =
     (let n = key_length (s_field f) in
      if n = 0 then Some (None, [0])
      else if n = 1 then with_bytes ptr 1 (bit_bytes 1)
      else if n = 2 then with_bytes ptr 2 (bit_bytes 2)
      else if n = 3 then with_bytes ptr 3 (bit_bytes 4)
      else if n = 4 then with_bytes ptr 4 (bit_bytes 4)
      else if n = 5 then with_bytes ptr 5 (bit_bytes 8)
      else if n = 6 then with_bytes ptr 6 (bit_bytes 8)
      else if n = 7 then with_bytes ptr 7 (bit_bytes 8)
      else with_bytes ptr 8 (bit_bytes 8))"

definition encode_by_type :: "search_env \<Rightarrow> search_field \<Rightarrow> byte list \<Rightarrow> encoded" where
  "encode_by_type env f ptr = (case v_type (s_field f) of
      MYSQL_TYPE_BIT \<Rightarrow> storage_encode_key_bit f ptr
    | MYSQL_TYPE_TINY \<Rightarrow> with_bytes ptr 1 (\<lambda>bs. bs)
    | MYSQL_TYPE_SHORT \<Rightarrow> with_bytes ptr 2 (\<lambda>bs. bs)
    | MYSQL_TYPE_INT24 \<Rightarrow> with_bytes ptr 3 (\<lambda>bs. bs @ [0])
    | MYSQL_TYPE_LONG \<Rightarrow> with_bytes ptr 4 (\<lambda>bs. bs)
    | MYSQL_TYPE_TIMESTAMP \<Rightarrow> storage_encode_key_timestamp env ptr
    | MYSQL_TYPE_LONGLONG \<Rightarrow> with_bytes ptr 8 (\<lambda>bs. bs)
    | MYSQL_TYPE_FLOAT \<Rightarrow> with_bytes ptr 4 (\<lambda>bs. le_bytes 8 (unat (double_of_float env (value_decode_float bs))))
    | MYSQL_TYPE_DOUBLE \<Rightarrow> with_bytes ptr 8 (\<lambda>bs. le_bytes 8 (unat (value_decode_double bs)))
    | MYSQL_TYPE_TIME \<Rightarrow> storage_encode_key_time env ptr
    | MYSQL_TYPE_YEAR \<Rightarrow> storage_encode_key_year env ptr
    | MYSQL_TYPE_DATETIME \<Rightarrow> storage_encode_key_datetime env ptr
    | MYSQL_TYPE_NEWDATE \<Rightarrow> storage_encode_key_new_date env ptr
    | MYSQL_TYPE_TIMESTAMP2 \<Rightarrow> storage_encode_key_timestamp2 env f ptr
    | MYSQL_TYPE_DATETIME2 \<Rightarrow> storage_encode_key_datetime2 env f ptr
    | MYSQL_TYPE_TIME2 \<Rightarrow> storage_encode_key_time2 env f ptr
    | MYSQL_TYPE_STRING \<Rightarrow> storage_encode_key_fixed_size_string f ptr
    | MYSQL_TYPE_VARCHAR \<Rightarrow> storage_encode_key_variable_size_string f ptr
    | MYSQL_TYPE_BLOB \<Rightarrow> storage_encode_key_variable_size_string f ptr
    | MYSQL_TYPE_ENUM \<Rightarrow> storage_encode_key_enum f ptr
    | MYSQL_TYPE_SET \<Rightarrow> storage_encode_key_set env f ptr
    | _ \<Rightarrow> Some (Some HA_ERR_UNSUPPORTED, []))"

text \<open>The error, whether the key is NULL, and the bytes.\<close>

definition storage_encode_key :: "search_env \<Rightarrow> search_field \<Rightarrow> byte list \<Rightarrow> (bulk_error option \<times> bool \<times> byte list) option" where
  "storage_encode_key env f key =
     (if change_encoding (s_values env) \<noteq> 0 then Some (Some (Encoding_error (change_encoding (s_values env))), False, [])
      else if s_null_bit f then
        (case key of [] \<Rightarrow> None
         | b # ptr \<Rightarrow> if b \<noteq> 0 then Some (None, True, [])
                      else map_option (\<lambda>(e, bs). (e, False, bs)) (encode_by_type env f ptr))
      else map_option (\<lambda>(e, bs). (e, False, bs)) (encode_by_type env f key))"


section \<open>Keys and stored values\<close>

text \<open>MySQL's documented image of a value in a key: numbers in little endian, bits in big endian, texts with two bytes
  of length, the old \<^verbatim>\<open>TIME\<close> as the number \<^verbatim>\<open>HHMMSS\<close> without fractions, and what the readers of binary times promise. The
  key of a type that is not searched is not specified.\<close>

definition packed_datetime :: "mysql_time \<Rightarrow> int" where
  "packed_datetime mt = ((year mt * 100 + month mt) * 100 + day mt) * 1000000 + (hour mt * 100 + minute mt) * 100 + second mt"

definition packed_time :: "mysql_time \<Rightarrow> int" where
  "packed_time mt = (let n = (hour mt * 100 + minute mt) * 100 + second mt in if neg mt then - n else n)"

text \<open>A text is not changed: it does not end with the smallest character of its collation, unless that is the null byte, has more than
  a byte or is the only byte.\<close>

definition plain_end :: "search_field \<Rightarrow> byte list \<Rightarrow> bool" where
  "plain_end f bs \<longleftrightarrow> (let c = min_sort_char f mod 2 ^ 16 in s_has_charset f \<and> 2 \<le> length bs \<and> 0 < c \<and> c \<le> 255 \<longrightarrow> last bs \<noteq> of_nat c)"

definition searchable_type :: "mysql_type \<Rightarrow> bool" where
  "searchable_type t \<longleftrightarrow> t \<in> {MYSQL_TYPE_TINY, MYSQL_TYPE_SHORT, MYSQL_TYPE_INT24, MYSQL_TYPE_LONG, MYSQL_TYPE_LONGLONG, MYSQL_TYPE_FLOAT,
     MYSQL_TYPE_DOUBLE, MYSQL_TYPE_BIT, MYSQL_TYPE_ENUM, MYSQL_TYPE_SET, MYSQL_TYPE_YEAR, MYSQL_TYPE_TIMESTAMP, MYSQL_TYPE_TIMESTAMP2,
     MYSQL_TYPE_DATETIME, MYSQL_TYPE_DATETIME2, MYSQL_TYPE_TIME, MYSQL_TYPE_TIME2, MYSQL_TYPE_NEWDATE, MYSQL_TYPE_STRING, MYSQL_TYPE_VARCHAR, MYSQL_TYPE_BLOB}"

text \<open>The values that a search finds.\<close>

definition search_finds :: "search_field \<Rightarrow> bool" where
  "search_finds f \<longleftrightarrow> (let v = s_field f in case v_type v of
      MYSQL_TYPE_INT24 \<Rightarrow> 0 \<le> v_int v
    | MYSQL_TYPE_VARCHAR \<Rightarrow> plain_end f (v_str v)
    | MYSQL_TYPE_BLOB \<Rightarrow> plain_end f (v_str v)
    | MYSQL_TYPE_TIME \<Rightarrow> (hour (v_time v) + minute (v_time v)) mod 3 = 0
    | _ \<Rightarrow> True)"

definition utc_stamp :: "search_env \<Rightarrow> (int \<Rightarrow> int) \<Rightarrow> int \<Rightarrow> int \<Rightarrow> bool" where
  "utc_stamp env off sec usec \<longleftrightarrow>
     (let mt = (gmt_sec_to_TIME env sec)\<lparr>second_part := usec\<rparr> in
      mysql_datetime mt \<and> timegm (tm_of_mysql_time mt) = sec \<and> exists_locally off mt)"

definition text_image :: "search_field \<Rightarrow> byte list \<Rightarrow> bool" where
  "text_image f key \<longleftrightarrow> (let s = v_str (s_field f) in length s < 2 ^ 16 \<and> (\<exists>pad. key = le_bytes 2 (length s) @ s @ pad))"

definition key_image :: "search_env \<Rightarrow> (int \<Rightarrow> int) \<Rightarrow> search_field \<Rightarrow> byte list \<Rightarrow> bool" where
  "key_image env off f key \<longleftrightarrow> (let v = s_field f in case v_type v of
      MYSQL_TYPE_TINY \<Rightarrow> key = int_content 1 (v_int v)
    | MYSQL_TYPE_SHORT \<Rightarrow> key = int_content 2 (v_int v)
    | MYSQL_TYPE_INT24 \<Rightarrow> key = int_content 3 (v_int v)
    | MYSQL_TYPE_LONG \<Rightarrow> key = int_content 4 (v_int v)
    | MYSQL_TYPE_LONGLONG \<Rightarrow> key = int_content 8 (v_int v)
    | MYSQL_TYPE_FLOAT \<Rightarrow> length key = 4 \<and> v_real v = double_of_float env (value_decode_float key)
    | MYSQL_TYPE_DOUBLE \<Rightarrow> key = le_bytes 8 (unat (v_real v))
    | MYSQL_TYPE_BIT \<Rightarrow> key = rev (int_content (key_length v) (v_int v))
    | MYSQL_TYPE_ENUM \<Rightarrow> key = int_content (pack_length v) (v_int v)
    | MYSQL_TYPE_SET \<Rightarrow> set_val_int env key (pack_length v) = v_int v
    | MYSQL_TYPE_YEAR \<Rightarrow> key = int_content 1 (field_year v - TM_YEAR_BASE) \<and> TM_YEAR_BASE \<le> field_year v \<and> field_year v < TM_YEAR_BASE + 256
    | MYSQL_TYPE_TIMESTAMP \<Rightarrow> (\<exists>sec. v_stamp v = Some (sec, 0) \<and> 0 \<le> sec \<and> sec < 2 ^ 32 \<and> key = int_content 4 sec
        \<and> second_part (gmt_sec_to_TIME env sec) = 0 \<and> utc_stamp env off sec 0)
    | MYSQL_TYPE_TIMESTAMP2 \<Rightarrow> v_stamp v = Some (timestamp_from_binary env key (s_decimals f))
        \<and> utc_stamp env off (fst (timestamp_from_binary env key (s_decimals f))) (snd (timestamp_from_binary env key (s_decimals f)))
    | MYSQL_TYPE_DATETIME \<Rightarrow> key = int_content 8 (packed_datetime (v_time v)) \<and> second_part (v_time v) = 0
    | MYSQL_TYPE_DATETIME2 \<Rightarrow> datetime_from_binary env key (s_decimals f) = v_time v
    | MYSQL_TYPE_TIME \<Rightarrow> key = int_content 3 (packed_time (v_time v)) \<and> second_part (v_time v) = 0
    | MYSQL_TYPE_TIME2 \<Rightarrow> time_from_binary env key (s_decimals f) = v_time v
    | MYSQL_TYPE_NEWDATE \<Rightarrow> key = int_content 3 (year (v_time v) * 512 + month (v_time v) * 32 + day (v_time v))
    | MYSQL_TYPE_STRING \<Rightarrow> (\<exists>pad. key = v_raw v @ pad)
    | MYSQL_TYPE_VARCHAR \<Rightarrow> text_image f key
    | MYSQL_TYPE_BLOB \<Rightarrow> text_image f key
    | _ \<Rightarrow> True)"

lemma with_bytes_all: "length bs = n \<Longrightarrow> with_bytes (bs @ pad) n k = Some (None, k bs)"
  by (simp add: with_bytes_def read_at_def)

lemma with_bytes_exact [simp]: "length bs = n \<Longrightarrow> with_bytes bs n k = Some (None, k bs)"
  using with_bytes_all [of bs n "[]"] by simp

lemma read_at_exact [simp]: "length bs = n \<Longrightarrow> read_at bs 0 n = Some bs"
  by (simp add: read_at_def)

text \<open>Numbers that are widened.\<close>

lemma int_content_zeros:
  assumes "n \<le> w" "0 \<le> v" "v < 2 ^ (8 * n)"
  shows "int_content n v @ replicate (w - n) 0 = int_content w v"
proof (rule iffD1 [OF le_val_inject])
  have z: "le_val (replicate k 0) = 0" for k by (induction k) simp_all
  have "(2 :: int) ^ (8 * n) \<le> 2 ^ (8 * w)" using assms(1) by simp
  then have "v mod 2 ^ (8 * w) = v" using assms(2,3) by (intro mod_pos_pos_trivial) linarith+
  moreover have "v mod 2 ^ (8 * n) = v" using assms(2,3) by (intro mod_pos_pos_trivial)
  ultimately have "int (le_val (int_content n v)) = int (le_val (int_content w v))" by (simp only: le_val_int_content)
  then show "le_val (int_content n v @ replicate (w - n) 0) = le_val (int_content w v)" by (simp add: le_val_append z)
qed (use assms(1) in simp)

lemma int_content_sign:
  assumes "v < 0" "- (2 ^ 23) \<le> v"
  shows "int_content 3 v @ [0] \<noteq> int_content 4 v"
proof
  assume "int_content 3 v @ [0] = int_content 4 v"
  then have "int (le_val (int_content 3 v @ [0])) = int (le_val (int_content 4 v))" by simp
  then have "v mod 2 ^ (8 * 3) = v mod 2 ^ (8 * 4)" by (simp only: le_val_append le_val_int_content) (simp add: le_val_int_content)
  moreover have "v mod k = v + k" if "- k \<le> v" for k
    using mod_pos_pos_trivial [of "v + k" k] assms(1) that by simp
  from this [of "2 ^ (8 * 3)"] this [of "2 ^ (8 * 4)"] assms(2)
  have "v mod 2 ^ (8 * 3) = v + 2 ^ 24" "v mod 2 ^ (8 * 4) = v + 2 ^ 32" by simp_all
  ultimately show False by simp
qed

text \<open>Texts.\<close>

lemma clear_min_sort_above: "i < j \<Longrightarrow> clear_min_sort c i buf ! j = buf ! j"
  by (induction c i buf rule: clear_min_sort.induct) auto

lemma clear_min_sort_same:
  assumes "i < length buf"
  shows "clear_min_sort c i buf = buf \<longleftrightarrow> c = 0 \<or> i = 0 \<or> buf ! i \<noteq> c"
  using assms
proof (induction c i buf rule: clear_min_sort.induct)
  case (2 c i buf)
  show ?case
  proof (cases "buf ! Suc i = c \<and> c \<noteq> 0")
    case True
    then have "clear_min_sort c (Suc i) buf ! Suc i = 0" using 2(2) by (simp add: clear_min_sort_above)
    then have "clear_min_sort c (Suc i) buf \<noteq> buf" using True by metis
    then show ?thesis using True by simp
  next
    case False
    then have "buf[Suc i := 0] = buf" if "buf ! Suc i = c" using that by (metis list_update_id)
    moreover have "clear_min_sort 0 k buf = buf" for k
  proof (induction k)
    case (Suc k)
    have "buf[Suc k := 0] = buf" if "buf ! Suc k = 0" using that by (metis list_update_id)
    then show ?case using Suc by auto
  qed simp
    ultimately show ?thesis using False by auto
  qed
qed simp

lemma normalize_same:
  "storage_encode_key_normalize_min_sort_chars f bs = bs \<longleftrightarrow> plain_end f bs"
proof -
  let ?c = "min_sort_char f mod 2 ^ 16"
  have z: "(of_nat ?c :: byte) = 0 \<longleftrightarrow> ?c = 0" if "?c \<le> 255"
    
  proof -
    have "256 dvd ?c \<longleftrightarrow> ?c = 0" using that by (auto dest: dvd_imp_le)
    then show ?thesis by (simp add: word_of_nat_eq_0_iff)
  qed
  have l: "bs \<noteq> [] \<Longrightarrow> bs ! (length bs - 1) = last bs" by (simp add: last_conv_nth)
  have "bs \<noteq> [] \<Longrightarrow> clear_min_sort (of_nat ?c) (length bs - 1) bs = bs \<longleftrightarrow> (of_nat ?c :: byte) = 0 \<or> length bs \<le> 1 \<or> last bs \<noteq> of_nat ?c"
    using clear_min_sort_same [of "length bs - 1" bs "of_nat ?c"] l by (auto simp: less_Suc_eq_0_disj)
  then show ?thesis
    using z by (cases "bs = []"; cases "length bs \<le> 1")
      (auto simp: storage_encode_key_normalize_min_sort_chars_def plain_end_def Let_def)
qed

lemma text_image_encoded:
  assumes "text_image f key"
  shows "storage_encode_key_variable_size_string f key = Some (None, storage_encode_key_normalize_min_sort_chars f (v_str (s_field f)))"
proof -
  let ?s = "v_str (s_field f)"
  obtain pad where k: "key = le_bytes 2 (length ?s) @ ?s @ pad" and l: "length ?s < 2 ^ 16"
    using assms by (auto simp: text_image_def Let_def)
  have "le_val (le_bytes 2 (length ?s)) = length ?s" using l by (simp add: le_val_le_bytes)
  moreover have "read_at key 0 2 = Some (le_bytes 2 (length ?s))" by (simp add: k read_at_def)
  ultimately show ?thesis
    using with_bytes_all [of ?s "length ?s" pad]
    by (simp add: storage_encode_key_variable_size_string_def k HA_KEY_BLOB_LENGTH_def)
qed

text \<open>Times.\<close>

lemma encoded_exact: "encoded_time env (t, False) = (None, int_content 8 t)"
  by (simp add: encoded_time_def)

text \<open>The packed date and time is taken apart into its fields.\<close>

lemma packed_parts:
  assumes "mysql_datetime mt"
  defines "p \<equiv> packed_datetime mt"
  shows "0 \<le> p" "p < 2 ^ 63"
    "zero_tm\<lparr>tm_year := to_uint (p sdiv 1000000) div 10000 - TM_YEAR_BASE, tm_mon := to_uint (p sdiv 1000000) div 100 mod 100 - 1,
       tm_mday := to_uint (p sdiv 1000000) mod 100, tm_hour := to_uint (p - to_uint (p sdiv 1000000) * 1000000) div 10000,
       tm_min := to_uint (p - to_uint (p sdiv 1000000) * 1000000) div 100 mod 100,
       tm_sec := to_uint (p - to_uint (p sdiv 1000000) * 1000000) mod 100\<rparr> = tm_of_mysql_time mt"
proof -
  let ?d = "(year mt * 100 + month mt) * 100 + day mt" and ?t = "(hour mt * 100 + minute mt) * 100 + second mt"
  have v: "0 \<le> year mt" "year mt \<le> 9999" "1 \<le> month mt" "month mt \<le> 12" "1 \<le> day mt" "day mt \<le> 31"
    "0 \<le> hour mt" "hour mt \<le> 23" "0 \<le> minute mt" "minute mt \<le> 59" "0 \<le> second mt" "second mt \<le> 59"
    using assms(1) by (auto simp: mysql_datetime_def mysql_year_def valid_tm_def valid_date_def days_in_month_def split: if_splits)
  have flat: "?t = hour mt * 10000 + minute mt * 100 + second mt" "?d = year mt * 10000 + month mt * 100 + day mt" by simp_all
  have t: "0 \<le> ?t" "?t < 1000000" unfolding flat using v by linarith+
  have "0 \<le> ?d" "?d < 4294967296" unfolding flat using v by linarith+
  then have d: "0 \<le> ?d" "?d < 2 ^ 32" by simp_all
  have p: "p = ?t + 1000000 * ?d" by (simp add: p_def packed_datetime_def)
  show nn: "0 \<le> p" "p < 2 ^ 63" using t d unfolding p by simp_all
  have "p sdiv 1000000 = ?d" using sdiv_smod_nonneg(1) [OF nn(1), of 1000000] digit_split(1) [OF t] by (simp add: p)
  then have d1: "to_uint (p sdiv 1000000) = ?d" using to_uint_id [OF d] by simp
  have t2: "?t < 2 ^ 32" using t(2) by simp
  have "p - ?d * 1000000 = ?t" using p by linarith
  then have t1: "to_uint (p - ?d * 1000000) = ?t" using to_uint_id [OF t(1) t2] by (simp only:)
  have small: "0 \<le> month mt" "month mt < 100" "0 \<le> day mt" "day mt < 100"
    "0 \<le> minute mt" "minute mt < 100" "0 \<le> second mt" "second mt < 100"
    using v by linarith+
  show "zero_tm\<lparr>tm_year := to_uint (p sdiv 1000000) div 10000 - TM_YEAR_BASE, tm_mon := to_uint (p sdiv 1000000) div 100 mod 100 - 1,
       tm_mday := to_uint (p sdiv 1000000) mod 100, tm_hour := to_uint (p - to_uint (p sdiv 1000000) * 1000000) div 10000,
       tm_min := to_uint (p - to_uint (p sdiv 1000000) * 1000000) div 100 mod 100,
       tm_sec := to_uint (p - to_uint (p sdiv 1000000) * 1000000) mod 100\<rparr> = tm_of_mysql_time mt"
    unfolding d1 t1 three_digits [OF small(1-4)] three_digits [OF small(5-8)] by (simp add: tm_of_mysql_time_def)
qed


lemma date_parts:
  assumes "valid_datetime (midnight y m d)"
  defines "p \<equiv> y * 512 + m * 32 + d"
  shows "0 \<le> p" "p < 2 ^ 24"
    "zero_tm\<lparr>tm_year := p div (16 * 32) - TM_YEAR_BASE, tm_mon := p div 32 mod 16 - 1, tm_mday := p mod 32\<rparr> = tm_of_mysql_time (midnight y m d)"
proof -
  have v: "0 \<le> y" "y \<le> 9999" "1 \<le> m" "m \<le> 12" "1 \<le> d" "d \<le> 31"
    using assms(1) by (auto simp: valid_datetime_iff midnight_def mysql_datetime_def mysql_year_def valid_tm_def valid_date_def days_in_month_def split: if_splits)
  show "0 \<le> p" "p < 2 ^ 24" using v by (simp_all add: p_def)
  have e: "p = d + 32 * (m + 16 * y)" by (simp add: p_def)
  have d32: "p div 32 = m + 16 * y" "p mod 32 = d" unfolding e using digit_split [of d 32 "m + 16 * y"] v by simp_all
  have "p div (16 * 32) = p div 32 div 16" using zdiv_zmult2_eq [of 16 p 32] by (simp add: mult.commute)
  moreover have "(m + 16 * y) div 16 = y" "(m + 16 * y) mod 16 = m" using digit_split [of m 16 y] v by simp_all
  ultimately have "p div (16 * 32) = y" "p div 32 mod 16 = m" by (simp_all only: d32)
  then show "zero_tm\<lparr>tm_year := p div (16 * 32) - TM_YEAR_BASE, tm_mon := p div 32 mod 16 - 1, tm_mday := p mod 32\<rparr> = tm_of_mysql_time (midnight y m d)"
    using d32(2) by (simp add: tm_of_mysql_time_def midnight_def zero_tm_def)
qed

lemma unsigned_image: "0 \<le> v \<Longrightarrow> v < 2 ^ (8 * n) \<Longrightarrow> unsigned_value (int_content n v) = v"
  by (simp add: unsigned_content)

lemma datetime_key:
  assumes "clock_ok off (s_values env)" "mysql_datetime mt" "exists_locally off mt" "second_part mt = 0"
  shows "storage_encode_key_datetime env (int_content 8 (packed_datetime mt))
    = Some (None, int_content 8 (GRN_TIME_PACK (s_values env) (timegm (tm_of_mysql_time mt)) 0))"
proof -
  have "signed_value (int_content 8 (packed_datetime mt)) = packed_datetime mt"
    using packed_parts(1,2) [OF assms(2)] by (intro signed_content) simp_all
  then show ?thesis
    using clock_tm [OF assms(1-3), of 0]
    by (simp add: storage_encode_key_datetime_def packed_parts(3) [OF assms(2)] encoded_exact Let_def)
qed

lemma midnight_time:
  assumes "clock_ok off venv" "valid_datetime (midnight y m d)" "exists_locally off (midnight y m d)"
  shows "mysql_time_to_grn_time (time_env.truncate venv) (midnight y m d) = (GRN_TIME_PACK venv (timegm (tm_of_mysql_time (midnight y m d))) 0, False)"
    "mysql_time_to_grn_time (time_env.truncate venv) (date_value y m d) = (GRN_TIME_PACK venv (timegm (tm_of_mysql_time (midnight y m d))) 0, False)"
  using datetime_write(1) [OF assms(1) _ assms(3)] assms(2) by (simp_all add: date_to_grn_time valid_datetime_iff, simp_all add: midnight_def)

lemma new_date_key:
  assumes "clock_ok off (s_values env)" "valid_datetime (midnight y m d)" "exists_locally off (midnight y m d)"
  shows "storage_encode_key_new_date env (int_content 3 (y * 512 + m * 32 + d))
    = Some (None, int_content 8 (fst (mysql_time_to_grn_time (s_clock env) (date_value y m d))))"
proof -
  have u: "unsigned_value (int_content 3 (y * 512 + m * 32 + d)) = y * 512 + m * 32 + d"
    using date_parts(1,2) [OF assms(2)] by (intro unsigned_image) simp_all
  have "mysql_datetime (midnight y m d)" using assms(2) by (simp add: valid_datetime_iff)
  then show ?thesis
    using clock_tm [OF assms(1) _ assms(3), of 0] date_parts(3) [OF assms(2)] midnight_time(2) [OF assms]
    by (simp add: storage_encode_key_new_date_def u encoded_exact Let_def)
qed

lemma year_key:
  assumes "clock_ok off (s_values env)" "valid_datetime (midnight y 1 1)" "exists_locally off (midnight y 1 1)"
    and "TM_YEAR_BASE \<le> y" "y < TM_YEAR_BASE + 256"
  shows "storage_encode_key_year env (int_content 1 (y - TM_YEAR_BASE))
    = Some (None, int_content 8 (fst (mysql_time_to_grn_time (s_clock env) (midnight y 1 1))))"
proof -
  have u: "unsigned_value (int_content 1 (y - TM_YEAR_BASE)) = y - TM_YEAR_BASE"
    using assms(4,5) by (intro unsigned_image) simp_all
  have "0 \<le> y" "y \<le> 9999" using assms(4,5) by (simp_all add: TM_YEAR_BASE_def)
  then show ?thesis
    using midnight_time(1) [OF assms(1-3)] year_time [of y "s_clock env"] by (simp add: storage_encode_key_year_def u [unfolded One_nat_def] encoded_exact)
qed

lemma stamp_key:
  assumes "clock_ok off (s_values env)" "utc_stamp env off sec usec"
  shows "mysql_time_to_grn_time (s_clock env) ((gmt_sec_to_TIME env sec)\<lparr>second_part := usec\<rparr>) = (GRN_TIME_PACK (s_values env) sec usec, False)"
  using assms(2) datetime_write(1) [OF assms(1)] by (fastforce simp: utc_stamp_def Let_def)

text \<open>The seconds of the old \<^verbatim>\<open>TIME\<close>.\<close>

lemma signed_quotients:
  fixes n b :: int
  assumes "0 \<le> n" "0 < b"
  shows "- n sdiv b = - (n div b)" "- n smod b = - (n mod b)"
  using assms by (auto simp: signed_divide_int_def signed_modulo_int_def sgn_if)

lemma time_key:
  assumes "clock_ok off (s_values env)" "plain_time mt" "second_part mt = 0"
  shows "\<exists>t bytes. mysql_time_to_grn_time (s_clock env) mt = (t, False)
    \<and> storage_encode_key_time env (int_content 3 (packed_time mt)) = Some (None, bytes)
    \<and> (bytes = int_content 8 t \<longleftrightarrow> (hour mt + minute mt) mod 3 = 0)"
proof -
  let ?n = "(hour mt * 100 + minute mt) * 100 + second mt"
  have v: "valid_time mt" "0 \<le> hour mt" "hour mt \<le> 838" "0 \<le> minute mt" "minute mt < 60" "0 \<le> second mt" "second mt < 60"
    using assms(2) by (simp_all add: plain_time_def valid_time_def)
  have flat: "?n = hour mt * 10000 + minute mt * 100 + second mt" by simp
  have n: "0 \<le> ?n" "?n < 8388608" unfolding flat using v by linarith+
  define w where "w = (hour mt * 60 + minute mt) * 60 + ?n mod 60"
  have m: "0 \<le> ?n mod 60" "?n mod 60 < 60" by simp_all
  have w: "0 \<le> w" "w < 2 ^ 22" using m v unfolding w_def by auto
  define s where "s = (if neg mt then - 1 else 1 :: int)"
  have sq: "s = 1 \<or> s = - 1" by (simp add: s_def)
  have "packed_time mt = s * ?n" by (simp add: packed_time_def s_def)
  then have "signed_value (int_content 3 (packed_time mt)) = s * ?n"
    using n sq by (simp only:) (intro signed_content; auto)
  moreover have "s * ?n sdiv 10000 * 60 * 60 + s * ?n sdiv 100 smod 100 * 60 + s * ?n smod 60 = s * w"
  proof -
    have q: "?n div 10000 = hour mt" "?n div 100 mod 100 = minute mt" "0 \<le> ?n div 100"
      using three_digits [of "minute mt" "second mt" "hour mt"] v n by simp_all
    show ?thesis using sq
    proof
      assume "s = 1"
      then show ?thesis using q n by (simp add: sdiv_smod_nonneg w_def)
    next
      assume "s = - 1"
      then show ?thesis using q n signed_quotients [OF n(1)] signed_quotients [OF q(3)] by (simp add: w_def)
    qed
  qed
  ultimately have key: "storage_encode_key_time env (int_content 3 (packed_time mt)) = Some (None, int_content 8 (s * w * 1000000))"
    by (simp only: storage_encode_key_time_def Let_def clock_pack [OF assms(1)] read_at_exact [OF length_int_content] option.map add_0_right)
  have t: "mysql_time_to_grn_time (s_clock env) mt = (s * seconds_of_time mt * 1000000, False)"
    using time_write [OF v(1), of "s_clock env"] assms(3) by (simp add: clock_pack [OF assms(1)] s_def)
  have sec: "0 \<le> seconds_of_time mt" "seconds_of_time mt < 2 ^ 22" using v unfolding seconds_of_time_def by auto
  have fit: "fits_time (s * x * 1000000)" if "0 \<le> x" "x < 2 ^ 22" for x using that sq by (elim disjE) (simp_all add: fits_time_def)
  have inj: "x = y" if "int_content 8 (s * x * 1000000) = int_content 8 (s * y * 1000000)" "0 \<le> x" "x < 2 ^ 22" "0 \<le> y" "y < 2 ^ 22" for x y
  proof -
    have "s * x * 1000000 = s * y * 1000000"
      using time_content [OF fit [OF that(2,3)]] time_content [OF fit [OF that(4,5)]] that(1) unfolding time_bulk_def bulk.simps by metis
    then show ?thesis using sq by auto
  qed
  have "int_content 8 (s * w * 1000000) = int_content 8 (s * seconds_of_time mt * 1000000) \<longleftrightarrow> w = seconds_of_time mt"
    using inj [OF _ w sec] by blast
  also have "\<dots> \<longleftrightarrow> ?n mod 60 = second mt" by (auto simp: w_def seconds_of_time_def)
  also have "\<dots> \<longleftrightarrow> (hour mt + minute mt) mod 3 = 0"
  proof -
    define k where "k = hour mt + minute mt"
    define q where "q = k div 3"
    define x where "x = k mod 3"
    have x: "0 \<le> x" "x < 3" "k = x + 3 * q" by (simp_all add: x_def q_def)
    have "?n = (40 * x + second mt) + 60 * (166 * hour mt + minute mt + 2 * q)" using x(3) by (simp add: k_def)
    then have m: "?n mod 60 = (40 * x + second mt) mod 60" by (simp only: mod_mult_self2)
    have "(40 * x + second mt) mod 60 = second mt \<longleftrightarrow> x = 0"
    proof -
      consider "x = 0" | "x = 1" | "x = 2" using x by linarith
      then show ?thesis
      proof cases
        case 2
        have "(40 + second mt) mod 60 = (if second mt < 20 then 40 + second mt else second mt - 20)"
          using v int_mod_pos_eq [of "40 + second mt" 60 1 "second mt - 20"] by auto
        then show ?thesis using 2 v by auto
      next
        case 3
        have "(80 + second mt) mod 60 = (if second mt < 40 then 20 + second mt else second mt - 40)"
          using v int_mod_pos_eq [of "80 + second mt" 60 1 "20 + second mt"] int_mod_pos_eq [of "80 + second mt" 60 2 "second mt - 40"] by auto
        then show ?thesis using 3 v by auto
      qed (use v in simp)
    qed
    then show ?thesis unfolding m by (simp add: x_def k_def)
  qed
  finally show ?thesis using key t by (intro exI conjI)
qed

lemma bit_key:
  assumes "pack_length (s_field f) \<in> {1..8}" "key_length (s_field f) = pack_length (s_field f)" "bits_in_range (s_field f)"
  shows "storage_encode_key_bit f (rev (int_content (pack_length (s_field f)) (v_int (s_field f))))
    = Some (None, int_content (if pack_length (s_field f) \<le> 2 then pack_length (s_field f)
        else if pack_length (s_field f) \<le> 4 then 4 else 8) (v_int (s_field f)))"
proof -
  let ?v = "s_field f"
  have pad: "bit_bytes w (rev (int_content n (v_int ?v))) = int_content w (v_int ?v)" if "n = pack_length ?v" "n < 8" "n \<le> w" for n w
    using int_content_zeros [OF that(3)] that assms(3) by (simp add: bit_bytes_def bits_in_range_def)
  have all: "bit_bytes 8 (rev (int_content 8 (v_int ?v))) = int_content 8 (v_int ?v)" by (simp add: bit_bytes_def)
  have "pack_length ?v = 1 \<or> pack_length ?v = 2 \<or> pack_length ?v = 3 \<or> pack_length ?v = 4 \<or> pack_length ?v = 5 \<or> pack_length ?v = 6
      \<or> pack_length ?v = 7 \<or> pack_length ?v = 8"
    using assms(1) by auto
  then show ?thesis
    using pad [of 1 1] pad [of 2 2] pad [of 3 4] pad [of 4 4] pad [of 5 8] pad [of 6 8] pad [of 7 8] all assms(2)
    by (elim disjE) (simp_all add: storage_encode_key_bit_def Let_def)
qed

text \<open>What the key and the stored value share: the bytes are the same exactly for the values that a search finds.\<close>

definition same_bytes :: "search_env \<Rightarrow> search_field \<Rightarrow> byte list \<Rightarrow> bool" where
  "same_bytes env f key \<longleftrightarrow> (\<exists>b bytes. generic_store_bulk (s_values env) (s_field f) = (None, Some b, False)
     \<and> encode_by_type env f key = Some (None, bytes) \<and> (bytes = bulk_content b \<longleftrightarrow> search_finds f))"

lemma same_numbers:
  assumes "field_shape (s_field f)" "value_ok off (s_field f)" "\<not> v_null (s_field f)" "change_encoding (s_values env) = 0"
    and "key_image env off f key"
    and "v_type (s_field f) \<in> {MYSQL_TYPE_TINY, MYSQL_TYPE_SHORT, MYSQL_TYPE_LONG, MYSQL_TYPE_LONGLONG, MYSQL_TYPE_FLOAT,
      MYSQL_TYPE_DOUBLE, MYSQL_TYPE_BIT, MYSQL_TYPE_ENUM, MYSQL_TYPE_SET}"
  shows "same_bytes env f key"
proof -
  have d: "le_bytes 8 (unat (value_decode_double (le_bytes 8 (unat w)))) = le_bytes 8 (unat w)" for w :: "64 word"
    using unsigned_less [of w, where 'a = nat] by (simp add: value_decode_double_def le_val_le_bytes)
  have b: "storage_encode_key_bit f key = Some (None, int_content (if pack_length (s_field f) \<le> 2 then pack_length (s_field f)
      else if pack_length (s_field f) \<le> 4 then 4 else 8) (v_int (s_field f)))"
    if "v_type (s_field f) = MYSQL_TYPE_BIT"
    using bit_key [of f] assms(1,2,3,5) that by (simp add: field_shape_def value_ok_def key_image_def Let_def)
  note defs = same_bytes_def generic_store_bulk_def encode_by_type_def key_image_def field_shape_def value_ok_def search_finds_def
    generic_store_bulk_integer_def generic_store_bulk_unsigned_integer_def generic_store_bulk_float_def int_bulk_def Let_def
    storage_encode_key_enum_def storage_encode_key_set_def
  show ?thesis
    using assms b by (cases "v_type (s_field f)") (auto simp: defs d)
qed

lemma same_medium:
  assumes "field_shape (s_field f)" "value_ok off (s_field f)" "\<not> v_null (s_field f)" "change_encoding (s_values env) = 0"
    and "key_image env off f key" "v_type (s_field f) = MYSQL_TYPE_INT24"
  shows "same_bytes env f key"
proof -
  let ?v = "v_int (s_field f)"
  have key: "key = int_content 3 ?v" using assms(5,6) by (simp add: key_image_def Let_def)
  have range: "- (2 ^ 23) \<le> ?v" "?v < 2 ^ 24"
    using assms(1-3,6) by (auto simp: value_ok_def field_shape_def int_in_range_def split: if_splits)
  have "int_content 3 ?v @ [0] = int_content 4 ?v \<longleftrightarrow> 0 \<le> ?v"
    using int_content_zeros [of 3 4 ?v] int_content_sign [of ?v] range by (cases "?v < 0") auto
  moreover have "generic_store_bulk (s_values env) (s_field f)
      = (None, Some \<lparr>bulk_domain = if v_unsigned (s_field f) then GRN_DB_UINT32 else GRN_DB_INT32, bulk_content = int_content 4 ?v\<rparr>, False)"
    using assms(1,3,4,6) by (simp add: generic_store_bulk_def generic_store_bulk_integer_def int_bulk_def field_shape_def)
  ultimately show ?thesis
    using assms(6) by (simp add: same_bytes_def encode_by_type_def key search_finds_def)
qed

lemma same_texts:
  assumes "field_shape (s_field f)" "\<not> v_null (s_field f)" "change_encoding (s_values env) = 0" "key_image env off f key"
    and "v_type (s_field f) \<in> {MYSQL_TYPE_STRING, MYSQL_TYPE_VARCHAR, MYSQL_TYPE_BLOB}"
  shows "same_bytes env f key"
  using assms with_bytes_all [of "v_raw (s_field f)"]
  by (auto simp: same_bytes_def generic_store_bulk_def encode_by_type_def key_image_def field_shape_def text_image_encoded Let_def
      generic_store_bulk_fixed_size_string_def generic_store_bulk_variable_size_string_def generic_store_bulk_blob_def
      storage_encode_key_fixed_size_string_def search_finds_def normalize_same)

lemma same_times:
  assumes "value_ok off (s_field f)" "\<not> v_null (s_field f)" "clock_ok off (s_values env)" "change_encoding (s_values env) = 0"
    and "key_image env off f key"
    and "v_type (s_field f) \<in> {MYSQL_TYPE_YEAR, MYSQL_TYPE_TIMESTAMP, MYSQL_TYPE_TIMESTAMP2, MYSQL_TYPE_DATETIME, MYSQL_TYPE_DATETIME2,
      MYSQL_TYPE_TIME, MYSQL_TYPE_TIME2, MYSQL_TYPE_NEWDATE}"
  shows "same_bytes env f key"
proof -
  let ?v = "s_field f" and ?c = "s_clock env"
  note dt = datetime_write(1) [OF assms(3), of "v_time ?v"] and stamp = stamp_key [OF assms(3)]
  note defs = same_bytes_def generic_store_bulk_def encode_by_type_def key_image_def value_ok_def Let_def time_bulk_def temporal_bulk_exact search_finds_def
  consider "v_type ?v = MYSQL_TYPE_YEAR" | "v_type ?v = MYSQL_TYPE_TIMESTAMP" | "v_type ?v = MYSQL_TYPE_TIMESTAMP2"
    | "v_type ?v = MYSQL_TYPE_DATETIME" | "v_type ?v = MYSQL_TYPE_DATETIME2" | "v_type ?v = MYSQL_TYPE_TIME" | "v_type ?v = MYSQL_TYPE_TIME2"
    | "v_type ?v = MYSQL_TYPE_NEWDATE"
    using assms(6) by blast
  then show ?thesis
  proof cases
    case 1
    then have y: "valid_datetime (midnight (field_year ?v) 1 1)" "exists_locally off (midnight (field_year ?v) 1 1)"
      "TM_YEAR_BASE \<le> field_year ?v" "field_year ?v < TM_YEAR_BASE + 256" "key = int_content 1 (field_year ?v - TM_YEAR_BASE)"
      using assms(1,2,5) by (simp_all add: value_ok_def key_image_def Let_def)
    then have "0 \<le> field_year ?v" "field_year ?v \<le> 9999" by (simp_all add: TM_YEAR_BASE_def)
    then have "generic_store_bulk_year (s_values env) ?v = (None, Some (time_bulk (fst (mysql_time_to_grn_time ?c (midnight (field_year ?v) 1 1)))), False)"
      using year_time [of "field_year ?v" ?c] midnight_time(1) [OF assms(3) y(1,2)] assms(2)
      by (simp add: generic_store_bulk_year_def temporal_bulk_exact flip: field_year_def)
    then show ?thesis
      using 1 year_key [OF assms(3) y(1-4)] assms(4)
      by (simp add: same_bytes_def generic_store_bulk_def encode_by_type_def y(5) time_bulk_def search_finds_def)
  next
    case 2
    then obtain sec where s: "v_stamp ?v = Some (sec, 0)" "0 \<le> sec" "sec < 2 ^ 32" "key = int_content 4 sec"
      "second_part (gmt_sec_to_TIME env sec) = 0" "utc_stamp env off sec 0"
      using assms(5) by (auto simp: key_image_def Let_def)
    have "unsigned_value key = sec" using s(2-4) by (simp add: unsigned_image)
    moreover have "(gmt_sec_to_TIME env sec)\<lparr>second_part := 0\<rparr> = gmt_sec_to_TIME env sec"
      using s(5) by (intro mysql_time.equality) simp_all
    then have "mysql_time_to_grn_time ?c (gmt_sec_to_TIME env sec) = (GRN_TIME_PACK (s_values env) sec 0, False)"
      using stamp [OF s(6)] by (simp only:)
    ultimately show ?thesis
      using 2 s(1,4) assms(2,4)
      by (simp add: defs storage_encode_key_timestamp_def encoded_exact generic_store_bulk_timestamp_def timestamp_convert_def)
  next
    case 3
    then show ?thesis
      using assms(2,4,5) stamp
      by (auto simp: defs storage_encode_key_timestamp2_def encoded_exact generic_store_bulk_timestamp2_def timestamp_convert_def split: prod.splits)
  next
    case 4
    then show ?thesis
      using assms(1,2,4,5) dt datetime_key [OF assms(3), of "v_time ?v"] by (simp add: defs generic_store_bulk_datetime_def)
  next
    case 5
    then show ?thesis
      using assms(1,2,4,5) dt by (simp add: defs storage_encode_key_datetime2_def generic_store_bulk_datetime2_def encoded_exact)
  next
    case 6
    then have t: "plain_time (v_time ?v)" "second_part (v_time ?v) = 0" "key = int_content 3 (packed_time (v_time ?v))"
      using assms(1,5) by (simp_all add: value_ok_def key_image_def Let_def)
    show ?thesis using time_key [OF assms(3) t(1,2)] 6 assms(4) t(3)
      by (auto simp: same_bytes_def generic_store_bulk_def encode_by_type_def generic_store_bulk_time_def time_bulk_def search_finds_def)
  next
    case 7
    then have "valid_time (v_time ?v)" using assms(1,2) by (simp add: value_ok_def plain_time_def)
    then show ?thesis
      using 7 assms(2,4,5) time_write [of "v_time ?v" ?c] by (simp add: defs storage_encode_key_time2_def generic_store_bulk_time2_def encoded_exact)
  next
    case 8
    then obtain y m d where t: "v_time ?v = date_value y m d" "valid_datetime (midnight y m d)" "exists_locally off (midnight y m d)"
      using assms(1,2) by (auto simp: value_ok_def)
    have "key = int_content 3 (y * 512 + m * 32 + d)" using 8 t(1) assms(5) by (simp add: key_image_def date_value_def midnight_def)
    then show ?thesis
      using 8 assms(2,4) new_date_key [OF assms(3) t(2,3)] midnight_time [OF assms(3) t(2,3)]
      by (simp add: defs t(1) generic_store_bulk_new_date_def date_to_grn_time)
  qed
qed


section \<open>Properties\<close>


definition fixed_zone_search_env :: "int \<Rightarrow> search_env" where
  "fixed_zone_search_env z = \<lparr>s_values = fixed_zone_value_env z, gmt_sec_to_TIME = (\<lambda>_. example_datetime),
     timestamp_from_binary = (\<lambda>_ _. (0, 0)), datetime_from_binary = (\<lambda>_ _. example_datetime), time_from_binary = (\<lambda>_ _. example_datetime),
     double_of_float = (\<lambda>_. 0), set_val_int = (\<lambda>_ _. 0)\<rparr>"

definition medium_field :: "int \<Rightarrow> search_field" where
  "medium_field v = \<lparr>s_field = example_field\<lparr>v_type := MYSQL_TYPE_INT24, pack_length := 3, v_int := v\<rparr>, s_null_bit = True, s_decimals = 0,
     s_has_charset = False, min_sort_char = 0\<rparr>"

definition bit_field :: search_field where
  "bit_field = \<lparr>s_field = example_field\<lparr>v_type := MYSQL_TYPE_BIT, pack_length := 2, key_length := 2, v_int := 258\<rparr>, s_null_bit = False,
     s_decimals = 0, s_has_charset = False, min_sort_char = 0\<rparr>"


text \<open>The old \<^verbatim>\<open>TIME\<close> type takes the seconds of \<^verbatim>\<open>HHMMSS\<close> modulo 60, not 100: the key of 01:01:03 is that of 01:01:23.\<close>

lemma old_time_seconds:
  "storage_encode_key_time env (int_content 3 10103) = Some (None, int_content 8 (GRN_TIME_PACK (s_values env) (3600 + 60 + 23) 0))"
proof -
  have "signed_value (int_content 3 10103) = 10103" by (intro signed_content) simp_all
  then show ?thesis by (simp add: storage_encode_key_time_def Let_def sdiv_smod_nonneg)
qed

text \<open>A decimal column can have an index, but a key for it is an error with an empty key.\<close>

lemma decimal_key_unsupported:
  "v_type (s_field f) = MYSQL_TYPE_NEWDECIMAL \<Longrightarrow> change_encoding (s_values env) = 0 \<Longrightarrow> \<not> s_null_bit f \<Longrightarrow>
     storage_encode_key env f key = Some (Some HA_ERR_UNSUPPORTED, False, [])"
  by (simp add: storage_encode_key_def encode_by_type_def)

end
