(* ===== verification/Index_Reads.thy ===== *)
theory Index_Reads
  imports Key_Codec Search_Keys
begin

text \<open>
  Reading rows through indexes in storage mode (\<^verbatim>\<open>storage_index_read_map\<close>, \<^verbatim>\<open>storage_index_read_last_map\<close>,
  \<^verbatim>\<open>storage_index_first\<close>, \<^verbatim>\<open>storage_index_last\<close>, \<^verbatim>\<open>storage_get_next_record\<close> and the functions around them in
  \<^verbatim>\<open>ha_mroonga.cpp\<close>): which cursor is opened with which bounds, and the cursors and result tables the handler
  holds. A Groonga cursor is the list of the records it has still to give; Groonga's part, what a cursor gives for
  given bounds, is a parameter. Reading or writing outside of a buffer is \<^const>\<open>None\<close>.
\<close>

section \<open>Bounds of cursors\<close>

datatype find_flag =
    HA_READ_KEY_EXACT | HA_READ_KEY_OR_NEXT | HA_READ_KEY_OR_PREV | HA_READ_AFTER_KEY | HA_READ_BEFORE_KEY | HA_READ_PREFIX
  | HA_READ_PREFIX_LAST | HA_READ_PREFIX_LAST_OR_PREV | HA_READ_MBR_CONTAIN | HA_READ_MBR_INTERSECT | HA_READ_MBR_WITHIN
  | HA_READ_MBR_DISJOINT | HA_READ_MBR_EQUAL

datatype cursor_flag =
    GRN_CURSOR_ASCENDING | GRN_CURSOR_DESCENDING | GRN_CURSOR_GE | GRN_CURSOR_GT | GRN_CURSOR_LE | GRN_CURSOR_LT | GRN_CURSOR_PREFIX

fun find_cursor_flags :: "find_flag \<Rightarrow> cursor_flag list" where
  "find_cursor_flags HA_READ_BEFORE_KEY = [GRN_CURSOR_LT, GRN_CURSOR_DESCENDING]"
| "find_cursor_flags HA_READ_PREFIX_LAST = [GRN_CURSOR_PREFIX, GRN_CURSOR_DESCENDING]"
| "find_cursor_flags HA_READ_PREFIX_LAST_OR_PREV = [GRN_CURSOR_LE, GRN_CURSOR_DESCENDING]"
| "find_cursor_flags HA_READ_AFTER_KEY = [GRN_CURSOR_GT, GRN_CURSOR_ASCENDING]"
| "find_cursor_flags HA_READ_KEY_OR_NEXT = [GRN_CURSOR_GE, GRN_CURSOR_ASCENDING]"
| "find_cursor_flags HA_READ_KEY_EXACT = [GRN_CURSOR_LE, GRN_CURSOR_GE]"
| "find_cursor_flags _ = []"

text \<open>A key is its bytes and its length, the buffers are \<^verbatim>\<open>key_min_entity\<close> and \<^verbatim>\<open>key_max_entity\<close> with what is in
  them. The errors of the codec are ignored, as the handler ignores them.\<close>

definition storage_encode_multiple_column_key ::
    "codec_env \<Rightarrow> key_part list \<Rightarrow> byte list \<Rightarrow> nat \<Rightarrow> byte list \<Rightarrow> byte list option" where
  "storage_encode_multiple_column_key env kps key len buf = map_option (\<lambda>(_, b, n). take n b) (codec_encode env kps key len buf)"

definition range_start :: "codec_env \<Rightarrow> key_part list \<Rightarrow> byte list \<Rightarrow> nat \<Rightarrow> byte list \<Rightarrow> byte list option" where
  "range_start env kps key len buf =
     (case storage_encode_multiple_column_key_range env kps (Some (key, len)) None buf [] of
        Some (_, (b, Some n), _) \<Rightarrow> Some (take n b) | _ \<Rightarrow> None)"

definition range_end :: "codec_env \<Rightarrow> key_part list \<Rightarrow> byte list \<Rightarrow> nat \<Rightarrow> byte list \<Rightarrow> byte list option" where
  "range_end env kps key len buf =
     (case storage_encode_multiple_column_key_range env kps None (Some (key, len)) [] buf of
        Some (_, _, (b, Some n)) \<Rightarrow> Some (take n b) | _ \<Rightarrow> None)"

type_synonym cursor_bounds = "(cursor_flag list \<times> byte list option \<times> byte list option) option"

text \<open>A key that gives all columns.\<close>

definition full_key_bounds :: "codec_env \<Rightarrow> key_part list \<Rightarrow> byte list \<Rightarrow> nat \<Rightarrow> find_flag \<Rightarrow> byte list \<Rightarrow> byte list \<Rightarrow> cursor_bounds" where
  "full_key_bounds env kps key len flag key_min_entity key_max_entity =
     (case flag of
        HA_READ_BEFORE_KEY \<Rightarrow> map_option (\<lambda>k. ([], None, Some k)) (storage_encode_multiple_column_key env kps key len key_max_entity)
      | HA_READ_PREFIX_LAST_OR_PREV \<Rightarrow> map_option (\<lambda>k. ([], None, Some k)) (storage_encode_multiple_column_key env kps key len key_max_entity)
      | HA_READ_PREFIX_LAST \<Rightarrow> map_option (\<lambda>k. ([], Some k, None)) (storage_encode_multiple_column_key env kps key len key_min_entity)
      | _ \<Rightarrow> map_option (\<lambda>k. ([], Some k, if flag = HA_READ_KEY_EXACT then Some k else None))
               (storage_encode_multiple_column_key env kps key len key_min_entity))"

text \<open>A key that gives the first columns, and the length of all but the last of them.\<close>

definition previous_bound ::
    "(byte list \<Rightarrow> nat \<Rightarrow> byte list \<Rightarrow> byte list option) \<Rightarrow> byte list \<Rightarrow> nat option \<Rightarrow> byte list \<Rightarrow> byte list option option" where
  "previous_bound encode key prev buf = (case prev of None \<Rightarrow> Some None | Some n \<Rightarrow> map_option Some (encode key n buf))"

definition partial_key_bounds ::
    "codec_env \<Rightarrow> key_part list \<Rightarrow> byte list \<Rightarrow> nat \<Rightarrow> nat option \<Rightarrow> find_flag \<Rightarrow> byte list \<Rightarrow> byte list \<Rightarrow> cursor_bounds" where
  "partial_key_bounds env kps key len prev flag key_min_entity key_max_entity =
     (let at_least = (if prev = None then [] else [GRN_CURSOR_GE]);
          at_most = (if prev = None then [] else [GRN_CURSOR_LE]) in
      case flag of
        HA_READ_BEFORE_KEY \<Rightarrow>
          (case (previous_bound (range_start env kps) key prev key_min_entity, range_start env kps key len key_max_entity) of
             (Some key_min, Some key_max) \<Rightarrow> Some (at_least, key_min, Some key_max) | _ \<Rightarrow> None)
      | HA_READ_PREFIX_LAST \<Rightarrow>
          map_option (\<lambda>k. ([], Some k, None)) (storage_encode_multiple_column_key env kps key len key_min_entity)
      | HA_READ_PREFIX_LAST_OR_PREV \<Rightarrow>
          (case (previous_bound (range_start env kps) key prev key_min_entity, range_end env kps key len key_max_entity) of
             (Some key_min, Some key_max) \<Rightarrow> Some (at_least, key_min, Some key_max) | _ \<Rightarrow> None)
      | HA_READ_AFTER_KEY \<Rightarrow>
          (case (range_end env kps key len key_min_entity, previous_bound (range_end env kps) key prev key_max_entity) of
             (Some key_min, Some key_max) \<Rightarrow> Some (at_most, Some key_min, key_max) | _ \<Rightarrow> None)
      | HA_READ_KEY_OR_NEXT \<Rightarrow>
          (case (range_start env kps key len key_min_entity, previous_bound (range_end env kps) key prev key_max_entity) of
             (Some key_min, Some key_max) \<Rightarrow> Some (at_most, Some key_min, key_max) | _ \<Rightarrow> None)
      | HA_READ_KEY_EXACT \<Rightarrow>
          (case storage_encode_multiple_column_key_range env kps (Some (key, len)) (Some (key, len)) key_min_entity key_max_entity of
             Some (_, (b, Some n), (c, Some m)) \<Rightarrow> Some ([], Some (take n b), Some (take m c)) | _ \<Rightarrow> None)
      | _ \<Rightarrow> Some ([], None, None))"

text \<open>\<open>calculate_key_len\<close> is MySQL's function: the length of the columns a map names.\<close>

definition multiple_column_bounds ::
    "codec_env \<Rightarrow> key_part list \<Rightarrow> nat \<Rightarrow> (nat \<Rightarrow> nat) \<Rightarrow> byte list \<Rightarrow> nat \<Rightarrow> find_flag \<Rightarrow> byte list \<Rightarrow> byte list \<Rightarrow> cursor_bounds" where
  "multiple_column_bounds env kps key_info_length calculate_key_len key keypart_map flag key_min_entity key_max_entity =
     (let key_length = calculate_key_len keypart_map;
          add = map_option (\<lambda>(fs, mn, mx). (find_cursor_flags flag @ fs, mn, mx)) in
      if key_length = key_info_length then add (full_key_bounds env kps key key_length flag key_min_entity key_max_entity)
      else
        (let prev = (if keypart_map div 2 > 0 then Some (calculate_key_len (keypart_map div 2)) else None) in
         add (partial_key_bounds env kps key key_length prev flag key_min_entity key_max_entity)))"

text \<open>An index of one column.\<close>

definition single_column_bounds :: "search_env \<Rightarrow> search_field \<Rightarrow> byte list \<Rightarrow> find_flag \<Rightarrow> cursor_bounds" where
  "single_column_bounds env f key flag =
     map_option (\<lambda>(_, is_null, bytes).
       let k = (if is_null then None else Some bytes) in
       (find_cursor_flags flag,
        if flag = HA_READ_BEFORE_KEY \<or> flag = HA_READ_PREFIX_LAST_OR_PREV then (None, k)
        else if flag = HA_READ_KEY_EXACT then (k, k) else (k, None)))
     (storage_encode_key env f key)"


section \<open>The order of keys and bounds\<close>

lemma key_less_take:
  "key_less kps (take m us) (take m vs) \<Longrightarrow> key_less kps us vs"
proof (induction kps us vs arbitrary: m rule: key_less.induct)
  case (1 kp kps u us v vs)
  then show ?case by (cases m) auto
qed auto

lemma grn_key_eq:
  assumes "key_values kps us" "key_values kps vs" "length us = length vs"
  shows "grn_key_of kps us = grn_key_of kps vs \<longleftrightarrow> map snd us = map snd vs"
  using assms(3,1,2)
proof (induction us vs arbitrary: kps rule: list_induct2)
  case (Cons u us v vs)
  then obtain kp kps' where k: "kps = kp # kps'" by (cases kps) auto
  then have p: "plain_part kp" "length (snd u) = part_size kp" "length (snd v) = part_size kp" using Cons.prems by simp_all
  have "part_enc kp (snd u) = part_enc kp (snd v) \<longleftrightarrow> snd u = snd v"
    using key_part_codec.enc_inject [OF plain_part_codec [OF p(1)] p(2,3)] .
  moreover have "length (grn_image kp u) = length (grn_image kp v)" using p by (simp add: grn_image_def length_part_enc)
  ultimately show ?case using Cons k p by (simp add: grn_image_def)
qed simp

lemma memcmp_total: "length xs = length ys \<Longrightarrow> \<not> memcmp_less xs ys \<Longrightarrow> \<not> memcmp_less ys xs \<Longrightarrow> xs = ys"
proof (induction xs ys rule: list_induct2)
  case (Cons x xs y ys)
  then show ?case by (auto split: if_splits)
qed simp

lemma memcmp_asym: "length xs = length ys \<Longrightarrow> memcmp_less xs ys \<Longrightarrow> \<not> memcmp_less ys xs"
  by (simp add: memcmp_less_be_val)

lemma key_less_total:
  assumes "key_values kps us" "key_values kps vs" "length us = length vs"
  shows "\<not> key_less kps us vs \<and> \<not> key_less kps vs us \<longleftrightarrow> map snd us = map snd vs" "key_less kps us vs \<Longrightarrow> \<not> key_less kps vs us"
proof -
  have len: "length (grn_key_of kps us) = length (grn_key_of kps vs)"
    using grn_key_length(1) [OF assms(1)] grn_key_length(1) [OF assms(2)] assms(3) by simp
  note o = grn_key_order [OF assms] grn_key_order [OF assms(2,1) assms(3) [symmetric]]
  show "\<not> key_less kps us vs \<and> \<not> key_less kps vs us \<longleftrightarrow> map snd us = map snd vs"
    using memcmp_total [OF len] memcmp_asym [OF refl, of "grn_key_of kps us"] o grn_key_eq [OF assms] by auto
  show "key_less kps us vs \<Longrightarrow> \<not> key_less kps vs us"
    using memcmp_asym [OF len] o by simp
qed

text \<open>Which keys a cursor with given flags and bounds gives.\<close>

definition cursor_admits :: "cursor_flag list \<Rightarrow> byte list option \<Rightarrow> byte list option \<Rightarrow> byte list \<Rightarrow> bool" where
  "cursor_admits flags key_min key_max k \<longleftrightarrow>
     (if GRN_CURSOR_PREFIX \<in> set flags then (case key_min of None \<Rightarrow> True | Some p \<Rightarrow> prefix p k)
      else (case key_min of None \<Rightarrow> True | Some m \<Rightarrow> if GRN_CURSOR_GT \<in> set flags then memcmp_less m k else \<not> memcmp_less k m)
         \<and> (case key_max of None \<Rightarrow> True | Some m \<Rightarrow> if GRN_CURSOR_LT \<in> set flags then memcmp_less k m else \<not> memcmp_less m k))"

text \<open>MySQL's lengths of the first columns.\<close>

definition store_length :: "key_part \<Rightarrow> nat" where
  "store_length kp = (if null_bit (kp_field kp) then 1 else 0) + part_size kp"

definition key_len_promise :: "key_part list \<Rightarrow> (nat \<Rightarrow> nat) \<Rightarrow> bool" where
  "key_len_promise kps calculate_key_len \<longleftrightarrow> (\<forall>n\<le>length kps. calculate_key_len (2 ^ n - 1) = sum_list (map store_length (take n kps)))"

lemma mysql_key_length:
  "key_values kps us \<Longrightarrow> length (mysql_key_of kps us) = sum_list (map store_length (take (length us) kps))"
  by (induction kps us rule: key_values.induct) (auto simp: mysql_image_def store_length_def)

lemma partial_length:
  assumes "\<forall>kp\<in>set kps. plain_part kp" "n < length kps"
  shows "sum_list (map store_length (take n kps)) < sum_list (map store_length kps)"
proof -
  have "kps = take n kps @ kps ! n # drop (Suc n) kps" using assms(2) by (simp add: Cons_nth_drop_Suc)
  then have "sum_list (map store_length kps)
      = sum_list (map store_length (take n kps)) + store_length (kps ! n) + sum_list (map store_length (drop (Suc n) kps))"
    by (metis (no_types, lifting) append.assoc list.simps(9) map_append sum_list.Cons sum_list_append add.assoc)
  moreover have "0 < store_length (kps ! n)"
    using assms plain_part_size by (simp add: store_length_def)
  ultimately show ?thesis by linarith
qed

lemma mysql_key_split: "key_values kps us \<Longrightarrow> \<exists>post. mysql_key_of kps us = mysql_key_of kps (take m us) @ post"
proof (induction kps us arbitrary: m rule: key_values.induct)
  case (3 kp kps v vs)
  then show ?case by (cases m) auto
qed auto


lemma full_encoded:
  assumes "key_values kps us" "codec_size kps \<le> length buf"
  shows "storage_encode_multiple_column_key env kps (mysql_key_of kps us) (length (mysql_key_of kps us)) buf = Some (grn_key_of kps us)"
  using codec_encode_prefix [OF assms, of env "[]"] by (simp add: storage_encode_multiple_column_key_def)

lemma range_encoded:
  assumes "key_values kps us" "codec_size kps \<le> length buf"
  shows "range_start env kps (mysql_key_of kps us @ post) (length (mysql_key_of kps us)) buf
      = Some (grn_key_of kps us @ replicate (codec_size kps - length (grn_key_of kps us)) 0)"
    "range_end env kps (mysql_key_of kps us @ post) (length (mysql_key_of kps us)) buf
      = Some (grn_key_of kps us @ replicate (codec_size kps - length (grn_key_of kps us)) 0xff)"
proof -
  obtain b where "encode_range_bound env kps 0 (Some (mysql_key_of kps us @ post, length (mysql_key_of kps us))) buf = Some (None, b, Some (codec_size kps))"
    "take (codec_size kps) b = grn_key_of kps us @ replicate (codec_size kps - length (grn_key_of kps us)) 0"
    using encode_range_bound_post [OF assms] by metis
  then show "range_start env kps (mysql_key_of kps us @ post) (length (mysql_key_of kps us)) buf
      = Some (grn_key_of kps us @ replicate (codec_size kps - length (grn_key_of kps us)) 0)"
    by (simp add: range_start_def storage_encode_multiple_column_key_range_def encode_range_bound_def)
  obtain c where "encode_range_bound env kps 0xff (Some (mysql_key_of kps us @ post, length (mysql_key_of kps us))) buf = Some (None, c, Some (codec_size kps))"
    "take (codec_size kps) c = grn_key_of kps us @ replicate (codec_size kps - length (grn_key_of kps us)) 0xff"
    using encode_range_bound_post [OF assms] by metis
  then show "range_end env kps (mysql_key_of kps us @ post) (length (mysql_key_of kps us)) buf
      = Some (grn_key_of kps us @ replicate (codec_size kps - length (grn_key_of kps us)) 0xff)"
    by (simp add: range_end_def storage_encode_multiple_column_key_range_def encode_range_bound_def)
qed

text \<open>The padded bounds of the first columns \<open>us\<close>, compared with a whole key.\<close>

definition low_bound :: "key_part list \<Rightarrow> key_value list \<Rightarrow> byte list" where
  "low_bound kps us = grn_key_of kps us @ replicate (codec_size kps - length (grn_key_of kps us)) 0"

definition high_bound :: "key_part list \<Rightarrow> key_value list \<Rightarrow> byte list" where
  "high_bound kps us = grn_key_of kps us @ replicate (codec_size kps - length (grn_key_of kps us)) 0xff"

lemma bound_order:
  assumes "key_values kps us" "key_values kps ws" "length ws = length kps"
  shows "memcmp_less (grn_key_of kps ws) (low_bound kps us) \<longleftrightarrow> key_less kps (take (length us) ws) us"
    "memcmp_less (high_bound kps us) (grn_key_of kps ws) \<longleftrightarrow> key_less kps us (take (length us) ws)"
proof -
  have l: "length (grn_key_of kps us) \<le> codec_size kps"
    using grn_key_length(1) [OF assms(1)] codec_size_take [of "length us" kps] by simp
  show "memcmp_less (grn_key_of kps ws) (low_bound kps us) \<longleftrightarrow> key_less kps (take (length us) ws) us"
    by (rule padded_order(1) [OF assms _ low_bound_def refl]) (use l in \<open>simp add: low_bound_def\<close>)
  show "memcmp_less (high_bound kps us) (grn_key_of kps ws) \<longleftrightarrow> key_less kps us (take (length us) ws)"
    by (rule padded_order(2) [OF assms _ high_bound_def refl]) (use l in \<open>simp add: high_bound_def\<close>)
qed

lemma full_bound: "key_values kps us \<Longrightarrow> length us = length kps \<Longrightarrow> low_bound kps us = grn_key_of kps us"
  "key_values kps us \<Longrightarrow> length us = length kps \<Longrightarrow> high_bound kps us = grn_key_of kps us"
  using grn_key_length(1) [of kps us] by (simp_all add: low_bound_def high_bound_def)

lemma prefix_key:
  assumes "key_values kps us" "key_values kps ws" "length ws = length kps"
  shows "prefix (grn_key_of kps us) (grn_key_of kps ws) \<longleftrightarrow> map snd (take (length us) ws) = map snd us"
proof -
  have kv: "key_values kps (take (length us) ws)" by (rule key_values_take [OF assms(2)])
  have len: "length (take (length us) ws) = length us" using grn_key_length(2) [OF assms(1)] assms(3) by simp
  have "length (grn_key_of kps (take (length us) ws)) = length (grn_key_of kps us)"
    using grn_key_length(1) [OF kv] grn_key_length(1) [OF assms(1)] len by simp
  then have "prefix (grn_key_of kps us) (grn_key_of kps ws) \<longleftrightarrow> grn_key_of kps (take (length us) ws) = grn_key_of kps us"
    using grn_key_split [OF assms(2), of "length us"] by (auto simp: prefix_def append_eq_append_conv_if)
  then show ?thesis using grn_key_eq [OF kv assms(1) len] by simp
qed

text \<open>The rows a search should give: those whose first columns compare with the key as the search asks, and, when the
  key gives not all columns of the index and more than one, which agree with the key in all columns but its last.\<close>

definition key_selects :: "find_flag \<Rightarrow> key_part list \<Rightarrow> key_value list \<Rightarrow> key_value list \<Rightarrow> bool" where
  "key_selects flag kps us ws \<longleftrightarrow>
     (let n = length us; p = take n ws;
          same_head = (n < length kps \<longrightarrow> 1 < n \<longrightarrow> map snd (take (n - 1) ws) = map snd (take (n - 1) us)) in
      case flag of
        HA_READ_KEY_EXACT \<Rightarrow> map snd p = map snd us
      | HA_READ_PREFIX_LAST \<Rightarrow> map snd p = map snd us
      | HA_READ_AFTER_KEY \<Rightarrow> key_less kps us p \<and> same_head
      | HA_READ_KEY_OR_NEXT \<Rightarrow> \<not> key_less kps p us \<and> same_head
      | HA_READ_BEFORE_KEY \<Rightarrow> key_less kps p us \<and> same_head
      | HA_READ_PREFIX_LAST_OR_PREV \<Rightarrow> \<not> key_less kps us p \<and> same_head
      | _ \<Rightarrow> True)"


lemma same_head_bound:
  assumes "key_values kps us" "key_values kps ws" "length ws = length kps"
  defines "p \<equiv> take (length us) ws" and "m \<equiv> length us - 1"
  shows "\<not> key_less kps p us \<Longrightarrow> \<not> key_less kps (take m us) (take m ws) \<longleftrightarrow> map snd (take m ws) = map snd (take m us)"
    "\<not> key_less kps us p \<Longrightarrow> \<not> key_less kps (take m ws) (take m us) \<longleftrightarrow> map snd (take m ws) = map snd (take m us)"
proof -
  have t: "take m p = take m ws" by (simp add: p_def m_def min_def)
  have kv: "key_values kps (take m us)" "key_values kps (take m ws)" by (simp_all add: assms(1,2) key_values_take)
  have len: "length (take m us) = length (take m ws)" using grn_key_length(2) [OF assms(1)] assms(3) by (simp add: m_def)
  note total = key_less_total [OF kv len]
  show "\<not> key_less kps p us \<Longrightarrow> \<not> key_less kps (take m us) (take m ws) \<longleftrightarrow> map snd (take m ws) = map snd (take m us)"
    using key_less_take [of kps m p us] total(1) by (auto simp: t)
  show "\<not> key_less kps us p \<Longrightarrow> \<not> key_less kps (take m ws) (take m us) \<longleftrightarrow> map snd (take m ws) = map snd (take m us)"
    using key_less_take [of kps m us p] total(1) by (auto simp: t)
qed

lemma half_map: "n > 0 \<Longrightarrow> (2 ^ n - 1) div 2 = (2 ^ (n - 1) - 1 :: nat)" "(0 < (2 ^ (n - 1) - 1 :: nat)) = (1 < n)"
proof -
  assume "n > 0"
  then obtain k where "n = Suc k" by (cases n) auto
  moreover have "(2 * 2 ^ k - 1) div 2 = (2 ^ k - 1 :: nat)" by presburger
  ultimately show "(2 ^ n - 1) div 2 = (2 ^ (n - 1) - 1 :: nat)" by simp
next
  show "(0 < (2 ^ (n - 1) - 1 :: nat)) = (1 < n)"
    using one_less_power [of "2 :: nat" "n - 1"] by (cases "n - 1") auto
qed

text \<open>What the handler opens for a search with the first columns of an index.\<close>

definition plain_find :: "find_flag \<Rightarrow> bool" where
  "plain_find flag \<longleftrightarrow> flag \<in> {HA_READ_KEY_EXACT, HA_READ_KEY_OR_NEXT, HA_READ_AFTER_KEY, HA_READ_BEFORE_KEY, HA_READ_PREFIX_LAST,
     HA_READ_PREFIX_LAST_OR_PREV}"

lemma full_bounds_admit:
  assumes "key_values kps us" "length us = length kps" "plain_find flag"
    and "codec_size kps \<le> length smin" "codec_size kps \<le> length smax"
  shows "\<exists>fs mn mx. full_key_bounds env kps (mysql_key_of kps us) (length (mysql_key_of kps us)) flag smin smax = Some (fs, mn, mx)
    \<and> fs = [] \<and> (\<forall>ws. key_values kps ws \<longrightarrow> length ws = length kps \<longrightarrow>
         (cursor_admits (find_cursor_flags flag) mn mx (grn_key_of kps ws) \<longleftrightarrow> key_selects flag kps us ws))"
proof -
  note e = full_encoded [OF assms(1,4)] full_encoded [OF assms(1,5)]
  have b: "memcmp_less (grn_key_of kps ws) (grn_key_of kps us) \<longleftrightarrow> key_less kps ws us"
    "memcmp_less (grn_key_of kps us) (grn_key_of kps ws) \<longleftrightarrow> key_less kps us ws"
    "prefix (grn_key_of kps us) (grn_key_of kps ws) \<longleftrightarrow> map snd ws = map snd us"
    "\<not> key_less kps ws us \<and> \<not> key_less kps us ws \<longleftrightarrow> map snd ws = map snd us"
    if "key_values kps ws" "length ws = length kps" for ws
    using bound_order [OF assms(1) that] prefix_key [OF assms(1) that] full_bound [OF assms(1,2)]
      key_less_total(1) [OF that(1) assms(1)] that(2) assms(2) by simp_all
  show ?thesis
    using assms(2,3) b by (cases flag)
      (auto simp: full_key_bounds_def e cursor_admits_def key_selects_def plain_find_def Let_def)
qed


text \<open>The bounds for the first columns, as bounds of keys.\<close>

definition partial_bounds :: "key_part list \<Rightarrow> key_value list \<Rightarrow> find_flag \<Rightarrow> cursor_flag list \<times> byte list option \<times> byte list option" where
  "partial_bounds kps us flag =
     (let head = (\<lambda>b. if 1 < length us then Some (b kps (take (length us - 1) us)) else None);
          extra = (\<lambda>f. if 1 < length us then [f] else []) in
      case flag of
        HA_READ_KEY_EXACT \<Rightarrow> ([], Some (low_bound kps us), Some (high_bound kps us))
      | HA_READ_PREFIX_LAST \<Rightarrow> ([], Some (grn_key_of kps us), None)
      | HA_READ_AFTER_KEY \<Rightarrow> (extra GRN_CURSOR_LE, Some (high_bound kps us), head high_bound)
      | HA_READ_KEY_OR_NEXT \<Rightarrow> (extra GRN_CURSOR_LE, Some (low_bound kps us), head high_bound)
      | HA_READ_BEFORE_KEY \<Rightarrow> (extra GRN_CURSOR_GE, head low_bound, Some (low_bound kps us))
      | HA_READ_PREFIX_LAST_OR_PREV \<Rightarrow> (extra GRN_CURSOR_GE, head low_bound, Some (high_bound kps us))
      | _ \<Rightarrow> ([], None, None))"

lemma partial_key_bounds_eq:
  assumes "key_values kps us" "codec_size kps \<le> length smin" "codec_size kps \<le> length smax"
    and "prev = (if 1 < length us then Some (length (mysql_key_of kps (take (length us - 1) us))) else None)"
  shows "partial_key_bounds env kps (mysql_key_of kps us) (length (mysql_key_of kps us)) prev flag smin smax = Some (partial_bounds kps us flag)"
proof -
  let ?h = "take (length us - 1) us" and ?key = "mysql_key_of kps us"
  obtain post where post: "?key = mysql_key_of kps ?h @ post" using mysql_key_split [OF assms(1)] by blast
  have kh: "key_values kps ?h" by (rule key_values_take [OF assms(1)])
  note full = full_encoded [OF assms(1,2)]
  have low: "range_start env kps ?key (length ?key) smin = Some (low_bound kps us)"
    "range_start env kps ?key (length ?key) smax = Some (low_bound kps us)"
    using range_encoded(1) [OF assms(1), of _ env "[]"] assms(2,3) by (simp_all add: low_bound_def)
  have high: "range_end env kps ?key (length ?key) smin = Some (high_bound kps us)"
    "range_end env kps ?key (length ?key) smax = Some (high_bound kps us)"
    using range_encoded(2) [OF assms(1), of _ env "[]"] assms(2,3) by (simp_all add: high_bound_def)
  have hlow: "range_start env kps ?key (length (mysql_key_of kps ?h)) smin = Some (low_bound kps ?h)"
    and hhigh: "range_end env kps ?key (length (mysql_key_of kps ?h)) smax = Some (high_bound kps ?h)"
    unfolding post using range_encoded [OF kh, of _ env post] assms(2,3) by (simp_all add: low_bound_def high_bound_def)
  obtain b where b: "encode_range_bound env kps 0 (Some (?key, length ?key)) smin = Some (None, b, Some (codec_size kps))"
    "take (codec_size kps) b = low_bound kps us"
    using encode_range_bound_post [OF assms(1,2), of env 0 "[]"] by (auto simp: low_bound_def)
  obtain c where c: "encode_range_bound env kps 0xff (Some (?key, length ?key)) smax = Some (None, c, Some (codec_size kps))"
    "take (codec_size kps) c = high_bound kps us"
    using encode_range_bound_post [OF assms(1,3), of env "0xff" "[]"] by (auto simp: high_bound_def)
  have bc: "storage_encode_multiple_column_key_range env kps (Some (?key, length ?key)) (Some (?key, length ?key)) smin smax
      = Some (None, (b, Some (codec_size kps)), (c, Some (codec_size kps)))"
    using b(1) c(1) by (simp add: storage_encode_multiple_column_key_range_def)
  show ?thesis
    by (cases flag) (simp_all add: partial_key_bounds_def previous_bound_def partial_bounds_def bc b(2) c(2) low high hlow [unfolded One_nat_def] hhigh [unfolded One_nat_def] full assms(4) Let_def)
qed

lemma partial_cursor:
  assumes "partial_bounds kps us flag = (fs, mn, mx)" "plain_find flag"
  defines "h \<equiv> take (length us - 1) us"
  shows "set fs \<subseteq> {GRN_CURSOR_GE, GRN_CURSOR_LE}"
    "cursor_admits (find_cursor_flags flag @ fs) mn mx k \<longleftrightarrow> (case flag of
        HA_READ_KEY_EXACT \<Rightarrow> \<not> memcmp_less k (low_bound kps us) \<and> \<not> memcmp_less (high_bound kps us) k
      | HA_READ_PREFIX_LAST \<Rightarrow> prefix (grn_key_of kps us) k
      | HA_READ_AFTER_KEY \<Rightarrow> memcmp_less (high_bound kps us) k \<and> (1 < length us \<longrightarrow> \<not> memcmp_less (high_bound kps h) k)
      | HA_READ_KEY_OR_NEXT \<Rightarrow> \<not> memcmp_less k (low_bound kps us) \<and> (1 < length us \<longrightarrow> \<not> memcmp_less (high_bound kps h) k)
      | HA_READ_BEFORE_KEY \<Rightarrow> memcmp_less k (low_bound kps us) \<and> (1 < length us \<longrightarrow> \<not> memcmp_less k (low_bound kps h))
      | HA_READ_PREFIX_LAST_OR_PREV \<Rightarrow> \<not> memcmp_less (high_bound kps us) k \<and> (1 < length us \<longrightarrow> \<not> memcmp_less k (low_bound kps h))
      | _ \<Rightarrow> True)"
  unfolding h_def using assms(1,2)
  by (cases flag; cases "1 < length us"; auto simp: partial_bounds_def cursor_admits_def plain_find_def)+

lemma partial_bounds_admit:
  assumes "key_values kps us" "length us < length kps" "plain_find flag"
    and "key_values kps ws" "length ws = length kps" "partial_bounds kps us flag = (fs, mn, mx)"
  shows "cursor_admits (find_cursor_flags flag @ fs) mn mx (grn_key_of kps ws) \<longleftrightarrow> key_selects flag kps us ws"
proof -
  let ?p = "take (length us) ws" and ?m = "length us - 1"
  have kh: "key_values kps (take ?m us)" by (rule key_values_take [OF assms(1)])
  have kp: "key_values kps ?p" "length ?p = length us" using key_values_take [OF assms(4)] assms(2,5) by simp_all
  have lm: "length (take ?m us) = ?m" by simp
  note order = bound_order [OF assms(1,4,5)] bound_order [OF kh assms(4,5), unfolded lm] prefix_key [OF assms(1,4,5)]
  have equal: "\<not> key_less kps ?p us \<and> \<not> key_less kps us ?p \<longleftrightarrow> map snd ?p = map snd us"
    by (rule key_less_total(1) [OF kp(1) assms(1) kp(2)])
  have asym: "key_less kps ?p us \<longrightarrow> \<not> key_less kps us ?p" using key_less_total(2) [OF kp(1) assms(1) kp(2)] by blast
  have heads: "\<not> key_less kps ?p us \<longrightarrow> (\<not> key_less kps (take ?m us) (take ?m ws) \<longleftrightarrow> map snd (take ?m ws) = map snd (take ?m us))"
    "\<not> key_less kps us ?p \<longrightarrow> (\<not> key_less kps (take ?m ws) (take ?m us) \<longleftrightarrow> map snd (take ?m ws) = map snd (take ?m us))"
    using same_head_bound [OF assms(1,4,5)] by blast+
  show ?thesis
    unfolding partial_cursor(2) [OF assms(6,3)] order key_selects_def Let_def
    using assms(2) equal asym heads by (cases flag; simp only: find_flag.case) blast+
qed


section \<open>The cursors of the handler\<close>

text \<open>The slots that hold Groonga's objects, the current record, whether rows are only counted, and, beside the code, how many
  objects Groonga has open for the handler.\<close>

record reader =
  r_cursor :: "nat list option"
  index_table_cursor :: bool
  condition_push_down_result :: bool
  sorted_condition_push_down_result :: bool
  condition_push_down_result_cursor :: "nat list option"
  cursor_geo :: "nat list option"
  grn_source_column_geo :: bool
  empty_value_records :: bool
  empty_value_records_cursor :: "nat list option"
  record_id :: nat
  count_skip :: bool
  live :: int

text \<open>\<open>table_ids\<close> and \<open>index_ids\<close> are the records of cursors over the table and over an index, \<open>empty_value_ids\<close> the records whose column is
  empty, \<open>selected\<close> those of a pushed down condition with the sorted ones when the limit is applied,
  all \<^const>\<open>None\<close> when Groonga fails.\<close>

record read_env =
  re_codec :: codec_env
  re_search :: search_env
  change_encoding_null :: int
  calculate_key_len :: "nat \<Rightarrow> nat"
  flag_bits :: "cursor_flag \<Rightarrow> nat"
  rkey_value :: "find_flag \<Rightarrow> nat"
  table_ids :: "cursor_flag list \<Rightarrow> byte list option \<Rightarrow> byte list option \<Rightarrow> nat list option"
  index_ids :: "cursor_flag list \<Rightarrow> byte list option \<Rightarrow> byte list option \<Rightarrow> nat list option"
  empty_value_ids :: "nat list option"
  geo_ids :: "byte list \<Rightarrow> nat list option"
  inside_rectangle :: "nat \<Rightarrow> bool"
  geo_encoding :: int
  record_exists :: "nat \<Rightarrow> bool"
  checks_count_skip :: "nat \<Rightarrow> bool"
  next_fails :: bool

datatype index_kind = Multiple_column "key_part list" nat | Geo_key search_field | Single_column search_field bool

record index =
  i_kind :: index_kind
  i_primary :: bool
  i_fulltext :: bool

datatype read_result = Found_row nat | HA_ERR_END_OF_FILE | ER_ERROR_ON_READ | Encoding_failed int

definition unlink_if :: "bool \<Rightarrow> int" where
  "unlink_if open = (if open then 1 else 0)"

definition clear_cursor :: "reader \<Rightarrow> reader" where
  "clear_cursor r = r\<lparr>r_cursor := None, index_table_cursor := False, condition_push_down_result_cursor := None,
     sorted_condition_push_down_result := False, condition_push_down_result := False,
     live := live r - unlink_if (r_cursor r \<noteq> None) - unlink_if (index_table_cursor r)
       - unlink_if (condition_push_down_result_cursor r \<noteq> None) - unlink_if (sorted_condition_push_down_result r)
       - unlink_if (condition_push_down_result r)\<rparr>"

definition clear_cursor_geo :: "reader \<Rightarrow> reader" where
  "clear_cursor_geo r = r\<lparr>cursor_geo := None, live := live r - unlink_if (cursor_geo r \<noteq> None)\<rparr>"

definition clear_empty_value_records :: "reader \<Rightarrow> reader" where
  "clear_empty_value_records r = r\<lparr>empty_value_records_cursor := None, empty_value_records := False,
     live := live r - unlink_if (empty_value_records_cursor r \<noteq> None) - unlink_if (empty_value_records r)\<rparr>"

definition clear_search_result :: "reader \<Rightarrow> reader" where
  "clear_search_result r = clear_cursor r"

definition clear_search_result_geo :: "reader \<Rightarrow> reader" where
  "clear_search_result_geo r0 = (let r = clear_cursor_geo r0 in
     r\<lparr>grn_source_column_geo := False, live := live r - unlink_if (grn_source_column_geo r)\<rparr>)"

text \<open>Opening a cursor into a slot.\<close>

definition open_cursor :: "nat list option \<Rightarrow> reader \<Rightarrow> reader" where
  "open_cursor ids r = r\<lparr>r_cursor := ids, live := live r + unlink_if (ids \<noteq> None)\<rparr>"

definition open_index_cursor :: "nat list option \<Rightarrow> reader \<Rightarrow> reader" where
  "open_index_cursor ids r = r\<lparr>index_table_cursor := (ids \<noteq> None), r_cursor := ids, live := live r + 2 * unlink_if (ids \<noteq> None)\<rparr>"

definition open_empty_value_records :: "nat list option \<Rightarrow> reader \<Rightarrow> reader" where
  "open_empty_value_records ids r = r\<lparr>empty_value_records := (ids \<noteq> None), empty_value_records_cursor := ids,
     live := live r + 2 * unlink_if (ids \<noteq> None)\<rparr>"

text \<open>\<^verbatim>\<open>storage_get_next_record\<close>: the first cursor that is open gives the next record; a point outside of the searched
  rectangle is skipped, but only when the row is read. Record 0 is \<^verbatim>\<open>GRN_ID_NIL\<close>.\<close>

fun next_geo :: "(nat \<Rightarrow> bool) \<Rightarrow> bool \<Rightarrow> nat list \<Rightarrow> nat \<times> nat list" where
  "next_geo inside check [] = (0, [])"
| "next_geo inside check (i # is) = (if i \<noteq> 0 \<and> check \<and> \<not> inside i then next_geo inside check is else (i, is))"

definition storage_get_next_record :: "read_env \<Rightarrow> bool \<Rightarrow> reader \<Rightarrow> read_result \<times> reader" where
  "storage_get_next_record env buf r =
     (let (i, r') = (case condition_push_down_result_cursor r of
          Some [] \<Rightarrow> (0, r)
        | Some (i # is) \<Rightarrow> (i, r\<lparr>condition_push_down_result_cursor := Some is\<rparr>)
        | None \<Rightarrow> (case cursor_geo r of
            Some is \<Rightarrow> (let (i, is') = next_geo (inside_rectangle env) (buf \<and> grn_source_column_geo r \<and> \<not> next_fails env) is in (i, r\<lparr>cursor_geo := Some is'\<rparr>))
          | None \<Rightarrow> (case r_cursor r of
              Some [] \<Rightarrow> (0, r)
            | Some (i # is) \<Rightarrow> (i, r\<lparr>r_cursor := Some is\<rparr>)
            | None \<Rightarrow> (case empty_value_records_cursor r of
                Some (i # is) \<Rightarrow> (i, r\<lparr>empty_value_records_cursor := Some is\<rparr>)
              | _ \<Rightarrow> (0, r)))));
          r'' = r'\<lparr>record_id := i\<rparr>
      in if next_fails env then (ER_ERROR_ON_READ, r'')
         else if i = 0 then (HA_ERR_END_OF_FILE, r'')
         else (Found_row i, r''))"

definition storage_index_next :: "read_env \<Rightarrow> reader \<Rightarrow> read_result \<times> reader" where
  "storage_index_next env r = storage_get_next_record env True r"

definition storage_index_prev :: "read_env \<Rightarrow> reader \<Rightarrow> read_result \<times> reader" where
  "storage_index_prev env r = storage_get_next_record env True r"

definition storage_index_next_same :: "read_env \<Rightarrow> reader \<Rightarrow> read_result \<times> reader" where
  "storage_index_next_same env r = storage_get_next_record env (\<not> count_skip r) r"


text \<open>\<^verbatim>\<open>generic_geo_open_cursor\<close>: when the number of the search has the bit of \<^verbatim>\<open>HA_READ_MBR_CONTAIN\<close> a rectangle is searched,
  otherwise the whole table is read.\<close>

definition generic_geo_open_cursor :: "read_env \<Rightarrow> byte list \<Rightarrow> find_flag \<Rightarrow> reader \<Rightarrow> bool \<times> reader" where
  "generic_geo_open_cursor env key flag r =
     (if Bit_Operations.and (rkey_value env flag) (rkey_value env HA_READ_MBR_CONTAIN) \<noteq> 0 then
        (case geo_ids env key of
           None \<Rightarrow> (True, r\<lparr>cursor_geo := None\<rparr>)
         | Some is \<Rightarrow> (False, r\<lparr>cursor_geo := Some is, grn_source_column_geo := True,
             live := live r + 2 - unlink_if (grn_source_column_geo r)\<rparr>))
      else (table_ids env [] None None = None, open_cursor (table_ids env [] None None) r))"

text \<open>Opening the cursor for given bounds: of the table for the primary key, of the index otherwise; a search for an empty key
  is a search for records with an empty value, of which a primary key has none.\<close>

definition no_flags :: "read_env \<Rightarrow> cursor_flag list \<Rightarrow> bool" where
  "no_flags env fs \<longleftrightarrow> (\<forall>f\<in>set fs. flag_bits env f = 0)"

definition bound_size :: "byte list option \<Rightarrow> nat" where
  "bound_size b = (case b of None \<Rightarrow> 0 | Some k \<Rightarrow> length k)"

definition open_bounds :: "read_env \<Rightarrow> index \<Rightarrow> cursor_flag list \<Rightarrow> byte list option \<Rightarrow> byte list option \<Rightarrow> reader \<Rightarrow> bool \<times> reader" where
  "open_bounds env idx flags key_min key_max r =
     (let empty_search = (no_flags env flags \<and> bound_size key_min = 0 \<and> bound_size key_max = 0);
          multiple = (case i_kind idx of Multiple_column _ _ \<Rightarrow> True | _ \<Rightarrow> False) in
      if i_primary idx then
        (if empty_search then (False, open_empty_value_records (Some []) r)
         else (table_ids env flags key_min key_max = None, open_cursor (table_ids env flags key_min key_max) r))
      else if \<not> multiple \<and> empty_search then
        (empty_value_ids env = None, open_empty_value_records (empty_value_ids env) r)
      else (index_ids env flags key_min key_max = None, open_index_cursor (index_ids env flags key_min key_max) r))"

definition found_or_fail :: "read_env \<Rightarrow> bool \<times> reader \<Rightarrow> read_result \<times> reader" where
  "found_or_fail env x = (if fst x then (ER_ERROR_ON_READ, snd x) else storage_get_next_record env True (snd x))"

text \<open>\<^verbatim>\<open>_id\<close> is looked up directly.\<close>

definition read_by_id :: "read_env \<Rightarrow> byte list option \<Rightarrow> reader \<Rightarrow> (read_result \<times> reader) option" where
  "read_by_id env key_min r =
     (case key_min of
        None \<Rightarrow> None
      | Some k \<Rightarrow> map_option (\<lambda>bs.
          if record_exists env (le_val bs) then (Found_row (le_val bs), r\<lparr>record_id := le_val bs\<rparr>)
          else (HA_ERR_END_OF_FILE, r)) (read_at k 0 4))"

definition storage_index_read_map ::
    "read_env \<Rightarrow> index \<Rightarrow> byte list \<Rightarrow> nat \<Rightarrow> find_flag \<Rightarrow> byte list \<Rightarrow> byte list \<Rightarrow> reader \<Rightarrow> (read_result \<times> reader) option" where
  "storage_index_read_map env idx key keypart_map flag key_min_entity key_max_entity r0 =
     (let r = clear_empty_value_records (clear_cursor_geo (clear_cursor (r0\<lparr>count_skip := checks_count_skip env keypart_map\<rparr>))) in
      case i_kind idx of
        Multiple_column kps key_info_length \<Rightarrow>
          map_option (\<lambda>(fs, mn, mx). found_or_fail env (open_bounds env idx fs mn mx r))
            (multiple_column_bounds (re_codec env) kps key_info_length (calculate_key_len env) key keypart_map flag key_min_entity key_max_entity)
      | Geo_key f \<Rightarrow>
          Some (if geo_encoding env \<noteq> 0 then (Encoding_failed (geo_encoding env), r)
                else found_or_fail env (generic_geo_open_cursor env key flag r))
      | Single_column f is_id \<Rightarrow>
          (let error = change_encoding (s_values (re_search env)) in
           if error \<noteq> 0 then Some (Encoding_failed error, r)
           else (case single_column_bounds (re_search env) f key flag of
              None \<Rightarrow> None
            | Some (fs, mn, mx) \<Rightarrow>
                if flag = HA_READ_KEY_EXACT \<and> is_id then read_by_id env mn r
                else Some (found_or_fail env (open_bounds env idx fs mn mx r)))))"

text \<open>\<^verbatim>\<open>storage_index_read_last_map\<close>\<close>

definition open_plain :: "read_env \<Rightarrow> bool \<Rightarrow> cursor_flag list \<Rightarrow> byte list option \<Rightarrow> byte list option \<Rightarrow> reader \<Rightarrow> bool \<times> reader" where
  "open_plain env of_table flags key_min key_max r =
     (if of_table then (table_ids env flags key_min key_max = None, open_cursor (table_ids env flags key_min key_max) r)
      else (index_ids env flags key_min key_max = None, open_index_cursor (index_ids env flags key_min key_max) r))"

definition read_last_single :: "read_env \<Rightarrow> index \<Rightarrow> search_field \<Rightarrow> byte list \<Rightarrow> reader \<Rightarrow> (read_result \<times> reader) option" where
  "read_last_single env idx f key r =
     (let error = change_encoding (s_values (re_search env)) in
      if error \<noteq> 0 then Some (Encoding_failed error, r)
      else map_option (\<lambda>(_, is_null, bytes).
        let k = (if is_null then None else Some bytes) in
        found_or_fail env (open_plain env (i_primary idx) [GRN_CURSOR_DESCENDING] k k r))
        (storage_encode_key (re_search env) f key))"

definition storage_index_read_last_map :: "read_env \<Rightarrow> index \<Rightarrow> byte list \<Rightarrow> nat \<Rightarrow> byte list \<Rightarrow> reader \<Rightarrow> (read_result \<times> reader) option" where
  "storage_index_read_last_map env idx key keypart_map key_min_entity r0 =
     (let r = clear_cursor r0 in
      case i_kind idx of
        Multiple_column kps key_info_length \<Rightarrow>
          map_option (\<lambda>k. found_or_fail env (open_plain env (i_primary idx) [GRN_CURSOR_DESCENDING, GRN_CURSOR_PREFIX] (Some k) None r))
            (storage_encode_multiple_column_key (re_codec env) kps key (calculate_key_len env keypart_map) key_min_entity)
      | Geo_key f \<Rightarrow> read_last_single env idx f key r
      | Single_column f is_id \<Rightarrow> read_last_single env idx f key r)"

definition storage_index_first :: "read_env \<Rightarrow> index \<Rightarrow> reader \<Rightarrow> read_result \<times> reader" where
  "storage_index_first env idx r =
     found_or_fail env (open_plain env (i_primary idx \<or> i_fulltext idx) [GRN_CURSOR_ASCENDING] None None (clear_cursor r))"

definition storage_index_last :: "read_env \<Rightarrow> index \<Rightarrow> reader \<Rightarrow> read_result \<times> reader" where
  "storage_index_last env idx r =
     found_or_fail env (open_plain env (i_primary idx \<or> i_fulltext idx) [GRN_CURSOR_DESCENDING] None None (clear_cursor r))"

definition storage_index_end :: "reader \<Rightarrow> reader" where
  "storage_index_end r = clear_cursor_geo (clear_cursor r)"


text \<open>Scans of the table (\<^verbatim>\<open>storage_rnd_init\<close>). The result of a pushed down condition and, when the limit is applied by Groonga, the
  sorted part of it are given; \<^const>\<open>None\<close> is a failure.\<close>

datatype scan = Scan_table | Scan_condition "nat list option" "nat list option"

definition storage_rnd_init :: "read_env \<Rightarrow> scan \<Rightarrow> reader \<Rightarrow> read_result option \<times> reader" where
  "storage_rnd_init env s r0 =
     (case s of
        Scan_table \<Rightarrow> (if table_ids env [] None None = None then Some ER_ERROR_ON_READ else None, open_cursor (table_ids env [] None None) r0)
      | Scan_condition result limited \<Rightarrow>
          (let r = r0\<lparr>count_skip := checks_count_skip env 0, condition_push_down_result := (result \<noteq> None),
                 live := live r0 + unlink_if (result \<noteq> None)\<rparr> in
           case result of
             None \<Rightarrow> (Some ER_ERROR_ON_READ, r)
           | Some ids \<Rightarrow> (case limited of
               Some sorted_ids \<Rightarrow> (None, r\<lparr>sorted_condition_push_down_result := True, condition_push_down_result_cursor := Some sorted_ids,
                   live := live r + 2\<rparr>)
             | None \<Rightarrow> (None, r\<lparr>condition_push_down_result_cursor := Some ids, live := live r + 1\<rparr>))))"

definition storage_rnd_next :: "read_env \<Rightarrow> reader \<Rightarrow> read_result \<times> reader" where
  "storage_rnd_next env r = storage_get_next_record env True r"

definition storage_rnd_end :: "reader \<Rightarrow> reader" where
  "storage_rnd_end r = clear_cursor r"

text \<open>The part of \<^verbatim>\<open>reset\<close> that concerns the cursors.\<close>

definition reset_reader :: "reader \<Rightarrow> reader" where
  "reset_reader r = clear_search_result_geo (clear_search_result (clear_empty_value_records r))"

end
