(* ===== verification/Index_Scans.thy ===== *)
theory Index_Scans
  imports Index_Reads
begin

text \<open>
  What reading through an index gives: the rows of a search with a key of several columns, in the order of the
  index, to the end of the file; and that the handler loses none of Groonga's objects, whatever the order of the calls.
\<close>

section \<open>Groonga's objects\<close>

definition slots_open :: "reader \<Rightarrow> int" where
  "slots_open r = unlink_if (r_cursor r \<noteq> None) + unlink_if (index_table_cursor r) + unlink_if (condition_push_down_result r)
     + unlink_if (sorted_condition_push_down_result r) + unlink_if (condition_push_down_result_cursor r \<noteq> None)
     + unlink_if (cursor_geo r \<noteq> None) + unlink_if (grn_source_column_geo r)
     + unlink_if (empty_value_records r) + unlink_if (empty_value_records_cursor r \<noteq> None)"

text \<open>All open objects are in slots, but for the lost ones.\<close>

definition balanced_but :: "int \<Rightarrow> reader \<Rightarrow> bool" where
  "balanced_but n r \<longleftrightarrow> live r = slots_open r + n"

definition no_scan :: "reader \<Rightarrow> bool" where
  "no_scan r \<longleftrightarrow> r_cursor r = None \<and> \<not> index_table_cursor r \<and> \<not> condition_push_down_result r
     \<and> \<not> sorted_condition_push_down_result r \<and> condition_push_down_result_cursor r = None"

text \<open>The calls of the server on one handler; Groonga and the settings may change from call to call.\<close>

datatype read_call =
    Read_map index "byte list" nat find_flag "byte list" "byte list"
  | Read_last index "byte list" nat "byte list"
  | First index | Last index | Next | Prev | Next_same | Index_end
  | Rnd_init scan | Rnd_next | Rnd_end | Reset

fun read_step :: "read_env \<times> read_call \<Rightarrow> reader \<Rightarrow> reader option" where
  "read_step (env, Read_map idx key parts flag smin smax) r = map_option snd (storage_index_read_map env idx key parts flag smin smax r)"
| "read_step (env, Read_last idx key parts smin) r = map_option snd (storage_index_read_last_map env idx key parts smin r)"
| "read_step (env, First idx) r = Some (snd (storage_index_first env idx r))"
| "read_step (env, Last idx) r = Some (snd (storage_index_last env idx r))"
| "read_step (env, Next) r = Some (snd (storage_index_next env r))"
| "read_step (env, Prev) r = Some (snd (storage_index_prev env r))"
| "read_step (env, Next_same) r = Some (snd (storage_index_next_same env r))"
| "read_step (env, Index_end) r = Some (storage_index_end r)"
| "read_step (env, Rnd_init s) r = Some (snd (storage_rnd_init env s r))"
| "read_step (env, Rnd_next) r = Some (snd (storage_rnd_next env r))"
| "read_step (env, Rnd_end) r = Some (storage_rnd_end r)"
| "read_step (env, Reset) r = Some (reset_reader r)"

text \<open>A scan that begins while another one is open, as a server does that scans the inner table of a join once more, sets slots that are
  taken: the objects in them are lost.\<close>

fun lost_by :: "read_env \<times> read_call \<Rightarrow> reader \<Rightarrow> int" where
  "lost_by (env, Rnd_init Scan_table) r = unlink_if (r_cursor r \<noteq> None)"
| "lost_by (env, Rnd_init (Scan_condition result limited)) r = unlink_if (condition_push_down_result r)
     + unlink_if (result \<noteq> None \<and> condition_push_down_result_cursor r \<noteq> None)
     + unlink_if (result \<noteq> None \<and> limited \<noteq> None \<and> sorted_condition_push_down_result r)"
| "lost_by _ r = 0"

text \<open>The calls with the number of objects that were lost.\<close>

definition counted_step :: "read_env \<times> read_call \<Rightarrow> reader \<times> int \<Rightarrow> (reader \<times> int) option" where
  "counted_step c s = map_option (\<lambda>r. (r, snd s + lost_by c (fst s))) (read_step c (fst s))"

definition ends_scans :: "read_env \<times> read_call \<Rightarrow> reader \<times> int \<Rightarrow> bool" where
  "ends_scans c s \<longleftrightarrow> (case snd c of Rnd_init _ \<Rightarrow> no_scan (fst s) | _ \<Rightarrow> True)"

definition new_reader :: reader where
  "new_reader = \<lparr>r_cursor = None, index_table_cursor = False, condition_push_down_result = False, sorted_condition_push_down_result = False,
     condition_push_down_result_cursor = None, cursor_geo = None, grn_source_column_geo = False, empty_value_records = False,
     empty_value_records_cursor = None, record_id = 0, count_skip = False, live = 0\<rparr>"

lemmas clear_defs = clear_cursor_def clear_cursor_geo_def clear_empty_value_records_def clear_search_result_def clear_search_result_geo_def

lemma unlink_simps [simp]: "unlink_if True = 1" "unlink_if False = 0"
  by (simp_all add: unlink_if_def)

lemma clear_balanced [simp]:
  "balanced_but n r \<Longrightarrow> balanced_but n (clear_cursor r)" "balanced_but n r \<Longrightarrow> balanced_but n (clear_cursor_geo r)"
  "balanced_but n r \<Longrightarrow> balanced_but n (clear_empty_value_records r)" "balanced_but n r \<Longrightarrow> balanced_but n (clear_search_result_geo r)"
  by (simp_all add: balanced_but_def slots_open_def clear_defs Let_def)

lemma balanced_irrelevant [simp]:
  "balanced_but n (r\<lparr>record_id := i\<rparr>) = balanced_but n r" "balanced_but n (r\<lparr>count_skip := b\<rparr>) = balanced_but n r"
  "no_scan (r\<lparr>record_id := i\<rparr>) = no_scan r" "no_scan (r\<lparr>count_skip := b\<rparr>) = no_scan r"
  by (simp_all add: balanced_but_def slots_open_def no_scan_def)

lemma no_scan_clear [simp]:
  "no_scan (clear_cursor r)" "no_scan r \<Longrightarrow> no_scan (clear_cursor_geo r)" "no_scan r \<Longrightarrow> no_scan (clear_empty_value_records r)"
  by (simp_all add: no_scan_def clear_defs)

text \<open>The next record is taken from a slot that stays open.\<close>

lemma snd_next_record:
  "snd (storage_get_next_record env buf r) \<in> {r'\<lparr>record_id := i\<rparr> |r' i. r' = r
     \<or> (\<exists>is. condition_push_down_result_cursor r \<noteq> None \<and> r' = r\<lparr>condition_push_down_result_cursor := Some is\<rparr>)
     \<or> (\<exists>is. cursor_geo r \<noteq> None \<and> r' = r\<lparr>cursor_geo := Some is\<rparr>)
     \<or> (\<exists>is. r_cursor r \<noteq> None \<and> r' = r\<lparr>r_cursor := Some is\<rparr>)
     \<or> (\<exists>is. empty_value_records_cursor r \<noteq> None \<and> r' = r\<lparr>empty_value_records_cursor := Some is\<rparr>)}"
proof -
  have s: "snd (if a then (x, t) else if b then (y, t) else (z, t)) = t" for a b x y z and t :: reader by simp
  show ?thesis
    unfolding storage_get_next_record_def Let_def case_prod_unfold s
    by (cases "condition_push_down_result_cursor r"; cases "cursor_geo r"; cases "r_cursor r"; cases "empty_value_records_cursor r")
      (simp_all split: list.split; blast)+
qed

lemma next_balanced [simp]: "balanced_but n r \<Longrightarrow> balanced_but n (snd (storage_get_next_record env buf r))"
  using snd_next_record [of env buf r] by (auto simp: balanced_but_def slots_open_def)

text \<open>Opening into a slot that is empty.\<close>

lemma open_balanced [simp]:
  "balanced_but n r \<Longrightarrow> no_scan r \<Longrightarrow> balanced_but n (open_cursor ids r)"
  "balanced_but n r \<Longrightarrow> no_scan r \<Longrightarrow> balanced_but n (open_index_cursor ids r)"
  "balanced_but n r \<Longrightarrow> \<not> empty_value_records r \<Longrightarrow> empty_value_records_cursor r = None \<Longrightarrow> balanced_but n (open_empty_value_records ids r)"
  by (simp_all add: balanced_but_def slots_open_def no_scan_def open_cursor_def open_index_cursor_def open_empty_value_records_def)

lemma cleared_empty_values [simp]:
  "\<not> empty_value_records (clear_empty_value_records r)" "empty_value_records_cursor (clear_empty_value_records r) = None"
  by (simp_all add: clear_empty_value_records_def)

lemma open_plain_balanced [simp]: "balanced_but n r \<Longrightarrow> no_scan r \<Longrightarrow> balanced_but n (snd (open_plain env t fs mn mx r))"
  by (simp add: open_plain_def)

lemma open_bounds_balanced [simp]:
  "balanced_but n r \<Longrightarrow> no_scan r \<Longrightarrow> \<not> empty_value_records r \<Longrightarrow> empty_value_records_cursor r = None \<Longrightarrow> balanced_but n (snd (open_bounds env idx fs mn mx r))"
  by (simp add: open_bounds_def Let_def)

lemma geo_balanced [simp]:
  assumes "balanced_but n r" "no_scan r" "cursor_geo r = None"
  shows "balanced_but n (snd (generic_geo_open_cursor env key flag r))"
proof (cases "Bit_Operations.and (rkey_value env flag) (rkey_value env HA_READ_MBR_CONTAIN) = 0")
  case True
  then show ?thesis using assms by (simp add: generic_geo_open_cursor_def)
next
  case False
  then show ?thesis using assms by (cases "geo_ids env key") (simp_all add: generic_geo_open_cursor_def balanced_but_def slots_open_def)
qed

lemma found_balanced [simp]: "balanced_but n (snd x) \<Longrightarrow> balanced_but n (snd (found_or_fail env x))"
  by (simp add: found_or_fail_def)


lemma read_map_balanced:
  assumes "balanced_but n r" "storage_index_read_map env idx key parts flag smin smax r = Some x"
  shows "balanced_but n (snd x)"
proof -
  define r1 where "r1 = clear_empty_value_records (clear_cursor_geo (clear_cursor (r\<lparr>count_skip := checks_count_skip env parts\<rparr>)))"
  have ok: "balanced_but n r1" "no_scan r1" "\<not> empty_value_records r1" "empty_value_records_cursor r1 = None"
    using assms(1) by (simp_all add: r1_def)
  have geo: "cursor_geo r1 = None" by (simp add: r1_def clear_empty_value_records_def clear_cursor_geo_def)
  show ?thesis
    using assms(2) ok geo unfolding storage_index_read_map_def Let_def r1_def [symmetric]
    by (auto simp: read_by_id_def split: index_kind.splits if_splits option.splits prod.splits)
qed

lemma read_last_balanced:
  assumes "balanced_but n r" "storage_index_read_last_map env idx key parts smin r = Some x"
  shows "balanced_but n (snd x)"
  using assms by (auto simp: storage_index_read_last_map_def read_last_single_def Let_def split: index_kind.splits if_splits prod.splits)

lemma rnd_init_balanced:
  assumes "balanced_but n r"
  shows "balanced_but (n + lost_by (env, Rnd_init s) r) (snd (storage_rnd_init env s r))"
proof (cases s)
  case (Scan_condition result limited)
  then show ?thesis using assms
    by (cases result; cases limited) (simp_all add: storage_rnd_init_def balanced_but_def slots_open_def)
qed (use assms in \<open>simp add: storage_rnd_init_def open_cursor_def balanced_but_def slots_open_def\<close>)

lemma no_scan_loses_nothing: "no_scan r \<Longrightarrow> lost_by (env, Rnd_init s) r = 0"
  by (cases s) (simp_all add: no_scan_def)

lemma lost_nonneg: "0 \<le> lost_by c r"
  by (cases "(c, r)" rule: lost_by.cases) (simp_all add: unlink_if_def)

lemma read_step_balanced:
  assumes "balanced_but n r" "read_step c r = Some r'"
  shows "balanced_but (n + lost_by c r) r'"
proof -
  obtain env call where c: "c = (env, call)" by (cases c)
  show ?thesis
  proof (cases "\<exists>s. call = Rnd_init s")
    case True
    then show ?thesis using assms rnd_init_balanced unfolding c by auto
  next
    case False
    then have "lost_by c r = 0" unfolding c by (cases call) simp_all
    then show ?thesis
      using assms False unfolding c
      by (cases call) (auto dest: read_map_balanced read_last_balanced simp: storage_index_first_def storage_index_last_def
          storage_index_next_def storage_index_prev_def storage_index_next_same_def storage_index_end_def storage_rnd_next_def storage_rnd_end_def
          reset_reader_def clear_search_result_def)
  qed
qed

text \<open>Whatever is called, and when every scan is ended before the next one begins.\<close>

definition counted :: "reader \<times> int \<Rightarrow> bool" where
  "counted s \<longleftrightarrow> balanced_but (snd s) (fst s) \<and> 0 \<le> snd s"

lemma counted_step_inv:
  assumes "counted s" "counted_step c s = Some t"
  shows "counted t"
proof -
  obtain r' where "read_step c (fst s) = Some r'" "t = (r', snd s + lost_by c (fst s))" using assms(2) by (auto simp: counted_step_def)
  then show ?thesis using read_step_balanced [of "snd s" "fst s" c r'] assms(1) lost_nonneg [of c "fst s"] by (simp add: counted_def)
qed

lemma ended_scans_lose_nothing:
  assumes "snd s = 0" "ends_scans c s" "counted_step c s = Some t"
  shows "snd t = 0"
proof -
  obtain env call where c: "c = (env, call)" by (cases c)
  have "lost_by c (fst s) = 0"
    using assms(2) no_scan_loses_nothing unfolding c by (cases call) (auto simp: ends_scans_def)
  then show ?thesis using assms(1,3) by (auto simp: counted_step_def)
qed

interpretation reads: guarded_system counted_step "\<lambda>c s. True" counted
  by unfold_locales (rule counted_step_inv)

interpretation ended_reads: guarded_system counted_step ends_scans "\<lambda>s. snd s = 0"
  by unfold_locales (rule ended_scans_lose_nothing)


text \<open>A scan of the table that begins again loses its cursor.\<close>

lemma second_scan_leaks:
  "r_cursor r \<noteq> None \<Longrightarrow> counted_step (env, Rnd_init Scan_table) (r, n) = Some (r', n') \<Longrightarrow> n' = n + 1"
  by (auto simp: counted_step_def)


section \<open>The rows of a search\<close>

definition descending :: "find_flag \<Rightarrow> bool" where
  "descending flag \<longleftrightarrow> flag \<in> {HA_READ_BEFORE_KEY, HA_READ_PREFIX_LAST, HA_READ_PREFIX_LAST_OR_PREV}"

lemma find_descending: "GRN_CURSOR_DESCENDING \<in> set (find_cursor_flags flag) \<longleftrightarrow> descending flag"
  by (cases flag) (simp_all add: descending_def)

lemma plain_codec_size:
  assumes "\<forall>kp\<in>set kps. plain_part kp" "kps \<noteq> []"
  shows "0 < codec_size kps"
proof -
  obtain kp rest where k: "kps = kp # rest" using assms(2) by (cases kps) auto
  then have "plain_part kp" using assms(1) by simp
  then have "0 < part_grn_size kp" using plain_part_grn_size [of kp] plain_part_size [of kp] by simp
  then show ?thesis using k by (simp add: codec_size_def)
qed

lemma bound_sizes:
  assumes "key_values kps us"
  shows "length (low_bound kps us) = codec_size kps" "length (high_bound kps us) = codec_size kps"
  using grn_key_length(1) [OF assms] codec_size_take [of "length us" kps] by (simp_all add: low_bound_def high_bound_def)

lemma grn_key_nonempty:
  assumes "key_values kps us" "us \<noteq> []"
  shows "0 < length (grn_key_of kps us)"
proof -
  obtain kp rest u us' where k: "kps = kp # rest" "us = u # us'" using assms by (cases us; cases kps) auto
  then have "plain_part kp" "length (snd u) = part_size kp" using assms(1) by simp_all
  then show ?thesis using k plain_part_size [of kp] by (simp add: grn_image_def length_part_enc)
qed

lemma multiple_column_bounds_admit:
  assumes "\<forall>kp\<in>set kps. plain_part kp" "key_info_length = sum_list (map store_length kps)" "key_len_promise kps key_len"
    and "key_values kps us" "us \<noteq> []" "plain_find flag" "codec_size kps \<le> length smin" "codec_size kps \<le> length smax"
  shows "\<exists>fs mn mx. multiple_column_bounds env kps key_info_length key_len (mysql_key_of kps us) (2 ^ length us - 1) flag smin smax = Some (fs, mn, mx)
    \<and> (GRN_CURSOR_DESCENDING \<in> set fs \<longleftrightarrow> descending flag) \<and> (bound_size mn \<noteq> 0 \<or> bound_size mx \<noteq> 0)
    \<and> (\<forall>ws. key_values kps ws \<longrightarrow> length ws = length kps \<longrightarrow> (cursor_admits fs mn mx (grn_key_of kps ws) \<longleftrightarrow> key_selects flag kps us ws))"
proof -
  let ?n = "length us" and ?key = "mysql_key_of kps us"
  have le: "?n \<le> length kps" using grn_key_length(2) [OF assms(4)] .
  have calc: "key_len (2 ^ m - 1) = length (mysql_key_of kps (take m us))" if "m \<le> ?n" for m
    using assms(3) le that mysql_key_length [OF key_values_take [OF assms(4), of m]] by (simp add: key_len_promise_def)
  have len: "key_len (2 ^ ?n - 1) = length ?key" using calc [of ?n] by simp
  have ne: "0 < length (grn_key_of kps us)" by (rule grn_key_nonempty [OF assms(4,5)])
  have cs: "0 < codec_size kps" using plain_codec_size [OF assms(1)] assms(4,5) by (cases kps; cases us) auto
  show ?thesis
  proof (cases "?n = length kps")
    case True
    then have "length ?key = key_info_length" using mysql_key_length [OF assms(4)] assms(2) by simp
    moreover obtain mn mx where b: "full_key_bounds env kps ?key (length ?key) flag smin smax = Some ([], mn, mx)"
      "\<forall>ws. key_values kps ws \<longrightarrow> length ws = length kps \<longrightarrow> (cursor_admits (find_cursor_flags flag) mn mx (grn_key_of kps ws) \<longleftrightarrow> key_selects flag kps us ws)"
      using full_bounds_admit [OF assms(4) True assms(6-8), of env] by auto
    moreover have "bound_size mn \<noteq> 0 \<or> bound_size mx \<noteq> 0"
      using b(1) ne by (cases flag) (auto simp: full_key_bounds_def bound_size_def full_encoded [OF assms(4,7)] full_encoded [OF assms(4,8)])
    moreover have "multiple_column_bounds env kps key_info_length key_len ?key (2 ^ ?n - 1) flag smin smax = Some (find_cursor_flags flag, mn, mx)"
      unfolding multiple_column_bounds_def Let_def len using calculation(1) b(1) by simp
    ultimately show ?thesis using find_descending by blast
  next
    case False
    then have lt: "?n < length kps" using le by simp
    then have other: "length ?key \<noteq> key_info_length"
      using partial_length [OF assms(1)] mysql_key_length [OF assms(4)] assms(2) by fastforce
    let ?prev = "if 1 < ?n then Some (length (mysql_key_of kps (take (?n - 1) us))) else None"
    have prev: "(if (2 ^ ?n - 1) div 2 > (0::nat) then Some (key_len ((2 ^ ?n - 1) div 2)) else None) = ?prev"
      using half_map [of ?n] assms(5) calc [of "?n - 1"] by simp
    obtain fs mn mx where p: "partial_bounds kps us flag = (fs, mn, mx)" by (metis prod_cases3)
    note eq = partial_key_bounds_eq [OF assms(4,7,8) refl, of env flag, unfolded p]
    have "set fs \<subseteq> {GRN_CURSOR_GE, GRN_CURSOR_LE}" using partial_cursor(1) [OF p assms(6)] .
    then have "GRN_CURSOR_DESCENDING \<in> set (find_cursor_flags flag @ fs) \<longleftrightarrow> descending flag" using find_descending by auto
    moreover have "bound_size mn \<noteq> 0 \<or> bound_size mx \<noteq> 0"
      using p assms(6) cs ne bound_sizes [OF assms(4)] bound_sizes [OF key_values_take [OF assms(4)]]
      by (cases flag) (auto simp: partial_bounds_def bound_size_def plain_find_def)
    moreover have "multiple_column_bounds env kps key_info_length key_len ?key (2 ^ ?n - 1) flag smin smax = Some (find_cursor_flags flag @ fs, mn, mx)"
      unfolding multiple_column_bounds_def Let_def len prev eq using other by simp
    ultimately show ?thesis using partial_bounds_admit [OF assms(4) lt assms(6) _ _ p] by blast
  qed
qed

text \<open>Groonga's promise for a cursor over a table with keys: the records whose keys lie within the bounds, in the order of the keys.\<close>

definition cursor_promise :: "(cursor_flag list \<Rightarrow> byte list option \<Rightarrow> byte list option \<Rightarrow> nat list option) \<Rightarrow> (nat \<rightharpoonup> byte list) \<Rightarrow> bool" where
  "cursor_promise open_ids keys \<longleftrightarrow> (\<forall>fs mn mx. \<exists>ids. open_ids fs mn mx = Some ids \<and> distinct ids
     \<and> set ids = {i. \<exists>k. keys i = Some k \<and> cursor_admits fs mn mx k}
     \<and> sorted_wrt (\<lambda>i j. if GRN_CURSOR_DESCENDING \<in> set fs then \<not> memcmp_less (the (keys i)) (the (keys j))
                          else \<not> memcmp_less (the (keys j)) (the (keys i))) ids)"

text \<open>The results of the next calls.\<close>

primrec next_records :: "read_env \<Rightarrow> nat \<Rightarrow> reader \<Rightarrow> read_result list" where
  "next_records env 0 r = []"
| "next_records env (Suc n) r = (case storage_index_next env r of (res, r') \<Rightarrow> res # next_records env n r')"

lemma next_records_cursor:
  assumes "r_cursor r = Some ids" "cursor_geo r = None" "condition_push_down_result_cursor r = None" "0 \<notin> set ids" "\<not> next_fails env"
  shows "next_records env n r = map Found_row (take n ids) @ replicate (n - length ids) HA_ERR_END_OF_FILE"
  using assms
proof (induction n arbitrary: r ids)
  case (Suc n)
  show ?case
  proof (cases ids)
    case Nil
    then show ?thesis using Suc.prems Suc.IH [of "r\<lparr>record_id := 0\<rparr>" "[]"]
      by (simp add: storage_index_next_def storage_get_next_record_def)
  next
    case (Cons i rest)
    then show ?thesis using Suc.prems Suc.IH [of "r\<lparr>r_cursor := Some rest, record_id := i\<rparr>" rest]
      by (simp add: storage_index_next_def storage_get_next_record_def)
  qed
qed simp


text \<open>A table with an index of several columns: its rows by record, each with a value for every column of the index, and Groonga's keys of them.\<close>

definition indexed_rows :: "key_part list \<Rightarrow> (nat \<rightharpoonup> key_value list) \<Rightarrow> bool" where
  "indexed_rows kps rows \<longleftrightarrow> (\<forall>i ws. rows i = Some ws \<longrightarrow> i \<noteq> 0 \<and> key_values kps ws \<and> length ws = length kps)"

definition index_keys :: "key_part list \<Rightarrow> (nat \<rightharpoonup> key_value list) \<Rightarrow> nat \<rightharpoonup> byte list" where
  "index_keys kps rows = (\<lambda>i. map_option (grn_key_of kps) (rows i))"

definition opens :: "read_env \<Rightarrow> index \<Rightarrow> cursor_flag list \<Rightarrow> byte list option \<Rightarrow> byte list option \<Rightarrow> nat list option" where
  "opens env idx = (if i_primary idx then table_ids env else index_ids env)"

text \<open>The order in which a search gives the rows.\<close>

definition in_order :: "find_flag \<Rightarrow> key_part list \<Rightarrow> (nat \<rightharpoonup> key_value list) \<Rightarrow> nat list \<Rightarrow> bool" where
  "in_order flag kps rows ids \<longleftrightarrow> sorted_wrt (\<lambda>i j. if descending flag then \<not> key_less kps (the (rows i)) (the (rows j))
     else \<not> key_less kps (the (rows j)) (the (rows i))) ids"

lemma opened_rows:
  assumes "cursor_promise open_ids (index_keys kps rows)" "indexed_rows kps rows"
    and "GRN_CURSOR_DESCENDING \<in> set fs \<longleftrightarrow> descending flag"
    and "\<forall>ws. key_values kps ws \<longrightarrow> length ws = length kps \<longrightarrow> (cursor_admits fs mn mx (grn_key_of kps ws) \<longleftrightarrow> key_selects flag kps us ws)"
  shows "\<exists>ids. open_ids fs mn mx = Some ids \<and> distinct ids \<and> set ids = {i. \<exists>ws. rows i = Some ws \<and> key_selects flag kps us ws}
    \<and> in_order flag kps rows ids \<and> 0 \<notin> set ids"
proof -
  let ?k = "index_keys kps rows"
  obtain ids where ids: "open_ids fs mn mx = Some ids" "distinct ids" "set ids = {i. \<exists>k. ?k i = Some k \<and> cursor_admits fs mn mx k}"
    "sorted_wrt (\<lambda>i j. if descending flag then \<not> memcmp_less (the (?k i)) (the (?k j)) else \<not> memcmp_less (the (?k j)) (the (?k i))) ids"
    using assms(1) [unfolded cursor_promise_def, rule_format, of fs mn mx] unfolding assms(3) by blast
  have sel: "set ids = {i. \<exists>ws. rows i = Some ws \<and> key_selects flag kps us ws}"
    using ids(3) assms(2,4) by (auto simp: index_keys_def indexed_rows_def)
  have less: "memcmp_less (the (?k i)) (the (?k j)) \<longleftrightarrow> key_less kps (the (rows i)) (the (rows j))" if ij: "i \<in> set ids" "j \<in> set ids" for i j
  proof -
    obtain us' ws' where r: "rows i = Some us'" "rows j = Some ws'" using ij sel by auto
    then have "key_values kps us'" "key_values kps ws'" "length us' = length ws'" using assms(2) by (auto simp: indexed_rows_def)
    then show ?thesis using grn_key_order [of kps us' ws'] r by (simp add: index_keys_def)
  qed
  have "in_order flag kps rows ids"
    unfolding in_order_def
  proof (rule sorted_wrt_mono_rel [OF _ ids(4)], goal_cases)
    case (1 i j)
    show ?case using 1(3) unfolding less [OF 1(1,2)] less [OF 1(2,1)] .
  qed
  moreover have "0 \<notin> set ids" using sel assms(2) by (auto simp: indexed_rows_def)
  ultimately show ?thesis using ids(1,2) sel by blast
qed

lemma open_bounds_opens:
  assumes "bound_size mn \<noteq> 0 \<or> bound_size mx \<noteq> 0"
  shows "open_bounds env idx fs mn mx r
    = (opens env idx fs mn mx = None, (if i_primary idx then open_cursor else open_index_cursor) (opens env idx fs mn mx) r)"
proof -
  have none: "(no_flags env fs \<and> bound_size mn = 0 \<and> bound_size mx = 0) = False" using assms by blast
  show ?thesis unfolding open_bounds_def opens_def Let_def none by simp
qed

lemma opened_slots [simp]:
  "r_cursor (open_cursor ids r) = ids" "r_cursor (open_index_cursor ids r) = ids"
  "cursor_geo (open_cursor ids r) = cursor_geo r" "cursor_geo (open_index_cursor ids r) = cursor_geo r"
  "condition_push_down_result_cursor (open_cursor ids r) = condition_push_down_result_cursor r"
  "condition_push_down_result_cursor (open_index_cursor ids r) = condition_push_down_result_cursor r"
  by (simp_all add: open_cursor_def open_index_cursor_def)

lemma read_map_opens:
  assumes "i_kind idx = Multiple_column kps n" "\<not> next_fails env" "0 \<notin> set ids"
    and "multiple_column_bounds (re_codec env) kps n (calculate_key_len env) key parts flag smin smax = Some (fs, mn, mx)"
    and "bound_size mn \<noteq> 0 \<or> bound_size mx \<noteq> 0" "opens env idx fs mn mx = Some ids"
  shows "\<exists>first r. storage_index_read_map env idx key parts flag smin smax r0 = Some (first, r)
    \<and> (\<forall>m. first # next_records env m r = map Found_row (take (Suc m) ids) @ replicate (Suc m - length ids) HA_ERR_END_OF_FILE)"
proof -
  define r1 where "r1 = clear_empty_value_records (clear_cursor_geo (clear_cursor (r0\<lparr>count_skip := checks_count_skip env parts\<rparr>)))"
  define r2 where "r2 = (if i_primary idx then open_cursor else open_index_cursor) (opens env idx fs mn mx) r1"
  have o: "open_bounds env idx fs mn mx r1 = (False, r2)"
    using open_bounds_opens [OF assms(5), of env idx fs r1] assms(6) by (simp add: r2_def)
  have r1: "cursor_geo r1 = None" "condition_push_down_result_cursor r1 = None" by (simp_all add: r1_def clear_defs)
  have r2: "r_cursor r2 = Some ids" "cursor_geo r2 = None" "condition_push_down_result_cursor r2 = None"
    using r1 assms(6) by (cases "i_primary idx"; simp add: r2_def)+
  obtain first r where f: "storage_index_next env r2 = (first, r)" by fastforce
  have "first # next_records env m r = map Found_row (take (Suc m) ids) @ replicate (Suc m - length ids) HA_ERR_END_OF_FILE" for m
    using next_records_cursor [OF r2 assms(3,2), of "Suc m"] f by simp
  moreover have "storage_index_read_map env idx key parts flag smin smax r0 = Some (first, r)"
    using f by (simp add: storage_index_read_map_def assms(1,4) o found_or_fail_def storage_index_next_def flip: r1_def)
  ultimately show ?thesis by blast
qed

text \<open>C4: a search through an index of several columns gives exactly the rows that it should. For every search the handler supports and every key
  that gives the first columns of the index, the first call and the calls for the next row return each row whose columns
  compare with the key as asked once, in the order of the index, and then the end of the file for ever. When the key gives neither all columns nor only one,
  the rows must agree with the key in all columns but its last.\<close>

theorem index_scan_exact:
  assumes "i_kind idx = Multiple_column kps (sum_list (map store_length kps))" "\<forall>kp\<in>set kps. plain_part kp"
    and "key_len_promise kps (calculate_key_len env)" "cursor_promise (opens env idx) (index_keys kps rows)" "\<not> next_fails env"
    and "indexed_rows kps rows" "key_values kps us" "us \<noteq> []" "plain_find flag"
    and "codec_size kps \<le> length key_min_entity" "codec_size kps \<le> length key_max_entity"
  shows "\<exists>ids first r. storage_index_read_map env idx (mysql_key_of kps us) (2 ^ length us - 1) flag key_min_entity key_max_entity r0 = Some (first, r)
    \<and> set ids = {i. \<exists>ws. rows i = Some ws \<and> key_selects flag kps us ws} \<and> distinct ids \<and> in_order flag kps rows ids
    \<and> (\<forall>m. first # next_records env m r = map Found_row (take (Suc m) ids) @ replicate (Suc m - length ids) HA_ERR_END_OF_FILE)"
proof -
  obtain fs mn mx where b: "multiple_column_bounds (re_codec env) kps (sum_list (map store_length kps)) (calculate_key_len env) (mysql_key_of kps us)
      (2 ^ length us - 1) flag key_min_entity key_max_entity = Some (fs, mn, mx)"
    "GRN_CURSOR_DESCENDING \<in> set fs \<longleftrightarrow> descending flag" "bound_size mn \<noteq> 0 \<or> bound_size mx \<noteq> 0"
    "\<forall>ws. key_values kps ws \<longrightarrow> length ws = length kps \<longrightarrow> (cursor_admits fs mn mx (grn_key_of kps ws) \<longleftrightarrow> key_selects flag kps us ws)"
    using multiple_column_bounds_admit [OF assms(2) refl assms(3,7-11)] by blast
  obtain ids where ids: "opens env idx fs mn mx = Some ids" "distinct ids" "set ids = {i. \<exists>ws. rows i = Some ws \<and> key_selects flag kps us ws}"
    "in_order flag kps rows ids" "0 \<notin> set ids"
    using opened_rows [OF assms(4,6) b(2,4)] by blast
  then show ?thesis using read_map_opens [OF assms(1,5) ids(5) b(1,3) ids(1)] by metis
qed

text \<open>A cursor over a sorted list of records keeps the promise.\<close>

definition list_cursor :: "(nat \<rightharpoonup> byte list) \<Rightarrow> nat list \<Rightarrow> cursor_flag list \<Rightarrow> byte list option \<Rightarrow> byte list option \<Rightarrow> nat list option" where
  "list_cursor keys is fs mn mx = (let js = filter (\<lambda>i. cursor_admits fs mn mx (the (keys i))) is in
     Some (if GRN_CURSOR_DESCENDING \<in> set fs then rev js else js))"

lemma list_cursor_promise:
  assumes "distinct is" "set is = dom keys" "sorted_wrt (\<lambda>i j. \<not> memcmp_less (the (keys j)) (the (keys i))) is"
  shows "cursor_promise (list_cursor keys is) keys"
  unfolding cursor_promise_def
proof (intro allI)
  fix fs mn mx
  define js where "js = filter (\<lambda>i. cursor_admits fs mn mx (the (keys i))) is"
  have "distinct js" "set js = {i. \<exists>k. keys i = Some k \<and> cursor_admits fs mn mx k}"
    using assms(1,2) by (auto simp: js_def)
  moreover have "sorted_wrt (\<lambda>i j. \<not> memcmp_less (the (keys j)) (the (keys i))) js"
    unfolding js_def by (rule sorted_wrt_filter [OF assms(3)])
  ultimately show "\<exists>ids. list_cursor keys is fs mn mx = Some ids \<and> distinct ids
     \<and> set ids = {i. \<exists>k. keys i = Some k \<and> cursor_admits fs mn mx k}
     \<and> sorted_wrt (\<lambda>i j. if GRN_CURSOR_DESCENDING \<in> set fs then \<not> memcmp_less (the (keys i)) (the (keys j))
                          else \<not> memcmp_less (the (keys j)) (the (keys i))) ids"
    by (cases "GRN_CURSOR_DESCENDING \<in> set fs") (simp_all add: list_cursor_def sorted_wrt_rev flip: js_def)
qed

definition sample_rows :: "nat \<rightharpoonup> key_value list" where
  "sample_rows = [1 \<mapsto> example_values2, 2 \<mapsto> example_values]"

definition sample_index :: index where
  "sample_index = \<lparr>i_kind = Multiple_column example_parts (sum_list (map store_length example_parts)), i_primary = False, i_fulltext = False\<rparr>"

definition sample_read_env :: read_env where
  "sample_read_env = \<lparr>re_codec = example_env, re_search = fixed_zone_search_env 0, change_encoding_null = 0,
     calculate_key_len = (\<lambda>parts. if parts = 1 then 2 else if parts = 3 then 11 else if parts = 7 then 16 else 0),
     flag_bits = (\<lambda>f. if f = GRN_CURSOR_GT then 0x10 else 0), rkey_value = (\<lambda>_. 8), table_ids = (\<lambda>_ _ _. Some [1, 2]),
     index_ids = list_cursor (index_keys example_parts sample_rows) [2, 1], empty_value_ids = Some [], geo_ids = (\<lambda>_. Some []),
     inside_rectangle = (\<lambda>_. True), geo_encoding = 0, record_exists = (\<lambda>_. True), checks_count_skip = (\<lambda>_. False), next_fails = False\<rparr>"

lemma example_values2_ok: "key_values example_parts example_values2"
  by code_simp

lemma example_first_less: "key_less example_parts example_values example_values2" "\<not> key_less example_parts example_values2 example_values"
  "key_less example_parts (take 1 example_values) (take 1 example_values2)"
proof -
  have "part_less (example_part MYSQL_TYPE_SHORT False 2) [0xfe, 0xff] [1, 0]"
    by (simp add: part_less_def get_key_info_def example_part_def sample_field_def number_less_def mysql_int_def)
  then show l: "key_less example_parts example_values example_values2" "key_less example_parts (take 1 example_values) (take 1 example_values2)"
    by (simp_all add: example_parts_def example_values_def example_values2_def)
  show "\<not> key_less example_parts example_values2 example_values"
    using key_less_total(2) [OF example_key_values example_values2_ok _ l(1)] by (simp add: example_values_def example_values2_def)
qed

lemma sample_promise: "cursor_promise (opens sample_read_env sample_index) (index_keys example_parts sample_rows)"
proof -
  have "\<not> memcmp_less (grn_key_of example_parts example_values2) (grn_key_of example_parts example_values)"
    using grn_key_order [OF example_values2_ok example_key_values] example_first_less(2) by (simp add: example_values_def example_values2_def)
  moreover have "set [2, 1] = dom (index_keys example_parts sample_rows)" by (auto simp: index_keys_def sample_rows_def split: if_splits)
  ultimately have "cursor_promise (list_cursor (index_keys example_parts sample_rows) [2, 1]) (index_keys example_parts sample_rows)"
    by (intro list_cursor_promise) (simp_all add: index_keys_def sample_rows_def)
  then show ?thesis by (simp add: opens_def sample_index_def sample_read_env_def)
qed

text \<open>A search for the rows whose first column is greater than -2.\<close>

theorem index_scan_exact_witness:
  "\<exists>ids first r. storage_index_read_map sample_read_env sample_index [0xfe, 0xff] 1 HA_READ_AFTER_KEY (replicate 16 0) (replicate 16 0) new_reader
      = Some (first, r)
    \<and> set ids = {1} \<and> distinct ids
    \<and> (\<forall>m. first # next_records sample_read_env m r = map Found_row (take (Suc m) ids) @ replicate (Suc m - length ids) HA_ERR_END_OF_FILE)"
proof -
  let ?us = "take 1 example_values"
  have key: "mysql_key_of example_parts ?us = [0xfe, 0xff]" "?us \<noteq> []" "length ?us = 1"
    by (simp_all add: example_values_def example_parts_def mysql_image_def example_part_def sample_field_def)
  have promise: "key_len_promise example_parts (calculate_key_len sample_read_env)"
  proof -
    have "\<forall>n\<in>set [0 ..< 4]. calculate_key_len sample_read_env (2 ^ n - 1) = sum_list (map store_length (take n example_parts))"
      by code_simp
    then show ?thesis by (simp add: key_len_promise_def example_parts_def)
  qed
  have rows: "indexed_rows example_parts sample_rows"
    using example_key_values example_values2_ok
    by (auto simp: indexed_rows_def sample_rows_def example_parts_def example_values_def example_values2_def split: if_splits)
  have "key_selects HA_READ_AFTER_KEY example_parts ?us ws \<longleftrightarrow> key_less example_parts ?us (take 1 ws)" for ws
    by (simp add: key_selects_def Let_def example_values_def)
  moreover have "\<not> key_less example_parts ?us ?us"
    using key_less_total(2) [OF key_values_take [OF example_key_values] key_values_take [OF example_key_values]] by blast
  ultimately have sel: "{i. \<exists>ws. sample_rows i = Some ws \<and> key_selects HA_READ_AFTER_KEY example_parts ?us ws} = {1}"
    using example_first_less(3) by (auto simp: sample_rows_def split: if_splits)
  have size: "codec_size example_parts \<le> length (replicate 16 (0 :: byte))"
    "\<forall>kp\<in>set example_parts. plain_part kp" by code_simp+
  show ?thesis
    using index_scan_exact [OF _ size(2) promise sample_promise _ rows key_values_take [OF example_key_values] key(2) _ size(1) size(1),
        of HA_READ_AFTER_KEY new_reader] unfolding sel key
    by (auto simp: sample_index_def sample_read_env_def plain_find_def)
qed

section \<open>The end of a scan\<close>

text \<open>How many records the cursor that is read has still to give.\<close>

definition records_left :: "reader \<Rightarrow> nat" where
  "records_left r = (case condition_push_down_result_cursor r of
       Some is \<Rightarrow> length is
     | None \<Rightarrow> (case cursor_geo r of
         Some is \<Rightarrow> length is
       | None \<Rightarrow> (case r_cursor r of
           Some is \<Rightarrow> length is
         | None \<Rightarrow> (case empty_value_records_cursor r of Some is \<Rightarrow> length is | None \<Rightarrow> 0))))"

lemma next_geo_shorter: "next_geo inside check is = (i, is') \<Longrightarrow> length is' \<le> length is - 1 \<and> (is = [] \<longrightarrow> i = 0)"
  by (induction inside check "is" rule: next_geo.induct) (force split: if_splits)+

lemma next_takes_one:
  assumes "storage_index_next env r = (res, r')" "\<not> next_fails env"
  shows "records_left r' \<le> records_left r - 1" "records_left r = 0 \<Longrightarrow> res = HA_ERR_END_OF_FILE"
proof -
  obtain i is' where g: "next_geo (inside_rectangle env) (grn_source_column_geo r) (the (cursor_geo r)) = (i, is')" by fastforce
  note shorter = next_geo_shorter [OF g]
  show "records_left r' \<le> records_left r - 1"
    using assms g shorter unfolding storage_index_next_def storage_get_next_record_def records_left_def Let_def
    by (cases "condition_push_down_result_cursor r"; cases "cursor_geo r"; cases "r_cursor r"; cases "empty_value_records_cursor r")
      (auto split: list.splits if_splits)
  show "records_left r = 0 \<Longrightarrow> res = HA_ERR_END_OF_FILE"
    using assms g shorter unfolding storage_index_next_def storage_get_next_record_def records_left_def Let_def
    by (cases "condition_push_down_result_cursor r"; cases "cursor_geo r"; cases "r_cursor r"; cases "empty_value_records_cursor r")
      (auto split: list.splits if_splits)
qed

text \<open>C16: a scan ends. Whatever cursor is open, table, index, condition, rectangle or empty values, no more rows are
  returned than the cursor has records, and every later call returns the end of the file, unless Groonga fails.\<close>

theorem scan_reaches_end:
  assumes "\<not> next_fails env" "records_left r \<le> n"
  shows "\<exists>rows. next_records env (n + m) r = rows @ replicate m HA_ERR_END_OF_FILE \<and> length rows = n"
  using assms(2)
proof (induction n arbitrary: r)
  case 0
  have "next_records env m r = replicate m HA_ERR_END_OF_FILE" using 0
  proof (induction m arbitrary: r)
    case (Suc m)
    obtain res r' where n: "storage_index_next env r = (res, r')" by fastforce
    then show ?case using next_takes_one [OF n assms(1)] Suc by simp
  qed simp
  then show ?case by simp
next
  case (Suc n)
  obtain res r' where n: "storage_index_next env r = (res, r')" by fastforce
  then have "records_left r' \<le> n" using next_takes_one(1) [OF n assms(1)] Suc.prems by linarith
  then obtain rows where "next_records env (n + m) r' = rows @ replicate m HA_ERR_END_OF_FILE" "length rows = n" using Suc.IH by blast
  then show ?case using n by (intro exI [of _ "res # rows"]) simp
qed

theorem scan_reaches_end_witness:
  "\<exists>rows. next_records sample_read_env (2 + 3) (new_reader\<lparr>r_cursor := Some [4, 9]\<rparr>) = rows @ replicate 3 HA_ERR_END_OF_FILE \<and> length rows = 2"
  by (rule scan_reaches_end) (simp_all add: sample_read_env_def records_left_def new_reader_def)


text \<open>A search for texts that are not less than the empty text reads only the records whose text is empty: the handler
  takes it for a search for empty values, since Groonga's flags for ``from here on, ascending'' are all 0.\<close>

lemma from_empty_text_on:
  assumes "i_kind idx = Single_column f False" "\<not> i_primary idx" "flag_bits env GRN_CURSOR_GE = 0" "flag_bits env GRN_CURSOR_ASCENDING = 0"
    and "change_encoding (s_values (re_search env)) = 0" "storage_encode_key (re_search env) f key = Some (e, False, [])"
    and "empty_value_ids env = Some ids"
  shows "storage_index_read_map env idx key 1 HA_READ_KEY_OR_NEXT smin smax r
    = Some (storage_get_next_record env True (open_empty_value_records (Some ids)
        (clear_empty_value_records (clear_cursor_geo (clear_cursor (r\<lparr>count_skip := checks_count_skip env 1\<rparr>))))))"
  using assms by (simp add: storage_index_read_map_def single_column_bounds_def open_bounds_def no_flags_def bound_size_def found_or_fail_def Let_def)

end
