(* ===== verification/Object_Flags.thy ===== *)
theory Object_Flags
  imports Parameters_Parser "HOL-Library.Word"
begin

text \<open>
  The flags of Groonga's tables and columns as users write them in comments and options:
  \<^verbatim>\<open>mrn_parse_grn_table_create_flags\<close>, \<^verbatim>\<open>mrn_parse_grn_column_create_flags\<close>, \<^verbatim>\<open>mrn_parse_grn_lexicon_flags\<close>,
  \<^verbatim>\<open>mrn_parse_grn_index_column_flags\<close> and the functions that find the text of the flags
  (\<^verbatim>\<open>ha_mroonga.cpp\<close>). The bits of Groonga's flags and the compression methods it supports are parameters. Names that
  are written with separators between them are all read, whatever the separators are.
\<close>

unbundle bit_operations_syntax

section \<open>Reading the names\<close>

datatype grn_flag =
    GRN_OBJ_PERSISTENT | GRN_OBJ_TABLE_HASH_KEY | GRN_OBJ_TABLE_PAT_KEY | GRN_OBJ_TABLE_DAT_KEY | GRN_OBJ_TABLE_NO_KEY | GRN_OBJ_KEY_LARGE
  | GRN_OBJ_COLUMN_SCALAR | GRN_OBJ_COLUMN_VECTOR | GRN_OBJ_COLUMN_INDEX | GRN_OBJ_COMPRESS_ZLIB | GRN_OBJ_COMPRESS_LZ4 | GRN_OBJ_COMPRESS_ZSTD
  | GRN_OBJ_WITH_WEIGHT | GRN_OBJ_WEIGHT_FLOAT32 | GRN_OBJ_MISSING_ADD | GRN_OBJ_MISSING_IGNORE | GRN_OBJ_MISSING_NIL | GRN_OBJ_INVALID_ERROR
  | GRN_OBJ_INVALID_WARN | GRN_OBJ_INVALID_IGNORE | GRN_OBJ_WITH_POSITION | GRN_OBJ_WITH_SECTION | GRN_OBJ_INDEX_SMALL | GRN_OBJ_INDEX_MEDIUM
  | GRN_OBJ_INDEX_LARGE

record flag_env =
  flag_bits :: "grn_flag \<Rightarrow> 32 word"
  supports :: "grn_flag \<Rightarrow> bool"
  flag_mask :: "32 word"

datatype flag_warning = Invalid_flag string | Unsupported_flag string

record flag_state =
  found :: bool
  flags :: "32 word"
  warnings :: "flag_warning list"

definition MRN_MESSAGE_BUFFER_SIZE :: nat where
  "MRN_MESSAGE_BUFFER_SIZE = 1024"

text \<open>The chains of comparisons: each name with its flag. \<^verbatim>\<open>NONE\<close> has none.\<close>

type_synonym flag_names = "(string \<times> grn_flag option) list"

definition table_flag_names :: flag_names where
  "table_flag_names =
    [(''TABLE_HASH_KEY'', Some GRN_OBJ_TABLE_HASH_KEY), (''TABLE_PAT_KEY'', Some GRN_OBJ_TABLE_PAT_KEY),
     (''TABLE_DAT_KEY'', Some GRN_OBJ_TABLE_DAT_KEY), (''KEY_LARGE'', Some GRN_OBJ_KEY_LARGE)]"

definition column_flag_names :: flag_names where
  "column_flag_names =
    [(''COLUMN_SCALAR'', Some GRN_OBJ_COLUMN_SCALAR), (''COLUMN_VECTOR'', Some GRN_OBJ_COLUMN_VECTOR),
     (''COMPRESS_ZLIB'', Some GRN_OBJ_COMPRESS_ZLIB), (''COMPRESS_LZ4'', Some GRN_OBJ_COMPRESS_LZ4), (''COMPRESS_ZSTD'', Some GRN_OBJ_COMPRESS_ZSTD),
     (''WITH_WEIGHT'', Some GRN_OBJ_WITH_WEIGHT), (''WEIGHT_FLOAT32'', Some GRN_OBJ_WEIGHT_FLOAT32),
     (''MISSING_ADD'', Some GRN_OBJ_MISSING_ADD), (''MISSING_IGNORE'', Some GRN_OBJ_MISSING_IGNORE), (''MISSING_NIL'', Some GRN_OBJ_MISSING_NIL),
     (''INVALID_ERROR'', Some GRN_OBJ_INVALID_ERROR), (''INVALID_WARN'', Some GRN_OBJ_INVALID_WARN), (''INVALID_IGNORE'', Some GRN_OBJ_INVALID_IGNORE)]"

definition lexicon_flag_names :: flag_names where
  "lexicon_flag_names = [(''NONE'', None), (''KEY_LARGE'', Some GRN_OBJ_KEY_LARGE)]"

definition index_column_flag_names :: flag_names where
  "index_column_flag_names =
    [(''NONE'', None), (''WITH_POSITION'', Some GRN_OBJ_WITH_POSITION), (''WITH_SECTION'', Some GRN_OBJ_WITH_SECTION),
     (''WITH_WEIGHT'', Some GRN_OBJ_WITH_WEIGHT), (''INDEX_SMALL'', Some GRN_OBJ_INDEX_SMALL), (''INDEX_MEDIUM'', Some GRN_OBJ_INDEX_MEDIUM),
     (''INDEX_LARGE'', Some GRN_OBJ_INDEX_LARGE)]"

text \<open>One turn with a name: the flag is set, unless it is a compression that Groonga does not support.\<close>

definition set_flag :: "flag_env \<Rightarrow> string \<Rightarrow> grn_flag option \<Rightarrow> flag_state \<Rightarrow> flag_state" where
  "set_flag env name flag st = (case flag of
      None \<Rightarrow> st\<lparr>found := True\<rparr>
    | Some f \<Rightarrow>
        if f \<in> {GRN_OBJ_COMPRESS_ZLIB, GRN_OBJ_COMPRESS_LZ4, GRN_OBJ_COMPRESS_ZSTD} \<and> \<not> supports env f
        then st\<lparr>warnings := warnings st @ [Unsupported_flag name]\<rparr>
        else st\<lparr>flags := flags st OR flag_bits env f, found := True\<rparr>)"

definition name_at :: "flag_names \<Rightarrow> string \<Rightarrow> (string \<times> grn_flag option) option" where
  "name_at names s = find (\<lambda>(n, f). n \<noteq> [] \<and> take (length n) s = n) names"

lemma name_at_length: "name_at names s = Some (n, f) \<Longrightarrow> 0 < length n \<and> length n \<le> length s"
  unfolding name_at_def find_Some_iff by (metis (mono_tags, lifting) case_prodD length_greater_0_conv length_take min.cobounded1)

text \<open>The loop: separators are skipped, a name that is not known ends it.\<close>

function parse_flags :: "flag_env \<Rightarrow> flag_names \<Rightarrow> string \<Rightarrow> flag_state \<Rightarrow> flag_state" where
  "parse_flags env names [] st = st"
| "parse_flags env names (c # cs) st =
     (if c = CHR 0x7C \<or> c = CHR 0x20 then parse_flags env names cs st
      else (case name_at names (c # cs) of
          None \<Rightarrow> st\<lparr>warnings := warnings st @ [Invalid_flag (take (MRN_MESSAGE_BUFFER_SIZE - 1) (c_str (c # cs)))]\<rparr>
        | Some (n, f) \<Rightarrow> parse_flags env names (drop (length n) (c # cs)) (set_flag env n f st)))"
  by pat_completeness auto
termination
  by (relation "measure (\<lambda>(_, _, s, _). length s)") (auto dest!: name_at_length)

definition parse_flag_names :: "flag_env \<Rightarrow> flag_names \<Rightarrow> string \<Rightarrow> 32 word \<Rightarrow> flag_state" where
  "parse_flag_names env names s fs = parse_flags env names s \<lparr>found = False, flags = fs, warnings = []\<rparr>"

definition mrn_parse_grn_table_create_flags :: "flag_env \<Rightarrow> string \<Rightarrow> 32 word \<Rightarrow> flag_state" where
  "mrn_parse_grn_table_create_flags env = parse_flag_names env table_flag_names"

definition mrn_parse_grn_column_create_flags :: "flag_env \<Rightarrow> string \<Rightarrow> 32 word \<Rightarrow> flag_state" where
  "mrn_parse_grn_column_create_flags env = parse_flag_names env column_flag_names"

definition mrn_parse_grn_lexicon_flags :: "flag_env \<Rightarrow> string \<Rightarrow> 32 word \<Rightarrow> flag_state" where
  "mrn_parse_grn_lexicon_flags env = parse_flag_names env lexicon_flag_names"

definition mrn_parse_grn_index_column_flags :: "flag_env \<Rightarrow> string \<Rightarrow> 32 word \<Rightarrow> flag_state" where
  "mrn_parse_grn_index_column_flags env = parse_flag_names env index_column_flag_names"


section \<open>Where the names come from\<close>

text \<open>A custom option wins over the comment, which is only looked at when it is not empty.\<close>

definition found_flags :: "(string \<Rightarrow> 32 word \<Rightarrow> flag_state) \<Rightarrow> string option \<Rightarrow> 32 word \<Rightarrow> flag_state" where
  "found_flags parse names fs = (case names of None \<Rightarrow> \<lparr>found = False, flags = fs, warnings = []\<rparr> | Some s \<Rightarrow> parse s fs)"

definition find_table_flags :: "flag_env \<Rightarrow> string option \<Rightarrow> string option \<Rightarrow> 32 word \<Rightarrow> flag_state" where
  "find_table_flags env custom table_flags =
     found_flags (mrn_parse_grn_table_create_flags env) (case custom of Some s \<Rightarrow> Some s | None \<Rightarrow> table_flags)"

definition find_column_flags :: "flag_env \<Rightarrow> string option \<Rightarrow> string option \<Rightarrow> 32 word \<Rightarrow> flag_state" where
  "find_column_flags env custom col_flags =
     found_flags (mrn_parse_grn_column_create_flags env) (case custom of Some s \<Rightarrow> Some s | None \<Rightarrow> col_flags)"

definition comment_parameter :: "string \<Rightarrow> string \<Rightarrow> string option" where
  "comment_parameter comment key = (if length comment > 0 then fst (lookup key (ParametersParser comment)) else None)"

definition find_lexicon_flags :: "flag_env \<Rightarrow> string option \<Rightarrow> string \<Rightarrow> 32 word \<Rightarrow> flag_state" where
  "find_lexicon_flags env custom comment =
     found_flags (mrn_parse_grn_lexicon_flags env)
       (case custom of Some s \<Rightarrow> Some s | None \<Rightarrow> comment_parameter comment ''lexicon_flags'')"

definition find_index_column_flags :: "flag_env \<Rightarrow> string option \<Rightarrow> string \<Rightarrow> 32 word \<Rightarrow> flag_state" where
  "find_index_column_flags env custom comment =
     found_flags (mrn_parse_grn_index_column_flags env)
       (case custom of Some s \<Rightarrow> Some s
        | None \<Rightarrow> (case comment_parameter comment ''flags'' of Some s \<Rightarrow> Some s | None \<Rightarrow> comment_parameter comment ''index_flags''))"


section \<open>Names that are written are read\<close>

text \<open>Names can be told apart: none of them is empty, contains a separator, or begins with another.\<close>

definition separable :: "flag_names \<Rightarrow> bool" where
  "separable names \<longleftrightarrow> distinct (map fst names)
     \<and> (\<forall>(n, f)\<in>set names. n \<noteq> [] \<and> CHR 0x7C \<notin> set n \<and> CHR 0x20 \<notin> set n
          \<and> (\<forall>(m, g)\<in>set names. take (length m) n = m \<longrightarrow> m = n))"

lemma names_separable: "separable table_flag_names" "separable column_flag_names" "separable lexicon_flag_names" "separable index_column_flag_names"
  by code_simp+

definition separators :: "string \<Rightarrow> bool" where
  "separators s \<longleftrightarrow> set s \<subseteq> {CHR 0x7C, CHR 0x20}"

lemma skip_separators: "separators s \<Longrightarrow> parse_flags env names (s @ t) st = parse_flags env names t st"
  by (induction s) (auto simp: separators_def)

lemma name_at_written:
  assumes "separable names" "(n, f) \<in> set names" "t = [] \<or> hd t = CHR 0x7C \<or> hd t = CHR 0x20"
  shows "name_at names (n @ t) = Some (n, f)"
proof -
  have own: "m = n \<and> g = f" if m: "(m, g) \<in> set names" "m \<noteq> []" "take (length m) (n @ t) = m" for m g
  proof -
    have "length m \<le> length n"
    proof (rule ccontr)
      assume l: "\<not> length m \<le> length n"
      have eq: "m = n @ take (length m - length n) t" using m(3) l by (metis append_eq_conv_conj nle_le take_all take_append)
      then obtain c t' where t: "t = c # t'" using l by (cases t) auto
      then have "c \<in> set m" using eq l by (metis Suc_diff_Suc in_set_conv_decomp linorder_not_le take_Suc_Cons)
      then show False using assms(1,3) m(1) t unfolding separable_def by fastforce
    qed
    then have "take (length m) n = m" using m(3) by simp
    then have "m = n" using assms(1,2) m(1) unfolding separable_def by fastforce
    moreover have "g = f" using assms(1,2) m(1) \<open>m = n\<close> unfolding separable_def by (metis eq_key_imp_eq_value)
    ultimately show ?thesis by simp
  qed
  have "n \<noteq> []" using assms(1,2) unfolding separable_def by fastforce
  then have "\<exists>x. name_at names (n @ t) = Some x"
    using assms(2) unfolding name_at_def by (cases "find (\<lambda>(n', f). n' \<noteq> [] \<and> take (length n') (n @ t) = n') names") (auto simp: find_None_iff)
  then obtain m g where x: "name_at names (n @ t) = Some (m, g)" by auto
  then have "(m, g) \<in> set names" "m \<noteq> [] \<and> take (length m) (n @ t) = m" unfolding name_at_def find_Some_iff by (auto, metis nth_mem)
  then show ?thesis using own x by simp
qed

text \<open>Names with the separators behind them.\<close>

primrec write_names :: "(string \<times> string) list \<Rightarrow> string" where
  "write_names [] = []"
| "write_names (x # xs) = fst x @ snd x @ write_names xs"

fun separated :: "(string \<times> string) list \<Rightarrow> bool" where
  "separated [] = True"
| "separated [(n, s)] = separators s"
| "separated ((n, s) # x # xs) = (separators s \<and> s \<noteq> [] \<and> separated (x # xs))"

definition set_names :: "flag_env \<Rightarrow> flag_names \<Rightarrow> (string \<times> string) list \<Rightarrow> flag_state \<Rightarrow> flag_state" where
  "set_names env names xs = fold (\<lambda>x. set_flag env (fst x) (the (map_of names (fst x)))) xs"

lemma parse_flags_written:
  assumes "separable names"
  shows "separated xs \<Longrightarrow> fst ` set xs \<subseteq> fst ` set names \<Longrightarrow> parse_flags env names (write_names xs) st = set_names env names xs st"
proof (induction xs arbitrary: st rule: separated.induct)
  case 1
  then show ?case by (simp add: set_names_def)
next
  case (2 n s)
  then obtain f where f: "(n, f) \<in> set names" by auto
  have sep: "s = [] \<or> hd s = CHR 0x7C \<or> hd s = CHR 0x20" using 2(1) by (cases s) (auto simp: separators_def)
  obtain c n' where n: "n = c # n'" "c \<noteq> CHR 0x7C" "c \<noteq> CHR 0x20"
    using f assms unfolding separable_def by (cases n) fastforce+
  have "map_of names n = Some f" using f assms unfolding separable_def by simp
  then show ?case using name_at_written [OF assms f sep] n skip_separators [of s env names "[]"] 2(1) by (simp add: set_names_def)
next
  case (3 n s x xs)
  then obtain f where f: "(n, f) \<in> set names" by auto
  define t where "t = s @ write_names (x # xs)"
  have sep: "hd t = CHR 0x7C \<or> hd t = CHR 0x20" using 3(2) by (cases s) (auto simp: separators_def t_def)
  obtain c n' where n: "n = c # n'" "c \<noteq> CHR 0x7C" "c \<noteq> CHR 0x20"
    using f assms unfolding separable_def by (cases n) fastforce+
  have "map_of names n = Some f" using f assms unfolding separable_def by simp
  then have "parse_flags env names (n @ t) st = parse_flags env names t (set_flag env n (the (map_of names n)) st)"
    using name_at_written [OF assms f, of t] sep n by simp
  also have "\<dots> = parse_flags env names (write_names (x # xs)) (set_flag env n (the (map_of names n)) st)"
    unfolding t_def using skip_separators 3(2) by simp
  also have "\<dots> = set_names env names (x # xs) (set_flag env n (the (map_of names n)) st)" using 3 by (intro 3(1)) auto
  finally show ?case by (simp add: set_names_def t_def)
qed

definition flags_of :: "flag_env \<Rightarrow> flag_names \<Rightarrow> (string \<times> string) list \<Rightarrow> 32 word \<Rightarrow> 32 word" where
  "flags_of env names xs fs = fold (\<lambda>x w. case map_of names (fst x) of Some (Some f) \<Rightarrow> w OR flag_bits env f | _ \<Rightarrow> w) xs fs"

lemma set_names_flags:
  assumes "fst ` set xs \<subseteq> fst ` set names" "\<forall>f. supports env f"
  shows "set_names env names xs st = st\<lparr>found := (found st \<or> xs \<noteq> []), flags := flags_of env names xs (flags st)\<rparr>"
  using assms(1)
proof (induction xs arbitrary: st)
  case Nil
  then show ?case by (simp add: set_names_def flags_of_def)
next
  case (Cons x xs)
  then obtain f where f: "map_of names (fst x) = Some f" by (metis domD dom_map_of_conv_image_fst image_subset_iff list.set_intros(1))
  show ?case
  proof (cases f)
    case None
    then show ?thesis using Cons.IH [of "st\<lparr>found := True\<rparr>"] Cons.prems f by (simp add: set_names_def flags_of_def set_flag_def)
  next
    case (Some g)
    then show ?thesis using Cons.IH [of "st\<lparr>flags := flags st OR flag_bits env g, found := True\<rparr>"] Cons.prems f assms(2)
      by (simp add: set_names_def flags_of_def set_flag_def)
  qed
qed

text \<open>C24: flags that are written as names with bars or spaces between them are all read: the flags of exactly these names are set, no warning
  is given, and there are flags unless there is no name. So it is for the flags of tables, columns, lexicons and index columns.\<close>

theorem flag_names_roundtrip:
  assumes "separated xs" "\<forall>f. supports env f" "separators s"
  shows "(fst ` set xs \<subseteq> fst ` set table_flag_names \<longrightarrow> mrn_parse_grn_table_create_flags env (s @ write_names xs) fs
        = \<lparr>found = (xs \<noteq> []), flags = flags_of env table_flag_names xs fs, warnings = []\<rparr>)
    \<and> (fst ` set xs \<subseteq> fst ` set column_flag_names \<longrightarrow> mrn_parse_grn_column_create_flags env (s @ write_names xs) fs
        = \<lparr>found = (xs \<noteq> []), flags = flags_of env column_flag_names xs fs, warnings = []\<rparr>)
    \<and> (fst ` set xs \<subseteq> fst ` set lexicon_flag_names \<longrightarrow> mrn_parse_grn_lexicon_flags env (s @ write_names xs) fs
        = \<lparr>found = (xs \<noteq> []), flags = flags_of env lexicon_flag_names xs fs, warnings = []\<rparr>)
    \<and> (fst ` set xs \<subseteq> fst ` set index_column_flag_names \<longrightarrow> mrn_parse_grn_index_column_flags env (s @ write_names xs) fs
        = \<lparr>found = (xs \<noteq> []), flags = flags_of env index_column_flag_names xs fs, warnings = []\<rparr>)"
proof -
  have "parse_flag_names env names (s @ write_names xs) fs = \<lparr>found = (xs \<noteq> []), flags = flags_of env names xs fs, warnings = []\<rparr>"
    if "separable names" "fst ` set xs \<subseteq> fst ` set names" for names
    unfolding parse_flag_names_def skip_separators [OF assms(3)] parse_flags_written [OF that(1) assms(1) that(2)]
      set_names_flags [OF that(2) assms(2)] by simp
  then show ?thesis
    using names_separable unfolding mrn_parse_grn_table_create_flags_def mrn_parse_grn_column_create_flags_def
      mrn_parse_grn_lexicon_flags_def mrn_parse_grn_index_column_flags_def by simp
qed

definition sample_flag_env :: flag_env where
  "sample_flag_env = \<lparr>flag_bits = (\<lambda>f. if f = GRN_OBJ_TABLE_PAT_KEY then 1 else if f = GRN_OBJ_TABLE_DAT_KEY then 2 else if f = GRN_OBJ_TABLE_NO_KEY then 3
       else if f = GRN_OBJ_WITH_SECTION then 128 else if f = GRN_OBJ_WITH_POSITION then 512 else 0), supports = (\<lambda>_. True), flag_mask = 7\<rparr>"

theorem flag_names_roundtrip_witness:
  "mrn_parse_grn_index_column_flags sample_flag_env ''| WITH_POSITION|WITH_SECTION | '' 8 = \<lparr>found = True, flags = 648, warnings = []\<rparr>"
proof -
  let ?xs = "[(''WITH_POSITION'', ''|''), (''WITH_SECTION'', '' | '')]"
  have names: "fst ` set ?xs \<subseteq> fst ` set index_column_flag_names" by (simp add: index_column_flag_names_def)
  have w: "flags_of sample_flag_env index_column_flag_names ?xs 8 = 648"
    by (simp add: flags_of_def index_column_flag_names_def sample_flag_env_def)
  show ?thesis
    using flag_names_roundtrip [of ?xs sample_flag_env "''| ''" 8] names w by (simp add: separators_def sample_flag_env_def)
qed

text \<open>The three kinds of table keys are numbers, not bits of their own: naming two of them gives a third, a table without keys.\<close>

lemma two_key_types_give_no_key:
  "flags (mrn_parse_grn_table_create_flags sample_flag_env ''TABLE_PAT_KEY|TABLE_DAT_KEY'' 0) = flag_bits sample_flag_env GRN_OBJ_TABLE_NO_KEY"
  by code_simp

end
