(* ===== verification/Grn_Catalog.thy ===== *)
theory Grn_Catalog
  imports Object_Flags Index_Names Field_Values Field_Normalizer "HOL-Library.Monad_Syntax"
begin

text \<open>
  The objects of a Groonga database as the handler creates, changes and removes them: tables, columns, types. A handle is the number of
  an object; using the handle of an object that is not there any more is a fault, \<^const>\<open>None\<close>. Whether Groonga
  refuses to create an object and which objects go with a removed one are parameters; the promise \<open>removal_promise\<close> is
  what the handler relies on. Also the settings of lexicons (\<^verbatim>\<open>set_tokenizer\<close>, \<^verbatim>\<open>set_normalizer\<close>, \<^verbatim>\<open>set_token_filters\<close>)
  and \<^verbatim>\<open>is_foreign_key_field\<close> of \<^verbatim>\<open>ha_mroonga.cpp\<close>.
\<close>

section \<open>Objects\<close>

datatype object_kind = Grn_table | Grn_column | Grn_type

record grn_object =
  o_name :: string
  o_kind :: object_kind
  o_domain :: "nat option"
  o_range :: "nat option"
  o_flags :: "32 word"
  o_sources :: "nat list"
  o_tokenizer :: "string option"
  o_normalizer :: "string option"
  o_token_filters :: "string option"

record catalog =
  objects :: "(nat \<times> grn_object) list"
  next_object :: nat

record catalog_env =
  refuses :: "(nat \<times> grn_object) list \<Rightarrow> nat option \<Rightarrow> string \<Rightarrow> bool"
  removed_with :: "(nat \<times> grn_object) list \<Rightarrow> nat \<Rightarrow> nat list"
  ca_flags :: flag_env
  ca_mb_wc :: mb_wc
  ca_wc_mb :: wc_mb
  max_key_size :: nat
  strconvert :: "string \<Rightarrow> nat \<Rightarrow> string"
  max_path_size :: nat
  builtin_type :: "grn_type \<Rightarrow> nat"
  system_encoding :: int
  field_encoding :: "mysql_field \<Rightarrow> int"
  accepts_tokenizer :: "string \<Rightarrow> bool"
  accepts_normalizer :: "string \<Rightarrow> bool"
  accepts_token_filters :: "string \<Rightarrow> bool"
  default_tokenizer_variable :: string
  installed_normalizer :: "string \<Rightarrow> bool"

definition alive :: "catalog \<Rightarrow> nat \<Rightarrow> bool" where
  "alive cat i \<longleftrightarrow> i \<in> fst ` set (objects cat)"

definition object_of :: "catalog \<Rightarrow> nat \<Rightarrow> grn_object option" where
  "object_of cat i = map_of (objects cat) i"

definition new_object :: "string \<Rightarrow> object_kind \<Rightarrow> nat option \<Rightarrow> nat option \<Rightarrow> 32 word \<Rightarrow> grn_object" where
  "new_object nm kind d rng fs = \<lparr>o_name = nm, o_kind = kind, o_domain = d, o_range = rng, o_flags = fs, o_sources = [],
     o_tokenizer = None, o_normalizer = None, o_token_filters = None\<rparr>"

text \<open>\<^verbatim>\<open>grn_table_create\<close> and \<^verbatim>\<open>grn_column_create\<close>: a new handle, or none when Groonga refuses. The handles that are given
  must be those of objects.\<close>

definition handles_alive :: "grn_object \<Rightarrow> catalog \<Rightarrow> bool" where
  "handles_alive ob cat \<longleftrightarrow> (case o_domain ob of None \<Rightarrow> True | Some d \<Rightarrow> alive cat d) \<and> (case o_range ob of None \<Rightarrow> True | Some r \<Rightarrow> alive cat r)"

definition create_object :: "catalog_env \<Rightarrow> grn_object \<Rightarrow> catalog \<Rightarrow> (nat option \<times> catalog) option" where
  "create_object env ob cat =
     (if handles_alive ob cat then
        (if refuses env (objects cat) (o_domain ob) (o_name ob) then Some (None, cat)
         else Some (Some (next_object cat), cat\<lparr>objects := (next_object cat, ob) # objects cat, next_object := next_object cat + 1\<rparr>))
      else None)"

definition table_create :: "catalog_env \<Rightarrow> string \<Rightarrow> 32 word \<Rightarrow> nat option \<Rightarrow> catalog \<Rightarrow> (nat option \<times> catalog) option" where
  "table_create env nm fs key_type = create_object env (new_object nm Grn_table None key_type fs)"

definition column_create :: "catalog_env \<Rightarrow> nat \<Rightarrow> string \<Rightarrow> 32 word \<Rightarrow> nat \<Rightarrow> catalog \<Rightarrow> (nat option \<times> catalog) option" where
  "column_create env t nm fs rng = create_object env (new_object nm Grn_column (Some t) (Some rng) fs)"

definition grn_obj_remove :: "catalog_env \<Rightarrow> nat \<Rightarrow> catalog \<Rightarrow> catalog option" where
  "grn_obj_remove env i cat =
     (if alive cat i then Some (cat\<lparr>objects := filter (\<lambda>(j, ob). j \<notin> set (removed_with env (objects cat) i)) (objects cat)\<rparr>) else None)"

definition grn_obj_set_info :: "nat \<Rightarrow> (grn_object \<Rightarrow> grn_object) \<Rightarrow> catalog \<Rightarrow> catalog option" where
  "grn_obj_set_info i f cat =
     (if alive cat i then Some (cat\<lparr>objects := map (\<lambda>(j, ob). (j, if j = i then f ob else ob)) (objects cat)\<rparr>) else None)"

text \<open>\<^verbatim>\<open>grn_ctx_get\<close> looks up a name of a table, a type, or a table and a column; \<^verbatim>\<open>grn_obj_column\<close> a column of a table.\<close>

definition obj_column :: "catalog \<Rightarrow> nat \<Rightarrow> string \<Rightarrow> nat option" where
  "obj_column cat t nm = map_option fst (find (\<lambda>(i, ob). o_domain ob = Some t \<and> o_name ob = nm) (objects cat))"

definition ctx_get :: "catalog \<Rightarrow> string \<Rightarrow> nat option" where
  "ctx_get cat nm = map_option fst (find (\<lambda>(i, ob). case o_domain ob of
       None \<Rightarrow> o_name ob = nm
     | Some d \<Rightarrow> (case object_of cat d of None \<Rightarrow> False | Some t \<Rightarrow> o_name t @ ''.'' @ o_name ob = nm)) (objects cat))"


section \<open>Settings of lexicons\<close>

definition MRN_DEFAULT_TOKENIZER :: string where
  "MRN_DEFAULT_TOKENIZER = ''TokenBigram''"

text \<open>A tokenizer that is refused is replaced by the default one, and that by the tokenizer for pairs of characters.\<close>

definition set_tokenizer :: "catalog_env \<Rightarrow> nat \<Rightarrow> string \<Rightarrow> catalog \<Rightarrow> catalog option" where
  "set_tokenizer env lx tok cat =
     (if strcaseeq tok ''off'' \<or> strcaseeq tok ''none'' then Some cat
      else grn_obj_set_info lx
        (\<lambda>ob. ob\<lparr>o_tokenizer := Some (if accepts_tokenizer env tok then tok
                                  else if accepts_tokenizer env MRN_DEFAULT_TOKENIZER then MRN_DEFAULT_TOKENIZER
                                  else ''TokenBigram'')\<rparr>) cat)"

definition set_normalizer :: "catalog_env \<Rightarrow> nat \<Rightarrow> mysql_field \<Rightarrow> string option \<Rightarrow> catalog \<Rightarrow> catalog option" where
  "set_normalizer env lx f normalizer cat =
     (if normalizer = Some ''none'' then Some cat
      else (let spec = (case normalizer of Some n \<Rightarrow> n | None \<Rightarrow> fst (find_grn_normalizer (installed_normalizer env) f)) in
        grn_obj_set_info lx (\<lambda>ob. if accepts_normalizer env spec then ob\<lparr>o_normalizer := Some spec\<rparr> else ob) cat))"

definition set_token_filters :: "catalog_env \<Rightarrow> nat \<Rightarrow> string \<Rightarrow> catalog \<Rightarrow> catalog option" where
  "set_token_filters env lx filters cat =
     grn_obj_set_info lx (\<lambda>ob. if accepts_token_filters env filters then ob\<lparr>o_token_filters := Some filters\<rparr> else ob) cat"

text \<open>\<^verbatim>\<open>ha_mroonga::should_normalize\<close>\<close>

definition should_normalize_index :: "mysql_field \<Rightarrow> bool \<Rightarrow> bool" where
  "should_normalize_index f is_fulltext_index =
     (if is_fulltext_index then \<not> MY_CS_BINSORT (field_charset f) else should_normalize f)"


section \<open>Foreign keys\<close>

definition MRN_COLUMN_NAME_ID :: string where
  "MRN_COLUMN_NAME_ID = ''_id''"

definition column_name :: "catalog_env \<Rightarrow> string \<Rightarrow> string" where
  "column_name env = ColumnName (strconvert env) (max_path_size env)"

definition is_foreign_key_field :: "catalog_env \<Rightarrow> catalog \<Rightarrow> string \<Rightarrow> string \<Rightarrow> bool" where
  "is_foreign_key_field env cat table_nm field_nm =
     (case ctx_get cat table_nm of
        None \<Rightarrow> False
      | Some t \<Rightarrow> (case obj_column cat t (column_name env field_nm) of
          None \<Rightarrow> False
        | Some c \<Rightarrow> (case Option.bind (object_of cat c) o_range of
            None \<Rightarrow> False
          | Some rng \<Rightarrow>
              if map_option o_kind (object_of cat rng) \<noteq> Some Grn_table then False
              else obj_column cat rng (IndexColumnName (ca_mb_wc env) (ca_wc_mb env) (max_key_size env) table_nm field_nm) \<noteq> None)))"


section \<open>What the handler relies on\<close>

text \<open>Removing an object removes the object and, if it is a table, its columns; beside them only index columns of removed columns.\<close>

definition removal_promise :: "catalog_env \<Rightarrow> bool" where
  "removal_promise env \<longleftrightarrow> (\<forall>obs i. distinct (map fst obs) \<longrightarrow> i \<in> fst ` set obs \<longrightarrow>
     i \<in> set (removed_with env obs i)
     \<and> (\<forall>(j, ob)\<in>set obs. o_domain ob = Some i \<longrightarrow> j \<in> set (removed_with env obs i))
     \<and> (\<forall>(j, ob)\<in>set obs. j \<in> set (removed_with env obs i) \<longrightarrow> j = i \<or> o_domain ob = Some i
          \<or> (\<exists>s\<in>set (o_sources ob). s = i \<or> (\<exists>sob. (s, sob) \<in> set obs \<and> o_domain sob = Some i))))"

text \<open>Handles are numbers below the next one, each is that of one object, and objects refer to smaller handles only.\<close>

definition catalog_ok :: "catalog \<Rightarrow> bool" where
  "catalog_ok cat \<longleftrightarrow> distinct (map fst (objects cat))
     \<and> (\<forall>(i, ob)\<in>set (objects cat). i < next_object cat \<and> (\<forall>d. o_domain ob = Some d \<longrightarrow> d < next_object cat)
          \<and> (\<forall>s\<in>set (o_sources ob). s < next_object cat))"

text \<open>A removal that keeps the promise.\<close>

definition remove_closed :: "(nat \<times> grn_object) list \<Rightarrow> nat \<Rightarrow> nat list" where
  "remove_closed obs i =
     (let own = i # map fst (filter (\<lambda>(j, ob). o_domain ob = Some i) obs)
      in own @ map fst (filter (\<lambda>(j, ob). \<exists>s\<in>set (o_sources ob). s \<in> set own) obs))"

lemma remove_closed_iff:
  "j \<in> set (remove_closed obs i) \<longleftrightarrow> j = i \<or> (\<exists>ob. (j, ob) \<in> set obs \<and> (o_domain ob = Some i
     \<or> (\<exists>s\<in>set (o_sources ob). s = i \<or> (\<exists>sob. (s, sob) \<in> set obs \<and> o_domain sob = Some i))))"
proof -
  have own: "s \<in> set (i # map fst (filter (\<lambda>(j, ob). o_domain ob = Some i) obs)) \<longleftrightarrow> s = i \<or> (\<exists>sob. (s, sob) \<in> set obs \<and> o_domain sob = Some i)" for s
    by force
  have ix: "j \<in> set (map fst (filter (\<lambda>(j, ob). \<exists>s\<in>set (o_sources ob). P s) obs)) \<longleftrightarrow> (\<exists>ob. (j, ob) \<in> set obs \<and> (\<exists>s\<in>set (o_sources ob). P s))" for P
    by force
  show ?thesis unfolding remove_closed_def Let_def set_append Un_iff ix own by blast
qed

lemma remove_closed_promise:
  assumes "removed_with env = remove_closed"
  shows "removal_promise env"
  unfolding removal_promise_def assms
proof (intro allI impI conjI ballI)
  fix obs :: "(nat \<times> grn_object) list" and i
  assume d: "distinct (map fst obs)"
  show "i \<in> set (remove_closed obs i)" by (simp add: remove_closed_iff)
  fix x assume x: "x \<in> set obs"
  obtain j ob where j: "x = (j, ob)" by (cases x)
  show "case x of (j, ob) \<Rightarrow> o_domain ob = Some i \<longrightarrow> j \<in> set (remove_closed obs i)"
    using x unfolding j by (auto simp: remove_closed_iff)
  have one: "ob' = ob" if "(j, ob') \<in> set obs" for ob' using d x that unfolding j by (meson eq_key_imp_eq_value)
  show "case x of (j, ob) \<Rightarrow> j \<in> set (remove_closed obs i) \<longrightarrow> j = i \<or> o_domain ob = Some i
      \<or> (\<exists>s\<in>set (o_sources ob). s = i \<or> (\<exists>sob. (s, sob) \<in> set obs \<and> o_domain sob = Some i))"
    unfolding j prod.case remove_closed_iff using one by blast
qed

end
