(* ===== verification/Table_Params.thy ===== *)
theory Table_Params
  imports Mrn_Prelude
begin

text \<open>
  The parameters in the comments of tables, partitions and columns (\<^verbatim>\<open>mrn_table.cpp\<close>):
  \<^verbatim>\<open>mrn_get_string_between_quote\<close>, \<^verbatim>\<open>mrn_parse_table_param\<close> and \<^verbatim>\<open>mrn_add_column_param\<close>. A pointer into a
  C string is the rest of the string from there on. Resolving a storage engine by its name is a
  parameter.
\<close>

section \<open>Strings between quotes\<close>

abbreviation BACKSLASH :: char where "BACKSLASH \<equiv> CHR 0x5C"
abbreviation QUOTE :: char where "QUOTE \<equiv> CHR 0x27"
abbreviation DQUOTE :: char where "DQUOTE \<equiv> CHR 0x22"

text \<open>
  The inner loop: \<open>n\<close> is the distance from \<^verbatim>\<open>esc_ptr\<close> to the quote at \<^verbatim>\<open>end_ptr\<close>. The results are
  \<^verbatim>\<open>find_flg\<close>, whether the quote ends the string, and whether \<^verbatim>\<open>esc_flg\<close> was set.
\<close>

function esc_scan :: "nat \<Rightarrow> string \<Rightarrow> bool \<times> bool" where
  "esc_scan n t = (case strchr t BACKSLASH of
      None \<Rightarrow> (True, False)
    | Some e \<Rightarrow>
        if e > n then (True, False)
        else if e + 1 = n then (False, True)
        else (fst (esc_scan (n - (e + 2)) (drop (e + 2) t)), True))"
  by pat_completeness auto
termination
proof (relation "measure (\<lambda>(n, t). length t)")
  fix n t e
  assume "strchr t BACKSLASH = Some e"
  then have "t \<noteq> []" by (cases t) auto
  then show "((n - (e + 2), drop (e + 2) t), n, t) \<in> measure (\<lambda>(n, t). length t)" by simp
qed simp

declare esc_scan.simps [simp del]

text \<open>The outer loop from \<^verbatim>\<open>tmp_ptr\<close> on: the distance to the closing quote and \<^verbatim>\<open>esc_flg\<close>.\<close>

function quote_loop :: "char \<Rightarrow> string \<Rightarrow> (nat \<times> bool) option" where
  "quote_loop q t = (case strchr t q of
      None \<Rightarrow> None
    | Some n \<Rightarrow>
        (case esc_scan n t of
           (True, flg) \<Rightarrow> Some (n, flg)
         | (False, flg) \<Rightarrow> map_option (\<lambda>(m, _). (n + 1 + m, True)) (quote_loop q (drop (n + 1) t))))"
  by pat_completeness auto
termination
proof (relation "measure (\<lambda>(q, t). length t)")
  fix q t n x fnd flg
  assume "strchr t q = Some n"
  then have "t \<noteq> []" by (cases t) auto
  then show "((q, drop (n + 1) t), q, t) \<in> measure (\<lambda>(q, t). length t)" by simp
qed simp

declare quote_loop.simps [simp del]

definition unescape_char :: "char \<Rightarrow> char" where
  "unescape_char c = (if c = CHR ''b'' then CHR 0x08 else if c = CHR ''n'' then CHR 0x0A
     else if c = CHR ''r'' then CHR 0x0D else if c = CHR ''t'' then CHR 0x09 else c)"

fun unescape_loop :: "string \<Rightarrow> string" where
  "unescape_loop [] = []"
| "unescape_loop (c # cs) =
     (if c \<noteq> BACKSLASH then c # unescape_loop cs
      else case cs of [] \<Rightarrow> [] | d # ds \<Rightarrow> unescape_char d # unescape_loop ds)"

definition extract_string :: "char \<Rightarrow> string \<Rightarrow> string option" where
  "extract_string q start_ptr = (case quote_loop q start_ptr of
      None \<Rightarrow> None
    | Some (n, esc_flg) \<Rightarrow> Some (if esc_flg then unescape_loop (take n start_ptr) else take n start_ptr))"

text \<open>\<^const>\<open>None\<close> is the null pointer; running out of memory is not modelled.\<close>

definition mrn_get_string_between_quote :: "string \<Rightarrow> string option" where
  "mrn_get_string_between_quote ptr = (case (strchr ptr QUOTE, strchr ptr DQUOTE) of
      (Some a, None) \<Rightarrow> extract_string QUOTE (drop (a + 1) ptr)
    | (Some a, Some b) \<Rightarrow>
        if a < b then extract_string QUOTE (drop (a + 1) ptr) else extract_string DQUOTE (drop (b + 1) ptr)
    | (None, Some b) \<Rightarrow> extract_string DQUOTE (drop (b + 1) ptr)
    | (None, None) \<Rightarrow> None)"

section \<open>Table parameters\<close>

record table_params =
  table_flags :: "string option"
  engine :: "string option"
  tokenizer_param :: "string option"
  default_tokenizer :: "string option"
  normalizer_param :: "string option"
  token_filters :: "string option"

datatype param_error = ER_MRN_INVALID_TABLE_PARAM string | ER_UNKNOWN_STORAGE_ENGINE string

definition is_blank :: "char \<Rightarrow> bool" where
  "is_blank c \<longleftrightarrow> c \<in> {CHR '' '', CHR 0x0D, CHR 0x0A, CHR 0x09}"

text \<open>The end of a title in a table comment; in a column comment a comma was replaced by the terminating
  NUL before.\<close>

definition ends_title :: "char \<Rightarrow> bool" where
  "ends_title c \<longleftrightarrow> is_blank c \<or> c = QUOTE \<or> c = DQUOTE \<or> c = CHR '',''"

text \<open>\<^verbatim>\<open>MRN_PARAM_STR\<close> with the title at \<open>tmp_ptr\<close> and the rest behind it at \<open>start_ptr\<close>: a parameter that is set
  already stays.\<close>

definition param_str :: "string \<Rightarrow> string \<Rightarrow> string option \<Rightarrow> param_error + string option" where
  "param_str tmp_ptr start_ptr old = (case old of
      Some v \<Rightarrow> Inr (Some v)
    | None \<Rightarrow> (case mrn_get_string_between_quote start_ptr of
        None \<Rightarrow> Inl (ER_MRN_INVALID_TABLE_PARAM tmp_ptr)
      | Some v \<Rightarrow> Inr (Some v)))"

definition set_table_param :: "string \<Rightarrow> string \<Rightarrow> string \<Rightarrow> table_params \<Rightarrow> param_error + table_params" where
  "set_table_param title tmp_ptr start_ptr ps =
     (if strcaseeq title ''flags'' then map_sum id (\<lambda>v. ps\<lparr>table_flags := v\<rparr>) (param_str tmp_ptr start_ptr (table_flags ps))
      else if strcaseeq title ''engine'' then map_sum id (\<lambda>v. ps\<lparr>engine := v\<rparr>) (param_str tmp_ptr start_ptr (engine ps))
      else if strcaseeq title ''tokenizer'' then map_sum id (\<lambda>v. ps\<lparr>tokenizer_param := v\<rparr>) (param_str tmp_ptr start_ptr (tokenizer_param ps))
      else if strcaseeq title ''normalizer'' then map_sum id (\<lambda>v. ps\<lparr>normalizer_param := v\<rparr>) (param_str tmp_ptr start_ptr (normalizer_param ps))
      else if strcaseeq title ''token_filters'' then map_sum id (\<lambda>v. ps\<lparr>token_filters := v\<rparr>) (param_str tmp_ptr start_ptr (token_filters ps))
      else if strcaseeq title ''default_tokenizer'' then map_sum id (\<lambda>v. ps\<lparr>default_tokenizer := v\<rparr>) (param_str tmp_ptr start_ptr (default_tokenizer ps))
      else Inr ps)"

definition parse_table_piece :: "string \<Rightarrow> table_params \<Rightarrow> param_error + table_params" where
  "parse_table_piece piece ps =
     (let tmp_ptr = dropWhile is_blank piece in
      if tmp_ptr = [] then Inr ps
      else let title = takeWhile (\<lambda>c. \<not> ends_title c) tmp_ptr
           in set_table_param title tmp_ptr (drop (length title) tmp_ptr) ps)"

text \<open>The loop over one comment: a piece begins behind every comma, also behind a comma in quotes, and
  reaches to the end of the comment.\<close>

function parse_comment :: "string \<Rightarrow> table_params \<Rightarrow> param_error + table_params" where
  "parse_comment s ps = (case parse_table_piece s ps of
      Inl e \<Rightarrow> Inl e
    | Inr ps' \<Rightarrow> (case strchr s (CHR '','') of
        None \<Rightarrow> Inr ps'
      | Some i \<Rightarrow> parse_comment (drop (i + 1) s) ps'))"
  by pat_completeness auto
termination
proof (relation "measure (\<lambda>(s, ps). length s)")
  fix s :: string and ps ps' i
  assume "strchr s (CHR '','') = Some i"
  then have "s \<noteq> []" by (cases s) auto
  then show "((drop (i + 1) s, ps'), s, ps) \<in> measure (\<lambda>(s, ps). length s)" by simp
qed simp

declare parse_comment.simps [simp del]

text \<open>The comments in the order of the loop: of the subpartition, of the partition and of the table.
  A missing or empty comment is skipped.\<close>

fun parse_comments :: "string option list \<Rightarrow> table_params \<Rightarrow> param_error + table_params" where
  "parse_comments [] ps = Inr ps"
| "parse_comments (None # cs) ps = parse_comments cs ps"
| "parse_comments (Some c # cs) ps = (case parse_comment c ps of Inl e \<Rightarrow> Inl e | Inr ps' \<Rightarrow> parse_comments cs ps')"

definition no_params :: table_params where
  "no_params = \<lparr>table_flags = None, engine = None, tokenizer_param = None, default_tokenizer = None,
     normalizer_param = None, token_filters = None\<rparr>"

text \<open>The result is the parameters and \<^verbatim>\<open>wrapper_mode\<close>; \<open>resolves\<close> is \<^verbatim>\<open>ha_resolve_by_name\<close>.\<close>

definition resolve_engine :: "(string \<Rightarrow> bool) \<Rightarrow> string option \<Rightarrow> table_params \<Rightarrow> param_error + table_params \<times> bool" where
  "resolve_engine resolves default_engine ps =
     (let ps' = (if engine ps = None then ps\<lparr>engine := default_engine\<rparr> else ps) in
      case engine ps' of
        None \<Rightarrow> Inr (ps', False)
      | Some e \<Rightarrow>
          if strcaseeq e ''DEFAULT'' \<or> strcaseeq e ''GROONGA'' then Inr (ps'\<lparr>engine := None\<rparr>, False)
          else if \<not> resolves e then Inl (ER_UNKNOWN_STORAGE_ENGINE e)
          else Inr (ps', True))"

definition mrn_parse_table_param ::
    "(string \<Rightarrow> bool) \<Rightarrow> string option \<Rightarrow> string option list \<Rightarrow> table_params \<Rightarrow> param_error + table_params \<times> bool" where
  "mrn_parse_table_param resolves default_engine comments ps = (case parse_comments comments ps of
      Inl e \<Rightarrow> Inl e
    | Inr ps' \<Rightarrow> resolve_engine resolves default_engine ps')"

section \<open>Column parameters\<close>

record column_params =
  col_type :: "string option"
  col_flags :: "string option"

definition set_column_param :: "string \<Rightarrow> string \<Rightarrow> string \<Rightarrow> column_params \<Rightarrow> param_error + column_params" where
  "set_column_param title tmp_ptr start_ptr cp =
     (if strcaseeq title ''type'' then map_sum id (\<lambda>v. cp\<lparr>col_type := v\<rparr>) (param_str tmp_ptr start_ptr (col_type cp))
      else if strcaseeq title ''flags'' then map_sum id (\<lambda>v. cp\<lparr>col_flags := v\<rparr>) (param_str tmp_ptr start_ptr (col_flags cp))
      else if strcaseeq title ''groonga_type'' then map_sum id (\<lambda>v. cp\<lparr>col_type := v\<rparr>) (param_str tmp_ptr start_ptr (col_type cp))
      else Inr cp)"

text \<open>Here a piece ends before the next comma.\<close>

function parse_column_comment :: "string \<Rightarrow> column_params \<Rightarrow> param_error + column_params" where
  "parse_column_comment s cp =
     (let piece = takeWhile (\<lambda>c. c \<noteq> CHR '','') s;
          tmp_ptr = dropWhile is_blank piece;
          title = takeWhile (\<lambda>c. \<not> ends_title c) tmp_ptr
      in case (if tmp_ptr = [] then Inr cp else set_column_param title tmp_ptr (drop (length title) tmp_ptr) cp) of
           Inl e \<Rightarrow> Inl e
         | Inr cp' \<Rightarrow> (case strchr s (CHR '','') of
             None \<Rightarrow> Inr cp'
           | Some i \<Rightarrow> parse_column_comment (drop (i + 1) s) cp'))"
  by pat_completeness auto
termination
proof (relation "measure (\<lambda>(s, cp). length s)")
  fix s :: string and cp cp' i x xa xb
  assume "strchr s (CHR '','') = Some i"
  then have "s \<noteq> []" by (cases s) auto
  then show "((drop (i + 1) s, cp'), s, cp) \<in> measure (\<lambda>(s, cp). length s)" by simp
qed simp

declare parse_column_comment.simps [simp del]

definition mrn_add_column_param :: "bool \<Rightarrow> string \<Rightarrow> column_params \<Rightarrow> param_error + column_params" where
  "mrn_add_column_param wrapper_mode comment cp =
     (if wrapper_mode then Inr cp else parse_column_comment comment cp)"

text \<open>The loop over the fields: empty comments are skipped, the first error ends it.\<close>

fun mrn_parse_column_param :: "bool \<Rightarrow> (string \<times> column_params) list \<Rightarrow> param_error + column_params list" where
  "mrn_parse_column_param wrapper_mode [] = Inr []"
| "mrn_parse_column_param wrapper_mode ((comment, cp) # fs) =
     (case (if comment = [] then Inr cp else mrn_add_column_param wrapper_mode comment cp) of
        Inl e \<Rightarrow> Inl e
      | Inr cp' \<Rightarrow> map_sum id (Cons cp') (mrn_parse_column_param wrapper_mode fs))"

section \<open>A reference scanner\<close>

text \<open>The text up to the first quote that is not escaped, read character by character.\<close>

fun quoted :: "char \<Rightarrow> string \<Rightarrow> string option" where
  "quoted q [] = None"
| "quoted q (c # cs) =
     (if c = q then Some []
      else if c = BACKSLASH then (case cs of [] \<Rightarrow> None | d # ds \<Rightarrow> map_option (Cons (unescape_char d)) (quoted q ds))
      else map_option (Cons c) (quoted q cs))"

text \<open>The same scanner with the number of characters before the closing quote as its result.\<close>

fun quoted_length :: "char \<Rightarrow> string \<Rightarrow> nat option" where
  "quoted_length q [] = None"
| "quoted_length q (c # cs) =
     (if c = q then Some 0
      else if c = BACKSLASH then (case cs of [] \<Rightarrow> None | d # ds \<Rightarrow> map_option (\<lambda>n. n + 2) (quoted_length q ds))
      else map_option Suc (quoted_length q cs))"

lemma quoted_by_length:
  "quoted q t = map_option (\<lambda>n. unescape_loop (take n t)) (quoted_length q t)"
proof (induction q t rule: quoted.induct)
  case (2 q c cs)
  then show ?case
    by (auto simp: option.map_comp comp_def split: list.splits intro!: option.map_cong)
qed simp

lemma quoted_length_plain:
  "q \<notin> set xs \<Longrightarrow> BACKSLASH \<notin> set xs \<Longrightarrow> quoted_length q (xs @ ys) = map_option (\<lambda>n. length xs + n) (quoted_length q ys)"
  by (cases "quoted_length q ys"; induction xs) auto

lemma quoted_length_none: "q \<notin> set t \<Longrightarrow> quoted_length q t = None"
  by (induction q t rule: quoted_length.induct) (auto split: list.splits)

lemma unescape_plain: "BACKSLASH \<notin> set xs \<Longrightarrow> unescape_loop xs = xs"
  by (induction xs rule: unescape_loop.induct) auto

text \<open>The inner loop agrees with the scanner, whatever it decides.\<close>

lemma esc_scan_length:
  assumes "q \<noteq> BACKSLASH" "strchr t q = Some n"
  shows "if fst (esc_scan n t) then quoted_length q t = Some n
    else quoted_length q t = map_option (\<lambda>m. n + 1 + m) (quoted_length q (drop (n + 1) t))"
  using assms(2)
proof (induction "length t" arbitrary: t n rule: less_induct)
  case less
  note n = strchr_SomeD [OF less.prems]
  show ?case
  proof (cases "strchr t BACKSLASH")
    case None
    then have "BACKSLASH \<notin> set (take n t)" by (auto simp: strchr_None_iff dest: in_set_takeD)
    then have "quoted_length q t = Some n"
      using n quoted_length_plain [of q "take n t" "q # drop (Suc n) t"] by simp
    then show ?thesis using None by (simp add: esc_scan.simps)
  next
    case (Some e)
    note e = strchr_SomeD [OF Some]
    have ne: "e \<noteq> n" using less.prems Some assms(1) by (auto simp: strchr_Some_iff)
    show ?thesis
    proof (cases "e > n")
      case True
      then have "take n t = take n (take e t)" by simp
      then have "BACKSLASH \<notin> set (take n t)" using e(2) by (metis in_set_takeD)
      then have "quoted_length q t = Some n"
        using n quoted_length_plain [of q "take n t" "q # drop (Suc n) t"] by simp
      then show ?thesis using Some True by (simp add: esc_scan.simps)
    next
      case False
      then have en: "e < n" using ne by simp
      then obtain d where d: "drop (Suc e) t = d # drop (e + 2) t" "d = t ! (e + 1)"
        using n(3) by (metis Cons_nth_drop_Suc Suc_eq_plus1 Suc_lessI add_2_eq_Suc' less_trans_Suc not_less_eq)
      have "q \<notin> set (take e t)" using n(2) en by (metis in_set_takeD min.strict_order_iff take_take)
      then have scan: "quoted_length q t = map_option (\<lambda>m. e + 2 + m) (quoted_length q (drop (e + 2) t))"
        using e d assms(1) quoted_length_plain [of q "take e t" "BACKSLASH # drop (Suc e) t"]
        by (simp add: option.map_comp comp_def add.commute add.left_commute)
      show ?thesis
      proof (cases "e + 1 = n")
        case True
        then have "esc_scan n t = (False, True)" using Some by (simp add: esc_scan.simps)
        then show ?thesis using scan True by (cases "quoted_length q (drop (n + 1) t)") (simp_all add: numeral_2_eq_2)
      next
        case False
        then have l: "e + 2 \<le> n" using en by simp
        have eq: "fst (esc_scan n t) = fst (esc_scan (n - (e + 2)) (drop (e + 2) t))"
          using Some False en by (subst esc_scan.simps) simp
        have "strchr (drop (e + 2) t) q = Some (n - (e + 2))"
        proof -
          have "take (n - (e + 2)) (drop (e + 2) t) = drop (e + 2) (take n t)" by (simp add: drop_take)
          then have "q \<notin> set (take (n - (e + 2)) (drop (e + 2) t))" using n(2) by (metis in_set_dropD)
          moreover have "drop (e + 2) t ! (n - (e + 2)) = q" "n - (e + 2) < length (drop (e + 2) t)"
            using l n(3) less.prems by (simp_all add: strchr_Some_iff nth_drop del: add_2_eq_Suc add_2_eq_Suc')
          ultimately show ?thesis by (simp only: strchr_Some_iff) simp
        qed
        then have ih: "if fst (esc_scan n t) then quoted_length q (drop (e + 2) t) = Some (n - (e + 2))
            else quoted_length q (drop (e + 2) t)
              = map_option (\<lambda>m. n - (e + 2) + 1 + m) (quoted_length q (drop (n - (e + 2) + 1) (drop (e + 2) t)))"
          unfolding eq using n(3) by (intro less.hyps) auto
        have "drop (n - (e + 2) + 1) (drop (e + 2) t) = drop (n + 1) t"
          using l by (simp del: add_2_eq_Suc add_2_eq_Suc')
        moreover have "(\<lambda>m. e + 2 + (n - (e + 2) + 1 + m)) = (\<lambda>m. n + 1 + m)" using l by (auto simp: fun_eq_iff)
        ultimately show ?thesis using ih scan l
          by (cases "fst (esc_scan n t)"; cases "quoted_length q (drop (n + 1) t)") (simp_all del: add_2_eq_Suc add_2_eq_Suc')
      qed
    qed
  qed
qed

text \<open>Without \<^verbatim>\<open>esc_flg\<close> there is no backslash before the closing quote.\<close>

lemma esc_scan_flag:
  assumes "esc_scan n t = (True, False)"
  shows "BACKSLASH \<notin> set (take n t)"
proof (cases "strchr t BACKSLASH")
  case None
  then show ?thesis by (auto simp: strchr_None_iff dest: in_set_takeD)
next
  case (Some e)
  then have "e > n" using assms by (auto simp: esc_scan.simps split: if_splits)
  then have "take n t = take n (take e t)" by simp
  then show ?thesis using strchr_SomeD(2) [OF Some] by (metis in_set_takeD)
qed

lemma quote_loop_length:
  assumes "q \<noteq> BACKSLASH"
  shows "map_option fst (quote_loop q t) = quoted_length q t
    \<and> (\<forall>n. quote_loop q t = Some (n, False) \<longrightarrow> BACKSLASH \<notin> set (take n t))"
proof (induction "length t" arbitrary: t rule: less_induct)
  case less
  show ?case
  proof (cases "strchr t q")
    case None
    then have "quote_loop q t = None" by (subst quote_loop.simps) simp
    then show ?thesis using None by (simp add: quoted_length_none strchr_None_iff)
  next
    case (Some n)
    obtain fnd flg where scan: "esc_scan n t = (fnd, flg)" by fastforce
    note len = esc_scan_length [OF assms Some, unfolded scan fst_conv]
    show ?thesis
    proof (cases fnd)
      case True
      then show ?thesis using Some scan len esc_scan_flag by (auto simp: quote_loop.simps)
    next
      case False
      have "length (drop (n + 1) t) < length t" using strchr_SomeD(3) [OF Some] by simp
      note ih = less.hyps [OF this]
      have "quote_loop q t = map_option (\<lambda>(m, _). (n + 1 + m, True)) (quote_loop q (drop (n + 1) t))"
        using Some scan False by (subst quote_loop.simps) simp
      moreover have "quoted_length q t = map_option (\<lambda>m. n + 1 + m) (map_option fst (quote_loop q (drop (n + 1) t)))"
        using len False ih by (simp only: if_False)
      ultimately show ?thesis by (auto simp: option.map_comp comp_def case_prod_unfold)
    qed
  qed
qed

lemma extract_string_quoted:
  assumes "q \<noteq> BACKSLASH"
  shows "extract_string q t = quoted q t"
proof -
  note l = quote_loop_length [OF assms, of t]
  show ?thesis
  proof (cases "quote_loop q t")
    case None
    then show ?thesis using l by (simp add: extract_string_def quoted_by_length)
  next
    case (Some r)
    obtain n flg where r: "r = (n, flg)" by (cases r)
    then have "quoted_length q t = Some n" using l Some by simp
    then show ?thesis
      using l Some r by (cases flg) (simp_all add: extract_string_def quoted_by_length unescape_plain)
  qed
qed

definition first_quoted :: "string \<Rightarrow> string option" where
  "first_quoted s = (case dropWhile (\<lambda>c. c \<noteq> QUOTE \<and> c \<noteq> DQUOTE) s of [] \<Rightarrow> None | q # rest \<Rightarrow> quoted q rest)"

lemma dropWhile_nth:
  assumes "i < length s" "P (s ! i)" "\<forall>c \<in> set (take i s). \<not> P c"
  shows "dropWhile (\<lambda>c. \<not> P c) s = s ! i # drop (i + 1) s"
proof -
  have "s = take i s @ s ! i # drop (i + 1) s" using assms(1) by (simp add: id_take_nth_drop)
  then show ?thesis using assms(2,3) dropWhile_append2 [of "take i s" "\<lambda>c. \<not> P c" "s ! i # drop (i + 1) s"] by simp
qed

text \<open>C32: \<^verbatim>\<open>mrn_get_string_between_quote\<close> searches for quotes and backslashes with \<^verbatim>\<open>strchr\<close>, jumps over escapes
  and copies in a second pass; for every input it returns what reading the first quoted string character
  by character returns, and the null pointer exactly when that string has no closing quote.\<close>

lemma mrn_get_string_between_quote_first:
  "mrn_get_string_between_quote s = first_quoted s"
proof -
  have at: "first_quoted s = quoted q (drop (i + 1) s)"
    if "strchr s q = Some i" "q = QUOTE \<or> q = DQUOTE" "QUOTE \<notin> set (take i s)" "DQUOTE \<notin> set (take i s)" for q i
  proof -
    have "dropWhile (\<lambda>c. \<not> (c = QUOTE \<or> c = DQUOTE)) s = s ! i # drop (i + 1) s"
      using that by (intro dropWhile_nth) (auto simp: strchr_Some_iff)
    then show ?thesis using that(1) by (simp add: first_quoted_def strchr_Some_iff)
  qed
  have early: "c \<notin> set (take i s)" if "strchr s c = Some j" "i \<le> j" for c i j
    using strchr_SomeD(2) [OF that(1)] that(2) by (metis in_set_takeD min.absorb1 take_take)
  have never: "c \<notin> set (take i s)" if "strchr s c = None" for c i
    using that by (auto simp: strchr_None_iff dest: in_set_takeD)
  show ?thesis
  proof (cases "strchr s QUOTE")
    case None
    show ?thesis
    proof (cases "strchr s DQUOTE")
      case None2: None
      then have "dropWhile (\<lambda>c. c \<noteq> QUOTE \<and> c \<noteq> DQUOTE) s = []" using None by (auto simp: strchr_None_iff)
      then show ?thesis using None None2
        by (simp add: mrn_get_string_between_quote_def first_quoted_def del: dropWhile_eq_Nil_conv)
    next
      case (Some b)
      then show ?thesis using None at [OF Some] never [OF None] strchr_SomeD(2) [OF Some]
        by (simp add: mrn_get_string_between_quote_def extract_string_quoted)
    qed
  next
    case (Some a)
    show ?thesis
    proof (cases "strchr s DQUOTE")
      case None
      then show ?thesis using Some at [OF Some] never [OF None] strchr_SomeD(2) [OF Some]
        by (simp add: mrn_get_string_between_quote_def extract_string_quoted)
    next
      case Some2: (Some b)
      have "a \<noteq> b" using Some Some2 by (auto simp: strchr_Some_iff)
      then show ?thesis
        using Some Some2 at [OF Some] at [OF Some2] early [OF Some] early [OF Some2]
        by (cases "a < b") (simp_all add: mrn_get_string_between_quote_def extract_string_quoted)
    qed
  qed
qed

section \<open>Comments as they are written\<close>

text \<open>A parameter is written as its title and its value in double quotes, and a comment lists parameters
  separated by commas.\<close>

datatype table_title = Flags | Engine | Tokenizer | Normalizer | Token_filters | Default_tokenizer

primrec title_string :: "table_title \<Rightarrow> string" where
  "title_string Flags = ''flags''"
| "title_string Engine = ''engine''"
| "title_string Tokenizer = ''tokenizer''"
| "title_string Normalizer = ''normalizer''"
| "title_string Token_filters = ''token_filters''"
| "title_string Default_tokenizer = ''default_tokenizer''"

primrec table_param :: "table_params \<Rightarrow> table_title \<Rightarrow> string option" where
  "table_param ps Flags = table_flags ps"
| "table_param ps Engine = engine ps"
| "table_param ps Tokenizer = tokenizer_param ps"
| "table_param ps Normalizer = normalizer_param ps"
| "table_param ps Token_filters = token_filters ps"
| "table_param ps Default_tokenizer = default_tokenizer ps"

definition escape_value :: "string \<Rightarrow> string" where
  "escape_value v = concat (map (\<lambda>c. if c = DQUOTE \<or> c = BACKSLASH then [BACKSLASH, c] else [c]) v)"

definition write_param :: "table_title \<times> string \<Rightarrow> string" where
  "write_param tv = title_string (fst tv) @ CHR '' '' # DQUOTE # escape_value (snd tv) @ [DQUOTE]"

fun write_comment :: "(table_title \<times> string) list \<Rightarrow> string" where
  "write_comment [] = []"
| "write_comment [tv] = write_param tv"
| "write_comment (tv # tvs) = write_param tv @ CHR '','' # CHR '' '' # write_comment tvs"

definition or_else :: "'a option \<Rightarrow> 'a option \<Rightarrow> 'a option" where
  "or_else a b = (case a of None \<Rightarrow> b | Some _ \<Rightarrow> a)"

lemma or_else_simps [simp]: "or_else None b = b" "or_else (Some x) b = Some x" "or_else a None = a"
  by (auto simp: or_else_def split: option.splits)

lemma or_else_assoc: "or_else (or_else a b) c = or_else a (or_else b c)"
  by (simp add: or_else_def split: option.splits)

lemma map_of_append_or_else: "map_of (xs @ ys) k = or_else (map_of xs k) (map_of ys k)"
  by (simp add: or_else_def map_add_def split: option.splits)

lemma map_of_Cons_or_else: "map_of (x # xs) k = or_else (if k = fst x then Some (snd x) else None) (map_of xs k)"
  by (simp add: or_else_def)

lemma quoted_escape_value: "quoted DQUOTE (escape_value v @ DQUOTE # rest) = Some v"
  by (induction v) (auto simp: escape_value_def unescape_char_def)

lemma between_quote_written: "mrn_get_string_between_quote (CHR '' '' # DQUOTE # escape_value v @ DQUOTE # rest) = Some v"
  by (simp add: mrn_get_string_between_quote_first first_quoted_def quoted_escape_value)

lemma title_plain: "c \<in> set (title_string t) \<Longrightarrow> \<not> ends_title c"
  by (cases t) (auto simp: ends_title_def is_blank_def)

lemma title_not_empty [simp]: "title_string t \<noteq> []"
  by (cases t) auto

lemma comma_free_written: "CHR '','' \<notin> set v \<Longrightarrow> CHR '','' \<notin> set (write_param (t, v))"
  using title_plain [of "CHR '',''" t] by (auto simp: write_param_def escape_value_def ends_title_def split: if_splits)

lemma strcaseeq_length: "strcaseeq s t \<Longrightarrow> length s = length t"
  unfolding strcaseeq_def by (rule map_eq_imp_length_eq)

lemma strcaseeq_title:
  "strcaseeq (title_string t) ''flags'' \<longleftrightarrow> t = Flags"
  "strcaseeq (title_string t) ''engine'' \<longleftrightarrow> t = Engine"
  "strcaseeq (title_string t) ''tokenizer'' \<longleftrightarrow> t = Tokenizer"
  "strcaseeq (title_string t) ''normalizer'' \<longleftrightarrow> t = Normalizer"
  "strcaseeq (title_string t) ''token_filters'' \<longleftrightarrow> t = Token_filters"
  "strcaseeq (title_string t) ''default_tokenizer'' \<longleftrightarrow> t = Default_tokenizer"
  by (cases t; auto dest: strcaseeq_length)+

lemma set_table_param_title:
  assumes v: "mrn_get_string_between_quote start = Some v"
  shows "\<exists>ps'. set_table_param (title_string t) tmp start ps = Inr ps' \<and>
    (\<forall>u. table_param ps' u = or_else (table_param ps u) (if u = t then Some v else None))"
proof -
  have str: "param_str tmp start old = Inr (or_else old (Some v))" for old
    using v by (simp add: param_str_def split: option.splits)
  have upd: "(\<forall>u. P u) \<longleftrightarrow> P Flags \<and> P Engine \<and> P Tokenizer \<and> P Normalizer \<and> P Token_filters \<and> P Default_tokenizer" for P
    by (metis table_title.exhaust)
  show ?thesis
    unfolding set_table_param_def strcaseeq_title by (cases t) (simp_all add: str upd)
qed

text \<open>One piece of a comment, also behind a comma and a blank and before anything else.\<close>

lemma parse_table_piece_written:
  assumes "pre = [] \<or> pre = '' ''"
  shows "\<exists>ps'. parse_table_piece (pre @ write_param (t, v) @ rest) ps = Inr ps' \<and>
    (\<forall>u. table_param ps' u = or_else (table_param ps u) (if u = t then Some v else None))"
proof -
  let ?start = "CHR '' '' # DQUOTE # escape_value v @ DQUOTE # rest"
  have w: "write_param (t, v) @ rest = title_string t @ ?start" by (simp add: write_param_def)
  obtain c cs where c: "title_string t = c # cs" using title_not_empty by (cases "title_string t") auto
  then have "\<not> is_blank c" using title_plain [of c t] by (simp add: ends_title_def)
  then have "dropWhile is_blank (pre @ title_string t @ ?start) = title_string t @ ?start"
    using assms c by (auto simp: is_blank_def)
  moreover have "takeWhile (\<lambda>c. \<not> ends_title c) (title_string t @ ?start) = title_string t"
  proof -
    have "takeWhile (\<lambda>c. \<not> ends_title c) (title_string t @ ?start) = title_string t @ takeWhile (\<lambda>c. \<not> ends_title c) ?start"
      by (rule takeWhile_append2) (rule title_plain)
    then show ?thesis by (simp add: ends_title_def is_blank_def)
  qed
  ultimately show ?thesis
    using set_table_param_title [OF between_quote_written, of t "title_string t @ ?start" v rest ps]
    unfolding w parse_table_piece_def by (simp add: Let_def)
qed

lemma strchr_behind: "c \<notin> set xs \<Longrightarrow> strchr (xs @ c # ys) c = Some (length xs)"
  by (simp add: strchr_Some_iff)

lemma parse_comment_written:
  assumes "\<forall>(t, v) \<in> set tvs. CHR '','' \<notin> set v" "pre = [] \<or> pre = '' ''"
  shows "\<exists>ps'. parse_comment (pre @ write_comment tvs) ps = Inr ps' \<and>
    (\<forall>u. table_param ps' u = or_else (table_param ps u) (map_of tvs u))"
  using assms
proof (induction tvs arbitrary: pre ps rule: write_comment.induct)
  case 1
  then show ?case by (auto simp: parse_comment.simps parse_table_piece_def is_blank_def)
next
  case (2 tv)
  obtain t v where tv: "tv = (t, v)" by (cases tv)
  have "CHR '','' \<notin> set (pre @ write_param (t, v))" using 2 tv comma_free_written by auto
  then have "strchr (pre @ write_param (t, v)) (CHR '','') = None" by (rule strchr_None_iff [THEN iffD2])
  then show ?case
    using parse_table_piece_written [OF 2(2), of t v "[]" ps] tv by (auto simp: parse_comment.simps)
next
  case (3 tv tv' tvs)
  obtain t v where tv: "tv = (t, v)" by (cases tv)
  let ?rest = "CHR '' '' # write_comment (tv' # tvs)"
  obtain ps1 where p1: "parse_table_piece (pre @ write_param (t, v) @ CHR '','' # ?rest) ps = Inr ps1"
    "\<And>u. table_param ps1 u = or_else (table_param ps u) (if u = t then Some v else None)"
    using parse_table_piece_written [OF 3(3)] by blast
  have c: "CHR '','' \<notin> set (pre @ write_param (t, v))" using 3(2,3) tv comma_free_written by auto
  have "parse_comment (pre @ write_comment (tv # tv' # tvs)) ps = parse_comment ?rest ps1"
    using p1(1) strchr_behind [OF c, of ?rest] tv by (subst parse_comment.simps) simp
  moreover obtain ps2 where "parse_comment ('' '' @ write_comment (tv' # tvs)) ps1 = Inr ps2"
    "\<And>u. table_param ps2 u = or_else (table_param ps1 u) (map_of (tv' # tvs) u)"
    using 3(1) [of "'' ''" ps1] 3(2) by auto
  ultimately show ?case
    by (auto simp: p1(2) or_else_assoc tv map_of_Cons_or_else [of "(t, v)"] simp del: map_of.simps)
qed

text \<open>The parameters of a table come from the comments of its subpartition, its partition and the table.
  For comments that list parameters with arbitrary values without commas, quotes and backslashes escaped, the
  parser accepts them and every parameter has the first value written for it, the more specific comment first.\<close>

lemma table_comments_parsed:
  assumes "\<forall>c \<in> set comments. \<forall>tvs. c = Some tvs \<longrightarrow> (\<forall>(t, v) \<in> set tvs. CHR '','' \<notin> set v)"
  shows "\<exists>ps'. parse_comments (map (map_option write_comment) comments) ps = Inr ps' \<and>
    (\<forall>u. table_param ps' u = or_else (table_param ps u) (map_of (concat (map (\<lambda>c. case c of None \<Rightarrow> [] | Some tvs \<Rightarrow> tvs) comments)) u))"
  using assms
proof (induction comments arbitrary: ps)
  case Nil
  then show ?case by simp
next
  case (Cons c cs)
  show ?case
  proof (cases c)
    case None
    then show ?thesis using Cons.IH Cons.prems by simp
  next
    case (Some tvs)
    obtain ps1 where p1: "parse_comment (write_comment tvs) ps = Inr ps1"
      "\<And>u. table_param ps1 u = or_else (table_param ps u) (map_of tvs u)"
      using parse_comment_written [of tvs "[]" ps] Cons.prems Some by auto
    obtain ps2 where "parse_comments (map (map_option write_comment) cs) ps1 = Inr ps2"
      "\<And>u. table_param ps2 u = or_else (table_param ps1 u) (map_of (concat (map (\<lambda>c. case c of None \<Rightarrow> [] | Some tvs \<Rightarrow> tvs) cs)) u)"
      using Cons.IH Cons.prems by (meson list.set_intros(2))
    then show ?thesis using p1 Some by (auto simp: or_else_assoc map_of_append_or_else simp del: map_of_append)
  qed
qed

lemma table_comments_parsed_witness:
  "\<exists>ps'. parse_comments [None, Some ''engine \"InnoDB\"'', Some ''flags \"A|B\", engine \"MyISAM\"''] no_params = Inr ps'
    \<and> table_param ps' Engine = Some ''InnoDB'' \<and> table_param ps' Flags = Some ''A|B'' \<and> table_param ps' Tokenizer = None"
proof -
  have w: "write_comment [(Engine, ''InnoDB'')] = ''engine \"InnoDB\"''"
    "write_comment [(Flags, ''A|B''), (Engine, ''MyISAM'')] = ''flags \"A|B\", engine \"MyISAM\"''"
    by (simp_all add: write_param_def escape_value_def)
  have np: "table_param no_params u = None" for u by (cases u) (simp_all add: no_params_def)
  show ?thesis
    using table_comments_parsed [of "[None, Some [(Engine, ''InnoDB'')], Some [(Flags, ''A|B''), (Engine, ''MyISAM'')]]" no_params]
    by (auto simp add: w np simp del: write_comment.simps parse_comments.simps table_param.simps)
qed

text \<open>A comma inside a quoted value starts a piece: the text behind it is read as a parameter.\<close>

lemma comma_in_table_value:
  "parse_comment ''tokenizer \"TokenRegexp,flags\"'' no_params
     = Inl (ER_MRN_INVALID_TABLE_PARAM ''flags\"'')"
  by code_simp

lemma comma_in_column_value:
  "parse_column_comment ''flags \"COLUMN_VECTOR,WITH_WEIGHT\"'' \<lparr>col_type = None, col_flags = None\<rparr>
     = Inl (ER_MRN_INVALID_TABLE_PARAM ''flags \"COLUMN_VECTOR'')"
  by code_simp

text \<open>A parameter without a value takes the value of the next one, in the comment of a table.\<close>

lemma missing_value_takes_next:
  "parse_comment ''tokenizer, normalizer \"NormalizerAuto\"'' no_params
     = Inr (no_params\<lparr>tokenizer_param := Some ''NormalizerAuto'', normalizer_param := Some ''NormalizerAuto''\<rparr>)"
  by code_simp

end
