(* ===== verification/Table_Creation.thy ===== *)
theory Table_Creation
  imports Grn_Catalog Table_Params Path_Mapper
begin

text \<open>
  Creating tables and indexes in storage mode (\<^verbatim>\<open>storage_create\<close>, \<^verbatim>\<open>storage_create_foreign_key\<close>, \<^verbatim>\<open>storage_create_index\<close>,
  \<^verbatim>\<open>storage_create_indexes\<close>, \<^verbatim>\<open>storage_inplace_alter_table_add_index\<close> and their validations in \<^verbatim>\<open>ha_mroonga.cpp\<close>) as changes of the
  objects of Groonga's database. A function returns \<^const>\<open>None\<close> when it uses the handle of an object that it has removed. MySQL's
  definitions of tables are records; its dictionary, names of files and letter cases are parameters. The auto increment value
  that a new table gets is in \<^verbatim>\<open>Auto_Increment\<close>.
\<close>

section \<open>Definitions of tables\<close>

datatype key_algorithm = HA_KEY_ALG_BTREE | HA_KEY_ALG_RTREE | HA_KEY_ALG_HASH | HA_KEY_ALG_FULLTEXT | HA_KEY_ALG_UNDEF

record new_field =
  nf_field :: mysql_field
  nf_value :: value_field
  nf_virtual :: bool
  nf_custom_flags :: "string option"
  nf_custom_type :: "string option"
  nf_params :: column_params

text \<open>The custom options of a key; without support for custom options they are all absent.\<close>

record key_options =
  ko_flags :: "string option"
  ko_lexicon :: "string option"
  ko_lexicon_flags :: "string option"
  ko_tokenizer :: "string option"
  ko_token_filters :: "string option"
  ko_normalizer :: "string option"

record new_key =
  k_name :: string
  k_parts :: "(new_field \<times> bool) list"
  k_algorithm :: key_algorithm
  k_nosame :: bool
  k_comment :: string
  k_options :: key_options

record key_spec =
  ks_foreign :: bool
  ks_columns :: "string list"
  ks_ref_columns :: "string list"
  ks_ref_db :: string
  ks_ref_table :: string

record table_options =
  to_flags :: "string option"
  to_normalizer :: "string option"
  to_tokenizer :: "string option"
  to_token_filters :: "string option"

record new_table =
  t_db :: string
  t_mysql_name :: string
  t_name :: string
  t_fields :: "new_field list"
  t_keys :: "new_key list"
  t_primary :: "nat option"
  t_specs :: "key_spec list"
  t_options :: table_options
  t_params :: table_params
  t_disable_keys :: bool

text \<open>\<open>tmp_table_share\<close> is what MySQL's dictionary says of a path: no table, or its primary key, if any, with the names of its columns.\<close>

record dictionary =
  lower_case_table_names :: bool
  casedn :: "string \<Rightarrow> string"
  build_table_filename :: "string \<Rightarrow> string \<Rightarrow> string"
  home_path :: "string option"
  prefix_path :: "string option"
  tmp_table_share :: "string \<Rightarrow> string list option option"
  open_database :: int

datatype create_error = ER_CANT_CREATE_TABLE | ER_ILLEGAL_HA_CREATE_OPTION | ER_MRN_KEY_BASED_ON_GENERATED_VIRTUAL_COLUMN
  | ER_CANT_OPEN_DATABASE int | ER_ENCODING int | HA_ERR_FOUND_DUPP_UNIQUE | ER_FILL_INDEX

definition first_field :: "new_key \<Rightarrow> new_field" where
  "first_field k = fst (hd (k_parts k))"

definition multiple :: "new_key \<Rightarrow> bool" where
  "multiple k \<longleftrightarrow> 1 < length (k_parts k)"

definition is_id :: "new_field \<Rightarrow> bool" where
  "is_id f \<longleftrightarrow> field_name (nf_field f) = MRN_COLUMN_NAME_ID"

abbreviation fbits :: "catalog_env \<Rightarrow> grn_flag \<Rightarrow> 32 word" where
  "fbits env \<equiv> flag_bits (ca_flags env)"


section \<open>Validation\<close>

definition storage_create_validate_pseudo_column :: "new_field list \<Rightarrow> create_error option" where
  "storage_create_validate_pseudo_column fs =
     (if \<exists>f\<in>set fs. is_id f \<and> field_type (nf_field f) \<notin> {MYSQL_TYPE_TINY, MYSQL_TYPE_SHORT, MYSQL_TYPE_INT24, MYSQL_TYPE_LONG, MYSQL_TYPE_LONGLONG}
      then Some ER_CANT_CREATE_TABLE else None)"

fun validate_parts :: "key_algorithm \<Rightarrow> nat \<Rightarrow> (new_field \<times> bool) list \<Rightarrow> create_error option" where
  "validate_parts alg n [] = None"
| "validate_parts alg n ((f, reverse) # ps) =
     (if reverse then Some ER_ILLEGAL_HA_CREATE_OPTION
      else if is_id f then (if alg = HA_KEY_ALG_HASH \<and> n = 1 then validate_parts alg n ps else Some ER_CANT_CREATE_TABLE)
      else validate_parts alg n ps)"

definition storage_validate_key :: "new_key \<Rightarrow> create_error option" where
  "storage_validate_key k = validate_parts (k_algorithm k) (length (k_parts k)) (k_parts k)"

primrec storage_create_validate_index :: "new_key list \<Rightarrow> create_error option" where
  "storage_create_validate_index [] = None"
| "storage_create_validate_index (k # ks) = (case storage_validate_key k of None \<Rightarrow> storage_create_validate_index ks | Some e \<Rightarrow> Some e)"


section \<open>Indexes\<close>

definition custom_lexicon :: "new_key \<Rightarrow> string option" where
  "custom_lexicon k = (case ko_lexicon (k_options k) of Some l \<Rightarrow> Some l | None \<Rightarrow> fst (lexicon (ParametersParser (k_comment k))))"

definition set_key_tokenizer :: "catalog_env \<Rightarrow> nat \<Rightarrow> new_key \<Rightarrow> catalog \<Rightarrow> catalog option" where
  "set_key_tokenizer env lx k =
     set_tokenizer env lx (case ko_tokenizer (k_options k) of
       Some tok \<Rightarrow> tok
     | None \<Rightarrow> (case (if length (k_comment k) > 0 then fst (fst (tokenizer (ParametersParser (k_comment k)))) else None) of
         Some tok \<Rightarrow> tok | None \<Rightarrow> default_tokenizer_variable env))"

definition have_custom_normalizer :: "new_key \<Rightarrow> bool" where
  "have_custom_normalizer k \<longleftrightarrow> ko_normalizer (k_options k) \<noteq> None \<or> comment_parameter (k_comment k) ''normalizer'' \<noteq> None"

definition set_key_normalizer :: "catalog_env \<Rightarrow> nat \<Rightarrow> new_key \<Rightarrow> catalog \<Rightarrow> catalog option" where
  "set_key_normalizer env lx k =
     set_normalizer env lx (nf_field (first_field k))
       (case ko_normalizer (k_options k) of Some n \<Rightarrow> Some n | None \<Rightarrow> comment_parameter (k_comment k) ''normalizer'')"

definition set_key_token_filters :: "catalog_env \<Rightarrow> nat \<Rightarrow> new_key \<Rightarrow> catalog \<Rightarrow> catalog option" where
  "set_key_token_filters env lx k cat =
     (case (case ko_token_filters (k_options k) of Some fs \<Rightarrow> Some fs | None \<Rightarrow> comment_parameter (k_comment k) ''token_filters'') of
        Some fs \<Rightarrow> set_token_filters env lx fs cat | None \<Rightarrow> Some cat)"

definition index_table_flags :: "catalog_env \<Rightarrow> new_key \<Rightarrow> 32 word" where
  "index_table_flags env k =
     flags (find_lexicon_flags (ca_flags env) (ko_lexicon_flags (k_options k)) (k_comment k)
       (fbits env GRN_OBJ_PERSISTENT OR fbits env (if k_algorithm k = HA_KEY_ALG_HASH then GRN_OBJ_TABLE_HASH_KEY else GRN_OBJ_TABLE_PAT_KEY)))"

definition index_table_settings :: "catalog_env \<Rightarrow> nat \<Rightarrow> new_key \<Rightarrow> catalog \<Rightarrow> catalog option" where
  "index_table_settings env lx k cat =
     (let f = nf_field (first_field k) in
      if k_algorithm k = HA_KEY_ALG_FULLTEXT then
        do { cat1 \<leftarrow> set_key_tokenizer env lx k cat;
             cat2 \<leftarrow> set_key_token_filters env lx k cat1;
             (if have_custom_normalizer k \<or> should_normalize_index f True then set_key_normalizer env lx k cat2 else Some cat2) }
      else if k_algorithm k \<noteq> HA_KEY_ALG_HASH \<and> \<not> multiple k \<and> (have_custom_normalizer k \<or> should_normalize_index f False)
      then set_key_normalizer env lx k cat
      else Some cat)"

text \<open>When the lexicon cannot be created the table itself is removed.\<close>

definition storage_create_index_table ::
    "catalog_env \<Rightarrow> string \<Rightarrow> nat \<Rightarrow> new_key \<Rightarrow> catalog \<Rightarrow> ((create_error + nat) \<times> catalog) option" where
  "storage_create_index_table env grn_table_name grn_table k cat =
     (case custom_lexicon k of
        Some l \<Rightarrow> Some (case ctx_get cat l of None \<Rightarrow> Inl ER_CANT_CREATE_TABLE | Some t \<Rightarrow> Inr t, cat)
      | None \<Rightarrow>
          (let index_type = builtin_type env (if multiple k then GRN_DB_SHORT_TEXT else mrn_grn_type_from_field (nf_value (first_field k)) True);
               error = (if k_algorithm k = HA_KEY_ALG_FULLTEXT then field_encoding env (nf_field (first_field k)) else 0) in
           if error \<noteq> 0 then do { cat1 \<leftarrow> grn_obj_remove env grn_table cat; Some (Inl (ER_ENCODING error), cat1) }
           else do {
             (r, cat1) \<leftarrow> table_create env (index_table_name.name (IndexTableName (ca_mb_wc env) (ca_wc_mb env) (max_key_size env) grn_table_name (k_name k)))
               (index_table_flags env k) (Some index_type) cat;
             (case r of
                None \<Rightarrow> do { cat2 \<leftarrow> grn_obj_remove env grn_table cat1; Some (Inl ER_CANT_CREATE_TABLE, cat2) }
              | Some t \<Rightarrow> do { cat2 \<leftarrow> index_table_settings env t k cat1; Some (Inr t, cat2) }) }))"

definition index_column_flags :: "catalog_env \<Rightarrow> nat \<Rightarrow> new_key \<Rightarrow> catalog \<Rightarrow> 32 word" where
  "index_column_flags env t k cat =
     (let st = find_index_column_flags (ca_flags env) (ko_flags (k_options k)) (k_comment k)
                 (fbits env GRN_OBJ_COLUMN_INDEX OR fbits env GRN_OBJ_PERSISTENT) in
      if found st then flags st
      else flags st
        OR (if Option.bind (object_of cat t) o_tokenizer \<noteq> None then fbits env GRN_OBJ_WITH_POSITION else 0)
        OR (if multiple k \<and> k_algorithm k = HA_KEY_ALG_FULLTEXT then fbits env GRN_OBJ_WITH_SECTION else 0))"

definition set_index_sources :: "catalog_env \<Rightarrow> nat \<Rightarrow> nat \<Rightarrow> new_key \<Rightarrow> catalog \<Rightarrow> catalog option" where
  "set_index_sources env grn_table col k cat =
     (let source = (\<lambda>f. obj_column cat grn_table (column_name env (field_name (nf_field f)))) in
      if multiple k then
        (if k_algorithm k = HA_KEY_ALG_FULLTEXT
         then grn_obj_set_info col (\<lambda>ob. ob\<lparr>o_sources := map (\<lambda>p. case source (fst p) of None \<Rightarrow> 0 | Some c \<Rightarrow> c) (k_parts k)\<rparr>) cat
         else Some cat)
      else (case source (first_field k) of
          None \<Rightarrow> Some cat
        | Some c \<Rightarrow> grn_obj_set_info col (\<lambda>ob. ob\<lparr>o_sources := [c]\<rparr>) cat))"

text \<open>The error, what was stored as the index table and the index column of the key.\<close>

definition create_index_objects ::
    "catalog_env \<Rightarrow> string \<Rightarrow> nat \<Rightarrow> new_key \<Rightarrow> catalog \<Rightarrow> (create_error option \<times> nat option \<times> nat option \<times> catalog) option" where
  "create_index_objects env grn_table_name grn_table k cat = do {
     (r, cat1) \<leftarrow> storage_create_index_table env grn_table_name grn_table k cat;
     (case r of
        Inl e \<Rightarrow> Some (Some e, None, None, cat1)
      | Inr t \<Rightarrow> do {
          (c, cat2) \<leftarrow> column_create env t (if custom_lexicon k \<noteq> None then k_name k else ''index'') (index_column_flags env t k cat1) grn_table cat1;
          (case c of
             None \<Rightarrow> do { cat3 \<leftarrow> grn_obj_remove env t cat2; Some (Some ER_CANT_CREATE_TABLE, Some t, None, cat3) }
           | Some col \<Rightarrow> do { cat3 \<leftarrow> set_index_sources env grn_table col k cat2; Some (None, Some t, Some col, cat3) }) }) }"

definition storage_create_index ::
    "catalog_env \<Rightarrow> string \<Rightarrow> string \<Rightarrow> nat \<Rightarrow> new_key \<Rightarrow> catalog \<Rightarrow> (create_error option \<times> nat option \<times> nat option \<times> catalog) option" where
  "storage_create_index env mysql_name grn_table_name grn_table k cat =
     (if \<not> multiple k \<and> (is_id (first_field k) \<or> is_foreign_key_field env cat mysql_name (field_name (nf_field (first_field k))))
      then Some (None, None, None, cat)
      else if \<exists>p\<in>set (k_parts k). nf_virtual (fst p) then Some (Some ER_MRN_KEY_BASED_ON_GENERATED_VIRTUAL_COLUMN, None, None, cat)
      else if system_encoding env \<noteq> 0 then Some (Some (ER_ENCODING (system_encoding env)), None, None, cat)
      else create_index_objects env grn_table_name grn_table k cat)"

text \<open>The keys in their order, with the index tables so far; the primary key and disabled keys have none.\<close>

fun create_indexes_loop ::
    "catalog_env \<Rightarrow> new_table \<Rightarrow> nat \<Rightarrow> (nat \<times> new_key) list \<Rightarrow> (new_key \<times> nat option) list \<Rightarrow> catalog
     \<Rightarrow> (create_error option \<times> (new_key \<times> nat option) list \<times> catalog) option" where
  "create_indexes_loop env tb grn_table [] index_tables cat = Some (None, index_tables, cat)"
| "create_indexes_loop env tb grn_table ((i, k) # ks) index_tables cat =
     (if t_primary tb = Some i \<or> (t_disable_keys tb \<and> \<not> k_nosame k)
      then create_indexes_loop env tb grn_table ks (index_tables @ [(k, None)]) cat
      else do {
        (e, t, c, cat1) \<leftarrow> storage_create_index env (t_mysql_name tb) (t_name tb) grn_table k cat;
        (case e of
           None \<Rightarrow> create_indexes_loop env tb grn_table ks (index_tables @ [(k, t)]) cat1
         | Some _ \<Rightarrow> Some (e, index_tables @ [(k, t)], cat1)) })"

primrec remove_index_tables :: "catalog_env \<Rightarrow> (new_key \<times> nat option) list \<Rightarrow> catalog \<Rightarrow> catalog option" where
  "remove_index_tables env [] cat = Some cat"
| "remove_index_tables env (x # xs) cat =
     (case snd x of
        Some t \<Rightarrow> if custom_lexicon (fst x) = None then do { cat1 \<leftarrow> grn_obj_remove env t cat; remove_index_tables env xs cat1 }
                  else remove_index_tables env xs cat
      | None \<Rightarrow> remove_index_tables env xs cat)"

definition storage_create_indexes :: "catalog_env \<Rightarrow> new_table \<Rightarrow> nat \<Rightarrow> catalog \<Rightarrow> (create_error option \<times> catalog) option" where
  "storage_create_indexes env tb grn_table cat = do {
     (e, index_tables, cat1) \<leftarrow> create_indexes_loop env tb grn_table (enumerate 0 (t_keys tb)) [] cat;
     (if e = None then Some (None, cat1) else do { cat2 \<leftarrow> remove_index_tables env index_tables cat1; Some (e, cat2) }) }"


section \<open>Columns and tables\<close>

definition find_column_type :: "catalog_env \<Rightarrow> new_field \<Rightarrow> catalog \<Rightarrow> nat option" where
  "find_column_type env f cat =
     (case (case nf_custom_type f of Some nm \<Rightarrow> Some nm | None \<Rightarrow> col_type (nf_params f)) of
        Some nm \<Rightarrow> ctx_get cat nm
      | None \<Rightarrow> Some (builtin_type env (mrn_grn_type_from_field (nf_value f) False)))"

definition column_flags :: "catalog_env \<Rightarrow> new_field \<Rightarrow> 32 word" where
  "column_flags env f =
     (let st = find_column_flags (ca_flags env) (nf_custom_flags f) (col_flags (nf_params f)) (fbits env GRN_OBJ_PERSISTENT)
      in if found st then flags st else flags st OR fbits env GRN_OBJ_COLUMN_SCALAR)"

definition normalized_name :: "dictionary \<Rightarrow> string \<Rightarrow> string" where
  "normalized_name d nm = (if lower_case_table_names d then casedn d nm else nm)"

text \<open>The column and the index column of a foreign key that refers to the table \<open>ref\<close>. In this and the next function the result is whether a
  column was created, and the error.\<close>

definition create_foreign_key_columns ::
    "catalog_env \<Rightarrow> string \<Rightarrow> string \<Rightarrow> nat \<Rightarrow> nat \<Rightarrow> catalog \<Rightarrow> ((bool \<times> create_error option) \<times> catalog) option" where
  "create_foreign_key_columns env grn_table_name field table_obj ref cat = do {
     (c, cat1) \<leftarrow> column_create env table_obj field (fbits env GRN_OBJ_COLUMN_SCALAR OR fbits env GRN_OBJ_PERSISTENT) ref cat;
     (case c of
        None \<Rightarrow> Some ((False, Some ER_CANT_CREATE_TABLE), cat1)
      | Some column \<Rightarrow> do {
          (ic, cat2) \<leftarrow> column_create env ref (IndexColumnName (ca_mb_wc env) (ca_wc_mb env) (max_key_size env) grn_table_name field)
            (fbits env GRN_OBJ_COLUMN_INDEX OR fbits env GRN_OBJ_PERSISTENT) table_obj cat1;
          (case ic of
             None \<Rightarrow> Some ((False, Some ER_CANT_CREATE_TABLE), cat2)
           | Some column_ref \<Rightarrow> do {
               cat3 \<leftarrow> grn_obj_set_info column_ref (\<lambda>ob. ob\<lparr>o_sources := [column]\<rparr>) cat2;
               Some ((True, None), cat3) }) }) }"

fun storage_create_foreign_key ::
    "catalog_env \<Rightarrow> dictionary \<Rightarrow> string \<Rightarrow> string \<Rightarrow> string \<Rightarrow> nat \<Rightarrow> key_spec list \<Rightarrow> catalog \<Rightarrow> ((bool \<times> create_error option) \<times> catalog) option" where
  "storage_create_foreign_key env d db grn_table_name field table_obj [] cat = Some ((False, None), cat)"
| "storage_create_foreign_key env d db grn_table_name field table_obj (ks # specs) cat =
     (if \<not> ks_foreign ks then storage_create_foreign_key env d db grn_table_name field table_obj specs cat
      else if length (ks_columns ks) > 1 then Some ((False, Some ER_CANT_CREATE_TABLE), cat)
      else if ks_columns ks \<noteq> [field] \<or> ks_ref_columns ks = [] then storage_create_foreign_key env d db grn_table_name field table_obj specs cat
      else if length (ks_ref_db ks) > 0 \<and> normalized_name d (ks_ref_db ks) \<noteq> db then Some ((False, Some ER_CANT_CREATE_TABLE), cat)
      else if system_encoding env \<noteq> 0 then Some ((False, Some (ER_ENCODING (system_encoding env))), cat)
      else (let ref_path = build_table_filename d db (normalized_name d (ks_ref_table ks)) in
        (case ctx_get cat (fst (table_name (PathMapper ref_path (prefix_path d) (home_path d)))) of
           None \<Rightarrow> Some ((False, Some ER_CANT_CREATE_TABLE), cat)
         | Some ref \<Rightarrow>
             if Option.bind (tmp_table_share d ref_path) (\<lambda>primary_key. primary_key) \<noteq> Some [hd (ks_ref_columns ks)]
             then Some ((False, Some ER_CANT_CREATE_TABLE), cat)
             else create_foreign_key_columns env grn_table_name field table_obj ref cat)))"

text \<open>One column; an error removes the table.\<close>

definition create_column :: "catalog_env \<Rightarrow> dictionary \<Rightarrow> new_table \<Rightarrow> nat \<Rightarrow> new_field \<Rightarrow> catalog \<Rightarrow> (create_error option \<times> catalog) option" where
  "create_column env d tb table_obj f cat =
     (if is_id f then Some (None, cat)
      else do {
        ((is_created, error), cat1) \<leftarrow> storage_create_foreign_key env d (t_db tb) (t_name tb) (field_name (nf_field f)) table_obj (t_specs tb) cat;
        (if is_created then Some (None, cat1)
         else if error \<noteq> None then do { cat2 \<leftarrow> grn_obj_remove env table_obj cat1; Some (error, cat2) }
         else if nf_virtual f then Some (None, cat1)
         else (case find_column_type env f cat1 of
             None \<Rightarrow> do { cat2 \<leftarrow> grn_obj_remove env table_obj cat1; Some (Some ER_CANT_CREATE_TABLE, cat2) }
           | Some ty \<Rightarrow> do {
               (c, cat2) \<leftarrow> column_create env table_obj (column_name env (field_name (nf_field f))) (column_flags env f) ty cat1;
               (if c = None then do { cat3 \<leftarrow> grn_obj_remove env table_obj cat2; Some (Some ER_CANT_CREATE_TABLE, cat3) }
                else Some (None, cat2)) })) })"

primrec create_columns :: "catalog_env \<Rightarrow> dictionary \<Rightarrow> new_table \<Rightarrow> nat \<Rightarrow> new_field list \<Rightarrow> catalog \<Rightarrow> (create_error option \<times> catalog) option" where
  "create_columns env d tb table_obj [] cat = Some (None, cat)"
| "create_columns env d tb table_obj (f # fs) cat = do {
     (e, cat1) \<leftarrow> create_column env d tb table_obj f cat;
     (if e \<noteq> None then Some (e, cat1) else create_columns env d tb table_obj fs cat1) }"

definition new_table_type :: "catalog_env \<Rightarrow> new_table \<Rightarrow> 32 word \<times> nat option" where
  "new_table_type env tb =
     (let persistent = fbits env GRN_OBJ_PERSISTENT; no_key = (persistent OR fbits env GRN_OBJ_TABLE_NO_KEY, None) in
      case t_primary tb of
        None \<Rightarrow> no_key
      | Some n \<Rightarrow>
          (let k = t_keys tb ! n in
           if \<not> multiple k \<and> is_id (first_field k) then no_key
           else (let st = find_table_flags (ca_flags env) (to_flags (t_options tb)) (table_flags (t_params tb)) persistent in
             (if found st then flags st
              else flags st OR fbits env (if k_algorithm k = HA_KEY_ALG_HASH then GRN_OBJ_TABLE_HASH_KEY else GRN_OBJ_TABLE_PAT_KEY),
              Some (builtin_type env (if multiple k then GRN_DB_SHORT_TEXT else mrn_grn_type_from_field (nf_value (first_field k)) False))))))"

definition first_given :: "'a option list \<Rightarrow> 'a option" where
  "first_given xs = Option.bind (find (\<lambda>x. x \<noteq> None) xs) (\<lambda>x. x)"

definition set_table_lexicon :: "catalog_env \<Rightarrow> new_table \<Rightarrow> 32 word \<Rightarrow> nat \<Rightarrow> catalog \<Rightarrow> catalog option" where
  "set_table_lexicon env tb fs table_obj cat =
     (case t_primary tb of
        None \<Rightarrow> Some cat
      | Some n \<Rightarrow>
          (let k = t_keys tb ! n; opts = t_options tb; ps = t_params tb in
           if fs AND flag_mask (ca_flags env) = fbits env GRN_OBJ_TABLE_NO_KEY \<or> multiple k then Some cat
           else do {
             cat1 \<leftarrow> (case first_given [to_normalizer opts, normalizer_param ps] of
                Some nz \<Rightarrow> set_normalizer env table_obj (nf_field (first_field k)) (Some nz) cat
              | None \<Rightarrow> if should_normalize_index (nf_field (first_field k)) False then set_key_normalizer env table_obj k cat else Some cat);
             cat2 \<leftarrow> (case first_given [to_tokenizer opts, tokenizer_param ps, default_tokenizer ps] of
                Some tok \<Rightarrow> set_tokenizer env table_obj tok cat1 | None \<Rightarrow> Some cat1);
             (case first_given [to_token_filters opts, table_params.token_filters ps] of
                Some tf \<Rightarrow> set_token_filters env table_obj tf cat2 | None \<Rightarrow> Some cat2) }))"

text \<open>What is checked before anything is created.\<close>

definition create_check :: "catalog_env \<Rightarrow> dictionary \<Rightarrow> new_table \<Rightarrow> create_error option" where
  "create_check env d tb =
     (case storage_create_validate_pseudo_column (t_fields tb) of Some e \<Rightarrow> Some e | None \<Rightarrow>
      case storage_create_validate_index (t_keys tb) of Some e \<Rightarrow> Some e | None \<Rightarrow>
      if open_database d \<noteq> 0 then Some (ER_CANT_OPEN_DATABASE (open_database d))
      else if system_encoding env \<noteq> 0 then Some (ER_ENCODING (system_encoding env))
      else None)"

text \<open>What is created in a new table.\<close>

definition fill_table :: "catalog_env \<Rightarrow> dictionary \<Rightarrow> new_table \<Rightarrow> 32 word \<Rightarrow> nat \<Rightarrow> catalog \<Rightarrow> (create_error option \<times> catalog) option" where
  "fill_table env d tb fs table_obj cat = do {
     cat1 \<leftarrow> set_table_lexicon env tb fs table_obj cat;
     (e, cat2) \<leftarrow> create_columns env d tb table_obj (t_fields tb) cat1;
     (if e \<noteq> None then Some (e, cat2)
      else do {
        (e', cat3) \<leftarrow> storage_create_indexes env tb table_obj cat2;
        (if e' \<noteq> None then do { cat4 \<leftarrow> grn_obj_remove env table_obj cat3; Some (e', cat4) } else Some (None, cat3)) }) }"

definition storage_create :: "catalog_env \<Rightarrow> dictionary \<Rightarrow> new_table \<Rightarrow> catalog \<Rightarrow> (create_error option \<times> catalog) option" where
  "storage_create env d tb cat =
     (case create_check env d tb of
        Some e \<Rightarrow> Some (Some e, cat)
      | None \<Rightarrow> do {
          (r, cat1) \<leftarrow> table_create env (t_name tb) (fst (new_table_type env tb)) (snd (new_table_type env tb)) cat;
          (case r of
             None \<Rightarrow> Some (Some ER_CANT_CREATE_TABLE, cat1)
           | Some table_obj \<Rightarrow> fill_table env d tb (fst (new_table_type env tb)) table_obj cat1) })"


section \<open>Adding indexes to a table\<close>

text \<open>\<open>duplicates\<close> says that a unique index of one column has fewer entries than the table has records, \<open>fill\<close> is the
  error of \<^verbatim>\<open>storage_add_index_multiple_columns\<close>.\<close>

fun add_indexes_loop ::
    "catalog_env \<Rightarrow> (new_key \<Rightarrow> bool) \<Rightarrow> new_table \<Rightarrow> nat \<Rightarrow> new_key list \<Rightarrow> (new_key \<times> nat option \<times> nat option) list \<Rightarrow> catalog
     \<Rightarrow> (create_error option \<times> (new_key \<times> nat option \<times> nat option) list \<times> catalog) option" where
  "add_indexes_loop env duplicates tb grn_table [] added cat = Some (None, added, cat)"
| "add_indexes_loop env duplicates tb grn_table (k # ks) added cat =
     (if t_disable_keys tb \<and> \<not> k_nosame k then add_indexes_loop env duplicates tb grn_table ks added cat
      else do {
        (e, t, c, cat1) \<leftarrow> storage_create_index env (t_mysql_name tb) (t_name tb) grn_table k cat;
        (let added' = added @ [(k, t, c)] in
         if e \<noteq> None then Some (e, added', cat1)
         else if \<not> multiple k \<and> k_nosame k \<and> duplicates k then Some (Some HA_ERR_FOUND_DUPP_UNIQUE, added', cat1)
         else add_indexes_loop env duplicates tb grn_table ks added' cat1) })"

primrec remove_added_indexes :: "catalog_env \<Rightarrow> (new_key \<times> nat option \<times> nat option) list \<Rightarrow> catalog \<Rightarrow> catalog option" where
  "remove_added_indexes env [] cat = Some cat"
| "remove_added_indexes env (x # xs) cat =
     (case snd x of
        (Some t, c) \<Rightarrow> do {
          cat1 \<leftarrow> (case c of None \<Rightarrow> Some cat | Some col \<Rightarrow> grn_obj_remove env col cat);
          cat2 \<leftarrow> grn_obj_remove env t cat1;
          remove_added_indexes env xs cat2 }
      | (None, c) \<Rightarrow> remove_added_indexes env xs cat)"

definition storage_inplace_alter_table_add_index ::
    "catalog_env \<Rightarrow> (new_key \<Rightarrow> bool) \<Rightarrow> create_error option \<Rightarrow> new_table \<Rightarrow> nat \<Rightarrow> new_key list \<Rightarrow> catalog \<Rightarrow> (bool \<times> catalog) option" where
  "storage_inplace_alter_table_add_index env duplicates fill tb grn_table ks cat =
     (if storage_create_validate_index ks \<noteq> None then Some (True, cat)
      else do {
        (e, added, cat1) \<leftarrow> add_indexes_loop env duplicates tb grn_table ks [] cat;
        (let error = (if e = None \<and> (\<exists>(k, t, c)\<in>set added. multiple k \<and> k_algorithm k \<noteq> HA_KEY_ALG_FULLTEXT) then fill else e) in
         if error = None then Some (False, cat1)
         else do { cat2 \<leftarrow> remove_added_indexes env added cat1; Some (True, cat2) }) })"

section \<open>Objects that are new\<close>

text \<open>Beside the objects \<open>base\<close> there are only objects with handles from \<open>n\<close> on, which are the tables of a set or their columns.\<close>

definition old_entry :: "nat \<Rightarrow> nat \<times> grn_object \<Rightarrow> bool" where
  "old_entry n x \<longleftrightarrow> fst x < n \<and> (\<forall>d. o_domain (snd x) = Some d \<longrightarrow> d < n) \<and> (\<forall>s\<in>set (o_sources (snd x)). s < n)"

definition new_entry :: "nat \<Rightarrow> nat \<Rightarrow> nat set \<Rightarrow> nat \<times> grn_object \<Rightarrow> bool" where
  "new_entry n m tabs x \<longleftrightarrow> n \<le> fst x \<and> fst x < m \<and> (fst x \<in> tabs \<or> (\<exists>d\<in>tabs. o_domain (snd x) = Some d))"

definition new_only :: "nat \<Rightarrow> (nat \<times> grn_object) list \<Rightarrow> nat set \<Rightarrow> catalog \<Rightarrow> bool" where
  "new_only n base tabs cat \<longleftrightarrow> n \<le> next_object cat \<and> distinct (map fst (objects cat)) \<and> (\<forall>x\<in>set base. old_entry n x)
     \<and> (\<exists>new. objects cat = new @ base \<and> (\<forall>x\<in>set new. new_entry n (next_object cat) tabs x))"

lemma new_onlyI:
  "\<lbrakk>objects cat = new @ base; n \<le> next_object cat; distinct (map fst (objects cat)); \<forall>x\<in>set base. old_entry n x;
    \<forall>x\<in>set new. new_entry n (next_object cat) tabs x\<rbrakk> \<Longrightarrow> new_only n base tabs cat"
  unfolding new_only_def by blast

lemma new_onlyE:
  assumes "new_only n base tabs cat"
  obtains new where "objects cat = new @ base" "n \<le> next_object cat" "distinct (map fst (objects cat))" "\<forall>x\<in>set base. old_entry n x"
    "\<forall>x\<in>set new. new_entry n (next_object cat) tabs x"
  using assms unfolding new_only_def by blast

lemma new_entry_mono: "new_entry n m tabs x \<Longrightarrow> m \<le> m' \<Longrightarrow> tabs \<subseteq> tabs' \<Longrightarrow> new_entry n m' tabs' x"
  unfolding new_entry_def by fastforce

lemma new_only_start:
  assumes "catalog_ok cat"
  shows "new_only (next_object cat) (objects cat) tabs cat"
proof (rule new_onlyI [of _ "[]"])
  show "\<forall>x\<in>set (objects cat). old_entry (next_object cat) x"
    using assms unfolding catalog_ok_def old_entry_def by fastforce
qed (use assms in \<open>simp_all add: catalog_ok_def\<close>)

lemma new_only_mono: "new_only n base tabs cat \<Longrightarrow> tabs \<subseteq> tabs' \<Longrightarrow> new_only n base tabs' cat"
  unfolding new_only_def using new_entry_mono by blast

lemma new_only_empty: "new_only n base {} cat \<Longrightarrow> objects cat = base"
  by (elim new_onlyE) (metis append_Nil bex_empty empty_iff last_in_set new_entry_def)

lemma new_only_next: "new_only n base tabs cat \<Longrightarrow> n \<le> next_object cat"
  by (simp add: new_only_def)

lemma create_object_cases:
  assumes "create_object env ob cat = Some (r, cat')"
  obtains "r = None" "cat' = cat"
  | "r = Some (next_object cat)" "cat' = cat\<lparr>objects := (next_object cat, ob) # objects cat, next_object := next_object cat + 1\<rparr>"
proof (cases "refuses env (objects cat) (o_domain ob) (o_name ob)")
  case True
  then show ?thesis using assms that(1) by (simp add: create_object_def split: if_splits)
next
  case False
  then show ?thesis using assms that(2) by (simp add: create_object_def split: if_splits)
qed

lemma new_only_fresh: "new_only n base tabs cat \<Longrightarrow> next_object cat \<notin> fst ` set (objects cat)"
proof (elim new_onlyE, rule notI)
  fix new assume new: "objects cat = new @ base" "n \<le> next_object cat" "\<forall>x\<in>set base. old_entry n x" "\<forall>x\<in>set new. new_entry n (next_object cat) tabs x"
  assume "next_object cat \<in> fst ` set (objects cat)"
  then obtain x where "x \<in> set (objects cat)" and x2: "fst x = next_object cat" by (elim imageE) simp
  then have x: "x \<in> set new \<or> x \<in> set base" unfolding new(1) by simp
  then have "fst x < next_object cat" using new(2-4) unfolding new_entry_def old_entry_def by fastforce
  then show False using x2 by simp
qed

lemma new_only_create:
  assumes "new_only n base tabs cat" "create_object env ob cat = Some (r, cat')" "next_object cat \<in> tabs \<or> (\<exists>d\<in>tabs. o_domain ob = Some d)"
  shows "new_only n base tabs cat'"
  using assms(2)
proof (cases rule: create_object_cases)
  case 2
  obtain new where new: "objects cat = new @ base" "n \<le> next_object cat" "distinct (map fst (objects cat))" "\<forall>x\<in>set base. old_entry n x"
    "\<forall>x\<in>set new. new_entry n (next_object cat) tabs x" using assms(1) by (rule new_onlyE)
  have "new_entry n (next_object cat') tabs (next_object cat, ob)" using assms(3) new(2) 2 by (simp add: new_entry_def)
  moreover have "next_object cat \<le> next_object cat'" using 2 by simp
  then have "\<forall>x\<in>set new. new_entry n (next_object cat') tabs x" using new(5) new_entry_mono [OF _ _ subset_refl] by blast
  moreover have "distinct (map fst (objects cat'))" using new(3) new_only_fresh [OF assms(1)] 2 by simp
  ultimately show ?thesis using new(1,2,4) 2 by (intro new_onlyI [of _ "(next_object cat, ob) # new"]) simp_all
qed (use assms in simp)

definition update_entry :: "nat \<Rightarrow> (grn_object \<Rightarrow> grn_object) \<Rightarrow> nat \<times> grn_object \<Rightarrow> nat \<times> grn_object" where
  "update_entry i f x = (fst x, if fst x = i then f (snd x) else snd x)"

lemma set_info_update: "grn_obj_set_info i f cat = (if alive cat i then Some (cat\<lparr>objects := map (update_entry i f) (objects cat)\<rparr>) else None)"
  unfolding grn_obj_set_info_def by (simp add: update_entry_def [abs_def] case_prod_unfold)

lemma update_keys [simp]: "map (fst \<circ> update_entry i f) xs = map fst xs"
  by (simp add: update_entry_def)

lemma new_only_set_info:
  assumes "new_only n base tabs cat" "grn_obj_set_info i f cat = Some cat'" "n \<le> i" "\<And>ob. o_domain (f ob) = o_domain ob"
  shows "new_only n base tabs cat'"
proof -
  obtain new where new: "objects cat = new @ base" "n \<le> next_object cat" "distinct (map fst (objects cat))" "\<forall>x\<in>set base. old_entry n x"
    "\<forall>x\<in>set new. new_entry n (next_object cat) tabs x" using assms(1) by (rule new_onlyE)
  have cat': "cat' = cat\<lparr>objects := map (update_entry i f) (objects cat)\<rparr>" using assms(2) by (simp add: set_info_update split: if_splits)
  have "map (update_entry i f) base = base"
    using new(4) assms(3) by (intro map_idI) (auto simp: update_entry_def old_entry_def prod_eq_iff)
  moreover have "\<forall>x\<in>set (map (update_entry i f) new). new_entry n (next_object cat) tabs x"
    using new(5) assms(4) by (auto simp: new_entry_def update_entry_def)
  ultimately show ?thesis using new unfolding cat' by (intro new_onlyI [of _ "map (update_entry i f) new"]) simp_all
qed

lemma new_only_remove:
  assumes "removal_promise env" "new_only n base tabs cat" "grn_obj_remove env i cat = Some cat'" "n \<le> i"
  shows "new_only n base (tabs - {i}) cat'"
proof -
  obtain new where new: "objects cat = new @ base" "n \<le> next_object cat" "distinct (map fst (objects cat))" "\<forall>x\<in>set base. old_entry n x"
    "\<forall>x\<in>set new. new_entry n (next_object cat) tabs x" using assms(2) by (rule new_onlyE)
  define R where "R = set (removed_with env (objects cat) i)"
  define P where "P = (\<lambda>x :: nat \<times> grn_object. fst x \<notin> R)"
  have cat': "cat' = cat\<lparr>objects := filter P (objects cat)\<rparr>" and i: "i \<in> fst ` set (objects cat)"
    using assms(3) by (auto simp: grn_obj_remove_def alive_def P_def R_def case_prod_unfold split: if_splits)
  have promise: "i \<in> R" "\<forall>x\<in>set (objects cat). o_domain (snd x) = Some i \<longrightarrow> fst x \<in> R"
    "\<forall>x\<in>set (objects cat). fst x \<in> R \<longrightarrow> fst x = i \<or> o_domain (snd x) = Some i
      \<or> (\<exists>s\<in>set (o_sources (snd x)). s = i \<or> (\<exists>y\<in>set (objects cat). fst y = s \<and> o_domain (snd y) = Some i))"
    using assms(1) new(3) i unfolding removal_promise_def R_def by fastforce+
  have young: "n \<le> fst y" if y: "y \<in> set (objects cat)" "o_domain (snd y) = Some i" for y
  proof (rule ccontr)
    assume "\<not> n \<le> fst y"
    then have "y \<in> set base" using y(1) new(1,5) unfolding new_entry_def by auto
    then show False using new(4) y(2) assms(4) unfolding old_entry_def by fastforce
  qed
  have keep: "P x" if x: "x \<in> set base" for x
  proof (rule ccontr)
    assume "\<not> P x"
    then have "fst x \<in> R" by (simp add: P_def)
    moreover have o: "old_entry n x" "x \<in> set (objects cat)" using x new(1,4) by auto
    ultimately have "fst x = i \<or> o_domain (snd x) = Some i
      \<or> (\<exists>s\<in>set (o_sources (snd x)). s = i \<or> (\<exists>y\<in>set (objects cat). fst y = s \<and> o_domain (snd y) = Some i))" using promise(3) by blast
    then show False using o(1) young assms(4) unfolding old_entry_def by fastforce
  qed
  have "new_entry n (next_object cat) (tabs - {i}) x" if x: "x \<in> set (filter P new)" for x
  proof -
    have e: "new_entry n (next_object cat) tabs x" "x \<in> set (objects cat)" "fst x \<notin> R" using x new(1,5) by (auto simp: P_def)
    then have "fst x \<noteq> i" "o_domain (snd x) \<noteq> Some i" using promise(1,2) by auto
    then show ?thesis using e(1) unfolding new_entry_def by auto
  qed
  moreover have "filter P base = base" using keep by (simp add: filter_id_conv)
  moreover have "distinct (map fst (filter P (objects cat)))" using new(3) by (simp add: distinct_map_filter)
  ultimately show ?thesis using new(1,2,4) unfolding cat' by (intro new_onlyI [of _ "filter P new"]) simp_all
qed

text \<open>Changes that keep to new objects.\<close>

definition keeps :: "nat \<Rightarrow> (catalog \<Rightarrow> catalog option) \<Rightarrow> bool" where
  "keeps n f \<longleftrightarrow> (\<forall>base tabs cat cat'. new_only n base tabs cat \<longrightarrow> f cat = Some cat' \<longrightarrow> new_only n base tabs cat')"

named_theorems keep_rules

lemma keeps_Some [keep_rules]: "keeps n Some"
  by (simp add: keeps_def)

lemma keeps_bind [keep_rules]: "keeps n f \<Longrightarrow> keeps n g \<Longrightarrow> keeps n (\<lambda>cat. f cat \<bind> g)"
  unfolding keeps_def by (metis bind_eq_Some_conv)

lemma keeps_set_info [keep_rules]: "n \<le> i \<Longrightarrow> (\<And>ob. o_domain (f ob) = o_domain ob) \<Longrightarrow> keeps n (grn_obj_set_info i f)"
  unfolding keeps_def using new_only_set_info by blast

lemma keeps_if [keep_rules]: "(c \<Longrightarrow> keeps n f) \<Longrightarrow> (\<not> c \<Longrightarrow> keeps n g) \<Longrightarrow> keeps n (\<lambda>cat. if c then f cat else g cat)"
  by (cases c) simp_all

lemma keeps_option [keep_rules]: "keeps n f \<Longrightarrow> (\<And>x. keeps n (g x)) \<Longrightarrow> keeps n (\<lambda>cat. case a of None \<Rightarrow> f cat | Some x \<Rightarrow> g x cat)"
  by (cases a) simp_all

lemma keeps_set_tokenizer [keep_rules]: "n \<le> i \<Longrightarrow> keeps n (set_tokenizer env i tok)"
  unfolding set_tokenizer_def [abs_def] by (intro keep_rules) simp_all

lemma keeps_set_normalizer [keep_rules]: "n \<le> i \<Longrightarrow> keeps n (set_normalizer env i f nz)"
  unfolding set_normalizer_def [abs_def] Let_def by (intro keep_rules) simp_all

lemma keeps_set_token_filters [keep_rules]: "n \<le> i \<Longrightarrow> keeps n (set_token_filters env i tf)"
  unfolding set_token_filters_def [abs_def] by (intro keep_rules) simp_all

lemma keeps_key_settings [keep_rules]:
  assumes "n \<le> i"
  shows "keeps n (set_key_tokenizer env i k)" "keeps n (set_key_normalizer env i k)" "keeps n (set_key_token_filters env i k)"
  unfolding set_key_tokenizer_def set_key_normalizer_def set_key_token_filters_def [abs_def]
  by (intro keep_rules assms)+

lemma keeps_index_table_settings: "n \<le> i \<Longrightarrow> keeps n (index_table_settings env i k)"
  unfolding index_table_settings_def [abs_def] Let_def by (intro keep_rules)

lemma keeps_sources: "n \<le> col \<Longrightarrow> new_only n base tabs cat \<Longrightarrow> set_index_sources env g col k cat = Some cat' \<Longrightarrow> new_only n base tabs cat'"
  unfolding set_index_sources_def Let_def
  by (auto split: if_splits option.splits elim!: new_only_set_info)

lemma keepsD: "keeps n f \<Longrightarrow> new_only n base tabs cat \<Longrightarrow> f cat = Some cat' \<Longrightarrow> new_only n base tabs cat'"
  by (simp add: keeps_def)

text \<open>New tables and columns.\<close>

lemma table_create_new:
  assumes "new_only n base tabs cat" "table_create env nm fs ty cat = Some (r, cat')"
  shows "r = None \<Longrightarrow> cat' = cat" "r = Some t \<Longrightarrow> n \<le> t \<and> new_only n base (insert t tabs) cat'"
proof -
  show "r = None \<Longrightarrow> cat' = cat" using assms(2) unfolding table_create_def by (cases rule: create_object_cases) auto
  assume r: "r = Some t"
  have t: "t = next_object cat" using assms(2) unfolding table_create_def by (cases rule: create_object_cases) (simp_all add: r)
  have "new_only n base (insert t tabs) cat" using new_only_mono [OF assms(1)] by blast
  then show "n \<le> t \<and> new_only n base (insert t tabs) cat'"
    using new_only_create [OF _ assms(2) [unfolded table_create_def]] new_only_next [OF assms(1)] t by auto
qed

lemma column_create_new:
  assumes "new_only n base tabs cat" "column_create env t nm fs ty cat = Some (r, cat')" "t \<in> tabs"
  shows "new_only n base tabs cat'" "r = Some c \<Longrightarrow> n \<le> c"
proof -
  show "new_only n base tabs cat'"
    using new_only_create [OF assms(1) assms(2) [unfolded column_create_def]] assms(3) by (simp add: new_object_def)
  show "r = Some c \<Longrightarrow> n \<le> c"
    using assms(2) new_only_next [OF assms(1)] unfolding column_create_def by (cases rule: create_object_cases) auto
qed

lemma index_table_new:
  assumes "removal_promise env" "new_only n base tabs cat" "n \<le> g" "custom_lexicon k = None"
    and "storage_create_index_table env gn g k cat = Some (r, cat')"
  shows "case r of Inl e \<Rightarrow> new_only n base (tabs - {g}) cat' | Inr t \<Rightarrow> n \<le> t \<and> new_only n base (insert t tabs) cat'"
proof -
  define error where "error = (if k_algorithm k = HA_KEY_ALG_FULLTEXT then field_encoding env (nf_field (first_field k)) else 0)"
  define ty where "ty = builtin_type env (if multiple k then GRN_DB_SHORT_TEXT else mrn_grn_type_from_field (nf_value (first_field k)) True)"
  define nm where "nm = index_table_name.name (IndexTableName (ca_mb_wc env) (ca_wc_mb env) (max_key_size env) gn (k_name k))"
  have eq: "storage_create_index_table env gn g k cat =
     (if error \<noteq> 0 then do { cat1 \<leftarrow> grn_obj_remove env g cat; Some (Inl (ER_ENCODING error), cat1) }
      else do { (r, cat1) \<leftarrow> table_create env nm (index_table_flags env k) (Some ty) cat;
             (case r of None \<Rightarrow> do { cat2 \<leftarrow> grn_obj_remove env g cat1; Some (Inl ER_CANT_CREATE_TABLE, cat2) }
              | Some t \<Rightarrow> do { cat2 \<leftarrow> index_table_settings env t k cat1; Some (Inr t, cat2) }) })"
    using assms(4) by (simp add: storage_create_index_table_def error_def ty_def nm_def Let_def)
  note remove = new_only_remove [OF assms(1,2) _ assms(3)]
  show ?thesis
  proof (cases "error = 0")
    case False
    then show ?thesis using assms(5) remove unfolding eq by (auto simp: bind_eq_Some_conv)
  next
    case True
    then obtain q cat1 where q: "table_create env nm (index_table_flags env k) (Some ty) cat = Some (q, cat1)"
      "(case q of None \<Rightarrow> do { cat2 \<leftarrow> grn_obj_remove env g cat1; Some (Inl ER_CANT_CREATE_TABLE, cat2) }
              | Some t \<Rightarrow> do { cat2 \<leftarrow> index_table_settings env t k cat1; Some (Inr t, cat2) }) = Some (r, cat')"
      using assms(5) unfolding eq by (auto simp: bind_eq_Some_conv)
    note new = table_create_new [OF assms(2) q(1)]
    show ?thesis
    proof (cases q)
      case None
      then show ?thesis using q(2) remove new(1) by (auto simp: bind_eq_Some_conv)
    next
      case (Some t)
      then show ?thesis using q(2) keepsD [OF keeps_index_table_settings] new(2) by (auto simp: bind_eq_Some_conv)
    qed
  qed
qed

lemma create_index_cases:
  assumes "storage_create_index env mn gn g k cat = Some (e, t, c, cat')"
  obtains "t = None" "cat' = cat" | "create_index_objects env gn g k cat = Some (e, t, c, cat')"
  using assms unfolding storage_create_index_def by (simp split: if_splits)

lemma create_index_objects_new:
  assumes "removal_promise env" "new_only n base tabs cat" "n \<le> g" "custom_lexicon k = None"
    and "create_index_objects env gn g k cat = Some (e, t, c, cat')"
  shows "new_only n base (tabs \<union> set_option t) cat' \<and> (\<forall>x\<in>set_option t. n \<le> x)"
proof -
  obtain r cat1 where r: "storage_create_index_table env gn g k cat = Some (r, cat1)"
    using assms(5) by (auto simp: create_index_objects_def bind_eq_Some_conv)
  note tab = index_table_new [OF assms(1-4) r]
  show ?thesis
  proof (cases r)
    case (Inl e')
    then have "t = None \<and> cat' = cat1" using assms(5) r by (simp add: create_index_objects_def)
    then show ?thesis using tab Inl new_only_mono [of n base "tabs - {g}" cat1 tabs] by auto
  next
    case (Inr x)
    then have x: "n \<le> x" "new_only n base (insert x tabs) cat1" using tab by simp_all
    obtain q cat2 where q: "column_create env x ''index'' (index_column_flags env x k cat1) g cat1 = Some (q, cat2)"
      "(case q of
                None \<Rightarrow> do { cat3 \<leftarrow> grn_obj_remove env x cat2; Some (Some ER_CANT_CREATE_TABLE, Some x, None, cat3) }
              | Some col \<Rightarrow> do { cat3 \<leftarrow> set_index_sources env g col k cat2; Some (None, Some x, Some col, cat3) }) = Some (e, t, c, cat')"
      using assms(4,5) r Inr by (auto simp: create_index_objects_def bind_eq_Some_conv)
    note col = column_create_new [OF x(2) q(1) insertI1]
    have "t = Some x" using q(2) by (cases q) (auto simp: bind_eq_Some_conv)
    moreover have "new_only n base (insert x tabs) cat'"
    proof (cases q)
      case None
      then have "grn_obj_remove env x cat2 = Some cat'" using q(2) by (auto simp: bind_eq_Some_conv)
      then show ?thesis using new_only_mono [OF new_only_remove [OF assms(1) col(1) _ x(1)]] by blast
    next
      case (Some y)
      then have "set_index_sources env g y k cat2 = Some cat'" using q(2) by (auto simp: bind_eq_Some_conv)
      then show ?thesis using keeps_sources [OF col(2) col(1)] Some by blast
    qed
    ultimately show ?thesis using x(1) by simp
  qed
qed

lemma create_index_new:
  assumes "removal_promise env" "new_only n base tabs cat" "n \<le> g" "custom_lexicon k = None"
    and "storage_create_index env mn gn g k cat = Some (e, t, c, cat')"
  shows "new_only n base (tabs \<union> set_option t) cat' \<and> (\<forall>x\<in>set_option t. n \<le> x)"
  using assms(5)
proof (cases rule: create_index_cases)
  case 1
  then show ?thesis using assms(2) by simp
next
  case 2
  then show ?thesis by (rule create_index_objects_new [OF assms(1-4)])
qed

definition handles :: "(new_key \<times> nat option) list \<Rightarrow> nat set" where
  "handles its = (\<Union>x\<in>set its. set_option (snd x))"

lemma handles_simps [simp]: "handles [] = {}" "handles (x # xs) = set_option (snd x) \<union> handles xs" "handles (xs @ ys) = handles xs \<union> handles ys"
  by (auto simp: handles_def)

lemma create_indexes_new:
  assumes "removal_promise env" "n \<le> g" "\<forall>x\<in>set ks. custom_lexicon (snd x) = None" "\<forall>x\<in>set its. custom_lexicon (fst x) = None"
    and "new_only n base (tabs \<union> handles its) cat" "\<forall>x\<in>handles its. n \<le> x"
    and "create_indexes_loop env tb g ks its cat = Some (e, its', cat')"
  shows "new_only n base (tabs \<union> handles its') cat' \<and> (\<forall>x\<in>handles its'. n \<le> x) \<and> (\<forall>x\<in>set its'. custom_lexicon (fst x) = None)"
  using assms(3-7)
proof (induction ks arbitrary: its cat)
  case (Cons x ks)
  obtain i k where x: "x = (i, k)" by (cases x)
  show ?case
  proof (cases "t_primary tb = Some i \<or> (t_disable_keys tb \<and> \<not> k_nosame k)")
    case True
    then show ?thesis using Cons.prems x by (intro Cons.IH [of "its @ [(k, None)]" cat]) simp_all
  next
    case False
    then obtain e1 t c cat1 where s: "storage_create_index env (t_mysql_name tb) (t_name tb) g k cat = Some (e1, t, c, cat1)"
      "(case e1 of None \<Rightarrow> create_indexes_loop env tb g ks (its @ [(k, t)]) cat1
         | Some _ \<Rightarrow> Some (e1, its @ [(k, t)], cat1)) = Some (e, its', cat')"
      using Cons.prems(5) x by (auto simp: bind_eq_Some_conv)
    have k: "custom_lexicon k = None" using Cons.prems(1) x by simp
    have new: "new_only n base (tabs \<union> handles (its @ [(k, t)])) cat1" "\<forall>x\<in>handles (its @ [(k, t)]). n \<le> x"
      using create_index_new [OF assms(1) Cons.prems(3) assms(2) k s(1)] Cons.prems(4) by (auto simp: Un_assoc)
    have lex: "\<forall>x\<in>set (its @ [(k, t)]). custom_lexicon (fst x) = None" using Cons.prems(2) k by auto
    show ?thesis
    proof (cases e1)
      case None
      then show ?thesis using Cons.prems(1) s(2) by (intro Cons.IH [OF _ lex new]) simp_all
    next
      case (Some _)
      then show ?thesis using s(2) new lex by simp
    qed
  qed
qed simp

lemma remove_index_tables_new:
  assumes "removal_promise env" "\<forall>x\<in>set its. custom_lexicon (fst x) = None" "new_only n base tabs cat" "\<forall>x\<in>handles its. n \<le> x"
    and "remove_index_tables env its cat = Some cat'"
  shows "new_only n base (tabs - handles its) cat'"
  using assms(2-5)
proof (induction its arbitrary: tabs cat)
  case (Cons x its)
  show ?case
  proof (cases "snd x")
    case None
    then show ?thesis using Cons.prems Cons.IH [of tabs cat] by simp
  next
    case (Some t)
    then obtain cat1 where c: "grn_obj_remove env t cat = Some cat1" "remove_index_tables env its cat1 = Some cat'"
      using Cons.prems by (auto simp: bind_eq_Some_conv)
    have "new_only n base (tabs - {t}) cat1" using new_only_remove [OF assms(1) Cons.prems(2) c(1)] Cons.prems(3) Some by simp
    then have "new_only n base (tabs - {t} - handles its) cat'" using Cons.prems(1,3) c(2) by (intro Cons.IH) simp_all
    moreover have "tabs - {t} - handles its = tabs - handles (x # its)" using Some by auto
    ultimately show ?thesis by simp
  qed
qed simp

lemma failed_indexes_new:
  assumes "removal_promise env" "n \<le> g" "\<forall>k\<in>set (t_keys tb). custom_lexicon k = None" "new_only n base {g} cat"
    and "storage_create_indexes env tb g cat = Some (Some e, cat')"
  shows "new_only n base {g} cat'"
proof -
  obtain its cat1 where c: "create_indexes_loop env tb g (enumerate 0 (t_keys tb)) [] cat = Some (Some e, its, cat1)"
    "remove_index_tables env its cat1 = Some cat'"
    using assms(5) by (auto simp: storage_create_indexes_def bind_eq_Some_conv split: if_splits)
  have keys: "\<forall>x\<in>set (enumerate 0 (t_keys tb)). custom_lexicon (snd x) = None" using assms(3) by (auto simp: in_set_enumerate_eq)
  have "new_only n base ({g} \<union> handles its) cat1 \<and> (\<forall>x\<in>handles its. n \<le> x) \<and> (\<forall>x\<in>set its. custom_lexicon (fst x) = None)"
    by (rule create_indexes_new [OF assms(1,2) keys _ _ _ c(1)]) (use assms(4) in simp_all)
  then have "new_only n base ({g} \<union> handles its - handles its) cat'" using remove_index_tables_new [OF assms(1) _ _ _ c(2)] by blast
  then show ?thesis by (rule new_only_mono) blast
qed

lemma no_foreign_keys:
  "\<forall>ks\<in>set specs. \<not> ks_foreign ks \<Longrightarrow> storage_create_foreign_key env d db gn f g specs cat = Some ((False, None), cat)"
  by (induction specs) simp_all

lemma create_column_new:
  assumes "removal_promise env" "n \<le> g" "\<forall>ks\<in>set (t_specs tb). \<not> ks_foreign ks" "new_only n base {g} cat"
    and "create_column env d tb g f cat = Some (e, cat')"
  shows "e = None \<Longrightarrow> new_only n base {g} cat'" "e \<noteq> None \<Longrightarrow> objects cat' = base"
proof -
  have drop: "objects c' = base" if "new_only n base {g} c" "grn_obj_remove env g c = Some c'" for c c'
    using new_only_remove [OF assms(1) that assms(2)] new_only_empty by simp
  have "(e = None \<longrightarrow> new_only n base {g} cat') \<and> (e \<noteq> None \<longrightarrow> objects cat' = base)"
  proof (cases "is_id f \<or> nf_virtual f")
    case True
    then have "e = None \<and> cat' = cat"
      using assms(5) by (cases "is_id f") (simp_all add: create_column_def no_foreign_keys [OF assms(3)])
    then show ?thesis using assms(4) by simp
  next
    case False
    then have body: "(case find_column_type env f cat of
             None \<Rightarrow> do { cat2 \<leftarrow> grn_obj_remove env g cat; Some (Some ER_CANT_CREATE_TABLE, cat2) }
           | Some ty \<Rightarrow> do {
               (c, cat2) \<leftarrow> column_create env g (column_name env (field_name (nf_field f))) (column_flags env f) ty cat;
               (if c = None then do { cat3 \<leftarrow> grn_obj_remove env g cat2; Some (Some ER_CANT_CREATE_TABLE, cat3) }
                else Some (None, cat2)) }) = Some (e, cat')"
      using assms(5) by (simp add: create_column_def no_foreign_keys [OF assms(3)])
    show ?thesis
    proof (cases "find_column_type env f cat")
      case None
      then show ?thesis using body drop [OF assms(4)] by (auto simp: bind_eq_Some_conv)
    next
      case (Some ty)
      then obtain c cat2 where c: "column_create env g (column_name env (field_name (nf_field f))) (column_flags env f) ty cat = Some (c, cat2)"
        "(if c = None then do { cat3 \<leftarrow> grn_obj_remove env g cat2; Some (Some ER_CANT_CREATE_TABLE, cat3) } else Some (None, cat2)) = Some (e, cat')"
        using body by (auto simp: bind_eq_Some_conv)
      have "new_only n base {g} cat2" using column_create_new(1) [OF assms(4) c(1)] by simp
      then show ?thesis using c(2) drop by (auto simp: bind_eq_Some_conv split: if_splits)
    qed
  qed
  then show "e = None \<Longrightarrow> new_only n base {g} cat'" "e \<noteq> None \<Longrightarrow> objects cat' = base" by blast+
qed

lemma create_columns_new:
  assumes "removal_promise env" "n \<le> g" "\<forall>ks\<in>set (t_specs tb). \<not> ks_foreign ks"
  shows "new_only n base {g} cat \<Longrightarrow> create_columns env d tb g fs cat = Some (e, cat')
    \<Longrightarrow> (e = None \<longrightarrow> new_only n base {g} cat') \<and> (e \<noteq> None \<longrightarrow> objects cat' = base)"
proof (induction fs arbitrary: cat)
  case (Cons f fs)
  then obtain e1 cat1 where c: "create_column env d tb g f cat = Some (e1, cat1)"
    "(if e1 \<noteq> None then Some (e1, cat1) else create_columns env d tb g fs cat1) = Some (e, cat')"
    by (auto simp: bind_eq_Some_conv)
  note one = create_column_new [OF assms Cons.prems(1) c(1)]
  show ?case
  proof (cases e1)
    case None
    then show ?thesis using c(2) by (intro Cons.IH [OF one(1)]) simp_all
  next
    case (Some _)
    then show ?thesis using c(2) one(2) by auto
  qed
qed simp

lemma keeps_table_lexicon: "n \<le> g \<Longrightarrow> keeps n (set_table_lexicon env tb fs g)"
  unfolding set_table_lexicon_def [abs_def] Let_def by (intro keep_rules)

lemma storage_create_cases:
  assumes "storage_create env d tb cat = Some (e, cat')"
  obtains "e \<noteq> None" "cat' = cat"
  | g cat1 where "table_create env (t_name tb) (fst (new_table_type env tb)) (snd (new_table_type env tb)) cat = Some (Some g, cat1)"
      "fill_table env d tb (fst (new_table_type env tb)) g cat1 = Some (e, cat')"
proof (cases "create_check env d tb")
  case (Some x)
  then have "e = Some x" "cat' = cat" using assms by (simp_all add: storage_create_def)
  then show ?thesis using that(1) by simp
next
  case None
  then obtain r cat1 where r: "table_create env (t_name tb) (fst (new_table_type env tb)) (snd (new_table_type env tb)) cat = Some (r, cat1)"
    "(case r of None \<Rightarrow> Some (Some ER_CANT_CREATE_TABLE, cat1)
      | Some g \<Rightarrow> fill_table env d tb (fst (new_table_type env tb)) g cat1) = Some (e, cat')"
    using assms by (auto simp: storage_create_def bind_eq_Some_conv)
  show ?thesis
  proof (cases r)
    case None
    have "cat1 = cat" using r(1) unfolding table_create_def by (cases rule: create_object_cases) (simp_all add: None)
    then have "e = Some ER_CANT_CREATE_TABLE" "cat' = cat" using r(2) None by simp_all
    then show ?thesis using that(1) by simp
  next
    case (Some g)
    then show ?thesis using that(2) r by simp
  qed
qed

lemma fill_table_cases:
  assumes "fill_table env d tb fs g cat = Some (e, cat')"
  obtains cat1 x where "set_table_lexicon env tb fs g cat = Some cat1" "create_columns env d tb g (t_fields tb) cat1 = Some (Some x, cat')" "e = Some x"
  | cat1 cat2 x cat3 where "set_table_lexicon env tb fs g cat = Some cat1" "create_columns env d tb g (t_fields tb) cat1 = Some (None, cat2)"
      "storage_create_indexes env tb g cat2 = Some (Some x, cat3)" "grn_obj_remove env g cat3 = Some cat'" "e = Some x"
  | cat1 cat2 where "set_table_lexicon env tb fs g cat = Some cat1" "create_columns env d tb g (t_fields tb) cat1 = Some (None, cat2)"
      "storage_create_indexes env tb g cat2 = Some (None, cat')" "e = None"
  using assms by (auto simp: fill_table_def bind_eq_Some_conv split: if_splits)

end
