(* ===== verification/Created_Tables.thy ===== *)
theory Created_Tables
  imports Table_Creation
begin

text \<open>
  What the creation of a table and the addition of indexes do to the objects of Groonga's database when nothing fails, and the
  faults when the creation of an index fails.
\<close>

section \<open>What a creation creates\<close>

text \<open>Without a removal every object stays, and new ones come.\<close>

lemma create_index_kept:
  assumes "new_only n base UNIV cat" "create_index_objects env gn g k cat = Some (None, t, c, cat')"
  shows "new_only n base UNIV cat'"
proof -
  obtain q cat1 where q: "storage_create_index_table env gn g k cat = Some (q, cat1)"
    using assms(2) by (auto simp: create_index_objects_def bind_eq_Some_conv)
  then obtain t' where t': "q = Inr t'" using assms(2) by (cases q) (auto simp: create_index_objects_def)
  note r = q [unfolded t']
  have "new_only n base UNIV cat1"
  proof (cases "custom_lexicon k")
    case None
    define ty where "ty = builtin_type env (if multiple k then GRN_DB_SHORT_TEXT else mrn_grn_type_from_field (nf_value (first_field k)) True)"
    define nm where "nm = index_table_name.name (IndexTableName (ca_mb_wc env) (ca_wc_mb env) (max_key_size env) gn (k_name k))"
    obtain q cat0 where q: "table_create env nm (index_table_flags env k) (Some ty) cat = Some (q, cat0)"
      "(case q of None \<Rightarrow> do { cat2 \<leftarrow> grn_obj_remove env g cat0; Some (Inl ER_CANT_CREATE_TABLE, cat2) }
        | Some t \<Rightarrow> do { cat2 \<leftarrow> index_table_settings env t k cat0; Some (Inr t, cat2) }) = Some (Inr t', cat1)"
      using r None by (auto simp: storage_create_index_table_def Let_def ty_def nm_def bind_eq_Some_conv split: if_splits)
    then have "q = Some t'" "index_table_settings env t' k cat0 = Some cat1" by (auto simp: bind_eq_Some_conv split: option.splits)
    then show ?thesis using keepsD [OF keeps_index_table_settings] table_create_new(2) [OF assms(1) q(1)] by auto
  next
    case (Some l)
    then have "cat1 = cat" using r by (auto simp: storage_create_index_table_def split: option.splits)
    then show ?thesis using assms(1) by simp
  qed
  then have one: "new_only n base UNIV cat1" .
  obtain p cat2 where p: "column_create env t' (if custom_lexicon k \<noteq> None then k_name k else ''index'') (index_column_flags env t' k cat1) g cat1
      = Some (p, cat2)"
    using assms(2) r by (auto simp: create_index_objects_def bind_eq_Some_conv)
  obtain col where col: "p = Some col"
    using assms(2) r p by (cases p) (auto simp: create_index_objects_def bind_eq_Some_conv)
  have "set_index_sources env g col k cat2 = Some cat'"
    using assms(2) r p col by (auto simp: create_index_objects_def bind_eq_Some_conv)
  then show ?thesis using keeps_sources [OF column_create_new(2) [OF one p UNIV_I col] column_create_new(1) [OF one p UNIV_I]] by blast
qed

lemma create_indexes_kept:
  assumes "new_only n base UNIV cat" "create_indexes_loop env tb g ks its cat = Some (None, its', cat')"
  shows "new_only n base UNIV cat'"
  using assms
proof (induction env tb g ks its cat rule: create_indexes_loop.induct)
  case (2 env tb g i k ks its cat)
  show ?case
  proof (cases "t_primary tb = Some i \<or> (t_disable_keys tb \<and> \<not> k_nosame k)")
    case True
    then show ?thesis using 2(1) [OF True 2(3)] 2(4) by simp
  next
    case False
    then obtain e t c cat1 where s: "storage_create_index env (t_mysql_name tb) (t_name tb) g k cat = Some (e, t, c, cat1)"
      "(case e of None \<Rightarrow> create_indexes_loop env tb g ks (its @ [(k, t)]) cat1 | Some _ \<Rightarrow> Some (e, its @ [(k, t)], cat1)) = Some (None, its', cat')"
      using 2(4) by (auto simp: bind_eq_Some_conv)
    then have e: "e = None" by (cases e) auto
    have "new_only n base UNIV cat1"
      using s(1) unfolding e by (cases rule: create_index_cases) (use 2(3) create_index_kept [OF 2(3)] in auto)
    then show ?thesis using 2(2) [OF False s(1) refl refl refl e] s(2) e by simp
  qed
qed simp

lemma foreign_key_columns_kept:
  assumes "new_only n base UNIV cat" "create_foreign_key_columns env gn f g ref cat = Some (r, cat')"
  shows "new_only n base UNIV cat'"
proof -
  obtain c cat1 where c: "column_create env g f (fbits env GRN_OBJ_COLUMN_SCALAR OR fbits env GRN_OBJ_PERSISTENT) ref cat = Some (c, cat1)"
    using assms(2) by (auto simp: create_foreign_key_columns_def bind_eq_Some_conv)
  note one = column_create_new [OF assms(1) c UNIV_I]
  show ?thesis
  proof (cases c)
    case None
    then show ?thesis using assms(2) c one by (simp add: create_foreign_key_columns_def)
  next
    case (Some column)
    then obtain ic cat2 where ic: "column_create env ref (IndexColumnName (ca_mb_wc env) (ca_wc_mb env) (max_key_size env) gn f)
        (fbits env GRN_OBJ_COLUMN_INDEX OR fbits env GRN_OBJ_PERSISTENT) g cat1 = Some (ic, cat2)"
      "(case ic of None \<Rightarrow> Some ((False, Some ER_CANT_CREATE_TABLE), cat2)
        | Some column_ref \<Rightarrow> do { cat3 \<leftarrow> grn_obj_set_info column_ref (\<lambda>ob. ob\<lparr>o_sources := [column]\<rparr>) cat2; Some ((True, None), cat3) }) = Some (r, cat')"
      using assms(2) c by (auto simp: create_foreign_key_columns_def bind_eq_Some_conv)
    note two = column_create_new [OF one(1) ic(1) UNIV_I]
    show ?thesis
    proof (cases ic)
      case None
      then show ?thesis using ic(2) two by simp
    next
      case (Some x)
      then have "grn_obj_set_info x (\<lambda>ob. ob\<lparr>o_sources := [column]\<rparr>) cat2 = Some cat'" using ic(2) by (auto simp: bind_eq_Some_conv)
      then show ?thesis by (rule new_only_set_info [OF two(1)]) (use two(2) Some in simp_all)
    qed
  qed
qed

lemma foreign_key_kept:
  assumes "new_only n base UNIV cat"
  shows "storage_create_foreign_key env d db gn f g specs cat = Some (r, cat') \<Longrightarrow> new_only n base UNIV cat'"
proof (induction specs)
  case (Cons ks specs)
  then show ?case using assms foreign_key_columns_kept [OF assms] by (auto simp: Let_def split: if_splits option.splits)
qed (use assms in simp)

text \<open>Well-formed catalogs stay well-formed.\<close>

lemma catalog_ok_entries: "catalog_ok cat \<longleftrightarrow> distinct (map fst (objects cat)) \<and> (\<forall>x\<in>set (objects cat). old_entry (next_object cat) x)"
  unfolding catalog_ok_def old_entry_def by (auto simp: case_prod_unfold)

lemma old_entry_mono: "old_entry m x \<Longrightarrow> m \<le> m' \<Longrightarrow> old_entry m' x"
  unfolding old_entry_def by fastforce

lemma alive_below: "catalog_ok cat \<Longrightarrow> alive cat i \<Longrightarrow> i < next_object cat"
  unfolding catalog_ok_entries alive_def old_entry_def by auto

lemma catalog_ok_create:
  assumes "catalog_ok cat" "create_object env ob cat = Some (r, cat')" "o_sources ob = []"
  shows "catalog_ok cat'"
  using assms(2)
proof (cases rule: create_object_cases)
  case 2
  have "handles_alive ob cat" using assms(2) by (simp add: create_object_def split: if_splits)
  then have "\<forall>d. o_domain ob = Some d \<longrightarrow> d < next_object cat" using alive_below [OF assms(1)] by (auto simp: handles_alive_def)
  then have "old_entry (next_object cat') (next_object cat, ob)" using assms(3) 2 by (auto simp: old_entry_def less_Suc_eq)
  moreover have "\<forall>x\<in>set (objects cat). old_entry (next_object cat') x"
    using assms(1) 2 old_entry_mono [of "next_object cat"] unfolding catalog_ok_entries by simp
  moreover have "next_object cat \<notin> fst ` set (objects cat)" using alive_below [OF assms(1)] unfolding alive_def by blast
  ultimately show ?thesis using assms(1) 2 unfolding catalog_ok_entries by simp
qed (use assms in simp)

lemma catalog_ok_set_info:
  assumes "catalog_ok cat" "grn_obj_set_info i f cat = Some cat'" "\<And>ob. o_domain (f ob) = o_domain ob"
    and "\<And>ob. old_entry (next_object cat) (i, ob) \<Longrightarrow> \<forall>s\<in>set (o_sources (f ob)). s < next_object cat"
  shows "catalog_ok cat'"
proof -
  have cat': "cat' = cat\<lparr>objects := map (update_entry i f) (objects cat)\<rparr>" using assms(2) by (simp add: set_info_update split: if_splits)
  have "old_entry (next_object cat) (update_entry i f x)" if "x \<in> set (objects cat)" for x
  proof -
    have x: "old_entry (next_object cat) x" using assms(1) that unfolding catalog_ok_entries by blast
    show ?thesis
    proof (cases "fst x = i")
      case True
      then have "x = (i, snd x)" by (simp add: prod_eq_iff)
      then have "old_entry (next_object cat) (i, f (snd x))"
        using x assms(3) assms(4) [of "snd x"] unfolding old_entry_def by (metis fst_conv snd_conv)
      then show ?thesis using True by (simp add: update_entry_def)
    qed (use x in \<open>simp add: update_entry_def\<close>)
  qed
  then show ?thesis using assms(1) unfolding cat' catalog_ok_entries by simp
qed

lemma setting_ok:
  assumes "catalog_ok cat" "grn_obj_set_info i f cat = Some cat'" "\<And>ob. o_domain (f ob) = o_domain ob" "\<And>ob. o_sources (f ob) = o_sources ob"
  shows "catalog_ok cat'"
  by (rule catalog_ok_set_info [OF assms(1-3)]) (simp add: assms(4) old_entry_def)

definition keeps_ok :: "(catalog \<Rightarrow> catalog option) \<Rightarrow> bool" where
  "keeps_ok f \<longleftrightarrow> (\<forall>cat cat'. catalog_ok cat \<longrightarrow> f cat = Some cat' \<longrightarrow> catalog_ok cat')"

named_theorems ok_rules

lemma keeps_ok_rules [ok_rules]:
  "keeps_ok Some" "keeps_ok f \<Longrightarrow> keeps_ok g \<Longrightarrow> keeps_ok (\<lambda>cat. f cat \<bind> g)"
  "(c \<Longrightarrow> keeps_ok f) \<Longrightarrow> (\<not> c \<Longrightarrow> keeps_ok g) \<Longrightarrow> keeps_ok (\<lambda>cat. if c then f cat else g cat)"
  "keeps_ok f \<Longrightarrow> (\<And>x. keeps_ok (h x)) \<Longrightarrow> keeps_ok (\<lambda>cat. case a of None \<Rightarrow> f cat | Some x \<Rightarrow> h x cat)"
proof -
  show "keeps_ok f \<Longrightarrow> keeps_ok g \<Longrightarrow> keeps_ok (\<lambda>cat. f cat \<bind> g)" unfolding keeps_ok_def by (metis bind_eq_Some_conv)
  show "(c \<Longrightarrow> keeps_ok f) \<Longrightarrow> (\<not> c \<Longrightarrow> keeps_ok g) \<Longrightarrow> keeps_ok (\<lambda>cat. if c then f cat else g cat)" by (cases c) simp_all
  show "keeps_ok f \<Longrightarrow> (\<And>x. keeps_ok (h x)) \<Longrightarrow> keeps_ok (\<lambda>cat. case a of None \<Rightarrow> f cat | Some x \<Rightarrow> h x cat)" by (cases a) simp_all
qed (simp add: keeps_ok_def)

lemma keeps_ok_setting [ok_rules]:
  "(\<And>ob. o_domain (f ob) = o_domain ob) \<Longrightarrow> (\<And>ob. o_sources (f ob) = o_sources ob) \<Longrightarrow> keeps_ok (grn_obj_set_info i f)"
  unfolding keeps_ok_def using setting_ok by blast

lemma keeps_ok_settings [ok_rules]:
  "keeps_ok (set_tokenizer env i tok)" "keeps_ok (set_normalizer env i f nz)" "keeps_ok (set_token_filters env i tf)"
  unfolding set_tokenizer_def [abs_def] set_normalizer_def [abs_def] set_token_filters_def [abs_def] Let_def by (intro ok_rules; simp)+

lemma keeps_ok_key_settings [ok_rules]:
  "keeps_ok (set_key_tokenizer env i k)" "keeps_ok (set_key_normalizer env i k)" "keeps_ok (set_key_token_filters env i k)"
  unfolding set_key_tokenizer_def set_key_normalizer_def set_key_token_filters_def [abs_def] by (intro ok_rules)+

lemma keeps_ok_tables [ok_rules]: "keeps_ok (index_table_settings env i k)" "keeps_ok (set_table_lexicon env tb fs i)"
  unfolding index_table_settings_def [abs_def] set_table_lexicon_def [abs_def] Let_def by (intro ok_rules)+

lemma keeps_okD: "keeps_ok f \<Longrightarrow> catalog_ok cat \<Longrightarrow> f cat = Some cat' \<Longrightarrow> catalog_ok cat'"
  by (simp add: keeps_ok_def)

lemma obj_column_below:
  assumes "catalog_ok cat" "obj_column cat t nm = Some c"
  shows "c < next_object cat"
proof -
  obtain x where "find (\<lambda>(i, ob). o_domain ob = Some t \<and> o_name ob = nm) (objects cat) = Some x" "c = fst x"
    using assms(2) by (auto simp: obj_column_def)
  then have "x \<in> set (objects cat)" "c = fst x" unfolding find_Some_iff using nth_mem by metis+
  then show ?thesis using alive_below [OF assms(1)] unfolding alive_def by simp
qed

lemma sources_ok:
  assumes "catalog_ok cat" "col < next_object cat" "set_index_sources env g col k cat = Some cat'"
  shows "catalog_ok cat'"
proof -
  define source where "source = (\<lambda>f :: new_field. obj_column cat g (column_name env (field_name (nf_field f))))"
  have below: "source f = Some c \<Longrightarrow> c < next_object cat" for f c using obj_column_below [OF assms(1)] unfolding source_def by blast
  have eq: "set_index_sources env g col k cat = (if multiple k then
        (if k_algorithm k = HA_KEY_ALG_FULLTEXT
         then grn_obj_set_info col (\<lambda>ob. ob\<lparr>o_sources := map (\<lambda>p. case source (fst p) of None \<Rightarrow> 0 | Some c \<Rightarrow> c) (k_parts k)\<rparr>) cat
         else Some cat)
      else (case source (first_field k) of None \<Rightarrow> Some cat | Some c \<Rightarrow> grn_obj_set_info col (\<lambda>ob. ob\<lparr>o_sources := [c]\<rparr>) cat))"
    by (simp add: set_index_sources_def source_def Let_def)
  have 1: "catalog_ok cat'" if "grn_obj_set_info col (\<lambda>ob. ob\<lparr>o_sources := ss\<rparr>) cat = Some cat'" "\<forall>s\<in>set ss. s < next_object cat" for ss
    by (rule catalog_ok_set_info [OF assms(1) that(1)]) (use that(2) in simp_all)
  have parts: "\<forall>s\<in>set (map (\<lambda>p. case source (fst p) of None \<Rightarrow> 0 | Some c \<Rightarrow> c) (k_parts k)). s < next_object cat"
    using below assms(2) by (auto split: option.split)
  show ?thesis
    using assms(1,3) 1 [OF _ parts] 1 [of "[c]" for c] below unfolding eq by (auto split: if_splits option.splits)
qed


lemma create_index_objects_made:
  assumes "catalog_ok cat" "create_index_objects env gn g k cat = Some (None, t, c, cat')"
  shows "catalog_ok cat'"
proof -
  obtain q cat1 where q: "storage_create_index_table env gn g k cat = Some (q, cat1)"
    using assms(2) by (auto simp: create_index_objects_def bind_eq_Some_conv)
  then obtain t' where t': "q = Inr t'" using assms(2) by (cases q) (auto simp: create_index_objects_def)
  note r = q [unfolded t']
  have one: "catalog_ok cat1"
  proof (cases "custom_lexicon k")
    case None
    define ty where "ty = builtin_type env (if multiple k then GRN_DB_SHORT_TEXT else mrn_grn_type_from_field (nf_value (first_field k)) True)"
    define nm where "nm = index_table_name.name (IndexTableName (ca_mb_wc env) (ca_wc_mb env) (max_key_size env) gn (k_name k))"
    obtain q cat0 where q: "table_create env nm (index_table_flags env k) (Some ty) cat = Some (q, cat0)"
      "(case q of None \<Rightarrow> do { cat2 \<leftarrow> grn_obj_remove env g cat0; Some (Inl ER_CANT_CREATE_TABLE, cat2) }
        | Some t \<Rightarrow> do { cat2 \<leftarrow> index_table_settings env t k cat0; Some (Inr t, cat2) }) = Some (Inr t', cat1)"
      using r None by (auto simp: storage_create_index_table_def Let_def ty_def nm_def bind_eq_Some_conv split: if_splits)
    then have "index_table_settings env t' k cat0 = Some cat1" by (auto simp: bind_eq_Some_conv split: option.splits)
    moreover have "catalog_ok cat0"
      by (rule catalog_ok_create [OF assms(1) q(1) [unfolded table_create_def]]) (simp add: new_object_def)
    ultimately show ?thesis using keeps_okD [OF keeps_ok_tables(1)] by blast
  next
    case (Some l)
    then have "cat1 = cat" using r by (auto simp: storage_create_index_table_def split: option.splits)
    then show ?thesis using assms(1) by simp
  qed
  obtain p cat2 where p: "column_create env t' (if custom_lexicon k \<noteq> None then k_name k else ''index'') (index_column_flags env t' k cat1) g cat1
      = Some (p, cat2)"
    using assms(2) r by (auto simp: create_index_objects_def bind_eq_Some_conv)
  obtain col where col: "p = Some col"
    using assms(2) r p by (cases p) (auto simp: create_index_objects_def bind_eq_Some_conv)
  have s: "set_index_sources env g col k cat2 = Some cat'"
    using assms(2) r p col by (auto simp: create_index_objects_def bind_eq_Some_conv)
  have two: "catalog_ok cat2" by (rule catalog_ok_create [OF one p [unfolded column_create_def]]) (simp add: new_object_def)
  have "col < next_object cat2" using p unfolding column_create_def by (cases rule: create_object_cases) (use col in simp_all)
  then show ?thesis by (rule sources_ok [OF two _ s])
qed

text \<open>The objects of one column.\<close>

definition column_type_ok :: "catalog_env \<Rightarrow> new_field \<Rightarrow> nat \<Rightarrow> bool" where
  "column_type_ok env f ty \<longleftrightarrow> (nf_custom_type f = None \<longrightarrow> col_type (nf_params f) = None \<longrightarrow> ty = builtin_type env (mrn_grn_type_from_field (nf_value f) False))"

definition column_object :: "catalog_env \<Rightarrow> nat \<Rightarrow> new_field \<Rightarrow> nat \<Rightarrow> grn_object" where
  "column_object env g f ty = new_object (column_name env (field_name (nf_field f))) Grn_column (Some g) (Some ty) (column_flags env f)"

definition column_made :: "catalog_env \<Rightarrow> nat \<Rightarrow> new_field \<Rightarrow> catalog \<Rightarrow> bool" where
  "column_made env g f cat \<longleftrightarrow> (\<exists>i ty. (i, column_object env g f ty) \<in> set (objects cat) \<and> column_type_ok env f ty)"

lemma stored_column_made:
  assumes "catalog_ok cat" "column_create env g (column_name env (field_name (nf_field f))) (column_flags env f) ty cat = Some (Some c, cat')"
    and "find_column_type env f cat = Some ty"
  shows "catalog_ok cat'" "\<exists>new. objects cat' = new @ objects cat" "column_made env g f cat'"
proof -
  have create: "create_object env (column_object env g f ty) cat = Some (Some c, cat')" using assms(2) by (simp add: column_create_def column_object_def)
  show "catalog_ok cat'" by (rule catalog_ok_create [OF assms(1) create]) (simp add: column_object_def new_object_def)
  have new: "objects cat' = [(next_object cat, column_object env g f ty)] @ objects cat" using create by (cases rule: create_object_cases) simp_all
  then show "\<exists>new. objects cat' = new @ objects cat" by blast
  have "column_type_ok env f ty" using assms(3) by (auto simp: find_column_type_def column_type_ok_def)
  moreover have "(next_object cat, column_object env g f ty) \<in> set (objects cat')" using new by simp
  ultimately show "column_made env g f cat'" unfolding column_made_def by blast
qed

lemma create_column_made:
  assumes "catalog_ok cat" "\<forall>ks\<in>set (t_specs tb). \<not> ks_foreign ks" "create_column env d tb g f cat = Some (None, cat')"
  shows "catalog_ok cat' \<and> (\<exists>new. objects cat' = new @ objects cat) \<and> (\<not> is_id f \<longrightarrow> \<not> nf_virtual f \<longrightarrow> column_made env g f cat')"
proof (cases "is_id f \<or> nf_virtual f")
  case True
  then have "cat' = cat" using assms(3) by (cases "is_id f") (simp_all add: create_column_def no_foreign_keys [OF assms(2)])
  then show ?thesis using assms(1) True by auto
next
  case False
  then have body: "(case find_column_type env f cat of
             None \<Rightarrow> do { cat2 \<leftarrow> grn_obj_remove env g cat; Some (Some ER_CANT_CREATE_TABLE, cat2) }
           | Some ty \<Rightarrow> do {
               (c, cat2) \<leftarrow> column_create env g (column_name env (field_name (nf_field f))) (column_flags env f) ty cat;
               (if c = None then do { cat3 \<leftarrow> grn_obj_remove env g cat2; Some (Some ER_CANT_CREATE_TABLE, cat3) }
                else Some (None, cat2)) }) = Some (None, cat')"
    using assms(3) by (simp add: create_column_def no_foreign_keys [OF assms(2)])
  then obtain ty where ty: "find_column_type env f cat = Some ty" by (cases "find_column_type env f cat") (auto simp: bind_eq_Some_conv)
  obtain c where "column_create env g (column_name env (field_name (nf_field f))) (column_flags env f) ty cat = Some (Some c, cat')"
    using body ty by (auto simp: bind_eq_Some_conv split: if_splits)
  then show ?thesis using stored_column_made [OF assms(1) _ ty] by simp
qed

lemma column_made_later:
  assumes "column_made env g f cat" "objects cat' = new @ objects cat"
  shows "column_made env g f cat'"
proof -
  have "set (objects cat) \<subseteq> set (objects cat')" using assms(2) by simp
  then show ?thesis using assms(1) unfolding column_made_def by blast
qed

lemma create_columns_made:
  assumes "\<forall>ks\<in>set (t_specs tb). \<not> ks_foreign ks"
  shows "catalog_ok cat \<Longrightarrow> create_columns env d tb g fs cat = Some (None, cat')
    \<Longrightarrow> catalog_ok cat' \<and> (\<exists>new. objects cat' = new @ objects cat) \<and> (\<forall>f\<in>set fs. \<not> is_id f \<longrightarrow> \<not> nf_virtual f \<longrightarrow> column_made env g f cat')"
proof (induction fs arbitrary: cat)
  case (Cons f fs)
  then obtain cat1 where c: "create_column env d tb g f cat = Some (None, cat1)" "create_columns env d tb g fs cat1 = Some (None, cat')"
    by (auto simp: bind_eq_Some_conv split: if_splits)
  have one: "catalog_ok cat1" "\<exists>new. objects cat1 = new @ objects cat" "\<not> is_id f \<longrightarrow> \<not> nf_virtual f \<longrightarrow> column_made env g f cat1"
    using create_column_made [OF Cons.prems(1) assms c(1)] by simp_all
  have more: "catalog_ok cat'" "\<exists>new. objects cat' = new @ objects cat1" "\<forall>f\<in>set fs. \<not> is_id f \<longrightarrow> \<not> nf_virtual f \<longrightarrow> column_made env g f cat'"
    using Cons.IH [OF one(1) c(2)] by blast+
  obtain new1 new2 where new: "objects cat1 = new1 @ objects cat" "objects cat' = new2 @ objects cat1" using one(2) more(2) by blast
  then have "objects cat' = (new2 @ new1) @ objects cat" by simp
  moreover have "\<not> is_id f \<longrightarrow> \<not> nf_virtual f \<longrightarrow> column_made env g f cat'" using one(3) column_made_later [OF _ new(2)] by blast
  ultimately show ?case using more(1,3) by auto
qed simp

text \<open>Settings of tables and sources of indexes change neither the names nor the kinds, types and flags of objects.\<close>

definition shape :: "nat \<times> grn_object \<Rightarrow> nat \<times> string \<times> object_kind \<times> nat option \<times> nat option \<times> 32 word" where
  "shape x = (fst x, o_name (snd x), o_kind (snd x), o_domain (snd x), o_range (snd x), o_flags (snd x))"

definition shapes :: "catalog \<Rightarrow> (nat \<times> string \<times> object_kind \<times> nat option \<times> nat option \<times> 32 word) list" where
  "shapes cat = map shape (objects cat)"

definition keeps_shapes :: "(catalog \<Rightarrow> catalog option) \<Rightarrow> bool" where
  "keeps_shapes f \<longleftrightarrow> (\<forall>cat cat'. f cat = Some cat' \<longrightarrow> shapes cat' = shapes cat)"

named_theorems shape_rules

lemma keeps_shapes_rules [shape_rules]:
  "keeps_shapes Some" "keeps_shapes f \<Longrightarrow> keeps_shapes g \<Longrightarrow> keeps_shapes (\<lambda>cat. f cat \<bind> g)"
  "(c \<Longrightarrow> keeps_shapes f) \<Longrightarrow> (\<not> c \<Longrightarrow> keeps_shapes g) \<Longrightarrow> keeps_shapes (\<lambda>cat. if c then f cat else g cat)"
  "keeps_shapes f \<Longrightarrow> (\<And>x. keeps_shapes (h x)) \<Longrightarrow> keeps_shapes (\<lambda>cat. case a of None \<Rightarrow> f cat | Some x \<Rightarrow> h x cat)"
proof -
  show "keeps_shapes f \<Longrightarrow> keeps_shapes g \<Longrightarrow> keeps_shapes (\<lambda>cat. f cat \<bind> g)" unfolding keeps_shapes_def by (metis bind_eq_Some_conv)
  show "(c \<Longrightarrow> keeps_shapes f) \<Longrightarrow> (\<not> c \<Longrightarrow> keeps_shapes g) \<Longrightarrow> keeps_shapes (\<lambda>cat. if c then f cat else g cat)" by (cases c) simp_all
  show "keeps_shapes f \<Longrightarrow> (\<And>x. keeps_shapes (h x)) \<Longrightarrow> keeps_shapes (\<lambda>cat. case a of None \<Rightarrow> f cat | Some x \<Rightarrow> h x cat)" by (cases a) simp_all
qed (simp add: keeps_shapes_def)

lemma keeps_shapes_setting [shape_rules]:
  assumes "\<And>ob. shape (i, f ob) = shape (i, ob)"
  shows "keeps_shapes (grn_obj_set_info i f)"
proof -
  have "shape (update_entry i f x) = shape x" for x
    using assms [of "snd x"] by (cases x) (auto simp: update_entry_def)
  then show ?thesis by (simp add: keeps_shapes_def set_info_update shapes_def)
qed

lemma keeps_shapes_settings [shape_rules]:
  "keeps_shapes (set_tokenizer env i tok)" "keeps_shapes (set_normalizer env i f nz)" "keeps_shapes (set_token_filters env i tf)"
  unfolding set_tokenizer_def [abs_def] set_normalizer_def [abs_def] set_token_filters_def [abs_def] Let_def
  by (intro shape_rules; simp add: shape_def)+

lemma keeps_shapes_key_settings [shape_rules]:
  "keeps_shapes (set_key_tokenizer env i k)" "keeps_shapes (set_key_normalizer env i k)" "keeps_shapes (set_key_token_filters env i k)"
  unfolding set_key_tokenizer_def set_key_normalizer_def set_key_token_filters_def [abs_def] by (intro shape_rules)+

lemma keeps_shapes_tables: "keeps_shapes (index_table_settings env i k)" "keeps_shapes (set_table_lexicon env tb fs i)"
  unfolding index_table_settings_def [abs_def] set_table_lexicon_def [abs_def] Let_def by (intro shape_rules)+

lemma sources_shapes: "set_index_sources env g col k cat = Some cat' \<Longrightarrow> shapes cat' = shapes cat"
proof -
  have "keeps_shapes (grn_obj_set_info col (\<lambda>ob. ob\<lparr>o_sources := ss\<rparr>))" for ss by (intro shape_rules) (simp add: shape_def)
  then show "set_index_sources env g col k cat = Some cat' \<Longrightarrow> shapes cat' = shapes cat"
    unfolding set_index_sources_def Let_def keeps_shapes_def by (auto split: if_splits option.splits)
qed

lemma shapesD: "keeps_shapes f \<Longrightarrow> f cat = Some cat' \<Longrightarrow> shapes cat' = shapes cat"
  by (simp add: keeps_shapes_def)

lemma create_object_shapes: "create_object env ob cat = Some (Some i, cat') \<Longrightarrow> shapes cat' = shape (i, ob) # shapes cat"
  by (cases rule: create_object_cases [of env ob cat "Some i" cat']) (simp_all add: shapes_def)

text \<open>The objects of one index.\<close>

definition index_made :: "catalog_env \<Rightarrow> string \<Rightarrow> nat \<Rightarrow> new_key \<Rightarrow> catalog \<Rightarrow> bool" where
  "index_made env gn g k cat \<longleftrightarrow> (\<exists>t c ty cfs.
     (t, index_table_name.name (IndexTableName (ca_mb_wc env) (ca_wc_mb env) (max_key_size env) gn (k_name k)), Grn_table, None,
        Some (builtin_type env ty), index_table_flags env k) \<in> set (shapes cat)
     \<and> (c, ''index'', Grn_column, Some t, Some g, cfs) \<in> set (shapes cat))"

lemma index_made_later:
  assumes "index_made env gn g k cat" "objects cat' = new @ objects cat"
  shows "index_made env gn g k cat'"
proof -
  have "set (shapes cat) \<subseteq> set (shapes cat')" using assms(2) by (simp add: shapes_def)
  then show ?thesis using assms(1) unfolding index_made_def by blast
qed

lemma create_index_made:
  assumes "create_index_objects env gn g k cat = Some (None, t, c, cat')" "custom_lexicon k = None"
  shows "index_made env gn g k cat'"
proof -
  define ty where "ty = (if multiple k then GRN_DB_SHORT_TEXT else mrn_grn_type_from_field (nf_value (first_field k)) True)"
  define nm where "nm = index_table_name.name (IndexTableName (ca_mb_wc env) (ca_wc_mb env) (max_key_size env) gn (k_name k))"
  obtain q cat1 where q: "storage_create_index_table env gn g k cat = Some (q, cat1)"
    using assms(1) by (auto simp: create_index_objects_def bind_eq_Some_conv)
  then obtain x where x: "q = Inr x" using assms(1) by (cases q) (auto simp: create_index_objects_def)
  obtain r cat0 where r: "table_create env nm (index_table_flags env k) (Some (builtin_type env ty)) cat = Some (r, cat0)"
    "(case r of None \<Rightarrow> do { cat2 \<leftarrow> grn_obj_remove env g cat0; Some (Inl ER_CANT_CREATE_TABLE, cat2) }
      | Some t \<Rightarrow> do { cat2 \<leftarrow> index_table_settings env t k cat0; Some (Inr t, cat2) }) = Some (Inr x, cat1)"
    using q [unfolded x] assms(2) by (auto simp: storage_create_index_table_def Let_def ty_def nm_def bind_eq_Some_conv split: if_splits)
  then have r': "r = Some x" "index_table_settings env x k cat0 = Some cat1" by (auto simp: bind_eq_Some_conv split: option.splits)
  have one: "shapes cat1 = shape (x, new_object nm Grn_table None (Some (builtin_type env ty)) (index_table_flags env k)) # shapes cat"
    using create_object_shapes [OF r(1) [unfolded table_create_def r'(1)]] shapesD [OF keeps_shapes_tables(1) r'(2)] by simp
  obtain p cat2 where p: "column_create env x ''index'' (index_column_flags env x k cat1) g cat1 = Some (p, cat2)"
    using assms q x by (auto simp: create_index_objects_def bind_eq_Some_conv)
  obtain col where col: "p = Some col"
    using assms q x p by (cases p) (auto simp: create_index_objects_def bind_eq_Some_conv)
  have s: "set_index_sources env g col k cat2 = Some cat'"
    using assms q x p col by (auto simp: create_index_objects_def bind_eq_Some_conv)
  have "shapes cat' = shape (col, new_object ''index'' Grn_column (Some x) (Some g) (index_column_flags env x k cat1)) # shapes cat1"
    using create_object_shapes [OF p [unfolded column_create_def col]] sources_shapes [OF s] by simp
  then have "(x, nm, Grn_table, None, Some (builtin_type env ty), index_table_flags env k) \<in> set (shapes cat')"
    "(col, ''index'', Grn_column, Some x, Some g, index_column_flags env x k cat1) \<in> set (shapes cat')"
    using one by (simp_all add: shape_def new_object_def)
  then show ?thesis unfolding index_made_def nm_def by blast
qed

text \<open>The indexes that the code creates whatever the columns refer to: those over several columns that have no lexicon of their own.\<close>

definition always_indexed :: "new_table \<Rightarrow> nat \<Rightarrow> new_key \<Rightarrow> bool" where
  "always_indexed tb i k \<longleftrightarrow> \<not> (t_primary tb = Some i \<or> (t_disable_keys tb \<and> \<not> k_nosame k)) \<and> multiple k \<and> custom_lexicon k = None"

lemma new_suffix:
  assumes "catalog_ok cat" "new_only (next_object cat) (objects cat) UNIV cat \<Longrightarrow> new_only (next_object cat) (objects cat) UNIV cat'"
  shows "\<exists>new. objects cat' = new @ objects cat"
  using assms(2) [OF new_only_start [OF assms(1)]] by (rule new_onlyE) blast

lemma create_indexes_made:
  assumes "catalog_ok cat" "create_indexes_loop env tb g ks its cat = Some (None, its', cat')"
  shows "catalog_ok cat' \<and> (\<exists>new. objects cat' = new @ objects cat)
    \<and> (\<forall>x\<in>set ks. always_indexed tb (fst x) (snd x) \<longrightarrow> index_made env (t_name tb) g (snd x) cat')"
  using assms
proof (induction env tb g ks its cat rule: create_indexes_loop.induct)
  case (2 env tb g i k ks its cat)
  show ?case
  proof (cases "t_primary tb = Some i \<or> (t_disable_keys tb \<and> \<not> k_nosame k)")
    case True
    then have "\<not> always_indexed tb i k" by (simp add: always_indexed_def)
    then show ?thesis using 2(1) [OF True 2(3)] 2(4) True by simp
  next
    case False
    then obtain e t c cat1 where s: "storage_create_index env (t_mysql_name tb) (t_name tb) g k cat = Some (e, t, c, cat1)"
      "(case e of None \<Rightarrow> create_indexes_loop env tb g ks (its @ [(k, t)]) cat1 | Some _ \<Rightarrow> Some (e, its @ [(k, t)], cat1)) = Some (None, its', cat')"
      using 2(4) by (auto simp: bind_eq_Some_conv)
    then have e: "e = None" by (cases e) auto
    have ok: "catalog_ok cat1"
      using s(1) unfolding e by (cases rule: create_index_cases) (use 2(3) create_index_objects_made [OF 2(3)] in auto)
    have "new_only n base UNIV cat1" if "new_only n base UNIV cat" for n base
      using s(1) unfolding e by (cases rule: create_index_cases) (use that create_index_kept [OF that] in auto)
    then obtain new1 where new1: "objects cat1 = new1 @ objects cat" using new_suffix [OF 2(3)] by blast
    obtain new2 where more: "catalog_ok cat'" "objects cat' = new2 @ objects cat1"
      "\<forall>x\<in>set ks. always_indexed tb (fst x) (snd x) \<longrightarrow> index_made env (t_name tb) g (snd x) cat'"
      using 2(2) [OF False s(1) refl refl refl e ok] s(2) e by auto
    have "index_made env (t_name tb) g k cat1" if "always_indexed tb i k"
    proof -
      have k: "multiple k" "custom_lexicon k = None" using that by (simp_all add: always_indexed_def)
      have "create_index_objects env (t_name tb) g k cat = Some (None, t, c, cat1)"
        using s(1) k(1) e by (simp add: storage_create_index_def split: if_splits)
      then show ?thesis using k(2) by (rule create_index_made)
    qed
    then show ?thesis using more new1 index_made_later [OF _ more(2)] by auto
  qed
qed simp

text \<open>C17: a table that is created without errors is there with its flags and key type, with every stored column, each of its flags and of the
  type of its field unless another is given, and every index over several columns; all other objects are as before.\<close>

theorem created_table:
  assumes "catalog_ok cat" "\<forall>ks\<in>set (t_specs tb). \<not> ks_foreign ks" "storage_create env d tb cat = Some (None, cat')"
  shows "\<exists>g new. objects cat' = new @ objects cat \<and> catalog_ok cat'
    \<and> (g, t_name tb, Grn_table, None, snd (new_table_type env tb), fst (new_table_type env tb)) \<in> set (map shape new)
    \<and> (\<forall>f\<in>set (t_fields tb). \<not> is_id f \<longrightarrow> \<not> nf_virtual f \<longrightarrow> column_made env g f cat')
    \<and> (\<forall>(i, k)\<in>set (enumerate 0 (t_keys tb)). always_indexed tb i k \<longrightarrow> index_made env (t_name tb) g k cat')"
  using assms(3)
proof (cases rule: storage_create_cases)
  case (2 g cat0)
  let ?ob = "new_object (t_name tb) Grn_table None (snd (new_table_type env tb)) (fst (new_table_type env tb))"
  have start: "new_only (next_object cat) (objects cat) {} cat" by (rule new_only_start [OF assms(1)])
  have g: "next_object cat \<le> g" "new_only (next_object cat) (objects cat) {g} cat0" using table_create_new(2) [OF start 2(1) refl] by simp_all
  have ok: "catalog_ok cat0" by (rule catalog_ok_create [OF assms(1) 2(1) [unfolded table_create_def]]) (simp add: new_object_def)
  have s0: "shapes cat0 = shape (g, ?ob) # shapes cat" by (rule create_object_shapes [OF 2(1) [unfolded table_create_def]])
  from 2(2) show ?thesis
  proof (cases rule: fill_table_cases)
    case (3 cat1 cat2)
    obtain its where loop: "create_indexes_loop env tb g (enumerate 0 (t_keys tb)) [] cat2 = Some (None, its, cat')"
      using 3(3) by (auto simp: storage_create_indexes_def bind_eq_Some_conv split: if_splits)
    obtain new1 where new1: "objects cat1 = new1 @ objects cat"
      using keepsD [OF keeps_table_lexicon [OF g(1)] g(2) 3(1)] by (rule new_onlyE) blast
    have ok1: "catalog_ok cat1" by (rule keeps_okD [OF keeps_ok_tables(2) ok 3(1)])
    obtain new2 where columns: "catalog_ok cat2" "objects cat2 = new2 @ objects cat1"
      "\<forall>f\<in>set (t_fields tb). \<not> is_id f \<longrightarrow> \<not> nf_virtual f \<longrightarrow> column_made env g f cat2"
      using create_columns_made [OF assms(2) ok1 3(2)] by blast
    obtain new3 where indexes: "catalog_ok cat'" "objects cat' = new3 @ objects cat2"
      "\<forall>x\<in>set (enumerate 0 (t_keys tb)). always_indexed tb (fst x) (snd x) \<longrightarrow> index_made env (t_name tb) g (snd x) cat'"
      using create_indexes_made [OF columns(1) loop] by blast
    have "map shape new1 = [shape (g, ?ob)]" using shapesD [OF keeps_shapes_tables(2) 3(1)] s0 new1 by (simp add: shapes_def)
    then have table: "(g, t_name tb, Grn_table, None, snd (new_table_type env tb), fst (new_table_type env tb)) \<in> set (map shape (new3 @ new2 @ new1))"
      by (simp add: shape_def new_object_def)
    have made: "\<forall>f\<in>set (t_fields tb). \<not> is_id f \<longrightarrow> \<not> nf_virtual f \<longrightarrow> column_made env g f cat'"
      using columns(3) column_made_later [OF _ indexes(2)] by blast
    have all: "objects cat' = (new3 @ new2 @ new1) @ objects cat" using new1 columns(2) indexes(2) by simp
    show ?thesis
      by (intro exI conjI) (rule all, rule indexes(1), rule table, rule made, use indexes(3) in auto)
  qed simp_all
qed simp

section \<open>A database\<close>

text \<open>A database with one type for texts and one for everything else; Groonga refuses the names of a list.\<close>

definition sample_catalog_env :: "string list \<Rightarrow> catalog_env" where
  "sample_catalog_env refused = \<lparr>refuses = (\<lambda>obs d nm. nm \<in> set refused), removed_with = remove_closed, ca_flags = sample_flag_env,
     ca_mb_wc = latin_mb_wc, ca_wc_mb = filename_wc_mb, max_key_size = 4096, strconvert = (\<lambda>s n. take n s), max_path_size = 512,
     builtin_type = (\<lambda>t. if t \<in> {GRN_DB_SHORT_TEXT, GRN_DB_TEXT, GRN_DB_LONG_TEXT} then 1 else 0), system_encoding = 0, field_encoding = (\<lambda>f. 0),
     accepts_tokenizer = (\<lambda>t. True), accepts_normalizer = (\<lambda>n. True), accepts_token_filters = (\<lambda>n. True),
     default_tokenizer_variable = ''TokenBigram'', installed_normalizer = (\<lambda>n. False)\<rparr>"

definition sample_catalog :: catalog where
  "sample_catalog = \<lparr>objects = [(1, new_object ''ShortText'' Grn_type None None 0), (0, new_object ''Int32'' Grn_type None None 0)], next_object = 2\<rparr>"

definition sample_dictionary :: dictionary where
  "sample_dictionary = \<lparr>lower_case_table_names = False, casedn = (\<lambda>s. s), build_table_filename = (\<lambda>db t. ''./'' @ db @ ''/'' @ t), home_path = None,
     prefix_path = None, tmp_table_share = (\<lambda>p. None), open_database = 0\<rparr>"

definition sample_new_field :: "string \<Rightarrow> mysql_type \<Rightarrow> new_field" where
  "sample_new_field nm ty = \<lparr>nf_field = sample_field\<lparr>field_name := nm, field_type := ty, real_type := ty\<rparr>,
     nf_value = example_field\<lparr>v_type := ty, field_length := 10\<rparr>, nf_virtual = False, nf_custom_flags = None, nf_custom_type = None,
     nf_params = \<lparr>col_type = None, col_flags = None\<rparr>\<rparr>"

definition sample_key :: "string \<Rightarrow> new_field list \<Rightarrow> string \<Rightarrow> new_key" where
  "sample_key nm fs cm = \<lparr>k_name = nm, k_parts = map (\<lambda>f. (f, False)) fs, k_algorithm = HA_KEY_ALG_BTREE, k_nosame = False, k_comment = cm,
     k_options = \<lparr>ko_flags = None, ko_lexicon = None, ko_lexicon_flags = None, ko_tokenizer = None, ko_token_filters = None, ko_normalizer = None\<rparr>\<rparr>"

definition sample_new_table :: "new_key list \<Rightarrow> new_table" where
  "sample_new_table ks = \<lparr>t_db = ''db'', t_mysql_name = ''diaries'', t_name = ''diaries'',
     t_fields = [sample_new_field ''day'' MYSQL_TYPE_LONG, sample_new_field ''title'' MYSQL_TYPE_VARCHAR],
     t_keys = sample_key ''PRIMARY'' [sample_new_field ''day'' MYSQL_TYPE_LONG] [] # ks, t_primary = Some 0, t_specs = [],
     t_options = \<lparr>to_flags = None, to_normalizer = None, to_tokenizer = None, to_token_filters = None\<rparr>, t_params = no_params, t_disable_keys = False\<rparr>"

definition title_key :: "string \<Rightarrow> new_key" where
  "title_key cm = sample_key ''title'' [sample_new_field ''title'' MYSQL_TYPE_VARCHAR] cm"

definition wide_key :: new_key where
  "wide_key = sample_key ''wide'' [sample_new_field ''title'' MYSQL_TYPE_VARCHAR, sample_new_field ''day'' MYSQL_TYPE_LONG] []"

lemma sample_catalog_ok: "catalog_ok sample_catalog" "removal_promise (sample_catalog_env refused)"
proof -
  show "catalog_ok sample_catalog" by (simp add: catalog_ok_def sample_catalog_def new_object_def)
  show "removal_promise (sample_catalog_env refused)" by (rule remove_closed_promise) (simp add: sample_catalog_env_def)
qed

lemma sample_creation:
  "map_option fst (storage_create (sample_catalog_env []) sample_dictionary (sample_new_table [title_key [], wide_key]) sample_catalog) = Some None"
  by code_simp

lemma sample_failure:
  "map_option fst (storage_create (sample_catalog_env [''title'']) sample_dictionary (sample_new_table [title_key []]) sample_catalog)
    = Some (Some ER_CANT_CREATE_TABLE)"
  by code_simp

section \<open>Failures\<close>




theorem created_table_witness:
  "\<exists>g new cat'. storage_create (sample_catalog_env []) sample_dictionary (sample_new_table [title_key [], wide_key]) sample_catalog = Some (None, cat')
    \<and> objects cat' = new @ objects sample_catalog \<and> index_made (sample_catalog_env []) ''diaries'' g wide_key cat'"
proof -
  let ?tb = "sample_new_table [title_key [], wide_key]"
  obtain cat' where r: "storage_create (sample_catalog_env []) sample_dictionary ?tb sample_catalog = Some (None, cat')"
    using sample_creation by auto
  have "\<forall>ks\<in>set (t_specs ?tb). \<not> ks_foreign ks" by (simp add: sample_new_table_def)
  then obtain g new where "objects cat' = new @ objects sample_catalog"
    "\<forall>(i, k)\<in>set (enumerate 0 (t_keys ?tb)). always_indexed ?tb i k \<longrightarrow> index_made (sample_catalog_env []) (t_name ?tb) g k cat'"
    using created_table [OF sample_catalog_ok(1) _ r] by blast
  moreover have "(2, wide_key) \<in> set (enumerate 0 (t_keys ?tb))" by (simp add: sample_new_table_def)
  moreover have "always_indexed ?tb 2 wide_key" by code_simp
  moreover have "t_name ?tb = ''diaries''" by (simp add: sample_new_table_def)
  ultimately show ?thesis using r by fastforce
qed

text \<open>When Groonga refuses the table or the column of an index, the table is removed a second time.\<close>

lemma refused_index_faults:
  "storage_create (sample_catalog_env [''diaries#title'']) sample_dictionary (sample_new_table [title_key []]) sample_catalog = None"
  "storage_create (sample_catalog_env [''index'']) sample_dictionary (sample_new_table [title_key []]) sample_catalog = None"
  by code_simp+

text \<open>When Groonga refuses the table of an index that is added to a table with rows, the table is removed with all its columns, and only the
  error is reported; when it refuses the index column in the user's own lexicon, that lexicon is removed twice.\<close>

definition diaries_catalog :: catalog where
  "diaries_catalog = \<lparr>objects = (4, new_object ''terms'' Grn_table None (Some 1) 0)
       # (3, new_object ''title'' Grn_column (Some 2) (Some 1) 0) # (2, new_object ''diaries'' Grn_table None (Some 0) 0) # objects sample_catalog,
     next_object = 5\<rparr>"

lemma refused_added_index_drops_table:
  "map_option (\<lambda>(failed, cat). (failed, map fst (objects cat)))
      (storage_inplace_alter_table_add_index (sample_catalog_env [''diaries#title'']) (\<lambda>k. False) None (sample_new_table []) 2 [title_key []] diaries_catalog)
    = Some (True, [4, 1, 0])"
  "storage_inplace_alter_table_add_index (sample_catalog_env [''title'']) (\<lambda>k. False) None (sample_new_table []) 2
     [title_key ''lexicon \"terms\"''] diaries_catalog = None"
  by code_simp+

end
