(* ===== verification/Table_Removal.thy ===== *)
theory Table_Removal
  imports Created_Tables
begin

text \<open>
  Dropping tables and indexes (\<^verbatim>\<open>drop_index\<close>, \<^verbatim>\<open>drop_indexes_normal\<close>, \<^verbatim>\<open>drop_indexes_multiple\<close>, \<^verbatim>\<open>drop_indexes\<close>,
  \<^verbatim>\<open>generic_delete_table\<close> of \<^verbatim>\<open>ha_mroonga.cpp\<close>) as changes of the objects of Groonga's database. Groonga may refuse a removal. The loop
  over the indexes of a column has fuel; it never needs more than there are objects.
\<close>

section \<open>Dropping indexes\<close>

datatype index_operator = INDEX_EQUAL | INDEX_MATCH | INDEX_LESS | INDEX_REGEXP

record removal_env =
  refuses_removal :: "(nat \<times> grn_object) list \<Rightarrow> nat \<Rightarrow> bool"
  find_index :: "(nat \<times> grn_object) list \<Rightarrow> nat \<Rightarrow> index_operator \<Rightarrow> nat option"
  removed_dependent :: "(nat \<times> grn_object) list \<Rightarrow> nat \<Rightarrow> nat list"

datatype removal_error = ER_ERROR_ON_WRITE | ER_CANT_OPEN_FILE

text \<open>\<^verbatim>\<open>grn_obj_remove\<close>: whether it succeeds.\<close>

definition try_remove :: "catalog_env \<Rightarrow> removal_env \<Rightarrow> nat \<Rightarrow> catalog \<Rightarrow> (bool \<times> catalog) option" where
  "try_remove env renv i cat =
     (if alive cat i \<and> refuses_removal renv (objects cat) i then Some (False, cat) else map_option (Pair True) (grn_obj_remove env i cat))"

definition INDEX_COLUMN_NAME :: string where
  "INDEX_COLUMN_NAME = ''index''"

text \<open>One index in \<^verbatim>\<open>ALTER TABLE ... DROP INDEX\<close>. The error of a removal that fails is only logged.\<close>

definition index_table_of :: "catalog_env \<Rightarrow> string \<Rightarrow> string \<Rightarrow> catalog \<Rightarrow> nat option" where
  "index_table_of env table_nm key_nm cat =
     (let nm = IndexTableName (ca_mb_wc env) (ca_wc_mb env) (max_key_size env) table_nm key_nm in
      case ctx_get cat (index_table_name.name nm) of Some t \<Rightarrow> Some t | None \<Rightarrow> ctx_get cat (index_table_name.old_name nm))"

definition drop_index :: "catalog_env \<Rightarrow> removal_env \<Rightarrow> string \<Rightarrow> new_key \<Rightarrow> catalog \<Rightarrow> catalog option" where
  "drop_index env renv grn_table_name k cat =
     (case (case custom_lexicon k of
          Some l \<Rightarrow> ctx_get cat (snprintf_result (max_key_size env) (l @ ''.'' @ k_name k))
        | None \<Rightarrow> index_table_of env grn_table_name (k_name k) cat) of
        None \<Rightarrow> Some cat
      | Some i \<Rightarrow> map_option snd (try_remove env renv i cat))"

text \<open>The indexes of a column for an operator, until none is left: an index column in a foreign lexicon is removed, and an index table of
  this table with everything in it.\<close>

fun drop_column_indexes ::
    "catalog_env \<Rightarrow> removal_env \<Rightarrow> string \<Rightarrow> nat \<Rightarrow> index_operator \<Rightarrow> nat \<Rightarrow> catalog \<Rightarrow> (removal_error option \<times> catalog) option" where
  "drop_column_indexes env renv table_nm c opr 0 cat = None"
| "drop_column_indexes env renv table_nm c opr (Suc fuel) cat =
     (case find_index renv (objects cat) c opr of
        None \<Rightarrow> Some (None, cat)
      | Some ix \<Rightarrow> do {
          t \<leftarrow> Option.bind (object_of cat ix) o_domain;
          tob \<leftarrow> object_of cat t;
          (ok, cat1) \<leftarrow> try_remove env renv (if is_custom_name table_nm (o_name tob) then ix else t) cat;
          (if ok then drop_column_indexes env renv table_nm c opr fuel cat1 else Some (Some ER_ERROR_ON_WRITE, cat1)) })"

fun drop_for_operators ::
    "catalog_env \<Rightarrow> removal_env \<Rightarrow> string \<Rightarrow> nat \<Rightarrow> index_operator list \<Rightarrow> catalog \<Rightarrow> (removal_error option \<times> catalog) option" where
  "drop_for_operators env renv table_nm c [] cat = Some (None, cat)"
| "drop_for_operators env renv table_nm c (opr # oprs) cat = do {
     (e, cat1) \<leftarrow> drop_column_indexes env renv table_nm c opr (Suc (length (objects cat))) cat;
     (if e \<noteq> None then Some (e, cat1) else drop_for_operators env renv table_nm c oprs cat1) }"

definition index_operators :: "index_operator list" where
  "index_operators = [INDEX_EQUAL, INDEX_MATCH, INDEX_LESS, INDEX_REGEXP]"

fun drop_for_columns :: "catalog_env \<Rightarrow> removal_env \<Rightarrow> string \<Rightarrow> nat list \<Rightarrow> catalog \<Rightarrow> (removal_error option \<times> catalog) option" where
  "drop_for_columns env renv table_nm [] cat = Some (None, cat)"
| "drop_for_columns env renv table_nm (c # cs) cat =
     (if \<not> alive cat c then drop_for_columns env renv table_nm cs cat
      else do {
        (e, cat1) \<leftarrow> drop_for_operators env renv table_nm c index_operators cat;
        (if e \<noteq> None then Some (e, cat1) else drop_for_columns env renv table_nm cs cat1) })"

definition columns_of :: "catalog \<Rightarrow> nat \<Rightarrow> nat list" where
  "columns_of cat t = map fst (filter (\<lambda>x. o_domain (snd x) = Some t) (objects cat))"

definition drop_indexes_normal :: "catalog_env \<Rightarrow> removal_env \<Rightarrow> string \<Rightarrow> nat \<Rightarrow> catalog \<Rightarrow> (removal_error option \<times> catalog) option" where
  "drop_indexes_normal env renv table_nm t cat = drop_for_columns env renv table_nm (columns_of cat t) cat"

text \<open>The tables whose names begin with the name of the table and a separator: those with an index column on this table.\<close>

fun drop_named_tables :: "catalog_env \<Rightarrow> removal_env \<Rightarrow> nat \<Rightarrow> nat list \<Rightarrow> catalog \<Rightarrow> (removal_error option \<times> catalog) option" where
  "drop_named_tables env renv t [] cat = Some (None, cat)"
| "drop_named_tables env renv t (i # is) cat =
     (case object_of cat i of
        None \<Rightarrow> drop_named_tables env renv t is cat
      | Some ob \<Rightarrow>
          (case (if o_kind ob \<noteq> Grn_table then None
                 else Option.bind (ctx_get cat (snprintf_result (max_key_size env) (o_name ob @ ''.'' @ INDEX_COLUMN_NAME))) (object_of cat)) of
             None \<Rightarrow> drop_named_tables env renv t is cat
           | Some ixob \<Rightarrow>
               if o_range ixob \<noteq> Some t then drop_named_tables env renv t is cat
               else do {
                 (ok, cat1) \<leftarrow> try_remove env renv i cat;
                 (if ok then drop_named_tables env renv t is cat1 else Some (Some ER_ERROR_ON_WRITE, cat1)) }))"

definition tables_with_prefix :: "catalog \<Rightarrow> string \<Rightarrow> nat list" where
  "tables_with_prefix cat p = map fst (filter (\<lambda>x. o_domain (snd x) = None \<and> take (length p) (o_name (snd x)) = p) (objects cat))"

definition drop_indexes_multiple ::
    "catalog_env \<Rightarrow> removal_env \<Rightarrow> string \<Rightarrow> nat \<Rightarrow> string \<Rightarrow> catalog \<Rightarrow> (removal_error option \<times> catalog) option" where
  "drop_indexes_multiple env renv table_nm t sep cat =
     drop_named_tables env renv t (tables_with_prefix cat (snprintf_result (max_key_size env) (table_nm @ sep))) cat"

definition drop_indexes :: "catalog_env \<Rightarrow> removal_env \<Rightarrow> string \<Rightarrow> catalog \<Rightarrow> (removal_error option \<times> catalog) option" where
  "drop_indexes env renv table_nm cat =
     (case ctx_get cat table_nm of
        None \<Rightarrow> Some (None, cat)
      | Some t \<Rightarrow> do {
          (e1, cat1) \<leftarrow> drop_indexes_normal env renv table_nm t cat;
          (if e1 \<noteq> None then Some (e1, cat1)
           else do {
             (e2, cat2) \<leftarrow> drop_indexes_multiple env renv table_nm t SEPARATOR cat1;
             (if e2 \<noteq> None then Some (e2, cat2) else drop_indexes_multiple env renv table_nm t OLD_SEPARATOR cat2) }) })"

text \<open>\<^verbatim>\<open>generic_delete_table\<close> for a database that exists and opens; \<^verbatim>\<open>DROP DATABASE\<close> also removes what depends on the table. An error of the
  indexes does not keep the table.\<close>

definition generic_delete_table :: "catalog_env \<Rightarrow> removal_env \<Rightarrow> bool \<Rightarrow> string \<Rightarrow> catalog \<Rightarrow> (removal_error option \<times> catalog) option" where
  "generic_delete_table env renv drop_db table_nm cat = do {
     (e, cat1) \<leftarrow> drop_indexes env renv table_nm cat;
     (case ctx_get cat1 table_nm of
        None \<Rightarrow> Some (e, cat1)
      | Some t \<Rightarrow>
          if drop_db then Some (e, cat1\<lparr>objects := filter (\<lambda>x. fst x \<notin> set (removed_dependent renv (objects cat1) t)) (objects cat1)\<rparr>)
          else do {
            (ok, cat2) \<leftarrow> try_remove env renv t cat1;
            Some (if ok then e else Some ER_CANT_OPEN_FILE, cat2) }) }"

section \<open>What is relied on\<close>

text \<open>The name of an object in the database, and well-formed databases: handles and names are unique, and columns are those of tables that are there.\<close>

definition full_name :: "catalog \<Rightarrow> nat \<times> grn_object \<Rightarrow> string option" where
  "full_name cat x = (case o_domain (snd x) of
      None \<Rightarrow> Some (o_name (snd x)) | Some d \<Rightarrow> map_option (\<lambda>t. o_name t @ ''.'' @ o_name (snd x)) (object_of cat d))"

definition a_table :: "grn_object \<Rightarrow> bool" where
  "a_table ob \<longleftrightarrow> o_domain ob = None \<and> o_sources ob = []"

definition catalog_wf :: "catalog \<Rightarrow> bool" where
  "catalog_wf cat \<longleftrightarrow> distinct (map fst (objects cat)) \<and> distinct (map (full_name cat) (objects cat))
     \<and> (\<forall>x\<in>set (objects cat). case o_domain (snd x) of
          None \<Rightarrow> o_sources (snd x) = [] | Some d \<Rightarrow> \<exists>y\<in>set (objects cat). fst y = d \<and> a_table (snd y))"

lemma catalog_wf_iff:
  "catalog_wf cat \<longleftrightarrow> distinct (map fst (objects cat)) \<and> distinct (map (full_name cat) (objects cat))
     \<and> (\<forall>x\<in>set (objects cat). \<forall>d. o_domain (snd x) = Some d \<longrightarrow> (\<exists>dob. (d, dob) \<in> set (objects cat) \<and> a_table dob))
     \<and> (\<forall>x\<in>set (objects cat). o_domain (snd x) = None \<longrightarrow> o_sources (snd x) = [])"
proof -
  have "(case o_domain (snd x) of None \<Rightarrow> o_sources (snd x) = [] | Some d \<Rightarrow> \<exists>y\<in>set (objects cat). fst y = d \<and> a_table (snd y))
      \<longleftrightarrow> (\<forall>d. o_domain (snd x) = Some d \<longrightarrow> (\<exists>dob. (d, dob) \<in> set (objects cat) \<and> a_table dob)) \<and> (o_domain (snd x) = None \<longrightarrow> o_sources (snd x) = [])"
    for x :: "nat \<times> grn_object" by (cases "o_domain (snd x)") force+
  then show ?thesis unfolding catalog_wf_def by blast
qed

text \<open>\<^verbatim>\<open>grn_column_find_index_data\<close> finds an index column of the column that supports the operator; every index column supports one of the four.\<close>

definition finds :: "removal_env \<Rightarrow> (grn_object \<Rightarrow> index_operator \<Rightarrow> bool) \<Rightarrow> bool" where
  "finds renv usable \<longleftrightarrow> (\<forall>ob. \<exists>opr. usable ob opr) \<and> (\<forall>obs c opr. case find_index renv obs c opr of
      None \<Rightarrow> (\<forall>x\<in>set obs. c \<in> set (o_sources (snd x)) \<longrightarrow> \<not> usable (snd x) opr)
    | Some ix \<Rightarrow> (\<exists>ob. (ix, ob) \<in> set obs \<and> c \<in> set (o_sources ob) \<and> usable ob opr))"

lemma finds_cases:
  assumes "finds renv usable"
  obtains "find_index renv obs c opr = None" "\<forall>x\<in>set obs. c \<in> set (o_sources (snd x)) \<longrightarrow> \<not> usable (snd x) opr"
  | ix ob where "find_index renv obs c opr = Some ix" "(ix, ob) \<in> set obs" "c \<in> set (o_sources ob)" "usable ob opr"
proof -
  have one: "case find_index renv obs c opr of
      None \<Rightarrow> (\<forall>x\<in>set obs. c \<in> set (o_sources (snd x)) \<longrightarrow> \<not> usable (snd x) opr)
    | Some ix \<Rightarrow> (\<exists>ob. (ix, ob) \<in> set obs \<and> c \<in> set (o_sources ob) \<and> usable ob opr)"
    using assms unfolding finds_def by blast
  show ?thesis by (cases "find_index renv obs c opr") (use one that in auto)
qed

lemma object_of_iff: "catalog_wf cat \<Longrightarrow> object_of cat i = Some ob \<longleftrightarrow> (i, ob) \<in> set (objects cat)"
  by (simp add: catalog_wf_iff object_of_def)

lemma domain_there: "catalog_wf cat \<Longrightarrow> x \<in> set (objects cat) \<Longrightarrow> o_domain (snd x) = Some d \<Longrightarrow> \<exists>dob. object_of cat d = Some dob \<and> a_table dob"
  using object_of_iff unfolding catalog_wf_iff by blast

lemma ctx_get_full: "ctx_get cat nm = map_option fst (find (\<lambda>x. full_name cat x = Some nm) (objects cat))"
proof -
  have "(\<lambda>(i, ob). case o_domain ob of None \<Rightarrow> o_name ob = nm
     | Some d \<Rightarrow> (case object_of cat d of None \<Rightarrow> False | Some t \<Rightarrow> o_name t @ ''.'' @ o_name ob = nm)) = (\<lambda>x. full_name cat x = Some nm)"
    by (rule ext) (simp add: full_name_def case_prod_unfold split: option.split)
  then show ?thesis unfolding ctx_get_def by simp
qed

lemma ctx_get_iff:
  assumes "catalog_wf cat"
  shows "ctx_get cat nm = Some i \<longleftrightarrow> (\<exists>ob. (i, ob) \<in> set (objects cat) \<and> full_name cat (i, ob) = Some nm)"
proof
  assume "ctx_get cat nm = Some i"
  then obtain x where "find (\<lambda>x. full_name cat x = Some nm) (objects cat) = Some x" "i = fst x" by (auto simp: ctx_get_full)
  then have "x \<in> set (objects cat)" "full_name cat x = Some nm" "i = fst x" unfolding find_Some_iff using nth_mem by metis+
  then show "\<exists>ob. (i, ob) \<in> set (objects cat) \<and> full_name cat (i, ob) = Some nm" by (metis prod.collapse)
next
  assume "\<exists>ob. (i, ob) \<in> set (objects cat) \<and> full_name cat (i, ob) = Some nm"
  then obtain ob where ob: "(i, ob) \<in> set (objects cat)" "full_name cat (i, ob) = Some nm" by blast
  then have "find (\<lambda>x. full_name cat x = Some nm) (objects cat) \<noteq> None" unfolding find_None_iff by blast
  then obtain x where x: "find (\<lambda>x. full_name cat x = Some nm) (objects cat) = Some x" by blast
  then have "x \<in> set (objects cat)" "full_name cat x = Some nm" unfolding find_Some_iff using nth_mem by metis+
  moreover have "inj_on (full_name cat) (set (objects cat))" using assms by (simp add: catalog_wf_iff distinct_map)
  ultimately have "x = (i, ob)" using ob unfolding inj_on_def by metis
  then show "ctx_get cat nm = Some i" using x by (simp add: ctx_get_full)
qed


section \<open>Removals\<close>

text \<open>A set of objects that holds with every object those that Groonga may remove with it, and databases that lack only objects of such a set.\<close>

definition goes_with :: "(nat \<times> grn_object) list \<Rightarrow> nat \<Rightarrow> nat \<times> grn_object \<Rightarrow> bool" where
  "goes_with obs i x \<longleftrightarrow> o_domain (snd x) = Some i
     \<or> (\<exists>s\<in>set (o_sources (snd x)). s = i \<or> (\<exists>sob. (s, sob) \<in> set obs \<and> o_domain sob = Some i))"

definition closed_under_removal :: "(nat \<times> grn_object) list \<Rightarrow> nat set \<Rightarrow> bool" where
  "closed_under_removal obs S \<longleftrightarrow> (\<forall>i\<in>S. \<forall>x\<in>set obs. goes_with obs i x \<longrightarrow> fst x \<in> S)"

definition reduced :: "nat set \<Rightarrow> catalog \<Rightarrow> catalog \<Rightarrow> bool" where
  "reduced S cat0 cat \<longleftrightarrow> catalog_wf cat \<and> (\<exists>P. objects cat = filter P (objects cat0) \<and> (\<forall>x\<in>set (objects cat0). \<not> P x \<longrightarrow> fst x \<in> S))"

lemma reduced_subset: "reduced S cat0 cat \<Longrightarrow> set (objects cat) \<subseteq> set (objects cat0)"
  unfolding reduced_def by auto

lemma reduced_wf: "reduced S cat0 cat \<Longrightarrow> catalog_wf cat"
  by (simp add: reduced_def)

lemma reduced_start: "catalog_wf cat \<Longrightarrow> reduced S cat cat"
  unfolding reduced_def by (intro conjI exI [of _ "\<lambda>x. True"]) simp_all

lemma removed_objects:
  assumes "removal_promise env" "catalog_wf cat" "grn_obj_remove env i cat = Some cat'"
  shows "\<exists>R. objects cat' = filter (\<lambda>x. fst x \<notin> R) (objects cat) \<and> i \<in> R \<and> (\<forall>x\<in>set (objects cat). o_domain (snd x) = Some i \<longrightarrow> fst x \<in> R)
    \<and> (\<forall>x\<in>set (objects cat). fst x \<in> R \<longrightarrow> fst x = i \<or> goes_with (objects cat) i x)"
proof -
  have i: "i \<in> fst ` set (objects cat)" and o: "objects cat' = filter (\<lambda>x. fst x \<notin> set (removed_with env (objects cat) i)) (objects cat)"
    using assms(3) by (auto simp: grn_obj_remove_def alive_def case_prod_unfold split: if_splits)
  have "distinct (map fst (objects cat))" using assms(2) by (simp add: catalog_wf_iff)
  then have p: "i \<in> set (removed_with env (objects cat) i)"
    "\<forall>x\<in>set (objects cat). o_domain (snd x) = Some i \<longrightarrow> fst x \<in> set (removed_with env (objects cat) i)"
    "\<forall>x\<in>set (objects cat). fst x \<in> set (removed_with env (objects cat) i) \<longrightarrow> fst x = i \<or> goes_with (objects cat) i x"
    using assms(1) i unfolding removal_promise_def goes_with_def by fastforce+
  show ?thesis by (intro exI [of _ "set (removed_with env (objects cat) i)"] conjI) (use o p in simp_all)
qed

lemma remove_wf:
  assumes "removal_promise env" "catalog_wf cat" "grn_obj_remove env i cat = Some cat'"
  shows "catalog_wf cat'"
proof -
  obtain R where R: "objects cat' = filter (\<lambda>x. fst x \<notin> R) (objects cat)" "\<forall>x\<in>set (objects cat). o_domain (snd x) = Some i \<longrightarrow> fst x \<in> R"
    "\<forall>x\<in>set (objects cat). fst x \<in> R \<longrightarrow> fst x = i \<or> goes_with (objects cat) i x"
    using removed_objects [OF assms] by blast
  have domain: "\<exists>dob. (d, dob) \<in> set (objects cat') \<and> (d, dob) \<in> set (objects cat) \<and> a_table dob"
    if x: "x \<in> set (objects cat')" "o_domain (snd x) = Some d" for x d
  proof -
    have x': "x \<in> set (objects cat)" "fst x \<notin> R" using x(1) R(1) by simp_all
    obtain dob where dob: "(d, dob) \<in> set (objects cat)" "a_table dob" using assms(2) x' x(2) unfolding catalog_wf_iff by blast
    have "d \<notin> R"
    proof
      assume "d \<in> R"
      then have "d = i" using R(3) dob by (fastforce simp: goes_with_def a_table_def)
      then show False using R(2) x' x(2) by blast
    qed
    then show ?thesis using dob R(1) by auto
  qed
  have d1: "distinct (map fst (objects cat'))" using assms(2) R(1) by (simp add: catalog_wf_iff distinct_map_filter)
  have names: "full_name cat' x = full_name cat x" if x: "x \<in> set (objects cat')" for x
  proof (cases "o_domain (snd x)")
    case (Some d)
    obtain dob where "(d, dob) \<in> set (objects cat')" "(d, dob) \<in> set (objects cat)" using domain [OF x Some] by blast
    then have "object_of cat' d = Some dob" "object_of cat d = Some dob" using d1 assms(2) by (simp_all add: object_of_def catalog_wf_iff)
    then show ?thesis using Some by (simp add: full_name_def)
  qed (simp add: full_name_def)
  have "map (full_name cat') (objects cat') = map (full_name cat) (objects cat')" using names by (intro map_cong) simp_all
  also have "distinct \<dots>" using assms(2) R(1) by (simp add: catalog_wf_iff distinct_map_filter)
  finally have d2: "distinct (map (full_name cat') (objects cat'))" .
  have "\<forall>x\<in>set (objects cat'). o_domain (snd x) = None \<longrightarrow> o_sources (snd x) = []" using assms(2) R(1) by (simp add: catalog_wf_iff)
  then show ?thesis using d1 d2 domain unfolding catalog_wf_iff by blast
qed

lemma reduced_remove:
  assumes "removal_promise env" "closed_under_removal (objects cat0) S" "reduced S cat0 cat" "i \<in> S" "grn_obj_remove env i cat = Some cat'"
  shows "reduced S cat0 cat'" "length (objects cat') < length (objects cat)" "\<not> alive cat' i" "\<forall>x\<in>set (objects cat'). o_domain (snd x) \<noteq> Some i"
proof -
  have wf: "catalog_wf cat" by (rule reduced_wf [OF assms(3)])
  obtain R where R: "objects cat' = filter (\<lambda>x. fst x \<notin> R) (objects cat)" "i \<in> R"
    "\<forall>x\<in>set (objects cat). o_domain (snd x) = Some i \<longrightarrow> fst x \<in> R"
    "\<forall>x\<in>set (objects cat). fst x \<in> R \<longrightarrow> fst x = i \<or> goes_with (objects cat) i x"
    using removed_objects [OF assms(1) wf assms(5)] by blast
  obtain P where P: "objects cat = filter P (objects cat0)" "\<forall>x\<in>set (objects cat0). \<not> P x \<longrightarrow> fst x \<in> S" using assms(3) unfolding reduced_def by blast
  have sub: "set (objects cat) \<subseteq> set (objects cat0)" by (rule reduced_subset [OF assms(3)])
  have lost: "fst x \<in> S" if x: "x \<in> set (objects cat)" "fst x \<in> R" for x
  proof -
    have "fst x = i \<or> goes_with (objects cat0) i x" using R(4) x sub unfolding goes_with_def by blast
    then show ?thesis using assms(2,4) x(1) sub unfolding closed_under_removal_def by blast
  qed
  have "objects cat' = filter (\<lambda>x. P x \<and> fst x \<notin> R) (objects cat0)" using R(1) P(1) by simp
  moreover have "\<forall>x\<in>set (objects cat0). \<not> (P x \<and> fst x \<notin> R) \<longrightarrow> fst x \<in> S" using P lost by auto
  ultimately show "reduced S cat0 cat'" using remove_wf [OF assms(1) wf assms(5)] unfolding reduced_def by blast
  have "i \<in> fst ` set (objects cat)" using assms(5) by (auto simp: grn_obj_remove_def alive_def split: if_splits)
  then show "length (objects cat') < length (objects cat)" using R(1,2) by (auto intro: length_filter_less)
  show "\<not> alive cat' i" using R(1,2) by (auto simp: alive_def)
  show "\<forall>x\<in>set (objects cat'). o_domain (snd x) \<noteq> Some i" using R(1,3) by auto
qed

lemma try_remove_reduced:
  assumes "removal_promise env" "closed_under_removal (objects cat0) S" "reduced S cat0 cat" "i \<in> S" "alive cat i"
  obtains "try_remove env renv i cat = Some (False, cat)"
  | cat' where "try_remove env renv i cat = Some (True, cat')" "reduced S cat0 cat'" "length (objects cat') < length (objects cat)"
    "\<not> alive cat' i" "\<forall>x\<in>set (objects cat'). o_domain (snd x) \<noteq> Some i"
proof (cases "refuses_removal renv (objects cat) i")
  case True
  then show ?thesis using that(1) assms(5) by (simp add: try_remove_def)
next
  case False
  obtain cat' where c: "grn_obj_remove env i cat = Some cat'" using assms(5) by (simp add: grn_obj_remove_def)
  then show ?thesis using that(2) reduced_remove [OF assms(1-4) c] False by (simp add: try_remove_def)
qed

section \<open>Dropped tables\<close>

text \<open>What belongs to a table: the table, the index columns over its columns, its index tables, and whatever goes with these.\<close>

definition own_prefix :: "catalog_env \<Rightarrow> string \<Rightarrow> string \<Rightarrow> bool" where
  "own_prefix env nm s \<longleftrightarrow> (\<exists>sep\<in>{SEPARATOR, OLD_SEPARATOR}. let p = snprintf_result (max_key_size env) (nm @ sep) in take (length p) s = p)"

inductive belongs :: "catalog_env \<Rightarrow> catalog \<Rightarrow> string \<Rightarrow> nat \<Rightarrow> nat \<Rightarrow> bool" for env cat nm t where
  Table: "belongs env cat nm t t"
| Index_column: "\<lbrakk>(c, cob) \<in> set (objects cat); o_domain cob = Some t; (ix, ob) \<in> set (objects cat); c \<in> set (o_sources ob)\<rbrakk> \<Longrightarrow> belongs env cat nm t ix"
| Index_table: "\<lbrakk>(c, cob) \<in> set (objects cat); o_domain cob = Some t; (ix, ob) \<in> set (objects cat); c \<in> set (o_sources ob);
    o_domain ob = Some d; (d, dob) \<in> set (objects cat); \<not> is_custom_name nm (o_name dob)\<rbrakk> \<Longrightarrow> belongs env cat nm t d"
| Named_table: "\<lbrakk>(i, ob) \<in> set (objects cat); o_kind ob = Grn_table; o_domain ob = None; (ix, ixob) \<in> set (objects cat); o_range ixob = Some t;
    full_name cat (ix, ixob) = Some (snprintf_result (max_key_size env) (o_name ob @ ''.'' @ INDEX_COLUMN_NAME));
    own_prefix env nm (o_name ob)\<rbrakk> \<Longrightarrow> belongs env cat nm t i"
| Goes_with: "\<lbrakk>belongs env cat nm t i; x \<in> set (objects cat); goes_with (objects cat) i x\<rbrakk> \<Longrightarrow> belongs env cat nm t (fst x)"

abbreviation belongings :: "catalog_env \<Rightarrow> catalog \<Rightarrow> string \<Rightarrow> nat \<Rightarrow> nat set" where
  "belongings env cat nm t \<equiv> Collect (belongs env cat nm t)"

text \<open>A set that has all objects a drop may remove first.\<close>

definition covers :: "catalog_env \<Rightarrow> catalog \<Rightarrow> string \<Rightarrow> nat \<Rightarrow> nat set \<Rightarrow> bool" where
  "covers env cat nm t S \<longleftrightarrow> closed_under_removal (objects cat) S
     \<and> (\<forall>c cob ix ob. (c, cob) \<in> set (objects cat) \<longrightarrow> o_domain cob = Some t \<longrightarrow> (ix, ob) \<in> set (objects cat) \<longrightarrow> c \<in> set (o_sources ob) \<longrightarrow>
          ix \<in> S \<and> (\<forall>d dob. o_domain ob = Some d \<longrightarrow> (d, dob) \<in> set (objects cat) \<longrightarrow> \<not> is_custom_name nm (o_name dob) \<longrightarrow> d \<in> S))
     \<and> (\<forall>i ob ix ixob. (i, ob) \<in> set (objects cat) \<longrightarrow> o_kind ob = Grn_table \<longrightarrow> o_domain ob = None \<longrightarrow> (ix, ixob) \<in> set (objects cat) \<longrightarrow> o_range ixob = Some t \<longrightarrow>
          full_name cat (ix, ixob) = Some (snprintf_result (max_key_size env) (o_name ob @ ''.'' @ INDEX_COLUMN_NAME)) \<longrightarrow>
          own_prefix env nm (o_name ob) \<longrightarrow> i \<in> S)"

lemma coversD:
  assumes "covers env cat nm t S"
  shows "closed_under_removal (objects cat) S"
    "\<lbrakk>(c, cob) \<in> set (objects cat); o_domain cob = Some t; (ix, ob) \<in> set (objects cat); c \<in> set (o_sources ob)\<rbrakk> \<Longrightarrow> ix \<in> S"
    "\<lbrakk>(c, cob) \<in> set (objects cat); o_domain cob = Some t; (ix, ob) \<in> set (objects cat); c \<in> set (o_sources ob);
      o_domain ob = Some d; (d, dob) \<in> set (objects cat); \<not> is_custom_name nm (o_name dob)\<rbrakk> \<Longrightarrow> d \<in> S"
    "\<lbrakk>(i, tob) \<in> set (objects cat); o_kind tob = Grn_table; o_domain tob = None; (ix, ob) \<in> set (objects cat); o_range ob = Some t;
      full_name cat (ix, ob) = Some (snprintf_result (max_key_size env) (o_name tob @ ''.'' @ INDEX_COLUMN_NAME)); own_prefix env nm (o_name tob)\<rbrakk> \<Longrightarrow> i \<in> S"
  using assms unfolding covers_def by blast+

lemma belongings_cover: "covers env cat nm t (belongings env cat nm t)"
  unfolding covers_def
proof (intro conjI)
  show "closed_under_removal (objects cat) (belongings env cat nm t)"
    unfolding closed_under_removal_def using belongs.Goes_with by blast
  show "\<forall>c cob ix ob. (c, cob) \<in> set (objects cat) \<longrightarrow> o_domain cob = Some t \<longrightarrow> (ix, ob) \<in> set (objects cat) \<longrightarrow> c \<in> set (o_sources ob) \<longrightarrow>
      ix \<in> belongings env cat nm t \<and> (\<forall>d dob. o_domain ob = Some d \<longrightarrow> (d, dob) \<in> set (objects cat) \<longrightarrow> \<not> is_custom_name nm (o_name dob)
        \<longrightarrow> d \<in> belongings env cat nm t)"
    by (intro allI impI conjI CollectI) (erule (3) belongs.Index_column, erule (6) belongs.Index_table)
  show "\<forall>i ob ix ixob. (i, ob) \<in> set (objects cat) \<longrightarrow> o_kind ob = Grn_table \<longrightarrow> o_domain ob = None \<longrightarrow> (ix, ixob) \<in> set (objects cat) \<longrightarrow> o_range ixob = Some t \<longrightarrow>
      full_name cat (ix, ixob) = Some (snprintf_result (max_key_size env) (o_name ob @ ''.'' @ INDEX_COLUMN_NAME)) \<longrightarrow> own_prefix env nm (o_name ob)
      \<longrightarrow> i \<in> belongings env cat nm t"
    by (intro allI impI CollectI) (erule (6) belongs.Named_table)
qed

lemma reduced_name:
  assumes "reduced S cat0 cat" "catalog_wf cat0" "x \<in> set (objects cat)"
  shows "full_name cat x = full_name cat0 x"
proof (cases "o_domain (snd x)")
  case (Some d)
  obtain dob where "object_of cat d = Some dob" using domain_there [OF reduced_wf [OF assms(1)] assms(3) Some] by blast
  moreover from this have "object_of cat0 d = Some dob"
    using object_of_iff [OF reduced_wf [OF assms(1)]] object_of_iff [OF assms(2)] reduced_subset [OF assms(1)] by blast
  ultimately show ?thesis using Some by (simp add: full_name_def)
qed (simp add: full_name_def)

lemma drop_column_indexes_reduced:
  assumes "removal_promise env" "finds renv usable" "covers env cat0 nm t S" "(c, cob) \<in> set (objects cat0)" "o_domain cob = Some t"
  shows "reduced S cat0 cat \<Longrightarrow> length (objects cat) < fuel
    \<Longrightarrow> \<exists>e cat'. drop_column_indexes env renv nm c opr fuel cat = Some (e, cat') \<and> reduced S cat0 cat'
      \<and> set (objects cat') \<subseteq> set (objects cat) \<and> (e = None \<longrightarrow> find_index renv (objects cat') c opr = None)"
proof (induction fuel arbitrary: cat)
  case (Suc fuel)
  note wf = reduced_wf [OF Suc.prems(1)] and sub = reduced_subset [OF Suc.prems(1)]
  show ?case
  proof (cases "find_index renv (objects cat) c opr")
    case None
    then show ?thesis using Suc.prems(1) by simp
  next
    case (Some ix)
    obtain ob where ob: "(ix, ob) \<in> set (objects cat)" "c \<in> set (o_sources ob)"
      by (rule finds_cases [OF assms(2), of "objects cat" c opr]) (use Some in auto)
    obtain d where d: "o_domain ob = Some d" using wf ob unfolding catalog_wf_iff by fastforce
    have "object_of cat ix = Some ob" using object_of_iff [OF wf] ob(1) by blast
    moreover obtain dob where dob: "object_of cat d = Some dob" using domain_there [OF wf ob(1)] d by auto
    define i where "i = (if is_custom_name nm (o_name dob) then ix else d)"
    have in0: "(ix, ob) \<in> set (objects cat0)" "(d, dob) \<in> set (objects cat0)" using ob(1) dob object_of_iff [OF wf] sub by blast+
    have i: "i \<in> S" "alive cat i"
    proof -
      have "ix \<in> S" "\<not> is_custom_name nm (o_name dob) \<longrightarrow> d \<in> S"
        using assms(3-5) in0 ob(2) d unfolding covers_def by blast+
      then show "i \<in> S" unfolding i_def by simp
      show "alive cat i" using ob(1) dob object_of_iff [OF wf] unfolding i_def alive_def by (simp add: rev_image_eqI)
    qed
    have closed: "closed_under_removal (objects cat0) S" using assms(3) unfolding covers_def by blast
    have step: "drop_column_indexes env renv nm c opr (Suc fuel) cat = Option.bind (try_remove env renv i cat)
       (\<lambda>(ok, cat1). if ok then drop_column_indexes env renv nm c opr fuel cat1 else Some (Some ER_ERROR_ON_WRITE, cat1))"
      using Some calculation d dob by (simp add: i_def)
    show ?thesis
    proof (rule try_remove_reduced [OF assms(1) closed Suc.prems(1) i, of renv])
      assume "try_remove env renv i cat = Some (False, cat)"
      then show ?thesis using step Suc.prems(1) by simp
    next
      fix cat1 assume r: "try_remove env renv i cat = Some (True, cat1)" "reduced S cat0 cat1"
        "length (objects cat1) < length (objects cat)"
      have "set (objects cat1) \<subseteq> set (objects cat)"
        using r(1) by (auto simp: try_remove_def grn_obj_remove_def split: if_splits)
      then show ?thesis using Suc.IH [OF r(2)] r(1,3) Suc.prems(2) step by fastforce
    qed
  qed
qed simp

lemma find_index_antimono:
  assumes "finds renv usable" "find_index renv obs c opr = None" "set obs' \<subseteq> set obs"
  shows "find_index renv obs' c opr = None"
proof (rule finds_cases [OF assms(1), of obs' c opr])
  fix ix ob assume i: "find_index renv obs' c opr = Some ix" "(ix, ob) \<in> set obs'" "c \<in> set (o_sources ob)" "usable ob opr"
  show ?thesis by (rule finds_cases [OF assms(1), of obs c opr]) (use i assms(2,3) in force)+
qed

lemma drop_for_operators_reduced:
  assumes "removal_promise env" "finds renv usable" "covers env cat0 nm t S" "(c, cob) \<in> set (objects cat0)" "o_domain cob = Some t"
  shows "reduced S cat0 cat \<Longrightarrow> \<exists>e cat'. drop_for_operators env renv nm c oprs cat = Some (e, cat') \<and> reduced S cat0 cat'
      \<and> set (objects cat') \<subseteq> set (objects cat) \<and> (e = None \<longrightarrow> (\<forall>opr\<in>set oprs. find_index renv (objects cat') c opr = None))"
proof (induction oprs arbitrary: cat)
  case (Cons opr oprs)
  obtain e cat1 where one: "drop_column_indexes env renv nm c opr (Suc (length (objects cat))) cat = Some (e, cat1)" "reduced S cat0 cat1"
    "set (objects cat1) \<subseteq> set (objects cat)" "e = None \<longrightarrow> find_index renv (objects cat1) c opr = None"
    using drop_column_indexes_reduced [OF assms Cons.prems lessI] by blast
  show ?case
  proof (cases e)
    case None
    obtain e2 cat2 where two: "drop_for_operators env renv nm c oprs cat1 = Some (e2, cat2)" "reduced S cat0 cat2"
      "set (objects cat2) \<subseteq> set (objects cat1)" "e2 = None \<longrightarrow> (\<forall>opr\<in>set oprs. find_index renv (objects cat2) c opr = None)"
      using Cons.IH [OF one(2)] by blast
    have "find_index renv (objects cat2) c opr = None" using find_index_antimono [OF assms(2) _ two(3)] one(4) None by blast
    then show ?thesis using one two None by auto
  next
    case (Some _)
    then show ?thesis using one by simp
  qed
qed simp

lemma no_index_left:
  assumes "finds renv usable" "\<forall>opr\<in>set index_operators. find_index renv obs c opr = None" "x \<in> set obs"
  shows "c \<notin> set (o_sources (snd x))"
proof
  assume c: "c \<in> set (o_sources (snd x))"
  obtain opr where opr: "usable (snd x) opr" using assms(1) unfolding finds_def by blast
  have "opr \<in> set index_operators" by (cases opr) (simp_all add: index_operators_def)
  then have "find_index renv obs c opr = None" using assms(2) by blast
  then show False by (rule_tac finds_cases [OF assms(1), of obs c opr]) (use assms(3) c opr in auto)
qed

lemma drop_for_columns_reduced:
  assumes "removal_promise env" "finds renv usable" "covers env cat0 nm t S"
  shows "reduced S cat0 cat \<Longrightarrow> \<forall>c\<in>set cs. \<exists>cob. (c, cob) \<in> set (objects cat0) \<and> o_domain cob = Some t
    \<Longrightarrow> \<exists>e cat'. drop_for_columns env renv nm cs cat = Some (e, cat') \<and> reduced S cat0 cat' \<and> set (objects cat') \<subseteq> set (objects cat)
      \<and> (e = None \<longrightarrow> (\<forall>c\<in>set cs. alive cat' c \<longrightarrow> (\<forall>x\<in>set (objects cat'). c \<notin> set (o_sources (snd x)))))"
proof (induction cs arbitrary: cat)
  case (Cons c cs)
  have cs: "\<forall>c\<in>set cs. \<exists>cob. (c, cob) \<in> set (objects cat0) \<and> o_domain cob = Some t" using Cons.prems(2) by simp
  show ?case
  proof (cases "alive cat c")
    case False
    obtain e cat' where r: "drop_for_columns env renv nm cs cat = Some (e, cat')" "reduced S cat0 cat'" "set (objects cat') \<subseteq> set (objects cat)"
      "e = None \<longrightarrow> (\<forall>c\<in>set cs. alive cat' c \<longrightarrow> (\<forall>x\<in>set (objects cat'). c \<notin> set (o_sources (snd x))))"
      using Cons.IH [OF Cons.prems(1) cs] by blast
    then have "\<not> alive cat' c" using False by (auto simp: alive_def)
    then show ?thesis using r False by simp
  next
    case True
    obtain cob where cob: "(c, cob) \<in> set (objects cat0)" "o_domain cob = Some t" using Cons.prems(2) by auto
    obtain e cat1 where one: "drop_for_operators env renv nm c index_operators cat = Some (e, cat1)" "reduced S cat0 cat1"
      "set (objects cat1) \<subseteq> set (objects cat)" "e = None \<longrightarrow> (\<forall>opr\<in>set index_operators. find_index renv (objects cat1) c opr = None)"
      using drop_for_operators_reduced [OF assms cob Cons.prems(1)] by blast
    show ?thesis
    proof (cases e)
      case None
      then have gone: "\<forall>x\<in>set (objects cat1). c \<notin> set (o_sources (snd x))" using no_index_left [OF assms(2)] one(4) by blast
      obtain e2 cat2 where two: "drop_for_columns env renv nm cs cat1 = Some (e2, cat2)" "reduced S cat0 cat2" "set (objects cat2) \<subseteq> set (objects cat1)"
        "e2 = None \<longrightarrow> (\<forall>c\<in>set cs. alive cat2 c \<longrightarrow> (\<forall>x\<in>set (objects cat2). c \<notin> set (o_sources (snd x))))"
        using Cons.IH [OF one(2) cs] by blast
      have "\<forall>x\<in>set (objects cat2). c \<notin> set (o_sources (snd x))" using gone two(3) by blast
      then show ?thesis using one two True None by auto
    next
      case (Some _)
      then show ?thesis using one True by simp
    qed
  qed
qed simp

lemma drop_named_tables_reduced:
  assumes "removal_promise env" "catalog_wf cat0" "covers env cat0 nm t S"
  shows "reduced S cat0 cat \<Longrightarrow> \<forall>i\<in>set is. \<forall>ob. (i, ob) \<in> set (objects cat0) \<longrightarrow> own_prefix env nm (o_name ob) \<and> o_domain ob = None
    \<Longrightarrow> \<exists>e cat'. drop_named_tables env renv t is cat = Some (e, cat') \<and> reduced S cat0 cat' \<and> set (objects cat') \<subseteq> set (objects cat)"
proof (induction "is" arbitrary: cat)
  case (Cons i "is")
  note wf = reduced_wf [OF Cons.prems(1)] and sub = reduced_subset [OF Cons.prems(1)]
  have rest: "\<exists>e cat'. drop_named_tables env renv t is c1 = Some (e, cat') \<and> reduced S cat0 cat' \<and> set (objects cat') \<subseteq> set (objects c1)"
    if "reduced S cat0 c1" for c1 using Cons.IH [OF that] Cons.prems(2) by simp
  show ?case
  proof (cases "object_of cat i")
    case None
    then show ?thesis using rest [OF Cons.prems(1)] by simp
  next
    case (Some ob)
    then have ob: "(i, ob) \<in> set (objects cat)" using object_of_iff [OF wf] by blast
    define full where "full = snprintf_result (max_key_size env) (o_name ob @ ''.'' @ INDEX_COLUMN_NAME)"
    define found where "found = (if o_kind ob \<noteq> Grn_table then None else Option.bind (ctx_get cat full) (object_of cat))"
    have step: "drop_named_tables env renv t (i # is) cat = (case found of None \<Rightarrow> drop_named_tables env renv t is cat
      | Some ixob \<Rightarrow> if o_range ixob \<noteq> Some t then drop_named_tables env renv t is cat
         else Option.bind (try_remove env renv i cat) (\<lambda>(ok, cat1). if ok then drop_named_tables env renv t is cat1 else Some (Some ER_ERROR_ON_WRITE, cat1)))"
      using Some by (simp add: found_def full_def)
    show ?thesis
    proof (cases "\<exists>ixob. found = Some ixob \<and> o_range ixob = Some t")
      case False
      then have "drop_named_tables env renv t (i # is) cat = drop_named_tables env renv t is cat" unfolding step by (auto split: option.split)
      then show ?thesis using rest [OF Cons.prems(1)] by simp
    next
      case True
      then obtain ix ixob where ix: "found = Some ixob" "o_range ixob = Some t" "o_kind ob = Grn_table" "ctx_get cat full = Some ix" "object_of cat ix = Some ixob"
        by (auto simp: found_def bind_eq_Some_conv split: if_splits)
      have ixin: "(ix, ixob) \<in> set (objects cat)" using ix(5) object_of_iff [OF wf] by blast
      have "full_name cat (ix, ixob) = Some full" using ix(4,5) ctx_get_iff [OF wf] object_of_iff [OF wf] by (metis option.inject)
      then have "full_name cat0 (ix, ixob) = Some full" using reduced_name [OF Cons.prems(1) assms(2) ixin] by simp
      then have i: "i \<in> S" using coversD(4) [OF assms(3) _ ix(3) _ _ ix(2)] ob ixin sub Cons.prems(2) unfolding full_def by (meson list.set_intros(1) subsetD)
      have alive: "alive cat i" using ob by (auto simp: alive_def intro: rev_image_eqI)
      have closed: "closed_under_removal (objects cat0) S" using assms(3) unfolding covers_def by blast
      show ?thesis
      proof (rule try_remove_reduced [OF assms(1) closed Cons.prems(1) i alive, of renv])
        assume "try_remove env renv i cat = Some (False, cat)"
        then show ?thesis using step ix(1,2) Cons.prems(1) by simp
      next
        fix cat1 assume r: "try_remove env renv i cat = Some (True, cat1)" "reduced S cat0 cat1"
        have "set (objects cat1) \<subseteq> set (objects cat)" using r(1) by (auto simp: try_remove_def grn_obj_remove_def split: if_splits)
        then show ?thesis using rest [OF r(2)] step ix(1,2) r(1) by fastforce
      qed
    qed
  qed
qed simp

lemma drop_indexes_multiple_reduced:
  assumes "removal_promise env" "catalog_wf cat0" "covers env cat0 nm t S" "reduced S cat0 cat" "sep \<in> {SEPARATOR, OLD_SEPARATOR}"
  shows "\<exists>e cat'. drop_indexes_multiple env renv nm t sep cat = Some (e, cat') \<and> reduced S cat0 cat' \<and> set (objects cat') \<subseteq> set (objects cat)"
  unfolding drop_indexes_multiple_def
proof (rule drop_named_tables_reduced [OF assms(1-4)], intro ballI allI impI)
  let ?p = "snprintf_result (max_key_size env) (nm @ sep)"
  fix i ob assume i: "i \<in> set (tables_with_prefix cat ?p)" "(i, ob) \<in> set (objects cat0)"
  then obtain ob' where ob': "(i, ob') \<in> set (objects cat)" "o_domain ob' = None" "take (length ?p) (o_name ob') = ?p"
    by (auto simp: tables_with_prefix_def)
  have "ob' = ob"
    using i(2) ob'(1) reduced_subset [OF assms(4)] object_of_iff [OF assms(2)] by (metis option.inject subsetD)
  then show "own_prefix env nm (o_name ob) \<and> o_domain ob = None" using ob'(2,3) assms(5) by (auto simp: own_prefix_def Let_def)
qed

lemma drop_indexes_reduced:
  assumes "removal_promise env" "finds renv usable" "catalog_wf cat" "ctx_get cat nm = Some t" "covers env cat nm t S"
  shows "\<exists>e cat'. drop_indexes env renv nm cat = Some (e, cat') \<and> reduced S cat cat'
    \<and> (e = None \<longrightarrow> (\<forall>c\<in>set (columns_of cat t). alive cat' c \<longrightarrow> (\<forall>x\<in>set (objects cat'). c \<notin> set (o_sources (snd x)))))"
proof -
  have cs: "\<forall>c\<in>set (columns_of cat t). \<exists>cob. (c, cob) \<in> set (objects cat) \<and> o_domain cob = Some t" by (auto simp: columns_of_def)
  obtain e1 cat1 where one: "drop_indexes_normal env renv nm t cat = Some (e1, cat1)" "reduced S cat cat1"
    "e1 = None \<longrightarrow> (\<forall>c\<in>set (columns_of cat t). alive cat1 c \<longrightarrow> (\<forall>x\<in>set (objects cat1). c \<notin> set (o_sources (snd x))))"
    using drop_for_columns_reduced [OF assms(1,2,5) reduced_start [OF assms(3)] cs] unfolding drop_indexes_normal_def by blast
  have later: "(\<forall>c\<in>set (columns_of cat t). alive c2 c \<longrightarrow> (\<forall>x\<in>set (objects c2). c \<notin> set (o_sources (snd x))))"
    if "e1 = None" "set (objects c2) \<subseteq> set (objects cat1)" for c2
    using one(3) that unfolding alive_def by blast
  show ?thesis
  proof (cases e1)
    case None
    obtain e2 cat2 where two: "drop_indexes_multiple env renv nm t SEPARATOR cat1 = Some (e2, cat2)" "reduced S cat cat2"
      "set (objects cat2) \<subseteq> set (objects cat1)"
      using drop_indexes_multiple_reduced [OF assms(1,3,5) one(2)] by blast
    obtain e3 cat3 where three: "drop_indexes_multiple env renv nm t OLD_SEPARATOR cat2 = Some (e3, cat3)" "reduced S cat cat3"
      "set (objects cat3) \<subseteq> set (objects cat2)"
      using drop_indexes_multiple_reduced [OF assms(1,3,5) two(2)] by blast
    show ?thesis
    proof (cases e2)
      case None
      then show ?thesis using later [OF \<open>e1 = None\<close>, of cat3] one(1) two(1,3) three \<open>e1 = None\<close> assms(4) by (simp add: drop_indexes_def)
    next
      case (Some _)
      then show ?thesis using one(1) two(1,2) \<open>e1 = None\<close> assms(4) by (simp add: drop_indexes_def)
    qed
  next
    case (Some _)
    then show ?thesis using one(1,2) assms(4) by (simp add: drop_indexes_def)
  qed
qed

text \<open>C21: dropping a table always returns, with success or with an error: no removed object is used again, and the loop over the indexes of a
  column ends, whatever removals Groonga refuses.\<close>

theorem drop_returns:
  assumes "removal_promise env" "finds renv usable" "catalog_wf cat"
  shows "generic_delete_table env renv drop_db nm cat \<noteq> None"
proof (cases "ctx_get cat nm")
  case None
  then show ?thesis by (simp add: generic_delete_table_def drop_indexes_def)
next
  case (Some t)
  obtain e cat1 where one: "drop_indexes env renv nm cat = Some (e, cat1)" "reduced (belongings env cat nm t) cat cat1"
    using drop_indexes_reduced [OF assms Some belongings_cover] by blast
  have "alive cat1 i" if "ctx_get cat1 nm = Some i" for i
    using that ctx_get_iff [OF reduced_wf [OF one(2)]] by (auto simp: alive_def intro: rev_image_eqI)
  moreover have "try_remove env renv i cat1 \<noteq> None" if "alive cat1 i" for i
    using that by (cases "refuses_removal renv (objects cat1) i") (simp_all add: try_remove_def grn_obj_remove_def)
  ultimately have "try_remove env renv i cat1 \<noteq> None" if "ctx_get cat1 nm = Some i" for i using that by blast
  then show ?thesis using one(1) by (cases "ctx_get cat1 nm") (fastforce simp: generic_delete_table_def)+
qed

lemma belongings_closed: "closed_under_removal (objects cat) (belongings env cat nm t)"
  by (rule coversD(1) [OF belongings_cover])

lemma data_columns_cover:
  assumes "catalog_wf cat" "object_of cat t = Some tob" "a_table tob" "o_name tob = nm" "length nm + 1 < max_key_size env"
  shows "covers env cat nm t {j. j \<noteq> t \<and> \<not> (\<exists>cob. (j, cob) \<in> set (objects cat) \<and> o_domain cob = Some t \<and> o_sources cob = [])}"
    (is "covers env cat nm t ?S")
proof -
  have unique: "ob = ob'" if "(i, ob) \<in> set (objects cat)" "(i, ob') \<in> set (objects cat)" for i ob ob'
    using that object_of_iff [OF assms(1)] by (metis option.inject)
  have t: "(t, tob) \<in> set (objects cat)" using assms(1,2) object_of_iff by blast
  have closed: "closed_under_removal (objects cat) ?S"
    unfolding closed_under_removal_def
  proof (intro ballI impI)
    fix i x assume i: "i \<in> ?S" "x \<in> set (objects cat)" "goes_with (objects cat) i x"
    have "x = (fst x, snd x)" by simp
    then have x: "(fst x, snd x) \<in> set (objects cat)" using i(2) by simp
    have "fst x \<noteq> t" using unique [OF x] t i(3) assms(3) by (auto simp: goes_with_def a_table_def)
    moreover have "\<not> (o_domain cob = Some t \<and> o_sources cob = [])" if "(fst x, cob) \<in> set (objects cat)" for cob
      using unique [OF x that] i(1,3) by (auto simp: goes_with_def)
    ultimately show "fst x \<in> ?S" by blast
  qed
  have columns: "ix \<in> ?S" if "(ix, ob) \<in> set (objects cat)" "s \<in> set (o_sources ob)" for ix ob s
    using unique [OF that(1)] that(2) t assms(3) by (auto simp: a_table_def)
  have tables: "d \<in> ?S" if "(d, dob) \<in> set (objects cat)" "o_domain dob = None" "d \<noteq> t" for d dob
    using unique [OF that(1)] that(2,3) by force
  have custom: "is_custom_name nm nm" by (simp add: is_custom_name_def)
  have prefix: "\<not> own_prefix env nm nm"
    using assms(5) by (auto simp: own_prefix_def snprintf_result_def SEPARATOR_def OLD_SEPARATOR_def Let_def dest: arg_cong [of _ _ length])
  show ?thesis
    unfolding covers_def
  proof (intro conjI allI impI)
    show "closed_under_removal (objects cat) ?S" by (rule closed)
  next
    fix c cob ix ob assume "(ix, ob) \<in> set (objects cat)" "c \<in> set (o_sources ob)"
    then show "ix \<in> ?S" by (rule columns)
  next
    fix c cob ix ob d dob
    assume a: "(ix, ob) \<in> set (objects cat)" "o_domain ob = Some d" "(d, dob) \<in> set (objects cat)" "\<not> is_custom_name nm (o_name dob)"
    obtain dob' where "(d, dob') \<in> set (objects cat)" "a_table dob'" using assms(1) a(1,2) unfolding catalog_wf_iff by fastforce
    then have "o_domain dob = None" using unique a(3) by (auto simp: a_table_def)
    moreover have "d \<noteq> t" using unique [OF a(3)] t a(4) assms(4) custom by auto
    ultimately show "d \<in> ?S" using tables a(3) by blast
  next
    fix i ob ix ixob assume a: "(i, ob) \<in> set (objects cat)" "o_domain ob = None" "own_prefix env nm (o_name ob)"
    have "i \<noteq> t" using unique [OF a(1)] t a(3) assms(4) prefix by auto
    then show "i \<in> ?S" by (rule tables [OF a(1,2)])
  qed
qed


section \<open>A database\<close>

definition sample_removal_env :: removal_env where
  "sample_removal_env = \<lparr>refuses_removal = (\<lambda>obs i. False), find_index = (\<lambda>obs c opr. map_option fst (find (\<lambda>x. c \<in> set (o_sources (snd x))) obs)),
     removed_dependent = remove_closed\<rparr>"

lemma sample_finds: "finds sample_removal_env (\<lambda>ob opr. True)"
  unfolding finds_def
proof (intro conjI allI)
  fix obs :: "(nat \<times> grn_object) list" and c opr
  show "case find_index sample_removal_env obs c opr of None \<Rightarrow> \<forall>x\<in>set obs. c \<in> set (o_sources (snd x)) \<longrightarrow> \<not> True
      | Some ix \<Rightarrow> \<exists>ob. (ix, ob) \<in> set obs \<and> c \<in> set (o_sources ob) \<and> True"
  proof (cases "find (\<lambda>x. c \<in> set (o_sources (snd x))) obs")
    case None
    then have "\<forall>x\<in>set obs. c \<notin> set (o_sources (snd x))" unfolding find_None_iff by blast
    then show ?thesis using None by (simp add: sample_removal_env_def)
  next
    case (Some x)
    then have "x \<in> set obs" "c \<in> set (o_sources (snd x))" unfolding find_Some_iff using nth_mem by metis+
    then show ?thesis using Some by (auto simp: sample_removal_env_def intro!: exI [of _ "snd x"])
  qed
qed blast

text \<open>A table with an index table of its own and an index column in a lexicon of the user.\<close>

definition indexed_catalog :: catalog where
  "indexed_catalog = \<lparr>objects = (7, (new_object ''title'' Grn_column (Some 4) (Some 2) 0)\<lparr>o_sources := [3]\<rparr>)
       # (6, (new_object ''index'' Grn_column (Some 5) (Some 2) 0)\<lparr>o_sources := [3]\<rparr>) # (5, new_object ''diaries#title'' Grn_table None (Some 1) 0)
       # objects diaries_catalog, next_object = 8\<rparr>"

lemma indexed_catalog_wf: "catalog_wf indexed_catalog"
  by code_simp

theorem drop_returns_witness: "generic_delete_table (sample_catalog_env []) sample_removal_env True ''diaries'' indexed_catalog \<noteq> None"
  by (rule drop_returns [OF sample_catalog_ok(2) sample_finds indexed_catalog_wf])


text \<open>An index that Groonga refuses to remove is taken for a removed one in \<^verbatim>\<open>ALTER TABLE ... DROP INDEX\<close>, and the same in \<^verbatim>\<open>DROP TABLE\<close> gives
  an error, but the table is removed.\<close>

lemma refused_drops:
  "drop_index (sample_catalog_env []) (sample_removal_env\<lparr>refuses_removal := (\<lambda>obs i. i = 5)\<rparr>) ''diaries'' (title_key []) indexed_catalog = Some indexed_catalog"
  "map_option (\<lambda>(e, cat'). (e, map fst (objects cat')))
      (generic_delete_table (sample_catalog_env []) (sample_removal_env\<lparr>refuses_removal := (\<lambda>obs i. i = 7)\<rparr>) False ''diaries'' indexed_catalog)
    = Some (Some ER_ERROR_ON_WRITE, [5, 4, 1, 0])"
  by code_simp+

end
