(* ===== verification/Table_Changes.thy ===== *)
theory Table_Changes
  imports Table_Removal
begin

text \<open>
  Renaming tables and changing their columns (\<^verbatim>\<open>storage_rename_table\<close>, \<^verbatim>\<open>storage_rename_foreign_key\<close> and
  \<^verbatim>\<open>storage_inplace_alter_table_*\<close> of \<^verbatim>\<open>ha_mroonga.cpp\<close>) as changes of the objects of Groonga's database. Groonga may refuse a name. The
  shares of the table are in \<^verbatim>\<open>Table_Share\<close>, its auto increment value in \<^verbatim>\<open>Auto_Increment\<close>; the values of generated columns are
  computed by a parameter.
\<close>

section \<open>Renaming a table\<close>

type_synonym rename_env = "(nat \<times> grn_object) list \<Rightarrow> nat \<Rightarrow> string \<Rightarrow> bool"

definition try_rename :: "rename_env \<Rightarrow> nat \<Rightarrow> string \<Rightarrow> catalog \<Rightarrow> (bool \<times> catalog) option" where
  "try_rename refuses_name i nm cat =
     (if alive cat i \<and> refuses_name (objects cat) i nm then Some (False, cat)
      else map_option (Pair True) (grn_obj_set_info i (\<lambda>ob. ob\<lparr>o_name := nm\<rparr>) cat))"

abbreviation index_name :: "catalog_env \<Rightarrow> string \<Rightarrow> string \<Rightarrow> string" where
  "index_name env table_nm key_nm \<equiv> index_table_name.name (IndexTableName (ca_mb_wc env) (ca_wc_mb env) (max_key_size env) table_nm key_nm)"

fun rename_index_tables :: "catalog_env \<Rightarrow> rename_env \<Rightarrow> string \<Rightarrow> string \<Rightarrow> string list \<Rightarrow> catalog \<Rightarrow> (removal_error option \<times> catalog) option" where
  "rename_index_tables env refuses_name from_nm to_nm [] cat = Some (None, cat)"
| "rename_index_tables env refuses_name from_nm to_nm (k # ks) cat =
     (case index_table_of env from_nm k cat of
        None \<Rightarrow> rename_index_tables env refuses_name from_nm to_nm ks cat
      | Some i \<Rightarrow> do {
          (ok, cat1) \<leftarrow> try_rename refuses_name i (index_name env to_nm k) cat;
          (if ok then rename_index_tables env refuses_name from_nm to_nm ks cat1 else Some (Some ER_CANT_OPEN_FILE, cat1)) })"

text \<open>The index column of a foreign key in the table that it refers to.\<close>

definition foreign_key_index :: "catalog_env \<Rightarrow> catalog \<Rightarrow> string \<Rightarrow> string \<Rightarrow> nat option" where
  "foreign_key_index env cat table_nm field_nm =
     (if \<not> is_foreign_key_field env cat table_nm field_nm then None
      else Option.bind (ctx_get cat table_nm) (\<lambda>t.
        Option.bind (obj_column cat t (column_name env field_nm)) (\<lambda>c.
        Option.bind (Option.bind (object_of cat c) o_range) (\<lambda>ref.
          obj_column cat ref (IndexColumnName (ca_mb_wc env) (ca_wc_mb env) (max_key_size env) table_nm (column_name env field_nm))))))"

fun storage_rename_foreign_key ::
    "catalog_env \<Rightarrow> rename_env \<Rightarrow> string \<Rightarrow> string \<Rightarrow> string list \<Rightarrow> catalog \<Rightarrow> (removal_error option \<times> catalog) option" where
  "storage_rename_foreign_key env refuses_name from_nm to_nm [] cat = Some (None, cat)"
| "storage_rename_foreign_key env refuses_name from_nm to_nm (f # fs) cat =
     (case foreign_key_index env cat from_nm f of
        None \<Rightarrow> storage_rename_foreign_key env refuses_name from_nm to_nm fs cat
      | Some c \<Rightarrow> do {
          (ok, cat1) \<leftarrow> try_rename refuses_name c (IndexColumnName (ca_mb_wc env) (ca_wc_mb env) (max_key_size env) to_nm (column_name env f)) cat;
          (if ok then storage_rename_foreign_key env refuses_name from_nm to_nm fs cat1 else Some (Some ER_CANT_OPEN_FILE, cat1)) })"

definition storage_rename_table ::
    "catalog_env \<Rightarrow> rename_env \<Rightarrow> string \<Rightarrow> string \<Rightarrow> string list \<Rightarrow> string list \<Rightarrow> catalog \<Rightarrow> (removal_error option \<times> catalog) option" where
  "storage_rename_table env refuses_name from_nm to_nm keys fields_nm cat = do {
     (e1, cat1) \<leftarrow> rename_index_tables env refuses_name from_nm to_nm keys cat;
     (if e1 \<noteq> None then Some (e1, cat1)
      else do {
        (e2, cat2) \<leftarrow> storage_rename_foreign_key env refuses_name from_nm to_nm fields_nm cat1;
        (if e2 \<noteq> None then Some (e2, cat2)
         else (case ctx_get cat2 from_nm of
             None \<Rightarrow> Some (Some ER_CANT_OPEN_FILE, cat2)
           | Some t \<Rightarrow> do {
               (ok, cat3) \<leftarrow> try_rename refuses_name t to_nm cat2;
               Some (if ok then None else Some ER_CANT_OPEN_FILE, cat3) })) }) }"


section \<open>Changing columns\<close>

text \<open>What happens when the values of a stored generated column are computed.\<close>

datatype generated = Not_generated | Generated | Generation_failed | Value_not_written

text \<open>The values of a new stored column, record by record, with what the column holds behind: every value is written to the record that the
  handler has seen last.\<close>

fun fill_generated ::
    "(nat \<Rightarrow> 'v option) \<Rightarrow> (nat \<Rightarrow> 'v \<Rightarrow> bool) \<Rightarrow> nat \<Rightarrow> nat list \<Rightarrow> (nat \<rightharpoonup> 'v) \<Rightarrow> generated \<times> (nat \<rightharpoonup> 'v)" where
  "fill_generated compute refuses_value record_id [] column = (Generated, column)"
| "fill_generated compute refuses_value record_id (r # rs) column =
     (case compute r of
        None \<Rightarrow> (Generation_failed, column)
      | Some v \<Rightarrow>
          if refuses_value record_id v then (Value_not_written, column)
          else fill_generated compute refuses_value record_id rs (column(record_id \<mapsto> v)))"

text \<open>One new column. Only a failed creation ends the loop: a failed generation removes the column again and goes on with the next one, and
  a value that is not written is no error.\<close>

datatype add_outcome = Added | Added_nothing | Stop

definition add_column :: "catalog_env \<Rightarrow> (new_field \<Rightarrow> generated) \<Rightarrow> nat \<Rightarrow> new_field \<Rightarrow> catalog \<Rightarrow> (add_outcome \<times> catalog) option" where
  "add_column env gen table_obj f cat =
     (if nf_virtual f then Some (Added, cat)
      else (case find_column_type env f cat of
          None \<Rightarrow> Some (Stop, cat)
        | Some ty \<Rightarrow> do {
            (c, cat1) \<leftarrow> column_create env table_obj (column_name env (field_name (nf_field f))) (column_flags env f) ty cat;
            (case c of
               None \<Rightarrow> Some (Stop, cat1)
             | Some col \<Rightarrow>
                 if gen f = Generation_failed then do { cat2 \<leftarrow> grn_obj_remove env col cat1; Some (Added_nothing, cat2) }
                 else Some (Added, cat1)) }))"

fun add_columns :: "catalog_env \<Rightarrow> (new_field \<Rightarrow> generated) \<Rightarrow> nat \<Rightarrow> new_field list \<Rightarrow> catalog \<Rightarrow> (bool \<times> catalog) option" where
  "add_columns env gen table_obj [] cat = Some (False, cat)"
| "add_columns env gen table_obj (f # fs) cat = do {
     (r, cat1) \<leftarrow> add_column env gen table_obj f cat;
     (if r = Stop then Some (True, cat1)
      else do {
        (have_error, cat2) \<leftarrow> add_columns env gen table_obj fs cat1;
        Some (have_error \<or> r = Added_nothing, cat2) }) }"

definition storage_inplace_alter_table_add_column ::
    "catalog_env \<Rightarrow> (new_field \<Rightarrow> generated) \<Rightarrow> string \<Rightarrow> new_field list \<Rightarrow> catalog \<Rightarrow> (bool \<times> catalog) option" where
  "storage_inplace_alter_table_add_column env gen table_nm fs cat =
     Option.bind (ctx_get cat table_nm) (\<lambda>t. add_columns env gen t fs cat)"

text \<open>The columns that the handler has open are \<^verbatim>\<open>grn_columns\<close>.\<close>

fun storage_inplace_alter_table_drop_column :: "catalog_env \<Rightarrow> removal_env \<Rightarrow> nat option list \<Rightarrow> bool list \<Rightarrow> catalog \<Rightarrow> (bool \<times> catalog) option" where
  "storage_inplace_alter_table_drop_column env renv (c # cs) (dropped # ds) cat =
     (if \<not> dropped then storage_inplace_alter_table_drop_column env renv cs ds cat
      else (case c of
          None \<Rightarrow> storage_inplace_alter_table_drop_column env renv cs ds cat
        | Some col \<Rightarrow> do {
            (ok, cat1) \<leftarrow> try_remove env renv col cat;
            (if ok then storage_inplace_alter_table_drop_column env renv cs ds cat1 else Some (True, cat1)) }))"
| "storage_inplace_alter_table_drop_column env renv _ _ cat = Some (False, cat)"

text \<open>The old and new names of renamed columns. The names are not encoded.\<close>

fun rename_columns :: "rename_env \<Rightarrow> nat \<Rightarrow> (string \<times> string) list \<Rightarrow> catalog \<Rightarrow> (bool \<times> catalog) option" where
  "rename_columns refuses_name t [] cat = Some (False, cat)"
| "rename_columns refuses_name t ((old, new) # ns) cat =
     (case obj_column cat t old of
        None \<Rightarrow> rename_columns refuses_name t ns cat
      | Some c \<Rightarrow> do {
          (ok, cat1) \<leftarrow> try_rename refuses_name c new cat;
          (if ok then rename_columns refuses_name t ns cat1 else Some (True, cat1)) })"

definition storage_inplace_alter_table_rename_column :: "rename_env \<Rightarrow> string \<Rightarrow> (string \<times> string) list \<Rightarrow> catalog \<Rightarrow> (bool \<times> catalog) option" where
  "storage_inplace_alter_table_rename_column refuses_name table_nm ns cat =
     Option.bind (ctx_get cat table_nm) (\<lambda>t. rename_columns refuses_name t ns cat)"

fun storage_inplace_alter_table_drop_index :: "catalog_env \<Rightarrow> removal_env \<Rightarrow> string \<Rightarrow> new_key list \<Rightarrow> catalog \<Rightarrow> catalog option" where
  "storage_inplace_alter_table_drop_index env renv table_nm [] cat = Some cat"
| "storage_inplace_alter_table_drop_index env renv table_nm (k # ks) cat =
     Option.bind (drop_index env renv table_nm k cat) (storage_inplace_alter_table_drop_index env renv table_nm ks)"

section \<open>Renamed tables\<close>

text \<open>Groonga keeps the names of objects unique.\<close>

definition rename_promise :: "rename_env \<Rightarrow> bool" where
  "rename_promise refuses_name \<longleftrightarrow> (\<forall>cat i nm cat'. catalog_wf cat \<longrightarrow> try_rename refuses_name i nm cat = Some (True, cat') \<longrightarrow> catalog_wf cat')"

definition table_named :: "catalog \<Rightarrow> nat \<Rightarrow> string \<Rightarrow> bool" where
  "table_named cat i nm \<longleftrightarrow> (\<exists>x\<in>set (objects cat). fst x = i \<and> o_domain (snd x) = None \<and> o_name (snd x) = nm)"

lemma table_named_iff: "table_named cat i nm \<longleftrightarrow> (\<exists>ob. (i, ob) \<in> set (objects cat) \<and> o_domain ob = None \<and> o_name ob = nm)"
  unfolding table_named_def by force

lemma table_named_get: "catalog_wf cat \<Longrightarrow> table_named cat i nm \<Longrightarrow> ctx_get cat nm = Some i"
  unfolding ctx_get_iff table_named_iff full_name_def by force

lemma renamed:
  assumes "try_rename refuses_name i nm cat = Some (True, cat')"
  shows "objects cat' = map (update_entry i (\<lambda>ob. ob\<lparr>o_name := nm\<rparr>)) (objects cat)" "alive cat i"
  using assms by (auto simp: try_rename_def set_info_update split: if_splits)

lemma rename_other:
  assumes "try_rename refuses_name i nm cat = Some (True, cat')" "table_named cat j m" "i \<noteq> j"
  shows "table_named cat' j m"
proof -
  obtain ob where ob: "(j, ob) \<in> set (objects cat)" "o_domain ob = None" "o_name ob = m" using assms(2) by (auto simp: table_named_iff)
  have "update_entry i (\<lambda>ob. ob\<lparr>o_name := nm\<rparr>) (j, ob) \<in> set (objects cat')" unfolding renamed(1) [OF assms(1)] using ob(1) by simp
  then show ?thesis using ob(2,3) assms(3) by (auto simp: table_named_iff update_entry_def)
qed

lemma rename_this:
  assumes "try_rename refuses_name i nm cat = Some (True, cat')" "table_named cat i m"
  shows "table_named cat' i nm"
proof -
  obtain ob where ob: "(i, ob) \<in> set (objects cat)" "o_domain ob = None" using assms(2) by (auto simp: table_named_iff)
  have "update_entry i (\<lambda>ob. ob\<lparr>o_name := nm\<rparr>) (i, ob) \<in> set (objects cat')" unfolding renamed(1) [OF assms(1)] using ob(1) by simp
  then show ?thesis using ob(2) by (auto simp: table_named_iff update_entry_def)
qed

lemma rename_index_tables_cons:
  assumes "rename_index_tables env refuses_name from_nm to_nm (k # ks) cat = Some (None, cat')"
  obtains "index_table_of env from_nm k cat = None" "rename_index_tables env refuses_name from_nm to_nm ks cat = Some (None, cat')"
  | i cat1 where "index_table_of env from_nm k cat = Some i" "try_rename refuses_name i (index_name env to_nm k) cat = Some (True, cat1)"
    "rename_index_tables env refuses_name from_nm to_nm ks cat1 = Some (None, cat')"
  using assms by (auto simp: bind_eq_Some_conv split: option.splits if_splits)
text \<open>The names under which the index table of a key is looked up, and names that cannot be mistaken for each other.\<close>

definition from_names :: "catalog_env \<Rightarrow> string \<Rightarrow> string \<Rightarrow> string set" where
  "from_names env table_nm k = {index_name env table_nm k, index_table_name.old_name (IndexTableName (ca_mb_wc env) (ca_wc_mb env) (max_key_size env) table_nm k)}"

definition names_apart :: "catalog_env \<Rightarrow> string \<Rightarrow> string \<Rightarrow> string list \<Rightarrow> bool" where
  "names_apart env from_nm to_nm ks \<longleftrightarrow> (\<forall>k\<in>set ks. from_nm \<notin> from_names env from_nm k \<and> (\<forall>k'\<in>set ks. index_name env to_nm k \<notin> from_names env from_nm k'
     \<and> (k \<noteq> k' \<longrightarrow> index_name env from_nm k \<notin> from_names env from_nm k')))"

lemma names_apart_new: "names_apart env from_nm to_nm ks \<Longrightarrow> k \<in> set ks \<Longrightarrow> k' \<in> set ks \<Longrightarrow> index_name env to_nm k \<notin> from_names env from_nm k'"
  unfolding names_apart_def by blast

lemma index_table_name:
  assumes "catalog_wf cat" "index_table_of env nm k cat = Some i" "table_named cat i m"
  shows "m \<in> from_names env nm k"
proof -
  obtain x where x: "x \<in> from_names env nm k" "ctx_get cat x = Some i"
    using assms(2) by (auto simp: index_table_of_def from_names_def Let_def split: option.splits)
  obtain ob where ob: "(i, ob) \<in> set (objects cat)" "full_name cat (i, ob) = Some x" using x(2) ctx_get_iff [OF assms(1)] by blast
  obtain ob' where ob': "(i, ob') \<in> set (objects cat)" "o_domain ob' = None" "o_name ob' = m" using assms(3) by (auto simp: table_named_iff)
  have "ob' = ob" using ob(1) ob'(1) object_of_iff [OF assms(1)] by (metis option.inject)
  then show ?thesis using x(1) ob(2) ob'(2,3) by (simp add: full_name_def)
qed

lemma others_kept:
  assumes "rename_promise refuses_name"
  shows "rename_index_tables env refuses_name from_nm to_nm ks cat = Some (None, cat') \<Longrightarrow> catalog_wf cat \<Longrightarrow> table_named cat j m
    \<Longrightarrow> \<forall>k\<in>set ks. m \<notin> from_names env from_nm k \<Longrightarrow> catalog_wf cat' \<and> table_named cat' j m"
proof (induction ks arbitrary: cat)
  case (Cons k ks)
  from Cons.prems(1) show ?case
  proof (cases rule: rename_index_tables_cons)
    case 1
    then show ?thesis using Cons by simp
  next
    case (2 i cat1)
    have "catalog_wf cat1" using assms Cons.prems(2) 2(2) unfolding rename_promise_def by blast
    moreover have "i \<noteq> j" using index_table_name [OF Cons.prems(2) 2(1)] Cons.prems(3,4) by auto
    ultimately show ?thesis using Cons.IH [OF 2(3)] rename_other [OF 2(2) Cons.prems(3)] Cons.prems(4) by simp
  qed
qed simp

lemma index_renamed:
  assumes "rename_promise refuses_name"
  shows "rename_index_tables env refuses_name from_nm to_nm ks cat = Some (None, cat') \<Longrightarrow> catalog_wf cat \<Longrightarrow> distinct ks \<Longrightarrow> k \<in> set ks
    \<Longrightarrow> names_apart env from_nm to_nm ks \<Longrightarrow> table_named cat i (index_name env from_nm k) \<Longrightarrow> table_named cat' i (index_name env to_nm k)"
proof (induction ks arbitrary: cat)
  case (Cons k0 ks)
  have apart: "names_apart env from_nm to_nm ks" using Cons.prems(5) by (simp add: names_apart_def)
  have this_index: "index_table_of env from_nm k cat = Some i"
    using table_named_get [OF Cons.prems(2,6)] by (simp add: index_table_of_def Let_def)
  show ?case
  proof (cases "k0 = k")
    case True
    from Cons.prems(1) show ?thesis
    proof (cases rule: rename_index_tables_cons)
      case 1
      then show ?thesis using this_index True by simp
    next
      case (2 i' cat1)
      have i': "i' = i" using 2(1) this_index True by simp
      have wf: "catalog_wf cat1" using assms Cons.prems(2) 2(2) unfolding rename_promise_def by blast
      have "table_named cat1 i (index_name env to_nm k)" using rename_this [OF 2(2), unfolded i', OF Cons.prems(6)] True by simp
      moreover have "\<forall>k'\<in>set ks. index_name env to_nm k \<notin> from_names env from_nm k'"
        using names_apart_new [OF Cons.prems(5,4)] by simp
      ultimately show ?thesis using others_kept [OF assms 2(3) wf] by blast
    qed
  next
    case False
    then have k: "k \<in> set ks" using Cons.prems(4) by simp
    from Cons.prems(1) show ?thesis
    proof (cases rule: rename_index_tables_cons)
      case 1
      then show ?thesis using Cons.IH [OF _ Cons.prems(2) _ k apart Cons.prems(6)] Cons.prems(3) by simp
    next
      case (2 i' cat1)
      have wf: "catalog_wf cat1" using assms Cons.prems(2) 2(2) unfolding rename_promise_def by blast
      have "i' \<noteq> i"
      proof
        assume "i' = i"
        then have "index_name env from_nm k \<in> from_names env from_nm k0" using index_table_name [OF Cons.prems(2)] 2(1) Cons.prems(6) by blast
        then show False using Cons.prems(4,5) False unfolding names_apart_def by simp
      qed
      then show ?thesis using Cons.IH [OF 2(3) wf _ k apart rename_other [OF 2(2) Cons.prems(6)]] Cons.prems(3) by simp
    qed
  qed
qed simp

lemma obj_column_domain:
  assumes "obj_column cat t nm = Some c"
  shows "\<exists>ob. (c, ob) \<in> set (objects cat) \<and> o_domain ob = Some t"
proof -
  obtain x where x: "find (\<lambda>(i, ob). o_domain ob = Some t \<and> o_name ob = nm) (objects cat) = Some x" "c = fst x"
    using assms by (auto simp: obj_column_def)
  then have "x \<in> set (objects cat)" "case x of (i, ob) \<Rightarrow> o_domain ob = Some t \<and> o_name ob = nm" unfolding find_Some_iff using nth_mem by metis+
  then show ?thesis using x(2) by (cases x) auto
qed

lemma foreign_keys_kept:
  assumes "rename_promise refuses_name"
  shows "storage_rename_foreign_key env refuses_name from_nm to_nm fs cat = Some (None, cat') \<Longrightarrow> catalog_wf cat
    \<Longrightarrow> catalog_wf cat' \<and> (\<forall>j m. table_named cat j m \<longrightarrow> table_named cat' j m)"
proof (induction fs arbitrary: cat)
  case (Cons f fs)
  show ?case
  proof (cases "foreign_key_index env cat from_nm f")
    case None
    then show ?thesis using Cons by simp
  next
    case (Some c)
    then obtain cat1 where r: "try_rename refuses_name c (IndexColumnName (ca_mb_wc env) (ca_wc_mb env) (max_key_size env) to_nm (column_name env f)) cat
        = Some (True, cat1)" "storage_rename_foreign_key env refuses_name from_nm to_nm fs cat1 = Some (None, cat')"
      using Cons.prems(1) by (auto simp: bind_eq_Some_conv split: if_splits)
    have wf: "catalog_wf cat1" using assms Cons.prems(2) r(1) unfolding rename_promise_def by blast
    obtain ref nm where "obj_column cat ref nm = Some c"
      using Some by (auto simp: foreign_key_index_def bind_eq_Some_conv split: if_splits)
    then obtain cob where cob: "(c, cob) \<in> set (objects cat)" "o_domain cob = Some ref" using obj_column_domain by blast
    have "c \<noteq> j" if "table_named cat j m" for j m
    proof
      assume "c = j"
      then obtain ob where "(c, ob) \<in> set (objects cat)" "o_domain ob = None" using \<open>table_named cat j m\<close> by (auto simp: table_named_iff)
      then show False using cob object_of_iff [OF Cons.prems(2)] by (metis option.distinct(1) option.inject)
    qed
    then have "\<forall>j m. table_named cat j m \<longrightarrow> table_named cat1 j m" using rename_other [OF r(1)] by blast
    then show ?thesis using Cons.IH [OF r(2) wf] by blast
  qed
qed simp

text \<open>C22: renaming a table that returns no error gives the table its new name, and the index of every key is found under the name that the
  handler looks for in the renamed table; it is the same index. (The names of the index tables must not be mistaken for each other.)\<close>

theorem renamed_table_has_indexes:
  assumes "rename_promise refuses_name" "catalog_wf cat" "distinct keys" "names_apart env from_nm to_nm keys"
    and "table_named cat t from_nm" "k \<in> set keys" "table_named cat i (index_name env from_nm k)"
    and "storage_rename_table env refuses_name from_nm to_nm keys fs cat = Some (None, cat')"
  shows "ctx_get cat' to_nm = Some t \<and> index_table_of env to_nm k cat' = Some i \<and> catalog_wf cat'"
proof -
  obtain cat1 cat2 t' where r: "rename_index_tables env refuses_name from_nm to_nm keys cat = Some (None, cat1)"
    "storage_rename_foreign_key env refuses_name from_nm to_nm fs cat1 = Some (None, cat2)" "ctx_get cat2 from_nm = Some t'"
    "try_rename refuses_name t' to_nm cat2 = Some (True, cat')"
    using assms(8) by (auto simp: storage_rename_table_def bind_eq_Some_conv split: if_splits option.splits)
  have 1: "catalog_wf cat1" "table_named cat1 t from_nm"
    using others_kept [OF assms(1) r(1) assms(2,5)] assms(4) unfolding names_apart_def by simp_all
  have i1: "table_named cat1 i (index_name env to_nm k)" by (rule index_renamed [OF assms(1) r(1) assms(2,3,6,4,7)])
  have 2: "catalog_wf cat2" "table_named cat2 t from_nm" "table_named cat2 i (index_name env to_nm k)"
    using foreign_keys_kept [OF assms(1) r(2) 1(1)] 1(2) i1 by blast+
  have t': "t' = t" using table_named_get [OF 2(1,2)] r(3) by simp
  have wf: "catalog_wf cat'" using assms(1) 2(1) r(4) unfolding rename_promise_def by blast
  have "t \<noteq> i"
  proof
    assume "t = i"
    then have "from_nm = index_name env from_nm k"
      using assms(2,5,7) object_of_iff [OF assms(2)] unfolding table_named_iff by (metis option.inject)
    then show False using assms(4,6) unfolding names_apart_def from_names_def by simp
  qed
  then have "table_named cat' i (index_name env to_nm k)" using rename_other [OF r(4) 2(3)] t' by blast
  then have "index_table_of env to_nm k cat' = Some i" using table_named_get [OF wf] by (simp add: index_table_of_def Let_def)
  moreover have "ctx_get cat' to_nm = Some t" using table_named_get [OF wf rename_this [OF r(4) 2(2) [folded t']]] t' by simp
  ultimately show ?thesis using wf by blast
qed

section \<open>A database\<close>

definition sample_refuses_name :: "string list \<Rightarrow> rename_env" where
  "sample_refuses_name refused obs i nm \<longleftrightarrow>
     nm \<in> set refused \<or> \<not> catalog_wf \<lparr>objects = map (update_entry i (\<lambda>ob. ob\<lparr>o_name := nm\<rparr>)) obs, next_object = 0\<rparr>"

lemma catalog_wf_objects:
  assumes "objects cat = objects cat'"
  shows "catalog_wf cat = catalog_wf cat'"
proof -
  have "object_of cat = object_of cat'" using assms by (simp add: object_of_def fun_eq_iff)
  then have "full_name cat x = full_name cat' x" for x unfolding full_name_def by (simp split: option.split)
  then have "full_name cat = full_name cat'" by blast
  then show ?thesis unfolding catalog_wf_def assms by simp
qed

lemma sample_rename_promise: "rename_promise (sample_refuses_name refused)"
proof -
  have "catalog_wf cat'" if r: "try_rename (sample_refuses_name refused) i nm cat = Some (True, cat')" for cat i nm cat'
  proof -
    have "\<not> sample_refuses_name refused (objects cat) i nm" using r by (auto simp: try_rename_def grn_obj_set_info_def split: if_splits)
    then show ?thesis
      using catalog_wf_objects [of "\<lparr>objects = objects cat', next_object = 0\<rparr>" cat'] unfolding sample_refuses_name_def renamed(1) [OF r, symmetric]
      by simp
  qed
  then show ?thesis by (simp add: rename_promise_def)
qed

theorem renamed_table_has_indexes_witness:
  "\<exists>cat'. storage_rename_table (sample_catalog_env []) (sample_refuses_name []) ''diaries'' ''notes'' [''title''] [''day'', ''title''] indexed_catalog = Some (None, cat')
    \<and> ctx_get cat' ''notes'' = Some 2 \<and> index_table_of (sample_catalog_env []) ''notes'' ''title'' cat' = Some 5"
proof -
  let ?r = "storage_rename_table (sample_catalog_env []) (sample_refuses_name []) ''diaries'' ''notes'' [''title''] [''day'', ''title''] indexed_catalog"
  have "map_option fst ?r = Some None" by code_simp
  then obtain cat' where r: "?r = Some (None, cat')" by auto
  have "names_apart (sample_catalog_env []) ''diaries'' ''notes'' [''title'']" by code_simp
  moreover have "table_named indexed_catalog 2 ''diaries''" "table_named indexed_catalog 5 (index_name (sample_catalog_env []) ''diaries'' ''title'')"
    by code_simp+
  ultimately show ?thesis
    using renamed_table_has_indexes [OF sample_rename_promise indexed_catalog_wf _ _ _ _ _ r] r by simp
qed

text \<open>When the new name of the table is refused, its indexes keep their new names: the table has lost them.\<close>

lemma failed_rename_loses_indexes:
  "map_option (\<lambda>(e, cat). (e, ctx_get cat ''diaries'', index_table_of (sample_catalog_env []) ''diaries'' ''title'' cat))
      (storage_rename_table (sample_catalog_env []) (sample_refuses_name [''notes'']) ''diaries'' ''notes'' [''title''] [] indexed_catalog)
    = Some (Some ER_CANT_OPEN_FILE, Some 2, None)"
  by code_simp

text \<open>Columns are stored under encoded names, but renamed under plain ones: with an encoding that changes a name nothing is renamed, and no
  error is reported.\<close>

lemma encoded_column_not_renamed:
  assumes "ctx_get cat table_nm = Some t" "obj_column cat t old = None"
  shows "storage_inplace_alter_table_rename_column refuses_name table_nm [(old, new)] cat = Some (False, cat)"
  using assms by (simp add: storage_inplace_alter_table_rename_column_def)

text \<open>A stored generated column that is added to a table with records has at most one value.\<close>

lemma generated_values_in_one_record: "dom (snd (fill_generated compute refuses_value record_id rs column)) \<subseteq> insert record_id (dom column)"
proof (induction rs arbitrary: column)
  case (Cons r rs)
  show ?case
  proof (cases "compute r")
    case (Some v)
    then show ?thesis using Cons.IH [of "column(record_id \<mapsto> v)"] by (simp del: fun_upd_apply) blast
  qed auto
qed auto

text \<open>When the second of two new columns is refused, the first one stays in the table.\<close>

lemma failed_add_keeps_first:
  "map_option (\<lambda>(e, cat). (e, map (o_name \<circ> snd) (take 1 (objects cat))))
      (storage_inplace_alter_table_add_column (sample_catalog_env [''b'']) (\<lambda>f. Not_generated) ''diaries''
         [sample_new_field ''a'' MYSQL_TYPE_LONG, sample_new_field ''b'' MYSQL_TYPE_LONG] indexed_catalog)
    = Some (True, [''a''])"
  by code_simp

end
