(* ===== verification/Condition_Converter.thy ===== *)
theory Condition_Converter
  imports Encoding Time_Converter
begin

text \<open>
  Pushing a WHERE condition down to Groonga (\<^verbatim>\<open>lib/mrn_condition_converter.cpp\<close>,
  \<^verbatim>\<open>storage_cond_push\<close> in \<^verbatim>\<open>ha_mroonga.cpp\<close>): which conditions may be converted, and the
  expression they are converted to. MySQL's items are a datatype; the expression is the list of
  instructions appended to it, run by a stack machine. What a column holds, how Groonga compares and
  whether a row matches a full text query are parameters of the machine; MySQL's conversions of a
  constant, the available indexes and the success of parsing a full text query are parameters of the
  converter.
\<close>

section \<open>Items\<close>

text \<open>An operand that should be constant, with what MySQL's methods of the item return.\<close>

record const_item =
  basic_const_item :: bool
  is_string_item :: bool
  is_int_item :: bool
  val_str :: string
  val_int :: int
  item_get_time :: "mysql_time option"
  item_get_date_fuzzy :: "mysql_time option"

datatype compare_func = EQ_FUNC | LT_FUNC | LE_FUNC | GE_FUNC | GT_FUNC

datatype cond_func = COND_AND_FUNC | COND_OR_FUNC | COND_OTHER_FUNC

record match_item =
  match_key :: nat
  match_query :: string
  match_boolean :: bool

text \<open>
  A condition. The first operand of a function is a field or something else (\<^const>\<open>None\<close>); \<^verbatim>\<open>BETWEEN\<close>
  and \<^verbatim>\<open>IN\<close> carry MySQL's flag for the negated form.
\<close>

datatype item =
    CondItem cond_func "item list"
  | CompareItem compare_func "mysql_field option" const_item
  | BetweenItem bool "mysql_field option" const_item const_item
  | InItem bool "mysql_field option" "const_item list"
  | MatchItem match_item
  | OtherFuncItem
  | OtherItem

section \<open>Expressions\<close>

datatype grn_cmp = GRN_OP_EQUAL | GRN_OP_LESS | GRN_OP_LESS_EQUAL | GRN_OP_GREATER_EQUAL | GRN_OP_GREATER

datatype grn_logical = OP_AND | OP_OR | OP_AND_NOT

datatype grn_value = GText string | GInt int | GTime int | GVoid | GBool bool

datatype grn_func = FuncBetween | FuncInValues

text \<open>\<open>PushQuery\<close> stands for what \<^verbatim>\<open>grn_expr_parse\<close> appends for a full text query in boolean mode.\<close>

datatype expr_instr =
    PushConst grn_value | OpGetValue | PushFunc grn_func | OpCompare grn_cmp | OpCall nat
  | OpLogical grn_logical | PushIndex nat | OpSimilar | PushQuery nat string

record converter =
  is_storage_mode :: bool
  key_fields :: "nat \<Rightarrow> mysql_field list"
  column_index :: "string \<Rightarrow> (grn_cmp \<Rightarrow> int) option"
  enum_value :: "mysql_field \<Rightarrow> string \<Rightarrow> int"
  query_parses :: "nat \<Rightarrow> string \<Rightarrow> bool"
  conv_time :: time_env
  conv_globals :: encoding_globals
  conv_uninit :: mysql_time

type_synonym encodings = "grn_encoding option list"

datatype normalized_type = STRING_TYPE | INT_TYPE | TIME_TYPE | UNSUPPORTED_TYPE

definition normalize_field_type :: "mysql_type \<Rightarrow> normalized_type" where
  "normalize_field_type t = (case t of
      MYSQL_TYPE_DECIMAL \<Rightarrow> STRING_TYPE
    | MYSQL_TYPE_TINY \<Rightarrow> INT_TYPE | MYSQL_TYPE_SHORT \<Rightarrow> INT_TYPE | MYSQL_TYPE_LONG \<Rightarrow> INT_TYPE
    | MYSQL_TYPE_FLOAT \<Rightarrow> UNSUPPORTED_TYPE | MYSQL_TYPE_DOUBLE \<Rightarrow> UNSUPPORTED_TYPE
    | MYSQL_TYPE_NULL \<Rightarrow> UNSUPPORTED_TYPE
    | MYSQL_TYPE_TIMESTAMP \<Rightarrow> TIME_TYPE
    | MYSQL_TYPE_LONGLONG \<Rightarrow> INT_TYPE | MYSQL_TYPE_INT24 \<Rightarrow> INT_TYPE
    | MYSQL_TYPE_DATE \<Rightarrow> TIME_TYPE | MYSQL_TYPE_TIME \<Rightarrow> TIME_TYPE | MYSQL_TYPE_DATETIME \<Rightarrow> TIME_TYPE
    | MYSQL_TYPE_YEAR \<Rightarrow> TIME_TYPE | MYSQL_TYPE_NEWDATE \<Rightarrow> TIME_TYPE
    | MYSQL_TYPE_VARCHAR \<Rightarrow> STRING_TYPE | MYSQL_TYPE_VARCHAR_COMPRESSED \<Rightarrow> STRING_TYPE
    | MYSQL_TYPE_BIT \<Rightarrow> INT_TYPE
    | MYSQL_TYPE_TIMESTAMP2 \<Rightarrow> TIME_TYPE | MYSQL_TYPE_DATETIME2 \<Rightarrow> TIME_TYPE | MYSQL_TYPE_TIME2 \<Rightarrow> TIME_TYPE
    | MYSQL_TYPE_NEWDECIMAL \<Rightarrow> STRING_TYPE
    | MYSQL_TYPE_ENUM \<Rightarrow> INT_TYPE | MYSQL_TYPE_SET \<Rightarrow> INT_TYPE
    | MYSQL_TYPE_TINY_BLOB \<Rightarrow> STRING_TYPE | MYSQL_TYPE_MEDIUM_BLOB \<Rightarrow> STRING_TYPE
    | MYSQL_TYPE_LONG_BLOB \<Rightarrow> STRING_TYPE | MYSQL_TYPE_BLOB \<Rightarrow> STRING_TYPE
    | MYSQL_TYPE_BLOB_COMPRESSED \<Rightarrow> STRING_TYPE
    | MYSQL_TYPE_VAR_STRING \<Rightarrow> STRING_TYPE | MYSQL_TYPE_STRING \<Rightarrow> STRING_TYPE
    | MYSQL_TYPE_GEOMETRY \<Rightarrow> UNSUPPORTED_TYPE
    | MYSQL_TYPE_JSON \<Rightarrow> STRING_TYPE)"

text \<open>\<^const>\<open>column_index\<close> is \<^verbatim>\<open>grn_obj_column\<close> and, for a column that exists, \<^verbatim>\<open>grn_column_index\<close>.\<close>

definition have_index :: "converter \<Rightarrow> mysql_field \<Rightarrow> grn_cmp \<Rightarrow> bool" where
  "have_index cc f opr = (case column_index cc (field_name f) of
      None \<Rightarrow> False
    | Some n_indexes \<Rightarrow> n_indexes opr > 0)"

definition field_encoding :: "converter \<Rightarrow> mysql_field \<Rightarrow> grn_encoding option" where
  "field_encoding cc f = convert (conv_globals cc) (Some (field_charset f))"

text \<open>The test \<^verbatim>\<open>!encodings.empty() && encodings[0] != encoding\<close>.\<close>

definition mixed :: "encodings \<Rightarrow> grn_encoding option \<Rightarrow> bool" where
  "mixed encs e \<longleftrightarrow> encs \<noteq> [] \<and> hd encs \<noteq> e"

definition get_time_value :: "converter \<Rightarrow> mysql_field \<Rightarrow> const_item \<Rightarrow> mysql_time option" where
  "get_time_value cc f c = (case field_type f of
      MYSQL_TYPE_TIME \<Rightarrow> item_get_time c
    | MYSQL_TYPE_YEAR \<Rightarrow> Some ((conv_uninit cc)\<lparr>year := to_uint (to_int (val_int c)), month := 1, day := 1,
        hour := 0, minute := 0, second_part := 0, neg := False, time_type := MYSQL_TIMESTAMP_DATE\<rparr>)
    | _ \<Rightarrow> item_get_date_fuzzy c)"

definition is_valid_time_value :: "converter \<Rightarrow> mysql_field \<Rightarrow> const_item \<Rightarrow> bool" where
  "is_valid_time_value cc f c \<longleftrightarrow> get_time_value cc f c \<noteq> None"

section \<open>Which conditions are convertable\<close>

definition enum_constant :: "const_item \<Rightarrow> bool" where
  "enum_constant c \<longleftrightarrow> is_string_item c \<or> is_int_item c"

definition is_convertable_binary_operation ::
    "converter \<Rightarrow> mysql_field \<Rightarrow> const_item \<Rightarrow> compare_func \<Rightarrow> encodings \<Rightarrow> bool \<times> encodings" where
  "is_convertable_binary_operation cc f c func encs =
     (case normalize_field_type (real_type f) of
        STRING_TYPE \<Rightarrow>
          if func = EQ_FUNC then
            (let e = field_encoding cc f in
             if mixed encs e then (False, encs)
             else (have_index cc f GRN_OP_EQUAL, encs @ [e]))
          else (True, encs)
      | INT_TYPE \<Rightarrow> (real_type f = MYSQL_TYPE_ENUM \<longrightarrow> enum_constant c, encs)
      | TIME_TYPE \<Rightarrow> (is_valid_time_value cc f c, encs)
      | UNSUPPORTED_TYPE \<Rightarrow> (False, encs))"

definition is_convertable_between :: "converter \<Rightarrow> mysql_field \<Rightarrow> const_item \<Rightarrow> const_item \<Rightarrow> bool" where
  "is_convertable_between cc f min_item max_item =
     (case normalize_field_type (field_type f) of
        STRING_TYPE \<Rightarrow> have_index cc f GRN_OP_LESS
      | INT_TYPE \<Rightarrow> field_type f = MYSQL_TYPE_ENUM \<longrightarrow> enum_constant min_item \<and> enum_constant max_item
      | TIME_TYPE \<Rightarrow> is_valid_time_value cc f min_item \<and> is_valid_time_value cc f max_item
      | UNSUPPORTED_TYPE \<Rightarrow> False)"

text \<open>For strings the missing index is logged, but the loop goes on.\<close>

definition is_convertable_in :: "converter \<Rightarrow> mysql_field \<Rightarrow> const_item list \<Rightarrow> bool" where
  "is_convertable_in cc f values =
     (case normalize_field_type (field_type f) of
        UNSUPPORTED_TYPE \<Rightarrow> False
      | STRING_TYPE \<Rightarrow> True
      | INT_TYPE \<Rightarrow> list_all (\<lambda>c. field_type f = MYSQL_TYPE_ENUM \<longrightarrow> enum_constant c) values
      | TIME_TYPE \<Rightarrow> list_all (is_valid_time_value cc f) values)"

text \<open>The loop over the fields of a full text key.\<close>

fun match_encodings :: "converter \<Rightarrow> mysql_field list \<Rightarrow> encodings \<Rightarrow> bool \<times> encodings" where
  "match_encodings cc [] encs = (True, encs)"
| "match_encodings cc (f # fs) encs =
     (let e = field_encoding cc f in
      if mixed encs e then (False, encs) else match_encodings cc fs (encs @ [e]))"

fun is_convertable :: "converter \<Rightarrow> grn_logical \<Rightarrow> item \<Rightarrow> encodings \<Rightarrow> bool \<times> encodings"
and is_convertable_all :: "converter \<Rightarrow> grn_logical \<Rightarrow> item list \<Rightarrow> encodings \<Rightarrow> bool \<times> encodings" where
  "is_convertable cc opr (CondItem func items) encs =
     (if \<not> is_storage_mode cc then (False, encs)
      else case func of
        COND_AND_FUNC \<Rightarrow> is_convertable_all cc OP_AND items encs
      | COND_OR_FUNC \<Rightarrow> is_convertable_all cc OP_OR items encs
      | COND_OTHER_FUNC \<Rightarrow> (False, encs))"
| "is_convertable cc opr (CompareItem func left c) encs =
     (if \<not> is_storage_mode cc then (False, encs)
      else case left of
        None \<Rightarrow> (False, encs)
      | Some f \<Rightarrow> if \<not> basic_const_item c then (False, encs)
          else is_convertable_binary_operation cc f c func encs)"
| "is_convertable cc opr (MatchItem mi) encs = match_encodings cc (key_fields cc (match_key mi)) encs"
| "is_convertable cc opr (BetweenItem negated target min_item max_item) encs =
     (if \<not> is_storage_mode cc then (False, encs)
      else case target of
        None \<Rightarrow> (False, encs)
      | Some f \<Rightarrow> if \<not> basic_const_item min_item \<or> \<not> basic_const_item max_item then (False, encs)
          else (is_convertable_between cc f min_item max_item, encs))"
| "is_convertable cc opr (InItem negated target values) encs =
     (if \<not> is_storage_mode cc then (False, encs)
      else if negated \<and> opr = OP_OR then (False, encs)
      else case target of
        None \<Rightarrow> (False, encs)
      | Some f \<Rightarrow> if \<not> list_all basic_const_item values then (False, encs)
          else (is_convertable_in cc f values, encs))"
| "is_convertable cc opr OtherFuncItem encs = (False, encs)"
| "is_convertable cc opr OtherItem encs = (False, encs)"
| "is_convertable_all cc opr [] encs = (True, encs)"
| "is_convertable_all cc opr (i # is) encs =
     (case is_convertable cc opr i encs of
        (False, encs') \<Rightarrow> (False, encs')
      | (True, encs') \<Rightarrow> is_convertable_all cc opr is encs')"

definition convertable :: "converter \<Rightarrow> item option \<Rightarrow> bool" where
  "convertable cc it = (case it of None \<Rightarrow> False | Some i \<Rightarrow> fst (is_convertable cc OP_AND i []))"

fun count_match_against :: "converter \<Rightarrow> item \<Rightarrow> nat" where
  "count_match_against cc (CondItem func items) =
     (if is_storage_mode cc \<and> func \<in> {COND_AND_FUNC, COND_OR_FUNC}
      then sum_list (map (count_match_against cc) items) else 0)"
| "count_match_against cc (MatchItem mi) = 1"
| "count_match_against cc _ = 0"

section \<open>The conversion\<close>

definition append_field_value :: "mysql_field \<Rightarrow> expr_instr list" where
  "append_field_value f = [PushConst (GText (field_name f)), OpGetValue]"

text \<open>The value of a constant in the type of the field; a time that MySQL cannot read leaves the
  uninitialized \<^verbatim>\<open>MYSQL_TIME\<close>.\<close>

definition const_value :: "converter \<Rightarrow> mysql_field \<Rightarrow> const_item \<Rightarrow> grn_value" where
  "const_value cc f c = (case normalize_field_type (real_type f) of
      STRING_TYPE \<Rightarrow> GText (val_str c)
    | INT_TYPE \<Rightarrow>
        if real_type f = MYSQL_TYPE_ENUM \<and> is_string_item c then GInt (enum_value cc f (val_str c))
        else GInt (val_int c)
    | TIME_TYPE \<Rightarrow> GTime (fst (mysql_time_to_grn_time (conv_time cc)
        (case get_time_value cc f c of Some mt \<Rightarrow> mt | None \<Rightarrow> conv_uninit cc)))
    | UNSUPPORTED_TYPE \<Rightarrow> GVoid)"

definition append_const_item :: "converter \<Rightarrow> mysql_field \<Rightarrow> const_item \<Rightarrow> expr_instr list" where
  "append_const_item cc f c = [PushConst (const_value cc f c)]"

text \<open>Each conversion gives back whether a condition was added, the appended instructions and the
  encodings.\<close>

type_synonym conversion = "bool \<times> expr_instr list \<times> encodings"

definition convert_binary_operation ::
    "converter \<Rightarrow> mysql_field option \<Rightarrow> const_item \<Rightarrow> grn_cmp \<Rightarrow> encodings \<Rightarrow> conversion" where
  "convert_binary_operation cc left c opr encs =
     (case left of
        None \<Rightarrow> (False, [], encs)
      | Some f \<Rightarrow>
          (let str = (normalize_field_type (real_type f) = STRING_TYPE); e = field_encoding cc f in
           if str \<and> mixed encs e then (False, [], encs)
           else (True, append_field_value f @ append_const_item cc f c @ [OpCompare opr],
                 if str then encs @ [e] else encs)))"

text \<open>The target of \<^verbatim>\<open>BETWEEN\<close> and \<^verbatim>\<open>IN\<close> is cast to a field without a check.\<close>

definition convert_between ::
    "converter \<Rightarrow> mysql_field \<Rightarrow> const_item \<Rightarrow> const_item \<Rightarrow> encodings \<Rightarrow> conversion" where
  "convert_between cc f min_item max_item encs =
     (let str = (normalize_field_type (real_type f) = STRING_TYPE); e = field_encoding cc f;
          front = PushFunc FuncBetween # append_field_value f in
      if str \<and> mixed encs e then (False, front, encs)
      else (True, front @ append_const_item cc f min_item @ [PushConst (GText ''include'')]
              @ append_const_item cc f max_item @ [PushConst (GText ''include''), OpCall 5],
            if str then encs @ [e] else encs))"

definition convert_in :: "converter \<Rightarrow> bool \<Rightarrow> mysql_field \<Rightarrow> const_item list \<Rightarrow> bool \<Rightarrow> expr_instr list" where
  "convert_in cc negated f values have_condition =
     (if \<not> have_condition \<and> negated then [PushConst (GBool True)] else [])
     @ PushFunc FuncInValues # append_field_value f
     @ concat (map (append_const_item cc f) values) @ [OpCall (length values + 1)]
     @ (if \<not> have_condition \<and> negated then [OpLogical OP_AND_NOT] else [])"

text \<open>In boolean mode the result of \<^verbatim>\<open>QueryParser::parse\<close> is not looked at: when the query does not
  parse, nothing is appended.\<close>

definition convert_full_text_search :: "converter \<Rightarrow> match_item \<Rightarrow> encodings \<Rightarrow> conversion" where
  "convert_full_text_search cc mi encs =
     (True,
      if match_boolean mi
      then (if query_parses cc (match_key mi) (match_query mi) then [PushQuery (match_key mi) (match_query mi)] else [])
      else [PushIndex (match_key mi), PushConst (GText (match_query mi)), OpSimilar],
      encs @ map (field_encoding cc) (key_fields cc (match_key mi)))"

definition grn_cmp_of :: "compare_func \<Rightarrow> grn_cmp" where
  "grn_cmp_of func = (case func of EQ_FUNC \<Rightarrow> GRN_OP_EQUAL | LT_FUNC \<Rightarrow> GRN_OP_LESS
     | LE_FUNC \<Rightarrow> GRN_OP_LESS_EQUAL | GE_FUNC \<Rightarrow> GRN_OP_GREATER_EQUAL | GT_FUNC \<Rightarrow> GRN_OP_GREATER)"

definition convert_func :: "converter \<Rightarrow> item \<Rightarrow> encodings \<Rightarrow> bool \<Rightarrow> conversion" where
  "convert_func cc it encs have_condition = (case it of
      CompareItem func left c \<Rightarrow> convert_binary_operation cc left c (grn_cmp_of func) encs
    | BetweenItem negated (Some f) min_item max_item \<Rightarrow> convert_between cc f min_item max_item encs
    | InItem negated (Some f) values \<Rightarrow> (True, convert_in cc negated f values have_condition, encs)
    | MatchItem mi \<Rightarrow> convert_full_text_search cc mi encs
    | _ \<Rightarrow> (False, [], encs))"

text \<open>The operator behind a sub-condition: a negated \<^verbatim>\<open>IN\<close> under \<^verbatim>\<open>AND\<close> is subtracted.\<close>

definition sub_operator :: "grn_logical \<Rightarrow> item \<Rightarrow> grn_logical" where
  "sub_operator opr it = (case it of InItem True _ _ \<Rightarrow> if opr = OP_AND then OP_AND_NOT else opr | _ \<Rightarrow> opr)"

text \<open>The switch over the type of a sub-condition, and the loop over the sub-conditions.\<close>

fun convert_item :: "converter \<Rightarrow> item \<Rightarrow> encodings \<Rightarrow> bool \<Rightarrow> conversion"
and convert_cond :: "converter \<Rightarrow> grn_logical \<Rightarrow> item list \<Rightarrow> nat \<Rightarrow> encodings \<Rightarrow> conversion" where
  "convert_item cc (CondItem func items) encs have_condition =
     convert_cond cc (if func = COND_OR_FUNC then OP_OR else OP_AND) items 0 encs"
| "convert_item cc OtherItem encs have_condition = (False, [], encs)"
| "convert_item cc it encs have_condition = convert_func cc it encs have_condition"
| "convert_cond cc opr [] n encs = (0 < n, [], encs)"
| "convert_cond cc opr (it # its) n encs =
     (case convert_item cc it encs (0 < n) of
        (added, is, encs') \<Rightarrow>
          (case convert_cond cc opr its (if added then n + 1 else n) encs' of
             (r, is', encs'') \<Rightarrow>
               (r, is @ (if added \<and> 0 < n then [OpLogical (sub_operator opr it)] else []) @ is', encs'')))"

text \<open>The whole conversion: the instructions and the encoding.\<close>

definition convert_where :: "converter \<Rightarrow> item option \<Rightarrow> expr_instr list \<times> grn_encoding option" where
  "convert_where cc w =
     (let (is, encs) = (case w of None \<Rightarrow> ([], []) | Some it \<Rightarrow> snd (convert_item cc it [] False))
      in (is, if encs = [] then Some GRN_ENC_NONE else hd encs))"

datatype push_down_type = PUSH_NONE | PUSH_ALL | PUSH_ONE_FULL_TEXT_SEARCH

text \<open>\<^verbatim>\<open>storage_cond_push\<close>: the condition that MySQL still has to check.\<close>

definition storage_cond_push :: "converter \<Rightarrow> push_down_type \<Rightarrow> item \<Rightarrow> item option" where
  "storage_cond_push cc type cond = (case type of
      PUSH_NONE \<Rightarrow> Some cond
    | PUSH_ALL \<Rightarrow> if convertable cc (Some cond) then None else Some cond
    | PUSH_ONE_FULL_TEXT_SEARCH \<Rightarrow>
        if count_match_against cc cond = 1 \<and> convertable cc (Some cond) then None else Some cond)"

section \<open>What an expression means\<close>

text \<open>A row as Groonga sees it: the values of its columns, the comparison of values, and whether it
  matches a full text query in boolean mode or by similarity.\<close>

record grn_row =
  column_value :: "string \<Rightarrow> grn_value"
  compare :: "grn_cmp \<Rightarrow> grn_value \<Rightarrow> grn_value \<Rightarrow> bool"
  matches_query :: "nat \<Rightarrow> string \<Rightarrow> bool"
  similar :: "nat \<Rightarrow> string \<Rightarrow> bool"

datatype stack_value = SValue grn_value | SFunc grn_func | SIndex nat | SBool bool

definition between_values :: "grn_row \<Rightarrow> grn_value \<Rightarrow> grn_value \<Rightarrow> grn_value \<Rightarrow> bool" where
  "between_values row v lo hi \<longleftrightarrow> compare row GRN_OP_GREATER_EQUAL v lo \<and> compare row GRN_OP_LESS_EQUAL v hi"

definition in_values :: "grn_row \<Rightarrow> grn_value \<Rightarrow> grn_value list \<Rightarrow> bool" where
  "in_values row v vs \<longleftrightarrow> list_ex (\<lambda>w. compare row GRN_OP_EQUAL v w) vs"

fun stack_values :: "stack_value list \<Rightarrow> grn_value list option" where
  "stack_values [] = Some []"
| "stack_values (SValue v # xs) = map_option ((#) v) (stack_values xs)"
| "stack_values _ = None"

definition call_func :: "grn_row \<Rightarrow> grn_func \<Rightarrow> grn_value list \<Rightarrow> bool option" where
  "call_func row f args = (case (f, args) of
      (FuncBetween, [v, lo, GText a, hi, GText b]) \<Rightarrow>
        if a = ''include'' \<and> b = ''include'' then Some (between_values row v lo hi) else None
    | (FuncInValues, v # vs) \<Rightarrow> Some (in_values row v vs)
    | _ \<Rightarrow> None)"

definition logical_value :: "grn_logical \<Rightarrow> bool \<Rightarrow> bool \<Rightarrow> bool" where
  "logical_value opr a b = (case opr of OP_AND \<Rightarrow> a \<and> b | OP_OR \<Rightarrow> a \<or> b | OP_AND_NOT \<Rightarrow> a \<and> \<not> b)"

fun expr_step :: "grn_row \<Rightarrow> expr_instr \<Rightarrow> stack_value list \<Rightarrow> stack_value list option" where
  "expr_step row (PushConst (GBool b)) st = Some (SBool b # st)"
| "expr_step row (PushConst v) st = Some (SValue v # st)"
| "expr_step row OpGetValue (SValue (GText n) # st) = Some (SValue (column_value row n) # st)"
| "expr_step row (PushFunc f) st = Some (SFunc f # st)"
| "expr_step row (OpCompare opr) (SValue b # SValue a # st) = Some (SBool (compare row opr a b) # st)"
| "expr_step row (OpCall n) st =
     (case (stack_values (rev (take n st)), drop n st) of
        (Some args, SFunc f # st') \<Rightarrow> map_option (\<lambda>b. SBool b # st') (call_func row f args)
      | _ \<Rightarrow> None)"
| "expr_step row (OpLogical opr) (SBool b # SBool a # st) = Some (SBool (logical_value opr a b) # st)"
| "expr_step row (PushIndex k) st = Some (SIndex k # st)"
| "expr_step row OpSimilar (SValue (GText q) # SIndex k # st) = Some (SBool (similar row k q) # st)"
| "expr_step row (PushQuery k q) st = Some (SBool (matches_query row k q) # st)"
| "expr_step row _ _ = None"

primrec expr_run :: "grn_row \<Rightarrow> expr_instr list \<Rightarrow> stack_value list \<Rightarrow> stack_value list option" where
  "expr_run row [] st = Some st"
| "expr_run row (i # is) st = (case expr_step row i st of None \<Rightarrow> None | Some st' \<Rightarrow> expr_run row is st')"

lemma expr_run_append:
  "expr_run row (xs @ ys) st = (case expr_run row xs st of None \<Rightarrow> None | Some st' \<Rightarrow> expr_run row ys st')"
  by (induction xs arbitrary: st) (auto split: option.split)

section \<open>What a condition means\<close>

text \<open>The condition as SQL reads it, on the values that Groonga stores and with the constants in the
  type of the field.\<close>

fun sql_eval :: "converter \<Rightarrow> grn_row \<Rightarrow> item \<Rightarrow> bool" where
  "sql_eval cc row (CondItem func items) =
     (if func = COND_OR_FUNC then list_ex (sql_eval cc row) items else list_all (sql_eval cc row) items)"
| "sql_eval cc row (CompareItem func (Some f) c) =
     compare row (grn_cmp_of func) (column_value row (field_name f)) (const_value cc f c)"
| "sql_eval cc row (BetweenItem negated (Some f) lo hi) =
     (between_values row (column_value row (field_name f)) (const_value cc f lo) (const_value cc f hi) \<noteq> negated)"
| "sql_eval cc row (InItem negated (Some f) values) =
     (in_values row (column_value row (field_name f)) (map (const_value cc f) values) \<noteq> negated)"
| "sql_eval cc row (MatchItem mi) =
     (if match_boolean mi then matches_query row (match_key mi) (match_query mi)
      else similar row (match_key mi) (match_query mi))"
| "sql_eval cc row _ = False"

text \<open>
  The conditions for which the conversion is exact: the strings are in one encoding \<open>e\<close>, no
  \<^verbatim>\<open>BETWEEN\<close> is negated, and the full text queries parse.
\<close>

fun exact :: "converter \<Rightarrow> grn_encoding option \<Rightarrow> item \<Rightarrow> bool" where
  "exact cc e (CondItem func items) \<longleftrightarrow> items \<noteq> [] \<and> list_all (exact cc e) items"
| "exact cc e (CompareItem func (Some f) c) \<longleftrightarrow>
     (normalize_field_type (real_type f) = STRING_TYPE \<longrightarrow> field_encoding cc f = e)"
| "exact cc e (BetweenItem negated (Some f) lo hi) \<longleftrightarrow> \<not> negated \<and>
     (normalize_field_type (real_type f) = STRING_TYPE \<longrightarrow> field_encoding cc f = e)"
| "exact cc e (MatchItem mi) \<longleftrightarrow> list_all (\<lambda>f. field_encoding cc f = e) (key_fields cc (match_key mi))
     \<and> (match_boolean mi \<longrightarrow> query_parses cc (match_key mi) (match_query mi))"
| "exact cc e _ \<longleftrightarrow> True"

definition one_encoding :: "grn_encoding option \<Rightarrow> encodings \<Rightarrow> bool" where
  "one_encoding e encs \<longleftrightarrow> list_all ((=) e) encs"

lemma one_encoding_not_mixed: "one_encoding e encs \<Longrightarrow> \<not> mixed encs e"
  by (cases encs) (auto simp: one_encoding_def mixed_def)

lemma one_encoding_simps [simp]:
  "one_encoding e []" "one_encoding e (encs @ encs') \<longleftrightarrow> one_encoding e encs \<and> one_encoding e encs'"
  "one_encoding e [x] \<longleftrightarrow> x = e"
  by (auto simp: one_encoding_def)

lemma expr_step_const [simp]: "expr_step row (PushConst (const_value cc f c)) st = Some (SValue (const_value cc f c) # st)"
  by (auto simp: const_value_def split: normalized_type.splits)

lemma expr_run_field [simp]:
  "expr_run row (append_field_value f @ is) st = expr_run row is (SValue (column_value row (field_name f)) # st)"
  by (simp add: append_field_value_def)

lemma expr_run_const [simp]:
  "expr_run row (append_const_item cc f c @ is) st = expr_run row is (SValue (const_value cc f c) # st)"
  by (simp add: append_const_item_def)

lemma expr_run_consts:
  "expr_run row (concat (map (append_const_item cc f) cs) @ is) st
     = expr_run row is (rev (map (\<lambda>c. SValue (const_value cc f c)) cs) @ st)"
  by (induction cs arbitrary: st) simp_all

lemma stack_values_map: "stack_values (map (\<lambda>c. SValue (g c)) cs) = Some (map g cs)"
  by (induction cs) simp_all

text \<open>A negated \<^verbatim>\<open>IN\<close> behind another condition is left positive; the operator behind it negates it.\<close>

definition raw_value :: "converter \<Rightarrow> grn_row \<Rightarrow> bool \<Rightarrow> item \<Rightarrow> bool" where
  "raw_value cc row have_condition it =
     (case it of InItem True _ _ \<Rightarrow> (if have_condition then \<not> sql_eval cc row it else sql_eval cc row it)
      | _ \<Rightarrow> sql_eval cc row it)"

lemma convert_in_run:
  "expr_run row (convert_in cc negated f values hc) st
     = Some (SBool (raw_value cc row hc (InItem negated (Some f) values)) # st)"
proof -
  have core: "expr_run row (PushFunc FuncInValues # append_field_value f
        @ concat (map (append_const_item cc f) values) @ OpCall (Suc (length values)) # rest) st'
      = expr_run row rest (SBool (in_values row (column_value row (field_name f)) (map (const_value cc f) values)) # st')"
    for rest st'
    by (simp add: expr_run_consts stack_values_map call_func_def)
  show ?thesis
    using core [of "[]" st] core [of "[OpLogical OP_AND_NOT]" "SBool True # st"]
    by (cases hc; cases negated) (simp_all add: convert_in_def raw_value_def logical_value_def)
qed

lemma convert_between_run:
  assumes "normalize_field_type (real_type f) = STRING_TYPE \<longrightarrow> field_encoding cc f = e" and "one_encoding e encs"
  shows "\<exists>is encs'. convert_between cc f lo hi encs = (True, is, encs') \<and> one_encoding e encs'
    \<and> (\<forall>st. expr_run row is st = Some (SBool (between_values row (column_value row (field_name f))
        (const_value cc f lo) (const_value cc f hi)) # st))"
  using assms one_encoding_not_mixed [OF assms(2)]
  by (auto simp: convert_between_def Let_def call_func_def eval_nat_numeral)

lemma convert_func_run:
  assumes "exact cc e it" and "one_encoding e encs" and "fst (is_convertable cc opr it encs')"
    and "\<forall>func items. it \<noteq> CondItem func items" and "it \<noteq> OtherItem"
  shows "\<exists>is encs''. convert_func cc it encs hc = (True, is, encs'') \<and> one_encoding e encs''
    \<and> (\<forall>st. expr_run row is st = Some (SBool (raw_value cc row hc it) # st))"
proof (cases it)
  case (CompareItem func left c)
  with assms obtain f where "left = Some f" by (cases left) (auto split: if_splits)
  with assms CompareItem one_encoding_not_mixed [OF assms(2)] show ?thesis
    by (auto simp: convert_func_def convert_binary_operation_def Let_def raw_value_def)
next
  case (BetweenItem negated target lo hi)
  with assms obtain f where f: "target = Some f" by (cases target) (auto split: if_splits)
  with assms BetweenItem convert_between_run [of f cc e encs lo hi row] show ?thesis
    by (auto simp: convert_func_def raw_value_def)
next
  case (InItem negated target vs)
  with assms obtain f where f: "target = Some f" by (cases target) (auto split: if_splits)
  with assms InItem show ?thesis by (simp add: convert_func_def convert_in_run)
next
  case (MatchItem mi)
  with assms show ?thesis
    by (auto simp: convert_func_def convert_full_text_search_def raw_value_def one_encoding_def list_all_iff)
qed (use assms in auto)

section \<open>The pushed condition selects the rows of the condition\<close>

text \<open>The value on top of the stack while a conjunction or disjunction is built.\<close>

fun accumulate :: "grn_logical \<Rightarrow> bool option \<Rightarrow> bool list \<Rightarrow> bool option" where
  "accumulate opr acc [] = acc"
| "accumulate opr None (b # bs) = accumulate opr (Some b) bs"
| "accumulate opr (Some a) (b # bs) = accumulate opr (Some (logical_value opr a b)) bs"

lemma accumulate_Some:
  "accumulate OP_AND (Some a) bs = Some (a \<and> list_all id bs)"
  "accumulate OP_OR (Some a) bs = Some (a \<or> list_ex id bs)"
  by (induction bs arbitrary: a) (auto simp: logical_value_def)

lemma accumulate_None:
  "bs \<noteq> [] \<Longrightarrow> accumulate OP_AND None bs = Some (list_all id bs)"
  "bs \<noteq> [] \<Longrightarrow> accumulate OP_OR None bs = Some (list_ex id bs)"
  by (cases bs; simp add: accumulate_Some)+

definition stack_of :: "bool option \<Rightarrow> stack_value list \<Rightarrow> stack_value list" where
  "stack_of acc st = (case acc of None \<Rightarrow> st | Some a \<Rightarrow> SBool a # st)"

lemma is_convertable_all_Cons:
  assumes "fst (is_convertable_all cc opr (i # is) encs)"
  shows "fst (is_convertable cc opr i encs)" "\<exists>encs'. fst (is_convertable_all cc opr is encs')"
  using assms by (cases "is_convertable cc opr i encs"; auto split: bool.splits)+

text \<open>One sub-condition and the operator behind it.\<close>

lemma combine_run:
  assumes "expr_run row is (stack_of acc st) = Some (SBool (raw_value cc row (acc \<noteq> None) it) # stack_of acc st)"
    and "opr \<in> {OP_AND, OP_OR}" and "opr = OP_OR \<Longrightarrow> \<forall>t vs. it \<noteq> InItem True t vs"
  shows "expr_run row (is @ (if acc \<noteq> None then [OpLogical (sub_operator opr it)] else [])) (stack_of acc st)
    = Some (stack_of (accumulate opr acc [sql_eval cc row it]) st)"
proof (cases acc)
  case None
  with assms show ?thesis
    by (cases it) (auto simp: expr_run_append stack_of_def raw_value_def split: bool.splits)
next
  case (Some a)
  have "logical_value (sub_operator opr it) a (raw_value cc row True it) = logical_value opr a (sql_eval cc row it)"
  proof (cases "\<exists>t vs. it = InItem True t vs")
    case True
    with assms(2,3) show ?thesis by (auto simp: sub_operator_def raw_value_def logical_value_def)
  next
    case False
    then show ?thesis by (cases it) (auto simp: sub_operator_def raw_value_def split: bool.splits)
  qed
  with Some assms(1) show ?thesis by (simp add: expr_run_append stack_of_def)
qed

lemma accumulate_Cons:
  "accumulate opr acc (b # bs) = accumulate opr (accumulate opr acc [b]) bs"
  by (cases acc) simp_all

lemma accumulate_single_not_None [simp]: "accumulate opr acc [b] \<noteq> None"
  by (cases acc) simp_all

lemma convert_func_item:
  assumes "\<forall>func items. it \<noteq> CondItem func items" and "it \<noteq> OtherItem"
  shows "convert_item cc it encs hc = convert_func cc it encs hc"
  using assms by (cases it) auto

lemma convert_run:
  "exact cc e it \<Longrightarrow> one_encoding e encs \<Longrightarrow> fst (is_convertable cc opr it encs') \<Longrightarrow>
     \<exists>is encs''. convert_item cc it encs hc = (True, is, encs'') \<and> one_encoding e encs''
       \<and> (\<forall>st. expr_run row is st = Some (SBool (raw_value cc row hc it) # st))"
  "list_all (exact cc e) its \<Longrightarrow> one_encoding e encs \<Longrightarrow> opr' \<in> {OP_AND, OP_OR} \<Longrightarrow>
     fst (is_convertable_all cc opr' its encs') \<Longrightarrow>
     \<exists>is encs''. convert_cond cc opr' its n encs = (0 < n \<or> its \<noteq> [], is, encs'') \<and> one_encoding e encs''
       \<and> (\<forall>acc st. (acc \<noteq> None \<longleftrightarrow> 0 < n) \<longrightarrow> expr_run row is (stack_of acc st)
            = Some (stack_of (accumulate opr' acc (map (sql_eval cc row) its)) st))"
proof (induction cc it encs hc and cc opr' its n encs arbitrary: opr encs' and encs'
    rule: convert_item_convert_cond.induct)
  case (1 cc func items encs hc)
  let ?opr = "if func = COND_OR_FUNC then OP_OR else OP_AND"
  have ne: "items \<noteq> []" and ex: "list_all (exact cc e) items" using "1.prems"(1) by simp_all
  have cv: "fst (is_convertable_all cc ?opr items encs')"
    using "1.prems"(3) by (cases func) (auto split: if_splits)
  have "?opr \<in> {OP_AND, OP_OR}" by simp
  from "1.IH" [OF ex "1.prems"(2) this cv] ne
  obtain "is" encs'' where c: "convert_cond cc ?opr items 0 encs = (True, is, encs'')" "one_encoding e encs''"
    "\<forall>acc st. (acc \<noteq> None \<longleftrightarrow> (0::nat) < 0) \<longrightarrow> expr_run row is (stack_of acc st)
       = Some (stack_of (accumulate ?opr acc (map (sql_eval cc row) items)) st)"
    by (auto simp del: not_None_eq)
  have "accumulate ?opr None (map (sql_eval cc row) items) = Some (sql_eval cc row (CondItem func items))"
    using ne by (simp add: accumulate_None list_all_iff list_ex_iff)
  with c(3) have "expr_run row is st = Some (SBool (sql_eval cc row (CondItem func items)) # st)" for st
    by (metis less_irrefl option.simps(4,5) stack_of_def)
  with c show ?case by (simp add: raw_value_def)
next
  case (2 cc encs hc)
  then show ?case by simp
next
  case "3_1"
  then show ?case using convert_func_run by (subst convert_func_item) auto
next
  case "3_2"
  then show ?case using convert_func_run by (subst convert_func_item) auto
next
  case "3_3"
  then show ?case using convert_func_run by (subst convert_func_item) auto
next
  case "3_4"
  then show ?case using convert_func_run by (subst convert_func_item) auto
next
  case "3_5"
  then show ?case by simp
next
  case (4 cc opr n encs)
  then show ?case by simp
next
  case (5 cc opr it its n encs)
  have ex: "exact cc e it" "list_all (exact cc e) its" using "5.prems"(1) by simp_all
  obtain encs1 where cv: "fst (is_convertable cc opr it encs')" "fst (is_convertable_all cc opr its encs1)"
    using is_convertable_all_Cons [OF "5.prems"(4)] by blast
  have neg: "opr = OP_OR \<Longrightarrow> \<forall>t vs. it \<noteq> InItem True t vs" using cv(1) by (auto split: if_splits)
  obtain "is" encs2 where c: "convert_item cc it encs (0 < n) = (True, is, encs2)" "one_encoding e encs2"
    "\<And>st. expr_run row is st = Some (SBool (raw_value cc row (0 < n) it) # st)"
    using "5.IH"(1) [OF ex(1) "5.prems"(2) cv(1)] by blast
  obtain is' encs3 where d: "convert_cond cc opr its (n + 1) encs2 = (True, is', encs3)" "one_encoding e encs3"
    "\<And>acc st. acc \<noteq> None \<Longrightarrow> expr_run row is' (stack_of acc st)
       = Some (stack_of (accumulate opr acc (map (sql_eval cc row) its)) st)"
    using "5.IH"(2) [OF c(1) [symmetric] refl ex(2) c(2) "5.prems"(3) cv(2)] by (auto simp del: not_None_eq)
  have "expr_run row (is @ (if 0 < n then [OpLogical (sub_operator opr it)] else []) @ is') (stack_of acc st)
      = Some (stack_of (accumulate opr acc (map (sql_eval cc row) (it # its))) st)"
    if "acc \<noteq> None \<longleftrightarrow> 0 < n" for acc st
  proof -
    let ?front = "is @ (if acc \<noteq> None then [OpLogical (sub_operator opr it)] else [])"
    let ?acc = "accumulate opr acc [sql_eval cc row it]"
    have "expr_run row ?front (stack_of acc st) = Some (stack_of ?acc st)"
      using c(3) that by (intro combine_run "5.prems"(3) neg) simp_all
    moreover have "expr_run row is' (stack_of ?acc st)
        = Some (stack_of (accumulate opr ?acc (map (sql_eval cc row) its)) st)"
      by (rule d(3)) (rule accumulate_single_not_None)
    ultimately have "expr_run row (?front @ is') (stack_of acc st)
        = Some (stack_of (accumulate opr ?acc (map (sql_eval cc row) its)) st)"
      unfolding expr_run_append [of row ?front] by (simp only: option.case)
    then show ?thesis
      unfolding that list.map accumulate_Cons [of opr acc "sql_eval cc row it" "map (sql_eval cc row) its"] append_assoc .
  qed
  with c d show ?case by (simp del: not_None_eq)
qed

lemma cond_push_convertable:
  "storage_cond_push cc type cond = None \<Longrightarrow> fst (is_convertable cc OP_AND cond [])"
  by (auto simp: storage_cond_push_def convertable_def split: push_down_type.splits if_splits)


text \<open>A converter with an index on every column, an integer column and two text columns in different
  charsets.\<close>

definition sample_converter :: converter where
  "sample_converter = \<lparr>is_storage_mode = True, key_fields = (\<lambda>_. []), column_index = (\<lambda>_. Some (\<lambda>_. 1)),
     enum_value = (\<lambda>_ _. 0), query_parses = (\<lambda>_ q. q \<noteq> ''(''), conv_time = fixed_zone_env 0,
     conv_globals = sample_globals, conv_uninit = example_datetime\<rparr>"

definition column_of :: "string \<Rightarrow> mysql_type \<Rightarrow> string \<Rightarrow> nat \<Rightarrow> mysql_field" where
  "column_of n t cs h = \<lparr>field_index = 0, field_name = n, field_type = t, real_type = t, null_bit = False,
     unsigned_flag = False, field_decimals = 0, field_charset = sample_charset cs h\<rparr>"

definition int_const :: "int \<Rightarrow> const_item" where
  "int_const i = \<lparr>basic_const_item = True, is_string_item = False, is_int_item = True, val_str = [], val_int = i,
     item_get_time = None, item_get_date_fuzzy = None\<rparr>"

definition text_const :: "string \<Rightarrow> const_item" where
  "text_const t = (int_const 0)\<lparr>is_string_item := True, is_int_item := False, val_str := t\<rparr>"

definition sample_row :: "int \<Rightarrow> string \<Rightarrow> string \<Rightarrow> grn_row" where
  "sample_row i s t = \<lparr>column_value = (\<lambda>n. if n = ''id'' then GInt i else if n = ''name'' then GText s else GText t),
     compare = (\<lambda>opr a b. case (a, b) of
        (GInt x, GInt y) \<Rightarrow> (case opr of GRN_OP_EQUAL \<Rightarrow> x = y | GRN_OP_LESS \<Rightarrow> x < y | GRN_OP_LESS_EQUAL \<Rightarrow> x \<le> y
          | GRN_OP_GREATER_EQUAL \<Rightarrow> y \<le> x | GRN_OP_GREATER \<Rightarrow> y < x)
      | _ \<Rightarrow> a = b \<and> opr \<notin> {GRN_OP_LESS, GRN_OP_GREATER}),
     matches_query = (\<lambda>_ _. True), similar = (\<lambda>_ _. True)\<rparr>"

definition id_column :: mysql_field where "id_column = column_of ''id'' MYSQL_TYPE_LONG ''binary'' 3"
definition name_column :: mysql_field where "name_column = column_of ''name'' MYSQL_TYPE_VARCHAR ''utf8mb4'' 2"
definition kana_column :: mysql_field where "kana_column = column_of ''kana'' MYSQL_TYPE_VARCHAR ''cp932'' 7"

definition sample_condition :: item where
  "sample_condition = CondItem COND_AND_FUNC
     [InItem True (Some id_column) [int_const 5, int_const 7],
      CondItem COND_OR_FUNC [CompareItem GE_FUNC (Some id_column) (int_const 3),
        CompareItem EQ_FUNC (Some name_column) (text_const ''Groonga'')],
      BetweenItem False (Some id_column) (int_const 1) (int_const 9)]"

lemma sample_condition_facts:
  "storage_cond_push sample_converter PUSH_ALL sample_condition = None"
  "exact sample_converter (Some GRN_ENC_UTF8) sample_condition"
  by code_simp+


section \<open>Conditions that are pushed down inexactly\<close>

text \<open>
  A negated BETWEEN on an integer column is taken over, but the negation is lost: the expression
  selects exactly the other rows.
\<close>
theorem not_between_pushed_positive:
  assumes "is_storage_mode cc" and "normalize_field_type (field_type f) = INT_TYPE" and "real_type f = field_type f"
    and "field_type f \<noteq> MYSQL_TYPE_ENUM" and "basic_const_item lo" "basic_const_item hi"
  shows "storage_cond_push cc PUSH_ALL (BetweenItem True (Some f) lo hi) = None
    \<and> expr_run row (fst (convert_where cc (Some (BetweenItem True (Some f) lo hi)))) []
      = Some [SBool (\<not> sql_eval cc row (BetweenItem True (Some f) lo hi))]"
proof -
  have "normalize_field_type (real_type f) = STRING_TYPE \<longrightarrow> field_encoding cc f = None"
    using assms(2,3) by simp
  from convert_between_run [OF this, of "[]" lo hi row] show ?thesis
    using assms by (auto simp: storage_cond_push_def convertable_def is_convertable_between_def convert_where_def
        convert_func_def)
qed

theorem not_between_pushed_positive_witness:
  "storage_cond_push sample_converter PUSH_ALL (BetweenItem True (Some id_column) (int_const 1) (int_const 9)) = None
    \<and> expr_run (sample_row 4 ''a'' ''b'')
        (fst (convert_where sample_converter (Some (BetweenItem True (Some id_column) (int_const 1) (int_const 9))))) []
      = Some [SBool (\<not> sql_eval sample_converter (sample_row 4 ''a'' ''b'')
          (BetweenItem True (Some id_column) (int_const 1) (int_const 9)))]"
  by (rule not_between_pushed_positive)
    (simp_all add: sample_converter_def id_column_def column_of_def int_const_def normalize_field_type_def)

text \<open>
  The check of a range comparison on a string does not look at its encoding, the conversion does:
  a conjunction of an equality and a range comparison on strings of different encodings is taken over,
  but the range comparison is dropped from the expression.
\<close>
theorem mixed_range_condition_dropped:
  assumes "is_storage_mode cc" and "normalize_field_type (real_type f) = STRING_TYPE" "normalize_field_type (real_type g) = STRING_TYPE"
    and "field_encoding cc f \<noteq> field_encoding cc g" and "have_index cc f GRN_OP_EQUAL"
    and "basic_const_item c" "basic_const_item d" and "func \<noteq> EQ_FUNC"
  defines "cond \<equiv> CondItem COND_AND_FUNC [CompareItem EQ_FUNC (Some f) c, CompareItem func (Some g) d]"
  shows "storage_cond_push cc PUSH_ALL cond = None
    \<and> expr_run row (fst (convert_where cc (Some cond))) [] = Some [SBool (sql_eval cc row (CompareItem EQ_FUNC (Some f) c))]"
proof -
  have "is_convertable_binary_operation cc f c EQ_FUNC [] = (True, [field_encoding cc f])"
    "is_convertable_binary_operation cc g d func [field_encoding cc f] = (True, [field_encoding cc f])"
    using assms by (simp_all add: is_convertable_binary_operation_def mixed_def)
  then have "storage_cond_push cc PUSH_ALL cond = None"
    using assms by (simp add: storage_cond_push_def convertable_def cond_def)
  moreover have "convert_binary_operation cc (Some f) c (grn_cmp_of EQ_FUNC) [] =
      (True, append_field_value f @ append_const_item cc f c @ [OpCompare (grn_cmp_of EQ_FUNC)], [field_encoding cc f])"
    "convert_binary_operation cc (Some g) d (grn_cmp_of func) [field_encoding cc f] = (False, [], [field_encoding cc f])"
    using assms by (simp_all add: convert_binary_operation_def mixed_def)
  ultimately show ?thesis by (simp add: convert_where_def cond_def convert_func_def)
qed

theorem mixed_range_condition_dropped_witness:
  "expr_run (sample_row 1 ''a'' ''z'') (fst (convert_where sample_converter (Some (CondItem COND_AND_FUNC
      [CompareItem EQ_FUNC (Some name_column) (text_const ''a''), CompareItem LT_FUNC (Some kana_column) (text_const ''b'')])))) []
    = Some [SBool (sql_eval sample_converter (sample_row 1 ''a'' ''z'') (CompareItem EQ_FUNC (Some name_column) (text_const ''a'')))]"
proof -
  have "is_storage_mode sample_converter" "normalize_field_type (real_type name_column) = STRING_TYPE"
    "normalize_field_type (real_type kana_column) = STRING_TYPE"
    "field_encoding sample_converter name_column \<noteq> field_encoding sample_converter kana_column"
    "have_index sample_converter name_column GRN_OP_EQUAL" "basic_const_item (text_const ''a'')" "basic_const_item (text_const ''b'')"
    by code_simp+
  from mixed_range_condition_dropped [OF this, of LT_FUNC "sample_row 1 ''a'' ''z''"] show ?thesis by simp
qed

text \<open>
  The result of parsing a full text query is not looked at: a conjunction that ends with a query
  that does not parse is taken over, and the operator behind it finds only one value on the stack.
\<close>
theorem unparsable_query_breaks_expression:
  assumes "storage_cond_push cc PUSH_ALL (CondItem COND_AND_FUNC [CompareItem func (Some f) c, MatchItem mi]) = None"
    and "match_boolean mi" and "\<not> query_parses cc (match_key mi) (match_query mi)"
  shows "expr_run row (fst (convert_where cc (Some (CondItem COND_AND_FUNC [CompareItem func (Some f) c, MatchItem mi])))) [] = None"
  using assms
  by (auto simp: convert_where_def convert_func_def convert_binary_operation_def convert_full_text_search_def mixed_def
      Let_def)

definition broken_match :: match_item where
  "broken_match = \<lparr>match_key = 0, match_query = ''('', match_boolean = True\<rparr>"

theorem unparsable_query_breaks_expression_witness:
  "expr_run (sample_row 1 ''a'' ''z'') (fst (convert_where sample_converter (Some (CondItem COND_AND_FUNC
      [CompareItem GE_FUNC (Some id_column) (int_const 3), MatchItem broken_match])))) [] = None"
proof (rule unparsable_query_breaks_expression)
  show "storage_cond_push sample_converter PUSH_ALL (CondItem COND_AND_FUNC
      [CompareItem GE_FUNC (Some id_column) (int_const 3), MatchItem broken_match]) = None" by code_simp
qed (simp_all add: broken_match_def sample_converter_def)

end
