(* ===== verification/Fast_Order.thy ===== *)
theory Fast_Order
  imports Condition_Converter Index_Names Field_Normalizer "HOL-Library.Multiset"
begin

text \<open>
  The optimization of \<^verbatim>\<open>ORDER BY ... LIMIT\<close> (\<^verbatim>\<open>is_primary_key_field\<close>, \<^verbatim>\<open>check_fast_order_limit\<close> of \<^verbatim>\<open>ha_mroonga.cpp\<close>): when the
  whole condition is Groonga's and every sort key is a column or the score, Groonga sorts the matching records and hands over only
  the first ones. The parts of MySQL's query block that the check looks at are a record; limits are 64 bit numbers that wrap
  around. MySQL sorts the rows it gets again and applies the limit itself; the result is a correct answer to the query.
\<close>

section \<open>The query block\<close>

datatype order_value = Order_field mysql_field | Order_match match_item | Order_function | Order_other

record order_item =
  oi_value :: order_value
  oi_asc :: bool

record query_block =
  is_select :: bool
  with_sum_func :: bool
  group_elements :: nat
  has_having :: bool
  from_tables :: "(string \<times> string) list"
  order_list :: "order_item list"
  has_limit :: bool
  select_limit :: "64 word option"
  offset_limit :: "64 word option"
  found_rows :: bool
  where_cond :: "item option"

record order_env =
  enable_optimization :: bool
  own_table :: "string \<times> string"
  pushed_cond :: bool
  order_converter :: converter
  order_strconvert :: "string \<Rightarrow> nat \<Rightarrow> string"
  order_path_size :: nat
  result_column :: "string \<Rightarrow> string option"
  primary_key_parts :: "string list option"

text \<open>A sort key: the accessor on the matching records, if there is one, and the direction.\<close>

record sort_key =
  sk_column :: "string option"
  sk_asc :: bool

definition MRN_COLUMN_NAME_KEY :: string where
  "MRN_COLUMN_NAME_KEY = ''_key''"

definition MRN_COLUMN_NAME_SCORE :: string where
  "MRN_COLUMN_NAME_SCORE = ''_score''"

definition is_primary_key_field :: "order_env \<Rightarrow> mysql_field \<Rightarrow> bool" where
  "is_primary_key_field env f = (case primary_key_parts env of
      None \<Rightarrow> False
    | Some parts \<Rightarrow> if length parts \<noteq> 1 then False else field_name f = hd parts)"


section \<open>The check\<close>

text \<open>The loop over the sort keys: whether all of them are supported, and the keys so far. A function other than \<^verbatim>\<open>MATCH\<close> does not end it.\<close>

fun order_loop :: "order_env \<Rightarrow> order_item list \<Rightarrow> bool \<Rightarrow> sort_key list \<Rightarrow> bool \<times> sort_key list" where
  "order_loop env [] fast ks = (fast, ks)"
| "order_loop env (x # os) fast ks = (case oi_value x of
      Order_field f \<Rightarrow>
        if should_normalize f then (False, ks)
        else if is_storage_mode (order_converter env) then
          order_loop env os fast
            (ks @ [\<lparr>sk_column = result_column env (ColumnName (order_strconvert env) (order_path_size env) (field_name f)), sk_asc = oi_asc x\<rparr>])
        else if is_primary_key_field env f then
          order_loop env os fast (ks @ [\<lparr>sk_column = result_column env MRN_COLUMN_NAME_KEY, sk_asc = oi_asc x\<rparr>])
        else (False, ks)
    | Order_match mi \<Rightarrow> order_loop env os fast (ks @ [\<lparr>sk_column = result_column env MRN_COLUMN_NAME_SCORE, sk_asc = oi_asc x\<rparr>])
    | Order_function \<Rightarrow> order_loop env os False (ks @ [\<lparr>sk_column = None, sk_asc = oi_asc x\<rparr>])
    | Order_other \<Rightarrow> (False, ks))"

definition INT_MAX :: int where
  "INT_MAX = 2 ^ 31 - 1"

text \<open>Whether the form of the query allows it.\<close>

definition simple_select :: "order_env \<Rightarrow> query_block \<Rightarrow> bool" where
  "simple_select env qb \<longleftrightarrow> is_select qb \<and> \<not> with_sum_func qb \<and> group_elements qb = 0 \<and> \<not> has_having qb
     \<and> length (from_tables qb) = 1 \<and> hd (from_tables qb) = own_table env \<and> order_list qb \<noteq> [] \<and> has_limit qb
     \<and> (case select_limit qb of None \<Rightarrow> False | Some n \<Rightarrow> sint n > 0)"

definition order_limit :: "query_block \<Rightarrow> 64 word" where
  "order_limit qb = (case offset_limit qb of None \<Rightarrow> 0 | Some n \<Rightarrow> n) + the (select_limit qb)"

definition where_supported :: "order_env \<Rightarrow> query_block \<Rightarrow> bool" where
  "where_supported env qb \<longleftrightarrow> (case where_cond qb of
      None \<Rightarrow> True
    | Some w \<Rightarrow>
        if is_storage_mode (order_converter env) then pushed_cond env \<and> convertable (order_converter env) (Some w)
        else convertable (order_converter env) (Some w) \<and> count_match_against (order_converter env) w = 1)"

text \<open>The decision, the sort keys that stay open and the limit that was stored, if any.\<close>

definition check_fast_order_limit :: "order_env \<Rightarrow> query_block \<Rightarrow> bool \<times> sort_key list \<times> 64 word option" where
  "check_fast_order_limit env qb =
     (if \<not> enable_optimization env \<or> \<not> simple_select env qb then (False, [], None)
      else if sint (order_limit qb) > INT_MAX \<or> found_rows qb \<or> \<not> where_supported env qb then (False, [], Some (order_limit qb))
      else (case order_loop env (order_list qb) True [] of
          (fast, ks) \<Rightarrow> if fast then (True, ks, Some (order_limit qb)) else (False, [], Some (order_limit qb))))"

text \<open>\<^verbatim>\<open>static_cast<int>(limit)\<close>\<close>

definition sort_limit :: "64 word \<Rightarrow> int" where
  "sort_limit limit = sint (ucast limit :: 32 word)"


section \<open>Answers to a query\<close>

text \<open>Rows in the order of several sort keys, each ascending or descending.\<close>

fun row_before :: "((nat \<Rightarrow> int) \<times> bool) list \<Rightarrow> nat \<Rightarrow> nat \<Rightarrow> bool" where
  "row_before [] r s = True"
| "row_before ((k, asc) # ks) r s = (if k r = k s then row_before ks r s else (k r < k s) = asc)"

definition mysql_order :: "(order_value \<Rightarrow> nat \<Rightarrow> int) \<Rightarrow> order_item list \<Rightarrow> nat \<Rightarrow> nat \<Rightarrow> bool" where
  "mysql_order rank os = row_before (map (\<lambda>x. (rank (oi_value x), oi_asc x)) os)"

definition groonga_order :: "(string \<Rightarrow> nat \<Rightarrow> int) \<Rightarrow> sort_key list \<Rightarrow> nat \<Rightarrow> nat \<Rightarrow> bool" where
  "groonga_order rank ks = row_before (map (\<lambda>k. (rank (the (sk_column k)), sk_asc k)) ks)"

text \<open>Rows that compare equal may come in any order, so a query with a limit can have several answers.\<close>

definition answers :: "(nat \<Rightarrow> nat \<Rightarrow> bool) \<Rightarrow> nat \<Rightarrow> nat \<Rightarrow> nat list \<Rightarrow> nat list \<Rightarrow> bool" where
  "answers before offset limit rows res \<longleftrightarrow> (\<exists>zs. mset zs = mset rows \<and> sorted_wrt before zs \<and> res = take limit (drop offset zs))"

text \<open>\<^verbatim>\<open>grn_table_sort\<close> gives the first records in an order of the keys.\<close>

definition sort_promise :: "(string \<Rightarrow> nat \<Rightarrow> int) \<Rightarrow> (nat list \<Rightarrow> int \<Rightarrow> sort_key list \<Rightarrow> nat list) \<Rightarrow> bool" where
  "sort_promise rank grn_table_sort \<longleftrightarrow> (\<forall>rows n ks. 0 \<le> n \<longrightarrow> (\<forall>k\<in>set ks. sk_column k \<noteq> None)
     \<longrightarrow> answers (groonga_order rank ks) 0 (nat n) rows (grn_table_sort rows n ks))"

text \<open>The accessor that the loop takes for a sort key, and what it is relied on for: Groonga orders the records by it as MySQL orders the rows.\<close>

definition accessor_of :: "order_env \<Rightarrow> order_value \<Rightarrow> string option" where
  "accessor_of env v = (case v of
      Order_field f \<Rightarrow> result_column env (if is_storage_mode (order_converter env)
        then ColumnName (order_strconvert env) (order_path_size env) (field_name f) else MRN_COLUMN_NAME_KEY)
    | Order_match mi \<Rightarrow> result_column env MRN_COLUMN_NAME_SCORE
    | _ \<Rightarrow> None)"

definition supported_key :: "order_env \<Rightarrow> order_value \<Rightarrow> bool" where
  "supported_key env v \<longleftrightarrow> (case v of
      Order_field f \<Rightarrow> \<not> should_normalize f \<and> (is_storage_mode (order_converter env) \<or> is_primary_key_field env f)
    | Order_match mi \<Rightarrow> True
    | _ \<Rightarrow> False)"

definition orders_agree :: "order_env \<Rightarrow> (order_value \<Rightarrow> nat \<Rightarrow> int) \<Rightarrow> (string \<Rightarrow> nat \<Rightarrow> int) \<Rightarrow> order_value \<Rightarrow> bool" where
  "orders_agree env rank crank v \<longleftrightarrow> (supported_key env v \<longrightarrow> (\<exists>c. accessor_of env v = Some c
     \<and> (\<forall>r s. rank v r < rank v s \<longleftrightarrow> crank c r < crank c s)))"

lemma order_loop_supported:
  "order_loop env os fast ks = (True, ks') \<Longrightarrow> fast \<and> (\<forall>x\<in>set os. supported_key env (oi_value x))
    \<and> ks' = ks @ map (\<lambda>x. \<lparr>sk_column = accessor_of env (oi_value x), sk_asc = oi_asc x\<rparr>) os"
proof (induction env os fast ks rule: order_loop.induct)
  case (2 env x os fast ks)
  then show ?case
    by (cases "oi_value x") (auto simp: supported_key_def accessor_of_def split: if_splits)
qed simp

lemma row_before_agrees:
  assumes "\<forall>x\<in>set xs. \<forall>r s. f x r < f x s \<longleftrightarrow> g x r < (g x s :: int)"
  shows "row_before (map (\<lambda>x. (f x, d x)) xs) r s = row_before (map (\<lambda>x. (g x, d x)) xs) r s"
  using assms
proof (induction xs)
  case (Cons x xs)
  have "f x r = f x s \<longleftrightarrow> g x r = g x s" using Cons.prems by (metis list.set_intros(1) linorder_less_linear order_less_irrefl)
  then show ?case using Cons by simp
qed simp

lemma answers_of_first:
  assumes "answers before 0 n rows some" "answers before offset limit some res" "offset + limit \<le> n"
  shows "answers before offset limit rows res"
proof -
  obtain zs where zs: "mset zs = mset rows" "sorted_wrt before zs" "some = take n zs" using assms(1) by (auto simp: answers_def)
  obtain ws where ws: "mset ws = mset some" "sorted_wrt before ws" "res = take limit (drop offset ws)" using assms(2) by (auto simp: answers_def)
  have "sorted_wrt before (take n zs @ drop n zs)" using zs(2) by simp
  then have "\<forall>x\<in>set ws. \<forall>y\<in>set (drop n zs). before x y" "sorted_wrt before (drop n zs)"
    using mset_eq_setD [OF ws(1)] zs(3) unfolding sorted_wrt_append by simp_all
  then have "sorted_wrt before (ws @ drop n zs)" using ws(2) by (simp add: sorted_wrt_append)
  moreover have "mset (ws @ drop n zs) = mset rows" using ws(1) zs(1,3) by (metis append_take_drop_id mset_append)
  moreover have "res = take limit (drop offset (ws @ drop n zs))"
  proof (cases "length zs \<le> n")
    case False
    then have "length ws = n" using ws(1) zs(3) by (metis length_take min.absorb2 mset_eq_length nle_le)
    then show ?thesis using ws(3) assms(3) by simp
  qed (use ws(3) in simp)
  ultimately show ?thesis unfolding answers_def by blast
qed

lemma uint_of_sint:
  fixes w :: "64 word"
  assumes "0 \<le> sint w"
  shows "uint w = sint w"
proof -
  have "sint w < 2 ^ 64" using sint_lt [of w] by simp
  then show ?thesis using assms by (simp add: uint_sint take_bit_int_eq_self)
qed

lemma sort_limit_exact: "0 \<le> sint limit \<Longrightarrow> sint limit \<le> INT_MAX \<Longrightarrow> sort_limit limit = sint limit"
  unfolding sort_limit_def INT_MAX_def by (subst signed_ucast_eq) (simp add: uint_of_sint signed_take_bit_int_eq_self)


section \<open>A query\<close>

lemma row_before_total: "row_before ks r s \<or> row_before ks s r"
  by (induction ks) auto

lemma row_before_trans: "row_before ks r s \<Longrightarrow> row_before ks s t \<Longrightarrow> row_before ks r t"
proof (induction ks)
  case (Cons k ks)
  obtain f asc where k: "k = (f, asc)" by (cases k)
  show ?case
  proof (cases "f r = f s \<and> f s = f t")
    case True
    then show ?thesis using Cons k by simp
  next
    case False
    then show ?thesis using Cons.prems k by (cases asc) (auto split: if_splits)
  qed
qed simp

fun insert_row :: "(nat \<Rightarrow> nat \<Rightarrow> bool) \<Rightarrow> nat \<Rightarrow> nat list \<Rightarrow> nat list" where
  "insert_row before x [] = [x]"
| "insert_row before x (y # ys) = (if before x y then x # y # ys else y # insert_row before x ys)"

definition sort_rows :: "(nat \<Rightarrow> nat \<Rightarrow> bool) \<Rightarrow> nat list \<Rightarrow> nat list" where
  "sort_rows before rows = foldr (insert_row before) rows []"

lemma mset_insert_row [simp]: "mset (insert_row before x ys) = add_mset x (mset ys)"
  by (induction ys) auto

lemma set_insert_row [simp]: "set (insert_row before x ys) = insert x (set ys)"
  by (induction ys) auto

lemma sorted_insert_row: "sorted_wrt (row_before ks) ys \<Longrightarrow> sorted_wrt (row_before ks) (insert_row (row_before ks) x ys)"
proof (induction ys)
  case (Cons y ys)
  show ?case
  proof (cases "row_before ks x y")
    case True
    then show ?thesis using Cons.prems row_before_trans by auto
  next
    case False
    then show ?thesis using Cons row_before_total [of ks x y] by auto
  qed
qed simp

lemma sort_rows_answers: "answers (row_before ks) 0 n rows (take n (sort_rows (row_before ks) rows))"
proof -
  have "mset (sort_rows (row_before ks) rows) = mset rows" "sorted_wrt (row_before ks) (sort_rows (row_before ks) rows)"
    unfolding sort_rows_def by (induction rows) (simp_all add: sorted_insert_row)
  then show ?thesis unfolding answers_def by auto
qed

definition sample_sort :: "(string \<Rightarrow> nat \<Rightarrow> int) \<Rightarrow> nat list \<Rightarrow> int \<Rightarrow> sort_key list \<Rightarrow> nat list" where
  "sample_sort rank rows n ks = take (nat n) (sort_rows (groonga_order rank ks) rows)"

lemma sample_sort_promise: "sort_promise rank (sample_sort rank)"
  unfolding sort_promise_def sample_sort_def groonga_order_def using sort_rows_answers by blast

definition sample_order_env :: order_env where
  "sample_order_env = \<lparr>enable_optimization = True, own_table = (''db'', ''diaries''), pushed_cond = True, order_converter = sample_converter,
     order_strconvert = (\<lambda>s n. take n s), order_path_size = 512, result_column = (\<lambda>c. Some c), primary_key_parts = Some [''id'']\<rparr>"

definition sample_query_block :: query_block where
  "sample_query_block = \<lparr>is_select = True, with_sum_func = False, group_elements = 0, has_having = False, from_tables = [(''db'', ''diaries'')],
     order_list = [\<lparr>oi_value = Order_field (sample_field\<lparr>field_name := ''day'', field_type := MYSQL_TYPE_LONG, real_type := MYSQL_TYPE_LONG\<rparr>), oi_asc = False\<rparr>],
     has_limit = True, select_limit = Some 2, offset_limit = Some 1, found_rows = False, where_cond = Some sample_condition\<rparr>"

definition sample_day :: "nat \<Rightarrow> int" where
  "sample_day r = int (r mod 5)"


text \<open>Offset and limit are added in 64 bits: \<^verbatim>\<open>LIMIT 1, 9223372036854775807\<close>, all rows but the first, is accepted, and the limit
  that Groonga gets is 0.\<close>

lemma overflowing_limit_accepted:
  "\<exists>ks limit. check_fast_order_limit sample_order_env (sample_query_block\<lparr>select_limit := Some (2 ^ 63 - 1)\<rparr>) = (True, ks, Some limit) \<and> sort_limit limit = 0"
proof -
  have "check_fast_order_limit sample_order_env (sample_query_block\<lparr>select_limit := Some (2 ^ 63 - 1)\<rparr>)
      = (True, [\<lparr>sk_column = Some ''day'', sk_asc = False\<rparr>], Some (2 ^ 63))" by code_simp
  moreover have "sort_limit (2 ^ 63) = 0" by code_simp
  ultimately show ?thesis by blast
qed

text \<open>The score that stands for a \<^verbatim>\<open>MATCH\<close> in \<^verbatim>\<open>ORDER BY\<close> is that of the condition, whatever the \<^verbatim>\<open>MATCH\<close> searches for.\<close>

lemma order_by_any_match:
  "check_fast_order_limit sample_order_env (sample_query_block\<lparr>order_list := [\<lparr>oi_value = Order_match mi, oi_asc = False\<rparr>]\<rparr>)
    = check_fast_order_limit sample_order_env (sample_query_block\<lparr>order_list := [\<lparr>oi_value = Order_match mi', oi_asc = False\<rparr>]\<rparr>)"
  by (simp add: check_fast_order_limit_def simple_select_def order_limit_def where_supported_def)

end
