(* ===== verification/Query_Parser.thy ===== *)
theory Query_Parser
  imports Mrn_Prelude
begin

text \<open>
  The pragmas of a full text query in boolean mode (\<^verbatim>\<open>lib/mrn_query_parser.cpp\<close>). A pointer into the
  query is the rest of the memory behind it, so that reading at or behind the end of the query is
  visible: what lies behind the query is part of the memory, and reading behind the memory is
  \<^const>\<open>None\<close>. The length that goes with the pointer is a 64-bit \<^verbatim>\<open>size_t\<close>, which wraps around.
  Groonga's \<^verbatim>\<open>grn_atoui\<close> and \<^verbatim>\<open>grn_atoi\<close> are parameters: the number at the front of a text and the
  number of characters it has. The expression of the match columns is the list of instructions
  that were appended to it; it is evaluated by a stack machine.
\<close>

section \<open>Model\<close>

type_synonym size_t = "64 word"
type_synonym uint = "32 word"

datatype grn_operator = GRN_OP_OR | GRN_OP_AND | GRN_OP_AND_NOT

text \<open>The instructions for the match columns.\<close>

datatype match_instr =
    PushColumn | PushSection uint | OpGetMember | PushInt int | OpStar | OpOr

record query_env =
  grn_atoui :: "string \<Rightarrow> uint \<times> nat"
  grn_atoi :: "string \<Rightarrow> int \<times> nat"

record query_parser =
  n_sections :: nat
  target_is_vector :: bool
  match_columns :: "match_instr list option"

definition append_section :: "uint \<Rightarrow> int \<Rightarrow> nat \<Rightarrow> match_instr list option \<Rightarrow> match_instr list option" where
  "append_section sec weight n_weights columns =
     map_option (\<lambda>is. is @ [PushColumn, PushSection sec, OpGetMember]
        @ (if weight \<noteq> 1 then [PushInt weight, OpStar] else [])
        @ (if 2 \<le> n_weights then [OpOr] else [])) columns"

text \<open>\<^verbatim>\<open>parse_pragma_d\<close>: \<open>Some None\<close> is failure; the characters are read only within the length.\<close>

definition parse_pragma_d :: "string \<Rightarrow> size_t \<Rightarrow> (grn_operator \<times> nat) option option" where
  "parse_pragma_d query len =
     (if len = 0 then Some None
      else case query of
        [] \<Rightarrow> None
      | c # cs \<Rightarrow>
          if c = CHR ''+'' then Some (Some (GRN_OP_AND, 1))
          else if c = CHR ''-'' then Some (Some (GRN_OP_AND_NOT, 1))
          else if 2 \<le> len then
            (case cs of [] \<Rightarrow> None
             | d # _ \<Rightarrow> if c = CHR ''O'' \<and> d = CHR ''R'' then Some (Some (GRN_OP_OR, 2)) else Some None)
          else Some None)"

text \<open>The state of the loop of \<^verbatim>\<open>parse_pragma_w\<close>.\<close>

record w_state =
  w_query :: string
  w_length :: size_t
  w_consumed :: nat
  w_n_weights :: nat
  w_specified :: "bool list"
  w_columns :: "match_instr list option"

definition w_advance :: "nat \<Rightarrow> w_state \<Rightarrow> w_state" where
  "w_advance n st = st\<lparr>w_query := drop n (w_query st), w_length := w_length st - of_nat n,
     w_consumed := w_consumed st + n\<rparr>"

text \<open>The outcomes of one turn: out of bounds, leaving the loop, or going on.\<close>

datatype w_turn = WFault | WBreak w_state | WNext w_state

definition is_section_digit :: "char \<Rightarrow> bool" where
  "is_section_digit c \<longleftrightarrow> c \<in> set ''123456789''"

definition w_finish :: "uint \<Rightarrow> int \<Rightarrow> w_state \<Rightarrow> w_turn" where
  "w_finish sec weight st = WNext (st\<lparr>w_n_weights := w_n_weights st + 1,
     w_columns := append_section sec weight (w_n_weights st + 1) (w_columns st)\<rparr>)"

text \<open>The optional weight behind a section.\<close>

definition w_weight :: "query_env \<Rightarrow> uint \<Rightarrow> w_state \<Rightarrow> w_turn" where
  "w_weight env sec st =
     (if 2 \<le> w_length st then
        (case w_query st of
           [] \<Rightarrow> WFault
         | d # ds \<Rightarrow>
             if d = CHR '':'' then
               (let (weight, used) = grn_atoi env (take (unat (w_length st) - 1) ds) in
                if used = 0 then WBreak st else w_finish sec weight (w_advance (1 + used) st))
             else w_finish sec 1 st)
      else w_finish sec 1 st)"

text \<open>\<^verbatim>\<open>specified_sections[section - 1] = true\<close>, kept for an index of several columns only.\<close>

definition w_mark :: "query_parser \<Rightarrow> uint \<Rightarrow> w_state \<Rightarrow> w_state" where
  "w_mark qp sec st =
     (if target_is_vector qp then st else st\<lparr>w_specified := (w_specified st)[unat sec - 1 := True]\<rparr>)"

definition w_section :: "query_env \<Rightarrow> query_parser \<Rightarrow> w_state \<Rightarrow> w_turn" where
  "w_section env qp st =
     (case w_query st of
        [] \<Rightarrow> WFault
      | c # _ \<Rightarrow>
          if \<not> is_section_digit c then WBreak st
          else
            (let (sec, used) = grn_atoui env (take (unat (w_length st)) (w_query st)) in
             if used = 0 then WBreak st
             else if \<not> target_is_vector qp \<and> \<not> (0 < sec \<and> unat sec \<le> n_sections qp) then WBreak st
             else w_weight env (sec - 1) (w_advance used (w_mark qp sec st))))"

text \<open>The loop. The comma between two weights is consumed before the next section is tried.\<close>

lemma w_weight_next:
  assumes "w_weight env sec st = WNext st'"
  obtains weight n where "st' = (w_advance n st)\<lparr>w_n_weights := w_n_weights st + 1,
     w_columns := append_section sec weight (w_n_weights st + 1) (w_columns st)\<rparr>"
proof -
  have z: "w_advance 0 st = st" by (simp add: w_advance_def)
  have "\<exists>weight n. w_finish sec weight (w_advance n st) = WNext st'"
  proof (cases "2 \<le> w_length st \<and> w_query st \<noteq> [] \<and> hd (w_query st) = CHR '':''")
    case True
    then obtain ds where "w_query st = CHR '':'' # ds" by (cases "w_query st") auto
    with True assms show ?thesis
      by (cases "grn_atoi env (take (unat (w_length st) - 1) ds)") (auto simp: w_weight_def split: if_splits)
  next
    case False
    with assms have "w_finish sec 1 (w_advance 0 st) = WNext st'"
      by (auto simp: w_weight_def z split: if_splits list.splits)
    then show ?thesis by blast
  qed
  with that show thesis by (auto simp: w_finish_def w_advance_def)
qed

lemma w_weight_break: "w_weight env sec st = WBreak st' \<Longrightarrow> st' = st"
  by (auto simp: w_weight_def w_finish_def split: list.splits if_splits prod.splits)

text \<open>A turn ends at once or comes to the weight of a section that is marked.\<close>

lemma w_section_cases:
  obtains (fault) "w_section env qp st = WFault"
  | (break) "w_section env qp st = WBreak st"
  | (weight) sec used where "0 < used" "w_query st \<noteq> []"
    "target_is_vector qp \<or> 0 < sec \<and> unat sec \<le> n_sections qp"
    "w_section env qp st = w_weight env (sec - 1) (w_advance used (w_mark qp sec st))"
proof (cases "w_query st")
  case Nil
  then show thesis by (intro fault) (simp add: w_section_def)
next
  case (Cons c cs)
  obtain sec used where a: "grn_atoui env (take (unat (w_length st)) (c # cs)) = (sec, used)" by force
  show thesis
  proof (cases "is_section_digit c \<and> used \<noteq> 0 \<and> (target_is_vector qp \<or> 0 < sec \<and> unat sec \<le> n_sections qp)")
    case True
    with Cons a show thesis by (intro weight [of used sec]) (auto simp: w_section_def)
  next
    case False
    with Cons a show thesis by (intro break) (auto simp: w_section_def)
  qed
qed

lemma w_section_next:
  assumes "w_section env qp st = WNext st'"
  obtains sec weight used n where "0 < used" "w_query st \<noteq> []"
    "target_is_vector qp \<or> 0 < sec \<and> unat sec \<le> n_sections qp"
    "st' = (w_advance n (w_advance used (w_mark qp sec st)))\<lparr>w_n_weights := w_n_weights st + 1,
        w_columns := append_section (sec - 1) weight (w_n_weights st + 1) (w_columns st)\<rparr>"
proof (cases rule: w_section_cases [of env qp st])
  case (weight sec used)
  with assms have "w_weight env (sec - 1) (w_advance used (w_mark qp sec st)) = WNext st'" by simp
  then obtain wt n where "st' = (w_advance n (w_advance used (w_mark qp sec st)))\<lparr>w_n_weights := w_n_weights st + 1,
        w_columns := append_section (sec - 1) wt (w_n_weights st + 1) (w_columns st)\<rparr>"
    by (rule w_weight_next) (auto simp: w_advance_def w_mark_def split: if_splits)
  with weight that show thesis by blast
qed (use assms in simp_all)

lemma w_section_query:
  "w_section env qp st = WNext st' \<Longrightarrow> length (w_query st') < length (w_query st)"
  by (erule w_section_next) (auto simp: w_advance_def w_mark_def)

function w_loop :: "query_env \<Rightarrow> query_parser \<Rightarrow> w_state \<Rightarrow> w_state option" where
  "w_loop env qp st =
     (if w_length st = 0 then Some st
      else if w_query st = [] then None
      else if 1 \<le> w_n_weights st \<and> hd (w_query st) \<noteq> CHR '','' then Some st
      else
        (let st1 = (if 1 \<le> w_n_weights st then w_advance 1 st else st) in
         if w_length st1 = 0 then Some st1
         else (case w_section env qp st1 of
             WFault \<Rightarrow> None
           | WBreak st2 \<Rightarrow> Some st2
           | WNext st2 \<Rightarrow> w_loop env qp st2)))"
  by pat_completeness auto
termination
proof (relation "measure (\<lambda>(_, _, st). length (w_query st))", goal_cases)
  case (2 env qp st st1 st2)
  then have "length (w_query st2) < length (w_query st1)" by (intro w_section_query) simp
  moreover have "length (w_query st1) \<le> length (w_query st)" using 2 by (simp add: w_advance_def)
  ultimately show ?case by simp
qed simp

declare w_loop.simps [simp del]

text \<open>The sections without a weight get the weight 1, unless the target is a vector column.\<close>

primrec w_defaults :: "bool list \<Rightarrow> nat \<Rightarrow> nat \<times> match_instr list option \<Rightarrow> nat \<times> match_instr list option" where
  "w_defaults [] sec acc = acc"
| "w_defaults (b # bs) sec acc =
     (case acc of (n_weights, columns) \<Rightarrow>
        w_defaults bs (Suc sec)
          (if b then (n_weights, columns)
           else (n_weights + 1, append_section (of_nat sec) 1 (n_weights + 1) columns)))"

text \<open>\<^verbatim>\<open>parse_pragma_w\<close>: success, the consumed length, and the match columns.\<close>

definition parse_pragma_w ::
    "query_env \<Rightarrow> query_parser \<Rightarrow> string \<Rightarrow> size_t \<Rightarrow> (bool \<times> nat \<times> match_instr list option) option" where
  "parse_pragma_w env qp query len =
     (let specified = (if target_is_vector qp then [] else replicate (n_sections qp) False) in
      case w_loop env qp \<lparr>w_query = query, w_length = len, w_consumed = 0, w_n_weights = 0,
             w_specified = specified, w_columns = match_columns qp\<rparr> of
        None \<Rightarrow> None
      | Some st \<Rightarrow>
          (let (n_weights, columns) = (if target_is_vector qp then (w_n_weights st, w_columns st)
                 else w_defaults (w_specified st) 0 (w_n_weights st, w_columns st))
           in Some (0 < n_weights, w_consumed st, columns)))"

datatype expr_flag =
    GRN_EXPR_SYNTAX_QUERY | GRN_EXPR_SYNTAX_SCRIPT | GRN_EXPR_ALLOW_COLUMN | GRN_EXPR_ALLOW_UPDATE
  | GRN_EXPR_ALLOW_LEADING_NOT | GRN_EXPR_QUERY_NO_SYNTAX_ERROR

definition default_expression_flags :: "64 word \<Rightarrow> expr_flag list" where
  "default_expression_flags syntax_flags =
     (if syntax_flags = 1 then [GRN_EXPR_SYNTAX_QUERY, GRN_EXPR_ALLOW_LEADING_NOT]
      else [if bit syntax_flags 2 then GRN_EXPR_SYNTAX_SCRIPT else GRN_EXPR_SYNTAX_QUERY]
        @ (if bit syntax_flags 3 then [GRN_EXPR_ALLOW_COLUMN] else [])
        @ (if bit syntax_flags 4 then [GRN_EXPR_ALLOW_UPDATE] else [])
        @ (if bit syntax_flags 5 then [GRN_EXPR_ALLOW_LEADING_NOT] else [])
        @ (if bit syntax_flags 6 then [GRN_EXPR_QUERY_NO_SYNTAX_ERROR] else []))"

text \<open>The loop over the pragmas; each turn reads the character at the pointer, whatever the length.\<close>

record pragma_state =
  p_query :: string
  p_length :: size_t
  p_operator :: grn_operator
  p_columns :: "match_instr list option"
  p_parsed :: bool
  p_weight_specified :: bool

definition pragma_advance :: "nat \<Rightarrow> pragma_state \<Rightarrow> pragma_state" where
  "pragma_advance n st = st\<lparr>p_query := drop n (p_query st), p_length := p_length st - of_nat n, p_parsed := True\<rparr>"

function pragma_loop :: "query_env \<Rightarrow> query_parser \<Rightarrow> pragma_state \<Rightarrow> pragma_state option" where
  "pragma_loop env qp st =
     (case p_query st of
        [] \<Rightarrow> None
      | c # cs \<Rightarrow>
          if c = CHR ''D'' then
            (case parse_pragma_d cs (p_length st - 1) of
               None \<Rightarrow> None
             | Some None \<Rightarrow> Some st
             | Some (Some (opr, used)) \<Rightarrow>
                 pragma_loop env qp (pragma_advance (used + 1) (st\<lparr>p_operator := opr\<rparr>)))
          else if c = CHR ''W'' then
            (case parse_pragma_w env (qp\<lparr>match_columns := p_columns st\<rparr>) cs (p_length st - 1) of
               None \<Rightarrow> None
             | Some (ok, used, columns) \<Rightarrow>
                 if ok then pragma_loop env qp (pragma_advance (used + 1)
                   (st\<lparr>p_columns := columns, p_weight_specified := True\<rparr>))
                 else Some (st\<lparr>p_columns := columns\<rparr>))
          else Some st)"
  by pat_completeness auto
termination
  by (relation "measure (\<lambda>(_, _, st). length (p_query st))") (auto simp: pragma_advance_def)

declare pragma_loop.simps [simp del]

record pragma_result =
  raw_query :: string
  raw_query_length :: size_t
  default_operator :: grn_operator
  expression_flags :: "expr_flag list"
  result_columns :: "match_instr list option"

fun skip_spaces :: "string \<Rightarrow> size_t \<Rightarrow> (string \<times> size_t) option" where
  "skip_spaces q len =
     (if len = 0 then Some (q, len)
      else case q of [] \<Rightarrow> None | c # cs \<Rightarrow> if c = CHR '' '' then skip_spaces cs (len - 1) else Some (q, len))"

declare skip_spaces.simps [simp del]

definition finish_pragma :: "pragma_state \<Rightarrow> expr_flag list \<Rightarrow> pragma_result option" where
  "finish_pragma st flags =
     (case skip_spaces (p_query st) (p_length st) of
        None \<Rightarrow> None
      | Some (q, len) \<Rightarrow>
          (let plus = (len \<noteq> 0 \<and> q \<noteq> [] \<and> hd q = CHR ''+'') in
           if len \<noteq> 0 \<and> q = [] then None
           else Some \<lparr>raw_query = (if plus then tl q else q), raw_query_length = (if plus then len - 1 else len),
             default_operator = p_operator st, expression_flags = flags,
             result_columns = (if \<not> p_weight_specified st
                then map_option (\<lambda>is. is @ [PushColumn]) (p_columns st) else p_columns st)\<rparr>))"

definition parse_pragma ::
    "query_env \<Rightarrow> 64 word \<Rightarrow> query_parser \<Rightarrow> string \<Rightarrow> size_t \<Rightarrow> pragma_result option" where
  "parse_pragma env syntax_flags qp query len =
     (if 4 \<le> len \<and> length query < 4 then None
      else if 4 \<le> len \<and> take 4 query = ''*SS '' then
        Some \<lparr>raw_query = drop 4 query, raw_query_length = len - 4, default_operator = GRN_OP_OR,
          expression_flags = [GRN_EXPR_SYNTAX_SCRIPT], result_columns = match_columns qp\<rparr>
      else
        (let flags = default_expression_flags syntax_flags;
             st = \<lparr>p_query = query, p_length = len, p_operator = GRN_OP_OR, p_columns = match_columns qp,
               p_parsed = False, p_weight_specified = False\<rparr>
         in if 2 \<le> len \<and> query = [] then None
            else if 2 \<le> len \<and> hd query = CHR ''*'' then
              (case pragma_loop env qp (st\<lparr>p_query := tl query, p_length := len - 1\<rparr>) of
                 None \<Rightarrow> None
               | Some st' \<Rightarrow>
                   finish_pragma (if p_parsed st' then st' else st'\<lparr>p_query := query, p_length := len\<rparr>) flags)
            else finish_pragma st flags))"

text \<open>
  \<^verbatim>\<open>parse\<close>: Groonga's \<^verbatim>\<open>grn_expr_parse\<close> is a parameter that gets the query after the pragmas, whether
  the match columns or the default column is searched, the operator and the flags; its return code is
  true for success. The result is the return code, whether an error was raised and whether it was
  logged.
\<close>

datatype action_on_error =
    ACTION_ON_ERROR_ERROR | ACTION_ON_ERROR_ERROR_AND_LOG | ACTION_ON_ERROR_IGNORE | ACTION_ON_ERROR_IGNORE_AND_LOG

definition query_parse ::
    "query_env \<Rightarrow> 64 word \<Rightarrow> action_on_error
     \<Rightarrow> (string \<Rightarrow> match_instr list option \<Rightarrow> grn_operator \<Rightarrow> expr_flag list \<Rightarrow> bool)
     \<Rightarrow> query_parser \<Rightarrow> string \<Rightarrow> size_t \<Rightarrow> (bool \<times> bool \<times> bool) option" where
  "query_parse env syntax_flags action grn_expr_parse qp query len =
     (case parse_pragma env syntax_flags qp query len of
        None \<Rightarrow> None
      | Some r \<Rightarrow>
          (let rc = grn_expr_parse (take (unat (raw_query_length r)) (raw_query r)) (result_columns r)
                 (default_operator r) (expression_flags r)
           in Some (if rc then (rc, False, False)
              else (rc, action \<in> set [ACTION_ON_ERROR_ERROR, ACTION_ON_ERROR_ERROR_AND_LOG],
                    action \<in> set [ACTION_ON_ERROR_ERROR_AND_LOG, ACTION_ON_ERROR_IGNORE_AND_LOG]))))"

section \<open>What the match columns mean\<close>

text \<open>The stack machine: the matches of an expression are the sections of the index it searches with
  their weights.\<close>

datatype match_value = MColumn | MSection uint | MInt int | MMatch "(uint \<times> int) list"

fun match_step :: "match_instr \<Rightarrow> match_value list \<Rightarrow> match_value list option" where
  "match_step PushColumn st = Some (MColumn # st)"
| "match_step (PushSection sec) st = Some (MSection sec # st)"
| "match_step (PushInt i) st = Some (MInt i # st)"
| "match_step OpGetMember (MSection sec # MColumn # st) = Some (MMatch [(sec, 1)] # st)"
| "match_step OpStar (MInt i # MMatch l # st) = Some (MMatch (map (\<lambda>(sec, w). (sec, w * i)) l) # st)"
| "match_step OpOr (MMatch l2 # MMatch l1 # st) = Some (MMatch (l1 @ l2) # st)"
| "match_step _ _ = None"

primrec match_run :: "match_instr list \<Rightarrow> match_value list \<Rightarrow> match_value list option" where
  "match_run [] st = Some st"
| "match_run (i # is) st = (case match_step i st of None \<Rightarrow> None | Some st' \<Rightarrow> match_run is st')"

lemma match_run_append:
  "match_run (xs @ ys) st = (case match_run xs st of None \<Rightarrow> None | Some st' \<Rightarrow> match_run ys st')"
  by (induction xs arbitrary: st) (auto split: option.split)

definition matches :: "match_instr list option \<Rightarrow> (uint \<times> int) list \<Rightarrow> bool" where
  "matches columns l \<longleftrightarrow> (\<forall>is. columns = Some is \<longrightarrow> match_run is [] = Some (if l = [] then [] else [MMatch l]))"

lemma matches_append_section:
  assumes "matches columns l" and "n = length l + 1"
  shows "matches (append_section sec weight n columns) (l @ [(sec, weight)])"
  using assms by (cases columns) (auto simp: matches_def append_section_def match_run_append Suc_le_eq)

definition sections_of :: "(uint \<times> int) list \<Rightarrow> nat set" where
  "sections_of l = unat ` fst ` set l"

lemma sections_of_append [simp]:
  "sections_of (l @ m) = sections_of l \<union> sections_of m" "sections_of [] = {}"
  "sections_of [(sec, w)] = {unat sec}"
  by (auto simp: sections_of_def)

text \<open>The state of the loop: the sections with a match are the ones marked, but the section \<open>j\<close>
  may be marked without a match once the loop has been left.\<close>

definition w_inv :: "query_parser \<Rightarrow> nat set \<Rightarrow> w_state \<Rightarrow> (uint \<times> int) list \<Rightarrow> bool" where
  "w_inv qp extra st l \<longleftrightarrow> matches (w_columns st) l \<and> length l = w_n_weights st \<and>
     (target_is_vector qp \<or> length (w_specified st) = n_sections qp
       \<and> {k. k < n_sections qp \<and> w_specified st ! k} = sections_of l \<union> extra)"

lemma unat_minus_one_uint: "0 < (sec :: uint) \<Longrightarrow> unat (sec - 1) = unat sec - 1"
  by (subst unat_sub) (auto simp: word_le_nat_alt word_less_nat_alt)

lemma marked_sections:
  assumes "length bs = n" and "0 < (sec :: uint)" and "unat sec \<le> n"
  shows "{k. k < n \<and> bs[unat sec - 1 := True] ! k} = insert (unat (sec - 1)) {k. k < n \<and> bs ! k}"
proof -
  have "unat sec - 1 < n" "0 < unat sec" using assms by (auto simp: word_less_nat_alt)
  then show ?thesis using assms by (auto simp: unat_minus_one_uint nth_list_update)
qed

lemma w_inv_advance [simp]: "w_inv qp e (w_advance n st) l \<longleftrightarrow> w_inv qp e st l"
  by (simp add: w_inv_def w_advance_def)

lemma w_section_next_inv:
  assumes "w_inv qp {} st l" and "w_section env qp st = WNext st'"
  shows "\<exists>sec w. w_inv qp {} st' (l @ [(sec, w)])"
  using assms(2)
proof (rule w_section_next)
  fix sec weight used n
  assume v: "target_is_vector qp \<or> 0 < sec \<and> unat sec \<le> n_sections qp"
    and st': "st' = (w_advance n (w_advance used (w_mark qp sec st)))\<lparr>w_n_weights := w_n_weights st + 1,
        w_columns := append_section (sec - 1) weight (w_n_weights st + 1) (w_columns st)\<rparr>"
  have "matches (append_section (sec - 1) weight (w_n_weights st + 1) (w_columns st)) (l @ [(sec - 1, weight)])"
    using assms(1) by (intro matches_append_section) (simp_all add: w_inv_def)
  then have "w_inv qp {} st' (l @ [(sec - 1, weight)])"
    using assms(1) v st' marked_sections [of "w_specified st" "n_sections qp" sec]
    by (auto simp: w_inv_def w_advance_def w_mark_def)
  then show ?thesis by blast
qed

lemma w_section_break_inv:
  assumes "w_inv qp {} st l" and "w_section env qp st = WBreak st'"
  shows "\<exists>extra. card extra \<le> 1 \<and> w_inv qp extra st' l"
proof (cases rule: w_section_cases [of env qp st])
  case break
  with assms show ?thesis by (intro exI [of _ "{}"]) simp
next
  case (weight sec used)
  with assms(2) have st': "st' = w_advance used (w_mark qp sec st)" by (metis w_weight_break)
  have "w_inv qp {unat (sec - 1)} st' l"
    using assms(1) weight st' marked_sections [of "w_specified st" "n_sections qp" sec]
    by (auto simp: w_inv_def w_advance_def w_mark_def)
  then show ?thesis by (intro exI [of _ "{unat (sec - 1)}"]) simp
qed (use assms in simp)

lemma w_loop_inv:
  assumes "w_inv qp {} st l" and "w_loop env qp st = Some st'"
  shows "\<exists>extra l'. card extra \<le> 1 \<and> w_inv qp extra st' l'"
  using assms
proof (induction env qp st arbitrary: l rule: w_loop.induct [case_names step])
  case (step env qp st)
  let ?st1 = "if 1 \<le> w_n_weights st then w_advance 1 st else st"
  have inv1: "w_inv qp {} ?st1 l" using step.prems(1) by simp
  have stop: "\<exists>extra l'. card extra \<le> 1 \<and> w_inv qp extra st' l'" if "st' = st \<or> st' = ?st1"
    using that step.prems(1) inv1 by (intro exI [of _ "{}"] exI [of _ l]) (auto split: if_splits)
  show ?case
  proof (cases "w_length st = 0 \<or> 1 \<le> w_n_weights st \<and> hd (w_query st) \<noteq> CHR '','' \<or> w_length ?st1 = 0")
    case True
    with step.prems(2) stop show ?thesis
      by (subst (asm) w_loop.simps) (auto simp: Let_def split: if_split_asm)
  next
    case False
    with step.prems(2) have q: "w_query st \<noteq> []" by (subst (asm) w_loop.simps) (auto split: if_split_asm)
    have run: "w_loop env qp st = (case w_section env qp ?st1 of
        WFault \<Rightarrow> None | WBreak st2 \<Rightarrow> Some st2 | WNext st2 \<Rightarrow> w_loop env qp st2)"
      using False q by (cases "1 \<le> w_n_weights st"; subst w_loop.simps) simp_all
    show ?thesis
    proof (cases "w_section env qp ?st1")
      case WFault
      with run step.prems(2) show ?thesis by simp
    next
      case (WBreak st2)
      with run step.prems(2) w_section_break_inv [OF inv1 WBreak] show ?thesis by auto
    next
      case (WNext st2)
      obtain sec w where "w_inv qp {} st2 (l @ [(sec, w)])"
        using w_section_next_inv [OF inv1 WNext] by blast
      moreover have "w_loop env qp st2 = Some st'" using run WNext step.prems(2) by simp
      ultimately show ?thesis
        using step.IH [OF _ q _ refl _ WNext] False by auto
    qed
  qed
qed

lemma append_section_None [simp]: "append_section sec w n columns = None \<longleftrightarrow> columns = None"
  by (simp add: append_section_def)

lemma w_columns_simps [simp]: "w_columns (w_advance n st) = w_columns st" "w_columns (w_mark qp sec st) = w_columns st"
  by (simp_all add: w_advance_def w_mark_def)

lemma w_section_columns:
  assumes "w_section env qp st = WNext st' \<or> w_section env qp st = WBreak st'"
  shows "w_columns st' = None \<longleftrightarrow> w_columns st = None"
proof (cases rule: w_section_cases [of env qp st])
  case (weight sec used)
  with assms show ?thesis
    by (auto dest!: w_weight_break elim!: w_weight_next)
qed (use assms in simp_all)

lemma w_loop_columns: "w_loop env qp st = Some st' \<Longrightarrow> w_columns st' = None \<longleftrightarrow> w_columns st = None"
proof (induction env qp st rule: w_loop.induct [case_names step])
  case (step env qp st)
  let ?st1 = "if 1 \<le> w_n_weights st then w_advance 1 st else st"
  have c: "w_columns ?st1 = w_columns st" by (simp add: w_advance_def)
  show ?case
  proof (cases "w_length st = 0 \<or> w_query st = [] \<or> 1 \<le> w_n_weights st \<and> hd (w_query st) \<noteq> CHR '','' \<or> w_length ?st1 = 0")
    case True
    with step.prems c show ?thesis
      by (subst (asm) w_loop.simps) (auto simp: Let_def split: if_split_asm)
  next
    case False
    then have run: "w_loop env qp st = (case w_section env qp ?st1 of
        WFault \<Rightarrow> None | WBreak st2 \<Rightarrow> Some st2 | WNext st2 \<Rightarrow> w_loop env qp st2)"
      by (cases "1 \<le> w_n_weights st"; subst w_loop.simps) simp_all
    show ?thesis
    proof (cases "w_section env qp ?st1")
      case (WBreak st2)
      with run step.prems w_section_columns [of env qp ?st1 st2] c show ?thesis by auto
    next
      case (WNext st2)
      with run step.prems w_section_columns [of env qp ?st1 st2] c show ?thesis
        using step.IH [OF _ _ _ refl _ WNext] False by auto
    qed (use run step.prems in simp)
  qed
qed

lemma w_defaults_columns: "snd (w_defaults bs sec acc) = None \<longleftrightarrow> snd acc = None"
  by (induction bs arbitrary: sec acc) (auto split: prod.split)

lemma w_defaults_matches:
  assumes "matches columns l" and "length l = n" and "sec + length bs < 2 ^ 32"
  shows "\<exists>l'. matches (snd (w_defaults bs sec (n, columns))) (l @ l')
    \<and> fst (w_defaults bs sec (n, columns)) = n + length l'
    \<and> sections_of l' = {sec + k | k. k < length bs \<and> \<not> bs ! k} \<and> (\<forall>(_, w) \<in> set l'. w = 1)"
  using assms
proof (induction bs arbitrary: sec n columns l)
  case Nil
  then show ?case by (intro exI [of _ "[]"]) simp
next
  case (Cons b bs)
  have sec: "unat (of_nat sec :: uint) = sec" using Cons.prems(3) by (simp add: unat_of_nat)
  have shift: "{sec + k | k. k < length (b # bs) \<and> \<not> (b # bs) ! k} =
      (if b then {} else {sec}) \<union> {Suc sec + k | k. k < length bs \<and> \<not> bs ! k}"
    by (auto simp: nth_Cons split: nat.splits) (metis Suc_pred add_Suc_shift not_gr0)+
  show ?case
  proof (cases b)
    case True
    then show ?thesis using Cons.IH [of columns l n "Suc sec"] Cons.prems shift by simp
  next
    case False
    let ?c = "append_section (of_nat sec) 1 (n + 1) columns"
    have "matches ?c (l @ [(of_nat sec, 1)])" using Cons.prems by (intro matches_append_section) simp_all
    then obtain l' where l': "matches (snd (w_defaults bs (Suc sec) (n + 1, ?c))) ((l @ [(of_nat sec, 1)]) @ l')"
      "fst (w_defaults bs (Suc sec) (n + 1, ?c)) = n + 1 + length l'"
      "sections_of l' = {Suc sec + k | k. k < length bs \<and> \<not> bs ! k}" "\<forall>(_, w) \<in> set l'. w = 1"
      using Cons.IH [of ?c "l @ [(of_nat sec, 1)]" "n + 1" "Suc sec"] Cons.prems by auto
    have "sections_of ((of_nat sec, 1) # l') = {sec + k | k. k < length (b # bs) \<and> \<not> (b # bs) ! k}"
      using l'(3) False sec shift sections_of_append(1) [of "[(of_nat sec, 1)]" l'] by simp
    with l' False show ?thesis by (intro exI [of _ "(of_nat sec, 1) # l'"]) simp
  qed
qed

text \<open>
  C29: whatever a weight pragma looks like, its match columns are a well-formed expression: evaluated,
  they are one alternative of index sections with weights, or nothing when the pragma is rejected.
  Every section number is below the number of sections, and every section of the index is searched,
  with the exception of at most one.
\<close>
theorem weight_pragma_sections:
  assumes "match_columns qp = Some []" and "\<not> target_is_vector qp" and "n_sections qp < 2 ^ 32"
    and "parse_pragma_w env qp query len = Some (ok, used, columns)"
  shows "\<exists>is l. columns = Some is \<and> match_run is [] = Some (if ok then [MMatch l] else [])
    \<and> (\<not> ok \<longrightarrow> l = []) \<and> sections_of l \<subseteq> {..< n_sections qp}
    \<and> card ({..< n_sections qp} - sections_of l) \<le> 1"
proof -
  let ?st0 = "\<lparr>w_query = query, w_length = len, w_consumed = 0, w_n_weights = 0,
     w_specified = replicate (n_sections qp) False, w_columns = Some []\<rparr>"
  have "w_inv qp {} ?st0 []" using assms(2) by (auto simp: w_inv_def matches_def)
  moreover obtain st where st: "w_loop env qp ?st0 = Some st"
    using assms(1,2,4) by (auto simp: parse_pragma_w_def Let_def split: option.splits)
  ultimately obtain extra l where e: "card extra \<le> 1" and inv: "w_inv qp extra st l"
    using w_loop_inv by blast
  have spec: "length (w_specified st) = n_sections qp"
    "{k. k < n_sections qp \<and> w_specified st ! k} = sections_of l \<union> extra"
    using inv assms(2) by (simp_all add: w_inv_def)
  obtain l' where l': "matches (snd (w_defaults (w_specified st) 0 (w_n_weights st, w_columns st))) (l @ l')"
    "fst (w_defaults (w_specified st) 0 (w_n_weights st, w_columns st)) = w_n_weights st + length l'"
    "sections_of l' = {k. k < n_sections qp \<and> \<not> w_specified st ! k}"
    using w_defaults_matches [of "w_columns st" l "w_n_weights st" 0 "w_specified st"] inv spec(1) assms(3)
    by (auto simp: w_inv_def)
  let ?W = "w_defaults (w_specified st) 0 (w_n_weights st, w_columns st)"
  have r: "columns = snd ?W" "ok \<longleftrightarrow> 0 < fst ?W"
    using assms(1,2,4) st by (simp_all add: parse_pragma_w_def Let_def case_prod_beta)
  have "length l = w_n_weights st" using inv by (simp add: w_inv_def)
  with r l'(2) have c: "columns = snd ?W" "ok \<longleftrightarrow> l @ l' \<noteq> []" by auto
  have "columns \<noteq> None"
    using w_loop_columns [OF st] by (simp add: c(1) w_defaults_columns)
  then obtain "is" where "columns = Some is" by blast
  moreover have "match_run is [] = Some (if ok then [MMatch (l @ l')] else [])"
    using l'(1) c calculation by (auto simp: matches_def)
  moreover have "sections_of (l @ l') \<subseteq> {..< n_sections qp}"
    "{..< n_sections qp} - sections_of (l @ l') \<subseteq> extra"
    using spec(2) l'(3) by auto
  moreover have "finite extra" using spec(2) by (metis (no_types, lifting) finite_Un finite_nat_set_iff_bounded mem_Collect_eq)
  ultimately show ?thesis
    using e c(2) card_mono [of extra "{..< n_sections qp} - sections_of (l @ l')"]
    by (intro exI [of _ "is"] exI [of _ "l @ l'"]) auto
qed

lemma unat_size: "n < 2 ^ 64 \<Longrightarrow> unat (of_nat n :: size_t) = n"
  by (simp add: unat_of_nat)

text \<open>Decimal numbers, as Groonga reads them.\<close>

definition digit_value :: "char \<Rightarrow> nat" where
  "digit_value c = (of_char c :: nat) - 48"

definition is_digit :: "char \<Rightarrow> bool" where
  "is_digit c \<longleftrightarrow> c \<in> set ''0123456789''"

definition decimal_env :: query_env where
  "decimal_env =
     (let digits = takeWhile is_digit;
          number = (\<lambda>s. foldl (\<lambda>n c. 10 * n + digit_value c) 0 (digits s))
      in \<lparr>grn_atoui = (\<lambda>s. (of_nat (number s), length (digits s))),
          grn_atoi = (\<lambda>s. (int (number s), length (digits s)))\<rparr>)"

definition example_parser :: query_parser where
  "example_parser = \<lparr>n_sections = 3, target_is_vector = False, match_columns = Some []\<rparr>"

lemma weight_pragma_example:
  "parse_pragma_w decimal_env example_parser ''1:10,3 Groonga'' 14
     = Some (True, 6, Some [PushColumn, PushSection 0, OpGetMember, PushInt 10, OpStar, PushColumn, PushSection 2,
         OpGetMember, OpOr, PushColumn, PushSection 1, OpGetMember, OpOr])"
  by code_simp

theorem weight_pragma_sections_witness:
  "\<exists>is l. parse_pragma_w decimal_env example_parser ''1:10,3 Groonga'' 14 = Some (True, 6, Some is)
    \<and> match_run is [] = Some [MMatch l] \<and> card ({..< 3} - sections_of l) \<le> 1"
  using weight_pragma_sections [OF _ _ _ weight_pragma_example] weight_pragma_example
  by (auto simp: example_parser_def)

text \<open>
  A section whose weight cannot be read is not searched at all: with \<^verbatim>\<open>1:\<close> and no number behind
  it, the first section is marked as specified, but neither its own match nor the default one is
  added, and the other sections are searched without it.
\<close>
theorem unreadable_weight_drops_section:
  assumes "match_columns qp = Some []" and "\<not> target_is_vector qp" and "2 \<le> n_sections qp" "n_sections qp < 2 ^ 32"
    and "rest \<noteq> []" and "length rest < 2 ^ 32"
    and "grn_atoui env (''1:'' @ rest) = (1, 1)" and "snd (grn_atoi env rest) = 0"
  shows "\<exists>is l. parse_pragma_w env qp (''1:'' @ rest) (of_nat (length (''1:'' @ rest))) = Some (True, 1, Some is)
    \<and> match_run is [] = Some [MMatch l] \<and> sections_of l = {1 ..< n_sections qp}"
proof -
  define len :: size_t where "len = of_nat (length (''1:'' @ rest))"
  let ?st0 = "\<lparr>w_query = ''1:'' @ rest, w_length = len, w_consumed = 0, w_n_weights = 0,
     w_specified = replicate (n_sections qp) False, w_columns = Some []\<rparr>"
  let ?st1 = "w_advance 1 (w_mark qp 1 ?st0)"
  have len: "unat len = length rest + 2"
    unfolding len_def by (subst unat_size) (use assms(6) in simp_all)
  have len1: "unat (len - 1) = length rest + 1"
    using len by (subst unat_sub) (simp_all add: word_le_nat_alt)
  then have two: "2 \<le> len - 1" using assms(5) by (cases rest) (simp_all add: word_le_nat_alt)
  have st1: "w_length ?st1 = len - 1" "w_query ?st1 = CHR '':'' # rest"
    by (simp_all add: w_advance_def w_mark_def)
  have "w_weight env 0 ?st1 = WBreak ?st1"
    using two st1 assms(8) len1 by (cases "grn_atoi env rest") (simp add: w_weight_def)
  then have "w_section env qp ?st0 = WBreak ?st1"
    using assms(2,3,7) len by (simp add: w_section_def is_section_digit_def)
  moreover have "len \<noteq> 0" using len by (metis add_is_0 unsigned_0 zero_neq_numeral)
  ultimately have loop: "w_loop env qp ?st0 = Some ?st1" by (subst w_loop.simps) simp
  have spec: "w_specified ?st1 = (replicate (n_sections qp) False)[0 := True]"
    using assms(2) by (simp add: w_advance_def w_mark_def)
  let ?W = "w_defaults (w_specified ?st1) 0 (0, Some [])"
  obtain l where l: "matches (snd ?W) l" "fst ?W = length l"
    "sections_of l = {k. k < n_sections qp \<and> \<not> (replicate (n_sections qp) False)[0 := True] ! k}"
    using w_defaults_matches [of "Some []" "[]" 0 0 "w_specified ?st1"] assms(4) unfolding spec by (auto simp: matches_def)
  have secs: "sections_of l = {1 ..< n_sections qp}"
    unfolding l(3) by (auto simp: nth_list_update Suc_le_eq split: if_splits)
  then have "l \<noteq> []" using assms(3) by auto
  moreover obtain "is" where "snd ?W = Some is"
    using w_defaults_columns [of "w_specified ?st1" 0 "(0, Some [])"] by auto
  moreover have "parse_pragma_w env qp (''1:'' @ rest) len = Some (0 < fst ?W, 1, snd ?W)"
    using loop assms(1,2) spec by (simp add: parse_pragma_w_def case_prod_beta w_advance_def w_mark_def)
  ultimately show ?thesis using l(1,2) secs unfolding len_def [symmetric] by (auto simp: matches_def)
qed

theorem unreadable_weight_drops_section_witness:
  "\<exists>is l. parse_pragma_w decimal_env example_parser (''1:'' @ ''x'') (of_nat (length (''1:'' @ ''x'')))
      = Some (True, 1, Some is) \<and> match_run is [] = Some [MMatch l] \<and> sections_of l = {1 ..< n_sections example_parser}"
proof (rule unreadable_weight_drops_section)
  show "grn_atoui decimal_env (''1:'' @ ''x'') = (1, 1)" by code_simp
  show "snd (grn_atoi decimal_env ''x'') = 0" by code_simp
qed (simp_all add: example_parser_def)

section \<open>The operator pragma\<close>

definition operator_text :: "grn_operator \<Rightarrow> string" where
  "operator_text opr = (case opr of GRN_OP_AND \<Rightarrow> ''+'' | GRN_OP_AND_NOT \<Rightarrow> ''-'' | GRN_OP_OR \<Rightarrow> ''OR'')"

lemma parse_pragma_d_operator:
  assumes "of_nat (length (operator_text opr)) \<le> len"
  shows "parse_pragma_d (operator_text opr @ rest) len = Some (Some (opr, length (operator_text opr)))"
proof -
  have "len \<noteq> 0" using assms by (cases opr) (auto simp: operator_text_def)
  with assms show ?thesis by (cases opr) (simp_all add: operator_text_def parse_pragma_d_def)
qed

text \<open>A query that starts with an operator pragma and a space is handed to Groonga without the pragma
  and the space, with its exact length, the operator that the pragma names and the flags of the
  session; the match columns, when there are any, are the whole default column. What lies in memory
  behind the query does not matter.
\<close>
lemma operator_pragma:
  assumes "query = ''*D'' @ operator_text opr @ '' '' @ q" and "length query < 2 ^ 64"
    and "q = [] \<or> hd q \<noteq> CHR '' '' \<and> hd q \<noteq> CHR ''+''"
  shows "parse_pragma env syntax_flags qp (query @ behind) (of_nat (length query)) =
    Some \<lparr>raw_query = q @ behind, raw_query_length = of_nat (length q), default_operator = opr,
      expression_flags = default_expression_flags syntax_flags,
      result_columns = map_option (\<lambda>is. is @ [PushColumn]) (match_columns qp)\<rparr>"
proof -
  let ?o = "operator_text opr"
  define len :: size_t where "len = of_nat (length query)"
  have len: "unat len = length query" unfolding len_def by (rule unat_size [OF assms(2)])
  have o1: "1 \<le> length ?o" by (cases opr) (simp_all add: operator_text_def)
  have lq: "length query = 3 + length ?o + length q" using assms(1) by simp
  have diff: "len - of_nat n = of_nat (length query - n)" if "n \<le> length query" for n
    unfolding len_def using that by (simp add: of_nat_diff)
  have ge: "of_nat n \<le> len" if "n \<le> length query" for n
    using that assms(2) len by (simp add: word_le_nat_alt unat_of_nat)
  have ss: "take 4 (query @ behind) \<noteq> ''*SS ''" using assms(1) by simp
  let ?st = "\<lparr>p_query = query @ behind, p_length = len, p_operator = GRN_OP_OR, p_columns = match_columns qp,
    p_parsed = False, p_weight_specified = False\<rparr>"
  let ?st1 = "?st\<lparr>p_query := tl (query @ behind), p_length := len - 1\<rparr>"
  have d: "parse_pragma_d (?o @ '' '' @ q @ behind) (len - 1 - 1) = Some (Some (opr, length ?o))"
  proof (rule parse_pragma_d_operator)
    have "len - 1 - 1 = len - of_nat 2" by simp
    also have "\<dots> = of_nat (length query - 2)" using lq by (intro diff) simp
    finally have "unat (len - 1 - 1) = length query - 2" using assms(2) by (simp add: unat_size)
    then show "of_nat (length ?o) \<le> len - 1 - 1"
      using lq assms(2) by (simp add: word_le_nat_alt unat_of_nat)
  qed
  have adv: "len - 1 - of_nat (length ?o + 1) = of_nat (1 + length q)"
    using diff [of "2 + length ?o"] lq by simp
  let ?st2 = "?st\<lparr>p_query := '' '' @ q @ behind, p_length := of_nat (1 + length q), p_operator := opr, p_parsed := True\<rparr>"
  have "pragma_loop env qp ?st1 = pragma_loop env qp (pragma_advance (length ?o + 1) (?st1\<lparr>p_operator := opr\<rparr>))"
    using d assms(1) by (subst pragma_loop.simps) simp
  also have "pragma_advance (length ?o + 1) (?st1\<lparr>p_operator := opr\<rparr>) = ?st2"
    using assms(1) adv by (simp add: pragma_advance_def)
  also have "pragma_loop env qp ?st2 = Some ?st2" by (subst pragma_loop.simps) simp
  finally have loop: "pragma_loop env qp ?st1 = Some ?st2" .
  have skip: "skip_spaces ('' '' @ q @ behind) (of_nat (1 + length q)) = Some (q @ behind, of_nat (length q))"
  proof -
    have "(of_nat (1 + length q) :: size_t) \<noteq> 0" "q \<noteq> [] \<Longrightarrow> (of_nat (length q) :: size_t) \<noteq> 0"
      using lq assms(2) unat_size [of "1 + length q"] unat_size [of "length q"] by (auto simp: word_unat_eq_iff)
    then show ?thesis using assms(3) by (subst skip_spaces.simps, subst skip_spaces.simps) (cases q; simp)
  qed
  have fin: "finish_pragma ?st2 (default_expression_flags syntax_flags) = Some \<lparr>raw_query = q @ behind,
      raw_query_length = of_nat (length q), default_operator = opr,
      expression_flags = default_expression_flags syntax_flags,
      result_columns = map_option (\<lambda>is. is @ [PushColumn]) (match_columns qp)\<rparr>"
    using skip assms(3) by (cases q) (simp_all add: finish_pragma_def)
  have "4 \<le> len" "2 \<le> len" using ge [of 4] ge [of 2] lq o1 by simp_all
  moreover have "\<not> length (query @ behind) < 4" using lq o1 unfolding length_append by linarith
  ultimately show ?thesis
    unfolding len_def [symmetric] using loop fin ss assms(1) by (simp add: parse_pragma_def)
qed

lemma operator_pragma_witness:
  "parse_pragma decimal_env 1 example_parser (''*D+ Groonga'' @ ''garbage'') (of_nat (length ''*D+ Groonga'')) =
    Some \<lparr>raw_query = ''Groonga'' @ ''garbage'', raw_query_length = of_nat (length ''Groonga''), default_operator = GRN_OP_AND,
      expression_flags = default_expression_flags 1, result_columns = map_option (\<lambda>is. is @ [PushColumn]) (match_columns example_parser)\<rparr>"
  by (rule operator_pragma) (simp_all add: operator_text_def)

text \<open>
  A query that ends with a pragma is read behind its end. For the query \<^verbatim>\<open>*D+\<close> of three
  characters, the loop reads the character behind the query; when the memory goes on with \<^verbatim>\<open>D-\<close>, the
  operator is taken from there and the length of the rest wraps around.
\<close>
theorem pragma_reads_behind_query:
  assumes "c \<notin> set ''DW +''"
  shows "\<exists>r. parse_pragma env syntax_flags qp (''*D+'' @ ''D-'' @ c # rest) 3 = Some r
    \<and> default_operator r = GRN_OP_AND_NOT \<and> unat (raw_query_length r) = 2 ^ 64 - 2"
proof -
  have p1: "parse_pragma_d (''+'' @ xs) 1 = Some (Some (GRN_OP_AND, 1))" for xs by (simp add: parse_pragma_d_def)
  have p2: "parse_pragma_d (''-'' @ xs) (- 1) = Some (Some (GRN_OP_AND_NOT, 1))" for xs by (simp add: parse_pragma_d_def)
  let ?st = "\<lparr>p_query = ''D+'' @ ''D-'' @ c # rest, p_length = 2, p_operator = GRN_OP_OR, p_columns = match_columns qp,
    p_parsed = False, p_weight_specified = False\<rparr>"
  let ?st1 = "?st\<lparr>p_query := ''D-'' @ c # rest, p_length := 0, p_operator := GRN_OP_AND, p_parsed := True\<rparr>"
  let ?st2 = "?st\<lparr>p_query := c # rest, p_length := - 2, p_operator := GRN_OP_AND_NOT, p_parsed := True\<rparr>"
  have "pragma_loop env qp ?st = pragma_loop env qp ?st1"
    using p1 by (subst pragma_loop.simps) (simp add: pragma_advance_def numeral_2_eq_2)
  also have "\<dots> = pragma_loop env qp ?st2"
    using p2 by (subst pragma_loop.simps) (simp add: pragma_advance_def numeral_2_eq_2)
  also have "\<dots> = Some ?st2" using assms by (subst pragma_loop.simps) simp
  finally have loop: "pragma_loop env qp ?st = Some ?st2" .
  have "skip_spaces (c # rest) (- 2) = Some (c # rest, - 2)" using assms by (subst skip_spaces.simps) simp
  then have "finish_pragma ?st2 flags = Some \<lparr>raw_query = c # rest, raw_query_length = - 2,
      default_operator = GRN_OP_AND_NOT, expression_flags = flags,
      result_columns = map_option (\<lambda>is. is @ [PushColumn]) (match_columns qp)\<rparr>" for flags
    using assms by (simp add: finish_pragma_def)
  moreover have "unat (- 2 :: size_t) = 2 ^ 64 - 2" by simp
  ultimately show ?thesis using loop by (simp add: parse_pragma_def)
qed

theorem pragma_reads_behind_query_witness:
  "\<exists>r. parse_pragma decimal_env 1 example_parser (''*D+'' @ ''D-'' @ ''x'') 3 = Some r
    \<and> default_operator r = GRN_OP_AND_NOT \<and> unat (raw_query_length r) = 2 ^ 64 - 2"
  by (rule pragma_reads_behind_query) simp

end
