(* ===== verification/Full_Text.thy ===== *)
theory Full_Text
  imports Fast_Order Query_Parser
begin

text \<open>
  Full text searches (\<^verbatim>\<open>mrn_generic_ft_*\<close>, \<^verbatim>\<open>mrn_storage_ft_*\<close>, \<^verbatim>\<open>generic_ft_init*\<close>, \<^verbatim>\<open>storage_ft_*\<close> of \<^verbatim>\<open>ha_mroonga.cpp\<close>). A search is
  made by \<^verbatim>\<open>ft_init_ext\<close>, run when its rows or a relevance are asked for the first time, read row by row, and closed. What the search
  finds is a parameter, and the number of Groonga objects that the search holds is counted. A read without a cursor is a fault.
\<close>

section \<open>Searches\<close>

datatype ft_score = Float_score "64 word" | Int32_score int

datatype ft_accessor = Id_accessor | Key_accessor

datatype ft_expression = Query_expression nat "(bool \<times> bool \<times> bool) option" | Similar_expression nat string

record ft_info =
  fi_open :: bool
  fi_no_such_key :: bool
  fi_boolean :: bool
  fi_sorted :: bool
  fi_query :: string
  fi_expression :: "ft_expression option"
  fi_match_columns :: bool
  fi_result :: "(nat \<times> ft_score) list option"
  fi_score_column :: bool
  fi_sorted_result :: "nat list option"
  fi_cursor :: "nat list option"
  fi_accessor :: "ft_accessor option"
  fi_live :: int

text \<open>The parameters: the parser of queries, \<^verbatim>\<open>grn_table_create\<close>, \<^verbatim>\<open>grn_table_select\<close> (\<^const>\<open>None\<close> is an error), \<^verbatim>\<open>grn_table_sort\<close>,
  \<^verbatim>\<open>grn_table_cursor_open\<close>, the record of the table behind an entry of the result, and conversions to \<^verbatim>\<open>float\<close>.\<close>

record ft_env =
  ft_parser :: query_env
  ft_syntax_flags :: "64 word"
  ft_action :: action_on_error
  ft_expr_parse :: "string \<Rightarrow> match_instr list option \<Rightarrow> grn_operator \<Rightarrow> expr_flag list \<Rightarrow> bool"
  ft_key_parts :: "nat \<Rightarrow> nat"
  ft_vector_index :: "nat \<Rightarrow> bool"
  ft_creates :: bool
  ft_select :: "ft_expression option \<Rightarrow> (nat \<times> ft_score) list option"
  ft_sort :: "nat list \<Rightarrow> int \<Rightarrow> sort_key list \<Rightarrow> nat list"
  ft_cursor_opens :: bool
  ft_table_no_key :: bool
  ft_record_behind :: "ft_accessor option \<Rightarrow> nat \<Rightarrow> nat"
  ft_float_of_double :: "64 word \<Rightarrow> 32 word"
  ft_float_of_int :: "int \<Rightarrow> 32 word"

definition mrn_get_score_value :: "ft_env \<Rightarrow> ft_score \<Rightarrow> 32 word" where
  "mrn_get_score_value env s = (case s of Float_score x \<Rightarrow> ft_float_of_double env x | Int32_score i \<Rightarrow> ft_float_of_int env i)"

text \<open>A new search. The two texts and the score buffer are held from the start on.\<close>

definition empty_info :: "bool \<Rightarrow> bool \<Rightarrow> string \<Rightarrow> ft_info" where
  "empty_info boolean fsorted query = \<lparr>fi_open = True, fi_no_such_key = False, fi_boolean = boolean, fi_sorted = fsorted, fi_query = query,
     fi_expression = None, fi_match_columns = False, fi_result = None, fi_score_column = False, fi_sorted_result = None, fi_cursor = None,
     fi_accessor = None, fi_live = 3\<rparr>"

definition generic_ft_init_ext_select :: "ft_env \<Rightarrow> bool \<Rightarrow> bool \<Rightarrow> nat \<Rightarrow> string \<Rightarrow> ft_info" where
  "generic_ft_init_ext_select env boolean fsorted key_nr query =
     (let info = empty_info boolean fsorted query in
      if query = [] then info
      else if boolean then
        info\<lparr>fi_expression := Some (Query_expression key_nr (query_parse (ft_parser env) (ft_syntax_flags env) (ft_action env) (ft_expr_parse env)
               \<lparr>n_sections = ft_key_parts env key_nr, target_is_vector = ft_vector_index env key_nr, match_columns = Some []\<rparr> query (of_nat (length query)))),
             fi_match_columns := True, fi_live := fi_live info + 2\<rparr>
      else info\<lparr>fi_expression := Some (Similar_expression key_nr query), fi_live := fi_live info + 1\<rparr>)"

definition no_such_key_info :: ft_info where
  "no_such_key_info = (empty_info False False [])\<lparr>fi_open := False, fi_no_such_key := True, fi_live := 0\<rparr>"

definition ft_init_ext :: "ft_env \<Rightarrow> bool \<Rightarrow> bool \<Rightarrow> nat option \<Rightarrow> string \<Rightarrow> ft_info" where
  "ft_init_ext env boolean fsorted key_nr query =
     (case key_nr of None \<Rightarrow> no_such_key_info | Some n \<Rightarrow> generic_ft_init_ext_select env boolean fsorted n query)"

text \<open>\<^verbatim>\<open>mrn_generic_ft_ensure_searched\<close>: a search that has a result is not run again.\<close>

definition score_order :: "sort_key list" where
  "score_order = [\<lparr>sk_column = Some MRN_COLUMN_NAME_SCORE, sk_asc = False\<rparr>]"

definition ensure_searched :: "ft_env \<Rightarrow> order_env \<Rightarrow> query_block \<Rightarrow> bool \<Rightarrow> ft_info \<Rightarrow> ft_info" where
  "ensure_searched env oenv qb need_fast_order_limit_check info =
     (if fi_result info \<noteq> None \<or> \<not> ft_creates env then info
      else (let info1 = info\<lparr>fi_result := Some [], fi_score_column := True, fi_live := fi_live info + 2\<rparr> in
        if fi_query info = [] then info1
        else (case ft_select env (fi_expression info) of
            None \<Rightarrow> info1
          | Some found \<Rightarrow>
              (let info2 = info1\<lparr>fi_result := Some found\<rparr>; ids = map fst found in
               if fi_sorted info then info2\<lparr>fi_sorted_result := Some (ft_sort env ids (-1) score_order), fi_live := fi_live info2 + 1\<rparr>
               else if need_fast_order_limit_check then
                 (case check_fast_order_limit oenv qb of
                    (True, ks, Some limit) \<Rightarrow>
                      info2\<lparr>fi_sorted_result := Some (ft_sort env ids (sort_limit limit) ks), fi_live := fi_live info2 + 1\<rparr>
                  | _ \<Rightarrow> info2)
               else info2))))"

text \<open>\<^verbatim>\<open>generic_ft_init\<close>. On MariaDB the check is made whenever the rows are read through the index.\<close>

definition need_fast_order_limit_check :: "bool \<Rightarrow> bool \<Rightarrow> bool \<Rightarrow> bool \<Rightarrow> bool" where
  "need_fast_order_limit_check mariadb wrapper inited_index pushed = (if mariadb \<and> (wrapper \<or> inited_index) then True else \<not> pushed)"

datatype ft_status = Ft_ok | Ft_error_on_read | Ft_end_of_file

definition generic_ft_init :: "ft_env \<Rightarrow> order_env \<Rightarrow> query_block \<Rightarrow> bool \<Rightarrow> ft_info \<Rightarrow> ft_status \<times> ft_info" where
  "generic_ft_init env oenv qb need info0 =
     (let info = ensure_searched env oenv qb need info0;
          ids = (case fi_sorted_result info of Some ids \<Rightarrow> Some ids | None \<Rightarrow> map_option (map fst) (fi_result info)) in
      case (if ft_cursor_opens env then ids else None) of
        None \<Rightarrow> (Ft_error_on_read, info\<lparr>fi_cursor := None\<rparr>)
      | Some is \<Rightarrow> (Ft_ok, info\<lparr>fi_cursor := Some is,
          fi_accessor := Some (if fi_sorted_result info \<noteq> None \<and> ft_table_no_key env then Id_accessor else Key_accessor),
          fi_live := fi_live info + 2\<rparr>))"

text \<open>The row that the handler stands on: its number, 0 for none.\<close>

record ft_position =
  fp_record_id :: nat
  fp_count_skip :: bool

definition storage_ft_init ::
    "ft_env \<Rightarrow> order_env \<Rightarrow> query_block \<Rightarrow> bool \<Rightarrow> bool \<Rightarrow> ft_info \<Rightarrow> ft_position \<Rightarrow> ft_status \<times> ft_info \<times> ft_position" where
  "storage_ft_init env oenv qb need skips info h =
     (case generic_ft_init env oenv qb need info of (st, info') \<Rightarrow> (st, info', \<lparr>fp_record_id = 0, fp_count_skip = skips\<rparr>))"

definition storage_ft_read :: "ft_env \<Rightarrow> ft_info \<Rightarrow> ft_position \<Rightarrow> (ft_status \<times> ft_info \<times> ft_position) option" where
  "storage_ft_read env info h = (case fi_cursor info of
      None \<Rightarrow> None
    | Some [] \<Rightarrow> Some (Ft_end_of_file, info, h)
    | Some (i # is) \<Rightarrow>
        (let info' = info\<lparr>fi_cursor := Some is\<rparr> in
         if fp_count_skip h \<and> fp_record_id h \<noteq> 0 then Some (Ft_ok, info', h)
         else Some (Ft_ok, info', h\<lparr>fp_record_id := ft_record_behind env (fi_accessor info) i\<rparr>)))"

text \<open>The relevance of the row: \<^verbatim>\<open>mrn_storage_ft_get_relevance\<close> and \<^verbatim>\<open>mrn_storage_ft_find_relevance\<close>, which runs the search first.\<close>

definition get_relevance :: "ft_env \<Rightarrow> ft_info \<Rightarrow> ft_position \<Rightarrow> 32 word" where
  "get_relevance env info h =
     (if fp_record_id h = 0 then 0
      else (case Option.bind (fi_result info) (\<lambda>found. map_of found (fp_record_id h)) of
          None \<Rightarrow> 0 | Some s \<Rightarrow> mrn_get_score_value env s))"

definition find_relevance :: "ft_env \<Rightarrow> order_env \<Rightarrow> query_block \<Rightarrow> ft_info \<Rightarrow> ft_position \<Rightarrow> 32 word \<times> ft_info" where
  "find_relevance env oenv qb info h =
     (if fi_no_such_key info then (0, info)
      else (let info' = ensure_searched env oenv qb False info in (get_relevance env info' h, info')))"

definition ext_count_matches :: "ft_env \<Rightarrow> order_env \<Rightarrow> query_block \<Rightarrow> ft_info \<Rightarrow> nat \<times> ft_info" where
  "ext_count_matches env oenv qb info =
     (let info' = ensure_searched env oenv qb False info in (case fi_result info' of None \<Rightarrow> 0 | Some found \<Rightarrow> length found, info'))"

text \<open>\<^verbatim>\<open>mrn_generic_ft_clear\<close> closes what the fields of the search hold.\<close>

definition held :: "bool \<Rightarrow> int" where
  "held b = (if b then 1 else 0)"

definition slots_held :: "ft_info \<Rightarrow> int" where
  "slots_held info = held (fi_cursor info \<noteq> None) + held (fi_accessor info \<noteq> None) + held (fi_expression info \<noteq> None)
     + held (fi_match_columns info) + held (fi_score_column info) + held (fi_sorted_result info \<noteq> None) + held (fi_result info \<noteq> None)
     + (if fi_open info then 3 else 0)"

definition generic_ft_clear :: "ft_info \<Rightarrow> ft_info" where
  "generic_ft_clear info = (if \<not> fi_open info then info else info\<lparr>fi_open := False, fi_live := fi_live info - slots_held info\<rparr>)"

section \<open>The rows of a search\<close>

text \<open>What MySQL gets by reading some times: for every row its number and its relevance.\<close>

fun ft_reads :: "ft_env \<Rightarrow> nat \<Rightarrow> ft_info \<Rightarrow> ft_position \<Rightarrow> (ft_status \<times> (nat \<times> 32 word) option) list option" where
  "ft_reads env 0 info h = Some []"
| "ft_reads env (Suc n) info h = (case storage_ft_read env info h of
      None \<Rightarrow> None
    | Some (st, info', h') \<Rightarrow>
        map_option ((#) (st, if st = Ft_ok then Some (fp_record_id h', get_relevance env info' h') else None)) (ft_reads env n info' h'))"

definition rows_of :: "ft_env \<Rightarrow> (nat \<times> ft_score) list \<Rightarrow> nat list \<Rightarrow> (ft_status \<times> (nat \<times> 32 word) option) list" where
  "rows_of env found ids = map (\<lambda>i. (Ft_ok, Some (i, mrn_get_score_value env (the (map_of found i))))) ids"

text \<open>What is relied on: accessors give the record behind an entry, a result has every record once, and sorting without a limit gives all.\<close>

definition accessor_promise :: "ft_env \<Rightarrow> bool" where
  "accessor_promise env \<longleftrightarrow> (\<forall>a i. ft_record_behind env a i = i)"

definition result_ok :: "(nat \<times> ft_score) list \<Rightarrow> bool" where
  "result_ok found \<longleftrightarrow> distinct (map fst found) \<and> 0 \<notin> fst ` set found"

definition sort_all_promise :: "(string \<Rightarrow> nat \<Rightarrow> int) \<Rightarrow> (nat list \<Rightarrow> int \<Rightarrow> sort_key list \<Rightarrow> nat list) \<Rightarrow> bool" where
  "sort_all_promise rank grn_table_sort \<longleftrightarrow> (\<forall>rows ks. (\<forall>k\<in>set ks. sk_column k \<noteq> None)
     \<longrightarrow> answers (groonga_order rank ks) 0 (length rows) rows (grn_table_sort rows (- 1) ks))"

lemma ft_reads_end: "fi_cursor info = Some [] \<Longrightarrow> ft_reads env k info h = Some (replicate k (Ft_end_of_file, None))"
  by (induction k) (simp_all add: storage_ft_read_def)

lemma ft_reads_rows:
  assumes "accessor_promise env" "result_ok found"
  shows "fi_cursor info = Some ids \<Longrightarrow> fi_result info = Some found \<Longrightarrow> set ids \<subseteq> fst ` set found \<Longrightarrow> \<not> fp_count_skip h
    \<Longrightarrow> ft_reads env (length ids + k) info h = Some (rows_of env found ids @ replicate k (Ft_end_of_file, None))"
proof (induction ids arbitrary: info h)
  case Nil
  then show ?case by (simp add: ft_reads_end rows_of_def)
next
  case (Cons i "is")
  let ?info = "info\<lparr>fi_cursor := Some is\<rparr>" and ?h = "h\<lparr>fp_record_id := i\<rparr>"
  have read: "storage_ft_read env info h = Some (Ft_ok, ?info, ?h)"
    using Cons.prems assms(1) by (simp add: storage_ft_read_def accessor_promise_def)
  have "i \<in> fst ` set found" using Cons.prems(3) by simp
  then have "i \<noteq> 0" "map_of found i \<noteq> None" using assms(2) unfolding result_ok_def map_of_eq_None_iff by metis+
  then have relevance: "get_relevance env ?info ?h = mrn_get_score_value env (the (map_of found i))"
    using Cons.prems(2) by (auto simp: get_relevance_def)
  have "ft_reads env (length is + k) ?info ?h = Some (rows_of env found is @ replicate k (Ft_end_of_file, None))"
    using Cons.prems by (intro Cons.IH) simp_all
  then show ?case using read relevance by (simp add: rows_of_def)
qed

text \<open>The rows that the cursor of a new search goes through.\<close>

definition search_rows :: "ft_env \<Rightarrow> order_env \<Rightarrow> query_block \<Rightarrow> bool \<Rightarrow> ft_info \<Rightarrow> (nat \<times> ft_score) list \<Rightarrow> nat list" where
  "search_rows env oenv qb need info found =
     (if fi_sorted info then ft_sort env (map fst found) (- 1) score_order
      else if need then (case check_fast_order_limit oenv qb of
          (True, ks, Some limit) \<Rightarrow> ft_sort env (map fst found) (sort_limit limit) ks | _ \<Rightarrow> map fst found)
      else map fst found)"

lemma storage_ft_init_opens:
  assumes "fi_result info = None" "ft_creates env" "fi_query info \<noteq> []" "ft_select env (fi_expression info) = Some found" "ft_cursor_opens env"
    and "fi_sorted_result info = None"
  shows "\<exists>info'. storage_ft_init env oenv qb need skips info h = (Ft_ok, info', \<lparr>fp_record_id = 0, fp_count_skip = skips\<rparr>)
    \<and> fi_cursor info' = Some (search_rows env oenv qb need info found) \<and> fi_result info' = Some found"
  using assms
  by (auto simp: storage_ft_init_def generic_ft_init_def ensure_searched_def search_rows_def Let_def split: bool.splits option.splits prod.splits)


definition sample_score :: "nat \<Rightarrow> int" where
  "sample_score r = (if r = 7 then 5 else int r)"

definition sample_ft_env :: ft_env where
  "sample_ft_env = \<lparr>ft_parser = \<lparr>grn_atoui = (\<lambda>s. (0, 0)), grn_atoi = (\<lambda>s. (0, 0))\<rparr>, ft_syntax_flags = 0, ft_action = ACTION_ON_ERROR_ERROR,
     ft_expr_parse = (\<lambda>q c op fs. True), ft_key_parts = (\<lambda>n. 1), ft_vector_index = (\<lambda>n. False), ft_creates = True,
     ft_select = (\<lambda>e. Some [(4, Int32_score 4), (7, Int32_score 5)]), ft_sort = (\<lambda>rows n ks. sample_sort (\<lambda>c. sample_score) rows (if n < 0 then int (length rows) else n) ks),
     ft_cursor_opens = True, ft_table_no_key = False, ft_record_behind = (\<lambda>a i. i), ft_float_of_double = (\<lambda>x. 0), ft_float_of_int = word_of_int\<rparr>"


text \<open>Everything a search holds is closed with it, if it is read at most once from the start; a second start forgets the first cursor.\<close>

definition search_balanced :: "ft_info \<Rightarrow> bool" where
  "search_balanced info \<longleftrightarrow> fi_live info = slots_held info"

lemma new_search_balanced: "search_balanced (ft_init_ext env boolean fsorted key_nr query)"
  by (cases key_nr) (simp_all add: ft_init_ext_def no_such_key_info_def generic_ft_init_ext_select_def empty_info_def search_balanced_def slots_held_def held_def Let_def)

lemma ensure_searched_balanced:
  assumes "search_balanced info" "fi_result info = None \<longrightarrow> \<not> fi_score_column info \<and> fi_sorted_result info = None"
  shows "search_balanced (ensure_searched env oenv qb need info)"
proof (cases "fi_result info \<noteq> None \<or> \<not> ft_creates env")
  case True
  then show ?thesis using assms(1) by (simp add: ensure_searched_def)
next
  case False
  then have none: "fi_result info = None" "\<not> fi_score_column info" "fi_sorted_result info = None" "ft_creates env" using assms(2) by auto
  define info1 where "info1 = info\<lparr>fi_result := Some [], fi_score_column := True, fi_live := fi_live info + 2\<rparr>"
  have 1: "search_balanced (info1\<lparr>fi_result := Some found\<rparr>)" for found
    using assms(1) none by (simp add: search_balanced_def slots_held_def held_def info1_def)
  have 2: "search_balanced (info1\<lparr>fi_result := Some found, fi_sorted_result := Some ids, fi_live := fi_live info1 + 1\<rparr>)" for found ids
    using assms(1) none by (simp add: search_balanced_def slots_held_def held_def info1_def)
  have 0: "search_balanced info1" using assms(1) none by (simp add: search_balanced_def slots_held_def held_def info1_def)
  have eq: "ensure_searched env oenv qb need info = (if fi_query info = [] then info1
        else (case ft_select env (fi_expression info) of
            None \<Rightarrow> info1
          | Some found \<Rightarrow>
              (let info2 = info1\<lparr>fi_result := Some found\<rparr>; ids = map fst found in
               if fi_sorted info then info2\<lparr>fi_sorted_result := Some (ft_sort env ids (-1) score_order), fi_live := fi_live info2 + 1\<rparr>
               else if need then
                 (case check_fast_order_limit oenv qb of
                    (True, ks, Some limit) \<Rightarrow>
                      info2\<lparr>fi_sorted_result := Some (ft_sort env ids (sort_limit limit) ks), fi_live := fi_live info2 + 1\<rparr>
                  | _ \<Rightarrow> info2)
               else info2)))"
    unfolding ensure_searched_def info1_def Let_def by (rule if_not_P) (use none in simp)
  show ?thesis unfolding eq Let_def using 0 1 2 by (simp split: bool.split option.split prod.split)
qed

lemma second_start_leaks:
  assumes "search_balanced info" "fi_cursor info \<noteq> None" "fi_accessor info \<noteq> None" "fi_result info = Some found" "fi_sorted_result info = None"
    and "ft_cursor_opens env"
  shows "fi_live (snd (generic_ft_init env oenv qb need info)) = slots_held (snd (generic_ft_init env oenv qb need info)) + 2"
  using assms by (simp add: generic_ft_init_def ensure_searched_def search_balanced_def slots_held_def held_def Let_def)

lemma cleared_search_holds_nothing: "search_balanced info \<Longrightarrow> fi_open info \<Longrightarrow> fi_live (generic_ft_clear info) = 0"
  by (simp add: generic_ft_clear_def search_balanced_def)

end
