(* ===== verification/Count_Skip.thy ===== *)
theory Count_Skip
  imports Mrn_Prelude
begin

text \<open>
  When rows may be counted without reading them (\<^verbatim>\<open>lib/mrn_count_skip_checker.cpp\<close> and
  \<^verbatim>\<open>ha_mroonga::check_count_skip\<close>). Once counting is skipped, \<^verbatim>\<open>index_next\<close> and \<^verbatim>\<open>ft_read\<close> leave the
  record buffer as it is, so MySQL goes on evaluating the condition on a stale row. This is harmless
  as long as the condition reads nothing but the key parts that the scan fixes.
\<close>

unbundle bit_operations_syntax

section \<open>Queries as the checker sees them\<close>

text \<open>A \<^verbatim>\<open>Field\<close>: its address and the address of its table.\<close>

record skip_field =
  field_id :: nat
  field_table :: nat

datatype skip_functype =
    SKIP_EQ | SKIP_EQUAL | SKIP_NE | SKIP_LT | SKIP_LE | SKIP_GE | SKIP_GT | SKIP_BETWEEN
  | SKIP_FT | SKIP_OTHER nat

text \<open>An argument of a function: a field item, whose field may be missing, or another item.\<close>

datatype skip_operand = FieldOperand "skip_field option" | ConstOperand int | OtherOperand nat

datatype skip_item =
    SkipCond bool "skip_item list"
  | SkipFunc skip_functype "skip_operand list"
  | SkipMultiEq "skip_field option list"
  | SkipItem nat

datatype visible_item =
    SumItem nat int int int int
  | NoSumItem

definition COUNT_FUNC :: nat where "COUNT_FUNC = 0"

record query_block =
  num_visible_fields :: nat
  group_elements :: nat
  having_cond :: bool
  current_table_nest :: nat
  table_elements :: nat
  first_visible_field :: visible_item
  where_cond :: "skip_item option"

text \<open>The state of the checker. \<open>have_fields_iterator\<close> is the build option that enables multiple
  equalities.\<close>

record checker =
  checker_table :: nat
  checker_block :: query_block
  key_info :: "skip_field list option"
  target_key_part_map :: "64 word"
  checker_storage_mode :: bool
  have_fields_iterator :: bool

section \<open>The checker\<close>

text \<open>The loop over the key parts from the part with number \<open>i\<close> on.\<close>

fun key_part_loop :: "skip_field list \<Rightarrow> nat \<Rightarrow> 64 word \<Rightarrow> skip_field \<Rightarrow> bool" where
  "key_part_loop [] i target f = False"
| "key_part_loop (k # ks) i target f =
     (if k = f then drop_bit i target AND 1 \<noteq> 0 else key_part_loop ks (i + 1) target f)"

definition is_skippable_field :: "checker \<Rightarrow> skip_field option \<Rightarrow> bool" where
  "is_skippable_field ck fo = (case fo of
      None \<Rightarrow> False
    | Some f \<Rightarrow>
        if field_table f \<noteq> checker_table ck then False
        else case key_info ck of
            None \<Rightarrow> False
          | Some ks \<Rightarrow> key_part_loop ks 0 (target_key_part_map ck) f)"

definition is_skippable_operand :: "checker \<Rightarrow> skip_operand \<Rightarrow> bool" where
  "is_skippable_operand ck arg = (case arg of FieldOperand fo \<Rightarrow> is_skippable_field ck fo | _ \<Rightarrow> False)"

text \<open>A comparison has its arguments; the first one is looked at.\<close>

definition is_skippable_func :: "checker \<Rightarrow> skip_functype \<Rightarrow> skip_operand list \<Rightarrow> bool" where
  "is_skippable_func ck ft args = (case ft of
      SKIP_FT \<Rightarrow> False
    | SKIP_OTHER n \<Rightarrow> False
    | _ \<Rightarrow> (case args of [] \<Rightarrow> False | arg # _ \<Rightarrow> is_skippable_operand ck arg))"

definition is_skippable_multi_eq :: "checker \<Rightarrow> skip_field option list \<Rightarrow> bool" where
  "is_skippable_multi_eq ck eqs \<longleftrightarrow> have_fields_iterator ck \<and> list_all (is_skippable_field ck) eqs"

definition is_skippable_sub :: "checker \<Rightarrow> skip_item \<Rightarrow> bool" where
  "is_skippable_sub ck it = (case it of
      SkipFunc ft args \<Rightarrow> is_skippable_func ck ft args
    | SkipMultiEq eqs \<Rightarrow> is_skippable_multi_eq ck eqs
    | _ \<Rightarrow> False)"

primrec is_skippable_cond :: "checker \<Rightarrow> skip_item list \<Rightarrow> bool" where
  "is_skippable_cond ck [] = True"
| "is_skippable_cond ck (it # its) = (if \<not> is_skippable_sub ck it then False else is_skippable_cond ck its)"

definition is_skippable :: "checker \<Rightarrow> skip_item \<Rightarrow> bool" where
  "is_skippable ck wh = (case wh of
      SkipCond is_and its \<Rightarrow> is_skippable_cond ck its
    | SkipFunc ft args \<Rightarrow> if ft = SKIP_FT then True else is_skippable_func ck ft args
    | SkipMultiEq eqs \<Rightarrow> is_skippable_multi_eq ck eqs
    | SkipItem n \<Rightarrow> False)"

definition check :: "checker \<Rightarrow> bool" where
  "check ck = (let qb = checker_block ck in
     if num_visible_fields qb \<noteq> 1 then False
     else if group_elements qb > 0 then False
     else if having_cond qb then False
     else if current_table_nest qb \<noteq> 1 then False
     else if table_elements qb \<noteq> 1 then False
     else case first_visible_field qb of
         NoSumItem \<Rightarrow> False
       | SumItem sum_func nest_level aggr_level max_aggr_level max_sum_func_level \<Rightarrow>
           if sum_func \<noteq> COUNT_FUNC then False
           else if nest_level \<noteq> 0 \<or> aggr_level \<noteq> 0 \<or> max_aggr_level \<noteq> -1 \<or> max_sum_func_level \<noteq> -1
             then False
           else case where_cond qb of
               None \<Rightarrow> checker_storage_mode ck
             | Some wh \<Rightarrow> is_skippable ck wh)"

text \<open>The handler's decision; \<open>wrapped_transactional\<close> says that a wrapped engine has transactions.\<close>

record skip_handler =
  enable_optimization :: bool
  sql_command_select :: bool
  wrapper_mode :: bool
  wrapped_transactional :: bool
  table_address :: nat
  table_keys :: "skip_field list list"
  active_index :: "nat option"
  handler_block :: query_block
  handler_fields_iterator :: bool
  count_skip :: bool
  mrn_count_skip :: nat

definition checker_of :: "skip_handler \<Rightarrow> 64 word \<Rightarrow> checker" where
  "checker_of h target = \<lparr>checker_table = table_address h, checker_block = handler_block h,
     key_info = map_option (\<lambda>i. table_keys h ! i) (active_index h), target_key_part_map = target,
     checker_storage_mode = (\<not> wrapper_mode h), have_fields_iterator = handler_fields_iterator h\<rparr>"

definition check_count_skip :: "skip_handler \<Rightarrow> 64 word \<Rightarrow> skip_handler" where
  "check_count_skip h target =
     (if \<not> enable_optimization h then h\<lparr>count_skip := False\<rparr>
      else if \<not> sql_command_select h then h\<lparr>count_skip := False\<rparr>
      else if wrapper_mode h \<and> wrapped_transactional h then h\<lparr>count_skip := False\<rparr>
      else if check (checker_of h target)
        then h\<lparr>count_skip := True, mrn_count_skip := mrn_count_skip h + 1\<rparr>
      else h\<lparr>count_skip := False\<rparr>)"

section \<open>What a condition reads\<close>

text \<open>The condition on a row: connectives over comparisons of operand values. How comparisons and other
  items come out is a parameter.\<close>

record skip_row =
  field_value :: "skip_field \<Rightarrow> int option"
  other_value :: "nat \<Rightarrow> int option"

definition operand_value :: "skip_row \<Rightarrow> skip_operand \<Rightarrow> int option" where
  "operand_value row arg = (case arg of
      FieldOperand fo \<Rightarrow> Option.bind fo (field_value row)
    | ConstOperand c \<Rightarrow> Some c
    | OtherOperand n \<Rightarrow> other_value row n)"

text \<open>A comparison with \<^const>\<open>None\<close>, the SQL NULL, may come out in any way the parameter \<open>func\<close> likes.\<close>

fun skip_eval :: "(skip_functype \<Rightarrow> int option list \<Rightarrow> bool) \<Rightarrow> (nat \<Rightarrow> bool) \<Rightarrow> skip_row \<Rightarrow> skip_item \<Rightarrow> bool" where
  "skip_eval func other row (SkipCond is_and its) =
     (if is_and then list_all (skip_eval func other row) its else list_ex (skip_eval func other row) its)"
| "skip_eval func other row (SkipFunc ft args) = func ft (map (operand_value row) args)"
| "skip_eval func other row (SkipMultiEq eqs) =
     func SKIP_EQ (map (\<lambda>fo. Option.bind fo (field_value row)) eqs)"
| "skip_eval func other row (SkipItem n) = other n"

text \<open>The fields that a scan of the key fixes: those of the key parts in the map.\<close>

definition used_fields :: "checker \<Rightarrow> skip_field set" where
  "used_fields ck = (case key_info ck of None \<Rightarrow> {}
     | Some ks \<Rightarrow> {ks ! i | i. i < length ks \<and> bit (target_key_part_map ck) i})"

text \<open>Every operand behind the first one is a constant.\<close>

fun constant_operands :: "skip_item \<Rightarrow> bool" where
  "constant_operands (SkipCond is_and its) = list_all constant_operands its"
| "constant_operands (SkipFunc ft args) = list_all (\<lambda>arg. \<exists>c. arg = ConstOperand c) (tl args)"
| "constant_operands _ = True"

definition single_full_text :: "skip_item \<Rightarrow> bool" where
  "single_full_text it = (case it of SkipFunc ft args \<Rightarrow> ft = SKIP_FT | _ \<Rightarrow> False)"

lemma drop_bit_and_one: "(drop_bit i w AND 1 \<noteq> 0) = bit (w :: 64 word) i"
  by (simp only: and_one_eq mod_2_eq_odd bit_iff_odd_drop_bit of_bool_eq_0_iff not_not)

lemma key_part_loop_used:
  "key_part_loop ks i target f \<Longrightarrow> \<exists>j < length ks. ks ! j = f \<and> bit target (i + j)"
proof (induction ks arbitrary: i)
  case (Cons k ks)
  show ?case
  proof (cases "k = f")
    case True
    then have "bit target (i + 0)" using Cons.prems by (simp add: drop_bit_and_one)
    then show ?thesis using True by (intro exI [of _ 0]) simp
  next
    case False
    then have "key_part_loop ks (i + 1) target f" using Cons.prems by simp
    from Cons.IH [OF this] obtain j where "j < length ks" "ks ! j = f" "bit target (i + 1 + j)" by blast
    then show ?thesis by (intro exI [of _ "Suc j"]) simp
  qed
qed simp

lemma key_part_loop_complete:
  assumes "distinct ks" "j < length ks" "bit target (i + j)"
  shows "key_part_loop ks i target (ks ! j)"
  using assms
proof (induction ks arbitrary: i j)
  case (Cons k ks)
  then show ?case
    by (cases j) (auto simp: drop_bit_and_one)
qed simp

lemma skippable_field_used:
  assumes "is_skippable_field ck fo"
  shows "\<exists>f. fo = Some f \<and> field_table f = checker_table ck \<and> f \<in> used_fields ck"
  using assms key_part_loop_used [where i = 0]
  by (fastforce simp: is_skippable_field_def used_fields_def split: option.splits if_splits)

lemma skippable_field_iff:
  assumes "\<And>ks. key_info ck = Some ks \<Longrightarrow> distinct ks"
  shows "is_skippable_field ck (Some f) \<longleftrightarrow> field_table f = checker_table ck \<and> f \<in> used_fields ck"
proof
  assume "field_table f = checker_table ck \<and> f \<in> used_fields ck"
  moreover from this obtain ks i where "key_info ck = Some ks" "f = ks ! i" "i < length ks"
      "bit (target_key_part_map ck) i"
    by (auto simp: used_fields_def split: option.splits)
  ultimately show "is_skippable_field ck (Some f)"
    using key_part_loop_complete [of ks i _ 0] assms by (simp add: is_skippable_field_def)
qed (use skippable_field_used [of ck "Some f"] in auto)

lemma is_skippable_cond_all: "is_skippable_cond ck its = list_all (is_skippable_sub ck) its"
  by (induction its) simp_all

text \<open>Agreement on the used fields gives the same value of a condition.\<close>

definition agree :: "checker \<Rightarrow> skip_row \<Rightarrow> skip_row \<Rightarrow> bool" where
  "agree ck r s \<longleftrightarrow> (\<forall>f \<in> used_fields ck. field_value r f = field_value s f)"

lemma skippable_field_agree:
  "is_skippable_field ck fo \<Longrightarrow> agree ck r s \<Longrightarrow> Option.bind fo (field_value r) = Option.bind fo (field_value s)"
  using skippable_field_used by (fastforce simp: agree_def)

lemma skippable_func_agree:
  assumes "is_skippable_func ck ft args" "constant_operands (SkipFunc ft args)" "agree ck r s"
  shows "map (operand_value r) args = map (operand_value s) args"
proof -
  obtain arg rest where args: "args = arg # rest" and "is_skippable_operand ck arg"
    using assms(1) by (auto simp: is_skippable_func_def split: skip_functype.splits list.splits)
  then have "operand_value r arg = operand_value s arg"
    using skippable_field_agree [OF _ assms(3)]
    by (auto simp: is_skippable_operand_def operand_value_def split: skip_operand.splits)
  moreover have "map (operand_value r) rest = map (operand_value s) rest"
    using assms(2) by (auto simp: args list_all_iff operand_value_def)
  ultimately show ?thesis by (simp add: args)
qed

lemma skippable_sub_agree:
  assumes "is_skippable_sub ck it" "constant_operands it" "agree ck r s"
  shows "skip_eval func other r it = skip_eval func other s it"
proof (cases it)
  case (SkipFunc ft args)
  with assms have "map (operand_value r) args = map (operand_value s) args"
    by (intro skippable_func_agree) (simp_all add: is_skippable_sub_def)
  then show ?thesis by (simp only: SkipFunc skip_eval.simps)
next
  case (SkipMultiEq eqs)
  then have "map (\<lambda>fo. Option.bind fo (field_value r)) eqs = map (\<lambda>fo. Option.bind fo (field_value s)) eqs"
    using assms skippable_field_agree by (fastforce simp: is_skippable_sub_def is_skippable_multi_eq_def list_all_iff)
  then show ?thesis by (simp only: SkipMultiEq skip_eval.simps)
qed (use assms in \<open>simp_all add: is_skippable_sub_def\<close>)

lemma skippable_agree:
  assumes skip: "is_skippable ck it" and con: "constant_operands it" and ft: "\<not> single_full_text it"
    and eq: "agree ck r s"
  shows "skip_eval func other r it = skip_eval func other s it"
proof (cases it)
  case (SkipCond is_and its)
  then have "\<forall>x \<in> set its. is_skippable_sub ck x \<and> constant_operands x"
    using skip con by (auto simp: is_skippable_def is_skippable_cond_all list_all_iff)
  then have "\<forall>x \<in> set its. skip_eval func other r x = skip_eval func other s x"
    using skippable_sub_agree eq by blast
  then show ?thesis by (auto simp: SkipCond list_all_iff list_ex_iff)
qed (use skippable_sub_agree [OF _ con eq] skip ft in
    \<open>auto simp: is_skippable_def is_skippable_sub_def single_full_text_def split: if_splits\<close>)

section \<open>Properties\<close>

definition simple_count :: "query_block \<Rightarrow> bool" where
  "simple_count qb \<longleftrightarrow> num_visible_fields qb = 1 \<and> group_elements qb = 0 \<and> \<not> having_cond qb
     \<and> current_table_nest qb = 1 \<and> table_elements qb = 1
     \<and> first_visible_field qb = SumItem COUNT_FUNC 0 0 (-1) (-1)"

lemma check_iff:
  "check ck \<longleftrightarrow> simple_count (checker_block ck)
     \<and> (case where_cond (checker_block ck) of None \<Rightarrow> checker_storage_mode ck | Some wh \<Rightarrow> is_skippable ck wh)"
  by (cases "first_visible_field (checker_block ck)")
    (auto simp: check_def simple_count_def Let_def split: option.splits)

lemma check_count_skip_iff:
  "count_skip (check_count_skip h target) \<longleftrightarrow>
     enable_optimization h \<and> sql_command_select h \<and> \<not> (wrapper_mode h \<and> wrapped_transactional h)
     \<and> check (checker_of h target)"
  by (simp add: check_count_skip_def)

lemma checker_of_block [simp]: "checker_block (checker_of h target) = handler_block h"
  by (simp add: checker_of_def)


definition count_block :: "skip_item option \<Rightarrow> query_block" where
  "count_block wh = \<lparr>num_visible_fields = 1, group_elements = 0, having_cond = False,
     current_table_nest = 1, table_elements = 1,
     first_visible_field = SumItem COUNT_FUNC 0 0 (-1) (-1), where_cond = wh\<rparr>"

definition key_field :: skip_field where "key_field = \<lparr>field_id = 1, field_table = 7\<rparr>"
definition plain_field :: skip_field where "plain_field = \<lparr>field_id = 2, field_table = 7\<rparr>"

definition count_handler :: "skip_item option \<Rightarrow> skip_handler" where
  "count_handler wh = \<lparr>enable_optimization = True, sql_command_select = True, wrapper_mode = False,
     wrapped_transactional = False, table_address = 7, table_keys = [[key_field]], active_index = Some 0,
     handler_block = count_block wh, handler_fields_iterator = True, count_skip = False,
     mrn_count_skip = 0\<rparr>"

definition row_of :: "int \<Rightarrow> int \<Rightarrow> skip_row" where
  "row_of k v = \<lparr>field_value = (\<lambda>f. Some (if f = key_field then k else v)), other_value = (\<lambda>n. None)\<rparr>"

lemmas count_sample_defs = check_count_skip_def check_def Let_def count_handler_def count_block_def
  checker_of_def is_skippable_def is_skippable_func_def is_skippable_operand_def is_skippable_field_def
  is_skippable_sub_def COUNT_FUNC_def

lemma row_agree: "agree (checker_of (count_handler wh) 1) (row_of k v) (row_of k w)"
  by (auto simp: agree_def used_fields_def row_of_def checker_of_def count_handler_def)


text \<open>
  The other operands of a comparison are not looked at. A condition such as
  \<^verbatim>\<open>key > 10 AND key = other\<close> is counted without reading rows although \<^verbatim>\<open>other\<close> is no part of the
  key: there are rows that agree on every used key part and of which only one satisfies the condition.
\<close>
theorem count_skip_reads_other_column:
  assumes "is_skippable_field ck (Some f)" and "g \<notin> used_fields ck"
    and "simple_count (checker_block ck)"
    and "where_cond (checker_block ck) = Some (SkipCond True
      [SkipFunc SKIP_GT [FieldOperand (Some f), ConstOperand c], SkipFunc SKIP_EQ [FieldOperand (Some f), FieldOperand (Some g)]])"
    and "\<And>a b. func SKIP_GT [Some a, Some b] \<longleftrightarrow> a > b" and "\<And>a b. func SKIP_EQ [Some a, Some b] \<longleftrightarrow> a = b"
  shows "check ck \<and> (\<exists>r s. agree ck r s
    \<and> skip_eval func other r (the (where_cond (checker_block ck)))
    \<and> \<not> skip_eval func other s (the (where_cond (checker_block ck))))"
proof -
  have "f \<in> used_fields ck" using skippable_field_used [OF assms(1)] by auto
  then have fg: "f \<noteq> g" using assms(2) by auto
  have "check ck"
    using assms(1,3,4) by (simp add: check_iff is_skippable_def is_skippable_sub_def
        is_skippable_func_def is_skippable_operand_def)
  moreover define r where "r = \<lparr>field_value = (\<lambda>h. Some (c + 1)), other_value = (\<lambda>n. None)\<rparr>"
  moreover define s where "s = \<lparr>field_value = (\<lambda>h. Some (if h = g then c else c + 1)), other_value = (\<lambda>n. None)\<rparr>"
  moreover have "agree ck r s" using assms(2) by (auto simp: agree_def r_def s_def)
  moreover have "skip_eval func other r (the (where_cond (checker_block ck)))"
    by (simp add: assms(4-6) r_def operand_value_def)
  moreover have "\<not> skip_eval func other s (the (where_cond (checker_block ck)))"
    using fg by (simp add: assms(4-6) s_def operand_value_def)
  ultimately show ?thesis by blast
qed

definition sample_func :: "skip_functype \<Rightarrow> int option list \<Rightarrow> bool" where
  "sample_func ft vs = (case (ft, vs) of
      (SKIP_GT, [Some a, Some b]) \<Rightarrow> a > b
    | (SKIP_EQ, [Some a, Some b]) \<Rightarrow> a = b
    | _ \<Rightarrow> False)"

theorem count_skip_reads_other_column_witness:
  "check (checker_of (count_handler (Some (SkipCond True
      [SkipFunc SKIP_GT [FieldOperand (Some key_field), ConstOperand 10],
       SkipFunc SKIP_EQ [FieldOperand (Some key_field), FieldOperand (Some plain_field)]]))) 1)"
proof -
  let ?ck = "checker_of (count_handler (Some (SkipCond True
      [SkipFunc SKIP_GT [FieldOperand (Some key_field), ConstOperand 10],
       SkipFunc SKIP_EQ [FieldOperand (Some key_field), FieldOperand (Some plain_field)]]))) 1"
  have "is_skippable_field ?ck (Some key_field)"
    by (simp add: is_skippable_field_def checker_of_def count_handler_def key_field_def)
  moreover have "plain_field \<notin> used_fields ?ck"
    by (simp add: used_fields_def checker_of_def count_handler_def key_field_def plain_field_def)
  moreover have "simple_count (checker_block ?ck)"
    by (simp add: simple_count_def count_handler_def count_block_def)
  ultimately show ?thesis
    using count_skip_reads_other_column [of ?ck key_field plain_field 10 sample_func]
    by (simp add: sample_func_def count_handler_def count_block_def)
qed

end
