(* ===== verification/Context_Pool.thy ===== *)
theory Context_Pool
  imports Mrn_Prelude
begin

text \<open>
  The pool of Groonga contexts that the user defined functions share
  (\<^verbatim>\<open>lib/mrn_context_pool.cpp\<close>). The operations are functions on the state of the pool; each critical
  section is one step of a system of threads. \<^verbatim>\<open>pull\<close> has two critical sections, so other threads may
  run between them; \<^verbatim>\<open>set_n_workers\<close> walks over the pool without taking the lock.
\<close>

section \<open>The pool\<close>

text \<open>What the pool touches of a \<^verbatim>\<open>grn_ctx\<close>.\<close>

record grn_context =
  ctx_rc :: int
  ctx_errbuf :: string
  ctx_db :: "nat option"
  ctx_n_workers :: int

text \<open>The open contexts are a heap: a closed context is not in it any more.\<close>

record context_pool =
  pool :: "nat list"
  last_pull_time :: int
  n_pooling_contexts :: int
  contexts :: "nat \<rightharpoonup> grn_context"

definition GRN_SUCCESS :: int where "GRN_SUCCESS = 0"

definition CLEAR_THREATHOLD_IN_SECONDS :: int where "CLEAR_THREATHOLD_IN_SECONDS = 60 * 5"

definition new_pool :: context_pool where
  "new_pool = \<lparr>pool = [], last_pull_time = 0, n_pooling_contexts = 0, contexts = Map.empty\<rparr>"

definition grn_ctx_close :: "nat \<Rightarrow> context_pool \<Rightarrow> context_pool" where
  "grn_ctx_close c p = p\<lparr>contexts := (contexts p)(c := None), n_pooling_contexts := n_pooling_contexts p - 1\<rparr>"

definition clear_without_lock :: "context_pool \<Rightarrow> context_pool" where
  "clear_without_lock p = (fold grn_ctx_close (pool p) p)\<lparr>pool := []\<rparr>"

text \<open>The first critical section of \<^verbatim>\<open>pull\<close>. The time was read before the lock was taken.\<close>

definition pull_pooled :: "int \<Rightarrow> context_pool \<Rightarrow> nat option \<times> context_pool" where
  "pull_pooled now p =
     (if pool p \<noteq> [] then
        let ctx = pool p ! (length (pool p) - 1);
            p' = p\<lparr>pool := butlast (pool p)\<rparr>;
            p'' = (if now - last_pull_time p' \<ge> CLEAR_THREATHOLD_IN_SECONDS then clear_without_lock p' else p')
        in (Some ctx, p''\<lparr>last_pull_time := now\<rparr>)
      else (None, p\<lparr>last_pull_time := now\<rparr>))"

text \<open>The second critical section: the result of \<^verbatim>\<open>grn_ctx_open\<close> is a new context or null.\<close>

definition pull_open :: "(nat \<times> grn_context) option \<Rightarrow> context_pool \<Rightarrow> nat option \<times> context_pool" where
  "pull_open opened p =
     (let p' = p\<lparr>n_pooling_contexts := n_pooling_contexts p + 1\<rparr> in
      case opened of
        None \<Rightarrow> (None, p')
      | Some (c, x) \<Rightarrow> (Some c, p'\<lparr>contexts := (contexts p)(c \<mapsto> x)\<rparr>))"

definition clean_context :: "grn_context \<Rightarrow> grn_context" where
  "clean_context x = x\<lparr>ctx_rc := GRN_SUCCESS, ctx_errbuf := [], ctx_db := None\<rparr>"

definition release :: "nat \<Rightarrow> context_pool \<Rightarrow> context_pool" where
  "release c p = p\<lparr>pool := pool p @ [c], contexts := (contexts p)(c := map_option clean_context (contexts p c))\<rparr>"

definition clear :: "context_pool \<Rightarrow> context_pool" where
  "clear p = clear_without_lock p"

text \<open>\<^verbatim>\<open>grn_ctx_set_n_workers\<close> on one context; \<^const>\<open>None\<close> is the use of a closed context.\<close>

definition set_n_workers_one :: "int \<Rightarrow> nat \<Rightarrow> context_pool \<Rightarrow> context_pool option" where
  "set_n_workers_one n c p = (case contexts p c of
      None \<Rightarrow> None
    | Some x \<Rightarrow> Some (p\<lparr>contexts := (contexts p)(c \<mapsto> x\<lparr>ctx_n_workers := n\<rparr>)\<rparr>))"

section \<open>Threads\<close>

datatype pool_thread =
    Idle
  | Opening
  | Holding nat
  | Setting int "nat list"

text \<open>\<open>open_failures\<close> counts the calls of \<^verbatim>\<open>grn_ctx_open\<close> that returned null; the code has no such counter.\<close>

record pool_system =
  sys_pool :: context_pool
  threads :: "nat \<Rightarrow> pool_thread"
  open_failures :: nat

abbreviation goto :: "pool_system \<Rightarrow> nat \<Rightarrow> pool_thread \<Rightarrow> context_pool \<Rightarrow> pool_system" where
  "goto s t pc p \<equiv> s\<lparr>sys_pool := p, threads := (threads s)(t := pc)\<rparr>"

text \<open>\<^verbatim>\<open>grn_ctx_open\<close> returns a context that is not open yet; a thread that holds a context may change it;
  the walk of \<^verbatim>\<open>set_n_workers\<close> goes over the contexts that were in the pool when it began.\<close>

inductive pool_step :: "pool_system \<Rightarrow> pool_system \<Rightarrow> bool" where
  pull_hit: "threads s t = Idle \<Longrightarrow> pull_pooled now (sys_pool s) = (Some c, p) \<Longrightarrow>
     pool_step s (goto s t (Holding c) p)"
| pull_miss: "threads s t = Idle \<Longrightarrow> pull_pooled now (sys_pool s) = (None, p) \<Longrightarrow>
     pool_step s (goto s t Opening p)"
| pull_opened: "threads s t = Opening \<Longrightarrow> contexts (sys_pool s) c = None \<Longrightarrow>
     pull_open (Some (c, x)) (sys_pool s) = (Some c, p) \<Longrightarrow> pool_step s (goto s t (Holding c) p)"
| pull_failed: "threads s t = Opening \<Longrightarrow> pull_open None (sys_pool s) = (None, p) \<Longrightarrow>
     pool_step s ((goto s t Idle p)\<lparr>open_failures := open_failures s + 1\<rparr>)"
| use_context: "threads s t = Holding c \<Longrightarrow> contexts (sys_pool s) c = Some y \<Longrightarrow>
     pool_step s (goto s t (Holding c) ((sys_pool s)\<lparr>contexts := (contexts (sys_pool s))(c \<mapsto> x)\<rparr>))"
| release_context: "threads s t = Holding c \<Longrightarrow> pool_step s (goto s t Idle (release c (sys_pool s)))"
| clear_pool: "threads s t = Idle \<Longrightarrow> pool_step s (goto s t Idle (clear (sys_pool s)))"
| set_begin: "threads s t = Idle \<Longrightarrow> pool_step s (goto s t (Setting n (pool (sys_pool s))) (sys_pool s))"
| set_one: "threads s t = Setting n (c # cs) \<Longrightarrow> set_n_workers_one n c (sys_pool s) = Some p \<Longrightarrow>
     pool_step s (goto s t (Setting n cs) p)"
| set_end: "threads s t = Setting n [] \<Longrightarrow> pool_step s (goto s t Idle (sys_pool s))"

definition pool_init :: pool_system where
  "pool_init = \<lparr>sys_pool = new_pool, threads = (\<lambda>_. Idle), open_failures = 0\<rparr>"

definition pool_reachable :: "pool_system \<Rightarrow> bool" where
  "pool_reachable s \<longleftrightarrow> pool_step\<^sup>*\<^sup>* pool_init s"

section \<open>The invariant\<close>

definition held :: "pool_system \<Rightarrow> nat set" where
  "held s = {c. \<exists>t. threads s t = Holding c}"

definition clean :: "grn_context \<Rightarrow> bool" where
  "clean x \<longleftrightarrow> ctx_rc x = GRN_SUCCESS \<and> ctx_errbuf x = [] \<and> ctx_db x = None"

text \<open>The pool itself: its contexts are different, open and clean, and the counter counts the open
  contexts and \<open>k\<close> failures.\<close>

definition pool_wf :: "nat \<Rightarrow> context_pool \<Rightarrow> bool" where
  "pool_wf k p \<longleftrightarrow> distinct (pool p) \<and> finite (dom (contexts p))
     \<and> (\<forall>c \<in> set (pool p). \<exists>x. contexts p c = Some x \<and> clean x)
     \<and> n_pooling_contexts p = int (card (dom (contexts p)) + k)"

text \<open>No two threads hold the same context.\<close>

definition exclusive :: "(nat \<Rightarrow> pool_thread) \<Rightarrow> bool" where
  "exclusive ts \<longleftrightarrow> (\<forall>t u c. ts t = Holding c \<longrightarrow> ts u = Holding c \<longrightarrow> t = u)"

definition pool_ok :: "pool_system \<Rightarrow> bool" where
  "pool_ok s \<longleftrightarrow> pool_wf (open_failures s) (sys_pool s)
     \<and> dom (contexts (sys_pool s)) = set (pool (sys_pool s)) \<union> held s
     \<and> set (pool (sys_pool s)) \<inter> held s = {}
     \<and> exclusive (threads s)"

lemma fold_close:
  "fold grn_ctx_close cs p = p\<lparr>contexts := (contexts p) |` (- set cs),
     n_pooling_contexts := n_pooling_contexts p - int (length cs)\<rparr>"
  by (induction cs arbitrary: p)
    (simp_all add: grn_ctx_close_def restrict_map_def fun_eq_iff cong: if_cong)

lemma clear_without_lock_eq:
  "clear_without_lock p = p\<lparr>pool := [], contexts := (contexts p) |` (- set (pool p)),
     n_pooling_contexts := n_pooling_contexts p - int (length (pool p))\<rparr>"
  by (simp add: clear_without_lock_def fold_close)

lemma pool_wf_pooled: "pool_wf k p \<Longrightarrow> set (pool p) \<subseteq> dom (contexts p)"
  by (auto simp: pool_wf_def)

lemma clear_wf:
  assumes "pool_wf k p"
  shows "pool_wf k (clear_without_lock p)"
proof -
  have sub: "set (pool p) \<subseteq> dom (contexts p)" using pool_wf_pooled [OF assms] .
  have "dom ((contexts p) |` (- set (pool p))) = dom (contexts p) - set (pool p)" by auto
  moreover have "card (dom (contexts p) - set (pool p)) = card (dom (contexts p)) - length (pool p)"
    using assms sub by (simp add: pool_wf_def card_Diff_subset distinct_card)
  moreover have "length (pool p) \<le> card (dom (contexts p))"
    using assms sub card_mono distinct_card unfolding pool_wf_def by metis
  ultimately show ?thesis using assms by (simp add: pool_wf_def clear_without_lock_eq)
qed

lemma pool_wf_time [simp]: "pool_wf k (p\<lparr>last_pull_time := now\<rparr>) = pool_wf k p"
  by (simp add: pool_wf_def)

lemma pool_wf_butlast: "pool_wf k p \<Longrightarrow> pool_wf k (p\<lparr>pool := butlast (pool p)\<rparr>)"
  by (auto simp: pool_wf_def distinct_butlast dest: in_set_butlastD)

text \<open>What the first critical section takes out of a well formed pool: the newest context; the others
  stay or are all closed.\<close>

lemma pull_pooled_hit:
  assumes "pool_wf k p" "pull_pooled now p = (Some c, p')"
  shows "pool_wf k p' \<and> c \<in> set (pool p) \<and> c \<notin> set (pool p') \<and> set (pool p') \<subseteq> set (pool p)
    \<and> dom (contexts p') = (dom (contexts p) - set (pool p)) \<union> {c} \<union> set (pool p')"
proof -
  have ne: "pool p \<noteq> []" using assms(2) by (auto simp: pull_pooled_def split: if_splits)
  then obtain cs where cs: "pool p = cs @ [c]"
    using assms(2) by (metis append_butlast_last_id last_conv_nth pull_pooled_def prod.inject option.inject)
  have d: "c \<notin> set cs" "distinct cs" using assms(1) by (auto simp: pool_wf_def cs)
  let ?q = "p\<lparr>pool := cs\<rparr>"
  have q: "pool_wf k ?q" using pool_wf_butlast [OF assms(1)] by (simp add: cs)
  have p': "p' = (if now - last_pull_time p \<ge> CLEAR_THREATHOLD_IN_SECONDS then clear_without_lock ?q else ?q)\<lparr>last_pull_time := now\<rparr>"
    using assms(2) ne by (auto simp: pull_pooled_def Let_def cs)
  have "pool_wf k p'" using q clear_wf [OF q] by (simp add: p')
  moreover have "set (pool p) \<subseteq> dom (contexts p)" using pool_wf_pooled [OF assms(1)] .
  ultimately show ?thesis
    using d by (auto simp: p' cs clear_without_lock_eq restrict_map_def split: if_splits)
qed

lemma pull_pooled_miss:
  "pull_pooled now p = (None, p') \<Longrightarrow> p' = p\<lparr>last_pull_time := now\<rparr>"
  by (auto simp: pull_pooled_def Let_def split: if_splits)

lemma held_update [simp]:
  "held (s\<lparr>open_failures := k\<rparr>) = held s" "held (s\<lparr>sys_pool := p\<rparr>) = held s"
  by (simp_all add: held_def)

lemma held_goto: "held (goto s t pc p) = {c. pc = Holding c} \<union> {c. \<exists>u. u \<noteq> t \<and> threads s u = Holding c}"
  by (auto simp: held_def)

lemma held_others_idle:
  assumes "\<And>c. threads s t \<noteq> Holding c"
  shows "{c. \<exists>u. u \<noteq> t \<and> threads s u = Holding c} = held s"
  unfolding held_def
proof (rule Collect_cong)
  fix c
  show "(\<exists>u. u \<noteq> t \<and> threads s u = Holding c) = (\<exists>u. threads s u = Holding c)"
    using assms [of c] by metis
qed

lemma held_others_holding:
  assumes "pool_ok s" "threads s t = Holding c"
  shows "{d. \<exists>u. u \<noteq> t \<and> threads s u = Holding d} = held s - {c}"
proof -
  have "exclusive (threads s)" using assms(1) by (simp add: pool_ok_def)
  then have u: "u = t" if "threads s u = Holding c" for u
    using assms(2) that unfolding exclusive_def by blast
  have "(\<exists>u. u \<noteq> t \<and> threads s u = Holding d) \<longleftrightarrow> d \<noteq> c \<and> (\<exists>u. threads s u = Holding d)" for d
    using u assms(2) by (metis pool_thread.inject(1))
  then show ?thesis by (auto simp: held_def)
qed

lemma exclusive_take:
  assumes "exclusive ts" "\<And>u. ts u \<noteq> Holding c"
  shows "exclusive (ts(t := Holding c))"
  unfolding exclusive_def
proof (intro allI impI)
  fix u v d
  assume h: "(ts(t := Holding c)) u = Holding d" "(ts(t := Holding c)) v = Holding d"
  show "u = v"
  proof (cases "u = t \<or> v = t")
    case True
    then have "d = c" using h by auto
    then show ?thesis using h assms(2) by (auto split: if_splits)
  next
    case False
    then show ?thesis using h assms(1) unfolding exclusive_def by (metis fun_upd_other)
  qed
qed

lemma exclusive_drop:
  assumes "exclusive ts" "\<And>d. pc \<noteq> Holding d"
  shows "exclusive (ts(t := pc))"
  using assms unfolding exclusive_def by (metis fun_upd_apply)

text \<open>A thread that holds nothing takes the context \<open>c\<close>, or goes on without one.\<close>

lemma pool_ok_take:
  assumes "pool_ok s" "\<And>d. threads s t \<noteq> Holding d" "c \<notin> held s"
    "pool_wf (open_failures s) p" "dom (contexts p) = set (pool p) \<union> insert c (held s)"
    "set (pool p) \<inter> insert c (held s) = {}"
  shows "pool_ok (goto s t (Holding c) p)"
proof -
  have "held (goto s t (Holding c) p) = insert c (held s)"
    using held_others_idle [OF assms(2)] by (simp add: held_goto)
  moreover have "exclusive ((threads s)(t := Holding c))"
  proof (rule exclusive_take)
    show "exclusive (threads s)" using assms(1) by (simp add: pool_ok_def)
    show "threads s u \<noteq> Holding c" for u using assms(3) unfolding held_def by blast
  qed
  ultimately show ?thesis using assms(4-6) by (simp add: pool_ok_def)
qed

lemma pool_ok_other:
  assumes "pool_ok s" "\<And>d. threads s t \<noteq> Holding d" "\<And>d. pc \<noteq> Holding d"
    "pool_wf (open_failures s) p" "dom (contexts p) = set (pool p) \<union> held s" "set (pool p) \<inter> held s = {}"
  shows "pool_ok (goto s t pc p)"
proof -
  have "held (goto s t pc p) = held s"
    using held_others_idle [OF assms(2)] assms(3) by (simp add: held_goto)
  moreover have "exclusive ((threads s)(t := pc))"
    using assms(1,3) by (intro exclusive_drop) (simp_all add: pool_ok_def)
  ultimately show ?thesis using assms(4-6) by (simp add: pool_ok_def)
qed

lemma set_one_ok:
  assumes "pool_ok s" "set_n_workers_one n c (sys_pool s) = Some p"
  shows "pool_wf (open_failures s) p \<and> dom (contexts p) = dom (contexts (sys_pool s)) \<and> pool p = pool (sys_pool s)"
proof -
  obtain x where x: "contexts (sys_pool s) c = Some x"
    and p: "p = (sys_pool s)\<lparr>contexts := (contexts (sys_pool s))(c \<mapsto> x\<lparr>ctx_n_workers := n\<rparr>)\<rparr>"
    using assms(2) by (auto simp: set_n_workers_one_def split: option.splits)
  then have d: "insert c (dom (contexts (sys_pool s))) = dom (contexts (sys_pool s))" by auto
  have "pool_wf (open_failures s) (sys_pool s)" using assms(1) by (simp add: pool_ok_def)
  then have "pool_wf (open_failures s) p" using x d by (auto simp: pool_wf_def p clean_def)
  then show ?thesis using d by (simp add: p)
qed

lemma release_ok:
  assumes "pool_ok s" "threads s t = Holding c"
  shows "pool_ok (goto s t Idle (release c (sys_pool s)))"
proof -
  let ?p = "sys_pool s"
  have wf: "pool_wf (open_failures s) ?p" and dm: "dom (contexts ?p) = set (pool ?p) \<union> held s"
    and dj: "set (pool ?p) \<inter> held s = {}" using assms(1) by (simp_all add: pool_ok_def)
  have "c \<in> held s" using assms(2) by (auto simp: held_def)
  then have cn: "c \<notin> set (pool ?p)" and "c \<in> dom (contexts ?p)" using dm dj by auto
  then obtain x where x: "contexts ?p c = Some x" by auto
  have dr: "dom (contexts (release c ?p)) = dom (contexts ?p)" using x by (auto simp: release_def)
  have "pool_wf (open_failures s) (release c ?p)"
    using wf x cn dr by (auto simp: pool_wf_def release_def clean_context_def clean_def)
  moreover have "held (goto s t Idle (release c ?p)) = held s - {c}"
    using held_others_holding [OF assms] by (simp add: held_goto)
  moreover have "exclusive ((threads s)(t := Idle))"
    using assms(1) by (intro exclusive_drop) (simp_all add: pool_ok_def)
  ultimately show ?thesis
    using dm dj dr \<open>c \<in> held s\<close> by (auto simp: pool_ok_def release_def)
qed

lemma use_ok:
  assumes "pool_ok s" "threads s t = Holding c" "contexts (sys_pool s) c = Some y"
  shows "pool_ok (goto s t (Holding c) ((sys_pool s)\<lparr>contexts := (contexts (sys_pool s))(c \<mapsto> x)\<rparr>))"
proof -
  let ?p = "(sys_pool s)\<lparr>contexts := (contexts (sys_pool s))(c \<mapsto> x)\<rparr>"
  have "c \<in> held s" using assms(2) by (auto simp: held_def)
  then have cn: "c \<notin> set (pool (sys_pool s))" using assms(1) by (auto simp: pool_ok_def)
  have d: "insert c (dom (contexts (sys_pool s))) = dom (contexts (sys_pool s))" using assms(3) by auto
  have "(threads s)(t := Holding c) = threads s" using assms(2) by auto
  then have s': "goto s t (Holding c) ?p = s\<lparr>sys_pool := ?p\<rparr>" by simp
  have "held (s\<lparr>sys_pool := ?p\<rparr>) = held s" by (simp add: held_def)
  then show ?thesis using assms(1) cn d by (auto simp: s' pool_ok_def pool_wf_def)
qed

lemma open_ok:
  assumes "pool_ok s" "threads s t = Opening" "contexts (sys_pool s) c = None"
    "pull_open (Some (c, x)) (sys_pool s) = (Some c, p)"
  shows "pool_ok (goto s t (Holding c) p)"
proof (rule pool_ok_take [OF assms(1)])
  let ?q = "sys_pool s"
  have p: "p = ?q\<lparr>n_pooling_contexts := n_pooling_contexts ?q + 1, contexts := (contexts ?q)(c \<mapsto> x)\<rparr>"
    using assms(4) by (simp add: pull_open_def)
  have new: "c \<notin> dom (contexts ?q)" using assms(3) by auto
  then show "c \<notin> held s" "set (pool p) \<inter> insert c (held s) = {}"
    "dom (contexts p) = set (pool p) \<union> insert c (held s)"
    using assms(1) by (auto simp: pool_ok_def p)
  show "pool_wf (open_failures s) p"
    using assms(1) new by (auto simp: pool_ok_def pool_wf_def p)
qed (simp add: assms(2))

lemma fail_ok:
  assumes "pool_ok s" "threads s t = Opening" "pull_open None (sys_pool s) = (None, p)"
  shows "pool_ok ((goto s t Idle p)\<lparr>open_failures := open_failures s + 1\<rparr>)"
proof -
  have p: "p = (sys_pool s)\<lparr>n_pooling_contexts := n_pooling_contexts (sys_pool s) + 1\<rparr>"
    using assms(3) by (simp add: pull_open_def)
  define s' where "s' = (goto s t Idle p)\<lparr>open_failures := open_failures s + 1\<rparr>"
  have s': "sys_pool s' = p" "threads s' = (threads s)(t := Idle)" "open_failures s' = open_failures s + 1"
    by (simp_all add: s'_def)
  have "held s' = held s"
    using held_others_idle [of s t] assms(2) held_goto [of s t Idle p] by (simp add: s'_def)
  moreover have "exclusive (threads s')"
    using assms(1) unfolding s' by (intro exclusive_drop) (simp_all add: pool_ok_def)
  moreover have "pool_wf (open_failures s') (sys_pool s')"
    using conjunct1 [OF assms(1) [unfolded pool_ok_def]] by (simp add: pool_wf_def s' p)
  ultimately have "pool_ok s'" using assms(1) by (simp add: pool_ok_def s' p)
  then show ?thesis by (simp add: s'_def)
qed

lemma hit_ok:
  assumes "pool_ok s" "threads s t = Idle" "pull_pooled now (sys_pool s) = (Some c, p)"
  shows "pool_ok (goto s t (Holding c) p)"
proof -
  have "pool_wf (open_failures s) (sys_pool s)" using assms(1) by (simp add: pool_ok_def)
  note h = pull_pooled_hit [OF this assms(3)]
  show ?thesis
    using h assms(1,2) by (intro pool_ok_take) (auto simp: pool_ok_def)
qed

lemma clear_ok:
  assumes "pool_ok s" "threads s t = Idle"
  shows "pool_ok (goto s t Idle (clear (sys_pool s)))"
proof (rule pool_ok_other [OF assms(1)])
  show "pool_wf (open_failures s) (clear (sys_pool s))"
    using assms(1) clear_wf by (simp add: pool_ok_def clear_def)
  show "dom (contexts (clear (sys_pool s))) = set (pool (clear (sys_pool s))) \<union> held s"
    "set (pool (clear (sys_pool s))) \<inter> held s = {}"
    using assms(1) by (auto simp: pool_ok_def clear_def clear_without_lock_eq)
qed (simp_all add: assms(2))

lemma pool_step_ok:
  assumes "pool_step s s'" "pool_ok s"
  shows "pool_ok s'"
  using assms
proof (induction rule: pool_step.induct)
  case (pull_miss s t now p)
  then have "p = (sys_pool s)\<lparr>last_pull_time := now\<rparr>" by (blast dest: pull_pooled_miss)
  with pull_miss show ?case by (intro pool_ok_other) (simp_all add: pool_ok_def)
next
  case (set_one s t n c cs p)
  with set_one_ok [OF set_one(3,2)] show ?case by (intro pool_ok_other) (auto simp: pool_ok_def)
next
  case (set_begin s t n)
  then show ?case by (intro pool_ok_other) (simp_all add: pool_ok_def)
next
  case (set_end s t n)
  then show ?case by (intro pool_ok_other) (simp_all add: pool_ok_def)
qed (erule hit_ok open_ok fail_ok use_ok release_ok clear_ok, assumption+)+

lemma pool_init_ok: "pool_ok pool_init"
  by (simp add: pool_ok_def pool_init_def new_pool_def pool_wf_def held_def exclusive_def)

lemma pool_reachable_ok: "pool_reachable s \<Longrightarrow> pool_ok s"
  unfolding pool_reachable_def
  by (induction rule: rtranclp_induct) (simp_all add: pool_init_ok pool_step_ok)

section \<open>Properties\<close>

text \<open>
  C26: Whatever the threads do, in every reachable state no two threads hold the same context, a held
  context is open and not in the pool, the contexts in the pool are different, open and clean (no
  error, no database), no open context is lost, and the counter is the number of open contexts plus
  the number of failed attempts to open one.
\<close>
theorem context_pool_exclusive:
  assumes "pool_reachable s"
  shows "(\<forall>t u c. threads s t = Holding c \<longrightarrow> threads s u = Holding c \<longrightarrow> t = u)
    \<and> (\<forall>t c. threads s t = Holding c \<longrightarrow> contexts (sys_pool s) c \<noteq> None \<and> c \<notin> set (pool (sys_pool s)))
    \<and> distinct (pool (sys_pool s))
    \<and> (\<forall>c \<in> set (pool (sys_pool s)). \<exists>x. contexts (sys_pool s) c = Some x \<and> clean x)
    \<and> dom (contexts (sys_pool s)) = set (pool (sys_pool s)) \<union> held s
    \<and> n_pooling_contexts (sys_pool s) = int (card (dom (contexts (sys_pool s))) + open_failures s)"
proof -
  have ok: "pool_ok s" by (rule pool_reachable_ok [OF assms])
  then have wf: "pool_wf (open_failures s) (sys_pool s)" by (simp add: pool_ok_def)
  have "contexts (sys_pool s) c \<noteq> None \<and> c \<notin> set (pool (sys_pool s))" if "threads s t = Holding c" for t c
  proof -
    have "c \<in> held s" using that unfolding held_def by blast
    then have "c \<in> dom (contexts (sys_pool s))" "c \<notin> set (pool (sys_pool s))"
      using ok by (auto simp: pool_ok_def)
    then show ?thesis by blast
  qed
  moreover have "exclusive (threads s)" using ok by (simp add: pool_ok_def)
  ultimately show ?thesis
    using ok wf unfolding exclusive_def pool_ok_def pool_wf_def by blast
qed

definition fresh_context :: grn_context where
  "fresh_context = \<lparr>ctx_rc = GRN_SUCCESS, ctx_errbuf = [], ctx_db = None, ctx_n_workers = 0\<rparr>"

text \<open>One thread pulls the first context.\<close>

definition one_opening :: pool_system where
  "one_opening = goto pool_init 0 Opening (sys_pool pool_init)"

definition one_holding :: pool_system where
  "one_holding = goto one_opening 0 (Holding 7) (snd (pull_open (Some (7, fresh_context)) (sys_pool one_opening)))"

definition one_released :: pool_system where
  "one_released = goto one_holding 0 Idle (release 7 (sys_pool one_holding))"

lemmas sample_system_defs = one_opening_def one_holding_def one_released_def pool_init_def new_pool_def
  pull_open_def pull_pooled_def release_def

lemma one_opening_reachable: "pool_reachable one_opening"
proof -
  have "pull_pooled 0 (sys_pool pool_init) = (None, sys_pool pool_init)"
    by (simp add: sample_system_defs)
  then have "pool_step pool_init one_opening"
    unfolding one_opening_def by (intro pull_miss) (simp_all add: pool_init_def)
  then show ?thesis by (simp add: pool_reachable_def)
qed

lemma one_holding_reachable: "pool_reachable one_holding"
proof -
  have "pool_step one_opening one_holding"
    unfolding one_holding_def by (rule pull_opened [where x = fresh_context]) (simp_all add: sample_system_defs)
  then show ?thesis using one_opening_reachable unfolding pool_reachable_def by simp
qed

lemma one_released_reachable: "pool_reachable one_released"
proof -
  have "pool_step one_holding one_released"
    unfolding one_released_def by (rule release_context) (simp add: sample_system_defs)
  then show ?thesis using one_holding_reachable unfolding pool_reachable_def by simp
qed

theorem context_pool_exclusive_witness:
  "distinct (pool (sys_pool one_released)) \<and> pool (sys_pool one_released) = [7]
   \<and> n_pooling_contexts (sys_pool one_released) = int (card (dom (contexts (sys_pool one_released))) + open_failures one_released)"
  using context_pool_exclusive [OF one_released_reachable] by (simp add: sample_system_defs)

text \<open>
  \<^verbatim>\<open>set_n_workers\<close> walks over the pool without the lock, so a context may be closed under it: a
  state is reachable in which a thread is about to set the number of workers of a closed context.
\<close>
theorem set_n_workers_race:
  "\<exists>s t n c cs. pool_reachable s \<and> threads s t = Setting n (c # cs) \<and> set_n_workers_one n c (sys_pool s) = None"
proof -
  define s1 where "s1 = goto one_released 1 (Setting 4 (pool (sys_pool one_released))) (sys_pool one_released)"
  define s2 where "s2 = goto s1 0 Idle (clear (sys_pool s1))"
  have "pool_step one_released s1"
    unfolding s1_def by (rule set_begin) (simp add: sample_system_defs)
  moreover have "pool_step s1 s2"
    unfolding s2_def by (rule clear_pool) (simp add: s1_def sample_system_defs)
  ultimately have "pool_reachable s2"
    using one_released_reachable unfolding pool_reachable_def by simp
  moreover have "threads s2 1 = Setting 4 (7 # [])"
    by (simp add: s2_def s1_def sample_system_defs)
  moreover have "set_n_workers_one 4 7 (sys_pool s2) = None"
    by (simp add: s2_def s1_def sample_system_defs set_n_workers_one_def clear_def clear_without_lock_eq)
  ultimately show ?thesis by blast
qed

end
