(* ===== verification/Operations.thy ===== *)
theory Operations
  imports Path_Mapper
begin

text \<open>
  The journal of running operations (\<^verbatim>\<open>lib/mrn_operations.cpp\<close>, \<^verbatim>\<open>lib/mrn_operation.cpp\<close>): the table
  \<^verbatim>\<open>mroonga_operations\<close> has a record for each write, update and delete that has begun and not
  finished. After a crash, opening a table repairs it: the records that an unfinished write or delete
  named are deleted. The results of Groonga's calls are parameters.
\<close>

section \<open>The journal\<close>

type_synonym grn_id = nat

definition GRN_ID_NIL :: grn_id where "GRN_ID_NIL = 0"

definition HA_ERR_CRASHED_ON_USAGE :: int where "HA_ERR_CRASHED_ON_USAGE = 145"

text \<open>A record of the journal: the columns \<^verbatim>\<open>type\<close>, \<^verbatim>\<open>table\<close> and \<^verbatim>\<open>record\<close>.\<close>

record operation =
  op_type :: string
  op_table :: string
  op_record :: grn_id

text \<open>The journal with its records in the order of a cursor, and the locks of its table and columns.\<close>

record operations =
  op_rows :: "(grn_id \<times> operation) list"
  table_locked :: bool
  type_locked :: bool
  table_column_locked :: bool
  record_locked :: bool
  is_enabled_recording :: bool

definition is_locked :: "operations \<Rightarrow> bool" where
  "is_locked ops =
     (if table_locked ops then True
      else if type_locked ops then True
      else if table_column_locked ops then True
      else if record_locked ops then True
      else False)"

text \<open>The three writes of \<^verbatim>\<open>start\<close>, between which the server can crash. \<open>new_id\<close> is what \<^verbatim>\<open>grn_table_add\<close> returns; the columns of a
  new record are empty and it has no target yet.\<close>

definition set_operation :: "grn_id \<Rightarrow> (operation \<Rightarrow> operation) \<Rightarrow> operations \<Rightarrow> operations" where
  "set_operation op_id f ops =
     (if \<not> is_enabled_recording ops then ops
      else ops\<lparr>op_rows := map (\<lambda>(i, x). (i, if i = op_id then f x else x)) (op_rows ops)\<rparr>)"

definition start_add :: "grn_id \<Rightarrow> operations \<Rightarrow> grn_id \<times> operations" where
  "start_add new_id ops =
     (if \<not> is_enabled_recording ops then (GRN_ID_NIL, ops)
      else if new_id = GRN_ID_NIL then (GRN_ID_NIL, ops)
      else (new_id, ops\<lparr>op_rows := op_rows ops @ [(new_id, \<lparr>op_type = [], op_table = [], op_record = GRN_ID_NIL\<rparr>)]\<rparr>))"

definition start_type :: "grn_id \<Rightarrow> string \<Rightarrow> operations \<Rightarrow> operations" where
  "start_type op_id type = set_operation op_id (\<lambda>x. x\<lparr>op_type := type\<rparr>)"

definition start_table :: "grn_id \<Rightarrow> string \<Rightarrow> operations \<Rightarrow> operations" where
  "start_table op_id tname = set_operation op_id (\<lambda>x. x\<lparr>op_table := tname\<rparr>)"

definition start :: "grn_id \<Rightarrow> string \<Rightarrow> string \<Rightarrow> operations \<Rightarrow> grn_id \<times> operations" where
  "start new_id type tname ops =
     (case start_add new_id ops of (op_id, ops1) \<Rightarrow> (op_id, start_table op_id tname (start_type op_id type ops1)))"

definition record_target :: "grn_id \<Rightarrow> grn_id \<Rightarrow> operations \<Rightarrow> operations" where
  "record_target op_id record_id = set_operation op_id (\<lambda>x. x\<lparr>op_record := record_id\<rparr>)"

definition delete_row :: "grn_id \<Rightarrow> (grn_id \<times> operation) list \<Rightarrow> (grn_id \<times> operation) list" where
  "delete_row op_id rows = filter (\<lambda>(i, x). i \<noteq> op_id) rows"

definition finish :: "grn_id \<Rightarrow> operations \<Rightarrow> operations" where
  "finish op_id ops =
     (if \<not> is_enabled_recording ops then ops else ops\<lparr>op_rows := delete_row op_id (op_rows ops)\<rparr>)"

definition enable_recording :: "operations \<Rightarrow> operations" where
  "enable_recording ops = ops\<lparr>is_enabled_recording := True\<rparr>"

definition disable_recording :: "operations \<Rightarrow> operations" where
  "disable_recording ops = ops\<lparr>is_enabled_recording := False\<rparr>"

text \<open>The names of the tables with unfinished operations, each once; no name if the cursor cannot be
  opened.\<close>

definition hash_add_name :: "string \<Rightarrow> string list \<Rightarrow> string list" where
  "hash_add_name n names = (if n \<in> set names then names else names @ [n])"

definition collect_processing_table_names :: "bool \<Rightarrow> operations \<Rightarrow> string list" where
  "collect_processing_table_names cursor ops =
     (if \<not> cursor then []
      else fold (\<lambda>(i, x) names. if length (op_table x) > 0 then hash_add_name (op_table x) names else names)
        (op_rows ops) [])"

section \<open>Repair\<close>

text \<open>Groonga as repair sees it: whether the cursor opens, and the results of deleting a record of the
  journal and of the target table (0 is success).\<close>

record repair_env =
  cursor_opens :: bool
  delete_op_rc :: "grn_id \<Rightarrow> int"
  delete_record_rc :: "grn_id \<Rightarrow> int"

text \<open>
  The loop of \<^verbatim>\<open>repair\<close> over the records under the cursor: the result, the journal and the ids of the
  records in the target table, which is \<^const>\<open>None\<close> when the table does not exist. A failure to delete an
  operation without a record leaves the loop with \<^verbatim>\<open>error\<close> still 0.
\<close>

fun repair_loop ::
    "repair_env \<Rightarrow> string \<Rightarrow> (grn_id \<times> operation) list \<Rightarrow> (grn_id \<times> operation) list \<Rightarrow> grn_id set option
     \<Rightarrow> int \<times> (grn_id \<times> operation) list \<times> grn_id set option" where
  "repair_loop env tname [] rows target = (0, rows, target)"
| "repair_loop env tname ((op_id, x) # cursor) rows target =
     (if op_table x \<noteq> tname then repair_loop env tname cursor rows target
      else case target of
        None \<Rightarrow>
          if delete_op_rc env op_id \<noteq> 0 then (0, rows, target)
          else repair_loop env tname cursor (delete_row op_id rows) target
      | Some records \<Rightarrow>
          if op_record x = GRN_ID_NIL then
            (if delete_op_rc env op_id \<noteq> 0 then (0, rows, target)
             else repair_loop env tname cursor (delete_row op_id rows) target)
          else if c_str (op_type x) = ''write'' \<or> c_str (op_type x) = ''delete'' then
            (if delete_record_rc env (op_record x) \<noteq> 0 then (HA_ERR_CRASHED_ON_USAGE, rows, target)
             else if delete_op_rc env op_id \<noteq> 0
               then (HA_ERR_CRASHED_ON_USAGE, rows, Some (records - {op_record x}))
             else repair_loop env tname cursor (delete_row op_id rows) (Some (records - {op_record x})))
          else if c_str (op_type x) = ''update'' then (HA_ERR_CRASHED_ON_USAGE, rows, target)
          else (HA_ERR_CRASHED_ON_USAGE, rows, target))"

definition repair :: "repair_env \<Rightarrow> string \<Rightarrow> operations \<Rightarrow> grn_id set option \<Rightarrow> int \<times> operations \<times> grn_id set option" where
  "repair env tname ops target =
     (if \<not> cursor_opens env then (HA_ERR_CRASHED_ON_USAGE, ops, target)
      else case repair_loop env tname (op_rows ops) (op_rows ops) target of
        (err, rows, target') \<Rightarrow> (err, ops\<lparr>op_rows := rows\<rparr>, target'))"

fun clear_loop ::
    "repair_env \<Rightarrow> string \<Rightarrow> (grn_id \<times> operation) list \<Rightarrow> (grn_id \<times> operation) list
     \<Rightarrow> int \<times> (grn_id \<times> operation) list" where
  "clear_loop env tname [] rows = (0, rows)"
| "clear_loop env tname ((op_id, x) # cursor) rows =
     (if op_table x = tname then
        (if delete_op_rc env op_id \<noteq> 0 then (HA_ERR_CRASHED_ON_USAGE, rows)
         else clear_loop env tname cursor (delete_row op_id rows))
      else clear_loop env tname cursor rows)"

definition clear_operations :: "repair_env \<Rightarrow> string \<Rightarrow> operations \<Rightarrow> int \<times> operations" where
  "clear_operations env tname ops =
     (if \<not> cursor_opens env then (HA_ERR_CRASHED_ON_USAGE, ops)
      else case clear_loop env tname (op_rows ops) (op_rows ops) of
        (err, rows) \<Rightarrow> (err, ops\<lparr>op_rows := rows\<rparr>))"

section \<open>The journal of a table\<close>

text \<open>The unfinished operations of a table, and the records they name.\<close>

definition rows_of :: "string \<Rightarrow> (grn_id \<times> operation) list \<Rightarrow> (grn_id \<times> operation) list" where
  "rows_of tname rows = filter (\<lambda>(i, x). op_table x = tname) rows"

definition others :: "string \<Rightarrow> (grn_id \<times> operation) list \<Rightarrow> (grn_id \<times> operation) list" where
  "others tname rows = filter (\<lambda>(i, x). op_table x \<noteq> tname) rows"

definition targets :: "string \<Rightarrow> (grn_id \<times> operation) list \<Rightarrow> grn_id set" where
  "targets tname rows = {op_record x | i x. (i, x) \<in> set rows \<and> op_table x = tname \<and> op_record x \<noteq> GRN_ID_NIL}"

text \<open>An operation that repair can undo.\<close>

definition repairable :: "operation \<Rightarrow> bool" where
  "repairable x \<longleftrightarrow> op_record x = GRN_ID_NIL \<or> c_str (op_type x) = ''write'' \<or> c_str (op_type x) = ''delete''"

lemma targets_Nil [simp]: "targets tname [] = {}"
  by (simp add: targets_def)

lemma targets_Cons [simp]:
  "targets tname ((i, x) # rows) =
     (if op_table x = tname \<and> op_record x \<noteq> GRN_ID_NIL then {op_record x} else {}) \<union> targets tname rows"
  by (auto simp: targets_def)

lemma delete_row_append [simp]: "delete_row i (xs @ ys) = delete_row i xs @ delete_row i ys"
  by (simp add: delete_row_def)

lemma delete_row_fresh: "i \<notin> fst ` set rows \<Longrightarrow> delete_row i rows = rows"
  by (force simp: delete_row_def intro!: filter_True)

lemma delete_row_Cons [simp]: "delete_row i ((j, x) # rows) = (if i = j then delete_row i rows else (j, x) # delete_row i rows)"
  by (simp add: delete_row_def)

lemma rows_of_simps [simp]:
  "others tname [] = []"
  "others tname ((i, x) # rows) = (if op_table x = tname then others tname rows else (i, x) # others tname rows)"
  by (simp_all add: others_def)

text \<open>The loop with every deletion successful: \<open>front\<close> is the part of the journal behind the cursor.\<close>

lemma repair_loop_all:
  assumes "\<And>i. delete_op_rc env i = 0" "\<And>r. r \<in> targets tname cursor \<Longrightarrow> delete_record_rc env r = 0"
    and "\<forall>(i, x) \<in> set cursor. op_table x = tname \<longrightarrow> repairable x"
    and "distinct (map fst (front @ cursor))"
  shows "repair_loop env tname cursor (front @ cursor) (Some records)
    = (0, front @ others tname cursor, Some (records - targets tname cursor))"
  using assms(2-)
proof (induction cursor arbitrary: front records)
  case (Cons a cursor)
  obtain i x where a: "a = (i, x)" by (cases a)
  have fresh: "delete_row i front = front" "delete_row i cursor = cursor"
    using Cons.prems(3) by (auto simp: a intro!: delete_row_fresh)
  have rc: "\<And>r. r \<in> targets tname cursor \<Longrightarrow> delete_record_rc env r = 0"
    using Cons.prems(1) by (simp add: a)
  have rep: "\<forall>(i, x) \<in> set cursor. op_table x = tname \<longrightarrow> repairable x" using Cons.prems(2) by simp
  show ?case
  proof (cases "op_table x = tname")
    case False
    then show ?thesis
      using Cons.IH [of "front @ [(i, x)]" records] rc rep Cons.prems(3) by (simp add: a)
  next
    case True
    then have x: "repairable x" using Cons.prems(2) by (auto simp: a)
    have d: "distinct (map fst (front @ cursor))" using Cons.prems(3) by (simp add: a)
    note ih = Cons.IH [OF rc rep d]
    show ?thesis
    proof (cases "op_record x = GRN_ID_NIL")
      case nil: True
      then show ?thesis using True ih [of records] fresh assms(1) by (simp add: a)
    next
      case some: False
      then have "delete_record_rc env (op_record x) = 0" using Cons.prems(1) True by (simp add: a)
      then show ?thesis
        using True some x ih [of "records - {op_record x}"] fresh assms(1)
        by (simp add: a repairable_def Diff_insert2 [symmetric])
    qed
  qed
qed simp

lemma clear_loop_all:
  assumes "\<And>i. delete_op_rc env i = 0" "distinct (map fst (front @ cursor))"
  shows "clear_loop env tname cursor (front @ cursor) = (0, front @ others tname cursor)"
  using assms(2)
proof (induction cursor arbitrary: front)
  case (Cons a cursor)
  obtain i x where a: "a = (i, x)" by (cases a)
  have fresh: "delete_row i front = front" "delete_row i cursor = cursor"
    using Cons.prems by (auto simp: a intro!: delete_row_fresh)
  show ?case
  proof (cases "op_table x = tname")
    case True
    then show ?thesis using Cons.IH [of front] Cons.prems fresh assms(1) by (simp add: a)
  next
    case False
    then show ?thesis using Cons.IH [of "front @ [(i, x)]"] Cons.prems by (simp add: a)
  qed
qed simp

text \<open>The end of \<^verbatim>\<open>storage_open\<close>: auto repair. \<open>names\<close> are the names of broken tables that the database
  collected when it was opened; \<open>reindex_error\<close> is the result of \<^verbatim>\<open>storage_reindex\<close>. The first result is
  what \<^verbatim>\<open>storage_open\<close> returns: the error of the repair is only logged.\<close>

record auto_repair =
  ar_names :: "string list"
  ar_operations :: operations
  ar_target :: "grn_id set option"
  ar_logged_error :: int

definition storage_open_repair ::
    "repair_env \<Rightarrow> string \<Rightarrow> string option \<Rightarrow> string option \<Rightarrow> bool \<Rightarrow> bool \<Rightarrow> int \<Rightarrow> auto_repair \<Rightarrow> int \<times> auto_repair" where
  "storage_open_repair env path pre home open_for_repair disable_keys reindex_error ar =
     (if open_for_repair then (0, ar)
      else let tname = fst (table_name (PathMapper path pre home)) in
        if tname \<notin> set (ar_names ar) then (0, ar)
        else case repair env tname (ar_operations ar) (ar_target ar) of
          (err, ops, target) \<Rightarrow>
            (0, ar\<lparr>ar_operations := ops, ar_target := target,
                  ar_names := (if err = 0 then filter (\<lambda>n. n \<noteq> tname) (ar_names ar) else ar_names ar),
                  ar_logged_error := (if \<not> disable_keys \<and> err = 0 then reindex_error else err)\<rparr>))"

lemma collect_names_fold:
  "set (fold (\<lambda>(i, x) names. if length (op_table x) > 0 then hash_add_name (op_table x) names else names) rows names)
   = set names \<union> {n. n \<noteq> [] \<and> n \<in> op_table ` snd ` set rows}"
proof (induction rows arbitrary: names)
  case (Cons a rows)
  obtain i x where a: "a = (i, x)" by (cases a)
  show ?case
  proof (cases "op_table x = []")
    case True
    then show ?thesis using Cons.IH [of names] by (auto simp: a)
  next
    case False
    then have "set (hash_add_name (op_table x) names) = insert (op_table x) (set names)"
      by (auto simp: hash_add_name_def)
    then show ?thesis using Cons.IH [of "hash_add_name (op_table x) names"] False by (auto simp: a)
  qed
qed simp

lemma collect_names:
  "set (collect_processing_table_names True ops) = {n. n \<noteq> [] \<and> n \<in> op_table ` snd ` set (op_rows ops)}"
  unfolding collect_processing_table_names_def using collect_names_fold [of "op_rows ops" "[]"] by simp

section \<open>Properties\<close>

text \<open>When every deletion succeeds and the unfinished operations of the table are writes and deletes or
  have no target, repair succeeds, removes from the table exactly the records that these operations
  name, removes these operations from the journal and keeps the operations of other tables in order.
\<close>
lemma repair_completes:
  assumes "cursor_opens env" and "\<And>i. delete_op_rc env i = 0"
    and "\<And>r. r \<in> targets tname (op_rows ops) \<Longrightarrow> delete_record_rc env r = 0"
    and "\<forall>(i, x) \<in> set (op_rows ops). op_table x = tname \<longrightarrow> repairable x"
    and "distinct (map fst (op_rows ops))"
  shows "repair env tname ops (Some records)
    = (0, ops\<lparr>op_rows := others tname (op_rows ops)\<rparr>, Some (records - targets tname (op_rows ops)))"
  using repair_loop_all [OF assms(2,3,4), where front = "[]"] assms(1,5) by (simp add: repair_def)

text \<open>An operation that a crash left without the name of its table is not an operation of any table: no repair removes it.\<close>

lemma nameless_operation_stays:
  assumes "cursor_opens env" and "\<And>i. delete_op_rc env i = 0"
    and "\<And>r. r \<in> targets tname (op_rows ops) \<Longrightarrow> delete_record_rc env r = 0"
    and "\<forall>(i, x) \<in> set (op_rows ops). op_table x = tname \<longrightarrow> repairable x" and "distinct (map fst (op_rows ops))"
    and "(i, x) \<in> set (op_rows ops)" "op_table x = []" "tname \<noteq> []"
  shows "(i, x) \<in> set (op_rows (fst (snd (repair env tname ops (Some records)))))"
  using repair_completes [OF assms(1-5)] assms(6-8) by (auto simp: others_def)

definition sample_operations :: operations where
  "sample_operations = \<lparr>op_rows =
     [(1, \<lparr>op_type = ''write'', op_table = ''items'', op_record = 5\<rparr>),
      (2, \<lparr>op_type = ''update'', op_table = ''users'', op_record = 9\<rparr>),
      (3, \<lparr>op_type = ''update'', op_table = ''items'', op_record = 0\<rparr>)],
     table_locked = False, type_locked = False, table_column_locked = False, record_locked = False,
     is_enabled_recording = True\<rparr>"

definition healthy_env :: repair_env where
  "healthy_env = \<lparr>cursor_opens = True, delete_op_rc = (\<lambda>_. 0), delete_record_rc = (\<lambda>_. 0)\<rparr>"

lemma repair_completes_witness:
  "repair healthy_env ''items'' sample_operations (Some {4, 5, 6})
   = (0, sample_operations\<lparr>op_rows := [(2, \<lparr>op_type = ''update'', op_table = ''users'', op_record = 9\<rparr>)]\<rparr>, Some {4, 6})"
proof -
  have "repair healthy_env ''items'' sample_operations (Some {4, 5, 6})
    = (0, sample_operations\<lparr>op_rows := others ''items'' (op_rows sample_operations)\<rparr>,
       Some ({4, 5, 6} - targets ''items'' (op_rows sample_operations)))"
    by (rule repair_completes)
      (simp_all add: healthy_env_def sample_operations_def repairable_def c_str_def GRN_ID_NIL_def)
  then show ?thesis by (simp add: sample_operations_def GRN_ID_NIL_def) auto
qed

text \<open>
  The operations of a table are recorded under its SQL name, but looked up under its Groonga name.
  For a table whose name begins with an underscore these differ, so opening the table after a crash
  leaves the unfinished operations and the incomplete records as they are.
\<close>
theorem underscore_table_not_repaired:
  assumes "\<forall>(i, x) \<in> set (op_rows (ar_operations ar)). op_table x = CHR ''_'' # t"
    and "ar_names ar = collect_processing_table_names True (ar_operations ar)"
    and "FN_LIBCHAR \<notin> set t"
  shows "storage_open_repair env (''./'' @ db @ ''/'' @ CHR ''_'' # t) pre home open_for_repair disable_keys err ar = (0, ar)"
proof -
  let ?path = "''./'' @ db @ ''/'' @ CHR ''_'' # t"
  have "base_name ?path = CHR ''_'' # t"
    using base_name_relative [of "CHR ''_'' # t" db] assms(3) by simp
  then have "fst (table_name (PathMapper ?path pre home)) = ''@005f'' @ t"
    by (simp add: table_name_def compute_table_name_def encode_first_underscore_def PathMapper_def Let_def)
  moreover have "''@005f'' @ t \<notin> set (ar_names ar)"
    using assms(1,2) by (auto simp: collect_names)
  ultimately show ?thesis by (simp add: storage_open_repair_def)
qed

theorem underscore_table_not_repaired_witness:
  "storage_open_repair healthy_env ''./shop/_items'' None None False False 0
     \<lparr>ar_names = [''_items''], ar_operations = sample_operations\<lparr>op_rows :=
        [(1, \<lparr>op_type = ''write'', op_table = ''_items'', op_record = 5\<rparr>)]\<rparr>, ar_target = Some {5}, ar_logged_error = 0\<rparr>
   = (0, \<lparr>ar_names = [''_items''], ar_operations = sample_operations\<lparr>op_rows :=
        [(1, \<lparr>op_type = ''write'', op_table = ''_items'', op_record = 5\<rparr>)]\<rparr>, ar_target = Some {5}, ar_logged_error = 0\<rparr>)"
  using underscore_table_not_repaired [of "\<lparr>ar_names = [''_items''], ar_operations = sample_operations\<lparr>op_rows :=
        [(1, \<lparr>op_type = ''write'', op_table = ''_items'', op_record = 5\<rparr>)]\<rparr>, ar_target = Some {5}, ar_logged_error = 0\<rparr>"
      "''items''" healthy_env "''shop''"]
  by (simp add: sample_operations_def collect_processing_table_names_def hash_add_name_def)

end
