(* ===== verification/Storage_Rows.thy ===== *)
theory Storage_Rows
  imports Operations
begin

text \<open>
  Writing, updating and deleting rows in storage mode (\<^verbatim>\<open>storage_write_row\<close>, \<^verbatim>\<open>storage_update_row\<close>,
  \<^verbatim>\<open>storage_delete_row\<close> and the functions for unique indexes of \<^verbatim>\<open>ha_mroonga.cpp\<close>). A statement is the
  list of its effects on the database in the order in which the code performs them, so that a crash
  is a prefix of the list. The error results of MySQL and Groonga calls are parameters.
\<close>

section \<open>The database\<close>

text \<open>The values of the columns of a row, as \<^verbatim>\<open>generic_store_bulk\<close> writes them; an empty value is not
  stored.\<close>

type_synonym row = "nat \<Rightarrow> byte list"

text \<open>A key: \<^verbatim>\<open>HA_NOSAME\<close>, whether its index table and index column exist, its columns, whether it has
  more than one column, and the key of a row.\<close>

record key_def =
  kd_unique :: bool
  kd_table :: bool
  kd_column :: bool
  kd_multiple :: bool
  kd_fulltext :: bool
  kd_columns :: "nat set"
  kd_key :: "row \<Rightarrow> byte list"

record table_def =
  td_name :: string
  td_columns :: nat
  td_keys :: "key_def list"
  td_primary :: "nat option"
  td_no_key :: bool

text \<open>The records with their columns, the keys of the table and of the unique indexes, the postings of
  multiple column indexes, and the journal with the current operation.\<close>

record disk =
  d_rows :: "grn_id \<rightharpoonup> row"
  d_pkeys :: "byte list \<rightharpoonup> grn_id"
  d_keys :: "nat \<Rightarrow> byte list \<rightharpoonup> grn_id"
  d_postings :: "nat \<Rightarrow> (byte list \<times> grn_id) set"
  d_journal :: operations
  d_operation :: grn_id

datatype effect =
    AddKey nat "byte list" grn_id
  | DeleteKey nat grn_id
  | AddRecord "byte list" grn_id
  | SetColumn grn_id nat "byte list"
  | UpdateIndex nat grn_id "byte list option" "byte list option"
  | DeleteRecord grn_id
  | JournalAdd grn_id
  | JournalType string
  | JournalTable string
  | JournalTarget grn_id
  | JournalFinish

text \<open>\<^verbatim>\<open>grn_table_delete_by_id\<close> on an index table.\<close>

definition remove_id :: "grn_id \<Rightarrow> (byte list \<rightharpoonup> grn_id) \<Rightarrow> byte list \<rightharpoonup> grn_id" where
  "remove_id i m = (\<lambda>k. if m k = Some i then None else m k)"

definition set_column :: "nat \<Rightarrow> byte list \<Rightarrow> row \<Rightarrow> row" where
  "set_column c v r = r(c := v)"

primrec apply_effect :: "effect \<Rightarrow> disk \<Rightarrow> disk" where
  "apply_effect (AddKey i k new) d = d\<lparr>d_keys := (d_keys d)(i := (d_keys d i)(k \<mapsto> new))\<rparr>"
| "apply_effect (DeleteKey i old) d = d\<lparr>d_keys := (d_keys d)(i := remove_id old (d_keys d i))\<rparr>"
| "apply_effect (AddRecord k r) d = d\<lparr>d_rows := (d_rows d)(r \<mapsto> (\<lambda>_. [])), d_pkeys := (if k = [] then d_pkeys d else (d_pkeys d)(k \<mapsto> r))\<rparr>"
| "apply_effect (SetColumn r c v) d = d\<lparr>d_rows := (d_rows d)(r := map_option (set_column c v) (d_rows d r))\<rparr>"
| "apply_effect (UpdateIndex i r old new) d = d\<lparr>d_postings := (d_postings d)(i :=
     (d_postings d i - (case old of None \<Rightarrow> {} | Some k \<Rightarrow> {(k, r)})) \<union> (case new of None \<Rightarrow> {} | Some k \<Rightarrow> {(k, r)}))\<rparr>"
| "apply_effect (DeleteRecord r) d = d\<lparr>d_rows := (d_rows d)(r := None), d_pkeys := remove_id r (d_pkeys d)\<rparr>"
| "apply_effect (JournalAdd new) d = (let (op, ops) = start_add new (d_journal d) in d\<lparr>d_journal := ops, d_operation := op\<rparr>)"
| "apply_effect (JournalType type) d = d\<lparr>d_journal := start_type (d_operation d) type (d_journal d)\<rparr>"
| "apply_effect (JournalTable tname) d = d\<lparr>d_journal := start_table (d_operation d) tname (d_journal d)\<rparr>"
| "apply_effect (JournalTarget r) d = d\<lparr>d_journal := record_target (d_operation d) r (d_journal d)\<rparr>"
| "apply_effect JournalFinish d = d\<lparr>d_journal := finish (d_operation d) (d_journal d)\<rparr>"

definition apply_effects :: "effect list \<Rightarrow> disk \<Rightarrow> disk" where
  "apply_effects es d = fold apply_effect es d"

section \<open>Statements\<close>

text \<open>What MySQL and Groonga calls return: 0 or \<^const>\<open>False\<close> is success.\<close>

datatype column_fault = NoFault | EncodingFault int | BulkFault int | NoReferencedRow | SetFault

record faults =
  dry_write :: bool
  auto_increment_error :: int
  strict_id_column :: bool
  key_encoding_error :: "nat \<Rightarrow> int"
  key_add_fails :: "nat \<Rightarrow> bool"
  pkey_encoding_error :: int
  record_add_fails :: bool
  column_faults :: "nat \<Rightarrow> column_fault"
  index_update_fails :: "nat \<Rightarrow> bool"
  no_slot_data :: bool
  key_delete_fails :: "nat \<Rightarrow> bool"
  record_delete_fails :: bool
  referenced_by_child :: bool
  fresh_key :: "nat \<Rightarrow> grn_id"
  fresh_record :: grn_id
  fresh_operation :: grn_id

text \<open>The members of the handler that the functions share.\<close>

record row_handler =
  key_id :: "nat \<Rightarrow> grn_id"
  del_key_id :: "nat \<Rightarrow> grn_id"
  dup_key :: "nat option"
  record_id :: grn_id
  last_insert_record_id :: grn_id

definition ER_ERROR_ON_WRITE :: int where "ER_ERROR_ON_WRITE = 1026"
definition ER_DATA_TOO_LONG :: int where "ER_DATA_TOO_LONG = 1406"
definition HA_ERR_FOUND_DUPP_KEY :: int where "HA_ERR_FOUND_DUPP_KEY = 121"
definition HA_ERR_OUT_OF_MEM :: int where "HA_ERR_OUT_OF_MEM = 128"
definition HA_ERR_NO_REFERENCED_ROW :: int where "HA_ERR_NO_REFERENCED_ROW = 151"
definition HA_ERR_ROW_IS_REFERENCED :: int where "HA_ERR_ROW_IS_REFERENCED = 152"

lemmas error_codes = ER_ERROR_ON_WRITE_def ER_DATA_TOO_LONG_def HA_ERR_FOUND_DUPP_KEY_def
  HA_ERR_OUT_OF_MEM_def HA_ERR_NO_REFERENCED_ROW_def HA_ERR_ROW_IS_REFERENCED_def

abbreviation the_key :: "table_def \<Rightarrow> nat \<Rightarrow> key_def" where
  "the_key td i \<equiv> td_keys td ! i"

definition unique_key :: "table_def \<Rightarrow> nat \<Rightarrow> bool" where
  "unique_key td i \<longleftrightarrow> td_primary td \<noteq> Some i \<and> kd_unique (the_key td i)"

type_synonym outcome = "int \<times> row_handler \<times> effect list"

text \<open>The decisions look at the database \<open>d\<close> as it was before the statement: no statement looks at a
  key that it has changed itself.\<close>

definition storage_write_row_unique_index ::
    "faults \<Rightarrow> table_def \<Rightarrow> disk \<Rightarrow> row \<Rightarrow> nat \<Rightarrow> row_handler \<Rightarrow> outcome" where
  "storage_write_row_unique_index flt td d row i h =
     (let ukey = kd_key (the_key td i) row in
      if \<not> kd_multiple (the_key td i) \<and> key_encoding_error flt i \<noteq> 0 then (key_encoding_error flt i, h, [])
      else if key_add_fails flt i then (ER_ERROR_ON_WRITE, h\<lparr>key_id := (key_id h)(i := GRN_ID_NIL)\<rparr>, [])
      else case d_keys d i ukey of
          Some existing \<Rightarrow> (HA_ERR_FOUND_DUPP_KEY, h\<lparr>key_id := (key_id h)(i := existing)\<rparr>, [])
        | None \<Rightarrow> (0, h\<lparr>key_id := (key_id h)(i := fresh_key flt i)\<rparr>, [AddKey i ukey (fresh_key flt i)]))"

text \<open>The deletion of the new keys of the indexes in the list.\<close>

definition delete_new_keys :: "table_def \<Rightarrow> row_handler \<Rightarrow> nat list \<Rightarrow> effect list" where
  "delete_new_keys td h is = map (\<lambda>i. DeleteKey i (key_id h i)) (filter (unique_key td) is)"

text \<open>The loop of \<^verbatim>\<open>storage_write_row_unique_indexes\<close> from the key with number \<open>i\<close> on, with its clean up.\<close>

function write_unique_loop ::
    "faults \<Rightarrow> table_def \<Rightarrow> disk \<Rightarrow> row \<Rightarrow> nat \<Rightarrow> row_handler \<Rightarrow> outcome" where
  "write_unique_loop flt td d row i h =
     (if \<not> i < length (td_keys td) then (0, h, [])
      else if \<not> unique_key td i \<or> \<not> kd_table (the_key td i) \<or> \<not> kd_column (the_key td i)
        then write_unique_loop flt td d row (i + 1) h
      else case storage_write_row_unique_index flt td d row i h of (err, h', es) \<Rightarrow>
        if err \<noteq> 0
        then (err, (if err = HA_ERR_FOUND_DUPP_KEY then h'\<lparr>dup_key := Some i\<rparr> else h'),
              es @ delete_new_keys td h' (rev [0..<i]))
        else case write_unique_loop flt td d row (i + 1) h' of (err', h'', es') \<Rightarrow> (err', h'', es @ es'))"
  by pat_completeness auto
termination by (relation "measure (\<lambda>(flt, td, d, row, i, h). length (td_keys td) - i)") auto

declare write_unique_loop.simps [simp del]

definition storage_write_row_unique_indexes :: "faults \<Rightarrow> table_def \<Rightarrow> disk \<Rightarrow> row \<Rightarrow> row_handler \<Rightarrow> outcome" where
  "storage_write_row_unique_indexes flt td d row h = write_unique_loop flt td d row 0 h"

text \<open>The loop over the columns of a new record. A failed value ends it.\<close>

fun write_columns :: "faults \<Rightarrow> grn_id \<Rightarrow> row \<Rightarrow> nat list \<Rightarrow> int \<times> effect list" where
  "write_columns flt r row [] = (0, [])"
| "write_columns flt r row (c # cs) =
     (case column_faults flt c of
        EncodingFault e \<Rightarrow> (e, [])
      | BulkFault e \<Rightarrow> (e, [])
      | _ \<Rightarrow>
        if row c = [] then write_columns flt r row cs
        else case column_faults flt c of
            NoReferencedRow \<Rightarrow> (HA_ERR_NO_REFERENCED_ROW, [])
          | SetFault \<Rightarrow> (ER_ERROR_ON_WRITE, [])
          | _ \<Rightarrow> (case write_columns flt r row cs of (e, es) \<Rightarrow> (e, SetColumn r c (row c) # es)))"

text \<open>The loop over the multiple column indexes; \<open>old\<close> and \<open>new\<close> are the rows whose keys are removed and
  added.\<close>

fun update_indexes :: "faults \<Rightarrow> table_def \<Rightarrow> grn_id \<Rightarrow> row option \<Rightarrow> row option \<Rightarrow> nat list \<Rightarrow> int \<times> effect list" where
  "update_indexes flt td r old new [] = (0, [])"
| "update_indexes flt td r old new (i # is) =
     (if td_primary td = Some i \<or> \<not> kd_multiple (the_key td i) \<or> kd_fulltext (the_key td i) \<or> \<not> kd_column (the_key td i)
      then update_indexes flt td r old new is
      else if index_update_fails flt i then (ER_ERROR_ON_WRITE, [])
      else case update_indexes flt td r old new is of (e, es) \<Rightarrow>
        (e, UpdateIndex i r (map_option (kd_key (the_key td i)) old) (map_option (kd_key (the_key td i)) new) # es))"

abbreviation all_keys :: "table_def \<Rightarrow> nat list" where
  "all_keys td \<equiv> [0..<length (td_keys td)]"

definition storage_write_row_multiple_column_indexes :: "faults \<Rightarrow> table_def \<Rightarrow> grn_id \<Rightarrow> row \<Rightarrow> int \<times> effect list" where
  [simp]: "storage_write_row_multiple_column_indexes flt td r row = update_indexes flt td r None (Some row) (all_keys td)"

definition storage_delete_row_index :: "faults \<Rightarrow> table_def \<Rightarrow> grn_id \<Rightarrow> row \<Rightarrow> int \<times> effect list" where
  [simp]: "storage_delete_row_index flt td r old = update_indexes flt td r (Some old) None (all_keys td)"

definition storage_update_row_index :: "faults \<Rightarrow> table_def \<Rightarrow> grn_id \<Rightarrow> row \<Rightarrow> row \<Rightarrow> int \<times> effect list" where
  [simp]: "storage_update_row_index flt td r old new = update_indexes flt td r (Some old) (Some new) (all_keys td)"

definition pkey_of :: "table_def \<Rightarrow> row \<Rightarrow> byte list" where
  "pkey_of td row = (case td_primary td of None \<Rightarrow> [] | Some p \<Rightarrow> kd_key (the_key td p) row)"

text \<open>Everything behind the new record: the columns, the indexes and the slot data; an error removes the
  new keys and the record again.\<close>

definition write_record :: "faults \<Rightarrow> table_def \<Rightarrow> row \<Rightarrow> grn_id \<Rightarrow> row_handler \<Rightarrow> outcome" where
  "write_record flt td row r h =
     (let undo = delete_new_keys td h (all_keys td) @ [DeleteRecord r] in
      case write_columns flt r row [0..<td_columns td] of (e, es) \<Rightarrow>
        if e \<noteq> 0 then (e, h, es @ undo)
        else case storage_write_row_multiple_column_indexes flt td r row of (e', es') \<Rightarrow>
          if e' \<noteq> 0 then (e', h, es @ es' @ undo)
          else if no_slot_data flt then (HA_ERR_OUT_OF_MEM, h, es @ es' @ undo)
          else (0, h\<lparr>last_insert_record_id := r\<rparr>, es @ es'))"

text \<open>The part of \<^verbatim>\<open>storage_write_row\<close> inside of the operation.\<close>

definition write_row_body :: "faults \<Rightarrow> table_def \<Rightarrow> disk \<Rightarrow> row \<Rightarrow> row_handler \<Rightarrow> outcome" where
  "write_row_body flt td d row h =
     (if auto_increment_error flt \<noteq> 0 then (auto_increment_error flt, h, [])
      else if strict_id_column flt then (ER_DATA_TOO_LONG, h, [])
      else case storage_write_row_unique_indexes flt td d row h of (e, h', ks) \<Rightarrow>
        if e \<noteq> 0 then (e, h', ks)
        else if td_primary td \<noteq> None \<and> \<not> kd_multiple (the_key td (the (td_primary td))) \<and> pkey_encoding_error flt \<noteq> 0
          then (pkey_encoding_error flt, h', ks)
        else let pkey = pkey_of td row in
        if \<not> td_no_key td \<and> pkey = [] then (ER_ERROR_ON_WRITE, h', ks)
        else if record_add_fails flt then (ER_ERROR_ON_WRITE, h'\<lparr>record_id := GRN_ID_NIL\<rparr>, ks)
        else case (if pkey = [] then None else d_pkeys d pkey) of
            Some existing \<Rightarrow>
              (HA_ERR_FOUND_DUPP_KEY, h'\<lparr>record_id := existing, dup_key := td_primary td\<rparr>,
               ks @ delete_new_keys td h' (all_keys td))
          | None \<Rightarrow>
              (case write_record flt td row (fresh_record flt) (h'\<lparr>record_id := fresh_record flt\<rparr>) of
                 (e', h'', es) \<Rightarrow>
                   (e', h'', ks @ [AddRecord pkey (fresh_record flt), JournalTarget (fresh_record flt)] @ es)))"

text \<open>The operation starts, with three writes, before and finishes behind the body, on every return.\<close>

definition start_effects :: "faults \<Rightarrow> string \<Rightarrow> string \<Rightarrow> effect list" where
  "start_effects flt type tname = [JournalAdd (fresh_operation flt), JournalType type, JournalTable tname]"

definition with_operation :: "faults \<Rightarrow> string \<Rightarrow> string \<Rightarrow> outcome \<Rightarrow> outcome" where
  "with_operation flt type tname out =
     (case out of (e, h, es) \<Rightarrow> (e, h, start_effects flt type tname @ es @ [JournalFinish]))"

definition storage_write_row :: "faults \<Rightarrow> table_def \<Rightarrow> disk \<Rightarrow> row \<Rightarrow> row_handler \<Rightarrow> outcome" where
  "storage_write_row flt td d row h =
     (if dry_write flt then (0, h, [])
      else with_operation flt ''write'' (td_name td) (write_row_body flt td d row h))"

section \<open>Deletes\<close>

text \<open>\<^verbatim>\<open>grn_table_get\<close> on an index table.\<close>

definition lookup_key :: "(byte list \<rightharpoonup> grn_id) \<Rightarrow> byte list \<Rightarrow> grn_id" where
  "lookup_key m k = (case m k of None \<Rightarrow> GRN_ID_NIL | Some i \<Rightarrow> i)"

text \<open>The ids of the old keys. A key of one column is read from the stored column, any other key is
  encoded from the old row, which was read from the record before.\<close>

definition storage_prepare_delete_row_unique_indexes :: "table_def \<Rightarrow> disk \<Rightarrow> row \<Rightarrow> row_handler \<Rightarrow> row_handler" where
  "storage_prepare_delete_row_unique_indexes td d old h =
     h\<lparr>del_key_id := (\<lambda>i. if i < length (td_keys td) \<and> unique_key td i
        then (if kd_table (the_key td i) then lookup_key (d_keys d i) (kd_key (the_key td i) old) else GRN_ID_NIL)
        else del_key_id h i)\<rparr>"

text \<open>The loop goes on behind a failure and returns the last error.\<close>

fun delete_unique_loop :: "faults \<Rightarrow> table_def \<Rightarrow> row_handler \<Rightarrow> nat list \<Rightarrow> int \<times> effect list" where
  "delete_unique_loop flt td h [] = (0, [])"
| "delete_unique_loop flt td h (i # is) =
     (if \<not> unique_key td i \<or> del_key_id h i = GRN_ID_NIL then delete_unique_loop flt td h is
      else case delete_unique_loop flt td h is of (e, es) \<Rightarrow>
        if key_delete_fails flt i then (if e \<noteq> 0 then e else ER_ERROR_ON_WRITE, es)
        else (e, DeleteKey i (del_key_id h i) # es))"

definition storage_delete_row_unique_indexes :: "faults \<Rightarrow> table_def \<Rightarrow> row_handler \<Rightarrow> int \<times> effect list" where
  "storage_delete_row_unique_indexes flt td h = delete_unique_loop flt td h (all_keys td)"

definition delete_row_body :: "faults \<Rightarrow> table_def \<Rightarrow> disk \<Rightarrow> row \<Rightarrow> row_handler \<Rightarrow> outcome" where
  "delete_row_body flt td d old h =
     (if referenced_by_child flt then (HA_ERR_ROW_IS_REFERENCED, h, [])
      else let h' = storage_prepare_delete_row_unique_indexes td d old h in
      if record_delete_fails flt then (ER_ERROR_ON_WRITE, h', [])
      else case storage_delete_row_index flt td (record_id h) old of (e, es) \<Rightarrow>
        if e \<noteq> 0 then (e, h', DeleteRecord (record_id h) # es)
        else case storage_delete_row_unique_indexes flt td h' of (e', ks) \<Rightarrow>
          (e', h', DeleteRecord (record_id h) # es @ ks))"

definition storage_delete_row :: "faults \<Rightarrow> table_def \<Rightarrow> disk \<Rightarrow> row \<Rightarrow> row_handler \<Rightarrow> outcome" where
  "storage_delete_row flt td d old h =
     (if dry_write flt then (0, h, [])
      else case delete_row_body flt td d old h of (e, h', es) \<Rightarrow>
        with_operation flt ''delete'' (td_name td) (e, h', JournalTarget (record_id h) # es))"

section \<open>Updates\<close>

text \<open>An update: the columns in the write set, the new values that are NULL, and whether it comes from
  \<^verbatim>\<open>ON DUPLICATE KEY UPDATE\<close>.\<close>

record row_update =
  write_set :: "nat set"
  nulls :: "nat set"
  foreign_missing :: "nat \<Rightarrow> bool"
  on_duplicate_key_update :: bool

function update_unique_loop ::
    "faults \<Rightarrow> table_def \<Rightarrow> disk \<Rightarrow> row_update \<Rightarrow> row \<Rightarrow> nat \<Rightarrow> row_handler \<Rightarrow> outcome" where
  "update_unique_loop flt td d u new i h =
     (if \<not> i < length (td_keys td) then (0, h, [])
      else if \<not> unique_key td i then update_unique_loop flt td d u new (i + 1) h
      else if \<not> kd_table (the_key td i) \<or> \<not> kd_column (the_key td i) \<or> kd_columns (the_key td i) \<inter> write_set u = {}
        then update_unique_loop flt td d u new (i + 1)
          (h\<lparr>key_id := (key_id h)(i := GRN_ID_NIL), del_key_id := (del_key_id h)(i := GRN_ID_NIL)\<rparr>)
      else case storage_write_row_unique_index flt td d new i h of (err, h', es) \<Rightarrow>
        if err = HA_ERR_FOUND_DUPP_KEY \<and> key_id h' i = del_key_id h' i
        then update_unique_loop flt td d u new (i + 1)
          (h'\<lparr>key_id := (key_id h')(i := GRN_ID_NIL), del_key_id := (del_key_id h')(i := GRN_ID_NIL)\<rparr>)
        else if err \<noteq> 0
        then (err, (if err = HA_ERR_FOUND_DUPP_KEY then h'\<lparr>dup_key := Some i\<rparr> else h'),
              map (\<lambda>j. DeleteKey j (key_id h' j))
                (filter (\<lambda>j. kd_unique (the_key td j) \<and> key_id h' j \<noteq> GRN_ID_NIL) (rev [0..<i])))
        else case update_unique_loop flt td d u new (i + 1) h' of (err', h'', es') \<Rightarrow> (err', h'', es @ es'))"
  by pat_completeness auto
termination by (relation "measure (\<lambda>(flt, td, d, u, new, i, h). length (td_keys td) - i)") auto

declare update_unique_loop.simps [simp del]

definition storage_update_row_unique_indexes ::
    "faults \<Rightarrow> table_def \<Rightarrow> disk \<Rightarrow> row_update \<Rightarrow> row \<Rightarrow> row_handler \<Rightarrow> outcome" where
  "storage_update_row_unique_indexes flt td d u new h = update_unique_loop flt td d u new 0 h"

definition pkey_columns :: "table_def \<Rightarrow> nat set" where
  "pkey_columns td = (case td_primary td of None \<Rightarrow> {} | Some p \<Rightarrow> kd_columns (the_key td p))"

text \<open>The first loop over the columns: the pseudo column \<^verbatim>\<open>_id\<close> in strict mode and missing referenced
  records.\<close>

definition check_update_columns :: "faults \<Rightarrow> table_def \<Rightarrow> row_update \<Rightarrow> int" where
  "check_update_columns flt td u =
     (if strict_id_column flt then ER_DATA_TOO_LONG
      else if list_ex (\<lambda>c. c \<in> write_set u \<and> c \<notin> nulls u \<and> foreign_missing u c) [0..<td_columns td]
        then HA_ERR_NO_REFERENCED_ROW
      else 0)"

text \<open>The second loop: the primary key must not change.\<close>

definition pkey_changed :: "table_def \<Rightarrow> row_update \<Rightarrow> row \<Rightarrow> row \<Rightarrow> bool" where
  "pkey_changed td u old new \<longleftrightarrow>
     list_ex (\<lambda>c. c \<in> write_set u \<and> c \<notin> nulls u \<and> c \<in> pkey_columns td \<and> new c \<noteq> old c) [0..<td_columns td]"

text \<open>The third loop: the new values. A NULL is skipped.\<close>

fun update_columns :: "faults \<Rightarrow> table_def \<Rightarrow> row_update \<Rightarrow> grn_id \<Rightarrow> row \<Rightarrow> nat list \<Rightarrow> int \<times> effect list" where
  "update_columns flt td u r new [] = (0, [])"
| "update_columns flt td u r new (c # cs) =
     (if c \<notin> write_set u \<or> c \<in> nulls u then update_columns flt td u r new cs
      else case column_faults flt c of
          EncodingFault e \<Rightarrow> (e, [])
        | flt_c \<Rightarrow>
          if c \<in> pkey_columns td \<and> \<not> on_duplicate_key_update u then update_columns flt td u r new cs
          else if flt_c = SetFault then (ER_ERROR_ON_WRITE, [])
          else case update_columns flt td u r new cs of (e, es) \<Rightarrow> (e, SetColumn r c (new c) # es))"

definition undo_update :: "table_def \<Rightarrow> row_handler \<Rightarrow> effect list" where
  "undo_update td h = map (\<lambda>j. DeleteKey j (key_id h j))
     (filter (\<lambda>j. unique_key td j \<and> key_id h j \<noteq> GRN_ID_NIL) (all_keys td))"

definition update_row_body :: "faults \<Rightarrow> table_def \<Rightarrow> disk \<Rightarrow> row_update \<Rightarrow> row \<Rightarrow> row \<Rightarrow> row_handler \<Rightarrow> outcome" where
  "update_row_body flt td d u old new h =
     (if check_update_columns flt td u \<noteq> 0 then (check_update_columns flt td u, h, [])
      else case storage_update_row_unique_indexes flt td d u new
             (storage_prepare_delete_row_unique_indexes td d old h) of (e, h', ks) \<Rightarrow>
        if e \<noteq> 0 then (e, h', ks)
        else if pkey_changed td u old new then (ER_ERROR_ON_WRITE, h', ks @ undo_update td h')
        else case update_columns flt td u (record_id h) new [0..<td_columns td] of (e2, cs) \<Rightarrow>
          if e2 \<noteq> 0 then (e2, h', ks @ cs @ undo_update td h')
          else case storage_update_row_index flt td (record_id h) old new of (e3, is) \<Rightarrow>
            if e3 \<noteq> 0 then (e3, h', ks @ cs @ is @ undo_update td h')
            else case storage_delete_row_unique_indexes flt td h' of (e4, ds) \<Rightarrow>
              (e4, h', ks @ cs @ is @ ds))"

definition storage_update_row :: "faults \<Rightarrow> table_def \<Rightarrow> disk \<Rightarrow> row_update \<Rightarrow> row \<Rightarrow> row \<Rightarrow> row_handler \<Rightarrow> outcome" where
  "storage_update_row flt td d u old new h =
     (if dry_write flt then (0, h, [])
      else case update_row_body flt td d u old new h of (e, h', es) \<Rightarrow>
        with_operation flt ''update'' (td_name td) (e, h', JournalTarget (record_id h) # es))"

end
