(* ===== verification/Storage_Consistency.thy ===== *)
theory Storage_Consistency
  imports Storage_Rows
begin

text \<open>
  What the row operations keep: the keys of every unique index are the keys of the stored rows, a
  failed statement leaves the rows and the keys as they were, and a crash in the middle of a write is
  undone by the repair.
\<close>

section \<open>Effects on one part of the database\<close>

fun key_step :: "nat \<Rightarrow> effect \<Rightarrow> (byte list \<rightharpoonup> grn_id) \<Rightarrow> (byte list \<rightharpoonup> grn_id)" where
  "key_step i (AddKey j k new) m = (if j = i then m(k \<mapsto> new) else m)"
| "key_step i (DeleteKey j old) m = (if j = i then remove_id old m else m)"
| "key_step i _ m = m"

fun row_step :: "effect \<Rightarrow> (grn_id \<rightharpoonup> row) \<Rightarrow> (grn_id \<rightharpoonup> row)" where
  "row_step (AddRecord k r) m = m(r \<mapsto> (\<lambda>_. []))"
| "row_step (SetColumn r c v) m = m(r := map_option (set_column c v) (m r))"
| "row_step (DeleteRecord r) m = m(r := None)"
| "row_step _ m = m"

fun pkey_step :: "effect \<Rightarrow> (byte list \<rightharpoonup> grn_id) \<Rightarrow> (byte list \<rightharpoonup> grn_id)" where
  "pkey_step (AddRecord k r) m = (if k = [] then m else m(k \<mapsto> r))"
| "pkey_step (DeleteRecord r) m = remove_id r m"
| "pkey_step _ m = m"

fun journal_effect :: "effect \<Rightarrow> bool" where
  "journal_effect (JournalAdd new) = True"
| "journal_effect (JournalType type) = True"
| "journal_effect (JournalTable tname) = True"
| "journal_effect (JournalTarget r) = True"
| "journal_effect JournalFinish = True"
| "journal_effect _ = False"

lemma apply_effects_simps [simp]:
  "apply_effects [] d = d"
  "apply_effects (e # es) d = apply_effects es (apply_effect e d)"
  "apply_effects (es @ fs) d = apply_effects fs (apply_effects es d)"
  by (simp_all add: apply_effects_def)

lemma apply_effect_parts:
  "d_keys (apply_effect e d) i = key_step i e (d_keys d i)"
  "d_rows (apply_effect e d) = row_step e (d_rows d)"
  "d_pkeys (apply_effect e d) = pkey_step e (d_pkeys d)"
  by (cases e; simp add: Let_def case_prod_unfold)+

lemma apply_effects_parts:
  "d_keys (apply_effects es d) i = fold (key_step i) es (d_keys d i)"
  "d_rows (apply_effects es d) = fold row_step es (d_rows d)"
  "d_pkeys (apply_effects es d) = fold pkey_step es (d_pkeys d)"
  by (induction es arbitrary: d) (simp_all add: apply_effect_parts)

lemma apply_effect_journal:
  "\<not> journal_effect e \<Longrightarrow> d_journal (apply_effect e d) = d_journal d \<and> d_operation (apply_effect e d) = d_operation d"
  by (cases e) simp_all

lemma apply_effects_journal:
  "\<forall>e \<in> set es. \<not> journal_effect e \<Longrightarrow>
     d_journal (apply_effects es d) = d_journal d \<and> d_operation (apply_effects es d) = d_operation d"
  by (induction es arbitrary: d) (simp_all add: apply_effect_journal)

text \<open>Lists of effects that leave a part alone.\<close>

definition keyless :: "effect list \<Rightarrow> bool" where
  "keyless es \<longleftrightarrow> (\<forall>e \<in> set es. case e of AddKey _ _ _ \<Rightarrow> False | DeleteKey _ _ \<Rightarrow> False | _ \<Rightarrow> True)"

definition rowless :: "effect list \<Rightarrow> bool" where
  "rowless es \<longleftrightarrow> (\<forall>e \<in> set es. case e of AddRecord _ _ \<Rightarrow> False | SetColumn _ _ _ \<Rightarrow> False | DeleteRecord _ \<Rightarrow> False | _ \<Rightarrow> True)"

definition quiet :: "effect list \<Rightarrow> bool" where
  "quiet es \<longleftrightarrow> (\<forall>e \<in> set es. \<not> journal_effect e)"

lemma keyless_simps [simp]:
  "keyless []" "keyless (es @ fs) = (keyless es \<and> keyless fs)"
  "keyless (e # es) = ((case e of AddKey _ _ _ \<Rightarrow> False | DeleteKey _ _ \<Rightarrow> False | _ \<Rightarrow> True) \<and> keyless es)"
  by (auto simp: keyless_def)

lemma rowless_simps [simp]:
  "rowless []" "rowless (es @ fs) = (rowless es \<and> rowless fs)"
  "rowless (e # es) = ((case e of AddRecord _ _ \<Rightarrow> False | SetColumn _ _ _ \<Rightarrow> False | DeleteRecord _ \<Rightarrow> False | _ \<Rightarrow> True) \<and> rowless es)"
  by (auto simp: rowless_def)

lemma quiet_simps [simp]:
  "quiet []" "quiet (es @ fs) = (quiet es \<and> quiet fs)" "quiet (e # es) = (\<not> journal_effect e \<and> quiet es)"
  by (auto simp: quiet_def)

lemma keyless_fold [simp]: "keyless es \<Longrightarrow> fold (key_step i) es m = m"
proof (induction es arbitrary: m)
  case (Cons e es)
  then show ?case by (cases e) simp_all
qed simp

lemma rowless_fold [simp]: "rowless es \<Longrightarrow> fold row_step es m = m"
proof (induction es arbitrary: m)
  case (Cons e es)
  then show ?case by (cases e) simp_all
qed simp

lemma rowless_fold_pkey [simp]: "rowless es \<Longrightarrow> fold pkey_step es m = m"
proof (induction es arbitrary: m)
  case (Cons e es)
  then show ?case by (cases e) simp_all
qed simp

lemma remove_id_new [simp]: "i \<notin> ran m \<Longrightarrow> k \<notin> dom m \<Longrightarrow> remove_id i (m(k \<mapsto> i)) = m"
  by (auto simp: remove_id_def fun_eq_iff ran_def domIff)

lemma remove_id_absent [simp]: "i \<notin> ran m \<Longrightarrow> remove_id i m = m"
  by (auto simp: remove_id_def fun_eq_iff ran_def)

section \<open>The parts of a statement\<close>

lemma delete_new_keys_shape [simp]: "rowless (delete_new_keys td h is)" "quiet (delete_new_keys td h is)"
  by (induction "is") (simp_all add: delete_new_keys_def)

lemma delete_new_keys_fold:
  "fold (key_step j) (delete_new_keys td h is) m = (if j \<in> set is \<and> unique_key td j then remove_id (key_id h j) m else m)"
proof (induction "is" arbitrary: m)
  case (Cons i "is")
  have "remove_id x (remove_id x m) = remove_id x m" for x by (simp add: remove_id_def fun_eq_iff)
  then show ?case using Cons by (simp add: delete_new_keys_def)
qed (simp add: delete_new_keys_def)

lemma write_columns_shape:
  "keyless (snd (write_columns flt r row cs)) \<and> quiet (snd (write_columns flt r row cs))
   \<and> (\<forall>e \<in> set (snd (write_columns flt r row cs)). \<exists>c v. e = SetColumn r c v)"
  by (induction cs) (auto split: column_fault.splits prod.splits if_splits)

lemma update_indexes_shape [simp]:
  "keyless (snd (update_indexes flt td r old new is))" "rowless (snd (update_indexes flt td r old new is))"
  "quiet (snd (update_indexes flt td r old new is))"
  by (induction "is") (auto split: prod.splits if_splits)

text \<open>Setting columns of a record.\<close>

lemma set_columns_fold:
  assumes "\<forall>e \<in> set es. \<exists>c v. e = SetColumn r c v"
  shows "\<exists>row'. fold row_step es m = m(r := map_option row' (m r))" and "fold pkey_step es p = p"
proof -
  have "\<exists>row'. fold row_step es m = m(r := map_option row' (m r))"
    using assms
  proof (induction es arbitrary: m)
    case Nil
    show ?case by (intro exI [of _ "\<lambda>x. x"]) (simp add: option.map_ident)
  next
    case (Cons e es)
    then obtain c v where e: "e = SetColumn r c v" by auto
    let ?m = "m(r := map_option (set_column c v) (m r))"
    obtain f where "fold row_step es ?m = ?m(r := map_option f (?m r))"
      using Cons.IH [of ?m] Cons.prems by (meson list.set_intros(2))
    then have "fold row_step (e # es) m = m(r := map_option (f \<circ> set_column c v) (m r))"
      by (simp only: e fold_simps row_step.simps fun_upd_upd fun_upd_same option.map_comp)
    then show ?case by blast
  qed
  then show "\<exists>row'. fold row_step es m = m(r := map_option row' (m r))" .
  show "fold pkey_step es p = p"
    using assms by (induction es arbitrary: p) auto
qed

text \<open>A successful loop over the columns stores the row.\<close>

lemma write_columns_stores:
  assumes "write_columns flt r row cs = (0, es)" and "\<And>c. c \<in> set cs \<Longrightarrow> column_faults flt c \<noteq> EncodingFault 0 \<and> column_faults flt c \<noteq> BulkFault 0"
    and "m r = Some old" and "\<And>c. c \<in> set cs \<Longrightarrow> old c = []" and "distinct cs"
  shows "fold row_step es m = m(r \<mapsto> (\<lambda>c. if c \<in> set cs then row c else old c))"
  using assms
proof (induction cs arbitrary: es m old)
  case Nil
  then show ?case by (simp add: fun_upd_idem)
next
  case (Cons c cs)
  have flt: "column_faults flt c \<noteq> EncodingFault e" "column_faults flt c \<noteq> BulkFault e" for e
    using Cons.prems(1,2) by (auto split: column_fault.splits)
  show ?case
  proof (cases "row c = []")
    case True
    then have "write_columns flt r row cs = (0, es)" using Cons.prems(1) flt by (cases "column_faults flt c") auto
    then have "fold row_step es m = m(r \<mapsto> (\<lambda>x. if x \<in> set cs then row x else old x))"
      using Cons.prems by (intro Cons.IH) auto
    moreover have "(\<lambda>x. if x \<in> set cs then row x else old x) = (\<lambda>x. if x \<in> set (c # cs) then row x else old x)"
      using True Cons.prems(4) by auto
    ultimately show ?thesis by simp
  next
    case False
    then obtain fs where fs: "write_columns flt r row cs = (0, fs)" "es = SetColumn r c (row c) # fs"
      using Cons.prems(1) flt by (cases "column_faults flt c") (auto split: prod.splits simp: error_codes)
    have "fold row_step fs (m(r \<mapsto> set_column c (row c) old))
      = (m(r \<mapsto> set_column c (row c) old))(r \<mapsto> (\<lambda>x. if x \<in> set cs then row x else set_column c (row c) old x))"
      using Cons.prems by (intro Cons.IH [OF fs(1)]) (auto simp: set_column_def)
    also have "(\<lambda>x. if x \<in> set cs then row x else set_column c (row c) old x) = (\<lambda>x. if x \<in> set (c # cs) then row x else old x)"
      by (auto simp: set_column_def)
    finally show ?thesis
      by (simp only: fs(2) fold_simps row_step.simps Cons.prems(3) option.map fun_upd_upd)
  qed
qed

section \<open>New keys\<close>

definition writable :: "table_def \<Rightarrow> nat \<Rightarrow> bool" where
  "writable td i \<longleftrightarrow> unique_key td i \<and> kd_table (the_key td i) \<and> kd_column (the_key td i)"

text \<open>No index of the table is disabled.\<close>

definition enabled :: "table_def \<Rightarrow> bool" where
  "enabled td \<longleftrightarrow> (\<forall>i < length (td_keys td). unique_key td i \<longrightarrow> writable td i)"

text \<open>The ids that Groonga gives to new records are not in use.\<close>

definition fresh_ids :: "faults \<Rightarrow> table_def \<Rightarrow> disk \<Rightarrow> bool" where
  "fresh_ids flt td d \<longleftrightarrow>
     (\<forall>i < length (td_keys td). fresh_key flt i \<notin> ran (d_keys d i) \<and> fresh_key flt i \<noteq> GRN_ID_NIL)
     \<and> fresh_record flt \<notin> dom (d_rows d) \<and> fresh_record flt \<notin> ran (d_pkeys d) \<and> fresh_record flt \<noteq> GRN_ID_NIL
     \<and> fresh_operation flt \<notin> fst ` set (op_rows (d_journal d)) \<and> fresh_operation flt \<noteq> GRN_ID_NIL"

abbreviation ukey :: "table_def \<Rightarrow> row \<Rightarrow> nat \<Rightarrow> byte list" where
  "ukey td row i \<equiv> kd_key (the_key td i) row"

lemma write_unique_index_ok:
  assumes "storage_write_row_unique_index flt td d row i h = (0, h', es)"
  shows "d_keys d i (ukey td row i) = None" "es = [AddKey i (ukey td row i) (fresh_key flt i)]"
    "h' = h\<lparr>key_id := (key_id h)(i := fresh_key flt i)\<rparr>"
  using assms
  by (auto simp: storage_write_row_unique_index_def Let_def error_codes split: if_splits option.splits)

lemma write_unique_index_fail:
  assumes "storage_write_row_unique_index flt td d row i h = (e, h', es)" "e \<noteq> 0"
  shows "es = []" "j \<noteq> i \<Longrightarrow> key_id h' j = key_id h j" "del_key_id h' = del_key_id h"
  using assms
  by (auto simp: storage_write_row_unique_index_def Let_def split: if_splits option.splits)

text \<open>The three ways through one round of the loop.\<close>

lemma write_unique_loop_end: "\<not> i < length (td_keys td) \<Longrightarrow> write_unique_loop flt td d row i h = (0, h, [])"
  by (simp add: write_unique_loop.simps)

lemma write_unique_loop_skip:
  "i < length (td_keys td) \<Longrightarrow> \<not> writable td i \<Longrightarrow>
     write_unique_loop flt td d row i h = write_unique_loop flt td d row (i + 1) h"
  by (subst write_unique_loop.simps) (simp add: writable_def)

lemma write_unique_loop_key:
  "i < length (td_keys td) \<Longrightarrow> writable td i \<Longrightarrow>
     write_unique_loop flt td d row i h =
       (case storage_write_row_unique_index flt td d row i h of (err, h', es) \<Rightarrow>
         if err \<noteq> 0
         then (err, (if err = HA_ERR_FOUND_DUPP_KEY then h'\<lparr>dup_key := Some i\<rparr> else h'),
               es @ delete_new_keys td h' (rev [0..<i]))
         else case write_unique_loop flt td d row (i + 1) h' of (err', h'', es') \<Rightarrow> (err', h'', es @ es'))"
  by (subst write_unique_loop.simps) (simp add: writable_def)

lemma write_unique_loop_ok:
  assumes "write_unique_loop flt td d row i h = (0, h', es)"
  shows "rowless es \<and> quiet es
    \<and> (\<forall>j m. fold (key_step j) es m = (if i \<le> j \<and> j < length (td_keys td) \<and> writable td j
          then m(ukey td row j \<mapsto> fresh_key flt j) else m))
    \<and> (\<forall>j. i \<le> j \<longrightarrow> j < length (td_keys td) \<longrightarrow> writable td j \<longrightarrow>
          d_keys d j (ukey td row j) = None \<and> key_id h' j = fresh_key flt j)
    \<and> (\<forall>j < i. key_id h' j = key_id h j)"
  using assms
proof (induction "length (td_keys td) - i" arbitrary: i h es)
  case 0
  then show ?case by (auto simp: write_unique_loop_end)
next
  case (Suc n)
  then have i: "i < length (td_keys td)" by simp
  show ?case
  proof (cases "writable td i")
    case False
    then have "write_unique_loop flt td d row (i + 1) h = (0, h', es)"
      using Suc.prems write_unique_loop_skip [OF i False] by simp
    note ih = Suc.hyps(1) [OF _ this]
    have n: "n = length (td_keys td) - (i + 1)" using Suc.hyps(2) by simp
    have le: "i + 1 \<le> j \<longleftrightarrow> i \<le> j" if "writable td j" for j
      using that False by (cases "i = j") auto
    show ?thesis using ih [OF n] le by (simp add: conj_commute cong: conj_cong)
  next
    case True
    obtain e h1 es1 where one: "storage_write_row_unique_index flt td d row i h = (e, h1, es1)"
      by (metis prod_cases3)
    have e: "e = 0" using Suc.prems write_unique_loop_key [OF i True] one by (auto split: if_splits)
    then obtain es2 where rest: "write_unique_loop flt td d row (i + 1) h1 = (0, h', es2)" "es = es1 @ es2"
      using Suc.prems write_unique_loop_key [OF i True] one by (auto split: prod.splits)
    note k = write_unique_index_ok [OF one [unfolded e]]
    have n: "n = length (td_keys td) - (i + 1)" using Suc.hyps(2) by simp
    note ih = Suc.hyps(1) [OF n rest(1)]
    have "fold (key_step j) es m = (if i \<le> j \<and> j < length (td_keys td) \<and> writable td j
          then m(ukey td row j \<mapsto> fresh_key flt j) else m)" for j m
      using ih k(2) i True by (cases "i = j") (auto simp: rest(2) Suc_le_eq le_less)
    moreover have "d_keys d j (ukey td row j) = None \<and> key_id h' j = fresh_key flt j"
      if "i \<le> j" "j < length (td_keys td)" "writable td j" for j
      using that ih k(1,3) by (cases "i = j") (auto simp: Suc_le_eq)
    moreover have "key_id h' j = key_id h j" if "j < i" for j
      using that ih k(3) by simp
    ultimately show ?thesis using ih k(2) by (simp add: rest(2))
  qed
qed

lemma write_unique_loop_fail:
  assumes "write_unique_loop flt td d row i h = (e, h', es)" "e \<noteq> 0"
    and "enabled td" "fresh_ids flt td d"
    and "\<forall>j < i. writable td j \<longrightarrow> key_id h j = fresh_key flt j \<and> ukey td row j \<notin> dom (d_keys d j)"
    and "i \<le> length (td_keys td)"
  shows "rowless es \<and> quiet es
    \<and> (\<forall>j. fold (key_step j) es (if j < i \<and> writable td j then (d_keys d j)(ukey td row j \<mapsto> fresh_key flt j) else d_keys d j)
        = d_keys d j)"
  using assms(1,2,5,6)
proof (induction "length (td_keys td) - i" arbitrary: i h es)
  case 0
  then show ?case by (simp add: write_unique_loop_end)
next
  case (Suc n)
  then have i: "i < length (td_keys td)" by simp
  show ?case
  proof (cases "writable td i")
    case False
    have w: "write_unique_loop flt td d row (i + 1) h = (e, h', es)"
      using Suc.prems(1) write_unique_loop_skip [OF i False] by simp
    have "\<forall>j < i + 1. writable td j \<longrightarrow> key_id h j = fresh_key flt j \<and> ukey td row j \<notin> dom (d_keys d j)"
      using Suc.prems(3) False by (auto simp: less_Suc_eq)
    then have "rowless es \<and> quiet es
      \<and> (\<forall>j. fold (key_step j) es (if j < i + 1 \<and> writable td j then (d_keys d j)(ukey td row j \<mapsto> fresh_key flt j) else d_keys d j) = d_keys d j)"
      using Suc.hyps(2) Suc.prems(2) i by (intro Suc.hyps(1) [OF _ w]) simp_all
    moreover have "(j < i + 1 \<and> writable td j) = (j < i \<and> writable td j)" for j
      using False by (auto simp: less_Suc_eq)
    ultimately show ?thesis by simp
  next
    case True
    obtain e1 h1 es1 where one: "storage_write_row_unique_index flt td d row i h = (e1, h1, es1)"
      by (metis prod_cases3)
    show ?thesis
    proof (cases "e1 = 0")
      case ok: True
      then obtain es2 where rest: "write_unique_loop flt td d row (i + 1) h1 = (e, h', es2)" "es = es1 @ es2"
        using Suc.prems(1) write_unique_loop_key [OF i True] one by (auto split: prod.splits)
      note k = write_unique_index_ok [OF one [unfolded ok]]
      have "\<forall>j < i + 1. writable td j \<longrightarrow> key_id h1 j = fresh_key flt j \<and> ukey td row j \<notin> dom (d_keys d j)"
        using Suc.prems(3) k by (auto simp: less_Suc_eq domIff)
      then have ih: "rowless es2 \<and> quiet es2
        \<and> (\<forall>j. fold (key_step j) es2 (if j < i + 1 \<and> writable td j then (d_keys d j)(ukey td row j \<mapsto> fresh_key flt j) else d_keys d j) = d_keys d j)"
        using Suc.hyps(2) Suc.prems(2) i by (intro Suc.hyps(1) [OF _ rest(1)]) simp_all
      moreover have "fold (key_step j) es (if j < i \<and> writable td j then (d_keys d j)(ukey td row j \<mapsto> fresh_key flt j) else d_keys d j)
        = fold (key_step j) es2 (if j < i + 1 \<and> writable td j then (d_keys d j)(ukey td row j \<mapsto> fresh_key flt j) else d_keys d j)" for j
        using True by (cases "j = i") (auto simp: rest(2) k(2) less_Suc_eq)
      ultimately show ?thesis by (simp add: rest(2) k(2))
    next
      case bad: False
      note k = write_unique_index_fail [OF one bad]
      have es: "es = delete_new_keys td h1 (rev [0..<i])"
        using Suc.prems(1) write_unique_loop_key [OF i True] one bad k(1) by auto
      have "fold (key_step j) es (if j < i \<and> writable td j then (d_keys d j)(ukey td row j \<mapsto> fresh_key flt j) else d_keys d j)
        = d_keys d j" for j
      proof (cases "j < i \<and> unique_key td j")
        case True
        then have w: "writable td j" using assms(3) i by (simp add: enabled_def)
        then have "key_id h1 j = fresh_key flt j" "ukey td row j \<notin> dom (d_keys d j)" "fresh_key flt j \<notin> ran (d_keys d j)"
          using Suc.prems(3) k(2) [of j] True assms(4) i by (auto simp: fresh_ids_def)
        then show ?thesis using True w by (simp add: es delete_new_keys_fold)
      next
        case False
        then show ?thesis by (auto simp: es delete_new_keys_fold writable_def)
      qed
      then show ?thesis by (simp add: es)
    qed
  qed
qed

text \<open>The loop succeeds exactly when every key is accepted.\<close>

definition key_accepted :: "faults \<Rightarrow> table_def \<Rightarrow> disk \<Rightarrow> row \<Rightarrow> nat \<Rightarrow> bool" where
  "key_accepted flt td d row i \<longleftrightarrow> (kd_multiple (the_key td i) \<or> key_encoding_error flt i = 0) \<and> \<not> key_add_fails flt i
     \<and> d_keys d i (ukey td row i) = None"

lemma write_unique_index_accepted: "fst (storage_write_row_unique_index flt td d row i h) = 0 \<longleftrightarrow> key_accepted flt td d row i"
  by (auto simp: storage_write_row_unique_index_def key_accepted_def Let_def error_codes split: option.split)

lemma write_unique_loop_accepted:
  "fst (write_unique_loop flt td d row i h) = 0
    \<longleftrightarrow> (\<forall>j < length (td_keys td). i \<le> j \<longrightarrow> writable td j \<longrightarrow> key_accepted flt td d row j)"
proof (induction "length (td_keys td) - i" arbitrary: i h)
  case 0
  then show ?case by (auto simp: write_unique_loop_end)
next
  case (Suc n)
  then have i: "i < length (td_keys td)" and n: "n = length (td_keys td) - (i + 1)" by simp_all
  have split: "(\<forall>j < length (td_keys td). i \<le> j \<longrightarrow> P j) \<longleftrightarrow> P i \<and> (\<forall>j < length (td_keys td). i + 1 \<le> j \<longrightarrow> P j)" for P
    using i by (auto simp: Suc_le_eq le_less)
  show ?case
  proof (cases "writable td i")
    case False
    then show ?thesis using Suc.hyps(1) [OF n] write_unique_loop_skip [OF i False] by (simp add: split [of "\<lambda>j. writable td j \<longrightarrow> key_accepted flt td d row j"])
  next
    case True
    obtain e1 h1 es1 where one: "storage_write_row_unique_index flt td d row i h = (e1, h1, es1)" by (metis prod_cases3)
    then have "e1 = 0 \<longleftrightarrow> key_accepted flt td d row i" using write_unique_index_accepted by (metis fst_conv)
    moreover have "fst (write_unique_loop flt td d row i h) = 0 \<longleftrightarrow> e1 = 0 \<and> fst (write_unique_loop flt td d row (i + 1) h1) = 0"
      using one by (simp add: write_unique_loop_key [OF i True] split: prod.split)
    ultimately show ?thesis using True Suc.hyps(1) [OF n, of h1] by (simp add: split [of "\<lambda>j. writable td j \<longrightarrow> key_accepted flt td d row j"])
  qed
qed

section \<open>Writes\<close>

text \<open>The failures between the unique keys and the new record: the code returns at once there.\<close>

definition returns_early :: "faults \<Rightarrow> table_def \<Rightarrow> row \<Rightarrow> bool" where
  "returns_early flt td row \<longleftrightarrow>
     td_primary td \<noteq> None \<and> \<not> kd_multiple (the_key td (the (td_primary td))) \<and> pkey_encoding_error flt \<noteq> 0
     \<or> \<not> td_no_key td \<and> pkey_of td row = [] \<or> record_add_fails flt"

text \<open>Errors are not 0, and an unsupported encoding is not reported as a duplicated key.\<close>

definition proper_faults :: "faults \<Rightarrow> bool" where
  "proper_faults flt \<longleftrightarrow> (\<forall>c. column_faults flt c \<noteq> EncodingFault 0 \<and> column_faults flt c \<noteq> BulkFault 0)
     \<and> (\<forall>i. key_encoding_error flt i \<noteq> HA_ERR_FOUND_DUPP_KEY)"

lemma key_id_unchanged [simp]:
  "delete_new_keys td (h\<lparr>record_id := r\<rparr>) is = delete_new_keys td h is"
  "delete_new_keys td (h\<lparr>dup_key := k\<rparr>) is = delete_new_keys td h is"
  by (simp_all add: delete_new_keys_def)

lemma undo_new_keys:
  assumes "write_unique_loop flt td d row 0 h = (0, h', ks)" "enabled td" "fresh_ids flt td d"
  shows "fold (key_step j) (delete_new_keys td h' (all_keys td)) (fold (key_step j) ks (d_keys d j)) = d_keys d j"
proof (cases "j < length (td_keys td) \<and> unique_key td j")
  case True
  then have w: "writable td j" using assms(2) by (simp add: enabled_def)
  note ok = write_unique_loop_ok [OF assms(1)]
  have "ukey td row j \<notin> dom (d_keys d j)" "key_id h' j = fresh_key flt j" "fresh_key flt j \<notin> ran (d_keys d j)"
    using ok True w assms(3) by (auto simp: fresh_ids_def domIff)
  then show ?thesis using ok True w by (simp add: delete_new_keys_fold)
next
  case False
  then show ?thesis
    using write_unique_loop_ok [OF assms(1)] by (auto simp: delete_new_keys_fold writable_def)
qed

text \<open>The effects of writing the new record: columns only, then indexes, and with an error the clean up.\<close>

lemma write_record_cases:
  assumes "write_record flt td row r h = (e, h', es)" "proper_faults flt"
  shows "e = 0 \<and> (\<exists>cs is. es = cs @ is \<and> write_columns flt r row [0..<td_columns td] = (0, cs) \<and> keyless is \<and> rowless is \<and> quiet is)
    \<or> e \<noteq> 0 \<and> (\<exists>cs is. es = cs @ is @ delete_new_keys td h (all_keys td) @ [DeleteRecord r]
         \<and> cs = snd (write_columns flt r row [0..<td_columns td]) \<and> keyless is \<and> rowless is \<and> quiet is)"
proof -
  obtain e1 cs where cs: "write_columns flt r row [0..<td_columns td] = (e1, cs)" by fastforce
  obtain e2 "is" where is2: "update_indexes flt td r None (Some row) (all_keys td) = (e2, is)" by fastforce
  have sh: "keyless is" "rowless is" "quiet is"
    using update_indexes_shape [of flt td r None "Some row" "all_keys td"] is2 by simp_all
  show ?thesis
  proof (cases "e1 = 0")
    case False
    then have "e = e1 \<and> es = cs @ [] @ delete_new_keys td h (all_keys td) @ [DeleteRecord r]"
      using assms(1) by (auto simp: write_record_def cs Let_def)
    moreover have "keyless [] \<and> rowless [] \<and> quiet []" by simp
    ultimately show ?thesis using False cs by (metis snd_conv)
  next
    case True
    then have "e = (if e2 \<noteq> 0 then e2 else if no_slot_data flt then HA_ERR_OUT_OF_MEM else 0)"
      "es = cs @ is @ (if e2 \<noteq> 0 \<or> no_slot_data flt then delete_new_keys td h (all_keys td) @ [DeleteRecord r] else [])"
      using assms(1) by (auto simp: write_record_def cs is2 Let_def split: if_splits)
    then show ?thesis using cs True sh by (cases "e2 \<noteq> 0 \<or> no_slot_data flt") (auto simp: error_codes)
  qed
qed

text \<open>A statement that fails behind the new keys undoes everything.\<close>

lemma write_row_body_fail:
  assumes out: "write_row_body flt td d row h = (e, h', es)" and e: "e \<noteq> 0"
    and en: "enabled td" and fr: "fresh_ids flt td d" and pr: "proper_faults flt" and ne: "\<not> returns_early flt td row"
  shows "(\<forall>j. fold (key_step j) es (d_keys d j) = d_keys d j) \<and> fold row_step es (d_rows d) = d_rows d
    \<and> fold pkey_step es (d_pkeys d) = d_pkeys d"
proof (cases "auto_increment_error flt \<noteq> 0 \<or> strict_id_column flt")
  case True
  then have "es = []" using out by (auto simp: write_row_body_def split: if_splits)
  then show ?thesis by simp
next
  case False
  let ?r = "fresh_record flt" and ?pk = "pkey_of td row"
  obtain e1 h1 ks where loop: "write_unique_loop flt td d row 0 h = (e1, h1, ks)" by (metis prod_cases3)
  show ?thesis
  proof (cases "e1 = 0")
    case bad: False
    then have "es = ks" using out False loop
      by (simp add: write_row_body_def storage_write_row_unique_indexes_def)
    then show ?thesis
      using write_unique_loop_fail [OF loop bad en fr] by simp
  next
    case True
    note ok = write_unique_loop_ok [OF loop [unfolded True]] and undo = undo_new_keys [OF loop [unfolded True] en fr]
    have body: "write_row_body flt td d row h = (case (if ?pk = [] then None else d_pkeys d ?pk) of
          Some existing \<Rightarrow>
            (HA_ERR_FOUND_DUPP_KEY, h1\<lparr>record_id := existing, dup_key := td_primary td\<rparr>,
             ks @ delete_new_keys td h1 (all_keys td))
        | None \<Rightarrow>
            (case write_record flt td row ?r (h1\<lparr>record_id := ?r\<rparr>) of
               (e', h'', es) \<Rightarrow> (e', h'', ks @ [AddRecord ?pk ?r, JournalTarget ?r] @ es)))"
    proof -
      have n: "(auto_increment_error flt \<noteq> 0) = False" "strict_id_column flt = False"
        "(td_primary td \<noteq> None \<and> \<not> kd_multiple (the_key td (the (td_primary td))) \<and> pkey_encoding_error flt \<noteq> 0) = False"
        "(\<not> td_no_key td \<and> ?pk = []) = False" "record_add_fails flt = False"
        using False ne by (auto simp: returns_early_def)
      show ?thesis
        by (simp only: write_row_body_def storage_write_row_unique_indexes_def loop True n prod.case if_False if_True
            Let_def simp_thms)
    qed
    show ?thesis
    proof (cases "if ?pk = [] then None else d_pkeys d ?pk")
      case (Some existing)
      then have "es = ks @ delete_new_keys td h1 (all_keys td)" using out body by simp
      then show ?thesis using ok undo by simp
    next
      case None
      then obtain es2 where rec: "write_record flt td row ?r (h1\<lparr>record_id := ?r\<rparr>) = (e, h', es2)"
        and es: "es = ks @ [AddRecord ?pk ?r, JournalTarget ?r] @ es2"
        using out body by (auto split: prod.splits)
      obtain cs "is" where es2: "es2 = cs @ is @ delete_new_keys td h1 (all_keys td) @ [DeleteRecord ?r]"
        and cs: "cs = snd (write_columns flt ?r row [0..<td_columns td])" and sh: "keyless is" "rowless is"
        using write_record_cases [OF rec pr] e by auto
      have col: "keyless cs" "\<forall>e \<in> set cs. \<exists>c v. e = SetColumn ?r c v"
        using write_columns_shape [of flt ?r row "[0..<td_columns td]"] by (simp_all add: cs)
      obtain f where f: "fold row_step cs ((d_rows d)(?r \<mapsto> (\<lambda>_. [])))
        = ((d_rows d)(?r \<mapsto> (\<lambda>_. [])))(?r := map_option f (((d_rows d)(?r \<mapsto> (\<lambda>_. []))) ?r))"
        using set_columns_fold(1) [OF col(2)] by blast
      have "(d_rows d)(?r := None) = d_rows d" using fr by (intro fun_upd_idem) (auto simp: fresh_ids_def)
      then have "fold row_step es (d_rows d) = d_rows d"
        using ok f sh by (simp add: es es2)
      moreover have "fold pkey_step es (d_pkeys d) = d_pkeys d"
        using ok sh fr None set_columns_fold(2) [OF col(2)] by (auto simp: es es2 fresh_ids_def domIff split: if_splits)
      moreover have "fold (key_step j) es (d_keys d j) = d_keys d j" for j
        using undo [of j] sh col(1) by (simp add: es es2)
      ultimately show ?thesis by simp
    qed
  qed
qed

text \<open>A successful statement adds one row and its keys.\<close>

lemma write_row_body_ok:
  assumes out: "write_row_body flt td d row h = (0, h', es)"
    and pr: "proper_faults flt"
  shows "\<exists>h1 ks cs is. es = ks @ [AddRecord (pkey_of td row) (fresh_record flt), JournalTarget (fresh_record flt)] @ cs @ is
    \<and> write_unique_loop flt td d row 0 h = (0, h1, ks)
    \<and> write_columns flt (fresh_record flt) row [0..<td_columns td] = (0, cs)
    \<and> keyless is \<and> rowless is \<and> quiet is"
proof -
  let ?r = "fresh_record flt" and ?pk = "pkey_of td row"
  obtain e1 h1 ks where loop: "write_unique_loop flt td d row 0 h = (e1, h1, ks)" by (metis prod_cases3)
  have e1: "e1 = 0" using out loop
    by (auto simp: write_row_body_def storage_write_row_unique_indexes_def error_codes split: if_splits)
  obtain e2 h2 es2 where rec: "write_record flt td row ?r (h1\<lparr>record_id := ?r\<rparr>) = (e2, h2, es2)" by (metis prod_cases3)
  have es: "e2 = 0" "es = ks @ [AddRecord ?pk ?r, JournalTarget ?r] @ es2"
    using out loop e1 rec
    by (auto simp: write_row_body_def storage_write_row_unique_indexes_def error_codes Let_def
        split: if_splits option.splits)
  from write_record_cases [OF rec pr] es(1) obtain cs "is" where
    "es2 = cs @ is" "write_columns flt ?r row [0..<td_columns td] = (0, cs)" "keyless is" "rowless is" "quiet is" by auto
  then show ?thesis using es loop e1 by blast
qed

text \<open>A statement that fails between the new keys and the record: it leaves the keys when all of them were accepted.\<close>

definition leaves_keys :: "faults \<Rightarrow> table_def \<Rightarrow> disk \<Rightarrow> row \<Rightarrow> bool" where
  "leaves_keys flt td d row \<longleftrightarrow> auto_increment_error flt = 0 \<and> \<not> strict_id_column flt \<and> returns_early flt td row
     \<and> (\<forall>i < length (td_keys td). writable td i \<longrightarrow> key_accepted flt td d row i)"

lemma write_row_body_leaves:
  assumes "write_row_body flt td d row h = (e, h', es)" "leaves_keys flt td d row"
  shows "rowless es" "j < length (td_keys td) \<Longrightarrow> writable td j
    \<Longrightarrow> d_keys d j (ukey td row j) = None \<and> fold (key_step j) es m = m(ukey td row j \<mapsto> fresh_key flt j)"
    "\<not> (j < length (td_keys td) \<and> writable td j) \<Longrightarrow> fold (key_step j) es m = m"
proof -
  obtain e1 h1 ks where loop: "write_unique_loop flt td d row 0 h = (e1, h1, ks)" by (metis prod_cases3)
  have e1: "e1 = 0" using write_unique_loop_accepted [of flt td d row 0 h] assms(2) loop by (simp add: leaves_keys_def)
  have "es = ks"
    using assms loop e1 unfolding leaves_keys_def returns_early_def
    by (auto simp: write_row_body_def storage_write_row_unique_indexes_def Let_def split: if_splits)
  then show "rowless es" "j < length (td_keys td) \<Longrightarrow> writable td j
    \<Longrightarrow> d_keys d j (ukey td row j) = None \<and> fold (key_step j) es m = m(ukey td row j \<mapsto> fresh_key flt j)"
    "\<not> (j < length (td_keys td) \<and> writable td j) \<Longrightarrow> fold (key_step j) es m = m"
    using write_unique_loop_ok [OF loop [unfolded e1]] by (simp, simp, metis)
qed

lemma write_row_body_early:
  assumes out: "write_row_body flt td d row h = (e, h', es)" and e: "e \<noteq> 0"
    and en: "enabled td" and fr: "fresh_ids flt td d" and early: "returns_early flt td row" and no: "\<not> leaves_keys flt td d row"
  shows "rowless es \<and> (\<forall>j. fold (key_step j) es (d_keys d j) = d_keys d j)"
proof (cases "auto_increment_error flt \<noteq> 0 \<or> strict_id_column flt")
  case True
  then have "es = []" using out by (auto simp: write_row_body_def split: if_splits)
  then show ?thesis by simp
next
  case False
  obtain e1 h1 ks where loop: "write_unique_loop flt td d row 0 h = (e1, h1, ks)" by (metis prod_cases3)
  have "e1 \<noteq> 0" using write_unique_loop_accepted [of flt td d row 0 h] no early False loop by (auto simp: leaves_keys_def)
  moreover from this have "es = ks" using out False loop by (simp add: write_row_body_def storage_write_row_unique_indexes_def)
  ultimately show ?thesis using write_unique_loop_fail [OF loop _ en fr] by simp
qed

section \<open>Deletes and updates\<close>

text \<open>Whatever Groonga refuses, the loop over the old keys removes them or leaves them.\<close>

lemma delete_unique_loop_any:
  assumes "delete_unique_loop flt td h is = (e, es)"
  shows "rowless es \<and> (fold (key_step j) es m = m \<or> j \<in> set is \<and> unique_key td j \<and> del_key_id h j \<noteq> GRN_ID_NIL
     \<and> fold (key_step j) es m = remove_id (del_key_id h j) m)"
  using assms
proof (induction "is" arbitrary: e es m)
  case (Cons i "is")
  obtain e1 fs where s: "delete_unique_loop flt td h is = (e1, fs)" by fastforce
  have twice: "remove_id x (remove_id x m) = remove_id x m" for x by (simp add: remove_id_def fun_eq_iff)
  show ?case
  proof (cases "\<not> unique_key td i \<or> del_key_id h i = GRN_ID_NIL \<or> key_delete_fails flt i")
    case True
    then have "es = fs" using Cons.prems s by (auto split: if_splits)
    then show ?thesis using Cons.IH [OF s, of m] by auto
  next
    case False
    then have "es = DeleteKey i (del_key_id h i) # fs" using Cons.prems s by auto
    then show ?thesis using Cons.IH [OF s, of "key_step j (DeleteKey i (del_key_id h i)) m"] False twice by auto
  qed
qed simp

lemma delete_unique_loop_ok:
  assumes "delete_unique_loop flt td h is = (0, es)" "distinct is"
  shows "rowless es \<and> quiet es
    \<and> fold (key_step j) es m = (if j \<in> set is \<and> unique_key td j \<and> del_key_id h j \<noteq> GRN_ID_NIL
        then remove_id (del_key_id h j) m else m)"
  using assms
proof (induction "is" arbitrary: es m)
  case (Cons i "is")
  show ?case
  proof (cases "unique_key td i \<and> del_key_id h i \<noteq> GRN_ID_NIL")
    case False
    then have "delete_unique_loop flt td h is = (0, es)" using Cons.prems by auto
    then show ?thesis using Cons.IH [of es m] Cons.prems False by auto
  next
    case True
    then obtain fs where "delete_unique_loop flt td h is = (0, fs)" "es = DeleteKey i (del_key_id h i) # fs"
      using Cons.prems by (auto simp: error_codes split: prod.splits if_splits)
    then show ?thesis using Cons.IH [of fs "key_step j (DeleteKey i (del_key_id h i)) m"] Cons.prems True by auto
  qed
qed simp

lemma update_unique_loop_end: "\<not> i < length (td_keys td) \<Longrightarrow> update_unique_loop flt td d u new i h = (0, h, [])"
  by (simp add: update_unique_loop.simps)

text \<open>What a successful loop has done with the key \<open>j\<close> of the new row: nothing, because the key does not
  change, or it has added the new key and keeps the id of the old one.\<close>

definition key_updated ::
    "faults \<Rightarrow> table_def \<Rightarrow> disk \<Rightarrow> row_update \<Rightarrow> row \<Rightarrow> row_handler \<Rightarrow> row_handler \<Rightarrow> effect list \<Rightarrow> nat \<Rightarrow> bool" where
  "key_updated flt td d u new h h' es j \<longleftrightarrow>
     (if \<not> writable td j \<or> kd_columns (the_key td j) \<inter> write_set u = {} \<or> d_keys d j (ukey td new j) = Some (del_key_id h j)
      then del_key_id h' j = GRN_ID_NIL \<and> (\<forall>m. fold (key_step j) es m = m)
      else d_keys d j (ukey td new j) = None \<and> del_key_id h' j = del_key_id h j
        \<and> (\<forall>m. fold (key_step j) es m = m(ukey td new j \<mapsto> fresh_key flt j)))"

lemma update_unique_round:
  assumes i: "i < length (td_keys td)" and run: "update_unique_loop flt td d u new i h = (0, h', es)"
    and pr: "proper_faults flt"
  shows "\<exists>h1 es1 es2. update_unique_loop flt td d u new (i + 1) h1 = (0, h', es2) \<and> es = es1 @ es2
    \<and> rowless es1 \<and> quiet es1 \<and> (\<forall>j. j \<noteq> i \<longrightarrow> del_key_id h1 j = del_key_id h j \<and> (\<forall>m. fold (key_step j) es1 m = m))
    \<and> (if unique_key td i then key_updated flt td d u new h h1 es1 i
       else del_key_id h1 i = del_key_id h i \<and> (\<forall>m. fold (key_step i) es1 m = m))"
proof (cases "unique_key td i")
  case False
  then have "update_unique_loop flt td d u new (i + 1) h = (0, h', es)"
    using run i by (subst (asm) update_unique_loop.simps) simp
  then show ?thesis using False by (intro exI [of _ h] exI [of _ "[]"] exI [of _ es]) simp
next
  case uni: True
  let ?off = "\<not> kd_table (the_key td i) \<or> \<not> kd_column (the_key td i) \<or> kd_columns (the_key td i) \<inter> write_set u = {}"
  let ?clr = "\<lambda>x. x\<lparr>key_id := (key_id x)(i := GRN_ID_NIL), del_key_id := (del_key_id x)(i := GRN_ID_NIL)\<rparr>"
  show ?thesis
  proof (cases ?off)
    case True
    then have "update_unique_loop flt td d u new (i + 1) (?clr h) = (0, h', es)"
      using run i uni by (subst (asm) update_unique_loop.simps) simp
    then show ?thesis
      using True uni by (intro exI [of _ "?clr h"] exI [of _ "[]"] exI [of _ es]) (auto simp: key_updated_def writable_def)
  next
    case on: False
    obtain e1 h1 es1 where one: "storage_write_row_unique_index flt td d new i h = (e1, h1, es1)" by (metis prod_cases3)
    have eq: "update_unique_loop flt td d u new i h =
       (if e1 = HA_ERR_FOUND_DUPP_KEY \<and> key_id h1 i = del_key_id h1 i then update_unique_loop flt td d u new (i + 1) (?clr h1)
        else if e1 \<noteq> 0
        then (e1, (if e1 = HA_ERR_FOUND_DUPP_KEY then h1\<lparr>dup_key := Some i\<rparr> else h1),
              map (\<lambda>j. DeleteKey j (key_id h1 j))
                (filter (\<lambda>j. kd_unique (the_key td j) \<and> key_id h1 j \<noteq> GRN_ID_NIL) (rev [0..<i])))
        else case update_unique_loop flt td d u new (i + 1) h1 of (err', h'', es') \<Rightarrow> (err', h'', es1 @ es'))"
      using i uni on one by (subst update_unique_loop.simps) simp
    have w: "writable td i" using uni on by (simp add: writable_def)
    show ?thesis
    proof (cases "e1 = HA_ERR_FOUND_DUPP_KEY \<and> key_id h1 i = del_key_id h1 i")
      case True
      then have rest: "update_unique_loop flt td d u new (i + 1) (?clr h1) = (0, h', es)" using run eq by simp
      have d1: "del_key_id h1 = del_key_id h" "\<And>j. j \<noteq> i \<Longrightarrow> key_id h1 j = key_id h j"
        using write_unique_index_fail [OF one] True by (auto simp: error_codes)
      have "d_keys d i (ukey td new i) = Some (del_key_id h i)"
        using one True d1 pr
        by (auto simp: storage_write_row_unique_index_def proper_faults_def Let_def error_codes
            split: if_splits option.splits)
      then show ?thesis
        using rest uni d1 w on by (intro exI [of _ "?clr h1"] exI [of _ "[]"] exI [of _ es]) (auto simp: key_updated_def)
    next
      case False
      then have e1: "e1 = 0" using run eq by (auto split: if_splits)
      note k = write_unique_index_ok [OF one [unfolded e1]]
      obtain es2 where "update_unique_loop flt td d u new (i + 1) h1 = (0, h', es2)" "es = es1 @ es2"
        using run eq False e1 by (auto split: prod.splits)
      then show ?thesis
        using uni k w on by (intro exI [of _ h1] exI [of _ es1] exI [of _ es2]) (simp add: key_updated_def)
    qed
  qed
qed

lemma update_unique_loop_ok:
  assumes "update_unique_loop flt td d u new i h = (0, h', es)" and pr: "proper_faults flt"
  shows "rowless es \<and> quiet es
    \<and> (\<forall>j < length (td_keys td). i \<le> j \<longrightarrow> unique_key td j \<longrightarrow> key_updated flt td d u new h h' es j)
    \<and> (\<forall>j. j < i \<or> length (td_keys td) \<le> j \<or> \<not> unique_key td j \<longrightarrow>
         del_key_id h' j = del_key_id h j \<and> (\<forall>m. fold (key_step j) es m = m))"
  using assms(1)
proof (induction "length (td_keys td) - i" arbitrary: i h es)
  case 0
  then show ?case by (auto simp: update_unique_loop_end)
next
  case (Suc n)
  then have i: "i < length (td_keys td)" and n: "n = length (td_keys td) - (i + 1)" by simp_all
  from update_unique_round [OF i Suc.prems pr] obtain h1 es1 es2 where
    rest: "update_unique_loop flt td d u new (i + 1) h1 = (0, h', es2)" and es: "es = es1 @ es2"
    and sh: "rowless es1" "quiet es1"
    and other: "\<And>j. j \<noteq> i \<Longrightarrow> del_key_id h1 j = del_key_id h j \<and> (\<forall>m. fold (key_step j) es1 m = m)"
    and mine: "if unique_key td i then key_updated flt td d u new h h1 es1 i
       else del_key_id h1 i = del_key_id h i \<and> (\<forall>m. fold (key_step i) es1 m = m)" by blast
  note ih = Suc.hyps(1) [OF n rest]
  have ii: "del_key_id h' i = del_key_id h1 i" "fold (key_step i) es2 m = m" for m using ih by simp_all
  have "key_updated flt td d u new h h' es j" if "i \<le> j" "j < length (td_keys td)" "unique_key td j" for j
  proof (cases "j = i")
    case True
    then show ?thesis using mine ii that by (simp add: key_updated_def es)
  next
    case False
    then have "key_updated flt td d u new h1 h' es2 j" using ih that by simp
    then show ?thesis using other [OF False] by (simp add: key_updated_def es)
  qed
  moreover have "del_key_id h' j = del_key_id h j \<and> (\<forall>m. fold (key_step j) es m = m)"
    if "j < i \<or> length (td_keys td) \<le> j \<or> \<not> unique_key td j" for j
    using that ih i mine ii by (cases "j = i") (auto simp: es other)
  ultimately show ?case using ih sh by (simp add: es)
qed

text \<open>The ids of the new keys in the loop of an update: none, or the key was added.\<close>

definition key_added :: "faults \<Rightarrow> table_def \<Rightarrow> disk \<Rightarrow> row \<Rightarrow> row_handler \<Rightarrow> nat \<Rightarrow> bool" where
  "key_added flt td d new h j \<longleftrightarrow> key_id h j = fresh_key flt j \<and> d_keys d j (ukey td new j) = None"

definition keys_so_far :: "faults \<Rightarrow> table_def \<Rightarrow> disk \<Rightarrow> row \<Rightarrow> row_handler \<Rightarrow> nat \<Rightarrow> nat \<Rightarrow> byte list \<rightharpoonup> grn_id" where
  "keys_so_far flt td d new h i j = (if j < i \<and> writable td j \<and> key_id h j \<noteq> GRN_ID_NIL then (d_keys d j)(ukey td new j \<mapsto> fresh_key flt j) else d_keys d j)"

lemma keys_so_far_undone:
  assumes "fresh_ids flt td d" "j < i" "i \<le> length (td_keys td)" "writable td j" "key_id h j = GRN_ID_NIL \<or> key_added flt td d new h j"
  shows "(if key_id h j \<noteq> GRN_ID_NIL then remove_id (key_id h j) (keys_so_far flt td d new h i j) else keys_so_far flt td d new h i j) = d_keys d j"
proof -
  have "fresh_key flt j \<notin> ran (d_keys d j)" using assms(1-3) by (auto simp: fresh_ids_def)
  then show ?thesis using assms(2,4,5) by (auto simp: keys_so_far_def key_added_def domIff)
qed

lemma delete_keys_fold:
  "fold (key_step j) (map (\<lambda>i. DeleteKey i (key_id h i)) is) m = (if j \<in> set is then remove_id (key_id h j) m else m)"
proof (induction "is" arbitrary: m)
  case (Cons i "is")
  have "remove_id x (remove_id x m) = remove_id x m" for x by (simp add: remove_id_def fun_eq_iff)
  then show ?case using Cons by simp
qed simp

lemma delete_keys_rowless: "rowless (map (\<lambda>i. DeleteKey i (k i)) is)"
  by (induction "is") simp_all

text \<open>The loop of an update, whatever its outcome: a success has added the new keys that were not there, a failure has undone them.\<close>

lemma update_unique_loop_any:
  assumes "update_unique_loop flt td d u new i h = (e, h', es)" "enabled td" "fresh_ids flt td d" "i \<le> length (td_keys td)"
    and "\<forall>j < i. writable td j \<longrightarrow> key_id h j = GRN_ID_NIL \<or> key_added flt td d new h j"
  shows "rowless es
    \<and> (e = 0 \<longrightarrow> (\<forall>j < length (td_keys td). writable td j \<longrightarrow> (key_id h' j = GRN_ID_NIL \<or> key_added flt td d new h' j)
         \<and> fold (key_step j) es (keys_so_far flt td d new h i j) = keys_so_far flt td d new h' (length (td_keys td)) j))
    \<and> (e \<noteq> 0 \<longrightarrow> (\<forall>j < length (td_keys td). writable td j \<longrightarrow> fold (key_step j) es (keys_so_far flt td d new h i j) = d_keys d j))"
  using assms(1,4,5)
proof (induction "length (td_keys td) - i" arbitrary: i h e es)
  case 0
  then show ?case by (auto simp: update_unique_loop_end)
next
  case (Suc n)
  then have i: "i < length (td_keys td)" and n: "n = length (td_keys td) - (i + 1)" by simp_all
  have next_step: "?case" if rest: "update_unique_loop flt td d u new (i + 1) h1 = (e, h', es2)" and es: "es = es1 @ es2" "rowless es1"
      and same: "\<And>j. j \<noteq> i \<Longrightarrow> key_id h1 j = key_id h j \<and> (\<forall>m. fold (key_step j) es1 m = m)"
      and mine: "writable td i \<Longrightarrow> key_id h1 i = GRN_ID_NIL \<and> (\<forall>m. fold (key_step i) es1 m = m)
        \<or> key_added flt td d new h1 i \<and> fold (key_step i) es1 (d_keys d i) = (d_keys d i)(ukey td new i \<mapsto> fresh_key flt i)" for h1 es1 es2
  proof -
    have step: "fold (key_step j) es1 (keys_so_far flt td d new h i j) = keys_so_far flt td d new h1 (i + 1) j"
      if j: "j < length (td_keys td)" "writable td j" for j
    proof (cases "j = i")
      case True
      have "fresh_key flt i \<noteq> GRN_ID_NIL" using assms(3) i by (simp add: fresh_ids_def)
      then show ?thesis using mine True j by (auto simp: keys_so_far_def key_added_def)
    next
      case False
      then have "j < i + 1 \<longleftrightarrow> j < i" by auto
      then show ?thesis using same [OF False] by (simp add: keys_so_far_def)
    qed
    have "key_id h1 j = GRN_ID_NIL \<or> key_added flt td d new h1 j" if j: "j < i + 1" "writable td j" for j
    proof (cases "j = i")
      case False
      then show ?thesis using Suc.prems(3) same [OF False] j by (auto simp: key_added_def)
    qed (use mine j in auto)
    then show ?thesis using Suc.hyps(1) [OF n rest] i step es by simp
  qed
  show ?case
  proof (cases "unique_key td i")
    case False
    then have "update_unique_loop flt td d u new (i + 1) h = (e, h', es)"
      using Suc.prems(1) i by (subst (asm) update_unique_loop.simps) simp
    then show ?thesis using False by (intro next_step [of h es "[]"]) (simp_all add: writable_def)
  next
    case uni: True
    then have w: "writable td i" using assms(2) i by (simp add: enabled_def)
    let ?clr = "\<lambda>x. x\<lparr>key_id := (key_id x)(i := GRN_ID_NIL), del_key_id := (del_key_id x)(i := GRN_ID_NIL)\<rparr>"
    show ?thesis
    proof (cases "kd_columns (the_key td i) \<inter> write_set u = {}")
      case True
      then have "update_unique_loop flt td d u new (i + 1) (?clr h) = (e, h', es)"
        using Suc.prems(1) i uni by (subst (asm) update_unique_loop.simps) simp
      then show ?thesis by (intro next_step [of "?clr h" es "[]"]) simp_all
    next
      case on: False
      obtain e1 h1 es1 where one: "storage_write_row_unique_index flt td d new i h = (e1, h1, es1)" by (metis prod_cases3)
      have eq: "update_unique_loop flt td d u new i h =
         (if e1 = HA_ERR_FOUND_DUPP_KEY \<and> key_id h1 i = del_key_id h1 i then update_unique_loop flt td d u new (i + 1) (?clr h1)
          else if e1 \<noteq> 0
          then (e1, (if e1 = HA_ERR_FOUND_DUPP_KEY then h1\<lparr>dup_key := Some i\<rparr> else h1),
                map (\<lambda>j. DeleteKey j (key_id h1 j))
                  (filter (\<lambda>j. kd_unique (the_key td j) \<and> key_id h1 j \<noteq> GRN_ID_NIL) (rev [0..<i])))
          else case update_unique_loop flt td d u new (i + 1) h1 of (err', h'', es') \<Rightarrow> (err', h'', es1 @ es'))"
        using i uni on w one by (subst update_unique_loop.simps) (simp add: writable_def)
      show ?thesis
      proof (cases "e1 = HA_ERR_FOUND_DUPP_KEY \<and> key_id h1 i = del_key_id h1 i")
        case True
        then have rest: "update_unique_loop flt td d u new (i + 1) (?clr h1) = (e, h', es)" using Suc.prems(1) eq by simp
        have "\<And>j. j \<noteq> i \<Longrightarrow> key_id h1 j = key_id h j" using write_unique_index_fail(2) [OF one] True by (auto simp: error_codes)
        then show ?thesis using rest by (intro next_step [of "?clr h1" es "[]"]) simp_all
      next
        case go: False
        show ?thesis
        proof (cases "e1 = 0")
          case True
          note k = write_unique_index_ok [OF one [unfolded True]]
          obtain es2 where "update_unique_loop flt td d u new (i + 1) h1 = (e, h', es2)" "es = es1 @ es2"
            using Suc.prems(1) eq go True by (auto split: prod.splits)
          then show ?thesis using k by (intro next_step [of h1 es2 es1]) (simp_all add: key_added_def)
        next
          case bad: False
          have ids: "\<And>j. j \<noteq> i \<Longrightarrow> key_id h1 j = key_id h j" using write_unique_index_fail(2) [OF one bad] by simp
          let ?is = "filter (\<lambda>j. kd_unique (the_key td j) \<and> key_id h1 j \<noteq> GRN_ID_NIL) (rev [0..<i])"
          have e: "e \<noteq> 0" and es: "es = map (\<lambda>j. DeleteKey j (key_id h1 j)) ?is" using Suc.prems(1) eq go bad by auto
          have "fold (key_step j) es (keys_so_far flt td d new h i j) = d_keys d j" if j: "j < length (td_keys td)" "writable td j" for j
          proof (cases "j < i")
            case True
            then have "key_id h1 j = key_id h j" using ids by simp
            then have "j \<in> set ?is \<longleftrightarrow> key_id h j \<noteq> GRN_ID_NIL" using True j by (auto simp: writable_def unique_key_def)
            then show ?thesis
              using keys_so_far_undone [OF assms(3) True Suc.prems(2) j(2), of h new] Suc.prems(3) True j \<open>key_id h1 j = key_id h j\<close>
              unfolding es delete_keys_fold by (simp split: if_splits)
          next
            case False
            then have "j \<notin> set ?is" by simp
            then show ?thesis using False unfolding es delete_keys_fold by (simp add: keys_so_far_def)
          qed
          moreover have "rowless es" unfolding es by (rule delete_keys_rowless)
          ultimately show ?thesis using e by simp
        qed
      qed
    qed
  qed
qed

end
