(* ===== verification/Storage_Properties.thy ===== *)
theory Storage_Properties
  imports Storage_Consistency
begin

text \<open>
  The properties of the row operations: an invariant of every sequence of statements, the undoing of
  failed writes, and recovery from crashes.
\<close>

section \<open>Consistent indexes\<close>

text \<open>An index whose keys are the keys of the rows, with one row for each key.\<close>

definition index_ok :: "(row \<Rightarrow> byte list) \<Rightarrow> (byte list \<rightharpoonup> grn_id) \<Rightarrow> (grn_id \<rightharpoonup> row) \<Rightarrow> bool" where
  "index_ok K m rows \<longleftrightarrow> dom m = K ` ran rows
     \<and> (\<forall>r s x y. rows r = Some x \<longrightarrow> rows s = Some y \<longrightarrow> K x = K y \<longrightarrow> r = s)
     \<and> inj_on m (dom m) \<and> GRN_ID_NIL \<notin> ran m"

definition consistent :: "table_def \<Rightarrow> disk \<Rightarrow> bool" where
  "consistent td d \<longleftrightarrow> (\<forall>i < length (td_keys td). writable td i \<longrightarrow> index_ok (kd_key (the_key td i)) (d_keys d i) (d_rows d))"

lemma ran_remove_id: "inj_on m (dom m) \<Longrightarrow> m k = Some i \<Longrightarrow> remove_id i m = m(k := None)"
  by (auto simp: remove_id_def fun_eq_iff inj_on_def domIff)

lemma index_ok_add:
  assumes "index_ok K m rows" "m (K x) = None" "rows r = None" "i \<notin> ran m" "i \<noteq> GRN_ID_NIL"
  shows "index_ok K (m(K x \<mapsto> i)) (rows(r \<mapsto> x))"
proof -
  have k: "K x \<notin> K ` ran rows" using assms(1,2) by (auto simp: index_ok_def)
  have "ran (rows(r \<mapsto> x)) = insert x (ran rows)" using assms(3) by (rule ran_map_upd)
  then have "dom (m(K x \<mapsto> i)) = K ` ran (rows(r \<mapsto> x))" using assms(1) by (simp add: index_ok_def)
  moreover have "r' = s'" if h: "(rows(r \<mapsto> x)) r' = Some y" "(rows(r \<mapsto> x)) s' = Some z" "K y = K z" for r' s' y z
  proof (cases "r' = r \<or> s' = r")
    case True
    have "K z \<noteq> K x" if "rows s = Some z" for s z using that k by (metis imageI ranI)
    then show ?thesis using h True by (auto split: if_splits)
  next
    case False
    then show ?thesis using h assms(1) by (auto simp: index_ok_def)
  qed
  moreover have "inj_on (m(K x \<mapsto> i)) (dom (m(K x \<mapsto> i)))"
    using assms(1,4) by (auto simp: index_ok_def inj_on_def ran_def)
  moreover have "GRN_ID_NIL \<notin> ran (m(K x \<mapsto> i))"
    using assms(1,2,5) by (simp add: index_ok_def ran_map_upd)
  ultimately show ?thesis unfolding index_ok_def by blast
qed

lemma index_ok_lookup:
  assumes "index_ok K m rows" "rows r = Some x"
  shows "\<exists>i. m (K x) = Some i \<and> i \<noteq> GRN_ID_NIL \<and> lookup_key m (K x) = i"
proof -
  have "K x \<in> dom m" using assms by (auto simp: index_ok_def ran_def)
  then obtain i where i: "m (K x) = Some i" by auto
  moreover have "i \<noteq> GRN_ID_NIL" using assms(1) i by (auto simp: index_ok_def ran_def)
  ultimately show ?thesis by (simp add: lookup_key_def)
qed

lemma index_ok_delete:
  assumes "index_ok K m rows" "rows r = Some x"
  shows "index_ok K (remove_id (lookup_key m (K x)) m) (rows(r := None))"
proof -
  obtain i where i: "m (K x) = Some i" "lookup_key m (K x) = i" using index_ok_lookup [OF assms] by auto
  have inj: "\<And>r s x y. rows r = Some x \<Longrightarrow> rows s = Some y \<Longrightarrow> K x = K y \<Longrightarrow> r = s"
    using assms(1) by (simp add: index_ok_def)
  have m': "remove_id i m = m(K x := None)" using assms(1) i by (intro ran_remove_id) (auto simp: index_ok_def)
  have "dom (m(K x := None)) = K ` ran (rows(r := None))"
  proof -
    have "K ` ran (rows(r := None)) = K ` ran rows - {K x}"
    proof (intro equalityI subsetI)
      fix k assume "k \<in> K ` ran (rows(r := None))"
      then obtain s y where s: "k = K y" "s \<noteq> r" "rows s = Some y" by (auto simp: ran_def split: if_splits)
      then have "K y \<noteq> K x" using inj [OF s(3) assms(2)] by auto
      then show "k \<in> K ` ran rows - {K x}" using s by (auto simp: ran_def)
    next
      fix k assume "k \<in> K ` ran rows - {K x}"
      then obtain s y where "k = K y" "rows s = Some y" "K y \<noteq> K x" by (auto simp: ran_def)
      moreover from this have "s \<noteq> r" using assms(2) by auto
      ultimately have "y \<in> ran (rows(r := None))" by (auto simp: ran_def intro!: exI [of _ s])
      then show "k \<in> K ` ran (rows(r := None))" using \<open>k = K y\<close> by blast
    qed
    then show ?thesis using assms(1) by (simp add: index_ok_def)
  qed
  moreover have "inj_on (m(K x := None)) (dom (m(K x := None)))"
    using assms(1) by (auto simp: index_ok_def inj_on_def)
  moreover have "GRN_ID_NIL \<notin> ran (m(K x := None))"
    using assms(1) by (auto simp: index_ok_def ran_def split: if_splits)
  ultimately show ?thesis
    using inj unfolding index_ok_def i(2) m' by (auto split: if_splits)
qed

lemma index_ok_same_key:
  assumes "index_ok K m rows" "rows r = Some x" "K y = K x"
  shows "index_ok K m (rows(r \<mapsto> y))"
proof -
  have "K ` ran (rows(r \<mapsto> y)) = K ` ran rows"
  proof (intro equalityI subsetI)
    fix k assume "k \<in> K ` ran (rows(r \<mapsto> y))"
    then obtain s z where "k = K z" "(rows(r \<mapsto> y)) s = Some z" by (auto simp: ran_def)
    then show "k \<in> K ` ran rows" using assms(2,3) by (cases "s = r") (auto simp: ran_def)
  next
    fix k assume "k \<in> K ` ran rows"
    then obtain s z where "k = K z" "rows s = Some z" by (auto simp: ran_def)
    then show "k \<in> K ` ran (rows(r \<mapsto> y))" using assms(2,3)
      by (cases "s = r") (auto simp: ran_def intro: image_eqI [of _ _ y] image_eqI [of _ _ z])
  qed
  then have d: "dom m = K ` ran (rows(r \<mapsto> y))" using assms(1) by (simp add: index_ok_def)
  have old: "\<exists>b. rows s = Some b \<and> K a = K b" if "(rows(r \<mapsto> y)) s = Some a" for s a
    using that assms(2,3) by (cases "s = r") auto
  have "r' = s'" if h: "(rows(r \<mapsto> y)) r' = Some a" "(rows(r \<mapsto> y)) s' = Some b" "K a = K b" for r' s' a b
  proof -
    obtain a' b' where "rows r' = Some a'" "rows s' = Some b'" "K a' = K b'"
      using old [OF h(1)] old [OF h(2)] h(3) by auto
    then show ?thesis using assms(1) unfolding index_ok_def by blast
  qed
  then show ?thesis using d assms(1) unfolding index_ok_def by blast
qed

section \<open>Indexes that have a key for every row\<close>

text \<open>Every row has its key in the index and no two rows have the same; the index may have further keys.\<close>

definition index_covers :: "(row \<Rightarrow> byte list) \<Rightarrow> (byte list \<rightharpoonup> grn_id) \<Rightarrow> (grn_id \<rightharpoonup> row) \<Rightarrow> bool" where
  "index_covers K m rows \<longleftrightarrow> (\<forall>r x. rows r = Some x \<longrightarrow> K x \<in> dom m)
     \<and> (\<forall>r s x y. rows r = Some x \<longrightarrow> rows s = Some y \<longrightarrow> K x = K y \<longrightarrow> r = s)
     \<and> inj_on m (dom m) \<and> GRN_ID_NIL \<notin> ran m"

definition covered :: "table_def \<Rightarrow> disk \<Rightarrow> bool" where
  "covered td d \<longleftrightarrow> (\<forall>i < length (td_keys td). writable td i \<longrightarrow> index_covers (kd_key (the_key td i)) (d_keys d i) (d_rows d))"

lemma index_ok_covers: "index_ok K m rows \<Longrightarrow> index_covers K m rows"
  by (auto simp: index_ok_def index_covers_def ran_def)

lemma consistent_covered: "consistent td d \<Longrightarrow> covered td d"
  by (simp add: consistent_def covered_def index_ok_covers)

lemma covers_key: "index_covers K m rows \<Longrightarrow> rows r = Some x \<Longrightarrow> K x \<in> dom m"
  by (simp add: index_covers_def)

lemma covers_same: "index_covers K m rows \<Longrightarrow> rows r = Some x \<Longrightarrow> rows s = Some y \<Longrightarrow> K x = K y \<Longrightarrow> r = s"
  unfolding index_covers_def by blast

lemma covers_inj: "index_covers K m rows \<Longrightarrow> m k = Some i \<Longrightarrow> m l = Some i \<Longrightarrow> k = l"
  unfolding index_covers_def inj_on_def by (metis domI)

lemma covers_add:
  assumes "index_covers K m rows" "m k = None" "i \<notin> ran m" "i \<noteq> GRN_ID_NIL"
  shows "index_covers K (m(k \<mapsto> i)) rows"
proof -
  have "inj_on (m(k \<mapsto> i)) (dom (m(k \<mapsto> i)))" using assms(1,3) by (auto simp: index_covers_def inj_on_def ran_def)
  moreover have "GRN_ID_NIL \<notin> ran (m(k \<mapsto> i))" using assms(1,2,4) by (simp add: index_covers_def ran_map_upd)
  moreover have "dom m \<subseteq> dom (m(k \<mapsto> i))" by auto
  ultimately show ?thesis using assms(1) unfolding index_covers_def by blast
qed

lemma covers_set:
  assumes "index_covers K m rows" "K x \<in> dom m" "\<And>s y. rows s = Some y \<Longrightarrow> s \<noteq> r \<Longrightarrow> K y \<noteq> K x"
  shows "index_covers K m (rows(r \<mapsto> x))"
proof -
  have "K y \<in> dom m" if "(rows(r \<mapsto> x)) s = Some y" for s y using that assms(1,2) covers_key [OF assms(1)] by (auto split: if_splits)
  moreover have "s = t" if h: "(rows(r \<mapsto> x)) s = Some y" "(rows(r \<mapsto> x)) t = Some z" "K y = K z" for s t y z
    using h assms(3) [of s y] assms(3) [of t z] covers_same [OF assms(1), of s y t z] by (auto split: if_splits)
  ultimately show ?thesis using assms(1) unfolding index_covers_def by blast
qed

lemma covers_new:
  assumes "index_covers K m rows" "m (K x) = None" "i \<notin> ran m" "i \<noteq> GRN_ID_NIL"
  shows "index_covers K (m(K x \<mapsto> i)) (rows(r \<mapsto> x))"
  using covers_key [OF assms(1)] assms(2) by (intro covers_set covers_add [OF assms]) (auto dest: covers_key [OF assms(1)])

lemma covers_same_key:
  assumes "index_covers K m rows" "rows r = Some x" "K y = K x"
  shows "index_covers K m (rows(r \<mapsto> y))"
  using covers_key [OF assms(1,2)] covers_same [OF assms(1) _ assms(2)] assms(3) by (intro covers_set [OF assms(1)]) auto

lemma covers_delete: "index_covers K m rows \<Longrightarrow> index_covers K m (rows(r := None))"
  unfolding index_covers_def by (auto split: if_splits)

lemma covers_lookup:
  assumes "index_covers K m rows" "rows r = Some x"
  shows "\<exists>i. m (K x) = Some i \<and> i \<noteq> GRN_ID_NIL \<and> lookup_key m (K x) = i"
proof -
  obtain i where i: "m (K x) = Some i" using covers_key [OF assms] by blast
  then show ?thesis using assms(1) by (auto simp: index_covers_def ran_def lookup_key_def)
qed

lemma covers_remove:
  assumes "index_covers K m rows" "m k = Some i" "\<And>s y. rows s = Some y \<Longrightarrow> K y \<noteq> k"
  shows "index_covers K (remove_id i m) rows"
proof -
  have "remove_id i m = m(k := None)" using assms(1,2) by (intro ran_remove_id) (simp_all add: index_covers_def)
  moreover have "inj_on (m(k := None)) (dom (m(k := None)))" using assms(1) by (auto simp: index_covers_def inj_on_def)
  moreover have "GRN_ID_NIL \<notin> ran (m(k := None))" using assms(1) by (auto simp: index_covers_def ran_def split: if_splits)
  moreover have "K y \<in> dom (m(k := None))" if "rows s = Some y" for s y using covers_key [OF assms(1) that] assms(3) [OF that] by auto
  ultimately show ?thesis using assms(1) unfolding index_covers_def by auto
qed

section \<open>Statements keep the indexes consistent\<close>

lemma fresh_idsD:
  assumes "fresh_ids flt td d"
  shows "i < length (td_keys td) \<Longrightarrow> fresh_key flt i \<notin> ran (d_keys d i)"
    "i < length (td_keys td) \<Longrightarrow> fresh_key flt i \<noteq> GRN_ID_NIL"
    "d_rows d (fresh_record flt) = None" "fresh_record flt \<notin> ran (d_pkeys d)"
  using assms by (auto simp: fresh_ids_def)

lemma with_operation_parts [simp]:
  "fold (key_step j) (snd (snd (with_operation flt type tname (e, h, es)))) m = fold (key_step j) es m"
  "fold row_step (snd (snd (with_operation flt type tname (e, h, es)))) rows = fold row_step es rows"
  "fold pkey_step (snd (snd (with_operation flt type tname (e, h, es)))) m = fold pkey_step es m"
  by (simp_all add: with_operation_def start_effects_def)

lemma write_row_new:
  assumes "write_row_body flt td d row h = (0, h', es)" "fresh_ids flt td d" "proper_faults flt"
    and "\<forall>c \<ge> td_columns td. row c = []"
  shows "fold row_step es (d_rows d) = (d_rows d)(fresh_record flt \<mapsto> row)"
    and "writable td i \<Longrightarrow> i < length (td_keys td) \<Longrightarrow>
      d_keys d i (ukey td row i) = None \<and> fold (key_step i) es (d_keys d i) = (d_keys d i)(ukey td row i \<mapsto> fresh_key flt i)"
proof -
  let ?r = "fresh_record flt"
  obtain h1 ks cs "is" where es: "es = ks @ [AddRecord (pkey_of td row) ?r, JournalTarget ?r] @ cs @ is"
    and loop: "write_unique_loop flt td d row 0 h = (0, h1, ks)"
    and cols: "write_columns flt ?r row [0..<td_columns td] = (0, cs)" and sh: "keyless is" "rowless is"
    using write_row_body_ok [OF assms(1,3)] by blast
  note ok = write_unique_loop_ok [OF loop]
  have "fold row_step cs ((d_rows d)(?r \<mapsto> (\<lambda>_. [])))
    = ((d_rows d)(?r \<mapsto> (\<lambda>_. [])))(?r \<mapsto> (\<lambda>c. if c \<in> set [0..<td_columns td] then row c else []))"
    using assms(3) by (intro write_columns_stores [OF cols]) (auto simp: proper_faults_def)
  moreover have "(\<lambda>c. if c \<in> set [0..<td_columns td] then row c else []) = row"
    using assms(4) by (auto simp: fun_eq_iff)
  ultimately show "fold row_step es (d_rows d) = (d_rows d)(?r \<mapsto> row)"
    using ok sh by (simp add: es)
  assume w: "writable td i" "i < length (td_keys td)"
  have "keyless cs" using write_columns_shape [of flt ?r row "[0..<td_columns td]"] cols by simp
  then show "d_keys d i (ukey td row i) = None \<and> fold (key_step i) es (d_keys d i) = (d_keys d i)(ukey td row i \<mapsto> fresh_key flt i)"
    using ok w sh by (simp add: es)
qed

lemma write_row_consistent:
  assumes "storage_write_row flt td d row h = (0, h', es)" "consistent td d" "fresh_ids flt td d" "proper_faults flt"
    and "\<forall>c \<ge> td_columns td. row c = []"
  shows "consistent td (apply_effects es d)"
proof (cases "dry_write flt")
  case True
  then show ?thesis using assms(1,2) by (simp add: storage_write_row_def)
next
  case False
  obtain e0 h0 es0 where b: "write_row_body flt td d row h = (e0, h0, es0)" by (metis prod_cases3)
  then have e0: "e0 = 0" and es: "es = snd (snd (with_operation flt ''write'' (td_name td) (e0, h0, es0)))"
    using assms(1) False by (auto simp: storage_write_row_def with_operation_def)
  note new = write_row_new [OF b [unfolded e0] assms(3-5)]
  have "index_ok (kd_key (the_key td i)) (d_keys (apply_effects es d) i) (d_rows (apply_effects es d))"
    if i: "i < length (td_keys td)" "writable td i" for i
    using new(1) new(2) [OF i(2,1)] assms(2) i fresh_idsD [OF assms(3)]
    by (simp add: apply_effects_parts es consistent_def index_ok_add)
  then show ?thesis by (simp add: consistent_def)
qed

lemma delete_row_consistent:
  assumes "storage_delete_row flt td d old h = (0, h', es)" "consistent td d" "d_rows d (record_id h) = Some old"
  shows "consistent td (apply_effects es d)"
    and "\<not> dry_write flt \<Longrightarrow> d_rows (apply_effects es d) = (d_rows d)(record_id h := None)"
proof -
  let ?r = "record_id h" and ?h = "storage_prepare_delete_row_unique_indexes td d old h"
  have "consistent td (apply_effects es d) \<and> d_rows (apply_effects es d) = (d_rows d)(?r := None)" if nd: "\<not> dry_write flt"
  proof -
    obtain e1 "is" where idx: "update_indexes flt td ?r (Some old) None (all_keys td) = (e1, is)" by fastforce
    obtain e2 ks where del: "delete_unique_loop flt td ?h (all_keys td) = (e2, ks)" by fastforce
    have "e1 = 0" "e2 = 0" and es: "es = snd (snd (with_operation flt ''delete'' (td_name td)
        (0, ?h, JournalTarget ?r # DeleteRecord ?r # is @ ks)))"
      using assms(1) nd idx del
      by (auto simp: storage_delete_row_def delete_row_body_def storage_delete_row_unique_indexes_def
          with_operation_def Let_def error_codes split: if_splits)
    have sh: "keyless is" "rowless is"
      using update_indexes_shape [of flt td ?r "Some old" None "all_keys td"] idx by simp_all
    have ks: "rowless ks" "fold (key_step j) ks m = (if j < length (td_keys td) \<and> unique_key td j \<and> del_key_id ?h j \<noteq> GRN_ID_NIL
        then remove_id (del_key_id ?h j) m else m)" for j m
      using delete_unique_loop_ok [OF del [unfolded \<open>e2 = 0\<close>]] by simp_all
    have rows: "d_rows (apply_effects es d) = (d_rows d)(?r := None)"
      using sh ks(1) by (simp add: apply_effects_parts es)
    moreover have "index_ok (kd_key (the_key td i)) (d_keys (apply_effects es d) i) (d_rows (apply_effects es d))"
      if i: "i < length (td_keys td)" "writable td i" for i
    proof -
      have ok: "index_ok (kd_key (the_key td i)) (d_keys d i) (d_rows d)" using assms(2) i by (simp add: consistent_def)
      have "del_key_id ?h i = lookup_key (d_keys d i) (ukey td old i)" "unique_key td i"
        using i by (simp_all add: storage_prepare_delete_row_unique_indexes_def writable_def)
      moreover have "lookup_key (d_keys d i) (ukey td old i) \<noteq> GRN_ID_NIL"
        using index_ok_lookup [OF ok assms(3)] by blast
      ultimately have "d_keys (apply_effects es d) i = remove_id (lookup_key (d_keys d i) (ukey td old i)) (d_keys d i)"
        using sh ks(2) i by (simp add: apply_effects_parts es)
      then show ?thesis using index_ok_delete [OF ok assms(3)] by (simp only: rows)
    qed
    ultimately show ?thesis by (simp add: consistent_def)
  qed
  moreover have "consistent td (apply_effects es d)" if "dry_write flt"
    using that assms(1,2) by (simp add: storage_delete_row_def)
  ultimately show "consistent td (apply_effects es d)"
    "\<not> dry_write flt \<Longrightarrow> d_rows (apply_effects es d) = (d_rows d)(?r := None)" by blast+
qed

text \<open>The columns that an update stores.\<close>

definition stored_column :: "table_def \<Rightarrow> row_update \<Rightarrow> nat \<Rightarrow> bool" where
  "stored_column td u c \<longleftrightarrow> c \<in> write_set u \<and> c \<notin> nulls u \<and> \<not> (c \<in> pkey_columns td \<and> \<not> on_duplicate_key_update u)"

lemma update_columns_ok:
  assumes "update_columns flt td u r new cs = (0, es)" "proper_faults flt" "m r = Some old"
  shows "keyless es \<and> quiet es
    \<and> fold row_step es m = m(r \<mapsto> (\<lambda>c. if c \<in> set cs \<and> stored_column td u c then new c else old c))"
  using assms(1,3)
proof (induction cs arbitrary: es m old)
  case Nil
  then show ?case by (simp add: fun_upd_idem)
next
  case (Cons c cs)
  show ?case
  proof (cases "stored_column td u c")
    case False
    then have "update_columns flt td u r new cs = (0, es)"
      using Cons.prems(1) assms(2)
      by (cases "column_faults flt c") (auto simp: stored_column_def proper_faults_def split: if_splits)
    note ih = Cons.IH [of es m old, OF this Cons.prems(2)]
    have "(\<lambda>x. if x \<in> set (c # cs) \<and> stored_column td u x then new x else old x)
        = (\<lambda>x. if x \<in> set cs \<and> stored_column td u x then new x else old x)" using False by auto
    then show ?thesis using ih by simp
  next
    case True
    then obtain fs where fs: "update_columns flt td u r new cs = (0, fs)" "es = SetColumn r c (new c) # fs"
      using Cons.prems(1) assms(2)
      by (cases "column_faults flt c") (auto simp: stored_column_def proper_faults_def error_codes split: if_splits prod.splits)
    let ?m = "m(r \<mapsto> set_column c (new c) old)"
    have ih: "keyless fs \<and> quiet fs
      \<and> fold row_step fs ?m = ?m(r \<mapsto> (\<lambda>x. if x \<in> set cs \<and> stored_column td u x then new x else set_column c (new c) old x))"
      by (intro Cons.IH [OF fs(1)]) simp
    moreover have "(\<lambda>x. if x \<in> set cs \<and> stored_column td u x then new x else set_column c (new c) old x)
        = (\<lambda>x. if x \<in> set (c # cs) \<and> stored_column td u x then new x else old x)"
      using True by (auto simp: set_column_def)
    ultimately have "fold row_step es m = m(r \<mapsto> (\<lambda>x. if x \<in> set (c # cs) \<and> stored_column td u x then new x else old x))"
      by (simp only: fs(2) fold_simps row_step.simps Cons.prems(2) option.map fun_upd_upd)
    then show ?thesis using ih by (simp add: fs(2))
  qed
qed

text \<open>The key of a row depends on the columns of the key only, and these are columns of the table.\<close>

definition local_keys :: "table_def \<Rightarrow> bool" where
  "local_keys td \<longleftrightarrow> (\<forall>i < length (td_keys td). kd_columns (the_key td i) \<subseteq> {..<td_columns td}
     \<and> (\<forall>x y. (\<forall>c \<in> kd_columns (the_key td i). x c = y c) \<longrightarrow> ukey td x i = ukey td y i))"

text \<open>The new row differs from the old one in the write set only, and no column of a unique key becomes
  NULL.\<close>

definition sound_update :: "table_def \<Rightarrow> row_update \<Rightarrow> row \<Rightarrow> row \<Rightarrow> bool" where
  "sound_update td u old new \<longleftrightarrow> (\<forall>c. c \<notin> write_set u \<longrightarrow> new c = old c)
     \<and> (\<forall>i < length (td_keys td). writable td i \<longrightarrow> kd_columns (the_key td i) \<inter> nulls u = {})"

definition updated_row :: "table_def \<Rightarrow> row_update \<Rightarrow> row \<Rightarrow> row \<Rightarrow> row" where
  "updated_row td u old new = (\<lambda>c. if c < td_columns td \<and> stored_column td u c then new c else old c)"

lemma updated_key:
  assumes "local_keys td" "sound_update td u old new" "\<not> pkey_changed td u old new"
    "i < length (td_keys td)" "writable td i"
  shows "ukey td (updated_row td u old new) i = ukey td new i"
proof -
  have "updated_row td u old new c = new c" if "c \<in> kd_columns (the_key td i)" for c
  proof -
    have c: "c < td_columns td" "c \<notin> nulls u"
      using that assms(1,2,4,5) by (auto simp: local_keys_def sound_update_def)
    show ?thesis
    proof (cases "c \<in> write_set u")
      case False
      then show ?thesis using assms(2) by (simp add: updated_row_def stored_column_def sound_update_def)
    next
      case True
      then have "c \<in> pkey_columns td \<Longrightarrow> new c = old c"
        using assms(3) c by (auto simp: pkey_changed_def list_ex_iff)
      then show ?thesis using True c by (auto simp: updated_row_def stored_column_def)
    qed
  qed
  then show ?thesis using assms(1,4) unfolding local_keys_def by blast
qed

lemma update_row_consistent:
  assumes run: "storage_update_row flt td d u old new h = (0, h', es)" and con: "consistent td d"
    and old: "d_rows d (record_id h) = Some old" and fr: "fresh_ids flt td d" and pr: "proper_faults flt"
    and loc: "local_keys td" and snd_u: "sound_update td u old new" and nd: "\<not> dry_write flt"
  shows "consistent td (apply_effects es d)
    \<and> d_rows (apply_effects es d) = (d_rows d)(record_id h \<mapsto> updated_row td u old new)"
proof -
  let ?r = "record_id h" and ?h = "storage_prepare_delete_row_unique_indexes td d old h"
  let ?new = "updated_row td u old new"
  obtain e1 h1 ks where uni: "update_unique_loop flt td d u new 0 ?h = (e1, h1, ks)" by (metis prod_cases3)
  obtain e2 cs where col: "update_columns flt td u ?r new [0..<td_columns td] = (e2, cs)" by fastforce
  obtain e3 "is" where idx: "update_indexes flt td ?r (Some old) (Some new) (all_keys td) = (e3, is)" by fastforce
  obtain e4 ds where del: "delete_unique_loop flt td h1 (all_keys td) = (e4, ds)" by fastforce
  have e: "e1 = 0" "e2 = 0" "e3 = 0" "e4 = 0" "\<not> pkey_changed td u old new"
    and es: "es = snd (snd (with_operation flt ''update'' (td_name td) (0, h1, JournalTarget ?r # ks @ cs @ is @ ds)))"
    using run nd uni col idx del
    by (auto simp: storage_update_row_def update_row_body_def storage_update_row_unique_indexes_def
        storage_delete_row_unique_indexes_def with_operation_def error_codes split: if_splits)
  note u_ok = update_unique_loop_ok [OF uni [unfolded e(1)] pr]
  note c_ok = update_columns_ok [OF col [unfolded e(2)] pr, of "d_rows d" old, OF old]
  have sh: "keyless is" "rowless is"
    using update_indexes_shape [of flt td ?r "Some old" "Some new" "all_keys td"] idx by simp_all
  have ds: "rowless ds" "fold (key_step j) ds m = (if j < length (td_keys td) \<and> unique_key td j \<and> del_key_id h1 j \<noteq> GRN_ID_NIL
      then remove_id (del_key_id h1 j) m else m)" for j m
    using delete_unique_loop_ok [OF del [unfolded e(4)]] by simp_all
  have "(\<lambda>c. if c \<in> set [0..<td_columns td] \<and> stored_column td u c then new c else old c) = ?new"
    by (auto simp: updated_row_def fun_eq_iff)
  then have rows: "d_rows (apply_effects es d) = (d_rows d)(?r \<mapsto> ?new)"
    using u_ok c_ok sh ds(1) by (simp add: apply_effects_parts es)
  moreover have "index_ok (kd_key (the_key td i)) (d_keys (apply_effects es d) i) ((d_rows d)(?r \<mapsto> ?new))"
    if i: "i < length (td_keys td)" "writable td i" for i
  proof -
    let ?K = "kd_key (the_key td i)" and ?m = "d_keys d i"
    have ok: "index_ok ?K ?m (d_rows d)" using con i by (simp add: consistent_def)
    obtain k where k: "?m (?K old) = Some k" "k \<noteq> GRN_ID_NIL" "lookup_key ?m (?K old) = k"
      using index_ok_lookup [OF ok old] by blast
    have h: "del_key_id ?h i = k" and ui: "unique_key td i"
      using i k by (simp_all add: storage_prepare_delete_row_unique_indexes_def writable_def)
    have keys: "d_keys (apply_effects es d) i = fold (key_step i) ds (fold (key_step i) ks ?m)"
      using c_ok sh by (simp add: apply_effects_parts es)
    have upd: "key_updated flt td d u new ?h h1 ks i" using u_ok i ui by simp
    have Knew: "?K ?new = ?K new" using updated_key [OF loc snd_u e(5) i] .
    show ?thesis
    proof (cases "kd_columns (the_key td i) \<inter> write_set u = {} \<or> ?m (?K new) = Some k")
      case True
      then have "d_keys (apply_effects es d) i = ?m"
        using upd h ui ds(2) i by (auto simp: keys key_updated_def)
      moreover have "?K new = ?K old"
      proof (cases "?m (?K new) = Some k")
        case True
        then show ?thesis using ok k(1) unfolding index_ok_def inj_on_def by (metis domI)
      next
        case False
        then have "\<forall>c \<in> kd_columns (the_key td i). new c = old c"
          using True snd_u by (auto simp: sound_update_def)
        then show ?thesis using loc i by (simp add: local_keys_def)
      qed
      ultimately show ?thesis using index_ok_same_key [OF ok old, of ?new] Knew by simp
    next
      case False
      then have none: "?m (?K new) = None" and d1: "del_key_id h1 i = k"
        and add: "fold (key_step i) ks ?m = ?m(?K new \<mapsto> fresh_key flt i)"
        using upd h i by (simp_all add: key_updated_def)
      have fk: "fresh_key flt i \<notin> ran ?m" "fresh_key flt i \<noteq> GRN_ID_NIL" using fresh_idsD [OF fr] i by simp_all
      have "k \<noteq> fresh_key flt i" using fk(1) k(1) by (auto simp: ran_def)
      then have "d_keys (apply_effects es d) i = (remove_id k ?m)(?K new \<mapsto> fresh_key flt i)"
        using ds(2) i ui d1 k(2) none by (auto simp: keys add remove_id_def fun_eq_iff)
      moreover have "index_ok ?K (remove_id k ?m) ((d_rows d)(?r := None))"
        using index_ok_delete [OF ok old] k(3) by simp
      then have "index_ok ?K ((remove_id k ?m)(?K ?new \<mapsto> fresh_key flt i)) (((d_rows d)(?r := None))(?r \<mapsto> ?new))"
        using none fk Knew by (intro index_ok_add) (auto simp: remove_id_def ran_def split: if_splits)
      ultimately show ?thesis by (simp add: Knew)
    qed
  qed
  ultimately show ?thesis by (simp add: consistent_def)
qed

section \<open>Failed statements\<close>

lemma write_row_undone:
  assumes "storage_write_row flt td d row h = (e, h', es)" "e \<noteq> 0" "enabled td" "fresh_ids flt td d" "proper_faults flt"
  shows "d_keys (apply_effects es d) i
      = (if leaves_keys flt td d row \<and> i < length (td_keys td) \<and> unique_key td i then (d_keys d i)(ukey td row i \<mapsto> fresh_key flt i) else d_keys d i)"
    "d_rows (apply_effects es d) = d_rows d" "d_pkeys (apply_effects es d) = d_pkeys d"
proof -
  obtain e0 h0 es0 where b: "write_row_body flt td d row h = (e0, h0, es0)" by (metis prod_cases3)
  have nd: "\<not> dry_write flt" using assms(1,2) by (auto simp: storage_write_row_def)
  then have e: "e0 = e" "es = snd (snd (with_operation flt ''write'' (td_name td) (e0, h0, es0)))"
    using assms(1) b by (auto simp: storage_write_row_def with_operation_def)
  have w: "i < length (td_keys td) \<and> unique_key td i \<longleftrightarrow> i < length (td_keys td) \<and> writable td i" for i
    using assms(3) by (auto simp: enabled_def writable_def)
  have "fold (key_step i) es0 (d_keys d i) = (if leaves_keys flt td d row \<and> i < length (td_keys td) \<and> unique_key td i
      then (d_keys d i)(ukey td row i \<mapsto> fresh_key flt i) else d_keys d i) \<and> fold row_step es0 (d_rows d) = d_rows d
      \<and> fold pkey_step es0 (d_pkeys d) = d_pkeys d"
  proof (cases "leaves_keys flt td d row")
    case True
    note l = write_row_body_leaves [OF b True]
    show ?thesis using True l(1) l(2,3) [of i "d_keys d i"] w [of i] by auto
  next
    case no: False
    show ?thesis
    proof (cases "returns_early flt td row")
      case True
      show ?thesis using write_row_body_early [OF b [unfolded e(1)] assms(2-4) True no] no by simp
    next
      case False
      show ?thesis using write_row_body_fail [OF b [unfolded e(1)] assms(2-5) False] no by simp
    qed
  qed
  then show "d_keys (apply_effects es d) i
      = (if leaves_keys flt td d row \<and> i < length (td_keys td) \<and> unique_key td i then (d_keys d i)(ukey td row i \<mapsto> fresh_key flt i) else d_keys d i)"
    "d_rows (apply_effects es d) = d_rows d" "d_pkeys (apply_effects es d) = d_pkeys d"
    by (simp_all add: apply_effects_parts e(2))
qed

lemma write_row_covers:
  assumes "storage_write_row flt td d row h = (e, h', es)" "covered td d" "enabled td" "fresh_ids flt td d" "proper_faults flt"
    and "\<forall>c \<ge> td_columns td. row c = []"
  shows "covered td (apply_effects es d)"
proof (cases "dry_write flt \<or> e \<noteq> 0")
  case dry: True
  show ?thesis
  proof (cases "dry_write flt")
    case True
    then show ?thesis using assms(1,2) by (simp add: storage_write_row_def)
  next
    case False
    then have e: "e \<noteq> 0" using dry by simp
    note u = write_row_undone [OF assms(1) e assms(3-5)]
    have "index_covers (kd_key (the_key td i)) (d_keys (apply_effects es d) i) (d_rows d)"
      if i: "i < length (td_keys td)" "writable td i" for i
    proof -
      have c: "index_covers (kd_key (the_key td i)) (d_keys d i) (d_rows d)" using assms(2) i by (simp add: covered_def)
      have "leaves_keys flt td d row \<Longrightarrow> d_keys d i (ukey td row i) = None" using i by (simp add: leaves_keys_def key_accepted_def)
      then show ?thesis using c covers_add [OF c _ fresh_idsD(1,2) [OF assms(4) i(1)]] unfolding u(1) by simp
    qed
    then show ?thesis by (simp add: covered_def u(2))
  qed
next
  case False
  obtain e0 h0 es0 where b: "write_row_body flt td d row h = (e0, h0, es0)" by (metis prod_cases3)
  then have e0: "e0 = 0" and es: "es = snd (snd (with_operation flt ''write'' (td_name td) (e0, h0, es0)))"
    using assms(1) False by (auto simp: storage_write_row_def with_operation_def)
  note new = write_row_new [OF b [unfolded e0] assms(4-6)]
  have "index_covers (kd_key (the_key td i)) (d_keys (apply_effects es d) i) (d_rows (apply_effects es d))"
    if i: "i < length (td_keys td)" "writable td i" for i
    using new(1) new(2) [OF i(2,1)] assms(2) i fresh_idsD [OF assms(4)]
    by (simp add: apply_effects_parts es covered_def covers_new)
  then show ?thesis by (simp add: covered_def)
qed

lemma delete_row_covers:
  assumes "storage_delete_row flt td d old h = (e, h', es)" "covered td d" "d_rows d (record_id h) = Some old"
  shows "covered td (apply_effects es d)"
proof -
  let ?r = "record_id h" and ?h = "storage_prepare_delete_row_unique_indexes td d old h"
  obtain e1 "is" where idx: "update_indexes flt td ?r (Some old) None (all_keys td) = (e1, is)" by fastforce
  obtain e2 ks where del: "delete_unique_loop flt td ?h (all_keys td) = (e2, ks)" by fastforce
  have sh: "keyless is" "rowless is"
    using update_indexes_shape [of flt td ?r "Some old" None "all_keys td"] idx by simp_all
  consider "apply_effects es d = d" | "d_rows (apply_effects es d) = d_rows d" "\<And>i. d_keys (apply_effects es d) i = d_keys d i"
    | e3 es3 where "es = snd (snd (with_operation flt ''delete'' (td_name td) (e3, ?h, JournalTarget ?r # DeleteRecord ?r # is @ es3)))" "es3 = [] \<or> es3 = ks"
    using assms(1) idx del
    by (auto simp: storage_delete_row_def delete_row_body_def storage_delete_row_unique_indexes_def with_operation_def start_effects_def Let_def
        apply_effects_parts split: if_splits)
  then show ?thesis
  proof cases
    case 3
    then have rows: "d_rows (apply_effects es d) = (d_rows d)(?r := None)"
      using sh delete_unique_loop_any [OF del] by (auto simp: apply_effects_parts)
    have "index_covers (kd_key (the_key td i)) (d_keys (apply_effects es d) i) ((d_rows d)(?r := None))"
      if i: "i < length (td_keys td)" "writable td i" for i
    proof -
      let ?K = "kd_key (the_key td i)" and ?m = "d_keys d i"
      have c: "index_covers ?K ?m (d_rows d)" using assms(2) i by (simp add: covered_def)
      obtain k where k: "?m (?K old) = Some k" "lookup_key ?m (?K old) = k" using covers_lookup [OF c assms(3)] by blast
      have "del_key_id ?h i = k" using i k by (simp add: storage_prepare_delete_row_unique_indexes_def writable_def)
      then have "d_keys (apply_effects es d) i \<in> {?m, remove_id k ?m}"
        using 3 sh delete_unique_loop_any [OF del, of i ?m] by (auto simp: apply_effects_parts)
      moreover have "?K y \<noteq> ?K old" if "((d_rows d)(?r := None)) s = Some y" for s y
        using that covers_same [OF c _ assms(3), of s y] by (auto split: if_splits)
      then have "index_covers ?K (remove_id k ?m) ((d_rows d)(?r := None))" using covers_remove [OF covers_delete [OF c] k(1)] by blast
      ultimately show ?thesis using covers_delete [OF c] by auto
    qed
    then show ?thesis by (simp add: covered_def rows)
  qed (use assms(2) in \<open>simp_all add: covered_def\<close>)
qed

text \<open>An update that fails while it sets the columns or the indexes of several columns keeps what it has set, but removes the new keys.\<close>

definition columns_refused :: "faults \<Rightarrow> table_def \<Rightarrow> row_update \<Rightarrow> grn_id \<Rightarrow> row \<Rightarrow> row \<Rightarrow> bool" where
  "columns_refused flt td u r old new \<longleftrightarrow> fst (update_columns flt td u r new [0..<td_columns td]) \<noteq> 0
     \<or> fst (storage_update_row_index flt td r old new) \<noteq> 0"

lemma update_row_covers:
  assumes run: "storage_update_row flt td d u old new h = (e, h', es)" and con: "covered td d" and en: "enabled td"
    and old: "d_rows d (record_id h) = Some old" and fr: "fresh_ids flt td d" and pr: "proper_faults flt"
    and loc: "local_keys td" and snd_u: "sound_update td u old new" and ok: "\<not> columns_refused flt td u (record_id h) old new"
  shows "covered td (apply_effects es d)"
proof -
  let ?r = "record_id h" and ?h = "storage_prepare_delete_row_unique_indexes td d old h" and ?n = "length (td_keys td)"
  let ?new = "updated_row td u old new"
  obtain e1 h1 ks where uni: "update_unique_loop flt td d u new 0 ?h = (e1, h1, ks)" by (metis prod_cases3)
  obtain cs where col: "update_columns flt td u ?r new [0..<td_columns td] = (0, cs)" using ok by (metis columns_refused_def prod.collapse)
  obtain "is" where idx: "update_indexes flt td ?r (Some old) (Some new) (all_keys td) = (0, is)"
    using ok by (metis columns_refused_def prod.collapse storage_update_row_index_def)
  obtain e4 ds where del: "delete_unique_loop flt td h1 (all_keys td) = (e4, ds)" by fastforce
  note any = update_unique_loop_any [OF uni en fr le0, simplified]
  have zero: "keys_so_far flt td d new g 0 j = d_keys d j" for g j by (simp add: keys_so_far_def)
  consider "apply_effects es d = d" | "d_rows (apply_effects es d) = d_rows d" "\<And>i. d_keys (apply_effects es d) i = d_keys d i"
    | (unique) "e1 \<noteq> 0" "es = snd (snd (with_operation flt ''update'' (td_name td) (e1, h1, JournalTarget ?r # ks)))"
    | (pkey) "e1 = 0" "es = snd (snd (with_operation flt ''update'' (td_name td) (ER_ERROR_ON_WRITE, h1, JournalTarget ?r # ks @ undo_update td h1)))"
    | (full) "e1 = 0" "\<not> pkey_changed td u old new"
        "es = snd (snd (with_operation flt ''update'' (td_name td) (e4, h1, JournalTarget ?r # ks @ cs @ is @ ds)))"
    using run uni col idx del
    by (auto simp: storage_update_row_def update_row_body_def storage_update_row_unique_indexes_def
        storage_delete_row_unique_indexes_def with_operation_def start_effects_def apply_effects_parts split: if_splits)
  then show ?thesis
  proof cases
    case unique
    have "d_keys (apply_effects es d) i = d_keys d i" if "i < ?n" "writable td i" for i
      using any that unique(1) by (simp add: unique(2) apply_effects_parts zero)
    moreover have "d_rows (apply_effects es d) = d_rows d" using any by (simp add: unique(2) apply_effects_parts)
    ultimately show ?thesis using con by (simp add: covered_def)
  next
    case pkey
    have "d_keys (apply_effects es d) i = d_keys d i" if i: "i < ?n" "writable td i" for i
    proof -
      have a: "key_id h1 i = GRN_ID_NIL \<or> key_added flt td d new h1 i" "fold (key_step i) ks (d_keys d i) = keys_so_far flt td d new h1 ?n i"
        using any i pkey(1) by (simp_all add: zero)
      have "i \<in> set (filter (\<lambda>j. unique_key td j \<and> key_id h1 j \<noteq> GRN_ID_NIL) (all_keys td)) \<longleftrightarrow> key_id h1 i \<noteq> GRN_ID_NIL"
        using i by (simp add: writable_def)
      then show ?thesis
        using keys_so_far_undone [OF fr i(1) order_refl i(2) a(1)] a(2) by (simp add: pkey(2) apply_effects_parts undo_update_def delete_keys_fold)
    qed
    moreover have "d_rows (apply_effects es d) = d_rows d"
      using any by (simp add: pkey(2) apply_effects_parts undo_update_def delete_keys_rowless)
    ultimately show ?thesis using con by (simp add: covered_def)
  next
    case full
    note u_ok = update_unique_loop_ok [OF uni [unfolded full(1)] pr]
    note c_ok = update_columns_ok [OF col pr, of "d_rows d" old, OF old]
    have sh: "keyless is" "rowless is"
      using update_indexes_shape [of flt td ?r "Some old" "Some new" "all_keys td"] idx by simp_all
    have "(\<lambda>c. if c \<in> set [0..<td_columns td] \<and> stored_column td u c then new c else old c) = ?new"
      by (auto simp: updated_row_def fun_eq_iff)
    then have rows: "d_rows (apply_effects es d) = (d_rows d)(?r \<mapsto> ?new)"
      using u_ok c_ok sh delete_unique_loop_any [OF del] by (simp add: apply_effects_parts full(3))
    have "index_covers (kd_key (the_key td i)) (d_keys (apply_effects es d) i) ((d_rows d)(?r \<mapsto> ?new))"
      if i: "i < ?n" "writable td i" for i
    proof -
      let ?K = "kd_key (the_key td i)" and ?m = "d_keys d i"
      have c: "index_covers ?K ?m (d_rows d)" using con i by (simp add: covered_def)
      obtain k where k: "?m (?K old) = Some k" "k \<noteq> GRN_ID_NIL" "lookup_key ?m (?K old) = k" using covers_lookup [OF c old] by blast
      have h: "del_key_id ?h i = k" and ui: "unique_key td i"
        using i k by (simp_all add: storage_prepare_delete_row_unique_indexes_def writable_def)
      have keys: "d_keys (apply_effects es d) i = fold (key_step i) ds (fold (key_step i) ks ?m)"
        using c_ok sh by (simp add: apply_effects_parts full(3))
      have upd: "key_updated flt td d u new ?h h1 ks i" using u_ok i ui by simp
      have Knew: "?K ?new = ?K new" using updated_key [OF loc snd_u full(2) i] .
      have del_i: "fold (key_step i) ds m = m \<or> del_key_id h1 i \<noteq> GRN_ID_NIL \<and> fold (key_step i) ds m = remove_id (del_key_id h1 i) m" for m
        using delete_unique_loop_any [OF del, of i m] by blast
      show ?thesis
      proof (cases "kd_columns (the_key td i) \<inter> write_set u = {} \<or> ?m (?K new) = Some k")
        case True
        then have "d_keys (apply_effects es d) i = ?m" using upd h del_i by (auto simp: keys key_updated_def)
        moreover have "?K new = ?K old"
        proof (cases "?m (?K new) = Some k")
          case True
          then show ?thesis using covers_inj [OF c _ k(1)] by simp
        next
          case False
          then have "\<forall>c \<in> kd_columns (the_key td i). new c = old c" using True snd_u by (auto simp: sound_update_def)
          then show ?thesis using loc i by (simp add: local_keys_def)
        qed
        ultimately show ?thesis using covers_same_key [OF c old, of ?new] Knew by simp
      next
        case False
        then have none: "?m (?K new) = None" and d1: "del_key_id h1 i = k"
          and add: "fold (key_step i) ks ?m = ?m(?K new \<mapsto> fresh_key flt i)"
          using upd h i by (simp_all add: key_updated_def)
        have c1: "index_covers ?K (?m(?K new \<mapsto> fresh_key flt i)) ((d_rows d)(?r \<mapsto> ?new))"
          using covers_new [OF c, of ?new "fresh_key flt i" ?r] none fresh_idsD(1,2) [OF fr i(1)] by (simp add: Knew)
        have "?K new \<noteq> ?K old" using none k(1) by auto
        then have k1: "(?m(?K new \<mapsto> fresh_key flt i)) (?K old) = Some k" using k(1) by simp
        have "?K y \<noteq> ?K old" if "((d_rows d)(?r \<mapsto> ?new)) s = Some y" for s y
          using that covers_same [OF c _ old, of s y] Knew \<open>?K new \<noteq> ?K old\<close> by (auto split: if_splits)
        then have "index_covers ?K (remove_id k (?m(?K new \<mapsto> fresh_key flt i))) ((d_rows d)(?r \<mapsto> ?new))"
          using covers_remove [OF c1 k1] by blast
        then show ?thesis using c1 del_i [of "?m(?K new \<mapsto> fresh_key flt i)"] d1 by (auto simp: keys add)
      qed
    qed
    then show ?thesis by (simp add: covered_def rows)
  qed (use con in \<open>simp_all add: covered_def\<close>)
qed

section \<open>Sequences of statements\<close>

text \<open>A statement on a table whose indexes are all enabled, whatever its outcome, on a stored row. Not every failed update is one: setting
  columns and indexes of several columns must succeed, and a column of a unique key does not become NULL.\<close>

inductive statement :: "table_def \<Rightarrow> disk \<Rightarrow> disk \<Rightarrow> bool" for td :: table_def where
  write_stm: "storage_write_row flt td d row h = (e, h', es) \<Longrightarrow> fresh_ids flt td d \<Longrightarrow> proper_faults flt \<Longrightarrow>
     \<forall>c \<ge> td_columns td. row c = [] \<Longrightarrow> statement td d (apply_effects es d)"
| delete_stm: "storage_delete_row flt td d old h = (e, h', es) \<Longrightarrow> d_rows d (record_id h) = Some old \<Longrightarrow>
     statement td d (apply_effects es d)"
| update_stm: "storage_update_row flt td d u old new h = (e, h', es) \<Longrightarrow> d_rows d (record_id h) = Some old \<Longrightarrow>
     fresh_ids flt td d \<Longrightarrow> proper_faults flt \<Longrightarrow> sound_update td u old new \<Longrightarrow> \<not> columns_refused flt td u (record_id h) old new \<Longrightarrow>
     statement td d (apply_effects es d)"

text \<open>A statement that leaves nothing behind: a write that does not fail between the keys and the record, a successful delete or update.\<close>

inductive tidy_statement :: "table_def \<Rightarrow> disk \<Rightarrow> disk \<Rightarrow> bool" for td :: table_def where
  tidy_write: "storage_write_row flt td d row h = (e, h', es) \<Longrightarrow> fresh_ids flt td d \<Longrightarrow> proper_faults flt \<Longrightarrow>
     e \<noteq> 0 \<longrightarrow> \<not> leaves_keys flt td d row \<Longrightarrow> \<forall>c \<ge> td_columns td. row c = [] \<Longrightarrow> tidy_statement td d (apply_effects es d)"
| tidy_delete: "storage_delete_row flt td d old h = (0, h', es) \<Longrightarrow> d_rows d (record_id h) = Some old \<Longrightarrow>
     tidy_statement td d (apply_effects es d)"
| tidy_update: "storage_update_row flt td d u old new h = (0, h', es) \<Longrightarrow> d_rows d (record_id h) = Some old \<Longrightarrow>
     fresh_ids flt td d \<Longrightarrow> proper_faults flt \<Longrightarrow> sound_update td u old new \<Longrightarrow> tidy_statement td d (apply_effects es d)"

lemma statement_covered:
  assumes "statement td d d'" "enabled td" "local_keys td" "covered td d"
  shows "covered td d'"
  using assms(1)
proof cases
  case (write_stm flt row h e h' es)
  then show ?thesis using write_row_covers [OF write_stm(2) assms(4,2)] by blast
next
  case (delete_stm flt old h e h' es)
  then show ?thesis using delete_row_covers assms(4) by blast
next
  case (update_stm flt u old new h e h' es)
  then show ?thesis using update_row_covers [OF update_stm(2) assms(4,2)] assms(3) by blast
qed

lemma tidy_statement_consistent:
  assumes "tidy_statement td d d'" "enabled td" "local_keys td" "consistent td d"
  shows "consistent td d'"
  using assms(1)
proof cases
  case (tidy_write flt row h e h' es)
  show ?thesis
  proof (cases "e = 0")
    case True
    then show ?thesis using tidy_write write_row_consistent assms(4) by blast
  next
    case False
    then have "d_keys d' i = d_keys d i" "d_rows d' = d_rows d" for i
      using write_row_undone [OF tidy_write(2) False assms(2) tidy_write(3,4)] tidy_write(1,5) by simp_all
    then show ?thesis using assms(4) by (simp add: consistent_def)
  qed
next
  case (tidy_delete flt old h h' es)
  then show ?thesis using delete_row_consistent(1) assms(4) by blast
next
  case (tidy_update flt u old new h h' es)
  show ?thesis
  proof (cases "dry_write flt")
    case True
    then show ?thesis using tidy_update assms(4) by (simp add: storage_update_row_def)
  next
    case False
    then show ?thesis using tidy_update update_row_consistent assms(3,4) by blast
  qed
qed

section \<open>The journal of a statement\<close>

lemma set_operation_row [simp]:
  assumes "op \<notin> fst ` set rows" "is_enabled_recording ops" "op_rows ops = rows @ [(op, x)]"
  shows "set_operation op f ops = ops\<lparr>op_rows := rows @ [(op, f x)]\<rparr>"
proof -
  have "map (\<lambda>(i, y). (i, if i = op then f y else y)) rows = rows"
    using assms(1) by (intro map_idI) force
  then show ?thesis using assms(2,3) by (simp add: set_operation_def)
qed

lemma finish_row [simp]:
  assumes "op \<notin> fst ` set rows" "is_enabled_recording ops" "op_rows ops = rows @ [(op, x)]"
  shows "finish op ops = ops\<lparr>op_rows := rows\<rparr>"
  using assms delete_row_fresh [OF assms(1)] by (simp add: finish_def delete_row_def)

lemma others_append [simp]: "others tname (xs @ ys) = others tname xs @ others tname ys"
  by (simp add: others_def)

lemma targets_append [simp]: "targets tname (xs @ ys) = targets tname xs \<union> targets tname ys"
  by (auto simp: targets_def)

lemma no_operation_of:
  assumes "\<forall>(i, x) \<in> set rows. op_table x \<noteq> tname"
  shows "others tname rows = rows" "targets tname rows = {}"
  using assms by (auto simp: others_def targets_def intro!: filter_True)

text \<open>Repair with at most one unfinished operation of the table.\<close>

lemma repair_one:
  assumes "\<forall>(i, x) \<in> set rows. op_table x \<noteq> tname" "distinct (map fst (rows @ new))"
    and "set new \<subseteq> {(op, x)}" "length new \<le> 1" "op_table x = tname" "repairable x"
    and "cursor_opens env" "\<And>i. delete_op_rc env i = 0" "\<And>r. delete_record_rc env r = 0"
    and "op_rows ops = rows @ new"
  shows "repair env tname ops (Some R) = (0, ops\<lparr>op_rows := rows\<rparr>, Some (R - targets tname new))"
proof -
  have "\<forall>(i, y) \<in> set (rows @ new). op_table y = tname \<longrightarrow> repairable y" using assms(1,3,6) by auto
  then have "repair_loop env tname (rows @ new) ([] @ rows @ new) (Some R)
    = (0, [] @ others tname (rows @ new), Some (R - targets tname (rows @ new)))"
    using assms(2,8,9) by (intro repair_loop_all) simp_all
  moreover have "others tname new = []" using assms(3,5) by (auto simp: others_def filter_empty_conv)
  ultimately show ?thesis using no_operation_of [OF assms(1)] assms(7,10) by (simp add: repair_def)
qed

lemma set_columns_dom:
  assumes "\<forall>e \<in> set es. \<exists>c v. e = SetColumn r c v"
  shows "dom (fold row_step es m) = dom m"
proof -
  obtain f where "fold row_step es m = m(r := map_option f (m r))" using set_columns_fold(1) [OF assms] by blast
  then show ?thesis by (auto simp: domIff split: if_splits)
qed

lemma take_shape:
  "quiet es \<Longrightarrow> quiet (take n es)" "rowless es \<Longrightarrow> rowless (take n es)"
  by (auto simp: quiet_def rowless_def dest: in_set_takeD)

text \<open>The database after the first \<open>k\<close> effects of a successful write: the operation has no table name yet, it has no target yet, the record
  is new and the operation has no target yet, the operation has a target, or all is done.\<close>

lemma write_row_prefix:
  assumes run: "storage_write_row flt td d row h = (0, h', es)" and nd: "\<not> dry_write flt"
    and fr: "fresh_ids flt td d" and pr: "proper_faults flt" and cols: "\<forall>c \<ge> td_columns td. row c = []"
    and rec: "is_enabled_recording (d_journal d)"
  defines "r \<equiv> fresh_record flt" and "rows \<equiv> op_rows (d_journal d)"
    and "x \<equiv> \<lparr>op_type = ''write'', op_table = td_name td, op_record = GRN_ID_NIL\<rparr>"
  obtains new where "k < 3"
      "apply_effects (take k es) d = d\<lparr>d_journal := (d_journal d)\<lparr>op_rows := rows @ new\<rparr>, d_operation := d_operation (apply_effects (take k es) d)\<rparr>"
      "\<forall>(i, y) \<in> set new. op_table y = []"
    | "3 \<le> k" "k < length es" "d_journal (apply_effects (take k es) d) = (d_journal d)\<lparr>op_rows := rows @ [(fresh_operation flt, x)]\<rparr>"
      "dom (d_rows (apply_effects (take k es) d)) = dom (d_rows d)" "\<not> (\<exists>pk. last (take k es) = AddRecord pk r)"
    | pk where "3 \<le> k" "k < length es" "d_journal (apply_effects (take k es) d) = (d_journal d)\<lparr>op_rows := rows @ [(fresh_operation flt, x)]\<rparr>"
      "d_rows (apply_effects (take k es) d) = (d_rows d)(r \<mapsto> (\<lambda>_. []))" "last (take k es) = AddRecord pk r"
    | "3 \<le> k" "k < length es" "d_journal (apply_effects (take k es) d) = (d_journal d)\<lparr>op_rows := rows @ [(fresh_operation flt, x\<lparr>op_record := r\<rparr>)]\<rparr>"
      "dom (d_rows (apply_effects (take k es) d)) = insert r (dom (d_rows d))" "\<not> (\<exists>pk. last (take k es) = AddRecord pk r)"
    | "length es \<le> k" "d_journal (apply_effects es d) = d_journal d"
      "d_rows (apply_effects es d) = (d_rows d)(r \<mapsto> row)" "\<not> (\<exists>pk. last (take k es) = AddRecord pk r)"
proof -
  let ?op = "fresh_operation flt" and ?S = "start_effects flt ''write'' (td_name td)"
  obtain e0 h0 es0 where b: "write_row_body flt td d row h = (e0, h0, es0)" by (metis prod_cases3)
  then have "e0 = 0" and es_b: "es = ?S @ es0 @ [JournalFinish]"
    using run nd by (auto simp: storage_write_row_def with_operation_def)
  obtain h1 ks cs "is" where es0: "es0 = ks @ [AddRecord (pkey_of td row) r, JournalTarget r] @ cs @ is"
    and loop: "write_unique_loop flt td d row 0 h = (0, h1, ks)"
    and wc: "write_columns flt r row [0..<td_columns td] = (0, cs)" and sh: "keyless is" "rowless is" "quiet is"
    using write_row_body_ok [OF b [unfolded \<open>e0 = 0\<close>] pr] unfolding r_def by blast
  have ks: "rowless ks" "quiet ks" using write_unique_loop_ok [OF loop] by simp_all
  have cs: "quiet cs" "\<forall>e \<in> set cs. \<exists>c v. e = SetColumn r c v"
    using write_columns_shape [of flt r row "[0..<td_columns td]"] wc by simp_all
  have op: "?op \<notin> fst ` set rows" "?op \<noteq> GRN_ID_NIL" and rr: "d_rows d r = None"
    using fr by (auto simp: fresh_ids_def rows_def r_def)
  let ?A = "AddRecord (pkey_of td row) r"
  have add: "apply_effect (JournalAdd ?op) d = d\<lparr>d_journal := (d_journal d)\<lparr>op_rows := rows @ [(?op, \<lparr>op_type = [], op_table = [], op_record = GRN_ID_NIL\<rparr>)]\<rparr>, d_operation := ?op\<rparr>"
    using rec op by (simp add: start_add_def rows_def)
  have type: "apply_effect (JournalType ''write'') (apply_effect (JournalAdd ?op) d)
      = d\<lparr>d_journal := (d_journal d)\<lparr>op_rows := rows @ [(?op, \<lparr>op_type = ''write'', op_table = [], op_record = GRN_ID_NIL\<rparr>)]\<rparr>, d_operation := ?op\<rparr>"
    unfolding add using rec op by (simp add: start_type_def)
  define d1 where "d1 = apply_effects ?S d"
  have "d1 = d\<lparr>d_journal := (d_journal d)\<lparr>op_rows := rows @ [(?op, x)]\<rparr>, d_operation := ?op\<rparr>"
    unfolding d1_def start_effects_def apply_effects_simps type using rec op by (simp add: start_table_def x_def)
  then have d1: "d_journal d1 = (d_journal d)\<lparr>op_rows := rows @ [(?op, x)]\<rparr>" "d_operation d1 = ?op" "d_rows d1 = d_rows d" by simp_all
  have quiet1: "d_journal (apply_effects qs d1) = d_journal d1" "d_operation (apply_effects qs d1) = ?op" if "quiet qs" for qs
    using apply_effects_journal [of qs d1] that d1(2) by (simp_all add: quiet_def)
  have js: "apply_effects (?S @ qs) d = apply_effects qs d1" for qs by (simp only: apply_effects_simps d1_def)
  define d2 where "d2 = apply_effects (ks @ [?A, JournalTarget r]) d1"
  have d2: "d_journal d2 = (d_journal d)\<lparr>op_rows := rows @ [(?op, x\<lparr>op_record := r\<rparr>)]\<rparr>" "d_operation d2 = ?op"
    "d_rows d2 = (d_rows d)(r \<mapsto> (\<lambda>_. []))"
    using ks quiet1 [of ks] rec op d1 by (simp_all add: d2_def apply_effects_parts record_target_def)
  have quiet2: "d_journal (apply_effects qs d2) = d_journal d2" "d_operation (apply_effects qs d2) = ?op" if "quiet qs" for qs
    using apply_effects_journal [of qs d2] that d2(2) by (simp_all add: quiet_def)
  have es: "es = ?S @ ks @ ?A # JournalTarget r # (cs @ is) @ [JournalFinish]" by (simp add: es_b es0)
  have S: "length ?S = 3" by (simp add: start_effects_def)
  have tk: "take k es = ?S @ take (k - 3) (ks @ ?A # JournalTarget r # (cs @ is) @ [JournalFinish])" if "3 \<le> k"
    using that S by (simp add: es take_append)
  let ?a = "length ks"
  consider "k < 3" | "3 \<le> k" "k \<le> ?a + 3" | "k = ?a + 4" | "?a + 5 \<le> k" "k \<le> ?a + 5 + length (cs @ is)"
    | "length es \<le> k" unfolding es using S by fastforce
  then show thesis
  proof cases
    case 1
    then consider "k = 0" | "k = 1" | "k = 2" by linarith
    then obtain new where "take k es = [] \<and> new = [] \<or> take k es = [JournalAdd ?op] \<and> new = [(?op, \<lparr>op_type = [], op_table = [], op_record = GRN_ID_NIL\<rparr>)]
        \<or> take k es = [JournalAdd ?op, JournalType ''write''] \<and> new = [(?op, \<lparr>op_type = ''write'', op_table = [], op_record = GRN_ID_NIL\<rparr>)]"
      by cases (auto simp: es_b start_effects_def numeral_2_eq_2)
    then show thesis using that(1) [of new] 1 add type by (elim disjE) (auto simp: rows_def)
  next
    case 2
    then have t: "take k es = ?S @ take (k - 3) ks" using tk by (simp add: take_append)
    have "last (take k es) \<noteq> AddRecord pk r" for pk
      using take_shape(2) [OF ks(1), of "k - 3"] by (cases "take (k - 3) ks" rule: rev_cases) (auto simp: t start_effects_def)
    moreover have "d_journal (apply_effects (take k es) d) = d_journal d1"
      using quiet1(1) [OF take_shape(1) [OF ks(2), of "k - 3"]] by (simp only: t js)
    moreover have "d_rows (apply_effects (take k es) d) = d_rows d"
      using take_shape(2) [OF ks(1), of "k - 3"] d1(3) by (simp only: t js apply_effects_parts rowless_fold)
    ultimately show thesis using that(2) d1(1) 2 S by (simp add: es)
  next
    case 3
    then have t: "take k es = ?S @ (ks @ [?A])" using tk by (simp add: take_append)
    have "d_journal (apply_effects (take k es) d) = d_journal d1"
      unfolding t js using quiet1(1) [OF ks(2)] by simp
    moreover have "d_rows (apply_effects (take k es) d) = (d_rows d)(r \<mapsto> (\<lambda>_. []))"
      unfolding t js using ks d1(3) by (simp add: apply_effects_parts)
    moreover have "last (take k es) = ?A" by (simp add: t)
    ultimately show thesis using that(3) d1(1) 3 S by (simp add: es)
  next
    case 4
    define n where "n = k - (?a + 5)"
    have k3: "k - 3 = ?a + 2 + n" "3 \<le> k" "n \<le> length (cs @ is)" using 4 by (simp_all add: n_def)
    have "take (k - 3) ((ks @ [?A, JournalTarget r]) @ (cs @ is) @ [JournalFinish]) = (ks @ [?A, JournalTarget r]) @ take n (cs @ is)"
      unfolding take_append using k3 by simp
    then have t: "take k es = ?S @ (ks @ [?A, JournalTarget r]) @ take n (cs @ is)" using tk [OF k3(2)] by simp
    have q: "quiet (take n (cs @ is))" using take_shape(1) [of "cs @ is" n] cs(1) sh(3) by simp
    have nonadd: "e \<noteq> AddRecord pk s" if "e \<in> set (take n (cs @ is))" for e pk s
      using in_set_takeD [OF that] cs(2) sh(2) by (auto simp: rowless_def)
    have "last (take k es) \<noteq> AddRecord pk r" for pk
    proof (cases "take n (cs @ is) = []")
      case True
      then show ?thesis unfolding t by simp
    next
      case False
      then show ?thesis using nonadd [OF last_in_set] unfolding t by (simp only: last_append append_is_Nil_conv) simp
    qed
    moreover have split: "apply_effects (take k es) d = apply_effects (take n (cs @ is)) d2"
      unfolding t js d2_def by (simp only: apply_effects_simps)
    moreover have "d_journal (apply_effects (take k es) d) = d_journal d2" unfolding split using quiet2 [OF q] by simp
    moreover have "dom (d_rows (apply_effects (take k es) d)) = dom (d_rows d2)"
    proof -
      have "\<forall>e \<in> set (take n cs). \<exists>c v. e = SetColumn r c v" using cs(2) in_set_takeD by metis
      then have "dom (fold row_step (take n (cs @ is)) (d_rows d2)) = dom (d_rows d2)"
        using set_columns_dom take_shape(2) [OF sh(2)] by simp
      then show ?thesis by (simp only: split apply_effects_parts)
    qed
    moreover have "k < length es" using 4 S by (simp add: es)
    ultimately show thesis using that(4) d2 rr k3(2) by auto
  next
    case 5
    have all: "apply_effects es d = apply_effect JournalFinish (apply_effects (cs @ is) d2)"
      unfolding es js d2_def by simp
    have "d_journal (apply_effects es d) = d_journal d"
      using quiet2 [of "cs @ is"] cs(1) sh(3) d2 rec op by (simp add: all rows_def)
    moreover have "d_rows (apply_effects es d) = (d_rows d)(r \<mapsto> row)"
      using write_row_new(1) [OF b [unfolded \<open>e0 = 0\<close>] fr pr cols]
      by (simp only: apply_effects_parts es_b r_def start_effects_def fold_append fold_simps o_apply row_step.simps append_Cons append_Nil)
    moreover have "last (take k es) = JournalFinish" using 5 by (simp add: es)
    ultimately show thesis using that(5) 5 by simp
  qed
qed

section \<open>A sample table\<close>

text \<open>Two columns, the first one is the primary key and the second one has a unique key.\<close>

definition sample_key :: "nat \<Rightarrow> key_def" where
  "sample_key c = \<lparr>kd_unique = True, kd_table = (c \<noteq> 0), kd_column = (c \<noteq> 0), kd_multiple = False, kd_fulltext = False,
     kd_columns = {c}, kd_key = (\<lambda>row. row c)\<rparr>"

definition sample_table :: table_def where
  "sample_table = \<lparr>td_name = ''t'', td_columns = 2, td_keys = [sample_key 0, sample_key 1], td_primary = Some 0, td_no_key = False\<rparr>"

definition no_faults :: faults where
  "no_faults = \<lparr>dry_write = False, auto_increment_error = 0, strict_id_column = False, key_encoding_error = (\<lambda>_. 0),
     key_add_fails = (\<lambda>_. False), pkey_encoding_error = 0, record_add_fails = False, column_faults = (\<lambda>_. NoFault),
     index_update_fails = (\<lambda>_. False), no_slot_data = False, key_delete_fails = (\<lambda>_. False),
     record_delete_fails = False, referenced_by_child = False, fresh_key = (\<lambda>_. 1), fresh_record = 1, fresh_operation = 1\<rparr>"

definition no_rows :: disk where
  "no_rows = \<lparr>d_rows = Map.empty, d_pkeys = Map.empty, d_keys = (\<lambda>_. Map.empty), d_postings = (\<lambda>_. {}),
     d_journal = \<lparr>op_rows = [], table_locked = False, type_locked = False, table_column_locked = False,
       record_locked = False, is_enabled_recording = True\<rparr>, d_operation = 0\<rparr>"

definition sample_row :: row where
  "sample_row c = (if c = 0 then [7] else if c = 1 then [8] else [])"

definition idle_handler :: row_handler where
  "idle_handler = \<lparr>key_id = (\<lambda>_. 0), del_key_id = (\<lambda>_. 0), dup_key = None, record_id = 0, last_insert_record_id = 0\<rparr>"

definition sample_effects :: "effect list" where
  "sample_effects = [JournalAdd 1, JournalType ''write'', JournalTable ''t'', AddKey 1 [8] 1, AddRecord [7] 1, JournalTarget 1,
     SetColumn 1 0 [7], SetColumn 1 1 [8], JournalFinish]"

lemmas sample_defs = sample_table_def sample_key_def no_faults_def no_rows_def sample_row_def idle_handler_def
  GRN_ID_NIL_def

lemma sample_unique_loop:
  "write_unique_loop no_faults sample_table no_rows sample_row 0 idle_handler
   = (0, idle_handler\<lparr>key_id := (key_id idle_handler)(1 := 1)\<rparr>, [AddKey 1 [8] 1])"
proof -
  have "length (td_keys sample_table) = 2" by (simp add: sample_table_def)
  moreover have "write_unique_loop no_faults sample_table no_rows sample_row (Suc (Suc 0)) h = (0, h, [])" for h
    by (simp add: write_unique_loop_end sample_defs)
  moreover have "\<not> writable sample_table 0" "writable sample_table 1"
    by (simp_all add: writable_def unique_key_def sample_defs)
  moreover have "storage_write_row_unique_index no_faults sample_table no_rows sample_row 1 idle_handler
    = (0, idle_handler\<lparr>key_id := (key_id idle_handler)(1 := 1)\<rparr>, [AddKey 1 [8] 1])"
    by (simp add: storage_write_row_unique_index_def Let_def sample_defs)
  ultimately show ?thesis
    using write_unique_loop_skip [of 0 sample_table no_faults no_rows sample_row idle_handler]
      write_unique_loop_key [of 1 sample_table no_faults no_rows sample_row idle_handler]
    by simp
qed

lemmas sample_start = start_add_def start_type_def start_table_def record_target_def finish_def set_operation_def delete_row_def

lemma sample_write:
  "\<exists>h'. storage_write_row no_faults sample_table no_rows sample_row idle_handler = (0, h', sample_effects)"
  using sample_unique_loop
  by (simp add: storage_write_row_def write_row_body_def storage_write_row_unique_indexes_def write_record_def
      with_operation_def start_effects_def pkey_of_def sample_effects_def Let_def upt_rec numeral_eq_Suc sample_defs)

lemma sample_facts:
  "fresh_ids no_faults sample_table no_rows" "proper_faults no_faults" "enabled sample_table" "local_keys sample_table"
  "consistent sample_table no_rows" "\<not> returns_early no_faults sample_table sample_row"
  "\<forall>c \<ge> td_columns sample_table. sample_row c = []" "unique_key sample_table 1"
  by (auto simp: fresh_ids_def proper_faults_def enabled_def local_keys_def consistent_def index_ok_def returns_early_def
      writable_def unique_key_def pkey_of_def error_codes sample_defs less_Suc_eq numeral_eq_Suc)

section \<open>Properties\<close>





text \<open>
  A failure between the unique keys and the new record leaks the keys: when the record cannot be
  added, every unique index keeps the key of the row that was not written, so that the same row cannot
  be written later.
\<close>
theorem failed_write_leaks_keys:
  assumes "storage_write_row flt td d row h = (e, h', es)" and "\<not> dry_write flt"
    and "auto_increment_error flt = 0" and "\<not> strict_id_column flt" and "record_add_fails flt"
    and "\<forall>i < length (td_keys td). key_encoding_error flt i = 0 \<and> \<not> key_add_fails flt i \<and> d_keys d i (kd_key (the_key td i) row) = None"
    and "i < length (td_keys td)" and "writable td i"
  shows "e \<noteq> 0 \<and> d_rows (apply_effects es d) = d_rows d
    \<and> d_keys (apply_effects es d) i (kd_key (the_key td i) row) = Some (fresh_key flt i)"
proof -
  obtain e1 h1 ks where loop: "write_unique_loop flt td d row 0 h = (e1, h1, ks)" by (metis prod_cases3)
  have "write_unique_loop flt td d row j h2 = (e2, h3, es2) \<Longrightarrow> e2 = 0" for j h2 e2 h3 es2
  proof (induction "length (td_keys td) - j" arbitrary: j h2 es2)
    case 0
    then show ?case by (simp add: write_unique_loop_end)
  next
    case (Suc n)
    then have j: "j < length (td_keys td)" and n: "n = length (td_keys td) - (j + 1)" by simp_all
    have one: "storage_write_row_unique_index flt td d row j h2
      = (0, h2\<lparr>key_id := (key_id h2)(j := fresh_key flt j)\<rparr>, [AddKey j (ukey td row j) (fresh_key flt j)])"
      using assms(6) j by (simp add: storage_write_row_unique_index_def Let_def)
    show ?case
    proof (cases "writable td j")
      case True
      then show ?thesis
        using Suc.prems Suc.hyps(1) [OF n] write_unique_loop_key [OF j True] one by (auto split: prod.splits)
    next
      case False
      then show ?thesis using Suc.prems Suc.hyps(1) [OF n] write_unique_loop_skip [OF j False] by simp
    qed
  qed
  then have e1: "e1 = 0" using loop by blast
  note ok = write_unique_loop_ok [OF loop [unfolded e1]]
  have "\<exists>e0 h0. write_row_body flt td d row h = (e0, h0, ks) \<and> e0 \<noteq> 0"
    using assms(3-5) loop e1
    by (simp add: write_row_body_def storage_write_row_unique_indexes_def Let_def error_codes)
  then obtain e0 h0 where body: "write_row_body flt td d row h = (e0, h0, ks)" "e0 \<noteq> 0" by blast
  then have "e = e0" "es = snd (snd (with_operation flt ''write'' (td_name td) (e0, h0, ks)))"
    using assms(1,2) by (auto simp: storage_write_row_def with_operation_def)
  then show ?thesis using body(2) ok assms(7,8) by (simp add: apply_effects_parts)
qed

theorem failed_write_leaks_keys_witness:
  "\<exists>e h' es. storage_write_row (no_faults\<lparr>record_add_fails := True\<rparr>) sample_table no_rows sample_row idle_handler = (e, h', es)
     \<and> e \<noteq> 0 \<and> d_keys (apply_effects es no_rows) 1 [8] = Some 1"
proof -
  let ?flt = "no_faults\<lparr>record_add_fails := True\<rparr>"
  obtain e h' es where w: "storage_write_row ?flt sample_table no_rows sample_row idle_handler = (e, h', es)"
    by (metis prod_cases3)
  have "writable sample_table 1" by (simp add: writable_def unique_key_def sample_defs)
  then show ?thesis
    using failed_write_leaks_keys [OF w, of 1] w by (simp add: sample_defs)
qed

text \<open>Recovery from a crash in the middle of a write, when the operation has the name of the table. After any such prefix of the
  effects of a successful write, repairing the table succeeds and restores the journal; the records are those before the write,
  or the write was complete and the new row is stored with all its columns. The one exception is a crash
  directly behind the new record, before the operation has recorded it as its target: then the repair
  leaves the new record, which has no columns yet.
\<close>
lemma write_crash_recovery:
  assumes run: "storage_write_row flt td d row h = (0, h', es)" and nd: "\<not> dry_write flt"
    and fr: "fresh_ids flt td d" and pr: "proper_faults flt" and cols: "\<forall>c \<ge> td_columns td. row c = []"
    and rec: "is_enabled_recording (d_journal d)"
    and ops: "\<forall>(i, x) \<in> set (op_rows (d_journal d)). op_table x \<noteq> td_name td" "distinct (map fst (op_rows (d_journal d)))"
    and env: "cursor_opens env" "\<And>i. delete_op_rc env i = 0" "\<And>r. delete_record_rc env r = 0" and k: "3 \<le> k"
  shows "\<exists>R. repair env (td_name td) (d_journal (apply_effects (take k es) d)) (Some (dom (d_rows (apply_effects (take k es) d))))
      = (0, d_journal d, Some R)
    \<and> (if \<exists>pk. last (take k es) = AddRecord pk (fresh_record flt)
       then d_rows (apply_effects (take k es) d) = (d_rows d)(fresh_record flt \<mapsto> (\<lambda>_. [])) \<and> R = insert (fresh_record flt) (dom (d_rows d))
       else R = dom (d_rows d) \<or> length es \<le> k \<and> d_rows (apply_effects (take k es) d) = (d_rows d)(fresh_record flt \<mapsto> row)
         \<and> R = dom (d_rows (apply_effects (take k es) d)))
    \<and> (length es \<le> k \<and> d_journal (apply_effects (take k es) d) = d_journal d \<and> \<not> (\<exists>pk. last (take k es) = AddRecord pk (fresh_record flt))
       \<or> (\<exists>i x. (i, x) \<in> set (op_rows (d_journal (apply_effects (take k es) d))) \<and> op_table x = td_name td))"
proof -
  let ?r = "fresh_record flt" and ?op = "fresh_operation flt" and ?rows = "op_rows (d_journal d)"
  let ?x = "\<lparr>op_type = ''write'', op_table = td_name td, op_record = GRN_ID_NIL\<rparr>"
  let ?d = "apply_effects (take k es) d"
  have op: "?op \<notin> fst ` set ?rows" and rr: "d_rows d ?r = None" "?r \<noteq> GRN_ID_NIL" using fr by (auto simp: fresh_ids_def)
  have rep: "repair env (td_name td) (d_journal ?d) (Some R)
      = (0, d_journal d, Some (R - (if op_record y = GRN_ID_NIL then {} else {op_record y})))"
    if "d_journal ?d = (d_journal d)\<lparr>op_rows := ?rows @ [(?op, y)]\<rparr>" "op_table y = td_name td" "op_type y = ''write''" for y R
  proof -
    have "repairable y" using that(3) by (simp add: repairable_def c_str_def)
    then have "repair env (td_name td) (d_journal ?d) (Some R)
        = (0, (d_journal ?d)\<lparr>op_rows := ?rows\<rparr>, Some (R - targets (td_name td) [(?op, y)]))"
      using ops op env that(2) by (intro repair_one [where op = ?op and x = y]) (simp_all add: that(1))
    then show ?thesis using that(1,2) by (auto split: if_splits)
  qed
  have idle: "repair env (td_name td) (d_journal d) (Some R) = (0, d_journal d, Some R)" for R
    using repair_one [OF ops(1), of "[]" ?op ?x env "d_journal d" R] ops(2) env by (simp add: repairable_def)
  have named: "\<exists>i x. (i, x) \<in> set (op_rows (d_journal ?d)) \<and> op_table x = td_name td"
    if "d_journal ?d = (d_journal d)\<lparr>op_rows := ?rows @ [(?op, y)]\<rparr>" "op_table y = td_name td" for y
    using that by auto
  show ?thesis
  proof (rule write_row_prefix [OF run nd fr pr cols rec, of k])
    fix new assume "k < 3"
    then show ?thesis using k by simp
  next
    assume h: "d_journal ?d = (d_journal d)\<lparr>op_rows := ?rows @ [(?op, ?x)]\<rparr>" "dom (d_rows ?d) = dom (d_rows d)"
      "\<not> (\<exists>pk. last (take k es) = AddRecord pk ?r)"
    show ?thesis using rep [OF h(1), of "dom (d_rows ?d)"] named [OF h(1)] h(2,3) by simp
  next
    fix pk
    assume h: "d_journal ?d = (d_journal d)\<lparr>op_rows := ?rows @ [(?op, ?x)]\<rparr>" "d_rows ?d = (d_rows d)(?r \<mapsto> (\<lambda>_. []))"
      "last (take k es) = AddRecord pk ?r"
    then show ?thesis using rep [OF h(1), of "dom (d_rows ?d)"] named [OF h(1)] by auto
  next
    assume h: "d_journal ?d = (d_journal d)\<lparr>op_rows := ?rows @ [(?op, ?x\<lparr>op_record := ?r\<rparr>)]\<rparr>"
      "dom (d_rows ?d) = insert ?r (dom (d_rows d))" "\<not> (\<exists>pk. last (take k es) = AddRecord pk ?r)"
    then have "insert ?r (dom (d_rows d)) - {?r} = dom (d_rows d)" using rr by auto
    then show ?thesis using rep [OF h(1), of "dom (d_rows ?d)"] named [OF h(1)] h(2,3) rr by simp
  next
    assume h: "length es \<le> k" "d_journal (apply_effects es d) = d_journal d"
      "d_rows (apply_effects es d) = (d_rows d)(?r \<mapsto> row)" "\<not> (\<exists>pk. last (take k es) = AddRecord pk ?r)"
    then show ?thesis using idle by simp
  qed
qed

text \<open>A write changes no other record.\<close>

fun changed_record :: "effect \<Rightarrow> grn_id option" where
  "changed_record (AddRecord k r) = Some r"
| "changed_record (SetColumn r c v) = Some r"
| "changed_record (DeleteRecord r) = Some r"
| "changed_record _ = None"

lemma changed_record_rowless: "rowless es \<Longrightarrow> e \<in> set es \<Longrightarrow> changed_record e = None"
  by (cases e) (auto simp: rowless_def)

lemma other_record_unchanged:
  "\<forall>e\<in>set es. changed_record e \<in> {None, Some r} \<Longrightarrow> s \<noteq> r \<Longrightarrow> fold row_step es m s = m s"
proof (induction es arbitrary: m)
  case (Cons e es)
  have "row_step e m s = m s" using Cons.prems by (cases e) auto
  then show ?case using Cons by simp
qed simp

lemma write_row_others:
  assumes "storage_write_row flt td d row h = (0, h', es)" "proper_faults flt" "s \<noteq> fresh_record flt"
  shows "d_rows (apply_effects (take k es) d) s = d_rows d s"
proof (cases "dry_write flt")
  case True
  then show ?thesis using assms(1) by (simp add: storage_write_row_def)
next
  case False
  obtain e0 h0 es0 where b: "write_row_body flt td d row h = (e0, h0, es0)" by (metis prod_cases3)
  then have e: "e0 = 0" "es = start_effects flt ''write'' (td_name td) @ es0 @ [JournalFinish]"
    using assms(1) False by (auto simp: storage_write_row_def with_operation_def)
  obtain h1 ks cs "is" where w: "es0 = ks @ [AddRecord (pkey_of td row) (fresh_record flt), JournalTarget (fresh_record flt)] @ cs @ is"
      "write_unique_loop flt td d row 0 h = (0, h1, ks)" "write_columns flt (fresh_record flt) row [0..<td_columns td] = (0, cs)" "rowless is"
    using write_row_body_ok [OF b [unfolded e(1)] assms(2)] by blast
  have ks: "rowless ks" using write_unique_loop_ok [OF w(2)] by simp
  have cs: "\<forall>e\<in>set cs. \<exists>c v. e = SetColumn (fresh_record flt) c v"
    using write_columns_shape [of flt "fresh_record flt" row "[0..<td_columns td]"] w(3) by simp
  have "changed_record x \<in> {None, Some (fresh_record flt)}" if "x \<in> set es" for x
    using that changed_record_rowless [OF ks, of x] changed_record_rowless [OF w(4), of x] cs unfolding e(2) w(1) start_effects_def by auto
  then have "\<forall>x\<in>set (take k es). changed_record x \<in> {None, Some (fresh_record flt)}" by (meson in_set_takeD)
  then show ?thesis using other_record_unchanged assms(3) by (simp add: apply_effects_parts)
qed

lemma write_crash_recovery_witness:
  "repair healthy_env ''t'' (d_journal (apply_effects (take 7 sample_effects) no_rows))
      (Some (dom (d_rows (apply_effects (take 7 sample_effects) no_rows)))) = (0, d_journal no_rows, Some {})"
proof -
  obtain h' where w: "storage_write_row no_faults sample_table no_rows sample_row idle_handler = (0, h', sample_effects)"
    using sample_write by blast
  have "\<exists>R. repair healthy_env ''t'' (d_journal (apply_effects (take 7 sample_effects) no_rows))
      (Some (dom (d_rows (apply_effects (take 7 sample_effects) no_rows)))) = (0, d_journal no_rows, Some R)
      \<and> R = dom (d_rows no_rows)"
    using write_crash_recovery [OF w, of healthy_env 7] sample_facts
    by (simp add: healthy_env_def sample_effects_def sample_defs)
  then show ?thesis by (simp add: no_rows_def)
qed

end
