(* ===== verification/Auto_Increment.thy ===== *)
theory Auto_Increment
  imports Mrn_Prelude
begin

text \<open>
  The auto increment value of a table in storage mode, kept in its long term share and guarded by
  \<^verbatim>\<open>auto_inc_mutex\<close> (\<^verbatim>\<open>get_auto_increment\<close>, \<^verbatim>\<open>storage_get_auto_increment\<close>, \<^verbatim>\<open>storage_info\<close>, the end of
  \<^verbatim>\<open>storage_write_row\<close>, \<^verbatim>\<open>storage_reset_auto_increment\<close>, \<^verbatim>\<open>storage_create\<close>, \<^verbatim>\<open>storage_truncate\<close> and
  \<^verbatim>\<open>storage_rename_table\<close> in \<^verbatim>\<open>ha_mroonga.cpp\<close>). The value is an unsigned 64 bit integer that wraps around.
  MySQL's \<^verbatim>\<open>handler::get_auto_increment\<close>, which looks at the largest stored value, is a parameter.
\<close>

type_synonym ulonglong = "64 word"

record long_term_share =
  auto_inc_inited :: bool
  auto_inc_value :: ulonglong

definition UINT_MAX64 :: ulonglong where "UINT_MAX64 = - 1"

text \<open>A new long term share is filled with zeros.\<close>

definition new_long_term_share :: long_term_share where
  "new_long_term_share = \<lparr>auto_inc_inited = False, auto_inc_value = 0\<rparr>"

text \<open>\<open>single\<close> says that the auto increment field is the first part of its key; \<open>from_handler\<close> is the result
  of \<^verbatim>\<open>handler::get_auto_increment\<close>. The results are the first value and the number of reserved values.\<close>

definition storage_get_auto_increment ::
    "bool \<Rightarrow> ulonglong \<times> ulonglong \<Rightarrow> long_term_share \<Rightarrow> (ulonglong \<times> ulonglong) \<times> long_term_share" where
  "storage_get_auto_increment single from_handler lts =
     (if single then
        if auto_inc_inited lts then ((auto_inc_value lts, UINT_MAX64), lts)
        else (from_handler, lts\<lparr>auto_inc_value := fst from_handler, auto_inc_inited := True\<rparr>)
      else (from_handler, lts))"

definition get_auto_increment ::
    "bool \<Rightarrow> ulonglong \<times> ulonglong \<Rightarrow> ulonglong \<Rightarrow> ulonglong \<Rightarrow> long_term_share \<Rightarrow> (ulonglong \<times> ulonglong) \<times> long_term_share" where
  "get_auto_increment single from_handler increment nb_desired_values lts =
     (case storage_get_auto_increment single from_handler lts of (res, lts') \<Rightarrow>
        (res, lts'\<lparr>auto_inc_value := auto_inc_value lts' + nb_desired_values * increment\<rparr>))"

text \<open>The end of \<^verbatim>\<open>storage_write_row\<close> for a row with the value \<open>nr\<close> in the auto increment field, which is
  unsigned or positive; \<^verbatim>\<open>storage_info\<close> initializes the value first.\<close>

definition write_auto_increment :: "ulonglong \<times> ulonglong \<Rightarrow> bool \<Rightarrow> ulonglong \<Rightarrow> long_term_share \<Rightarrow> long_term_share" where
  "write_auto_increment from_handler is_unsigned nr lts =
     (if is_unsigned \<or> 0 <s nr then
        let lts' = (if auto_inc_inited lts then lts else snd (storage_get_auto_increment True from_handler lts))
        in if auto_inc_value lts' \<le> nr then lts'\<lparr>auto_inc_value := nr + 1\<rparr> else lts'
      else lts)"

definition storage_reset_auto_increment :: "ulonglong \<Rightarrow> long_term_share \<Rightarrow> long_term_share" where
  "storage_reset_auto_increment v lts = lts\<lparr>auto_inc_value := v, auto_inc_inited := True\<rparr>"

definition create_auto_increment :: "ulonglong \<Rightarrow> 'a long_term_share_scheme \<Rightarrow> 'a long_term_share_scheme" where
  "create_auto_increment v lts = (if v \<noteq> 0 then lts\<lparr>auto_inc_value := v, auto_inc_inited := True\<rparr> else lts)"

definition truncate_auto_increment :: "long_term_share \<Rightarrow> long_term_share" where
  "truncate_auto_increment lts = lts\<lparr>auto_inc_value := 0, auto_inc_inited := False\<rparr>"

definition rename_auto_increment :: "'b long_term_share_scheme \<Rightarrow> 'a long_term_share_scheme \<Rightarrow> 'a long_term_share_scheme" where
  "rename_auto_increment from to = to\<lparr>auto_inc_value := auto_inc_value from, auto_inc_inited := auto_inc_inited from\<rparr>"

definition storage_update_create_info :: "ulonglong \<times> ulonglong \<Rightarrow> bool \<Rightarrow> ulonglong \<Rightarrow> long_term_share \<Rightarrow> ulonglong \<times> long_term_share" where
  "storage_update_create_info from_handler used_auto old lts =
     (if used_auto then (old, lts)
      else let lts' = (if auto_inc_inited lts then lts else snd (storage_get_auto_increment True from_handler lts))
           in (auto_inc_value lts', lts'))"

section \<open>Runs\<close>

text \<open>What statements do with the value: reserve \<open>n\<close> values with an increment, or write a row with an
  explicit value.\<close>

datatype auto_event = Reserve ulonglong ulonglong | WriteValue ulonglong

text \<open>An event with the first value it uses and the value behind the last one, as natural numbers.\<close>

fun auto_step :: "auto_event \<Rightarrow> long_term_share \<Rightarrow> (nat \<times> nat) \<times> long_term_share" where
  "auto_step (Reserve increment n) lts =
     (case get_auto_increment True (0, 0) increment n lts of ((first, _), lts') \<Rightarrow>
        ((unat first, unat first + unat n * unat increment), lts'))"
| "auto_step (WriteValue nr) lts = ((unat nr, unat nr + 1), write_auto_increment (0, 0) True nr lts)"

fun auto_run :: "auto_event list \<Rightarrow> long_term_share \<Rightarrow> (nat \<times> nat) list" where
  "auto_run [] lts = []"
| "auto_run (e # es) lts = (case auto_step e lts of (r, lts') \<Rightarrow> r # auto_run es lts')"

lemma no_wrap_mult_add:
  fixes a b c :: "64 word"
  assumes "unat a + unat b * unat c < 2 ^ 64"
  shows "unat (a + b * c) = unat a + unat b * unat c"
  using assms by (simp add: unat_word_ariths)

lemma auto_step_inited: "auto_inc_inited lts \<Longrightarrow> auto_inc_inited (snd (auto_step e lts))"
  by (cases e) (simp_all add: get_auto_increment_def storage_get_auto_increment_def write_auto_increment_def Let_def)

text \<open>An event that does not overflow moves the value behind everything it uses, and never back.\<close>

lemma auto_step_value:
  assumes "auto_inc_inited lts" "auto_step e lts = ((lo, hi), lts')" "hi < 2 ^ 64"
  shows "hi \<le> unat (auto_inc_value lts') \<and> unat (auto_inc_value lts) \<le> unat (auto_inc_value lts')
    \<and> (\<forall>k n. e = Reserve k n \<longrightarrow> lo = unat (auto_inc_value lts))"
proof (cases e)
  case (Reserve k n)
  then have "lo = unat (auto_inc_value lts)" "hi = unat (auto_inc_value lts) + unat n * unat k"
    "auto_inc_value lts' = auto_inc_value lts + n * k"
    using assms(1,2) by (auto simp: get_auto_increment_def storage_get_auto_increment_def)
  then show ?thesis using assms(3) no_wrap_mult_add [of "auto_inc_value lts" n k] by simp
next
  case (WriteValue nr)
  have nr: "unat (nr + 1) = unat nr + 1"
    using assms(2,3) WriteValue no_wrap_mult_add [of nr 1 1] by auto
  have v: "auto_inc_value lts' = (if auto_inc_value lts \<le> nr then nr + 1 else auto_inc_value lts)" "hi = unat nr + 1"
    using assms(1,2) WriteValue by (auto simp: write_auto_increment_def)
  show ?thesis
  proof (cases "auto_inc_value lts \<le> nr")
    case True
    then show ?thesis using v nr WriteValue by (simp add: word_le_nat_alt)
  next
    case False
    then show ?thesis using v WriteValue by (simp add: word_le_nat_alt)
  qed
qed

lemma auto_run_above:
  assumes "auto_inc_inited lts" "\<forall>(lo, hi) \<in> set (auto_run es lts). hi < 2 ^ 64"
    and "j < length es" "es ! j = Reserve k n" "auto_run es lts ! j = (lo, hi)"
  shows "unat (auto_inc_value lts) \<le> lo"
  using assms
proof (induction es arbitrary: lts j)
  case (Cons e es)
  obtain r lts' where st: "auto_step e lts = (r, lts')" by fastforce
  obtain a b where r: "r = (a, b)" by (cases r)
  have "b < 2 ^ 64" using Cons.prems(2) st r by simp
  note v = auto_step_value [OF Cons.prems(1) st [unfolded r] this]
  have i: "auto_inc_inited lts'" using auto_step_inited [OF Cons.prems(1), of e] st by simp
  show ?case
  proof (cases j)
    case 0
    then show ?thesis using Cons.prems(4,5) st r v by auto
  next
    case (Suc j')
    then have "unat (auto_inc_value lts') \<le> lo" using Cons.prems st i by (intro Cons.IH) auto
    then show ?thesis using v by simp
  qed
qed simp

section \<open>Properties\<close>

text \<open>
  C33: Reserved values are new. As long as nothing overflows 64 bits, every reservation begins behind all
  values of the reservations before it and behind all values that rows were written with before it.
\<close>
theorem reservations_disjoint:
  assumes "auto_inc_inited lts" and "\<forall>(lo, hi) \<in> set (auto_run es lts). hi < 2 ^ 64"
    and "i < j" and "j < length es" and "es ! j = Reserve k n"
  shows "snd (auto_run es lts ! i) \<le> fst (auto_run es lts ! j)"
  using assms
proof (induction es arbitrary: lts i j)
  case (Cons e es)
  obtain a b lts' where st: "auto_step e lts = ((a, b), lts')" by (metis prod.collapse)
  have b: "b < 2 ^ 64" and rest: "\<forall>(lo, hi) \<in> set (auto_run es lts'). hi < 2 ^ 64" using Cons.prems(2) st by auto
  have inited: "auto_inc_inited lts'" using auto_step_inited [OF Cons.prems(1), of e] st by simp
  obtain j' where j: "j = Suc j'" using Cons.prems(3) by (cases j) auto
  show ?case
  proof (cases i)
    case 0
    have "unat (auto_inc_value lts') \<le> fst (auto_run es lts' ! j')"
      using Cons.prems(4,5) j by (intro auto_run_above [OF inited rest, of j' k n _ "snd (auto_run es lts' ! j')"]) auto
    then show ?thesis using auto_step_value [OF Cons.prems(1) st b] 0 j st by simp
  next
    case (Suc i')
    then show ?thesis using Cons.IH [OF inited rest, of i' j'] Cons.prems(3-5) j st by simp
  qed
qed simp

theorem reservations_disjoint_witness:
  "snd (auto_run [WriteValue 9, Reserve 1 3, Reserve 1 2] \<lparr>auto_inc_inited = True, auto_inc_value = 1\<rparr> ! 1)
   \<le> fst (auto_run [WriteValue 9, Reserve 1 3, Reserve 1 2] \<lparr>auto_inc_inited = True, auto_inc_value = 1\<rparr> ! 2)"
  by (rule reservations_disjoint [where k = 1 and n = 2])
    (simp_all add: write_auto_increment_def get_auto_increment_def storage_get_auto_increment_def)

text \<open>
  The number of reserved values that is reported is unlimited, but only the desired number is
  reserved: the next reservation begins inside of the reported one.
\<close>

lemma reported_reservation_overlaps:
  assumes "auto_inc_inited lts" "get_auto_increment True fh k n lts = ((first, reserved), lts')"
    and "get_auto_increment True fh k' n' lts' = ((first', reserved'), lts'')"
    and "unat (auto_inc_value lts) + unat n * unat k < 2 ^ 64 - 1"
  shows "reserved = UINT_MAX64 \<and> first' = first + n * k \<and> unat first' < unat first + unat reserved"
proof -
  have "first = auto_inc_value lts" "reserved = UINT_MAX64" "first' = first + n * k"
    using assms(1-3) by (auto simp: get_auto_increment_def storage_get_auto_increment_def)
  moreover have "unat UINT_MAX64 = 2 ^ 64 - 1" by (simp add: UINT_MAX64_def unsigned_minus_1_eq_mask mask_eq_exp_minus_1)
  ultimately show ?thesis using assms(4) no_wrap_mult_add [of first n k] by simp
qed

text \<open>A row with the largest value wraps the value around to 0.\<close>

lemma largest_value_wraps:
  "auto_inc_inited lts \<Longrightarrow> auto_inc_value (write_auto_increment fh True UINT_MAX64 lts) = 0"
  by (simp add: write_auto_increment_def UINT_MAX64_def)

end
