(* ===== verification/Index_Rebuild.thy ===== *)
theory Index_Rebuild
  imports Storage_Properties Auto_Increment
begin

text \<open>
  Emptying a table and building its indexes anew in storage mode (\<^verbatim>\<open>storage_delete_all_rows\<close>, \<^verbatim>\<open>storage_truncate*\<close>,
  \<^verbatim>\<open>storage_add_index_multiple_columns\<close>, \<^verbatim>\<open>storage_reindex\<close>, \<^verbatim>\<open>storage_disable_indexes\<close>, \<^verbatim>\<open>storage_enable_indexes\<close> and
  \<^verbatim>\<open>storage_recreate_indexes\<close> of \<^verbatim>\<open>ha_mroonga.cpp\<close>) on the database of \<^verbatim>\<open>Storage_Rows\<close>. Groonga fills an index of one
  column itself; the handler fills the indexes of several columns row by row. Disabled indexes are those whose table and column the
  handler does not have.
\<close>

section \<open>The code outside\<close>

definition HA_ERR_FOUND_DUPP_UNIQUE :: int where "HA_ERR_FOUND_DUPP_UNIQUE = 141"
definition HA_ERR_WRONG_COMMAND :: int where "HA_ERR_WRONG_COMMAND = 131"
definition HA_ADMIN_OK :: int where "HA_ADMIN_OK = 0"
definition HA_ADMIN_FAILED :: int where "HA_ADMIN_FAILED = - 2"

text \<open>What Groonga refuses (\<^const>\<open>None\<close> is the table itself), the order of a table cursor, the results of the calls for a record, whether the user named
  the lexicon of an index, keys of one column that get no index (the column \<^verbatim>\<open>_id\<close> and foreign keys), the number of columns of an index table, the keys of an index that Groonga builds for one column, and what
  remains of the postings of an index table whose keys are deleted one after the other.\<close>

record rebuild_env =
  encoding_error :: int
  rb_dry_write :: bool
  cursor_refused :: "nat option \<Rightarrow> bool"
  truncate_refused :: "nat option \<Rightarrow> bool"
  reindex_refused :: "nat \<Rightarrow> bool"
  create_refused :: "nat \<Rightarrow> int"
  remove_refused :: "nat \<Rightarrow> bool"
  record_order :: "(grn_id \<rightharpoonup> row) \<Rightarrow> grn_id list"
  record_faults :: "grn_id \<Rightarrow> faults"
  user_lexicon :: "nat \<Rightarrow> bool"
  unindexed :: "nat \<Rightarrow> bool"
  n_index_columns :: "nat \<Rightarrow> nat"
  built_keys :: "nat \<Rightarrow> (grn_id \<rightharpoonup> row) \<Rightarrow> byte list \<rightharpoonup> grn_id"
  left_postings :: "nat \<Rightarrow> (byte list \<times> grn_id) set \<Rightarrow> (byte list \<times> grn_id) set"

section \<open>Emptying a table\<close>

definition clear_rows :: "disk \<Rightarrow> disk" where
  "clear_rows d = d\<lparr>d_rows := Map.empty, d_pkeys := Map.empty\<rparr>"

definition clear_index :: "nat \<Rightarrow> (byte list \<times> grn_id) set \<Rightarrow> disk \<Rightarrow> disk" where
  "clear_index i left d = d\<lparr>d_keys := (d_keys d)(i := Map.empty), d_postings := (d_postings d)(i := left)\<rparr>"

definition generic_delete_all_rows :: "rebuild_env \<Rightarrow> nat option \<Rightarrow> disk \<Rightarrow> int \<times> disk" where
  "generic_delete_all_rows env target d =
     (if encoding_error env \<noteq> 0 then (encoding_error env, d)
      else if rb_dry_write env then (0, d)
      else if cursor_refused env target then (ER_ERROR_ON_WRITE, d)
      else (0, case target of None \<Rightarrow> clear_rows d | Some i \<Rightarrow> clear_index i (left_postings env i (d_postings d i)) d))"

fun delete_all_keys :: "rebuild_env \<Rightarrow> table_def \<Rightarrow> nat list \<Rightarrow> disk \<Rightarrow> int \<times> disk" where
  "delete_all_keys env td [] d = (0, d)"
| "delete_all_keys env td (i # is) d =
     (if td_primary td = Some i \<or> \<not> kd_unique (the_key td i) \<or> \<not> kd_table (the_key td i) then delete_all_keys env td is d
      else case generic_delete_all_rows env (Some i) d of
          (e, d1) \<Rightarrow> if e \<noteq> 0 then (e, d1) else delete_all_keys env td is d1)"

definition storage_delete_all_rows :: "rebuild_env \<Rightarrow> table_def \<Rightarrow> disk \<Rightarrow> int \<times> disk" where
  "storage_delete_all_rows env td d = (case generic_delete_all_rows env None d of
      (e, d1) \<Rightarrow> if e \<noteq> 0 then (e, d1) else delete_all_keys env td (all_keys td) d1)"

fun truncate_keys :: "rebuild_env \<Rightarrow> table_def \<Rightarrow> nat list \<Rightarrow> disk \<Rightarrow> int \<times> disk" where
  "truncate_keys env td [] d = (0, d)"
| "truncate_keys env td (i # is) d =
     (if td_primary td = Some i \<or> \<not> kd_unique (the_key td i) \<and> (\<not> kd_multiple (the_key td i) \<or> kd_fulltext (the_key td i)) \<or> \<not> kd_table (the_key td i)
      then truncate_keys env td is d
      else if truncate_refused env (Some i) then (ER_ERROR_ON_WRITE, d)
      else truncate_keys env td is (clear_index i {} d))"

definition storage_truncate_index :: "rebuild_env \<Rightarrow> table_def \<Rightarrow> disk \<Rightarrow> int \<times> disk" where
  "storage_truncate_index env td d =
     (if encoding_error env \<noteq> 0 then (encoding_error env, d) else truncate_keys env td (all_keys td) d)"

text \<open>\<open>truncating\<close> says that the statement is TRUNCATE.\<close>

definition storage_truncate :: "rebuild_env \<Rightarrow> table_def \<Rightarrow> bool \<Rightarrow> disk \<times> long_term_share \<Rightarrow> int \<times> disk \<times> long_term_share" where
  "storage_truncate env td truncating = (\<lambda>(d, lts).
     if rb_dry_write env then (0, d, lts)
     else if truncate_refused env None then (ER_ERROR_ON_WRITE, d, lts)
     else (case storage_truncate_index env td (clear_rows d) of
         (e, d1) \<Rightarrow> (e, d1, if e = 0 \<and> truncating then truncate_auto_increment lts else lts)))"

definition truncate :: "rebuild_env \<Rightarrow> repair_env \<Rightarrow> table_def \<Rightarrow> bool \<Rightarrow> disk \<times> long_term_share \<Rightarrow> int \<times> disk \<times> long_term_share" where
  "truncate env jenv td truncating st = (case storage_truncate env td truncating st of
      (e, d, lts) \<Rightarrow> if e \<noteq> 0 then (e, d, lts)
        else (0, d\<lparr>d_journal := snd (clear_operations jenv (td_name td) (d_journal d))\<rparr>, lts))"

section \<open>Filling indexes of several columns\<close>

text \<open>A key of a record. The unique key is added first.\<close>

definition add_key :: "faults \<Rightarrow> table_def \<Rightarrow> grn_id \<Rightarrow> row \<Rightarrow> nat \<Rightarrow> disk \<Rightarrow> int \<times> disk" where
  "add_key flt td r row i d =
     (case (if kd_unique (the_key td i) then storage_write_row_unique_index flt td d row i idle_handler else (0, idle_handler, [])) of (e, h, es) \<Rightarrow>
        if e \<noteq> 0 then (if e = HA_ERR_FOUND_DUPP_KEY then HA_ERR_FOUND_DUPP_UNIQUE else e, apply_effects es d)
        else if index_update_fails flt i then (ER_ERROR_ON_WRITE, apply_effects es d)
        else (0, apply_effects (es @ [UpdateIndex i r None (Some (kd_key (the_key td i) row))]) d))"

text \<open>The loop over the keys. \<open>cols\<close> is the array of index columns; reading an entry that was never set is a fault. An error leaves only this
  loop; \<open>err\<close> is the error before.\<close>

fun add_keys :: "faults \<Rightarrow> table_def \<Rightarrow> bool \<Rightarrow> (nat \<Rightarrow> bool option) \<Rightarrow> grn_id \<Rightarrow> row \<Rightarrow> nat list \<Rightarrow> int \<Rightarrow> disk \<Rightarrow> (int \<times> disk) option" where
  "add_keys flt td skip cols r row [] err d = Some (err, d)"
| "add_keys flt td skip cols r row (i # is) err d =
     (if \<not> kd_multiple (the_key td i) \<or> kd_fulltext (the_key td i) then add_keys flt td skip cols r row is err d
      else if skip \<and> kd_unique (the_key td i) then add_keys flt td skip cols r row is err d
      else case cols i of
          None \<Rightarrow> None
        | Some False \<Rightarrow> add_keys flt td skip cols r row is err d
        | Some True \<Rightarrow> (case add_key flt td r row i d of
              (e, d1) \<Rightarrow> if e \<noteq> 0 then Some (e, d1) else add_keys flt td skip cols r row is 0 d1))"

fun add_records :: "rebuild_env \<Rightarrow> table_def \<Rightarrow> bool \<Rightarrow> (nat \<Rightarrow> bool option) \<Rightarrow> grn_id list \<Rightarrow> int \<Rightarrow> disk \<Rightarrow> (int \<times> disk) option" where
  "add_records env td skip cols [] err d = Some (err, d)"
| "add_records env td skip cols (r # rs) err d = (case d_rows d r of
      None \<Rightarrow> add_records env td skip cols rs err d
    | Some row \<Rightarrow> (case add_keys (record_faults env r) td skip cols r row (all_keys td) err d of
          None \<Rightarrow> None
        | Some (e, d1) \<Rightarrow> add_records env td skip cols rs e d1))"

definition storage_add_index_multiple_columns ::
    "rebuild_env \<Rightarrow> table_def \<Rightarrow> bool \<Rightarrow> (nat \<Rightarrow> bool option) \<Rightarrow> disk \<Rightarrow> (int \<times> disk) option" where
  "storage_add_index_multiple_columns env td skip cols d = add_records env td skip cols (record_order env (d_rows d)) 0 d"

section \<open>Reindexing\<close>

abbreviation multiple_index :: "table_def \<Rightarrow> nat \<Rightarrow> bool" where
  "multiple_index td i \<equiv> kd_multiple (the_key td i) \<and> \<not> kd_fulltext (the_key td i)"

text \<open>Groonga keeps the keys that an index table has already.\<close>

definition build_index :: "rebuild_env \<Rightarrow> nat \<Rightarrow> disk \<Rightarrow> disk" where
  "build_index env i d = d\<lparr>d_keys := (d_keys d)(i := built_keys env i (d_rows d) ++ d_keys d i)\<rparr>"

fun reindex_keys :: "rebuild_env \<Rightarrow> table_def \<Rightarrow> nat list \<Rightarrow> bool \<Rightarrow> disk \<Rightarrow> int \<times> bool \<times> disk" where
  "reindex_keys env td [] have d = (0, have, d)"
| "reindex_keys env td (i # is) have d =
     (if \<not> kd_column (the_key td i) then reindex_keys env td is have d
      else let emptied = n_index_columns env i = 1 \<or> multiple_index td i in
        if emptied \<and> truncate_refused env (Some i) then (ER_ERROR_ON_WRITE, have, d)
        else let d1 = (if emptied then clear_index i {} d else d) in
          if multiple_index td i then reindex_keys env td is True d1
          else if reindex_refused env i then (ER_ERROR_ON_WRITE, have, d1)
          else reindex_keys env td is have (build_index env i d1))"

definition storage_reindex :: "rebuild_env \<Rightarrow> table_def \<Rightarrow> disk \<Rightarrow> (int \<times> disk) option" where
  "storage_reindex env td d = (case reindex_keys env td (all_keys td) False d of
      (e, have, d1) \<Rightarrow> if e = 0 \<and> have then storage_add_index_multiple_columns env td False (\<lambda>i. Some (kd_column (the_key td i))) d1
        else Some (e, d1))"

section \<open>Disabling and enabling\<close>

definition set_index :: "nat \<Rightarrow> bool \<Rightarrow> table_def \<Rightarrow> table_def" where
  "set_index i b td = td\<lparr>td_keys := (td_keys td)[i := (the_key td i)\<lparr>kd_table := b, kd_column := b\<rparr>]\<rparr>"

text \<open>A lexicon of the user keeps its keys.\<close>

definition generic_disable_index :: "rebuild_env \<Rightarrow> nat \<Rightarrow> table_def \<times> disk \<Rightarrow> int \<times> table_def \<times> disk" where
  "generic_disable_index env i = (\<lambda>(td, d).
     if remove_refused env i then (ER_ERROR_ON_WRITE, td, d)
     else (0, set_index i False td,
       d\<lparr>d_keys := (if user_lexicon env i then d_keys d else (d_keys d)(i := Map.empty)), d_postings := (d_postings d)(i := {})\<rparr>))"

fun disable_keys_loop :: "rebuild_env \<Rightarrow> (nat \<Rightarrow> bool) \<Rightarrow> nat list \<Rightarrow> int \<Rightarrow> table_def \<times> disk \<Rightarrow> int \<times> table_def \<times> disk" where
  "disable_keys_loop env target [] err st = (err, st)"
| "disable_keys_loop env target (i # is) err st =
     (if td_primary (fst st) = Some i \<or> \<not> target i then disable_keys_loop env target is err st
      else case generic_disable_index env i st of
          (sub, st1) \<Rightarrow> disable_keys_loop env target is (if err \<noteq> 0 \<and> sub \<noteq> 0 then sub else err) st1)"

text \<open>\<open>execute\<close> and \<open>target\<close> come from the mode or the map of keys that MySQL passes.\<close>

definition storage_disable_indexes :: "rebuild_env \<Rightarrow> bool \<Rightarrow> (nat \<Rightarrow> bool) \<Rightarrow> table_def \<times> disk \<Rightarrow> int \<times> table_def \<times> disk" where
  "storage_disable_indexes env execute target st =
     (if \<not> execute then (HA_ERR_WRONG_COMMAND, st)
      else if list_ex (\<lambda>i. td_primary (fst st) \<noteq> Some i \<and> \<not> kd_table (the_key (fst st) i)) (all_keys (fst st)) then (0, st)
      else disable_keys_loop env target (all_keys (fst st)) 0 st)"

definition create_index :: "rebuild_env \<Rightarrow> nat \<Rightarrow> table_def \<times> disk \<Rightarrow> table_def \<times> disk" where
  "create_index env i = (\<lambda>(td, d). (set_index i True td, if multiple_index td i then d else build_index env i d))"

text \<open>For a key that gets no index the entry of the array stays unset and is copied to the handler, which is a fault.\<close>

fun enable_keys_loop ::
    "rebuild_env \<Rightarrow> (nat \<Rightarrow> bool) \<Rightarrow> nat list \<Rightarrow> bool \<Rightarrow> (nat \<Rightarrow> bool option) \<Rightarrow> table_def \<times> disk
     \<Rightarrow> (int \<times> bool \<times> (nat \<Rightarrow> bool option) \<times> table_def \<times> disk) option" where
  "enable_keys_loop env target [] have cols st = Some (0, have, cols, st)"
| "enable_keys_loop env target (i # is) have cols st =
     (if td_primary (fst st) = Some i \<or> \<not> target i then enable_keys_loop env target is have cols st
      else if kd_column (the_key (fst st) i) then enable_keys_loop env target is have (cols(i := Some False)) st
      else if \<not> kd_multiple (the_key (fst st) i) \<and> unindexed env i then None
      else if create_refused env i \<noteq> 0 then Some (create_refused env i, have, cols, st)
      else enable_keys_loop env target is (have \<or> multiple_index (fst st) i) (cols(i := Some True)) (create_index env i st))"

definition storage_enable_indexes ::
    "rebuild_env \<Rightarrow> bool \<Rightarrow> (nat \<Rightarrow> bool) \<Rightarrow> bool \<Rightarrow> table_def \<times> disk \<Rightarrow> (int \<times> table_def \<times> disk) option" where
  "storage_enable_indexes env execute target skip st =
     (if \<not> execute then Some (HA_ERR_WRONG_COMMAND, st)
      else if list_all (\<lambda>i. td_primary (fst st) = Some i \<or> kd_column (the_key (fst st) i)) (all_keys (fst st)) then Some (0, st)
      else case enable_keys_loop env target (all_keys (fst st)) False (\<lambda>i. None) st of
          None \<Rightarrow> None
        | Some (e, have, cols, td1, d1) \<Rightarrow>
            if e = 0 \<and> have then map_option (\<lambda>(e1, d2). (e1, td1, d2)) (storage_add_index_multiple_columns env td1 skip cols d1)
            else Some (e, td1, d1))"

section \<open>REPAIR TABLE\<close>

text \<open>The indexes with tables of their own are removed and created again. Nothing fills the indexes of several columns. After an error no
  index table is left, and the handler has no indexes.\<close>

definition remove_index :: "rebuild_env \<Rightarrow> table_def \<Rightarrow> nat \<Rightarrow> disk \<Rightarrow> disk" where
  "remove_index env td i d = (if user_lexicon env i \<or> td_primary td = Some i then d else clear_index i {} d)"

fun recreate_keys :: "rebuild_env \<Rightarrow> nat list \<Rightarrow> table_def \<times> disk \<Rightarrow> int \<times> table_def \<times> disk" where
  "recreate_keys env [] st = (0, st)"
| "recreate_keys env (i # is) st =
     (if td_primary (fst st) = Some i \<or> \<not> kd_multiple (the_key (fst st) i) \<and> unindexed env i then recreate_keys env is st
      else if create_refused env i \<noteq> 0 then (create_refused env i, st)
      else recreate_keys env is (create_index env i st))"

definition storage_recreate_indexes :: "rebuild_env \<Rightarrow> bool \<Rightarrow> table_def \<times> disk \<Rightarrow> int \<times> table_def \<times> disk" where
  "storage_recreate_indexes env disable_keys = (\<lambda>(td, d).
     if disable_keys then (HA_ADMIN_OK, td, d)
     else let td1 = fold (\<lambda>i. set_index i False) (all_keys td) td; d1 = fold (remove_index env td) (all_keys td) d in
       (case recreate_keys env (all_keys td) (td1, d1) of (e, td2, d2) \<Rightarrow>
          if e \<noteq> 0 then (HA_ADMIN_FAILED, td1, fold (remove_index env td) (all_keys td) d2) else (HA_ADMIN_OK, td2, d2)))"

section \<open>Truncation\<close>

lemma clear_index_simps [simp]:
  "d_rows (clear_index i left d) = d_rows d" "d_pkeys (clear_index i left d) = d_pkeys d" "d_journal (clear_index i left d) = d_journal d"
  "d_keys (clear_index i left d) j = (if j = i then Map.empty else d_keys d j)"
  "d_postings (clear_index i left d) j = (if j = i then left else d_postings d j)"
  by (simp_all add: clear_index_def)

definition index_truncated :: "table_def \<Rightarrow> nat \<Rightarrow> bool" where
  "index_truncated td i \<longleftrightarrow> td_primary td \<noteq> Some i \<and> (kd_unique (the_key td i) \<or> multiple_index td i) \<and> kd_table (the_key td i)"

lemma truncate_keys_ok:
  assumes "truncate_keys env td is d = (0, d')"
  shows "d_rows d' = d_rows d \<and> d_pkeys d' = d_pkeys d \<and> d_journal d' = d_journal d
    \<and> (\<forall>i. d_keys d' i = (if i \<in> set is \<and> index_truncated td i then Map.empty else d_keys d i)
         \<and> d_postings d' i = (if i \<in> set is \<and> index_truncated td i then {} else d_postings d i))"
  using assms
proof (induction "is" arbitrary: d)
  case (Cons i "is")
  show ?case
  proof (cases "index_truncated td i")
    case True
    then have "truncate_keys env td is (clear_index i {} d) = (0, d')"
      using Cons.prems by (auto simp: index_truncated_def error_codes split: if_splits)
    then show ?thesis using Cons.IH True by auto
  next
    case False
    then have "truncate_keys env td is d = (0, d')" using Cons.prems by (auto simp: index_truncated_def split: if_splits)
    then show ?thesis using Cons.IH [of d] False by auto
  qed
qed simp

text \<open>C10: after a TRUNCATE that succeeds the table has no rows and no keys, no unique index and no index of several columns that is enabled has
  anything left, the next row gets the first auto increment value again, and the journal has lost the operations of this table and kept
  those of all others.\<close>

theorem truncated_table_empty:
  assumes "truncate env jenv td True (d, lts) = (0, d', lts')" "\<not> rb_dry_write env"
    and "cursor_opens jenv" "\<And>i. delete_op_rc jenv i = 0" "distinct (map fst (op_rows (d_journal d)))"
  shows "d_rows d' = Map.empty \<and> d_pkeys d' = Map.empty \<and> lts' = new_long_term_share
    \<and> d_journal d' = (d_journal d)\<lparr>op_rows := others (td_name td) (op_rows (d_journal d))\<rparr>
    \<and> (\<forall>i < length (td_keys td). index_truncated td i \<longrightarrow> d_keys d' i = Map.empty \<and> d_postings d' i = {})"
proof -
  obtain d1 where d1: "truncate_keys env td (all_keys td) (clear_rows d) = (0, d1)" "lts' = truncate_auto_increment lts"
      "d' = d1\<lparr>d_journal := snd (clear_operations jenv (td_name td) (d_journal d1))\<rparr>"
    using assms(1,2) by (auto simp: truncate_def storage_truncate_def storage_truncate_index_def error_codes split: if_splits prod.splits)
  note t = truncate_keys_ok [OF d1(1)]
  have "clear_operations jenv (td_name td) (d_journal d) = (0, (d_journal d)\<lparr>op_rows := others (td_name td) (op_rows (d_journal d))\<rparr>)"
    using clear_loop_all [of jenv "[]" "op_rows (d_journal d)" "td_name td"] assms(3-5) by (simp add: clear_operations_def)
  then show ?thesis using t unfolding d1(2,3) by (simp add: clear_rows_def truncate_auto_increment_def new_long_term_share_def)
qed

section \<open>Filled indexes\<close>

definition filled_key :: "table_def \<Rightarrow> bool \<Rightarrow> (nat \<Rightarrow> bool option) \<Rightarrow> nat \<Rightarrow> bool" where
  "filled_key td skip cols i \<longleftrightarrow> multiple_index td i \<and> \<not> (skip \<and> kd_unique (the_key td i)) \<and> cols i = Some True"

text \<open>No entry of the array is read that was never set.\<close>

definition columns_set :: "table_def \<Rightarrow> bool \<Rightarrow> (nat \<Rightarrow> bool option) \<Rightarrow> bool" where
  "columns_set td skip cols \<longleftrightarrow> (\<forall>i<length (td_keys td). multiple_index td i \<and> \<not> (skip \<and> kd_unique (the_key td i)) \<longrightarrow> cols i \<noteq> None)"

definition record_accepted :: "table_def \<Rightarrow> faults \<Rightarrow> bool" where
  "record_accepted td flt \<longleftrightarrow> (\<forall>i<length (td_keys td). \<not> key_add_fails flt i \<and> \<not> index_update_fails flt i \<and> fresh_key flt i \<noteq> GRN_ID_NIL)"

text \<open>The database with the keys of one more record.\<close>

definition with_keys :: "faults \<Rightarrow> table_def \<Rightarrow> grn_id \<Rightarrow> row \<Rightarrow> nat set \<Rightarrow> disk \<Rightarrow> disk" where
  "with_keys flt td r row I d = d\<lparr>
     d_keys := (\<lambda>i. if i \<in> I \<and> kd_unique (the_key td i) then (d_keys d i)(ukey td row i \<mapsto> fresh_key flt i) else d_keys d i),
     d_postings := (\<lambda>i. if i \<in> I then insert (ukey td row i, r) (d_postings d i) else d_postings d i)\<rparr>"

lemma with_keys_simps [simp]:
  "with_keys flt td r row {} d = d"
  "d_rows (with_keys flt td r row I d) = d_rows d" "d_pkeys (with_keys flt td r row I d) = d_pkeys d"
  "d_journal (with_keys flt td r row I d) = d_journal d"
  "d_postings (with_keys flt td r row I d) i = (if i \<in> I then insert (ukey td row i, r) (d_postings d i) else d_postings d i)"
  "d_keys (with_keys flt td r row I d) i
    = (if i \<in> I \<and> kd_unique (the_key td i) then (d_keys d i)(ukey td row i \<mapsto> fresh_key flt i) else d_keys d i)"
  by (simp_all add: with_keys_def)

lemma with_keys_insert:
  "i \<notin> I \<Longrightarrow> with_keys flt td r row I (with_keys flt td r row {i} d) = with_keys flt td r row (insert i I) d"
  by (simp add: with_keys_def fun_eq_iff)

lemma add_key_ok:
  assumes "kd_multiple (the_key td i)" "\<not> key_add_fails flt i" "\<not> index_update_fails flt i"
    and "kd_unique (the_key td i) \<Longrightarrow> d_keys d i (ukey td row i) = None"
  shows "add_key flt td r row i d = (0, with_keys flt td r row {i} d)"
  using assms
  by (auto simp: add_key_def storage_write_row_unique_index_def Let_def with_keys_def fun_eq_iff intro!: arg_cong2 [of _ _ _ _ "\<lambda>a b. d\<lparr>d_keys := a, d_postings := b\<rparr>"]
      split: option.split)

lemma add_keys_ok:
  assumes "record_accepted td flt" "columns_set td skip cols"
  shows "distinct is \<Longrightarrow> set is \<subseteq> {..<length (td_keys td)} \<Longrightarrow> err = 0
    \<Longrightarrow> \<forall>i\<in>set is. filled_key td skip cols i \<and> kd_unique (the_key td i) \<longrightarrow> d_keys d i (ukey td row i) = None
    \<Longrightarrow> add_keys flt td skip cols r row is err d = Some (0, with_keys flt td r row {i \<in> set is. filled_key td skip cols i} d)"
proof (induction "is" arbitrary: d err)
  case (Cons i "is")
  have i: "i < length (td_keys td)" "i \<notin> set is" using Cons.prems(1,2) by simp_all
  show ?case
  proof (cases "filled_key td skip cols i")
    case True
    then have "add_key flt td r row i d = (0, with_keys flt td r row {i} d)"
      using assms(1) Cons.prems(4) i(1) by (intro add_key_ok) (auto simp: filled_key_def record_accepted_def)
    moreover have "add_keys flt td skip cols r row is 0 (with_keys flt td r row {i} d)
        = Some (0, with_keys flt td r row {i \<in> set is. filled_key td skip cols i} (with_keys flt td r row {i} d))"
      using Cons.prems i(2) by (intro Cons.IH) auto
    moreover have "{j \<in> set (i # is). filled_key td skip cols j} = insert i {j \<in> set is. filled_key td skip cols j}" using True by auto
    moreover have "i \<notin> {j \<in> set is. filled_key td skip cols j}" using i(2) by simp
    moreover have "multiple_index td i" "\<not> (skip \<and> kd_unique (the_key td i))" "cols i = Some True" using True by (simp_all add: filled_key_def)
    ultimately show ?thesis by (auto simp: with_keys_insert)
  next
    case False
    have "add_keys flt td skip cols r row (i # is) err d = add_keys flt td skip cols r row is err d"
      using False assms(2) i(1) by (auto simp: filled_key_def columns_set_def split: option.split bool.split)
    moreover have "{j \<in> set (i # is). filled_key td skip cols j} = {j \<in> set is. filled_key td skip cols j}" using False by auto
    ultimately show ?thesis using Cons by simp
  qed
qed simp

text \<open>The keys after the records of a list, starting with an empty index.\<close>

definition keys_of :: "rebuild_env \<Rightarrow> table_def \<Rightarrow> (grn_id \<rightharpoonup> row) \<Rightarrow> grn_id list \<Rightarrow> nat \<Rightarrow> byte list \<rightharpoonup> grn_id" where
  "keys_of env td rows rs i = fold (\<lambda>r m. m(ukey td (the (rows r)) i \<mapsto> fresh_key (record_faults env r) i)) rs Map.empty"

definition postings_of :: "table_def \<Rightarrow> (grn_id \<rightharpoonup> row) \<Rightarrow> grn_id set \<Rightarrow> nat \<Rightarrow> (byte list \<times> grn_id) set" where
  "postings_of td rows R i = (\<lambda>r. (ukey td (the (rows r)) i, r)) ` R"

definition unique_rows :: "table_def \<Rightarrow> (grn_id \<rightharpoonup> row) \<Rightarrow> nat \<Rightarrow> bool" where
  "unique_rows td rows i \<longleftrightarrow> (\<forall>r s x y. rows r = Some x \<longrightarrow> rows s = Some y \<longrightarrow> ukey td x i = ukey td y i \<longrightarrow> r = s)"

lemma keys_of_snoc: "keys_of env td rows (rs @ [r]) i = (keys_of env td rows rs i)(ukey td (the (rows r)) i \<mapsto> fresh_key (record_faults env r) i)"
  by (simp add: keys_of_def)

lemma keys_of_dom: "dom (keys_of env td rows rs i) = (\<lambda>r. ukey td (the (rows r)) i) ` set rs"
proof (induction rs rule: rev_induct)
  case (snoc r rs)
  then show ?case unfolding keys_of_snoc dom_fun_upd by simp
qed (simp add: keys_of_def)

lemma keys_of_lookup:
  assumes "unique_rows td rows i" "set rs \<subseteq> dom rows" "r \<in> set rs"
  shows "keys_of env td rows rs i (ukey td (the (rows r)) i) = Some (fresh_key (record_faults env r) i)"
  using assms(2,3)
proof (induction rs rule: rev_induct)
  case (snoc s rs)
  obtain x y where xy: "rows r = Some x" "rows s = Some y" using snoc.prems by auto
  show ?case
  proof (cases "r = s")
    case False
    then have "ukey td x i \<noteq> ukey td y i" using assms(1) xy unfolding unique_rows_def by blast
    then show ?thesis using snoc False xy by (simp add: keys_of_snoc)
  qed (simp add: keys_of_snoc)
qed simp

lemma ran_as_image: "ran m = (\<lambda>r. the (m r)) ` dom m"
proof (intro equalityI subsetI)
  fix x assume "x \<in> ran m"
  then obtain r where "m r = Some x" unfolding ran_def by blast
  then show "x \<in> (\<lambda>r. the (m r)) ` dom m" by (intro image_eqI [of _ _ r]) auto
next
  fix x assume "x \<in> (\<lambda>r. the (m r)) ` dom m"
  then show "x \<in> ran m" unfolding ran_def by auto
qed

lemma keys_of_exact:
  assumes "unique_rows td rows i" "set rs = dom rows" "inj (\<lambda>r. fresh_key (record_faults env r) i)" "\<And>r. fresh_key (record_faults env r) i \<noteq> GRN_ID_NIL"
  shows "index_ok (kd_key (the_key td i)) (keys_of env td rows rs i) rows"
proof -
  let ?m = "keys_of env td rows rs i"
  have look: "?m (ukey td x i) = Some (fresh_key (record_faults env r) i)" if "rows r = Some x" for r x
    using keys_of_lookup [OF assms(1), of rs r env] that assms(2) by auto
  have dom: "dom ?m = (\<lambda>r. ukey td (the (rows r)) i) ` dom rows" using assms(2) by (simp add: keys_of_dom)
  then have "dom ?m = (\<lambda>x. ukey td x i) ` ran rows" by (simp only: ran_as_image image_image)
  moreover have "inj_on ?m (dom ?m)"
  proof (rule inj_onI)
    fix k l assume k: "k \<in> dom ?m" and l: "l \<in> dom ?m" and eq: "?m k = ?m l"
    obtain r x where r: "rows r = Some x" "k = ukey td x i" using k unfolding dom by auto
    obtain s y where s: "rows s = Some y" "l = ukey td y i" using l unfolding dom by auto
    have "r = s" using eq look [OF r(1)] look [OF s(1)] r(2) s(2) injD [OF assms(3), of r s] by simp
    then show "k = l" using r s by simp
  qed
  moreover have "GRN_ID_NIL \<notin> ran ?m"
  proof
    assume "GRN_ID_NIL \<in> ran ?m"
    then obtain k where k: "?m k = Some GRN_ID_NIL" unfolding ran_def by blast
    then have "k \<in> (\<lambda>r. ukey td (the (rows r)) i) ` dom rows" using dom by (metis domI)
    then obtain r x where "rows r = Some x" "k = ukey td x i" by auto
    then show False using look [of r x] k assms(4) [of r] by simp
  qed
  ultimately show ?thesis using assms(1) unfolding index_ok_def unique_rows_def by simp
qed

lemma add_records_ok:
  assumes "\<And>r. record_accepted td (record_faults env r)" "columns_set td skip cols"
    and "\<And>i. i < length (td_keys td) \<Longrightarrow> filled_key td skip cols i \<Longrightarrow> kd_unique (the_key td i) \<Longrightarrow> unique_rows td rows i"
  shows "distinct (before @ rs) \<Longrightarrow> set (before @ rs) \<subseteq> dom rows \<Longrightarrow> d_rows d = rows
    \<Longrightarrow> \<forall>i<length (td_keys td). filled_key td skip cols i \<longrightarrow> d_postings d i = postings_of td rows (set before) i
        \<and> (kd_unique (the_key td i) \<longrightarrow> d_keys d i = keys_of env td rows before i)
    \<Longrightarrow> \<exists>d'. add_records env td skip cols rs 0 d = Some (0, d') \<and> d_rows d' = rows \<and> d_pkeys d' = d_pkeys d \<and> d_journal d' = d_journal d
      \<and> (\<forall>i. if i < length (td_keys td) \<and> filled_key td skip cols i
            then d_postings d' i = postings_of td rows (set (before @ rs)) i
              \<and> (if kd_unique (the_key td i) then d_keys d' i = keys_of env td rows (before @ rs) i else d_keys d' i = d_keys d i)
            else d_postings d' i = d_postings d i \<and> d_keys d' i = d_keys d i)"
proof (induction rs arbitrary: before d)
  case (Cons r rs)
  obtain row where row: "rows r = Some row" using Cons.prems(2) by auto
  let ?flt = "record_faults env r" and ?I = "{i \<in> set (all_keys td). filled_key td skip cols i}"
  let ?d = "with_keys ?flt td r row ?I d"
  have free: "d_keys d i (ukey td row i) = None" if i: "i < length (td_keys td)" "filled_key td skip cols i" "kd_unique (the_key td i)" for i
  proof -
    have "ukey td row i \<notin> dom (keys_of env td rows before i)"
    proof
      assume "ukey td row i \<in> dom (keys_of env td rows before i)"
      then obtain s where s: "s \<in> set before" "ukey td row i = ukey td (the (rows s)) i" unfolding keys_of_dom by blast
      then obtain y where y: "rows s = Some y" using Cons.prems(2) by auto
      then have "r = s" using assms(3) [OF i] row s(2) unfolding unique_rows_def by (metis option.sel)
      then show False using s(1) Cons.prems(1) by simp
    qed
    then show ?thesis using Cons.prems(4) i by auto
  qed
  have step: "add_keys ?flt td skip cols r row (all_keys td) 0 d = Some (0, ?d)"
    using free by (intro add_keys_ok [OF assms(1,2)]) auto
  have snoc: "postings_of td rows (set (before @ [r])) i = insert (ukey td row i, r) (postings_of td rows (set before) i)"
    "keys_of env td rows (before @ [r]) i = (keys_of env td rows before i)(ukey td row i \<mapsto> fresh_key ?flt i)" for i
    using row by (simp_all add: postings_of_def keys_of_snoc)
  have "\<forall>i<length (td_keys td). filled_key td skip cols i \<longrightarrow> d_postings ?d i = postings_of td rows (set (before @ [r])) i
        \<and> (kd_unique (the_key td i) \<longrightarrow> d_keys ?d i = keys_of env td rows (before @ [r]) i)"
    unfolding snoc using Cons.prems(4) by simp
  then obtain d' where d': "add_records env td skip cols rs 0 ?d = Some (0, d')" "d_rows d' = rows" "d_pkeys d' = d_pkeys ?d" "d_journal d' = d_journal ?d"
      "\<forall>i. if i < length (td_keys td) \<and> filled_key td skip cols i
            then d_postings d' i = postings_of td rows (set ((before @ [r]) @ rs)) i
              \<and> (if kd_unique (the_key td i) then d_keys d' i = keys_of env td rows ((before @ [r]) @ rs) i else d_keys d' i = d_keys ?d i)
            else d_postings d' i = d_postings ?d i \<and> d_keys d' i = d_keys ?d i"
    using Cons.IH [of "before @ [r]" ?d] Cons.prems(1-3) by auto
  then show ?case using step row Cons.prems(3) by (intro exI [of _ d']) (simp split: if_splits)
qed (simp add: postings_of_def)

section \<open>Exact indexes\<close>

text \<open>Every enabled unique index has exactly the keys of the rows, and every enabled index of several columns exactly the postings.\<close>

definition indexes_exact :: "table_def \<Rightarrow> disk \<Rightarrow> bool" where
  "indexes_exact td d \<longleftrightarrow> (\<forall>i<length (td_keys td). kd_column (the_key td i) \<longrightarrow>
     (kd_unique (the_key td i) \<longrightarrow> index_ok (kd_key (the_key td i)) (d_keys d i) (d_rows d))
     \<and> (multiple_index td i \<longrightarrow> d_postings d i = postings_of td (d_rows d) (dom (d_rows d)) i))"

definition rebuild_accepted :: "rebuild_env \<Rightarrow> table_def \<Rightarrow> bool" where
  "rebuild_accepted env td \<longleftrightarrow> (\<forall>i. \<not> truncate_refused env (Some i) \<and> \<not> reindex_refused env i \<and> inj (\<lambda>r. fresh_key (record_faults env r) i))
     \<and> (\<forall>r i. fresh_key (record_faults env r) i \<noteq> GRN_ID_NIL) \<and> (\<forall>r. record_accepted td (record_faults env r))"

text \<open>A cursor gives every record once; an index that Groonga builds over unique values has exactly their keys.\<close>

definition rebuild_promise :: "rebuild_env \<Rightarrow> table_def \<Rightarrow> bool" where
  "rebuild_promise env td \<longleftrightarrow> (\<forall>rows. finite (dom rows) \<longrightarrow> distinct (record_order env rows) \<and> set (record_order env rows) = dom rows
     \<and> (\<forall>i<length (td_keys td). unique_rows td rows i \<longrightarrow> index_ok (kd_key (the_key td i)) (built_keys env i rows) rows))"

text \<open>The handler has no index of the primary key, and tables and columns of indexes together.\<close>

definition handler_indexes :: "table_def \<Rightarrow> bool" where
  "handler_indexes td \<longleftrightarrow> (\<forall>i<length (td_keys td). kd_column (the_key td i) \<longrightarrow> kd_table (the_key td i) \<and> td_primary td \<noteq> Some i)"

definition own_tables :: "rebuild_env \<Rightarrow> table_def \<Rightarrow> bool" where
  "own_tables env td \<longleftrightarrow> (\<forall>i<length (td_keys td). kd_unique (the_key td i) \<longrightarrow> n_index_columns env i = 1)"

definition unique_table :: "table_def \<Rightarrow> (grn_id \<rightharpoonup> row) \<Rightarrow> bool" where
  "unique_table td rows \<longleftrightarrow> (\<forall>i<length (td_keys td). kd_unique (the_key td i) \<and> kd_column (the_key td i) \<longrightarrow> unique_rows td rows i)"

lemma build_index_simps [simp]:
  "d_rows (build_index env i d) = d_rows d" "d_pkeys (build_index env i d) = d_pkeys d" "d_journal (build_index env i d) = d_journal d"
  "d_keys (build_index env i d) j = (if j = i then built_keys env i (d_rows d) ++ d_keys d i else d_keys d j)"
  "d_postings (build_index env i d) = d_postings d"
  by (simp_all add: build_index_def)

lemma reindex_keys_ok:
  assumes "\<And>i. \<not> truncate_refused env (Some i)" "\<And>i. \<not> reindex_refused env i"
  shows "distinct is \<Longrightarrow> \<exists>d'. reindex_keys env td is have d = (0, have \<or> (\<exists>i\<in>set is. kd_column (the_key td i) \<and> multiple_index td i), d')
    \<and> d_rows d' = d_rows d \<and> d_pkeys d' = d_pkeys d \<and> d_journal d' = d_journal d
    \<and> (\<forall>i. if i \<in> set is \<and> kd_column (the_key td i)
          then (multiple_index td i \<longrightarrow> d_keys d' i = Map.empty \<and> d_postings d' i = {})
            \<and> (\<not> multiple_index td i \<and> n_index_columns env i = 1 \<longrightarrow> d_keys d' i = built_keys env i (d_rows d))
          else d_keys d' i = d_keys d i \<and> d_postings d' i = d_postings d i)"
proof (induction "is" arbitrary: "have" d)
  case (Cons i "is")
  define d1 where "d1 = (if n_index_columns env i = 1 \<or> multiple_index td i then clear_index i {} d else d)"
  define d2 where "d2 = (if multiple_index td i then d1 else build_index env i d1)"
  have i: "i \<notin> set is" "distinct is" using Cons.prems by simp_all
  show ?case
  proof (cases "kd_column (the_key td i)")
    case True
    have step: "reindex_keys env td (i # is) have d = reindex_keys env td is (have \<or> multiple_index td i) d2"
      using True assms by (cases "multiple_index td i") (auto simp: Let_def d1_def d2_def)
    have d2: "d_rows d2 = d_rows d" "d_pkeys d2 = d_pkeys d" "d_journal d2 = d_journal d"
      "multiple_index td i \<Longrightarrow> d_keys d2 i = Map.empty \<and> d_postings d2 i = {}"
      "\<not> multiple_index td i \<Longrightarrow> n_index_columns env i = 1 \<Longrightarrow> d_keys d2 i = built_keys env i (d_rows d)"
      "j \<noteq> i \<Longrightarrow> d_keys d2 j = d_keys d j \<and> d_postings d2 j = d_postings d j" for j
      by (auto simp: d1_def d2_def)
    obtain d' where d': "reindex_keys env td is (have \<or> multiple_index td i) d2
          = (0, (have \<or> multiple_index td i) \<or> (\<exists>i\<in>set is. kd_column (the_key td i) \<and> multiple_index td i), d')"
        "d_rows d' = d_rows d2" "d_pkeys d' = d_pkeys d2" "d_journal d' = d_journal d2"
        "\<forall>i. if i \<in> set is \<and> kd_column (the_key td i)
          then (multiple_index td i \<longrightarrow> d_keys d' i = Map.empty \<and> d_postings d' i = {})
            \<and> (\<not> multiple_index td i \<and> n_index_columns env i = 1 \<longrightarrow> d_keys d' i = built_keys env i (d_rows d2))
          else d_keys d' i = d_keys d2 i \<and> d_postings d' i = d_postings d2 i"
      using Cons.IH [OF i(2)] by blast
    have "if j \<in> set (i # is) \<and> kd_column (the_key td j)
          then (multiple_index td j \<longrightarrow> d_keys d' j = Map.empty \<and> d_postings d' j = {})
            \<and> (\<not> multiple_index td j \<and> n_index_columns env j = 1 \<longrightarrow> d_keys d' j = built_keys env j (d_rows d))
          else d_keys d' j = d_keys d j \<and> d_postings d' j = d_postings d j" for j
      using spec [OF d'(5), of j] i(1) d2 True by (cases "j = i") simp_all
    then show ?thesis unfolding step using d' d2(1-3) True by (intro exI [of _ d']) auto
  next
    case False
    then have step: "reindex_keys env td (i # is) have d = reindex_keys env td is have d" by simp
    obtain d' where "reindex_keys env td is have d = (0, have \<or> (\<exists>i\<in>set is. kd_column (the_key td i) \<and> multiple_index td i), d')"
        "d_rows d' = d_rows d" "d_pkeys d' = d_pkeys d" "d_journal d' = d_journal d"
        "\<forall>i. if i \<in> set is \<and> kd_column (the_key td i)
          then (multiple_index td i \<longrightarrow> d_keys d' i = Map.empty \<and> d_postings d' i = {})
            \<and> (\<not> multiple_index td i \<and> n_index_columns env i = 1 \<longrightarrow> d_keys d' i = built_keys env i (d_rows d))
          else d_keys d' i = d_keys d i \<and> d_postings d' i = d_postings d i"
      using Cons.IH [OF i(2)] by blast
    then show ?thesis unfolding step using False by (intro exI [of _ d']) auto
  qed
qed simp

lemma add_index_ok:
  assumes "rebuild_accepted env td" "rebuild_promise env td" "columns_set td skip cols" "finite (dom (d_rows d))"
    and "\<And>i. i < length (td_keys td) \<Longrightarrow> filled_key td skip cols i \<Longrightarrow> kd_unique (the_key td i) \<Longrightarrow> unique_rows td (d_rows d) i \<and> d_keys d i = Map.empty"
    and "\<And>i. i < length (td_keys td) \<Longrightarrow> filled_key td skip cols i \<Longrightarrow> d_postings d i = {}"
  shows "\<exists>d'. storage_add_index_multiple_columns env td skip cols d = Some (0, d')
    \<and> d_rows d' = d_rows d \<and> d_pkeys d' = d_pkeys d \<and> d_journal d' = d_journal d
    \<and> (\<forall>i. if i < length (td_keys td) \<and> filled_key td skip cols i
          then d_postings d' i = postings_of td (d_rows d) (dom (d_rows d)) i
            \<and> (if kd_unique (the_key td i) then index_ok (kd_key (the_key td i)) (d_keys d' i) (d_rows d) else d_keys d' i = d_keys d i)
          else d_postings d' i = d_postings d i \<and> d_keys d' i = d_keys d i)"
proof -
  let ?rows = "d_rows d" and ?n = "length (td_keys td)" and ?rs = "record_order env (d_rows d)"
  have acc: "inj (\<lambda>r. fresh_key (record_faults env r) i)" "fresh_key (record_faults env r) i \<noteq> GRN_ID_NIL" "record_accepted td (record_faults env r)" for i r
    using assms(1) unfolding rebuild_accepted_def by blast+
  have order: "distinct ?rs" "set ?rs = dom ?rows" using assms(2,4) unfolding rebuild_promise_def by blast+
  have "\<exists>d'. add_records env td skip cols ?rs 0 d = Some (0, d') \<and> d_rows d' = ?rows \<and> d_pkeys d' = d_pkeys d \<and> d_journal d' = d_journal d
      \<and> (\<forall>i. if i < ?n \<and> filled_key td skip cols i
          then d_postings d' i = postings_of td ?rows (set ([] @ ?rs)) i
            \<and> (if kd_unique (the_key td i) then d_keys d' i = keys_of env td ?rows ([] @ ?rs) i else d_keys d' i = d_keys d i)
          else d_postings d' i = d_postings d i \<and> d_keys d' i = d_keys d i)"
  proof (rule add_records_ok [OF acc(3) assms(3)])
    show "unique_rows td ?rows i" if "i < ?n" "filled_key td skip cols i" "kd_unique (the_key td i)" for i using assms(5) that by blast
    show "\<forall>i<?n. filled_key td skip cols i \<longrightarrow> d_postings d i = postings_of td ?rows (set []) i
        \<and> (kd_unique (the_key td i) \<longrightarrow> d_keys d i = keys_of env td ?rows [] i)"
      using assms(5,6) by (simp add: postings_of_def keys_of_def)
  qed (use order in simp_all)
  then obtain d' where d': "add_records env td skip cols ?rs 0 d = Some (0, d')" "d_rows d' = ?rows" "d_pkeys d' = d_pkeys d" "d_journal d' = d_journal d"
      "\<And>i. if i < ?n \<and> filled_key td skip cols i
          then d_postings d' i = postings_of td ?rows (dom ?rows) i
            \<and> (if kd_unique (the_key td i) then d_keys d' i = keys_of env td ?rows ?rs i else d_keys d' i = d_keys d i)
          else d_postings d' i = d_postings d i \<and> d_keys d' i = d_keys d i" using order(2) by auto
  have "if i < ?n \<and> filled_key td skip cols i
          then d_postings d' i = postings_of td ?rows (dom ?rows) i
            \<and> (if kd_unique (the_key td i) then index_ok (kd_key (the_key td i)) (d_keys d' i) ?rows else d_keys d' i = d_keys d i)
          else d_postings d' i = d_postings d i \<and> d_keys d' i = d_keys d i" for i
    using d'(5) [of i] assms(5) [of i] keys_of_exact [OF _ order(2) acc(1) [of i] acc(2)] by (auto split: if_splits)
  then show ?thesis using d'(1-4) by (intro exI [of _ d']) (simp add: storage_add_index_multiple_columns_def)
qed

lemma reindex_exact:
  assumes "rebuild_accepted env td" "rebuild_promise env td" "own_tables env td"
    and "finite (dom (d_rows d))" "unique_table td (d_rows d)"
  shows "\<exists>d'. storage_reindex env td d = Some (0, d') \<and> indexes_exact td d'
    \<and> d_rows d' = d_rows d \<and> d_pkeys d' = d_pkeys d \<and> d_journal d' = d_journal d"
proof -
  let ?rows = "d_rows d" and ?cols = "\<lambda>i. Some (kd_column (the_key td i))" and ?n = "length (td_keys td)"
  let ?have = "\<exists>i\<in>set (all_keys td). kd_column (the_key td i) \<and> multiple_index td i"
  have filled: "filled_key td False ?cols i \<longleftrightarrow> multiple_index td i \<and> kd_column (the_key td i)" for i by (auto simp: filled_key_def)
  have "\<not> truncate_refused env (Some i)" "\<not> reindex_refused env i" for i using assms(1) unfolding rebuild_accepted_def by blast+
  then obtain d1 where d1: "reindex_keys env td (all_keys td) False d = (0, ?have, d1)" "d_rows d1 = ?rows" "d_pkeys d1 = d_pkeys d" "d_journal d1 = d_journal d"
      "\<forall>i. if i \<in> set (all_keys td) \<and> kd_column (the_key td i)
          then (multiple_index td i \<longrightarrow> d_keys d1 i = Map.empty \<and> d_postings d1 i = {})
            \<and> (\<not> multiple_index td i \<and> n_index_columns env i = 1 \<longrightarrow> d_keys d1 i = built_keys env i ?rows)
          else d_keys d1 i = d_keys d i \<and> d_postings d1 i = d_postings d i"
    using reindex_keys_ok [of env "all_keys td" td False d] by auto
  have start: "multiple_index td i \<Longrightarrow> d_keys d1 i = Map.empty \<and> d_postings d1 i = {}"
      "\<not> multiple_index td i \<Longrightarrow> n_index_columns env i = 1 \<Longrightarrow> d_keys d1 i = built_keys env i ?rows"
    if "i < ?n" "kd_column (the_key td i)" for i
    using spec [OF d1(5), of i] that by auto
  have uniq: "unique_rows td ?rows i" if "i < ?n" "kd_column (the_key td i)" "kd_unique (the_key td i)" for i
    using assms(5) that unfolding unique_table_def by blast
  have single: "index_ok (kd_key (the_key td i)) (d_keys d1 i) ?rows"
    if "i < ?n" "kd_column (the_key td i)" "kd_unique (the_key td i)" "\<not> multiple_index td i" for i
    using start(2) [OF that(1,2,4)] uniq [OF that(1-3)] assms(2-4) that unfolding own_tables_def rebuild_promise_def by simp
  show ?thesis
  proof (cases ?have)
    case True
    have set: "columns_set td False ?cols" by (simp add: columns_set_def)
    have empty: "unique_rows td (d_rows d1) i \<and> d_keys d1 i = Map.empty"
      if "i < ?n" "filled_key td False ?cols i" "kd_unique (the_key td i)" for i
      using start(1) [of i] uniq [of i] that filled [of i] d1(2) by simp
    have none: "d_postings d1 i = {}" if "i < ?n" "filled_key td False ?cols i" for i using start(1) [of i] that filled [of i] by simp
    obtain d' where d': "storage_add_index_multiple_columns env td False ?cols d1 = Some (0, d')" "d_rows d' = ?rows" "d_pkeys d' = d_pkeys d1" "d_journal d' = d_journal d1"
        "\<And>i. if i < ?n \<and> filled_key td False ?cols i
            then d_postings d' i = postings_of td ?rows (dom ?rows) i
              \<and> (if kd_unique (the_key td i) then index_ok (kd_key (the_key td i)) (d_keys d' i) ?rows else d_keys d' i = d_keys d1 i)
            else d_postings d' i = d_postings d1 i \<and> d_keys d' i = d_keys d1 i"
      using add_index_ok [OF assms(1,2) set _ empty none] assms(4) unfolding d1(2) by blast
    have "index_ok (kd_key (the_key td i)) (d_keys d' i) ?rows" if i: "i < ?n" "kd_column (the_key td i)" "kd_unique (the_key td i)" for i
      using d'(5) [of i] i filled [of i] single [OF i] by (cases "multiple_index td i") simp_all
    moreover have "d_postings d' i = postings_of td ?rows (dom ?rows) i" if "i < ?n" "kd_column (the_key td i)" "multiple_index td i" for i
      using d'(5) [of i] that filled [of i] by simp
    ultimately have "indexes_exact td d'" unfolding indexes_exact_def d'(2) by blast
    then show ?thesis using d1 d' True by (intro exI [of _ d']) (simp add: storage_reindex_def)
  next
    case False
    then have "indexes_exact td d1" using single unfolding indexes_exact_def d1(2) by auto
    then show ?thesis using d1 False by (intro exI [of _ d1]) (auto simp: storage_reindex_def)
  qed
qed

section \<open>Opening after a crash\<close>

text \<open>Deleting records removes their keys.\<close>

definition keep_records :: "grn_id set \<Rightarrow> disk \<Rightarrow> disk" where
  "keep_records R d = d\<lparr>d_rows := d_rows d |` R,
     d_pkeys := (\<lambda>k. case d_pkeys d k of Some r \<Rightarrow> if r \<in> R then Some r else None | None \<Rightarrow> None)\<rparr>"

text \<open>The end of \<^verbatim>\<open>storage_open\<close>: the table is repaired when the journal named it at the opening of the database, under its name in
  Groonga; the error is only logged.\<close>

definition repair_and_reindex :: "rebuild_env \<Rightarrow> repair_env \<Rightarrow> bool \<Rightarrow> string \<Rightarrow> table_def \<Rightarrow> disk \<Rightarrow> (int \<times> disk) option" where
  "repair_and_reindex env jenv disable_keys tname td d =
     (case repair jenv tname (d_journal d) (Some (dom (d_rows d))) of (e, ops, target) \<Rightarrow>
        let d1 = (keep_records (case target of None \<Rightarrow> {} | Some R \<Rightarrow> R) d)\<lparr>d_journal := ops\<rparr> in
        if \<not> disable_keys \<and> e = 0 then storage_reindex env td d1 else Some (e, d1))"

definition storage_open_crashed ::
    "rebuild_env \<Rightarrow> repair_env \<Rightarrow> bool \<Rightarrow> string \<Rightarrow> string option \<Rightarrow> string option \<Rightarrow> table_def \<Rightarrow> disk \<Rightarrow> (int \<times> disk) option" where
  "storage_open_crashed env jenv disable_keys path pre home td d =
     (let tname = fst (table_name (PathMapper path pre home)) in
      if tname \<notin> set (collect_processing_table_names (cursor_opens jenv) (d_journal d)) then Some (0, d)
      else repair_and_reindex env jenv disable_keys tname td d)"

text \<open>Reindexing never touches the rows and the journal.\<close>

lemma add_keys_rows:
  assumes "\<And>i. cols i \<noteq> None"
  shows "\<exists>e d'. add_keys flt td skip cols r row is err d = Some (e, d') \<and> d_rows d' = d_rows d \<and> d_journal d' = d_journal d"
proof (induction "is" arbitrary: err d)
  case (Cons i "is")
  have one: "d_rows (snd (add_key flt td r row i d)) = d_rows d \<and> d_journal (snd (add_key flt td r row i d)) = d_journal d"
    by (auto simp: add_key_def storage_write_row_unique_index_def Let_def split: option.split)
  obtain e1 d1 where a: "add_key flt td r row i d = (e1, d1)" by fastforce
  obtain b where b: "cols i = Some b" using assms by blast
  show ?case using Cons [of err d] Cons [of 0 d1] one a b by (cases b) auto
qed simp

lemma storage_reindex_rows: "\<exists>e d'. storage_reindex env td d = Some (e, d') \<and> d_rows d' = d_rows d \<and> d_journal d' = d_journal d"
proof -
  let ?c = "\<lambda>i. Some (kd_column (the_key td i))"
  have keys: "d_rows (snd (snd (reindex_keys env td is have d))) = d_rows d \<and> d_journal (snd (snd (reindex_keys env td is have d))) = d_journal d" for "is" "have" d
    by (induction "is" arbitrary: "have" d) (auto simp: Let_def)
  have recs: "\<exists>e d'. add_records env td False ?c rs err d = Some (e, d') \<and> d_rows d' = d_rows d \<and> d_journal d' = d_journal d" for rs err d
  proof (induction rs arbitrary: err d)
    case (Cons r rs)
    show ?case
    proof (cases "d_rows d r")
      case (Some row)
      obtain e1 d1 where "add_keys (record_faults env r) td False ?c r row (all_keys td) err d = Some (e1, d1)" "d_rows d1 = d_rows d" "d_journal d1 = d_journal d"
        using add_keys_rows [of ?c "record_faults env r" td False r row "all_keys td" err d] by auto
      then show ?thesis using Cons [of e1 d1] Some by simp
    qed (use Cons [of err d] in simp)
  qed simp
  obtain e "have" d1 where r: "reindex_keys env td (all_keys td) False d = (e, have, d1)" by (metis prod_cases3)
  then have "d_rows d1 = d_rows d" "d_journal d1 = d_journal d" using keys [of "all_keys td" False d] by simp_all
  then show ?thesis using r recs [of "record_order env (d_rows d1)" 0 d1] by (auto simp: storage_reindex_def storage_add_index_multiple_columns_def)
qed

text \<open>The entries of the indexes of several columns that a write adds.\<close>

fun posting_step :: "nat \<Rightarrow> effect \<Rightarrow> (byte list \<times> grn_id) set \<Rightarrow> (byte list \<times> grn_id) set" where
  "posting_step i (UpdateIndex j r old new) p = (if j = i
     then (p - (case old of None \<Rightarrow> {} | Some k \<Rightarrow> {(k, r)})) \<union> (case new of None \<Rightarrow> {} | Some k \<Rightarrow> {(k, r)}) else p)"
| "posting_step i _ p = p"

lemma apply_effects_postings: "d_postings (apply_effects es d) i = fold (posting_step i) es (d_postings d i)"
proof (induction es arbitrary: d)
  case (Cons e es)
  have "d_postings (apply_effect e d) i = posting_step i e (d_postings d i)" by (cases e) (simp_all add: case_prod_unfold Let_def)
  then show ?case using Cons by simp
qed simp

lemma no_postings: "\<forall>e\<in>set es. posting_step i e = (\<lambda>p. p) \<Longrightarrow> fold (posting_step i) es p = p"
  by (induction es) auto

lemma write_unique_loop_no_postings: "e \<in> set (snd (snd (write_unique_loop flt td d row i h))) \<Longrightarrow> posting_step j e = (\<lambda>p. p)"
proof (induction "length (td_keys td) - i" arbitrary: i h)
  case 0
  then show ?case by (simp add: write_unique_loop_end)
next
  case (Suc n)
  then have i: "i < length (td_keys td)" and n: "n = length (td_keys td) - (i + 1)" by simp_all
  have one: "f \<in> set (snd (snd (storage_write_row_unique_index flt td d row i h))) \<Longrightarrow> posting_step j f = (\<lambda>p. p)" for f
    by (auto simp: storage_write_row_unique_index_def Let_def split: if_splits option.splits)
  show ?case
  proof (cases "writable td i")
    case False
    then show ?thesis using Suc.hyps(1) [OF n] Suc.prems write_unique_loop_skip [OF i False] by simp
  next
    case True
    obtain e1 h1 es1 where o: "storage_write_row_unique_index flt td d row i h = (e1, h1, es1)" by (metis prod_cases3)
    have "e \<in> set es1 \<or> e \<in> set (delete_new_keys td h1 (rev [0..<i])) \<or> e \<in> set (snd (snd (write_unique_loop flt td d row (i + 1) h1)))"
      using Suc.prems o by (auto simp: write_unique_loop_key [OF i True] split: prod.splits if_splits)
    then show ?thesis using one [of e] Suc.hyps(1) [OF n] o by (auto simp: delete_new_keys_def)
  qed
qed

lemma update_indexes_postings:
  assumes "update_indexes flt td r None (Some row) is = (0, es)" "distinct is"
  shows "fold (posting_step i) es p = (if i \<in> set is \<and> td_primary td \<noteq> Some i \<and> multiple_index td i \<and> kd_column (the_key td i)
    then insert (ukey td row i, r) p else p)"
  using assms
proof (induction "is" arbitrary: es p)
  case (Cons j "is")
  show ?case
  proof (cases "td_primary td = Some j \<or> \<not> multiple_index td j \<or> \<not> kd_column (the_key td j)")
    case True
    then have "update_indexes flt td r None (Some row) is = (0, es)" using Cons.prems by auto
    then show ?thesis using Cons.IH [of es p] Cons.prems(2) True by auto
  next
    case False
    then obtain fs where "update_indexes flt td r None (Some row) is = (0, fs)" "es = UpdateIndex j r None (Some (ukey td row j)) # fs"
      using Cons.prems(1) by (auto simp: error_codes split: if_splits prod.splits)
    then show ?thesis using Cons.IH [of fs] Cons.prems(2) False by auto
  qed
qed simp

lemma write_row_postings:
  assumes run: "storage_write_row flt td d row h = (0, h', es)" and "\<not> dry_write flt" "proper_faults flt" "handler_indexes td"
    and i: "i < length (td_keys td)" "kd_column (the_key td i)" "multiple_index td i"
  shows "d_postings (apply_effects es d) i = insert (ukey td row i, fresh_record flt) (d_postings d i)"
proof -
  let ?r = "fresh_record flt"
  obtain e0 h0 es0 where b: "write_row_body flt td d row h = (e0, h0, es0)" by (metis prod_cases3)
  then have e0: "e0 = 0" and es: "es = start_effects flt ''write'' (td_name td) @ es0 @ [JournalFinish]"
    using run assms(2) by (auto simp: storage_write_row_def with_operation_def)
  obtain e1 h1 ks where loop: "write_unique_loop flt td d row 0 h = (e1, h1, ks)" by (metis prod_cases3)
  obtain e2 cs where cs: "write_columns flt ?r row [0..<td_columns td] = (e2, cs)" by fastforce
  obtain e3 "is" where ix: "update_indexes flt td ?r None (Some row) (all_keys td) = (e3, is)" by fastforce
  have "e3 = 0 \<and> es0 = ks @ [AddRecord (pkey_of td row) ?r, JournalTarget ?r] @ cs @ is"
    using b e0 loop cs ix
    by (auto simp: write_row_body_def storage_write_row_unique_indexes_def write_record_def error_codes Let_def split: if_splits option.splits)
  moreover have "\<forall>e\<in>set ks. posting_step i e = (\<lambda>p. p)" using write_unique_loop_no_postings [of _ flt td d row 0 h i] loop by simp
  moreover have "\<forall>e\<in>set cs. posting_step i e = (\<lambda>p. p)" using write_columns_shape [of flt ?r row "[0..<td_columns td]"] cs by fastforce
  moreover have "td_primary td \<noteq> Some i" using assms(4) i unfolding handler_indexes_def by blast
  ultimately show ?thesis
    using i update_indexes_postings [of flt td ?r row "all_keys td" "is" i] ix
    unfolding apply_effects_postings es start_effects_def by (simp add: no_postings)
qed

lemma exact_consistent: "indexes_exact td d \<Longrightarrow> consistent td d"
  unfolding indexes_exact_def consistent_def writable_def unique_key_def by blast

lemma consistent_unique_table: "consistent td d \<Longrightarrow> handler_indexes td \<Longrightarrow> unique_table td (d_rows d)"
  unfolding consistent_def unique_table_def unique_rows_def index_ok_def handler_indexes_def writable_def unique_key_def by blast

lemma write_row_rows:
  assumes "storage_write_row flt td d row h = (0, h', es)" "\<not> dry_write flt" "fresh_ids flt td d" "proper_faults flt" "\<forall>c \<ge> td_columns td. row c = []"
  shows "d_rows (apply_effects es d) = (d_rows d)(fresh_record flt \<mapsto> row)"
proof -
  obtain e0 h0 es0 where b: "write_row_body flt td d row h = (e0, h0, es0)" by (metis prod_cases3)
  then have "e0 = 0" "es = snd (snd (with_operation flt ''write'' (td_name td) (e0, h0, es0)))"
    using assms(1,2) by (auto simp: storage_write_row_def with_operation_def)
  then show ?thesis using write_row_new(1) [OF _ assms(3-5)] b by (simp add: apply_effects_parts)
qed

lemma written_row_exact:
  assumes run: "storage_write_row flt td d row h = (0, h', es)" and nd: "\<not> dry_write flt"
    and fr: "fresh_ids flt td d" and pr: "proper_faults flt" and cols: "\<forall>c \<ge> td_columns td. row c = []"
    and con: "indexes_exact td d" "handler_indexes td"
  shows "indexes_exact td (apply_effects es d)"
  unfolding indexes_exact_def
proof (intro allI impI conjI)
  fix i assume i: "i < length (td_keys td)" "kd_column (the_key td i)"
  let ?r = "fresh_record flt" and ?rows = "d_rows d"
  have new: "?rows ?r = None" using fr by (auto simp: fresh_ids_def)
  have rows: "d_rows (apply_effects es d) = ?rows(?r \<mapsto> row)" by (rule write_row_rows [OF run nd fr pr cols])
  show "index_ok (kd_key (the_key td i)) (d_keys (apply_effects es d) i) (d_rows (apply_effects es d))" if "kd_unique (the_key td i)"
    using write_row_consistent [OF run exact_consistent [OF con(1)] fr pr cols] i that con(2)
    unfolding consistent_def writable_def unique_key_def handler_indexes_def by blast
  show "d_postings (apply_effects es d) i = postings_of td (d_rows (apply_effects es d)) (dom (d_rows (apply_effects es d))) i" if m: "multiple_index td i"
  proof -
    have "d_postings d i = postings_of td ?rows (dom ?rows) i" using con(1) i m by (simp add: indexes_exact_def)
    moreover have "postings_of td (?rows(?r \<mapsto> row)) (insert ?r (dom ?rows)) i = insert (ukey td row i, ?r) (postings_of td ?rows (dom ?rows) i)"
    proof -
      have "(\<lambda>s. (ukey td (the ((?rows(?r \<mapsto> row)) s)) i, s)) ` dom ?rows = (\<lambda>s. (ukey td (the (?rows s)) i, s)) ` dom ?rows"
        using new by (intro image_cong) auto
      then show ?thesis unfolding postings_of_def image_insert by simp
    qed
    ultimately show ?thesis using write_row_postings [OF run nd pr con(2) i m] by (simp add: rows)
  qed
qed


section \<open>Enabled indexes\<close>

lemma the_key_set_index:
  "the_key (set_index i b td) j = (if i < length (td_keys td) \<and> j = i then (the_key td i)\<lparr>kd_table := b, kd_column := b\<rparr> else the_key td j)"
  by (cases "i < length (td_keys td)") (simp_all add: set_index_def nth_list_update list_update_beyond not_less)

lemma set_index_simps [simp]:
  "length (td_keys (set_index i b td)) = length (td_keys td)" "td_primary (set_index i b td) = td_primary td"
  "kd_unique (the_key (set_index i b td) j) = kd_unique (the_key td j)" "kd_multiple (the_key (set_index i b td) j) = kd_multiple (the_key td j)"
  "kd_fulltext (the_key (set_index i b td) j) = kd_fulltext (the_key td j)" "kd_key (the_key (set_index i b td) j) = kd_key (the_key td j)"
  "i < length (td_keys td) \<Longrightarrow> kd_column (the_key (set_index i b td) j) = (if j = i then b else kd_column (the_key td j))"
  by (simp_all add: the_key_set_index) (simp_all add: set_index_def)

text \<open>The two tables have the same keys, apart from what is enabled.\<close>

definition same_keys :: "table_def \<Rightarrow> table_def \<Rightarrow> bool" where
  "same_keys td td' \<longleftrightarrow> length (td_keys td') = length (td_keys td) \<and> td_primary td' = td_primary td
     \<and> (\<forall>i. kd_unique (the_key td' i) = kd_unique (the_key td i) \<and> kd_multiple (the_key td' i) = kd_multiple (the_key td i)
         \<and> kd_fulltext (the_key td' i) = kd_fulltext (the_key td i) \<and> kd_key (the_key td' i) = kd_key (the_key td i))"

lemma same_keys_rebuild:
  assumes "same_keys td td'"
  shows "rebuild_accepted env td' = rebuild_accepted env td" "rebuild_promise env td' = rebuild_promise env td"
    "unique_rows td' rows i = unique_rows td rows i" "postings_of td' rows R i = postings_of td rows R i"
  using assms
  by (simp_all add: same_keys_def rebuild_accepted_def record_accepted_def rebuild_promise_def unique_rows_def postings_of_def)

definition enable_target :: "table_def \<Rightarrow> (nat \<Rightarrow> bool) \<Rightarrow> nat \<Rightarrow> bool" where
  "enable_target td target i \<longleftrightarrow> td_primary td \<noteq> Some i \<and> target i"

lemma enable_keys_loop_ok:
  assumes "\<And>i. create_refused env i = 0"
  shows "distinct is \<Longrightarrow> set is \<subseteq> {..<length (td_keys td)}
    \<Longrightarrow> \<forall>i\<in>set is. enable_target td target i \<and> \<not> kd_column (the_key td i) \<and> \<not> kd_multiple (the_key td i) \<longrightarrow> \<not> unindexed env i
    \<Longrightarrow> \<exists>cols' td' d'. enable_keys_loop env target is multi cols (td, d)
        = Some (0, multi \<or> (\<exists>i\<in>set is. enable_target td target i \<and> \<not> kd_column (the_key td i) \<and> multiple_index td i), cols', td', d')
      \<and> same_keys td td' \<and> d_rows d' = d_rows d \<and> d_postings d' = d_postings d
      \<and> (\<forall>i<length (td_keys td). kd_column (the_key td' i) = (kd_column (the_key td i) \<or> i \<in> set is \<and> enable_target td target i))
      \<and> (\<forall>i. cols' i = (if i \<in> set is \<and> enable_target td target i then Some (\<not> kd_column (the_key td i)) else cols i))
      \<and> (\<forall>i. multiple_index td i \<or> kd_column (the_key td i) \<or> \<not> enable_target td target i \<longrightarrow> d_keys d' i = d_keys d i)"
proof (induction "is" arbitrary: multi cols td d)
  case (Cons i "is")
  have i: "i < length (td_keys td)" "i \<notin> set is" "distinct is" "set is \<subseteq> {..<length (td_keys td)}" using Cons.prems(1,2) by simp_all
  show ?case
  proof (cases "enable_target td target i \<and> \<not> kd_column (the_key td i)")
    case True
    let ?td = "set_index i True td" and ?d = "if multiple_index td i then d else build_index env i d" and ?cols = "cols(i := Some True)"
    have step: "enable_keys_loop env target (i # is) multi cols (td, d)
        = enable_keys_loop env target is (multi \<or> multiple_index td i) ?cols (?td, ?d)"
      using True Cons.prems(3) assms by (auto simp: enable_target_def create_index_def)
    have t: "enable_target ?td target j = enable_target td target j" for j by (simp add: enable_target_def)
    have col: "kd_column (the_key ?td j) = (kd_column (the_key td j) \<or> j = i)" for j using i(1) by auto
    have free: "\<forall>j\<in>set is. enable_target td target j \<and> \<not> (kd_column (the_key td j) \<or> j = i) \<and> \<not> kd_multiple (the_key td j) \<longrightarrow> \<not> unindexed env j"
      using Cons.prems(3) by simp
    obtain cols' td' d' where r: "enable_keys_loop env target is (multi \<or> multiple_index td i) ?cols (?td, ?d)
        = Some (0, (multi \<or> multiple_index td i) \<or> (\<exists>j\<in>set is. enable_target td target j \<and> \<not> (kd_column (the_key td j) \<or> j = i) \<and> multiple_index td j), cols', td', d')"
        "same_keys ?td td'" "d_rows d' = d_rows ?d" "d_postings d' = d_postings ?d"
        "\<forall>j<length (td_keys td). kd_column (the_key td' j) = ((kd_column (the_key td j) \<or> j = i) \<or> j \<in> set is \<and> enable_target td target j)"
        "\<forall>j. cols' j = (if j \<in> set is \<and> enable_target td target j then Some (\<not> (kd_column (the_key td j) \<or> j = i)) else ?cols j)"
        "\<forall>j. multiple_index td j \<or> (kd_column (the_key td j) \<or> j = i) \<or> \<not> enable_target td target j \<longrightarrow> d_keys d' j = d_keys ?d j"
      using Cons.IH [of ?td "multi \<or> multiple_index td i" ?cols ?d, unfolded t col set_index_simps(1-6), OF i(3,4) free] by (elim exE conjE) (rule that)
    show ?thesis
    proof (rule exI [of _ cols'], rule exI [of _ td'], rule exI [of _ d'], intro conjI)
      show "enable_keys_loop env target (i # is) multi cols (td, d)
          = Some (0, multi \<or> (\<exists>i\<in>set (i # is). enable_target td target i \<and> \<not> kd_column (the_key td i) \<and> multiple_index td i), cols', td', d')"
        unfolding step r(1) using True i(2) by auto
      show "same_keys td td'" using r(2) by (simp add: same_keys_def)
      show "d_rows d' = d_rows d" "d_postings d' = d_postings d" using r(3,4) by auto
      show "\<forall>j<length (td_keys td). kd_column (the_key td' j) = (kd_column (the_key td j) \<or> j \<in> set (i # is) \<and> enable_target td target j)"
        using r(5) True by auto
      show "\<forall>j. cols' j = (if j \<in> set (i # is) \<and> enable_target td target j then Some (\<not> kd_column (the_key td j)) else cols j)"
        using r(6) True i(2) by auto
      show "\<forall>j. multiple_index td j \<or> kd_column (the_key td j) \<or> \<not> enable_target td target j \<longrightarrow> d_keys d' j = d_keys d j"
        using r(7) True by auto
    qed
  next
    case False
    let ?cols = "if enable_target td target i then cols(i := Some False) else cols"
    have step: "enable_keys_loop env target (i # is) multi cols (td, d) = enable_keys_loop env target is multi ?cols (td, d)"
      using False by (auto simp: enable_target_def)
    show ?thesis unfolding step using Cons.IH [of td multi ?cols d] Cons.prems i False by (auto split: if_splits)
  qed
qed (simp add: same_keys_def)

text \<open>C11: ALTER TABLE ... ENABLE KEYS, when nothing is refused: every index that is not unique is enabled afterwards, every enabled index of several
  columns has exactly the entries of all rows, also of those written while it was disabled, and the unique indexes are as exact as before.\<close>

theorem enabled_indexes_exact:
  assumes "rebuild_accepted env td" "rebuild_promise env td" "\<And>i. create_refused env i = 0"
    and "\<forall>i<length (td_keys td). \<not> kd_column (the_key td i) \<and> \<not> kd_multiple (the_key td i) \<longrightarrow> \<not> unindexed env i"
    and "\<forall>p. td_primary td = Some p \<longrightarrow> kd_unique (the_key td p)" "finite (dom (d_rows d))" "indexes_exact td d"
    and "\<forall>i<length (td_keys td). \<not> kd_column (the_key td i) \<and> multiple_index td i \<longrightarrow> d_postings d i = {}"
  shows "\<exists>td' d'. storage_enable_indexes env True (\<lambda>i. \<not> kd_unique (the_key td i)) True (td, d) = Some (0, td', d')
    \<and> (\<forall>i<length (td_keys td). kd_column (the_key td' i) = (kd_column (the_key td i) \<or> \<not> kd_unique (the_key td i)))
    \<and> same_keys td td' \<and> indexes_exact td' d' \<and> d_rows d' = d_rows d"
proof (cases "list_all (\<lambda>i. td_primary td = Some i \<or> kd_column (the_key td i)) (all_keys td)")
  case True
  then show ?thesis using assms(5,7)
    by (intro exI [of _ td] exI [of _ d]) (auto simp: storage_enable_indexes_def same_keys_def list_all_iff)
next
  case False
  let ?n = "length (td_keys td)" and ?t = "\<lambda>i. \<not> kd_unique (the_key td i)" and ?rows = "d_rows d"
  have t: "enable_target td ?t i \<longleftrightarrow> \<not> kd_unique (the_key td i)" for i using assms(5) by (auto simp: enable_target_def)
  let ?have = "\<exists>i\<in>set (all_keys td). \<not> kd_unique (the_key td i) \<and> \<not> kd_column (the_key td i) \<and> multiple_index td i"
  have pre: "distinct (all_keys td)" "set (all_keys td) \<subseteq> {..<?n}"
      "\<forall>i\<in>set (all_keys td). \<not> kd_unique (the_key td i) \<and> \<not> kd_column (the_key td i) \<and> \<not> kd_multiple (the_key td i) \<longrightarrow> \<not> unindexed env i"
    using assms(4) by auto
  obtain cols td' d1 where raw: "enable_keys_loop env ?t (all_keys td) False (\<lambda>i. None) (td, d) = Some (0, False \<or> ?have, cols, td', d1)"
      "same_keys td td'" "d_rows d1 = ?rows" "d_postings d1 = d_postings d"
      "\<forall>i<?n. kd_column (the_key td' i) = (kd_column (the_key td i) \<or> i \<in> set (all_keys td) \<and> \<not> kd_unique (the_key td i))"
      "\<forall>i. cols i = (if i \<in> set (all_keys td) \<and> \<not> kd_unique (the_key td i) then Some (\<not> kd_column (the_key td i)) else None)"
      "\<forall>i. multiple_index td i \<or> kd_column (the_key td i) \<or> \<not> \<not> kd_unique (the_key td i) \<longrightarrow> d_keys d1 i = d_keys d i"
    using enable_keys_loop_ok [where target = ?t and multi = False and cols = "\<lambda>i. None" and d = d and td = td, unfolded t, OF assms(3) pre]
    by (elim exE conjE) (rule that)
  have loop: "enable_keys_loop env ?t (all_keys td) False (\<lambda>i. None) (td, d) = Some (0, ?have, cols, td', d1)"
      "same_keys td td'" "d_rows d1 = ?rows" "d_postings d1 = d_postings d"
      "\<forall>i<?n. kd_column (the_key td' i) = (kd_column (the_key td i) \<or> \<not> kd_unique (the_key td i))"
      "\<forall>i<?n. cols i = (if \<not> kd_unique (the_key td i) then Some (\<not> kd_column (the_key td i)) else None)"
      "\<forall>i. multiple_index td i \<or> kd_column (the_key td i) \<or> kd_unique (the_key td i) \<longrightarrow> d_keys d1 i = d_keys d i"
    using raw by simp_all
  have keys: "multiple_index td' i = multiple_index td i" "kd_unique (the_key td' i) = kd_unique (the_key td i)" "kd_key (the_key td' i) = kd_key (the_key td i)"
      "length (td_keys td') = ?n" for i
    using loop(2) by (simp_all add: same_keys_def)
  have filled: "filled_key td' True cols i \<longleftrightarrow> multiple_index td i \<and> \<not> kd_unique (the_key td i) \<and> \<not> kd_column (the_key td i)" if "i < ?n" for i
    using loop(6) that unfolding filled_key_def keys by auto
  have set: "columns_set td' True cols" using loop(6) unfolding columns_set_def keys by simp
  have "\<exists>d'. storage_enable_indexes env True ?t True (td, d) = Some (0, td', d') \<and> d_rows d' = ?rows
      \<and> (\<forall>i<?n. d_keys d' i = d_keys d1 i \<and> d_postings d' i = (if filled_key td' True cols i then postings_of td ?rows (dom ?rows) i else d_postings d i))"
  proof (cases ?have)
    case True
    have acc: "rebuild_accepted env td'" "rebuild_promise env td'" "finite (dom (d_rows d1))" using assms(1,2,6) loop(3) same_keys_rebuild [OF loop(2)] by simp_all
    have "\<not> kd_unique (the_key td' i)" "d_postings d1 i = {}" if "i < length (td_keys td')" "filled_key td' True cols i" for i
      using assms(8) loop(4) that filled [of i] unfolding keys by auto
    then obtain d' where d': "storage_add_index_multiple_columns env td' True cols d1 = Some (0, d')" "d_rows d' = d_rows d1"
        "\<forall>i. if i < length (td_keys td') \<and> filled_key td' True cols i
            then d_postings d' i = postings_of td' (d_rows d1) (dom (d_rows d1)) i
              \<and> (if kd_unique (the_key td' i) then index_ok (kd_key (the_key td' i)) (d_keys d' i) (d_rows d1) else d_keys d' i = d_keys d1 i)
            else d_postings d' i = d_postings d1 i \<and> d_keys d' i = d_keys d1 i"
      using add_index_ok [OF acc(1,2) set acc(3)] by blast
    have "d_keys d' i = d_keys d1 i \<and> d_postings d' i = (if filled_key td' True cols i then postings_of td ?rows (dom ?rows) i else d_postings d i)"
      if "i < ?n" for i
      using spec [OF d'(3), of i] that filled [OF that] loop(3,4) same_keys_rebuild(4) [OF loop(2)] unfolding keys by (auto split: if_splits)
    then show ?thesis using d'(1,2) loop(1,3) True False by (intro exI [of _ d']) (auto simp: storage_enable_indexes_def)
  next
    case none: False
    then have "\<not> filled_key td' True cols i" if "i < ?n" for i using filled [OF that] that by auto
    then show ?thesis using none loop(1,3,4) False by (intro exI [of _ d1]) (auto simp: storage_enable_indexes_def)
  qed
  then obtain d' where d': "storage_enable_indexes env True ?t True (td, d) = Some (0, td', d')" "d_rows d' = ?rows"
      "\<And>i. i < ?n \<Longrightarrow> d_keys d' i = d_keys d1 i \<and> d_postings d' i = (if filled_key td' True cols i then postings_of td ?rows (dom ?rows) i else d_postings d i)"
    by blast
  have "indexes_exact td' d'"
    using assms(7) d'(2,3) filled loop(5,7) same_keys_rebuild(4) [OF loop(2)] unfolding indexes_exact_def keys by (auto split: if_splits)
  then show ?thesis using d'(1,2) loop(2,5) by blast
qed

section \<open>An example\<close>

text \<open>A key gets the number behind the first record that has it.\<close>

definition sample_built :: "(nat \<Rightarrow> row \<Rightarrow> byte list) \<Rightarrow> nat \<Rightarrow> (grn_id \<rightharpoonup> row) \<Rightarrow> byte list \<rightharpoonup> grn_id" where
  "sample_built key i rows k = map_option Suc (find (\<lambda>r. key i (the (rows r)) = k) (sorted_list_of_set (dom rows)))"

definition sample_rebuild_env :: "(nat \<Rightarrow> row \<Rightarrow> byte list) \<Rightarrow> rebuild_env" where
  "sample_rebuild_env key = \<lparr>encoding_error = 0, rb_dry_write = False, cursor_refused = (\<lambda>_. False), truncate_refused = (\<lambda>_. False),
     reindex_refused = (\<lambda>_. False), create_refused = (\<lambda>_. 0), remove_refused = (\<lambda>_. False),
     record_order = (\<lambda>rows. sorted_list_of_set (dom rows)), record_faults = (\<lambda>r. no_faults\<lparr>fresh_key := (\<lambda>_. Suc r)\<rparr>),
     user_lexicon = (\<lambda>_. False), unindexed = (\<lambda>_. False), n_index_columns = (\<lambda>_. 1), built_keys = sample_built key,
     left_postings = (\<lambda>_ p. p)\<rparr>"

lemma find_SomeD: "find P xs = Some x \<Longrightarrow> x \<in> set xs \<and> P x"
  by (induction xs) (auto split: if_splits)

lemma sample_built_exact:
  assumes "finite (dom rows)" "unique_rows td rows i" "key i = kd_key (the_key td i)"
  shows "index_ok (kd_key (the_key td i)) (sample_built key i rows) rows"
proof -
  let ?m = "sample_built key i rows"
  have look: "\<exists>r x. rows r = Some x \<and> ukey td x i = k \<and> m = Suc r" if "?m k = Some m" for k m
    using that assms(1,3) by (auto simp: sample_built_def dest!: find_SomeD)
  have there: "ukey td x i \<in> dom ?m" if "rows r = Some x" for r x
  proof -
    have "r \<in> set (sorted_list_of_set (dom rows)) \<and> key i (the (rows r)) = ukey td x i" using that assms(1,3) by auto
    then have "find (\<lambda>r. key i (the (rows r)) = ukey td x i) (sorted_list_of_set (dom rows)) \<noteq> None" unfolding find_None_iff by blast
    then show ?thesis by (auto simp: sample_built_def)
  qed
  have "dom ?m = kd_key (the_key td i) ` ran rows"
  proof (intro equalityI subsetI)
    fix k assume "k \<in> dom ?m"
    then show "k \<in> kd_key (the_key td i) ` ran rows" using look by (fastforce simp: ran_def)
  next
    fix k assume "k \<in> kd_key (the_key td i) ` ran rows"
    then show "k \<in> dom ?m" using there by (auto simp: ran_def)
  qed
  moreover have "inj_on ?m (dom ?m)"
  proof (rule inj_onI)
    fix k l assume k: "k \<in> dom ?m" and l: "l \<in> dom ?m" and eq: "?m k = ?m l"
    obtain m where m: "?m k = Some m" using k by blast
    show "k = l" using look [OF m] look [of l m] m eq by auto
  qed
  moreover have "GRN_ID_NIL \<notin> ran ?m" using look by (fastforce simp: ran_def GRN_ID_NIL_def)
  ultimately show ?thesis using assms(2) unfolding index_ok_def unique_rows_def by simp
qed

lemma sample_rebuild_ok:
  assumes "\<And>i. i < length (td_keys td) \<Longrightarrow> key i = kd_key (the_key td i)"
  shows "rebuild_accepted (sample_rebuild_env key) td" "rebuild_promise (sample_rebuild_env key) td" "own_tables (sample_rebuild_env key) td"
  using sample_built_exact [of _ td _ key] assms
  by (auto simp: rebuild_accepted_def rebuild_promise_def own_tables_def record_accepted_def sample_rebuild_env_def no_faults_def GRN_ID_NIL_def inj_def)

theorem truncated_table_empty_witness:
  "d_rows (fst (snd (truncate (sample_rebuild_env (\<lambda>_ row. row 1)) healthy_env sample_table True
      (apply_effects sample_effects no_rows, \<lparr>auto_inc_inited = True, auto_inc_value = 8\<rparr>)))) = Map.empty"
proof -
  let ?d = "apply_effects sample_effects no_rows" and ?lts = "\<lparr>auto_inc_inited = True, auto_inc_value = 8\<rparr>"
  obtain e d' lts' where run: "truncate (sample_rebuild_env (\<lambda>_ row. row 1)) healthy_env sample_table True (?d, ?lts) = (e, d', lts')"
    by (metis prod_cases3)
  have "e = 0" using run
    by (auto simp: truncate_def storage_truncate_def storage_truncate_index_def sample_rebuild_env_def sample_table_def sample_key_def upt_rec numeral_eq_Suc split: prod.splits)
  moreover have "distinct (map fst (op_rows (d_journal ?d)))"
    by (simp add: sample_effects_def no_rows_def sample_start GRN_ID_NIL_def)
  ultimately show ?thesis
    using truncated_table_empty [of "sample_rebuild_env (\<lambda>_ row. row 1)" healthy_env sample_table ?d ?lts d' lts'] run
    by (simp add: sample_rebuild_env_def healthy_env_def)
qed


text \<open>A table with an index of two columns that is disabled, and three rows.\<close>

definition pair_key :: "bool \<Rightarrow> bool \<Rightarrow> key_def" where
  "pair_key unique opened = \<lparr>kd_unique = unique, kd_table = opened, kd_column = opened, kd_multiple = True, kd_fulltext = False,
     kd_columns = {1, 2}, kd_key = (\<lambda>row. row 1 @ row 2)\<rparr>"

definition pair_table :: "bool \<Rightarrow> bool \<Rightarrow> table_def" where
  "pair_table unique opened = \<lparr>td_name = ''t'', td_columns = 3, td_keys = [sample_key 0, pair_key unique opened], td_primary = Some 0, td_no_key = False\<rparr>"

definition pair_rows :: "grn_id \<Rightarrow> row option" where
  "pair_rows r = (if r = 1 \<or> r = 2 then Some (\<lambda>c. if c = 0 then [of_nat r] else [7]) else if r = 3 then Some (\<lambda>c. [9]) else None)"

abbreviation pair_disk :: disk where
  "pair_disk \<equiv> no_rows\<lparr>d_rows := pair_rows\<rparr>"

abbreviation pair_env :: rebuild_env where
  "pair_env \<equiv> sample_rebuild_env (\<lambda>i row. if i = 0 then row 0 else row 1 @ row 2)"

lemma pair_rows_dom: "dom pair_rows = {1, 2, 3}"
  by (auto simp: pair_rows_def split: if_splits)

theorem enabled_indexes_exact_witness:
  "\<exists>td' d'. storage_enable_indexes pair_env True (\<lambda>i. \<not> kd_unique (the_key (pair_table False False) i)) True (pair_table False False, pair_disk)
      = Some (0, td', d') \<and> indexes_exact td' d' \<and> d_rows d' = pair_rows"
proof -
  let ?td = "pair_table False False"
  have key: "(\<lambda>row. if i = 0 then row 0 else row 1 @ row 2) = kd_key (the_key ?td i)" if "i < length (td_keys ?td)" for i
    using that by (auto simp: pair_table_def pair_key_def sample_key_def less_Suc_eq)
  note ok = sample_rebuild_ok [of ?td "\<lambda>i row. if i = 0 then row 0 else row 1 @ row 2", OF key]
  have "\<exists>td' d'. storage_enable_indexes pair_env True (\<lambda>i. \<not> kd_unique (the_key ?td i)) True (?td, pair_disk) = Some (0, td', d')
      \<and> (\<forall>i<length (td_keys ?td). kd_column (the_key td' i) = (kd_column (the_key ?td i) \<or> \<not> kd_unique (the_key ?td i)))
      \<and> same_keys ?td td' \<and> indexes_exact td' d' \<and> d_rows d' = d_rows pair_disk"
  proof (rule enabled_indexes_exact [OF ok(1,2)])
    show "indexes_exact ?td pair_disk" by (auto simp: indexes_exact_def pair_table_def pair_key_def sample_key_def less_Suc_eq)
    show "finite (dom (d_rows pair_disk))" by (simp add: pair_rows_dom)
  qed (simp_all add: sample_rebuild_env_def pair_table_def sample_key_def no_rows_def)
  then show ?thesis by auto
qed

section \<open>Where the indexes go wrong\<close>

text \<open>A duplicate leaves only the loop over the keys, and the error is lost when a later record has none: a unique key over rows that are not
  unique is added.\<close>

lemma added_duplicates_accepted:
  "map_option fst (storage_add_index_multiple_columns (pair_env\<lparr>record_order := \<lambda>rows. [1, 2, 3]\<rparr>) (pair_table True True) False (\<lambda>i. Some True) pair_disk) = Some 0"
  "map_option fst (storage_add_index_multiple_columns (pair_env\<lparr>record_order := \<lambda>rows. [3, 1, 2]\<rparr>) (pair_table True True) False (\<lambda>i. Some True) pair_disk)
    = Some HA_ERR_FOUND_DUPP_UNIQUE"
  by (simp_all add: storage_add_index_multiple_columns_def sample_rebuild_env_def no_rows_def pair_rows_def pair_table_def pair_key_def sample_key_def
      no_faults_def upt_rec numeral_eq_Suc add_key_def storage_write_row_unique_index_def error_codes HA_ERR_FOUND_DUPP_UNIQUE_def)

text \<open>Enabling all keys reads the entry of the primary key, which was never set, when the primary key has several columns.\<close>

lemma enable_all_faults:
  "storage_enable_indexes (pair_env\<lparr>record_order := \<lambda>rows. [1]\<rparr>) True (\<lambda>i. True) False
     ((pair_table False False)\<lparr>td_keys := [pair_key True False, pair_key False False]\<rparr>, pair_disk) = None"
  by (simp add: storage_enable_indexes_def sample_rebuild_env_def pair_table_def pair_key_def no_rows_def pair_rows_def upt_rec numeral_eq_Suc
      create_index_def set_index_def storage_add_index_multiple_columns_def)

text \<open>A key that gets no index, such as a foreign key, makes the statement copy an entry that was never set.\<close>

lemma enable_foreign_key_faults:
  "storage_enable_indexes (pair_env\<lparr>unindexed := \<lambda>i. i = 1\<rparr>) True (\<lambda>i. True) True
     ((pair_table False False)\<lparr>td_keys := [sample_key 0, sample_key 0]\<rparr>, pair_disk) = None"
  by (simp add: storage_enable_indexes_def sample_rebuild_env_def pair_table_def sample_key_def upt_rec numeral_eq_Suc)

text \<open>Disabling never reports an error, whatever Groonga refuses.\<close>

lemma disable_reports_nothing: "fst (storage_disable_indexes env True target st) = 0"
proof -
  have "fst (disable_keys_loop env target is 0 st) = 0" for "is"
    by (induction "is" arbitrary: st) (auto split: prod.splits)
  then show ?thesis by (simp add: storage_disable_indexes_def)
qed

text \<open>DELETE without a condition leaves the entries of the indexes of several columns that are not unique.\<close>

lemma delete_all_keeps_postings:
  "\<not> kd_unique (the_key td i) \<Longrightarrow> d_postings (snd (storage_delete_all_rows env td d)) i = d_postings d i"
proof -
  assume u: "\<not> kd_unique (the_key td i)"
  have other: "d_postings (snd (generic_delete_all_rows env t d)) i = d_postings d i" if "t \<noteq> Some i" for t d
    using that by (auto simp: generic_delete_all_rows_def clear_rows_def split: option.split)
  have "d_postings (snd (delete_all_keys env td is d)) i = d_postings d i" for "is" d
  proof (induction "is" arbitrary: d)
    case (Cons j "is")
    have "j \<noteq> i" if "kd_unique (the_key td j)" using that u by auto
    then show ?case using Cons other [of "Some j" d] by (auto split: prod.splits)
  qed simp
  then show ?thesis using other [of None d] by (auto simp: storage_delete_all_rows_def split: prod.splits)
qed

text \<open>REPAIR TABLE leaves the indexes of several columns empty.\<close>

lemma set_indexes_simps [simp]:
  "length (td_keys (fold (\<lambda>i. set_index i b) is td)) = length (td_keys td)" "td_primary (fold (\<lambda>i. set_index i b) is td) = td_primary td"
  "kd_multiple (the_key (fold (\<lambda>i. set_index i b) is td) j) = kd_multiple (the_key td j)"
  "kd_fulltext (the_key (fold (\<lambda>i. set_index i b) is td) j) = kd_fulltext (the_key td j)"
  by (induction "is" arbitrary: td) simp_all

lemma remove_indexes:
  "i \<in> set is \<Longrightarrow> \<not> user_lexicon env i \<Longrightarrow> td_primary td \<noteq> Some i
    \<Longrightarrow> d_postings (fold (remove_index env td) is d) i = {} \<and> d_keys (fold (remove_index env td) is d) i = Map.empty"
  "d_rows (fold (remove_index env td) is d) = d_rows d"
proof -
  have keep: "d_postings (fold (remove_index env td) is d) i = {} \<and> d_keys (fold (remove_index env td) is d) i = Map.empty"
    if "d_postings d i = {} \<and> d_keys d i = Map.empty" for "is" d
    using that by (induction "is" arbitrary: d) (auto simp: remove_index_def)
  show "i \<in> set is \<Longrightarrow> \<not> user_lexicon env i \<Longrightarrow> td_primary td \<noteq> Some i
    \<Longrightarrow> d_postings (fold (remove_index env td) is d) i = {} \<and> d_keys (fold (remove_index env td) is d) i = Map.empty"
  proof (induction "is" arbitrary: d)
    case (Cons j "is")
    then show ?case using keep [of "remove_index env td i d" "is"] by (cases "j = i") (simp_all add: remove_index_def [of env td i])
  qed simp
  show "d_rows (fold (remove_index env td) is d) = d_rows d" by (induction "is" arbitrary: d) (simp_all add: remove_index_def)
qed

lemma recreate_keys_ok:
  "(\<And>i. create_refused env i = 0) \<Longrightarrow> \<exists>td' d'. recreate_keys env is (td, d) = (0, td', d') \<and> d_rows d' = d_rows d \<and> d_postings d' = d_postings d
    \<and> (\<forall>i. multiple_index td i \<longrightarrow> d_keys d' i = d_keys d i)"
proof (induction "is" arbitrary: td d)
  case (Cons j "is")
  obtain td1 d1 where s: "create_index env j (td, d) = (td1, d1)" "d_rows d1 = d_rows d" "d_postings d1 = d_postings d"
      "\<forall>i. multiple_index td i \<longrightarrow> d_keys d1 i = d_keys d i" "\<forall>i. multiple_index td1 i = multiple_index td i"
    by (cases "multiple_index td j") (auto simp: create_index_def intro: that)
  show ?case using Cons.IH [OF Cons.prems, of td d] Cons.IH [OF Cons.prems, of td1 d1] Cons.prems s
    by (cases "td_primary td = Some j \<or> \<not> kd_multiple (the_key td j) \<and> unindexed env j") auto
qed simp

lemma repaired_multiple_index_empty:
  assumes "\<And>i. create_refused env i = 0" "i < length (td_keys td)" "multiple_index td i" "td_primary td \<noteq> Some i" "\<not> user_lexicon env i"
  shows "\<exists>td' d'. storage_recreate_indexes env False (td, d) = (HA_ADMIN_OK, td', d') \<and> d_rows d' = d_rows d
    \<and> d_postings d' i = {} \<and> d_keys d' i = Map.empty"
proof -
  let ?td = "fold (\<lambda>i. set_index i False) (all_keys td) td" and ?d = "fold (remove_index env td) (all_keys td) d"
  obtain td' d' where r: "recreate_keys env (all_keys td) (?td, ?d) = (0, td', d')" "d_rows d' = d_rows ?d" "d_postings d' = d_postings ?d"
      "\<forall>i. multiple_index ?td i \<longrightarrow> d_keys d' i = d_keys ?d i"
    using recreate_keys_ok [OF assms(1)] by blast
  have "d_postings ?d i = {} \<and> d_keys ?d i = Map.empty" using assms(2,4,5) by (intro remove_indexes(1)) simp_all
  then show ?thesis using r assms(3) by (simp add: storage_recreate_indexes_def Let_def HA_ADMIN_OK_def remove_indexes(2))
qed

end
