(* ===== verification/Table_Share.thy ===== *)
theory Table_Share
  imports Table_Params Auto_Increment
begin

text \<open>
  The shares of the tables (\<^verbatim>\<open>mrn_table.cpp\<close>): every open table has one \<^verbatim>\<open>MRN_SHARE\<close>, counted by its users,
  and one \<^verbatim>\<open>MRN_LONG_TERM_SHARE\<close>, both found by the name of the table in hash tables. They live on an
  explicit heap; reading a freed or null pointer is \<^const>\<open>None\<close>. The handler operations \<^verbatim>\<open>open\<close>, \<^verbatim>\<open>close\<close>,
  \<^verbatim>\<open>create\<close>, \<^verbatim>\<open>delete_table\<close> and \<^verbatim>\<open>rename_table\<close> (\<^verbatim>\<open>ha_mroonga.cpp\<close>) are modelled as far as they use the
  shares. They run one after the other under \<^verbatim>\<open>mrn_open_tables_mutex\<close> and \<^verbatim>\<open>mrn_long_term_shares_mutex\<close>; what
  they do besides ends in an error code that is a parameter.
\<close>

section \<open>Keys of the wrapped table\<close>

datatype key_algorithm = HA_KEY_ALG_UNDEF | HA_KEY_ALG_BTREE | HA_KEY_ALG_HASH | HA_KEY_ALG_RTREE | HA_KEY_ALG_FULLTEXT

text \<open>A key with its algorithm and, for each part, whether it has a field and whether the field is a geometry.\<close>

record key =
  key_id :: nat
  algorithm :: key_algorithm
  key_parts :: "bool option list"

definition MAX_KEY :: nat where "MAX_KEY = 64"

definition mrn_is_geo_key :: "key \<Rightarrow> bool" where
  "mrn_is_geo_key k \<longleftrightarrow> algorithm k \<noteq> HA_KEY_ALG_BTREE \<and> algorithm k \<noteq> HA_KEY_ALG_HASH
     \<and> algorithm k \<noteq> HA_KEY_ALG_FULLTEXT \<and> length (key_parts k) = 1 \<and> hd (key_parts k) = Some True"

definition is_wrapped_key :: "key \<Rightarrow> bool" where
  "is_wrapped_key k \<longleftrightarrow> algorithm k \<noteq> HA_KEY_ALG_FULLTEXT \<and> \<not> mrn_is_geo_key k"

text \<open>The loop of \<^verbatim>\<open>mrn_get_share\<close>: \<^verbatim>\<open>wrap_key_nr\<close> and \<^verbatim>\<open>wrap_key_info\<close> from the next number \<open>j\<close> on.\<close>

fun wrap_key_loop :: "nat \<Rightarrow> key list \<Rightarrow> nat list \<times> key list" where
  "wrap_key_loop j [] = ([], [])"
| "wrap_key_loop j (k # ks) =
     (if is_wrapped_key k then case wrap_key_loop (j + 1) ks of (nrs, infos) \<Rightarrow> (j # nrs, k # infos)
      else case wrap_key_loop j ks of (nrs, infos) \<Rightarrow> (MAX_KEY # nrs, infos))"

definition wrap_primary_key_of :: "nat list \<Rightarrow> nat \<Rightarrow> nat" where
  "wrap_primary_key_of nrs primary_key =
     (if nrs = [] \<or> primary_key = MAX_KEY then MAX_KEY else nrs ! primary_key)"

text \<open>Copying the keys of a table into an array with one place for every wrapped key; \<^const>\<open>None\<close> is a place
  that is still filled with zeros.\<close>

fun copy_keys :: "nat list \<Rightarrow> key list \<Rightarrow> key option list \<Rightarrow> key option list" where
  "copy_keys (j # nrs) (k # ks) infos = copy_keys nrs ks (if j < MAX_KEY then infos[j := Some k] else infos)"
| "copy_keys _ _ infos = infos"

definition mrn_create_key_info_for_table :: "nat list \<Rightarrow> nat \<Rightarrow> key list \<Rightarrow> key option list" where
  "mrn_create_key_info_for_table wrap_key_nr wrap_keys keys =
     (if wrap_keys \<noteq> 0 then copy_keys wrap_key_nr keys (replicate wrap_keys None) else [])"

section \<open>Shares\<close>

record lts_object = long_term_share +
  lts_name :: string

record share =
  share_name :: string
  use_count :: nat
  share_lts :: "nat option"
  share_params :: table_params
  share_columns :: "column_params list"
  wrapper_mode :: bool
  wrap_key_nr :: "nat list"
  wrap_key_info :: "key list"
  wrap_primary_key :: nat

text \<open>The definition of a table: its comments, the comments of its fields, its keys and the number of its
  primary key.\<close>

record table_definition =
  td_comments :: "string option list"
  td_fields :: "string list"
  td_keys :: "key list"
  td_primary_key :: nat

record world =
  shares :: "nat \<rightharpoonup> share"
  lts_heap :: "nat \<rightharpoonup> lts_object"
  open_tables :: "string \<rightharpoonup> nat"
  long_term_shares :: "string \<rightharpoonup> nat"
  next_address :: nat
  plugin_locks :: nat
  handlers :: "nat \<rightharpoonup> nat"

datatype share_error = Param_error param_error | HA_ERR_OUT_OF_MEM | Other_error

text \<open>Where memory or a mutex is missing.\<close>

datatype shortage = No_shortage | At_alloc | At_mutex | At_hash

fun lts_shortage :: "shortage \<Rightarrow> bool" where
  "lts_shortage No_shortage = False"
| "lts_shortage _ = True"

definition mrn_get_long_term_share :: "shortage \<Rightarrow> string \<Rightarrow> world \<Rightarrow> (share_error + nat) \<times> world" where
  "mrn_get_long_term_share lack name w = (case long_term_shares w name of
      Some l \<Rightarrow> (Inr l, w)
    | None \<Rightarrow>
        if lts_shortage lack then (Inl HA_ERR_OUT_OF_MEM, w)
        else let l = next_address w in
          (Inr l, w\<lparr>next_address := l + 1,
             lts_heap := (lts_heap w)(l \<mapsto> \<lparr>auto_inc_inited = False, auto_inc_value = 0, lts_name = name\<rparr>),
             long_term_shares := (long_term_shares w)(name \<mapsto> l)\<rparr>))"

text \<open>The null pointer or a freed long term share has no name to delete.\<close>

definition mrn_free_long_term_share :: "nat option \<Rightarrow> world \<Rightarrow> world option" where
  "mrn_free_long_term_share lts w = (case Option.bind lts (lts_heap w) of
      None \<Rightarrow> None
    | Some ob \<Rightarrow> Some (w\<lparr>long_term_shares := (long_term_shares w)(lts_name ob := None),
        lts_heap := (lts_heap w)(the lts := None)\<rparr>))"

text \<open>A new share before it is entered into the hash table: the parameters come from the comments.\<close>

definition new_share :: "(string \<Rightarrow> bool) \<Rightarrow> string option \<Rightarrow> string \<Rightarrow> table_definition \<Rightarrow> param_error + share" where
  "new_share resolves default_engine name td =
     (case mrn_parse_table_param resolves default_engine (td_comments td) no_params of
        Inl e \<Rightarrow> Inl e
      | Inr (ps, wm) \<Rightarrow>
          (case mrn_parse_column_param wm (map (\<lambda>c. (c, \<lparr>col_type = None, col_flags = None\<rparr>)) (td_fields td)) of
             Inl e \<Rightarrow> Inl e
           | Inr cols \<Rightarrow>
               (case wrap_key_loop 0 (td_keys td) of (nrs, infos) \<Rightarrow>
                  Inr \<lparr>share_name = name, use_count = 0, share_lts = None, share_params = ps, share_columns = cols,
                       wrapper_mode = wm,
                       wrap_key_nr = (if wm then nrs else []), wrap_key_info = (if wm then infos else []),
                       wrap_primary_key = (if wm then wrap_primary_key_of nrs (td_primary_key td) else 0)\<rparr>)))"

text \<open>A plugin is locked when the engine is resolved, and no error path unlocks it.\<close>

definition mrn_get_share ::
    "(string \<Rightarrow> bool) \<Rightarrow> string option \<Rightarrow> shortage \<Rightarrow> shortage \<Rightarrow> string \<Rightarrow> table_definition \<Rightarrow> world \<Rightarrow> (share_error + nat) \<times> world" where
  "mrn_get_share resolves default_engine lack lts_lack name td w = (case open_tables w name of
      Some a \<Rightarrow> (Inr a, w\<lparr>shares := (shares w)(a := map_option (\<lambda>s. s\<lparr>use_count := use_count s + 1\<rparr>) (shares w a))\<rparr>)
    | None \<Rightarrow>
        if lack = At_alloc then (Inl HA_ERR_OUT_OF_MEM, w)
        else (case new_share resolves default_engine name td of
            Inl e \<Rightarrow> (Inl (Param_error e), w)
          | Inr s \<Rightarrow>
              let w1 = w\<lparr>plugin_locks := plugin_locks w + (if wrapper_mode s then 1 else 0)\<rparr> in
              if lack = At_mutex then (Inl HA_ERR_OUT_OF_MEM, w1)
              else (case mrn_get_long_term_share lts_lack name w1 of
                  (Inl e, w2) \<Rightarrow> (Inl e, w2)
                | (Inr l, w2) \<Rightarrow>
                    if lack = At_hash then (Inl HA_ERR_OUT_OF_MEM, w2)
                    else let a = next_address w2 in
                      (Inr a, w2\<lparr>next_address := a + 1,
                         shares := (shares w2)(a \<mapsto> s\<lparr>share_lts := Some l, use_count := 1\<rparr>),
                         open_tables := (open_tables w2)(name \<mapsto> a)\<rparr>))))"

text \<open>\<open>use_count\<close> is unsigned and at least one while the share exists.\<close>

definition mrn_free_share :: "nat \<Rightarrow> bool \<Rightarrow> world \<Rightarrow> world option" where
  "mrn_free_share a free_long_term_share w = (case shares w a of
      None \<Rightarrow> None
    | Some s \<Rightarrow>
        if use_count s \<noteq> 1 then Some (w\<lparr>shares := (shares w)(a \<mapsto> s\<lparr>use_count := use_count s - 1\<rparr>)\<rparr>)
        else (case (if free_long_term_share then mrn_free_long_term_share (share_lts s) w else Some w) of
            None \<Rightarrow> None
          | Some w1 \<Rightarrow> Some (w1\<lparr>open_tables := (open_tables w1)(share_name s := None),
              plugin_locks := plugin_locks w1 - (if wrapper_mode s then 1 else 0),
              shares := (shares w1)(a := None)\<rparr>)))"

section \<open>Handler operations\<close>

text \<open>\<open>failed\<close> says that the work of the operation besides the shares failed. A null pointer that is followed
  is \<^const>\<open>None\<close>.\<close>

definition set_share_lts_null :: "nat \<Rightarrow> world \<Rightarrow> world" where
  "set_share_lts_null a w = w\<lparr>shares := (shares w)(a := map_option (\<lambda>s. s\<lparr>share_lts := None\<rparr>) (shares w a))\<rparr>"

definition lts_of :: "nat \<Rightarrow> world \<Rightarrow> nat option" where
  "lts_of a w = Option.bind (shares w a) share_lts"

definition handler_open ::
    "(string \<Rightarrow> bool) \<Rightarrow> string option \<Rightarrow> shortage \<Rightarrow> shortage \<Rightarrow> nat \<Rightarrow> string \<Rightarrow> table_definition \<Rightarrow> bool \<Rightarrow> world \<Rightarrow> world option" where
  "handler_open resolves default_engine lack lts_lack h name td failed w =
     (case mrn_get_share resolves default_engine lack lts_lack name td w of
        (Inl e, w1) \<Rightarrow> Some w1
      | (Inr a, w1) \<Rightarrow>
          if failed then mrn_free_share a False w1 else Some (w1\<lparr>handlers := (handlers w1)(h \<mapsto> a)\<rparr>))"

text \<open>Only closing the table of a wrapped handler can fail; then the share is kept.\<close>

definition handler_close :: "nat \<Rightarrow> bool \<Rightarrow> world \<Rightarrow> world option" where
  "handler_close h failed w = (case handlers w h of
      None \<Rightarrow> None
    | Some a \<Rightarrow> if failed then Some w else map_option (\<lambda>w1. w1\<lparr>handlers := (handlers w1)(h := None)\<rparr>) (mrn_free_share a True w))"

text \<open>\<open>auto_value\<close> is the value of \<^verbatim>\<open>AUTO_INCREMENT\<close> of a new table.\<close>

definition handler_create ::
    "(string \<Rightarrow> bool) \<Rightarrow> string option \<Rightarrow> shortage \<Rightarrow> shortage \<Rightarrow> string \<Rightarrow> table_definition \<Rightarrow> ulonglong \<Rightarrow> bool \<Rightarrow> world \<Rightarrow> world option" where
  "handler_create resolves default_engine lack lts_lack name td auto_value failed w =
     (case mrn_get_share resolves default_engine lack lts_lack name td w of
        (Inl e, w1) \<Rightarrow> Some w1
      | (Inr a, w1) \<Rightarrow>
          (case lts_of a w1 of
             None \<Rightarrow> None
           | Some l \<Rightarrow>
               let w2 = (if map_option wrapper_mode (shares w1 a) = Some True then w1
                     else w1\<lparr>lts_heap := (lts_heap w1)(l := map_option (create_auto_increment auto_value) (lts_heap w1 l))\<rparr>)
               in if failed then
                    Option.bind (mrn_free_long_term_share (Some l) w2) (\<lambda>w3. mrn_free_share a False (set_share_lts_null a w3))
                  else mrn_free_share a False w2))"

text \<open>\<^verbatim>\<open>delete_table\<close> with a table definition: the long term share is freed.\<close>

definition handler_delete_table ::
    "(string \<Rightarrow> bool) \<Rightarrow> string option \<Rightarrow> shortage \<Rightarrow> shortage \<Rightarrow> string \<Rightarrow> table_definition \<Rightarrow> world \<Rightarrow> world option" where
  "handler_delete_table resolves default_engine lack lts_lack name td w =
     (case mrn_get_share resolves default_engine lack lts_lack name td w of
        (Inl e, w1) \<Rightarrow> Some w1
      | (Inr a, w1) \<Rightarrow>
          Option.bind (mrn_free_long_term_share (lts_of a w1) w1) (\<lambda>w2. mrn_free_share a False (set_share_lts_null a w2)))"

text \<open>\<^verbatim>\<open>storage_rename_table\<close> copies the auto increment value to the long term share of the new name. \<open>early\<close> is a
  failure before that, \<open>failed\<close> one behind it.\<close>

definition storage_rename_lts :: "shortage \<Rightarrow> string \<Rightarrow> nat option \<Rightarrow> bool \<Rightarrow> bool \<Rightarrow> world \<Rightarrow> (bool \<times> world) option" where
  "storage_rename_lts to_lack to from_lts early failed w =
     (if early then Some (True, w)
      else case mrn_get_long_term_share to_lack to w of
        (Inl e, w1) \<Rightarrow> Some (True, w1)
      | (Inr t, w1) \<Rightarrow>
          (case Option.bind from_lts (lts_heap w1) of
             None \<Rightarrow> None
           | Some from_ob \<Rightarrow>
               let w2 = w1\<lparr>lts_heap := (lts_heap w1)(t := map_option (rename_auto_increment from_ob) (lts_heap w1 t))\<rparr>
               in if failed then map_option (Pair True) (mrn_free_long_term_share (Some t) w2) else Some (False, w2)))"

definition handler_rename_table ::
    "(string \<Rightarrow> bool) \<Rightarrow> string option \<Rightarrow> shortage \<Rightarrow> shortage \<Rightarrow> shortage \<Rightarrow> string \<Rightarrow> string \<Rightarrow> table_definition \<Rightarrow> bool \<Rightarrow> bool \<Rightarrow> world \<Rightarrow> world option" where
  "handler_rename_table resolves default_engine lack lts_lack to_lack from to td early failed w =
     (case mrn_get_share resolves default_engine lack lts_lack from td w of
        (Inl e, w1) \<Rightarrow> Some w1
      | (Inr a, w1) \<Rightarrow>
          (case (if map_option wrapper_mode (shares w1 a) = Some True then Some (early \<or> failed, w1)
                 else storage_rename_lts to_lack to (lts_of a w1) early failed w1) of
             None \<Rightarrow> None
           | Some (err, w2) \<Rightarrow>
               if err then mrn_free_share a False w2
               else Option.bind (mrn_free_long_term_share (lts_of a w2) w2)
                      (\<lambda>w3. mrn_free_share a False (set_share_lts_null a w3))))"

section \<open>Invariant\<close>

text \<open>The hash table of open tables and the heap of shares are inverse to each other, and so are the hash table
  and the heap of long term shares. Every share counts its users and refers to the long term share of its
  name.\<close>

definition tables_ok :: "world \<Rightarrow> bool" where
  "tables_ok w \<longleftrightarrow> (\<forall>n a. open_tables w n = Some a \<longrightarrow> (\<exists>s. shares w a = Some s \<and> share_name s = n))
     \<and> (\<forall>a s. shares w a = Some s \<longrightarrow> open_tables w (share_name s) = Some a \<and> a < next_address w)"

definition lts_ok :: "world \<Rightarrow> bool" where
  "lts_ok w \<longleftrightarrow> (\<forall>n l. long_term_shares w n = Some l \<longrightarrow> (\<exists>ob. lts_heap w l = Some ob \<and> lts_name ob = n))
     \<and> (\<forall>l ob. lts_heap w l = Some ob \<longrightarrow> long_term_shares w (lts_name ob) = Some l \<and> l < next_address w)"

definition links_ok :: "world \<Rightarrow> bool" where
  "links_ok w \<longleftrightarrow> (\<forall>a s. shares w a = Some s \<longrightarrow> (\<exists>l. share_lts s = Some l \<and> long_term_shares w (share_name s) = Some l))"

definition counts_ok :: "(nat \<Rightarrow> nat) \<Rightarrow> world \<Rightarrow> bool" where
  "counts_ok u w \<longleftrightarrow> (\<forall>a s. shares w a = Some s \<longrightarrow> use_count s = u a \<and> u a > 0) \<and> (\<forall>a. shares w a = None \<longrightarrow> u a = 0)"

definition share_inv :: "(nat \<Rightarrow> nat) \<Rightarrow> world \<Rightarrow> bool" where
  "share_inv u w \<longleftrightarrow> tables_ok w \<and> lts_ok w \<and> links_ok w \<and> counts_ok u w"

lemma get_lts_inv:
  assumes inv: "share_inv u w" and get: "mrn_get_long_term_share lack name w = (r, w')"
  shows "share_inv u w' \<and> shares w' = shares w \<and> open_tables w' = open_tables w \<and> handlers w' = handlers w
    \<and> (\<forall>l. r = Inr l \<longrightarrow> long_term_shares w' name = Some l)"
proof (cases "long_term_shares w name")
  case None
  show ?thesis
  proof (cases "lts_shortage lack")
    case True
    then show ?thesis using None get inv by (auto simp: mrn_get_long_term_share_def)
  next
    case False
    have fresh: "lts_heap w (next_address w) = None"
      using inv unfolding share_inv_def lts_ok_def by (metis less_irrefl not_Some_eq)
    have name: "lts_name ob \<noteq> name" if "lts_heap w l = Some ob" for l ob
      using that inv None unfolding share_inv_def lts_ok_def by force
    have w': "w' = w\<lparr>next_address := next_address w + 1,
        lts_heap := (lts_heap w)(next_address w \<mapsto> \<lparr>auto_inc_inited = False, auto_inc_value = 0, lts_name = name\<rparr>),
        long_term_shares := (long_term_shares w)(name \<mapsto> next_address w)\<rparr>" "r = Inr (next_address w)"
      using None False get by (auto simp: mrn_get_long_term_share_def Let_def)
    have "tables_ok w'" using inv unfolding share_inv_def tables_ok_def w' by (auto intro: less_SucI)
    moreover have "lts_ok w'"
      using inv fresh name None unfolding share_inv_def lts_ok_def w'
      by (auto intro: less_SucI) (metis option.distinct(1))+
    moreover have "links_ok w'"
      using inv None unfolding share_inv_def links_ok_def w' by fastforce
    moreover have "counts_ok u w'" using inv unfolding share_inv_def counts_ok_def w' by simp
    ultimately show ?thesis using w' by (simp add: share_inv_def)
  qed
qed (use get inv in \<open>auto simp: mrn_get_long_term_share_def\<close>)

lemma new_share_fields:
  "new_share resolves default_engine name td = Inr s \<Longrightarrow> share_name s = name \<and> use_count s = 0"
  by (auto simp: new_share_def split: sum.splits prod.splits)

text \<open>The state behind a failed or successful \<^verbatim>\<open>mrn_get_share\<close>.\<close>

lemma get_share_open:
  assumes inv: "share_inv u w" and op: "open_tables w name = Some a"
    and get: "mrn_get_share resolves default_engine lack lts_lack name td w = (r, w')"
  shows "r = Inr a \<and> share_inv (u(a := u a + 1)) w' \<and> handlers w' = handlers w \<and> open_tables w' = open_tables w"
proof -
  obtain s where s: "shares w a = Some s" using inv op unfolding share_inv_def tables_ok_def by blast
  have w': "w' = w\<lparr>shares := (shares w)(a \<mapsto> s\<lparr>use_count := use_count s + 1\<rparr>)\<rparr>" "r = Inr a"
    using get op s by (auto simp: mrn_get_share_def)
  have "tables_ok w'"
    using inv s unfolding share_inv_def tables_ok_def w' by (auto, metis option.sel)
  moreover have "lts_ok w'" using inv unfolding share_inv_def lts_ok_def w' by simp
  moreover have "links_ok w'" using inv s unfolding share_inv_def links_ok_def w' by simp
  moreover have "counts_ok (u(a := u a + 1)) w'" using inv s unfolding share_inv_def counts_ok_def w' by simp
  ultimately show ?thesis using w' by (simp add: share_inv_def)
qed

lemma get_share_new:
  assumes inv: "share_inv u w" and op: "open_tables w name = None"
    and get: "mrn_get_share resolves default_engine lack lts_lack name td w = (r, w')"
  shows "handlers w' = handlers w \<and> (case r of
      Inl e \<Rightarrow> share_inv u w' \<and> open_tables w' = open_tables w
    | Inr a \<Rightarrow> u a = 0 \<and> share_inv (u(a := 1)) w' \<and> open_tables w' = (open_tables w)(name \<mapsto> a))"
proof (cases "lack = At_alloc")
  case False
  show ?thesis
  proof (cases "new_share resolves default_engine name td")
    case (Inr s)
    define w1 where "w1 = w\<lparr>plugin_locks := plugin_locks w + (if wrapper_mode s then 1 else 0)\<rparr>"
    have i1: "share_inv u w1" using inv unfolding share_inv_def tables_ok_def lts_ok_def links_ok_def counts_ok_def w1_def by simp
    obtain r2 w2 where g2: "mrn_get_long_term_share lts_lack name w1 = (r2, w2)" by fastforce
    note i2 = get_lts_inv [OF i1 g2]
    show ?thesis
    proof (cases "lack = At_mutex \<or> lack = At_hash \<or> isl r2")
      case True
      then have "(w' = w1 \<or> w' = w2) \<and> isl r"
        using get op Inr g2 False by (auto simp: mrn_get_share_def w1_def [symmetric] Let_def split: sum.splits if_splits)
      then show ?thesis using i1 i2 by (cases r) (auto simp: w1_def)
    next
      case good: False
      then obtain l where l: "r2 = Inr l" by (cases r2) auto
      define a where "a = next_address w2"
      define s' where "s' = s\<lparr>share_lts := Some l, use_count := 1\<rparr>"
      have w': "w' = w2\<lparr>next_address := a + 1, shares := (shares w2)(a \<mapsto> s'), open_tables := (open_tables w2)(name \<mapsto> a)\<rparr>" "r = Inr a"
        using get op Inr g2 good l False by (auto simp: mrn_get_share_def w1_def [symmetric] Let_def a_def s'_def)
      have s': "share_name s' = name" "share_lts s' = Some l" "use_count s' = 1"
        using new_share_fields [OF Inr] by (simp_all add: s'_def)
      have fresh: "shares w2 a = None" using i2 unfolding share_inv_def tables_ok_def a_def by (metis less_irrefl not_Some_eq)
      have op2: "open_tables w2 name = None" using i2 op by (simp add: w1_def)
      have name: "share_name t \<noteq> name" if "shares w2 b = Some t" for b t
        using that i2 op2 unfolding share_inv_def tables_ok_def by force
      have "tables_ok w'"
        using i2 fresh name op2 s' unfolding share_inv_def tables_ok_def w' by (auto simp: a_def intro: less_SucI) (metis option.distinct(1))+
      moreover have "lts_ok w'" using i2 unfolding share_inv_def lts_ok_def w' by (auto simp: a_def intro: less_SucI)
      moreover have "links_ok w'" using i2 l s' unfolding share_inv_def links_ok_def w' by simp
      moreover have "counts_ok (u(a := 1)) w'" using i2 s' fresh unfolding share_inv_def counts_ok_def w' by simp
      moreover have "u a = 0" using i2 fresh unfolding share_inv_def counts_ok_def by simp
      ultimately show ?thesis using w' i2 by (simp add: share_inv_def w1_def)
    qed
  qed (use get op inv False in \<open>auto simp: mrn_get_share_def\<close>)
qed (use get op inv in \<open>auto simp: mrn_get_share_def\<close>)

text \<open>A used share can be given back.\<close>

lemma free_share_shared:
  assumes inv: "share_inv u w" and u: "u a > 1"
  shows "\<exists>w'. mrn_free_share a b w = Some w' \<and> share_inv (u(a := u a - 1)) w' \<and> handlers w' = handlers w \<and> open_tables w' = open_tables w"
proof -
  obtain s where s: "shares w a = Some s" "use_count s = u a"
    using inv u unfolding share_inv_def counts_ok_def by (metis gr_implies_not0 not_Some_eq)
  define w' where "w' = w\<lparr>shares := (shares w)(a \<mapsto> s\<lparr>use_count := use_count s - 1\<rparr>)\<rparr>"
  have "tables_ok w'"
    using inv s unfolding share_inv_def tables_ok_def w'_def by (auto, metis option.sel)
  moreover have "lts_ok w'" using inv unfolding share_inv_def lts_ok_def w'_def by simp
  moreover have "links_ok w'" using inv s unfolding share_inv_def links_ok_def w'_def by simp
  moreover have "counts_ok (u(a := u a - 1)) w'" using inv s u unfolding share_inv_def counts_ok_def w'_def by simp
  moreover have "mrn_free_share a b w = Some w'" using s u by (simp add: mrn_free_share_def w'_def)
  ultimately show ?thesis by (simp add: share_inv_def w'_def)
qed

lemma free_lts_inv:
  assumes inv: "share_inv u w" and s: "shares w a = Some s"
  obtains l w1 where "share_lts s = Some l" "mrn_free_long_term_share (share_lts s) w = Some w1"
    "w1 = w\<lparr>long_term_shares := (long_term_shares w)(share_name s := None), lts_heap := (lts_heap w)(l := None)\<rparr>" "lts_ok w1"
proof -
  obtain l where l: "share_lts s = Some l" "long_term_shares w (share_name s) = Some l"
    using inv s unfolding share_inv_def links_ok_def by blast
  obtain ob where ob: "lts_heap w l = Some ob" "lts_name ob = share_name s"
    using inv l unfolding share_inv_def lts_ok_def by blast
  define w1 where "w1 = w\<lparr>long_term_shares := (long_term_shares w)(share_name s := None), lts_heap := (lts_heap w)(l := None)\<rparr>"
  have "lts_ok w1" using inv l unfolding share_inv_def lts_ok_def w1_def by auto (metis option.sel)+
  moreover have "mrn_free_long_term_share (share_lts s) w = Some w1"
    using l ob by (simp add: mrn_free_long_term_share_def w1_def)
  ultimately show thesis using that l w1_def by blast
qed

text \<open>The last user removes the share, and its long term share when it asks for that.\<close>

lemma free_share_last:
  assumes inv: "share_inv u w" and u: "u a = 1"
  shows "\<exists>w' s. mrn_free_share a b w = Some w' \<and> share_inv (u(a := 0)) w' \<and> handlers w' = handlers w
    \<and> shares w a = Some s \<and> open_tables w' = (open_tables w)(share_name s := None)
    \<and> long_term_shares w' = (if b then (long_term_shares w)(share_name s := None) else long_term_shares w)"
proof -
  obtain s where s: "shares w a = Some s" "use_count s = 1"
    using inv u unfolding share_inv_def counts_ok_def by (metis not_Some_eq zero_neq_one)
  obtain l wl where wl: "share_lts s = Some l" "mrn_free_long_term_share (share_lts s) w = Some wl" "lts_ok wl"
    "wl = w\<lparr>long_term_shares := (long_term_shares w)(share_name s := None), lts_heap := (lts_heap w)(l := None)\<rparr>"
    using free_lts_inv [OF inv s(1)] by metis
  define w1 where "w1 = (if b then wl else w)"
  define w' where "w' = w1\<lparr>open_tables := (open_tables w)(share_name s := None),
      plugin_locks := plugin_locks w1 - (if wrapper_mode s then 1 else 0), shares := (shares w)(a := None)\<rparr>"
  have f: "mrn_free_share a b w = Some w'" using s wl by (simp add: mrn_free_share_def w'_def w1_def)
  have other: "share_name t \<noteq> share_name s" if "shares w c = Some t" "c \<noteq> a" for c t
    using that inv s(1) unfolding share_inv_def tables_ok_def by (metis option.sel)
  have "tables_ok w'"
    using inv s(1) other wl(4) unfolding share_inv_def tables_ok_def w'_def w1_def by auto (metis option.sel)+
  moreover have "lts_ok w'" using inv wl(3) unfolding share_inv_def lts_ok_def w'_def w1_def by simp
  moreover have "links_ok w'" using inv other wl(4) unfolding share_inv_def links_ok_def w'_def w1_def by simp
  moreover have "counts_ok (u(a := 0)) w'" using inv s wl(4) unfolding share_inv_def counts_ok_def w'_def w1_def by simp
  ultimately show ?thesis using f s wl(4) by (auto simp: share_inv_def w'_def w1_def)
qed

text \<open>Freeing the long term share first, as \<^verbatim>\<open>create\<close>, \<^verbatim>\<open>delete_table\<close> and \<^verbatim>\<open>rename_table\<close> do, is the same for a
  share with one user.\<close>

lemma free_lts_first:
  assumes inv: "share_inv u w" and u: "u a = 1"
  shows "Option.bind (mrn_free_long_term_share (lts_of a w) w) (\<lambda>w2. mrn_free_share a False (set_share_lts_null a w2))
    = mrn_free_share a True w"
proof -
  obtain s where s: "shares w a = Some s" "use_count s = 1"
    using inv u unfolding share_inv_def counts_ok_def by (metis not_Some_eq zero_neq_one)
  obtain l wl where wl: "share_lts s = Some l" "mrn_free_long_term_share (share_lts s) w = Some wl"
    "wl = w\<lparr>long_term_shares := (long_term_shares w)(share_name s := None), lts_heap := (lts_heap w)(l := None)\<rparr>"
    using free_lts_inv [OF inv s(1)] by metis
  have sh: "shares wl a = Some s" using s(1) wl(3) by simp
  show ?thesis using s sh wl(2) by (simp add: lts_of_def mrn_free_share_def set_share_lts_null_def)
qed

lemma free_share_inv:
  assumes "share_inv u w" "u a > 0"
  shows "\<exists>w'. mrn_free_share a b w = Some w' \<and> share_inv (u(a := u a - 1)) w' \<and> handlers w' = handlers w"
proof (cases "u a = 1")
  case True
  then show ?thesis using free_share_last [OF assms(1) True, of b] by auto
next
  case False
  then show ?thesis using free_share_shared [OF assms(1), of a b] assms(2) by auto
qed

lemma lts_heap_update_inv:
  assumes "share_inv u w" "lts_heap w l = Some ob" "lts_name ob' = lts_name ob"
  shows "share_inv u (w\<lparr>lts_heap := (lts_heap w)(l \<mapsto> ob')\<rparr>)"
  using assms unfolding share_inv_def tables_ok_def lts_ok_def links_ok_def counts_ok_def
  by (simp, metis option.sel)

section \<open>Runs of handler operations\<close>

text \<open>The operations of all threads in the order in which they hold the mutexes. MySQL's metadata locks keep
  \<^verbatim>\<open>create\<close>, \<^verbatim>\<open>delete_table\<close> and \<^verbatim>\<open>rename_table\<close> away from tables that are open.\<close>

datatype handler_op =
    Open_table nat string table_definition bool shortage shortage
  | Close_table nat bool
  | Create_table string table_definition ulonglong bool shortage shortage
  | Delete_table string table_definition shortage shortage
  | Rename_table string string table_definition bool bool shortage shortage shortage

fun handler_step :: "(string \<Rightarrow> bool) \<Rightarrow> string option \<Rightarrow> handler_op \<Rightarrow> world \<Rightarrow> world option" where
  "handler_step rs de (Open_table h name td failed lack lts_lack) w = handler_open rs de lack lts_lack h name td failed w"
| "handler_step rs de (Close_table h failed) w = handler_close h failed w"
| "handler_step rs de (Create_table name td v failed lack lts_lack) w = handler_create rs de lack lts_lack name td v failed w"
| "handler_step rs de (Delete_table name td lack lts_lack) w = handler_delete_table rs de lack lts_lack name td w"
| "handler_step rs de (Rename_table from to td early failed lack lts_lack to_lack) w =
     handler_rename_table rs de lack lts_lack to_lack from to td early failed w"

fun op_allowed :: "handler_op \<Rightarrow> world \<Rightarrow> bool" where
  "op_allowed (Open_table h _ _ _ _ _) w \<longleftrightarrow> handlers w h = None"
| "op_allowed (Close_table h _) w \<longleftrightarrow> handlers w h \<noteq> None"
| "op_allowed (Create_table name _ _ _ _ _) w \<longleftrightarrow> open_tables w name = None"
| "op_allowed (Delete_table name _ _ _) w \<longleftrightarrow> open_tables w name = None"
| "op_allowed (Rename_table from to _ _ _ _ _ _) w \<longleftrightarrow> open_tables w from = None \<and> open_tables w to = None \<and> from \<noteq> to"

definition users :: "world \<Rightarrow> nat \<Rightarrow> nat" where
  "users w a = card {h. handlers w h = Some a}"

definition world_ok :: "world \<Rightarrow> bool" where
  "world_ok w \<longleftrightarrow> finite (dom (handlers w)) \<and> share_inv (users w) w"

definition empty_world :: world where
  "empty_world = \<lparr>shares = Map.empty, lts_heap = Map.empty, open_tables = Map.empty, long_term_shares = Map.empty,
     next_address = 0, plugin_locks = 0, handlers = Map.empty\<rparr>"

lemma empty_world_ok: "world_ok empty_world"
  by (simp add: world_ok_def empty_world_def share_inv_def tables_ok_def lts_ok_def links_ok_def counts_ok_def users_def)

lemma finite_users: "finite (dom (handlers w)) \<Longrightarrow> finite {h. handlers w h = Some a}"
  by (rule finite_subset [of _ "dom (handlers w)"]) auto

lemma users_handlers: "handlers w' = handlers w \<Longrightarrow> users w' = users w"
  by (auto simp: users_def fun_eq_iff)

lemma users_add:
  assumes "finite (dom (handlers w))" "handlers w h = None" "handlers w' = (handlers w)(h \<mapsto> a)"
  shows "users w' = (users w)(a := users w a + 1)"
proof
  fix b
  have "{k. handlers w' k = Some b} = (if b = a then insert h {k. handlers w k = Some b} else {k. handlers w k = Some b})"
    using assms(2,3) by auto
  then show "users w' b = ((users w)(a := users w a + 1)) b"
    using finite_users [OF assms(1)] assms(2) by (simp add: users_def)
qed

lemma users_remove:
  assumes "finite (dom (handlers w))" "handlers w h = Some a" "handlers w' = (handlers w)(h := None)"
  shows "users w' = (users w)(a := users w a - 1)"
proof
  fix b
  have "{k. handlers w' k = Some b} = (if b = a then {k. handlers w k = Some b} - {h} else {k. handlers w k = Some b})"
    using assms(2,3) by auto
  then show "users w' b = ((users w)(a := users w a - 1)) b"
    using finite_users [OF assms(1)] assms(2) by (simp add: users_def)
qed

lemma users_pos: "finite (dom (handlers w)) \<Longrightarrow> handlers w h = Some a \<Longrightarrow> users w a > 0"
  unfolding users_def using finite_users by (metis (mono_tags, lifting) card_gt_0_iff empty_iff mem_Collect_eq)

lemma share_inv_handlers: "share_inv u (w\<lparr>handlers := hs\<rparr>) \<longleftrightarrow> share_inv u w"
  by (simp add: share_inv_def tables_ok_def lts_ok_def links_ok_def counts_ok_def)

lemma get_share_inv:
  assumes "share_inv u w" "mrn_get_share rs de lack lts_lack name td w = (r, w')"
  shows "handlers w' = handlers w \<and> (case r of Inl e \<Rightarrow> share_inv u w' | Inr a \<Rightarrow> share_inv (u(a := u a + 1)) w')"
proof (cases "open_tables w name")
  case None
  then show ?thesis using get_share_new [OF assms(1) None assms(2)] by (auto split: sum.splits)
next
  case (Some a)
  then show ?thesis using get_share_open [OF assms(1) Some assms(2)] by auto
qed

lemma lts_of_inv:
  assumes "share_inv u w" "u a > 0"
  obtains s l ob where "shares w a = Some s" "lts_of a w = Some l" "lts_heap w l = Some ob" "long_term_shares w (share_name s) = Some l"
proof -
  obtain s where s: "shares w a = Some s" using assms unfolding share_inv_def counts_ok_def by (metis less_irrefl not_Some_eq)
  then obtain l where l: "share_lts s = Some l" "long_term_shares w (share_name s) = Some l"
    using assms unfolding share_inv_def links_ok_def by blast
  then obtain ob where "lts_heap w l = Some ob" using assms unfolding share_inv_def lts_ok_def by blast
  then show thesis using that s l by (simp add: lts_of_def)
qed

text \<open>A long term share without a share can be freed.\<close>

lemma free_lts_unshared:
  assumes inv: "share_inv u w" and t: "long_term_shares w to = Some t" and op: "open_tables w to = None"
  shows "\<exists>w'. mrn_free_long_term_share (Some t) w = Some w' \<and> share_inv u w' \<and> handlers w' = handlers w"
proof -
  obtain ob where ob: "lts_heap w t = Some ob" "lts_name ob = to" using inv t unfolding share_inv_def lts_ok_def by blast
  define w' where "w' = w\<lparr>long_term_shares := (long_term_shares w)(to := None), lts_heap := (lts_heap w)(t := None)\<rparr>"
  have name: "share_name s \<noteq> to" if "shares w a = Some s" for a s
    using that inv op unfolding share_inv_def tables_ok_def by force
  have "tables_ok w'" using inv unfolding share_inv_def tables_ok_def w'_def by simp
  moreover have "lts_ok w'" using inv t ob unfolding share_inv_def lts_ok_def w'_def by auto (metis option.sel)+
  moreover have "links_ok w'" using inv name unfolding share_inv_def links_ok_def w'_def by auto
  moreover have "counts_ok u w'" using inv unfolding share_inv_def counts_ok_def w'_def by simp
  moreover have "mrn_free_long_term_share (Some t) w = Some w'" using ob by (simp add: mrn_free_long_term_share_def w'_def)
  ultimately show ?thesis by (simp add: share_inv_def w'_def)
qed

lemma drop_share_inv:
  assumes "share_inv u w" "u a = 1"
  shows "\<exists>w'. Option.bind (mrn_free_long_term_share (lts_of a w) w) (\<lambda>w2. mrn_free_share a False (set_share_lts_null a w2)) = Some w'
    \<and> share_inv (u(a := 0)) w' \<and> handlers w' = handlers w"
  using free_share_last [OF assms, of True] free_lts_first [OF assms] by metis

lemma storage_rename_inv:
  assumes inv: "share_inv u w" and a: "u a > 0" and to: "open_tables w to = None"
  shows "\<exists>err w'. storage_rename_lts to_lack to (lts_of a w) early failed w = Some (err, w') \<and> share_inv u w' \<and> handlers w' = handlers w"
proof (cases early)
  case False
  obtain r w1 where g: "mrn_get_long_term_share to_lack to w = (r, w1)" by fastforce
  note i1 = get_lts_inv [OF inv g]
  show ?thesis
  proof (cases r)
    case (Inr t)
    have t: "long_term_shares w1 to = Some t" using i1 Inr by simp
    obtain l from_ob where l: "lts_of a w = Some l" "lts_heap w1 l = Some from_ob"
      using lts_of_inv [of u w1 a] i1 a by (metis lts_of_def)
    obtain ob where ob: "lts_heap w1 t = Some ob" using i1 t unfolding share_inv_def lts_ok_def by blast
    define w2 where "w2 = w1\<lparr>lts_heap := (lts_heap w1)(t \<mapsto> rename_auto_increment from_ob ob)\<rparr>"
    have i2: "share_inv u w2"
      unfolding w2_def using i1 ob by (intro lts_heap_update_inv) (auto simp: rename_auto_increment_def)
    have w2: "long_term_shares w2 to = Some t" "open_tables w2 to = None" "handlers w2 = handlers w"
      using t i1 to by (simp_all add: w2_def)
    obtain w3 where w3: "mrn_free_long_term_share (Some t) w2 = Some w3" "share_inv u w3" "handlers w3 = handlers w2"
      using free_lts_unshared [OF i2 w2(1,2)] by auto
    have "storage_rename_lts to_lack to (lts_of a w) early failed w = Some (if failed then (True, w3) else (False, w2))"
      using False g Inr l ob w3(1) by (simp add: storage_rename_lts_def Let_def w2_def [symmetric])
    then show ?thesis using i2 w2(3) w3 by auto
  qed (use False g i1 in \<open>auto simp: storage_rename_lts_def\<close>)
qed (use inv in \<open>auto simp: storage_rename_lts_def\<close>)

text \<open>Every operation keeps the invariant.\<close>

lemma world_ok_kept:
  "world_ok w \<Longrightarrow> share_inv (users w) w' \<Longrightarrow> handlers w' = handlers w \<Longrightarrow> world_ok w'"
  using users_handlers [of w' w] by (simp add: world_ok_def)

lemma handler_open_ok:
  assumes ok: "world_ok w" and h: "handlers w h = None"
  shows "\<exists>w'. handler_open rs de lack lts_lack h name td failed w = Some w' \<and> world_ok w'"
proof -
  obtain r w1 where g: "mrn_get_share rs de lack lts_lack name td w = (r, w1)" by fastforce
  have inv: "share_inv (users w) w" and fin: "finite (dom (handlers w))" using ok by (simp_all add: world_ok_def)
  note i1 = get_share_inv [OF inv g]
  show ?thesis
  proof (cases r)
    case (Inl e)
    then show ?thesis using g i1 world_ok_kept [OF ok] by (simp add: handler_open_def)
  next
    case (Inr a)
    then have i: "share_inv ((users w)(a := users w a + 1)) w1" "handlers w1 = handlers w" using i1 by simp_all
    show ?thesis
    proof (cases failed)
      case True
      then show ?thesis
        using g Inr free_share_inv [OF i(1), of a False] i(2) world_ok_kept [OF ok] by (auto simp: handler_open_def)
    next
      case False
      define w2 where "w2 = w1\<lparr>handlers := (handlers w1)(h \<mapsto> a)\<rparr>"
      have "users w2 = (users w)(a := users w a + 1)" by (rule users_add [OF fin h]) (simp add: w2_def i(2))
      then have "world_ok w2" using i fin by (simp add: world_ok_def w2_def share_inv_handlers)
      then show ?thesis using g Inr False by (simp add: handler_open_def w2_def)
    qed
  qed
qed

lemma handler_close_ok:
  assumes ok: "world_ok w" and h: "handlers w h \<noteq> None"
  shows "\<exists>w'. handler_close h failed w = Some w' \<and> world_ok w'"
proof (cases failed)
  case False
  obtain a where a: "handlers w h = Some a" using h by blast
  have inv: "share_inv (users w) w" and fin: "finite (dom (handlers w))" using ok by (simp_all add: world_ok_def)
  obtain w1 where w1: "mrn_free_share a True w = Some w1" "share_inv ((users w)(a := users w a - 1)) w1" "handlers w1 = handlers w"
    using free_share_inv [OF inv users_pos [OF fin a]] by blast
  define w2 where "w2 = w1\<lparr>handlers := (handlers w1)(h := None)\<rparr>"
  have "users w2 = (users w)(a := users w a - 1)" by (rule users_remove [OF fin a]) (simp add: w2_def w1(3))
  then have "world_ok w2" using w1 fin by (simp add: world_ok_def w2_def share_inv_handlers)
  then show ?thesis using a w1(1) False by (simp add: handler_close_def w2_def)
qed (use ok h in \<open>auto simp: handler_close_def\<close>)

text \<open>The operations that get a share for a moment: what they do with it in between must keep the invariant.\<close>

lemma momentary_share:
  assumes "world_ok w" "open_tables w name = None" "mrn_get_share rs de lack lts_lack name td w = (Inr a, w1)"
  shows "users w a = 0 \<and> share_inv ((users w)(a := 1)) w1 \<and> handlers w1 = handlers w \<and> open_tables w1 = (open_tables w)(name \<mapsto> a)"
  using get_share_new [OF _ assms(2,3), of "users w"] assms(1) by (simp add: world_ok_def)

lemma momentary_share_freed:
  assumes ok: "world_ok w" and u: "users w a = 0" and i: "share_inv ((users w)(a := 1)) w1" "handlers w1 = handlers w"
  shows "\<exists>w'. mrn_free_share a b w1 = Some w' \<and> world_ok w'"
    and "\<exists>w'. Option.bind (mrn_free_long_term_share (lts_of a w1) w1) (\<lambda>w2. mrn_free_share a False (set_share_lts_null a w2)) = Some w'
      \<and> world_ok w'"
proof -
  have upd: "(users w)(a := 0) = users w" using u by auto
  show "\<exists>w'. mrn_free_share a b w1 = Some w' \<and> world_ok w'"
    using free_share_inv [OF i(1), of a b] world_ok_kept [OF ok] i(2) upd by auto
  show "\<exists>w'. Option.bind (mrn_free_long_term_share (lts_of a w1) w1) (\<lambda>w2. mrn_free_share a False (set_share_lts_null a w2)) = Some w'
      \<and> world_ok w'"
    using drop_share_inv [OF i(1), of a] world_ok_kept [OF ok] i(2) upd by auto
qed

lemma get_share_failed:
  "world_ok w \<Longrightarrow> mrn_get_share rs de lack lts_lack name td w = (Inl e, w1) \<Longrightarrow> world_ok w1"
  using get_share_inv [of "users w" w rs de lack lts_lack name td "Inl e" w1] users_handlers [of w1 w]
  by (simp add: world_ok_def)

lemma handler_delete_ok:
  assumes ok: "world_ok w" and op: "open_tables w name = None"
  shows "\<exists>w'. handler_delete_table rs de lack lts_lack name td w = Some w' \<and> world_ok w'"
proof -
  obtain r w1 where g: "mrn_get_share rs de lack lts_lack name td w = (r, w1)" by fastforce
  show ?thesis
  proof (cases r)
    case (Inl e)
    then show ?thesis using g get_share_failed [OF ok] by (auto simp: handler_delete_table_def)
  next
    case (Inr a)
    note m = momentary_share [OF ok op g [unfolded Inr]]
    then show ?thesis using g Inr momentary_share_freed(2) [OF ok, of a w1] by (simp add: handler_delete_table_def)
  qed
qed

lemma handler_create_ok:
  assumes ok: "world_ok w" and op: "open_tables w name = None"
  shows "\<exists>w'. handler_create rs de lack lts_lack name td v failed w = Some w' \<and> world_ok w'"
proof -
  obtain r w1 where g: "mrn_get_share rs de lack lts_lack name td w = (r, w1)" by fastforce
  show ?thesis
  proof (cases r)
    case (Inl e)
    then show ?thesis using g get_share_failed [OF ok] by (auto simp: handler_create_def)
  next
    case (Inr a)
    note m = momentary_share [OF ok op g [unfolded Inr]]
    obtain s l ob where l: "shares w1 a = Some s" "lts_of a w1 = Some l" "lts_heap w1 l = Some ob"
      using lts_of_inv [of "(users w)(a := 1)" w1 a] m by (metis fun_upd_same zero_less_one)
    define w2 where "w2 = (if wrapper_mode s then w1 else w1\<lparr>lts_heap := (lts_heap w1)(l \<mapsto> create_auto_increment v ob)\<rparr>)"
    have w2: "share_inv ((users w)(a := 1)) w2" "handlers w2 = handlers w" "lts_of a w2 = Some l"
      unfolding w2_def using m l by (auto intro!: lts_heap_update_inv simp: create_auto_increment_def lts_of_def)
    have "handler_create rs de lack lts_lack name td v failed w =
        (if failed then Option.bind (mrn_free_long_term_share (lts_of a w2) w2) (\<lambda>w3. mrn_free_share a False (set_share_lts_null a w3))
         else mrn_free_share a False w2)"
      using g Inr l w2(3) by (simp add: handler_create_def Let_def w2_def)
    then show ?thesis using momentary_share_freed [OF ok _ w2(1,2)] m by simp
  qed
qed

lemma handler_rename_ok:
  assumes ok: "world_ok w" and op: "open_tables w from = None" "open_tables w to = None" "from \<noteq> to"
  shows "\<exists>w'. handler_rename_table rs de lack lts_lack to_lack from to td early failed w = Some w' \<and> world_ok w'"
proof -
  obtain r w1 where g: "mrn_get_share rs de lack lts_lack from td w = (r, w1)" by fastforce
  show ?thesis
  proof (cases r)
    case (Inl e)
    then show ?thesis using g get_share_failed [OF ok] by (auto simp: handler_rename_table_def)
  next
    case (Inr a)
    note m = momentary_share [OF ok op(1) g [unfolded Inr]]
    let ?mid = "if map_option wrapper_mode (shares w1 a) = Some True then Some (early \<or> failed, w1)
        else storage_rename_lts to_lack to (lts_of a w1) early failed w1"
    have to: "open_tables w1 to = None" using m op by simp
    have i1: "share_inv ((users w)(a := 1)) w1" "handlers w1 = handlers w" using m by simp_all
    obtain err w2 where w2: "?mid = Some (err, w2)" "share_inv ((users w)(a := 1)) w2" "handlers w2 = handlers w"
    proof (cases "map_option wrapper_mode (shares w1 a) = Some True")
      case True
      show thesis by (rule that [OF _ i1]) (use True in simp)
    next
      case False
      obtain err w2 where s: "storage_rename_lts to_lack to (lts_of a w1) early failed w1 = Some (err, w2)"
        "share_inv ((users w)(a := 1)) w2" "handlers w2 = handlers w1"
        using storage_rename_inv [OF i1(1) _ to, of a to_lack early failed] by auto
      show thesis by (rule that [of err, OF _ s(2)]) (use False s i1(2) in auto)
    qed
    have "handler_rename_table rs de lack lts_lack to_lack from to td early failed w =
        (if err then mrn_free_share a False w2
         else Option.bind (mrn_free_long_term_share (lts_of a w2) w2) (\<lambda>w3. mrn_free_share a False (set_share_lts_null a w3)))"
      unfolding handler_rename_table_def g Inr prod.case sum.case w2(1) by simp
    then show ?thesis using momentary_share_freed [OF ok _ w2(2,3)] m by simp
  qed
qed

inductive reachable_world :: "(string \<Rightarrow> bool) \<Rightarrow> string option \<Rightarrow> world \<Rightarrow> bool" for rs de where
  start: "reachable_world rs de empty_world"
| step: "reachable_world rs de w \<Longrightarrow> op_allowed op w \<Longrightarrow> handler_step rs de op w = Some w' \<Longrightarrow> reachable_world rs de w'"

lemma handler_step_ok:
  assumes "world_ok w" "op_allowed op w"
  shows "\<exists>w'. handler_step rs de op w = Some w' \<and> world_ok w'"
  using assms by (cases op) (simp_all add: handler_open_ok handler_close_ok handler_create_ok handler_delete_ok handler_rename_ok)

interpretation handler_calls: safe_system "handler_step rs de" op_allowed world_ok for rs de
proof unfold_locales
  show "world_ok t" if "world_ok s" "op_allowed c s" "handler_step rs de c s = Some t" for s c t
    using handler_step_ok [OF that(1,2), of rs de] that(3) by simp
  show "handler_step rs de c s \<noteq> None" if "world_ok s" "op_allowed c s" for s c
    using handler_step_ok [OF that, of rs de] by blast
qed

text \<open>Any sequence of calls that the server may make runs to its end, without a fault.\<close>

lemma handler_calls_run:
  "allowed_calls (handler_step rs de) op_allowed ops empty_world
    \<Longrightarrow> \<exists>w. run_calls (handler_step rs de) op_allowed ops empty_world = Some w \<and> world_ok w"
  by (rule handler_calls.run_safe [OF empty_world_ok])

lemma reachable_world_ok: "reachable_world rs de w \<Longrightarrow> world_ok w"
proof (induction rule: reachable_world.induct)
  case start
  show ?case by (rule empty_world_ok)
next
  case (step w op w')
  then show ?case using handler_step_ok [OF step.IH step.hyps(2)] by (metis option.sel)
qed

text \<open>C34: in every state that opens, closes, creations, deletions and renames of tables can reach, with any
  failures in between, no operation follows a null pointer or a freed share or frees one twice; every name has
  at most one share and one long term share; the use count of a share is the number of handlers that hold it
  and nobody holds a freed share.\<close>

theorem shares_memory_safe:
  assumes "reachable_world rs de w"
  shows "(\<forall>op. op_allowed op w \<longrightarrow> (\<exists>w'. handler_step rs de op w = Some w'))
    \<and> (\<forall>a s. shares w a = Some s \<longrightarrow> open_tables w (share_name s) = Some a \<and> use_count s = users w a \<and> users w a > 0
         \<and> share_lts s = long_term_shares w (share_name s))
    \<and> (\<forall>h a. handlers w h = Some a \<longrightarrow> shares w a \<noteq> None)
    \<and> (\<forall>l ob. lts_heap w l = Some ob \<longrightarrow> long_term_shares w (lts_name ob) = Some l)"
proof -
  have ok: "world_ok w" by (rule reachable_world_ok [OF assms])
  then have inv: "share_inv (users w) w" and fin: "finite (dom (handlers w))" by (simp_all add: world_ok_def)
  have sh: "open_tables w (share_name s) = Some a \<and> use_count s = users w a \<and> users w a > 0 \<and> share_lts s = long_term_shares w (share_name s)"
    if "shares w a = Some s" for a s
    using inv that unfolding share_inv_def tables_ok_def links_ok_def counts_ok_def by fastforce
  have live: "shares w a \<noteq> None" if "handlers w h = Some a" for h a
    using inv users_pos [OF fin that] unfolding share_inv_def counts_ok_def by (metis less_irrefl)
  have lts: "long_term_shares w (lts_name ob) = Some l" if "lts_heap w l = Some ob" for l ob
    using inv that unfolding share_inv_def lts_ok_def by blast
  show ?thesis using handler_step_ok [OF ok] sh live lts by blast
qed

definition example_table :: table_definition where
  "example_table = \<lparr>td_comments = [], td_fields = [], td_keys = [], td_primary_key = MAX_KEY\<rparr>"

theorem shares_memory_safe_witness:
  "\<exists>w a s. reachable_world (\<lambda>_. False) None w \<and> handlers w 1 = Some a \<and> handlers w 2 = Some a \<and> shares w a = Some s \<and> use_count s = users w a"
proof -
  let ?op = "\<lambda>h. Open_table h ''t'' example_table False No_shortage No_shortage"
  obtain w1 where w1: "handler_step (\<lambda>_. False) None (?op 1) empty_world = Some w1" "open_tables w1 ''t'' = Some 1"
    "handlers w1 = [1 \<mapsto> 1]"
    by (simp add: handler_open_def mrn_get_share_def mrn_get_long_term_share_def new_share_def example_table_def
        mrn_parse_table_param_def resolve_engine_def no_params_def empty_world_def Let_def)
  have r1: "reachable_world (\<lambda>_. False) None w1"
    by (rule reachable_world.step [OF reachable_world.start _ w1(1)]) (simp add: empty_world_def)
  obtain w2 where w2: "handler_step (\<lambda>_. False) None (?op 2) w1 = Some w2" "handlers w2 = [1 \<mapsto> 1, 2 \<mapsto> 1]"
    using w1 by (simp add: handler_open_def mrn_get_share_def)
  have r2: "reachable_world (\<lambda>_. False) None w2"
    by (rule reachable_world.step [OF r1 _ w2(1)]) (simp add: w1)
  note safe = shares_memory_safe [OF r2]
  have "shares w2 1 \<noteq> None" using safe w2(2) by (metis fun_upd_same)
  then obtain s where s: "shares w2 1 = Some s" by blast
  then have "use_count s = users w2 1" using safe by blast
  moreover have "handlers w2 1 = Some 1" "handlers w2 2 = Some 1" using w2(2) by simp_all
  ultimately show ?thesis using r2 s by blast
qed

section \<open>The keys handed to the wrapped engine\<close>

lemma wrap_key_loop_infos: "snd (wrap_key_loop j ks) = filter is_wrapped_key ks"
  by (induction ks arbitrary: j) (auto simp: case_prod_unfold)

lemma wrap_key_loop_nrs:
  "fst (wrap_key_loop j ks) = map (\<lambda>i. if is_wrapped_key (ks ! i) then j + length (filter is_wrapped_key (take i ks)) else MAX_KEY) [0..<length ks]"
proof (induction ks arbitrary: j)
  case (Cons k ks)
  have shift: "map f [0..<length (k # ks)] = f 0 # map (\<lambda>i. f (Suc i)) [0..<length ks]" for f :: "nat \<Rightarrow> nat"
    by (simp add: map_upt_Suc del: upt_Suc)
  show ?case unfolding shift by (simp add: case_prod_unfold Cons.IH)
qed simp

lemma copy_keys_from:
  assumes "map is_wrapped_key ks' = map is_wrapped_key ks" "length ds + length ks \<le> MAX_KEY"
  shows "copy_keys (fst (wrap_key_loop (length ds) ks)) ks' (map Some ds @ replicate (length (filter is_wrapped_key ks)) None)
    = map Some (ds @ filter is_wrapped_key ks')"
  using assms
proof (induction ks arbitrary: ds ks')
  case (Cons k ks)
  obtain k' kt where k': "ks' = k' # kt" using Cons.prems(1) by auto
  show ?case
  proof (cases "is_wrapped_key k")
    case True
    then have "is_wrapped_key k'" "length ds < MAX_KEY" using Cons.prems k' by auto
    then show ?thesis using Cons.IH [of kt "ds @ [k']"] Cons.prems True k'
      by (simp add: case_prod_unfold list_update_append)
  next
    case False
    then show ?thesis using Cons.IH [of kt ds] Cons.prems k' by (auto simp: case_prod_unfold)
  qed
qed simp

text \<open>C35: the numbers that \<^verbatim>\<open>mrn_get_share\<close> gives to the keys of a wrapped table are consistent: with at most 64
  keys, \<^verbatim>\<open>mrn_create_key_info_for_table\<close> fills its array completely with exactly the keys that are neither full
  text nor geometry keys, in their order, and the number of such a key is its place in the array.\<close>

theorem wrapped_keys_exact:
  assumes "wrap_key_loop 0 ks = (nrs, infos)" "map is_wrapped_key ks' = map is_wrapped_key ks" "length ks \<le> MAX_KEY"
  shows "mrn_create_key_info_for_table nrs (length infos) ks' = map Some (filter is_wrapped_key ks')
    \<and> infos = filter is_wrapped_key ks \<and> length nrs = length ks
    \<and> (\<forall>i < length ks. if is_wrapped_key (ks ! i) then nrs ! i < length infos \<and> infos ! (nrs ! i) = ks ! i else nrs ! i = MAX_KEY)"
proof -
  have infos: "infos = filter is_wrapped_key ks" using assms(1) wrap_key_loop_infos [of 0 ks] by simp
  have nrs: "nrs = fst (wrap_key_loop 0 ks)" using assms(1) by simp
  have len: "length (filter is_wrapped_key ks') = length infos"
    using arg_cong [OF assms(2), of "\<lambda>bs. length (filter id bs)"] infos by (simp add: filter_map comp_def)
  have copy: "mrn_create_key_info_for_table nrs (length infos) ks' = map Some (filter is_wrapped_key ks')"
  proof (cases "infos = []")
    case True
    then show ?thesis using len by (simp add: mrn_create_key_info_for_table_def)
  next
    case False
    then show ?thesis
      using copy_keys_from [OF assms(2), of "[]"] assms(3) by (simp add: mrn_create_key_info_for_table_def nrs infos)
  qed
  have at: "if is_wrapped_key (ks ! i) then nrs ! i < length infos \<and> infos ! (nrs ! i) = ks ! i else nrs ! i = MAX_KEY"
    if i: "i < length ks" for i
  proof (cases "is_wrapped_key (ks ! i)")
    case True
    have "filter is_wrapped_key ks = filter is_wrapped_key (take i ks) @ ks ! i # filter is_wrapped_key (drop (Suc i) ks)"
      using True id_take_nth_drop [OF i] by (metis filter.simps(2) filter_append)
    then show ?thesis using True i by (simp add: nrs wrap_key_loop_nrs infos)
  qed (simp add: nrs wrap_key_loop_nrs i)
  moreover have "length nrs = length ks" by (simp add: nrs wrap_key_loop_nrs)
  ultimately show ?thesis using copy infos by blast
qed

definition example_keys :: "key list" where
  "example_keys = [\<lparr>key_id = 0, algorithm = HA_KEY_ALG_BTREE, key_parts = [Some False]\<rparr>,
     \<lparr>key_id = 1, algorithm = HA_KEY_ALG_FULLTEXT, key_parts = [Some False]\<rparr>,
     \<lparr>key_id = 2, algorithm = HA_KEY_ALG_RTREE, key_parts = [Some True]\<rparr>,
     \<lparr>key_id = 3, algorithm = HA_KEY_ALG_HASH, key_parts = [Some True]\<rparr>]"

theorem wrapped_keys_exact_witness:
  "mrn_create_key_info_for_table [0, 64, 64, 1] 2 example_keys = [Some (example_keys ! 0), Some (example_keys ! 3)]"
proof -
  have loop: "wrap_key_loop 0 example_keys = ([0, 64, 64, 1], [example_keys ! 0, example_keys ! 3])"
    by (simp add: example_keys_def is_wrapped_key_def mrn_is_geo_key_def MAX_KEY_def)
  have "length example_keys \<le> MAX_KEY" by (simp add: example_keys_def MAX_KEY_def)
  note wk = conjunct1 [OF wrapped_keys_exact [OF loop refl this]]
  show ?thesis
    using wk by (simp add: numeral_2_eq_2) (simp add: example_keys_def is_wrapped_key_def mrn_is_geo_key_def)
qed

section \<open>Renames and plugins\<close>

text \<open>A rename carries the auto increment value over to the new name and forgets the old one.\<close>

lemma storage_rename_value:
  assumes inv: "share_inv u w" and l: "long_term_shares w from = Some l" and ft: "from \<noteq> to" and nt: "long_term_shares w to = None"
  shows "\<exists>w' t ob from_ob. storage_rename_lts No_shortage to (Some l) False False w = Some (False, w')
    \<and> long_term_shares w' to = Some t \<and> lts_heap w' t = Some ob \<and> lts_heap w l = Some from_ob
    \<and> auto_inc_value ob = auto_inc_value from_ob \<and> auto_inc_inited ob = auto_inc_inited from_ob"
proof -
  obtain from_ob where ob: "lts_heap w l = Some from_ob" using inv l unfolding share_inv_def lts_ok_def by blast
  then have "l \<noteq> next_address w" using inv unfolding share_inv_def lts_ok_def by (metis less_irrefl)
  then show ?thesis
    using nt ob by (simp add: storage_rename_lts_def mrn_get_long_term_share_def Let_def rename_auto_increment_def)
qed

text \<open>When a mutex cannot be created behind a resolved engine, the lock of the plugin is never released.\<close>

lemma plugin_lock_leaked:
  assumes "open_tables w name = None" "new_share rs de name td = Inr s" "wrapper_mode s"
    and "mrn_get_share rs de At_mutex lts_lack name td w = (r, w')"
  shows "r = Inl HA_ERR_OUT_OF_MEM \<and> open_tables w' = open_tables w \<and> plugin_locks w' = plugin_locks w + 1"
  using assms by (auto simp: mrn_get_share_def Let_def)

end
