(* ===== verification/Database_Manager.thy ===== *)
theory Database_Manager
  imports Path_Mapper Operations
begin

text \<open>
  The databases of the storage mode (\<^verbatim>\<open>lib/mrn_database_manager.cpp\<close>, \<^verbatim>\<open>lib/mrn_database.cpp\<close>,
  \<^verbatim>\<open>lib/mrn_database_repairer.cpp\<close>): one Groonga database per MySQL database, opened on demand and kept in a
  cache under its name. The disk maps the path of a database to its journal of operations; whether Groonga
  can create, open or remove a database and whether a directory can be created are parameters. The handles of
  databases that Groonga has open are counted for every path.
\<close>

section \<open>Database\<close>

definition ER_CANT_CREATE_TABLE :: int where "ER_CANT_CREATE_TABLE = 1005"
definition ER_CANT_OPEN_FILE :: int where "ER_CANT_OPEN_FILE = 1016"
definition ER_ERROR_ON_READ :: int where "ER_ERROR_ON_READ = 1024"

text \<open>\<^const>\<open>None\<close> is a null pointer.\<close>

record database =
  db_handle :: "string option"
  broken_table_names :: "string list option"
  is_broken :: bool

definition Database :: "bool \<Rightarrow> operations \<Rightarrow> string option \<Rightarrow> database" where
  "Database cursor ops db =
     \<lparr>db_handle = db, broken_table_names = Some (collect_processing_table_names cursor ops), is_broken = is_locked ops\<rparr>"

definition is_broken_table :: "string \<Rightarrow> database \<Rightarrow> bool" where
  "is_broken_table name db \<longleftrightarrow> (case broken_table_names db of None \<Rightarrow> False | Some names \<Rightarrow> name \<in> set names)"

definition mark_table_repaired :: "string \<Rightarrow> database \<Rightarrow> database" where
  "mark_table_repaired name db = db\<lparr>broken_table_names := map_option (filter (\<lambda>n. n \<noteq> name)) (broken_table_names db)\<rparr>"

section \<open>Directories\<close>

text \<open>The loop of \<^verbatim>\<open>mkdir_p\<close>: the directories that exist and the ones it has created, the last one first.
  \<open>mkdir_fails\<close> says that a directory can neither be created nor was created meanwhile.\<close>

fun mkdir_p_loop :: "(string \<Rightarrow> bool) \<Rightarrow> string \<Rightarrow> string \<Rightarrow> string set \<Rightarrow> string list \<Rightarrow> string set \<times> string list" where
  "mkdir_p_loop mkdir_fails sub [] dirs created =
     (if sub \<noteq> [] \<and> sub \<notin> dirs \<and> \<not> mkdir_fails sub then (insert sub dirs, sub # created) else (dirs, created))"
| "mkdir_p_loop mkdir_fails sub (c # rest) dirs created =
     (if sub \<noteq> [] \<and> c = FN_LIBCHAR \<and> sub \<notin> dirs
      then if mkdir_fails sub then (dirs, created)
           else mkdir_p_loop mkdir_fails (sub @ [c]) rest (insert sub dirs) (sub # created)
      else mkdir_p_loop mkdir_fails (sub @ [c]) rest dirs created)"

definition mkdir_p :: "(string \<Rightarrow> bool) \<Rightarrow> string \<Rightarrow> string set \<Rightarrow> string set" where
  "mkdir_p mkdir_fails directory dirs = fst (mkdir_p_loop mkdir_fails [] directory dirs [])"

definition ensure_database_directory :: "(string \<Rightarrow> bool) \<Rightarrow> string option \<Rightarrow> string set \<Rightarrow> string set" where
  "ensure_database_directory mkdir_fails pre_opt dirs = (case pre_opt of
      None \<Rightarrow> dirs
    | Some pre \<Rightarrow> (case strrchr pre FN_LIBCHAR of
        None \<Rightarrow> dirs
      | Some i \<Rightarrow> if i = 0 then dirs else mkdir_p mkdir_fails (take i pre) dirs))"

section \<open>Manager\<close>

record manager =
  disk :: "string \<rightharpoonup> operations"
  directories :: "string set"
  cache :: "(string \<times> database) list"
  handles :: "string \<Rightarrow> nat"

text \<open>What Groonga and the operating system do in one call.\<close>

record grn_env =
  create_fails :: bool
  open_fails :: bool
  remove_fails :: bool
  mkdir_failing :: "string \<Rightarrow> bool"
  names_cursor :: bool
  encoding_error :: int

definition no_operations :: operations where
  "no_operations = \<lparr>op_rows = [], table_locked = False, type_locked = False, table_column_locked = False,
     record_locked = False, is_enabled_recording = True\<rparr>"

definition open_handle :: "string \<Rightarrow> manager \<Rightarrow> manager" where
  "open_handle p m = m\<lparr>handles := (handles m)(p := handles m p + 1)\<rparr>"

definition close_handle :: "string \<Rightarrow> manager \<Rightarrow> manager" where
  "close_handle p m = m\<lparr>handles := (handles m)(p := handles m p - 1)\<rparr>"

text \<open>Deleting a database object closes its handle.\<close>

definition delete_database :: "database \<Rightarrow> manager \<Rightarrow> manager" where
  "delete_database db m = (case db_handle db of None \<Rightarrow> m | Some p \<Rightarrow> close_handle p m)"

text \<open>The result and the object: removing gives its handle back.\<close>

definition database_remove :: "grn_env \<Rightarrow> database \<Rightarrow> manager \<Rightarrow> bool \<times> database \<times> manager" where
  "database_remove env db m = (case db_handle db of
      None \<Rightarrow> (True, db, m)
    | Some p \<Rightarrow>
        let db' = db\<lparr>broken_table_names := None\<rparr> in
        if remove_fails env then (False, db', m)
        else (True, db'\<lparr>db_handle := None\<rparr>, (close_handle p m)\<lparr>disk := (disk m)(p := None)\<rparr>))"

definition add_database :: "grn_env \<Rightarrow> string \<Rightarrow> string \<Rightarrow> operations \<Rightarrow> manager \<Rightarrow> int \<times> database option \<times> manager" where
  "add_database env name p ops m =
     (let db = Database (names_cursor env) ops (Some p);
          m' = open_handle p m
      in (if is_broken db then ER_CANT_OPEN_FILE else 0, Some db, m'\<lparr>cache := cache m' @ [(name, db)]\<rparr>))"

definition manager_open :: "grn_env \<Rightarrow> string option \<Rightarrow> string option \<Rightarrow> string \<Rightarrow> manager \<Rightarrow> int \<times> database option \<times> manager" where
  "manager_open env pre home path m =
     (let mapper = PathMapper path pre home;
          name = fst (db_name mapper);
          p = fst (db_path mapper)
      in if encoding_error env \<noteq> 0 then (encoding_error env, None, m)
         else case map_of (cache m) name of
           Some db \<Rightarrow> (0, Some db, m)
         | None \<Rightarrow>
             (case disk m p of
                None \<Rightarrow>
                  let m1 = (if is_relative_path path then m\<lparr>directories := ensure_database_directory (mkdir_failing env) pre (directories m)\<rparr> else m)
                  in if create_fails env then (ER_CANT_CREATE_TABLE, None, m1)
                     else add_database env name p no_operations (m1\<lparr>disk := (disk m1)(p \<mapsto> no_operations)\<rparr>)
              | Some ops \<Rightarrow>
                  if open_fails env then (ER_CANT_OPEN_FILE, None, m)
                  else add_database env name p ops m))"

definition manager_exist :: "string option \<Rightarrow> string option \<Rightarrow> string \<Rightarrow> manager \<Rightarrow> bool" where
  "manager_exist pre home path m \<longleftrightarrow> disk m (fst (db_path (PathMapper path pre home))) \<noteq> None"

definition manager_close :: "string option \<Rightarrow> string option \<Rightarrow> string \<Rightarrow> manager \<Rightarrow> manager" where
  "manager_close pre home path m =
     (let name = fst (db_name (PathMapper path pre home)) in
      case map_of (cache m) name of
        None \<Rightarrow> m
      | Some db \<Rightarrow>
          let m' = delete_database db m in m'\<lparr>cache := filter (\<lambda>(n, _). n \<noteq> name) (cache m')\<rparr>)"

text \<open>A database that is not in the cache is opened for its removal. When it cannot be opened, the object has
  a null pointer as its handle, and its journal is that of whatever database the context uses.\<close>

definition manager_drop :: "grn_env \<Rightarrow> operations \<Rightarrow> string option \<Rightarrow> string option \<Rightarrow> string \<Rightarrow> manager \<Rightarrow> bool \<times> manager" where
  "manager_drop env other_ops pre home path m =
     (let mapper = PathMapper path pre home;
          name = fst (db_name mapper);
          p = fst (db_path mapper)
      in case map_of (cache m) name of
           Some db \<Rightarrow>
             (case database_remove env db m of
                (True, db', m') \<Rightarrow>
                  (True, delete_database db' (m'\<lparr>cache := filter (\<lambda>(n, _). n \<noteq> name) (cache m')\<rparr>))
              | (False, db', m') \<Rightarrow>
                  (False, m'\<lparr>cache := map (\<lambda>(n, d). (n, if n = name then db' else d)) (cache m')\<rparr>))
         | None \<Rightarrow>
             (case disk m p of
                None \<Rightarrow> (False, m)
              | Some ops \<Rightarrow>
                  let (db, m1) = (if open_fails env then (Database (names_cursor env) other_ops None, m)
                                  else (Database (names_cursor env) ops (Some p), open_handle p m))
                  in case database_remove env db m1 of (ok, db', m2) \<Rightarrow> (ok, delete_database db' m2)))"

text \<open>The loop of \<^verbatim>\<open>clear\<close>: the cursor fails before an entry (\<^const>\<open>Some\<close> the number of entries before) or not.\<close>

fun clear_cache_loop :: "nat option \<Rightarrow> (string \<times> database) list \<Rightarrow> manager \<Rightarrow> int \<times> (string \<times> database) list \<times> manager" where
  "clear_cache_loop stop [] m = (0, [], m)"
| "clear_cache_loop stop ((n, db) # rest) m =
     (if stop = Some 0 then (ER_ERROR_ON_READ, (n, db) # rest, m)
      else clear_cache_loop (map_option (\<lambda>k. k - 1) stop) rest (delete_database db m))"

definition manager_clear :: "bool \<Rightarrow> nat option \<Rightarrow> manager \<Rightarrow> int \<times> manager" where
  "manager_clear cursor_ok stop m =
     (if \<not> cursor_ok then (ER_ERROR_ON_READ, m)
      else case clear_cache_loop stop (cache m) m of (err, rest, m') \<Rightarrow> (err, m'\<lparr>cache := rest\<rparr>))"

section \<open>Repairer\<close>

text \<open>The objects of a database for the check: whether the object can be opened, with the state of the context
  when not, and whether it is a table or column that is locked.\<close>

datatype db_object = Builtin | Missing | Unreadable | Readable bool

record check_result =
  is_crashed :: bool
  is_corrupt :: bool

fun check_loop :: "db_object list \<Rightarrow> check_result \<Rightarrow> check_result" where
  "check_loop [] r = r"
| "check_loop (Builtin # obs) r = check_loop obs r"
| "check_loop (Missing # obs) r = check_loop obs r"
| "check_loop (Unreadable # obs) r = r\<lparr>is_corrupt := True\<rparr>"
| "check_loop (Readable locked # obs) r =
     (let r' = (if locked then r\<lparr>is_crashed := True, is_corrupt := True\<rparr> else r)
      in if is_crashed r' \<or> is_corrupt r' then r' else check_loop obs r')"

text \<open>A database as Groonga opens it: its lock, the objects under a cursor, and whether it can be recovered.\<close>

record opened_db =
  od_locked :: bool
  od_cursor :: "db_object list option"
  od_recovers :: bool

definition check_body :: "opened_db \<Rightarrow> check_result \<Rightarrow> check_result" where
  "check_body db r =
     (if od_locked db then r\<lparr>is_crashed := True, is_corrupt := True\<rparr>
      else case od_cursor db of
        None \<Rightarrow> r\<lparr>is_crashed := True, is_corrupt := True\<rparr>
      | Some obs \<Rightarrow> check_loop obs r)"

definition repair_body :: "opened_db \<Rightarrow> bool \<Rightarrow> bool" where
  "repair_body db succeeded = (if \<not> od_recovers db then False else succeeded)"

definition each_database_body :: "(string \<Rightarrow> opened_db option) \<Rightarrow> string \<Rightarrow> (opened_db \<Rightarrow> 'a \<Rightarrow> 'a) \<Rightarrow> 'a \<Rightarrow> 'a" where
  "each_database_body grn_db_open dbp each_body user_data =
     (if length dbp \<le> length MRN_DB_FILE_SUFFIX then user_data
      else if drop (length dbp - length MRN_DB_FILE_SUFFIX) dbp \<noteq> MRN_DB_FILE_SUFFIX then user_data
      else case grn_db_open dbp of None \<Rightarrow> user_data | Some db \<Rightarrow> each_body db user_data)"

definition repairer_check :: "bool \<Rightarrow> (string \<Rightarrow> opened_db option) \<Rightarrow> string \<Rightarrow> check_result" where
  "repairer_check ctx_ok grn_db_open dbp =
     (let r = \<lparr>is_crashed = False, is_corrupt = False\<rparr>
      in if ctx_ok then each_database_body grn_db_open dbp check_body r else r)"

definition repairer_is_crashed :: "bool \<Rightarrow> (string \<Rightarrow> opened_db option) \<Rightarrow> string \<Rightarrow> bool" where
  "repairer_is_crashed ctx_ok grn_db_open dbp = is_crashed (repairer_check ctx_ok grn_db_open dbp)"

definition repairer_is_corrupt :: "bool \<Rightarrow> (string \<Rightarrow> opened_db option) \<Rightarrow> string \<Rightarrow> bool" where
  "repairer_is_corrupt ctx_ok grn_db_open dbp = is_corrupt (repairer_check ctx_ok grn_db_open dbp)"

definition repairer_repair :: "bool \<Rightarrow> (string \<Rightarrow> opened_db option) \<Rightarrow> string \<Rightarrow> bool" where
  "repairer_repair ctx_ok grn_db_open dbp =
     (if ctx_ok then each_database_body grn_db_open dbp repair_body True else True)"

definition HA_ADMIN_OK :: int where "HA_ADMIN_OK = 0"
definition HA_ADMIN_CORRUPT :: int where "HA_ADMIN_CORRUPT = -3"

definition storage_is_crashed :: "bool \<Rightarrow> (string \<Rightarrow> opened_db option) \<Rightarrow> path_mapper \<Rightarrow> bool" where
  "storage_is_crashed ctx_ok grn_db_open mapper = repairer_is_crashed ctx_ok grn_db_open (fst (db_path mapper))"

definition storage_check :: "bool \<Rightarrow> (string \<Rightarrow> opened_db option) \<Rightarrow> path_mapper \<Rightarrow> int" where
  "storage_check ctx_ok grn_db_open mapper =
     (if repairer_is_corrupt ctx_ok grn_db_open (fst (db_path mapper)) then HA_ADMIN_CORRUPT else HA_ADMIN_OK)"

definition storage_check_and_repair :: "bool \<Rightarrow> (string \<Rightarrow> opened_db option) \<Rightarrow> path_mapper \<Rightarrow> bool" where
  "storage_check_and_repair ctx_ok grn_db_open mapper = (\<not> repairer_repair ctx_ok grn_db_open (fst (db_path mapper)))"

section \<open>Handles\<close>

definition cached_handles :: "string \<Rightarrow> (string \<times> database) list \<Rightarrow> nat" where
  "cached_handles p c = length (filter (\<lambda>(n, db). db_handle db = Some p) c)"

definition manager_ok :: "manager \<Rightarrow> bool" where
  "manager_ok m \<longleftrightarrow> distinct (map fst (cache m)) \<and> (\<forall>(n, db) \<in> set (cache m). db_handle db \<noteq> None)
     \<and> (\<forall>p. handles m p = cached_handles p (cache m))"

lemma cached_handles_simps [simp]:
  "cached_handles p [] = 0"
  "cached_handles p ((n, db) # c) = cached_handles p c + (if db_handle db = Some p then 1 else 0)"
  "cached_handles p (c @ c') = cached_handles p c + cached_handles p c'"
  by (simp_all add: cached_handles_def)

lemma filter_absent: "name \<notin> fst ` set c \<Longrightarrow> filter (\<lambda>(n, _). n \<noteq> name) c = c"
  by (induction c) auto

lemma cached_handles_filter:
  assumes "distinct (map fst c)" "map_of c name = Some db"
  shows "cached_handles p (filter (\<lambda>(n, _). n \<noteq> name) c) = cached_handles p c - (if db_handle db = Some p then 1 else 0)"
  using assms
proof (induction c)
  case (Cons x c)
  obtain n d where x: "x = (n, d)" by (cases x)
  show ?case
  proof (cases "n = name")
    case True
    then show ?thesis using Cons.prems x filter_absent [of name c] by simp
  next
    case False
    then have m: "map_of c name = Some db" using Cons.prems x by simp
    then have "db_handle db = Some p \<longrightarrow> cached_handles p c > 0"
      using map_of_SomeD [OF m] by (auto simp: cached_handles_def filter_empty_conv)
    then show ?thesis using False Cons x m by auto
  qed
qed simp

lemma cached_handles_rename:
  assumes "distinct (map fst c)" "map_of c name = Some db" "db_handle db' = db_handle db"
  shows "cached_handles p (map (\<lambda>(n, d). (n, if n = name then db' else d)) c) = cached_handles p c"
  using assms
proof (induction c)
  case (Cons x c)
  obtain n d where x: "x = (n, d)" by (cases x)
  have absent: "map (\<lambda>(n, d). (n, if n = name then db' else d)) c = c" if "name \<notin> fst ` set c"
    using that by (induction c) auto
  show ?case using Cons x absent by (cases "n = name") auto
qed simp

lemma add_database_ok:
  assumes "manager_ok m" "map_of (cache m) name = None"
  shows "manager_ok (snd (snd (add_database env name p ops m)))"
  using assms by (auto simp: manager_ok_def add_database_def Let_def open_handle_def Database_def map_of_eq_None_iff)

lemma manager_open_ok:
  assumes "manager_ok m"
  shows "manager_ok (snd (snd (manager_open env pre home path m)))"
proof -
  have same: "manager_ok m'" if "cache m' = cache m" "handles m' = handles m" for m'
    using assms that by (simp add: manager_ok_def)
  show ?thesis
    using assms by (auto simp: manager_open_def Let_def same add_database_ok split: option.splits)
qed

lemma manager_close_ok:
  assumes "manager_ok m"
  shows "manager_ok (manager_close pre home path m)"
proof (cases "map_of (cache m) (fst (db_name (PathMapper path pre home)))")
  case None
  then show ?thesis using assms by (simp add: manager_close_def)
next
  case (Some db)
  then obtain p where "db_handle db = Some p" using assms map_of_SomeD by (fastforce simp: manager_ok_def)
  then show ?thesis using assms Some cached_handles_filter [OF _ Some]
    by (auto simp: manager_close_def manager_ok_def Let_def delete_database_def close_handle_def distinct_map_filter)
qed

lemma manager_drop_ok:
  assumes "manager_ok m"
  shows "manager_ok (snd (manager_drop env other_ops pre home path m))"
proof (cases "map_of (cache m) (fst (db_name (PathMapper path pre home)))")
  case None
  then show ?thesis using assms
    by (auto simp: manager_drop_def manager_ok_def Let_def database_remove_def delete_database_def close_handle_def
        open_handle_def Database_def split: option.splits)
next
  case (Some db)
  let ?name = "fst (db_name (PathMapper path pre home))"
  obtain p where p: "db_handle db = Some p" using assms Some map_of_SomeD by (fastforce simp: manager_ok_def)
  show ?thesis
  proof (cases "remove_fails env")
    case True
    let ?c = "map (\<lambda>(n, d). (n, if n = ?name then db\<lparr>broken_table_names := None\<rparr> else d)) (cache m)"
    have "map fst ?c = map fst (cache m)" by (auto simp: case_prod_unfold)
    moreover have "\<forall>(n, d) \<in> set ?c. db_handle d \<noteq> None" using assms p by (auto simp: manager_ok_def)
    moreover have "cached_handles q ?c = cached_handles q (cache m)" for q
      using assms by (intro cached_handles_rename [OF _ Some]) (auto simp: manager_ok_def)
    moreover have "snd (manager_drop env other_ops pre home path m) = m\<lparr>cache := ?c\<rparr>"
      using Some p True by (simp add: manager_drop_def Let_def database_remove_def)
    ultimately show ?thesis using assms by (simp add: manager_ok_def del: map_map)
  next
    case False
    then show ?thesis using assms Some p cached_handles_filter [OF _ Some]
      by (auto simp: manager_drop_def manager_ok_def Let_def database_remove_def delete_database_def close_handle_def distinct_map_filter)
  qed
qed

lemma clear_cache_loop_handles:
  assumes "clear_cache_loop stop c m = (err, rest, m')" "\<forall>p. handles m p = cached_handles p (c0 @ c)"
    and "\<forall>(n, db) \<in> set c. db_handle db \<noteq> None"
  shows "(\<forall>p. handles m' p = cached_handles p (c0 @ rest)) \<and> suffix rest c \<and> (err = 0 \<longrightarrow> rest = []) \<and> (stop = None \<longrightarrow> err = 0)"
  using assms
proof (induction stop c m rule: clear_cache_loop.induct)
  case (2 stop n db c m)
  show ?case
  proof (cases "stop = Some 0")
    case True
    then show ?thesis using 2(2-4) by (auto simp: ER_ERROR_ON_READ_def)
  next
    case False
    obtain p where p: "db_handle db = Some p" using 2(4) by auto
    have h: "\<forall>q. handles (delete_database db m) q = cached_handles q (c0 @ c)"
      using 2(3) p by (simp add: delete_database_def close_handle_def)
    have "(\<forall>p. handles m' p = cached_handles p (c0 @ rest)) \<and> suffix rest c \<and> (err = 0 \<longrightarrow> rest = [])
        \<and> (map_option (\<lambda>k. k - 1) stop = None \<longrightarrow> err = 0)"
      using 2(2,4) False by (intro 2(1) h) auto
    then show ?thesis by (auto simp: suffix_Cons)
  qed
qed auto

lemma manager_clear_ok:
  assumes "manager_ok m"
  shows "manager_ok (snd (manager_clear cursor stop m))"
    and "fst (manager_clear cursor stop m) = 0 \<Longrightarrow> cache (snd (manager_clear cursor stop m)) = []"
proof -
  obtain err rest m' where l: "clear_cache_loop stop (cache m) m = (err, rest, m')" by (metis prod_cases3)
  have c: "(\<forall>p. handles m' p = cached_handles p rest) \<and> suffix rest (cache m) \<and> (err = 0 \<longrightarrow> rest = [])"
    using clear_cache_loop_handles [OF l, of "[]"] assms by (auto simp: manager_ok_def)
  then obtain pre where pre: "cache m = pre @ rest" by (auto simp: suffix_def)
  then have "distinct (map fst rest)" "\<forall>(n, db) \<in> set rest. db_handle db \<noteq> None" using assms by (auto simp: manager_ok_def)
  then show "manager_ok (snd (manager_clear cursor stop m))"
    using assms l c by (simp add: manager_clear_def manager_ok_def)
  show "fst (manager_clear cursor stop m) = 0 \<Longrightarrow> cache (snd (manager_clear cursor stop m)) = []"
    using l c by (auto simp: manager_clear_def ER_ERROR_ON_READ_def split: if_splits)
qed

section \<open>Properties\<close>

datatype manager_op =
    Open_db grn_env string
  | Close_db string
  | Drop_db grn_env operations string
  | Clear_dbs bool "nat option"

fun manager_step :: "string option \<Rightarrow> string option \<Rightarrow> manager_op \<Rightarrow> manager \<Rightarrow> manager" where
  "manager_step pre home (Open_db env path) m = snd (snd (manager_open env pre home path m))"
| "manager_step pre home (Close_db path) m = manager_close pre home path m"
| "manager_step pre home (Drop_db env other path) m = snd (manager_drop env other pre home path m)"
| "manager_step pre home (Clear_dbs cursor stop) m = snd (manager_clear cursor stop m)"

definition new_manager :: "(string \<rightharpoonup> operations) \<Rightarrow> string set \<Rightarrow> manager" where
  "new_manager files dirs = \<lparr>disk = files, directories = dirs, cache = [], handles = (\<lambda>_. 0)\<rparr>"

lemma manager_run_ok: "manager_ok m \<Longrightarrow> manager_ok (fold (manager_step pre home) ops m)"
proof (induction ops arbitrary: m)
  case (Cons op ops)
  have "manager_ok (manager_step pre home op m)"
    using Cons.prems by (cases op) (simp_all add: manager_open_ok manager_close_ok manager_drop_ok manager_clear_ok)
  then show ?case using Cons.IH by simp
qed simp

text \<open>C36: after any sequence of opens, closes, drops and clears of databases, with any failures of Groonga, the
  handles that are open are exactly those of the databases in the cache, every cached database has an open handle,
  no name is cached twice, and a clear that reports success has closed everything.\<close>

theorem database_handles_balanced:
  "let m = fold (manager_step pre home) ops (new_manager files dirs) in
   distinct (map fst (cache m)) \<and> (\<forall>x \<in> set (cache m). db_handle (snd x) \<noteq> None)
   \<and> (\<forall>p. handles m p = length (filter (\<lambda>x. db_handle (snd x) = Some p) (cache m)))
   \<and> (\<forall>cursor stop m'. manager_clear cursor stop m = (0, m') \<longrightarrow> cache m' = [] \<and> (\<forall>p. handles m' p = 0))"
proof -
  define m where "m = fold (manager_step pre home) ops (new_manager files dirs)"
  have ok: "manager_ok m" unfolding m_def by (rule manager_run_ok) (simp add: manager_ok_def new_manager_def)
  have "cache m' = [] \<and> (\<forall>p. handles m' p = 0)" if "manager_clear cursor stop m = (0, m')" for cursor stop m'
    using manager_clear_ok [OF ok, of cursor stop] that by (simp add: manager_ok_def)
  then show ?thesis using ok unfolding m_def [symmetric] Let_def by (auto simp: manager_ok_def cached_handles_def case_prod_unfold)
qed

definition healthy_grn :: grn_env where
  "healthy_grn = \<lparr>create_fails = False, open_fails = False, remove_fails = False, mkdir_failing = (\<lambda>_. False), names_cursor = True, encoding_error = 0\<rparr>"

lemma example_paths:
  "fst (db_name (PathMapper ''./db/t'' None None)) = ''db''" "fst (db_path (PathMapper ''./db/t'' None None)) = ''db.mrn''"
  by code_simp+

theorem database_handles_balanced_witness:
  "\<exists>m m'. m = fold (manager_step None None) [Open_db healthy_grn ''./db/t'', Open_db healthy_grn ''./db/t''] (new_manager Map.empty {})
   \<and> length (filter (\<lambda>x. db_handle (snd x) = Some ''db.mrn'') (cache m)) = 1
   \<and> manager_clear True None m = (0, m') \<and> cache m' = [] \<and> handles m' ''db.mrn'' = 0"
proof -
  define m where "m = fold (manager_step None None) [Open_db healthy_grn ''./db/t'', Open_db healthy_grn ''./db/t''] (new_manager Map.empty {})"
  note bal = database_handles_balanced [of None None "[Open_db healthy_grn ''./db/t'', Open_db healthy_grn ''./db/t'']" Map.empty "{}", folded m_def, unfolded Let_def]
  have m: "cache m = [(''db'', Database True no_operations (Some ''db.mrn''))]"
    by (simp add: m_def manager_open_def Let_def example_paths healthy_grn_def new_manager_def add_database_def open_handle_def)
  then have "fst (manager_clear True None m) = 0" by (simp add: manager_clear_def)
  then obtain m' where m': "manager_clear True None m = (0, m')" by (metis prod.collapse)
  then have "cache m' = [] \<and> handles m' ''db.mrn'' = 0" using bal by blast
  moreover have "length (filter (\<lambda>x. db_handle (snd x) = Some ''db.mrn'') (cache m)) = 1" by (simp add: m Database_def)
  ultimately show ?thesis using m' m_def by blast
qed

text \<open>A database with a locked journal is refused the first time only: the object stays in the cache, and the
  next open succeeds.\<close>

lemma broken_database_opens_again:
  assumes "disk m (fst (db_path (PathMapper path pre home))) = Some ops" "is_locked ops"
    and "map_of (cache m) (fst (db_name (PathMapper path pre home))) = None"
    and "\<not> open_fails env" "encoding_error env = 0" "encoding_error env' = 0"
    and "manager_open env pre home path m = (err, db, m')" "manager_open env' pre home path m' = (err', db', m'')"
  shows "err = ER_CANT_OPEN_FILE \<and> err' = 0 \<and> db' = db \<and> m'' = m'"
  using assms by (auto simp: manager_open_def Let_def add_database_def Database_def open_handle_def map_add_def)

text \<open>A database that cannot be opened is reported as dropped and stays on the disk.\<close>

lemma unopenable_database_dropped:
  assumes "disk m (fst (db_path (PathMapper path pre home))) = Some ops"
    and "map_of (cache m) (fst (db_name (PathMapper path pre home))) = None" "open_fails env"
  shows "manager_drop env other_ops pre home path m = (True, m)"
  using assms by (simp add: manager_drop_def Let_def database_remove_def Database_def delete_database_def)

text \<open>When the removal of a cached database fails, its list of broken tables is lost: no table of it is
  repaired any more.\<close>

lemma failed_drop_forgets_broken_tables:
  assumes "map_of (cache m) (fst (db_name (PathMapper path pre home))) = Some db" "db_handle db \<noteq> None" "remove_fails env"
  shows "\<exists>m' db'. manager_drop env other_ops pre home path m = (False, m')
    \<and> map_of (cache m') (fst (db_name (PathMapper path pre home))) = Some db' \<and> \<not> is_broken_table t db'"
proof -
  have upd: "map_of (map (\<lambda>(n, d). (n, if n = k then x else d)) c) k = map_option (\<lambda>_. x) (map_of c k)" for k x and c :: "(string \<times> database) list"
    by (induction c) auto
  show ?thesis using assms by (auto simp: manager_drop_def Let_def database_remove_def upd is_broken_table_def)
qed

text \<open>A database that cannot be opened counts as neither crashed nor corrupt, and its repair as a success.\<close>

lemma unopenable_database_healthy:
  "grn_db_open (fst (db_path mapper)) = None \<Longrightarrow>
     storage_check ctx_ok grn_db_open mapper = HA_ADMIN_OK \<and> \<not> storage_is_crashed ctx_ok grn_db_open mapper
     \<and> \<not> storage_check_and_repair ctx_ok grn_db_open mapper"
  by (simp add: storage_check_def storage_is_crashed_def storage_check_and_repair_def repairer_is_crashed_def repairer_is_corrupt_def repairer_check_def repairer_repair_def each_database_body_def)

section \<open>What the check finds\<close>

lemma check_loop_result:
  "check_loop obs \<lparr>is_crashed = False, is_corrupt = False\<rparr> =
     (case find (\<lambda>ob. ob = Unreadable \<or> ob = Readable True) obs of
        None \<Rightarrow> \<lparr>is_crashed = False, is_corrupt = False\<rparr>
      | Some ob \<Rightarrow> \<lparr>is_crashed = (ob = Readable True), is_corrupt = True\<rparr>)"
  by (induction obs "\<lparr>is_crashed = False, is_corrupt = False\<rparr>" rule: check_loop.induct) auto

section \<open>Directories\<close>

text \<open>The directories on the way to a path: what stands before a separator, and the path itself.\<close>

definition way :: "string \<Rightarrow> string set" where
  "way d = {take i d |i. 0 < i \<and> i \<le> length d \<and> (i = length d \<or> d ! i = FN_LIBCHAR)}"

lemma mkdir_p_loop_way:
  assumes "\<forall>d. \<not> mkdir_fails d"
  shows "fst (mkdir_p_loop mkdir_fails sub rest dirs created)
    = dirs \<union> {take i (sub @ rest) |i. 0 < i \<and> length sub \<le> i \<and> i \<le> length (sub @ rest) \<and> (i = length (sub @ rest) \<or> (sub @ rest) ! i = FN_LIBCHAR)}"
proof (induction rest arbitrary: sub dirs created)
  case Nil
  have "{take i (sub @ []) |i. 0 < i \<and> length sub \<le> i \<and> i \<le> length (sub @ []) \<and> (i = length (sub @ []) \<or> (sub @ []) ! i = FN_LIBCHAR)}
      = (if sub = [] then {} else {sub})"
    by (auto intro!: exI [of _ "length sub"])
  then show ?case using assms by auto
next
  case (Cons c rest)
  let ?ok = "\<lambda>k i. 0 < i \<and> k \<le> i \<and> i \<le> length (sub @ c # rest) \<and> (i = length (sub @ c # rest) \<or> (sub @ c # rest) ! i = FN_LIBCHAR)"
  let ?S = "\<lambda>k. {take i (sub @ c # rest) |i. ?ok k i}"
  have split: "?S (length sub) = (if sub \<noteq> [] \<and> c = FN_LIBCHAR then {sub} else {}) \<union> ?S (Suc (length sub))"
  proof -
    have "?ok (length sub) i \<longleftrightarrow> (i = length sub \<and> sub \<noteq> [] \<and> c = FN_LIBCHAR) \<or> ?ok (Suc (length sub)) i" for i
      by (cases "i = length sub") auto
    then have "?S (length sub) = {take i (sub @ c # rest) |i. i = length sub \<and> sub \<noteq> [] \<and> c = FN_LIBCHAR} \<union> ?S (Suc (length sub))"
      by blast
    then show ?thesis by simp
  qed
  define T where "T = ?S (Suc (length sub))"
  have ih: "fst (mkdir_p_loop mkdir_fails (sub @ [c]) rest ds cr) = ds \<union> T" for ds cr
    unfolding T_def using Cons.IH [of "sub @ [c]" ds cr] by (simp only: append_assoc append_Cons append_Nil length_append_singleton)
  have "fst (mkdir_p_loop mkdir_fails sub (c # rest) dirs created) = dirs \<union> ((if sub \<noteq> [] \<and> c = FN_LIBCHAR then {sub} else {}) \<union> T)"
    using assms ih by auto
  then show ?case unfolding split T_def .
qed

text \<open>\<^verbatim>\<open>mkdir_p\<close> creates all of them.\<close>

lemma mkdir_p_creates_way: "\<forall>d. \<not> mkdir_fails d \<Longrightarrow> mkdir_p mkdir_fails directory dirs = dirs \<union> way directory"
  by (simp add: mkdir_p_def mkdir_p_loop_way way_def)

end
