(* ===== verification/Row_Reading.thy ===== *)
theory Row_Reading
  imports Field_Values Key_Codec
begin

text \<open>
  Reading records into the row buffer in storage mode (\<^verbatim>\<open>storage_get_column_value\<close>, \<^verbatim>\<open>storage_store_field_column\<close>,
  \<^verbatim>\<open>storage_store_fields\<close>, \<^verbatim>\<open>storage_store_fields_for_prep_update\<close> and \<^verbatim>\<open>storage_store_fields_by_index\<close> of \<^verbatim>\<open>ha_mroonga.cpp\<close>): columns with
  values, references to records of other tables, vectors, keys read from an index. The buffer maps the number of a field to what was
  stored in it. The writing of JSON, the keys of other tables and MySQL's \<^verbatim>\<open>key_restore\<close> are parameters.
\<close>

section \<open>Columns\<close>

datatype column_content = Plain "byte list" | Record_id nat | Record_ids "nat list" | Elements "byte list list"

text \<open>The table that a column refers to: whether it has keys, whether it has a tokenizer, and the key of a record.\<close>

record read_range =
  rr_has_key :: bool
  rr_tokenizer :: bool
  rr_key :: "nat \<Rightarrow> byte list"

record read_column =
  rc_range :: "read_range option"
  rc_vector :: bool
  rc_content :: "nat \<Rightarrow> column_content"

text \<open>\<open>rd_columns\<close> are \<^verbatim>\<open>grn_columns\<close>, which has no entry for the pseudo column \<^verbatim>\<open>_id\<close> and virtual columns, \<open>rd_own_key\<close> the keys of the table.\<close>

record row_reader =
  rd_value :: value_env
  rd_geometry :: "byte list \<Rightarrow> byte list"
  rd_columns :: "nat \<Rightarrow> read_column option"
  rd_own_key :: "nat \<Rightarrow> byte list"
  rd_json :: "byte list \<Rightarrow> byte list"
  rd_vector_json :: "column_content \<Rightarrow> byte list"
  rd_delimiter :: "byte list"

text \<open>The bytes of a bulk: a record is its number in four bytes.\<close>

fun content_bytes :: "column_content \<Rightarrow> byte list" where
  "content_bytes (Plain bs) = bs"
| "content_bytes (Record_id i) = le_bytes 4 i"
| "content_bytes (Record_ids is) = concat (map (le_bytes 4) is)"
| "content_bytes (Elements es) = concat es"

fun content_ids :: "column_content \<Rightarrow> nat list" where
  "content_ids (Record_ids is) = is"
| "content_ids (Record_id i) = [i]"
| "content_ids _ = []"

fun join :: "byte list \<Rightarrow> byte list list \<Rightarrow> byte list" where
  "join sep [] = []"
| "join sep [x] = x"
| "join sep (x # y # xs) = x @ sep @ join sep (y # xs)"

fun decimal :: "nat \<Rightarrow> byte list" where
  "decimal n = (if n < 10 then [48 + of_nat n] else decimal (n div 10) @ [48 + of_nat (n mod 10)])"

declare decimal.simps [simp del]

abbreviation brackets :: "byte list \<Rightarrow> byte list" where
  "brackets bs \<equiv> 91 # bs @ [93]"

definition storage_get_column_value :: "read_column \<Rightarrow> nat \<Rightarrow> column_content" where
  "storage_get_column_value c r = rc_content c r"

text \<open>The text of a vector of references.\<close>

definition unvectored :: "row_reader \<Rightarrow> read_range \<Rightarrow> nat list \<Rightarrow> byte list" where
  "unvectored rd g is =
     (if rr_has_key g then
        (if rr_tokenizer g then join (rd_delimiter rd) (map (rr_key g) is) else brackets (join [44] (map (\<lambda>i. rd_json rd (rr_key g i)) is)))
      else brackets (join [44] (map decimal is)))"

definition storage_store_field_column :: "row_reader \<Rightarrow> value_field \<Rightarrow> bool \<Rightarrow> nat \<Rightarrow> nat \<Rightarrow> store_call option" where
  "storage_store_field_column rd f is_primary_key i r = (case rd_columns rd i of
      None \<Rightarrow> None
    | Some c \<Rightarrow> let store = storage_store_field (rd_value rd) (rd_geometry rd) f; value = storage_get_column_value c r in
        (case rc_range c of
           Some g \<Rightarrow> if rc_vector c then store (unvectored rd g (content_ids value)) else store (rr_key g (hd (content_ids value @ [0])))
         | None \<Rightarrow> if is_primary_key \<and> content_bytes value = [] then store (rd_own_key rd r)
             else if rc_vector c then store (rd_vector_json rd value)
             else store (content_bytes value)))"

section \<open>Rows\<close>

text \<open>A field: its name is \<^verbatim>\<open>_id\<close>, it is virtual, it is in the read set, in the write set, in a key of several columns.\<close>

record read_field =
  rf_field :: value_field
  rf_id :: bool
  rf_virtual :: bool
  rf_read :: bool
  rf_write :: bool
  rf_multiple :: bool

datatype stored = Stored store_call | Row_id nat

type_synonym row_buffer = "nat \<Rightarrow> stored option"

definition store_into :: "nat \<Rightarrow> store_call option \<Rightarrow> row_buffer \<Rightarrow> row_buffer" where
  "store_into i c buf = (case c of None \<Rightarrow> buf | Some s \<Rightarrow> buf(i \<mapsto> Stored s))"

text \<open>\<open>pk\<close> is the field of a primary key with one column, \<open>key_only\<close> the fields of the active key when others are to be ignored.\<close>

definition store_one :: "row_reader \<Rightarrow> nat option \<Rightarrow> nat list option \<Rightarrow> nat \<Rightarrow> nat \<times> read_field \<Rightarrow> row_buffer \<Rightarrow> row_buffer" where
  "store_one rd pk key_only r = (\<lambda>(i, f) buf.
     if rf_read f \<or> rf_write f then
       (if (case key_only of None \<Rightarrow> False | Some ks \<Rightarrow> i \<notin> set ks) then buf
        else if rf_id f then buf(i \<mapsto> Row_id r)
        else store_into i (storage_store_field_column rd (rf_field f) (pk = Some i) i r) buf)
     else buf)"

definition storage_store_fields ::
    "row_reader \<Rightarrow> read_field list \<Rightarrow> nat \<Rightarrow> nat option \<Rightarrow> nat list option \<Rightarrow> nat \<Rightarrow> row_buffer \<Rightarrow> row_buffer" where
  "storage_store_fields rd fs n_existing pk key_only r buf
     = fold (store_one rd pk key_only r) (zip [0 ..< length fs] (take n_existing fs)) buf"

text \<open>Before an update and a delete: the columns of keys that the statement has not read. The bulk is stored whatever the column is. A column
  that the handler does not have is a fault.\<close>

definition prepare_one :: "row_reader \<Rightarrow> nat \<Rightarrow> nat \<times> read_field \<Rightarrow> row_buffer \<times> row_buffer option \<Rightarrow> (row_buffer \<times> row_buffer option) option" where
  "prepare_one rd r = (\<lambda>(i, f) (old, new).
     if rf_virtual f then Some (old, new)
     else if \<not> rf_read f \<and> \<not> rf_write f \<and> rf_multiple f then
       (case rd_columns rd i of
          None \<Rightarrow> None
        | Some c \<Rightarrow> let s = storage_store_field (rd_value rd) (rd_geometry rd) (rf_field f) (content_bytes (rc_content c r)) in
            Some (store_into i s old, map_option (store_into i s) new))
     else Some (old, new))"

fun prepare_loop :: "row_reader \<Rightarrow> nat \<Rightarrow> (nat \<times> read_field) list \<Rightarrow> row_buffer \<times> row_buffer option \<Rightarrow> (row_buffer \<times> row_buffer option) option" where
  "prepare_loop rd r [] bufs = Some bufs"
| "prepare_loop rd r (x # xs) bufs = (case prepare_one rd r x bufs of None \<Rightarrow> None | Some bufs1 \<Rightarrow> prepare_loop rd r xs bufs1)"

definition storage_store_fields_for_prep_update ::
    "row_reader \<Rightarrow> read_field list \<Rightarrow> nat \<Rightarrow> row_buffer \<Rightarrow> row_buffer option \<Rightarrow> (row_buffer \<times> row_buffer option) option" where
  "storage_store_fields_for_prep_update rd fs r old new = prepare_loop rd r (zip [0 ..< length fs] fs) (old, new)"

text \<open>Texts in an index may be normalized, so the record is read instead.\<close>

definition text_part :: "key_part \<Rightarrow> bool" where
  "text_part kp \<longleftrightarrow> real_type (kp_field kp) \<in> {MYSQL_TYPE_VARCHAR, MYSQL_TYPE_VAR_STRING, MYSQL_TYPE_STRING, MYSQL_TYPE_BLOB}
     \<and> cs_csname (field_charset (kp_field kp)) \<noteq> ''binary''"

text \<open>\<open>key\<close> is the key under the cursor, \<open>enc_buf\<close> the buffer on the stack, \<open>restore\<close> is \<^verbatim>\<open>key_restore\<close>. Errors of the codec are ignored.\<close>

definition storage_store_fields_by_index ::
    "row_reader \<Rightarrow> codec_env \<Rightarrow> read_field list \<Rightarrow> nat option \<Rightarrow> nat list option \<Rightarrow> key_part list \<Rightarrow> nat list \<Rightarrow> byte list
     \<Rightarrow> byte list \<Rightarrow> (byte list \<Rightarrow> row_buffer \<Rightarrow> row_buffer) \<Rightarrow> nat \<Rightarrow> row_buffer \<Rightarrow> row_buffer option" where
  "storage_store_fields_by_index rd cenv fs pk key_only kps key_fields key enc_buf restore r buf =
     (if list_ex text_part kps then Some (storage_store_fields rd fs (length fs) pk key_only r buf)
      else if length kps = 1
      then Some (store_into (hd key_fields) (storage_store_field (rd_value rd) (rd_geometry rd) (rf_field (fs ! hd key_fields)) key) buf)
      else map_option (\<lambda>(e, b, n). restore (take n b) buf) (codec_decode cenv kps key (length key) enc_buf))"

section \<open>What is read\<close>

lemma store_into_other: "j \<noteq> i \<Longrightarrow> store_into i c buf j = buf j"
  by (cases c) (simp_all add: store_into_def)

lemma store_one_other: "j \<noteq> fst x \<Longrightarrow> store_one rd pk key_only r x buf j = buf j"
  by (cases x) (auto simp: store_one_def store_into_other)

text \<open>Every turn of the loop stores into its own field.\<close>

lemma store_loop:
  assumes "distinct (map fst xs)"
  shows "(\<forall>x\<in>set xs. fold (store_one rd pk key_only r) xs buf (fst x) = store_one rd pk key_only r x buf (fst x))
    \<and> (\<forall>j. j \<notin> fst ` set xs \<longrightarrow> fold (store_one rd pk key_only r) xs buf j = buf j)"
  using assms
proof (induction xs arbitrary: buf)
  case (Cons x xs)
  let ?buf = "store_one rd pk key_only r x buf"
  have x: "fst x \<notin> fst ` set xs" "distinct (map fst xs)" using Cons.prems by auto
  have local: "store_one rd pk key_only r y b j = store_one rd pk key_only r y b' j" if "b j = b' j" for y b b' j
    using that by (cases y) (auto simp: store_one_def store_into_def split: option.split)
  note IH = Cons.IH [OF x(2), of ?buf]
  have "fold (store_one rd pk key_only r) xs ?buf (fst y) = store_one rd pk key_only r y buf (fst y)" if y: "y \<in> set xs" for y
  proof -
    have "fst y \<noteq> fst x" using imageI [OF y, of fst] x(1) by metis
    then have "?buf (fst y) = buf (fst y)" by (rule store_one_other)
    then show ?thesis using IH y local [of ?buf "fst y" buf y] by simp
  qed
  moreover have "fold (store_one rd pk key_only r) xs ?buf (fst x) = ?buf (fst x)" using IH x(1) by blast
  moreover have "fold (store_one rd pk key_only r) xs ?buf j = buf j" if "j \<notin> fst ` set (x # xs)" for j
    using IH that store_one_other [of j x] by simp
  ultimately show ?case by simp
qed simp

lemma stored_fields:
  assumes "i < length fs" "i < n_existing"
  shows "storage_store_fields rd fs n_existing pk key_only r buf i = store_one rd pk key_only r (i, fs ! i) buf i"
proof -
  let ?xs = "zip [0 ..< length fs] (take n_existing fs)"
  have len: "length ?xs = min n_existing (length fs)" by simp
  have "map fst ?xs = take (length ?xs) [0 ..< length fs]" by (simp add: map_fst_zip_take)
  then have "distinct (map fst ?xs)" by simp
  moreover have "(i, fs ! i) \<in> set ?xs" using assms len by (force simp: in_set_conv_nth)
  ultimately show ?thesis using store_loop [of ?xs rd pk key_only r buf] unfolding storage_store_fields_def by fastforce
qed

text \<open>A field of the statement whose column has what writing a value stored, as the record or, for a primary key, as the key of the table.\<close>

definition written_column :: "(int \<Rightarrow> int) \<Rightarrow> row_reader \<Rightarrow> nat option \<Rightarrow> nat \<Rightarrow> nat \<Rightarrow> read_field \<Rightarrow> bool" where
  "written_column off rd pk r i f \<longleftrightarrow> field_shape (rf_field f) \<and> value_ok off (rf_field f)
     \<and> (\<exists>c b w. rd_columns rd i = Some c \<and> rc_range c = None \<and> \<not> rc_vector c \<and> generic_store_bulk (rd_value rd) (rf_field f) = (None, Some b, w)
          \<and> (rc_content c r = Plain (bulk_content b) \<and> (pk = Some i \<longrightarrow> bulk_content b \<noteq> [])
             \<or> pk = Some i \<and> rc_content c r = Plain [] \<and> rd_own_key rd r = bulk_content b))"

lemma written_column_read:
  assumes "written_column off rd pk r i f" "clock_ok off (rd_value rd)" "change_encoding (rd_value rd) = 0"
  shows "storage_store_field_column rd (rf_field f) (pk = Some i) i r = Some (value_call (kept_value (rd_value rd) (rf_field f)))"
proof -
  obtain c b w where c: "rd_columns rd i = Some c" "rc_range c = None" "\<not> rc_vector c" "generic_store_bulk (rd_value rd) (rf_field f) = (None, Some b, w)"
      "rc_content c r = Plain (bulk_content b) \<and> (pk = Some i \<longrightarrow> bulk_content b \<noteq> []) \<or> pk = Some i \<and> rc_content c r = Plain [] \<and> rd_own_key rd r = bulk_content b"
    using assms(1) unfolding written_column_def by blast
  have "field_shape (rf_field f)" "value_ok off (rf_field f)" using assms(1) unfolding written_column_def by blast+
  then have "storage_store_field (rd_value rd) (rd_geometry rd) (rf_field f) (bulk_content b) = Some (value_call (kept_value (rd_value rd) (rf_field f)))"
    using field_value_read [OF _ _ assms(2,3), of "rf_field f" "rd_geometry rd"] c(4) by auto
  then show ?thesis using c by (auto simp: storage_store_field_column_def storage_get_column_value_def Let_def)
qed

lemma written_row_fields:
  assumes "clock_ok off (rd_value rd)" "change_encoding (rd_value rd) = 0" "i < length fs"
    and "rf_read (fs ! i) \<or> rf_write (fs ! i) \<Longrightarrow> rf_id (fs ! i) \<or> written_column off rd pk r i (fs ! i)"
  shows "storage_store_fields rd fs (length fs) pk None r buf i
    = (if rf_read (fs ! i) \<or> rf_write (fs ! i) then Some (if rf_id (fs ! i) then Row_id r else Stored (value_call (kept_value (rd_value rd) (rf_field (fs ! i))))) else buf i)"
  using stored_fields [OF assms(3), of "length fs" rd pk None r buf] assms(3,4) written_column_read [OF _ assms(1,2), of pk r i "fs ! i"]
  by (auto simp: store_one_def store_into_def)


section \<open>Rows before updates\<close>

definition prepared :: "read_field \<Rightarrow> bool" where
  "prepared f \<longleftrightarrow> \<not> rf_virtual f \<and> \<not> rf_read f \<and> \<not> rf_write f \<and> rf_multiple f"

definition prepare_call :: "row_reader \<Rightarrow> nat \<Rightarrow> nat \<times> read_field \<Rightarrow> store_call option" where
  "prepare_call rd r = (\<lambda>(i, f). case rd_columns rd i of None \<Rightarrow> None
     | Some c \<Rightarrow> storage_store_field (rd_value rd) (rd_geometry rd) (rf_field f) (content_bytes (rc_content c r)))"

lemma prepare_loop_ok:
  "distinct (map fst xs) \<Longrightarrow> \<forall>x\<in>set xs. prepared (snd x) \<longrightarrow> rd_columns rd (fst x) \<noteq> None
    \<Longrightarrow> \<exists>old' new'. prepare_loop rd r xs (old, new) = Some (old', new')
      \<and> (\<forall>x\<in>set xs. old' (fst x) = (if prepared (snd x) then store_into (fst x) (prepare_call rd r x) old (fst x) else old (fst x)))
      \<and> (\<forall>j. j \<notin> fst ` set xs \<longrightarrow> old' j = old j)"
proof (induction xs arbitrary: old new)
  case (Cons x xs)
  have x: "fst x \<notin> fst ` set xs" "distinct (map fst xs)" using Cons.prems by auto
  have "\<exists>new1. prepare_one rd r x (old, new) = Some (if prepared (snd x) then store_into (fst x) (prepare_call rd r x) old else old, new1)"
    using Cons.prems(2) by (cases x) (auto simp: prepare_one_def prepared_def prepare_call_def Let_def split: option.split)
  then obtain old1 new1 where s: "prepare_one rd r x (old, new) = Some (old1, new1)"
      "old1 = (if prepared (snd x) then store_into (fst x) (prepare_call rd r x) old else old)" by blast
  have other: "old1 j = old j" if "j \<noteq> fst x" for j using that s(2) store_into_other by (auto split: if_splits)
  obtain old' new' where t: "prepare_loop rd r xs (old1, new1) = Some (old', new')"
      "\<forall>y\<in>set xs. old' (fst y) = (if prepared (snd y) then store_into (fst y) (prepare_call rd r y) old1 (fst y) else old1 (fst y))"
      "\<forall>j. j \<notin> fst ` set xs \<longrightarrow> old' j = old1 j"
    using Cons.IH [OF x(2), of old1 new1] Cons.prems(2) by auto
  have "old' (fst y) = (if prepared (snd y) then store_into (fst y) (prepare_call rd r y) old (fst y) else old (fst y))" if y: "y \<in> set xs" for y
  proof -
    have "fst y \<noteq> fst x" using imageI [OF y, of fst] x(1) by metis
    then have "old1 (fst y) = old (fst y)" by (rule other)
    then have "store_into (fst y) c old1 (fst y) = store_into (fst y) c old (fst y)" for c by (simp add: store_into_def split: option.split)
    then show ?thesis using bspec [OF t(2) y] \<open>old1 (fst y) = old (fst y)\<close> by simp
  qed
  moreover have "old' (fst x) = (if prepared (snd x) then store_into (fst x) (prepare_call rd r x) old (fst x) else old (fst x))"
    using t(3) x(1) s(2) by auto
  moreover have "old' j = old j" if "j \<notin> fst ` set (x # xs)" for j using t(3) that other by auto
  ultimately show ?case using s(1) t(1) by (intro exI [of _ old'] exI [of _ new']) auto
qed simp

text \<open>Before an update the old row has the value of every column of a key of several columns, whether the statement reads the column or not, when
  the column has values and no references.\<close>

lemma prepared_row_complete:
  assumes "clock_ok off (rd_value rd)" "change_encoding (rd_value rd) = 0" "i < length fs" "rf_multiple (fs ! i)" "\<not> rf_virtual (fs ! i)" "\<not> rf_id (fs ! i)"
    and "written_column off rd pk r i (fs ! i)" "pk \<noteq> Some i" "\<forall>j<length fs. prepared (fs ! j) \<longrightarrow> rd_columns rd j \<noteq> None"
  shows "\<exists>old' new'. storage_store_fields_for_prep_update rd fs r (storage_store_fields rd fs (length fs) pk None r buf) new = Some (old', new')
    \<and> old' i = Some (Stored (value_call (kept_value (rd_value rd) (rf_field (fs ! i)))))"
proof -
  let ?old = "storage_store_fields rd fs (length fs) pk None r buf" and ?xs = "zip [0 ..< length fs] fs"
  have xs: "distinct (map fst ?xs)" "\<forall>x\<in>set ?xs. prepared (snd x) \<longrightarrow> rd_columns rd (fst x) \<noteq> None" "(i, fs ! i) \<in> set ?xs"
    using assms(3,9) by (auto simp: in_set_zip in_set_conv_nth)
  obtain old' new' where p: "prepare_loop rd r ?xs (?old, new) = Some (old', new')"
      "old' i = (if prepared (fs ! i) then store_into i (prepare_call rd r (i, fs ! i)) ?old i else ?old i)"
    using prepare_loop_ok [OF xs(1,2), of r ?old new] xs(3) by fastforce
  have "old' i = Some (Stored (value_call (kept_value (rd_value rd) (rf_field (fs ! i)))))"
  proof (cases "prepared (fs ! i)")
    case True
    have "prepare_call rd r (i, fs ! i) = storage_store_field_column rd (rf_field (fs ! i)) (pk = Some i) i r"
      using assms(7,8) by (auto simp: written_column_def prepare_call_def storage_store_field_column_def storage_get_column_value_def Let_def)
    then show ?thesis using p(2) True written_column_read [OF assms(7,1,2)] by (simp add: store_into_def)
  next
    case False
    then show ?thesis using p(2) assms(4-7) written_row_fields [OF assms(1-3), of pk r buf] by (auto simp: prepared_def)
  qed
  then show ?thesis using p(1) by (auto simp: storage_store_fields_for_prep_update_def)
qed

section \<open>Keys from an index\<close>

text \<open>A key of several columns that is read from its index is the MySQL key with cleared null bytes: a column that was NULL is not NULL.\<close>

lemma index_key_read:
  assumes "key_values kps vs" "length (mysql_key_of kps vs) \<le> length enc_buf" "\<not> list_ex text_part kps" "length kps \<noteq> 1"
  shows "storage_store_fields_by_index rd cenv fs pk key_only kps key_fields (grn_key_of kps vs) enc_buf restore r buf
    = Some (restore (mysql_key_of kps (map clear_null vs)) buf)"
  using decode_parts_image [OF assms(1), of 0 enc_buf cenv "[]" "[]"] assms(2-4) length_clear_null [OF assms(1)]
  by (auto simp: storage_store_fields_by_index_def codec_decode_def write_at_def)

section \<open>An example\<close>

definition example_column :: "(nat \<Rightarrow> column_content) \<Rightarrow> read_column" where
  "example_column content = \<lparr>rc_range = None, rc_vector = False, rc_content = content\<rparr>"

definition example_int :: value_field where
  "example_int = example_field\<lparr>v_type := MYSQL_TYPE_LONG, pack_length := 4, v_int := 7\<rparr>"

definition example_reader :: "(nat \<Rightarrow> read_column option) \<Rightarrow> row_reader" where
  "example_reader cols = \<lparr>rd_value = fixed_zone_value_env 32400, rd_geometry = id, rd_columns = cols, rd_own_key = (\<lambda>r. [7, 0, 0, 0]),
     rd_json = id, rd_vector_json = content_bytes, rd_delimiter = [32]\<rparr>"

definition example_read_field :: "value_field \<Rightarrow> bool \<Rightarrow> read_field" where
  "example_read_field f rd = \<lparr>rf_field = f, rf_id = False, rf_virtual = False, rf_read = rd, rf_write = False, rf_multiple = True\<rparr>"


text \<open>A foreign key in a key of several columns: reading the row gives the key of the referenced record, but before an update the number of that
  record is stored, so the old entry of the index is not found.\<close>

lemma reference_prepared_as_number:
  "(let col = \<lparr>rc_range = Some \<lparr>rr_has_key = True, rr_tokenizer = False, rr_key = (\<lambda>i. [9, 0, 0, 0])\<rparr>, rc_vector = False, rc_content = (\<lambda>r. Record_id 3)\<rparr>;
       rd = example_reader (\<lambda>i. Some col) in
     (storage_store_fields rd [example_read_field example_int True] 1 None None 5 Map.empty 0,
      map_option (\<lambda>(old, new). old 0) (storage_store_fields_for_prep_update rd [example_read_field example_int False] 5 Map.empty None)))
   = (Some (Stored (Store_int 9 False)), Some (Some (Stored (Store_int 3 False))))"
  by code_simp

end
