(* ===== verification/Udf_Highlight.thy ===== *)
theory Udf_Highlight
  imports Mrn_Prelude
begin

text \<open>
  The user defined function \<^verbatim>\<open>mroonga_highlight_html\<close> (\<^verbatim>\<open>udf/mrn_udf_highlight_html.cpp\<close>): the checks and
  the choice of the keywords and tags when it is prepared, and the loop that marks the keywords of a text.
  Groonga's \<^verbatim>\<open>grn_pat_scan\<close>, \<^verbatim>\<open>grn_text_escape_xml\<close> and the keywords of a parsed query are parameters. A null pointer
  that is read ends the process.
\<close>

section \<open>Arguments\<close>

datatype item_result = STRING_RESULT | REAL_RESULT | INT_RESULT | ROW_RESULT | DECIMAL_RESULT

text \<open>\<open>arg\<close> is \<^const>\<open>None\<close> for a null pointer: SQL's NULL, and when the function is prepared every argument that
  is not constant.\<close>

record udf_arg =
  arg_type :: item_result
  attribute :: string
  arg :: "string option"

datatype udf_error = Not_initialized | Wrong_number_of_arguments | Not_string nat | No_database | Prepare_failed

text \<open>Reading the value of a number for the message reads its pointer; \<^const>\<open>None\<close> is a read of a null pointer.\<close>

fun check_string_args :: "nat \<Rightarrow> udf_arg list \<Rightarrow> (udf_error + unit) option" where
  "check_string_args i [] = Some (Inr ())"
| "check_string_args i (a # as) = (case arg_type a of
      STRING_RESULT \<Rightarrow> check_string_args (i + 1) as
    | REAL_RESULT \<Rightarrow> (case arg a of None \<Rightarrow> None | Some _ \<Rightarrow> Some (Inl (Not_string i)))
    | INT_RESULT \<Rightarrow> (case arg a of None \<Rightarrow> None | Some _ \<Rightarrow> Some (Inl (Not_string i)))
    | _ \<Rightarrow> Some (Inl (Not_string i)))"

section \<open>Preparation\<close>

record highlight_info =
  kept_keywords :: "string list option"
  query_used :: bool
  query :: "string option"
  open_tag :: "string option"
  close_tag :: "string option"

text \<open>The loop over the arguments behind the text: the last one of each attribute counts.\<close>

definition set_attribute :: "udf_arg \<Rightarrow> highlight_info \<Rightarrow> highlight_info" where
  "set_attribute a info =
     (if attribute a = ''query'' then info\<lparr>query_used := True, query := arg a\<rparr>
      else if attribute a = ''open_tag'' then info\<lparr>open_tag := arg a\<rparr>
      else if attribute a = ''close_tag'' then info\<lparr>close_tag := arg a\<rparr>
      else info)"

definition set_attributes :: "udf_arg list \<Rightarrow> highlight_info" where
  "set_attributes rest =
     (let info = fold set_attribute rest \<lparr>kept_keywords = None, query_used = False, query = None, open_tag = None, close_tag = None\<rparr>
      in info\<lparr>open_tag := (case open_tag info of None \<Rightarrow> Some ''<span class=\"keyword\">'' | Some t \<Rightarrow> Some t),
              close_tag := (case close_tag info of None \<Rightarrow> Some ''</span>'' | Some t \<Rightarrow> Some t)\<rparr>)"

text \<open>What Groonga does: the keywords of a query, \<^const>\<open>None\<close> when it cannot be parsed, and whether a keyword can
  be added to the table of keywords.\<close>

record highlight_env =
  query_keywords :: "string \<Rightarrow> string list option"
  add_succeeds :: "string \<Rightarrow> bool"

definition keyword_args :: "udf_arg list \<Rightarrow> string list" where
  "keyword_args rest =
     List.map_filter (\<lambda>a. if attribute a = ''open_tag'' \<or> attribute a = ''close_tag'' then None else arg a) rest"

text \<open>\<^verbatim>\<open>mrn_highlight_html_prepare\<close> with the arguments behind the text; \<^const>\<open>None\<close> is a read of a null pointer.\<close>

definition mrn_highlight_html_prepare :: "highlight_env \<Rightarrow> highlight_info \<Rightarrow> udf_arg list \<Rightarrow> (udf_error + string list) option" where
  "mrn_highlight_html_prepare env info rest =
     (case (if query_used info then map_option (query_keywords env) (query info) else Some (Some (keyword_args rest))) of
        None \<Rightarrow> None
      | Some None \<Rightarrow> Some (Inl Prepare_failed)
      | Some (Some ks) \<Rightarrow> Some (if list_all (add_succeeds env) ks then Inr ks else Inl Prepare_failed))"

definition mroonga_highlight_html_init ::
    "highlight_env \<Rightarrow> bool \<Rightarrow> bool \<Rightarrow> udf_arg list \<Rightarrow> (udf_error + highlight_info) option" where
  "mroonga_highlight_html_init env initialized db_opens args =
     (if \<not> initialized then Some (Inl Not_initialized)
      else if args = [] then Some (Inl Wrong_number_of_arguments)
      else case check_string_args 0 args of
        None \<Rightarrow> None
      | Some (Inl e) \<Rightarrow> Some (Inl e)
      | Some (Inr _) \<Rightarrow>
          if \<not> db_opens then Some (Inl No_database)
          else let info = set_attributes (tl args) in
            if list_all (\<lambda>a. arg a \<noteq> None) (tl args) then
              map_option (map_sum id (\<lambda>ks. info\<lparr>kept_keywords := Some ks\<rparr>)) (mrn_highlight_html_prepare env info (tl args))
            else Some (Inr info))"

section \<open>Marking\<close>

text \<open>A result of the loop: its output, an unfinished loop, or a read outside of the text.\<close>

datatype loop_result = Output string | Unfinished | Bad_read

text \<open>The hits of one scan: offset and length. The result is the output and \<^verbatim>\<open>previous\<close>. Offsets are unsigned,
  so an offset before \<^verbatim>\<open>previous\<close> reads outside of the text.\<close>

fun put_hits :: "(string \<Rightarrow> string) \<Rightarrow> string \<Rightarrow> string \<Rightarrow> string \<Rightarrow> nat \<Rightarrow> (nat \<times> nat) list \<Rightarrow> string \<Rightarrow> (string \<times> nat) option" where
  "put_hits esc op cl target previous [] out = Some (out, previous)"
| "put_hits esc op cl target previous ((off, len) # hits) out =
     (if off < previous \<or> off + len > length target then None
      else put_hits esc op cl target (off + len) hits
             (out @ (if off - previous > 0 then esc (take (off - previous) (drop previous target)) else [])
                @ op @ esc (take len (drop off target)) @ cl))"

text \<open>One round of the loop consumes up to \<^verbatim>\<open>rest\<close>, an offset here; behind the last hit it writes all of the
  text that is left.\<close>

fun highlight_html ::
    "nat \<Rightarrow> (string \<Rightarrow> (nat \<times> nat) list \<times> nat) \<Rightarrow> (string \<Rightarrow> string) \<Rightarrow> string \<Rightarrow> string \<Rightarrow> string \<Rightarrow> string \<Rightarrow> loop_result" where
  "highlight_html 0 scan esc op cl target out = (if target = [] then Output out else Unfinished)"
| "highlight_html (Suc fuel) scan esc op cl target out =
     (if target = [] then Output out
      else case scan target of (hits, rest) \<Rightarrow>
        (case put_hits esc op cl target 0 hits out of
           None \<Rightarrow> Bad_read
         | Some (out', previous) \<Rightarrow>
             if rest < previous \<or> rest > length target then Bad_read
             else highlight_html fuel scan esc op cl (drop rest target)
                    (out' @ (if rest - previous > 0 then esc (drop previous target) else []))))"

datatype row_result = Html string | Null_result | Row_error | Null_read | Endless

definition mroonga_highlight_html ::
    "nat \<Rightarrow> highlight_env \<Rightarrow> (string list \<Rightarrow> string \<Rightarrow> (nat \<times> nat) list \<times> nat) \<Rightarrow> (string \<Rightarrow> string) \<Rightarrow> highlight_info \<Rightarrow> udf_arg list \<Rightarrow> row_result" where
  "mroonga_highlight_html fuel env scan esc info args = (case arg (hd args) of
      None \<Rightarrow> Null_result
    | Some target \<Rightarrow>
        (case (case kept_keywords info of Some ks \<Rightarrow> Some (Inr ks) | None \<Rightarrow> mrn_highlight_html_prepare env info (tl args)) of
           None \<Rightarrow> Null_read
         | Some (Inl e) \<Rightarrow> Row_error
         | Some (Inr ks) \<Rightarrow>
             (case highlight_html fuel (scan ks) esc (the (open_tag info)) (the (close_tag info)) target [] of
                Output out \<Rightarrow> Html out
              | Unfinished \<Rightarrow> Endless
              | Bad_read \<Rightarrow> Null_read)))"

section \<open>Segments\<close>

text \<open>A text cut into pieces, each marked or not, and how they are written.\<close>

definition write_segment :: "(string \<Rightarrow> string) \<Rightarrow> string \<Rightarrow> string \<Rightarrow> bool \<times> string \<Rightarrow> string" where
  "write_segment esc op cl seg = (if fst seg then op @ esc (snd seg) @ cl else esc (snd seg))"

definition write_segments :: "(string \<Rightarrow> string) \<Rightarrow> string \<Rightarrow> string \<Rightarrow> (bool \<times> string) list \<Rightarrow> string" where
  "write_segments esc op cl segs = concat (map (write_segment esc op cl) segs)"

text \<open>What \<^verbatim>\<open>grn_pat_scan\<close> promises for a text that is not empty: the hits come in order, do not overlap and are
  keywords, and \<^verbatim>\<open>rest\<close> is not before the end of the last hit and not behind the text. It need not make progress: a scan
  stops at bytes that are no character, also at the first byte.\<close>

fun hits_from :: "string list \<Rightarrow> string \<Rightarrow> nat \<Rightarrow> (nat \<times> nat) list \<Rightarrow> bool" where
  "hits_from ks t previous [] \<longleftrightarrow> previous \<le> length t"
| "hits_from ks t previous ((off, len) # hits) \<longleftrightarrow>
     previous \<le> off \<and> off + len \<le> length t \<and> 0 < len \<and> take len (drop off t) \<in> set ks \<and> hits_from ks t (off + len) hits"

definition last_end :: "nat \<Rightarrow> (nat \<times> nat) list \<Rightarrow> nat" where
  "last_end previous hits = (if hits = [] then previous else fst (last hits) + snd (last hits))"

definition scan_in_range :: "(string list \<Rightarrow> string \<Rightarrow> (nat \<times> nat) list \<times> nat) \<Rightarrow> bool" where
  "scan_in_range scan \<longleftrightarrow> (\<forall>ks t hits rest. t \<noteq> [] \<longrightarrow> scan ks t = (hits, rest) \<longrightarrow>
     hits_from ks t 0 hits \<and> last_end 0 hits \<le> rest \<and> rest \<le> length t)"

text \<open>The texts that the rounds of the loop scan, the text itself first. A scan that stops at the first byte is stuck; one that stops between
  its last hit and the end of the text breaks off.\<close>

inductive scanned :: "(string \<Rightarrow> (nat \<times> nat) list \<times> nat) \<Rightarrow> string \<Rightarrow> string \<Rightarrow> bool" for scan where
  first: "scanned scan t t"
| later: "t \<noteq> [] \<Longrightarrow> scanned scan (drop (snd (scan t)) t) u \<Longrightarrow> scanned scan t u"

inductive_cases scannedE: "scanned scan t u"

definition stuck :: "(string \<Rightarrow> (nat \<times> nat) list \<times> nat) \<Rightarrow> string \<Rightarrow> bool" where
  "stuck scan t \<longleftrightarrow> (\<exists>u. scanned scan t u \<and> u \<noteq> [] \<and> snd (scan u) = 0)"

definition broken_off :: "(string \<Rightarrow> (nat \<times> nat) list \<times> nat) \<Rightarrow> string \<Rightarrow> bool" where
  "broken_off scan t \<longleftrightarrow> (\<exists>u. scanned scan t u \<and> u \<noteq> [] \<and> last_end 0 (fst (scan u)) < snd (scan u) \<and> snd (scan u) < length u)"

lemma stuck_step: "t \<noteq> [] \<Longrightarrow> stuck scan t \<longleftrightarrow> snd (scan t) = 0 \<or> stuck scan (drop (snd (scan t)) t)"
  unfolding stuck_def by (metis scanned.intros scannedE)

lemma broken_off_step: "t \<noteq> [] \<Longrightarrow> broken_off scan t
    \<longleftrightarrow> last_end 0 (fst (scan t)) < snd (scan t) \<and> snd (scan t) < length t \<or> broken_off scan (drop (snd (scan t)) t)"
  unfolding broken_off_def by (metis scanned.intros scannedE)

lemma nothing_scanned: "scanned scan [] u \<Longrightarrow> u = []"
  by (induction "[] :: string" u rule: scanned.induct) simp_all

lemma hits_from_last: "hits_from ks t previous hits \<Longrightarrow> previous \<le> last_end previous hits \<and> last_end previous hits \<le> length t"
  by (induction ks t previous hits rule: hits_from.induct) (auto simp: last_end_def)

text \<open>The segments that one round writes for its hits.\<close>

fun hit_segments :: "string \<Rightarrow> nat \<Rightarrow> (nat \<times> nat) list \<Rightarrow> (bool \<times> string) list" where
  "hit_segments t previous [] = []"
| "hit_segments t previous ((off, len) # hits) =
     (if off - previous > 0 then [(False, take (off - previous) (drop previous t))] else [])
     @ (True, take len (drop off t)) # hit_segments t (off + len) hits"

lemma put_hits_segments:
  "hits_from ks t previous hits \<Longrightarrow>
     put_hits esc op cl t previous hits out = Some (out @ write_segments esc op cl (hit_segments t previous hits), last_end previous hits)"
proof (induction ks t previous hits arbitrary: out rule: hits_from.induct)
  case (2 ks t previous off len hits)
  then show ?case by (auto simp: write_segments_def write_segment_def last_end_def)
qed (simp add: write_segments_def last_end_def)

lemma hit_segments_text:
  "hits_from ks t previous hits \<Longrightarrow> concat (map snd (hit_segments t previous hits)) = take (last_end previous hits - previous) (drop previous t)"
proof (induction ks t previous hits rule: hits_from.induct)
  case (2 ks t previous off len hits)
  let ?e = "last_end (off + len) hits"
  have e: "off + len \<le> ?e" "last_end previous ((off, len) # hits) = ?e"
    using 2 hits_from_last [of ks t "off + len" hits] by (auto simp: last_end_def)
  have "take (?e - previous) (drop previous t)
      = take (off - previous) (drop previous t) @ take len (drop off t) @ take (?e - (off + len)) (drop (off + len) t)"
  proof -
    have "?e - previous = (off - previous) + (len + (?e - (off + len)))" using 2(2) e(1) by simp
    moreover have "take (a + (b + c)) x = take a x @ take b (drop a x) @ take c (drop (b + a) x)" for a b c and x :: string
      by (simp add: take_add)
    moreover have "drop (off - previous) (drop previous t) = drop off t" "drop (len + (off - previous)) (drop previous t) = drop (off + len) t"
      using 2(2) by (simp_all add: add.commute)
    ultimately show ?thesis by (simp only:)
  qed
  then show ?case using 2 e(2) by auto
qed (simp add: last_end_def)

lemma hit_segments_keywords:
  "hits_from ks t previous hits \<Longrightarrow> (True, s) \<in> set (hit_segments t previous hits) \<Longrightarrow> s \<in> set ks"
  by (induction ks t previous hits rule: hits_from.induct) auto

lemma hit_segments_count: "hits_from ks t previous hits \<Longrightarrow> length (filter fst (hit_segments t previous hits)) = length hits"
  by (induction ks t previous hits rule: hits_from.induct) auto
section \<open>The loop\<close>

lemma write_segments_append: "write_segments esc op cl (xs @ ys) = write_segments esc op cl xs @ write_segments esc op cl ys"
  by (simp add: write_segments_def)

text \<open>One round writes the segments of what it consumes, and the rest of the text when it does not stop at the end of its last hit.\<close>

lemma highlight_round:
  assumes "scan_in_range scan" "t \<noteq> []" "scan ks t = (hits, rest)"
  obtains segs where "rest \<le> length t" "last_end 0 hits \<le> rest"
    "concat (map snd segs) = take rest t @ (if last_end 0 hits < rest then drop rest t else [])"
    "\<And>s. (True, s) \<in> set segs \<Longrightarrow> s \<in> set ks"
    "\<And>fuel out. highlight_html (Suc fuel) (scan ks) esc op cl t out
       = highlight_html fuel (scan ks) esc op cl (drop rest t) (out @ write_segments esc op cl segs)"
proof -
  let ?e = "last_end 0 hits"
  have p: "hits_from ks t 0 hits" "?e \<le> rest" "rest \<le> length t"
    using assms unfolding scan_in_range_def by blast+
  define segs where "segs = hit_segments t 0 hits @ (if rest - ?e > 0 then [(False, drop ?e t)] else [])"
  have h: "concat (map snd (hit_segments t 0 hits)) = take ?e t" using hit_segments_text [OF p(1)] by simp
  have "drop ?e t = take (rest - ?e) (drop ?e t) @ drop rest t" using p(2) by (metis append_take_drop_id drop_drop le_add_diff_inverse2)
  moreover have "take rest t = take ?e t @ take (rest - ?e) (drop ?e t)" using p(2) by (metis le_add_diff_inverse take_add)
  ultimately have "concat (map snd segs) = take rest t @ (if ?e < rest then drop rest t else [])"
    using h p(2) by (cases "?e < rest") (simp_all add: segs_def)
  moreover have "s \<in> set ks" if "(True, s) \<in> set segs" for s
    using that hit_segments_keywords [OF p(1)] by (auto simp: segs_def split: if_splits)
  moreover have "highlight_html (Suc fuel) (scan ks) esc op cl t out
      = highlight_html fuel (scan ks) esc op cl (drop rest t) (out @ write_segments esc op cl segs)" for fuel out
    using assms(2,3) put_hits_segments [OF p(1)] p(2,3)
    by (simp add: segs_def write_segments_append) (simp add: write_segments_def write_segment_def)
  ultimately show thesis using that p(2,3) by blast
qed

lemma highlight_segments:
  assumes "scan_in_range scan"
  shows "length t \<le> fuel \<Longrightarrow> \<not> stuck (scan ks) t \<Longrightarrow> \<exists>segs. highlight_html fuel (scan ks) esc op cl t out = Output (out @ write_segments esc op cl segs)
    \<and> (\<forall>s. (True, s) \<in> set segs \<longrightarrow> s \<in> set ks) \<and> length t \<le> length (concat (map snd segs))
    \<and> (concat (map snd segs) = t \<longleftrightarrow> \<not> broken_off (scan ks) t)"
proof (induction fuel arbitrary: t out)
  case 0
  then show ?case by (intro exI [of _ "[]"]) (auto simp: write_segments_def broken_off_def dest: nothing_scanned)
next
  case (Suc fuel)
  show ?case
  proof (cases "t = []")
    case True
    then show ?thesis by (intro exI [of _ "[]"]) (auto simp: write_segments_def broken_off_def dest: nothing_scanned)
  next
    case False
    obtain hits rest where sc: "scan ks t = (hits, rest)" by fastforce
    obtain segs where r: "rest \<le> length t" "last_end 0 hits \<le> rest"
      "concat (map snd segs) = take rest t @ (if last_end 0 hits < rest then drop rest t else [])"
      "\<And>s. (True, s) \<in> set segs \<Longrightarrow> s \<in> set ks"
      "\<And>fuel out. highlight_html (Suc fuel) (scan ks) esc op cl t out
         = highlight_html fuel (scan ks) esc op cl (drop rest t) (out @ write_segments esc op cl segs)"
      using highlight_round [OF assms False sc] by metis
    have n: "0 < rest" "\<not> stuck (scan ks) (drop rest t)" using Suc.prems(2) stuck_step [OF False, of "scan ks"] sc by simp_all
    then have "length (drop rest t) \<le> fuel" using Suc.prems(1) r(1) by simp
    then obtain segs' where s': "highlight_html fuel (scan ks) esc op cl (drop rest t) (out @ write_segments esc op cl segs)
        = Output ((out @ write_segments esc op cl segs) @ write_segments esc op cl segs')"
      "\<forall>s. (True, s) \<in> set segs' \<longrightarrow> s \<in> set ks" "length (drop rest t) \<le> length (concat (map snd segs'))"
      "concat (map snd segs') = drop rest t \<longleftrightarrow> \<not> broken_off (scan ks) (drop rest t)"
      using Suc.IH n(2) by metis
    let ?off = "last_end 0 hits < rest \<and> rest < length t"
    have off: "broken_off (scan ks) t \<longleftrightarrow> ?off \<or> broken_off (scan ks) (drop rest t)" using broken_off_step [OF False, of "scan ks"] sc by simp
    have all: "concat (map snd (segs @ segs')) = take rest t @ (if ?off then drop rest t else []) @ concat (map snd segs')"
      using r(1,3) by auto
    have "length t \<le> length (concat (map snd (segs @ segs')))" using s'(3) r(1) unfolding all by simp
    moreover have "concat (map snd (segs @ segs')) = t \<longleftrightarrow> \<not> broken_off (scan ks) t"
    proof (cases ?off)
      case True
      then have "0 < length (concat (map snd segs'))" using s'(3) by (metis length_drop order_less_le_trans zero_less_diff)
      then have "length t < length (take rest t @ drop rest t @ concat (map snd segs'))" unfolding append_assoc [symmetric] append_take_drop_id by simp
      then show ?thesis using True all off by (metis less_irrefl)
    next
      case False
      have "take rest t @ x = t \<longleftrightarrow> x = drop rest t" for x by (metis append_take_drop_id same_append_eq)
      then show ?thesis using s'(4) off unfolding all if_not_P [OF False] append_Nil by (metis False)
    qed
    ultimately show ?thesis
      using r(4,5) s'(1,2) by (intro exI [of _ "segs @ segs'"]) (auto simp: write_segments_append)
  qed
qed

text \<open>A scan that stops at its first byte, as at a byte that is no character, never lets the loop end.\<close>

lemma stuck_scan_loops:
  assumes "scan_in_range scan" "t \<noteq> []" "snd (scan ks t) = 0"
  shows "highlight_html fuel (scan ks) esc op cl t out = Unfinished"
proof (induction fuel arbitrary: out)
  case (Suc fuel)
  obtain hits where sc: "scan ks t = (hits, 0)" using assms(3) by (metis prod.collapse)
  show ?case using highlight_round [OF assms(1,2) sc] Suc by (metis drop_0)
qed (use assms(2) in simp)

lemma stuck_later:
  assumes "scan_in_range scan" "scanned (scan ks) t u" "u \<noteq> []" "snd (scan ks u) = 0"
  shows "highlight_html fuel (scan ks) esc op cl t out = Unfinished"
  using assms(2-4)
proof (induction t u arbitrary: fuel out rule: scanned.induct)
  case (first t)
  then show ?case using stuck_scan_loops [OF assms(1)] by blast
next
  case (later t u)
  show ?case
  proof (cases fuel)
    case (Suc n)
    obtain hits rest where sc: "scan ks t = (hits, rest)" by fastforce
    show ?thesis using highlight_round [OF assms(1) later.hyps(1) sc] later.IH [OF later.prems] sc unfolding Suc by (metis snd_conv)
  qed (use later.hyps(1) in simp)
qed


text \<open>A scan for one hit at the first byte that is a keyword, as an example: its array has one place.\<close>

definition byte_scan :: "string list \<Rightarrow> string \<Rightarrow> (nat \<times> nat) list \<times> nat" where
  "byte_scan ks t = (let before = takeWhile (\<lambda>c. [c] \<notin> set ks) t in
     if length before < length t then ([(length before, 1)], length before + 1) else ([], length t))"

lemma byte_scan_ends:
  assumes "t \<noteq> []" "byte_scan ks t = (hits, rest)"
  shows "hits_from ks t 0 hits" "last_end 0 hits \<le> rest" "rest \<le> length t" "0 < rest" "rest = length t \<or> rest = last_end 0 hits"
proof -
  let ?n = "length (takeWhile (\<lambda>c. [c] \<notin> set ks) t)"
  have "hits_from ks t 0 hits \<and> last_end 0 hits \<le> rest \<and> rest \<le> length t \<and> 0 < rest \<and> (rest = length t \<or> rest = last_end 0 hits)"
  proof (cases "?n < length t")
    case True
    then have "[t ! ?n] \<in> set ks" using nth_length_takeWhile by blast
    moreover have "take 1 (drop ?n t) = [t ! ?n]" using True by (simp add: take_Suc_conv_app_nth hd_drop_conv_nth take_Suc)
    ultimately show ?thesis using assms True by (auto simp: byte_scan_def Let_def last_end_def)
  next
    case False
    then show ?thesis using assms by (auto simp: byte_scan_def Let_def last_end_def)
  qed
  then show "hits_from ks t 0 hits" "last_end 0 hits \<le> rest" "rest \<le> length t" "0 < rest" "rest = length t \<or> rest = last_end 0 hits" by blast+
qed

text \<open>One that stops at the byte 255, as in UTF-8.\<close>

definition character_scan :: "string list \<Rightarrow> string \<Rightarrow> (nat \<times> nat) list \<times> nat" where
  "character_scan ks t = (let valid = takeWhile (\<lambda>c. c \<noteq> CHR 0xFF) t in
     if valid = t then byte_scan ks t else if valid = [] then ([], 0) else byte_scan ks valid)"

lemma hits_from_prefix: "hits_from ks t previous hits \<Longrightarrow> hits_from ks (t @ u) previous hits"
  by (induction ks t previous hits rule: hits_from.induct) auto

lemma character_scan_in_range: "scan_in_range character_scan"
  unfolding scan_in_range_def
proof (intro allI impI)
  fix ks and t :: string and hits rest
  assume t: "t \<noteq> []" and sc: "character_scan ks t = (hits, rest)"
  let ?v = "takeWhile (\<lambda>c. c \<noteq> CHR 0xFF) t"
  consider "?v = t" | "?v = []" "?v \<noteq> t" | "?v \<noteq> []" "?v \<noteq> t" by blast
  then show "hits_from ks t 0 hits \<and> last_end 0 hits \<le> rest \<and> rest \<le> length t"
  proof cases
    case 1
    then show ?thesis using byte_scan_ends [OF t, of ks hits rest] sc by (simp add: character_scan_def)
  next
    case 2
    then show ?thesis using sc t by (auto simp: character_scan_def last_end_def)
  next
    case 3
    then have "byte_scan ks ?v = (hits, rest)" using sc unfolding character_scan_def Let_def by (simp only: if_False)
    note v = byte_scan_ends [OF 3(1) this]
    have "hits_from ks t 0 hits" using hits_from_prefix [OF v(1), of "dropWhile (\<lambda>c. c \<noteq> CHR 0xFF) t"] by simp
    moreover have "rest \<le> length t" using v(3) length_takeWhile_le [of "\<lambda>c. c \<noteq> CHR 0xFF" t] by linarith
    ultimately show ?thesis using v(2) by simp
  qed
qed


section \<open>Preparing\<close>

text \<open>A number that is not constant is a null pointer when the function is prepared: its value is read for the
  message all the same.\<close>

lemma number_column_null_read:
  "arg_type a = INT_RESULT \<Longrightarrow> arg a = None \<Longrightarrow> mroonga_highlight_html_init env True db_opens (a # as) = None"
  by (simp add: mroonga_highlight_html_init_def)

text \<open>Otherwise the preparation only fails with an error.\<close>

lemma check_string_args_safe:
  assumes "\<forall>a \<in> set as. arg_type a = STRING_RESULT \<or> arg a \<noteq> None"
  shows "check_string_args i as \<noteq> None"
  using assms by (induction i as rule: check_string_args.induct) (auto split: item_result.splits option.splits)

text \<open>A query that is not constant is never read from the row: the null pointer kept when the function was prepared
  is parsed.\<close>

lemma set_attribute_query:
  "query_used (set_attribute a info) = (query_used info \<or> attribute a = ''query'')"
  "query (set_attribute a info) = (if attribute a = ''query'' then arg a else query info)"
  by (simp_all add: set_attribute_def)

lemma varying_query_null_read:
  assumes "mroonga_highlight_html_init env True True [txt, q] = Some (Inr info)"
    and "attribute q = ''query''" "arg q = None" "arg (hd row) = Some target"
  shows "mroonga_highlight_html fuel env scan esc info row = Null_read"
proof -
  have "info = set_attributes [q]"
    using assms(1,3) by (auto simp: mroonga_highlight_html_init_def Let_def split: option.splits sum.splits if_splits)
  then have "kept_keywords info = None" "query_used info" "query info = None"
    using assms(2,3) by (simp_all add: set_attributes_def set_attribute_def Let_def)
  then show ?thesis using assms(4) by (simp add: mroonga_highlight_html_def mrn_highlight_html_prepare_def)
qed

end
