(* ===== verification/Udf_Command.thy ===== *)
theory Udf_Command
  imports Udf_Highlight
begin

text \<open>
  The user defined functions \<^verbatim>\<open>mroonga_command\<close> and \<^verbatim>\<open>mroonga_escape\<close> (\<^verbatim>\<open>udf/mrn_udf_command.cpp\<close>,
  \<^verbatim>\<open>udf/mrn_udf_escape.cpp\<close>). Texts are strings of bytes; \<^verbatim>\<open>grn_charlen\<close>, which depends on the encoding of the context,
  the answers of \<^verbatim>\<open>grn_ctx_recv\<close> and Groonga's escape functions are parameters.
\<close>

abbreviation DOUBLE_QUOTE :: char where "DOUBLE_QUOTE \<equiv> CHR 0x22"
abbreviation ESCAPE :: char where "ESCAPE \<equiv> CHR 0x5C"
abbreviation NEWLINE :: char where "NEWLINE \<equiv> CHR 0x0A"

section \<open>Building a command\<close>

definition escape_byte :: "char \<Rightarrow> string" where
  "escape_byte c =
     (if c = ESCAPE \<or> c = DOUBLE_QUOTE then [ESCAPE, c]
      else if c = NEWLINE then [ESCAPE, CHR ''n'']
      else [c])"

function escape_value_loop :: "(string \<Rightarrow> nat) \<Rightarrow> string \<Rightarrow> string" where
  "escape_value_loop charlen v =
     (if v = [] then []
      else if charlen v = 0 then []
      else if charlen v = 1 then escape_byte (hd v) @ escape_value_loop charlen (tl v)
      else take (charlen v) v @ escape_value_loop charlen (drop (charlen v) v))"
  by pat_completeness auto
termination by (relation "measure (\<lambda>(charlen, v). length v)") auto

declare escape_value_loop.simps [simp del]

definition mroonga_command_escape_value :: "(string \<Rightarrow> nat) \<Rightarrow> string \<Rightarrow> string" where
  "mroonga_command_escape_value charlen value = DOUBLE_QUOTE # escape_value_loop charlen value @ [DOUBLE_QUOTE]"

text \<open>The loop over the pairs of names and values; \<^const>\<open>None\<close> when one of them is NULL.\<close>

fun command_args :: "(string \<Rightarrow> nat) \<Rightarrow> string option list \<Rightarrow> string option" where
  "command_args charlen (name # value # rest) =
     (case (name, value) of
        (Some n, Some v) \<Rightarrow>
          map_option (\<lambda>others. '' --'' @ n @ '' '' @ mroonga_command_escape_value charlen v @ others) (command_args charlen rest)
      | _ \<Rightarrow> None)"
| "command_args charlen _ = Some []"

definition build_command :: "(string \<Rightarrow> nat) \<Rightarrow> string option list \<Rightarrow> string option" where
  "build_command charlen args = (case args of
      [] \<Rightarrow> None
    | None # rest \<Rightarrow> None
    | Some c # rest \<Rightarrow> map_option (\<lambda>others. c @ others) (command_args charlen rest))"

datatype command_result = Command_null | Command_error | Command_output string | Command_endless

text \<open>The answers of \<^verbatim>\<open>grn_ctx_recv\<close> in their order: \<^const>\<open>None\<close> for an error, and whether more will follow.\<close>

fun receive :: "(string option \<times> bool) list \<Rightarrow> string \<Rightarrow> command_result" where
  "receive [] out = Command_endless"
| "receive ((None, go_on) # answers) out = Command_error"
| "receive ((Some buf, go_on) # answers) out = (if go_on then receive answers (out @ buf) else Command_output (out @ buf))"

definition mroonga_command :: "(string \<Rightarrow> nat) \<Rightarrow> (string \<Rightarrow> bool) \<Rightarrow> (string \<Rightarrow> (string option \<times> bool) list) \<Rightarrow> string option list \<Rightarrow> command_result" where
  "mroonga_command charlen send_ok answers args = (case build_command charlen args of
      None \<Rightarrow> Command_null
    | Some c \<Rightarrow> if \<not> send_ok c then Command_error else receive (answers c) [])"

section \<open>Preparing a command\<close>

text \<open>The contexts in the pool and the contexts that are associated with the session, which are cancelled when
  its query is killed. \<open>c\<close> is the context that the pool hands out.\<close>

record session =
  pooled :: "nat list"
  associated :: "nat list"

datatype command_error = Command_not_initialized | Command_no_argument | Command_even_arguments | Command_argument udf_error | Command_no_database

definition mroonga_command_init ::
    "bool \<Rightarrow> bool \<Rightarrow> nat \<Rightarrow> udf_arg list \<Rightarrow> session \<Rightarrow> ((command_error + nat) \<times> session) option" where
  "mroonga_command_init initialized db_opens c args s =
     (if \<not> initialized then Some (Inl Command_not_initialized, s)
      else if args = [] then Some (Inl Command_no_argument, s)
      else if length args mod 2 = 0 then Some (Inl Command_even_arguments, s)
      else case check_string_args 0 args of
        None \<Rightarrow> None
      | Some (Inl e) \<Rightarrow> Some (Inl (Command_argument e), s)
      | Some (Inr _) \<Rightarrow>
          let s1 = s\<lparr>pooled := remove1 c (pooled s), associated := associated s @ [c]\<rparr> in
          if db_opens then Some (Inr c, s1)
          else Some (Inl Command_no_database, s1\<lparr>pooled := c # pooled s1\<rparr>))"

definition mroonga_command_deinit :: "nat \<Rightarrow> session \<Rightarrow> session" where
  "mroonga_command_deinit c s = s\<lparr>associated := filter (\<lambda>x. x \<noteq> c) (associated s), pooled := c # pooled s\<rparr>"

section \<open>Escaping\<close>

record escape_info =
  script_mode :: bool
  target_characters :: string
  escaped_value :: string

text \<open>Groonga's functions: escaping the characters of a C string, escaping a query, and the texts of numbers.\<close>

record escape_env =
  grn_expr_syntax_escape :: "string \<Rightarrow> string \<Rightarrow> char \<Rightarrow> string"
  grn_expr_syntax_escape_query :: "string \<Rightarrow> string"
  number_text :: "item_result \<Rightarrow> string \<Rightarrow> string"

datatype escape_error = Escape_not_initialized | Escape_argument_count | Escape_script_row | Escape_query_type | Escape_target_type

definition mroonga_escape_init :: "bool \<Rightarrow> udf_arg list \<Rightarrow> escape_error + escape_info" where
  "mroonga_escape_init initialized args =
     (if \<not> initialized then Inl Escape_not_initialized
      else if \<not> (1 \<le> length args \<and> length args \<le> 2) then Inl Escape_argument_count
      else let a = hd args; script = (attribute a = ''script'') in
        if script \<and> arg_type a = ROW_RESULT then Inl Escape_script_row
        else if \<not> script \<and> arg_type a \<noteq> STRING_RESULT then Inl Escape_query_type
        else if length args = 2 \<and> arg_type (args ! 1) \<noteq> STRING_RESULT then Inl Escape_target_type
        else Inr \<lparr>script_mode = script, target_characters = [], escaped_value = []\<rparr>)"

text \<open>The characters to escape are appended to the buffer of the function, which is never rewound. A NULL has
  length 0.\<close>

definition arg_text :: "udf_arg \<Rightarrow> string" where
  "arg_text a = (case arg a of None \<Rightarrow> [] | Some s \<Rightarrow> s)"

definition escape :: "escape_env \<Rightarrow> udf_arg list \<Rightarrow> escape_info \<Rightarrow> escape_info" where
  "escape env args info =
     (let a = hd args; v = arg_text a in
      if script_mode info then
        (if arg_type a = STRING_RESULT then
           let special = (if length args = 2 then c_str (arg_text (args ! 1) @ [NUL]) else [DOUBLE_QUOTE, ESCAPE])
           in info\<lparr>escaped_value := DOUBLE_QUOTE # grn_expr_syntax_escape env v special ESCAPE @ [DOUBLE_QUOTE]\<rparr>
         else if arg_type a = ROW_RESULT then info\<lparr>escaped_value := []\<rparr>
         else info\<lparr>escaped_value := number_text env (arg_type a) v\<rparr>)
      else if length args = 2 then
        let targets = target_characters info @ arg_text (args ! 1) @ [NUL]
        in info\<lparr>target_characters := targets, escaped_value := grn_expr_syntax_escape env v (c_str targets) ESCAPE\<rparr>
      else info\<lparr>escaped_value := grn_expr_syntax_escape_query env v\<rparr>)"

datatype escape_result = Escape_null | Escape_failed | Escaped string

definition mroonga_escape :: "escape_env \<Rightarrow> bool \<Rightarrow> udf_arg list \<Rightarrow> escape_info \<Rightarrow> escape_result \<times> escape_info" where
  "mroonga_escape env groonga_ok args info =
     (if arg (hd args) = None then (Escape_null, info)
      else let info' = escape env args info
           in (if groonga_ok then Escaped (escaped_value info') else Escape_failed, info'))"

section \<open>Reading a command\<close>

text \<open>The syntax of Groonga's commands: a value in double quotes is read character by character, a backslash
  escapes the next byte, and \<^verbatim>\<open>\n\<close> is a newline. The result is the value and the text behind it.\<close>

function read_value :: "(string \<Rightarrow> nat) \<Rightarrow> string \<Rightarrow> (string \<times> string) option" where
  "read_value charlen t =
     (if t = [] \<or> charlen t = 0 then None
      else if charlen t = 1 then
        (if hd t = DOUBLE_QUOTE then Some ([], tl t)
         else if hd t = ESCAPE then
           (case tl t of
              [] \<Rightarrow> None
            | d # ds \<Rightarrow> map_option (\<lambda>(v, r). ((if d = CHR ''n'' then NEWLINE else d) # v, r)) (read_value charlen ds))
         else map_option (\<lambda>(v, r). (hd t # v, r)) (read_value charlen (tl t)))
      else map_option (\<lambda>(v, r). (take (charlen t) t @ v, r)) (read_value charlen (drop (charlen t) t)))"
  by pat_completeness auto
termination
proof (relation "measure (\<lambda>(charlen, t). length t)")
  fix charlen :: "string \<Rightarrow> nat" and t d ds
  assume "tl t = d # ds"
  then show "((charlen, ds), charlen, t) \<in> measure (\<lambda>(charlen, t). length t)" by (cases t) auto
qed auto

declare read_value.simps [simp del]

text \<open>The arguments behind the name of the command, with fuel for the number of arguments.\<close>

fun read_args :: "nat \<Rightarrow> (string \<Rightarrow> nat) \<Rightarrow> string \<Rightarrow> (string \<times> string) list option" where
  "read_args 0 charlen t = (if t = [] then Some [] else None)"
| "read_args (Suc fuel) charlen t =
     (if t = [] then Some []
      else if take 3 t \<noteq> '' --'' then None
      else let n = takeWhile (\<lambda>c. c \<noteq> CHR '' '') (drop 3 t); r = drop (3 + length n) t in
        if take 2 r \<noteq> [CHR '' '', DOUBLE_QUOTE] then None
        else case read_value charlen (drop 2 r) of
          None \<Rightarrow> None
        | Some (v, r') \<Rightarrow> map_option (\<lambda>more_args. (n, v) # more_args) (read_args fuel charlen r'))"

section \<open>Properties\<close>

text \<open>What the commands rely on: the length of a character depends on its own bytes only, a character has no more
  bytes than the text, and the quote and the backslash are characters of one byte.\<close>

definition charlen_promise :: "(string \<Rightarrow> nat) \<Rightarrow> bool" where
  "charlen_promise charlen \<longleftrightarrow>
     (\<forall>t. charlen t \<le> length t) \<and>
     (\<forall>t u. 0 < charlen t \<longrightarrow> charlen (take (charlen t) t @ u) = charlen t) \<and>
     (\<forall>c u. c \<in> {DOUBLE_QUOTE, ESCAPE} \<longrightarrow> charlen (c # u) = 1)"

text \<open>A text of complete characters.\<close>

function valid_text :: "(string \<Rightarrow> nat) \<Rightarrow> string \<Rightarrow> bool" where
  "valid_text charlen v = (if v = [] then True else if charlen v = 0 then False else valid_text charlen (drop (charlen v) v))"
  by pat_completeness auto
termination by (relation "measure (\<lambda>(charlen, v). length v)") auto

declare valid_text.simps [simp del]

lemma read_value_quote:
  "charlen_promise charlen \<Longrightarrow> read_value charlen (DOUBLE_QUOTE # r) = Some ([], r)"
  by (subst read_value.simps) (simp add: charlen_promise_def)

lemma read_value_escape:
  assumes "charlen_promise charlen"
  shows "read_value charlen (ESCAPE # d # ds) = map_option (\<lambda>(v, r). ((if d = CHR ''n'' then NEWLINE else d) # v, r)) (read_value charlen ds)"
  using assms by (subst read_value.simps) (simp add: charlen_promise_def)

lemma read_escaped_value:
  assumes ok: "charlen_promise charlen"
  shows "valid_text charlen v \<Longrightarrow> read_value charlen (escape_value_loop charlen v @ DOUBLE_QUOTE # r) = Some (v, r)"
proof (induction "length v" arbitrary: v rule: less_induct)
  case less
  let ?rest = "\<lambda>u. escape_value_loop charlen u @ DOUBLE_QUOTE # r"
  show ?case
  proof (cases "v = []")
    case True
    then show ?thesis using read_value_quote [OF ok] by (subst escape_value_loop.simps) simp
  next
    case False
    define n where "n = charlen v"
    have n: "0 < n" "n \<le> length v" "valid_text charlen (drop n v)"
      using less.prems False ok by (auto simp: n_def valid_text.simps [of charlen v] charlen_promise_def split: if_splits)
    have local: "charlen (take n v @ u) = n" for u using ok n(1) by (simp add: n_def charlen_promise_def)
    have ih: "read_value charlen (?rest (drop n v)) = Some (drop n v, r)" using less.hyps n by simp
    show ?thesis
    proof (cases "n = 1")
      case True
      then obtain c cs where c: "v = c # cs" using False by (cases v) auto
      have "escape_value_loop charlen v = escape_byte c @ escape_value_loop charlen cs"
        using True c by (subst escape_value_loop.simps) (simp add: n_def)
      moreover have "read_value charlen (c # ?rest cs) = Some (c # cs, r)" if "c \<noteq> ESCAPE" "c \<noteq> DOUBLE_QUOTE"
        using local [of "?rest cs"] True c ih that by (subst read_value.simps) simp
      ultimately show ?thesis
        using ih True c read_value_escape [OF ok] by (auto simp: escape_byte_def)
    next
      case more: False
      have "escape_value_loop charlen v = take n v @ escape_value_loop charlen (drop n v)"
        using False more n(1) by (subst escape_value_loop.simps) (simp add: n_def)
      moreover have "read_value charlen (take n v @ ?rest (drop n v)) = Some (v, r)"
        using local [of "?rest (drop n v)"] n(1,2) more False ih by (subst read_value.simps) simp
      ultimately show ?thesis by simp
    qed
  qed
qed

text \<open>C40: no value can break out of its argument. For names without blanks and values of complete characters, the
  text that \<^verbatim>\<open>mroonga_command\<close> builds from pairs of names and values is read by the syntax of Groonga's commands
  as exactly these names and values, in every encoding where quotes and backslashes are characters of one byte.\<close>

theorem command_args_roundtrip:
  assumes "charlen_promise charlen"
    and "\<forall>(n, v) \<in> set nvs. CHR '' '' \<notin> set n \<and> valid_text charlen v"
  shows "\<exists>t. command_args charlen (concat (map (\<lambda>(n, v). [Some n, Some v]) nvs)) = Some t \<and> read_args (length nvs) charlen t = Some nvs"
  using assms(2)
proof (induction nvs)
  case (Cons nv nvs)
  obtain n v where nv: "nv = (n, v)" by (cases nv)
  obtain t where t: "command_args charlen (concat (map (\<lambda>(n, v). [Some n, Some v]) nvs)) = Some t" "read_args (length nvs) charlen t = Some nvs"
    using Cons by auto
  have n: "CHR '' '' \<notin> set n" and v: "valid_text charlen v" using Cons.prems nv by auto
  let ?t = "'' --'' @ n @ '' '' @ mroonga_command_escape_value charlen v @ t"
  have name: "takeWhile (\<lambda>c. c \<noteq> CHR '' '') (n @ CHR '' '' # u) = n" for u
    using n by (subst takeWhile_append2) auto
  have "read_args (Suc (length nvs)) charlen ?t = Some ((n, v) # nvs)"
    using t(2) read_escaped_value [OF assms(1) v, of t]
    by (simp add: mroonga_command_escape_value_def name Let_def numeral_2_eq_2 numeral_3_eq_3)
  then show ?case using t(1) nv by simp
qed simp

theorem command_args_roundtrip_witness:
  "\<exists>t. command_args (\<lambda>t. min 1 (length t)) [Some ''table'', Some ''a\" --x \"b''] = Some t
     \<and> read_args 1 (\<lambda>t. min 1 (length t)) t = Some [(''table'', ''a\" --x \"b'')]"
proof -
  have "charlen_promise (\<lambda>t. min 1 (length t))" by (auto simp: charlen_promise_def min_def Suc_le_eq)
  moreover have "valid_text (\<lambda>t. min 1 (length t)) v" for v
    by (induction v) (simp_all add: valid_text.simps)
  ultimately show ?thesis
    using command_args_roundtrip [of "\<lambda>t. min 1 (length t)" "[(''table'', ''a\" --x \"b'')]"] by simp
qed

text \<open>A context that was given back to the pool because no database could be opened stays associated with the
  session: killing the query of that session cancels whoever uses the context then.\<close>

lemma failed_command_stays_associated:
  assumes "args \<noteq> []" "odd (length args)" "check_string_args 0 args = Some (Inr ())"
  shows "\<exists>s'. mroonga_command_init True False c args s = Some (Inl Command_no_database, s') \<and> c \<in> set (pooled s') \<and> c \<in> set (associated s')"
  using assms by (auto simp: mroonga_command_init_def Let_def even_iff_mod_2_eq_zero)

text \<open>A command that was prepared leaves no trace behind.\<close>

lemma command_session_restored:
  assumes "mroonga_command_init True True c args s = Some (Inr c', s')" "c \<notin> set (associated s)"
  shows "c' = c \<and> associated (mroonga_command_deinit c s') = associated s \<and> set (pooled (mroonga_command_deinit c s')) = insert c (set (pooled s))"
proof -
  have "c' = c" "s' = s\<lparr>pooled := remove1 c (pooled s), associated := associated s @ [c]\<rparr>"
    using assms(1) by (auto simp: mroonga_command_init_def Let_def split: if_splits option.splits sum.splits)
  moreover have "insert c (set (remove1 c (pooled s))) = insert c (set (pooled s))"
    using set_remove1_subset [of c "pooled s"] in_set_remove1 [of _ c "pooled s"] by blast
  ultimately show ?thesis using assms(2) by (auto simp: mroonga_command_deinit_def filter_id_conv)
qed

text \<open>The characters to escape in the first row stay in force for all rows: what later rows give is appended
  behind the terminating byte and never read.\<close>

lemma first_targets_stay:
  assumes "mroonga_escape_init True args = Inr info" "attribute (hd args) \<noteq> ''script''" "length args = 2"
    and "arg (hd row1) \<noteq> None" "arg (hd row2) = Some q" "length row1 = 2" "length row2 = 2"
    and "NUL \<notin> set (arg_text (row1 ! 1))"
    and "mroonga_escape env True row1 info = (r1, info1)" "mroonga_escape env True row2 info1 = (r2, info2)"
  shows "r2 = Escaped (grn_expr_syntax_escape env q (arg_text (row1 ! 1)) ESCAPE)"
proof -
  have info: "info = \<lparr>script_mode = False, target_characters = [], escaped_value = []\<rparr>"
    using assms(1-3) by (auto simp: mroonga_escape_init_def Let_def split: if_splits)
  have i1: "target_characters info1 = arg_text (row1 ! 1) @ [NUL]" "\<not> script_mode info1"
    using assms(4,6,9) by (auto simp: info mroonga_escape_def escape_def Let_def)
  have "c_str ((arg_text (row1 ! 1) @ [NUL]) @ u) = arg_text (row1 ! 1)" for u
    using assms(8) by (simp add: c_str_def takeWhile_tail takeWhile_append)
  then show ?thesis using assms(5,7,10) i1 by (auto simp: mroonga_escape_def escape_def Let_def arg_text_def)
qed

end
