(* ===== verification/Udf_Session.thy ===== *)
theory Udf_Session
  imports Udf_Highlight Encoding "HOL-Library.Monad_Syntax"
begin

text \<open>
  What a user defined function holds while a statement runs: contexts of the pool and objects of Groonga, which have handles. Closing a
  handle that is not open is a fault, the value \<^const>\<open>None\<close>. MySQL calls the init function once, then the function for every row and, when
  the init function succeeded, the deinit function (\<^verbatim>\<open>udf/mrn_udf_*.cpp\<close>).
\<close>

section \<open>Contexts and objects\<close>

record udf_world =
  contexts :: nat
  live :: "nat list"
  next_handle :: nat

definition pull_context :: "udf_world \<Rightarrow> udf_world" where
  "pull_context w = w\<lparr>contexts := contexts w + 1\<rparr>"

definition release_context :: "udf_world \<Rightarrow> udf_world" where
  "release_context w = w\<lparr>contexts := contexts w - 1\<rparr>"

definition open_handle :: "udf_world \<Rightarrow> nat \<times> udf_world" where
  "open_handle w = (next_handle w, w\<lparr>live := next_handle w # live w, next_handle := next_handle w + 1\<rparr>)"

definition close_handle :: "nat \<Rightarrow> udf_world \<Rightarrow> udf_world option" where
  "close_handle h w = (if h \<in> set (live w) then Some (w\<lparr>live := remove1 h (live w)\<rparr>) else None)"

text \<open>A pointer that may be null: \<^verbatim>\<open>if (p) grn_obj_close(ctx, p)\<close>.\<close>

definition close_slot :: "nat option \<Rightarrow> udf_world \<Rightarrow> udf_world option" where
  "close_slot s w = (case s of None \<Rightarrow> Some w | Some h \<Rightarrow> close_handle h w)"

fun close_slots :: "nat option list \<Rightarrow> udf_world \<Rightarrow> udf_world option" where
  "close_slots [] w = Some w"
| "close_slots (s # ss) w = Option.bind (close_slot s w) (close_slots ss)"

text \<open>The database of the session, when there is one and it opens, or an anonymous one that the function owns. The result is \<^const>\<open>None\<close>
  without a database, and otherwise the handle of the database that is to be closed.\<close>

datatype current_database = Shared_database | Unopenable_database | Anonymous_database | No_anonymous_database

definition attach_database :: "current_database \<Rightarrow> udf_world \<Rightarrow> nat option option \<times> udf_world" where
  "attach_database d w = (case d of
      Shared_database \<Rightarrow> (Some None, w)
    | Anonymous_database \<Rightarrow> (case open_handle w of (h, w1) \<Rightarrow> (Some (Some h), w1))
    | _ \<Rightarrow> (None, w))"

section \<open>Statements\<close>

datatype udf_row = Row_text string | Row_null | Row_failed

fun run_rows :: "('i \<Rightarrow> 'a \<Rightarrow> udf_world \<Rightarrow> ('r \<times> 'i \<times> udf_world) option) \<Rightarrow> 'a list \<Rightarrow> 'i \<Rightarrow> udf_world \<Rightarrow> ('r list \<times> 'i \<times> udf_world) option" where
  "run_rows row [] info w = Some ([], info, w)"
| "run_rows row (a # as) info w = do {
     (r, info1, w1) \<leftarrow> row info a w;
     (rs, info2, w2) \<leftarrow> run_rows row as info1 w1;
     Some (r # rs, info2, w2) }"

definition run_statement ::
    "('a \<Rightarrow> udf_world \<Rightarrow> (('e + 'i) \<times> udf_world) option) \<Rightarrow> ('i \<Rightarrow> 'a \<Rightarrow> udf_world \<Rightarrow> ('r \<times> 'i \<times> udf_world) option) \<Rightarrow>
     ('i \<Rightarrow> udf_world \<Rightarrow> udf_world option) \<Rightarrow> 'a \<Rightarrow> 'a list \<Rightarrow> udf_world \<Rightarrow> (('e + 'r list) \<times> udf_world) option" where
  "run_statement init row deinit a as w = do {
     (r, w1) \<leftarrow> init a w;
     (case r of
        Inl e \<Rightarrow> Some (Inl e, w1)
      | Inr info \<Rightarrow> do {
          (rs, info2, w2) \<leftarrow> run_rows row as info w1;
          w3 \<leftarrow> deinit info2 w2;
          Some (Inr rs, w3) }) }"

section \<open>Balance\<close>

definition world_ok :: "udf_world \<Rightarrow> bool" where
  "world_ok w \<longleftrightarrow> distinct (live w) \<and> (\<forall>h\<in>set (live w). h < next_handle w)"

definition same_resources :: "udf_world \<Rightarrow> udf_world \<Rightarrow> bool" where
  "same_resources w w' \<longleftrightarrow> contexts w' = contexts w \<and> set (live w') = set (live w)"

text \<open>The handles of an information block, and what it holds besides the world before it.\<close>

definition owned :: "nat option list \<Rightarrow> nat list" where
  "owned ss = List.map_filter (\<lambda>s. s) ss"

lemma owned_simps [simp]: "owned [] = []" "owned (None # ss) = owned ss" "owned (Some h # ss) = h # owned ss"
  by (simp_all add: owned_def List.map_filter_simps)

lemma distinct_owned_one [simp]: "distinct (owned [s])"
  by (cases s) auto

definition holds :: "nat option list \<Rightarrow> udf_world \<Rightarrow> udf_world \<Rightarrow> bool" where
  "holds ss w w' \<longleftrightarrow> world_ok w' \<and> contexts w' = Suc (contexts w) \<and> distinct (owned ss) \<and> set (owned ss) \<inter> set (live w) = {}
     \<and> set (live w') = set (owned ss) \<union> set (live w)"

lemma not_Some_pair [simp]: "(\<forall>x y. p \<noteq> Some (x, y)) \<longleftrightarrow> p = None"
  by (cases p) auto

lemma world_ok_open: "world_ok w \<Longrightarrow> open_handle w = (h, w') \<Longrightarrow> world_ok w' \<and> h \<notin> set (live w) \<and> set (live w') = insert h (set (live w))
    \<and> contexts w' = contexts w"
  by (auto simp: world_ok_def open_handle_def less_Suc_eq)

lemma world_ok_close:
  "world_ok w \<Longrightarrow> h \<in> set (live w) \<Longrightarrow>
     \<exists>w'. close_handle h w = Some w' \<and> world_ok w' \<and> set (live w') = set (live w) - {h} \<and> contexts w' = contexts w"
  by (simp add: world_ok_def close_handle_def set_remove1_eq)

lemma world_ok_contexts [simp]: "world_ok (pull_context w) = world_ok w" "world_ok (release_context w) = world_ok w"
  "live (pull_context w) = live w" "live (release_context w) = live w" "contexts (pull_context w) = Suc (contexts w)"
  "contexts (release_context w) = contexts w - 1"
  by (simp_all add: world_ok_def pull_context_def release_context_def)

lemma close_slots_owned:
  "world_ok w \<Longrightarrow> distinct (owned ss) \<Longrightarrow> set (owned ss) \<subseteq> set (live w) \<Longrightarrow>
     \<exists>w'. close_slots ss w = Some w' \<and> world_ok w' \<and> set (live w') = set (live w) - set (owned ss) \<and> contexts w' = contexts w"
proof (induction ss arbitrary: w)
  case (Cons s ss)
  show ?case
  proof (cases s)
    case None
    then show ?thesis using Cons by (simp add: close_slot_def)
  next
    case (Some h)
    obtain w1 where one: "close_handle h w = Some w1" "world_ok w1" "set (live w1) = set (live w) - {h}" "contexts w1 = contexts w"
      using world_ok_close [OF Cons.prems(1), of h] Cons.prems(3) Some by auto
    have "distinct (owned ss)" "set (owned ss) \<subseteq> set (live w1)" using Cons.prems(2,3) Some one(3) by auto
    then obtain w' where "close_slots ss w1 = Some w'" "world_ok w'" "set (live w') = set (live w1) - set (owned ss)" "contexts w' = contexts w1"
      using Cons.IH [OF one(2)] by blast
    then show ?thesis using one Some by (auto simp: close_slot_def)
  qed
qed simp

lemma attach_database_cases:
  assumes "world_ok w" "attach_database d w = (r, w')"
  shows "(r = None \<longrightarrow> w' = w) \<and> (\<forall>own. r = Some own \<longrightarrow> world_ok w' \<and> contexts w' = contexts w
    \<and> set (owned [own]) \<inter> set (live w) = {} \<and> set (live w') = set (owned [own]) \<union> set (live w))"
proof (cases "d = Anonymous_database")
  case True
  obtain h w1 where h: "open_handle w = (h, w1)" by force
  then have "r = Some (Some h)" "w' = w1" using assms(2) True by (simp_all add: attach_database_def)
  then show ?thesis using world_ok_open [OF assms(1) h] by simp
next
  case False
  then have "w' = w" "r = None \<or> r = Some None" using assms(2) by (simp_all add: attach_database_def split: current_database.splits)
  then show ?thesis using assms(1) by auto
qed

text \<open>A preparation opens one handle, or none when it fails.\<close>

definition opens_one :: "udf_world \<Rightarrow> nat option \<Rightarrow> udf_world \<Rightarrow> bool" where
  "opens_one w s w' \<longleftrightarrow> world_ok w' \<and> contexts w' = contexts w \<and> set (owned [s]) \<inter> set (live w) = {} \<and> set (live w') = set (owned [s]) \<union> set (live w)"

lemma opens_one_none: "world_ok w \<Longrightarrow> opens_one w None w"
  by (simp add: opens_one_def)

lemma opens_one_handle: "world_ok w \<Longrightarrow> open_handle w = (h, w') \<Longrightarrow> opens_one w (Some h) w'"
  using world_ok_open [of w h w'] by (auto simp: opens_one_def)

lemma open_close_one: "world_ok w \<Longrightarrow> open_handle w = (h, w1) \<Longrightarrow> close_handle h w1 = Some w2 \<Longrightarrow> opens_one w None w2"
  using world_ok_open [of w h w1] world_ok_close [of w1 h] by (auto simp: opens_one_def)

lemma holds_two:
  assumes "opens_one (pull_context w) own w1" "opens_one w1 s w2"
  shows "holds [s, own] w w2"
  using assms by (cases s; cases own) (auto simp: holds_def opens_one_def)

lemma attach_database_one:
  assumes "world_ok w" "attach_database d w = (Some own, w')"
  shows "opens_one w own w'"
  using attach_database_cases [OF assms] assms by (auto simp: opens_one_def)

lemma attach_database_failed: "attach_database d w = (None, w') \<Longrightarrow> w' = w"
  by (auto simp: attach_database_def split: current_database.splits prod.splits)

lemma released:
  assumes "opens_one (pull_context w) own w1" "opens_one w1 None w2" "close_slot own w2 = Some w3"
  shows "same_resources w (release_context w3)"
proof (cases own)
  case (Some h)
  then show ?thesis using assms world_ok_close [of w2 h] by (fastforce simp: same_resources_def opens_one_def close_slot_def)
qed (use assms in \<open>auto simp: same_resources_def opens_one_def close_slot_def\<close>)

text \<open>The interface of a function to the server: what it holds after the init function, what a row changes when there is nothing left to
  prepare for it, and what the deinit function closes.\<close>

locale udf =
  fixes init :: "'a \<Rightarrow> udf_world \<Rightarrow> (('e + 'i) \<times> udf_world) option"
    and row :: "'i \<Rightarrow> 'a \<Rightarrow> udf_world \<Rightarrow> ('r \<times> 'i \<times> udf_world) option"
    and deinit :: "'i \<Rightarrow> udf_world \<Rightarrow> udf_world option"
    and slots :: "'i \<Rightarrow> nat option list"
    and prepared :: "'i \<Rightarrow> bool"
  assumes init_holds: "world_ok w \<Longrightarrow> init a w = Some (Inr info, w') \<Longrightarrow> holds (slots info) w w'"
    and row_keeps: "prepared info \<Longrightarrow> row info a w = Some (r, info', w') \<Longrightarrow> info' = info \<and> w' = w"
    and deinit_closes: "deinit info w = map_option release_context (close_slots (slots info) w)"
begin

lemma rows_keep: "prepared info \<Longrightarrow> run_rows row as info w = Some (rs, info', w') \<Longrightarrow> info' = info \<and> w' = w"
proof (induction as arbitrary: rs)
  case (Cons a as)
  then obtain r info1 w1 rs' where r: "row info a w = Some (r, info1, w1)" "run_rows row as info1 w1 = Some (rs', info', w')"
    by (auto simp: bind_eq_Some_conv)
  then show ?case using row_keeps [OF Cons.prems(1) r(1)] Cons.IH [OF Cons.prems(1)] by blast
qed simp

lemma deinit_returns:
  assumes "holds (slots info) w w'"
  shows "\<exists>w''. deinit info w' = Some w'' \<and> same_resources w w''"
  using close_slots_owned [of w' "slots info"] assms by (fastforce simp: deinit_closes holds_def same_resources_def)

lemma statement_balanced:
  assumes "world_ok w" "init a w = Some (Inr info, w1)" "prepared info" "run_rows row as info w1 = Some (rs, info2, w2)"
  shows "\<exists>w'. run_statement init row deinit a as w = Some (Inr rs, w') \<and> same_resources w w'"
  using deinit_returns [OF init_holds [OF assms(1,2)]] assms(2,4) rows_keep [OF assms(3,4)] by (auto simp: run_statement_def)

end

text \<open>A function whose init function gives everything back when it fails.\<close>

locale clean_udf = udf +
  assumes init_error: "world_ok w \<Longrightarrow> init a w = Some (Inl e, w') \<Longrightarrow> same_resources w w'"
begin

lemma any_statement_balanced:
  assumes "world_ok w" "\<And>info w1. init a w = Some (Inr info, w1) \<Longrightarrow> prepared info" "run_statement init row deinit a as w = Some (r, w')"
  shows "same_resources w w'"
proof -
  obtain r1 w1 where i: "init a w = Some (r1, w1)" using assms(3) by (auto simp: run_statement_def bind_eq_Some_conv)
  show ?thesis
  proof (cases r1)
    case (Inl e)
    then show ?thesis using init_error [OF assms(1)] i assms(3) by (auto simp: run_statement_def)
  next
    case (Inr info)
    then obtain rs info2 w2 where rows: "run_rows row as info w1 = Some (rs, info2, w2)"
      using assms(3) i by (auto simp: run_statement_def bind_eq_Some_conv)
    obtain w2 where "run_statement init row deinit a as w = Some (Inr rs, w2)" "same_resources w w2"
      using statement_balanced [OF assms(1) i [unfolded Inr] assms(2) [OF i [unfolded Inr]] rows] by blast
    then show ?thesis using assms(3) by simp
  qed
qed

end

text \<open>The loop over the results of a snippet; \<^const>\<open>None\<close> when one of them cannot be read.\<close>

fun put_results :: "string \<Rightarrow> string \<Rightarrow> string option list \<Rightarrow> string option" where
  "put_results op cl [] = Some []"
| "put_results op cl (None # rs) = None"
| "put_results op cl (Some r # rs) = map_option (\<lambda>s. op @ r @ cl @ s) (put_results op cl rs)"

lemma put_results_all: "put_results op cl (map Some rs) = Some (concat (map (\<lambda>r. op @ r @ cl) rs))"
  by (induction rs) auto

end
