(* ===== verification/Udf_Snippet.thy ===== *)
theory Udf_Snippet
  imports Udf_Session
begin

text \<open>
  The user defined function \<^verbatim>\<open>mroonga_snippet\<close> (\<^verbatim>\<open>udf/mrn_udf_snippet.cpp\<close>). Groonga's snippets are parameters: whether one opens, whether
  it takes a condition and what it returns for a text; MySQL's charsets are parameters, their encodings those of \<^verbatim>\<open>Encoding\<close>. A null pointer
  that is read or written, and an argument that is not there, are \<^const>\<open>None\<close>.
\<close>

section \<open>Arguments\<close>

datatype pointer = Null | is_Text: Text string | is_Number: Number "64 word"

record snippet_arg =
  sa_type :: item_result
  sa_value :: pointer

definition sa_text :: "snippet_arg list \<Rightarrow> nat \<Rightarrow> string option" where
  "sa_text args i = (if i < length args then (case sa_value (args ! i) of Text s \<Rightarrow> Some s | _ \<Rightarrow> None) else None)"

definition sa_number :: "snippet_arg list \<Rightarrow> nat \<Rightarrow> 64 word option" where
  "sa_number args i = (if i < length args then (case sa_value (args ! i) of Number n \<Rightarrow> Some n | _ \<Rightarrow> None) else None)"

section \<open>Preparation\<close>

record snippet =
  snip_normalize :: bool
  skip_leading_spaces :: bool
  snip_width :: "32 word"
  snip_max_results :: "32 word"
  snip_html_escape :: bool
  snip_conditions :: "(string \<times> string \<times> string) list"

record snippet_env =
  get_charset_by_name :: "string \<Rightarrow> charset option"
  get_charset :: "32 word \<Rightarrow> charset option"
  encodings :: encoding_globals
  snip_opens :: "snippet \<Rightarrow> bool"
  takes_condition :: "snippet \<Rightarrow> string \<times> string \<times> string \<Rightarrow> bool"
  snip_exec :: "snippet \<Rightarrow> string \<Rightarrow> string option list option"

definition snippet_charset :: "snippet_env \<Rightarrow> snippet_arg list \<Rightarrow> charset option option" where
  "snippet_charset env args =
     (if sa_type (args ! 3) = STRING_RESULT then map_option (get_charset_by_name env) (sa_text args 3)
      else map_option (\<lambda>n. get_charset env (ucast n)) (sa_number args 3))"

text \<open>The loop over keywords with their tags.\<close>

fun add_conditions :: "snippet_env \<Rightarrow> snippet_arg list \<Rightarrow> snippet \<Rightarrow> snippet option option" where
  "add_conditions env [] sn = Some (Some sn)"
| "add_conditions env (k # op # cl # rest) sn =
     (case (sa_value k, sa_value op, sa_value cl) of
        (Text k', Text op', Text cl') \<Rightarrow>
          if \<not> takes_condition env sn (k', op', cl') then Some None
          else add_conditions env rest (sn\<lparr>snip_conditions := snip_conditions sn @ [(k', op', cl')]\<rparr>)
      | _ \<Rightarrow> None)"
| "add_conditions env _ sn = None"

definition new_snippet :: "charset \<Rightarrow> 64 word \<Rightarrow> 64 word \<Rightarrow> 64 word \<Rightarrow> 64 word \<Rightarrow> snippet" where
  "new_snippet cs max_len max_num skip escape =
     \<lparr>snip_normalize = (\<not> (MY_CS_BINSORT cs \<or> MY_CS_CSSORT cs)), skip_leading_spaces = (skip \<noteq> 0), snip_width = ucast max_len,
      snip_max_results = ucast max_num, snip_html_escape = (escape \<noteq> 0), snip_conditions = []\<rparr>"

text \<open>Every error is written to the message buffer, which is null when a row is prepared. The result is a snippet with its handle, or an
  error.\<close>

abbreviation prepare_error :: "bool \<Rightarrow> udf_world \<Rightarrow> ((nat \<times> snippet) option \<times> udf_world) option" where
  "prepare_error message w \<equiv> (if message then Some (None, w) else None)"

definition mrn_snippet_open :: "snippet_env \<Rightarrow> bool \<Rightarrow> snippet_arg list \<Rightarrow> snippet \<Rightarrow> udf_world \<Rightarrow> ((nat \<times> snippet) option \<times> udf_world) option" where
  "mrn_snippet_open env message args sn w =
     (if \<not> snip_opens env sn then prepare_error message w
      else (case open_handle w of (h, w1) \<Rightarrow> do {
          added \<leftarrow> add_conditions env (drop 8 args) sn;
          (case added of
             Some sn' \<Rightarrow> Some (Some (h, sn'), w1)
           | None \<Rightarrow> Option.bind (close_handle h w1) (prepare_error message)) }))"

definition mrn_snippet_prepare :: "snippet_env \<Rightarrow> bool \<Rightarrow> snippet_arg list \<Rightarrow> udf_world \<Rightarrow> ((nat \<times> snippet) option \<times> udf_world) option" where
  "mrn_snippet_prepare env message args w = do {
     max_len \<leftarrow> sa_number args 1;
     max_num \<leftarrow> sa_number args 2;
     charset \<leftarrow> snippet_charset env args;
     (case charset of
        None \<Rightarrow> prepare_error message w
      | Some cs \<Rightarrow> do {
          (supported, enc) \<leftarrow> set_raw (encodings env) (Some cs);
          (if \<not> supported then prepare_error message w
           else do {
             skip \<leftarrow> sa_number args 4;
             escape \<leftarrow> sa_number args 5;
             mrn_snippet_open env message args (new_snippet cs max_len max_num skip escape) w }) }) }"

datatype snippet_error = Snippet_not_initialized | Snippet_wrong_number nat | Snippet_wrong_type nat | Snippet_no_database | Snippet_not_prepared

definition snippet_type_ok :: "nat \<Rightarrow> item_result \<Rightarrow> bool" where
  "snippet_type_ok i t =
     (if i = 3 then t = STRING_RESULT \<or> t = INT_RESULT else if i \<in> {1, 2, 4, 5} then t = INT_RESULT else t = STRING_RESULT)"

definition wrong_snippet_type :: "snippet_arg list \<Rightarrow> nat option" where
  "wrong_snippet_type args = find (\<lambda>i. \<not> snippet_type_ok i (sa_type (args ! i))) [0 ..< length args]"

record snip_info =
  si_database :: "nat option"
  si_snippet :: "(nat \<times> snippet) option"

definition mroonga_snippet_init ::
    "snippet_env \<Rightarrow> bool \<Rightarrow> current_database \<Rightarrow> snippet_arg list \<Rightarrow> udf_world \<Rightarrow> ((snippet_error + snip_info) \<times> udf_world) option" where
  "mroonga_snippet_init env initialized d args w =
     (if \<not> initialized then Some (Inl Snippet_not_initialized, w)
      else if length args < 11 \<or> (length args - 11) mod 3 \<noteq> 0 then Some (Inl (Snippet_wrong_number (length args)), w)
      else case wrong_snippet_type args of Some i \<Rightarrow> Some (Inl (Snippet_wrong_type i), w)
      | None \<Rightarrow> (case attach_database d (pull_context w) of
          (None, w1) \<Rightarrow> Some (Inl Snippet_no_database, release_context w1)
        | (Some own, w1) \<Rightarrow>
            if list_all (\<lambda>a. sa_value a \<noteq> Null) (tl args) then do {
              (p, w2) \<leftarrow> mrn_snippet_prepare env True args w1;
              (case p of
                 None \<Rightarrow> map_option (\<lambda>w3. (Inl Snippet_not_prepared, release_context w3)) (close_slot own w2)
               | Some hs \<Rightarrow> Some (Inr \<lparr>si_database = own, si_snippet = Some hs\<rparr>, w2)) }
            else Some (Inr \<lparr>si_database = own, si_snippet = None\<rparr>, w1)))"

section \<open>Rows\<close>

text \<open>The results of Groonga between the tags of the seventh and the eighth argument. A snippet of this row is closed only at the end.\<close>

definition snippet_row ::
    "snippet_env \<Rightarrow> snip_info \<Rightarrow> snippet_arg list \<Rightarrow> string \<Rightarrow> nat \<times> snippet \<Rightarrow> udf_world \<Rightarrow> (udf_row \<times> snip_info \<times> udf_world) option" where
  "snippet_row env info args target hs w =
     (if fst hs \<notin> set (live w) then None
      else case snip_exec env (snd hs) target of
        None \<Rightarrow> Some (Row_failed, info, w)
      | Some results \<Rightarrow> do {
          op \<leftarrow> sa_text args 6;
          cl \<leftarrow> sa_text args 7;
          (case put_results op cl results of
             None \<Rightarrow> Some (Row_failed, info, w)
           | Some out \<Rightarrow>
               if si_snippet info = None then map_option (\<lambda>w1. (Row_text out, info, w1)) (close_handle (fst hs) w)
               else Some (Row_text out, info, w)) })"

definition mroonga_snippet :: "snippet_env \<Rightarrow> snip_info \<Rightarrow> snippet_arg list \<Rightarrow> udf_world \<Rightarrow> (udf_row \<times> snip_info \<times> udf_world) option" where
  "mroonga_snippet env info args w = (case sa_value (hd args) of
      Null \<Rightarrow> Some (Row_null, info, w)
    | Number _ \<Rightarrow> None
    | Text target \<Rightarrow>
        (case si_snippet info of
           Some hs \<Rightarrow> snippet_row env info args target hs w
         | None \<Rightarrow>
             if \<not> list_all (\<lambda>a. sa_value a \<noteq> Null) (tl args) then Some (Row_failed, info, w)
             else do {
               (p, w1) \<leftarrow> mrn_snippet_prepare env False args w;
               (case p of None \<Rightarrow> Some (Row_failed, info, w1) | Some hs \<Rightarrow> snippet_row env info args target hs w1) }))"

definition mroonga_snippet_slots :: "snip_info \<Rightarrow> nat option list" where
  "mroonga_snippet_slots info = [map_option fst (si_snippet info), si_database info]"

definition mroonga_snippet_deinit :: "snip_info \<Rightarrow> udf_world \<Rightarrow> udf_world option" where
  "mroonga_snippet_deinit info w = map_option release_context (close_slots (mroonga_snippet_slots info) w)"

section \<open>Statements\<close>

lemma mrn_snippet_open_one:
  assumes "world_ok w" "mrn_snippet_open env message args sn w = Some (p, w')"
  shows "opens_one w (map_option fst p) w'"
proof (cases "snip_opens env sn")
  case False
  then show ?thesis using assms by (auto simp: mrn_snippet_open_def opens_one_none split: if_splits)
next
  case True
  obtain h w1 where h: "open_handle w = (h, w1)" by force
  show ?thesis
  proof (cases "add_conditions env (drop 8 args) sn")
    case (Some added)
    then show ?thesis
      using assms True h opens_one_handle [OF assms(1) h] open_close_one [OF assms(1) h]
      by (cases added) (auto simp: mrn_snippet_open_def bind_eq_Some_conv split: if_splits)
  qed (use assms True h in \<open>simp add: mrn_snippet_open_def\<close>)
qed

lemma mrn_snippet_prepare_one:
  assumes "world_ok w" "mrn_snippet_prepare env message args w = Some (p, w')"
  shows "opens_one w (map_option fst p) w'"
  using assms mrn_snippet_open_one [OF assms(1)] opens_one_none [OF assms(1)]
  by (auto simp: mrn_snippet_prepare_def bind_eq_Some_conv split: option.splits if_splits)

lemma mroonga_snippet_init_cases:
  assumes "mroonga_snippet_init env initialized d args w = Some (r, w')"
  obtains e where "r = Inl e" "w' = w"
  | "r = Inl Snippet_no_database" "w' = release_context (pull_context w)"
  | own w1 where "attach_database d (pull_context w) = (Some own, w1)" "r = Inr \<lparr>si_database = own, si_snippet = None\<rparr>" "w' = w1"
  | own w1 hs where "attach_database d (pull_context w) = (Some own, w1)" "mrn_snippet_prepare env True args w1 = Some (Some hs, w')"
      "r = Inr \<lparr>si_database = own, si_snippet = Some hs\<rparr>"
  | own w1 w2 w3 where "attach_database d (pull_context w) = (Some own, w1)" "mrn_snippet_prepare env True args w1 = Some (None, w2)"
      "close_slot own w2 = Some w3" "r = Inl Snippet_not_prepared" "w' = release_context w3"
  using assms attach_database_failed [of d "pull_context w"] unfolding mroonga_snippet_init_def
  by (auto simp: bind_eq_Some_conv split: if_splits option.splits prod.splits)

interpretation sn: clean_udf "mroonga_snippet_init env initialized d" "mroonga_snippet env" mroonga_snippet_deinit mroonga_snippet_slots
  "\<lambda>info. si_snippet info \<noteq> None" for env initialized d
proof
  fix w args info w'
  assume w: "world_ok w" and i: "mroonga_snippet_init env initialized d args w = Some (Inr info, w')"
  have p: "world_ok (pull_context w)" using w by simp
  from i show "holds (mroonga_snippet_slots info) w w'"
  proof (cases rule: mroonga_snippet_init_cases)
    case (3 own w1)
    then show ?thesis using holds_two [OF attach_database_one [OF p 3(1)] opens_one_none] attach_database_one [OF p 3(1)]
      by (simp add: mroonga_snippet_slots_def opens_one_def)
  next
    case (4 own w1 hs)
    have o: "opens_one (pull_context w) own w1" by (rule attach_database_one [OF p 4(1)])
    then have "world_ok w1" by (simp add: opens_one_def)
    then show ?thesis using holds_two [OF o mrn_snippet_prepare_one [OF _ 4(2)]] 4(3) by (simp add: mroonga_snippet_slots_def)
  qed simp_all
next
  fix info args w r info' w'
  assume "si_snippet info \<noteq> None" "mroonga_snippet env info args w = Some (r, info', w')"
  then show "info' = info \<and> w' = w"
    by (auto simp: mroonga_snippet_def snippet_row_def bind_eq_Some_conv split: pointer.splits if_splits option.splits)
next
  fix info w
  show "mroonga_snippet_deinit info w = map_option release_context (close_slots (mroonga_snippet_slots info) w)"
    by (rule mroonga_snippet_deinit_def)
next
  fix w args e w'
  assume w: "world_ok w" and i: "mroonga_snippet_init env initialized d args w = Some (Inl e, w')"
  have p: "world_ok (pull_context w)" using w by simp
  from i show "same_resources w w'"
  proof (cases rule: mroonga_snippet_init_cases)
    case (5 own w1 w2 w3)
    have o: "opens_one (pull_context w) own w1" by (rule attach_database_one [OF p 5(1)])
    then have "world_ok w1" by (simp add: opens_one_def)
    then show ?thesis using released [OF o _ 5(3)] mrn_snippet_prepare_one [OF _ 5(2)] 5(5) by simp
  qed (auto simp: same_resources_def)
qed

section \<open>Snippets of constant keywords\<close>

text \<open>MySQL passes values of the types that it announces, and the same pointers for constant arguments at every call.\<close>

definition constant_args :: "snippet_arg list \<Rightarrow> bool" where
  "constant_args args \<longleftrightarrow> 11 \<le> length args \<and> (length args - 11) mod 3 = 0 \<and> wrong_snippet_type args = None
     \<and> list_all (\<lambda>a. if sa_type a = INT_RESULT then is_Number (sa_value a) else is_Text (sa_value a)) (tl args)"

definition row_of :: "snippet_arg list \<Rightarrow> snippet_arg list \<Rightarrow> bool" where
  "row_of args a \<longleftrightarrow> length a = length args \<and> tl a = tl args \<and> \<not> is_Number (sa_value (hd a))"

fun keyword_conditions :: "snippet_arg list \<Rightarrow> (string \<times> string \<times> string) list" where
  "keyword_conditions (k # op # cl # rest) =
     (case (sa_value k, sa_value op, sa_value cl) of
        (Text k', Text op', Text cl') \<Rightarrow> (k', op', cl') # keyword_conditions rest
      | _ \<Rightarrow> [])"
| "keyword_conditions _ = []"

definition prepared_snippet :: "charset \<Rightarrow> snippet_arg list \<Rightarrow> snippet" where
  "prepared_snippet cs args = (let n = (\<lambda>i. the (sa_number args i)) in
     (new_snippet cs (n 1) (n 2) (n 4) (n 5))\<lparr>snip_conditions := keyword_conditions (drop 8 args)\<rparr>)"

lemma add_conditions_all:
  shows "\<forall>sn c. takes_condition env sn c \<Longrightarrow> length as mod 3 = 0 \<Longrightarrow> list_all (\<lambda>a. is_Text (sa_value a)) as \<Longrightarrow>
    add_conditions env as sn = Some (Some (sn\<lparr>snip_conditions := snip_conditions sn @ keyword_conditions as\<rparr>))"
proof (induction env as sn rule: add_conditions.induct)
  case (2 env k op cl rest sn)
  obtain k' op' cl' where v: "sa_value k = Text k'" "sa_value op = Text op'" "sa_value cl = Text cl'"
    using "2.prems"(3) by (auto simp: is_Text_def)
  have "length rest mod 3 = 0" using "2.prems"(2) by (simp add: mod_Suc split: if_splits)
  then show ?case using "2.IH" [OF refl v(1) refl v(2,3)] "2.prems"(1,3) \<open>length rest mod 3 = 0\<close> v by simp
qed auto

lemma constant_arg:
  assumes "constant_args args" "0 < i" "i < length args"
  shows "if sa_type (args ! i) = INT_RESULT then is_Number (sa_value (args ! i)) else is_Text (sa_value (args ! i))"
    "snippet_type_ok i (sa_type (args ! i))"
proof -
  have "tl args ! (i - 1) = args ! i" using assms(2,3) by (simp add: nth_tl)
  moreover have "i - 1 < length (tl args)" using assms(2,3) by simp
  ultimately show "if sa_type (args ! i) = INT_RESULT then is_Number (sa_value (args ! i)) else is_Text (sa_value (args ! i))"
    using assms(1) unfolding constant_args_def list_all_length by metis
  show "snippet_type_ok i (sa_type (args ! i))" using assms unfolding constant_args_def wrong_snippet_type_def find_None_iff by auto
qed

lemma constant_number:
  assumes "constant_args args" "i \<in> {1, 2, 4, 5}"
  obtains n where "sa_number args i = Some n"
proof -
  have i: "0 < i" "i < length args" using assms unfolding constant_args_def by auto
  then show ?thesis using that constant_arg [OF assms(1) i] assms(2) by (auto simp: snippet_type_ok_def sa_number_def is_Number_def)
qed

lemma constant_text:
  assumes "constant_args args" "6 \<le> i" "i < length args"
  shows "is_Text (sa_value (args ! i))"
  using constant_arg [OF assms(1), of i] assms(2,3) by (auto simp: snippet_type_ok_def)

lemma constant_prepared:
  assumes "constant_args args" "snippet_charset env args = Some (Some cs)" "set_raw (encodings env) (Some cs) = Some (True, enc)"
    and "\<forall>sn. snip_opens env sn" "\<forall>sn c. takes_condition env sn c"
  shows "mrn_snippet_prepare env message args w = (case open_handle w of (h, w1) \<Rightarrow> Some (Some (h, prepared_snippet cs args), w1))"
proof -
  have texts: "list_all (\<lambda>a. is_Text (sa_value a)) (drop 8 args)" using constant_text [OF assms(1)] by (simp add: list_all_length)
  have triples: "length (drop 8 args) mod 3 = 0"
  proof -
    obtain k where "length args = 11 + k" using assms(1) le_Suc_ex unfolding constant_args_def by blast
    then show ?thesis using assms(1) unfolding constant_args_def by simp
  qed
  have "add_conditions env (drop 8 args) sn = Some (Some (sn\<lparr>snip_conditions := snip_conditions sn @ keyword_conditions (drop 8 args)\<rparr>))" for sn
    
    by (rule add_conditions_all [OF assms(5) triples texts])
  moreover obtain n1 n2 n4 n5 where "sa_number args 1 = Some n1" "sa_number args 2 = Some n2" "sa_number args 4 = Some n4" "sa_number args 5 = Some n5"
    using constant_number [OF assms(1)] by (metis insertCI)
  ultimately show ?thesis
    using assms(2-4) by (simp add: mrn_snippet_prepare_def mrn_snippet_open_def prepared_snippet_def Let_def new_snippet_def split: prod.split)
qed

definition snippet_answer :: "snippet_arg list \<Rightarrow> (string \<Rightarrow> string list) \<Rightarrow> snippet_arg list \<Rightarrow> udf_row" where
  "snippet_answer args texts a = (case sa_value (hd a) of
      Text t \<Rightarrow> Row_text (concat (map (\<lambda>r. the (sa_text args 6) @ r @ the (sa_text args 7)) (texts t)))
    | _ \<Rightarrow> Row_null)"

lemma constant_row:
  assumes "constant_args args" "row_of args a" "h \<in> set (live w)" "\<forall>t. snip_exec env sn t = Some (map Some (texts t))"
  shows "mroonga_snippet env \<lparr>si_database = own, si_snippet = Some (h, sn)\<rparr> a w
    = Some (snippet_answer args texts a, \<lparr>si_database = own, si_snippet = Some (h, sn)\<rparr>, w)"
proof -
  have same: "sa_text a (Suc i) = sa_text args (Suc i)" for i
    using assms(2) unfolding row_of_def sa_text_def by (metis length_tl nth_tl less_diff_conv plus_1_eq_Suc add.commute)
  have six: "6 < length args" "7 < length args" using assms(1) unfolding constant_args_def by simp_all
  obtain op cl where "sa_text args 6 = Some op" "sa_text args 7 = Some cl"
    using constant_text [OF assms(1) _ six(1)] constant_text [OF assms(1) _ six(2)] six unfolding is_Text_def sa_text_def by fastforce
  moreover from this have "sa_text a 6 = Some op" "sa_text a 7 = Some cl" using same [of 5] same [of 6] by simp_all
  ultimately show ?thesis
    using assms(2-4) by (simp add: mroonga_snippet_def snippet_row_def snippet_answer_def row_of_def is_Number_def put_results_all split: pointer.split)
qed

lemma constant_rows:
  assumes "constant_args args" "\<forall>a\<in>set as. row_of args a" "h \<in> set (live w)" "\<forall>t. snip_exec env sn t = Some (map Some (texts t))"
  shows "run_rows (mroonga_snippet env) as \<lparr>si_database = own, si_snippet = Some (h, sn)\<rparr> w
    = Some (map (snippet_answer args texts) as, \<lparr>si_database = own, si_snippet = Some (h, sn)\<rparr>, w)"
  using assms(2) by (induction as) (simp_all add: constant_row [OF assms(1) _ assms(3,4)])

text \<open>C37: with keywords and tags that are constant, a statement that calls \<^verbatim>\<open>mroonga_snippet\<close> gives for every row the snippets that Groonga
  finds in its text, each between the two tags and in order, and NULL for NULL; behind the statement every Groonga object and the context are
  given back.\<close>

theorem snippet_statement:
  assumes "constant_args args" "\<forall>a\<in>set rows. row_of args a" "d = Shared_database \<or> d = Anonymous_database" "world_ok w"
    and "snippet_charset env args = Some (Some cs)" "set_raw (encodings env) (Some cs) = Some (True, enc)"
    and "\<forall>sn. snip_opens env sn" "\<forall>sn c. takes_condition env sn c"
    and "\<forall>t. snip_exec env (prepared_snippet cs args) t = Some (map Some (texts t))"
  shows "\<exists>w'. run_statement (mroonga_snippet_init env True d) (mroonga_snippet env) mroonga_snippet_deinit args rows w
      = Some (Inr (map (snippet_answer args texts) rows), w') \<and> same_resources w w'"
proof -
  obtain own w1 where db: "attach_database d (pull_context w) = (Some own, w1)"
    using assms(3) by (cases "open_handle (pull_context w)") (auto simp: attach_database_def)
  obtain h w2 where h: "open_handle w1 = (h, w2)" by force
  let ?info = "\<lparr>si_database = own, si_snippet = Some (h, prepared_snippet cs args)\<rparr>"
  have "list_all (\<lambda>a. sa_value a \<noteq> Null) (tl args)"
    using assms(1) unfolding constant_args_def by (auto simp: list_all_iff split: if_splits)
  then have init: "mroonga_snippet_init env True d args w = Some (Inr ?info, w2)"
    using assms(1) db h constant_prepared [OF assms(1,5-8)] by (simp add: mroonga_snippet_init_def constant_args_def)
  have "h \<in> set (live w2)" using h by (auto simp: open_handle_def)
  from constant_rows [OF assms(1,2) this assms(9)] show ?thesis using sn.statement_balanced [OF assms(4) init] by simp
qed

section \<open>An example, and where the function fails\<close>

definition sample_snippet_env :: "bool \<Rightarrow> snippet_env" where
  "sample_snippet_env fails = \<lparr>get_charset_by_name = (\<lambda>n. if n = ''utf8mb4'' then Some (sample_charset ''utf8mb4'' 2) else None),
     get_charset = (\<lambda>i. None), encodings = (\<lambda>v. Some (sample_charset ''utf8mb4'' 2)), snip_opens = (\<lambda>sn. True), takes_condition = (\<lambda>sn c. True),
     snip_exec = (\<lambda>sn t. if fails then None else Some (map Some [take (unat (snip_width sn)) t]))\<rparr>"

definition text_arg :: "string \<Rightarrow> snippet_arg" where
  "text_arg s = \<lparr>sa_type = STRING_RESULT, sa_value = Text s\<rparr>"

definition number_arg :: "64 word \<Rightarrow> snippet_arg" where
  "number_arg n = \<lparr>sa_type = INT_RESULT, sa_value = Number n\<rparr>"

definition sample_snippet_args :: "string \<Rightarrow> string \<Rightarrow> snippet_arg list" where
  "sample_snippet_args target charset = [text_arg target, number_arg 3, number_arg 2, text_arg charset, number_arg 1, number_arg 0,
     text_arg ''<p>'', text_arg ''</p>'', text_arg ''fulltext'', text_arg ''<b>'', text_arg ''</b>'']"

definition start_world :: udf_world where
  "start_world = \<lparr>contexts = 0, live = [], next_handle = 0\<rparr>"

theorem snippet_statement_witness:
  "\<exists>w'. run_statement (mroonga_snippet_init (sample_snippet_env False) True Anonymous_database) (mroonga_snippet (sample_snippet_env False))
      mroonga_snippet_deinit (sample_snippet_args ''first'' ''utf8mb4'') [sample_snippet_args ''first'' ''utf8mb4''] start_world
    = Some (Inr [Row_text ''<p>fir</p>''], w') \<and> same_resources start_world w'"
proof -
  let ?args = "sample_snippet_args ''first'' ''utf8mb4''" and ?cs = "sample_charset ''utf8mb4'' 2"
  have width: "snip_width (prepared_snippet ?cs ?args) = 3" by code_simp
  have answer: "snippet_answer ?args (\<lambda>t. [take 3 t]) ?args = Row_text ''<p>fir</p>''" by code_simp
  have 1: "constant_args ?args" "\<forall>a\<in>set [?args]. row_of ?args a" by code_simp+
  have 2: "world_ok start_world" by code_simp
  have 3: "snippet_charset (sample_snippet_env False) ?args = Some (Some ?cs)" by code_simp
  have 4: "set_raw (encodings (sample_snippet_env False)) (Some ?cs) = Some (True, GRN_ENC_UTF8)" by code_simp
  have 5: "\<forall>t. snip_exec (sample_snippet_env False) (prepared_snippet ?cs ?args) t = Some (map Some [take 3 t])"
    using width by (simp add: sample_snippet_env_def)
  show ?thesis
    using snippet_statement [OF 1 disjI2 [OF refl] 2 3 4 _ _ 5] answer by (simp add: sample_snippet_env_def)
qed

text \<open>When the keywords vary, an error of the preparation is written to a null pointer.\<close>

lemma row_preparation_error_faults:
  "mroonga_snippet (sample_snippet_env False) \<lparr>si_database = None, si_snippet = None\<rparr> (sample_snippet_args ''text'' ''no charset'') start_world = None"
  by code_simp

text \<open>When Groonga cannot search the text, the snippet of the row is not closed.\<close>

lemma failed_row_leaks_snippet:
  "map_option (\<lambda>(r, info, w). (r, live w)) (mroonga_snippet (sample_snippet_env True) \<lparr>si_database = None, si_snippet = None\<rparr>
      (sample_snippet_args ''text'' ''utf8mb4'') start_world) = Some (Row_failed, [0])"
  by code_simp

end
