(* ===== verification/Udf_Snippet_Html.thy ===== *)
theory Udf_Snippet_Html
  imports Udf_Snippet Index_Names "HOL-Library.Multiset"
begin

text \<open>
  The user defined function \<^verbatim>\<open>mroonga_snippet_html\<close> (\<^verbatim>\<open>udf/mrn_udf_snippet_html.cpp\<close>): named arguments, the lexicon whose normalizer
  is used, keywords and queries, and the handles of the objects that a preparation leaves in the information block. Groonga's
  snippets and the keywords of a parsed query are parameters; the temporary table for queries is always created. An object that is
  closed twice is a fault, the value \<^const>\<open>None\<close>.
\<close>

section \<open>Preparation\<close>

datatype snippet_normalizer = No_normalizer | Auto_normalizer | Lexicon_normalizer string

record html_snippet =
  hs_normalizer :: snippet_normalizer
  hs_keywords :: "string list"

record html_info =
  table_name_index :: nat
  index_name_index :: nat
  lexicon_name_index :: nat
  hi_database :: "nat option"
  hi_snippet :: "(nat \<times> html_snippet) option"
  hi_lexicon :: "nat option"
  query_table :: "nat option"
  query_default_column :: "nat option"

record html_env =
  system_charset :: charset
  html_encodings :: encoding_globals
  html_opens :: bool
  lexicon_there :: "string \<Rightarrow> bool"
  html_mb_wc :: mb_wc
  html_wc_mb :: wc_mb
  html_key_size :: nat
  parsed_query :: "string \<Rightarrow> string list option"
  takes_keyword :: "html_snippet \<Rightarrow> string \<Rightarrow> bool"
  html_exec :: "html_snippet \<Rightarrow> string \<Rightarrow> string option list option"

text \<open>The length of an argument that is NULL is 0.\<close>

definition html_text :: "udf_arg list \<Rightarrow> nat \<Rightarrow> string option" where
  "html_text args i = (if i < length args then Some (case arg (args ! i) of None \<Rightarrow> [] | Some s \<Rightarrow> s) else None)"

text \<open>The name of the lexicon, given or of the index of a table: \<^const>\<open>Some\<close> \<^const>\<open>None\<close> for an error.\<close>

definition html_lexicon_name :: "html_env \<Rightarrow> html_info \<Rightarrow> udf_arg list \<Rightarrow> string option option" where
  "html_lexicon_name env info args =
     (if lexicon_name_index info > 0 then
        map_option (\<lambda>nm. if nm = [] then None else Some nm) (html_text args (lexicon_name_index info))
      else if table_name_index info = 0 then Some None
      else do {
        table_nm \<leftarrow> html_text args (table_name_index info);
        (if table_nm = [] then Some None
         else if index_name_index info = 0 then Some None
         else map_option (\<lambda>index_nm. if index_nm = [] then None else Some (index_table_name.name
                (IndexTableName (html_mb_wc env) (html_wc_mb env) (html_key_size env) table_nm index_nm)))
                (html_text args (index_name_index info))) })"

definition no_names :: "html_info \<Rightarrow> bool" where
  "no_names info \<longleftrightarrow> table_name_index info = 0 \<and> index_name_index info = 0 \<and> lexicon_name_index info = 0"

definition set_snippet_normalizer ::
    "html_env \<Rightarrow> html_info \<Rightarrow> udf_arg list \<Rightarrow> udf_world \<Rightarrow> (snippet_normalizer option \<times> html_info \<times> udf_world) option" where
  "set_snippet_normalizer env info args w =
     (if no_names info then
        Some (Some (if MY_CS_BINSORT (system_charset env) \<or> MY_CS_CSSORT (system_charset env) then No_normalizer else Auto_normalizer), info, w)
      else map_option (\<lambda>nm. case nm of
          None \<Rightarrow> (None, info, w)
        | Some l \<Rightarrow>
            if \<not> lexicon_there env l then (None, info\<lparr>hi_lexicon := None\<rparr>, w)
            else (case open_handle w of (h, w1) \<Rightarrow> (Some (Lexicon_normalizer l), info\<lparr>hi_lexicon := Some h\<rparr>, w1)))
        (html_lexicon_name env info args))"

definition ensure_query_table :: "html_info \<Rightarrow> udf_world \<Rightarrow> html_info \<times> udf_world" where
  "ensure_query_table info w =
     (case (if query_table info = None then (case open_handle w of (h, w1) \<Rightarrow> (info\<lparr>query_table := Some h\<rparr>, w1)) else (info, w)) of
        (info1, w1) \<Rightarrow>
          if query_default_column info1 = None then (case open_handle w1 of (h, w2) \<Rightarrow> (info1\<lparr>query_default_column := Some h\<rparr>, w2))
          else (info1, w1))"

text \<open>The loop over the arguments behind the text: whether it ends without an error, and the snippet.\<close>

fun add_html_keywords ::
    "html_env \<Rightarrow> udf_arg list \<Rightarrow> html_snippet \<Rightarrow> html_info \<Rightarrow> udf_world \<Rightarrow> html_snippet option \<times> html_info \<times> udf_world" where
  "add_html_keywords env [] sn info w = (Some sn, info, w)"
| "add_html_keywords env (a # as) sn info w = (case arg a of
      None \<Rightarrow> add_html_keywords env as sn info w
    | Some s \<Rightarrow>
        if attribute a = ''table_name'' \<or> attribute a = ''index_name'' \<or> attribute a = ''lexicon_name'' then add_html_keywords env as sn info w
        else if attribute a = ''query'' then
          (case ensure_query_table info w of (info1, w1) \<Rightarrow>
            (case parsed_query env s of
               None \<Rightarrow> (None, info1, w1)
             | Some ks \<Rightarrow> add_html_keywords env as (sn\<lparr>hs_keywords := hs_keywords sn @ ks\<rparr>) info1 w1))
        else if takes_keyword env sn s then add_html_keywords env as (sn\<lparr>hs_keywords := hs_keywords sn @ [s]\<rparr>) info w
        else (None, info, w))"

text \<open>The result: the snippet, or an error; and the pointer that the caller gets, which an error does not clear.\<close>

definition mrn_snippet_html_prepare ::
    "html_env \<Rightarrow> html_info \<Rightarrow> udf_arg list \<Rightarrow> udf_world \<Rightarrow> (html_snippet option \<times> nat option \<times> html_info \<times> udf_world) option" where
  "mrn_snippet_html_prepare env info args w = do {
     enc \<leftarrow> set_raw (html_encodings env) (Some (system_charset env));
     (if \<not> html_opens env then Some (None, None, info, w)
      else (case open_handle w of (h, w1) \<Rightarrow> do {
          (normalizer, info2, w2) \<leftarrow> set_snippet_normalizer env info args w1;
          (case (case normalizer of
              None \<Rightarrow> (None, info2, w2)
            | Some n \<Rightarrow> add_html_keywords env (tl args) \<lparr>hs_normalizer = n, hs_keywords = []\<rparr> info2 w2) of
             (Some sn, info3, w3) \<Rightarrow> Some (Some sn, Some h, info3, w3)
           | (None, info3, w3) \<Rightarrow> map_option (\<lambda>w4. (None, Some h, info3, w4)) (close_handle h w3)) })) }"

section \<open>Named arguments\<close>

datatype html_error = Html_not_initialized | Html_no_argument | Html_argument udf_error | Html_no_database
  | Given_twice string | Given_together string string | Unknown_argument string | Html_not_prepared

text \<open>One argument: \<open>i\<close> is its number. Names that exclude each other are refused; without \<^verbatim>\<open>AS\<close> the name is the quoted text itself.\<close>

definition scan_html_attribute :: "nat \<Rightarrow> string \<Rightarrow> html_info \<Rightarrow> html_error + html_info" where
  "scan_html_attribute i nm info =
     (if nm = ''query'' \<or> nm = ''keyword'' then Inr info
      else if nm = ''table_name'' then
        if table_name_index info \<noteq> 0 then Inl (Given_twice nm)
        else if lexicon_name_index info \<noteq> 0 then Inl (Given_together nm ''lexicon_name'')
        else Inr (info\<lparr>table_name_index := i\<rparr>)
      else if nm = ''index_name'' then
        if index_name_index info \<noteq> 0 then Inl (Given_twice nm)
        else if lexicon_name_index info \<noteq> 0 then Inl (Given_together nm ''lexicon_name'')
        else Inr (info\<lparr>index_name_index := i\<rparr>)
      else if nm = ''lexicon_name'' then
        if lexicon_name_index info \<noteq> 0 then Inl (Given_twice nm)
        else if table_name_index info \<noteq> 0 then Inl (Given_together nm ''table_name'')
        else if index_name_index info \<noteq> 0 then Inl (Given_together nm ''index_name'')
        else Inr (info\<lparr>lexicon_name_index := i\<rparr>)
      else if nm \<noteq> [] \<and> hd nm = CHR 0x27 then Inr info
      else Inl (Unknown_argument nm))"

fun scan_html_attributes :: "nat \<Rightarrow> udf_arg list \<Rightarrow> html_info \<Rightarrow> html_error + html_info" where
  "scan_html_attributes i [] info = Inr info"
| "scan_html_attributes i (a # as) info =
     (case scan_html_attribute i (attribute a) info of Inl e \<Rightarrow> Inl e | Inr info1 \<Rightarrow> scan_html_attributes (i + 1) as info1)"

definition empty_html_info :: "nat option \<Rightarrow> html_info" where
  "empty_html_info own = \<lparr>table_name_index = 0, index_name_index = 0, lexicon_name_index = 0, hi_database = own, hi_snippet = None,
     hi_lexicon = None, query_table = None, query_default_column = None\<rparr>"

definition html_init_error :: "html_error \<Rightarrow> nat option \<Rightarrow> udf_world \<Rightarrow> ((html_error + html_info) \<times> udf_world) option" where
  "html_init_error e own w = map_option (\<lambda>w1. (Inl e, release_context w1)) (close_slot own w)"

definition mroonga_snippet_html_init ::
    "html_env \<Rightarrow> bool \<Rightarrow> current_database \<Rightarrow> udf_arg list \<Rightarrow> udf_world \<Rightarrow> ((html_error + html_info) \<times> udf_world) option" where
  "mroonga_snippet_html_init env initialized d args w =
     (if \<not> initialized then Some (Inl Html_not_initialized, w)
      else if args = [] then Some (Inl Html_no_argument, w)
      else case check_string_args 0 args of
        None \<Rightarrow> None
      | Some (Inl e) \<Rightarrow> Some (Inl (Html_argument e), w)
      | Some (Inr _) \<Rightarrow> (case attach_database d (pull_context w) of
          (None, w1) \<Rightarrow> Some (Inl Html_no_database, release_context w1)
        | (Some own, w1) \<Rightarrow> (case scan_html_attributes 1 (tl args) (empty_html_info own) of
            Inl e \<Rightarrow> html_init_error e own w1
          | Inr info \<Rightarrow>
              if list_all (\<lambda>a. arg a \<noteq> None) (tl args) then do {
                (sn, p, info2, w2) \<leftarrow> mrn_snippet_html_prepare env info args w1;
                (case (sn, p) of
                   (Some sn', Some h) \<Rightarrow> Some (Inr (info2\<lparr>hi_snippet := Some (h, sn')\<rparr>), w2)
                 | _ \<Rightarrow> html_init_error Html_not_prepared own w2) }
              else Some (Inr info, w1))))"

section \<open>Rows\<close>

definition DIV_OPEN :: string where "DIV_OPEN = ''<div class=\"snippet\">''"
definition DIV_CLOSE :: string where "DIV_CLOSE = ''</div>''"

text \<open>The error exit closes the snippet of this row, whether or not the preparation has closed it.\<close>

definition html_row_error :: "html_info \<Rightarrow> nat option \<Rightarrow> udf_world \<Rightarrow> (udf_row \<times> html_info \<times> udf_world) option" where
  "html_row_error info p w = map_option (\<lambda>w1. (Row_failed, info, w1)) (if hi_snippet info = None then close_slot p w else Some w)"

definition html_row ::
    "html_env \<Rightarrow> html_info \<Rightarrow> string \<Rightarrow> nat \<Rightarrow> html_snippet \<Rightarrow> udf_world \<Rightarrow> (udf_row \<times> html_info \<times> udf_world) option" where
  "html_row env info target h sn w =
     (if h \<notin> set (live w) then None
      else case Option.bind (html_exec env sn target) (put_results DIV_OPEN DIV_CLOSE) of
        None \<Rightarrow> html_row_error info (Some h) w
      | Some out \<Rightarrow> map_option (\<lambda>w1. (Row_text out, info, w1)) (if hi_snippet info = None then close_handle h w else Some w))"

definition mroonga_snippet_html :: "html_env \<Rightarrow> html_info \<Rightarrow> udf_arg list \<Rightarrow> udf_world \<Rightarrow> (udf_row \<times> html_info \<times> udf_world) option" where
  "mroonga_snippet_html env info args w = (case arg (hd args) of
      None \<Rightarrow> Some (Row_null, info, w)
    | Some target \<Rightarrow> (case hi_snippet info of
          Some (h, sn) \<Rightarrow> html_row env info target h sn w
        | None \<Rightarrow> do {
            (sn, p, info1, w1) \<leftarrow> mrn_snippet_html_prepare env info args w;
            (case (sn, p) of
               (Some sn', Some h) \<Rightarrow> html_row env info1 target h sn' w1
             | _ \<Rightarrow> html_row_error info1 p w1) }))"

definition mroonga_snippet_html_slots :: "html_info \<Rightarrow> nat option list" where
  "mroonga_snippet_html_slots info =
     [map_option fst (hi_snippet info), hi_lexicon info, query_default_column info, query_table info, hi_database info]"

definition mroonga_snippet_html_deinit :: "html_info \<Rightarrow> udf_world \<Rightarrow> udf_world option" where
  "mroonga_snippet_html_deinit info w = map_option release_context (close_slots (mroonga_snippet_html_slots info) w)"

section \<open>What a preparation opens\<close>

definition gains :: "udf_world \<Rightarrow> nat option list \<Rightarrow> udf_world \<Rightarrow> bool" where
  "gains w ss w' \<longleftrightarrow> world_ok w' \<and> contexts w' = contexts w \<and> distinct (owned ss) \<and> set (owned ss) \<inter> set (live w) = {}
     \<and> set (live w') = set (owned ss) \<union> set (live w)"

lemma gains_nothing: "world_ok w \<Longrightarrow> gains w [] w"
  by (simp add: gains_def)

lemma gains_open: "gains w ss w1 \<Longrightarrow> open_handle w1 = (h, w2) \<Longrightarrow> gains w (Some h # ss) w2"
  using world_ok_open [of w1 h w2] by (auto simp: gains_def)

lemma gains_null [simp]: "gains w (None # ss) w' = gains w ss w'"
  by (simp add: gains_def)

lemma gains_mset: "gains w ss w' \<Longrightarrow> mset (owned ss) = mset (owned ss') \<Longrightarrow> gains w ss' w'"
  unfolding gains_def by (metis mset_eq_imp_distinct_iff mset_eq_setD)

lemma mset_owned: "mset (owned (s # ss)) = (case s of None \<Rightarrow> {#} | Some h \<Rightarrow> {#h#}) + mset (owned ss)"
  by (cases s) auto

abbreviation block :: "html_info \<Rightarrow> nat option list" where
  "block info \<equiv> [query_default_column info, query_table info, hi_lexicon info]"

definition same_block :: "html_info \<Rightarrow> html_info \<Rightarrow> bool" where
  "same_block info info' \<longleftrightarrow> hi_database info' = hi_database info \<and> hi_snippet info' = hi_snippet info"

lemma ensure_query_table_gains:
  assumes "gains w (block info @ ss) w1" "ensure_query_table info w1 = (info', w')"
  shows "gains w (block info' @ ss) w' \<and> same_block info info'"
proof -
  obtain h w2 where h: "open_handle w1 = (h, w2)" by force
  obtain h' w3 where h': "open_handle w2 = (h', w3)" by force
  note one = gains_open [OF assms(1) h]
  note two = gains_open [OF one h']
  show ?thesis
    using assms one two h h'
    by (cases "query_table info"; cases "query_default_column info")
      (auto simp: ensure_query_table_def same_block_def intro: gains_mset)
qed

lemma add_html_keywords_gains:
  "gains w (block info @ ss) w1 \<Longrightarrow> add_html_keywords env as sn info w1 = (r, info', w') \<Longrightarrow> gains w (block info' @ ss) w' \<and> same_block info info'"
proof (induction env as sn info w1 rule: add_html_keywords.induct)
  case (1 env sn info w1)
  then show ?case by (simp add: same_block_def)
next
  case (2 env a as sn info w1)
  show ?case
  proof (cases "\<exists>s. arg a = Some s \<and> attribute a = ''query''")
    case True
    then obtain s where s: "arg a = Some s" "attribute a = ''query''" by blast
    obtain info1 w2 where e: "ensure_query_table info w1 = (info1, w2)" by force
    note g = ensure_query_table_gains [OF 2(5) e]
    show ?thesis
    proof (cases "parsed_query env s")
      case None
      then show ?thesis using "2.prems"(2) s e g by simp
    next
      case (Some ks)
      then show ?thesis using "2.IH"(3) [OF s(1) _ s(2) e [symmetric] Some] "2.prems"(2) s e g by (auto simp: same_block_def)
    qed
  next
    case False
    then show ?thesis using 2 by (auto simp: same_block_def split: option.splits if_splits)
  qed
qed

lemma set_snippet_normalizer_gains:
  assumes "gains w (block info @ ss) w1" "hi_lexicon info = None" "set_snippet_normalizer env info args w1 = Some (n, info', w')"
  shows "gains w (block info' @ ss) w' \<and> same_block info info'"
proof -
  obtain h w2 where h: "open_handle w1 = (h, w2)" by force
  have "gains w (block (info\<lparr>hi_lexicon := Some h\<rparr>) @ ss) w2"
    by (rule gains_mset [OF gains_open [OF assms(1) h]]) (simp add: mset_owned assms(2) ac_simps)
  moreover have "gains w (block (info\<lparr>hi_lexicon := None\<rparr>) @ ss) w1" using assms(1,2) by simp
  moreover have "info' = info \<and> w' = w1 \<or> info' = info\<lparr>hi_lexicon := None\<rparr> \<and> w' = w1 \<or> info' = info\<lparr>hi_lexicon := Some h\<rparr> \<and> w' = w2"
    using assms(3) h unfolding set_snippet_normalizer_def by (force split: if_splits option.splits)
  ultimately show ?thesis using assms(1) by (auto simp: same_block_def)
qed

lemma mrn_snippet_html_prepare_gains:
  assumes "world_ok w" "block info = [None, None, None]" "mrn_snippet_html_prepare env info args w = Some (Some sn, Some h, info', w')"
  shows "gains w (block info' @ [Some h]) w' \<and> same_block info info'"
proof -
  obtain h1 w1 where h: "open_handle w = (h1, w1)" by force
  have one: "gains w (block info @ [Some h1]) w1" using gains_open [OF gains_nothing [OF assms(1)] h] assms(2) by simp
  obtain n' info2 w2 where set: "set_snippet_normalizer env info args w1 = Some (n', info2, w2)"
    using assms(3) h by (auto simp: mrn_snippet_html_prepare_def bind_eq_Some_conv split: if_splits)
  obtain n where n: "n' = Some n"
    using assms(3) h set by (cases n') (auto simp: mrn_snippet_html_prepare_def bind_eq_Some_conv split: if_splits)
  obtain r info3 w3 where add: "add_html_keywords env (tl args) \<lparr>hs_normalizer = n, hs_keywords = []\<rparr> info2 w2 = (r, info3, w3)"
    by (rule prod_cases3)
  have "r = Some sn" "info3 = info'" "w3 = w'" "h = h1"
    using assms(3) h set n add by (cases r; auto simp: mrn_snippet_html_prepare_def bind_eq_Some_conv split: if_splits)+
  then have two: "h = h1" "set_snippet_normalizer env info args w1 = Some (Some n, info2, w2)"
    "add_html_keywords env (tl args) \<lparr>hs_normalizer = n, hs_keywords = []\<rparr> info2 w2 = (Some sn, info', w')"
    using set n add by simp_all
  have a: "gains w (block info2 @ [Some h1]) w2 \<and> same_block info info2"
    by (rule set_snippet_normalizer_gains [OF one _ two(2)]) (use assms(2) in simp)
  have "gains w (block info' @ [Some h1]) w' \<and> same_block info2 info'" by (rule add_html_keywords_gains [OF _ two(3)]) (use a in blast)
  then show ?thesis using a two(1) by (simp add: same_block_def)
qed

lemma scan_html_attributes_block:
  "scan_html_attributes i as info = Inr info' \<Longrightarrow> block info' = block info \<and> same_block info info'"
proof (induction as arbitrary: i info)
  case (Cons a as)
  obtain info1 where one: "scan_html_attribute i (attribute a) info = Inr info1" using Cons.prems by (auto split: sum.splits)
  then have "block info1 = block info \<and> same_block info info1"
    by (auto simp: scan_html_attribute_def same_block_def split: if_splits)
  then show ?case using Cons.IH Cons.prems one by (auto simp: same_block_def)
qed (simp add: same_block_def)

text \<open>An init function that succeeds has prepared a snippet, or left it to the rows.\<close>

lemma html_init_cases:
  assumes "mroonga_snippet_html_init env initialized d args w = Some (Inr info, w')"
  obtains own w1 where "attach_database d (pull_context w) = (Some own, w1)" "scan_html_attributes 1 (tl args) (empty_html_info own) = Inr info" "w' = w1"
      "\<not> list_all (\<lambda>a. arg a \<noteq> None) (tl args)"
  | own w1 info1 info2 sn h where "attach_database d (pull_context w) = (Some own, w1)"
      "scan_html_attributes 1 (tl args) (empty_html_info own) = Inr info1"
      "mrn_snippet_html_prepare env info1 args w1 = Some (Some sn, Some h, info2, w')" "info = info2\<lparr>hi_snippet := Some (h, sn)\<rparr>"
  using assms unfolding mroonga_snippet_html_init_def html_init_error_def
  by (auto simp: bind_eq_Some_conv split: if_splits option.splits prod.splits sum.splits)

lemma html_init_holds:
  assumes "world_ok w" "mroonga_snippet_html_init env initialized d args w = Some (Inr info, w')"
  shows "holds (mroonga_snippet_html_slots info) w w'"
  using assms(2)
proof (cases rule: html_init_cases)
  case (1 own w1)
  have "opens_one (pull_context w) own w1" by (rule attach_database_one [OF _ 1(1)]) (simp add: assms(1))
  moreover have "block info = [None, None, None]" "hi_database info = own" "hi_snippet info = None"
    using scan_html_attributes_block [OF 1(2)] by (simp_all add: empty_html_info_def same_block_def)
  ultimately show ?thesis using 1(3) by (auto simp: mroonga_snippet_html_slots_def holds_def opens_one_def)
next
  case (2 own w1 info1 info2 sn h)
  have o: "opens_one (pull_context w) own w1" by (rule attach_database_one [OF _ 2(1)]) (simp add: assms(1))
  have b: "block info1 = [None, None, None]" "hi_database info1 = own"
    using scan_html_attributes_block [OF 2(2)] by (simp_all add: empty_html_info_def same_block_def)
  have "gains w1 (block info2 @ [Some h]) w' \<and> same_block info1 info2"
    by (rule mrn_snippet_html_prepare_gains [OF _ b(1) 2(3)]) (use o in \<open>simp add: opens_one_def\<close>)
  then have g: "gains w1 (Some h # [hi_lexicon info2, query_default_column info2, query_table info2]) w'" "hi_database info2 = own"
    using b(2) gains_mset [of w1 "block info2 @ [Some h]" w' "Some h # [hi_lexicon info2, query_default_column info2, query_table info2]"]
    by (simp_all add: same_block_def mset_owned ac_simps)
  let ?ss = "[hi_lexicon info2, query_default_column info2, query_table info2]"
  have slots: "mroonga_snippet_html_slots info = Some h # ?ss @ [own]" using 2(4) g(2) by (simp add: mroonga_snippet_html_slots_def)
  have app: "owned (Some h # ?ss @ [own]) = owned (Some h # ?ss) @ owned [own]" by (simp add: owned_def List.map_filter_def)
  show ?thesis unfolding slots holds_def app using o g(1) unfolding opens_one_def gains_def by auto
qed

interpretation sh: udf "mroonga_snippet_html_init env initialized d" "mroonga_snippet_html env" mroonga_snippet_html_deinit
  mroonga_snippet_html_slots "\<lambda>info. hi_snippet info \<noteq> None" for env initialized d
proof
  fix info args w r info' w'
  assume "hi_snippet info \<noteq> None" "mroonga_snippet_html env info args w = Some (r, info', w')"
  then show "info' = info \<and> w' = w"
    by (auto simp: mroonga_snippet_html_def html_row_def html_row_error_def split: if_splits option.splits)
qed (rule html_init_holds mroonga_snippet_html_deinit_def; assumption?)+

section \<open>Snippets of constant arguments\<close>

text \<open>The keywords that the arguments name: those of every query, and every other text that is not the name of a table, index or lexicon.\<close>

definition named_keywords :: "html_env \<Rightarrow> udf_arg \<Rightarrow> string list" where
  "named_keywords env a = (case arg a of
      None \<Rightarrow> []
    | Some s \<Rightarrow>
        if attribute a \<in> {''table_name'', ''index_name'', ''lexicon_name''} then []
        else if attribute a = ''query'' then (case parsed_query env s of None \<Rightarrow> [] | Some ks \<Rightarrow> ks)
        else [s])"

lemma add_html_keywords_all:
  "add_html_keywords env as sn info w = (Some sn', info', w') \<Longrightarrow>
     hs_normalizer sn' = hs_normalizer sn \<and> hs_keywords sn' = hs_keywords sn @ concat (map (named_keywords env) as)"
  by (induction env as sn info w rule: add_html_keywords.induct)
    (auto simp: named_keywords_def split: option.splits if_splits prod.splits)

lemma prepared_keywords:
  assumes "mrn_snippet_html_prepare env info args w = Some (Some sn, p, info', w')"
  shows "hs_keywords sn = concat (map (named_keywords env) (tl args))"
proof -
  obtain h w1 where h: "open_handle w = (h, w1)" by force
  obtain n' info2 w2 where set: "set_snippet_normalizer env info args w1 = Some (n', info2, w2)"
    using assms h by (auto simp: mrn_snippet_html_prepare_def bind_eq_Some_conv split: if_splits)
  obtain n where n: "n' = Some n"
    using assms h set by (cases n') (auto simp: mrn_snippet_html_prepare_def bind_eq_Some_conv split: if_splits)
  obtain r info3 w3 where add: "add_html_keywords env (tl args) \<lparr>hs_normalizer = n, hs_keywords = []\<rparr> info2 w2 = (r, info3, w3)"
    by (rule prod_cases3)
  have "r = Some sn"
    using assms h set n add by (cases r) (auto simp: mrn_snippet_html_prepare_def bind_eq_Some_conv split: if_splits)
  then show ?thesis using add_html_keywords_all [OF add [unfolded \<open>r = Some sn\<close>]] by simp
qed

definition html_answer :: "html_env \<Rightarrow> html_snippet \<Rightarrow> udf_arg list \<Rightarrow> udf_row" where
  "html_answer env sn a = (case arg (hd a) of
      None \<Rightarrow> Row_null
    | Some t \<Rightarrow> (case Option.bind (html_exec env sn t) (put_results DIV_OPEN DIV_CLOSE) of None \<Rightarrow> Row_failed | Some out \<Rightarrow> Row_text out))"

lemma html_rows:
  assumes "hi_snippet info = Some (h, sn)" "h \<in> set (live w)"
  shows "run_rows (mroonga_snippet_html env) rows info w = Some (map (html_answer env sn) rows, info, w)"
proof (induction rows)
  case (Cons a rows)
  have "mroonga_snippet_html env info a w = Some (html_answer env sn a, info, w)"
    using assms by (simp add: mroonga_snippet_html_def html_row_def html_row_error_def html_answer_def split: option.split)
  then show ?case using Cons by simp
qed simp

text \<open>C38: when all arguments but the text are constant and the init function succeeds, a statement that calls
  \<^verbatim>\<open>mroonga_snippet_html\<close> searches every text for all keywords that the arguments name, in their order, answers every row and, whatever fails
  for a row, closes every object that it has opened exactly once.\<close>

theorem html_statement:
  assumes "list_all (\<lambda>a. arg a \<noteq> None) (tl args)" "mroonga_snippet_html_init env initialized d args w = Some (Inr info, w1)" "world_ok w"
  shows "\<exists>sn w'. run_statement (mroonga_snippet_html_init env initialized d) (mroonga_snippet_html env) mroonga_snippet_html_deinit args rows w
      = Some (Inr (map (html_answer env sn) rows), w')
    \<and> hs_keywords sn = concat (map (named_keywords env) (tl args)) \<and> same_resources w w'"
  using assms(2)
proof (cases rule: html_init_cases)
  case (1 own w2)
  then show ?thesis using assms(1) by blast
next
  case (2 own w2 info1 info2 sn h)
  have s: "hi_snippet info = Some (h, sn)" using 2(4) by simp
  have "h \<in> set (live w1)" using html_init_holds [OF assms(3,2)] s by (simp add: holds_def mroonga_snippet_html_slots_def)
  from html_rows [OF s this]
  obtain w' where "run_statement (mroonga_snippet_html_init env initialized d) (mroonga_snippet_html env) mroonga_snippet_html_deinit args rows w
      = Some (Inr (map (html_answer env sn) rows), w')" "same_resources w w'"
    using sh.statement_balanced [OF assms(3,2)] s by blast
  then show ?thesis using prepared_keywords [OF 2(3)] by blast
qed

section \<open>An example, and where the function fails\<close>

definition sample_html_env :: "string list \<Rightarrow> html_env" where
  "sample_html_env refused = \<lparr>system_charset = sample_charset ''utf8mb4'' 2, html_encodings = (\<lambda>v. Some (sample_charset ''utf8mb4'' 2)), html_opens = True,
     lexicon_there = (\<lambda>l. True), html_mb_wc = latin_mb_wc, html_wc_mb = filename_wc_mb, html_key_size = 4096,
     parsed_query = (\<lambda>q. if q \<in> set refused then None else Some [q]), takes_keyword = (\<lambda>sn k. k \<notin> set refused),
     html_exec = (\<lambda>sn t. Some (map Some (filter (\<lambda>k. k = t) (hs_keywords sn))))\<rparr>"

definition sample_html_args :: "string \<Rightarrow> udf_arg list" where
  "sample_html_args target = [\<lparr>arg_type = STRING_RESULT, attribute = [], arg = Some target\<rparr>,
     \<lparr>arg_type = STRING_RESULT, attribute = ''query'', arg = Some ''full''\<rparr>,
     \<lparr>arg_type = STRING_RESULT, attribute = ''lexicon_name'', arg = Some ''words''\<rparr>,
     \<lparr>arg_type = STRING_RESULT, attribute = ''keyword'', arg = Some ''text''\<rparr>]"

theorem html_statement_witness:
  "\<exists>sn w'. run_statement (mroonga_snippet_html_init (sample_html_env []) True Shared_database) (mroonga_snippet_html (sample_html_env []))
      mroonga_snippet_html_deinit (sample_html_args ''text'') [sample_html_args ''text''] start_world
    = Some (Inr (map (html_answer (sample_html_env []) sn) [sample_html_args ''text'']), w')
    \<and> hs_keywords sn = [''full'', ''text''] \<and> same_resources start_world w'"
proof -
  let ?args = "sample_html_args ''text''" and ?env = "sample_html_env []"
  have "map_option (\<lambda>(r, w). isl r) (mroonga_snippet_html_init ?env True Shared_database ?args start_world) = Some False" by code_simp
  then obtain info w1 where init: "mroonga_snippet_html_init ?env True Shared_database ?args start_world = Some (Inr info, w1)"
    by (auto split: prod.splits) (metis isl_def old.sum.exhaust)
  have 1: "list_all (\<lambda>a. arg a \<noteq> None) (tl ?args)" by code_simp
  have 2: "world_ok start_world" by code_simp
  have "concat (map (named_keywords ?env) (tl ?args)) = [''full'', ''text'']" by code_simp
  then show ?thesis using html_statement [OF 1 init 2, of "[?args]"] by simp
qed

text \<open>A row whose preparation fails closes its snippet twice; a row that is prepared successfully leaves a reference to the lexicon behind; and
  an init function that fails leaves the table for queries behind.\<close>

lemma failed_row_closes_twice:
  "mroonga_snippet_html (sample_html_env [''text'']) (empty_html_info None) (sample_html_args ''text'') start_world = None"
  by code_simp

lemma rows_leak_lexicon:
  "map_option (\<lambda>(rs, info, w). (hi_lexicon info, live w))
      (run_rows (mroonga_snippet_html (sample_html_env [])) [sample_html_args ''text'', sample_html_args ''text'']
         ((empty_html_info None)\<lparr>lexicon_name_index := 2\<rparr>) start_world)
    = Some (Some 5, [5, 3, 2, 1])"
  by code_simp

lemma failed_init_leaks_query_table:
  "map_option (\<lambda>(r, w). (isl r, live w)) (mroonga_snippet_html_init (sample_html_env [''text'']) True Shared_database (sample_html_args ''a'') start_world)
    = Some (True, [3, 2, 1])"
  by code_simp

end
