(* ===== verification/Udf_Query.thy ===== *)
theory Udf_Query
  imports Udf_Session Query_Parser
begin

text \<open>
  The user defined functions \<^verbatim>\<open>mroonga_normalize\<close>, \<^verbatim>\<open>mroonga_query_expand\<close> and \<^verbatim>\<open>mroonga_last_insert_grn_id\<close>
  (\<^verbatim>\<open>udf/mrn_udf_normalize.cpp\<close>, \<^verbatim>\<open>udf/mrn_udf_query_expand.cpp\<close>, \<^verbatim>\<open>udf/mrn_udf_last_insert_grn_id.cpp\<close>). Groonga's normalizers, its
  tables and its expansion of queries are parameters; the pragmas of a query are those of \<^verbatim>\<open>Query_Parser\<close>. A null pointer that is read,
  and an argument that is not there, are \<^const>\<open>None\<close>.
\<close>

section \<open>Normalizing\<close>

record normalize_env =
  normalizer_there :: "string \<Rightarrow> bool"
  normalized_text :: "string \<Rightarrow> string \<Rightarrow> string option"
  normalize_charset :: charset
  normalize_encodings :: encoding_globals

record normalize_info =
  ni_database :: "nat option"
  ni_normalizer :: nat
  ni_name :: string

datatype normalize_error = Normalize_not_initialized | Normalize_wrong_number nat | Normalize_not_string nat
  | Normalize_no_database | No_normalizer string

definition DEFAULT_NORMALIZER_NAME :: string where "DEFAULT_NORMALIZER_NAME = ''NormalizerAuto''"

text \<open>The message about a normalizer that does not exist names the second argument, whether or not there is one.\<close>

definition mroonga_normalize_init ::
    "normalize_env \<Rightarrow> bool \<Rightarrow> current_database \<Rightarrow> udf_arg list \<Rightarrow> udf_world \<Rightarrow> ((normalize_error + normalize_info) \<times> udf_world) option" where
  "mroonga_normalize_init env initialized d args w =
     (if \<not> initialized then Some (Inl Normalize_not_initialized, w)
      else if \<not> (1 \<le> length args \<and> length args \<le> 2) then Some (Inl (Normalize_wrong_number (length args)), w)
      else if arg_type (args ! 0) \<noteq> STRING_RESULT then Some (Inl (Normalize_not_string 0), w)
      else if length args = 2 \<and> arg_type (args ! 1) \<noteq> STRING_RESULT then Some (Inl (Normalize_not_string 1), w)
      else (case attach_database d (pull_context w) of
          (None, w1) \<Rightarrow> Some (Inl Normalize_no_database, release_context w1)
        | (Some own, w1) \<Rightarrow> do {
            nm \<leftarrow> (if length args = 1 then Some DEFAULT_NORMALIZER_NAME else arg (args ! 1));
            (if normalizer_there env nm then (case open_handle w1 of (h, w2) \<Rightarrow> do {
               enc \<leftarrow> set_raw (normalize_encodings env) (Some (normalize_charset env));
               Some (Inr \<lparr>ni_database = own, ni_normalizer = h, ni_name = nm\<rparr>, w2) })
             else if length args = 1 then None
             else map_option (\<lambda>w2. (Inl (No_normalizer nm), release_context w2)) (close_slot own w1)) }))"

definition mroonga_normalize :: "normalize_env \<Rightarrow> normalize_info \<Rightarrow> udf_arg list \<Rightarrow> udf_world \<Rightarrow> (udf_row \<times> normalize_info \<times> udf_world) option" where
  "mroonga_normalize env info args w = (case arg (hd args) of
      None \<Rightarrow> Some (Row_null, info, w)
    | Some target \<Rightarrow>
        if ni_normalizer info \<notin> set (live w) then None
        else (case normalized_text env (ni_name info) target of
            None \<Rightarrow> Some (Row_failed, info, w)
          | Some s \<Rightarrow> Some (Row_text s, info, w)))"

definition mroonga_normalize_slots :: "normalize_info \<Rightarrow> nat option list" where
  "mroonga_normalize_slots info = [Some (ni_normalizer info), ni_database info]"

definition mroonga_normalize_deinit :: "normalize_info \<Rightarrow> udf_world \<Rightarrow> udf_world option" where
  "mroonga_normalize_deinit info w = map_option release_context (close_slots (mroonga_normalize_slots info) w)"

section \<open>Expanding queries\<close>

text \<open>A column that is an accessor, like \<^verbatim>\<open>_key\<close>, has to be given back.\<close>

datatype column_kind = No_column | Real_column | Accessor

record expand_env =
  table_there :: "string \<Rightarrow> bool"
  column_kind_of :: "string \<Rightarrow> string \<Rightarrow> column_kind"
  expansion :: "string \<Rightarrow> int \<Rightarrow> expr_flag list \<Rightarrow> string option"
  expand_query_env :: query_env
  session_syntax_flags :: "64 word"

record expand_info =
  term_column :: "nat option"
  expanded_term_column :: "nat option"

datatype expand_error = Expand_not_initialized | Expand_wrong_number nat | Expand_not_string nat | Expand_no_current_database
  | Expand_no_database | Expand_no_table | Expand_no_term_column | Expand_no_expanded_term_column

definition open_column :: "column_kind \<Rightarrow> udf_world \<Rightarrow> nat option option \<times> udf_world" where
  "open_column k w = (case k of
      No_column \<Rightarrow> (None, w) | Real_column \<Rightarrow> (Some None, w) | Accessor \<Rightarrow> (case open_handle w of (h, w1) \<Rightarrow> (Some (Some h), w1)))"

definition mroonga_query_expand_slots :: "expand_info \<Rightarrow> nat option list" where
  "mroonga_query_expand_slots info = [expanded_term_column info, term_column info]"

definition mrn_query_expand_info_free :: "expand_info \<Rightarrow> udf_world \<Rightarrow> udf_world option" where
  "mrn_query_expand_info_free info w = map_option release_context (close_slots (mroonga_query_expand_slots info) w)"

definition expand_columns ::
    "expand_env \<Rightarrow> string \<Rightarrow> udf_arg list \<Rightarrow> udf_world \<Rightarrow> ((expand_error + expand_info) \<times> udf_world) option" where
  "expand_columns env table_nm args w = do {
     term \<leftarrow> arg (args ! 1);
     (case open_column (column_kind_of env table_nm term) w of
        (None, w1) \<Rightarrow> map_option (Pair (Inl Expand_no_term_column)) (mrn_query_expand_info_free \<lparr>term_column = None, expanded_term_column = None\<rparr> w1)
      | (Some t, w1) \<Rightarrow> do {
          expanded \<leftarrow> arg (args ! 2);
          (case open_column (column_kind_of env table_nm expanded) w1 of
             (None, w2) \<Rightarrow> map_option (Pair (Inl Expand_no_expanded_term_column))
                 (mrn_query_expand_info_free \<lparr>term_column = t, expanded_term_column = None\<rparr> w2)
           | (Some e, w2) \<Rightarrow> Some (Inr \<lparr>term_column = t, expanded_term_column = e\<rparr>, w2)) }) }"

definition not_string :: "udf_arg list \<Rightarrow> nat option" where
  "not_string args = find (\<lambda>i. arg_type (args ! i) \<noteq> STRING_RESULT) [0 ..< 4]"

definition mroonga_query_expand_init ::
    "expand_env \<Rightarrow> bool \<Rightarrow> current_database \<Rightarrow> udf_arg list \<Rightarrow> udf_world \<Rightarrow> ((expand_error + expand_info) \<times> udf_world) option" where
  "mroonga_query_expand_init env initialized d args w =
     (if \<not> initialized then Some (Inl Expand_not_initialized, w)
      else if length args \<noteq> 4 then Some (Inl (Expand_wrong_number (length args)), w)
      else case not_string args of Some i \<Rightarrow> Some (Inl (Expand_not_string i), w)
      | None \<Rightarrow>
          if d = Anonymous_database \<or> d = No_anonymous_database then Some (Inl Expand_no_current_database, w)
          else if d = Unopenable_database then Some (Inl Expand_no_database, w)
          else do {
            table_nm \<leftarrow> arg (args ! 0);
            (if \<not> table_there env table_nm then
               map_option (Pair (Inl Expand_no_table))
                 (mrn_query_expand_info_free \<lparr>term_column = None, expanded_term_column = None\<rparr> (pull_context w))
             else expand_columns env table_nm args (pull_context w)) })"

text \<open>The pragmas of a query are copied, the rest is expanded. The parser has no columns and no sections; \<open>behind\<close> is what lies in memory
  behind the query.\<close>

definition no_columns_parser :: query_parser where
  "no_columns_parser = \<lparr>n_sections = 0, target_is_vector = False, match_columns = None\<rparr>"

definition query_expand :: "expand_env \<Rightarrow> string \<Rightarrow> string \<Rightarrow> string option option" where
  "query_expand env qtext behind = do {
     r \<leftarrow> parse_pragma (expand_query_env env) (session_syntax_flags env) no_columns_parser (qtext @ behind) (of_nat (length qtext));
     Some (map_option (\<lambda>s. take (length (qtext @ behind) - length (raw_query r)) (qtext @ behind) @ s)
       (expansion env (raw_query r) (sint (ucast (raw_query_length r) :: 32 word)) (expression_flags r))) }"

definition mroonga_query_expand ::
    "expand_env \<Rightarrow> string \<Rightarrow> expand_info \<Rightarrow> udf_arg list \<Rightarrow> udf_world \<Rightarrow> (udf_row \<times> expand_info \<times> udf_world) option" where
  "mroonga_query_expand env behind info args w = (case arg (args ! 3) of
      None \<Rightarrow> Some (Row_null, info, w)
    | Some qtext \<Rightarrow>
        if \<not> set (owned (mroonga_query_expand_slots info)) \<subseteq> set (live w) then None
        else map_option (\<lambda>r. ((case r of None \<Rightarrow> Row_failed | Some s \<Rightarrow> Row_text s), info, w)) (query_expand env qtext behind))"

section \<open>The last inserted record\<close>

text \<open>The data of a session: the number of the record that was inserted last, 0 before the first one.\<close>

definition mrn_get_slot_data :: "bool \<Rightarrow> nat option \<Rightarrow> nat option" where
  "mrn_get_slot_data can_create slot = (if slot = None \<and> can_create then Some 0 else slot)"

definition record_last_insert :: "nat \<Rightarrow> nat option \<Rightarrow> nat option" where
  "record_last_insert record_id slot = map_option (\<lambda>_. record_id) (mrn_get_slot_data True slot)"

definition last_insert_init :: "bool \<Rightarrow> 'a list \<Rightarrow> bool" where
  "last_insert_init initialized args \<longleftrightarrow> initialized \<and> args = []"

definition mroonga_last_insert_grn_id :: "nat option \<Rightarrow> nat" where
  "mroonga_last_insert_grn_id slot = (case mrn_get_slot_data False slot of None \<Rightarrow> 0 | Some r \<Rightarrow> r)"

lemma last_insert_is_last_write: "mroonga_last_insert_grn_id (fold record_last_insert rs None) = (if rs = [] then 0 else last rs)"
proof -
  have "fold record_last_insert rs s = (if rs = [] then s else Some (last rs))" for s
    by (induction rs arbitrary: s) (auto simp: record_last_insert_def mrn_get_slot_data_def)
  then show ?thesis by (simp add: mroonga_last_insert_grn_id_def mrn_get_slot_data_def)
qed

section \<open>Statements\<close>

lemma normalize_init_cases:
  assumes "mroonga_normalize_init env initialized d args w = Some (r, w')"
  obtains e where "r = Inl e" "w' = w"
  | "r = Inl Normalize_no_database" "w' = release_context (pull_context w)"
  | own w1 h nm where "attach_database d (pull_context w) = (Some own, w1)" "open_handle w1 = (h, w')"
      "r = Inr \<lparr>ni_database = own, ni_normalizer = h, ni_name = nm\<rparr>"
  | own w1 w2 nm where "attach_database d (pull_context w) = (Some own, w1)" "close_slot own w1 = Some w2"
      "r = Inl (No_normalizer nm)" "w' = release_context w2"
proof (cases "attach_database d (pull_context w)")
  case (Pair a w1)
  then show ?thesis
    using assms that attach_database_failed [of d "pull_context w"] unfolding mroonga_normalize_init_def
    by (cases "open_handle w1") (auto simp: bind_eq_Some_conv split: if_splits option.splits)
qed

lemma normalize_opens:
  assumes "world_ok w" "attach_database d (pull_context w) = (Some own, w1)" "open_handle w1 = (h, w2)"
  shows "holds [Some h, own] w w2"
proof -
  have o: "opens_one (pull_context w) own w1" by (rule attach_database_one [OF _ assms(2)]) (simp add: assms(1))
  then show ?thesis using holds_two [OF o opens_one_handle [OF _ assms(3)]] by (simp add: opens_one_def)
qed

interpretation nm: clean_udf "mroonga_normalize_init env initialized d" "mroonga_normalize env" mroonga_normalize_deinit mroonga_normalize_slots
  "\<lambda>info. True" for env initialized d
proof
  fix w args info w'
  assume w: "world_ok w" and i: "mroonga_normalize_init env initialized d args w = Some (Inr info, w')"
  from i show "holds (mroonga_normalize_slots info) w w'"
    by (cases rule: normalize_init_cases) (auto simp: mroonga_normalize_slots_def normalize_opens [OF w])
next
  fix info args w r info' w'
  assume "mroonga_normalize env info args w = Some (r, info', w')"
  then show "info' = info \<and> w' = w" by (auto simp: mroonga_normalize_def split: option.splits if_splits)
next
  fix info w
  show "mroonga_normalize_deinit info w = map_option release_context (close_slots (mroonga_normalize_slots info) w)"
    by (rule mroonga_normalize_deinit_def)
next
  fix w args e w'
  assume w: "world_ok w" and i: "mroonga_normalize_init env initialized d args w = Some (Inl e, w')"
  from i show "same_resources w w'"
  proof (cases rule: normalize_init_cases)
    case (4 own w1 w2 nm)
    have o: "opens_one (pull_context w) own w1" by (rule attach_database_one [OF _ 4(1)]) (simp add: w)
    then show ?thesis using released [OF o opens_one_none 4(2)] 4(4) by (simp add: opens_one_def)
  qed (auto simp: same_resources_def)
qed

lemma open_column_one: "world_ok w \<Longrightarrow> open_column k w = (Some s, w') \<Longrightarrow> opens_one w s w'"
  by (cases k; cases "open_handle w") (auto simp: open_column_def opens_one_none opens_one_handle)

lemma open_column_failed: "open_column k w = (None, w') \<Longrightarrow> w' = w"
  by (cases k) (auto simp: open_column_def split: prod.splits)

lemma expand_init_cases:
  assumes "mroonga_query_expand_init env initialized d args w = Some (r, w')"
  obtains e where "r = Inl e" "w' = w" | e where "r = Inl e" "w' = release_context (pull_context w)"
  | table_nm where "expand_columns env table_nm args (pull_context w) = Some (r, w')"
  using assms unfolding mroonga_query_expand_init_def mrn_query_expand_info_free_def mroonga_query_expand_slots_def
  by (auto simp: bind_eq_Some_conv close_slot_def split: if_splits option.splits)

lemma expand_columns_cases:
  assumes "expand_columns env table_nm args w = Some (r, w')"
  obtains e where "r = Inl e" "w' = release_context w"
  | t k w1 w2 where "open_column k w = (Some t, w1)" "close_slot t w1 = Some w2" "r = Inl Expand_no_expanded_term_column" "w' = release_context w2"
  | t e k k' w1 where "open_column k w = (Some t, w1)" "open_column k' w1 = (Some e, w')" "r = Inr \<lparr>term_column = t, expanded_term_column = e\<rparr>"
proof -
  obtain trm where t: "arg (args ! 1) = Some trm" using assms by (auto simp: expand_columns_def bind_eq_Some_conv)
  obtain c w1 where c: "open_column (column_kind_of env table_nm trm) w = (c, w1)" by force
  show ?thesis
  proof (cases c)
    case None
    then show ?thesis using assms that(1) t c open_column_failed [OF c [unfolded None]]
      by (auto simp: expand_columns_def mrn_query_expand_info_free_def mroonga_query_expand_slots_def close_slot_def)
  next
    case (Some tc)
    obtain expanded where e: "arg (args ! 2) = Some expanded" using assms t c Some by (auto simp: expand_columns_def bind_eq_Some_conv)
    obtain c' w2 where c': "open_column (column_kind_of env table_nm expanded) w1 = (c', w2)" by force
    show ?thesis
    proof (cases c')
      case None
      then show ?thesis using assms that(2) t c Some e c' open_column_failed [OF c' [unfolded None]]
        by (auto simp: expand_columns_def mrn_query_expand_info_free_def mroonga_query_expand_slots_def close_slot_def bind_eq_Some_conv)
    next
      case (Some ec)
      then show ?thesis using assms that(3) t c \<open>c = Some tc\<close> e c' by (auto simp: expand_columns_def)
    qed
  qed
qed

interpretation qe: clean_udf "mroonga_query_expand_init env initialized d" "mroonga_query_expand env behind" mrn_query_expand_info_free
  mroonga_query_expand_slots "\<lambda>info. True" for env behind initialized d
proof
  fix w args info w'
  assume w: "world_ok w" and i: "mroonga_query_expand_init env initialized d args w = Some (Inr info, w')"
  have p: "world_ok (pull_context w)" using w by simp
  from i obtain table_nm where "expand_columns env table_nm args (pull_context w) = Some (Inr info, w')"
    by (cases rule: expand_init_cases) auto
  then show "holds (mroonga_query_expand_slots info) w w'"
  proof (cases rule: expand_columns_cases)
    case (3 t e k k' w1)
    have o: "opens_one (pull_context w) t w1" by (rule open_column_one [OF p 3(1)])
    then show ?thesis using holds_two [OF o open_column_one [OF _ 3(2)]] 3(3) by (simp add: mroonga_query_expand_slots_def opens_one_def)
  qed simp_all
next
  fix info args w r info' w'
  assume "mroonga_query_expand env behind info args w = Some (r, info', w')"
  then show "info' = info \<and> w' = w" by (auto simp: mroonga_query_expand_def split: option.splits if_splits)
next
  fix info w
  show "mrn_query_expand_info_free info w = map_option release_context (close_slots (mroonga_query_expand_slots info) w)"
    by (rule mrn_query_expand_info_free_def)
next
  fix w args e w'
  assume w: "world_ok w" and i: "mroonga_query_expand_init env initialized d args w = Some (Inl e, w')"
  have p: "world_ok (pull_context w)" using w by simp
  from i show "same_resources w w'"
  proof (cases rule: expand_init_cases)
    case (3 table_nm)
    then show ?thesis
    proof (cases rule: expand_columns_cases)
      case (2 t k w1 w2)
      have o: "opens_one (pull_context w) t w1" by (rule open_column_one [OF p 2(1)])
      then show ?thesis using released [OF o opens_one_none 2(2)] 2(4) by (simp add: opens_one_def)
    qed (auto simp: same_resources_def)
  qed (auto simp: same_resources_def)
qed

text \<open>Whatever the server calls these functions with and whatever fails, a statement gives back what it has taken.\<close>

lemma normalize_statement_balanced:
  assumes "world_ok w" "run_statement (mroonga_normalize_init env initialized d) (mroonga_normalize env) mroonga_normalize_deinit args rows w = Some (r, w')"
  shows "same_resources w w'"
  using nm.any_statement_balanced assms by blast

lemma expand_statement_balanced:
  assumes "world_ok w"
    and "run_statement (mroonga_query_expand_init env initialized d) (mroonga_query_expand env behind) mrn_query_expand_info_free args rows w = Some (r, w')"
  shows "same_resources w w'"
  using qe.any_statement_balanced assms by blast

text \<open>A query that begins with an operator pragma keeps the pragma, and exactly the rest of it is expanded.\<close>

lemma expanded_query:
  assumes "arg (args ! 3) = Some (''*D'' @ operator_text opr @ '' '' @ q)" "q = [] \<or> hd q \<noteq> CHR '' '' \<and> hd q \<noteq> CHR ''+''"
    and "length q < 2 ^ 31" "set (owned (mroonga_query_expand_slots info)) \<subseteq> set (live w)"
    and "expansion env (q @ behind) (int (length q)) (default_expression_flags (session_syntax_flags env)) = Some s"
  shows "mroonga_query_expand env behind info args w = Some (Row_text (''*D'' @ operator_text opr @ '' '' @ s), info, w)"
proof -
  let ?q = "''*D'' @ operator_text opr @ '' '' @ q"
  have len: "length ?q < 2 ^ 64" using assms(3) by (cases opr) (simp_all add: operator_text_def)
  have "sint (ucast (of_nat (length q) :: size_t) :: 32 word) = int (length q)"
  proof -
    have "take_bit 64 (length q) = length q" by (rule take_bit_nat_eq_self) (use assms(3) in simp)
    then have "ucast (of_nat (length q) :: size_t) = (of_nat (length q) :: 32 word)" by (simp add: unsigned_of_nat)
    then show ?thesis using assms(3) by (simp add: sint_uint signed_take_bit_int_eq_self unsigned_of_nat take_bit_nat_eq_self)
  qed
  note expansion = assms(5) [folded this]
  let ?p = "''*D'' @ operator_text opr @ '' ''"
  have "take (length (?p @ q @ behind) - length (q @ behind)) (?p @ q @ behind) = ?p"
    unfolding length_append by (metis append_eq_conv_conj diff_add_inverse2 length_append)
  then have pragma: "take (length (?q @ behind) - length (q @ behind)) (?q @ behind) = ?p" by (simp only: append_assoc)
  have "query_expand env ?q behind = Some (Some (?p @ s))"
    unfolding query_expand_def operator_pragma [OF refl len assms(2), of "expand_query_env env" "session_syntax_flags env" no_columns_parser behind]
    using expansion pragma by (simp only: Option.bind_lunit pragma_result.simps option.map)
  then show ?thesis using assms(1,4) by (simp add: mroonga_query_expand_def)
qed

text \<open>The parser of this function has no sections, so it takes a weight pragma for a part of the query and has it expanded.\<close>

lemma weight_pragma_expanded:
  "query_expand \<lparr>table_there = (\<lambda>t. True), column_kind_of = (\<lambda>t c. Accessor), expansion = (\<lambda>q n fs. Some (''(('' @ take (nat n) q @ ''))'')),
     expand_query_env = decimal_env, session_syntax_flags = 1\<rparr> ''*W1:2 word'' [] = Some (Some ''((*W1:2 word))'')"
  by code_simp

text \<open>A missing default normalizer is reported with the name of an argument that was not given.\<close>

lemma missing_default_normalizer_faults:
  assumes "\<not> normalizer_there env DEFAULT_NORMALIZER_NAME" "arg_type a = STRING_RESULT"
  shows "mroonga_normalize_init env True Shared_database [a] w = None"
  using assms by (simp add: mroonga_normalize_init_def attach_database_def)

end
