(* ===== verification/Wrapper_Index.thy ===== *)
theory Wrapper_Index
  imports Mrn_Prelude
begin

text \<open>
  Rows and indexes in wrapper mode (\<^verbatim>\<open>wrapper_write_row\<close>, \<^verbatim>\<open>wrapper_update_row\<close>, \<^verbatim>\<open>wrapper_delete_row\<close>,
  \<^verbatim>\<open>wrapper_delete_all_rows\<close>, \<^verbatim>\<open>wrapper_truncate\<close>, \<^verbatim>\<open>wrapper_fill_indexes\<close> and their helpers in
  \<^verbatim>\<open>ha_mroonga.cpp\<close>): another engine has the rows, a Groonga table has their primary keys, and full text and geometry indexes refer to its
  records. The other engine, the tokens of a text in an index and what Groonga refuses are parameters. Swapping the key numbers is in
  \<^verbatim>\<open>Table_Share\<close>, the journal in \<^verbatim>\<open>Operations\<close>.
\<close>

section \<open>Rows, records and postings\<close>

type_synonym wrap_row = "string option list"

record wrap_key =
  wk_target :: bool
  wk_parts :: "nat list"

datatype wrap_error = Engine_error int | Value_error nat | Write_error

datatype engine_call = Engine_write wrap_row | Engine_update wrap_row wrap_row | Engine_delete wrap_row | Engine_delete_all | Engine_truncate

record wrap_env =
  wrap_keys :: "wrap_key list"
  key_image :: "wrap_row \<Rightarrow> string"
  index_tokens :: "nat \<Rightarrow> string \<Rightarrow> string list"
  null_content :: string
  dry_write :: bool
  engine_error :: "engine_call \<Rightarrow> wrap_row list \<Rightarrow> int option"
  value_fails :: "nat \<Rightarrow> bool"
  refuses_record :: "string \<Rightarrow> bool"
  refuses_posting :: "nat \<Rightarrow> nat \<Rightarrow> nat \<Rightarrow> bool"
  refuses_clear :: "nat option \<Rightarrow> bool"

text \<open>A posting: the index, the section, the record and the token. \<open>index_open\<close> tells which indexes are enabled.\<close>

record wrap_state =
  engine_rows :: "wrap_row list"
  grn_records :: "(nat \<times> string) list"
  next_record :: nat
  postings :: "(nat \<times> nat \<times> nat \<times> string) set"
  index_open :: "bool list"

definition have_target_index :: "wrap_env \<Rightarrow> bool" where
  "have_target_index env \<longleftrightarrow> list_ex wk_target (wrap_keys env)"

text \<open>The parts that the loops over keys and their parts reach: the index, the section and the column.\<close>

definition target_parts :: "wrap_env \<Rightarrow> bool list \<Rightarrow> (nat \<times> nat \<times> nat) list" where
  "target_parts env opened = concat (map (\<lambda>i. let k = wrap_keys env ! i in
       if wk_target k \<and> i < length opened \<and> opened ! i then map (\<lambda>j. (i, Suc j, wk_parts k ! j)) [0 ..< length (wk_parts k)] else [])
     [0 ..< length (wrap_keys env)])"

definition part_postings :: "wrap_env \<Rightarrow> nat \<Rightarrow> nat \<Rightarrow> nat \<Rightarrow> string option \<Rightarrow> (nat \<times> nat \<times> nat \<times> string) set" where
  "part_postings env i sec rid v = (case v of None \<Rightarrow> {} | Some s \<Rightarrow> (\<lambda>t. (i, sec, rid, t)) ` set (index_tokens env i s))"

definition table_add :: "wrap_env \<Rightarrow> string \<Rightarrow> wrap_state \<Rightarrow> (nat \<times> bool) option \<times> wrap_state" where
  "table_add env k st =
     (if refuses_record env k then (None, st)
      else case find (\<lambda>x. snd x = k) (grn_records st) of
        Some x \<Rightarrow> (Some (fst x, False), st)
      | None \<Rightarrow> (Some (next_record st, True), st\<lparr>grn_records := grn_records st @ [(next_record st, k)], next_record := next_record st + 1\<rparr>))"

definition table_get :: "string \<Rightarrow> wrap_state \<Rightarrow> nat option" where
  "table_get k st = map_option fst (find (\<lambda>x. snd x = k) (grn_records st))"

text \<open>Deleting a record that is not there is an error.\<close>

definition delete_by_id :: "nat \<Rightarrow> wrap_state \<Rightarrow> bool \<times> wrap_state" where
  "delete_by_id rid st =
     (if rid \<in> fst ` set (grn_records st) then (True, st\<lparr>grn_records := filter (\<lambda>x. fst x \<noteq> rid) (grn_records st)\<rparr>) else (False, st))"

definition index_update ::
    "wrap_env \<Rightarrow> nat \<Rightarrow> nat \<Rightarrow> nat \<Rightarrow> string option \<Rightarrow> string option \<Rightarrow> wrap_state \<Rightarrow> bool \<times> wrap_state" where
  "index_update env i rid sec old new st =
     (if refuses_posting env i rid sec then (False, st)
      else (True, st\<lparr>postings := (postings st - part_postings env i sec rid old) \<union> part_postings env i sec rid new\<rparr>))"

section \<open>Writing a row\<close>

fun write_parts :: "wrap_env \<Rightarrow> nat \<Rightarrow> wrap_row \<Rightarrow> (nat \<times> nat \<times> nat) list \<Rightarrow> wrap_state \<Rightarrow> wrap_error option \<times> wrap_state" where
  "write_parts env rid row [] st = (None, st)"
| "write_parts env rid row ((i, sec, p) # ps) st = (case row ! p of
      None \<Rightarrow> write_parts env rid row ps st
    | Some v \<Rightarrow>
        if value_fails env p then (Some (Value_error p), st)
        else (case index_update env i rid sec None (Some v) st of
            (True, st1) \<Rightarrow> write_parts env rid row ps st1
          | (False, st1) \<Rightarrow> (Some Write_error, st1)))"

text \<open>A record that cannot be added is only a warning.\<close>

definition wrapper_write_row_index :: "wrap_env \<Rightarrow> wrap_row \<Rightarrow> wrap_state \<Rightarrow> wrap_error option \<times> wrap_state" where
  "wrapper_write_row_index env row st =
     (if dry_write env then (None, st)
      else (case table_add env (key_image env row) st of
          (None, st1) \<Rightarrow> (None, st1)
        | (Some (rid, added), st1) \<Rightarrow> write_parts env rid row (target_parts env (index_open st)) st1))"

definition call_engine :: "wrap_env \<Rightarrow> engine_call \<Rightarrow> wrap_row list \<Rightarrow> wrap_error + wrap_row list" where
  "call_engine env c rows = (case engine_error env c rows of
      Some e \<Rightarrow> Inl (Engine_error e)
    | None \<Rightarrow> Inr (case c of
          Engine_write row \<Rightarrow> rows @ [row]
        | Engine_update old new \<Rightarrow> map (\<lambda>r. if r = old then new else r) rows
        | Engine_delete row \<Rightarrow> filter (\<lambda>r. r \<noteq> row) rows
        | _ \<Rightarrow> []))"

text \<open>A statement of the other engine, and behind it the indexes when there are any.\<close>

definition wrapper_statement ::
    "wrap_env \<Rightarrow> engine_call \<Rightarrow> (wrap_state \<Rightarrow> wrap_error option \<times> wrap_state) \<Rightarrow> wrap_state \<Rightarrow> wrap_error option \<times> wrap_state" where
  "wrapper_statement env c indexes st = (case call_engine env c (engine_rows st) of
      Inl e \<Rightarrow> (Some e, st)
    | Inr rows \<Rightarrow> (let st1 = st\<lparr>engine_rows := rows\<rparr> in if have_target_index env then indexes st1 else (None, st1)))"

definition wrapper_write_row :: "wrap_env \<Rightarrow> wrap_row \<Rightarrow> wrap_state \<Rightarrow> wrap_error option \<times> wrap_state" where
  "wrapper_write_row env row = wrapper_statement env (Engine_write row) (wrapper_write_row_index env row)"

section \<open>Updating a row\<close>

text \<open>NULL is not looked at: the content of the record buffer is taken. A record that is not the one of the new key is deleted with every part.\<close>

definition content :: "wrap_env \<Rightarrow> string option \<Rightarrow> string option" where
  "content env v = Some (case v of None \<Rightarrow> null_content env | Some s \<Rightarrow> s)"

definition update_part ::
    "wrap_env \<Rightarrow> nat \<Rightarrow> nat \<Rightarrow> bool \<Rightarrow> nat \<Rightarrow> nat \<Rightarrow> string option \<Rightarrow> string option \<Rightarrow> wrap_state \<Rightarrow> bool \<times> wrap_state" where
  "update_part env old_id new_id added i sec old new st =
     (if old_id = new_id \<and> \<not> added then index_update env i old_id sec (content env old) (content env new) st
      else (case index_update env i old_id sec (content env old) None st of
          (False, st1) \<Rightarrow> (False, st1)
        | (True, st1) \<Rightarrow> (case index_update env i new_id sec None (content env new) st1 of
              (False, st2) \<Rightarrow> (False, st2)
            | (True, st2) \<Rightarrow> if old_id = new_id then (True, st2) else delete_by_id old_id st2)))"

fun update_parts ::
    "wrap_env \<Rightarrow> nat \<Rightarrow> nat \<Rightarrow> bool \<Rightarrow> wrap_row \<Rightarrow> wrap_row \<Rightarrow> (nat \<times> nat \<times> nat) list \<Rightarrow> wrap_state \<Rightarrow> wrap_error option \<times> wrap_state" where
  "update_parts env old_id new_id added old new [] st = (None, st)"
| "update_parts env old_id new_id added old new ((i, sec, p) # ps) st =
     (case update_part env old_id new_id added i sec (old ! p) (new ! p) st of
        (True, st1) \<Rightarrow> update_parts env old_id new_id added old new ps st1
      | (False, st1) \<Rightarrow> (Some Write_error, st1))"

definition wrapper_update_row_index :: "wrap_env \<Rightarrow> wrap_row \<Rightarrow> wrap_row \<Rightarrow> wrap_state \<Rightarrow> wrap_error option \<times> wrap_state" where
  "wrapper_update_row_index env old new st =
     (if dry_write env then (None, st)
      else (case table_add env (key_image env new) st of
          (None, st1) \<Rightarrow> (Some Write_error, st1)
        | (Some (new_id, added), st1) \<Rightarrow> (case table_get (key_image env old) st1 of
              None \<Rightarrow> (None, st1)
            | Some old_id \<Rightarrow> update_parts env old_id new_id added old new (target_parts env (index_open st)) st1)))"

definition wrapper_update_row :: "wrap_env \<Rightarrow> wrap_row \<Rightarrow> wrap_row \<Rightarrow> wrap_state \<Rightarrow> wrap_error option \<times> wrap_state" where
  "wrapper_update_row env old new = wrapper_statement env (Engine_update old new) (wrapper_update_row_index env old new)"

section \<open>Deleting rows\<close>

fun delete_parts :: "wrap_env \<Rightarrow> nat \<Rightarrow> wrap_row \<Rightarrow> (nat \<times> nat \<times> nat) list \<Rightarrow> wrap_state \<Rightarrow> wrap_error option \<times> wrap_state" where
  "delete_parts env rid row [] st = (None, st)"
| "delete_parts env rid row ((i, sec, p) # ps) st = (case row ! p of
      None \<Rightarrow> delete_parts env rid row ps st
    | Some v \<Rightarrow> (case index_update env i rid sec (Some v) None st of
          (True, st1) \<Rightarrow> delete_parts env rid row ps st1
        | (False, st1) \<Rightarrow> (Some Write_error, st1)))"

definition wrapper_delete_row_index :: "wrap_env \<Rightarrow> wrap_row \<Rightarrow> wrap_state \<Rightarrow> wrap_error option \<times> wrap_state" where
  "wrapper_delete_row_index env row st =
     (if dry_write env then (None, st)
      else (case table_get (key_image env row) st of
          None \<Rightarrow> (None, st)
        | Some rid \<Rightarrow> (case delete_parts env rid row (target_parts env (index_open st)) st of
              (e, st1) \<Rightarrow> (case delete_by_id rid st1 of (ok, st2) \<Rightarrow> (if ok then e else Some Write_error, st2)))))"

definition wrapper_delete_row :: "wrap_env \<Rightarrow> wrap_row \<Rightarrow> wrap_state \<Rightarrow> wrap_error option \<times> wrap_state" where
  "wrapper_delete_row env row = wrapper_statement env (Engine_delete row) (wrapper_delete_row_index env row)"

text \<open>Emptying an index table or, with \<^const>\<open>None\<close>, the table of the keys: by deleting every record, or at once.\<close>

definition clear_table :: "wrap_env \<Rightarrow> nat option \<Rightarrow> wrap_state \<Rightarrow> bool \<times> wrap_state" where
  "clear_table env t st =
     (if refuses_clear env t then (False, st)
      else (True, case t of
          None \<Rightarrow> st\<lparr>grn_records := []\<rparr>
        | Some i \<Rightarrow> st\<lparr>postings := {x \<in> postings st. fst x \<noteq> i}\<rparr>))"

fun clear_indexes :: "wrap_env \<Rightarrow> nat list \<Rightarrow> wrap_state \<Rightarrow> wrap_error option \<times> wrap_state" where
  "clear_indexes env [] st = (None, st)"
| "clear_indexes env (i # is) st = (case clear_table env (Some i) st of
      (True, st1) \<Rightarrow> clear_indexes env is st1 | (False, st1) \<Rightarrow> (Some Write_error, st1))"

definition open_targets :: "wrap_env \<Rightarrow> bool list \<Rightarrow> nat list" where
  "open_targets env opened = filter (\<lambda>i. wk_target (wrap_keys env ! i) \<and> i < length opened \<and> opened ! i) [0 ..< length (wrap_keys env)]"

definition clear_all :: "wrap_env \<Rightarrow> wrap_state \<Rightarrow> wrap_error option \<times> wrap_state" where
  "clear_all env st =
     (if dry_write env then (None, st)
      else (case clear_indexes env (open_targets env (index_open st)) st of
          (e, st1) \<Rightarrow> (case clear_table env None st1 of (ok, st2) \<Rightarrow> (if e \<noteq> None then e else if ok then None else Some Write_error, st2))))"

definition wrapper_delete_all_rows :: "wrap_env \<Rightarrow> wrap_state \<Rightarrow> wrap_error option \<times> wrap_state" where
  "wrapper_delete_all_rows env = wrapper_statement env Engine_delete_all (clear_all env)"

definition wrapper_truncate :: "wrap_env \<Rightarrow> wrap_state \<Rightarrow> wrap_error option \<times> wrap_state" where
  "wrapper_truncate env = wrapper_statement env Engine_truncate (clear_all env)"

section \<open>Filling indexes\<close>

text \<open>The scan over the rows of the other engine; the indexes that are filled are given by \<open>filled\<close>.\<close>

fun fill_rows :: "wrap_env \<Rightarrow> bool list \<Rightarrow> wrap_row list \<Rightarrow> wrap_state \<Rightarrow> wrap_error option \<times> wrap_state" where
  "fill_rows env filled [] st = (None, st)"
| "fill_rows env filled (row # rows) st = (case table_add env (key_image env row) st of
      (None, st1) \<Rightarrow> (Some Write_error, st1)
    | (Some (rid, added), st1) \<Rightarrow> (case write_parts env rid row (target_parts env filled) st1 of
          (None, st2) \<Rightarrow> fill_rows env filled rows st2
        | (Some e, st2) \<Rightarrow> (Some e, st2)))"

text \<open>\<open>lock_error\<close>, \<open>scan_error\<close> and \<open>end_error\<close> are the answers of the other engine to a lock that is needed, the start and the end of the scan.\<close>

definition wrapper_fill_indexes ::
    "wrap_env \<Rightarrow> bool \<Rightarrow> int option \<Rightarrow> int option \<Rightarrow> int option \<Rightarrow> bool list \<Rightarrow> wrap_state \<Rightarrow> wrap_error option \<times> wrap_state" where
  "wrapper_fill_indexes env need_lock lock_error scan_error end_error filled st =
     (if need_lock \<and> lock_error \<noteq> None then (map_option Engine_error lock_error, st)
      else if scan_error \<noteq> None then (map_option Engine_error scan_error, st)
      else (case fill_rows env filled (engine_rows st) st of
          (Some e, st1) \<Rightarrow> (Some e, st1)
        | (None, st1) \<Rightarrow> (map_option Engine_error end_error, st1)))"

section \<open>Loops without refusals\<close>

definition no_refusal :: "wrap_env \<Rightarrow> bool" where
  "no_refusal env \<longleftrightarrow> \<not> dry_write env \<and> (\<forall>p. \<not> value_fails env p) \<and> (\<forall>k. \<not> refuses_record env k) \<and> (\<forall>i rid sec. \<not> refuses_posting env i rid sec)
     \<and> (\<forall>t. \<not> refuses_clear env t) \<and> (\<forall>i. index_tokens env i (null_content env) = [])"

lemma no_refusal_simps [simp]:
  assumes "no_refusal env"
  shows "\<not> dry_write env" "\<not> value_fails env p" "\<not> refuses_record env k" "\<not> refuses_posting env i rid sec" "\<not> refuses_clear env t"
    "part_postings env i sec rid (content env v) = part_postings env i sec rid v"
  using assms by (auto simp: no_refusal_def part_postings_def content_def split: option.split)

definition row_postings :: "wrap_env \<Rightarrow> (nat \<times> nat \<times> nat) list \<Rightarrow> nat \<Rightarrow> wrap_row \<Rightarrow> (nat \<times> nat \<times> nat \<times> string) set" where
  "row_postings env ps rid row = (\<Union>(i, sec, p)\<in>set ps. part_postings env i sec rid (row ! p))"

lemma row_postings_simps [simp]:
  "row_postings env [] rid row = {}"
  "row_postings env ((i, sec, p) # ps) rid row = part_postings env i sec rid (row ! p) \<union> row_postings env ps rid row"
  by (simp_all add: row_postings_def)

lemma part_postings_mem: "x \<in> part_postings env i sec rid v \<Longrightarrow> \<exists>t. x = (i, sec, rid, t)"
  by (auto simp: part_postings_def split: option.splits)

lemma part_postings_None [simp]: "part_postings env i sec rid None = {}"
  by (simp add: part_postings_def)

lemma row_postings_mem: "x \<in> row_postings env ps rid row \<Longrightarrow> \<exists>i sec p t. x = (i, sec, rid, t) \<and> (i, sec, p) \<in> set ps"
  using part_postings_mem by (fastforce simp: row_postings_def)

lemma write_parts_ok:
  assumes "no_refusal env"
  shows "write_parts env rid row ps st = (None, st\<lparr>postings := postings st \<union> row_postings env ps rid row\<rparr>)"
proof (induction ps arbitrary: st)
  case (Cons x ps)
  obtain i sec p where x: "x = (i, sec, p)" by (cases x)
  show ?case
    by (cases "row ! p") (use assms Cons in \<open>simp_all add: x index_update_def Un_assoc part_postings_def\<close>)
qed simp

lemma delete_parts_ok:
  assumes "no_refusal env"
  shows "delete_parts env rid row ps st = (None, st\<lparr>postings := postings st - row_postings env ps rid row\<rparr>)"
proof (induction ps arbitrary: st)
  case (Cons x ps)
  obtain i sec p where x: "x = (i, sec, p)" by (cases x)
  show ?case
    by (cases "row ! p") (use assms Cons in \<open>simp_all add: x index_update_def Diff_eq Int_assoc part_postings_def\<close>)
qed simp

definition sections :: "(nat \<times> nat \<times> nat) list \<Rightarrow> (nat \<times> nat) list" where
  "sections ps = map (\<lambda>(i, sec, p). (i, sec)) ps"

lemma other_section:
  assumes "(i, sec) \<notin> set (sections ps)"
  shows "part_postings env i sec rid v \<inter> row_postings env ps rid' row = {}"
proof -
  have False if x: "x \<in> part_postings env i sec rid v" "x \<in> row_postings env ps rid' row" for x
  proof -
    obtain t where "x = (i, sec, rid, t)" using part_postings_mem [OF x(1)] by blast
    moreover obtain i' sec' p t' where "x = (i', sec', rid', t')" "(i', sec', p) \<in> set ps" using row_postings_mem [OF x(2)] by blast
    ultimately have "(i, sec, p) \<in> set ps" by simp
    then show False using assms by (force simp: sections_def)
  qed
  then show ?thesis by blast
qed

lemma update_parts_same:
  assumes "no_refusal env"
  shows "distinct (sections ps) \<Longrightarrow> update_parts env rid rid False old new ps st
    = (None, st\<lparr>postings := (postings st - row_postings env ps rid old) \<union> row_postings env ps rid new\<rparr>)"
proof (induction ps arbitrary: st)
  case (Cons x ps)
  obtain i sec p where x: "x = (i, sec, p)" by (cases x)
  have "part_postings env i sec rid (new ! p) \<inter> row_postings env ps rid old = {}"
    by (rule other_section) (use Cons.prems x in \<open>simp add: sections_def\<close>)
  then have "(((postings st - part_postings env i sec rid (old ! p)) \<union> part_postings env i sec rid (new ! p)) - row_postings env ps rid old) \<union> row_postings env ps rid new
      = (postings st - row_postings env (x # ps) rid old) \<union> row_postings env (x # ps) rid new" unfolding x by auto
  moreover have "distinct (sections ps)" using Cons.prems by (simp add: sections_def)
  ultimately show ?case using assms Cons.IH by (simp add: x update_part_def index_update_def)
qed simp

lemma target_parts_mem: "(i, sec, p) \<in> set (target_parts env opened) \<Longrightarrow> i \<in> set (open_targets env opened)"
  by (auto simp: target_parts_def open_targets_def Let_def split: if_splits)

lemma target_parts_distinct: "distinct (sections (target_parts env opened))"
proof -
  let ?f = "\<lambda>i. let k = wrap_keys env ! i in
       if wk_target k \<and> i < length opened \<and> opened ! i then map (\<lambda>j. (i, Suc j, wk_parts k ! j)) [0 ..< length (wk_parts k)] else []"
  have part: "distinct (sections (?f i))" "\<forall>x\<in>set (sections (?f i)). fst x = i" for i
    by (auto simp: sections_def Let_def comp_def distinct_map inj_on_def)
  have "distinct (sections (concat (map ?f [0 ..< n]))) \<and> (\<forall>x\<in>set (sections (concat (map ?f [0 ..< n]))). fst x < n)" for n
  proof (induction n)
    case (Suc n)
    have "sections (concat (map ?f [0 ..< Suc n])) = sections (concat (map ?f [0 ..< n])) @ sections (?f n)" by (simp add: sections_def)
    moreover have "set (sections (concat (map ?f [0 ..< n]))) \<inter> set (sections (?f n)) = {}" using Suc part(2) [of n] by fastforce
    ultimately show ?case using Suc part [of n] by (auto intro: less_SucI)
  qed (simp add: sections_def)
  then show ?thesis unfolding target_parts_def by blast
qed

lemma clear_indexes_ok:
  assumes "no_refusal env"
  shows "clear_indexes env is st = (None, st\<lparr>postings := {x \<in> postings st. fst x \<notin> set is}\<rparr>)"
  by (induction "is" arbitrary: st) (use assms in \<open>auto simp: clear_table_def intro!: arg_cong [of _ _ "\<lambda>P. _\<lparr>postings := P\<rparr>"]\<close>)

section \<open>Indexes that agree with the rows\<close>

definition record_of :: "wrap_env \<Rightarrow> (nat \<times> string) list \<Rightarrow> wrap_row \<Rightarrow> nat" where
  "record_of env rs row = fst (the (find (\<lambda>x. snd x = key_image env row) rs))"

text \<open>The records are those of the keys of the rows, and every index has exactly the tokens of the columns of all rows.\<close>

definition records_ok :: "wrap_env \<Rightarrow> wrap_row list \<Rightarrow> (nat \<times> string) list \<Rightarrow> nat \<Rightarrow> bool" where
  "records_ok env rows rs n \<longleftrightarrow> distinct (map (key_image env) rows) \<and> distinct (map fst rs) \<and> distinct (map snd rs) \<and> (\<forall>x\<in>set rs. fst x < n)
     \<and> snd ` set rs = key_image env ` set rows"

definition all_postings :: "wrap_env \<Rightarrow> (nat \<times> nat \<times> nat) list \<Rightarrow> (nat \<times> string) list \<Rightarrow> wrap_row set \<Rightarrow> (nat \<times> nat \<times> nat \<times> string) set" where
  "all_postings env ps rs rows = (\<Union>row\<in>rows. row_postings env ps (record_of env rs row) row)"

definition in_sync :: "wrap_env \<Rightarrow> wrap_state \<Rightarrow> bool" where
  "in_sync env st \<longleftrightarrow> records_ok env (engine_rows st) (grn_records st) (next_record st)
     \<and> postings st = all_postings env (target_parts env (index_open st)) (grn_records st) (set (engine_rows st))"

lemma find_record:
  assumes "distinct (map snd rs)" "(rid, k) \<in> set rs"
  shows "find (\<lambda>x. snd x = k) rs = Some (rid, k)"
  using assms
proof (induction rs)
  case (Cons x rs)
  show ?case
  proof (cases "snd x = k")
    case True
    then have "k \<notin> snd ` set rs" using Cons.prems(1) by auto
    then have "(rid, k) \<notin> set rs" by force
    then show ?thesis using Cons.prems(2) by auto
  next
    case False
    then show ?thesis using Cons by auto
  qed
qed simp

lemma record_of_mem: "distinct (map snd rs) \<Longrightarrow> (rid, key_image env row) \<in> set rs \<Longrightarrow> record_of env rs row = rid"
  by (simp add: record_of_def find_record)

lemma record_there:
  assumes "records_ok env rows rs n" "row \<in> set rows"
  shows "(record_of env rs row, key_image env row) \<in> set rs"
proof -
  have "key_image env row \<in> snd ` set rs" using assms unfolding records_ok_def by blast
  then obtain rid where "(rid, key_image env row) \<in> set rs" by force
  then show ?thesis using assms(1) record_of_mem unfolding records_ok_def by metis
qed

lemma same_key_same_row:
  assumes "records_ok env rows rs n" "r \<in> set rows" "r' \<in> set rows" "key_image env r = key_image env r'"
  shows "r = r'"
  using assms unfolding records_ok_def distinct_map inj_on_def by blast

lemma other_record:
  assumes "records_ok env rows rs n" "r \<in> set rows" "r' \<in> set rows" "r \<noteq> r'"
  shows "record_of env rs r \<noteq> record_of env rs r'"
proof
  assume "record_of env rs r = record_of env rs r'"
  then have "(record_of env rs r, key_image env r) \<in> set rs" "(record_of env rs r, key_image env r') \<in> set rs"
    using record_there [OF assms(1,2)] record_there [OF assms(1,3)] by simp_all
  then have "key_image env r = key_image env r'" using assms(1) unfolding records_ok_def distinct_map inj_on_def by (metis fst_conv snd_conv)
  then show False using same_key_same_row [OF assms(1-3)] assms(4) by blast
qed

lemma other_rows_postings:
  assumes "\<forall>r\<in>rows. record_of env rs r \<noteq> rid"
  shows "all_postings env ps rs rows \<inter> row_postings env qs rid row = {}"
proof -
  have False if x: "r \<in> rows" "x \<in> row_postings env ps (record_of env rs r) r" "x \<in> row_postings env qs rid row" for r x
  proof -
    have "fst (snd (snd x)) = record_of env rs r" using row_postings_mem [OF x(2)] by auto
    moreover have "fst (snd (snd x)) = rid" using row_postings_mem [OF x(3)] by auto
    ultimately show False using bspec [OF assms x(1)] by simp
  qed
  then show ?thesis unfolding all_postings_def by blast
qed

lemma all_postings_insert: "all_postings env ps rs (insert row rows) = row_postings env ps (record_of env rs row) row \<union> all_postings env ps rs rows"
  by (simp add: all_postings_def)

lemma all_postings_cong: "(\<And>r. r \<in> rows \<Longrightarrow> record_of env rs r = record_of env rs' r) \<Longrightarrow> all_postings env ps rs rows = all_postings env ps rs' rows"
  by (simp add: all_postings_def)

text \<open>One record more, and one record less.\<close>

lemma records_add:
  assumes "records_ok env rows rs n" "key_image env row \<notin> key_image env ` set rows"
  shows "records_ok env (rows @ [row]) (rs @ [(n, key_image env row)]) (Suc n)"
    "record_of env (rs @ [(n, key_image env row)]) row = n"
    "r \<in> set rows \<Longrightarrow> record_of env (rs @ [(n, key_image env row)]) r = record_of env rs r"
proof -
  have fresh: "n \<notin> fst ` set rs" "key_image env row \<notin> snd ` set rs" using assms unfolding records_ok_def by auto
  show ok: "records_ok env (rows @ [row]) (rs @ [(n, key_image env row)]) (Suc n)"
    using assms fresh unfolding records_ok_def by (auto simp: less_Suc_eq)
  then have d: "distinct (map snd (rs @ [(n, key_image env row)]))" unfolding records_ok_def by blast
  show "record_of env (rs @ [(n, key_image env row)]) row = n" by (rule record_of_mem [OF d]) simp
  show "record_of env (rs @ [(n, key_image env row)]) r = record_of env rs r" if "r \<in> set rows"
    by (rule record_of_mem [OF d]) (use record_there [OF assms(1) that] in simp)
qed

lemma records_remove:
  assumes "records_ok env rows rs n" "row \<in> set rows"
  defines "rs' \<equiv> filter (\<lambda>x. fst x \<noteq> record_of env rs row) rs"
  shows "records_ok env (filter (\<lambda>r. r \<noteq> row) rows) rs' n"
    "r \<in> set rows \<Longrightarrow> r \<noteq> row \<Longrightarrow> record_of env rs' r = record_of env rs r"
proof -
  let ?i = "record_of env rs row"
  have d: "distinct (map fst rs')" "distinct (map snd rs')" "distinct (map (key_image env) (filter (\<lambda>r. r \<noteq> row) rows))"
    using assms(1) unfolding rs'_def records_ok_def by (auto intro: distinct_map_filter)
  show other: "record_of env rs' r = record_of env rs r" if "r \<in> set rows" "r \<noteq> row" for r
    by (rule record_of_mem [OF d(2)]) (use record_there [OF assms(1) that(1)] other_record [OF assms(1) that(1) assms(2) that(2)] in \<open>simp add: rs'_def\<close>)
  have "snd ` set rs' = key_image env ` set (filter (\<lambda>r. r \<noteq> row) rows)"
  proof (intro equalityI subsetI)
    fix k assume "k \<in> snd ` set rs'"
    then obtain rid where k: "(rid, k) \<in> set rs" "rid \<noteq> ?i" unfolding rs'_def by auto
    then have "k \<in> key_image env ` set rows" using assms(1) unfolding records_ok_def by force
    then obtain r where r: "r \<in> set rows" "k = key_image env r" by blast
    have "record_of env rs r = rid" using record_of_mem [of rs rid env r] k(1) r(2) assms(1) unfolding records_ok_def by blast
    then have "r \<noteq> row" using k(2) by blast
    then show "k \<in> key_image env ` set (filter (\<lambda>r. r \<noteq> row) rows)" using r by simp
  next
    fix k assume "k \<in> key_image env ` set (filter (\<lambda>r. r \<noteq> row) rows)"
    then obtain r where r: "r \<in> set rows" "r \<noteq> row" "k = key_image env r" by auto
    have "(record_of env rs r, k) \<in> set rs'"
      using record_there [OF assms(1) r(1)] other_record [OF assms(1) r(1) assms(2) r(2)] r(3) by (simp add: rs'_def)
    then show "k \<in> snd ` set rs'" by force
  qed
  then show "records_ok env (filter (\<lambda>r. r \<noteq> row) rows) rs' n"
    using d assms(1) unfolding records_ok_def rs'_def by auto
qed

section \<open>Statements keep the indexes in step\<close>

text \<open>What the other engine promises: it refuses a key that is there, and rows that are not there.\<close>

definition engine_promise :: "wrap_env \<Rightarrow> bool" where
  "engine_promise env \<longleftrightarrow> (\<forall>rows.
     (\<forall>row. key_image env row \<in> key_image env ` set rows \<longrightarrow> engine_error env (Engine_write row) rows \<noteq> None)
     \<and> (\<forall>old new. old \<notin> set rows \<or> key_image env new \<in> key_image env ` (set rows - {old}) \<longrightarrow> engine_error env (Engine_update old new) rows \<noteq> None)
     \<and> (\<forall>row. row \<notin> set rows \<longrightarrow> engine_error env (Engine_delete row) rows \<noteq> None))"

datatype wrapper_call = Wrapper_write wrap_row | Wrapper_update wrap_row wrap_row | Wrapper_delete wrap_row | Wrapper_delete_all | Wrapper_truncate

definition wrapper_call_result :: "wrap_env \<Rightarrow> wrapper_call \<Rightarrow> wrap_state \<Rightarrow> wrap_error option \<times> wrap_state" where
  "wrapper_call_result env c st = (case c of
      Wrapper_write row \<Rightarrow> wrapper_write_row env row st
    | Wrapper_update old new \<Rightarrow> wrapper_update_row env old new st
    | Wrapper_delete row \<Rightarrow> wrapper_delete_row env row st
    | Wrapper_delete_all \<Rightarrow> wrapper_delete_all_rows env st
    | Wrapper_truncate \<Rightarrow> wrapper_truncate env st)"

definition wrapper_step :: "wrap_env \<Rightarrow> wrapper_call \<Rightarrow> wrap_state \<Rightarrow> wrap_state option" where
  "wrapper_step env c st = Some (snd (wrapper_call_result env c st))"

text \<open>An update that changes the primary key is only done right for one enabled part of an index.\<close>

definition wrapper_allowed :: "wrap_env \<Rightarrow> wrapper_call \<Rightarrow> wrap_state \<Rightarrow> bool" where
  "wrapper_allowed env c st \<longleftrightarrow> (case c of
      Wrapper_update old new \<Rightarrow> key_image env old = key_image env new \<or> length (target_parts env (index_open st)) = 1
    | _ \<Rightarrow> True)"

lemma wrapper_statement_cases:
  assumes "have_target_index env"
  obtains e where "wrapper_statement env c indexes st = (Some e, st)"
  | rows where "call_engine env c (engine_rows st) = Inr rows" "wrapper_statement env c indexes st = indexes (st\<lparr>engine_rows := rows\<rparr>)"
  using assms by (cases "call_engine env c (engine_rows st)") (auto simp: wrapper_statement_def Let_def)

lemma call_engine_ok: "call_engine env c rows = Inr rows' \<Longrightarrow> engine_error env c rows = None"
  by (auto simp: call_engine_def split: option.splits)

lemma write_in_sync:
  assumes "no_refusal env" "have_target_index env" "engine_promise env" "in_sync env st"
  shows "in_sync env (snd (wrapper_write_row env row st))"
proof -
  let ?c = "Engine_write row" and ?k = "key_image env row" and ?n = "next_record st" and ?rs = "grn_records st" and ?rows = "engine_rows st"
  let ?ps = "target_parts env (index_open st)" and ?rs' = "grn_records st @ [(next_record st, key_image env row)]"
  show ?thesis
  proof (rule wrapper_statement_cases [OF assms(2), of ?c "wrapper_write_row_index env row" st])
    fix e assume "wrapper_statement env ?c (wrapper_write_row_index env row) st = (Some e, st)"
    then show ?thesis using assms(4) by (simp add: wrapper_write_row_def)
  next
    fix rows assume rows: "call_engine env ?c ?rows = Inr rows"
      and run: "wrapper_statement env ?c (wrapper_write_row_index env row) st = wrapper_write_row_index env row (st\<lparr>engine_rows := rows\<rparr>)"
    have k: "?k \<notin> key_image env ` set ?rows" using call_engine_ok [OF rows] assms(3) unfolding engine_promise_def by blast
    have rows': "rows = ?rows @ [row]" using rows call_engine_ok [OF rows] by (simp add: call_engine_def)
    have ok: "records_ok env ?rows ?rs ?n" using assms(4) unfolding in_sync_def by blast
    note add = records_add [OF ok k]
    have "?k \<notin> snd ` set ?rs" using ok k unfolding records_ok_def by blast
    then have none: "find (\<lambda>x. snd x = ?k) ?rs = None" by (force simp: find_None_iff)
    have "all_postings env ?ps ?rs' (set rows) = row_postings env ?ps ?n row \<union> all_postings env ?ps ?rs (set ?rows)"
      unfolding rows' using add(2,3) all_postings_cong [of "set ?rows" env ?rs' ?rs ?ps] by (simp add: all_postings_insert)
    then show ?thesis
      using assms(1,4) run add(1) none unfolding in_sync_def
      by (simp add: wrapper_write_row_def wrapper_write_row_index_def table_add_def write_parts_ok rows' Un_commute)
  qed
qed

lemma delete_in_sync:
  assumes "no_refusal env" "have_target_index env" "engine_promise env" "in_sync env st"
  shows "in_sync env (snd (wrapper_delete_row env row st))"
proof -
  let ?c = "Engine_delete row" and ?n = "next_record st" and ?rs = "grn_records st" and ?rows = "engine_rows st"
  let ?ps = "target_parts env (index_open st)" and ?i = "record_of env (grn_records st) row"
  show ?thesis
  proof (rule wrapper_statement_cases [OF assms(2), of ?c "wrapper_delete_row_index env row" st])
    fix e assume "wrapper_statement env ?c (wrapper_delete_row_index env row) st = (Some e, st)"
    then show ?thesis using assms(4) by (simp add: wrapper_delete_row_def)
  next
    fix rows assume rows: "call_engine env ?c ?rows = Inr rows"
      and run: "wrapper_statement env ?c (wrapper_delete_row_index env row) st = wrapper_delete_row_index env row (st\<lparr>engine_rows := rows\<rparr>)"
    have row: "row \<in> set ?rows" using call_engine_ok [OF rows] assms(3) unfolding engine_promise_def by blast
    have rows': "rows = filter (\<lambda>r. r \<noteq> row) ?rows" using rows call_engine_ok [OF rows] by (simp add: call_engine_def)
    have ok: "records_ok env ?rows ?rs ?n" using assms(4) unfolding in_sync_def by blast
    note remove = records_remove [OF ok row]
    have get: "find (\<lambda>x. snd x = key_image env row) ?rs = Some (?i, key_image env row)"
      by (rule find_record [OF _ record_there [OF ok row]]) (use ok in \<open>simp add: records_ok_def\<close>)
    have there: "?i \<in> fst ` set ?rs" using record_there [OF ok row] by force
    have set: "set ?rows = insert row (set rows)" using row unfolding rows' by auto
    have other: "all_postings env ?ps ?rs (set rows) \<inter> row_postings env ?ps ?i row = {}"
      by (rule other_rows_postings) (use other_record [OF ok _ row] in \<open>auto simp: rows'\<close>)
    have "all_postings env ?ps ?rs (set ?rows) - row_postings env ?ps ?i row = all_postings env ?ps ?rs (set rows)"
      unfolding set all_postings_insert using other by blast
    also have "\<dots> = all_postings env ?ps (filter (\<lambda>x. fst x \<noteq> ?i) ?rs) (set rows)"
      by (rule all_postings_cong) (use remove(2) in \<open>simp add: rows'\<close>)
    finally show ?thesis
      using assms(1,4) run remove(1) get there unfolding in_sync_def
      by (simp add: wrapper_delete_row_def wrapper_delete_row_index_def table_get_def delete_parts_ok delete_by_id_def rows')
  qed
qed

lemma records_update:
  assumes "records_ok env rows rs n" "old \<in> set rows" "key_image env new = key_image env old"
  shows "records_ok env (map (\<lambda>r. if r = old then new else r) rows) rs n"
    "record_of env rs new = record_of env rs old"
proof -
  have keys: "map (key_image env) (map (\<lambda>r. if r = old then new else r) rows) = map (key_image env) rows" using assms(3) by simp
  then have image: "key_image env ` set (map (\<lambda>r. if r = old then new else r) rows) = key_image env ` set rows" by (metis list.set_map)
  show "records_ok env (map (\<lambda>r. if r = old then new else r) rows) rs n"
    unfolding records_ok_def keys image by (rule assms(1) [unfolded records_ok_def])
  show "record_of env rs new = record_of env rs old" by (simp add: record_of_def assms(3))
qed

lemma distinct_replace: "distinct (map g xs) \<Longrightarrow> g y \<notin> g ` set xs \<Longrightarrow> distinct (map g (map (\<lambda>x. if x = a then y else x) xs))"
proof (induction xs)
  case (Cons x xs)
  have IH: "distinct (map g (map (\<lambda>x. if x = a then y else x) xs))" using Cons by simp
  have "g (if x = a then y else x) \<noteq> g (if z = a then y else z)" if "z \<in> set xs" for z
  proof -
    have z: "g z \<in> g ` set xs" using that by blast
    have "g x \<notin> g ` set xs" "g y \<notin> g ` set xs" "g y \<noteq> g x" using Cons.prems by simp_all
    then show ?thesis using z by metis
  qed
  then have "g (if x = a then y else x) \<notin> set (map g (map (\<lambda>x. if x = a then y else x) xs))" by fastforce
  then show ?case using IH unfolding list.map distinct.simps by blast
qed simp

lemma find_app: "find P (xs @ ys) = (case find P xs of None \<Rightarrow> find P ys | Some x \<Rightarrow> Some x)"
  by (induction xs) auto

lemma records_ok_rows:
  assumes "records_ok env rows rs n" "set rows' = set rows" "distinct (map (key_image env) rows')"
  shows "records_ok env rows' rs n"
  using assms unfolding records_ok_def by simp

lemma update_same_key_in_sync:
  assumes "no_refusal env" "in_sync env st" "old \<in> set (engine_rows st)" "key_image env new = key_image env old"
    and "st1 = st\<lparr>engine_rows := map (\<lambda>r. if r = old then new else r) (engine_rows st)\<rparr>"
  shows "in_sync env (snd (wrapper_update_row_index env old new st1))"
proof -
  let ?ps = "target_parts env (index_open st)" and ?rs = "grn_records st" and ?i = "record_of env (grn_records st) old"
  let ?rows = "set (engine_rows st) - {old}"
  have ok: "records_ok env (engine_rows st) ?rs (next_record st)" using assms(2) unfolding in_sync_def by blast
  note upd = records_update [OF ok assms(3,4)]
  have found: "find (\<lambda>x. snd x = key_image env old) ?rs = Some (?i, key_image env old)"
    by (rule find_record [OF _ record_there [OF ok assms(3)]]) (use ok in \<open>simp add: records_ok_def\<close>)
  have rows: "set (engine_rows st) = insert old ?rows" "set (engine_rows st1) = insert new ?rows" using assms(3) by (auto simp: assms(5))
  have other: "all_postings env ?ps ?rs ?rows \<inter> row_postings env ?ps ?i old = {}"
    by (rule other_rows_postings) (use other_record [OF ok _ assms(3)] in auto)
  have "all_postings env ?ps ?rs (insert new ?rows)
      = (all_postings env ?ps ?rs (insert old ?rows) - row_postings env ?ps ?i old) \<union> row_postings env ?ps ?i new"
    unfolding all_postings_insert upd(2) using other by blast
  then have "all_postings env ?ps ?rs (set (engine_rows st1))
      = (postings st - row_postings env ?ps ?i old) \<union> row_postings env ?ps ?i new"
    using assms(2) rows unfolding in_sync_def by simp
  then show ?thesis
    using assms(1,4) upd(1) found update_parts_same [OF assms(1) target_parts_distinct, of ?i old new env "index_open st"]
    by (simp add: in_sync_def wrapper_update_row_index_def table_add_def table_get_def assms(5))
qed

lemma update_other_key_in_sync:
  assumes "no_refusal env" "in_sync env st" "old \<in> set (engine_rows st)" "key_image env new \<notin> key_image env ` set (engine_rows st)"
    and "length (target_parts env (index_open st)) = 1" "st1 = st\<lparr>engine_rows := map (\<lambda>r. if r = old then new else r) (engine_rows st)\<rparr>"
  shows "in_sync env (snd (wrapper_update_row_index env old new st1))"
proof -
  let ?ps = "target_parts env (index_open st)" and ?rs = "grn_records st" and ?n = "next_record st" and ?i = "record_of env (grn_records st) old"
  let ?rows = "filter (\<lambda>r. r \<noteq> old) (engine_rows st)" and ?k = "key_image env new"
  let ?rs' = "filter (\<lambda>x. fst x \<noteq> ?i) ?rs"
  obtain i sec p where ps: "?ps = [(i, sec, p)]" using assms(5) by (auto simp: length_Suc_conv)
  have ok: "records_ok env (engine_rows st) ?rs ?n" using assms(2) unfolding in_sync_def by blast
  note remove = records_remove [OF ok assms(3)]
  have k: "?k \<notin> key_image env ` set ?rows" using assms(4) by auto
  note add = records_add [OF remove(1) k]
  have found: "find (\<lambda>x. snd x = key_image env old) ?rs = Some (?i, key_image env old)"
    by (rule find_record [OF _ record_there [OF ok assms(3)]]) (use ok in \<open>simp add: records_ok_def\<close>)
  have "?k \<notin> snd ` set ?rs" using assms(4) ok by (simp add: records_ok_def)
  then have none: "find (\<lambda>x. snd x = ?k) ?rs = None" by (force simp: find_None_iff)
  have "\<forall>x\<in>set ?rs. fst x < ?n" using ok by (simp add: records_ok_def)
  then have n: "?i < ?n" using record_there [OF ok assms(3)] by force
  have rows: "set (engine_rows st) = insert old (set ?rows)" "set (engine_rows st1) = insert new (set ?rows)" using assms(3) by (auto simp: assms(6))
  have other: "all_postings env ?ps ?rs (set ?rows) \<inter> row_postings env ?ps ?i old = {}"
    by (rule other_rows_postings) (use other_record [OF ok _ assms(3)] in auto)
  have "postings st - row_postings env ?ps ?i old = all_postings env ?ps ?rs (set ?rows)"
    using assms(2) other unfolding in_sync_def rows(1) all_postings_insert by blast
  also have "\<dots> = all_postings env ?ps (?rs' @ [(?n, ?k)]) (set ?rows)"
    by (rule all_postings_cong) (use remove(2) add(3) in simp)
  finally have "all_postings env ?ps (?rs' @ [(?n, ?k)]) (set (engine_rows st1))
      = (postings st - row_postings env ?ps ?i old) \<union> row_postings env ?ps ?n new"
    unfolding rows(2) all_postings_insert add(2) by blast
  moreover have "records_ok env (engine_rows st1) (?rs' @ [(?n, ?k)]) (Suc ?n)"
  proof (rule records_ok_rows [OF add(1)])
    show "set (engine_rows st1) = set (?rows @ [new])" using rows(2) by simp
    show "distinct (map (key_image env) (engine_rows st1))"
      using distinct_replace [of "key_image env" "engine_rows st" new old] ok assms(4) by (simp add: records_ok_def assms(6))
  qed
  moreover have "?i \<in> fst ` set ?rs" using record_there [OF ok assms(3)] by force
  ultimately show ?thesis
    using assms(1) found none n ps
    by (simp add: in_sync_def wrapper_update_row_index_def table_add_def table_get_def update_part_def index_update_def delete_by_id_def find_app assms(6))
qed

lemma update_in_sync:
  assumes "no_refusal env" "have_target_index env" "engine_promise env" "in_sync env st" "wrapper_allowed env (Wrapper_update old new) st"
  shows "in_sync env (snd (wrapper_update_row env old new st))"
proof (rule wrapper_statement_cases [OF assms(2), of "Engine_update old new" "wrapper_update_row_index env old new" st])
  fix e assume "wrapper_statement env (Engine_update old new) (wrapper_update_row_index env old new) st = (Some e, st)"
  then show ?thesis using assms(4) by (simp add: wrapper_update_row_def)
next
  fix rows assume rows: "call_engine env (Engine_update old new) (engine_rows st) = Inr rows"
    and run: "wrapper_statement env (Engine_update old new) (wrapper_update_row_index env old new) st
      = wrapper_update_row_index env old new (st\<lparr>engine_rows := rows\<rparr>)"
  have old: "old \<in> set (engine_rows st)" "key_image env new \<notin> key_image env ` (set (engine_rows st) - {old})"
    using call_engine_ok [OF rows] assms(3) unfolding engine_promise_def by blast+
  have rows': "st\<lparr>engine_rows := rows\<rparr> = st\<lparr>engine_rows := map (\<lambda>r. if r = old then new else r) (engine_rows st)\<rparr>"
    using rows call_engine_ok [OF rows] by (simp add: call_engine_def)
  show ?thesis
  proof (cases "key_image env new = key_image env old")
    case True
    then show ?thesis using update_same_key_in_sync [OF assms(1,4) old(1) True rows'] run by (simp add: wrapper_update_row_def)
  next
    case False
    then have "key_image env new \<notin> key_image env ` set (engine_rows st)" "length (target_parts env (index_open st)) = 1"
      using old(2) assms(5) by (auto simp: wrapper_allowed_def)
    then show ?thesis using update_other_key_in_sync [OF assms(1,4) old(1) _ _ rows'] run by (simp add: wrapper_update_row_def)
  qed
qed

lemma clear_in_sync:
  assumes "no_refusal env" "have_target_index env" "in_sync env st" "c = Engine_delete_all \<or> c = Engine_truncate"
  shows "in_sync env (snd (wrapper_statement env c (clear_all env) st))"
proof (rule wrapper_statement_cases [OF assms(2), of c "clear_all env" st])
  fix e assume "wrapper_statement env c (clear_all env) st = (Some e, st)"
  then show ?thesis using assms(3) by simp
next
  fix rows assume rows: "call_engine env c (engine_rows st) = Inr rows"
    and run: "wrapper_statement env c (clear_all env) st = clear_all env (st\<lparr>engine_rows := rows\<rparr>)"
  have "rows = []" using rows call_engine_ok [OF rows] assms(4) by (auto simp: call_engine_def)
  moreover have "{x \<in> postings st. fst x \<notin> set (open_targets env (index_open st))} = {}"
  proof -
    have "fst x \<in> set (open_targets env (index_open st))" if "x \<in> postings st" for x
    proof -
      have "x \<in> all_postings env (target_parts env (index_open st)) (grn_records st) (set (engine_rows st))"
        using that assms(3) by (simp add: in_sync_def)
      then obtain row where "x \<in> row_postings env (target_parts env (index_open st)) (record_of env (grn_records st) row) row"
        unfolding all_postings_def by (rule UN_E)
      then obtain i sec p t where "x = (i, sec, record_of env (grn_records st) row, t)" "(i, sec, p) \<in> set (target_parts env (index_open st))"
        using row_postings_mem by blast
      then show ?thesis using target_parts_mem by simp
    qed
    then show ?thesis by blast
  qed
  ultimately show ?thesis
    using assms(1) run by (simp add: clear_all_def clear_indexes_ok clear_table_def in_sync_def records_ok_def all_postings_def)
qed

lemma wrapper_step_in_sync:
  assumes "no_refusal env" "have_target_index env" "engine_promise env" "in_sync env st" "wrapper_allowed env c st"
  shows "in_sync env (snd (wrapper_call_result env c st))"
  using assms(5) write_in_sync [OF assms(1-4)] delete_in_sync [OF assms(1-4)] update_in_sync [OF assms(1-4)] clear_in_sync [OF assms(1,2,4)]
  by (cases c) (simp_all add: wrapper_call_result_def wrapper_delete_all_rows_def wrapper_truncate_def)

section \<open>Filled indexes\<close>

text \<open>Filling indexes that are empty, for a table whose other indexes agree with the rows (or that has none and no records): afterwards all do.\<close>

lemma add_record_again:
  assumes "records_ok env rows rs n" "row \<in> set rows"
  shows "find (\<lambda>x. snd x = key_image env row) rs = Some (record_of env rs row, key_image env row)"
  by (rule find_record [OF _ record_there [OF assms]]) (use assms(1) in \<open>simp add: records_ok_def\<close>)

lemma fill_rows_add:
  assumes "no_refusal env"
  shows "distinct (map (key_image env) (before @ rows)) \<Longrightarrow> records_ok env before (grn_records st) (next_record st)
    \<Longrightarrow> postings st = all_postings env ps (grn_records st) (set before) \<Longrightarrow> ps = target_parts env filled
    \<Longrightarrow> \<exists>st'. fill_rows env filled rows st = (None, st') \<and> engine_rows st' = engine_rows st \<and> index_open st' = index_open st
      \<and> records_ok env (before @ rows) (grn_records st') (next_record st') \<and> postings st' = all_postings env ps (grn_records st') (set (before @ rows))"
proof (induction rows arbitrary: before st)
  case (Cons row rows)
  let ?k = "key_image env row" and ?rs = "grn_records st" and ?n = "next_record st"
  have k: "?k \<notin> key_image env ` set before" using Cons.prems(1) by simp
  note add = records_add [OF Cons.prems(2) k]
  have "?k \<notin> snd ` set ?rs" using Cons.prems(2) k by (simp add: records_ok_def)
  then have none: "find (\<lambda>x. snd x = ?k) ?rs = None" by (force simp: find_None_iff)
  define st1 where "st1 = st\<lparr>grn_records := ?rs @ [(?n, ?k)], next_record := Suc ?n, postings := postings st \<union> row_postings env ps ?n row\<rparr>"
  have step: "fill_rows env filled (row # rows) st = fill_rows env filled rows st1"
    using assms none Cons.prems(4) by (simp add: table_add_def write_parts_ok st1_def)
  have "postings st1 = all_postings env ps (grn_records st1) (set (before @ [row]))"
    using Cons.prems(3) add(2,3) all_postings_cong [of "set before" env "?rs @ [(?n, ?k)]" ?rs ps] by (simp add: st1_def all_postings_insert Un_commute)
  moreover have "distinct (map (key_image env) ((before @ [row]) @ rows))" using Cons.prems(1) by simp
  moreover have "records_ok env (before @ [row]) (grn_records st1) (next_record st1)" using add(1) by (simp add: st1_def)
  ultimately obtain st' where "fill_rows env filled rows st1 = (None, st')" "engine_rows st' = engine_rows st1" "index_open st' = index_open st1"
    "records_ok env ((before @ [row]) @ rows) (grn_records st') (next_record st')"
    "postings st' = all_postings env ps (grn_records st') (set ((before @ [row]) @ rows))"
    using Cons.IH Cons.prems(4) by blast
  then show ?case unfolding step by (intro exI [of _ st']) (simp add: st1_def)
qed simp

text \<open>C19: filling the indexes of an empty Groonga table from the rows of the other engine, when no index is disabled and nothing is refused,
  succeeds, and afterwards the records and the indexes agree with the rows.\<close>

theorem fill_in_sync:
  assumes "no_refusal env" "distinct (map (key_image env) (engine_rows st))" "grn_records st = []" "postings st = {}"
  shows "\<exists>st'. wrapper_fill_indexes env need_lock None None None (index_open st) st = (None, st') \<and> in_sync env st' \<and> engine_rows st' = engine_rows st"
proof -
  have "records_ok env [] (grn_records st) (next_record st)" using assms(3) by (simp add: records_ok_def)
  moreover have "postings st = all_postings env (target_parts env (index_open st)) (grn_records st) (set [])" using assms(4) by (simp add: all_postings_def)
  ultimately obtain st' where "fill_rows env (index_open st) (engine_rows st) st = (None, st')" "engine_rows st' = engine_rows st" "index_open st' = index_open st"
      "records_ok env (engine_rows st) (grn_records st') (next_record st')"
      "postings st' = all_postings env (target_parts env (index_open st)) (grn_records st') (set (engine_rows st))"
    using fill_rows_add [OF assms(1), of "[]" "engine_rows st" st "target_parts env (index_open st)" "index_open st"] assms(2) by auto
  then show ?thesis by (auto simp: wrapper_fill_indexes_def in_sync_def)
qed

section \<open>Sequences of statements\<close>

definition wrapper_ok :: "wrap_env \<Rightarrow> wrap_state \<Rightarrow> bool" where
  "wrapper_ok env st \<longleftrightarrow> (no_refusal env \<and> have_target_index env \<and> engine_promise env \<longrightarrow> in_sync env st)"

interpretation wr: safe_system "wrapper_step env" "wrapper_allowed env" "wrapper_ok env" for env
proof
  fix s c t assume "wrapper_ok env s" "wrapper_allowed env c s" "wrapper_step env c s = Some t"
  then show "wrapper_ok env t" using wrapper_step_in_sync unfolding wrapper_ok_def wrapper_step_def by blast
next
  fix s c show "wrapper_step env c s \<noteq> None" by (simp add: wrapper_step_def)
qed


section \<open>An example, and where statements go wrong\<close>

definition sample_engine_error :: "(wrap_row \<Rightarrow> string) \<Rightarrow> engine_call \<Rightarrow> wrap_row list \<Rightarrow> int option" where
  "sample_engine_error key c rows = (case c of
      Engine_write row \<Rightarrow> if key row \<in> set (map key rows) then Some 121 else None
    | Engine_update old new \<Rightarrow> if old \<notin> set rows \<or> key new \<in> set (map key (filter (\<lambda>r. r \<noteq> old) rows)) then Some 121 else None
    | Engine_delete row \<Rightarrow> if row \<notin> set rows then Some 120 else None
    | _ \<Rightarrow> None)"

definition sample_wrap_key :: "wrap_row \<Rightarrow> string" where
  "sample_wrap_key row = (case row ! 0 of None \<Rightarrow> [] | Some s \<Rightarrow> s)"

definition sample_wrap_env :: "nat list \<Rightarrow> wrap_env" where
  "sample_wrap_env parts = \<lparr>wrap_keys = [\<lparr>wk_target = False, wk_parts = [0]\<rparr>, \<lparr>wk_target = True, wk_parts = parts\<rparr>], key_image = sample_wrap_key,
     index_tokens = (\<lambda>i s. map (\<lambda>c. [c]) s), null_content = [], dry_write = False, engine_error = sample_engine_error sample_wrap_key,
     value_fails = (\<lambda>p. False), refuses_record = (\<lambda>k. False), refuses_posting = (\<lambda>i rid sec. False), refuses_clear = (\<lambda>t. False)\<rparr>"

definition empty_wrap_state :: "bool list \<Rightarrow> wrap_state" where
  "empty_wrap_state opened = \<lparr>engine_rows = [], grn_records = [], next_record = 1, postings = {}, index_open = opened\<rparr>"

lemma sample_wrap_env_ok: "no_refusal (sample_wrap_env parts)" "have_target_index (sample_wrap_env parts)" "engine_promise (sample_wrap_env parts)"
  by (auto simp: no_refusal_def have_target_index_def engine_promise_def sample_wrap_env_def sample_engine_error_def)


theorem fill_in_sync_witness:
  "\<exists>st'. wrapper_fill_indexes (sample_wrap_env [1]) True None None None [True, True]
      ((empty_wrap_state [True, True])\<lparr>engine_rows := [[Some ''1'', Some ''a''], [Some ''2'', None]]\<rparr>) = (None, st')
    \<and> in_sync (sample_wrap_env [1]) st' \<and> engine_rows st' = [[Some ''1'', Some ''a''], [Some ''2'', None]]"
  using fill_in_sync [OF sample_wrap_env_ok(1) [of "[1]"], of "(empty_wrap_state [True, True])\<lparr>engine_rows := [[Some ''1'', Some ''a''], [Some ''2'', None]]\<rparr>" True]
  by (simp add: empty_wrap_state_def sample_wrap_env_def sample_wrap_key_def)

text \<open>When the index has two parts, an update that changes the primary key deletes the old record twice: the statement ends with an error after
  the other engine has changed the row.\<close>

lemma changed_key_update_fails:
  "fst (wrapper_update_row (sample_wrap_env [1, 2]) [Some ''1'', Some ''a'', Some ''b''] [Some ''2'', Some ''a'', Some ''b'']
      (snd (wrapper_write_row (sample_wrap_env [1, 2]) [Some ''1'', Some ''a'', Some ''b''] (empty_wrap_state [True, True])))) = Some Write_error"
  by code_simp

text \<open>When the indexes are disabled, the old record stays.\<close>

lemma disabled_key_change_keeps_record:
  "map snd (grn_records (snd (wrapper_update_row (sample_wrap_env [1]) [Some ''1'', Some ''a''] [Some ''2'', Some ''a'']
      (snd (wrapper_write_row (sample_wrap_env [1]) [Some ''1'', Some ''a''] (empty_wrap_state [True, False])))))) = [''1'', ''2'']"
  by code_simp

text \<open>A record that cannot be added is only a warning: the row is there without an index entry.\<close>

lemma unindexed_row_is_success:
  "(case wrapper_write_row ((sample_wrap_env [1])\<lparr>refuses_record := \<lambda>k. True\<rparr>) [Some ''1'', Some ''a''] (empty_wrap_state [True, True]) of
      (e, st) \<Rightarrow> (e, engine_rows st, grn_records st)) = (None, [[Some ''1'', Some ''a'']], [])"
  by code_simp

end
