(* ===== verification/Plugin_Init.thy ===== *)
theory Plugin_Init
  imports Mrn_Prelude
begin

text \<open>
  Starting and stopping the plugin (\<^verbatim>\<open>mrn_init\<close> and \<^verbatim>\<open>mrn_deinit\<close> of \<^verbatim>\<open>ha_mroonga.cpp\<close>): the mutexes, hash tables, contexts and objects
  that it acquires one after the other, the sections behind the labels to which a failure jumps, and what stopping releases. Which steps fail
  is a parameter. Releasing something that is not the last thing acquired is a fault, because later things are built on earlier ones.
\<close>

section \<open>What the plugin holds\<close>

datatype resource =
    Groonga_library | Main_context | System_database | Manager_context | Manager_mutex | Manager_object | Pool_mutex | Pool_object
  | Operations_mutex | Thds_mutex | Thds_hash | Tables_mutex | Tables_hash | Shares_mutex | Shares_hash

text \<open>The connections in \<^verbatim>\<open>mrn_allocated_thds\<close> and whether they have slot data, and the long term shares.\<close>

record plugin =
  p_held :: "resource list"
  mrn_initialized :: bool
  slot_data :: "(nat \<times> bool) list"
  long_term_shares :: "nat list"

definition release :: "resource \<Rightarrow> resource list \<Rightarrow> resource list option" where
  "release r held = (case held of [] \<Rightarrow> None | x # xs \<Rightarrow> if x = r then Some xs else None)"

fun release_all :: "resource list \<Rightarrow> resource list \<Rightarrow> resource list option" where
  "release_all [] held = Some held"
| "release_all (r # rs) held = (case release r held of None \<Rightarrow> None | Some h \<Rightarrow> release_all rs h)"

section \<open>Starting\<close>

text \<open>The labels, and what is released from a label to the end.\<close>

datatype init_label =
    error_allocated_long_term_shares_init | error_allocated_long_term_shares_mutex_init | error_allocated_open_tables_init
  | err_allocated_open_tables_mutex_init | error_allocated_thds_hash_init | err_allocated_thds_mutex_init | error_operations_mutex_init
  | error_context_pool_mutex_init | err_db_manager_init | err_db_manager_mutex_init | err_db_create | err_mrn_change_encoding | err_grn_init

abbreviation "behind_encoding \<equiv> [Main_context, Groonga_library]"
abbreviation "behind_manager_mutex \<equiv> Manager_context # System_database # behind_encoding"
abbreviation "behind_pool_mutex \<equiv> Manager_object # Manager_mutex # behind_manager_mutex"
abbreviation "behind_operations \<equiv> Pool_object # Pool_mutex # behind_pool_mutex"
abbreviation "behind_thds_mutex \<equiv> Operations_mutex # behind_operations"
abbreviation "behind_tables_mutex \<equiv> Thds_hash # Thds_mutex # behind_thds_mutex"
abbreviation "behind_shares_mutex \<equiv> Tables_hash # Tables_mutex # behind_tables_mutex"

fun cleanup :: "init_label \<Rightarrow> resource list" where
  "cleanup error_allocated_long_term_shares_init = Shares_mutex # behind_shares_mutex"
| "cleanup error_allocated_long_term_shares_mutex_init = behind_shares_mutex"
| "cleanup error_allocated_open_tables_init = Tables_mutex # behind_tables_mutex"
| "cleanup err_allocated_open_tables_mutex_init = behind_tables_mutex"
| "cleanup error_allocated_thds_hash_init = Thds_mutex # behind_thds_mutex"
| "cleanup err_allocated_thds_mutex_init = behind_thds_mutex"
| "cleanup error_operations_mutex_init = behind_operations"
| "cleanup error_context_pool_mutex_init = behind_pool_mutex"
| "cleanup err_db_manager_init = behind_pool_mutex"
| "cleanup err_db_manager_mutex_init = behind_manager_mutex"
| "cleanup err_db_create = behind_encoding"
| "cleanup err_mrn_change_encoding = behind_encoding"
| "cleanup err_grn_init = []"

text \<open>A step acquires something that cannot be refused, acquires something or jumps, or only checks something or jumps.\<close>

datatype init_check = Change_encoding | Manager_init

datatype init_step = Get resource | Try resource init_label | Check init_check init_label

definition init_steps :: "init_step list" where
  "init_steps = [Try Groonga_library err_grn_init, Get Main_context, Check Change_encoding err_mrn_change_encoding,
     Try System_database err_db_create, Get Manager_context, Try Manager_mutex err_db_manager_mutex_init, Get Manager_object,
     Check Manager_init err_db_manager_init, Try Pool_mutex error_context_pool_mutex_init, Get Pool_object,
     Try Operations_mutex error_operations_mutex_init, Try Thds_mutex err_allocated_thds_mutex_init, Try Thds_hash error_allocated_thds_hash_init,
     Try Tables_mutex err_allocated_open_tables_mutex_init, Try Tables_hash error_allocated_open_tables_init,
     Try Shares_mutex error_allocated_long_term_shares_mutex_init, Try Shares_hash error_allocated_long_term_shares_init]"

fun run_init :: "(init_step \<Rightarrow> bool) \<Rightarrow> init_step list \<Rightarrow> resource list \<Rightarrow> (bool \<times> resource list) option" where
  "run_init fails [] held = Some (True, held)"
| "run_init fails (Get r # steps) held = run_init fails steps (r # held)"
| "run_init fails (Try r l # steps) held =
     (if fails (Try r l) then map_option (Pair False) (release_all (cleanup l) held) else run_init fails steps (r # held))"
| "run_init fails (Check c l # steps) held =
     (if fails (Check c l) then map_option (Pair False) (release_all (cleanup l) held) else run_init fails steps held)"

text \<open>0 is success.\<close>

definition mrn_init :: "(init_step \<Rightarrow> bool) \<Rightarrow> plugin \<Rightarrow> (int \<times> plugin) option" where
  "mrn_init fails p = (case run_init fails init_steps (p_held p) of
      None \<Rightarrow> None
    | Some (ok, held) \<Rightarrow>
        if ok then Some (0, p\<lparr>p_held := held, mrn_initialized := True, slot_data := [], long_term_shares := []\<rparr>)
        else Some (- 1, p\<lparr>p_held := held\<rparr>))"

section \<open>Stopping\<close>

text \<open>What is released, in the order of the code.\<close>

definition deinit_order :: "resource list" where
  "deinit_order = [Shares_hash, Shares_mutex, Tables_hash, Tables_mutex, Thds_hash, Thds_mutex, Operations_mutex, Pool_object, Pool_mutex,
     Manager_object, Manager_mutex, Manager_context, System_database, Main_context, Groonga_library]"

text \<open>Slot data is only deleted by UNINSTALL PLUGIN; the loop frees the first share until there is none.\<close>

fun free_long_term_shares :: "nat list \<Rightarrow> nat list" where
  "free_long_term_shares [] = []"
| "free_long_term_shares (s # ss) = free_long_term_shares ss"

definition mrn_deinit :: "bool \<Rightarrow> plugin \<Rightarrow> (int \<times> plugin) option" where
  "mrn_deinit uninstalling p =
     (let p1 = p\<lparr>mrn_initialized := False,
            slot_data := (if uninstalling then map (\<lambda>(thd, has). (thd, False)) (slot_data p) else slot_data p)\<rparr>;
          p2 = p1\<lparr>long_term_shares := free_long_term_shares (long_term_shares p1)\<rparr> in
      map_option (\<lambda>held. (0, p2\<lparr>p_held := held\<rparr>))
        (release_all deinit_order (p_held p2)))"

section \<open>Starting and stopping in turn\<close>

text \<open>The server starts a plugin that is stopped and stops one that is started; while it is started, connections and tables come and go.\<close>

datatype plugin_call = Install "init_step \<Rightarrow> bool" | Uninstall bool | Use_slot nat | Open_share nat

definition plugin_step :: "plugin_call \<Rightarrow> plugin \<Rightarrow> plugin option" where
  "plugin_step c p = (case c of
      Install fails \<Rightarrow> map_option snd (mrn_init fails p)
    | Uninstall u \<Rightarrow> map_option snd (mrn_deinit u p)
    | Use_slot thd \<Rightarrow> Some (p\<lparr>slot_data := (thd, True) # slot_data p\<rparr>)
    | Open_share s \<Rightarrow> Some (p\<lparr>long_term_shares := s # long_term_shares p\<rparr>))"

definition plugin_allowed :: "plugin_call \<Rightarrow> plugin \<Rightarrow> bool" where
  "plugin_allowed c p \<longleftrightarrow> (case c of Install fails \<Rightarrow> \<not> mrn_initialized p | _ \<Rightarrow> mrn_initialized p)"

text \<open>Everything that a start acquires, the last first.\<close>

fun acquired :: "init_step list \<Rightarrow> resource list" where
  "acquired [] = []"
| "acquired (Get r # steps) = r # acquired steps"
| "acquired (Try r l # steps) = r # acquired steps"
| "acquired (Check c l # steps) = acquired steps"

definition all_resources :: "resource list" where
  "all_resources = rev (acquired init_steps)"

definition plugin_ok :: "plugin \<Rightarrow> bool" where
  "plugin_ok p \<longleftrightarrow> p_held p = (if mrn_initialized p then all_resources else []) \<and> (\<not> mrn_initialized p \<longrightarrow> long_term_shares p = [])"

lemma run_init_all:
  "run_init fails init_steps [] = Some (if \<exists>s\<in>set init_steps. fails s \<and> (\<forall>r. s \<noteq> Get r) then (False, []) else (True, all_resources))"
  by (auto simp: init_steps_def release_def all_resources_def)

lemma free_long_term_shares_all [simp]: "free_long_term_shares ss = []"
  by (induction ss) simp_all

lemma release_everything: "release_all deinit_order all_resources = Some []"
  by (simp add: all_resources_def init_steps_def deinit_order_def release_def)

interpretation pl: safe_system plugin_step plugin_allowed plugin_ok
proof
  fix s c t assume "plugin_ok s" "plugin_allowed c s" "plugin_step c s = Some t"
  then show "plugin_ok t"
    using run_init_all release_everything
    by (cases c) (auto simp: plugin_ok_def plugin_allowed_def plugin_step_def mrn_init_def mrn_deinit_def Let_def split: if_splits)
next
  fix s c assume "plugin_ok s" "plugin_allowed c s"
  then show "plugin_step c s \<noteq> None"
    using run_init_all release_everything
    by (cases c) (auto simp: plugin_ok_def plugin_allowed_def plugin_step_def mrn_init_def mrn_deinit_def Let_def)
qed

text \<open>However often the plugin is started and stopped, and whichever steps of a start fail, everything is released exactly once and in the
  reverse order of its acquisition: a plugin that is not started holds nothing and has no shares, one that is started holds everything.\<close>

lemma plugin_resources_balanced:
  assumes "allowed_calls plugin_step plugin_allowed cs p" "p_held p = []" "\<not> mrn_initialized p" "long_term_shares p = []"
  shows "\<exists>p'. run_calls plugin_step plugin_allowed cs p = Some p' \<and> p_held p' = (if mrn_initialized p' then all_resources else [])
    \<and> (\<not> mrn_initialized p' \<longrightarrow> long_term_shares p' = [])"
  using pl.run_safe [of p cs] assms by (simp add: plugin_ok_def)

definition stopped_plugin :: plugin where
  "stopped_plugin = \<lparr>p_held = [], mrn_initialized = False, slot_data = [], long_term_shares = []\<rparr>"

lemma plugin_resources_balanced_witness:
  "\<exists>p'. run_calls plugin_step plugin_allowed
      [Install (\<lambda>s. s = Try Thds_hash error_allocated_thds_hash_init), Install (\<lambda>s. False), Open_share 4, Use_slot 1, Uninstall True] stopped_plugin = Some p'
    \<and> p_held p' = (if mrn_initialized p' then all_resources else []) \<and> (\<not> mrn_initialized p' \<longrightarrow> long_term_shares p' = [])"
  by (rule plugin_resources_balanced) (code_simp, simp_all add: stopped_plugin_def)

text \<open>A start succeeds exactly when no step that can fail does.\<close>

lemma init_succeeds:
  "map_option fst (mrn_init fails stopped_plugin) = Some (if \<exists>s\<in>set init_steps. fails s \<and> (\<forall>r. s \<noteq> Get r) then - 1 else 0)"
  using run_init_all [of fails] by (simp add: mrn_init_def stopped_plugin_def)

text \<open>When the server stops without UNINSTALL PLUGIN the slot data of connections that are still there is not deleted.\<close>

lemma shutdown_keeps_slot_data:
  "map_option (\<lambda>(e, p). slot_data p) (mrn_deinit u (stopped_plugin\<lparr>p_held := all_resources, mrn_initialized := True, slot_data := [(1, True)]\<rparr>))
    = Some [(1, \<not> u)]"
  using release_everything by (simp add: mrn_deinit_def Let_def)

end
