(* ===== verification/Spec2Isabelle.thy ===== *)
theory Spec2Isabelle
  imports Path_Mapper Time_Converter Index_Names Parameters_Parser Encoding Field_Normalizer Index_Scans Table_Changes Full_Text
    Query_Parser Condition_Converter Count_Skip Context_Pool Index_Rebuild Table_Share Database_Manager Row_Reading Udf_Command Udf_Snippet_Html Udf_Query Wrapper_Index Plugin_Init
begin

text \<open>
  A verification development for Mroonga, the storage engine that gives MySQL and MariaDB the full
  text search of Groonga.

  \<^bold>\<open>The program.\<close> MySQL calls one handler object per open table (\<^verbatim>\<open>ha_mroonga.cpp\<close>). In storage mode a
  MySQL table is a Groonga table: its columns are Groonga columns, its indexes are Groonga tables and
  index columns, and all of them live in one Groonga database per MySQL database. In wrapper mode the
  rows belong to another engine and only the full text indexes are Groonga's. Around the handler there
  are small classes with one task each (\<^verbatim>\<open>lib/\<close>), the shares of open tables and the parameters in
  comments (\<^verbatim>\<open>mrn_table.cpp\<close>), and user defined functions (\<^verbatim>\<open>udf/\<close>).

  A row travels as follows. The path of a table becomes a database path and a table name
  (\<^verbatim>\<open>Path_Mapper\<close>), the database is opened or created (\<^verbatim>\<open>Database_Manager\<close>) and the share of the table
  is looked up or built from the comments (\<^verbatim>\<open>Table_Share\<close>, \<^verbatim>\<open>Table_Params\<close>). Writing a row takes an auto
  increment value (\<^verbatim>\<open>Auto_Increment\<close>), notes the write in a journal (\<^verbatim>\<open>Operations\<close>), enters the keys of
  the unique indexes (\<^verbatim>\<open>Key_Codec\<close>), adds the record and sets its columns (\<^verbatim>\<open>Storage_Rows\<close>,
  \<^verbatim>\<open>Field_Values\<close>). A query hands its condition to Groonga (\<^verbatim>\<open>Condition_Converter\<close>), parses the pragmas of
  a full text query (\<^verbatim>\<open>Query_Parser\<close>), opens cursors over encoded keys (\<^verbatim>\<open>Key_Codec\<close>, \<^verbatim>\<open>Search_Keys\<close>,
  \<^verbatim>\<open>Index_Reads\<close>) and, where it only counts, does not read rows at all (\<^verbatim>\<open>Count_Skip\<close>).

  \<^bold>\<open>Theories and sources.\<close>
  \<^item> \<^verbatim>\<open>Mrn_Prelude\<close>: the C string functions the sources call, byte buffers, accessors that compute
    once and remember (locale \<^verbatim>\<open>memoised_accessor\<close>), and sequences of calls: the locale \<^verbatim>\<open>guarded_system\<close> for a
    component whose calls keep an invariant, and \<^verbatim>\<open>safe_system\<close> for one whose calls never fault besides.
  \<^item> \<^verbatim>\<open>Path_Mapper\<close> (\<^verbatim>\<open>lib/mrn_path_mapper.cpp\<close>): one function per accessor on a record with the caches; the
    names derived from a path, their encoding, and the names shared by partitions.
  \<^item> \<^verbatim>\<open>Index_Names\<close> (\<^verbatim>\<open>lib/mrn_index_table_name.cpp\<close>, \<^verbatim>\<open>lib/mrn_index_column_name.cpp\<close>, \<^verbatim>\<open>lib/mrn_column_name.cpp\<close>):
    names of index tables and columns; different indexes and columns get different names.
  \<^item> \<^verbatim>\<open>Calendar\<close>, \<^verbatim>\<open>Time_Converter\<close> (\<^verbatim>\<open>lib/mrn_time_converter.cpp\<close>): the C library's calendar, and the
    conversions between MySQL's times and Groonga's; they are inverse to each other, in every time zone.
  \<^item> \<^verbatim>\<open>Parameters_Parser\<close> (\<^verbatim>\<open>lib/mrn_parameters_parser.cpp\<close>): parameters of indexes; written parameters are
    read back.
  \<^item> \<^verbatim>\<open>Table_Params\<close> (first part of \<^verbatim>\<open>mrn_table.cpp\<close>): parameters of tables and columns; the routine that
    finds a quoted string equals a reader character by character.
  \<^item> \<^verbatim>\<open>Field_Types\<close>, \<^verbatim>\<open>Encoding\<close>, \<^verbatim>\<open>Field_Normalizer\<close> (\<^verbatim>\<open>lib/mrn_encoding.cpp\<close>, \<^verbatim>\<open>lib/mrn_field_normalizer.cpp\<close>):
    field types, charsets with their encodings, and normalizers.
  \<^item> \<^verbatim>\<open>Key_Parts\<close>, \<^verbatim>\<open>Key_Codec\<close> (\<^verbatim>\<open>lib/mrn_multiple_column_key_codec.cpp\<close>, \<^verbatim>\<open>lib/mrn_value_decoder.cpp\<close>): the
    encoding of the columns of a key, each an interpretation of the locale \<^verbatim>\<open>key_part_codec\<close>, and of whole
    keys: a round trip, agreement of \<^verbatim>\<open>memcmp\<close> with the order of the columns, and exact key ranges.
  \<^item> \<^verbatim>\<open>Query_Parser\<close> (\<^verbatim>\<open>lib/mrn_query_parser.cpp\<close>): pragmas of boolean mode; the weights build well formed
    match columns.
  \<^item> \<^verbatim>\<open>Condition_Converter\<close> (\<^verbatim>\<open>lib/mrn_condition_converter.cpp\<close>): which conditions are pushed down, the
    instructions they become, a machine for these instructions, and the agreement with SQL.
  \<^item> \<^verbatim>\<open>Count_Skip\<close> (\<^verbatim>\<open>lib/mrn_count_skip_checker.cpp\<close>): when rows are counted without being read.
  \<^item> \<^verbatim>\<open>Context_Pool\<close> (\<^verbatim>\<open>lib/mrn_context_pool.cpp\<close>): threads that pull and release contexts, as a step
    relation with an invariant by rule induction.
  \<^item> \<^verbatim>\<open>Operations\<close> (\<^verbatim>\<open>lib/mrn_operations.cpp\<close>, \<^verbatim>\<open>lib/mrn_operation.cpp\<close>, the auto repair of the
    handler): the journal and the repair of a table.
  \<^item> \<^verbatim>\<open>Storage_Rows\<close>, \<^verbatim>\<open>Storage_Consistency\<close>, \<^verbatim>\<open>Storage_Properties\<close> (\<^verbatim>\<open>storage_write_row\<close>, \<^verbatim>\<open>storage_update_row\<close>,
    \<^verbatim>\<open>storage_delete_row\<close> and their helpers in \<^verbatim>\<open>ha_mroonga.cpp\<close>): row operations as functions that return
    their effects in order, so that a crash is a prefix of the effects; the keys of unique indexes are
    the keys of the rows, failed writes are undone, crashes are repaired.
  \<^item> \<^verbatim>\<open>Index_Rebuild\<close> (\<^verbatim>\<open>storage_delete_all_rows\<close>, \<^verbatim>\<open>storage_truncate*\<close>, \<^verbatim>\<open>storage_reindex\<close>, \<^verbatim>\<open>storage_enable_indexes\<close>,
    \<^verbatim>\<open>storage_disable_indexes\<close>, \<^verbatim>\<open>storage_recreate_indexes\<close>, \<^verbatim>\<open>storage_add_index_multiple_columns\<close>): the same database emptied, and its
    indexes disabled, enabled, built anew; opening after a crash gives rows and indexes that agree.
  \<^item> \<^verbatim>\<open>Auto_Increment\<close> (auto increment values in \<^verbatim>\<open>ha_mroonga.cpp\<close>): 64 bit values in the long term share.
  \<^item> \<^verbatim>\<open>Table_Share\<close> (second part of \<^verbatim>\<open>mrn_table.cpp\<close>, \<^verbatim>\<open>open\<close>, \<^verbatim>\<open>close\<close>, \<^verbatim>\<open>create\<close>, \<^verbatim>\<open>delete_table\<close>,
    \<^verbatim>\<open>rename_table\<close>): shares on an explicit heap, with reference counts; no freed share is used.
  \<^item> \<^verbatim>\<open>Database_Manager\<close> (\<^verbatim>\<open>lib/mrn_database_manager.cpp\<close>, \<^verbatim>\<open>lib/mrn_database.cpp\<close>,
    \<^verbatim>\<open>lib/mrn_database_repairer.cpp\<close>): the cache of databases; open handles are those of the cache.
  \<^item> \<^verbatim>\<open>Field_Values\<close> (\<^verbatim>\<open>mrn_grn_type_from_field\<close>, \<^verbatim>\<open>generic_store_bulk_*\<close>, \<^verbatim>\<open>storage_store_field_*\<close> of
    \<^verbatim>\<open>ha_mroonga.cpp\<close>): the values of fields, written and read.
  \<^item> \<^verbatim>\<open>Row_Reading\<close> (\<^verbatim>\<open>storage_store_field_column\<close>, \<^verbatim>\<open>storage_store_fields*\<close>): rows read into the buffer of MySQL, from columns with values,
    references and vectors or from the keys of an index; a written row is read back.
  \<^item> \<^verbatim>\<open>Search_Keys\<close> (\<^verbatim>\<open>storage_encode_key*\<close> of \<^verbatim>\<open>ha_mroonga.cpp\<close>): the key of a search in an index of one column; it
    has the bytes that writing the same value stores.
  \<^item> \<^verbatim>\<open>Index_Reads\<close>, \<^verbatim>\<open>Index_Scans\<close> (\<^verbatim>\<open>storage_index_*\<close>, \<^verbatim>\<open>storage_rnd_*\<close>, \<^verbatim>\<open>storage_get_next_record\<close>, \<^verbatim>\<open>clear_*\<close>): the bounds of
    cursors for every kind of search, the slots of the handler that hold Groonga's objects, the rows a search
    returns, the end of scans, and the balance of opened and closed objects.
  \<^item> \<^verbatim>\<open>Fast_Order\<close> (\<^verbatim>\<open>check_fast_order_limit\<close>): when Groonga sorts and cuts the rows of a query; MySQL still gets an answer to it.
  \<^item> \<^verbatim>\<open>Full_Text\<close> (\<^verbatim>\<open>mrn_generic_ft_*\<close>, \<^verbatim>\<open>mrn_storage_ft_*\<close>, \<^verbatim>\<open>generic_ft_init*\<close>, \<^verbatim>\<open>storage_ft_*\<close>): full text searches from their
    creation to the last row, with the relevance of each.
  \<^item> \<^verbatim>\<open>Object_Flags\<close> (\<^verbatim>\<open>mrn_parse_grn_*_flags\<close>, \<^verbatim>\<open>find_*_flags\<close> of \<^verbatim>\<open>ha_mroonga.cpp\<close>): the names of flags in comments and
    options; all names of a list are read.
  \<^item> \<^verbatim>\<open>Grn_Catalog\<close>: the objects of a Groonga database with handles, where the use of a removed object is a fault, and the settings of
    lexicons (\<^verbatim>\<open>set_tokenizer\<close>, \<^verbatim>\<open>set_normalizer\<close>, \<^verbatim>\<open>set_token_filters\<close>).
  \<^item> \<^verbatim>\<open>Table_Creation\<close>, \<^verbatim>\<open>Created_Tables\<close> (\<^verbatim>\<open>storage_create*\<close>, \<^verbatim>\<open>storage_inplace_alter_table_add_index\<close>): the creation of tables,
    foreign keys, columns and indexes as changes of these objects; what a creation creates, that one that returns an error
    leaves nothing behind, and where a refused index makes the code remove an object twice or remove the table itself.
  \<^item> \<^verbatim>\<open>Table_Removal\<close> (\<^verbatim>\<open>drop_index*\<close>, \<^verbatim>\<open>generic_delete_table\<close>), \<^verbatim>\<open>Table_Changes\<close> (\<^verbatim>\<open>storage_rename_*\<close>,
    \<^verbatim>\<open>storage_inplace_alter_table_*_column\<close>): dropping and renaming tables and changing columns as changes of the same objects; the loops
    over indexes end, nothing of a dropped table stays behind, and a renamed table keeps its indexes.
  \<^item> \<^verbatim>\<open>Wrapper_Index\<close> (\<^verbatim>\<open>wrapper_write_row*\<close>, \<^verbatim>\<open>wrapper_update_row*\<close>, \<^verbatim>\<open>wrapper_delete_row*\<close>, \<^verbatim>\<open>wrapper_delete_all_rows\<close>,
    \<^verbatim>\<open>wrapper_truncate*\<close>, \<^verbatim>\<open>wrapper_fill_indexes\<close> of \<^verbatim>\<open>ha_mroonga.cpp\<close>): the records and the indexes that Groonga keeps for a table
    of another engine; no sequence of statements takes them apart, and where a changed primary key does.
  \<^item> \<^verbatim>\<open>Plugin_Init\<close> (\<^verbatim>\<open>mrn_init\<close>, \<^verbatim>\<open>mrn_deinit\<close>): what the plugin acquires when it starts and releases when a step
    fails or when it stops; everything is released once, in the reverse order.
  \<^item> \<^verbatim>\<open>Udf_Highlight\<close>, \<^verbatim>\<open>Udf_Command\<close> (\<^verbatim>\<open>udf/mrn_udf_highlight_html.cpp\<close>, \<^verbatim>\<open>udf/mrn_udf_command.cpp\<close>,
    \<^verbatim>\<open>udf/mrn_udf_escape.cpp\<close>): marking keywords in a text, running a Groonga command, escaping.
  \<^item> \<^verbatim>\<open>Udf_Session\<close>: the contexts and Groonga objects that a user defined function holds during a statement, and the locale \<^verbatim>\<open>udf\<close>
    of what the server relies on, with \<^verbatim>\<open>clean_udf\<close> for functions that give everything back when they cannot start; both are interpreted by
    \<^verbatim>\<open>Udf_Snippet\<close>, \<^verbatim>\<open>Udf_Snippet_Html\<close>, \<^verbatim>\<open>Udf_Query\<close> (\<^verbatim>\<open>udf/mrn_udf_snippet*.cpp\<close>, \<^verbatim>\<open>udf/mrn_udf_normalize.cpp\<close>,
    \<^verbatim>\<open>udf/mrn_udf_query_expand.cpp\<close>, \<^verbatim>\<open>udf/mrn_udf_last_insert_grn_id.cpp\<close>).

  \<^bold>\<open>Code outside of the repository.\<close> Groonga, MySQL and the C library's clock are parameters: fields of the
  \<^verbatim>\<open>_env\<close> records or arguments. What the properties need of them are named hypotheses, each with an
  instance for which it holds: \<^verbatim>\<open>mktime_in_zone\<close> and \<^verbatim>\<open>zone_offset\<close> (\<^verbatim>\<open>mktime\<close> inverts local time),
  \<^verbatim>\<open>grn_time_packing\<close> (packing and unpacking of Groonga times), \<^verbatim>\<open>scan_promise\<close> (what
  \<^verbatim>\<open>grn_pat_scan\<close> returns lies inside of the text), \<^verbatim>\<open>charlen_promise\<close> (\<^verbatim>\<open>grn_plugin_charlen\<close>), \<^verbatim>\<open>key_len_promise\<close>
  (MySQL's lengths of key prefixes), \<^verbatim>\<open>cursor_promise\<close> (what a cursor of Groonga returns, in which order),
  \<^verbatim>\<open>key_image\<close> (MySQL's bytes of a value in a key), \<^verbatim>\<open>sort_promise\<close> and \<^verbatim>\<open>orders_agree\<close> (how Groonga
  sorts), \<^verbatim>\<open>accessor_promise\<close> and \<^verbatim>\<open>result_ok\<close> (results of Groonga's searches), \<^verbatim>\<open>removal_promise\<close> (which objects Groonga removes with one), \<^verbatim>\<open>rebuild_promise\<close> (a cursor gives every record once, and what an index built by Groonga
  holds), \<^verbatim>\<open>engine_promise\<close> (which rows the wrapped engine refuses), \<^verbatim>\<open>catalog_ok\<close> and
  \<^verbatim>\<open>catalog_wf\<close> (handles and names of a database are unique), \<^verbatim>\<open>finds\<close> (the indexes that Groonga finds for a column),
  \<^verbatim>\<open>rename_promise\<close> (Groonga refuses a name that is taken), and \<^verbatim>\<open>op_allowed\<close> (MySQL's metadata locks: a table is not dropped or renamed while it is open).

  \<^bold>\<open>Integers, loops, fuel.\<close> Integers that can overflow are words of their width (auto increment values,
  encoded keys, section numbers); positions in strings are naturals because the sources keep them inside
  of a buffer, and where they do not the model returns an error value of its own. Most loops are
  structural or have a termination proof. Three loops end only for well behaved input and have fuel: the
  marking of a text gets the length of the text and never needs more because every turn reads at least
  one character; reading the arguments of a command gets their number. The loop that drops the indexes of a column has one more turn than
  the database has objects, which is enough because every turn removes one.

  \<^bold>\<open>Not modelled.\<close> Wrapper mode beyond the key numbers, the records and the indexes (its scans, locks and creation
  hand their arguments to another engine between two exchanges of key numbers),
  the functions and variables that the plugin registers with MySQL and its settings of Groonga, classes whose only content is a destructor, macros for
  versions of MySQL. Groonga's objects that are created and closed without a decision are left out of
  the functions that do so.
\<close>

end
